(* ===== verification/Go_Prelude.thy ===== *)
theory Go_Prelude
  imports Main "HOL-Library.AList" "HOL-Library.Sublist" "HOL-Library.Multiset"
begin

text \<open>
  The vocabulary the components share: what the Go sources use of the language and of its
  standard library, and the generic lemmas about it.

  \<^item> \<open>time.Time\<close> is an \<open>int\<close>: nanoseconds since Go's zero time, so \<open>Time{}\<close> is 0 and
    \<open>IsZero\<close> is \<open>t = 0\<close>; \<open>Before\<close>, \<open>After\<close> and \<open>Equal\<close> are \<open><\<close>, \<open>>\<close> and \<open>=\<close>;
    \<open>Sub\<close> saturates at the range of the 64-bit \<open>time.Duration\<close>. Every reading of the clock
    is an argument of the operation that makes it.
  \<^item> A Go map is an association list with distinct keys (\<open>AList.update\<close>,
    \<open>AList.delete\<close>, \<open>map_of\<close>); where a loop's result depends on the iteration order
    the order is an argument.
  \<^item> A Go string is a list of bytes (\<open>string\<close>). \<open>TrimSpace\<close> is modelled on the UTF-8
    encodings of all of Unicode's white space; \<open>ToLower\<close> and \<open>ToUpper\<close> take the table-driven
    conversion of strings with non-ASCII bytes as an argument.
\<close>

named_theorems go_simps \<open>facts that unfold the standard-library vocabulary\<close>
named_theorems go_defs \<open>definitions of thin wrappers of the sources\<close>

section \<open>Time\<close>

type_synonym gotime = int
type_synonym duration = int

abbreviation (input) time_zero :: gotime where
  "time_zero \<equiv> 0"

definition time_IsZero :: "gotime \<Rightarrow> bool" where
  [go_simps]: "time_IsZero t \<longleftrightarrow> t = 0"

definition Millisecond :: duration where
  [go_simps]: "Millisecond = 1000000"

definition Second :: duration where
  [go_simps]: "Second = 1000000000"

definition Minute :: duration where
  [go_simps]: "Minute = 60 * 1000000000"

definition Hour :: duration where
  [go_simps]: "Hour = 3600 * 1000000000"

definition minDuration :: duration where
  "minDuration = - (2 ^ 63)"

definition maxDuration :: duration where
  "maxDuration = 2 ^ 63 - 1"

definition time_Sub :: "gotime \<Rightarrow> gotime \<Rightarrow> duration" where
  "time_Sub t u = max minDuration (min maxDuration (t - u))"

lemma time_Sub_le_zero_iff [simp]: "time_Sub t u \<ge> 0 \<longleftrightarrow> u \<le> t"
  by (auto simp: time_Sub_def minDuration_def maxDuration_def min_def max_def)

lemma time_Sub_gt_iff:
  assumes "minDuration \<le> d" and "d < maxDuration"
  shows "time_Sub t u > d \<longleftrightarrow> t - u > d"
  using assms by (auto simp: time_Sub_def min_def max_def)

lemma time_Sub_lt_iff:
  assumes "minDuration < d" and "d \<le> maxDuration"
  shows "time_Sub t u < d \<longleftrightarrow> t - u < d"
  using assms by (auto simp: time_Sub_def min_def max_def)

lemma time_Sub_small:
  assumes "minDuration \<le> t - u" and "t - u \<le> maxDuration"
  shows "time_Sub t u = t - u"
  using assms by (simp add: time_Sub_def)

section \<open>Maps\<close>

type_synonym ('k, 'v) gomap = "('k \<times> 'v) list"

abbreviation gm_wf :: "('k, 'v) gomap \<Rightarrow> bool" where
  "gm_wf m \<equiv> distinct (map fst m)"

lemma gm_wf_update [simp, intro]: "gm_wf m \<Longrightarrow> gm_wf (AList.update k v m)"
  by (simp add: AList.distinct_update)

lemma gm_wf_delete [simp, intro]: "gm_wf m \<Longrightarrow> gm_wf (AList.delete k m)"
  by (simp add: AList.distinct_delete)

lemma gm_wf_filter [simp, intro]: "gm_wf m \<Longrightarrow> gm_wf (filter P m)"
  by (rule distinct_map_filter)

lemma map_of_update [simp]: "map_of (AList.update k v m) = (map_of m)(k \<mapsto> v)"
  by (rule AList.update_conv')

lemma map_of_delete [simp]: "map_of (AList.delete k m) = (map_of m)(k := None)"
  by (rule AList.delete_conv')

lemma map_of_filter_wf:
  assumes "gm_wf m"
  shows "map_of (filter P m) k =
    (case map_of m k of None \<Rightarrow> None | Some v \<Rightarrow> if P (k, v) then Some v else None)"
  using assms
proof (induction m)
  case Nil
  then show ?case by simp
next
  case (Cons a m)
  have "map_of m (fst a) = None"
    using Cons.prems by (auto simp: map_of_eq_None_iff)
  with Cons show ?case
    by (cases a) (auto split: option.splits)
qed

lemma length_update:
  "length (AList.update k v m) = (if map_of m k = None then Suc (length m) else length m)"
  by (induction m) (auto simp: map_of_eq_None_iff)

lemma length_delete_le [simp]: "length (AList.delete k m) \<le> length m"
  by (simp add: AList.delete_eq)

lemma length_delete_bound [simp]:
  "int (length m) \<le> n \<Longrightarrow> int (length (AList.delete k m)) \<le> n"
  using length_delete_le [of k m] by linarith

lemma length_delete:
  assumes "gm_wf m"
  shows "length (AList.delete k m) = (if map_of m k = None then length m else length m - 1)"
  using assms
proof (induction m)
  case Nil
  then show ?case by simp
next
  case (Cons a m)
  show ?case
  proof (cases "fst a = k")
    case True
    with Cons.prems have "map_of m k = None"
      by (auto simp: map_of_eq_None_iff)
    with True Cons show ?thesis by (cases a) auto
  next
    case False
    have "length m > 0" if "map_of m k \<noteq> None"
      using that by (cases m) auto
    with False Cons show ?thesis by (cases a) auto
  qed
qed

lemma map_of_Some_in_set: "map_of m k = Some v \<Longrightarrow> (k, v) \<in> set m"
  by (rule map_of_SomeD)

lemma gm_wf_in_set: "gm_wf m \<Longrightarrow> (k, v) \<in> set m \<Longrightarrow> map_of m k = Some v"
  by simp

lemma set_delete_wf: "set (AList.delete k m) = {p \<in> set m. fst p \<noteq> k}"
  by (auto simp: AList.delete_eq)

lemma set_update_subset: "set (AList.update k v m) \<subseteq> insert (k, v) (set m)"
  by (induction m) auto

lemma fst_set_update [simp]: "fst ` set (AList.update k v m) = insert k (fst ` set m)"
  by (induction m) auto

lemma fst_set_delete [simp]: "fst ` set (AList.delete k m) = fst ` set m - {k}"
  by (force simp: AList.delete_eq)

lemma find_SomeD:
  assumes "find P xs = Some x"
  shows "x \<in> set xs" and "P x"
  using assms by (auto simp: find_Some_iff)

lemma find_the:
  assumes "x \<in> set xs" and "P x" and "\<And>y. y \<in> set xs \<Longrightarrow> P y \<Longrightarrow> y = x"
  shows "find P xs = Some x"
proof (cases "find P xs")
  case None
  then show ?thesis using assms(1,2) by (simp add: find_None_iff)
next
  case (Some y)
  then show ?thesis using assms(3) [OF find_SomeD [OF Some]] by simp
qed

section \<open>Strings\<close>

definition byte_of :: "char \<Rightarrow> nat" where
  [go_simps]: "byte_of c = of_char c"

definition ascii_string :: "string \<Rightarrow> bool" where
  "ascii_string s \<longleftrightarrow> list_all (\<lambda>c. byte_of c < 128) s"

definition ascii_lower :: "char \<Rightarrow> char" where
  "ascii_lower c = (if 65 \<le> byte_of c \<and> byte_of c \<le> 90 then char_of (byte_of c + 32) else c)"

definition ascii_upper :: "char \<Rightarrow> char" where
  "ascii_upper c = (if 97 \<le> byte_of c \<and> byte_of c \<le> 122 then char_of (byte_of c - 32) else c)"

text \<open>
  \<open>strings.ToLower\<close> and \<open>strings.ToUpper\<close>: bytes of an ASCII string are converted one by one;
  a string with a byte above 127 is decoded and converted by the Unicode tables, the
  argument \<open>u\<close>.
\<close>

definition strings_ToLower :: "(string \<Rightarrow> string) \<Rightarrow> string \<Rightarrow> string" where
  "strings_ToLower u s = (if ascii_string s then map ascii_lower s else u s)"

definition strings_ToUpper :: "(string \<Rightarrow> string) \<Rightarrow> string \<Rightarrow> string" where
  "strings_ToUpper u s = (if ascii_string s then map ascii_upper s else u s)"

lemma strings_ToLower_eq_Nil:
  assumes "\<And>s. u s = [] \<longleftrightarrow> s = []"
  shows "strings_ToLower u s = [] \<longleftrightarrow> s = []"
  using assms by (simp add: strings_ToLower_def)

lemma strings_ToLower_Nil [simp]: "strings_ToLower u [] = []"
  by (simp add: strings_ToLower_def ascii_string_def)

subsection \<open>TrimSpace\<close>

text \<open>
  The UTF-8 encodings of the code points \<open>unicode.IsSpace\<close> accepts: U+0009 to U+000D, U+0020,
  U+0085, U+00A0, U+1680, U+2000 to U+200A, U+2028, U+2029, U+202F, U+205F and U+3000. A byte
  sequence that is not one of these never decodes to a white-space code point, and an encoding
  at the end of a string is the last rune of it, so trimming runes is trimming these sequences.
\<close>

definition unicode_spaces :: "string list" where
  "unicode_spaces =
     [[CHR 0x20], [CHR 0x09], [CHR 0x0A], [CHR 0x0B], [CHR 0x0C], [CHR 0x0D],
      [CHR 0xC2, CHR 0x85], [CHR 0xC2, CHR 0xA0], [CHR 0xE1, CHR 0x9A, CHR 0x80]]
     @ map (\<lambda>b. [CHR 0xE2, CHR 0x80, b])
         [CHR 0x80, CHR 0x81, CHR 0x82, CHR 0x83, CHR 0x84, CHR 0x85, CHR 0x86, CHR 0x87,
          CHR 0x88, CHR 0x89, CHR 0x8A, CHR 0xA8, CHR 0xA9, CHR 0xAF]
     @ [[CHR 0xE2, CHR 0x81, CHR 0x9F], [CHR 0xE3, CHR 0x80, CHR 0x80]]"

function trim_prefixes :: "'a list list \<Rightarrow> 'a list \<Rightarrow> 'a list" where
  "trim_prefixes es s =
     (case List.find (\<lambda>e. e \<noteq> [] \<and> prefix e s) es of
        None \<Rightarrow> s
      | Some e \<Rightarrow> trim_prefixes es (drop (length e) s))"
  by pat_completeness auto
termination
proof (relation "measure (\<lambda>(es, s). length s)", simp)
  fix es :: "'a list list" and s e
  assume "List.find (\<lambda>e. e \<noteq> [] \<and> prefix e s) es = Some e"
  then have "e \<noteq> []" and "prefix e s"
    by (auto simp: find_Some_iff)
  then have "0 < length e" and "length e \<le> length s"
    by (auto dest: prefix_length_le)
  then have "length s - length e < length s"
    by linarith
  then show "((es, drop (length e) s), (es, s)) \<in> measure (\<lambda>(es, s). length s)"
    by simp
qed

declare trim_prefixes.simps [simp del]

definition strings_TrimSpace :: "string \<Rightarrow> string" where
  "strings_TrimSpace s =
     rev (trim_prefixes (map rev unicode_spaces) (rev (trim_prefixes unicode_spaces s)))"

lemma trim_prefixes_suffix: "suffix (trim_prefixes es s) s"
proof (induction es s rule: trim_prefixes.induct)
  case (1 es s)
  show ?case
  proof (cases "List.find (\<lambda>e. e \<noteq> [] \<and> prefix e s) es")
    case None
    then show ?thesis by (simp add: trim_prefixes.simps [of es s])
  next
    case (Some e)
    have "suffix (trim_prefixes es (drop (length e) s)) (drop (length e) s)"
      using "1.IH" Some by simp
    then show ?thesis
      using Some by (simp add: trim_prefixes.simps [of es s])
        (meson suffix_drop suffix_order.trans)
  qed
qed

lemma trim_prefixes_fixed_iff:
  "trim_prefixes es s = s \<longleftrightarrow> (\<forall>e \<in> set es. e \<noteq> [] \<longrightarrow> \<not> prefix e s)"
proof (cases "List.find (\<lambda>e. e \<noteq> [] \<and> prefix e s) es")
  case None
  then have "trim_prefixes es s = s"
    by (simp add: trim_prefixes.simps [of es s])
  with None show ?thesis by (auto simp: find_None_iff)
next
  case (Some e)
  then have e: "e \<in> set es" "e \<noteq> []" "prefix e s"
    by (auto simp: find_Some_iff)
  then have "0 < length e" and "length e \<le> length s"
    by (auto dest: prefix_length_le)
  then have "length s - length e < length s"
    by linarith
  then have "length (drop (length e) s) < length s"
    by simp
  moreover have "length (trim_prefixes es (drop (length e) s)) \<le> length (drop (length e) s)"
    using trim_prefixes_suffix suffix_length_le by blast
  ultimately have "trim_prefixes es s \<noteq> s"
    using Some by (auto simp: trim_prefixes.simps [of es s])
  with e show ?thesis by blast
qed

lemma trim_prefixes_done:
  "e \<in> set es \<Longrightarrow> e \<noteq> [] \<Longrightarrow> \<not> prefix e (trim_prefixes es s)"
proof (induction es s rule: trim_prefixes.induct)
  case (1 es s)
  show ?case
  proof (cases "List.find (\<lambda>e. e \<noteq> [] \<and> prefix e s) es")
    case None
    then have "trim_prefixes es s = s"
      by (simp add: trim_prefixes.simps [of es s])
    with None "1.prems" show ?thesis by (auto simp: find_None_iff)
  next
    case (Some e')
    with "1.IH" "1.prems" show ?thesis
      by (simp add: trim_prefixes.simps [of es s])
  qed
qed

lemma trim_prefixes_idem [simp]: "trim_prefixes es (trim_prefixes es s) = trim_prefixes es s"
  by (auto simp: trim_prefixes_fixed_iff trim_prefixes_done)

lemma strings_TrimSpace_prefix: "prefix (strings_TrimSpace s) (trim_prefixes unicode_spaces s)"
  unfolding strings_TrimSpace_def
  by (metis rev_rev_ident suffix_to_prefix trim_prefixes_suffix)

lemma strings_TrimSpace_sublist: "sublist (strings_TrimSpace s) s"
  using strings_TrimSpace_prefix [of s] trim_prefixes_suffix [of unicode_spaces s]
  by (meson prefix_imp_sublist sublist_order.order_trans suffix_imp_sublist)

text \<open>Trimming is idempotent: what it returns has no white space at either end.\<close>

lemma strings_TrimSpace_idem [simp]:
  "strings_TrimSpace (strings_TrimSpace s) = strings_TrimSpace s"
proof -
  let ?t = "strings_TrimSpace s"
  have "trim_prefixes unicode_spaces ?t = ?t"
    using trim_prefixes_done strings_TrimSpace_prefix [of s] prefix_order.order_trans
    unfolding trim_prefixes_fixed_iff by blast
  then show ?thesis
    by (simp add: strings_TrimSpace_def)
qed

lemma strings_TrimSpace_Nil [simp]: "strings_TrimSpace [] = []"
  using strings_TrimSpace_sublist [of "[]"] by simp

lemma strings_TrimSpace_length: "length (strings_TrimSpace s) \<le> length s"
  by (rule sublist_length_le) (rule strings_TrimSpace_sublist)

section \<open>Lists\<close>

lemma find_first_index:
  "List.find P xs = Some x \<Longrightarrow> \<exists>i < length xs. xs ! i = x \<and> P x \<and> (\<forall>j < i. \<not> P (xs ! j))"
  by (auto simp: find_Some_iff)

lemma foldl_count: "foldl (\<lambda>n x. if P x then n + 1 else n) (a :: int) xs = a + int (length (filter P xs))"
  by (induction xs arbitrary: a) auto

lemma in_set_map_filter_iff:
  "x \<in> set (List.map_filter f xs) \<longleftrightarrow> (\<exists>y \<in> set xs. f y = Some x)"
  by (force simp: map_filter_def)

lemma length_filter_less: "x \<in> set xs \<Longrightarrow> \<not> P x \<Longrightarrow> length (filter P xs) < length xs"
  by (induction xs) (auto simp: le_imp_less_Suc)

end
