(* ===== verification/Failover.thy ===== *)
theory Failover
  imports Go_Prelude
begin

text \<open>
  The account failover loop of the gateway handlers (\<open>internal/handler/failover_loop.go\<close>): the
  state shared by the iterations of one request, the decisions taken after an upstream error, a
  profit veto and an empty selection, and the loop that consumes them.

  The request's context is represented by the outcomes the code observes: whether it is already
  cancelled at the check (\<open>done\<close>) and, for each wait, whether the timer fires before the
  context is cancelled (\<open>fires\<close>). A call that writes outside the state (a temporary
  un-scheduling, a wait) is recorded in the list of effects an operation returns, in order.
\<close>

section \<open>Upstream failures\<close>

datatype NextAccountAction = NextAccountLegacyRetry | NextAccountRetry | NextAccountStop

record UpstreamFailoverError =
  ufe_StatusCode :: int
  ufe_ResponseBody :: string
  ufe_ResponseHeaders :: "(string \<times> string list) list"
  ufe_ForceCacheBilling :: bool
  ufe_RetryableOnSameAccount :: bool
  ufe_RequestScopedTransient :: bool
  ufe_SafeToFailoverAfterWrite :: bool
  ufe_Stage :: string
  ufe_Scope :: string
  ufe_Reason :: string
  ufe_NextAccountAction :: NextAccountAction
  ufe_ClientStatusCode :: int
  ufe_ClientMessage :: string

definition ShouldRetryNextAccount :: "UpstreamFailoverError option \<Rightarrow> bool" where
  "ShouldRetryNextAccount e =
     (case e of None \<Rightarrow> False | Some e \<Rightarrow> ufe_NextAccountAction e \<noteq> NextAccountStop)"

definition IsCredentialFailure :: "UpstreamFailoverError option \<Rightarrow> bool" where
  "IsCredentialFailure e =
     (case e of None \<Rightarrow> False | Some e \<Rightarrow> ufe_Stage e = ''account_auth'')"

definition ShouldReportAccountScheduleFailure :: "UpstreamFailoverError option \<Rightarrow> bool" where
  "ShouldReportAccountScheduleFailure e =
     (case e of None \<Rightarrow> False
      | Some e' \<Rightarrow> \<not> IsCredentialFailure e \<or> ufe_Scope e' = ''account'')"

text \<open>What the operations do outside their state.\<close>

datatype fo_effect =
    SetTempUnschedulable int gotime string
  | Slept duration

definition tempUnscheduleGoogleConfigError :: "gotime \<Rightarrow> int \<Rightarrow> fo_effect list" where
  "tempUnscheduleGoogleConfigError now accountID =
     [SetTempUnschedulable accountID (now + Minute)
        ''400: invalid project resource name (auto temp-unschedule 1m)'']"

definition tempUnscheduleEmptyResponse :: "gotime \<Rightarrow> int \<Rightarrow> fo_effect list" where
  "tempUnscheduleEmptyResponse now accountID =
     [SetTempUnschedulable accountID (now + Minute)
        ''empty stream response (auto temp-unschedule 1m)'']"

definition TempUnscheduleRetryableError ::
  "gotime \<Rightarrow> int \<Rightarrow> UpstreamFailoverError option \<Rightarrow> fo_effect list" where
  "TempUnscheduleRetryableError now accountID failoverErr =
     (case failoverErr of
        None \<Rightarrow> []
      | Some e \<Rightarrow>
          if \<not> ufe_RetryableOnSameAccount e then []
          else if ufe_RequestScopedTransient e then []
          else if ufe_StatusCode e = 400 then tempUnscheduleGoogleConfigError now accountID
          else if ufe_StatusCode e = 502 then tempUnscheduleEmptyResponse now accountID
          else [])"

section \<open>The state of one request\<close>

datatype FailoverAction = FailoverContinue | FailoverExhausted | FailoverCanceled

definition sameAccountRetryDelay :: duration where
  "sameAccountRetryDelay = 500 * Millisecond"

definition singleAccountBackoffDelay :: duration where
  "singleAccountBackoffDelay = 2 * Second"

definition maxProfitVetoAttempts :: int where
  "maxProfitVetoAttempts = 10"

record FailoverState =
  fs_SwitchCount :: int
  fs_MaxSwitches :: int
  fs_FailedAccountIDs :: "int set"
  fs_SameAccountRetryCount :: "int \<rightharpoonup> int"
  fs_LastFailoverErr :: "UpstreamFailoverError option"
  fs_ForceCacheBilling :: bool
  fs_hasBoundSession :: bool
  fs_profitVetoedAccountIDs :: "int set"
  fs_profitVetoCount :: int

definition NewFailoverState :: "int \<Rightarrow> bool \<Rightarrow> FailoverState" where
  "NewFailoverState maxSwitches hasBoundSession =
     \<lparr> fs_SwitchCount = 0, fs_MaxSwitches = maxSwitches, fs_FailedAccountIDs = {},
       fs_SameAccountRetryCount = Map.empty, fs_LastFailoverErr = None,
       fs_ForceCacheBilling = False, fs_hasBoundSession = hasBoundSession,
       fs_profitVetoedAccountIDs = {}, fs_profitVetoCount = 0 \<rparr>"

definition retryCount :: "FailoverState \<Rightarrow> int \<Rightarrow> int" where
  "retryCount s a = (case fs_SameAccountRetryCount s a of None \<Rightarrow> 0 | Some n \<Rightarrow> n)"

definition RecordProfitVeto :: "FailoverState \<Rightarrow> int \<Rightarrow> FailoverState \<times> FailoverAction" where
  "RecordProfitVeto s accountID =
     (let s' = s \<lparr> fs_FailedAccountIDs := insert accountID (fs_FailedAccountIDs s),
                  fs_profitVetoedAccountIDs := insert accountID (fs_profitVetoedAccountIDs s),
                  fs_profitVetoCount := fs_profitVetoCount s + 1 \<rparr>
      in (s', if fs_profitVetoCount s' \<ge> maxProfitVetoAttempts then FailoverExhausted
              else FailoverContinue))"

definition allExclusionsAreProfitVetoed :: "FailoverState \<Rightarrow> bool" where
  "allExclusionsAreProfitVetoed s \<longleftrightarrow>
     (if fs_profitVetoedAccountIDs s = {} \<or> fs_FailedAccountIDs s = {} then False
      else (\<forall>i \<in> fs_FailedAccountIDs s. i \<in> fs_profitVetoedAccountIDs s))"

definition needForceCacheBilling :: "bool \<Rightarrow> UpstreamFailoverError option \<Rightarrow> bool \<Rightarrow> bool" where
  "needForceCacheBilling hasBoundSession failoverErr sameAccountRetry \<longleftrightarrow>
     (hasBoundSession \<and> \<not> sameAccountRetry) \<or>
     (case failoverErr of None \<Rightarrow> False | Some e \<Rightarrow> ufe_ForceCacheBilling e)"

definition sleepWithContext :: "(duration \<Rightarrow> bool) \<Rightarrow> duration \<Rightarrow> bool" where
  "sleepWithContext fires d = (if d \<le> 0 then True else fires d)"

definition HandleFailoverError ::
  "bool \<Rightarrow> (duration \<Rightarrow> bool) \<Rightarrow> gotime \<Rightarrow> FailoverState \<Rightarrow> int \<Rightarrow> string \<Rightarrow> int
    \<Rightarrow> UpstreamFailoverError option \<Rightarrow> FailoverState \<times> FailoverAction \<times> fo_effect list" where
  "HandleFailoverError ctx_done fires now s accountID platform retryLimit failoverErr =
     (if ctx_done then (s, FailoverCanceled, [])
      else
        let s = s \<lparr> fs_LastFailoverErr := failoverErr \<rparr> in
        case failoverErr of
          None \<Rightarrow> (s, FailoverExhausted, [])
        | Some e \<Rightarrow>
            if \<not> ShouldRetryNextAccount failoverErr then (s, FailoverExhausted, [])
            else
              let sameAccountRetry =
                    ufe_RetryableOnSameAccount e \<and> retryCount s accountID < retryLimit;
                  s = (if needForceCacheBilling (fs_hasBoundSession s) failoverErr sameAccountRetry
                       then s \<lparr> fs_ForceCacheBilling := True \<rparr> else s)
              in
                if ufe_RetryableOnSameAccount e \<and> retryCount s accountID < retryLimit then
                  let s = s \<lparr> fs_SameAccountRetryCount :=
                        (fs_SameAccountRetryCount s)(accountID \<mapsto> retryCount s accountID + 1) \<rparr>
                  in if \<not> sleepWithContext fires sameAccountRetryDelay
                     then (s, FailoverCanceled, [Slept sameAccountRetryDelay])
                     else (s, FailoverContinue, [Slept sameAccountRetryDelay])
                else
                  let effs = (if ufe_RetryableOnSameAccount e
                              then TempUnscheduleRetryableError now accountID failoverErr else []);
                      s = s \<lparr> fs_FailedAccountIDs := insert accountID (fs_FailedAccountIDs s) \<rparr>
                  in
                    if fs_SwitchCount s \<ge> fs_MaxSwitches s then (s, FailoverExhausted, effs)
                    else
                      let s = s \<lparr> fs_SwitchCount := fs_SwitchCount s + 1 \<rparr> in
                      if platform = ''antigravity'' then
                        let delay = (fs_SwitchCount s - 1) * Second in
                        if \<not> sleepWithContext fires delay
                        then (s, FailoverCanceled, effs @ [Slept delay])
                        else (s, FailoverContinue, effs @ [Slept delay])
                      else (s, FailoverContinue, effs))"

definition HandleSelectionExhausted ::
  "bool \<Rightarrow> (duration \<Rightarrow> bool) \<Rightarrow> FailoverState \<Rightarrow> FailoverState \<times> FailoverAction \<times> fo_effect list" where
  "HandleSelectionExhausted ctx_done fires s =
     (if ctx_done then (s, FailoverCanceled, [])
      else if (case fs_LastFailoverErr s of None \<Rightarrow> False | Some e \<Rightarrow> ufe_StatusCode e = 503)
              \<and> fs_SwitchCount s \<le> fs_MaxSwitches s
      then
        if allExclusionsAreProfitVetoed s then (s, FailoverExhausted, [])
        else if \<not> sleepWithContext fires singleAccountBackoffDelay
        then (s, FailoverCanceled, [Slept singleAccountBackoffDelay])
        else (s \<lparr> fs_FailedAccountIDs := fs_profitVetoedAccountIDs s \<rparr>, FailoverContinue,
              [Slept singleAccountBackoffDelay])
      else (s, FailoverExhausted, []))"

section \<open>The loop\<close>

text \<open>
  One iteration of the selection loop as far as it touches the state: the selection returned no
  account, the profit gate vetoed the selected one, or forwarding to it failed with a failover
  error before a byte was written to the client. \<open>Some\<close> is the \<open>continue\<close> of the loop, \<open>None\<close> a return;
  iterations that return for another reason are not events. The loop for Anthropic requests also has an outer
  loop, which starts this one over with a fresh state, at most once, when the prompt is too long and the
  group has a fallback group; that restart is not modelled.
\<close>

datatype loop_event =
    SelectionFailed bool "duration \<Rightarrow> bool"
  | ProfitVetoed int
  | ForwardFailed bool "duration \<Rightarrow> bool" gotime int string int "UpstreamFailoverError option"

definition continue_with :: "'s \<times> FailoverAction \<Rightarrow> 's option" where
  "continue_with r = (if snd r = FailoverContinue then Some (fst r) else None)"

definition selection_failed :: "bool \<Rightarrow> (duration \<Rightarrow> bool) \<Rightarrow> FailoverState \<Rightarrow> FailoverState option" where
  "selection_failed ctx_done fires s =
     (if fs_FailedAccountIDs s = {} then None
      else case HandleSelectionExhausted ctx_done fires s of (s', a, _) \<Rightarrow> continue_with (s', a))"

definition profit_vetoed :: "int \<Rightarrow> FailoverState \<Rightarrow> FailoverState option" where
  "profit_vetoed accountID s = continue_with (RecordProfitVeto s accountID)"

definition forward_failed ::
  "bool \<Rightarrow> (duration \<Rightarrow> bool) \<Rightarrow> gotime \<Rightarrow> int \<Rightarrow> string \<Rightarrow> int \<Rightarrow> UpstreamFailoverError option \<Rightarrow> FailoverState \<Rightarrow>
     FailoverState option" where
  "forward_failed ctx_done fires now accountID platform retryLimit e s =
     (case HandleFailoverError ctx_done fires now s accountID platform retryLimit e of
        (s', a, _) \<Rightarrow> continue_with (s', a))"

declare selection_failed_def [simp] profit_vetoed_def [simp] forward_failed_def [simp]

fun loop_step :: "FailoverState \<Rightarrow> loop_event \<Rightarrow> FailoverState option" where
  "loop_step s (SelectionFailed ctx_done fires) = selection_failed ctx_done fires s"
| "loop_step s (ProfitVetoed accountID) = profit_vetoed accountID s"
| "loop_step s (ForwardFailed ctx_done fires now accountID platform retryLimit e) =
     forward_failed ctx_done fires now accountID platform retryLimit e s"

fun loop_run :: "FailoverState \<Rightarrow> loop_event list \<Rightarrow> FailoverState option" where
  "loop_run s [] = Some s"
| "loop_run s (e # es) = (case loop_step s e of None \<Rightarrow> None | Some s' \<Rightarrow> loop_run s' es)"

inductive loop_reachable :: "int \<Rightarrow> bool \<Rightarrow> FailoverState \<Rightarrow> bool" for m b where
  start: "loop_reachable m b (NewFailoverState m b)"
| step: "loop_reachable m b s \<Longrightarrow> loop_step s e = Some s' \<Longrightarrow> loop_reachable m b s'"

lemmas failover_defs =
  HandleFailoverError_def HandleSelectionExhausted_def RecordProfitVeto_def continue_with_def
  retryCount_def

text \<open>The ways an iteration can continue.\<close>

lemma SelectionFailed_continue:
  assumes "loop_step s (SelectionFailed d f) = Some s'"
  shows "s' = s \<lparr> fs_FailedAccountIDs := fs_profitVetoedAccountIDs s \<rparr>"
    and "\<not> fs_FailedAccountIDs s \<subseteq> fs_profitVetoedAccountIDs s"
  using assms
  by (auto simp: failover_defs allExclusionsAreProfitVetoed_def split: if_splits option.splits)

lemma ProfitVetoed_continue:
  assumes "loop_step s (ProfitVetoed a) = Some s'"
  shows "s' = fst (RecordProfitVeto s a)" and "fs_profitVetoCount s + 1 < maxProfitVetoAttempts"
  using assms by (auto simp: failover_defs Let_def split: if_splits)

lemma HandleFailoverError_retry:
  assumes "ShouldRetryNextAccount (Some e)" and "ufe_RetryableOnSameAccount e"
    and "retryCount s a < r"
  shows "HandleFailoverError False f now s a p r (Some e) =
    (s \<lparr> fs_LastFailoverErr := Some e,
         fs_ForceCacheBilling := fs_ForceCacheBilling s \<or> ufe_ForceCacheBilling e,
         fs_SameAccountRetryCount := (fs_SameAccountRetryCount s)(a \<mapsto> retryCount s a + 1) \<rparr>,
     if sleepWithContext f sameAccountRetryDelay then FailoverContinue else FailoverCanceled,
     [Slept sameAccountRetryDelay])"
  using assms
  by (simp add: HandleFailoverError_def needForceCacheBilling_def retryCount_def Let_def)

lemma HandleFailoverError_switch:
  fixes s :: FailoverState
  assumes "ShouldRetryNextAccount (Some e)"
    and "\<not> (ufe_RetryableOnSameAccount e \<and> retryCount s a < r)"
  defines "s1 \<equiv> s \<lparr> fs_LastFailoverErr := Some e,
      fs_ForceCacheBilling := fs_ForceCacheBilling s \<or> fs_hasBoundSession s \<or> ufe_ForceCacheBilling e,
      fs_FailedAccountIDs := insert a (fs_FailedAccountIDs s) \<rparr>"
  shows "HandleFailoverError False f now s a p r (Some e) =
    (let effs = TempUnscheduleRetryableError now a (Some e);
         delay = fs_SwitchCount s * Second
     in if fs_SwitchCount s \<ge> fs_MaxSwitches s then (s1, FailoverExhausted, effs)
        else (s1 \<lparr> fs_SwitchCount := fs_SwitchCount s + 1 \<rparr>,
              if p = ''antigravity'' \<and> \<not> sleepWithContext f delay then FailoverCanceled
              else FailoverContinue,
              if p = ''antigravity'' then effs @ [Slept delay] else effs))"
proof -
  have "TempUnscheduleRetryableError now a (Some e) = []" if "\<not> ufe_RetryableOnSameAccount e"
    using that by (simp add: TempUnscheduleRetryableError_def)
  with assms show ?thesis
    by (auto simp add: HandleFailoverError_def needForceCacheBilling_def retryCount_def s1_def Let_def)
qed

lemma HandleFailoverError_stop:
  assumes "ctx_done \<or> \<not> ShouldRetryNextAccount e"
  shows "fst (snd (HandleFailoverError ctx_done f now s a p r e)) \<noteq> FailoverContinue"
  using assms by (cases e) (auto simp: HandleFailoverError_def Let_def)

lemma ForwardFailed_continue:
  assumes "loop_step s (ForwardFailed d f now a p r e) = Some s'"
  obtains (retry) "retryCount s a < r" "retryCount s' = (retryCount s)(a := retryCount s a + 1)"
      "fs_SwitchCount s' = fs_SwitchCount s" "fs_FailedAccountIDs s' = fs_FailedAccountIDs s"
      "fs_MaxSwitches s' = fs_MaxSwitches s" "fs_profitVetoCount s' = fs_profitVetoCount s"
      "fs_profitVetoedAccountIDs s' = fs_profitVetoedAccountIDs s"
  | (switch) "fs_SwitchCount s < fs_MaxSwitches s" "fs_SwitchCount s' = fs_SwitchCount s + 1"
      "retryCount s' = retryCount s" "fs_FailedAccountIDs s' = insert a (fs_FailedAccountIDs s)"
      "fs_MaxSwitches s' = fs_MaxSwitches s" "fs_profitVetoCount s' = fs_profitVetoCount s"
      "fs_profitVetoedAccountIDs s' = fs_profitVetoedAccountIDs s"
proof -
  have "\<not> d" and "ShouldRetryNextAccount e"
    using assms HandleFailoverError_stop [of d e f now s a p r]
    by (auto simp: continue_with_def split: prod.splits if_splits)
  then obtain x where x: "e = Some x" "\<not> d" "ShouldRetryNextAccount (Some x)"
    by (cases e) (auto simp: ShouldRetryNextAccount_def)
  show thesis
  proof (cases "ufe_RetryableOnSameAccount x \<and> retryCount s a < r")
    case True
    then have "s' = fst (HandleFailoverError False f now s a p r (Some x))"
      using assms x by (auto simp: continue_with_def split: prod.splits if_splits)
    with True x retry show thesis
      by (simp add: HandleFailoverError_retry retryCount_def fun_eq_iff)
  next
    case False
    then have "s' = fst (HandleFailoverError False f now s a p r (Some x))"
      and "fst (snd (HandleFailoverError False f now s a p r (Some x))) = FailoverContinue"
      using assms x by (auto simp: continue_with_def split: prod.splits if_splits)
    with False x switch show thesis
      by (simp add: HandleFailoverError_switch retryCount_def Let_def fun_eq_iff split: if_splits)
  qed
qed

section \<open>Invariant\<close>

definition fs_inv :: "FailoverState \<Rightarrow> bool" where
  "fs_inv s \<longleftrightarrow>
     fs_profitVetoedAccountIDs s \<subseteq> fs_FailedAccountIDs s \<and>
     finite (fs_FailedAccountIDs s) \<and>
     0 \<le> fs_SwitchCount s \<and> fs_SwitchCount s \<le> max 0 (fs_MaxSwitches s) \<and>
     0 \<le> fs_profitVetoCount s \<and> fs_profitVetoCount s < maxProfitVetoAttempts \<and>
     (\<forall>a. 0 \<le> retryCount s a)"

lemma fs_inv_New [simp]: "fs_inv (NewFailoverState m b)"
  by (simp add: fs_inv_def NewFailoverState_def retryCount_def maxProfitVetoAttempts_def)

lemma fs_inv_step:
  assumes "fs_inv s" and "loop_step s e = Some s'"
  shows "fs_inv s'"
proof (cases e)
  case (SelectionFailed d f)
  show ?thesis
    using assms(1) SelectionFailed_continue(1) [OF assms(2) [unfolded SelectionFailed]]
    by (auto simp: fs_inv_def retryCount_def finite_subset)
next
  case (ProfitVetoed a)
  show ?thesis
    using assms(1) ProfitVetoed_continue [OF assms(2) [unfolded ProfitVetoed]]
    by (auto simp: fs_inv_def RecordProfitVeto_def retryCount_def)
next
  case (ForwardFailed d f now a p r er)
  from assms(2) show ?thesis
    unfolding ForwardFailed
    by (cases rule: ForwardFailed_continue) (use assms(1) in \<open>auto simp: fs_inv_def\<close>)
qed

lemma loop_step_frame:
  assumes "loop_step s e = Some s'"
  shows "fs_MaxSwitches s' = fs_MaxSwitches s \<and>
    fs_profitVetoedAccountIDs s \<subseteq> fs_profitVetoedAccountIDs s'"
proof (cases e)
  case (SelectionFailed d f)
  show ?thesis
    using SelectionFailed_continue(1) [OF assms [unfolded SelectionFailed]] by simp
next
  case (ProfitVetoed a)
  show ?thesis
    using ProfitVetoed_continue(1) [OF assms [unfolded ProfitVetoed]]
    by (auto simp: RecordProfitVeto_def)
next
  case (ForwardFailed d f now a p r er)
  from assms show ?thesis
    unfolding ForwardFailed by (cases rule: ForwardFailed_continue) auto
qed

section \<open>Termination of the loop\<close>

text \<open>
  What is left to spend: two units for every account switch, one while the exclusion list holds
  an account that is not there by veto, the same-account retries of the accounts in \<open>A\<close>, and
  the vetoes.
\<close>

definition retries_left :: "int set \<Rightarrow> int \<Rightarrow> FailoverState \<Rightarrow> nat" where
  "retries_left A R s = (\<Sum>a \<in> A. nat (R - retryCount s a))"

definition loop_budget :: "int set \<Rightarrow> int \<Rightarrow> FailoverState \<Rightarrow> nat" where
  "loop_budget A R s =
     2 * nat (fs_MaxSwitches s - fs_SwitchCount s)
     + (if fs_FailedAccountIDs s \<subseteq> fs_profitVetoedAccountIDs s then 0 else 1)
     + retries_left A R s + nat (maxProfitVetoAttempts - 1 - fs_profitVetoCount s)"

fun event_within :: "int set \<Rightarrow> int \<Rightarrow> loop_event \<Rightarrow> bool" where
  "event_within A R (ForwardFailed d f now a p r e) \<longleftrightarrow> a \<in> A \<and> r \<le> R"
| "event_within A R _ \<longleftrightarrow> True"

lemma retries_left_cong: "retryCount s' = retryCount s \<Longrightarrow> retries_left A R s' = retries_left A R s"
  by (simp add: retries_left_def)

lemma retries_left_retry:
  assumes "finite A" and "a \<in> A" and "retryCount s a < R"
    and "retryCount s' = (retryCount s)(a := retryCount s a + 1)"
  shows "retries_left A R s' < retries_left A R s"
  unfolding retries_left_def
proof (rule sum_strict_mono_ex1)
  show "\<exists>x \<in> A. nat (R - retryCount s' x) < nat (R - retryCount s x)"
    using assms by (intro bexI [of _ a]) auto
qed (use assms in auto)

lemma loop_budget_step:
  assumes "finite A" and "event_within A R e" and "loop_step s e = Some s'"
  shows "loop_budget A R s' < loop_budget A R s"
proof (cases e)
  case (SelectionFailed d f)
  show ?thesis
    using SelectionFailed_continue [OF assms(3) [unfolded SelectionFailed]]
    by (simp add: loop_budget_def retries_left_def retryCount_def)
next
  case (ProfitVetoed a)
  show ?thesis
    using ProfitVetoed_continue [OF assms(3) [unfolded ProfitVetoed]]
    by (auto simp: loop_budget_def retries_left_def retryCount_def RecordProfitVeto_def)
next
  case (ForwardFailed d f now a p r er)
  then have A: "a \<in> A" "r \<le> R"
    using assms(2) by auto
  from assms(3) show ?thesis
    unfolding ForwardFailed
  proof (cases rule: ForwardFailed_continue)
    case retry
    then have "retries_left A R s' < retries_left A R s"
      using retries_left_retry [OF assms(1) A(1)] A(2) by simp
    with retry show ?thesis by (simp add: loop_budget_def)
  next
    case switch
    then show ?thesis
      using retries_left_cong [OF switch(3), of A R] by (auto simp: loop_budget_def)
  qed
qed

lemma loop_run_length:
  assumes "finite A" and "loop_run s es = Some s'" and "list_all (event_within A R) es"
  shows "length es + loop_budget A R s' \<le> loop_budget A R s"
  using assms(2,3)
proof (induction es arbitrary: s)
  case Nil
  then show ?case by simp
next
  case (Cons e es)
  from Cons.prems obtain t where t: "loop_step s e = Some t" "loop_run t es = Some s'"
    by (auto split: option.splits)
  have "loop_budget A R t < loop_budget A R s"
    using loop_budget_step [OF assms(1) _ t(1)] Cons.prems by simp
  moreover have "length es + loop_budget A R s' \<le> loop_budget A R t"
    using Cons.IH [OF t(2)] Cons.prems by simp
  ultimately show ?case by simp
qed

lemma loop_budget_New:
  "loop_budget A R (NewFailoverState m b) = 2 * nat m + card A * nat R + 9"
  by (simp add: loop_budget_def retries_left_def retryCount_def NewFailoverState_def
      maxProfitVetoAttempts_def)

text \<open>
  Property C39 (termination). The failover loop of a request cannot spin: whatever the selector,
  the profit gate and the upstreams answer, the loop continues at most
  \<open>2 * maxSwitches + |A| * R + 9\<close> times before it returns, where \<open>A\<close> are the accounts it is
  given and \<open>R\<close> bounds their same-account retry limits. In particular a backoff after an empty
  selection never repeats without a new upstream failure in between.
\<close>

theorem failover_loop_terminates:
  assumes "finite A" and "list_all (event_within A R) es"
    and "loop_run (NewFailoverState maxSwitches bound) es = Some s"
  shows "length es \<le> 2 * nat maxSwitches + card A * nat R + 9"
  using loop_run_length [OF assms(1,3,2)] by (simp add: loop_budget_New)

definition example_503 :: UpstreamFailoverError where
  "example_503 =
     \<lparr> ufe_StatusCode = 503, ufe_ResponseBody = [], ufe_ResponseHeaders = [],
       ufe_ForceCacheBilling = False, ufe_RetryableOnSameAccount = False,
       ufe_RequestScopedTransient = False, ufe_SafeToFailoverAfterWrite = False,
       ufe_Stage = [], ufe_Scope = [], ufe_Reason = [],
       ufe_NextAccountAction = NextAccountLegacyRetry, ufe_ClientStatusCode = 0,
       ufe_ClientMessage = [] \<rparr>"

theorem failover_loop_terminates_witness:
  "let es = [ForwardFailed False (\<lambda>_. True) 0 7 ''antigravity'' 3 (Some example_503),
             SelectionFailed False (\<lambda>_. True)]
   in (\<exists>s. loop_run (NewFailoverState 2 True) es = Some s) \<and>
      length es \<le> 2 * nat 2 + card {7 :: int} * nat 3 + 9"
proof -
  let ?es = "[ForwardFailed False (\<lambda>_. True) 0 7 ''antigravity'' 3 (Some example_503),
             SelectionFailed False (\<lambda>_. True)]"
  have run: "\<exists>s. loop_run (NewFailoverState 2 True) ?es = Some s"
    by (simp add: failover_defs Let_def NewFailoverState_def ShouldRetryNextAccount_def
        needForceCacheBilling_def example_503_def sleepWithContext_def
        allExclusionsAreProfitVetoed_def)
  then obtain s where s: "loop_run (NewFailoverState 2 True) ?es = Some s"
    by blast
  have "length ?es \<le> 2 * nat 2 + card {7 :: int} * nat 3 + 9"
    by (rule failover_loop_terminates [OF _ _ s]) simp_all
  with run show ?thesis by (simp only: Let_def simp_thms)
qed

text \<open>
  In every state the loop reaches, the vetoed accounts are excluded
  from selection, the number of switches is within the limit, fewer than
  \<open>maxProfitVetoAttempts\<close> vetoes were taken, and an account once vetoed stays excluded after
  every later iteration, the backoff that clears the exclusion list included.
\<close>

theorem failover_reachable_invariant:
  assumes "loop_reachable maxSwitches bound s"
  shows "fs_profitVetoedAccountIDs s \<subseteq> fs_FailedAccountIDs s \<and>
    0 \<le> fs_SwitchCount s \<and> fs_SwitchCount s \<le> max 0 maxSwitches \<and>
    0 \<le> fs_profitVetoCount s \<and> fs_profitVetoCount s < maxProfitVetoAttempts \<and>
    (\<forall>e s'. loop_step s e = Some s' \<longrightarrow> fs_profitVetoedAccountIDs s \<subseteq> fs_FailedAccountIDs s')"
proof -
  have *: "fs_inv s \<and> fs_MaxSwitches s = maxSwitches"
    using assms
  proof induction
    case start
    have "fs_MaxSwitches (NewFailoverState maxSwitches bound) = maxSwitches"
      by (simp add: NewFailoverState_def)
    then show ?case by simp
  next
    case (step s e s')
    then show ?case using fs_inv_step loop_step_frame by metis
  qed
  have "fs_profitVetoedAccountIDs s \<subseteq> fs_FailedAccountIDs s'" if "loop_step s e = Some s'" for e s'
  proof -
    from * that have "fs_inv s'"
      using fs_inv_step by blast
    then have "fs_profitVetoedAccountIDs s' \<subseteq> fs_FailedAccountIDs s'"
      by (simp add: fs_inv_def)
    with loop_step_frame [OF that] show ?thesis by blast
  qed
  with * show ?thesis by (auto simp: fs_inv_def)
qed

theorem failover_reachable_invariant_witness:
  "let s = NewFailoverState 1 False; s' = fst (RecordProfitVeto s 7) in
     loop_reachable 1 False s' \<and> fs_profitVetoedAccountIDs s' = {7} \<and>
     fs_profitVetoedAccountIDs s' \<subseteq> fs_FailedAccountIDs s'"
proof -
  let ?s = "NewFailoverState 1 False"
  let ?s' = "fst (RecordProfitVeto ?s 7)"
  have "loop_step ?s (ProfitVetoed 7) = Some ?s'"
    by (simp add: failover_defs Let_def NewFailoverState_def maxProfitVetoAttempts_def)
  then have r: "loop_reachable 1 False ?s'"
    by (rule loop_reachable.step [OF loop_reachable.start])
  moreover have "fs_profitVetoedAccountIDs ?s' = {7}"
    by (simp add: RecordProfitVeto_def Let_def NewFailoverState_def)
  ultimately show ?thesis
    using failover_reachable_invariant [OF r] by (simp add: Let_def)
qed

text \<open>
  A retry on the same account is free of side effects on routing: an
  error that is retryable there, met while the account's retry budget is not used up, counts one
  retry, waits, and neither excludes the account, nor spends a switch, nor un-schedules it, and
  it forces cache billing only if the error itself asks for it. Once the budget is used up the
  account is excluded, a bound session is billed as cache reads, and the loop continues exactly
  when a switch is left and the client is still there.
\<close>

theorem HandleFailoverError_retry_or_switch:
  assumes "ufe_NextAccountAction e \<noteq> NextAccountStop" and "ufe_RetryableOnSameAccount e"
  shows "let r = HandleFailoverError False (\<lambda>_. True) now s a platform limit (Some e) in
    if retryCount s a < limit
    then r = (s \<lparr> fs_LastFailoverErr := Some e,
                  fs_ForceCacheBilling := fs_ForceCacheBilling s \<or> ufe_ForceCacheBilling e,
                  fs_SameAccountRetryCount := (fs_SameAccountRetryCount s)(a \<mapsto> retryCount s a + 1) \<rparr>,
              FailoverContinue, [Slept (500 * Millisecond)])
    else a \<in> fs_FailedAccountIDs (fst r) \<and>
      (fs_hasBoundSession s \<longrightarrow> fs_ForceCacheBilling (fst r)) \<and>
      (fst (snd r) = FailoverContinue \<longleftrightarrow> fs_SwitchCount s < fs_MaxSwitches s) \<and>
      (fst (snd r) = FailoverContinue \<longrightarrow> fs_SwitchCount (fst r) = fs_SwitchCount s + 1)"
proof -
  have e: "ShouldRetryNextAccount (Some e)"
    using assms by (simp add: ShouldRetryNextAccount_def)
  show ?thesis
    using e assms(2) HandleFailoverError_retry [OF e assms(2)]
      HandleFailoverError_switch [OF e, of s a limit]
    by (simp add: sameAccountRetryDelay_def sleepWithContext_def Let_def)
qed

theorem HandleFailoverError_retry_or_switch_witness:
  "let e = example_503 \<lparr> ufe_RetryableOnSameAccount := True \<rparr>;
       r = HandleFailoverError False (\<lambda>_. True) 0 (NewFailoverState 1 True) 7 ''openai'' 0 (Some e)
   in ufe_NextAccountAction e \<noteq> NextAccountStop \<and> 7 \<in> fs_FailedAccountIDs (fst r) \<and>
      fst (snd r) = FailoverContinue"
proof -
  let ?e = "example_503 \<lparr> ufe_RetryableOnSameAccount := True \<rparr>"
  have e: "ufe_NextAccountAction ?e \<noteq> NextAccountStop" "ufe_RetryableOnSameAccount ?e"
    by (simp_all add: example_503_def)
  have "retryCount (NewFailoverState 1 True) 7 = 0"
    "fs_SwitchCount (NewFailoverState 1 True) < fs_MaxSwitches (NewFailoverState 1 True)"
    by (simp_all add: retryCount_def NewFailoverState_def)
  with e HandleFailoverError_retry_or_switch [OF e, of 0 "NewFailoverState 1 True" 7 "''openai''" 0]
  show ?thesis by (simp add: Let_def)
qed

end
