(* ===== verification/Go_Order.thy ===== *)
theory Go_Order
  imports Go_Prelude
begin

text \<open>
  Sorting and shuffling as the sources use them: \<open>sort.SliceStable\<close> with a comparison closure,
  and \<open>rand.Shuffle\<close>.

  A stable sort by a strict weak order has one possible result, so \<open>sort.SliceStable\<close> is
  modelled by stable insertion. The interface between the sort and the closures is the locale
  \<open>strict_weak\<close>: a closure that satisfies its laws gets a permutation, sorted output,
  stability and a minimal head. Every comparison closure of the development interprets it.
  \<open>rand.Shuffle\<close> is the Fisher-Yates loop of \<open>math/rand\<close>, over a source \<open>r\<close> whose value at
  \<open>i\<close> is the draw made for position \<open>i\<close>.
\<close>

section \<open>sort.SliceStable\<close>

fun stable_insert :: "('a \<Rightarrow> 'a \<Rightarrow> bool) \<Rightarrow> 'a \<Rightarrow> 'a list \<Rightarrow> 'a list" where
  "stable_insert lt x [] = [x]"
| "stable_insert lt x (y # ys) =
     (if lt y x then y # stable_insert lt x ys else x # y # ys)"

definition sort_SliceStable :: "('a \<Rightarrow> 'a \<Rightarrow> bool) \<Rightarrow> 'a list \<Rightarrow> 'a list" where
  "sort_SliceStable lt xs = foldr (stable_insert lt) xs []"

lemma mset_stable_insert [simp]: "mset (stable_insert lt x ys) = add_mset x (mset ys)"
  by (induction ys) auto

lemma set_stable_insert [simp]: "set (stable_insert lt x ys) = insert x (set ys)"
  by (induction ys) auto

lemma mset_sort_SliceStable [simp]: "mset (sort_SliceStable lt xs) = mset xs"
  by (induction xs) (simp_all add: sort_SliceStable_def)

lemma set_sort_SliceStable [simp]: "set (sort_SliceStable lt xs) = set xs"
  by (metis mset_sort_SliceStable set_mset_mset)

lemma length_sort_SliceStable [simp]: "length (sort_SliceStable lt xs) = length xs"
  by (metis mset_sort_SliceStable size_mset)

lemma sort_SliceStable_Nil [simp]: "sort_SliceStable lt [] = []"
  by (simp add: sort_SliceStable_def)

lemma sort_SliceStable_Cons:
  "sort_SliceStable lt (x # xs) = stable_insert lt x (sort_SliceStable lt xs)"
  by (simp add: sort_SliceStable_def)

section \<open>The contract of a comparison closure\<close>

locale strict_weak =
  fixes lt :: "'a \<Rightarrow> 'a \<Rightarrow> bool"
  assumes irrefl: "\<not> lt x x"
    and trans: "lt x y \<Longrightarrow> lt y z \<Longrightarrow> lt x z"
    and neg_trans: "\<not> lt x y \<Longrightarrow> \<not> lt y z \<Longrightarrow> \<not> lt x z"
begin

lemma asym: "lt x y \<Longrightarrow> \<not> lt y x"
  using irrefl trans by blast

lemma sorted_stable_insert:
  "sorted_wrt (\<lambda>a b. \<not> lt b a) ys \<Longrightarrow> sorted_wrt (\<lambda>a b. \<not> lt b a) (stable_insert lt x ys)"
proof (induction ys)
  case Nil
  then show ?case by simp
next
  case (Cons y ys)
  show ?case
  proof (cases "lt y x")
    case True
    with Cons asym show ?thesis by auto
  next
    case False
    have "\<not> lt z x" if "z \<in> set ys" for z
      using that Cons.prems False neg_trans by (meson sorted_wrt.simps(2))
    with False Cons.prems show ?thesis by auto
  qed
qed

lemma sorted_sort: "sorted_wrt (\<lambda>a b. \<not> lt b a) (sort_SliceStable lt xs)"
  by (induction xs) (simp_all add: sort_SliceStable_Cons sorted_stable_insert)

lemma filter_stable_insert:
  assumes "sorted_wrt (\<lambda>a b. \<not> lt b a) ys"
  shows "filter (\<lambda>z. \<not> lt z a \<and> \<not> lt a z) (stable_insert lt x ys) =
    filter (\<lambda>z. \<not> lt z a \<and> \<not> lt a z) (x # ys)"
  using assms
proof (induction ys)
  case Nil
  then show ?case by simp
next
  case (Cons y ys)
  show ?case
  proof (cases "lt y x")
    case True
    have "\<not> (\<not> lt x a \<and> \<not> lt a x \<and> \<not> lt y a \<and> \<not> lt a y)"
      using True neg_trans by blast
    with True Cons show ?thesis by auto
  next
    case False
    then show ?thesis by simp
  qed
qed

text \<open>Stability: elements that compare equal keep their order.\<close>

lemma stable_sort:
  "filter (\<lambda>z. \<not> lt z a \<and> \<not> lt a z) (sort_SliceStable lt xs) =
    filter (\<lambda>z. \<not> lt z a \<and> \<not> lt a z) xs"
proof (induction xs)
  case Nil
  then show ?case by simp
next
  case (Cons x xs)
  then show ?case
    using filter_stable_insert [OF sorted_sort, of a x xs]
    by (simp add: sort_SliceStable_Cons)
qed

text \<open>The first element of the sorted slice is minimal.\<close>

lemma hd_sort_minimal:
  assumes "y \<in> set xs"
  shows "\<not> lt y (hd (sort_SliceStable lt xs))"
proof -
  obtain z zs where zs: "sort_SliceStable lt xs = z # zs"
    using assms by (cases "sort_SliceStable lt xs") (auto dest: arg_cong [where f = set])
  then have "y = z \<or> y \<in> set zs"
    using assms by (metis set_ConsD set_sort_SliceStable)
  with zs show ?thesis
    using sorted_sort [of xs] irrefl by auto
qed

lemma hd_sort_in: "xs \<noteq> [] \<Longrightarrow> hd (sort_SliceStable lt xs) \<in> set xs"
  by (metis hd_in_set length_0_conv length_sort_SliceStable set_sort_SliceStable)

end

text \<open>A key into a linear order gives a strict weak order.\<close>

lemma strict_weak_key: "strict_weak (\<lambda>a b. (f a :: 'b :: linorder) < f b)"
  by unfold_locales auto

section \<open>rand.Shuffle\<close>

definition swap_at :: "nat \<Rightarrow> nat \<Rightarrow> 'a list \<Rightarrow> 'a list" where
  "swap_at i j xs = xs[i := xs ! j, j := xs ! i]"

fun shuffle_from :: "(nat \<Rightarrow> nat) \<Rightarrow> nat \<Rightarrow> 'a list \<Rightarrow> 'a list" where
  "shuffle_from r 0 xs = xs"
| "shuffle_from r (Suc i) xs = shuffle_from r i (swap_at (Suc i) (r (Suc i) mod (Suc (Suc i))) xs)"

definition rand_Shuffle :: "(nat \<Rightarrow> nat) \<Rightarrow> 'a list \<Rightarrow> 'a list" where
  "rand_Shuffle r xs = shuffle_from r (length xs - 1) xs"

lemma mset_swap_at: "i < length xs \<Longrightarrow> j < length xs \<Longrightarrow> mset (swap_at i j xs) = mset xs"
  unfolding swap_at_def by (rule mset_swap)

lemma length_swap_at [simp]: "length (swap_at i j xs) = length xs"
  by (simp add: swap_at_def)

lemma mset_shuffle_from: "i < length xs \<or> i = 0 \<Longrightarrow> mset (shuffle_from r i xs) = mset xs"
proof (induction r i xs rule: shuffle_from.induct)
  case (1 r xs)
  then show ?case by simp
next
  case (2 r i xs)
  have "r (Suc i) mod Suc (Suc i) < length xs"
    using "2.prems" mod_less_divisor [of "Suc (Suc i)" "r (Suc i)"] by linarith
  with 2 show ?case by (simp add: mset_swap_at)
qed

lemma mset_rand_Shuffle [simp]: "mset (rand_Shuffle r xs) = mset xs"
  unfolding rand_Shuffle_def by (rule mset_shuffle_from) (cases xs, auto)

lemma set_rand_Shuffle [simp]: "set (rand_Shuffle r xs) = set xs"
  by (metis mset_rand_Shuffle set_mset_mset)

lemma length_rand_Shuffle [simp]: "length (rand_Shuffle r xs) = length xs"
  by (metis mset_rand_Shuffle size_mset)

section \<open>Iterating over a map\<close>

text \<open>
  Go visits the entries of a map in an unspecified order. The order of one loop is drawn by a
  source \<open>r\<close>: Fisher-Yates can produce every permutation.
\<close>

definition map_range :: "(nat \<Rightarrow> nat) \<Rightarrow> ('k, 'v) gomap \<Rightarrow> ('k \<times> 'v) list" where
  "map_range r m = rand_Shuffle r m"

lemma set_map_range [simp]: "set (map_range r m) = set m"
  by (simp add: map_range_def)

lemma mset_map_range [simp]: "mset (map_range r m) = mset m"
  by (simp add: map_range_def)

lemma map_range_Nil_iff [simp]: "map_range r m = [] \<longleftrightarrow> m = []"
  by (metis length_0_conv length_rand_Shuffle map_range_def)

section \<open>The order of strings\<close>

fun str_less :: "string \<Rightarrow> string \<Rightarrow> bool" where
  "str_less xs [] = False"
| "str_less [] (y # ys) = True"
| "str_less (x # xs) (y # ys) = (byte_of x < byte_of y \<or> (x = y \<and> str_less xs ys))"

lemma byte_of_inject [simp]: "byte_of a = byte_of b \<longleftrightarrow> a = b"
  by (simp add: byte_of_def)

lemma str_less_irrefl [simp]: "\<not> str_less xs xs"
  by (induction xs) auto

lemma str_less_trans: "str_less xs ys \<Longrightarrow> str_less ys zs \<Longrightarrow> str_less xs zs"
proof (induction xs ys arbitrary: zs rule: str_less.induct)
  case (3 x xs y ys)
  then show ?case by (cases zs) auto
qed (auto elim: str_less.elims)

lemma str_less_total: "xs \<noteq> ys \<Longrightarrow> str_less xs ys \<or> str_less ys xs"
proof (induction xs ys rule: str_less.induct)
  case (1 xs)
  then show ?case by (cases xs) auto
next
  case (3 x xs y ys)
  show ?case
  proof (cases "x = y")
    case True
    with 3 show ?thesis by simp
  next
    case False
    then have "byte_of x < byte_of y \<or> byte_of y < byte_of x"
      using byte_of_inject [of x y] by linarith
    then show ?thesis by auto
  qed
qed simp

end
