(* ===== verification/Breaker.thy ===== *)
theory Breaker
  imports Go_Order
begin

text \<open>
  The contract of the gateway's in-process circuit breakers: bounded tables keyed by an upstream
  resource, which record failures and successes and answer whether the resource is blocked. The
  locale states what a breaker promises; the lemmas of the locale follow for every sequence of
  operations. \<open>Proxy_Circuit\<close> and \<open>Model_Transient\<close> interpret it.

  \<open>key x\<close> is the table key an operation computes from its arguments, or \<open>None\<close> when it
  refuses them; \<open>r\<close> is the order in which a failure's eviction loop visits the table.
\<close>

datatype 'x breaker_event =
    Failed "nat \<Rightarrow> nat" 'x gotime
  | Succeeded 'x
  | Probed 'x gotime

primrec breaker_apply ::
  "((nat \<Rightarrow> nat) \<Rightarrow> 'x \<Rightarrow> gotime \<Rightarrow> 's \<Rightarrow> 's) \<Rightarrow> ('x \<Rightarrow> 's \<Rightarrow> 's) \<Rightarrow>
   ('x \<Rightarrow> gotime \<Rightarrow> 's \<Rightarrow> 's) \<Rightarrow> 'x breaker_event \<Rightarrow> 's \<Rightarrow> 's" where
  "breaker_apply failure success probe (Failed r x t) s = failure r x t s"
| "breaker_apply failure success probe (Succeeded x) s = success x s"
| "breaker_apply failure success probe (Probed x t) s = probe x t s"

definition breaker_run ::
  "((nat \<Rightarrow> nat) \<Rightarrow> 'x \<Rightarrow> gotime \<Rightarrow> 's \<Rightarrow> 's) \<Rightarrow> ('x \<Rightarrow> 's \<Rightarrow> 's) \<Rightarrow>
   ('x \<Rightarrow> gotime \<Rightarrow> 's \<Rightarrow> 's) \<Rightarrow> 'x breaker_event list \<Rightarrow> 's \<Rightarrow> 's" where
  "breaker_run failure success probe es s = fold (breaker_apply failure success probe) es s"

primrec fails_on :: "('x \<Rightarrow> 'k option) \<Rightarrow> 'x \<Rightarrow> 'x breaker_event \<Rightarrow> bool" where
  "fails_on key y (Failed r x t) \<longleftrightarrow> key x = key y"
| "fails_on key y (Succeeded x) \<longleftrightarrow> False"
| "fails_on key y (Probed x t) \<longleftrightarrow> False"

locale keyed_breaker =
  fixes inv :: "'s \<Rightarrow> bool"
    and size :: "'s \<Rightarrow> nat"
    and cap :: "'s \<Rightarrow> nat"
    and key :: "'x \<Rightarrow> 'k option"
    and failure :: "(nat \<Rightarrow> nat) \<Rightarrow> 'x \<Rightarrow> gotime \<Rightarrow> 's \<Rightarrow> 's"
    and success :: "'x \<Rightarrow> 's \<Rightarrow> 's"
    and probe :: "'x \<Rightarrow> gotime \<Rightarrow> 's \<Rightarrow> 's"
    and blocked :: "'x \<Rightarrow> gotime \<Rightarrow> 's \<Rightarrow> bool"
  assumes size_cap: "inv s \<Longrightarrow> size s \<le> cap s"
    and inv_failure: "inv s \<Longrightarrow> inv (failure r x t s)"
    and inv_success: "inv s \<Longrightarrow> inv (success x s)"
    and inv_probe: "inv s \<Longrightarrow> inv (probe x t s)"
    and cap_failure: "inv s \<Longrightarrow> cap (failure r x t s) = cap s"
    and cap_success: "inv s \<Longrightarrow> cap (success x s) = cap s"
    and cap_probe: "inv s \<Longrightarrow> cap (probe x t s) = cap s"
    and success_clears: "inv s \<Longrightarrow> key x = key y \<Longrightarrow> \<not> blocked y t (success x s)"
    and success_frame: "inv s \<Longrightarrow> blocked y t (success x s) \<Longrightarrow> blocked y t s"
    and probe_frame: "inv s \<Longrightarrow> blocked y t (probe x t' s) \<Longrightarrow> blocked y t s"
    and failure_frame:
      "inv s \<Longrightarrow> key x \<noteq> key y \<Longrightarrow> blocked y t (failure r x t' s) \<Longrightarrow> blocked y t s"
begin

lemma apply_event_inv: "inv s \<Longrightarrow> inv (breaker_apply failure success probe e s) \<and> cap (breaker_apply failure success probe e s) = cap s"
  by (cases e) (simp_all add: inv_failure inv_success inv_probe cap_failure cap_success cap_probe)

lemma run_inv: "inv s \<Longrightarrow> inv (breaker_run failure success probe es s) \<and> cap (breaker_run failure success probe es s) = cap s"
  unfolding breaker_run_def
proof (induction es arbitrary: s)
  case Nil
  then show ?case by simp
next
  case (Cons e es)
  then show ?case
    using apply_event_inv [OF Cons.prems, of e] Cons.IH [of "breaker_apply failure success probe e s"] by simp
qed

text \<open>However long it runs, a breaker's table stays within its capacity.\<close>

lemma run_bounded: "inv s \<Longrightarrow> size (breaker_run failure success probe es s) \<le> cap s"
  using run_inv [of s es] size_cap by metis

lemma apply_event_blocked:
  "inv s \<Longrightarrow> \<not> fails_on key y e \<Longrightarrow> blocked y t (breaker_apply failure success probe e s) \<Longrightarrow> blocked y t s"
  by (cases e) (auto dest: success_frame probe_frame failure_frame)

text \<open>A resource becomes blocked only by a failure of its own.\<close>

lemma run_blocked:
  assumes "inv s" and "list_all (\<lambda>e. \<not> fails_on key y e) es" and "blocked y t (breaker_run failure success probe es s)"
  shows "blocked y t s"
  using assms unfolding breaker_run_def
proof (induction es arbitrary: s)
  case Nil
  then show ?case by simp
next
  case (Cons e es)
  then show ?case
    using apply_event_inv [OF Cons.prems(1), of e] apply_event_blocked [OF Cons.prems(1), of y e t]
    by simp
qed

text \<open>After a success the resource is admitted until it fails again.\<close>

lemma success_until_failure:
  assumes "inv s" and "blocked y t (breaker_run failure success probe (es @ Succeeded y # es') s)"
  shows "list_ex (fails_on key y) es'"
proof (rule ccontr)
  assume "\<not> list_ex (fails_on key y) es'"
  then have none: "list_all (\<lambda>e. \<not> fails_on key y e) es'"
    by (simp add: list_ex_iff list_all_iff)
  let ?s = "breaker_run failure success probe es s"
  have i: "inv ?s"
    using run_inv assms(1) by blast
  have "breaker_run failure success probe (es @ Succeeded y # es') s = breaker_run failure success probe es' (success y ?s)"
    by (simp add: breaker_run_def)
  with assms(2) none inv_success [OF i] have "blocked y t (success y ?s)"
    using run_blocked by metis
  with success_clears [OF i] show False by blast
qed

end

text \<open>Eviction: the loop that looks for the least recently touched entry.\<close>

definition oldest_step ::
  "('v \<Rightarrow> gotime) \<Rightarrow> ('k \<times> gotime) option \<Rightarrow> 'k \<times> 'v \<Rightarrow> ('k \<times> gotime) option" where
  "oldest_step touched acc kv =
     (case acc of
        None \<Rightarrow> Some (fst kv, touched (snd kv))
      | Some (_, oldest) \<Rightarrow>
          if touched (snd kv) < oldest then Some (fst kv, touched (snd kv)) else acc)"

definition oldest_entry :: "('v \<Rightarrow> gotime) \<Rightarrow> ('k \<times> 'v) list \<Rightarrow> ('k \<times> gotime) option" where
  "oldest_entry touched m = foldl (oldest_step touched) None m"

lemma foldl_oldest_in:
  assumes "\<And>k t. acc = Some (k, t) \<Longrightarrow> k \<in> K" and "fst ` set m \<subseteq> K"
    and "foldl (oldest_step touched) acc m = Some (k, t)"
  shows "k \<in> K"
  using assms
proof (induction m arbitrary: acc)
  case Nil
  then show ?case by simp
next
  case (Cons a m)
  have "\<And>k t. oldest_step touched acc a = Some (k, t) \<Longrightarrow> k \<in> K"
    using Cons.prems(1,2) by (auto simp: oldest_step_def split: option.splits if_splits)
  then show ?case
    by (rule Cons.IH) (use Cons.prems in auto)
qed

lemma oldest_entry_in: "oldest_entry touched m = Some (k, t) \<Longrightarrow> k \<in> fst ` set m"
  unfolding oldest_entry_def by (rule foldl_oldest_in [of None]) auto

lemma foldl_oldest_Some: "foldl (oldest_step touched) (Some p) m \<noteq> None"
proof (induction m arbitrary: p)
  case Nil
  then show ?case by simp
next
  case (Cons a m)
  have "\<exists>q. oldest_step touched (Some p) a = Some q"
    by (auto simp: oldest_step_def split: prod.splits)
  with Cons show ?case by auto
qed

lemma oldest_entry_None_iff: "oldest_entry touched m = None \<longleftrightarrow> m = []"
  using foldl_oldest_Some [of touched]
  by (cases m) (auto simp: oldest_entry_def oldest_step_def)

lemma foldl_oldest_min:
  assumes "foldl (oldest_step touched) acc m = Some (k, t)"
  shows "(\<forall>k' t'. acc = Some (k', t') \<longrightarrow> t \<le> t') \<and> (\<forall>kv \<in> set m. t \<le> touched (snd kv))"
  using assms
proof (induction m arbitrary: acc)
  case Nil
  then show ?case by simp
next
  case (Cons a m)
  from Cons.prems have *: "foldl (oldest_step touched) (oldest_step touched acc a) m = Some (k, t)"
    by simp
  note IH = Cons.IH [OF *]
  show ?case
  proof (cases acc)
    case None
    with IH show ?thesis by (simp add: oldest_step_def)
  next
    case (Some p)
    obtain k0 t0 where p: "p = (k0, t0)" by (cases p)
    show ?thesis
    proof (cases "touched (snd a) < t0")
      case True
      then have "oldest_step touched acc a = Some (fst a, touched (snd a))"
        by (simp add: oldest_step_def Some p)
      with IH True show ?thesis by (simp add: Some p)
    next
      case False
      then have "oldest_step touched acc a = Some (k0, t0)"
        by (simp add: oldest_step_def Some p)
      with IH False show ?thesis by (simp add: Some p)
    qed
  qed
qed

text \<open>The entry found is one that was touched least recently.\<close>

lemma oldest_entry_min:
  "oldest_entry touched m = Some (k, t) \<Longrightarrow> kv \<in> set m \<Longrightarrow> t \<le> touched (snd kv)"
  unfolding oldest_entry_def using foldl_oldest_min [of touched None m k t] by simp

end
