(* ===== verification/Go_Any.thy ===== *)
theory Go_Any
  imports Complex_Main Go_Prelude
begin

text \<open>
  Dynamically typed values and number conversions: the \<open>any\<close> values of JSON maps (account
  credentials and extras) with the dynamic types the sources switch on, 64-bit wrap-around,
  \<open>strconv.Atoi\<close>/\<open>ParseInt(s, 10, 64)\<close> and \<open>strconv.FormatInt(n, 10)\<close>, and the conversion of
  a \<open>float64\<close> to \<open>int\<close>. A \<open>float64\<close> is represented by its exact value.
\<close>

section \<open>64-bit integers\<close>

definition int64_min :: int where
  "int64_min = - 9223372036854775808"

definition int64_max :: int where
  "int64_max = 9223372036854775807"

definition int64_wrap :: "int \<Rightarrow> int" where
  "int64_wrap x = (x + 9223372036854775808) mod 18446744073709551616 - 9223372036854775808"

lemma int64_wrap_id: "int64_min \<le> x \<Longrightarrow> x \<le> int64_max \<Longrightarrow> int64_wrap x = x"
  by (simp add: int64_wrap_def int64_min_def int64_max_def)

lemma int64_wrap_range: "int64_min \<le> int64_wrap x \<and> int64_wrap x \<le> int64_max"
proof -
  have "0 \<le> (x + 9223372036854775808) mod 18446744073709551616"
    "(x + 9223372036854775808) mod 18446744073709551616 < 18446744073709551616"
    by simp_all
  then show ?thesis
    unfolding int64_wrap_def int64_min_def int64_max_def by linarith
qed

text \<open>
  Conversion of a \<open>float64\<close> to a 64-bit integer: truncation towards zero, and outside the range
  the value the amd64 instruction gives.
\<close>

definition float64_to_int :: "rat \<Rightarrow> int" where
  "float64_to_int q =
     (let t = (if 0 \<le> q then \<lfloor>q\<rfloor> else - \<lfloor>- q\<rfloor>)
      in if int64_min \<le> t \<and> t \<le> int64_max then t else int64_min)"

section \<open>strconv\<close>

definition is_digit :: "char \<Rightarrow> bool" where
  "is_digit c \<longleftrightarrow> 48 \<le> byte_of c \<and> byte_of c \<le> 57"

fun digits_value :: "nat \<Rightarrow> string \<Rightarrow> nat option" where
  "digits_value acc [] = Some acc"
| "digits_value acc (c # cs) =
     (if is_digit c then digits_value (acc * 10 + (byte_of c - 48)) cs else None)"

definition unsigned_value :: "string \<Rightarrow> nat option" where
  "unsigned_value s = (if s = [] then None else digits_value 0 s)"

definition strconv_Atoi :: "string \<Rightarrow> int option" where
  "strconv_Atoi s =
     (let signed = (s \<noteq> [] \<and> (hd s = CHR ''-'' \<or> hd s = CHR ''+''));
          neg = (s \<noteq> [] \<and> hd s = CHR ''-'')
      in case unsigned_value (if signed then tl s else s) of
           None \<Rightarrow> None
         | Some n \<Rightarrow>
             let v = (if neg then - int n else int n)
             in if int64_min \<le> v \<and> v \<le> int64_max then Some v else None)"

fun format_nat :: "nat \<Rightarrow> string" where
  "format_nat n =
     (if n < 10 then [char_of (48 + n)] else format_nat (n div 10) @ [char_of (48 + n mod 10)])"

declare format_nat.simps [simp del]

definition strconv_FormatInt :: "int \<Rightarrow> string" where
  "strconv_FormatInt n = (if n < 0 then CHR ''-'' # format_nat (nat (- n)) else format_nat (nat n))"

lemma digit_char:
  assumes "d < 10"
  shows "is_digit (char_of (48 + d))" and "byte_of (char_of (48 + d)) = 48 + d"
  using assms by (auto simp: is_digit_def byte_of_def)

lemma digits_value_append:
  "digits_value acc (xs @ ys) =
     (case digits_value acc xs of None \<Rightarrow> None | Some a \<Rightarrow> digits_value a ys)"
  by (induction acc xs rule: digits_value.induct) auto

lemma digits_value_format: "digits_value 0 (format_nat n) = Some n"
proof (induction n rule: format_nat.induct)
  case (1 n)
  show ?case
  proof (cases "n < 10")
    case True
    then show ?thesis by (simp add: format_nat.simps [of n] digit_char)
  next
    case False
    then have "digits_value 0 (format_nat (n div 10)) = Some (n div 10)"
      using "1.IH" by simp
    moreover have "n mod 10 < 10" by simp
    ultimately show ?thesis
      using False by (simp add: format_nat.simps [of n] digits_value_append digit_char)
  qed
qed

lemma format_nat_head: "format_nat n \<noteq> [] \<and> is_digit (hd (format_nat n))"
proof (induction n rule: format_nat.induct)
  case (1 n)
  then show ?case
    by (cases "n < 10") (auto simp: format_nat.simps [of n] digit_char hd_append)
qed

text \<open>Printing an integer and reading it back.\<close>

lemma Atoi_FormatInt:
  assumes "int64_min \<le> n" and "n \<le> int64_max"
  shows "strconv_Atoi (strconv_FormatInt n) = Some n"
proof (cases "n < 0")
  case True
  then show ?thesis
    using assms format_nat_head [of "nat (- n)"]
    by (simp add: strconv_Atoi_def strconv_FormatInt_def unsigned_value_def digits_value_format)
next
  case False
  have "hd (format_nat (nat n)) \<noteq> CHR ''-''" "hd (format_nat (nat n)) \<noteq> CHR ''+''"
    using format_nat_head [of "nat n"] by (auto simp: is_digit_def byte_of_def)
  then show ?thesis
    using False assms format_nat_head [of "nat n"]
    by (simp add: strconv_Atoi_def strconv_FormatInt_def unsigned_value_def digits_value_format)
qed

lemma Atoi_range: "strconv_Atoi s = Some n \<Longrightarrow> int64_min \<le> n \<and> n \<le> int64_max"
  by (auto simp: strconv_Atoi_def Let_def split: option.splits if_splits)

section \<open>Values of type any\<close>

datatype goany =
    AnyNil
  | AnyString string
  | AnyBool bool
  | AnyInt int
  | AnyInt64 int
  | AnyFloat64 rat
  | AnyNumber string \<comment> \<open>\<open>json.Number\<close>\<close>
  | AnySlice "goany list"
  | AnyStrings "string list"
  | AnyMap "(string \<times> goany) list"
  | AnyStringMap "(string \<times> string) list"

text \<open>A map that may be nil; reading a nil map finds nothing.\<close>

type_synonym anymap = "(string \<times> goany) list option"

definition any_get :: "anymap \<Rightarrow> string \<Rightarrow> goany option" where
  "any_get m k = (case m of None \<Rightarrow> None | Some xs \<Rightarrow> map_of xs k)"

text \<open>The index expression \<open>m[k]\<close> on a \<open>map[string]any\<close>: nil for an absent key.\<close>

definition any_index :: "(string \<times> goany) list \<Rightarrow> string \<Rightarrow> goany" where
  "any_index m k = (case map_of m k of None \<Rightarrow> AnyNil | Some v \<Rightarrow> v)"

text \<open>The type assertions \<open>v.(string)\<close> and \<open>v.(bool)\<close>.\<close>

definition as_string :: "goany option \<Rightarrow> string option" where
  "as_string v = (case v of Some (AnyString s) \<Rightarrow> Some s | _ \<Rightarrow> None)"

definition as_bool :: "goany option \<Rightarrow> bool option" where
  "as_bool v = (case v of Some (AnyBool b) \<Rightarrow> Some b | _ \<Rightarrow> None)"

text \<open>
  The integer a switch over the numeric dynamic types yields: shared by
  \<open>parsePoolModeRetryCount\<close>, \<open>parseTempUnschedInt\<close> and \<open>parseExtraInt\<close>, which differ in the
  default for a value they cannot read.
\<close>

fun int_of_any :: "goany \<Rightarrow> int option" where
  "int_of_any (AnyInt n) = Some n"
| "int_of_any (AnyInt64 n) = Some n"
| "int_of_any (AnyFloat64 q) = Some (float64_to_int q)"
| "int_of_any (AnyNumber s) = strconv_Atoi s"
| "int_of_any (AnyString s) = strconv_Atoi (strings_TrimSpace s)"
| "int_of_any _ = None"

end
