(* ===== verification/Account.thy ===== *)
theory Account
  imports Go_Any
begin

text \<open>
  Upstream accounts (\<open>internal/service/account.go\<close>): the account record and the questions the
  gateway asks it that need no other component: platform and type tests, credential and extra
  lookups over dynamically typed JSON values, the availability windows, the temporary
  un-scheduling rules, the pool-mode retry policy, custom error codes and the per-minute request
  limits.

  Pointers are \<open>option\<close> values. A method whose source tests its receiver for nil takes an
  \<open>Account option\<close>. The unexported caches of the struct and its \<open>Proxy\<close> and \<open>Groups\<close>
  pointers are not part of the record: no operation here reads them. \<open>now\<close> is the value of
  \<open>time.Now()\<close> in the call.
\<close>

section \<open>The record\<close>

record Account =
  a_ID :: int
  a_Name :: string
  a_Notes :: "string option"
  a_Platform :: string
  a_Type :: string
  a_Credentials :: anymap
  a_Extra :: anymap
  a_ProxyID :: "int option"
  a_ProxyFallbackOriginID :: "int option"
  a_Concurrency :: int
  a_Priority :: int
  a_RateMultiplier :: "rat option"
  a_LoadFactor :: "int option"
  a_Status :: string
  a_ErrorMessage :: string
  a_LastUsedAt :: "gotime option"
  a_ExpiresAt :: "gotime option"
  a_AutoPauseOnExpired :: bool
  a_CreatedAt :: gotime
  a_UpdatedAt :: gotime
  a_Schedulable :: bool
  a_RateLimitedAt :: "gotime option"
  a_RateLimitResetAt :: "gotime option"
  a_OverloadUntil :: "gotime option"
  a_TempUnschedulableUntil :: "gotime option"
  a_TempUnschedulableReason :: string
  a_SessionWindowStart :: "gotime option"
  a_SessionWindowEnd :: "gotime option"
  a_SessionWindowStatus :: string
  a_ParentAccountID :: "int option"
  a_QuotaDimension :: string
  a_GroupIDs :: "int list"

record TempUnschedulableRule =
  tur_ErrorCode :: int
  tur_Keywords :: "string list"
  tur_DurationMinutes :: int
  tur_Description :: string

abbreviation "PlatformAnthropic \<equiv> ''anthropic''"
abbreviation "PlatformOpenAI \<equiv> ''openai''"
abbreviation "PlatformGemini \<equiv> ''gemini''"
abbreviation "PlatformAntigravity \<equiv> ''antigravity''"
abbreviation "PlatformGrok \<equiv> ''grok''"
abbreviation "PlatformComposite \<equiv> ''composite''"
abbreviation "AccountTypeOAuth \<equiv> ''oauth''"
abbreviation "AccountTypeSetupToken \<equiv> ''setup-token''"
abbreviation "AccountTypeAPIKey \<equiv> ''apikey''"
abbreviation "AccountTypeBedrock \<equiv> ''bedrock''"

section \<open>Lookups\<close>

definition GetCredential :: "Account \<Rightarrow> string \<Rightarrow> string" where
  "GetCredential a key =
     (case any_get (a_Credentials a) key of
        Some (AnyString s) \<Rightarrow> s
      | Some (AnyNumber s) \<Rightarrow> s
      | Some (AnyFloat64 q) \<Rightarrow> strconv_FormatInt (float64_to_int q)
      | Some (AnyInt64 n) \<Rightarrow> strconv_FormatInt n
      | Some (AnyInt n) \<Rightarrow> strconv_FormatInt n
      | _ \<Rightarrow> [])"

definition GetCredentialAsInt64 :: "Account option \<Rightarrow> string \<Rightarrow> int" where
  "GetCredentialAsInt64 a key =
     (case a of
        None \<Rightarrow> 0
      | Some a \<Rightarrow>
          (case any_get (a_Credentials a) key of
             None \<Rightarrow> 0
           | Some v \<Rightarrow> (case int_of_any v of None \<Rightarrow> 0 | Some i \<Rightarrow> i)))"

definition GetExtraString :: "Account \<Rightarrow> string \<Rightarrow> string" where
  "GetExtraString a key = (case as_string (any_get (a_Extra a) key) of None \<Rightarrow> [] | Some s \<Rightarrow> s)"

definition cred_enabled :: "Account \<Rightarrow> string \<Rightarrow> bool" where
  "cred_enabled a key \<longleftrightarrow> as_bool (any_get (a_Credentials a) key) = Some True"

definition extra_enabled :: "Account \<Rightarrow> string \<Rightarrow> bool" where
  "extra_enabled a key \<longleftrightarrow> as_bool (any_get (a_Extra a) key) = Some True"

text \<open>\<open>strings.TrimRight(s, "/")\<close>\<close>

definition TrimRight_slash :: "string \<Rightarrow> string" where
  "TrimRight_slash s = rev (dropWhile (\<lambda>c. c = CHR ''/'') (rev s))"

section \<open>Status and availability windows\<close>

definition IsActive :: "Account \<Rightarrow> bool" where
  "IsActive a \<longleftrightarrow> a_Status a = ''active''"

definition IsSyntheticUITest :: "Account option \<Rightarrow> bool" where
  "IsSyntheticUITest a = (case a of None \<Rightarrow> False | Some a \<Rightarrow> extra_enabled a ''synthetic_ui_test'')"

definition BillingRateMultiplier :: "Account option \<Rightarrow> rat" where
  "BillingRateMultiplier a =
     (case a of
        None \<Rightarrow> 1
      | Some a \<Rightarrow>
          (case a_RateMultiplier a of None \<Rightarrow> 1 | Some m \<Rightarrow> if m < 0 then 1 else m))"

definition EffectiveLoadFactor :: "Account option \<Rightarrow> int" where
  "EffectiveLoadFactor a =
     (case a of
        None \<Rightarrow> 1
      | Some a \<Rightarrow>
          (case a_LoadFactor a of
             Some l \<Rightarrow> if l > 0 then l else if a_Concurrency a > 0 then a_Concurrency a else 1
           | None \<Rightarrow> if a_Concurrency a > 0 then a_Concurrency a else 1))"

definition before_opt :: "gotime \<Rightarrow> gotime option \<Rightarrow> bool" where
  "before_opt now t = (case t of None \<Rightarrow> False | Some t \<Rightarrow> now < t)"

definition pausedByExpiry :: "gotime \<Rightarrow> Account \<Rightarrow> bool" where
  "pausedByExpiry now a \<longleftrightarrow>
     a_AutoPauseOnExpired a \<and> (case a_ExpiresAt a of None \<Rightarrow> False | Some t \<Rightarrow> \<not> now < t)"

definition IsCredentialUsableForShadow :: "gotime \<Rightarrow> Account option \<Rightarrow> bool" where
  "IsCredentialUsableForShadow now a =
     (case a of
        None \<Rightarrow> False
      | Some a \<Rightarrow>
          if \<not> IsActive a then False
          else if pausedByExpiry now a then False
          else if before_opt now (a_TempUnschedulableUntil a) then False
          else True)"

definition IsRateLimited :: "gotime \<Rightarrow> Account \<Rightarrow> bool" where
  "IsRateLimited now a = before_opt now (a_RateLimitResetAt a)"

definition IsOverloaded :: "gotime \<Rightarrow> Account \<Rightarrow> bool" where
  "IsOverloaded now a = before_opt now (a_OverloadUntil a)"

definition IsAPIKeyOrBedrock :: "Account \<Rightarrow> bool" where
  "IsAPIKeyOrBedrock a \<longleftrightarrow> a_Type a = AccountTypeAPIKey \<or> a_Type a = AccountTypeBedrock"

text \<open>
  \<open>quotaExceeded\<close> is the answer of \<open>IsQuotaExceeded\<close> for the account, which needs the clock's
  time zone rules; it is only asked for accounts whose type supports quotas.
\<close>

definition IsSchedulable :: "(Account \<Rightarrow> bool) \<Rightarrow> gotime \<Rightarrow> Account \<Rightarrow> bool" where
  "IsSchedulable quotaExceeded now a =
     (if \<not> IsActive a \<or> \<not> a_Schedulable a then False
      else if pausedByExpiry now a then False
      else if before_opt now (a_OverloadUntil a) then False
      else if before_opt now (a_RateLimitResetAt a) then False
      else if before_opt now (a_TempUnschedulableUntil a) then False
      else if IsAPIKeyOrBedrock a \<and> quotaExceeded a then False
      else True)"

section \<open>Platform and type\<close>

definition IsOAuth :: "Account \<Rightarrow> bool" where
  "IsOAuth a \<longleftrightarrow> a_Type a = AccountTypeOAuth \<or> a_Type a = AccountTypeSetupToken"

definition IsPrivacySet :: "Account \<Rightarrow> bool" where
  "IsPrivacySet a =
     (if a_Platform a = PlatformOpenAI then GetExtraString a ''privacy_mode'' = ''training_off''
      else if a_Platform a = PlatformAntigravity
      then GetExtraString a ''privacy_mode'' = ''privacy_set''
      else True)"

definition IsGemini :: "Account \<Rightarrow> bool" where
  "IsGemini a \<longleftrightarrow> a_Platform a = PlatformGemini"

definition IsGrok :: "Account \<Rightarrow> bool" where
  "IsGrok a \<longleftrightarrow> a_Platform a = PlatformGrok"

definition IsGrokOAuth :: "Account \<Rightarrow> bool" where
  "IsGrokOAuth a \<longleftrightarrow> IsGrok a \<and> a_Type a = AccountTypeOAuth"

definition IsOpenAI :: "Account \<Rightarrow> bool" where
  "IsOpenAI a \<longleftrightarrow> a_Platform a = PlatformOpenAI"

definition IsOpenAICompatible :: "Account option \<Rightarrow> bool" where
  "IsOpenAICompatible a =
     (case a of None \<Rightarrow> False
      | Some a \<Rightarrow> a_Platform a = PlatformOpenAI \<or> a_Platform a = PlatformGrok)"

definition IsAnthropic :: "Account \<Rightarrow> bool" where
  "IsAnthropic a \<longleftrightarrow> a_Platform a = PlatformAnthropic"

definition IsOpenAIOAuth :: "Account \<Rightarrow> bool" where
  "IsOpenAIOAuth a \<longleftrightarrow> IsOpenAI a \<and> a_Type a = AccountTypeOAuth"

definition IsOpenAIApiKey :: "Account \<Rightarrow> bool" where
  "IsOpenAIApiKey a \<longleftrightarrow> IsOpenAI a \<and> a_Type a = AccountTypeAPIKey"

definition IsBedrock :: "Account \<Rightarrow> bool" where
  "IsBedrock a \<longleftrightarrow> a_Platform a = PlatformAnthropic \<and> a_Type a = AccountTypeBedrock"

definition IsBedrockAPIKey :: "Account \<Rightarrow> bool" where
  "IsBedrockAPIKey a \<longleftrightarrow> IsBedrock a \<and> GetCredential a ''auth_mode'' = ''apikey''"

definition IsAnthropicOAuthOrSetupToken :: "Account \<Rightarrow> bool" where
  "IsAnthropicOAuthOrSetupToken a \<longleftrightarrow>
     a_Platform a = PlatformAnthropic \<and>
     (a_Type a = AccountTypeOAuth \<or> a_Type a = AccountTypeSetupToken)"

definition GeminiOAuthType :: "Account \<Rightarrow> string" where
  "GeminiOAuthType a =
     (if a_Platform a \<noteq> PlatformGemini \<or> a_Type a \<noteq> AccountTypeOAuth then []
      else
        let oauthType = strings_TrimSpace (GetCredential a ''oauth_type'') in
        if oauthType = [] \<and> strings_TrimSpace (GetCredential a ''project_id'') \<noteq> []
        then ''code_assist'' else oauthType)"

definition IsGeminiCodeAssist :: "Account \<Rightarrow> bool" where
  "IsGeminiCodeAssist a =
     (if a_Platform a \<noteq> PlatformGemini \<or> a_Type a \<noteq> AccountTypeOAuth then False
      else
        let oauthType = GeminiOAuthType a in
        if oauthType = [] then strings_TrimSpace (GetCredential a ''project_id'') \<noteq> []
        else oauthType = ''code_assist'')"

definition IsShadow :: "Account option \<Rightarrow> bool" where
  "IsShadow a = (case a of None \<Rightarrow> False | Some a \<Rightarrow> a_ParentAccountID a \<noteq> None)"

definition QuotaDimensionOrDefault :: "Account option \<Rightarrow> string" where
  "QuotaDimensionOrDefault a =
     (case a of
        None \<Rightarrow> ''global''
      | Some a \<Rightarrow>
          if strings_TrimSpace (a_QuotaDimension a) = [] then ''global'' else a_QuotaDimension a)"

definition GetBaseURL :: "Account \<Rightarrow> string" where
  "GetBaseURL a =
     (if a_Type a \<noteq> AccountTypeAPIKey then []
      else
        let baseURL = GetCredential a ''base_url'' in
        if baseURL = [] then ''https://api.anthropic.com''
        else if a_Platform a = PlatformAntigravity then TrimRight_slash baseURL @ ''/antigravity''
        else baseURL)"

definition GetGeminiBaseURL :: "Account \<Rightarrow> string \<Rightarrow> string" where
  "GetGeminiBaseURL a defaultBaseURL =
     (let baseURL = strings_TrimSpace (GetCredential a ''base_url'') in
      if baseURL = [] then defaultBaseURL
      else if a_Platform a = PlatformAntigravity \<and> a_Type a = AccountTypeAPIKey
      then TrimRight_slash baseURL @ ''/antigravity''
      else baseURL)"

definition GetClaudeUserID :: "Account \<Rightarrow> string" where
  "GetClaudeUserID a =
     (case List.find (\<lambda>v. v \<noteq> [])
        [strings_TrimSpace (GetExtraString a ''claude_user_id''),
         strings_TrimSpace (GetExtraString a ''anthropic_user_id''),
         strings_TrimSpace (GetCredential a ''claude_user_id''),
         strings_TrimSpace (GetCredential a ''anthropic_user_id'')] of
        None \<Rightarrow> [] | Some v \<Rightarrow> v)"

definition normalizeAccountNotes :: "string option \<Rightarrow> string option" where
  "normalizeAccountNotes value =
     (case value of
        None \<Rightarrow> None
      | Some s \<Rightarrow> let trimmed = strings_TrimSpace s in if trimmed = [] then None else Some trimmed)"

section \<open>Compact routing mode\<close>

definition normalizeOpenAICompactMode :: "(string \<Rightarrow> string) \<Rightarrow> string \<Rightarrow> string" where
  "normalizeOpenAICompactMode u mode =
     (let m = strings_ToLower u (strings_TrimSpace mode) in
      if m = ''force_on'' then ''force_on''
      else if m = ''force_off'' then ''force_off''
      else ''auto'')"

definition GetOpenAICompactMode :: "(string \<Rightarrow> string) \<Rightarrow> Account option \<Rightarrow> string" where
  "GetOpenAICompactMode u a =
     (case a of
        None \<Rightarrow> ''auto''
      | Some a \<Rightarrow>
          if \<not> IsOpenAI a \<or> a_Extra a = None then ''auto''
          else normalizeOpenAICompactMode u (GetExtraString a ''openai_compact_mode''))"

definition OpenAICompactSupportKnown :: "(string \<Rightarrow> string) \<Rightarrow> Account option \<Rightarrow> bool \<times> bool" where
  "OpenAICompactSupportKnown u a =
     (case a of
        None \<Rightarrow> (False, False)
      | Some acc \<Rightarrow>
          if \<not> IsOpenAI acc then (False, False)
          else
            let mode = GetOpenAICompactMode u a in
            if mode = ''force_on'' then (True, True)
            else if mode = ''force_off'' then (False, True)
            else
              case as_bool (any_get (a_Extra acc) ''openai_compact_supported'') of
                None \<Rightarrow> (False, False)
              | Some supported \<Rightarrow> (supported, True))"

definition AllowsOpenAICompact :: "(string \<Rightarrow> string) \<Rightarrow> Account option \<Rightarrow> bool" where
  "AllowsOpenAICompact u a =
     (case a of
        None \<Rightarrow> False
      | Some acc \<Rightarrow>
          if \<not> IsOpenAI acc then False
          else case OpenAICompactSupportKnown u a of
                 (supported, known) \<Rightarrow> if \<not> known then True else supported)"

section \<open>Temporary un-scheduling rules\<close>

definition IsTempUnschedulableEnabled :: "Account \<Rightarrow> bool" where
  "IsTempUnschedulableEnabled a = cred_enabled a ''temp_unschedulable_enabled''"

definition parseTempUnschedInt :: "goany \<Rightarrow> int" where
  "parseTempUnschedInt v = (case int_of_any v of None \<Rightarrow> 0 | Some i \<Rightarrow> i)"

definition parseTempUnschedString :: "goany \<Rightarrow> string" where
  "parseTempUnschedString v = (case v of AnyString s \<Rightarrow> strings_TrimSpace s | _ \<Rightarrow> [])"

definition parseTempUnschedStrings :: "goany \<Rightarrow> string list" where
  "parseTempUnschedStrings v =
     (let trimmed = (\<lambda>raw. filter (\<lambda>s. s \<noteq> []) (map strings_TrimSpace raw)) in
      case v of
        AnyStrings raw \<Rightarrow> trimmed raw
      | AnySlice items \<Rightarrow>
          trimmed (List.map_filter (\<lambda>i. case i of AnyString s \<Rightarrow> Some s | _ \<Rightarrow> None) items)
      | _ \<Rightarrow> [])"

definition parseTempUnschedRule :: "goany \<Rightarrow> TempUnschedulableRule option" where
  "parseTempUnschedRule item =
     (case item of
        AnyMap entry \<Rightarrow>
          let rule = \<lparr> tur_ErrorCode = parseTempUnschedInt (any_index entry ''error_code''),
                       tur_Keywords = parseTempUnschedStrings (any_index entry ''keywords''),
                       tur_DurationMinutes = parseTempUnschedInt (any_index entry ''duration_minutes''),
                       tur_Description = parseTempUnschedString (any_index entry ''description'') \<rparr>
          in if tur_ErrorCode rule \<le> 0 \<or> tur_DurationMinutes rule \<le> 0 \<or> tur_Keywords rule = []
             then None else Some rule
      | _ \<Rightarrow> None)"

definition GetTempUnschedulableRules :: "Account \<Rightarrow> TempUnschedulableRule list" where
  "GetTempUnschedulableRules a =
     (case any_get (a_Credentials a) ''temp_unschedulable_rules'' of
        Some (AnySlice arr) \<Rightarrow> List.map_filter parseTempUnschedRule arr
      | _ \<Rightarrow> [])"

section \<open>Pool mode and error codes\<close>

definition IsPoolMode :: "Account \<Rightarrow> bool" where
  "IsPoolMode a \<longleftrightarrow> IsAPIKeyOrBedrock a \<and> cred_enabled a ''pool_mode''"

definition defaultPoolModeRetryCount :: int where
  "defaultPoolModeRetryCount = 3"

definition maxPoolModeRetryCount :: int where
  "maxPoolModeRetryCount = 10"

definition parsePoolModeRetryCount :: "goany \<Rightarrow> int" where
  "parsePoolModeRetryCount v =
     (case int_of_any v of None \<Rightarrow> defaultPoolModeRetryCount | Some i \<Rightarrow> i)"

definition GetPoolModeRetryCount :: "Account option \<Rightarrow> int" where
  "GetPoolModeRetryCount a =
     (case a of
        None \<Rightarrow> defaultPoolModeRetryCount
      | Some a \<Rightarrow>
          if \<not> IsPoolMode a then defaultPoolModeRetryCount
          else
            case any_get (a_Credentials a) ''pool_mode_retry_count'' of
              None \<Rightarrow> defaultPoolModeRetryCount
            | Some AnyNil \<Rightarrow> defaultPoolModeRetryCount
            | Some raw \<Rightarrow>
                let count = parsePoolModeRetryCount raw in
                if count < 0 then 0
                else if count > maxPoolModeRetryCount then maxPoolModeRetryCount
                else count)"

definition defaultPoolModeRetryableStatusCodes :: "int list" where
  "defaultPoolModeRetryableStatusCodes = [401, 403, 429]"

definition isPoolModeRetryableStatus :: "int \<Rightarrow> bool" where
  "isPoolModeRetryableStatus statusCode \<longleftrightarrow>
     list_ex (\<lambda>c. c = statusCode) defaultPoolModeRetryableStatusCodes"

text \<open>The loop over the configured values; \<open>codes\<close> also serves as the set \<open>seen\<close>.\<close>

fun collect_status_codes :: "goany list \<Rightarrow> int list \<Rightarrow> int list" where
  "collect_status_codes [] codes = codes"
| "collect_status_codes (v # vs) codes =
     (case int_of_any v of
        None \<Rightarrow> collect_status_codes vs codes
      | Some code \<Rightarrow>
          if code < 100 \<or> code > 599 then collect_status_codes vs codes
          else if code \<in> set codes then collect_status_codes vs codes
          else collect_status_codes vs (codes @ [code]))"

definition GetPoolModeRetryStatusCodes :: "Account option \<Rightarrow> int list option" where
  "GetPoolModeRetryStatusCodes a =
     (case a of
        None \<Rightarrow> None
      | Some a \<Rightarrow>
          (case any_get (a_Credentials a) ''pool_mode_retry_status_codes'' of
             Some (AnySlice arr) \<Rightarrow> Some (sort (collect_status_codes arr []))
           | _ \<Rightarrow> None))"

definition IsPoolModeRetryableStatus :: "Account option \<Rightarrow> int \<Rightarrow> bool" where
  "IsPoolModeRetryableStatus a statusCode =
     (case GetPoolModeRetryStatusCodes a of
        None \<Rightarrow> isPoolModeRetryableStatus statusCode
      | Some codes \<Rightarrow> list_ex (\<lambda>c. c = statusCode) codes)"

definition IsCustomErrorCodesEnabled :: "Account \<Rightarrow> bool" where
  "IsCustomErrorCodesEnabled a \<longleftrightarrow>
     a_Type a = AccountTypeAPIKey \<and> cred_enabled a ''custom_error_codes_enabled''"

definition GetCustomErrorCodes :: "Account \<Rightarrow> int list" where
  "GetCustomErrorCodes a =
     (case any_get (a_Credentials a) ''custom_error_codes'' of
        Some (AnySlice arr) \<Rightarrow>
          List.map_filter
            (\<lambda>v. case v of AnyFloat64 f \<Rightarrow> Some (float64_to_int f) | _ \<Rightarrow> None) arr
      | _ \<Rightarrow> [])"

definition ShouldHandleErrorCode :: "Account \<Rightarrow> int \<Rightarrow> bool" where
  "ShouldHandleErrorCode a statusCode =
     (if \<not> IsCustomErrorCodesEnabled a then True
      else
        let codes = GetCustomErrorCodes a in
        if codes = [] then True else list_ex (\<lambda>c. c = statusCode) codes)"

definition IsInterceptWarmupEnabled :: "Account \<Rightarrow> bool" where
  "IsInterceptWarmupEnabled a = cred_enabled a ''intercept_warmup_requests''"

section \<open>Requests per minute\<close>

datatype WindowCostSchedulability =
  WindowCostSchedulable | WindowCostStickyOnly | WindowCostNotSchedulable

definition parseExtraInt :: "goany \<Rightarrow> int" where
  "parseExtraInt v = (case int_of_any v of None \<Rightarrow> 0 | Some i \<Rightarrow> i)"

definition extra_int :: "Account \<Rightarrow> string \<Rightarrow> int" where
  "extra_int a key = (case any_get (a_Extra a) key of None \<Rightarrow> 0 | Some v \<Rightarrow> parseExtraInt v)"

definition GetMaxSessions :: "Account \<Rightarrow> int" where
  "GetMaxSessions a = extra_int a ''max_sessions''"

definition GetSessionIdleTimeoutMinutes :: "Account \<Rightarrow> int" where
  "GetSessionIdleTimeoutMinutes a =
     (let val = extra_int a ''session_idle_timeout_minutes'' in if val > 0 then val else 5)"

definition GetBaseRPM :: "Account \<Rightarrow> int" where
  "GetBaseRPM a = (let val = extra_int a ''base_rpm'' in if val > 0 then val else 0)"

definition GetRPMStrategy :: "Account \<Rightarrow> string" where
  "GetRPMStrategy a =
     (if GetExtraString a ''rpm_strategy'' = ''sticky_exempt'' then ''sticky_exempt'' else ''tiered'')"

definition GetRPMStickyBuffer :: "Account \<Rightarrow> int" where
  "GetRPMStickyBuffer a =
     (if a_Extra a = None then 0
      else if extra_int a ''rpm_sticky_buffer'' > 0 then extra_int a ''rpm_sticky_buffer''
      else
        let base = GetBaseRPM a in
        if base \<le> 0 then 0
        else
          let conc = (if a_Concurrency a < 0 then 0 else a_Concurrency a);
              sess = (if GetMaxSessions a < 0 then 0 else GetMaxSessions a);
              buffer = int64_wrap (conc + sess);
              floor = (if base div 5 < 1 then 1 else base div 5)
          in if buffer < floor then floor else buffer)"

definition CheckRPMSchedulability :: "Account \<Rightarrow> int \<Rightarrow> WindowCostSchedulability" where
  "CheckRPMSchedulability a currentRPM =
     (let baseRPM = GetBaseRPM a in
      if baseRPM \<le> 0 then WindowCostSchedulable
      else if currentRPM < baseRPM then WindowCostSchedulable
      else if GetRPMStrategy a = ''sticky_exempt'' then WindowCostStickyOnly
      else if currentRPM < int64_wrap (baseRPM + GetRPMStickyBuffer a) then WindowCostStickyOnly
      else WindowCostNotSchedulable)"

section \<open>Lemmas\<close>

lemma GetBaseRPM_nonneg [simp]: "0 \<le> GetBaseRPM a"
  by (simp add: GetBaseRPM_def Let_def)

lemma GetBaseRPM_nil_Extra: "a_Extra a = None \<Longrightarrow> GetBaseRPM a = 0"
  by (simp add: GetBaseRPM_def extra_int_def any_get_def)

lemma GetRPMStickyBuffer_pos: "0 < GetBaseRPM a \<Longrightarrow> 1 \<le> GetRPMStickyBuffer a"
  using GetBaseRPM_nil_Extra [of a]
  by (auto simp: GetRPMStickyBuffer_def Let_def)

lemma GetPoolModeRetryCount_range:
  "0 \<le> GetPoolModeRetryCount a \<and> GetPoolModeRetryCount a \<le> maxPoolModeRetryCount"
  by (auto simp: GetPoolModeRetryCount_def defaultPoolModeRetryCount_def maxPoolModeRetryCount_def
      Let_def split: option.splits goany.splits)

lemma collect_status_codes_set:
  "set (collect_status_codes vs codes) =
     set codes \<union> {c. 100 \<le> c \<and> c \<le> 599 \<and> (\<exists>v \<in> set vs. int_of_any v = Some c)}"
  by (induction vs codes rule: collect_status_codes.induct) (auto split: option.splits)

lemma collect_status_codes_distinct:
  "distinct codes \<Longrightarrow> distinct (collect_status_codes vs codes)"
  by (induction vs codes rule: collect_status_codes.induct) (auto split: option.splits)

lemma parseTempUnschedStrings_trimmed:
  "s \<in> set (parseTempUnschedStrings v) \<Longrightarrow> s \<noteq> [] \<and> strings_TrimSpace s = s"
  by (cases v) (auto simp: parseTempUnschedStrings_def Let_def)

lemma parseTempUnschedRule_valid:
  assumes "parseTempUnschedRule i = Some r"
  shows "0 < tur_ErrorCode r \<and> 0 < tur_DurationMinutes r \<and> tur_Keywords r \<noteq> [] \<and>
    (\<forall>k \<in> set (tur_Keywords r). k \<noteq> [] \<and> strings_TrimSpace k = k)"
  using assms
  by (auto simp: parseTempUnschedRule_def Let_def parseTempUnschedStrings_trimmed
      split: goany.splits if_splits dest: parseTempUnschedStrings_trimmed)

section \<open>Properties\<close>

text \<open>
  The statuses on which a pool-mode account is retried: with no list
  configured they are 401, 403 and 429; a configured list, whatever mixture of numbers and
  strings the JSON holds, is returned sorted and without duplicates, and a status is retried
  exactly when it is a legal HTTP status that some element of the list denotes.
\<close>

theorem pool_mode_status_policy:
  "IsPoolModeRetryableStatus a status =
     (case a of
        None \<Rightarrow> status \<in> {401, 403, 429}
      | Some acc \<Rightarrow>
          (case any_get (a_Credentials acc) ''pool_mode_retry_status_codes'' of
             Some (AnySlice arr) \<Rightarrow>
               100 \<le> status \<and> status \<le> 599 \<and> (\<exists>v \<in> set arr. int_of_any v = Some status)
           | _ \<Rightarrow> status \<in> {401, 403, 429})) \<and>
   (case GetPoolModeRetryStatusCodes a of None \<Rightarrow> True | Some cs \<Rightarrow> sorted cs \<and> distinct cs)"
  by (auto simp: IsPoolModeRetryableStatus_def GetPoolModeRetryStatusCodes_def
      isPoolModeRetryableStatus_def defaultPoolModeRetryableStatusCodes_def list_ex_iff
      collect_status_codes_set collect_status_codes_distinct split: option.splits goany.splits)

text \<open>
  The three zones of the per-minute request limit: below the base the
  account takes any request; from the base on only sticky sessions, for at least one more
  request; and, under the tiered strategy, nothing at all from base plus buffer on. An account
  with the sticky-exempt strategy has no third zone, and one without a limit only the first.
  The premise excludes the configurations whose limits sum up beyond 64 bits.
\<close>

theorem rpm_zones:
  assumes "GetBaseRPM a + GetRPMStickyBuffer a \<le> int64_max"
  shows "let base = GetBaseRPM a; red = base + GetRPMStickyBuffer a in
    (CheckRPMSchedulability a rpm = WindowCostSchedulable \<longleftrightarrow> base = 0 \<or> rpm < base) \<and>
    (CheckRPMSchedulability a rpm = WindowCostNotSchedulable \<longleftrightarrow>
       0 < base \<and> GetRPMStrategy a = ''tiered'' \<and> red \<le> rpm) \<and>
    (0 < base \<longrightarrow> base < red \<and> CheckRPMSchedulability a base = WindowCostStickyOnly)"
proof (cases "GetBaseRPM a = 0")
  case True
  then show ?thesis by (simp add: CheckRPMSchedulability_def Let_def)
next
  case False
  then have pos: "0 < GetBaseRPM a"
    using GetBaseRPM_nonneg [of a] by linarith
  note buf = GetRPMStickyBuffer_pos [OF pos]
  have "int64_wrap (GetBaseRPM a + GetRPMStickyBuffer a) = GetBaseRPM a + GetRPMStickyBuffer a"
    using assms pos buf by (intro int64_wrap_id) (simp_all add: int64_min_def)
  with pos buf show ?thesis
    by (auto simp: CheckRPMSchedulability_def GetRPMStrategy_def Let_def)
qed

definition example_account :: Account where
  "example_account =
     \<lparr> a_ID = 7, a_Name = ''acc'', a_Notes = None, a_Platform = ''openai'', a_Type = ''apikey'',
       a_Credentials = None, a_Extra = Some [(''base_rpm'', AnyInt 10)], a_ProxyID = Some 3,
       a_ProxyFallbackOriginID = None, a_Concurrency = 2, a_Priority = 1, a_RateMultiplier = None,
       a_LoadFactor = None, a_Status = ''active'', a_ErrorMessage = [], a_LastUsedAt = None,
       a_ExpiresAt = None, a_AutoPauseOnExpired = False, a_CreatedAt = 1, a_UpdatedAt = 1,
       a_Schedulable = True, a_RateLimitedAt = None, a_RateLimitResetAt = None,
       a_OverloadUntil = None, a_TempUnschedulableUntil = None, a_TempUnschedulableReason = [],
       a_SessionWindowStart = None, a_SessionWindowEnd = None, a_SessionWindowStatus = [],
       a_ParentAccountID = None, a_QuotaDimension = [], a_GroupIDs = [] \<rparr>"

theorem rpm_zones_witness:
  "CheckRPMSchedulability example_account 9 = WindowCostSchedulable \<and>
   CheckRPMSchedulability example_account 10 = WindowCostStickyOnly \<and>
   CheckRPMSchedulability example_account 12 = WindowCostNotSchedulable"
proof -
  have b: "GetBaseRPM example_account = 10"
    by (simp add: GetBaseRPM_def extra_int_def any_get_def parseExtraInt_def example_account_def)
  have r: "GetRPMStickyBuffer example_account = 2"
    by (simp add: GetRPMStickyBuffer_def b) (simp add: GetMaxSessions_def extra_int_def any_get_def
        parseExtraInt_def example_account_def int64_wrap_def)
  have t: "GetRPMStrategy example_account = ''tiered''"
    by (simp add: GetRPMStrategy_def GetExtraString_def any_get_def as_string_def example_account_def)
  have "GetBaseRPM example_account + GetRPMStickyBuffer example_account \<le> int64_max"
    by (simp add: b r int64_max_def)
  note z = rpm_zones [OF this]
  show ?thesis
    using z [of 9] z [of 10] z [of 12] by (simp add: b r t Let_def)
qed

text \<open>
  Temporary un-scheduling rules read from an account's credentials are
  usable as they are: every rule has a positive status code and a positive duration, and at
  least one keyword, each of them non-empty and trimmed.
\<close>

theorem temp_unschedulable_rules_valid:
  "list_all (\<lambda>r. 0 < tur_ErrorCode r \<and> 0 < tur_DurationMinutes r \<and> tur_Keywords r \<noteq> [] \<and>
       list_all (\<lambda>k. k \<noteq> [] \<and> strings_TrimSpace k = k) (tur_Keywords r))
     (GetTempUnschedulableRules a)"
  unfolding list_all_iff
  by (auto simp: GetTempUnschedulableRules_def in_set_map_filter_iff
      split: option.splits goany.splits dest: parseTempUnschedRule_valid)

end
