(* ===== verification/Proxy_Circuit.thy ===== *)
theory Proxy_Circuit
  imports Breaker Account
begin

text \<open>
  The proxy stream circuit (\<open>internal/service/openai_proxy_stream_circuit.go\<close>): an in-process
  breaker keyed by proxy ID that quarantines a proxy after repeated mid-stream disconnects, the
  account-level entry points of the gateway service, and the bypass of a fail-open selection.

  The operations of the circuit are modelled on a non-nil circuit (the mutex serialises them);
  the service-level functions take the result of \<open>getOpenAIProxyStreamCircuit\<close>, nil for a nil
  service, as an \<open>option\<close>. Warnings are returned as values.
\<close>

section \<open>Settings and state\<close>

record CircuitSettings =
  pss_disabled :: bool
  pss_failureThreshold :: int
  pss_failureWindow :: duration
  pss_quarantineTTL :: duration
  pss_collapseInterval :: duration
  pss_maxEntries :: int

record CircuitEntry =
  pse_failureCount :: int
  pse_windowStart :: gotime
  pse_lastFailureAt :: gotime
  pse_blockedUntil :: gotime
  pse_lastTouched :: gotime

record ProxyStreamCircuit =
  psc_settings :: CircuitSettings
  psc_entries :: "(int, CircuitEntry) gomap"

definition defaultOpenAIProxyStreamFailureThreshold :: int where
  "defaultOpenAIProxyStreamFailureThreshold = 2"

definition defaultOpenAIProxyStreamFailureWindow :: duration where
  "defaultOpenAIProxyStreamFailureWindow = Minute"

definition defaultOpenAIProxyStreamQuarantineTTL :: duration where
  "defaultOpenAIProxyStreamQuarantineTTL = 10 * Minute"

definition defaultOpenAIProxyStreamCircuitMaxEntries :: int where
  "defaultOpenAIProxyStreamCircuitMaxEntries = 4096"

definition defaultOpenAIProxyStreamFailureCollapse :: duration where
  "defaultOpenAIProxyStreamFailureCollapse = 3 * Second"

lemmas psc_defaults =
  defaultOpenAIProxyStreamFailureThreshold_def defaultOpenAIProxyStreamFailureWindow_def
  defaultOpenAIProxyStreamQuarantineTTL_def defaultOpenAIProxyStreamCircuitMaxEntries_def
  defaultOpenAIProxyStreamFailureCollapse_def

text \<open>The \<open>openai_proxy_stream_circuit\<close> section of the configuration.\<close>

record CircuitConfig =
  pcfg_Disabled :: bool
  pcfg_FailureThreshold :: int
  pcfg_WindowSeconds :: int
  pcfg_TTLSeconds :: int

definition resolveOpenAIProxyStreamCircuitSettings :: "CircuitConfig option \<Rightarrow> CircuitSettings" where
  "resolveOpenAIProxyStreamCircuitSettings cfg =
     (let settings =
        \<lparr> pss_disabled = False,
          pss_failureThreshold = defaultOpenAIProxyStreamFailureThreshold,
          pss_failureWindow = defaultOpenAIProxyStreamFailureWindow,
          pss_quarantineTTL = defaultOpenAIProxyStreamQuarantineTTL,
          pss_collapseInterval = defaultOpenAIProxyStreamFailureCollapse,
          pss_maxEntries = defaultOpenAIProxyStreamCircuitMaxEntries \<rparr>
      in case cfg of
           None \<Rightarrow> settings
         | Some cfg \<Rightarrow>
             settings
               \<lparr> pss_disabled := pcfg_Disabled cfg,
                 pss_failureThreshold :=
                   (if pcfg_FailureThreshold cfg > 0 then pcfg_FailureThreshold cfg
                    else pss_failureThreshold settings),
                 pss_failureWindow :=
                   (if pcfg_WindowSeconds cfg > 0 then int64_wrap (pcfg_WindowSeconds cfg * Second)
                    else pss_failureWindow settings),
                 pss_quarantineTTL :=
                   (if pcfg_TTLSeconds cfg > 0 then int64_wrap (pcfg_TTLSeconds cfg * Second)
                    else pss_quarantineTTL settings) \<rparr>)"

definition newOpenAIProxyStreamCircuit :: "CircuitSettings \<Rightarrow> ProxyStreamCircuit" where
  "newOpenAIProxyStreamCircuit settings =
     \<lparr> psc_settings = settings
         \<lparr> pss_failureThreshold :=
             (if pss_failureThreshold settings \<le> 0 then defaultOpenAIProxyStreamFailureThreshold
              else pss_failureThreshold settings),
           pss_failureWindow :=
             (if pss_failureWindow settings \<le> 0 then defaultOpenAIProxyStreamFailureWindow
              else pss_failureWindow settings),
           pss_quarantineTTL :=
             (if pss_quarantineTTL settings \<le> 0 then defaultOpenAIProxyStreamQuarantineTTL
              else pss_quarantineTTL settings),
           pss_maxEntries :=
             (if pss_maxEntries settings \<le> 0 then defaultOpenAIProxyStreamCircuitMaxEntries
              else pss_maxEntries settings),
           pss_collapseInterval :=
             (if pss_collapseInterval settings < 0 then 0 else pss_collapseInterval settings) \<rparr>,
       psc_entries = [] \<rparr>"

definition zero_entry :: CircuitEntry where
  "zero_entry = \<lparr> pse_failureCount = 0, pse_windowStart = 0, pse_lastFailureAt = 0,
     pse_blockedUntil = 0, pse_lastTouched = 0 \<rparr>"

section \<open>Operations\<close>

definition removableEntry :: "CircuitSettings \<Rightarrow> gotime \<Rightarrow> CircuitEntry \<Rightarrow> bool" where
  "removableEntry st now entry =
     (let staleObservation = time_IsZero (pse_blockedUntil entry) \<and>
            time_Sub now (pse_lastTouched entry) > pss_failureWindow st;
          expiredQuarantine = \<not> time_IsZero (pse_blockedUntil entry) \<and>
            \<not> now < pse_blockedUntil entry
      in staleObservation \<or> expiredQuarantine)"

text \<open>
  \<open>oldestProxyID\<close> starts as 0, which no key equals, so the search loop is \<open>oldest_entry\<close> and
  the final test is that it found a positive ID.
\<close>

definition psc_ensureCapacityLocked ::
  "(nat \<Rightarrow> nat) \<Rightarrow> gotime \<Rightarrow> CircuitSettings \<Rightarrow> (int, CircuitEntry) gomap
    \<Rightarrow> (int, CircuitEntry) gomap" where
  "psc_ensureCapacityLocked r now st entries =
     (if int (length entries) < pss_maxEntries st then entries
      else
        let entries = filter (\<lambda>(proxyID, entry). \<not> removableEntry st now entry) entries in
        if int (length entries) < pss_maxEntries st then entries
        else
          case oldest_entry pse_lastTouched (map_range r entries) of
            None \<Rightarrow> entries
          | Some (oldestProxyID, _) \<Rightarrow>
              if oldestProxyID > 0 then AList.delete oldestProxyID entries else entries)"

text \<open>The two tests of \<open>recordFailure\<close>: a window that has to be opened, and a burst.\<close>

definition openWindow :: "CircuitSettings \<Rightarrow> gotime \<Rightarrow> CircuitEntry \<Rightarrow> CircuitEntry" where
  "openWindow st now entry =
     (if time_IsZero (pse_windowStart entry) \<or> now < pse_windowStart entry
         \<or> time_Sub now (pse_windowStart entry) > pss_failureWindow st
      then entry \<lparr> pse_failureCount := 0, pse_windowStart := now, pse_blockedUntil := 0 \<rparr>
      else entry)"

definition sameBurst :: "CircuitSettings \<Rightarrow> gotime \<Rightarrow> CircuitEntry \<Rightarrow> bool" where
  "sameBurst st now entry \<longleftrightarrow>
     pss_collapseInterval st > 0 \<and> \<not> time_IsZero (pse_lastFailureAt entry)
     \<and> time_Sub now (pse_lastFailureAt entry) \<ge> 0
     \<and> time_Sub now (pse_lastFailureAt entry) < pss_collapseInterval st"

definition psc_recordFailure ::
  "(nat \<Rightarrow> nat) \<Rightarrow> ProxyStreamCircuit \<Rightarrow> int \<Rightarrow> gotime \<Rightarrow> ProxyStreamCircuit \<times> bool \<times> gotime" where
  "psc_recordFailure r c proxyID now =
     (if pss_disabled (psc_settings c) \<or> proxyID \<le> 0 then (c, False, 0)
      else
        let st = psc_settings c;
            found = map_of (psc_entries c) proxyID;
            entry = (case found of None \<Rightarrow> zero_entry | Some e \<Rightarrow> e)
        in
          if found \<noteq> None \<and> now < pse_blockedUntil entry then
            (c \<lparr> psc_entries :=
                   AList.update proxyID (entry \<lparr> pse_lastTouched := now \<rparr>) (psc_entries c) \<rparr>,
             False, pse_blockedUntil entry)
          else
            let entries = (if found = None then psc_ensureCapacityLocked r now st (psc_entries c)
                           else psc_entries c);
                entry = openWindow st now entry
            in
              if sameBurst st now entry then
                (c \<lparr> psc_entries :=
                       AList.update proxyID (entry \<lparr> pse_lastTouched := now \<rparr>) entries \<rparr>,
                 False, 0)
              else
                let entry = entry \<lparr> pse_failureCount := pse_failureCount entry + 1,
                                    pse_lastFailureAt := now, pse_lastTouched := now \<rparr>;
                    tripped = (pse_failureCount entry \<ge> pss_failureThreshold st);
                    entry = (if tripped
                             then entry \<lparr> pse_blockedUntil := now + pss_quarantineTTL st \<rparr>
                             else entry)
                in (c \<lparr> psc_entries := AList.update proxyID entry entries \<rparr>,
                    tripped, pse_blockedUntil entry))"

definition psc_recordSuccess :: "ProxyStreamCircuit \<Rightarrow> int \<Rightarrow> ProxyStreamCircuit \<times> bool" where
  "psc_recordSuccess c proxyID =
     (if proxyID \<le> 0 then (c, False)
      else if map_of (psc_entries c) proxyID = None then (c, False)
      else (c \<lparr> psc_entries := AList.delete proxyID (psc_entries c) \<rparr>, True))"

definition psc_isBlocked :: "ProxyStreamCircuit \<Rightarrow> int \<Rightarrow> gotime \<Rightarrow> ProxyStreamCircuit \<times> bool" where
  "psc_isBlocked c proxyID now =
     (if pss_disabled (psc_settings c) \<or> proxyID \<le> 0 then (c, False)
      else
        case map_of (psc_entries c) proxyID of
          None \<Rightarrow> (c, False)
        | Some entry \<Rightarrow>
            if time_IsZero (pse_blockedUntil entry) then (c, False)
            else if \<not> now < pse_blockedUntil entry
            then (c \<lparr> psc_entries := AList.delete proxyID (psc_entries c) \<rparr>, False)
            else (c, True))"

definition psc_activeBlockCount :: "ProxyStreamCircuit \<Rightarrow> gotime \<Rightarrow> int" where
  "psc_activeBlockCount c now =
     (if pss_disabled (psc_settings c) then 0
      else foldl (\<lambda>count (_, entry).
             if \<not> time_IsZero (pse_blockedUntil entry) \<and> now < pse_blockedUntil entry
             then count + 1 else count) 0 (psc_entries c))"

section \<open>Entry points of the gateway service\<close>

definition openAIProxyStreamCircuitProxyID :: "Account option \<Rightarrow> int \<times> bool" where
  "openAIProxyStreamCircuitProxyID account =
     (case account of
        None \<Rightarrow> (0, False)
      | Some a \<Rightarrow>
          if a_Platform a \<noteq> PlatformOpenAI then (0, False)
          else case a_ProxyID a of
                 None \<Rightarrow> (0, False)
               | Some p \<Rightarrow> if p \<le> 0 then (0, False) else (p, True))"

text \<open>What \<open>errors.Is\<close> sees of the stream's error.\<close>

datatype streamErr = NoError | ContextCanceled | ContextDeadlineExceeded | OtherError string

text \<open>The warning logged when a proxy is quarantined: proxy, account, end of the quarantine.\<close>

definition recordOpenAIProxyStreamDisconnect ::
  "(nat \<Rightarrow> nat) \<Rightarrow> gotime \<Rightarrow> ProxyStreamCircuit option \<Rightarrow> Account option \<Rightarrow> streamErr
    \<Rightarrow> ProxyStreamCircuit option \<times> (int \<times> int \<times> gotime) option" where
  "recordOpenAIProxyStreamDisconnect r now circuit account err =
     (case openAIProxyStreamCircuitProxyID account of
        (proxyID, ok) \<Rightarrow>
          if \<not> ok \<or> err = NoError \<or> err = ContextCanceled \<or> err = ContextDeadlineExceeded
          then (circuit, None)
          else
            case circuit of
              None \<Rightarrow> (None, None)
            | Some c \<Rightarrow>
                (case psc_recordFailure r c proxyID now of
                   (c', tripped, until) \<Rightarrow>
                     (Some c', if tripped then Some (proxyID, a_ID (the account), until) else None)))"

definition clearOpenAIProxyStreamDisconnect ::
  "ProxyStreamCircuit option \<Rightarrow> Account option \<Rightarrow> ProxyStreamCircuit option" where
  "clearOpenAIProxyStreamDisconnect circuit account =
     (case openAIProxyStreamCircuitProxyID account of
        (proxyID, ok) \<Rightarrow>
          if \<not> ok then circuit
          else case circuit of None \<Rightarrow> None | Some c \<Rightarrow> Some (fst (psc_recordSuccess c proxyID)))"

text \<open>\<open>bypassed\<close> is the flag \<open>withOpenAIProxyStreamQuarantineBypass\<close> puts into the context.\<close>

definition isOpenAIProxyStreamQuarantined ::
  "bool \<Rightarrow> gotime \<Rightarrow> ProxyStreamCircuit option \<Rightarrow> Account option
    \<Rightarrow> ProxyStreamCircuit option \<times> bool" where
  "isOpenAIProxyStreamQuarantined bypassed now circuit account =
     (case openAIProxyStreamCircuitProxyID account of
        (proxyID, ok) \<Rightarrow>
          if \<not> ok then (circuit, False)
          else if bypassed then (circuit, False)
          else case circuit of
                 None \<Rightarrow> (None, False)
               | Some c \<Rightarrow> (case psc_isBlocked c proxyID now of (c', b) \<Rightarrow> (Some c', b)))"

section \<open>Invariant\<close>

definition psc_inv :: "ProxyStreamCircuit \<Rightarrow> bool" where
  "psc_inv c \<longleftrightarrow> gm_wf (psc_entries c) \<and> (\<forall>k \<in> fst ` set (psc_entries c). 0 < k) \<and>
     int (length (psc_entries c)) \<le> pss_maxEntries (psc_settings c) \<and>
     0 < pss_maxEntries (psc_settings c)"

definition psc_settings_ok :: "CircuitSettings \<Rightarrow> bool" where
  "psc_settings_ok st \<longleftrightarrow> 0 < pss_failureThreshold st \<and> 0 < pss_failureWindow st \<and>
     0 < pss_quarantineTTL st \<and> 0 \<le> pss_collapseInterval st \<and> 0 < pss_maxEntries st"

definition psc_key :: "int \<Rightarrow> int option" where
  "psc_key p = (if p \<le> 0 then None else Some p)"

lemma newOpenAIProxyStreamCircuit_ok:
  "psc_inv (newOpenAIProxyStreamCircuit st)"
  "psc_settings_ok (psc_settings (newOpenAIProxyStreamCircuit st))"
  by (simp_all add: psc_inv_def psc_settings_ok_def newOpenAIProxyStreamCircuit_def psc_defaults
      Minute_def Second_def)

lemma psc_isBlocked_iff:
  "snd (psc_isBlocked c p now) \<longleftrightarrow> \<not> pss_disabled (psc_settings c) \<and> 0 < p \<and>
     (\<exists>e. map_of (psc_entries c) p = Some e \<and> pse_blockedUntil e \<noteq> 0 \<and> now < pse_blockedUntil e)"
  by (auto simp: psc_isBlocked_def time_IsZero_def split: option.splits)

lemma psc_isBlocked_entries:
  "psc_settings (fst (psc_isBlocked c p now)) = psc_settings c"
  "psc_entries (fst (psc_isBlocked c p now)) = psc_entries c \<or>
   psc_entries (fst (psc_isBlocked c p now)) = AList.delete p (psc_entries c)"
  by (auto simp: psc_isBlocked_def split: option.splits)

lemma psc_recordSuccess_entries:
  "psc_settings (fst (psc_recordSuccess c p)) = psc_settings c"
  "map_of (psc_entries (fst (psc_recordSuccess c p))) =
     (if p \<le> 0 then map_of (psc_entries c) else (map_of (psc_entries c))(p := None))"
  "psc_entries (fst (psc_recordSuccess c p)) = psc_entries c \<or>
   psc_entries (fst (psc_recordSuccess c p)) = AList.delete p (psc_entries c)"
  by (auto simp: psc_recordSuccess_def)

lemma psc_inv_delete:
  assumes "psc_inv c" and "psc_settings d = psc_settings c"
    and "psc_entries d = psc_entries c \<or> psc_entries d = AList.delete p (psc_entries c)"
  shows "psc_inv d"
  using assms length_delete_le [of p "psc_entries c"]
  by (auto simp: psc_inv_def set_delete_wf simp del: length_delete_le)

lemma psc_ensureCapacity_subset:
  "set (psc_ensureCapacityLocked r now st m) \<subseteq> set m"
  by (auto simp: psc_ensureCapacityLocked_def Let_def set_delete_wf
      split: if_splits option.splits)

lemma psc_ensureCapacity_wf: "gm_wf m \<Longrightarrow> gm_wf (psc_ensureCapacityLocked r now st m)"
  by (auto simp: psc_ensureCapacityLocked_def Let_def split: option.splits)

lemma psc_ensureCapacity_length:
  assumes "gm_wf m" and "\<forall>k \<in> fst ` set m. 0 < k" and "int (length m) \<le> pss_maxEntries st"
    and "0 < pss_maxEntries st"
  shows "int (length (psc_ensureCapacityLocked r now st m)) < pss_maxEntries st"
proof -
  let ?f = "filter (\<lambda>(p, e). \<not> removableEntry st now e) m"
  consider (roomy) "int (length m) < pss_maxEntries st"
    | (filtered) "\<not> int (length m) < pss_maxEntries st" "int (length ?f) < pss_maxEntries st"
    | (full) "\<not> int (length m) < pss_maxEntries st" "\<not> int (length ?f) < pss_maxEntries st"
    by blast
  then show ?thesis
  proof cases
    case full
    then have len: "int (length ?f) = pss_maxEntries st"
      using assms(3) length_filter_le [of "\<lambda>(p, e). \<not> removableEntry st now e" m] by linarith
    then have "map_range r ?f \<noteq> []"
      using assms(4) by auto
    then have "oldest_entry pse_lastTouched (map_range r ?f) \<noteq> None"
      by (simp only: oldest_entry_None_iff) simp
    then obtain kt0 where "oldest_entry pse_lastTouched (map_range r ?f) = Some kt0"
      by blast
    then obtain k t where kt: "oldest_entry pse_lastTouched (map_range r ?f) = Some (k, t)"
      by (cases kt0) simp
    then have k: "k \<in> fst ` set ?f"
      by (metis oldest_entry_in set_map_range)
    then have "0 < k"
      using assms(2) by auto
    have "length (AList.delete k ?f) = length ?f - 1"
      using k assms(1) by (simp add: length_delete map_of_eq_None_iff)
    then have "int (length (AList.delete k ?f)) < pss_maxEntries st"
      using len assms(4) by linarith
    with full kt \<open>0 < k\<close> show ?thesis
      by (simp add: psc_ensureCapacityLocked_def)
  qed (simp_all add: psc_ensureCapacityLocked_def)
qed

text \<open>The table a failure writes its entry into.\<close>

definition psc_room :: "(nat \<Rightarrow> nat) \<Rightarrow> ProxyStreamCircuit \<Rightarrow> int \<Rightarrow> gotime \<Rightarrow> (int, CircuitEntry) gomap" where
  "psc_room r c p now =
     (if map_of (psc_entries c) p = None
      then psc_ensureCapacityLocked r now (psc_settings c) (psc_entries c) else psc_entries c)"

definition psc_entry :: "ProxyStreamCircuit \<Rightarrow> int \<Rightarrow> CircuitEntry" where
  "psc_entry c p = (case map_of (psc_entries c) p of None \<Rightarrow> zero_entry | Some e \<Rightarrow> e)"

definition psc_counted :: "CircuitSettings \<Rightarrow> gotime \<Rightarrow> CircuitEntry \<Rightarrow> CircuitEntry" where
  "psc_counted st now e =
     (let e' = e \<lparr> pse_failureCount := pse_failureCount e + 1, pse_lastFailureAt := now,
                   pse_lastTouched := now \<rparr>
      in if pse_failureCount e + 1 \<ge> pss_failureThreshold st
         then e' \<lparr> pse_blockedUntil := now + pss_quarantineTTL st \<rparr> else e')"

text \<open>The branches of \<open>recordFailure\<close>: ignored, already quarantined, same burst, counted.\<close>

lemma psc_recordFailure_ignored:
  "pss_disabled (psc_settings c) \<or> p \<le> 0 \<Longrightarrow> psc_recordFailure r c p now = (c, False, 0)"
  by (simp add: psc_recordFailure_def)

lemma psc_recordFailure_quarantined:
  assumes "\<not> pss_disabled (psc_settings c)" and "0 < p" and "map_of (psc_entries c) p = Some e"
    and "now < pse_blockedUntil e"
  shows "psc_recordFailure r c p now =
    (c \<lparr> psc_entries := AList.update p (e \<lparr> pse_lastTouched := now \<rparr>) (psc_room r c p now) \<rparr>,
     False, pse_blockedUntil e)"
  using assms by (simp add: psc_recordFailure_def psc_room_def)

lemma psc_recordFailure_burst:
  assumes "\<not> pss_disabled (psc_settings c)" and "0 < p"
    and "\<not> (map_of (psc_entries c) p \<noteq> None \<and> now < pse_blockedUntil (psc_entry c p))"
    and "sameBurst (psc_settings c) now (openWindow (psc_settings c) now (psc_entry c p))"
  shows "psc_recordFailure r c p now =
    (c \<lparr> psc_entries := AList.update p
          (openWindow (psc_settings c) now (psc_entry c p) \<lparr> pse_lastTouched := now \<rparr>)
          (psc_room r c p now) \<rparr>, False, 0)"
  using assms unfolding psc_recordFailure_def psc_room_def psc_entry_def Let_def
  by (cases "map_of (psc_entries c) p") simp_all

lemma psc_recordFailure_counted:
  assumes "\<not> pss_disabled (psc_settings c)" and "0 < p"
    and "\<not> (map_of (psc_entries c) p \<noteq> None \<and> now < pse_blockedUntil (psc_entry c p))"
    and "\<not> sameBurst (psc_settings c) now (openWindow (psc_settings c) now (psc_entry c p))"
  shows "psc_recordFailure r c p now =
    (let e = openWindow (psc_settings c) now (psc_entry c p);
         e' = psc_counted (psc_settings c) now e
     in (c \<lparr> psc_entries := AList.update p e' (psc_room r c p now) \<rparr>,
         pse_failureCount e + 1 \<ge> pss_failureThreshold (psc_settings c), pse_blockedUntil e'))"
  using assms
  unfolding psc_recordFailure_def psc_room_def psc_entry_def psc_counted_def Let_def
  by (cases "map_of (psc_entries c) p") simp_all

lemma psc_recordFailure_cases:
  obtains (ignored) "pss_disabled (psc_settings c) \<or> p \<le> 0"
  | (quarantined) e where "\<not> pss_disabled (psc_settings c)" "0 < p"
      "map_of (psc_entries c) p = Some e" "now < pse_blockedUntil e"
  | (burst) "\<not> pss_disabled (psc_settings c)" "0 < p"
      "\<not> (map_of (psc_entries c) p \<noteq> None \<and> now < pse_blockedUntil (psc_entry c p))"
      "sameBurst (psc_settings c) now (openWindow (psc_settings c) now (psc_entry c p))"
  | (counted) "\<not> pss_disabled (psc_settings c)" "0 < p"
      "\<not> (map_of (psc_entries c) p \<noteq> None \<and> now < pse_blockedUntil (psc_entry c p))"
      "\<not> sameBurst (psc_settings c) now (openWindow (psc_settings c) now (psc_entry c p))"
proof (cases "pss_disabled (psc_settings c) \<or> p \<le> 0")
  case False
  then show thesis
    using burst counted quarantined by (cases "map_of (psc_entries c) p") (auto simp: psc_entry_def)
qed (rule ignored)

lemma psc_recordFailure_shape:
  "fst (psc_recordFailure r c p now) = c \<or>
   0 < p \<and> (\<exists>e. fst (psc_recordFailure r c p now) =
     c \<lparr> psc_entries := AList.update p e (psc_room r c p now) \<rparr>)"
proof (cases rule: psc_recordFailure_cases [where c = c and p = p and now = now])
  case ignored
  then show ?thesis by (simp add: psc_recordFailure_ignored)
next
  case (quarantined e)
  then show ?thesis using psc_recordFailure_quarantined [of c p e now r] by auto
next
  case burst
  then show ?thesis using psc_recordFailure_burst [of c p now r] by auto
next
  case counted
  then show ?thesis using psc_recordFailure_counted [of c p now r] by (auto simp: Let_def)
qed

lemma psc_inv_recordFailure:
  assumes "psc_inv c"
  shows "psc_inv (fst (psc_recordFailure r c p now))"
    and "psc_settings (fst (psc_recordFailure r c p now)) = psc_settings c"
proof -
  note sh = psc_recordFailure_shape [of r c p now]
  show "psc_settings (fst (psc_recordFailure r c p now)) = psc_settings c"
    using sh by auto
  have room: "gm_wf (psc_room r c p now)" "set (psc_room r c p now) \<subseteq> set (psc_entries c)"
    using assms psc_ensureCapacity_wf psc_ensureCapacity_subset
    by (auto simp: psc_room_def psc_inv_def)
  have "int (length (AList.update p e (psc_room r c p now))) \<le> pss_maxEntries (psc_settings c)" for e
  proof (cases "map_of (psc_entries c) p = None")
    case True
    then have "int (length (psc_room r c p now)) < pss_maxEntries (psc_settings c)"
      using assms psc_ensureCapacity_length by (simp add: psc_room_def psc_inv_def)
    then show ?thesis by (simp add: length_update)
  next
    case False
    then have "psc_room r c p now = psc_entries c"
      unfolding psc_room_def by argo
    with False assms show ?thesis
      by (simp only: length_update psc_inv_def if_False)
  qed
  with sh room assms show "psc_inv (fst (psc_recordFailure r c p now))"
    unfolding psc_inv_def by (elim disjE exE conjE) (auto simp: subset_iff image_iff)
qed

lemma psc_recordFailure_other:
  assumes "psc_inv c" and "q \<noteq> p"
    and "map_of (psc_entries (fst (psc_recordFailure r c p now))) q = Some e"
  shows "map_of (psc_entries c) q = Some e"
proof -
  have "map_of (psc_room r c p now) q = Some e \<Longrightarrow> (q, e) \<in> set (psc_entries c)"
    using psc_ensureCapacity_subset [of r now "psc_settings c" "psc_entries c"]
    by (auto simp: psc_room_def dest!: map_of_SomeD split: if_splits)
  with assms psc_recordFailure_shape [of r c p now] show ?thesis
    by (auto simp: psc_inv_def)
qed

interpretation proxy_breaker: keyed_breaker psc_inv "\<lambda>c. length (psc_entries c)"
  "\<lambda>c. nat (pss_maxEntries (psc_settings c))" psc_key
  "\<lambda>r p t c. fst (psc_recordFailure r c p t)" "\<lambda>p c. fst (psc_recordSuccess c p)"
  "\<lambda>p t c. fst (psc_isBlocked c p t)" "\<lambda>p t c. snd (psc_isBlocked c p t)"
proof
  show "psc_inv s \<Longrightarrow> length (psc_entries s) \<le> nat (pss_maxEntries (psc_settings s))" for s
    unfolding psc_inv_def by linarith
  show "psc_inv s \<Longrightarrow> psc_inv (fst (psc_recordFailure r s x t))" for s r x t
    by (rule psc_inv_recordFailure)
  show "psc_inv s \<Longrightarrow> psc_inv (fst (psc_recordSuccess s x))" for s x
    using psc_recordSuccess_entries psc_inv_delete by blast
  show "psc_inv s \<Longrightarrow> psc_inv (fst (psc_isBlocked s x t))" for s x t
    using psc_isBlocked_entries psc_inv_delete by blast
  show "psc_inv s \<Longrightarrow> psc_key x = psc_key y \<Longrightarrow>
      \<not> snd (psc_isBlocked (fst (psc_recordSuccess s x)) y t)" for s x y t
    by (auto simp: psc_isBlocked_iff psc_recordSuccess_entries psc_key_def split: if_splits)
  show "psc_inv s \<Longrightarrow> snd (psc_isBlocked (fst (psc_recordSuccess s x)) y t) \<Longrightarrow>
      snd (psc_isBlocked s y t)" for s x y t
    by (auto simp: psc_isBlocked_iff psc_recordSuccess_entries split: if_splits)
  show "psc_inv s \<Longrightarrow> snd (psc_isBlocked (fst (psc_isBlocked s x t')) y t) \<Longrightarrow>
      snd (psc_isBlocked s y t)" for s x y t t'
    using psc_isBlocked_entries [of s x t']
    by (auto simp: psc_isBlocked_iff [of _ y] split: if_splits)
  show "psc_inv s \<Longrightarrow> psc_key x \<noteq> psc_key y \<Longrightarrow>
      snd (psc_isBlocked (fst (psc_recordFailure r s x t')) y t) \<Longrightarrow> snd (psc_isBlocked s y t)"
    for s r x y t t'
    using psc_recordFailure_other [of s y x r t'] psc_inv_recordFailure [of s r x t']
    by (cases "x = y") (auto simp: psc_isBlocked_iff)
qed (simp_all add: psc_inv_recordFailure psc_recordSuccess_entries psc_isBlocked_entries)

section \<open>Incidents\<close>

abbreviation psc_run :: "int breaker_event list \<Rightarrow> ProxyStreamCircuit \<Rightarrow> ProxyStreamCircuit" where
  "psc_run \<equiv> breaker_run (\<lambda>r p t c. fst (psc_recordFailure r c p t))
     (\<lambda>p c. fst (psc_recordSuccess c p)) (\<lambda>p t c. fst (psc_isBlocked c p t))"

primrec fail_times :: "int \<Rightarrow> int breaker_event list \<Rightarrow> gotime list" where
  "fail_times p [] = []"
| "fail_times p (e # es) =
     (case e of Failed r q t \<Rightarrow> if q = p then t # fail_times p es else fail_times p es
      | _ \<Rightarrow> fail_times p es)"

lemma fail_times_append: "fail_times p (xs @ ys) = fail_times p xs @ fail_times p ys"
  by (induction xs) (auto split: breaker_event.splits)

text \<open>
  \<open>incidents\<close>: an entry's failure count is the number of some recorded failures that lie in its
  window and at least the collapse interval apart.
\<close>

definition incidents :: "CircuitSettings \<Rightarrow> gotime list \<Rightarrow> CircuitEntry \<Rightarrow> gotime list \<Rightarrow> bool" where
  "incidents st H e ts \<longleftrightarrow> subseq ts H \<and> int (length ts) = pse_failureCount e \<and>
     (\<forall>t \<in> set ts. pse_windowStart e \<le> t \<and> t \<le> pse_lastFailureAt e) \<and>
     sorted_wrt (\<lambda>a b. a + pss_collapseInterval st \<le> b) ts \<and>
     (ts \<noteq> [] \<longrightarrow> pse_lastFailureAt e \<in> set H)"

lemma incidents_zero: "incidents st H zero_entry []"
  by (simp add: incidents_def zero_entry_def)

lemma incidents_later: "incidents st H e ts \<Longrightarrow> incidents st (H @ H') e ts"
  by (auto simp: incidents_def intro: subseq_order.order_trans)

lemma incidents_touch [simp]:
  "incidents st H (e \<lparr> pse_lastTouched := t \<rparr>) ts = incidents st H e ts"
  by (simp add: incidents_def)

lemma incidents_openWindow:
  assumes "incidents st H e ts"
  obtains ts' where "incidents st H (openWindow st now e) ts'"
proof (cases "openWindow st now e = e")
  case True
  with assms that show thesis by simp
next
  case False
  then have "incidents st H (openWindow st now e) []"
    by (auto simp: openWindow_def incidents_def)
  then show thesis by (rule that)
qed

lemma openWindow_recent:
  assumes "0 < pss_failureWindow st" and "pss_failureWindow st < maxDuration"
  shows "pse_windowStart (openWindow st now e) \<le> now"
    and "now - pss_failureWindow st \<le> pse_windowStart (openWindow st now e)"
proof -
  have *: "time_Sub now w > pss_failureWindow st \<longleftrightarrow> now - w > pss_failureWindow st" for w
    using assms by (intro time_Sub_gt_iff) (simp_all add: minDuration_def)
  show "pse_windowStart (openWindow st now e) \<le> now"
    by (auto simp: openWindow_def)
  show "now - pss_failureWindow st \<le> pse_windowStart (openWindow st now e)"
    using assms(1) by (auto simp: openWindow_def *)
qed

lemma not_sameBurst_gap:
  assumes "\<not> sameBurst st now e" and "0 \<le> pss_collapseInterval st"
    and "pss_collapseInterval st \<le> maxDuration" and "0 < pse_lastFailureAt e"
    and "pse_lastFailureAt e \<le> now"
  shows "pse_lastFailureAt e + pss_collapseInterval st \<le> now"
proof (cases "pss_collapseInterval st = 0")
  case False
  then have "time_Sub now (pse_lastFailureAt e) < pss_collapseInterval st \<longleftrightarrow>
      now - pse_lastFailureAt e < pss_collapseInterval st"
    using assms by (intro time_Sub_lt_iff) (simp_all add: minDuration_def)
  with False assms show ?thesis
    by (auto simp: sameBurst_def time_IsZero_def)
qed (use assms in simp)

lemma incidents_counted:
  assumes "incidents st H e ts" and "\<not> sameBurst st now e"
    and "0 \<le> pss_collapseInterval st" and "pss_collapseInterval st \<le> maxDuration"
    and "\<forall>t \<in> set H. 0 < t \<and> t \<le> now" and "pse_windowStart e \<le> now"
  shows "incidents st (H @ [now]) (psc_counted st now e) (ts @ [now])"
proof -
  have gap: "t + pss_collapseInterval st \<le> now" if "t \<in> set ts" for t
  proof -
    have "pse_lastFailureAt e \<in> set H" "t \<le> pse_lastFailureAt e"
      using assms(1) that by (auto simp: incidents_def)
    then show ?thesis
      using not_sameBurst_gap [OF assms(2,3,4)] assms(5) by fastforce
  qed
  have "t \<le> now" if "t \<in> set ts" for t
    using gap [OF that] assms(3) by linarith
  with gap assms(1,6) show ?thesis
    by (auto simp: incidents_def psc_counted_def Let_def sorted_wrt_append)
qed

definition psc_traced :: "int \<Rightarrow> gotime list \<Rightarrow> ProxyStreamCircuit \<Rightarrow> bool" where
  "psc_traced p H c \<longleftrightarrow> (\<exists>ts. incidents (psc_settings c) H (psc_entry c p) ts)"

lemma psc_traced_absent: "map_of (psc_entries c) p = None \<Longrightarrow> psc_traced p H c"
  using incidents_zero by (auto simp: psc_traced_def psc_entry_def)

lemma psc_traced_keep:
  assumes "psc_traced p H c" and "psc_settings d = psc_settings c"
    and "\<And>e. map_of (psc_entries d) p = Some e \<Longrightarrow> map_of (psc_entries c) p = Some e"
  shows "psc_traced p H d"
proof (cases "map_of (psc_entries d) p")
  case None
  then show ?thesis by (rule psc_traced_absent)
next
  case (Some e)
  with assms show ?thesis by (simp add: psc_traced_def psc_entry_def)
qed

lemma psc_traced_update:
  assumes "incidents (psc_settings c) H e ts"
  shows "psc_traced p H (c \<lparr> psc_entries := AList.update p e m \<rparr>)"
  using assms by (auto simp: psc_traced_def psc_entry_def)

definition psc_window_ok :: "CircuitSettings \<Rightarrow> bool" where
  "psc_window_ok st \<longleftrightarrow> 0 < pss_failureWindow st \<and> pss_failureWindow st < maxDuration \<and>
     0 \<le> pss_collapseInterval st \<and> pss_collapseInterval st \<le> maxDuration"

lemma psc_traced_recordFailure:
  assumes "psc_traced p H c" and "psc_window_ok (psc_settings c)"
    and "\<forall>t \<in> set H. 0 < t \<and> t \<le> now"
  shows "psc_traced p (H @ [now]) (fst (psc_recordFailure r c p now))"
proof -
  obtain ts where ts: "incidents (psc_settings c) H (psc_entry c p) ts"
    using assms(1) by (auto simp: psc_traced_def)
  then obtain ts' where
    ts': "incidents (psc_settings c) H (openWindow (psc_settings c) now (psc_entry c p)) ts'"
    by (rule incidents_openWindow)
  show ?thesis
  proof (cases rule: psc_recordFailure_cases [where c = c and p = p and now = now])
    case ignored
    then show ?thesis
      using incidents_later [OF ts] by (auto simp: psc_recordFailure_ignored psc_traced_def)
  next
    case (quarantined e)
    then have "incidents (psc_settings c) (H @ [now]) (e \<lparr> pse_lastTouched := now \<rparr>) ts"
      using ts incidents_later by (simp add: psc_entry_def)
    with quarantined show ?thesis
      by (simp add: psc_recordFailure_quarantined psc_traced_update)
  next
    case burst
    have "incidents (psc_settings c) (H @ [now])
        (openWindow (psc_settings c) now (psc_entry c p) \<lparr> pse_lastTouched := now \<rparr>) ts'"
      using ts' incidents_later by simp
    then show ?thesis
      unfolding psc_recordFailure_burst [OF burst] fst_conv by (rule psc_traced_update)
  next
    case counted
    have "incidents (psc_settings c) (H @ [now])
        (psc_counted (psc_settings c) now (openWindow (psc_settings c) now (psc_entry c p)))
        (ts' @ [now])"
      using ts' counted(4) assms(2,3) openWindow_recent(1)
      by (intro incidents_counted) (auto simp: psc_window_ok_def)
    then show ?thesis
      unfolding psc_recordFailure_counted [OF counted] fst_conv Let_def by (rule psc_traced_update)
  qed
qed

lemma psc_traced_run:
  assumes "psc_inv c" and "psc_traced p H c" and "psc_window_ok (psc_settings c)"
    and "sorted (H @ fail_times p es)" and "\<forall>t \<in> set (H @ fail_times p es). 0 < t"
  shows "psc_traced p (H @ fail_times p es) (psc_run es c) \<and>
    psc_settings (psc_run es c) = psc_settings c"
  using assms
proof (induction es arbitrary: c H)
  case Nil
  then show ?case by (simp add: breaker_run_def)
next
  case (Cons e es)
  let ?d = "psc_run [e] c" and ?H = "H @ fail_times p [e]"
  have split: "psc_run (e # es) c = psc_run es ?d" "H @ fail_times p (e # es) = ?H @ fail_times p es"
    using fail_times_append [of p "[e]" es] by (simp_all add: breaker_run_def)
  have inv: "psc_inv ?d"
    using proxy_breaker.run_inv [OF Cons.prems(1)] by blast
  have st: "psc_settings ?d = psc_settings c"
    using psc_inv_recordFailure(2) [OF Cons.prems(1)]
    by (cases e) (simp_all add: breaker_run_def psc_recordSuccess_entries psc_isBlocked_entries)
  have H: "\<forall>t \<in> set H. 0 < t"
    using Cons.prems(5) by simp
  have "psc_traced p ?H ?d"
  proof (cases e)
    case (Failed r q t)
    show ?thesis
    proof (cases "q = p")
      case True
      have "\<forall>u \<in> set H. 0 < u \<and> u \<le> t"
        using H Cons.prems(4) True Failed by (auto simp: sorted_append)
      then show ?thesis
        using psc_traced_recordFailure [OF Cons.prems(2,3)] Failed True by (simp add: breaker_run_def)
    next
      case False
      have "psc_traced p H (fst (psc_recordFailure r c q t))"
        using psc_recordFailure_other [OF Cons.prems(1), of p q r t] False
          psc_inv_recordFailure(2) [OF Cons.prems(1)]
        by (intro psc_traced_keep [OF Cons.prems(2)]) auto
      then show ?thesis
        using False Failed by (simp add: breaker_run_def)
    qed
  next
    case (Succeeded q)
    have "psc_traced p H (fst (psc_recordSuccess c q))"
      by (rule psc_traced_keep [OF Cons.prems(2)])
        (auto simp: psc_recordSuccess_entries split: if_splits)
    then show ?thesis using Succeeded by (simp add: breaker_run_def)
  next
    case (Probed q t)
    have "psc_traced p H (fst (psc_isBlocked c q t))"
      using psc_isBlocked_entries [of c q t]
      by (intro psc_traced_keep [OF Cons.prems(2)]) (auto split: if_splits)
    then show ?thesis using Probed by (simp add: breaker_run_def)
  qed
  then show ?case
    using Cons.IH [OF inv, of ?H] Cons.prems(3-5) st unfolding split by (simp only: append_assoc)
qed

section \<open>Properties\<close>

lemma psc_new_window_ok:
  assumes "pss_failureWindow st < maxDuration" and "pss_collapseInterval st \<le> maxDuration"
  shows "psc_window_ok (psc_settings (newOpenAIProxyStreamCircuit st))"
  using assms
  by (simp add: psc_window_ok_def newOpenAIProxyStreamCircuit_def psc_defaults Minute_def
      maxDuration_def)

lemma psc_recordFailure_trips:
  assumes "fst (snd (psc_recordFailure r c p now))"
  shows "\<not> pss_disabled (psc_settings c)" and "0 < p"
    and "\<not> (map_of (psc_entries c) p \<noteq> None \<and> now < pse_blockedUntil (psc_entry c p))"
    and "\<not> sameBurst (psc_settings c) now (openWindow (psc_settings c) now (psc_entry c p))"
proof -
  have "\<not> pss_disabled (psc_settings c) \<and> 0 < p \<and>
      \<not> (map_of (psc_entries c) p \<noteq> None \<and> now < pse_blockedUntil (psc_entry c p)) \<and>
      \<not> sameBurst (psc_settings c) now (openWindow (psc_settings c) now (psc_entry c p))"
  proof (cases rule: psc_recordFailure_cases [where c = c and p = p and now = now])
    case counted
    then show ?thesis by blast
  next
    case burst
    then show ?thesis using assms psc_recordFailure_burst [OF burst, of r] by simp
  qed (use assms in \<open>simp_all add: psc_recordFailure_ignored psc_recordFailure_quarantined\<close>)
  then show "\<not> pss_disabled (psc_settings c)" and "0 < p"
    and "\<not> (map_of (psc_entries c) p \<noteq> None \<and> now < pse_blockedUntil (psc_entry c p))"
    and "\<not> sameBurst (psc_settings c) now (openWindow (psc_settings c) now (psc_entry c p))"
    by blast+
qed

lemma psc_recordFailure_tripped:
  assumes "fst (snd (psc_recordFailure r c p now))"
  defines "e \<equiv> openWindow (psc_settings c) now (psc_entry c p)"
  shows "pss_failureThreshold (psc_settings c) \<le> pse_failureCount e + 1"
    and "map_of (psc_entries (fst (psc_recordFailure r c p now))) p =
      Some (psc_counted (psc_settings c) now e)"
    and "pse_blockedUntil (psc_counted (psc_settings c) now e) = now + pss_quarantineTTL (psc_settings c)"
proof -
  note eq = psc_recordFailure_counted [OF psc_recordFailure_trips [OF assms(1)], of r]
  show th: "pss_failureThreshold (psc_settings c) \<le> pse_failureCount e + 1"
    using assms(1) eq by (simp add: Let_def e_def)
  show "map_of (psc_entries (fst (psc_recordFailure r c p now))) p =
      Some (psc_counted (psc_settings c) now e)"
    using eq by (simp add: Let_def e_def)
  show "pse_blockedUntil (psc_counted (psc_settings c) now e) = now + pss_quarantineTTL (psc_settings c)"
    using th by (simp add: psc_counted_def Let_def)
qed

text \<open>
  Property C25 (safety). One incident never quarantines a proxy: whenever a disconnect trips the
  breaker, the history of the circuit holds at least the threshold number of disconnects of this
  proxy, all within the failure window and each at least the collapse interval after the one
  before it. A connection that takes all of its multiplexed streams down at once counts as one.
  The disconnects of the proxy arrive in time order, and the two intervals are below the
  saturation point of a duration.
\<close>

theorem proxy_trip_needs_incidents:
  fixes st :: CircuitSettings
  assumes "pss_failureWindow st < maxDuration" and "pss_collapseInterval st \<le> maxDuration"
    and "sorted (fail_times p es @ [now])" and "\<forall>t \<in> set (fail_times p es @ [now]). 0 < t"
    and "fst (snd (psc_recordFailure r (psc_run es (newOpenAIProxyStreamCircuit st)) p now))"
  shows "\<exists>ts. subseq ts (fail_times p es @ [now]) \<and>
    pss_failureThreshold (psc_settings (newOpenAIProxyStreamCircuit st)) \<le> int (length ts) \<and>
    (\<forall>t \<in> set ts. now - pss_failureWindow (psc_settings (newOpenAIProxyStreamCircuit st)) \<le> t) \<and>
    sorted_wrt (\<lambda>a b. a + pss_collapseInterval (psc_settings (newOpenAIProxyStreamCircuit st)) \<le> b) ts"
proof -
  let ?init = "newOpenAIProxyStreamCircuit st" and ?H = "fail_times p es"
  let ?c = "psc_run es ?init"
  let ?st = "psc_settings ?init" and ?e = "psc_entry (psc_run es (newOpenAIProxyStreamCircuit st)) p"
  have ok: "psc_window_ok ?st"
    by (rule psc_new_window_ok [OF assms(1,2)])
  have "psc_traced p [] ?init"
    by (rule psc_traced_absent) (simp add: newOpenAIProxyStreamCircuit_def)
  then have tr: "psc_traced p ?H ?c" and set: "psc_settings ?c = ?st"
    using psc_traced_run [OF newOpenAIProxyStreamCircuit_ok(1) _ ok, of p "[]" es] assms(3,4)
    by (simp_all add: sorted_append)
  from tr obtain ts0 where "incidents ?st ?H ?e ts0"
    unfolding psc_traced_def set by blast
  then obtain ts where ts: "incidents ?st ?H (openWindow ?st now ?e) ts"
    by (rule incidents_openWindow)
  note burst = psc_recordFailure_trips(4) [OF assms(5), unfolded set]
  note trip = psc_recordFailure_tripped(1) [OF assms(5), unfolded set]
  note win = openWindow_recent [of ?st now ?e]
  have "incidents ?st (?H @ [now]) (psc_counted ?st now (openWindow ?st now ?e)) (ts @ [now])"
    using ts burst ok win(1) assms(3,4)
    by (intro incidents_counted) (auto simp: psc_window_ok_def sorted_append)
  moreover have "pse_windowStart (psc_counted ?st now (openWindow ?st now ?e)) =
      pse_windowStart (openWindow ?st now ?e)"
    by (simp add: psc_counted_def Let_def)
  moreover have "now - pss_failureWindow ?st \<le> pse_windowStart (openWindow ?st now ?e)"
    using win(2) ok by (simp add: psc_window_ok_def)
  moreover have "pss_failureThreshold ?st \<le> int (length (ts @ [now]))"
    using trip ts by (simp add: incidents_def)
  ultimately show ?thesis
    by (intro exI [of _ "ts @ [now]"]) (fastforce simp: incidents_def)
qed

definition example_circuit :: CircuitSettings where
  "example_circuit = resolveOpenAIProxyStreamCircuitSettings None"

lemmas psc_example_defs =
  example_circuit_def resolveOpenAIProxyStreamCircuitSettings_def newOpenAIProxyStreamCircuit_def
  psc_defaults psc_recordFailure_def psc_ensureCapacityLocked_def breaker_run_def zero_entry_def
  openWindow_def sameBurst_def time_IsZero_def time_Sub_def minDuration_def maxDuration_def
  Minute_def Second_def

theorem proxy_trip_needs_incidents_witness:
  "\<exists>ts. subseq ts [1 * Second, 2 * Second, 5 * Second] \<and> 2 \<le> int (length ts) \<and>
     sorted_wrt (\<lambda>a b. a + 3 * Second \<le> b) ts"
proof -
  let ?es = "[Failed id 9 (1 * Second), Failed id 9 (2 * Second)]"
  have trip: "fst (snd (psc_recordFailure id
      (psc_run ?es (newOpenAIProxyStreamCircuit example_circuit)) 9 (5 * Second)))"
    by code_simp
  have "pss_failureWindow example_circuit < maxDuration"
    "pss_collapseInterval example_circuit \<le> maxDuration"
    by (simp_all add: psc_example_defs)
  from proxy_trip_needs_incidents [OF this _ _ trip] show ?thesis
    by (auto simp: Second_def psc_example_defs)
qed

text \<open>
  A failure of a quarantined proxy leaves the quarantine as it is.
\<close>

lemma psc_recordFailure_during_quarantine:
  assumes "\<not> pss_disabled (psc_settings c)" and "0 < p" and "map_of (psc_entries c) p = Some e"
    and "now < pse_blockedUntil e"
  shows "psc_settings (fst (psc_recordFailure r c p now)) = psc_settings c"
    and "map_of (psc_entries (fst (psc_recordFailure r c p now))) p =
      Some (e \<lparr> pse_lastTouched := now \<rparr>)"
  using psc_recordFailure_quarantined [OF assms, of r] by simp_all

lemma psc_quarantine_run:
  assumes "\<not> pss_disabled (psc_settings c)" and "0 < p" and "map_of (psc_entries c) p = Some e"
    and "pse_blockedUntil e = u" and "list_all (\<lambda>(r, t). t < u) fs"
  shows "\<exists>e'. map_of (psc_entries (psc_run (map (\<lambda>(r, t). Failed r p t) fs) c)) p = Some e' \<and>
    pse_blockedUntil e' = u \<and>
    psc_settings (psc_run (map (\<lambda>(r, t). Failed r p t) fs) c) = psc_settings c"
  using assms
proof (induction fs arbitrary: c e)
  case Nil
  then show ?case by (simp add: breaker_run_def)
next
  case (Cons f fs)
  obtain r t where f: "f = (r, t)" by (cases f)
  let ?d = "fst (psc_recordFailure r c p t)"
  have t: "t < pse_blockedUntil e"
    using Cons.prems f by simp
  note d = psc_recordFailure_during_quarantine [OF Cons.prems(1,2,3) t, of r]
  have "\<exists>e'. map_of (psc_entries (psc_run (map (\<lambda>(r, t). Failed r p t) fs) ?d)) p = Some e' \<and>
      pse_blockedUntil e' = u \<and>
      psc_settings (psc_run (map (\<lambda>(r, t). Failed r p t) fs) ?d) = psc_settings ?d"
    by (rule Cons.IH [OF _ Cons.prems(2) d(2)]) (use Cons.prems d in simp_all)
  then show ?case
    using d(1) f by (simp add: breaker_run_def)
qed

text \<open>
  A quarantine lasts exactly its TTL: once a disconnect at time \<open>now\<close>
  trips the breaker the proxy is blocked at a time \<open>t\<close> if and only if \<open>t < now + TTL\<close>, and
  the disconnects of requests that were still in flight, reported while it is blocked, neither
  prolong nor shorten it. The first probe at or after the end forgets the proxy.
\<close>

theorem proxy_quarantine_lifetime:
  assumes "fst (snd (psc_recordFailure r c p now))" and "0 < now"
    and "0 < pss_quarantineTTL (psc_settings c)"
    and "list_all (\<lambda>(_, t). t < now + pss_quarantineTTL (psc_settings c)) late"
  shows "let until = now + pss_quarantineTTL (psc_settings c);
      d = psc_run (map (\<lambda>(r, t). Failed r p t) late) (fst (psc_recordFailure r c p now)) in
    (snd (psc_isBlocked d p t) \<longleftrightarrow> t < until) \<and>
    (until \<le> t \<longrightarrow> map_of (psc_entries (fst (psc_isBlocked d p t))) p = None)"
proof -
  let ?d = "psc_run (map (\<lambda>(r, t). Failed r p t) late) (fst (psc_recordFailure r c p now))"
  let ?u = "now + pss_quarantineTTL (psc_settings c)"
  note g = psc_recordFailure_trips(1,2) [OF assms(1)]
  note e = psc_recordFailure_tripped(2,3) [OF assms(1)]
  have st: "psc_settings (fst (psc_recordFailure r c p now)) = psc_settings c"
    using psc_recordFailure_shape [of r c p now] by auto
  obtain e' where e': "map_of (psc_entries ?d) p = Some e'" "pse_blockedUntil e' = ?u"
      "psc_settings ?d = psc_settings c"
    using psc_quarantine_run [OF _ g(2) e(1) e(2) assms(4)] g(1) st by auto
  have "?u \<noteq> 0"
    using assms(2,3) by linarith
  with e' g show ?thesis
    by (simp add: psc_isBlocked_iff) (simp add: psc_isBlocked_def time_IsZero_def)
qed

theorem proxy_quarantine_lifetime_witness:
  "let c = psc_run [Failed id 9 (1 * Second)] (newOpenAIProxyStreamCircuit example_circuit);
       d = fst (psc_recordFailure id c 9 (5 * Second)) in
   snd (psc_isBlocked d 9 (604 * Second)) \<and> \<not> snd (psc_isBlocked d 9 (605 * Second))"
proof -
  let ?c = "psc_run [Failed id 9 (1 * Second)] (newOpenAIProxyStreamCircuit example_circuit)"
  have trip: "fst (snd (psc_recordFailure id ?c 9 (5 * Second)))"
    by code_simp
  have ttl: "pss_quarantineTTL (psc_settings ?c) = 600 * Second"
    by code_simp
  have "\<And>t. snd (psc_isBlocked (fst (psc_recordFailure id ?c 9 (5 * Second))) 9 t) \<longleftrightarrow>
      t < 5 * Second + 600 * Second"
    using proxy_quarantine_lifetime [OF trip, of "[]"] ttl
    by (simp add: Let_def breaker_run_def Second_def)
  then show ?thesis by (simp add: Let_def Second_def)
qed

text \<open>
  The breaker's contract holds for every sequence of operations on a new
  circuit: the table never outgrows its capacity, in whatever order eviction visits it, and a
  proxy that is blocked some time after a successful stream has failed since; the failures of
  other proxies never block it.
\<close>

theorem proxy_circuit_contract:
  "int (length (psc_entries (psc_run es (newOpenAIProxyStreamCircuit st)))) \<le>
     pss_maxEntries (psc_settings (newOpenAIProxyStreamCircuit st)) \<and>
   (es = before @ Succeeded p # after \<and>
    snd (psc_isBlocked (psc_run es (newOpenAIProxyStreamCircuit st)) p t) \<longrightarrow>
    list_ex (fails_on psc_key p) after)"
proof -
  have "0 < pss_maxEntries (psc_settings (newOpenAIProxyStreamCircuit st))"
    using newOpenAIProxyStreamCircuit_ok(1) by (simp add: psc_inv_def)
  then have "int (length (psc_entries (psc_run es (newOpenAIProxyStreamCircuit st)))) \<le>
      pss_maxEntries (psc_settings (newOpenAIProxyStreamCircuit st))"
    using proxy_breaker.run_bounded [OF newOpenAIProxyStreamCircuit_ok(1), of es st] by linarith
  then show ?thesis
    using proxy_breaker.success_until_failure
      [OF newOpenAIProxyStreamCircuit_ok(1), where y = p and es = before and es' = after]
    by auto
qed

theorem proxy_circuit_contract_witness:
  "list_ex (fails_on psc_key 9) [Failed id 9 (1 * Second), Failed id 9 (5 * Second)]"
proof -
  let ?after = "[Failed id 9 (1 * Second), Failed id 9 (5 * Second)]"
  have "snd (psc_isBlocked
      (psc_run ([] @ Succeeded 9 # ?after) (newOpenAIProxyStreamCircuit example_circuit))
      9 (6 * Second))"
    by code_simp
  then show ?thesis
    using proxy_circuit_contract [of "[] @ Succeeded 9 # ?after" example_circuit "[]" 9 ?after]
    by blast
qed

text \<open>
  The count that decides about a fail-open retry is exact: it is the
  number of proxies \<open>isBlocked\<close> rejects at that moment.
\<close>

theorem activeBlockCount_exact:
  assumes "psc_inv c"
  shows "psc_activeBlockCount c now = int (card {p. snd (psc_isBlocked c p now)})"
proof (cases "pss_disabled (psc_settings c)")
  case True
  then show ?thesis by (simp add: psc_activeBlockCount_def psc_isBlocked_iff)
next
  case False
  let ?P = "\<lambda>kv. pse_blockedUntil (snd kv) \<noteq> 0 \<and> now < pse_blockedUntil (snd kv)"
  have wf: "gm_wf (psc_entries c)" and pos: "\<forall>k \<in> fst ` set (psc_entries c). 0 < k"
    using assms by (auto simp: psc_inv_def)
  have "{p. snd (psc_isBlocked c p now)} = fst ` set (filter ?P (psc_entries c))"
    using False wf pos by (force simp: psc_isBlocked_iff dest: map_of_SomeD)
  then have "card {p. snd (psc_isBlocked c p now)} = length (filter ?P (psc_entries c))"
    using gm_wf_filter [OF wf] distinct_card [of "map fst (filter ?P (psc_entries c))"] by simp
  moreover have "psc_activeBlockCount c now = int (length (filter ?P (psc_entries c)))"
    using False foldl_count [of ?P 0]
    by (simp add: psc_activeBlockCount_def time_IsZero_def case_prod_unfold)
  ultimately show ?thesis by simp
qed

theorem activeBlockCount_exact_witness:
  "let c = psc_run [Failed id 9 (1 * Second), Failed id 9 (5 * Second), Failed id 8 (6 * Second)]
         (newOpenAIProxyStreamCircuit example_circuit) in
   int (card {p. snd (psc_isBlocked c p (7 * Second))}) = 1"
proof -
  let ?es = "[Failed id 9 (1 * Second), Failed id 9 (5 * Second), Failed id 8 (6 * Second)]"
  let ?c = "psc_run ?es (newOpenAIProxyStreamCircuit example_circuit)"
  have "psc_inv ?c"
    using proxy_breaker.run_inv [OF newOpenAIProxyStreamCircuit_ok(1)] by blast
  from activeBlockCount_exact [OF this, of "7 * Second"]
  have "int (card {p. snd (psc_isBlocked ?c p (7 * Second))}) = psc_activeBlockCount ?c (7 * Second)"
    by simp
  also have "\<dots> = 1" by code_simp
  finally show ?thesis by (simp only: Let_def)
qed

end
