(* ===== verification/Model_Transient.thy ===== *)
theory Model_Transient
  imports Breaker
begin

text \<open>
  The transient-failure breaker of one model of one account
  (\<open>internal/service/openai_account_model_transient.go\<close>): a streak of failures cools the
  account and model pair down, first briefly, then longer; a success clears it.

  A nil or missing table and an unset capacity behave like an empty table and the default
  capacity, which is how the operations treat them. \<open>clock\<close> is \<open>time.Now()\<close>, read when the
  caller passes the zero time; \<open>u\<close> is the Unicode path of \<open>ToLower\<close>.
\<close>

section \<open>State\<close>

definition openAIModelTransientStreakTTL :: duration where
  "openAIModelTransientStreakTTL = 30 * Minute"

definition openAIModelTransientShortCooldown :: duration where
  "openAIModelTransientShortCooldown = 10 * Second"

definition openAIModelTransientLongCooldown :: duration where
  "openAIModelTransientLongCooldown = 45 * Second"

definition openAIModelTransientDefaultMax :: int where
  "openAIModelTransientDefaultMax = 4096"

definition openAIModelTransientMaxModelBytes :: nat where
  "openAIModelTransientMaxModelBytes = 512"

lemmas mts_consts =
  openAIModelTransientStreakTTL_def openAIModelTransientShortCooldown_def
  openAIModelTransientLongCooldown_def openAIModelTransientDefaultMax_def
  openAIModelTransientMaxModelBytes_def Minute_def Second_def

type_synonym openAIAccountModelKey = "int \<times> string"

record TransientEntry =
  mte_failureStreak :: int
  mte_lastFailure :: gotime
  mte_blockUntil :: gotime
  mte_lastTouched :: gotime

record TransientDecision =
  mtd_FailureStreak :: int
  mtd_Cooldown :: duration
  mtd_BlockUntil :: gotime

record TransientState =
  mts_entries :: "(openAIAccountModelKey, TransientEntry) gomap"
  mts_maxEntries :: int

definition newOpenAIAccountModelTransientState :: "int \<Rightarrow> TransientState" where
  "newOpenAIAccountModelTransientState maxEntries =
     \<lparr> mts_entries = [],
       mts_maxEntries = (if maxEntries \<le> 0 then openAIModelTransientDefaultMax else maxEntries) \<rparr>"

definition normalizeOpenAIAccountModelTransientModel :: "(string \<Rightarrow> string) \<Rightarrow> string \<Rightarrow> string" where
  "normalizeOpenAIAccountModelTransientModel u model =
     (let model = strings_TrimSpace model in
      if length model > openAIModelTransientMaxModelBytes then [] else strings_ToLower u model)"

definition openAIAccountModelTransientKey ::
  "(string \<Rightarrow> string) \<Rightarrow> int \<Rightarrow> string \<Rightarrow> openAIAccountModelKey option" where
  "openAIAccountModelTransientKey u accountID model =
     (let model = normalizeOpenAIAccountModelTransientModel u model in
      if accountID \<le> 0 \<or> model = [] then None else Some (accountID, model))"

section \<open>Operations\<close>

definition mts_evictOldestLocked :: "(nat \<Rightarrow> nat) \<Rightarrow> TransientState \<Rightarrow> TransientState" where
  "mts_evictOldestLocked r s =
     (if int (length (mts_entries s)) < mts_maxEntries s then s
      else
        case oldest_entry mte_lastTouched (map_range r (mts_entries s)) of
          None \<Rightarrow> s
        | Some (oldestKey, _) \<Rightarrow> s \<lparr> mts_entries := AList.delete oldestKey (mts_entries s) \<rparr>)"

definition zero_transient :: TransientEntry where
  "zero_transient =
     \<lparr> mte_failureStreak = 0, mte_lastFailure = 0, mte_blockUntil = 0, mte_lastTouched = 0 \<rparr>"

definition streakCooldown :: "int \<Rightarrow> duration" where
  "streakCooldown streak =
     (if streak \<ge> 3 then openAIModelTransientLongCooldown
      else if streak = 2 then openAIModelTransientShortCooldown
      else 0)"

definition countFailure :: "gotime \<Rightarrow> bool \<Rightarrow> TransientEntry \<Rightarrow> TransientEntry" where
  "countFailure now existed entry =
     (let entry =
            (if \<not> existed \<or> time_IsZero (mte_lastFailure entry)
                \<or> time_Sub now (mte_lastFailure entry) > openAIModelTransientStreakTTL
                \<or> now < mte_lastFailure entry
             then entry \<lparr> mte_failureStreak := 0, mte_blockUntil := 0 \<rparr> else entry);
          entry = entry \<lparr> mte_failureStreak := mte_failureStreak entry + 1,
                          mte_lastFailure := now, mte_lastTouched := now \<rparr>;
          cooldown = streakCooldown (mte_failureStreak entry)
      in entry \<lparr> mte_blockUntil := (if cooldown > 0 then now + cooldown else 0) \<rparr>)"

definition mts_recordFailure ::
  "(string \<Rightarrow> string) \<Rightarrow> gotime \<Rightarrow> (nat \<Rightarrow> nat) \<Rightarrow> TransientState \<Rightarrow> int \<Rightarrow> string \<Rightarrow> gotime
    \<Rightarrow> TransientState \<times> TransientDecision" where
  "mts_recordFailure u clock r s accountID model now =
     (case openAIAccountModelTransientKey u accountID model of
        None \<Rightarrow> (s, \<lparr> mtd_FailureStreak = 0, mtd_Cooldown = 0, mtd_BlockUntil = 0 \<rparr>)
      | Some key \<Rightarrow>
          let now = (if time_IsZero now then clock else now);
              s = (if mts_maxEntries s \<le> 0 then s \<lparr> mts_maxEntries := openAIModelTransientDefaultMax \<rparr>
                   else s);
              found = map_of (mts_entries s) key;
              entry = (case found of None \<Rightarrow> zero_transient | Some e \<Rightarrow> e);
              s = (if found = None then mts_evictOldestLocked r s else s);
              entry = countFailure now (found \<noteq> None) entry
          in (s \<lparr> mts_entries := AList.update key entry (mts_entries s) \<rparr>,
              \<lparr> mtd_FailureStreak = mte_failureStreak entry,
                mtd_Cooldown = streakCooldown (mte_failureStreak entry),
                mtd_BlockUntil = mte_blockUntil entry \<rparr>))"

definition mts_recordSuccess ::
  "(string \<Rightarrow> string) \<Rightarrow> TransientState \<Rightarrow> int \<Rightarrow> string \<Rightarrow> TransientState" where
  "mts_recordSuccess u s accountID model =
     (case openAIAccountModelTransientKey u accountID model of
        None \<Rightarrow> s
      | Some key \<Rightarrow> s \<lparr> mts_entries := AList.delete key (mts_entries s) \<rparr>)"

definition mts_isBlocked ::
  "(string \<Rightarrow> string) \<Rightarrow> gotime \<Rightarrow> TransientState \<Rightarrow> int \<Rightarrow> string \<Rightarrow> gotime
    \<Rightarrow> TransientState \<times> bool" where
  "mts_isBlocked u clock s accountID model now =
     (case openAIAccountModelTransientKey u accountID model of
        None \<Rightarrow> (s, False)
      | Some key \<Rightarrow>
          let now = (if time_IsZero now then clock else now) in
          case map_of (mts_entries s) key of
            None \<Rightarrow> (s, False)
          | Some entry \<Rightarrow>
              if \<not> time_IsZero (mte_lastFailure entry)
                 \<and> time_Sub now (mte_lastFailure entry) > openAIModelTransientStreakTTL
              then (s \<lparr> mts_entries := AList.delete key (mts_entries s) \<rparr>, False)
              else (s \<lparr> mts_entries :=
                          AList.update key (entry \<lparr> mte_lastTouched := now \<rparr>) (mts_entries s) \<rparr>,
                    \<not> time_IsZero (mte_blockUntil entry) \<and> now < mte_blockUntil entry))"

definition mts_size :: "TransientState \<Rightarrow> int" where
  "mts_size s = int (length (mts_entries s))"

section \<open>Invariant and contract\<close>

definition mts_inv :: "TransientState \<Rightarrow> bool" where
  "mts_inv s \<longleftrightarrow> gm_wf (mts_entries s) \<and> int (length (mts_entries s)) \<le> mts_maxEntries s \<and>
     0 < mts_maxEntries s"

abbreviation mts_key :: "(string \<Rightarrow> string) \<Rightarrow> int \<times> string \<Rightarrow> openAIAccountModelKey option" where
  "mts_key u x \<equiv> openAIAccountModelTransientKey u (fst x) (snd x)"

lemma mts_inv_new: "mts_inv (newOpenAIAccountModelTransientState n)"
  by (simp add: mts_inv_def newOpenAIAccountModelTransientState_def mts_consts)

lemma mts_evict_frame:
  "mts_maxEntries (mts_evictOldestLocked r s) = mts_maxEntries s"
  "set (mts_entries (mts_evictOldestLocked r s)) \<subseteq> set (mts_entries s)"
  "gm_wf (mts_entries s) \<Longrightarrow> gm_wf (mts_entries (mts_evictOldestLocked r s))"
  by (auto simp: mts_evictOldestLocked_def set_delete_wf split: option.splits)

lemma mts_evict_length:
  assumes "mts_inv s"
  shows "int (length (mts_entries (mts_evictOldestLocked r s))) < mts_maxEntries s"
proof (cases "int (length (mts_entries s)) < mts_maxEntries s")
  case True
  then show ?thesis by (simp add: mts_evictOldestLocked_def)
next
  case False
  then have "mts_entries s \<noteq> []"
    using assms by (auto simp: mts_inv_def)
  then obtain kt where kt: "oldest_entry mte_lastTouched (map_range r (mts_entries s)) = Some kt"
    using oldest_entry_None_iff [of mte_lastTouched "map_range r (mts_entries s)"]
    by (cases "oldest_entry mte_lastTouched (map_range r (mts_entries s))") auto
  obtain k t where "kt = (k, t)" by (cases kt)
  with kt have "k \<in> fst ` set (mts_entries s)"
    using oldest_entry_in [of mte_lastTouched "map_range r (mts_entries s)" k t] by simp
  then have "length (AList.delete k (mts_entries s)) = length (mts_entries s) - 1"
    using assms by (simp add: length_delete mts_inv_def map_of_eq_None_iff)
  with False kt \<open>kt = (k, t)\<close> \<open>mts_entries s \<noteq> []\<close> assms show ?thesis
    by (simp add: mts_evictOldestLocked_def mts_inv_def)
qed

text \<open>The branches of \<open>recordFailure\<close>: a refused, a new and a known pair.\<close>

lemma mts_recordFailure_refused:
  "openAIAccountModelTransientKey u a m = None \<Longrightarrow> fst (mts_recordFailure u c r s a m now) = s"
  by (simp add: mts_recordFailure_def)

lemma mts_recordFailure_new:
  assumes "mts_inv s" and "openAIAccountModelTransientKey u a m = Some k"
    and "map_of (mts_entries s) k = None"
  shows "fst (mts_recordFailure u c r s a m now) =
    (let s' = mts_evictOldestLocked r s in
     s' \<lparr> mts_entries := AList.update k
       (countFailure (if now = 0 then c else now) False zero_transient) (mts_entries s') \<rparr>)"
  using assms by (simp add: mts_recordFailure_def mts_inv_def Let_def time_IsZero_def)

lemma mts_recordFailure_known:
  assumes "mts_inv s" and "openAIAccountModelTransientKey u a m = Some k"
    and "map_of (mts_entries s) k = Some e"
  shows "fst (mts_recordFailure u c r s a m now) =
    s \<lparr> mts_entries := AList.update k
       (countFailure (if now = 0 then c else now) True e) (mts_entries s) \<rparr>"
  using assms by (simp add: mts_recordFailure_def mts_inv_def Let_def time_IsZero_def)

lemma mts_recordFailure_inv:
  assumes "mts_inv s"
  shows "mts_inv (fst (mts_recordFailure u c r s a m now)) \<and>
    mts_maxEntries (fst (mts_recordFailure u c r s a m now)) = mts_maxEntries s"
proof (cases "openAIAccountModelTransientKey u a m")
  case None
  then show ?thesis using assms by (simp add: mts_recordFailure_refused)
next
  case (Some k)
  show ?thesis
  proof (cases "map_of (mts_entries s) k")
    case None
    then show ?thesis
      using assms mts_evict_length [OF assms, of r] mts_evict_frame [where r = r and s = s]
      by (auto simp: mts_recordFailure_new [OF assms Some] Let_def mts_inv_def length_update)
  next
    case e: (Some e)
    then show ?thesis
      using assms by (simp add: mts_recordFailure_known [OF assms Some] mts_inv_def length_update)
  qed
qed

lemma mts_recordFailure_other:
  assumes "mts_inv s" and "openAIAccountModelTransientKey u a m \<noteq> Some k"
    and "map_of (mts_entries (fst (mts_recordFailure u c r s a m now))) k = Some e"
  shows "map_of (mts_entries s) k = Some e"
proof (cases "openAIAccountModelTransientKey u a m")
  case None
  then show ?thesis using assms(3) by (simp add: mts_recordFailure_refused)
next
  case (Some k')
  then have "k' \<noteq> k" using assms(2) by simp
  show ?thesis
  proof (cases "map_of (mts_entries s) k'")
    case None
    then have "map_of (mts_entries (mts_evictOldestLocked r s)) k = Some e"
      using assms(3) \<open>k' \<noteq> k\<close> by (simp add: mts_recordFailure_new [OF assms(1) Some] Let_def)
    then have "(k, e) \<in> set (mts_entries s)"
      using mts_evict_frame(2) map_of_SomeD by fastforce
    then show ?thesis using assms(1) by (simp add: mts_inv_def)
  next
    case e: (Some e')
    then show ?thesis
      using assms(3) \<open>k' \<noteq> k\<close> by (simp add: mts_recordFailure_known [OF assms(1) Some])
  qed
qed

lemma mts_isBlocked_iff:
  "snd (mts_isBlocked u t s a m t) \<longleftrightarrow>
     (\<exists>k e. openAIAccountModelTransientKey u a m = Some k \<and> map_of (mts_entries s) k = Some e \<and>
        \<not> (mte_lastFailure e \<noteq> 0 \<and> time_Sub t (mte_lastFailure e) > openAIModelTransientStreakTTL) \<and>
        mte_blockUntil e \<noteq> 0 \<and> t < mte_blockUntil e)"
  by (auto simp: mts_isBlocked_def time_IsZero_def Let_def split: option.splits)

lemma mts_isBlocked_state:
  "mts_maxEntries (fst (mts_isBlocked u c s a m t)) = mts_maxEntries s"
  "mts_inv s \<Longrightarrow> mts_inv (fst (mts_isBlocked u c s a m t))"
  "map_of (mts_entries (fst (mts_isBlocked u c s a m t))) k = Some e \<Longrightarrow>
     \<exists>e'. map_of (mts_entries s) k = Some e' \<and> e = e' \<lparr> mte_lastTouched := mte_lastTouched e \<rparr>"
  by (auto simp: mts_isBlocked_def mts_inv_def Let_def length_update split: option.splits if_splits)

lemma mts_recordSuccess_state:
  "mts_maxEntries (mts_recordSuccess u s a m) = mts_maxEntries s"
  "mts_inv s \<Longrightarrow> mts_inv (mts_recordSuccess u s a m)"
  "map_of (mts_entries (mts_recordSuccess u s a m)) k =
     (if openAIAccountModelTransientKey u a m = Some k then None else map_of (mts_entries s) k)"
  by (auto simp: mts_recordSuccess_def mts_inv_def split: option.splits)

interpretation transient_breaker: keyed_breaker mts_inv "\<lambda>s. length (mts_entries s)"
  "\<lambda>s. nat (mts_maxEntries s)" "mts_key u"
  "\<lambda>r x t s. fst (mts_recordFailure u t r s (fst x) (snd x) t)"
  "\<lambda>x s. mts_recordSuccess u s (fst x) (snd x)"
  "\<lambda>x t s. fst (mts_isBlocked u t s (fst x) (snd x) t)"
  "\<lambda>x t s. snd (mts_isBlocked u t s (fst x) (snd x) t)"
  for u
proof
  show "mts_inv s \<Longrightarrow> length (mts_entries s) \<le> nat (mts_maxEntries s)" for s
    unfolding mts_inv_def by linarith
  show "mts_inv s \<Longrightarrow> mts_key u x = mts_key u y \<Longrightarrow>
      \<not> snd (mts_isBlocked u t (mts_recordSuccess u s (fst x) (snd x)) (fst y) (snd y) t)" for s x y t
    by (auto simp: mts_isBlocked_iff mts_recordSuccess_state)
  show "mts_inv s \<Longrightarrow>
      snd (mts_isBlocked u t (mts_recordSuccess u s (fst x) (snd x)) (fst y) (snd y) t) \<Longrightarrow>
      snd (mts_isBlocked u t s (fst y) (snd y) t)" for s x y t
    by (auto simp: mts_isBlocked_iff mts_recordSuccess_state split: if_splits)
  show "mts_inv s \<Longrightarrow>
      snd (mts_isBlocked u t (fst (mts_isBlocked u t' s (fst x) (snd x) t')) (fst y) (snd y) t) \<Longrightarrow>
      snd (mts_isBlocked u t s (fst y) (snd y) t)" for s x y t t'
  proof -
    let ?d = "fst (mts_isBlocked u t' s (fst x) (snd x) t')"
    assume "snd (mts_isBlocked u t ?d (fst y) (snd y) t)"
    then obtain k e where k: "mts_key u y = Some k" "map_of (mts_entries ?d) k = Some e"
        "\<not> (mte_lastFailure e \<noteq> 0 \<and> time_Sub t (mte_lastFailure e) > openAIModelTransientStreakTTL)"
        "mte_blockUntil e \<noteq> 0" "t < mte_blockUntil e"
      unfolding mts_isBlocked_iff [of u t] by blast
    obtain e' where e': "map_of (mts_entries s) k = Some e'"
        "e = e' \<lparr> mte_lastTouched := mte_lastTouched e \<rparr>"
      using mts_isBlocked_state(3) [OF k(2)] by blast
    have "mte_lastFailure e = mte_lastFailure e'" "mte_blockUntil e = mte_blockUntil e'"
      by (subst e'(2), simp)+
    with k e'(1) show "snd (mts_isBlocked u t s (fst y) (snd y) t)"
      unfolding mts_isBlocked_iff [of u t] by auto
  qed
  show "mts_inv s \<Longrightarrow> mts_key u x \<noteq> mts_key u y \<Longrightarrow>
      snd (mts_isBlocked u t (fst (mts_recordFailure u t' r s (fst x) (snd x) t')) (fst y) (snd y) t) \<Longrightarrow>
      snd (mts_isBlocked u t s (fst y) (snd y) t)" for s r x y t t'
    unfolding mts_isBlocked_iff [of u t] using mts_recordFailure_other by metis
qed (simp_all add: mts_recordFailure_inv mts_recordSuccess_state mts_isBlocked_state)

section \<open>Streaks\<close>

abbreviation mts_run ::
  "(string \<Rightarrow> string) \<Rightarrow> (int \<times> string) breaker_event list \<Rightarrow> TransientState \<Rightarrow> TransientState" where
  "mts_run u \<equiv> breaker_run (\<lambda>r x t s. fst (mts_recordFailure u t r s (fst x) (snd x) t))
     (\<lambda>x s. mts_recordSuccess u s (fst x) (snd x))
     (\<lambda>x t s. fst (mts_isBlocked u t s (fst x) (snd x) t))"

lemma countFailure_first:
  "countFailure t False e = e \<lparr> mte_failureStreak := 1, mte_lastFailure := t, mte_lastTouched := t,
     mte_blockUntil := 0 \<rparr>"
  by (simp add: countFailure_def streakCooldown_def)

lemma countFailure_next:
  assumes "0 < mte_lastFailure e" and "mte_lastFailure e \<le> t"
    and "t - mte_lastFailure e \<le> openAIModelTransientStreakTTL"
  shows "countFailure t True e =
    (let n = mte_failureStreak e + 1 in
     e \<lparr> mte_failureStreak := n, mte_lastFailure := t, mte_lastTouched := t,
         mte_blockUntil := (if streakCooldown n > 0 then t + streakCooldown n else 0) \<rparr>)"
proof -
  have "\<not> time_Sub t (mte_lastFailure e) > openAIModelTransientStreakTTL"
    using assms(3) by (subst time_Sub_gt_iff)
      (simp_all add: mts_consts minDuration_def maxDuration_def)
  with assms show ?thesis
    by (simp add: countFailure_def time_IsZero_def Let_def)
qed

lemma transient_streak_entry:
  assumes "mts_inv s" and "map_of (mts_entries s) k = None"
    and "list_all (\<lambda>(r, x, t). mts_key u x = Some k \<and> 0 < t) fs"
    and "successively (\<lambda>(_, _, t) (_, _, t'). t \<le> t' \<and> t' - t \<le> openAIModelTransientStreakTTL) fs"
    and "fs \<noteq> []"
  shows "\<exists>e. map_of (mts_entries (mts_run u (map (\<lambda>(r, x, t). Failed r x t) fs) s)) k = Some e \<and>
    mte_failureStreak e = int (length fs) \<and> mte_lastFailure e = snd (snd (last fs)) \<and>
    mte_blockUntil e = (let c = streakCooldown (int (length fs)) in
      if c > 0 then snd (snd (last fs)) + c else 0)"
  using assms(3-5)
proof (induction fs rule: rev_induct)
  case Nil
  then show ?case by simp
next
  case (snoc f fs)
  obtain r a m t where f: "f = (r, (a, m), t)" by (cases f) auto
  have t: "openAIAccountModelTransientKey u a m = Some k" "0 < t"
    using snoc.prems f by auto
  let ?s = "mts_run u (map (\<lambda>(r, x, t). Failed r x t) fs) s"
  have step: "mts_run u (map (\<lambda>(r, x, t). Failed r x t) (fs @ [f])) s =
      fst (mts_recordFailure u t r ?s a m t)"
    by (simp add: breaker_run_def f)
  have inv: "mts_inv ?s"
    using transient_breaker.run_inv [OF assms(1)] by blast
  show ?case
  proof (cases "fs = []")
    case True
    then have "?s = s" by (simp add: breaker_run_def)
    then show ?thesis
      unfolding step using True f t
      by (simp add: mts_recordFailure_new [OF assms(1) t(1) assms(2)] Let_def countFailure_first
          streakCooldown_def zero_transient_def)
  next
    case False
    have pre: "list_all (\<lambda>(r, x, t). mts_key u x = Some k \<and> 0 < t) fs"
      "successively (\<lambda>(_, _, t) (_, _, t'). t \<le> t' \<and> t' - t \<le> openAIModelTransientStreakTTL) fs"
      using snoc.prems by (auto simp: successively_append_iff)
    from snoc.IH [OF pre False] obtain e where
      e: "map_of (mts_entries ?s) k = Some e" "mte_failureStreak e = int (length fs)"
        "mte_lastFailure e = snd (snd (last fs))"
      by blast
    have last: "0 < snd (snd (last fs))"
      using pre(1) last_in_set [OF False] by (force simp: list_all_iff)
    have gap: "snd (snd (last fs)) \<le> t" "t - snd (snd (last fs)) \<le> openAIModelTransientStreakTTL"
      using snoc.prems(2) False f by (auto simp: successively_append_iff case_prod_beta)
    show ?thesis
      unfolding step
      using countFailure_next [of e t] e last gap t f
      by (simp add: mts_recordFailure_known [OF inv t(1) e(1)] Let_def add.commute)
  qed
qed

section \<open>Properties\<close>

lemma streakCooldown_cases:
  "streakCooldown n = (if n \<ge> 3 then 45 * Second else if n = 2 then 10 * Second else 0)"
  by (simp add: streakCooldown_def openAIModelTransientLongCooldown_def
      openAIModelTransientShortCooldown_def)

text \<open>
  Property C30 (functional). The cooldown depends on the length of the failure streak and not on
  the request rate: after \<open>n\<close> failures of one account and model, none followed by the next more
  than 30 minutes later, the pair is blocked at a time \<open>t\<close> exactly when \<open>n\<close> is 2 and \<open>t\<close> is
  within 10 seconds of the last failure, or \<open>n\<close> is at least 3 and \<open>t\<close> is within 45 seconds.
  Model names that differ only in surrounding white space or in case share the streak.
\<close>

theorem transient_streak_cooldown:
  assumes "mts_inv s" and "map_of (mts_entries s) k = None" and "fs \<noteq> []"
    and "list_all (\<lambda>(r, x, t). mts_key u x = Some k \<and> 0 < t) fs"
    and "successively (\<lambda>(_, _, t) (_, _, t'). t \<le> t' \<and> t' - t \<le> 30 * Minute) fs"
    and "mts_key u (a, m) = Some k" and "snd (snd (last fs)) \<le> t"
  shows "let d = mts_run u (map (\<lambda>(r, x, t). Failed r x t) fs) s;
      since = t - snd (snd (last fs)) in
    snd (mts_isBlocked u t d a m t) \<longleftrightarrow>
      length fs = 2 \<and> since < 10 * Second \<or> 3 \<le> length fs \<and> since < 45 * Second"
proof -
  let ?d = "mts_run u (map (\<lambda>(r, x, t). Failed r x t) fs) s" and ?l = "snd (snd (last fs))"
  obtain e where e: "map_of (mts_entries ?d) k = Some e" "mte_lastFailure e = ?l"
      "mte_blockUntil e = (let c = streakCooldown (int (length fs)) in if c > 0 then ?l + c else 0)"
    using transient_streak_entry [OF assms(1,2,4) _ assms(3)] assms(5)
    by (auto simp: openAIModelTransientStreakTTL_def)
  have l: "0 < ?l"
    using assms(4) last_in_set [OF assms(3)] by (force simp: list_all_iff)
  have stale: "time_Sub t ?l > openAIModelTransientStreakTTL \<longleftrightarrow> t - ?l > 30 * Minute"
    by (subst time_Sub_gt_iff) (simp_all add: mts_consts minDuration_def maxDuration_def)
  have blocked: "snd (mts_isBlocked u t ?d a m t) \<longleftrightarrow>
      \<not> t - ?l > 30 * Minute \<and> mte_blockUntil e \<noteq> 0 \<and> t < mte_blockUntil e"
    using e(1,2) assms(6) l unfolding mts_isBlocked_iff stale [symmetric] by auto
  consider "length fs = 1" | "length fs = 2" | "3 \<le> length fs"
    using assms(3) length_greater_0_conv [of fs] by linarith
  then have "snd (mts_isBlocked u t ?d a m t) \<longleftrightarrow>
      length fs = 2 \<and> t - ?l < 10 * Second \<or> 3 \<le> length fs \<and> t - ?l < 45 * Second"
    unfolding blocked e(3) streakCooldown_cases
    by cases (use l in \<open>auto simp: Let_def Second_def Minute_def\<close>)
  then show ?thesis by (simp only: Let_def)
qed

theorem transient_streak_cooldown_witness:
  "let d = mts_run id [Failed id (5, '' GPT-5 '') (1 * Minute), Failed id (5, ''gpt-5'') (20 * Minute)]
         (newOpenAIAccountModelTransientState 0) in
   snd (mts_isBlocked id (20 * Minute + 9 * Second) d 5 ''Gpt-5'' (20 * Minute + 9 * Second))"
proof -
  let ?fs = "[(id, (5, '' GPT-5 ''), 1 * Minute), (id, (5, ''gpt-5''), 20 * Minute)]"
  have k: "openAIAccountModelTransientKey id 5 '' GPT-5 '' = Some (5, ''gpt-5'')"
    "openAIAccountModelTransientKey id 5 ''gpt-5'' = Some (5, ''gpt-5'')"
    "openAIAccountModelTransientKey id 5 ''Gpt-5'' = Some (5, ''gpt-5'')"
    by code_simp+
  have "map_of (mts_entries (newOpenAIAccountModelTransientState 0)) (5, ''gpt-5'') = None"
    by (simp add: newOpenAIAccountModelTransientState_def)
  from transient_streak_cooldown [OF mts_inv_new this, of ?fs id 5 "''Gpt-5''"
      "20 * Minute + 9 * Second"]
  show ?thesis using k by (simp add: Minute_def Second_def Let_def)
qed

text \<open>
  The breaker's contract holds for every sequence of operations on a new
  table: the number of tracked pairs stays within the capacity, and a pair that is blocked some
  time after a success of its own has failed since that success.
\<close>

theorem transient_contract:
  "mts_size (mts_run u es (newOpenAIAccountModelTransientState n)) \<le>
     mts_maxEntries (newOpenAIAccountModelTransientState n) \<and>
   (es = before @ Succeeded (a, m) # after \<and>
    snd (mts_isBlocked u t (mts_run u es (newOpenAIAccountModelTransientState n)) a m t) \<longrightarrow>
    list_ex (fails_on (mts_key u) (a, m)) after)"
proof -
  have "0 < mts_maxEntries (newOpenAIAccountModelTransientState n)"
    using mts_inv_new by (simp add: mts_inv_def)
  then have "mts_size (mts_run u es (newOpenAIAccountModelTransientState n)) \<le>
      mts_maxEntries (newOpenAIAccountModelTransientState n)"
    using transient_breaker.run_bounded [OF mts_inv_new, of u es n] unfolding mts_size_def by linarith
  then show ?thesis
    using transient_breaker.success_until_failure [OF mts_inv_new, where u = u and y = "(a, m)" and es = before and es' = after]
    by auto
qed

theorem transient_contract_witness:
  "list_ex (fails_on (mts_key id) (5, ''m'')) [Failed id (5, ''m'') 2, Failed id (5, ''M'') 3]"
proof -
  let ?after = "[Failed id (5, ''m'') 2, Failed id (5, ''M'') 3]"
  have "snd (mts_isBlocked id 4 (mts_run id ([] @ Succeeded (5, ''m'') # ?after)
      (newOpenAIAccountModelTransientState 0)) 5 ''m'' 4)"
    by code_simp
  then show ?thesis
    using transient_contract [of id "[] @ Succeeded (5, ''m'') # ?after" 0 "[]" 5 "''m''" ?after 4]
    by simp
qed

end
