(* ===== verification/Scheduling_Order.thy ===== *)
theory Scheduling_Order
  imports Go_Order Account "HOL-Library.Product_Lexorder"
begin

text \<open>
  Candidate ordering for account selection (\<open>internal/service/gateway_scheduling_order.go\<close>) and
  the layered selection loop that uses it (\<open>gateway_scheduling.go\<close>): the filters by priority,
  load and session window, the least-recently-used choice, and the sorted fallback orders with
  their shuffles inside groups of equals.

  Randomness is an argument: \<open>rs i\<close> is the source of the shuffle of the group that starts at
  position \<open>i\<close>, \<open>draw\<close> the value of \<open>Intn\<close> before it is reduced.
\<close>

record accountWithLoad =
  awl_account :: Account
  awl_LoadRate :: int

text \<open>\<open>Time.Unix()\<close>: seconds since 1970, 62135596800 seconds after Go's zero time.\<close>

definition time_Unix :: "gotime \<Rightarrow> int" where
  "time_Unix t = t div 1000000000 - 62135596800"

section \<open>Filters\<close>

fun min_from :: "('a \<Rightarrow> int) \<Rightarrow> int \<Rightarrow> 'a list \<Rightarrow> int" where
  "min_from f m [] = m"
| "min_from f m (x # xs) = min_from f (if f x < m then f x else m) xs"

definition filterByMin :: "('a \<Rightarrow> int) \<Rightarrow> 'a list \<Rightarrow> 'a list" where
  "filterByMin f accounts =
     (case accounts of
        [] \<Rightarrow> accounts
      | a # rest \<Rightarrow> filter (\<lambda>acc. f acc = min_from f (f a) rest) accounts)"

definition filterByMinPriority :: "accountWithLoad list \<Rightarrow> accountWithLoad list" where
  "filterByMinPriority accounts = filterByMin (\<lambda>a. a_Priority (awl_account a)) accounts"

definition filterByMinLoadRate :: "accountWithLoad list \<Rightarrow> accountWithLoad list" where
  "filterByMinLoadRate accounts = filterByMin awl_LoadRate accounts"

fun soonest_end :: "gotime \<Rightarrow> gotime option \<Rightarrow> accountWithLoad list \<Rightarrow> gotime option" where
  "soonest_end now minEnd [] = minEnd"
| "soonest_end now minEnd (acc # rest) =
     (case a_SessionWindowEnd (awl_account acc) of
        None \<Rightarrow> soonest_end now minEnd rest
      | Some e \<Rightarrow>
          if \<not> now < e then soonest_end now minEnd rest
          else
            case minEnd of
              None \<Rightarrow> soonest_end now (Some e) rest
            | Some m \<Rightarrow> soonest_end now (if e < m then Some e else minEnd) rest)"

definition filterBySoonestReset :: "gotime \<Rightarrow> accountWithLoad list \<Rightarrow> accountWithLoad list" where
  "filterBySoonestReset now accounts =
     (if length accounts \<le> 1 then accounts
      else
        case soonest_end now None accounts of
          None \<Rightarrow> accounts
        | Some m \<Rightarrow>
            filter (\<lambda>acc. case a_SessionWindowEnd (awl_account acc) of
                            None \<Rightarrow> False
                          | Some e \<Rightarrow> now < e \<and> e = m) accounts)"

section \<open>Least recently used\<close>

text \<open>The first loop of \<open>selectByLRU\<close>: the flag \<open>hasNil\<close>, set with a \<open>break\<close>, and \<open>minTime\<close>.\<close>

fun lru_scan :: "gotime option \<Rightarrow> accountWithLoad list \<Rightarrow> bool \<times> gotime option" where
  "lru_scan minTime [] = (False, minTime)"
| "lru_scan minTime (acc # rest) =
     (case a_LastUsedAt (awl_account acc) of
        None \<Rightarrow> (True, minTime)
      | Some t \<Rightarrow>
          (case minTime of
             None \<Rightarrow> lru_scan (Some t) rest
           | Some m \<Rightarrow> lru_scan (if t < m then Some t else minTime) rest))"

definition selectByLRU :: "nat \<Rightarrow> accountWithLoad list \<Rightarrow> bool \<Rightarrow> accountWithLoad option" where
  "selectByLRU draw accounts preferOAuth =
     (if length accounts = 0 then None
      else if length accounts = 1 then Some (accounts ! 0)
      else
        case lru_scan None accounts of
          (hasNil, minTime) \<Rightarrow>
            let candidateIdxs =
                  filter (\<lambda>i. let u = a_LastUsedAt (awl_account (accounts ! i)) in
                               if hasNil then u = None else u \<noteq> None \<and> u = minTime)
                    [0..<length accounts]
            in
              if length candidateIdxs = 1 then Some (accounts ! (candidateIdxs ! 0))
              else
                let oauthIdxs =
                      filter (\<lambda>i. a_Type (awl_account (accounts ! i)) = AccountTypeOAuth) candidateIdxs;
                    candidateIdxs =
                      (if preferOAuth \<and> length oauthIdxs > 0 then oauthIdxs else candidateIdxs)
                in Some (accounts ! (candidateIdxs ! (draw mod length candidateIdxs))))"

section \<open>Sorted orders with shuffled groups\<close>

definition sameLastUsedAt :: "gotime option \<Rightarrow> gotime option \<Rightarrow> bool" where
  "sameLastUsedAt a b =
     (case (a, b) of
        (None, None) \<Rightarrow> True
      | (Some s, Some t) \<Rightarrow> time_Unix s = time_Unix t
      | _ \<Rightarrow> False)"

definition sameAccountGroup :: "Account \<Rightarrow> Account \<Rightarrow> bool" where
  "sameAccountGroup a b \<longleftrightarrow>
     (if a_Priority a \<noteq> a_Priority b then False
      else sameLastUsedAt (a_LastUsedAt a) (a_LastUsedAt b))"

definition sameAccountWithLoadGroup :: "accountWithLoad \<Rightarrow> accountWithLoad \<Rightarrow> bool" where
  "sameAccountWithLoadGroup a b \<longleftrightarrow>
     (if a_Priority (awl_account a) \<noteq> a_Priority (awl_account b) then False
      else if awl_LoadRate a \<noteq> awl_LoadRate b then False
      else sameLastUsedAt (a_LastUsedAt (awl_account a)) (a_LastUsedAt (awl_account b)))"

text \<open>
  The loop the three shuffles share: from position \<open>i\<close>, the maximal run of elements that are in
  the group of the first is rearranged by \<open>perm i\<close> if it has more than one element.
\<close>

function shuffle_groups ::
  "('a \<Rightarrow> 'a \<Rightarrow> bool) \<Rightarrow> (nat \<Rightarrow> 'a list \<Rightarrow> 'a list) \<Rightarrow> nat \<Rightarrow> 'a list \<Rightarrow> 'a list" where
  "shuffle_groups same perm i [] = []"
| "shuffle_groups same perm i (x # xs) =
     (let g = x # takeWhile (same x) xs
      in (if length g > 1 then perm i g else g)
         @ shuffle_groups same perm (i + length g) (dropWhile (same x) xs))"
  by pat_completeness auto
termination
  by (relation "measure (\<lambda>(same, perm, i, xs). length xs)")
    (auto simp: less_Suc_eq_le length_dropWhile_le)

definition shuffleWithinSortGroups :: "(nat \<Rightarrow> nat \<Rightarrow> nat) \<Rightarrow> accountWithLoad list \<Rightarrow> accountWithLoad list" where
  "shuffleWithinSortGroups rs accounts =
     (if length accounts \<le> 1 then accounts
      else shuffle_groups sameAccountWithLoadGroup (\<lambda>i. rand_Shuffle (rs i)) 0 accounts)"

definition partitionShuffle :: "bool \<Rightarrow> (nat \<Rightarrow> nat \<Rightarrow> nat) \<Rightarrow> nat \<Rightarrow> Account list \<Rightarrow> Account list" where
  "partitionShuffle preferOAuth rs i g =
     (if preferOAuth then
        let oauth = filter (\<lambda>a. a_Type a = AccountTypeOAuth) g;
            others = filter (\<lambda>a. a_Type a \<noteq> AccountTypeOAuth) g
        in (if length oauth > 1 then rand_Shuffle (rs i) oauth else oauth)
           @ (if length others > 1 then rand_Shuffle (rs (Suc i)) others else others)
      else rand_Shuffle (rs i) g)"

definition shuffleWithinPriorityAndLastUsed ::
  "(nat \<Rightarrow> nat \<Rightarrow> nat) \<Rightarrow> Account list \<Rightarrow> bool \<Rightarrow> Account list" where
  "shuffleWithinPriorityAndLastUsed rs accounts preferOAuth =
     (if length accounts \<le> 1 then accounts
      else shuffle_groups sameAccountGroup (partitionShuffle preferOAuth rs) 0 accounts)"

definition lessPriorityAndLastUsed :: "bool \<Rightarrow> Account \<Rightarrow> Account \<Rightarrow> bool" where
  "lessPriorityAndLastUsed preferOAuth a b =
     (if a_Priority a \<noteq> a_Priority b then a_Priority a < a_Priority b
      else
        case (a_LastUsedAt a, a_LastUsedAt b) of
          (None, Some _) \<Rightarrow> True
        | (Some _, None) \<Rightarrow> False
        | (None, None) \<Rightarrow>
            if preferOAuth \<and> a_Type a \<noteq> a_Type b then a_Type a = AccountTypeOAuth else False
        | (Some s, Some t) \<Rightarrow> s < t)"

definition sortAccountsByPriorityAndLastUsed ::
  "(nat \<Rightarrow> nat \<Rightarrow> nat) \<Rightarrow> Account list \<Rightarrow> bool \<Rightarrow> Account list" where
  "sortAccountsByPriorityAndLastUsed rs accounts preferOAuth =
     shuffleWithinPriorityAndLastUsed rs
       (sort_SliceStable (lessPriorityAndLastUsed preferOAuth) accounts) preferOAuth"

definition lessPriorityOnly :: "bool \<Rightarrow> Account \<Rightarrow> Account \<Rightarrow> bool" where
  "lessPriorityOnly preferOAuth a b =
     (if a_Priority a \<noteq> a_Priority b then a_Priority a < a_Priority b
      else if preferOAuth \<and> a_Type a \<noteq> a_Type b then a_Type a = AccountTypeOAuth
      else False)"

definition sortAccountsByPriorityOnly :: "Account list \<Rightarrow> bool \<Rightarrow> Account list" where
  "sortAccountsByPriorityOnly accounts preferOAuth =
     sort_SliceStable (lessPriorityOnly preferOAuth) accounts"

definition shuffleWithinPriority :: "(nat \<Rightarrow> nat \<Rightarrow> nat) \<Rightarrow> Account list \<Rightarrow> Account list" where
  "shuffleWithinPriority rs accounts =
     (if length accounts \<le> 1 then accounts
      else shuffle_groups (\<lambda>a b. a_Priority b = a_Priority a) (\<lambda>i. rand_Shuffle (rs i)) 0 accounts)"

definition sortCandidatesForFallback ::
  "(nat \<Rightarrow> nat \<Rightarrow> nat) \<Rightarrow> Account list \<Rightarrow> bool \<Rightarrow> string \<Rightarrow> Account list" where
  "sortCandidatesForFallback rs accounts preferOAuth mode =
     (if mode = ''random''
      then shuffleWithinPriority rs (sortAccountsByPriorityOnly accounts preferOAuth)
      else sortAccountsByPriorityAndLastUsed rs accounts preferOAuth)"

text \<open>The load-aware order of routed candidates, sorted and then shuffled within groups.\<close>

definition lessByLoad :: "accountWithLoad \<Rightarrow> accountWithLoad \<Rightarrow> bool" where
  "lessByLoad a b =
     (if a_Priority (awl_account a) \<noteq> a_Priority (awl_account b)
      then a_Priority (awl_account a) < a_Priority (awl_account b)
      else if awl_LoadRate a \<noteq> awl_LoadRate b then awl_LoadRate a < awl_LoadRate b
      else
        case (a_LastUsedAt (awl_account a), a_LastUsedAt (awl_account b)) of
          (None, Some _) \<Rightarrow> True
        | (Some _, None) \<Rightarrow> False
        | (None, None) \<Rightarrow> False
        | (Some s, Some t) \<Rightarrow> s < t)"

definition orderRoutedCandidates ::
  "(nat \<Rightarrow> nat \<Rightarrow> nat) \<Rightarrow> accountWithLoad list \<Rightarrow> accountWithLoad list" where
  "orderRoutedCandidates rs available =
     shuffleWithinSortGroups rs (sort_SliceStable lessByLoad available)"

section \<open>The layered selection loop\<close>

text \<open>
  \<open>usable n a\<close>: at the \<open>n\<close>-th attempt the account's slot is acquired and its session registered; slots come and
  go while the loop runs, so this depends on the attempt. The \<open>n\<close>-th iteration draws \<open>draws n\<close> and reads the
  clock as \<open>clock n\<close>.
\<close>

definition layeredPick ::
  "bool \<Rightarrow> gotime \<Rightarrow> bool \<Rightarrow> nat \<Rightarrow> accountWithLoad list \<Rightarrow> accountWithLoad option" where
  "layeredPick preferSoonestReset now preferOAuth draw available =
     (let candidates = filterByMinPriority available;
          candidates = (if preferSoonestReset then filterBySoonestReset now candidates else candidates);
          candidates = filterByMinLoadRate candidates
      in selectByLRU draw candidates preferOAuth)"

section \<open>What the filters keep\<close>

lemma min_from_le: "min_from f m xs \<le> m \<and> (\<forall>x \<in> set xs. min_from f m xs \<le> f x)"
proof (induction xs arbitrary: m)
  case Nil
  then show ?case by simp
next
  case (Cons x xs)
  from Cons.IH [of "if f x < m then f x else m"] show ?case
    by (auto split: if_splits)
qed

lemma min_from_in: "min_from f m xs = m \<or> min_from f m xs \<in> f ` set xs"
proof (induction xs arbitrary: m)
  case Nil
  then show ?case by simp
next
  case (Cons x xs)
  from Cons.IH [of "if f x < m then f x else m"] show ?case
    by (auto split: if_splits)
qed

lemma filterByMin_eq: "filterByMin f xs = filter (\<lambda>a. \<forall>b \<in> set xs. f a \<le> f b) xs"
proof (cases xs)
  case Nil
  then show ?thesis by (simp add: filterByMin_def)
next
  case (Cons a rest)
  let ?m = "min_from f (f a) rest"
  have le: "\<forall>b \<in> set xs. ?m \<le> f b"
    using min_from_le [of f "f a" rest] Cons by simp
  have "?m \<in> f ` set xs"
    using min_from_in [of f "f a" rest] Cons by auto
  with le have "f x = ?m \<longleftrightarrow> (\<forall>b \<in> set xs. f x \<le> f b)" if "x \<in> set xs" for x
    using that by (auto intro: antisym)
  then show ?thesis
    unfolding filterByMin_def Cons list.case by (intro filter_cong) (auto simp: Cons)
qed

lemma filterByMin_nonempty: "xs \<noteq> [] \<Longrightarrow> filterByMin f xs \<noteq> []"
proof -
  assume "xs \<noteq> []"
  then obtain a rest where xs: "xs = a # rest" by (cases xs) auto
  then have "min_from f (f a) rest \<in> f ` set xs"
    using min_from_in [of f "f a" rest] by auto
  then obtain x where "x \<in> set xs" "f x = min_from f (f a) rest"
    by (metis imageE)
  then show ?thesis
    unfolding filterByMin_def xs list.case by (auto simp: xs filter_empty_conv)
qed

definition activeEnd :: "gotime \<Rightarrow> accountWithLoad \<Rightarrow> gotime option" where
  "activeEnd now acc =
     (case a_SessionWindowEnd (awl_account acc) of
        None \<Rightarrow> None | Some e \<Rightarrow> if now < e then Some e else None)"

lemma soonest_end_spec:
  "(case soonest_end now m xs of
      None \<Rightarrow> m = None \<and> (\<forall>x \<in> set xs. activeEnd now x = None)
    | Some e \<Rightarrow> (m = Some e \<or> (\<exists>x \<in> set xs. activeEnd now x = Some e)) \<and>
        (\<forall>m'. m = Some m' \<longrightarrow> e \<le> m') \<and> (\<forall>x \<in> set xs. \<forall>e'. activeEnd now x = Some e' \<longrightarrow> e \<le> e'))"
proof (induction now m xs rule: soonest_end.induct)
  case (1 now minEnd)
  then show ?case by (simp split: option.splits)
next
  case (2 now minEnd acc rest)
  show ?case
  proof (cases "activeEnd now acc")
    case None
    then have "soonest_end now minEnd (acc # rest) = soonest_end now minEnd rest"
      by (auto simp: activeEnd_def split: option.splits if_splits)
    moreover have "case soonest_end now minEnd rest of
        None \<Rightarrow> minEnd = None \<and> (\<forall>x \<in> set rest. activeEnd now x = None)
      | Some e \<Rightarrow> (minEnd = Some e \<or> (\<exists>x \<in> set rest. activeEnd now x = Some e)) \<and>
          (\<forall>m'. minEnd = Some m' \<longrightarrow> e \<le> m') \<and>
          (\<forall>x \<in> set rest. \<forall>e'. activeEnd now x = Some e' \<longrightarrow> e \<le> e')"
      using None "2.IH"(1,2)
      by (cases "a_SessionWindowEnd (awl_account acc)") (auto simp: activeEnd_def split: if_splits)
    ultimately show ?thesis
      using None by (auto split: option.splits)
  next
    case (Some e)
    then have w: "a_SessionWindowEnd (awl_account acc) = Some e" "now < e"
      by (auto simp: activeEnd_def split: option.splits if_splits)
    show ?thesis
    proof (cases minEnd)
      case None
      with w "2.IH"(3) [OF w(1) _ None] Some show ?thesis
        by (auto split: option.splits)
    next
      case m: (Some m)
      with w "2.IH"(4) [OF w(1) _ m] Some show ?thesis
        by (auto split: option.splits if_splits)
    qed
  qed
qed

lemma filterBySoonestReset_subset: "set (filterBySoonestReset now xs) \<subseteq> set xs"
  by (auto simp: filterBySoonestReset_def split: option.splits)

lemma filterBySoonestReset_nonempty:
  assumes "xs \<noteq> []"
  shows "filterBySoonestReset now xs \<noteq> []"
proof (cases "length xs \<le> 1 \<or> soonest_end now None xs = None")
  case True
  then show ?thesis using assms by (auto simp: filterBySoonestReset_def)
next
  case False
  then obtain e where e: "soonest_end now None xs = Some e" by auto
  then obtain x where "x \<in> set xs" "activeEnd now x = Some e"
    using soonest_end_spec [where now = now and m = None and xs = xs] by auto
  with False e show ?thesis
    by (force simp: filterBySoonestReset_def activeEnd_def filter_empty_conv
        split: option.splits if_splits)
qed

text \<open>
  Among accounts with an open session window only those whose window closes first remain; if no
  window is open all remain.
\<close>

lemma filterBySoonestReset_spec:
  assumes "a \<in> set (filterBySoonestReset now xs)" and "b \<in> set xs" and "activeEnd now b = Some e"
  shows "\<exists>d. activeEnd now a = Some d \<and> d \<le> e"
proof (cases "length xs \<le> 1")
  case True
  with assms have "a = b"
    by (cases xs) (auto simp: filterBySoonestReset_def)
  with assms show ?thesis by auto
next
  case False
  obtain m where m: "soonest_end now None xs = Some m" "m \<le> e"
    using soonest_end_spec [where now = now and m = None and xs = xs] assms(2,3) by (auto split: option.splits)
  with False assms(1) show ?thesis
    by (auto simp: filterBySoonestReset_def activeEnd_def split: option.splits)
qed

section \<open>The least recently used account\<close>

text \<open>A missing time of last use precedes every time.\<close>

definition lu_key :: "gotime option \<Rightarrow> int \<times> int" where
  "lu_key u = (case u of None \<Rightarrow> (0, 0) | Some t \<Rightarrow> (1, t))"

lemma lu_key_inject: "lu_key a = lu_key b \<longleftrightarrow> a = b"
  by (auto simp: lu_key_def split: option.splits)

abbreviation (input) awl_lu :: "accountWithLoad \<Rightarrow> gotime option" where
  "awl_lu a \<equiv> a_LastUsedAt (awl_account a)"

lemma lru_scan_nil: "fst (lru_scan m xs) \<longleftrightarrow> (\<exists>x \<in> set xs. awl_lu x = None)"
  by (induction m xs rule: lru_scan.induct) (auto split: option.splits)

lemma lru_scan_min:
  assumes "\<forall>x \<in> set xs. awl_lu x \<noteq> None" and "m \<noteq> None \<or> xs \<noteq> []"
  shows "\<exists>t. snd (lru_scan m xs) = Some t \<and> (m = Some t \<or> (\<exists>x \<in> set xs. awl_lu x = Some t)) \<and>
    (\<forall>t'. m = Some t' \<longrightarrow> t \<le> t') \<and> (\<forall>x \<in> set xs. \<forall>t'. awl_lu x = Some t' \<longrightarrow> t \<le> t')"
  using assms
proof (induction m xs rule: lru_scan.induct)
  case (1 minTime)
  then show ?case by auto
next
  case (2 minTime acc rest)
  then obtain t where t: "awl_lu acc = Some t" by auto
  show ?case
  proof (cases minTime)
    case None
    have "\<exists>u. snd (lru_scan (Some t) rest) = Some u \<and>
        (Some t = Some u \<or> (\<exists>x \<in> set rest. awl_lu x = Some u)) \<and>
        (\<forall>t'. Some t = Some t' \<longrightarrow> u \<le> t') \<and>
        (\<forall>x \<in> set rest. \<forall>t'. awl_lu x = Some t' \<longrightarrow> u \<le> t')"
      using "2.IH"(1) [OF t None] "2.prems" by simp
    with None t show ?thesis by auto
  next
    case (Some m)
    have "\<exists>u. snd (lru_scan (if t < m then Some t else minTime) rest) = Some u \<and>
        ((if t < m then Some t else minTime) = Some u \<or> (\<exists>x \<in> set rest. awl_lu x = Some u)) \<and>
        (\<forall>t'. (if t < m then Some t else minTime) = Some t' \<longrightarrow> u \<le> t') \<and>
        (\<forall>x \<in> set rest. \<forall>t'. awl_lu x = Some t' \<longrightarrow> u \<le> t')"
      using "2.IH"(2) [OF t Some] "2.prems" Some by simp
    with Some t show ?thesis by (auto split: if_splits)
  qed
qed

lemma mod_nth_in: "xs \<noteq> [] \<Longrightarrow> xs ! (d mod length xs) \<in> set xs"
  by (simp add: mod_less_divisor)

lemma selectByLRU_None: "selectByLRU draw xs preferOAuth = None \<longleftrightarrow> xs = []"
  by (auto simp: selectByLRU_def Let_def split: prod.splits)

lemma lru_candidates:
  assumes "xs \<noteq> []" and "lru_scan None xs = (hasNil, minTime)"
  shows "\<exists>v. (\<exists>x \<in> set xs. awl_lu x = v) \<and> (\<forall>x \<in> set xs. lu_key v \<le> lu_key (awl_lu x)) \<and>
    (\<forall>u. (if hasNil then u = None else u \<noteq> None \<and> u = minTime) \<longleftrightarrow> u = v)"
proof (cases hasNil)
  case True
  then have "\<exists>x \<in> set xs. awl_lu x = None"
    using lru_scan_nil [of None xs] assms(2) by simp
  then show ?thesis
    using True by (intro exI [of _ None]) (auto simp: lu_key_def split: option.splits)
next
  case False
  then have "\<forall>x \<in> set xs. awl_lu x \<noteq> None"
    using lru_scan_nil [of None xs] assms(2) by auto
  moreover from this obtain t where "minTime = Some t" "\<exists>x \<in> set xs. awl_lu x = Some t"
      "\<forall>x \<in> set xs. \<forall>t'. awl_lu x = Some t' \<longrightarrow> t \<le> t'"
    using lru_scan_min [of xs None] assms by auto
  ultimately show ?thesis
    using False by (intro exI [of _ "Some t"]) (auto simp: lu_key_def split: option.splits)
qed

lemma selectByLRU_spec:
  assumes "selectByLRU draw xs preferOAuth = Some a"
  shows "a \<in> set xs \<and> (\<forall>b \<in> set xs. lu_key (awl_lu a) \<le> lu_key (awl_lu b)) \<and>
    (preferOAuth \<and> a_Type (awl_account a) \<noteq> AccountTypeOAuth \<longrightarrow>
      (\<forall>b \<in> set xs. awl_lu b = awl_lu a \<longrightarrow> a_Type (awl_account b) \<noteq> AccountTypeOAuth))"
proof (cases "length xs = 1")
  case True
  then obtain x where "xs = [x]" by (auto simp: length_Suc_conv)
  with assms show ?thesis by (auto simp: selectByLRU_def)
next
  case False
  have ne: "xs \<noteq> []" using assms selectByLRU_None [of draw xs preferOAuth] by auto
  obtain hasNil minTime where scan: "lru_scan None xs = (hasNil, minTime)"
    by (cases "lru_scan None xs")
  obtain v where v: "\<exists>x \<in> set xs. awl_lu x = v" "\<forall>x \<in> set xs. lu_key v \<le> lu_key (awl_lu x)"
      "\<And>u. (if hasNil then u = None else u \<noteq> None \<and> u = minTime) \<longleftrightarrow> u = v"
    using lru_candidates [OF ne scan] by blast
  define C where "C = filter (\<lambda>i. awl_lu (xs ! i) = v) [0..<length xs]"
  define O' where "O' = filter (\<lambda>i. a_Type (awl_account (xs ! i)) = AccountTypeOAuth) C"
  define D where "D = (if preferOAuth \<and> O' \<noteq> [] then O' else C)"
  have C: "C \<noteq> []" "\<forall>i \<in> set C. i < length xs \<and> awl_lu (xs ! i) = v"
    using v(1) by (fastforce simp: C_def filter_empty_conv in_set_conv_nth)+
  have sel: "a = xs ! (if length C = 1 then C ! 0 else D ! (draw mod length D))"
    using assms False ne scan v(3)
    by (auto simp add: selectByLRU_def Let_def C_def [symmetric] O'_def [symmetric] D_def split: if_splits)
  obtain i where i: "i \<in> set C" "a = xs ! i" "i \<in> set D \<or> C = [i]"
  proof (cases "length C = 1")
    case True
    then obtain c where "C = [c]" by (auto simp: length_Suc_conv)
    with sel that show thesis by simp
  next
    case False
    have D: "D \<noteq> []" "set D \<subseteq> set C"
      using C(1) by (auto simp: D_def O'_def)
    have "D ! (draw mod length D) \<in> set D"
      using D(1) by (rule mod_nth_in)
    with D(2) sel False show thesis
      by (intro that [of "D ! (draw mod length D)"]) auto
  qed
  have oauth: "a_Type (awl_account b) \<noteq> AccountTypeOAuth"
    if h: "preferOAuth" "a_Type (awl_account a) \<noteq> AccountTypeOAuth" "b \<in> set xs" "awl_lu b = awl_lu a" for b
  proof
    assume b: "a_Type (awl_account b) = AccountTypeOAuth"
    obtain j where j: "j < length xs" "b = xs ! j"
      using h(3) unfolding in_set_conv_nth by blast
    have "awl_lu (xs ! j) = v"
      using j(2) h(4) i(1,2) C(2) by simp
    then have jC: "j \<in> set C"
      using j(1) by (simp add: C_def)
    then have jO: "j \<in> set O'" using b j(2) by (simp add: O'_def)
    have D: "D = O'" using h(1) jO unfolding D_def by force
    from i(3) have "i \<in> set O'"
      using D jC jO by (elim disjE) simp_all
    then show False using h(2) i(2) by (simp add: O'_def)
  qed
  have "awl_lu a = v" "a \<in> set xs"
    using i C(2) by auto
  with v(2) oauth show ?thesis by blast
qed

section \<open>The layered pick and the loop\<close>

lemma layeredPick_in: "layeredPick soon now pref draw xs = Some a \<Longrightarrow> a \<in> set xs"
  using filterBySoonestReset_subset
  by (fastforce simp: layeredPick_def Let_def filterByMinPriority_def filterByMinLoadRate_def
      filterByMin_eq dest!: selectByLRU_spec split: if_splits)

lemma layeredPick_None: "layeredPick soon now pref draw xs = None \<longleftrightarrow> xs = []"
proof
  assume *: "layeredPick soon now pref draw xs = None"
  show "xs = []"
  proof (rule ccontr)
    assume "xs \<noteq> []"
    then have "filterByMinPriority xs \<noteq> []"
      by (simp add: filterByMinPriority_def filterByMin_nonempty)
    then have "(if soon then filterBySoonestReset now (filterByMinPriority xs)
        else filterByMinPriority xs) \<noteq> []"
      using filterBySoonestReset_nonempty by simp
    then show False
      using * by (simp add: layeredPick_def Let_def selectByLRU_None filterByMinLoadRate_def
          filterByMin_nonempty)
  qed
qed (simp add: layeredPick_def filterByMinPriority_def filterBySoonestReset_def
    filterByMinLoadRate_def filterByMin_def selectByLRU_def)

function layeredSelect ::
  "bool \<Rightarrow> bool \<Rightarrow> (nat \<Rightarrow> Account \<Rightarrow> bool) \<Rightarrow> (nat \<Rightarrow> gotime) \<Rightarrow> (nat \<Rightarrow> nat) \<Rightarrow> nat
    \<Rightarrow> accountWithLoad list \<Rightarrow> accountWithLoad option" where
  "layeredSelect preferSoonestReset preferOAuth usable clock draws n available =
     (case layeredPick preferSoonestReset (clock n) preferOAuth (draws n) available of
        None \<Rightarrow> None
      | Some selected \<Rightarrow>
          if usable n (awl_account selected) then Some selected
          else layeredSelect preferSoonestReset preferOAuth usable clock draws (Suc n)
                 (filter (\<lambda>acc. a_ID (awl_account acc) \<noteq> a_ID (awl_account selected)) available))"
  by pat_completeness auto
termination
  by (relation "measure (\<lambda>(_, _, _, _, _, _, available). length available)")
    (auto dest: layeredPick_in intro: length_filter_less)

declare layeredSelect.simps [simp del]

text \<open>The order of preference by load, of the routed candidates.\<close>

definition awl_rank :: "accountWithLoad \<Rightarrow> int \<times> int \<times> int \<times> int" where
  "awl_rank a = (a_Priority (awl_account a), awl_LoadRate a, lu_key (awl_lu a))"

text \<open>
  The order of preference at a time: priority; with the preference for the window that resets first, accounts with
  an open window before the others, by the end of the window; load; least recent use; and OAuth accounts first
  where they are preferred.
\<close>

definition window_key :: "bool \<Rightarrow> gotime \<Rightarrow> accountWithLoad \<Rightarrow> int \<times> int" where
  "window_key soonest now a =
     (if soonest then (case activeEnd now a of None \<Rightarrow> (1, 0) | Some e \<Rightarrow> (0, e)) else (0, 0))"

type_synonym pick_key = "int \<times> (int \<times> int) \<times> int \<times> (int \<times> int) \<times> int"

definition pick_rank :: "bool \<Rightarrow> bool \<Rightarrow> gotime \<Rightarrow> accountWithLoad \<Rightarrow> pick_key" where
  "pick_rank soonest preferOAuth now a =
     (a_Priority (awl_account a), window_key soonest now a, awl_LoadRate a, lu_key (awl_lu a),
      if preferOAuth \<and> a_Type (awl_account a) \<noteq> AccountTypeOAuth then 1 else 0)"

lemma lex_step: "(x :: 'a :: linorder) \<le> y \<Longrightarrow> (x = y \<Longrightarrow> (u :: 'b :: linorder) \<le> v) \<Longrightarrow> (x, u) \<le> (y, v)"
  by (cases "x = y") (auto simp: less_eq_prod_def)

lemma window_key_filter:
  assumes "a \<in> set (if soonest then filterBySoonestReset now xs else xs)" and "b \<in> set xs"
  shows "window_key soonest now a \<le> window_key soonest now b"
    and "window_key soonest now a = window_key soonest now b \<Longrightarrow> b \<in> set (if soonest then filterBySoonestReset now xs else xs)"
proof -
  have "\<exists>d. activeEnd now a = Some d \<and> d \<le> e" if "soonest" "activeEnd now b = Some e" for e
    using filterBySoonestReset_spec assms that by simp
  then show "window_key soonest now a \<le> window_key soonest now b"
    by (cases "activeEnd now a"; cases "activeEnd now b") (auto simp: window_key_def)
  assume "window_key soonest now a = window_key soonest now b"
  then have same: "activeEnd now a = activeEnd now b" if soonest using that by (auto simp: window_key_def split: option.splits)
  show "b \<in> set (if soonest then filterBySoonestReset now xs else xs)"
    using assms same
    by (auto simp: filterBySoonestReset_def activeEnd_def split: option.splits if_splits)
qed

lemma layeredPick_best:
  assumes "layeredPick soonest now pref draw xs = Some a" and "b \<in> set xs"
  shows "pick_rank soonest pref now a \<le> pick_rank soonest pref now b"
proof -
  let ?P = "filterByMinPriority xs"
  let ?S = "if soonest then filterBySoonestReset now ?P else ?P"
  let ?L = "filterByMinLoadRate ?S"
  note spec = selectByLRU_spec [OF assms(1) [unfolded layeredPick_def Let_def]]
  have a: "a \<in> set ?L" "a \<in> set ?S" "a \<in> set ?P" "\<forall>c \<in> set ?S. awl_LoadRate a \<le> awl_LoadRate c"
    using spec filterBySoonestReset_subset [of now ?P] by (auto simp: filterByMinLoadRate_def filterByMin_eq split: if_splits)
  have p: "a_Priority (awl_account a) \<le> a_Priority (awl_account b)"
    and P: "a_Priority (awl_account a) = a_Priority (awl_account b) \<Longrightarrow> b \<in> set ?P"
    using a(3) assms(2) by (simp_all add: filterByMinPriority_def filterByMin_eq)
  have L: "b \<in> set ?L" if "b \<in> set ?S" "awl_LoadRate a = awl_LoadRate b"
    using a(4) that by (simp add: filterByMinLoadRate_def filterByMin_eq)
  show ?thesis
    unfolding pick_rank_def
    using p P window_key_filter [OF a(2)] a(4) L spec by (intro lex_step) (auto simp: lu_key_inject)
qed

text \<open>
  The accounts tried one after the other, from the \<open>n\<close>-th attempt on: each is one of those not tried before, and
  none of these comes before it in the order of preference at that attempt.
\<close>

fun greedy :: "(nat \<Rightarrow> accountWithLoad \<Rightarrow> pick_key) \<Rightarrow> nat \<Rightarrow> accountWithLoad list \<Rightarrow> accountWithLoad set \<Rightarrow> bool" where
  "greedy rank n [] A \<longleftrightarrow> True"
| "greedy rank n (a # as) A \<longleftrightarrow> a \<in> A \<and> (\<forall>b \<in> A. rank n a \<le> rank n b) \<and> greedy rank (Suc n) as (A - {a})"

lemma layeredSelect_trace:
  assumes "distinct (map (\<lambda>a. a_ID (awl_account a)) xs)" and "rank = (\<lambda>n. pick_rank soonest pref (clock n))"
  shows "\<exists>tried. (\<forall>i < length tried. \<not> usable (n + i) (awl_account (tried ! i))) \<and>
    (case layeredSelect soonest pref usable clock draws n xs of
       None \<Rightarrow> greedy rank n tried (set xs) \<and> set tried = set xs
     | Some a \<Rightarrow> greedy rank n (tried @ [a]) (set xs) \<and> usable (n + length tried) (awl_account a))"
  using assms(1)
proof (induction "length xs" arbitrary: n xs rule: less_induct)
  case less
  show ?case
  proof (cases "layeredPick soonest (clock n) pref (draws n) xs")
    case None
    then have "xs = []" by (simp only: layeredPick_None)
    then show ?thesis using None by (simp add: layeredSelect.simps [of soonest pref usable clock draws n])
  next
    case (Some a)
    note in_xs = layeredPick_in [OF Some]
    have best: "\<forall>b \<in> set xs. rank n a \<le> rank n b" using layeredPick_best [OF Some] by (simp add: assms(2))
    let ?ys = "filter (\<lambda>acc. a_ID (awl_account acc) \<noteq> a_ID (awl_account a)) xs"
    have ys: "set ?ys = set xs - {a}" using less.prems in_xs by (auto simp: distinct_map dest: inj_onD)
    note step = layeredSelect.simps [of soonest pref usable clock draws n xs]
    show ?thesis
    proof (cases "usable n (awl_account a)")
      case True
      then show ?thesis using Some in_xs best by (intro exI [of _ "[]"]) (simp add: step)
    next
      case False
      obtain tried where tried: "\<forall>i < length tried. \<not> usable (Suc n + i) (awl_account (tried ! i))"
        "case layeredSelect soonest pref usable clock draws (Suc n) ?ys of
           None \<Rightarrow> greedy rank (Suc n) tried (set ?ys) \<and> set tried = set ?ys
         | Some b \<Rightarrow> greedy rank (Suc n) (tried @ [b]) (set ?ys) \<and> usable (Suc n + length tried) (awl_account b)"
        using less.hyps [OF length_filter_less [OF in_xs, of "\<lambda>acc. a_ID (awl_account acc) \<noteq> a_ID (awl_account a)"]
            distinct_map_filter [OF less.prems], of "Suc n"] by blast
      have "\<not> usable (n + i) (awl_account ((a # tried) ! i))" if "i < length (a # tried)" for i
        using that tried(1) False by (cases i) auto
      moreover have eq: "layeredSelect soonest pref usable clock draws n xs = layeredSelect soonest pref usable clock draws (Suc n) ?ys"
        using Some False by (simp add: step)
      ultimately show ?thesis
        using tried(2) in_xs best unfolding ys eq by (intro exI [of _ "a # tried"]) (auto split: option.splits)
    qed
  qed
qed

section \<open>Shuffled groups\<close>

lemma mset_takeWhile_dropWhile: "mset (takeWhile P xs) + mset (dropWhile P xs) = mset xs"
  by (metis mset_append takeWhile_dropWhile_id)

lemma mset_shuffle_groups:
  assumes "\<And>i g. mset (perm i g) = mset g"
  shows "mset (shuffle_groups same perm i xs) = mset xs"
  using assms
proof (induction same perm i xs rule: shuffle_groups.induct)
  case (1 same perm i)
  then show ?case by simp
next
  case (2 same perm i x xs)
  have "mset (shuffle_groups same perm j (dropWhile (same x) xs)) = mset (dropWhile (same x) xs)"
    if "j = i + length (x # takeWhile (same x) xs)" for j
    using "2.IH" [OF refl] "2.prems" that by simp
  then show ?case
    using mset_takeWhile_dropWhile [of "same x" xs]
    by (cases "takeWhile (same x) xs = []") (auto simp: Let_def "2.prems")
qed

text \<open>
  A slice sorted by \<open>k\<close> stays sorted when runs of equal \<open>k\<close> are rearranged, and inside each run
  it is ordered the way the rearrangement orders it.
\<close>

lemma sorted_shuffle_groups:
  fixes k :: "'a \<Rightarrow> 'k :: linorder"
  assumes "\<And>i g. mset (perm i g) = mset g" and "\<And>x y. same x y \<longleftrightarrow> k x = k y"
    and "\<And>i g. sorted_wrt R (perm i g)"
    and "sorted_wrt (\<lambda>a b. k a \<le> k b) xs"
  shows "sorted_wrt (\<lambda>a b. k a < k b \<or> k a = k b \<and> R a b) (shuffle_groups same perm i xs)"
  using assms
proof (induction same perm i xs rule: shuffle_groups.induct)
  case (1 same perm i)
  then show ?case by simp
next
  case (2 same perm i x xs)
  let ?g = "x # takeWhile (same x) xs" and ?d = "dropWhile (same x) xs"
  let ?h = "if length ?g > 1 then perm i ?g else ?g"
  let ?r = "shuffle_groups same perm (i + length ?g) ?d"
  have sorted: "sorted_wrt (\<lambda>a b. k a \<le> k b) (takeWhile (same x) xs @ ?d)"
    using "2.prems"(4) by simp
  then have sd: "sorted_wrt (\<lambda>a b. k a \<le> k b) ?d"
    by (simp add: sorted_wrt_append)
  have hm: "mset ?h = mset ?g" using "2.prems"(1) by simp
  then have "set ?h = set ?g" by (metis set_mset_mset)
  then have hk: "k a = k x" if "a \<in> set ?h" for a
    using that "2.prems"(2) by (auto dest: set_takeWhileD)
  have hR: "sorted_wrt R ?h"
    using "2.prems"(3) by simp
  have "set ?r = set ?d"
    using mset_shuffle_groups [where same = same and perm = perm and i = "i + length ?g" and xs = ?d, OF "2.prems"(1)] by (metis set_mset_mset)
  have dk: "k x < k b" if "b \<in> set ?d" for b
  proof -
    have "?d \<noteq> []" using that by (metis empty_iff list.set(1))
    then obtain y ys where d: "?d = y # ys" by (meson neq_Nil_conv)
    then have "\<not> same x y" by (metis dropWhile_eq_Cons_conv)
    then have "k x \<noteq> k y" using "2.prems"(2) by blast
    moreover have "k x \<le> k y" "k y \<le> k b"
      using "2.prems"(4) sd that d set_dropWhileD [of y "same x" xs] by auto
    ultimately show ?thesis by auto
  qed
  have "sorted_wrt (\<lambda>a b. k a < k b \<or> k a = k b \<and> R a b) ?r"
    using "2.IH" [OF refl "2.prems"(1-3) sd] .
  moreover have "sorted_wrt (\<lambda>a b. k a < k b \<or> k a = k b \<and> R a b) ?h"
    using hR hk by (rule_tac sorted_wrt_mono_rel [OF _ hR]) auto
  ultimately show ?case
    using hk dk \<open>set ?r = set ?d\<close> by (auto simp: Let_def sorted_wrt_append)
qed

lemma mset_filter_split: "mset (filter P xs) + mset (filter (\<lambda>x. \<not> P x) xs) = mset xs"
  by (simp add: multiset_partition [symmetric])

lemma mset_partitionShuffle: "mset (partitionShuffle pref rs i g) = mset g"
  using mset_filter_split [of "\<lambda>a. a_Type a = AccountTypeOAuth" g]
  by (simp add: partitionShuffle_def Let_def)

text \<open>OAuth accounts come first when they are preferred.\<close>

definition oauthFirst :: "bool \<Rightarrow> Account \<Rightarrow> Account \<Rightarrow> bool" where
  "oauthFirst pref a b \<longleftrightarrow>
     (pref \<and> a_Type b = AccountTypeOAuth \<longrightarrow> a_Type a = AccountTypeOAuth)"

lemma sorted_partitionShuffle: "sorted_wrt (oauthFirst pref) (partitionShuffle pref rs i g)"
proof -
  have all: "sorted_wrt (oauthFirst pref) ys"
    if "\<not> pref \<or> (\<forall>a \<in> set ys. a_Type a = AccountTypeOAuth) \<or> (\<forall>a \<in> set ys. a_Type a \<noteq> AccountTypeOAuth)"
    for ys
    by (rule sorted_wrt_mono_rel [of _ "\<lambda>_ _. True"])
      (use that in \<open>auto simp: oauthFirst_def sorted_wrt_iff_nth_less\<close>)
  show ?thesis
  proof (cases pref)
    case True
    let ?o = "filter (\<lambda>a. a_Type a = AccountTypeOAuth) g"
    let ?t = "filter (\<lambda>a. a_Type a \<noteq> AccountTypeOAuth) g"
    have "sorted_wrt (oauthFirst pref) (if length ?o > 1 then rand_Shuffle (rs i) ?o else ?o)"
      "sorted_wrt (oauthFirst pref) (if length ?t > 1 then rand_Shuffle (rs (Suc i)) ?t else ?t)"
      by (rule all, simp)+
    with True show ?thesis
      by (auto simp: partitionShuffle_def Let_def sorted_wrt_append oauthFirst_def)
  next
    case False
    then show ?thesis by (intro all) simp
  qed
qed

section \<open>The comparison closures are strict weak orders\<close>

definition sort_key :: "bool \<Rightarrow> Account \<Rightarrow> int \<times> (int \<times> int) \<times> int" where
  "sort_key pref a =
     (a_Priority a, lu_key (a_LastUsedAt a),
      if pref \<and> a_LastUsedAt a = None \<and> a_Type a \<noteq> AccountTypeOAuth then 1 else 0)"

lemma lessPriorityAndLastUsed_key:
  "lessPriorityAndLastUsed pref a b \<longleftrightarrow> sort_key pref a < sort_key pref b"
  by (cases "a_LastUsedAt a"; cases "a_LastUsedAt b")
    (auto simp: lessPriorityAndLastUsed_def sort_key_def lu_key_def)

lemma lessPriorityOnly_key:
  "lessPriorityOnly pref a b \<longleftrightarrow>
     (a_Priority a, if pref \<and> a_Type a \<noteq> AccountTypeOAuth then 1 else 0 :: int) <
     (a_Priority b, if pref \<and> a_Type b \<noteq> AccountTypeOAuth then 1 else 0)"
  by (auto simp: lessPriorityOnly_def)

lemma lessByLoad_key: "lessByLoad a b \<longleftrightarrow> awl_rank a < awl_rank b"
  by (cases "a_LastUsedAt (awl_account a)"; cases "a_LastUsedAt (awl_account b)")
    (auto simp: lessByLoad_def awl_rank_def lu_key_def)

interpretation by_last_used: strict_weak "lessPriorityAndLastUsed pref" for pref
  unfolding lessPriorityAndLastUsed_key [abs_def] by (rule strict_weak_key)

interpretation by_priority: strict_weak "lessPriorityOnly pref" for pref
  unfolding lessPriorityOnly_key [abs_def] by (rule strict_weak_key)

interpretation by_load: strict_weak lessByLoad
  unfolding lessByLoad_key [abs_def] by (rule strict_weak_key)

text \<open>The keys of the groups: times of last use count in whole seconds.\<close>

definition sec_key :: "gotime option \<Rightarrow> int \<times> int" where
  "sec_key u = (case u of None \<Rightarrow> (0, 0) | Some t \<Rightarrow> (1, time_Unix t))"

lemma sec_key_mono: "lu_key u \<le> lu_key v \<Longrightarrow> sec_key u \<le> sec_key v"
  by (auto simp: lu_key_def sec_key_def time_Unix_def zdiv_mono1 split: option.splits)

lemma sameLastUsedAt_key: "sameLastUsedAt u v \<longleftrightarrow> sec_key u = sec_key v"
  by (auto simp: sameLastUsedAt_def sec_key_def split: option.splits)

definition group_key :: "Account \<Rightarrow> int \<times> int \<times> int" where
  "group_key a = (a_Priority a, sec_key (a_LastUsedAt a))"

definition load_group_key :: "accountWithLoad \<Rightarrow> int \<times> int \<times> int \<times> int" where
  "load_group_key a = (a_Priority (awl_account a), awl_LoadRate a, sec_key (awl_lu a))"

lemma sameAccountGroup_key: "sameAccountGroup a b \<longleftrightarrow> group_key a = group_key b"
  by (auto simp: sameAccountGroup_def group_key_def sameLastUsedAt_key)

lemma sameAccountWithLoadGroup_key:
  "sameAccountWithLoadGroup a b \<longleftrightarrow> load_group_key a = load_group_key b"
  by (auto simp: sameAccountWithLoadGroup_def load_group_key_def sameLastUsedAt_key)

lemma sort_key_group: "sort_key pref a \<le> sort_key pref b \<Longrightarrow> group_key a \<le> group_key b"
  using sec_key_mono [of "a_LastUsedAt a" "a_LastUsedAt b"]
  by (auto simp: sort_key_def group_key_def)

lemma awl_rank_group: "awl_rank a \<le> awl_rank b \<Longrightarrow> load_group_key a \<le> load_group_key b"
  using sec_key_mono [of "awl_lu a" "awl_lu b"]
  by (auto simp: awl_rank_def load_group_key_def)

section \<open>Properties\<close>

lemma sorted_short: "length xs \<le> 1 \<Longrightarrow> sorted_wrt R xs"
  by (cases xs) auto

lemma last_used_order:
  "mset (sortAccountsByPriorityAndLastUsed rs xs pref) = mset xs"
  "sorted_wrt (\<lambda>a b. group_key a < group_key b \<or> group_key a = group_key b \<and> oauthFirst pref a b)
     (sortAccountsByPriorityAndLastUsed rs xs pref)"
proof -
  let ?s = "sort_SliceStable (lessPriorityAndLastUsed pref) xs"
  show "mset (sortAccountsByPriorityAndLastUsed rs xs pref) = mset xs"
    by (simp add: sortAccountsByPriorityAndLastUsed_def shuffleWithinPriorityAndLastUsed_def
        mset_shuffle_groups mset_partitionShuffle)
  have "sorted_wrt (\<lambda>a b. group_key a \<le> group_key b) ?s"
    by (rule sorted_wrt_mono_rel [OF _ by_last_used.sorted_sort])
      (simp add: lessPriorityAndLastUsed_key not_less sort_key_group)
  then have "sorted_wrt (\<lambda>a b. group_key a < group_key b \<or> group_key a = group_key b \<and> oauthFirst pref a b)
      (shuffle_groups sameAccountGroup (partitionShuffle pref rs) 0 ?s)"
    by (intro sorted_shuffle_groups mset_partitionShuffle sameAccountGroup_key sorted_partitionShuffle)
  then show "sorted_wrt (\<lambda>a b. group_key a < group_key b \<or> group_key a = group_key b \<and> oauthFirst pref a b)
      (sortAccountsByPriorityAndLastUsed rs xs pref)"
    using sorted_short [of ?s]
    by (simp add: sortAccountsByPriorityAndLastUsed_def shuffleWithinPriorityAndLastUsed_def)
qed

lemma random_order:
  "mset (shuffleWithinPriority rs (sortAccountsByPriorityOnly xs pref)) = mset xs"
  "sorted_wrt (\<lambda>a b. a_Priority a \<le> a_Priority b)
     (shuffleWithinPriority rs (sortAccountsByPriorityOnly xs pref))"
proof -
  let ?s = "sort_SliceStable (lessPriorityOnly pref) xs"
  let ?same = "\<lambda>a b. a_Priority b = a_Priority a"
  show "mset (shuffleWithinPriority rs (sortAccountsByPriorityOnly xs pref)) = mset xs"
    by (simp add: shuffleWithinPriority_def sortAccountsByPriorityOnly_def mset_shuffle_groups)
  have "sorted_wrt (\<lambda>a b. a_Priority a \<le> a_Priority b) ?s"
    by (rule sorted_wrt_mono_rel [OF _ by_priority.sorted_sort])
      (auto simp: lessPriorityOnly_def split: if_splits)
  then have "sorted_wrt (\<lambda>a b. a_Priority a < a_Priority b \<or> a_Priority a = a_Priority b \<and> True)
      (shuffle_groups ?same (\<lambda>i. rand_Shuffle (rs i)) 0 ?s)"
    by (intro sorted_shuffle_groups) (auto simp: sorted_wrt_iff_nth_less)
  then have "sorted_wrt (\<lambda>a b. a_Priority a \<le> a_Priority b)
      (shuffle_groups ?same (\<lambda>i. rand_Shuffle (rs i)) 0 ?s)"
    by (rule sorted_wrt_mono_rel [rotated]) auto
  then show "sorted_wrt (\<lambda>a b. a_Priority a \<le> a_Priority b)
      (shuffleWithinPriority rs (sortAccountsByPriorityOnly xs pref))"
    using sorted_short [of ?s]
    by (simp add: shuffleWithinPriority_def sortAccountsByPriorityOnly_def)
qed

text \<open>
  The fallback order, for every outcome of the shuffles: it is a
  permutation of the candidates sorted by priority. Outside the random mode it is also sorted by
  the second of last use within a priority, accounts never used first, and among equals the
  OAuth accounts lead when they are preferred: the shuffles only break ties.
\<close>

theorem fallback_order:
  "let ys = sortCandidatesForFallback rs xs preferOAuth mode in
   mset ys = mset xs \<and> sorted_wrt (\<lambda>a b. a_Priority a \<le> a_Priority b) ys \<and>
   (mode = ''random'' \<or>
    sorted_wrt (\<lambda>a b. group_key a < group_key b \<or>
       group_key a = group_key b \<and> oauthFirst preferOAuth a b) ys)"
proof (cases "mode = ''random''")
  case True
  then show ?thesis
    using random_order [where rs = rs and xs = xs and pref = preferOAuth] by (simp add: sortCandidatesForFallback_def Let_def)
next
  case False
  have "sorted_wrt (\<lambda>a b. a_Priority a \<le> a_Priority b)
      (sortAccountsByPriorityAndLastUsed rs xs preferOAuth)"
    by (rule sorted_wrt_mono_rel [OF _ last_used_order(2)]) (auto simp: group_key_def)
  then show ?thesis
    using False last_used_order [where rs = rs and xs = xs and pref = preferOAuth]
    by (simp add: sortCandidatesForFallback_def Let_def)
qed

text \<open>
  In the random mode the OAuth preference is lost: the sort puts OAuth
  accounts first, but the shuffle that follows treats the whole priority as one group, so an
  API-key account can come before an OAuth account of the same priority although OAuth accounts
  are preferred.
\<close>

theorem random_fallback_loses_preference:
  "\<exists>rs a b. a_Priority a = a_Priority b \<and> a_Type a = AccountTypeOAuth \<and>
     a_Type b \<noteq> AccountTypeOAuth \<and>
     sortCandidatesForFallback rs [a, b] True ''random'' = [b, a]"
proof (intro exI conjI)
  let ?a = "example_account \<lparr> a_Type := ''oauth'' \<rparr>" and ?b = example_account
  show "a_Priority ?a = a_Priority ?b" by simp
  show "a_Type ?a = AccountTypeOAuth" by simp
  show "a_Type ?b \<noteq> AccountTypeOAuth" by (simp add: example_account_def)
  show "sortCandidatesForFallback (\<lambda>_ _. 0) [?a, ?b] True ''random'' = [?b, ?a]"
    by (simp add: sortCandidatesForFallback_def sortAccountsByPriorityOnly_def sort_SliceStable_def
        lessPriorityOnly_def shuffleWithinPriority_def rand_Shuffle_def swap_at_def Let_def)
qed

text \<open>
  The order in which routed candidates are tried is a permutation of
  them, sorted by priority, then load, then the second of last use, whatever the shuffles draw.
\<close>

theorem routed_order:
  "mset (orderRoutedCandidates rs xs) = mset xs \<and>
   sorted_wrt (\<lambda>a b. load_group_key a \<le> load_group_key b) (orderRoutedCandidates rs xs)"
proof
  let ?s = "sort_SliceStable lessByLoad xs"
  show "mset (orderRoutedCandidates rs xs) = mset xs"
    by (simp add: orderRoutedCandidates_def shuffleWithinSortGroups_def mset_shuffle_groups)
  have "sorted_wrt (\<lambda>a b. load_group_key a \<le> load_group_key b) ?s"
    by (rule sorted_wrt_mono_rel [OF _ by_load.sorted_sort])
      (simp add: lessByLoad_key not_less awl_rank_group)
  then have "sorted_wrt (\<lambda>a b. load_group_key a < load_group_key b \<or>
      load_group_key a = load_group_key b \<and> True)
      (shuffle_groups sameAccountWithLoadGroup (\<lambda>i. rand_Shuffle (rs i)) 0 ?s)"
    by (intro sorted_shuffle_groups sameAccountWithLoadGroup_key) (auto simp: sorted_wrt_iff_nth_less)
  then have "sorted_wrt (\<lambda>a b. load_group_key a \<le> load_group_key b)
      (shuffle_groups sameAccountWithLoadGroup (\<lambda>i. rand_Shuffle (rs i)) 0 ?s)"
    by (rule sorted_wrt_mono_rel [rotated]) auto
  then show "sorted_wrt (\<lambda>a b. load_group_key a \<le> load_group_key b) (orderRoutedCandidates rs xs)"
    using sorted_short [of ?s]
    by (simp add: orderRoutedCandidates_def shuffleWithinSortGroups_def)
qed

text \<open>
  Property C23 (functional). The layered selection tries the accounts in the order of preference and returns the
  first one it can use. Take the accounts it tried in vain, in order. Each of them, and the account it returns, was
  preferred at the time of its attempt to every account not tried before it: by priority, then (only where
  \<open>PreferSoonestReset\<close> is set) by the session window that is open and ends first, then by load, then by least
  recent use, then OAuth accounts first where they are preferred. Those tried in vain were not usable at their attempt
  and the one returned was usable at its own; no account is returned exactly when all were tried in vain. Whether
  an account is usable may change from attempt to attempt. This holds for every sequence of random draws and
  clock readings; the available accounts have distinct IDs.
\<close>

theorem layered_selection_optimal:
  assumes "distinct (map (\<lambda>a. a_ID (awl_account a)) available)"
    and "rank = (\<lambda>n. pick_rank soonest preferOAuth (clock n))"
  shows "\<exists>tried. (\<forall>i < length tried. \<not> usable i (awl_account (tried ! i))) \<and>
    (case layeredSelect soonest preferOAuth usable clock draws 0 available of
       None \<Rightarrow> greedy rank 0 tried (set available) \<and> set tried = set available
     | Some a \<Rightarrow> greedy rank 0 (tried @ [a]) (set available) \<and> usable (length tried) (awl_account a))"
  using layeredSelect_trace [OF assms, of usable 0 draws] by (simp only: add_0)

definition example_window_account :: accountWithLoad where
  "example_window_account = \<lparr> awl_account = example_account \<lparr> a_ID := 8, a_SessionWindowEnd := Some 9 \<rparr>, awl_LoadRate = 90 \<rparr>"

text \<open>With \<open>PreferSoonestReset\<close> the account whose window is open comes first, in spite of its load.\<close>

theorem layered_selection_optimal_witness:
  "let x = \<lparr> awl_account = example_account, awl_LoadRate = 10 \<rparr>; y = example_window_account in
   layeredSelect True True (\<lambda>n _. n = 0) (\<lambda>_. 1) (\<lambda>_. 0) 0 [x, y] = Some y \<and>
   pick_rank True True 1 y \<le> pick_rank True True 1 x"
proof -
  let ?x = "\<lparr> awl_account = example_account, awl_LoadRate = 10 \<rparr>" and ?y = example_window_account
  have ids: "distinct (map (\<lambda>a. a_ID (awl_account a)) [?x, ?y])"
    by (simp add: example_account_def example_window_account_def)
  have run: "layeredSelect True True (\<lambda>n _. n = 0) (\<lambda>_. 1) (\<lambda>_. 0) 0 [?x, ?y] = Some ?y" by code_simp
  show ?thesis
    using layered_selection_optimal [OF ids refl, where soonest = True and preferOAuth = True and clock = "\<lambda>_. 1"
        and usable = "\<lambda>n _. n = 0" and draws = "\<lambda>_. 0"] run by (auto simp: Let_def)
qed

end
