(* ===== verification/Redis.thy ===== *)
theory Redis
  imports Main "HOL-Library.Finite_Map" "HOL-Library.List_Lexorder" "HOL-Library.Char_ord"
begin

text \<open>
  The Redis commands the repositories use, as an interface. The server is not part of the
  repository, so it is a parameter: a record \<open>redis_api\<close> of the commands over an abstract
  database, passed to every operation that issues them. What the code relies on is the locale
  \<open>redis_server\<close>: seen through \<open>view\<close>, each command has the effect and the reply its
  documentation gives.

  A database holds sorted sets (member to score) and counters under string keys, and an expiry
  deadline in server seconds for keys that have one. \<open>AT t\<close> is the passing of time up to the
  second \<open>t\<close>: keys whose deadline has passed are gone, and a key whose deadline is this very
  second may or may not be.
\<close>

record rview =
  rv_z :: "string \<Rightarrow> (string, int) fmap"
  rv_c :: "string \<Rightarrow> int option"
  rv_d :: "string \<Rightarrow> int option"

record 'r redis_api =
  AT :: "int \<Rightarrow> 'r \<Rightarrow> 'r"
  ZADD :: "string \<Rightarrow> int \<Rightarrow> string \<Rightarrow> 'r \<Rightarrow> 'r"
  ZREM :: "string \<Rightarrow> string \<Rightarrow> 'r \<Rightarrow> 'r \<times> int"
  ZREMRANGEBYSCORE :: "string \<Rightarrow> int \<Rightarrow> 'r \<Rightarrow> 'r" \<comment> \<open>from \<open>-inf\<close> to the given score\<close>
  ZSCORE :: "string \<Rightarrow> string \<Rightarrow> 'r \<Rightarrow> int option"
  ZCARD :: "string \<Rightarrow> 'r \<Rightarrow> int"
  ZRANGE :: "string \<Rightarrow> 'r \<Rightarrow> string list" \<comment> \<open>\<open>0 -1\<close>: all members\<close>
  ZRANGEBYSCORE :: "string \<Rightarrow> int \<Rightarrow> nat \<Rightarrow> 'r \<Rightarrow> string list" \<comment> \<open>\<open>-inf\<close> to a score, with a count\<close>
  GET :: "string \<Rightarrow> 'r \<Rightarrow> int option"
  INCR :: "string \<Rightarrow> 'r \<Rightarrow> 'r"
  DECR :: "string \<Rightarrow> 'r \<Rightarrow> 'r"
  DEL :: "string \<Rightarrow> 'r \<Rightarrow> 'r"
  EXPIRE :: "string \<Rightarrow> int \<Rightarrow> int \<Rightarrow> 'r \<Rightarrow> 'r" \<comment> \<open>key, current second, seconds to live\<close>

section \<open>Documented behaviour\<close>

definition doc_exists :: "string \<Rightarrow> rview \<Rightarrow> bool" where
  "doc_exists k v \<longleftrightarrow> rv_z v k \<noteq> fmempty \<or> rv_c v k \<noteq> None"

definition doc_DEL :: "string \<Rightarrow> rview \<Rightarrow> rview" where
  "doc_DEL k v = v \<lparr> rv_z := (rv_z v)(k := fmempty), rv_c := (rv_c v)(k := None),
     rv_d := (rv_d v)(k := None) \<rparr>"

text \<open>A key whose last member is removed is deleted with its deadline.\<close>

definition set_members :: "string \<Rightarrow> (string, int) fmap \<Rightarrow> rview \<Rightarrow> rview" where
  "set_members k z v = v \<lparr> rv_z := (rv_z v)(k := z),
     rv_d := (if z = fmempty then (rv_d v)(k := None) else rv_d v) \<rparr>"

definition doc_ZADD :: "string \<Rightarrow> int \<Rightarrow> string \<Rightarrow> rview \<Rightarrow> rview" where
  "doc_ZADD k s m v = set_members k (fmupd m s (rv_z v k)) v"

definition doc_ZREM :: "string \<Rightarrow> string \<Rightarrow> rview \<Rightarrow> rview \<times> int" where
  "doc_ZREM k m v = (set_members k (fmdrop m (rv_z v k)) v, if m |\<in>| fmdom (rv_z v k) then 1 else 0)"

definition above :: "int \<Rightarrow> (string, int) fmap \<Rightarrow> (string, int) fmap" where
  "above mx z = fmfilter (\<lambda>m. case fmlookup z m of None \<Rightarrow> False | Some s \<Rightarrow> s > mx) z"

definition doc_ZREMRANGEBYSCORE :: "string \<Rightarrow> int \<Rightarrow> rview \<Rightarrow> rview" where
  "doc_ZREMRANGEBYSCORE k mx v = set_members k (above mx (rv_z v k)) v"

definition doc_ZCARD :: "string \<Rightarrow> rview \<Rightarrow> int" where
  "doc_ZCARD k v = int (fcard (fmdom (rv_z v k)))"

definition doc_INCR :: "string \<Rightarrow> rview \<Rightarrow> rview" where
  "doc_INCR k v = v \<lparr> rv_c := (rv_c v)(k \<mapsto> (case rv_c v k of None \<Rightarrow> 1 | Some n \<Rightarrow> n + 1)) \<rparr>"

definition doc_DECR :: "string \<Rightarrow> rview \<Rightarrow> rview" where
  "doc_DECR k v = v \<lparr> rv_c := (rv_c v)(k \<mapsto> (case rv_c v k of None \<Rightarrow> - 1 | Some n \<Rightarrow> n - 1)) \<rparr>"

definition doc_EXPIRE :: "string \<Rightarrow> int \<Rightarrow> int \<Rightarrow> rview \<Rightarrow> rview" where
  "doc_EXPIRE k now ttl v =
     (if \<not> doc_exists k v then v
      else if ttl \<le> 0 then doc_DEL k v
      else v \<lparr> rv_d := (rv_d v)(k \<mapsto> now + ttl) \<rparr>)"

definition drop_keys :: "(string \<Rightarrow> bool) \<Rightarrow> rview \<Rightarrow> rview" where
  "drop_keys E v = v \<lparr> rv_z := (\<lambda>k. if E k then fmempty else rv_z v k),
     rv_c := (\<lambda>k. if E k then None else rv_c v k),
     rv_d := (\<lambda>k. if E k then None else rv_d v k) \<rparr>"

definition due :: "int \<Rightarrow> rview \<Rightarrow> string \<Rightarrow> bool" where
  "due t v k = (case rv_d v k of None \<Rightarrow> False | Some d \<Rightarrow> d \<le> t)"

definition expiry_choice :: "int \<Rightarrow> rview \<Rightarrow> (string \<Rightarrow> bool) \<Rightarrow> bool" where
  "expiry_choice t v E \<longleftrightarrow> (\<forall>k. (due (t - 1) v k \<longrightarrow> E k) \<and> (E k \<longrightarrow> due t v k))"

section \<open>The server's contract\<close>

locale redis_server =
  fixes R :: "'r redis_api" and view :: "'r \<Rightarrow> rview"
  assumes at: "\<exists>E. expiry_choice t (view r) E \<and> view (AT R t r) = drop_keys E (view r)"
    and zadd: "view (ZADD R k s m r) = doc_ZADD k s m (view r)"
    and zrem: "view (fst (ZREM R k m r)) = fst (doc_ZREM k m (view r))"
      "snd (ZREM R k m r) = snd (doc_ZREM k m (view r))"
    and zremrangebyscore: "view (ZREMRANGEBYSCORE R k mx r) = doc_ZREMRANGEBYSCORE k mx (view r)"
    and zscore: "ZSCORE R k m r = fmlookup (rv_z (view r) k) m"
    and zcard: "ZCARD R k r = doc_ZCARD k (view r)"
    and zrange: "set (ZRANGE R k r) = fset (fmdom (rv_z (view r) k))" "distinct (ZRANGE R k r)"
    and zrangebyscore:
      "set (ZRANGEBYSCORE R k mx n r) \<subseteq> {m. \<exists>s. fmlookup (rv_z (view r) k) m = Some s \<and> s \<le> mx}"
    and get: "GET R k r = rv_c (view r) k"
    and incr: "view (INCR R k r) = doc_INCR k (view r)"
    and decr: "view (DECR R k r) = doc_DECR k (view r)"
    and del: "view (DEL R k r) = doc_DEL k (view r)"
    and expire: "view (EXPIRE R k now ttl r) = doc_EXPIRE k now ttl (view r)"

text \<open>A server that keeps the documented view itself: the contract can be met.\<close>

definition mem_redis :: "rview redis_api" where
  "mem_redis =
     \<lparr> AT = (\<lambda>t v. drop_keys (due t v) v),
       ZADD = doc_ZADD,
       ZREM = doc_ZREM,
       ZREMRANGEBYSCORE = doc_ZREMRANGEBYSCORE,
       ZSCORE = (\<lambda>k m v. fmlookup (rv_z v k) m),
       ZCARD = doc_ZCARD,
       ZRANGE = (\<lambda>k v. sorted_list_of_fset (fmdom (rv_z v k))),
       ZRANGEBYSCORE = (\<lambda>k mx n v. take n (filter (\<lambda>m. the (fmlookup (rv_z v k) m) \<le> mx)
         (sorted_list_of_fset (fmdom (rv_z v k))))),
       GET = (\<lambda>k v. rv_c v k),
       INCR = doc_INCR,
       DECR = doc_DECR,
       DEL = doc_DEL,
       EXPIRE = doc_EXPIRE \<rparr>"

interpretation mem: redis_server mem_redis "\<lambda>v. v"
proof
  show "\<exists>E. expiry_choice t r E \<and> AT mem_redis t r = drop_keys E r" for t r
    by (rule exI [of _ "due t r"])
      (auto simp: mem_redis_def expiry_choice_def due_def split: option.splits)
  show "set (ZRANGEBYSCORE mem_redis k mx n r) \<subseteq>
      {m. \<exists>s. fmlookup (rv_z r k) m = Some s \<and> s \<le> mx}" for k mx n r
    by (auto simp: mem_redis_def fmlookup_dom_iff dest!: in_set_takeD)
qed (simp_all add: mem_redis_def sorted_list_of_fset.rep_eq)

section \<open>Lemmas on the documented behaviour\<close>

lemma rv_z_set_members [simp]: "rv_z (set_members k z v) = (rv_z v)(k := z)"
  by (simp add: set_members_def)

lemma rv_c_set_members [simp]: "rv_c (set_members k z v) = rv_c v"
  by (simp add: set_members_def)

lemma rv_z_EXPIRE [simp]: "0 < ttl \<Longrightarrow> rv_z (doc_EXPIRE k now ttl v) = rv_z v"
  by (simp add: doc_EXPIRE_def)

lemma rv_c_EXPIRE [simp]: "0 < ttl \<Longrightarrow> rv_c (doc_EXPIRE k now ttl v) = rv_c v"
  by (simp add: doc_EXPIRE_def)

lemma rv_z_ZADD [simp]: "rv_z (doc_ZADD k s m v) = (rv_z v)(k := fmupd m s (rv_z v k))"
  by (simp add: doc_ZADD_def)

lemma rv_z_ZREM [simp]: "rv_z (fst (doc_ZREM k m v)) = (rv_z v)(k := fmdrop m (rv_z v k))"
  by (simp add: doc_ZREM_def)

lemma rv_z_ZREMRANGEBYSCORE [simp]:
  "rv_z (doc_ZREMRANGEBYSCORE k mx v) = (rv_z v)(k := above mx (rv_z v k))"
  by (simp add: doc_ZREMRANGEBYSCORE_def)

lemma fmlookup_above [simp]:
  "fmlookup (above mx z) m = (case fmlookup z m of None \<Rightarrow> None | Some s \<Rightarrow> if s > mx then Some s else None)"
  by (auto simp: above_def split: option.splits)

lemma fmdom_above_subset: "fmdom (above mx z) |\<subseteq>| fmdom z"
  by (auto simp: above_def)

lemma fcard_above_le [simp]: "fcard (fmdom (above mx z)) \<le> fcard (fmdom z)"
  by (rule fcard_mono) (rule fmdom_above_subset)

lemma fcard_fmdrop_le [simp]: "fcard (fmdom (fmdrop m z)) \<le> fcard (fmdom z)"
  by (rule fcard_mono) auto

lemma fcard_fmupd: "fcard (fmdom (fmupd m s z)) =
    (if m |\<in>| fmdom z then fcard (fmdom z) else Suc (fcard (fmdom z)))"
  by (simp add: fcard_finsert_if)

lemma fcard_fmdrop: "m |\<in>| fmdom z \<Longrightarrow> fcard (fmdom (fmdrop m z)) = fcard (fmdom z) - 1"
  by (simp add: fcard.rep_eq card_Diff_singleton_if)

end
