(* ===== verification/Slot_Limiter.thy ===== *)
theory Slot_Limiter
  imports Main
begin

text \<open>
  The contract between the concurrency cache and its clients: a limiter hands out slots that are
  held until they are released or their time to live is over. The lemmas of the locale speak
  about every sequence of operations issued by any number of gateway processes, in the order in
  which the server executes them.
\<close>

datatype limiter_event =
    Acquire int int string \<comment> \<open>time, limit, request\<close>
  | Release int string

primrec event_time :: "limiter_event \<Rightarrow> int" where
  "event_time (Acquire t mx q) = t"
| "event_time (Release t q) = t"

primrec limiter_apply ::
  "(int \<Rightarrow> int \<Rightarrow> string \<Rightarrow> 's \<Rightarrow> 's \<times> bool) \<Rightarrow> (int \<Rightarrow> string \<Rightarrow> 's \<Rightarrow> 's) \<Rightarrow>
   limiter_event \<Rightarrow> 's \<Rightarrow> 's" where
  "limiter_apply acquire release (Acquire t mx q) s = fst (acquire t mx q s)"
| "limiter_apply acquire release (Release t q) s = release t q s"

definition limiter_run ::
  "(int \<Rightarrow> int \<Rightarrow> string \<Rightarrow> 's \<Rightarrow> 's \<times> bool) \<Rightarrow> (int \<Rightarrow> string \<Rightarrow> 's \<Rightarrow> 's) \<Rightarrow>
   limiter_event list \<Rightarrow> 's \<Rightarrow> 's" where
  "limiter_run acquire release es s = fold (limiter_apply acquire release) es s"

text \<open>Events in time order from \<open>t\<close> on, with limits of at most \<open>M\<close>.\<close>

fun timed :: "int \<Rightarrow> limiter_event list \<Rightarrow> int \<Rightarrow> bool" where
  "timed t [] t' \<longleftrightarrow> t \<le> t'"
| "timed t (e # es) t' \<longleftrightarrow> t \<le> event_time e \<and> timed (event_time e) es t'"

primrec limit_within :: "int \<Rightarrow> limiter_event \<Rightarrow> bool" where
  "limit_within M (Acquire t mx q) \<longleftrightarrow> mx \<le> M"
| "limit_within M (Release t q) \<longleftrightarrow> True"

primrec releases :: "string \<Rightarrow> limiter_event \<Rightarrow> bool" where
  "releases q (Acquire t mx q') \<longleftrightarrow> False"
| "releases q (Release t q') \<longleftrightarrow> q' = q"

lemma timed_le: "timed t es t' \<Longrightarrow> t \<le> t'"
  by (induction es arbitrary: t) force+

locale slot_limiter =
  fixes inv :: "int \<Rightarrow> 's \<Rightarrow> bool"
    and held :: "int \<Rightarrow> 's \<Rightarrow> 'h set"
    and slot :: "string \<Rightarrow> 'h"
    and ttl :: int
    and acquire :: "int \<Rightarrow> int \<Rightarrow> string \<Rightarrow> 's \<Rightarrow> 's \<times> bool"
    and release :: "int \<Rightarrow> string \<Rightarrow> 's \<Rightarrow> 's"
  assumes ttl_pos: "0 < ttl"
    and slot_inj: "slot q = slot q' \<Longrightarrow> q = q'"
    and held_finite: "finite (held t s)"
    and held_later: "t \<le> t' \<Longrightarrow> held t' s \<subseteq> held t s"
    and inv_later: "inv t s \<Longrightarrow> t \<le> t' \<Longrightarrow> inv t' s"
    and inv_acquire: "inv t s \<Longrightarrow> inv t (fst (acquire t mx q s))"
    and inv_release: "inv t s \<Longrightarrow> inv t (release t q s)"
    and granted: "inv t s \<Longrightarrow>
      snd (acquire t mx q s) \<longleftrightarrow> slot q \<in> held t s \<or> int (card (held t s)) < mx"
    and held_granted: "inv t s \<Longrightarrow> snd (acquire t mx q s) \<Longrightarrow> t \<le> t' \<Longrightarrow>
      held t' (fst (acquire t mx q s)) =
        (if t' < t + ttl then insert (slot q) (held t' s) else held t' s)"
    and held_refused: "inv t s \<Longrightarrow> \<not> snd (acquire t mx q s) \<Longrightarrow> t \<le> t' \<Longrightarrow>
      held t' (fst (acquire t mx q s)) = held t' s"
    and held_release: "inv t s \<Longrightarrow> t \<le> t' \<Longrightarrow> held t' (release t q s) = held t' s - {slot q}"
begin

lemma apply_inv:
  "inv t s \<Longrightarrow> t \<le> event_time e \<Longrightarrow> inv (event_time e) (limiter_apply acquire release e s)"
  by (cases e) (auto intro: inv_acquire inv_release inv_later)

lemma acquire_bound:
  assumes "inv t s" and "int (card (held t s)) \<le> M" and "mx \<le> M"
  shows "int (card (held t (fst (acquire t mx q s)))) \<le> M"
proof (cases "snd (acquire t mx q s)")
  case False
  then show ?thesis using held_refused [OF assms(1) False] assms(2) by simp
next
  case True
  have "held t (fst (acquire t mx q s)) = insert (slot q) (held t s)"
    using held_granted [OF assms(1) True] ttl_pos by simp
  moreover have "slot q \<in> held t s \<or> int (card (held t s)) < mx"
    using granted [OF assms(1)] True by blast
  ultimately show ?thesis
    using assms(2,3) by (auto simp: card_insert_if held_finite insert_absorb)
qed

lemma apply_bound:
  assumes "inv t s" and "t \<le> event_time e" and "int (card (held t s)) \<le> M" and "limit_within M e"
  shows "int (card (held (event_time e) (limiter_apply acquire release e s))) \<le> M"
proof -
  have i: "inv (event_time e) s"
    using assms inv_later by blast
  have "card (held (event_time e) s) \<le> card (held t s)"
    using card_mono [OF held_finite held_later [OF assms(2)]] .
  then have m: "int (card (held (event_time e) s)) \<le> M"
    using assms(3) by linarith
  show ?thesis
  proof (cases e)
    case (Acquire t1 mx q)
    then show ?thesis using acquire_bound i m assms(4) by simp
  next
    case (Release t1 q)
    have "card (held t1 s - {slot q}) \<le> card (held t1 s)"
      by (rule card_mono) (auto simp: held_finite)
    then show ?thesis
      using held_release [of t1 s t1 q] i m Release by simp
  qed
qed

text \<open>The number of held slots never exceeds the largest limit anybody uses.\<close>

lemma run_bound:
  assumes "inv t s" and "int (card (held t s)) \<le> M" and "timed t es t'" and "list_all (limit_within M) es"
  shows "int (card (held t' (limiter_run acquire release es s))) \<le> M"
  using assms
proof (induction es arbitrary: t s)
  case Nil
  have "card (held t' s) \<le> card (held t s)"
    using Nil.prems(3) by (intro card_mono held_finite held_later) simp
  with Nil.prems(2) show ?case by (simp add: limiter_run_def)
next
  case (Cons e es)
  let ?s = "limiter_apply acquire release e s"
  have "inv (event_time e) ?s" "int (card (held (event_time e) ?s)) \<le> M"
    using Cons.prems apply_inv [of t s e] apply_bound [of t s e M] by simp_all
  then show ?case
    using Cons.IH [of "event_time e" ?s] Cons.prems by (simp add: limiter_run_def)
qed

lemma apply_keeps:
  assumes "inv t s" and "t \<le> event_time e" and "event_time e \<le> t'" and "slot q \<in> held t' s"
    and "\<not> releases q e"
  shows "slot q \<in> held t' (limiter_apply acquire release e s)"
proof (cases e)
  case (Acquire t1 mx q1)
  then have i: "inv t1 s" using assms inv_later by simp
  show ?thesis
    using held_granted [OF i, of mx q1 t'] held_refused [OF i, of mx q1 t'] assms Acquire
    by (cases "snd (acquire t1 mx q1 s)") auto
next
  case (Release t1 q1)
  then have i: "inv t1 s" using assms inv_later by simp
  show ?thesis
    using held_release [OF i, of t' q1] assms Release slot_inj by auto
qed

text \<open>A granted slot is not lost: it is held until it is released or its time is over.\<close>

lemma run_keeps:
  assumes "inv t s" and "timed t es t'" and "slot q \<in> held t' s"
    and "list_all (\<lambda>e. \<not> releases q e) es"
  shows "slot q \<in> held t' (limiter_run acquire release es s)"
  using assms
proof (induction es arbitrary: t s)
  case Nil
  then show ?case by (simp add: limiter_run_def)
next
  case (Cons e es)
  let ?s = "limiter_apply acquire release e s"
  have "event_time e \<le> t'"
    using Cons.prems(2) timed_le by auto
  then have "slot q \<in> held t' ?s" "inv (event_time e) ?s"
    using Cons.prems apply_keeps [of t s e t' q] apply_inv [of t s e] by simp_all
  then show ?case
    using Cons.IH [of "event_time e" ?s] Cons.prems by (simp add: limiter_run_def)
qed

lemma granted_until_release:
  assumes "inv t s" and "snd (acquire t mx q s)" and "timed t es t'" and "t' < t + ttl"
    and "list_all (\<lambda>e. \<not> releases q e) es"
  shows "slot q \<in> held t' (limiter_run acquire release es (fst (acquire t mx q s)))"
proof (rule run_keeps [OF inv_acquire [OF assms(1)] assms(3) _ assms(5)])
  have "t \<le> t'" using assms(3) by (rule timed_le)
  then show "slot q \<in> held t' (fst (acquire t mx q s))"
    using held_granted [OF assms(1,2)] assms(4) by simp
qed

end

end
