(* ===== verification/Concurrency_Cache.thy ===== *)
theory Concurrency_Cache
  imports Redis Slot_Limiter Go_Any
begin

text \<open>
  The distributed concurrency limits (\<open>internal/repository/concurrency_cache.go\<close>): sorted sets
  of request slots per account and per user, leases of live sessions and of client WebSocket
  connections, wait-queue counters, and the index of active accounts and users.

  Redis is the parameter \<open>R\<close> (theory \<open>Redis\<close>). A Lua script is a function of the database and
  of the second \<open>now\<close> it reads with \<open>TIME\<close>; scripts are atomic. A Go operation makes a number
  of round trips; each is a \<open>call\<close>: the second at which the server executes it and whether the
  client sees the reply (\<open>IoOk\<close>), loses it after the execution (\<open>IoLost\<close>) or never reaches
  the server (\<open>IoFail\<close>). A pipeline is one round trip. The nil tests of the receiver and of its
  client are left out: the constructor provides both.
\<close>

section \<open>Round trips\<close>

datatype io = IoOk | IoLost | IoFail

type_synonym call = "int \<times> io"

datatype redisError = RedisError | ParseError

definition roundtrip ::
  "'r redis_api \<Rightarrow> call \<Rightarrow> ('r \<Rightarrow> 'r \<times> 'x) \<Rightarrow> 'r \<Rightarrow> 'r \<times> (redisError + 'x)" where
  "roundtrip R c f r =
     (let r = AT R (fst c) r in
      case snd c of
        IoOk \<Rightarrow> (fst (f r), Inr (snd (f r)))
      | IoLost \<Rightarrow> (fst (f r), Inl RedisError)
      | IoFail \<Rightarrow> (r, Inl RedisError))"

section \<open>Scripts\<close>

definition acquireScript ::
  "'r redis_api \<Rightarrow> string \<Rightarrow> string \<Rightarrow> int \<Rightarrow> int \<Rightarrow> string \<Rightarrow> int \<Rightarrow> 'r \<Rightarrow> 'r \<times> int \<times> int" where
  "acquireScript R key liveKey maxConcurrency ttl requestID now r =
     (let r = ZREMRANGEBYSCORE R key (now - ttl) r;
          r = ZREMRANGEBYSCORE R liveKey (now - 60) r
      in
        if ZSCORE R key requestID r \<noteq> None
        then (EXPIRE R key now ttl (ZADD R key now requestID r), 1, now)
        else if ZCARD R key r + ZCARD R liveKey r < maxConcurrency
        then (EXPIRE R key now ttl (ZADD R key now requestID r), 1, now)
        else (r, 0, now))"

definition getCountScript ::
  "'r redis_api \<Rightarrow> string \<Rightarrow> string \<Rightarrow> int \<Rightarrow> int \<Rightarrow> 'r \<Rightarrow> 'r \<times> int" where
  "getCountScript R key liveKey ttl now r =
     (let r = ZREMRANGEBYSCORE R key (now - ttl) r;
          r = ZREMRANGEBYSCORE R liveKey (now - 60) r
      in (r, ZCARD R key r + ZCARD R liveKey r))"

definition acquireLiveLeaseScript ::
  "'r redis_api \<Rightarrow> string \<Rightarrow> string \<Rightarrow> string \<Rightarrow> string \<Rightarrow> string \<Rightarrow> int \<Rightarrow> int \<Rightarrow> int \<Rightarrow> string
    \<Rightarrow> int \<Rightarrow> int \<Rightarrow> 'r \<Rightarrow> 'r \<times> int" where
  "acquireLiveLeaseScript R accountRegular accountLive userRegular userLive apiLive
     accountMax userMax ttl leaseID replacing now r =
     (let liveExpireBefore = now - ttl;
          r = ZREMRANGEBYSCORE R accountLive liveExpireBefore r;
          r = ZREMRANGEBYSCORE R userLive liveExpireBefore r;
          r = ZREMRANGEBYSCORE R apiLive liveExpireBefore r
      in
        if ZSCORE R accountLive leaseID r \<noteq> None then (r, 1)
        else
          let accountCount = ZCARD R accountRegular r + ZCARD R accountLive r;
              userCount = ZCARD R userRegular r + ZCARD R userLive r;
              allowance = (if replacing = 1 then 1 else 0)
          in
            if accountMax > 0 \<and> accountCount \<ge> accountMax + allowance then (r, 0)
            else if userMax > 0 \<and> userCount \<ge> userMax + allowance then (r, 0)
            else
              let r = ZADD R accountLive now leaseID r;
                  r = ZADD R userLive now leaseID r;
                  r = ZADD R apiLive now leaseID r;
                  r = EXPIRE R accountLive now ttl r;
                  r = EXPIRE R userLive now ttl r;
                  r = EXPIRE R apiLive now ttl r
              in (r, 1))"

text \<open>The first loop of \<open>refreshLiveLeaseScript\<close> stops at the first key without the lease.\<close>

fun checkLease :: "'r redis_api \<Rightarrow> int \<Rightarrow> string \<Rightarrow> string list \<Rightarrow> 'r \<Rightarrow> 'r \<times> bool" where
  "checkLease R expireBefore leaseID [] r = (r, True)"
| "checkLease R expireBefore leaseID (key # keys) r =
     (let r = ZREMRANGEBYSCORE R key expireBefore r in
      if ZSCORE R key leaseID r = None then (r, False) else checkLease R expireBefore leaseID keys r)"

definition refreshLiveLeaseScript ::
  "'r redis_api \<Rightarrow> string list \<Rightarrow> int \<Rightarrow> string \<Rightarrow> int \<Rightarrow> 'r \<Rightarrow> 'r \<times> int" where
  "refreshLiveLeaseScript R keys ttl leaseID now r =
     (case checkLease R (now - ttl) leaseID keys r of
        (r, ok) \<Rightarrow>
          if \<not> ok then (r, 0)
          else (fold (\<lambda>key r. EXPIRE R key now ttl (ZADD R key now leaseID r)) keys r, 1))"

definition trackSlotScript :: "'r redis_api \<Rightarrow> string \<Rightarrow> int \<Rightarrow> string \<Rightarrow> int \<Rightarrow> 'r \<Rightarrow> 'r \<times> int" where
  "trackSlotScript R key ttl requestID now r =
     (let r = ZREMRANGEBYSCORE R key (now - ttl) r
      in (EXPIRE R key now ttl (ZADD R key now requestID r), 1))"

definition acquireOpenAIWSIngressLeaseScript ::
  "'r redis_api \<Rightarrow> string \<Rightarrow> int \<Rightarrow> int \<Rightarrow> string \<Rightarrow> int \<Rightarrow> 'r \<Rightarrow> 'r \<times> int" where
  "acquireOpenAIWSIngressLeaseScript R key maxConnections ttl leaseID now r =
     (let r = ZREMRANGEBYSCORE R key (now - ttl) r in
      if ZSCORE R key leaseID r \<noteq> None
      then (EXPIRE R key now ttl (ZADD R key now leaseID r), 1)
      else if ZCARD R key r < maxConnections
      then (EXPIRE R key now ttl (ZADD R key now leaseID r), 1)
      else (r, 0))"

definition refreshOpenAIWSIngressLeaseScript ::
  "'r redis_api \<Rightarrow> string \<Rightarrow> int \<Rightarrow> string \<Rightarrow> int \<Rightarrow> 'r \<Rightarrow> 'r \<times> int" where
  "refreshOpenAIWSIngressLeaseScript R key ttl leaseID now r =
     (let r = ZREMRANGEBYSCORE R key (now - ttl) r in
      if ZSCORE R key leaseID r = None then (r, 0)
      else (EXPIRE R key now ttl (ZADD R key now leaseID r), 1))"

definition incrementWaitScript :: "'r redis_api \<Rightarrow> string \<Rightarrow> int \<Rightarrow> int \<Rightarrow> int \<Rightarrow> 'r \<Rightarrow> 'r \<times> int \<times> int" where
  "incrementWaitScript R key maxWait ttl now r =
     (let current = (case GET R key r of None \<Rightarrow> 0 | Some n \<Rightarrow> n) in
      if current \<ge> maxWait then (r, 0, now)
      else (EXPIRE R key now ttl (INCR R key r), 1, now))"

text \<open>\<open>incrementAccountWaitScript\<close> has the same text as \<open>incrementWaitScript\<close>.\<close>

definition incrementAccountWaitScript :: "'r redis_api \<Rightarrow> string \<Rightarrow> int \<Rightarrow> int \<Rightarrow> int \<Rightarrow> 'r \<Rightarrow> 'r \<times> int \<times> int" where
  "incrementAccountWaitScript = incrementWaitScript"

definition decrementWaitScript :: "'r redis_api \<Rightarrow> string \<Rightarrow> 'r \<Rightarrow> 'r \<times> int" where
  "decrementWaitScript R key r =
     (case GET R key r of
        None \<Rightarrow> (r, 1)
      | Some n \<Rightarrow> if n > 0 then (DECR R key r, 1) else (r, 1))"

definition cleanupExpiredSlotsScript :: "'r redis_api \<Rightarrow> string \<Rightarrow> int \<Rightarrow> int \<Rightarrow> 'r \<Rightarrow> 'r \<times> int" where
  "cleanupExpiredSlotsScript R key ttl now r =
     (let r = ZREMRANGEBYSCORE R key (now - ttl) r in
      if ZCARD R key r = 0 then (DEL R key r, 1) else (EXPIRE R key now ttl r, 1))"

text \<open>The script sends no \<open>TIME\<close>; \<open>now\<close> is the second at which its \<open>EXPIRE\<close> is executed.\<close>

definition startupCleanupSlotScript ::
  "'r redis_api \<Rightarrow> string \<Rightarrow> string \<Rightarrow> int \<Rightarrow> int \<Rightarrow> 'r \<Rightarrow> 'r \<times> int \<times> int" where
  "startupCleanupSlotScript R key activePrefix slotTTL now r =
     (let (r, removed) =
            fold (\<lambda>member (r, removed).
                if take (length activePrefix) member \<noteq> activePrefix
                then (fst (ZREM R key member r), removed + snd (ZREM R key member r))
                else (r, removed))
              (ZRANGE R key r) (r, 0);
          remaining = ZCARD R key r
      in if remaining = 0 then (DEL R key r, removed, remaining)
         else (EXPIRE R key now slotTTL r, removed, remaining))"

section \<open>Configuration and keys\<close>

record concurrencyCache =
  cc_slotTTLSeconds :: int
  cc_waitQueueTTLSeconds :: int

definition NewConcurrencyCache :: "int \<Rightarrow> int \<Rightarrow> concurrencyCache" where
  "NewConcurrencyCache slotTTLMinutes waitQueueTTLSeconds =
     (let slotTTLMinutes = (if slotTTLMinutes \<le> 0 then 15 else slotTTLMinutes);
          waitQueueTTLSeconds =
            (if waitQueueTTLSeconds \<le> 0 then slotTTLMinutes * 60 else waitQueueTTLSeconds)
      in \<lparr> cc_slotTTLSeconds = slotTTLMinutes * 60, cc_waitQueueTTLSeconds = waitQueueTTLSeconds \<rparr>)"

definition openAIWSIngressLeaseTTLSeconds :: int where
  "openAIWSIngressLeaseTTLSeconds = 60"

definition liveLeaseTTLSeconds :: int where
  "liveLeaseTTLSeconds = 60"

definition accountSlotKey :: "int \<Rightarrow> string" where
  "accountSlotKey n = ''concurrency:account:'' @ strconv_FormatInt n"

definition userSlotKey :: "int \<Rightarrow> string" where
  "userSlotKey n = ''concurrency:user:'' @ strconv_FormatInt n"

definition apiKeySlotKey :: "int \<Rightarrow> string" where
  "apiKeySlotKey n = ''concurrency:api_key:'' @ strconv_FormatInt n"

definition liveAccountSlotKey :: "int \<Rightarrow> string" where
  "liveAccountSlotKey n = ''concurrency:live:account:'' @ strconv_FormatInt n"

definition liveUserSlotKey :: "int \<Rightarrow> string" where
  "liveUserSlotKey n = ''concurrency:live:user:'' @ strconv_FormatInt n"

definition liveAPIKeySlotKey :: "int \<Rightarrow> string" where
  "liveAPIKeySlotKey n = ''concurrency:live:api_key:'' @ strconv_FormatInt n"

definition openAIWSIngressLeaseKey :: "int \<Rightarrow> string" where
  "openAIWSIngressLeaseKey n = ''concurrency:openai_ws_ingress:api_key:'' @ strconv_FormatInt n"

definition waitQueueKey :: "int \<Rightarrow> string" where
  "waitQueueKey n = ''concurrency:wait:'' @ strconv_FormatInt n"

definition accountWaitKey :: "int \<Rightarrow> string" where
  "accountWaitKey n = ''wait:account:'' @ strconv_FormatInt n"

abbreviation "accountActiveIndexKey \<equiv> ''concurrency:account:active_index''"
abbreviation "userActiveIndexKey \<equiv> ''concurrency:user:active_index''"

record slotIndexSpec =
  sis_indexKey :: string
  sis_slotKey :: "int \<Rightarrow> string"
  sis_waitKey :: "int \<Rightarrow> string"

definition accountSlotIndex :: slotIndexSpec where
  "accountSlotIndex = \<lparr> sis_indexKey = accountActiveIndexKey, sis_slotKey = accountSlotKey,
     sis_waitKey = accountWaitKey \<rparr>"

definition userSlotIndex :: slotIndexSpec where
  "userSlotIndex = \<lparr> sis_indexKey = userActiveIndexKey, sis_slotKey = userSlotKey,
     sis_waitKey = waitQueueKey \<rparr>"

section \<open>The active index\<close>

text \<open>Index maintenance is best effort: errors are logged and dropped.\<close>

definition touchActiveIndexAt ::
  "'r redis_api \<Rightarrow> call \<Rightarrow> string \<Rightarrow> int \<Rightarrow> int \<Rightarrow> 'r \<Rightarrow> 'r" where
  "touchActiveIndexAt R c indexKey i expireAt r =
     (if i \<le> 0 \<or> expireAt \<le> 0 then r
      else fst (roundtrip R c (\<lambda>r. (ZADD R indexKey expireAt (strconv_FormatInt i) r, ())) r))"

definition activeIndexTTL :: "concurrencyCache \<Rightarrow> int \<Rightarrow> int \<Rightarrow> int" where
  "activeIndexTTL c slotCount waitCount =
     (let ttlSeconds = (if slotCount > 0 then cc_slotTTLSeconds c else 0)
      in if waitCount > 0 \<and> cc_waitQueueTTLSeconds c > ttlSeconds
         then cc_waitQueueTTLSeconds c else ttlSeconds)"

definition readActiveLoad ::
  "'r redis_api \<Rightarrow> concurrencyCache \<Rightarrow> string \<Rightarrow> string \<Rightarrow> int \<Rightarrow> 'r \<Rightarrow> 'r \<times> int \<times> int" where
  "readActiveLoad R c slotKey waitKey now r =
     (let r = ZREMRANGEBYSCORE R slotKey (now - cc_slotTTLSeconds c) r;
          waitCount = (case GET R waitKey r of None \<Rightarrow> 0 | Some v \<Rightarrow> if v > 0 then v else 0)
      in (r, ZCARD R slotKey r, waitCount))"

text \<open>The three round trips: \<open>TIME\<close>, the pipeline that reads the load, and the index write.\<close>

definition refreshActiveIndex ::
  "'r redis_api \<Rightarrow> concurrencyCache \<Rightarrow> call \<Rightarrow> call \<Rightarrow> call \<Rightarrow> string \<Rightarrow> int \<Rightarrow> string \<Rightarrow> string \<Rightarrow> 'r \<Rightarrow> 'r" where
  "refreshActiveIndex R c c1 c2 c3 indexKey i slotKey waitKey r =
     (if i \<le> 0 then r
      else
        case roundtrip R c1 (\<lambda>r. (r, fst c1)) r of
          (r, Inl _) \<Rightarrow> r
        | (r, Inr now) \<Rightarrow>
            (case roundtrip R c2 (readActiveLoad R c slotKey waitKey now) r of
               (r, Inl _) \<Rightarrow> r
             | (r, Inr (slotCount, waitCount)) \<Rightarrow>
                 if slotCount = 0 \<and> waitCount \<le> 0
                 then fst (roundtrip R c3 (\<lambda>r. (fst (ZREM R indexKey (strconv_FormatInt i) r), ())) r)
                 else
                   let ttlSeconds = activeIndexTTL c slotCount waitCount in
                   if ttlSeconds \<le> 0 then r
                   else touchActiveIndexAt R c3 indexKey i (now + ttlSeconds) r))"

section \<open>Slots of accounts and users\<close>

definition acquireSlot ::
  "'r redis_api \<Rightarrow> concurrencyCache \<Rightarrow> call \<Rightarrow> call \<Rightarrow> string \<Rightarrow> string \<Rightarrow> string \<Rightarrow> int \<Rightarrow> int
    \<Rightarrow> string \<Rightarrow> 'r \<Rightarrow> 'r \<times> (redisError + bool)" where
  "acquireSlot R c c1 c2 indexKey key liveKey i maxConcurrency requestID r =
     (case roundtrip R c1
         (acquireScript R key liveKey maxConcurrency (cc_slotTTLSeconds c) requestID (fst c1)) r of
        (r, Inl e) \<Rightarrow> (r, Inl e)
      | (r, Inr (result, now)) \<Rightarrow>
          (if result = 1
           then touchActiveIndexAt R c2 indexKey i (now + cc_slotTTLSeconds c) r else r,
           Inr (result = 1)))"

definition AcquireAccountSlot ::
  "'r redis_api \<Rightarrow> concurrencyCache \<Rightarrow> call \<Rightarrow> call \<Rightarrow> int \<Rightarrow> int \<Rightarrow> string \<Rightarrow> 'r
    \<Rightarrow> 'r \<times> (redisError + bool)" where
  "AcquireAccountSlot R c c1 c2 accountID maxConcurrency requestID r =
     acquireSlot R c c1 c2 accountActiveIndexKey (accountSlotKey accountID)
       (liveAccountSlotKey accountID) accountID maxConcurrency requestID r"

definition AcquireUserSlot ::
  "'r redis_api \<Rightarrow> concurrencyCache \<Rightarrow> call \<Rightarrow> call \<Rightarrow> int \<Rightarrow> int \<Rightarrow> string \<Rightarrow> 'r
    \<Rightarrow> 'r \<times> (redisError + bool)" where
  "AcquireUserSlot R c c1 c2 userID maxConcurrency requestID r =
     acquireSlot R c c1 c2 userActiveIndexKey (userSlotKey userID)
       (liveUserSlotKey userID) userID maxConcurrency requestID r"

definition releaseSlot ::
  "'r redis_api \<Rightarrow> concurrencyCache \<Rightarrow> call \<Rightarrow> call \<times> call \<times> call \<Rightarrow> string \<Rightarrow> string \<Rightarrow> string
    \<Rightarrow> int \<Rightarrow> string \<Rightarrow> 'r \<Rightarrow> 'r \<times> (redisError + unit)" where
  "releaseSlot R c c1 cs indexKey key waitKey i requestID r =
     (case roundtrip R c1 (\<lambda>r. (fst (ZREM R key requestID r), ())) r of
        (r, Inl e) \<Rightarrow> (r, Inl e)
      | (r, Inr _) \<Rightarrow>
          (case cs of (c2, c3, c4) \<Rightarrow>
             (refreshActiveIndex R c c2 c3 c4 indexKey i key waitKey r, Inr ())))"

definition ReleaseAccountSlot ::
  "'r redis_api \<Rightarrow> concurrencyCache \<Rightarrow> call \<Rightarrow> call \<times> call \<times> call \<Rightarrow> int \<Rightarrow> string \<Rightarrow> 'r
    \<Rightarrow> 'r \<times> (redisError + unit)" where
  "ReleaseAccountSlot R c c1 cs accountID requestID r =
     releaseSlot R c c1 cs accountActiveIndexKey (accountSlotKey accountID)
       (accountWaitKey accountID) accountID requestID r"

definition ReleaseUserSlot ::
  "'r redis_api \<Rightarrow> concurrencyCache \<Rightarrow> call \<Rightarrow> call \<times> call \<times> call \<Rightarrow> int \<Rightarrow> string \<Rightarrow> 'r
    \<Rightarrow> 'r \<times> (redisError + unit)" where
  "ReleaseUserSlot R c c1 cs userID requestID r =
     releaseSlot R c c1 cs userActiveIndexKey (userSlotKey userID) (waitQueueKey userID)
       userID requestID r"

definition GetAccountConcurrency ::
  "'r redis_api \<Rightarrow> concurrencyCache \<Rightarrow> call \<Rightarrow> int \<Rightarrow> 'r \<Rightarrow> 'r \<times> (redisError + int)" where
  "GetAccountConcurrency R c c1 accountID r =
     roundtrip R c1 (getCountScript R (accountSlotKey accountID) (liveAccountSlotKey accountID)
       (cc_slotTTLSeconds c) (fst c1)) r"

definition GetUserConcurrency ::
  "'r redis_api \<Rightarrow> concurrencyCache \<Rightarrow> call \<Rightarrow> int \<Rightarrow> 'r \<Rightarrow> 'r \<times> (redisError + int)" where
  "GetUserConcurrency R c c1 userID r =
     roundtrip R c1 (getCountScript R (userSlotKey userID) (liveUserSlotKey userID)
       (cc_slotTTLSeconds c) (fst c1)) r"

text \<open>
  The batch readers: \<open>TIME\<close> in one round trip, then one pipeline that purges and counts each
  resource. The map built from the replies is an association list in which a later entry of the
  same ID replaces an earlier one.
\<close>

definition countPipeline ::
  "'r redis_api \<Rightarrow> concurrencyCache \<Rightarrow> (int \<Rightarrow> string) \<Rightarrow> (int \<Rightarrow> string) \<Rightarrow> int \<Rightarrow> int list \<Rightarrow> 'r
    \<Rightarrow> 'r \<times> (int \<times> int) list" where
  "countPipeline R c slotKey liveKey now ids r =
     fold (\<lambda>i (r, acc).
         case getCountScript R (slotKey i) (liveKey i) (cc_slotTTLSeconds c) now r of
           (r, n) \<Rightarrow> (r, AList.update i n acc)) ids (r, [])"

definition concurrencyBatch ::
  "'r redis_api \<Rightarrow> concurrencyCache \<Rightarrow> (int \<Rightarrow> string) \<Rightarrow> (int \<Rightarrow> string) \<Rightarrow> call \<Rightarrow> call \<Rightarrow> int list
    \<Rightarrow> 'r \<Rightarrow> 'r \<times> (redisError + (int, int) gomap)" where
  "concurrencyBatch R c slotKey liveKey c1 c2 ids r =
     (if ids = [] then (r, Inr [])
      else
        case roundtrip R c1 (\<lambda>r. (r, fst c1)) r of
          (r, Inl e) \<Rightarrow> (r, Inl e)
        | (r, Inr now) \<Rightarrow> roundtrip R c2 (countPipeline R c slotKey liveKey now ids) r)"

definition GetAccountConcurrencyBatch ::
  "'r redis_api \<Rightarrow> concurrencyCache \<Rightarrow> call \<Rightarrow> call \<Rightarrow> int list \<Rightarrow> 'r
    \<Rightarrow> 'r \<times> (redisError + (int, int) gomap)" where
  "GetAccountConcurrencyBatch R c = concurrencyBatch R c accountSlotKey liveAccountSlotKey"

definition GetAPIKeyConcurrencyBatch ::
  "'r redis_api \<Rightarrow> concurrencyCache \<Rightarrow> call \<Rightarrow> call \<Rightarrow> int list \<Rightarrow> 'r
    \<Rightarrow> 'r \<times> (redisError + (int, int) gomap)" where
  "GetAPIKeyConcurrencyBatch R c = concurrencyBatch R c apiKeySlotKey liveAPIKeySlotKey"

definition TrackAPIKeySlot ::
  "'r redis_api \<Rightarrow> concurrencyCache \<Rightarrow> call \<Rightarrow> int \<Rightarrow> string \<Rightarrow> 'r \<Rightarrow> 'r \<times> (redisError + int)" where
  "TrackAPIKeySlot R c c1 apiKeyID requestID r =
     roundtrip R c1
       (trackSlotScript R (apiKeySlotKey apiKeyID) (cc_slotTTLSeconds c) requestID (fst c1)) r"

definition ReleaseAPIKeySlot ::
  "'r redis_api \<Rightarrow> call \<Rightarrow> int \<Rightarrow> string \<Rightarrow> 'r \<Rightarrow> 'r \<times> (redisError + int)" where
  "ReleaseAPIKeySlot R c1 apiKeyID requestID r =
     roundtrip R c1 (ZREM R (apiKeySlotKey apiKeyID) requestID) r"

section \<open>Leases\<close>

definition AcquireOpenAIWSIngressLease ::
  "'r redis_api \<Rightarrow> call \<Rightarrow> int \<Rightarrow> int \<Rightarrow> string \<Rightarrow> 'r \<Rightarrow> 'r \<times> (redisError + bool)" where
  "AcquireOpenAIWSIngressLease R c1 apiKeyID maxConnections leaseID r =
     (if apiKeyID \<le> 0 \<or> maxConnections \<le> 0 \<or> leaseID = [] then (r, Inr False)
      else
        case roundtrip R c1 (acquireOpenAIWSIngressLeaseScript R (openAIWSIngressLeaseKey apiKeyID)
               maxConnections openAIWSIngressLeaseTTLSeconds leaseID (fst c1)) r of
          (r, Inl e) \<Rightarrow> (r, Inl e)
        | (r, Inr result) \<Rightarrow> (r, Inr (result = 1)))"

definition RefreshOpenAIWSIngressLease ::
  "'r redis_api \<Rightarrow> call \<Rightarrow> int \<Rightarrow> string \<Rightarrow> 'r \<Rightarrow> 'r \<times> (redisError + bool)" where
  "RefreshOpenAIWSIngressLease R c1 apiKeyID leaseID r =
     (if apiKeyID \<le> 0 \<or> leaseID = [] then (r, Inr False)
      else
        case roundtrip R c1 (refreshOpenAIWSIngressLeaseScript R (openAIWSIngressLeaseKey apiKeyID)
               openAIWSIngressLeaseTTLSeconds leaseID (fst c1)) r of
          (r, Inl e) \<Rightarrow> (r, Inl e)
        | (r, Inr result) \<Rightarrow> (r, Inr (result = 1)))"

definition ReleaseOpenAIWSIngressLease ::
  "'r redis_api \<Rightarrow> call \<Rightarrow> int \<Rightarrow> string \<Rightarrow> 'r \<Rightarrow> 'r \<times> (redisError + unit)" where
  "ReleaseOpenAIWSIngressLease R c1 apiKeyID leaseID r =
     (if apiKeyID \<le> 0 \<or> leaseID = [] then (r, Inr ())
      else roundtrip R c1 (\<lambda>r. (fst (ZREM R (openAIWSIngressLeaseKey apiKeyID) leaseID r), ())) r)"

definition AcquireLiveLease ::
  "'r redis_api \<Rightarrow> call \<Rightarrow> int \<Rightarrow> int \<Rightarrow> int \<Rightarrow> int \<Rightarrow> int \<Rightarrow> string \<Rightarrow> bool \<Rightarrow> 'r
    \<Rightarrow> 'r \<times> (redisError + bool)" where
  "AcquireLiveLease R c1 accountID accountMax userID userMax apiKeyID leaseID replacingRegularSlots r =
     (if accountID \<le> 0 \<or> userID \<le> 0 \<or> apiKeyID \<le> 0 \<or> leaseID = [] then (r, Inr False)
      else
        case roundtrip R c1
            (acquireLiveLeaseScript R (accountSlotKey accountID) (liveAccountSlotKey accountID)
               (userSlotKey userID) (liveUserSlotKey userID) (liveAPIKeySlotKey apiKeyID)
               accountMax userMax liveLeaseTTLSeconds leaseID
               (if replacingRegularSlots then 1 else 0) (fst c1)) r of
          (r, Inl e) \<Rightarrow> (r, Inl e)
        | (r, Inr result) \<Rightarrow> (r, Inr (result = 1)))"

definition RefreshLiveLease ::
  "'r redis_api \<Rightarrow> call \<Rightarrow> int \<Rightarrow> int \<Rightarrow> int \<Rightarrow> string \<Rightarrow> 'r \<Rightarrow> 'r \<times> (redisError + bool)" where
  "RefreshLiveLease R c1 accountID userID apiKeyID leaseID r =
     (if leaseID = [] then (r, Inr False)
      else
        case roundtrip R c1
            (refreshLiveLeaseScript R
               [liveAccountSlotKey accountID, liveUserSlotKey userID, liveAPIKeySlotKey apiKeyID]
               liveLeaseTTLSeconds leaseID (fst c1)) r of
          (r, Inl e) \<Rightarrow> (r, Inl e)
        | (r, Inr result) \<Rightarrow> (r, Inr (result = 1)))"

definition ReleaseLiveLease ::
  "'r redis_api \<Rightarrow> call \<Rightarrow> int \<Rightarrow> int \<Rightarrow> int \<Rightarrow> string \<Rightarrow> 'r \<Rightarrow> 'r \<times> (redisError + unit)" where
  "ReleaseLiveLease R c1 accountID userID apiKeyID leaseID r =
     (if leaseID = [] then (r, Inr ())
      else roundtrip R c1
        (\<lambda>r. (fold (\<lambda>key r. fst (ZREM R key leaseID r))
                [liveAccountSlotKey accountID, liveUserSlotKey userID, liveAPIKeySlotKey apiKeyID] r,
              ())) r)"

section \<open>Wait queues and loads\<close>

definition incrementWait ::
  "'r redis_api \<Rightarrow> concurrencyCache \<Rightarrow> call \<Rightarrow> call \<Rightarrow> string \<Rightarrow> string \<Rightarrow> int \<Rightarrow> int \<Rightarrow> 'r
    \<Rightarrow> 'r \<times> (redisError + bool)" where
  "incrementWait R c c1 c2 indexKey key i maxWait r =
     (case roundtrip R c1 (incrementWaitScript R key maxWait (cc_waitQueueTTLSeconds c) (fst c1)) r of
        (r, Inl e) \<Rightarrow> (r, Inl e)
      | (r, Inr (result, now)) \<Rightarrow>
          (if result = 1
           then touchActiveIndexAt R c2 indexKey i (now + cc_waitQueueTTLSeconds c) r else r,
           Inr (result = 1)))"

definition IncrementWaitCount ::
  "'r redis_api \<Rightarrow> concurrencyCache \<Rightarrow> call \<Rightarrow> call \<Rightarrow> int \<Rightarrow> int \<Rightarrow> 'r \<Rightarrow> 'r \<times> (redisError + bool)" where
  "IncrementWaitCount R c c1 c2 userID maxWait r =
     incrementWait R c c1 c2 userActiveIndexKey (waitQueueKey userID) userID maxWait r"

definition IncrementAccountWaitCount ::
  "'r redis_api \<Rightarrow> concurrencyCache \<Rightarrow> call \<Rightarrow> call \<Rightarrow> int \<Rightarrow> int \<Rightarrow> 'r \<Rightarrow> 'r \<times> (redisError + bool)" where
  "IncrementAccountWaitCount R c c1 c2 accountID maxWait r =
     incrementWait R c c1 c2 accountActiveIndexKey (accountWaitKey accountID) accountID maxWait r"

definition decrementWait ::
  "'r redis_api \<Rightarrow> concurrencyCache \<Rightarrow> call \<Rightarrow> call \<times> call \<times> call \<Rightarrow> string \<Rightarrow> string \<Rightarrow> string
    \<Rightarrow> int \<Rightarrow> 'r \<Rightarrow> 'r \<times> (redisError + int)" where
  "decrementWait R c c1 cs indexKey slotKey key i r =
     (case roundtrip R c1 (decrementWaitScript R key) r of
        (r, Inl e) \<Rightarrow> (r, Inl e)
      | (r, Inr n) \<Rightarrow>
          (case cs of (c2, c3, c4) \<Rightarrow>
             (refreshActiveIndex R c c2 c3 c4 indexKey i slotKey key r, Inr n)))"

definition DecrementWaitCount ::
  "'r redis_api \<Rightarrow> concurrencyCache \<Rightarrow> call \<Rightarrow> call \<times> call \<times> call \<Rightarrow> int \<Rightarrow> 'r
    \<Rightarrow> 'r \<times> (redisError + int)" where
  "DecrementWaitCount R c c1 cs userID r =
     decrementWait R c c1 cs userActiveIndexKey (userSlotKey userID) (waitQueueKey userID) userID r"

definition DecrementAccountWaitCount ::
  "'r redis_api \<Rightarrow> concurrencyCache \<Rightarrow> call \<Rightarrow> call \<times> call \<times> call \<Rightarrow> int \<Rightarrow> 'r
    \<Rightarrow> 'r \<times> (redisError + int)" where
  "DecrementAccountWaitCount R c c1 cs accountID r =
     decrementWait R c c1 cs accountActiveIndexKey (accountSlotKey accountID)
       (accountWaitKey accountID) accountID r"

definition GetAccountWaitingCount ::
  "'r redis_api \<Rightarrow> call \<Rightarrow> int \<Rightarrow> 'r \<Rightarrow> 'r \<times> (redisError + int)" where
  "GetAccountWaitingCount R c1 accountID r =
     roundtrip R c1 (\<lambda>r. (r, case GET R (accountWaitKey accountID) r of None \<Rightarrow> 0 | Some v \<Rightarrow> v)) r"

record LoadInfo =
  li_ID :: int
  li_CurrentConcurrency :: int
  li_WaitingCount :: int
  li_LoadRate :: int

text \<open>Go's integer division truncates towards zero.\<close>

definition loadRate :: "int \<Rightarrow> int \<Rightarrow> int \<Rightarrow> int" where
  "loadRate currentConcurrency waitingCount maxConcurrency =
     (if maxConcurrency > 0 then
        let n = (currentConcurrency + waitingCount) * 100
        in if n < 0 then - ((- n) div maxConcurrency) else n div maxConcurrency
      else 0)"

definition loadPipeline ::
  "'r redis_api \<Rightarrow> concurrencyCache \<Rightarrow> (int \<Rightarrow> string) \<Rightarrow> (int \<Rightarrow> string) \<Rightarrow> (int \<Rightarrow> string) \<Rightarrow> int
    \<Rightarrow> (int \<times> int) list \<Rightarrow> 'r \<Rightarrow> 'r \<times> (int \<times> LoadInfo) list" where
  "loadPipeline R c slotKey liveKey waitKey now accounts r =
     fold (\<lambda>(i, maxConcurrency) (r, acc).
         case getCountScript R (slotKey i) (liveKey i) (cc_slotTTLSeconds c) now r of
           (r, n) \<Rightarrow>
             let waiting = (case GET R (waitKey i) r of None \<Rightarrow> 0 | Some v \<Rightarrow> v) in
             (r, AList.update i \<lparr> li_ID = i, li_CurrentConcurrency = n, li_WaitingCount = waiting,
                  li_LoadRate = loadRate n waiting maxConcurrency \<rparr> acc)) accounts (r, [])"

definition loadBatch ::
  "'r redis_api \<Rightarrow> concurrencyCache \<Rightarrow> (int \<Rightarrow> string) \<Rightarrow> (int \<Rightarrow> string) \<Rightarrow> (int \<Rightarrow> string)
    \<Rightarrow> call \<Rightarrow> call \<Rightarrow> (int \<times> int) list \<Rightarrow> 'r \<Rightarrow> 'r \<times> (redisError + (int, LoadInfo) gomap)" where
  "loadBatch R c slotKey liveKey waitKey c1 c2 accounts r =
     (if accounts = [] then (r, Inr [])
      else
        case roundtrip R c1 (\<lambda>r. (r, fst c1)) r of
          (r, Inl e) \<Rightarrow> (r, Inl e)
        | (r, Inr now) \<Rightarrow>
            roundtrip R c2 (loadPipeline R c slotKey liveKey waitKey now accounts) r)"

definition GetAccountsLoadBatch ::
  "'r redis_api \<Rightarrow> concurrencyCache \<Rightarrow> call \<Rightarrow> call \<Rightarrow> (int \<times> int) list \<Rightarrow> 'r
    \<Rightarrow> 'r \<times> (redisError + (int, LoadInfo) gomap)" where
  "GetAccountsLoadBatch R c = loadBatch R c accountSlotKey liveAccountSlotKey accountWaitKey"

definition GetUsersLoadBatch ::
  "'r redis_api \<Rightarrow> concurrencyCache \<Rightarrow> call \<Rightarrow> call \<Rightarrow> (int \<times> int) list \<Rightarrow> 'r
    \<Rightarrow> 'r \<times> (redisError + (int, LoadInfo) gomap)" where
  "GetUsersLoadBatch R c = loadBatch R c userSlotKey liveUserSlotKey waitQueueKey"

section \<open>Slots through the view\<close>

text \<open>
  \<open>alive\<close>: the members of a key that are younger than the time to live. \<open>key_ok\<close>: no member is
  from the future, and the key does not expire before its youngest member.
\<close>

definition alive :: "int \<Rightarrow> int \<Rightarrow> string \<Rightarrow> rview \<Rightarrow> (string, int) fmap" where
  "alive ttl t k v = above (t - ttl) (rv_z v k)"

definition key_ok :: "int \<Rightarrow> int \<Rightarrow> string \<Rightarrow> rview \<Rightarrow> bool" where
  "key_ok ttl t k v \<longleftrightarrow>
     (\<forall>m s. fmlookup (rv_z v k) m = Some s \<longrightarrow>
        s \<le> t \<and> (case rv_d v k of None \<Rightarrow> True | Some d \<Rightarrow> s + ttl \<le> d))"

lemma key_ok_later: "key_ok ttl t k v \<Longrightarrow> t \<le> t' \<Longrightarrow> key_ok ttl t' k v"
  by (force simp: key_ok_def split: option.splits)

lemma alive_lookup:
  "fmlookup (alive ttl t k v) m = Some s \<longleftrightarrow> fmlookup (rv_z v k) m = Some s \<and> t - ttl < s"
  by (auto simp: alive_def split: option.splits)

lemma alive_dom: "m |\<in>| fmdom (alive ttl t k v) \<longleftrightarrow> (\<exists>s. fmlookup (rv_z v k) m = Some s \<and> t - ttl < s)"
  unfolding fmlookup_dom_iff alive_lookup ..

lemma alive_later: "t \<le> t' \<Longrightarrow> fmdom (alive ttl t' k v) |\<subseteq>| fmdom (alive ttl t k v)"
  by (auto simp: alive_dom)

lemma alive_cong: "rv_z v k = rv_z w k \<Longrightarrow> alive ttl t k v = alive ttl t k w"
  by (simp add: alive_def)

lemma key_ok_cong: "rv_z v k = rv_z w k \<Longrightarrow> rv_d v k = rv_d w k \<Longrightarrow> key_ok ttl t k v = key_ok ttl t k w"
  by (simp add: key_ok_def)

lemma above_above: "mx \<le> mx' \<Longrightarrow> above mx' (above mx z) = above mx' z"
  by (rule fmap_ext) (auto split: option.splits)

lemma alive_purge:
  "now \<le> t \<Longrightarrow> alive ttl t k (doc_ZREMRANGEBYSCORE k (now - ttl) v) = alive ttl t k v"
  by (simp add: alive_def above_above)

lemma key_ok_purge: "key_ok ttl t k v \<Longrightarrow> key_ok ttl t k (doc_ZREMRANGEBYSCORE k mx v)"
  by (auto simp: key_ok_def doc_ZREMRANGEBYSCORE_def set_members_def split: option.splits if_splits)

lemma purge_other [simp]:
  "k \<noteq> k' \<Longrightarrow> rv_z (doc_ZREMRANGEBYSCORE k' mx v) k = rv_z v k"
  "k \<noteq> k' \<Longrightarrow> rv_d (doc_ZREMRANGEBYSCORE k' mx v) k = rv_d v k"
  by (simp_all add: doc_ZREMRANGEBYSCORE_def set_members_def)

lemma ZADD_other [simp]:
  "k \<noteq> k' \<Longrightarrow> rv_z (doc_ZADD k' s m v) k = rv_z v k"
  "k \<noteq> k' \<Longrightarrow> rv_d (doc_ZADD k' s m v) k = rv_d v k"
  by (simp_all add: doc_ZADD_def set_members_def)

lemma ZREM_other [simp]:
  "k \<noteq> k' \<Longrightarrow> rv_z (fst (doc_ZREM k' m v)) k = rv_z v k"
  "k \<noteq> k' \<Longrightarrow> rv_d (fst (doc_ZREM k' m v)) k = rv_d v k"
  by (simp_all add: doc_ZREM_def set_members_def)

lemma EXPIRE_other [simp]:
  "k \<noteq> k' \<Longrightarrow> rv_z (doc_EXPIRE k' now ttl v) k = rv_z v k"
  "k \<noteq> k' \<Longrightarrow> rv_d (doc_EXPIRE k' now ttl v) k = rv_d v k"
  by (simp_all add: doc_EXPIRE_def doc_DEL_def)

text \<open>Taking a slot: the new member lives for the time to live, and so does the key.\<close>

definition take_slot :: "string \<Rightarrow> int \<Rightarrow> int \<Rightarrow> string \<Rightarrow> rview \<Rightarrow> rview" where
  "take_slot k now ttl m v = doc_EXPIRE k now ttl (doc_ZADD k now m v)"

lemma take_slot_z: "0 < ttl \<Longrightarrow> rv_z (take_slot k now ttl m v) = (rv_z v)(k := fmupd m now (rv_z v k))"
  by (simp add: take_slot_def)

lemma take_slot_d:
  "0 < ttl \<Longrightarrow> rv_d (take_slot k now ttl m v) = (rv_d v)(k \<mapsto> now + ttl)"
proof -
  have "fmupd m now (rv_z v k) \<noteq> fmempty"
    by (metis fmempty_lookup fmupd_lookup option.distinct(1))
  then show "0 < ttl \<Longrightarrow> ?thesis"
    by (simp add: take_slot_def doc_EXPIRE_def doc_ZADD_def doc_exists_def set_members_def)
qed

lemma key_ok_take:
  assumes "0 < ttl" and "key_ok ttl t k v" and "t \<le> now"
  shows "key_ok ttl now k (take_slot k now ttl m v)"
  using assms by (fastforce simp: key_ok_def take_slot_z take_slot_d split: if_splits option.splits)

lemma alive_take:
  assumes "0 < ttl" and "key_ok ttl now k v" and "now \<le> t"
  shows "fmdom (alive ttl t k (take_slot k now ttl m v)) =
    (if t < now + ttl then finsert m (fmdom (alive ttl t k v)) else fmdom (alive ttl t k v))"
proof -
  have old: "s \<le> now" if "fmlookup (rv_z v k) x = Some s" for x s
    using assms(2) that by (auto simp: key_ok_def)
  have mem: "x |\<in>| fmdom (alive ttl t k (take_slot k now ttl m v)) \<longleftrightarrow>
      (if x = m then t < now + ttl else x |\<in>| fmdom (alive ttl t k v))" for x
    using assms(1) by (auto simp: alive_dom take_slot_z)
  show ?thesis
  proof (rule fset_eqI)
    fix x
    show "x |\<in>| fmdom (alive ttl t k (take_slot k now ttl m v)) \<longleftrightarrow>
        x |\<in>| (if t < now + ttl then finsert m (fmdom (alive ttl t k v)) else fmdom (alive ttl t k v))"
      unfolding mem using old [of m] by (auto simp: alive_dom)
  qed
qed

lemma key_ok_ZREM: "key_ok ttl t k v \<Longrightarrow> key_ok ttl t k (fst (doc_ZREM k m v))"
  by (auto simp: key_ok_def doc_ZREM_def set_members_def split: option.splits if_splits)

lemma alive_ZREM: "fmdom (alive ttl t k (fst (doc_ZREM k m v))) = fmdom (alive ttl t k v) |-| {|m|}"
  by (intro fset_eqI) (auto simp: alive_dom)

lemma alive_AT:
  assumes "key_ok ttl t0 k v" and "expiry_choice now v E" and "now \<le> t"
  shows "alive ttl t k (drop_keys E v) = alive ttl t k v"
proof (cases "E k")
  case True
  then obtain d where "rv_d v k = Some d" "d \<le> now"
    using assms(2) by (auto simp: expiry_choice_def due_def split: option.splits)
  then have "\<forall>m s. fmlookup (rv_z v k) m = Some s \<longrightarrow> s \<le> t - ttl"
    using assms(1,3) by (fastforce simp: key_ok_def)
  then show ?thesis
    by (intro fmap_ext) (fastforce simp: alive_def drop_keys_def True split: option.splits)
next
  case False
  then show ?thesis by (simp add: alive_def drop_keys_def)
qed

lemma key_ok_AT: "key_ok ttl t k v \<Longrightarrow> key_ok ttl t k (drop_keys E v)"
  by (simp add: key_ok_def drop_keys_def)

text \<open>\<open>slot_eq\<close>: from the second \<open>t\<close> on the key holds the same slots.\<close>

definition slot_eq :: "int \<Rightarrow> int \<Rightarrow> string \<Rightarrow> rview \<Rightarrow> rview \<Rightarrow> bool" where
  "slot_eq ttl t k v w \<longleftrightarrow>
     (key_ok ttl t k v \<longrightarrow> key_ok ttl t k w \<and> (\<forall>t' \<ge> t. alive ttl t' k w = alive ttl t' k v))"

lemma slot_eq_refl [simp]: "slot_eq ttl t k v v"
  by (simp add: slot_eq_def)

lemma slot_eq_trans: "slot_eq ttl t k u v \<Longrightarrow> slot_eq ttl t k v w \<Longrightarrow> slot_eq ttl t k u w"
  by (auto simp: slot_eq_def)

lemma slot_eq_other: "rv_z w k = rv_z v k \<Longrightarrow> rv_d w k = rv_d v k \<Longrightarrow> slot_eq ttl t k v w"
  by (simp add: slot_eq_def key_ok_def alive_def)

lemma slot_eq_purge: "slot_eq ttl t k v (doc_ZREMRANGEBYSCORE k' (t - ttl) v)"
proof (cases "k = k'")
  case True
  then show ?thesis by (simp add: slot_eq_def key_ok_purge alive_purge)
next
  case False
  then show ?thesis by (intro slot_eq_other) simp_all
qed

lemma slot_eq_AT: "expiry_choice t v E \<Longrightarrow> slot_eq ttl t k v (drop_keys E v)"
  by (auto simp: slot_eq_def key_ok_AT intro: alive_AT)

context redis_server
begin

lemma slot_eq_at: "slot_eq ttl t k (view r) (view (AT R t r))"
proof -
  obtain E where "expiry_choice t (view r) E" "view (AT R t r) = drop_keys E (view r)"
    using at by blast
  then show ?thesis by (simp add: slot_eq_AT)
qed

lemma slot_eq_roundtrip:
  assumes "\<And>r. slot_eq ttl t k (view r) (view (fst (f r)))"
  shows "slot_eq ttl t k (view r) (view (fst (roundtrip R (t, io) f r)))"
proof -
  have "slot_eq ttl t k (view r) (view (fst (f (AT R t r))))"
    using slot_eq_trans [OF slot_eq_at assms] .
  then show ?thesis
    using slot_eq_at by (cases io) (simp_all add: roundtrip_def Let_def)
qed

lemma slot_eq_touch:
  assumes "k \<noteq> indexKey"
  shows "slot_eq ttl t k (view r) (view (touchActiveIndexAt R (t, io) indexKey i e r))"
proof -
  have "slot_eq ttl t k (view r) (view (fst (roundtrip R (t, io)
      (\<lambda>r. (ZADD R indexKey e (strconv_FormatInt i) r, ())) r)))"
    using assms by (intro slot_eq_roundtrip) (simp add: zadd slot_eq_other)
  then show ?thesis by (simp add: touchActiveIndexAt_def)
qed

lemma slot_eq_readActiveLoad:
  assumes "k = slotKey \<Longrightarrow> ttl = cc_slotTTLSeconds c"
  shows "slot_eq ttl t k (view r) (view (fst (readActiveLoad R c slotKey waitKey t r)))"
proof (cases "k = slotKey")
  case True
  then show ?thesis
    using assms slot_eq_purge [of ttl t k "view r" slotKey]
    by (simp add: readActiveLoad_def Let_def zremrangebyscore)
next
  case False
  then show ?thesis
    by (simp add: readActiveLoad_def Let_def zremrangebyscore slot_eq_other)
qed

lemma slot_eq_refreshActiveIndex:
  assumes "k \<noteq> indexKey" and "k = slotKey \<Longrightarrow> ttl = cc_slotTTLSeconds c"
  shows "slot_eq ttl t k (view r)
    (view (refreshActiveIndex R c (t, io1) (t, io2) (t, io3) indexKey i slotKey waitKey r))"
proof -
  let ?a = "roundtrip R (t, io1) (\<lambda>r. (r, fst (t, io1)))"
  let ?b = "roundtrip R (t, io2) (readActiveLoad R c slotKey waitKey t)"
  let ?c = "roundtrip R (t, io3) (\<lambda>r. (fst (ZREM R indexKey (strconv_FormatInt i) r), ()))"
  have a: "slot_eq ttl t k (view r) (view (fst (?a r)))" for r
    by (rule slot_eq_roundtrip) simp
  have b: "slot_eq ttl t k (view r) (view (fst (?b r)))" for r
    by (rule slot_eq_roundtrip) (rule slot_eq_readActiveLoad, rule assms(2))
  have c: "slot_eq ttl t k (view r) (view (fst (?c r)))" for r
    using assms(1) by (intro slot_eq_roundtrip) (simp add: zrem slot_eq_other)
  note ab = slot_eq_trans [OF a b] and abc = slot_eq_trans [OF slot_eq_trans [OF a b] c]
    and abt = slot_eq_trans [OF slot_eq_trans [OF a b] slot_eq_touch [OF assms(1)]]
  obtain r1 x1 where r1: "?a r = (r1, x1)" by (cases "?a r")
  obtain r2 x2 where r2: "?b r1 = (r2, x2)" by (cases "?b r1")
  show ?thesis
  proof (cases "i \<le> 0")
    case True
    then show ?thesis by (simp add: refreshActiveIndex_def)
  next
    case False
    show ?thesis
    proof (cases x1)
      case (Inl e)
      then show ?thesis using False r1 a [of r] by (simp add: refreshActiveIndex_def)
    next
      case (Inr now')
      then have "now' = t"
        using r1 by (cases io1) (auto simp: roundtrip_def Let_def)
      show ?thesis
      proof (cases x2)
        case (Inl e)
        with False r1 r2 Inr \<open>now' = t\<close> ab [of r] show ?thesis
          by (simp add: refreshActiveIndex_def)
      next
        case x2: (Inr p)
        obtain sc wc where p: "p = (sc, wc)" by (cases p)
        show ?thesis
          using False r1 r2 Inr \<open>now' = t\<close> x2 p ab [of r] abc [of r]
            abt [of r io3 i "t + activeIndexTTL c sc wc"]
          by (simp add: refreshActiveIndex_def Let_def)
      qed
    qed
  qed
qed

end

section \<open>The slot limiter\<close>

definition slots_ok :: "('r \<Rightarrow> rview) \<Rightarrow> int \<Rightarrow> string \<Rightarrow> string \<Rightarrow> int \<Rightarrow> 'r \<Rightarrow> bool" where
  "slots_ok view ttl key liveKey t r \<longleftrightarrow> key_ok ttl t key (view r) \<and> key_ok 60 t liveKey (view r)"

text \<open>The slots that count at \<open>t\<close>: requests (tagged \<open>False\<close>) and live sessions (\<open>True\<close>).\<close>

definition slots_held ::
  "('r \<Rightarrow> rview) \<Rightarrow> int \<Rightarrow> string \<Rightarrow> string \<Rightarrow> int \<Rightarrow> 'r \<Rightarrow> (bool \<times> string) set" where
  "slots_held view ttl key liveKey t r =
     {False} \<times> fset (fmdom (alive ttl t key (view r))) \<union>
     {True} \<times> fset (fmdom (alive 60 t liveKey (view r)))"

lemma card_slots_held:
  "int (card (slots_held view ttl key liveKey t r)) =
     int (fcard (fmdom (alive ttl t key (view r)))) + int (fcard (fmdom (alive 60 t liveKey (view r))))"
proof -
  let ?A = "fset (fmdom (alive ttl t key (view r)))" and ?B = "fset (fmdom (alive 60 t liveKey (view r)))"
  have "card (slots_held view ttl key liveKey t r) = card ({False} \<times> ?A) + card ({True} \<times> ?B)"
    unfolding slots_held_def by (rule card_Un_disjoint) auto
  then show ?thesis by (simp add: card_cartesian_product fcard.rep_eq)
qed

lemma slots_held_finite: "finite (slots_held view ttl key liveKey t r)"
  by (simp add: slots_held_def)

lemma slots_held_later:
  "t \<le> t' \<Longrightarrow> slots_held view ttl key liveKey t' r \<subseteq> slots_held view ttl key liveKey t r"
  using alive_later [of t t'] by (fastforce simp: slots_held_def)

text \<open>\<open>tryAcquire\<close> and \<open>doRelease\<close>: the operations of a client that sees every reply.\<close>

definition tryAcquire ::
  "'r redis_api \<Rightarrow> concurrencyCache \<Rightarrow> string \<Rightarrow> string \<Rightarrow> string \<Rightarrow> int \<Rightarrow> (int \<Rightarrow> io)
    \<Rightarrow> int \<Rightarrow> int \<Rightarrow> string \<Rightarrow> 'r \<Rightarrow> 'r \<times> bool" where
  "tryAcquire R c indexKey key liveKey i io t mx q r =
     (let x = acquireSlot R c (t, IoOk) (t, io t) indexKey key liveKey i mx q r
      in (fst x, snd x = Inr True))"

definition doRelease ::
  "'r redis_api \<Rightarrow> concurrencyCache \<Rightarrow> string \<Rightarrow> string \<Rightarrow> string \<Rightarrow> int \<Rightarrow> (int \<Rightarrow> io)
    \<Rightarrow> int \<Rightarrow> string \<Rightarrow> 'r \<Rightarrow> 'r" where
  "doRelease R c indexKey key waitKey i io t q r =
     fst (releaseSlot R c (t, IoOk) ((t, io t), (t, io t), (t, io t)) indexKey key waitKey i q r)"

context redis_server
begin

lemma acquireScript_spec:
  fixes K L q :: string and now ttl mx :: int and r :: 'r
  assumes "K \<noteq> L"
  defines "v \<equiv> doc_ZREMRANGEBYSCORE L (now - 60) (doc_ZREMRANGEBYSCORE K (now - ttl) (view r))"
  defines "ok \<equiv> q |\<in>| fmdom (alive ttl now K (view r)) \<or>
    int (fcard (fmdom (alive ttl now K (view r)))) + int (fcard (fmdom (alive 60 now L (view r)))) < mx"
  shows "view (fst (acquireScript R K L mx ttl q now r)) = (if ok then take_slot K now ttl q v else v)"
    and "snd (acquireScript R K L mx ttl q now r) = (if ok then 1 else 0, now)"
proof -
  let ?r = "ZREMRANGEBYSCORE R L (now - 60) (ZREMRANGEBYSCORE R K (now - ttl) r)"
  have v: "view ?r = v" by (simp add: v_def zremrangebyscore)
  have K: "rv_z v K = alive ttl now K (view r)" and L: "rv_z v L = alive 60 now L (view r)"
    using assms(1) by (simp_all add: v_def alive_def)
  have score: "ZSCORE R K q ?r \<noteq> None \<longleftrightarrow> q |\<in>| fmdom (alive ttl now K (view r))"
    by (simp add: zscore v K fmlookup_dom_iff)
  have card: "ZCARD R K ?r + ZCARD R L ?r =
      int (fcard (fmdom (alive ttl now K (view r)))) + int (fcard (fmdom (alive 60 now L (view r))))"
    by (simp add: zcard v doc_ZCARD_def K L)
  have eq: "acquireScript R K L mx ttl q now r =
      (if ok then (EXPIRE R K now ttl (ZADD R K now q ?r), 1, now) else (?r, 0, now))"
    unfolding acquireScript_def Let_def score card ok_def by simp
  show "view (fst (acquireScript R K L mx ttl q now r)) = (if ok then take_slot K now ttl q v else v)"
    unfolding eq by (simp add: v expire zadd take_slot_def)
  show "snd (acquireScript R K L mx ttl q now r) = (if ok then 1 else 0, now)"
    unfolding eq by simp
qed

lemma tryAcquire_spec:
  fixes K L I q :: string and c :: concurrencyCache and i t mx :: int and io :: "int \<Rightarrow> io" and r :: 'r
  assumes "K \<noteq> L" and "K \<noteq> I" and "L \<noteq> I" and "0 < cc_slotTTLSeconds c"
    and "slots_ok view (cc_slotTTLSeconds c) K L t r"
  defines "T \<equiv> cc_slotTTLSeconds c"
  defines "x \<equiv> tryAcquire R c I K L i io t mx q r"
  shows "snd x \<longleftrightarrow> (False, q) \<in> slots_held view T K L t r \<or> int (card (slots_held view T K L t r)) < mx"
    and "slots_ok view T K L t (fst x)"
    and "t \<le> t' \<Longrightarrow> slots_held view T K L t' (fst x) =
      (if snd x \<and> t' < t + T then insert (False, q) (slots_held view T K L t' r)
       else slots_held view T K L t' r)"
proof -
  let ?r0 = "AT R t r"
  let ?s = "acquireScript R K L mx T q t ?r0"
  let ?v = "doc_ZREMRANGEBYSCORE L (t - 60) (doc_ZREMRANGEBYSCORE K (t - T) (view ?r0))"
  have T: "0 < T" using assms(4) by (simp add: T_def)
  have ok0: "key_ok T t K (view r)" "key_ok 60 t L (view r)"
    using assms(5) by (simp_all add: slots_ok_def T_def)
  have at: "key_ok T t K (view ?r0)" "key_ok 60 t L (view ?r0)"
    "\<And>t'. t \<le> t' \<Longrightarrow> alive T t' K (view ?r0) = alive T t' K (view r)"
    "\<And>t'. t \<le> t' \<Longrightarrow> alive 60 t' L (view ?r0) = alive 60 t' L (view r)"
    using slot_eq_at [of T t K r] slot_eq_at [of 60 t L r] ok0 by (auto simp: slot_eq_def)
  have vK: "slot_eq T t K (view ?r0) ?v"
    using assms(1) by (intro slot_eq_trans [OF slot_eq_purge slot_eq_other]) simp_all
  have vL: "slot_eq 60 t L (view ?r0) ?v"
    using assms(1) by (intro slot_eq_trans [OF slot_eq_other slot_eq_purge]) simp_all
  let ?ok = "q |\<in>| fmdom (alive T t K (view r)) \<or>
    int (fcard (fmdom (alive T t K (view r)))) + int (fcard (fmdom (alive 60 t L (view r)))) < mx"
  have script: "view (fst ?s) = (if ?ok then take_slot K t T q ?v else ?v)"
      "snd ?s = (if ?ok then 1 else 0, t)"
    using acquireScript_spec [OF assms(1), where now = t and ttl = T and r = ?r0 and q = q and mx = mx]
    by (simp_all add: at(3,4))
  have x: "x = (if ?ok then touchActiveIndexAt R (t, io t) I i (t + T) (fst ?s) else fst ?s, ?ok)"
    unfolding x_def tryAcquire_def acquireSlot_def roundtrip_def Let_def
    by (cases ?s) (use script(2) in \<open>auto simp: T_def\<close>)
  have touch: "slot_eq T t K (view (fst ?s)) (view (fst x))" "slot_eq 60 t L (view (fst ?s)) (view (fst x))"
    unfolding x using slot_eq_touch [OF assms(2)] slot_eq_touch [OF assms(3)] by simp_all
  have okK: "key_ok T t K (view (fst ?s))"
    using at(1) vK key_ok_take [OF T, of t K ?v t q] unfolding script(1) by (auto simp: slot_eq_def)
  have L: "slot_eq 60 t L (view ?r0) (view (fst ?s))"
    using vL assms(1) T unfolding script(1)
    by (auto intro!: slot_eq_trans [OF vL slot_eq_other] simp: take_slot_z take_slot_d)
  have domK: "fmdom (alive T t' K (view (fst ?s))) =
      (if ?ok \<and> t' < t + T then finsert q (fmdom (alive T t' K (view r)))
       else fmdom (alive T t' K (view r)))" if "t \<le> t'" for t'
    using that at(1,3) vK alive_take [OF T, of t K ?v t' q] unfolding script(1)
    by (auto simp: slot_eq_def)
  show "snd x \<longleftrightarrow> (False, q) \<in> slots_held view T K L t r \<or> int (card (slots_held view T K L t r)) < mx"
    unfolding x card_slots_held by (simp add: slots_held_def)
  show "slots_ok view T K L t (fst x)"
    using touch okK L at(2) by (auto simp: slots_ok_def slot_eq_def)
  show "slots_held view T K L t' (fst x) =
      (if snd x \<and> t' < t + T then insert (False, q) (slots_held view T K L t' r)
       else slots_held view T K L t' r)" if t': "t \<le> t'"
  proof -
    have "fmdom (alive T t' K (view (fst x))) = fmdom (alive T t' K (view (fst ?s)))"
      "fmdom (alive 60 t' L (view (fst x))) = fmdom (alive 60 t' L (view r))"
      using touch okK L at(2,4) t' by (auto simp: slot_eq_def)
    then show ?thesis
      using domK [OF t'] by (auto simp: slots_held_def x)
  qed
qed

lemma doRelease_spec:
  fixes K L I W q :: string and c :: concurrencyCache and i t :: int and io :: "int \<Rightarrow> io" and r :: 'r
  assumes "K \<noteq> L" and "K \<noteq> I" and "L \<noteq> I"
    and "slots_ok view (cc_slotTTLSeconds c) K L t r"
  defines "T \<equiv> cc_slotTTLSeconds c"
  defines "s \<equiv> doRelease R c I K W i io t q r"
  shows "slots_ok view T K L t s"
    and "t \<le> t' \<Longrightarrow> slots_held view T K L t' s = slots_held view T K L t' r - {(False, q)}"
proof -
  let ?r0 = "AT R t r"
  let ?r1 = "fst (ZREM R K q ?r0)"
  have s: "s = refreshActiveIndex R c (t, io t) (t, io t) (t, io t) I i K W ?r1"
    by (simp add: s_def doRelease_def releaseSlot_def roundtrip_def)
  have at: "key_ok T t K (view ?r0)" "key_ok 60 t L (view ?r0)"
    "\<And>t'. t \<le> t' \<Longrightarrow> alive T t' K (view ?r0) = alive T t' K (view r)"
    "\<And>t'. t \<le> t' \<Longrightarrow> alive 60 t' L (view ?r0) = alive 60 t' L (view r)"
    using slot_eq_at [of T t K r] slot_eq_at [of 60 t L r] assms(4)
    by (auto simp: slot_eq_def slots_ok_def T_def)
  have K1: "key_ok T t K (view ?r1)"
    using at(1) by (simp add: zrem key_ok_ZREM)
  have L1: "slot_eq 60 t L (view ?r0) (view ?r1)"
    using assms(1) by (simp add: zrem slot_eq_other)
  have ref: "slot_eq T t K (view ?r1) (view s)" "slot_eq 60 t L (view ?r1) (view s)"
    unfolding s using assms(1-3) by (auto intro!: slot_eq_refreshActiveIndex simp: T_def)
  show "slots_ok view T K L t s"
    using ref K1 L1 at(2) by (auto simp: slots_ok_def slot_eq_def)
  show "slots_held view T K L t' s = slots_held view T K L t' r - {(False, q)}" if t': "t \<le> t'"
  proof -
    have "fmdom (alive T t' K (view s)) = fmdom (alive T t' K (view r)) |-| {|q|}"
      using ref(1) K1 at(3) [OF t'] t' by (auto simp: slot_eq_def zrem alive_ZREM)
    moreover have "fmdom (alive 60 t' L (view s)) = fmdom (alive 60 t' L (view r))"
      using ref(2) L1 at(2) at(4) [OF t'] t' by (auto simp: slot_eq_def)
    ultimately show ?thesis by (auto simp: slots_held_def)
  qed
qed

end

section \<open>The cache implements the limiter\<close>

lemma FormatInt_not_word: "strconv_FormatInt i \<noteq> CHR ''a'' # xs"
proof
  assume *: "strconv_FormatInt i = CHR ''a'' # xs"
  show False
  proof (cases "i < 0")
    case True
    with * show False by (simp add: strconv_FormatInt_def)
  next
    case False
    then have "format_nat (nat i) = CHR ''a'' # xs"
      using * by (simp add: strconv_FormatInt_def)
    then have "is_digit (CHR ''a'')"
      using format_nat_head [of "nat i"] by simp
    then show False by (simp add: is_digit_def byte_of_def)
  qed
qed

lemma slot_keys_distinct:
  "accountSlotKey i \<noteq> liveAccountSlotKey j" "userSlotKey i \<noteq> liveUserSlotKey j"
  "accountSlotKey i \<noteq> accountActiveIndexKey" "liveAccountSlotKey i \<noteq> accountActiveIndexKey"
  "userSlotKey i \<noteq> userActiveIndexKey" "liveUserSlotKey i \<noteq> userActiveIndexKey"
  using FormatInt_not_word
  by (auto simp: accountSlotKey_def liveAccountSlotKey_def userSlotKey_def liveUserSlotKey_def)

locale redis_cache = redis_server R view for R :: "'r redis_api" and view :: "'r \<Rightarrow> rview" +
  fixes c :: concurrencyCache
  assumes slot_ttl: "0 < cc_slotTTLSeconds c"
begin

lemma slots_limiter:
  assumes "K \<noteq> L" and "K \<noteq> I" and "L \<noteq> I"
  shows "slot_limiter (slots_ok view (cc_slotTTLSeconds c) K L)
    (slots_held view (cc_slotTTLSeconds c) K L) (Pair False) (cc_slotTTLSeconds c)
    (tryAcquire R c I K L i io) (doRelease R c I K W i io)"
proof
  fix t t' :: int and s :: 'r and mx :: int and q q' :: string
  show "0 < cc_slotTTLSeconds c" by (rule slot_ttl)
  show "(False, q) = (False, q') \<Longrightarrow> q = q'" by simp
  show "finite (slots_held view (cc_slotTTLSeconds c) K L t s)" by (rule slots_held_finite)
  show "slots_held view (cc_slotTTLSeconds c) K L t' s \<subseteq> slots_held view (cc_slotTTLSeconds c) K L t s"
    if "t \<le> t'" using that by (rule slots_held_later)
  show "slots_ok view (cc_slotTTLSeconds c) K L t' s"
    if "slots_ok view (cc_slotTTLSeconds c) K L t s" "t \<le> t'"
    using that key_ok_later by (auto simp: slots_ok_def)
  assume i: "slots_ok view (cc_slotTTLSeconds c) K L t s"
  note acq = tryAcquire_spec [OF assms slot_ttl i] and rel = doRelease_spec [OF assms i]
  show "slots_ok view (cc_slotTTLSeconds c) K L t (fst (tryAcquire R c I K L i io t mx q s))"
    by (rule acq(2))
  show "slots_ok view (cc_slotTTLSeconds c) K L t (doRelease R c I K W i io t q s)"
    by (rule rel(1))
  show "snd (tryAcquire R c I K L i io t mx q s) \<longleftrightarrow>
      (False, q) \<in> slots_held view (cc_slotTTLSeconds c) K L t s \<or>
      int (card (slots_held view (cc_slotTTLSeconds c) K L t s)) < mx"
    by (rule acq(1))
  show "slots_held view (cc_slotTTLSeconds c) K L t' (doRelease R c I K W i io t q s) =
      slots_held view (cc_slotTTLSeconds c) K L t' s - {(False, q)}" if "t \<le> t'"
    using that by (rule rel(2))
  show "slots_held view (cc_slotTTLSeconds c) K L t' (fst (tryAcquire R c I K L i io t mx q s)) =
      (if t' < t + cc_slotTTLSeconds c
       then insert (False, q) (slots_held view (cc_slotTTLSeconds c) K L t' s)
       else slots_held view (cc_slotTTLSeconds c) K L t' s)"
    if "snd (tryAcquire R c I K L i io t mx q s)" "t \<le> t'"
    using that by (simp add: acq(3))
  show "slots_held view (cc_slotTTLSeconds c) K L t' (fst (tryAcquire R c I K L i io t mx q s)) =
      slots_held view (cc_slotTTLSeconds c) K L t' s"
    if "\<not> snd (tryAcquire R c I K L i io t mx q s)" "t \<le> t'"
    using that by (simp add: acq(3))
qed

end

sublocale redis_cache \<subseteq> account: slot_limiter
  "slots_ok view (cc_slotTTLSeconds c) (accountSlotKey i) (liveAccountSlotKey i)"
  "slots_held view (cc_slotTTLSeconds c) (accountSlotKey i) (liveAccountSlotKey i)"
  "Pair False" "cc_slotTTLSeconds c"
  "tryAcquire R c accountActiveIndexKey (accountSlotKey i) (liveAccountSlotKey i) i io"
  "doRelease R c accountActiveIndexKey (accountSlotKey i) (accountWaitKey i) i io" for i io
  by (rule slots_limiter) (rule slot_keys_distinct)+

sublocale redis_cache \<subseteq> user: slot_limiter
  "slots_ok view (cc_slotTTLSeconds c) (userSlotKey i) (liveUserSlotKey i)"
  "slots_held view (cc_slotTTLSeconds c) (userSlotKey i) (liveUserSlotKey i)"
  "Pair False" "cc_slotTTLSeconds c"
  "tryAcquire R c userActiveIndexKey (userSlotKey i) (liveUserSlotKey i) i io"
  "doRelease R c userActiveIndexKey (userSlotKey i) (waitQueueKey i) i io" for i io
  by (rule slots_limiter) (rule slot_keys_distinct)+

interpretation mem_cache: redis_cache mem_redis "\<lambda>v. v" "NewConcurrencyCache minutes seconds"
  for minutes seconds
  by unfold_locales (simp add: NewConcurrencyCache_def Let_def)

subsection \<open>Client WebSocket leases\<close>

definition ws_acquire :: "'r redis_api \<Rightarrow> int \<Rightarrow> int \<Rightarrow> int \<Rightarrow> string \<Rightarrow> 'r \<Rightarrow> 'r \<times> bool" where
  "ws_acquire R i t mx q r =
     (let x = roundtrip R (t, IoOk) (acquireOpenAIWSIngressLeaseScript R (openAIWSIngressLeaseKey i)
            mx openAIWSIngressLeaseTTLSeconds q t) r
      in (fst x, snd x = Inr 1))"

definition ws_release :: "'r redis_api \<Rightarrow> int \<Rightarrow> int \<Rightarrow> string \<Rightarrow> 'r \<Rightarrow> 'r" where
  "ws_release R i t q r =
     fst (roundtrip R (t, IoOk) (\<lambda>r. (fst (ZREM R (openAIWSIngressLeaseKey i) q r), ())) r)"

definition ws_ok :: "('r \<Rightarrow> rview) \<Rightarrow> int \<Rightarrow> int \<Rightarrow> 'r \<Rightarrow> bool" where
  "ws_ok view i t r = key_ok openAIWSIngressLeaseTTLSeconds t (openAIWSIngressLeaseKey i) (view r)"

definition ws_held :: "('r \<Rightarrow> rview) \<Rightarrow> int \<Rightarrow> int \<Rightarrow> 'r \<Rightarrow> string set" where
  "ws_held view i t r =
     fset (fmdom (alive openAIWSIngressLeaseTTLSeconds t (openAIWSIngressLeaseKey i) (view r)))"

text \<open>On admissible arguments the exported operations are these two.\<close>

lemma ws_exported:
  assumes "0 < i" and "0 < mx" and "q \<noteq> []"
  shows "AcquireOpenAIWSIngressLease R (t, IoOk) i mx q r =
      (fst (ws_acquire R i t mx q r), Inr (snd (ws_acquire R i t mx q r)))"
    and "fst (ReleaseOpenAIWSIngressLease R (t, IoOk) i q r) = ws_release R i t q r"
  using assms
  by (simp_all add: AcquireOpenAIWSIngressLease_def ws_acquire_def ReleaseOpenAIWSIngressLease_def
      ws_release_def roundtrip_def Let_def)

context redis_server
begin

lemma ws_acquire_spec:
  assumes "ws_ok view i t r"
  shows "snd (ws_acquire R i t mx q r) \<longleftrightarrow> q \<in> ws_held view i t r \<or> int (card (ws_held view i t r)) < mx"
    and "ws_ok view i t (fst (ws_acquire R i t mx q r))"
    and "t \<le> t' \<Longrightarrow> ws_held view i t' (fst (ws_acquire R i t mx q r)) =
      (if snd (ws_acquire R i t mx q r) \<and> t' < t + openAIWSIngressLeaseTTLSeconds
       then insert q (ws_held view i t' r) else ws_held view i t' r)"
proof -
  let ?T = openAIWSIngressLeaseTTLSeconds and ?K = "openAIWSIngressLeaseKey i"
  let ?r0 = "AT R t r"
  let ?r1 = "ZREMRANGEBYSCORE R ?K (t - ?T) ?r0"
  let ?v = "doc_ZREMRANGEBYSCORE ?K (t - ?T) (view ?r0)"
  let ?ok = "q \<in> ws_held view i t r \<or> int (card (ws_held view i t r)) < mx"
  have T: "0 < ?T" by (simp add: openAIWSIngressLeaseTTLSeconds_def)
  have at: "slot_eq ?T t ?K (view r) ?v"
    using slot_eq_trans [OF slot_eq_at slot_eq_purge] .
  have v: "key_ok ?T t ?K ?v" "\<And>t'. t \<le> t' \<Longrightarrow> alive ?T t' ?K ?v = alive ?T t' ?K (view r)"
    using at assms by (auto simp: slot_eq_def ws_ok_def)
  have z: "rv_z ?v ?K = alive ?T t ?K (view r)"
    using v(2) [of t] by (simp add: alive_def above_above)
  have score: "ZSCORE R ?K q ?r1 \<noteq> None \<longleftrightarrow> q \<in> ws_held view i t r"
    by (simp only: zscore zremrangebyscore z ws_held_def fmlookup_dom_iff) simp
  have card: "ZCARD R ?K ?r1 = int (card (ws_held view i t r))"
    by (simp only: zcard zremrangebyscore doc_ZCARD_def z ws_held_def fcard.rep_eq)
  have eq: "ws_acquire R i t mx q r =
      (if ?ok then EXPIRE R ?K t ?T (ZADD R ?K t q ?r1) else ?r1, ?ok)"
    unfolding ws_acquire_def roundtrip_def acquireOpenAIWSIngressLeaseScript_def Let_def
      fst_conv snd_conv io.case score card by simp
  have view: "view (fst (ws_acquire R i t mx q r)) = (if ?ok then take_slot ?K t ?T q ?v else ?v)"
    unfolding eq by (simp add: expire zadd zremrangebyscore take_slot_def)
  show "snd (ws_acquire R i t mx q r) \<longleftrightarrow> ?ok"
    unfolding eq by simp
  show "ws_ok view i t (fst (ws_acquire R i t mx q r))"
    unfolding ws_ok_def view using v(1) key_ok_take [OF T v(1), of t q] by simp
  show "ws_held view i t' (fst (ws_acquire R i t mx q r)) =
      (if snd (ws_acquire R i t mx q r) \<and> t' < t + ?T
       then insert q (ws_held view i t' r) else ws_held view i t' r)" if "t \<le> t'"
    using alive_take [OF T v(1) that, of q] v(2) [OF that]
    unfolding ws_held_def view by (auto simp: eq ws_held_def)
qed

lemma ws_release_spec:
  assumes "ws_ok view i t r"
  shows "ws_ok view i t (ws_release R i t q r)"
    and "t \<le> t' \<Longrightarrow> ws_held view i t' (ws_release R i t q r) = ws_held view i t' r - {q}"
proof -
  let ?T = openAIWSIngressLeaseTTLSeconds and ?K = "openAIWSIngressLeaseKey i"
  have view: "view (ws_release R i t q r) = fst (doc_ZREM ?K q (view (AT R t r)))"
    by (simp add: ws_release_def roundtrip_def zrem)
  have at: "key_ok ?T t ?K (view (AT R t r))"
    "\<And>t'. t \<le> t' \<Longrightarrow> alive ?T t' ?K (view (AT R t r)) = alive ?T t' ?K (view r)"
    using slot_eq_at [of ?T t ?K r] assms by (auto simp: slot_eq_def ws_ok_def)
  show "ws_ok view i t (ws_release R i t q r)"
    unfolding ws_ok_def view by (rule key_ok_ZREM) (rule at)
  show "ws_held view i t' (ws_release R i t q r) = ws_held view i t' r - {q}" if "t \<le> t'"
    unfolding ws_held_def view alive_ZREM at(2) [OF that] by simp
qed

end

sublocale redis_server \<subseteq> ws: slot_limiter
  "ws_ok view i" "ws_held view i" "\<lambda>q. q" openAIWSIngressLeaseTTLSeconds
  "ws_acquire R i" "ws_release R i" for i
proof
  show "ws_held view i t' s \<subseteq> ws_held view i t s" if "t \<le> t'" for t t' s
    using alive_later [OF that] by (auto simp: ws_held_def)
  show "ws_ok view i t' s" if "ws_ok view i t s" "t \<le> t'" for t t' s
    using that key_ok_later by (simp add: ws_ok_def)
  show "finite (ws_held view i t s)" for t s
    by (simp add: ws_held_def)
  show "0 < openAIWSIngressLeaseTTLSeconds"
    by (simp add: openAIWSIngressLeaseTTLSeconds_def)
qed (simp_all add: ws_acquire_spec ws_release_spec)

context redis_cache
begin

lemmas account_run_bound = account.run_bound
lemmas user_granted = user.granted
lemmas user_granted_until_release = user.granted_until_release

end

context redis_server
begin

lemmas ws_run_bound = ws.run_bound

end

end
