(* ===== verification/Concurrency_Limits.thy ===== *)
theory Concurrency_Limits
  imports Concurrency_Cache
begin

text \<open>
  What the concurrency cache guarantees: the limits of account and user slots and of client
  WebSocket leases under every interleaving of operations, the bounds of the wait counters, the
  load rate, the start-up cleanup, and where live leases count slots that have expired.
\<close>

section \<open>Slots\<close>

text \<open>
  A client's view of the account operations: it sees every reply of the slot round trip; the
  round trips of the index may fail (\<open>io\<close>). All round trips of one operation fall into the same
  second.
\<close>

definition accountAcquire ::
  "'r redis_api \<Rightarrow> concurrencyCache \<Rightarrow> int \<Rightarrow> (int \<Rightarrow> io) \<Rightarrow> int \<Rightarrow> int \<Rightarrow> string \<Rightarrow> 'r \<Rightarrow> 'r \<times> bool" where
  "accountAcquire R c i io t mx q r =
     (let x = AcquireAccountSlot R c (t, IoOk) (t, io t) i mx q r in (fst x, snd x = Inr True))"

definition accountRelease ::
  "'r redis_api \<Rightarrow> concurrencyCache \<Rightarrow> int \<Rightarrow> (int \<Rightarrow> io) \<Rightarrow> int \<Rightarrow> string \<Rightarrow> 'r \<Rightarrow> 'r" where
  "accountRelease R c i io t q r =
     fst (ReleaseAccountSlot R c (t, IoOk) ((t, io t), (t, io t), (t, io t)) i q r)"

definition userAcquire ::
  "'r redis_api \<Rightarrow> concurrencyCache \<Rightarrow> int \<Rightarrow> (int \<Rightarrow> io) \<Rightarrow> int \<Rightarrow> int \<Rightarrow> string \<Rightarrow> 'r \<Rightarrow> 'r \<times> bool" where
  "userAcquire R c i io t mx q r =
     (let x = AcquireUserSlot R c (t, IoOk) (t, io t) i mx q r in (fst x, snd x = Inr True))"

definition userRelease ::
  "'r redis_api \<Rightarrow> concurrencyCache \<Rightarrow> int \<Rightarrow> (int \<Rightarrow> io) \<Rightarrow> int \<Rightarrow> string \<Rightarrow> 'r \<Rightarrow> 'r" where
  "userRelease R c i io t q r =
     fst (ReleaseUserSlot R c (t, IoOk) ((t, io t), (t, io t), (t, io t)) i q r)"

lemma account_ops:
  "accountAcquire R c i io =
     tryAcquire R c accountActiveIndexKey (accountSlotKey i) (liveAccountSlotKey i) i io"
  "accountRelease R c i io =
     doRelease R c accountActiveIndexKey (accountSlotKey i) (accountWaitKey i) i io"
  by (intro ext, simp add: accountAcquire_def AcquireAccountSlot_def tryAcquire_def
      accountRelease_def ReleaseAccountSlot_def doRelease_def)+

lemma user_ops:
  "userAcquire R c i io =
     tryAcquire R c userActiveIndexKey (userSlotKey i) (liveUserSlotKey i) i io"
  "userRelease R c i io =
     doRelease R c userActiveIndexKey (userSlotKey i) (waitQueueKey i) i io"
  by (intro ext, simp add: userAcquire_def AcquireUserSlot_def tryAcquire_def
      userRelease_def ReleaseUserSlot_def doRelease_def)+

definition account_held :: "('r \<Rightarrow> rview) \<Rightarrow> concurrencyCache \<Rightarrow> int \<Rightarrow> int \<Rightarrow> 'r \<Rightarrow> (bool \<times> string) set" where
  "account_held view c i t r =
     slots_held view (cc_slotTTLSeconds c) (accountSlotKey i) (liveAccountSlotKey i) t r"

definition user_held :: "('r \<Rightarrow> rview) \<Rightarrow> concurrencyCache \<Rightarrow> int \<Rightarrow> int \<Rightarrow> 'r \<Rightarrow> (bool \<times> string) set" where
  "user_held view c i t r =
     slots_held view (cc_slotTTLSeconds c) (userSlotKey i) (liveUserSlotKey i) t r"

abbreviation "account_ok view c i \<equiv>
  slots_ok view (cc_slotTTLSeconds c) (accountSlotKey i) (liveAccountSlotKey i)"

abbreviation "user_ok view c i \<equiv>
  slots_ok view (cc_slotTTLSeconds c) (userSlotKey i) (liveUserSlotKey i)"

definition empty_db :: rview where
  "empty_db = \<lparr> rv_z = (\<lambda>_. fmempty), rv_c = (\<lambda>_. None), rv_d = (\<lambda>_. None) \<rparr>"

lemma empty_db_ok: "slots_ok (\<lambda>v. v) ttl K L t empty_db" "slots_held (\<lambda>v. v) ttl K L t empty_db = {}"
  by (simp_all add: slots_ok_def slots_held_def key_ok_def alive_def above_def empty_db_def)

lemma redis_cacheI: "redis_server R view \<Longrightarrow> 0 < cc_slotTTLSeconds c \<Longrightarrow> redis_cache R view c"
  by (simp add: redis_cache_def redis_cache_axioms_def)

text \<open>
  Property C8 (safety). The concurrency limit of an account holds across all gateway processes:
  whatever the interleaving of acquisitions and releases the server executes, and whatever
  happens to the index round trips, the request slots and live leases that count at the end are
  at most as many as the largest limit used, if they were so at the start.
\<close>

theorem account_slots_bounded:
  assumes "redis_server R view" and "0 < cc_slotTTLSeconds c" and "account_ok view c i t r"
    and "int (card (account_held view c i t r)) \<le> M"
    and "timed t es t'" and "list_all (limit_within M) es"
  shows "int (card (account_held view c i t'
    (limiter_run (accountAcquire R c i io) (accountRelease R c i io) es r))) \<le> M"
  using redis_cache.account_run_bound [OF redis_cacheI [OF assms(1,2)] assms(3) _ assms(5,6)] assms(4)
  by (simp add: account_held_def account_ops)

theorem account_slots_bounded_witness:
  "int (card (account_held (\<lambda>v. v) (NewConcurrencyCache 0 0) 7 12
     (limiter_run (accountAcquire mem_redis (NewConcurrencyCache 0 0) 7 (\<lambda>_. IoFail))
       (accountRelease mem_redis (NewConcurrencyCache 0 0) 7 (\<lambda>_. IoFail))
       [Acquire 10 2 ''p-1'', Acquire 10 2 ''p-2'', Acquire 11 2 ''q-1'', Release 12 ''p-1''] empty_db))) \<le> 2"
proof (rule account_slots_bounded)
  show "redis_server mem_redis (\<lambda>v. v)"
    by (rule mem.redis_server_axioms)
  show "account_ok (\<lambda>v. v) (NewConcurrencyCache 0 0) 7 10 empty_db"
    by (rule empty_db_ok)
qed (simp_all add: NewConcurrencyCache_def account_held_def empty_db_ok)

text \<open>
  Property C9 (functional). A user slot is granted exactly when there is room: the reply of
  \<open>AcquireUserSlot\<close> is true if and only if the request already holds a slot or fewer slots than
  the limit count at that second, so that a crashed process' slots stop counting when their
  time is over. A granted slot then counts, under every later interleaving, until it is released
  or its time to live has passed.
\<close>

theorem user_slot_grant_exact:
  assumes "redis_server R view" and "0 < cc_slotTTLSeconds c" and "user_ok view c i t r"
  shows "let x = AcquireUserSlot R c (t, IoOk) (t, io t) i mx q r in
    snd x = Inr ((False, q) \<in> user_held view c i t r \<or> int (card (user_held view c i t r)) < mx) \<and>
    (\<forall>es t'. snd x = Inr True \<and> timed t es t' \<and> t' < t + cc_slotTTLSeconds c \<and>
       list_all (\<lambda>e. \<not> releases q e) es \<longrightarrow>
       (False, q) \<in> user_held view c i t'
         (limiter_run (userAcquire R c i io) (userRelease R c i io) es (fst x)))"
proof -
  note rc = redis_cacheI [OF assms(1,2)]
  let ?x = "AcquireUserSlot R c (t, IoOk) (t, io t) i mx q r"
  have bool: "snd ?x = Inr True \<or> snd ?x = Inr False"
    by (auto simp: AcquireUserSlot_def acquireSlot_def roundtrip_def Let_def acquireScript_def)
  have ua: "userAcquire R c i io t mx q r = (fst ?x, snd ?x = Inr True)"
    by (simp add: userAcquire_def Let_def)
  note g = redis_cache.user_granted [OF rc assms(3), where io = io and mx = mx and q = q,
      folded user_held_def user_ops, unfolded ua snd_conv]
  note k = redis_cache.user_granted_until_release [OF rc assms(3), where io = io and mx = mx and q = q,
      folded user_held_def user_ops, unfolded ua snd_conv fst_conv]
  have "snd ?x =
      Inr ((False, q) \<in> user_held view c i t r \<or> int (card (user_held view c i t r)) < mx)"
    using g bool by auto
  then show ?thesis
    using k unfolding Let_def by blast
qed

theorem user_slot_grant_exact_witness:
  "snd (AcquireUserSlot mem_redis (NewConcurrencyCache 0 0) (10, IoOk) (10, IoOk) 7 1 ''p-1'' empty_db) =
     Inr True"
proof -
  have "user_ok (\<lambda>v. v) (NewConcurrencyCache 0 0) 7 10 empty_db"
    by (rule empty_db_ok)
  moreover have "0 < cc_slotTTLSeconds (NewConcurrencyCache 0 0)"
    by (simp add: NewConcurrencyCache_def)
  ultimately show ?thesis
    using user_slot_grant_exact [OF mem.redis_server_axioms, where io = "\<lambda>_. IoOk" and mx = 1]
    by (simp add: Let_def user_held_def empty_db_ok)
qed

text \<open>
  Property C24 (safety). The connection limit of an API key holds for client WebSockets: under
  every interleaving of lease acquisitions and releases the leases that count never exceed the
  largest limit used. The exported operations refuse an empty lease, a non-positive key or limit
  without touching the server, and otherwise are the operations of the sequence.
\<close>

theorem ws_ingress_leases_bounded:
  assumes "redis_server R view" and "ws_ok view i t r" and "int (card (ws_held view i t r)) \<le> M"
    and "timed t es t'" and "list_all (limit_within M) es"
  shows "int (card (ws_held view i t' (limiter_run (ws_acquire R i) (ws_release R i) es r))) \<le> M \<and>
    (\<forall>mx q. 0 < i \<and> 0 < mx \<and> q \<noteq> [] \<longrightarrow>
       AcquireOpenAIWSIngressLease R (t, IoOk) i mx q r =
         (fst (ws_acquire R i t mx q r), Inr (snd (ws_acquire R i t mx q r))) \<and>
       fst (ReleaseOpenAIWSIngressLease R (t, IoOk) i q r) = ws_release R i t q r)"
  using redis_server.ws_run_bound [OF assms] ws_exported [of i _ _ R t r] by blast

theorem ws_ingress_leases_bounded_witness:
  "int (card (ws_held (\<lambda>v. v) 7 11 (limiter_run (ws_acquire mem_redis 7) (ws_release mem_redis 7)
     [Acquire 10 1 ''a'', Acquire 11 1 ''b''] empty_db))) \<le> 1"
proof -
  have "ws_ok (\<lambda>v. v) 7 10 empty_db" "int (card (ws_held (\<lambda>v. v) 7 10 empty_db)) \<le> 1"
    by (simp_all add: ws_ok_def ws_held_def key_ok_def alive_def above_def empty_db_def)
  from ws_ingress_leases_bounded [OF mem.redis_server_axioms this,
      where es = "[Acquire 10 1 ''a'', Acquire 11 1 ''b'']" and t' = 11]
  show ?thesis by simp
qed

section \<open>Wait queues\<close>

text \<open>The operations on one wait counter, with every outcome of every round trip.\<close>

datatype wait_event =
    Enter call call int \<comment> \<open>the two round trips and the limit\<close>
  | Leave call "call \<times> call \<times> call"

primrec wait_apply :: "'r redis_api \<Rightarrow> concurrencyCache \<Rightarrow> int \<Rightarrow> wait_event \<Rightarrow> 'r \<Rightarrow> 'r" where
  "wait_apply R c i (Enter c1 c2 mx) r = fst (IncrementAccountWaitCount R c c1 c2 i mx r)"
| "wait_apply R c i (Leave c1 cs) r = fst (DecrementAccountWaitCount R c c1 cs i r)"

primrec wait_limit :: "int \<Rightarrow> wait_event \<Rightarrow> bool" where
  "wait_limit M (Enter c1 c2 mx) \<longleftrightarrow> mx \<le> M"
| "wait_limit M (Leave c1 cs) \<longleftrightarrow> True"

definition count_ok :: "int \<Rightarrow> string \<Rightarrow> rview \<Rightarrow> bool" where
  "count_ok M k v = (case rv_c v k of None \<Rightarrow> True | Some n \<Rightarrow> 0 \<le> n \<and> n \<le> M)"

lemma count_ok_same: "rv_c w k = rv_c v k \<or> rv_c w k = None \<Longrightarrow> count_ok M k v \<Longrightarrow> count_ok M k w"
  by (auto simp: count_ok_def)

lemma rv_c_doc [simp]:
  "rv_c (doc_ZADD k s m v) = rv_c v" "rv_c (fst (doc_ZREM k m v)) = rv_c v"
  "rv_c (doc_ZREMRANGEBYSCORE k mx v) = rv_c v"
  by (simp_all add: doc_ZADD_def doc_ZREM_def doc_ZREMRANGEBYSCORE_def)

context redis_server
begin

lemma count_ok_at: "count_ok M k (view r) \<Longrightarrow> count_ok M k (view (AT R t r))"
proof -
  obtain E where "view (AT R t r) = drop_keys E (view r)"
    using at by blast
  then show "count_ok M k (view r) \<Longrightarrow> ?thesis"
    by (simp add: count_ok_def drop_keys_def)
qed

lemma count_ok_roundtrip:
  assumes "\<And>r. count_ok M k (view r) \<Longrightarrow> count_ok M k (view (fst (f r)))" and "count_ok M k (view r)"
  shows "count_ok M k (view (fst (roundtrip R cl f r)))"
  using assms count_ok_at [OF assms(2)]
  by (cases "snd cl") (simp_all add: roundtrip_def Let_def)

lemma count_ok_touch:
  "count_ok M k (view r) \<Longrightarrow> count_ok M k (view (touchActiveIndexAt R cl ik i e r))"
proof -
  assume ok: "count_ok M k (view r)"
  have "count_ok M k (view (fst (roundtrip R cl (\<lambda>r. (ZADD R ik e (strconv_FormatInt i) r, ())) r)))"
    by (rule count_ok_roundtrip [OF _ ok]) (simp add: zadd count_ok_def)
  with ok show ?thesis by (simp add: touchActiveIndexAt_def)
qed

lemma count_ok_refresh:
  assumes "count_ok M k (view r)"
  shows "count_ok M k (view (refreshActiveIndex R c c1 c2 c3 ik i sk wk r))"
proof -
  let ?a = "roundtrip R c1 (\<lambda>r. (r, fst c1)) r"
  let ?b = "\<lambda>now. roundtrip R c2 (readActiveLoad R c sk wk now) (fst ?a)"
  have a: "count_ok M k (view (fst ?a))"
    using assms by (intro count_ok_roundtrip) simp_all
  have b: "count_ok M k (view (fst (?b now)))" for now
    by (rule count_ok_roundtrip [OF _ a])
      (simp add: readActiveLoad_def Let_def zremrangebyscore count_ok_def)
  have z: "count_ok M k (view (fst (roundtrip R c3 (\<lambda>r. (fst (ZREM R ik m r), ())) (fst (?b now)))))"
    for m now
    by (rule count_ok_roundtrip [OF _ b]) (simp add: zrem count_ok_def)
  show ?thesis
  proof (cases "snd ?a")
    case (Inl e)
    then show ?thesis
      using assms a by (cases ?a) (auto simp: refreshActiveIndex_def)
  next
    case (Inr now)
    show ?thesis
    proof (cases "snd (?b now)")
      case x: (Inl e)
      then show ?thesis
        using assms a b [of now] Inr
        by (cases ?a; cases "?b now") (auto simp: refreshActiveIndex_def)
    next
      case x: (Inr p)
      then show ?thesis
        using assms a b [of now] z [where now = now] count_ok_touch [OF b [of now]] Inr
        by (cases ?a; cases "?b now"; cases p) (auto simp: refreshActiveIndex_def Let_def)
    qed
  qed
qed

lemma count_ok_incrementScript:
  assumes "count_ok M k (view r)" and "0 \<le> M" and "mx \<le> M" and "0 < ttl"
  shows "count_ok M k (view (fst (incrementWaitScript R k mx ttl now r)))"
  using assms
  by (auto simp: incrementWaitScript_def Let_def get incr expire doc_INCR_def count_ok_def
      split: option.splits)

lemma count_ok_decrementScript:
  assumes "count_ok M k (view r)"
  shows "count_ok M k (view (fst (decrementWaitScript R k r)))"
  using assms
  by (auto simp: decrementWaitScript_def get decr doc_DECR_def count_ok_def split: option.splits)

lemma count_ok_wait_apply:
  assumes "count_ok M (accountWaitKey i) (view r)" and "0 \<le> M" and "wait_limit M e"
    and "0 < cc_waitQueueTTLSeconds c"
  shows "count_ok M (accountWaitKey i) (view (wait_apply R c i e r))"
proof (cases e)
  case (Enter c1 c2 mx)
  let ?a = "roundtrip R c1 (incrementWaitScript R (accountWaitKey i) mx (cc_waitQueueTTLSeconds c) (fst c1)) r"
  have a: "count_ok M (accountWaitKey i) (view (fst ?a))"
    using assms Enter by (intro count_ok_roundtrip count_ok_incrementScript) simp_all
  obtain r1 x1 where r1: "?a = (r1, x1)" by (cases ?a)
  have t: "count_ok M (accountWaitKey i) (view (touchActiveIndexAt R c2 ik i e r1))" for ik e
    using count_ok_touch a r1 by simp
  show ?thesis
    using Enter a r1 t by (cases x1) (auto simp: IncrementAccountWaitCount_def incrementWait_def)
next
  case (Leave c1 cs)
  let ?a = "roundtrip R c1 (decrementWaitScript R (accountWaitKey i)) r"
  have a: "count_ok M (accountWaitKey i) (view (fst ?a))"
    using assms by (intro count_ok_roundtrip count_ok_decrementScript) simp_all
  obtain r1 x1 where r1: "?a = (r1, x1)" by (cases ?a)
  obtain c2 c3 c4 where cs: "cs = (c2, c3, c4)" by (cases cs)
  have t: "count_ok M (accountWaitKey i) (view (refreshActiveIndex R c c2 c3 c4 ik i sk wk r1))"
    for ik sk wk
    using count_ok_refresh a r1 by simp
  show ?thesis
    using Leave a r1 cs t by (cases x1) (auto simp: DecrementAccountWaitCount_def decrementWait_def)
qed

lemma count_ok_wait_run:
  assumes "count_ok M (accountWaitKey i) (view r)" and "0 \<le> M" and "list_all (wait_limit M) es"
    and "0 < cc_waitQueueTTLSeconds c"
  shows "count_ok M (accountWaitKey i) (view (fold (wait_apply R c i) es r))"
  using assms by (induction es arbitrary: r) (simp_all add: count_ok_wait_apply)

end

text \<open>
  The wait counter of an account stays between 0 and the largest queue
  limit used, whatever the order of arrivals and departures and whichever round trips fail or
  lose their reply; a departure without an arrival does not make it negative.
\<close>

theorem account_wait_count_bounded:
  assumes "redis_server R view" and "0 < cc_waitQueueTTLSeconds c" and "0 \<le> M"
    and "list_all (wait_limit M) es"
    and "count_ok M (accountWaitKey i) (view r)"
  shows "\<forall>n. rv_c (view (fold (wait_apply R c i) es r)) (accountWaitKey i) = Some n \<longrightarrow> 0 \<le> n \<and> n \<le> M"
  using redis_server.count_ok_wait_run [OF assms(1,5,3,4,2)] by (auto simp: count_ok_def)

theorem account_wait_count_bounded_witness:
  "let n = rv_c (fold (wait_apply mem_redis (NewConcurrencyCache 0 0) 7)
       [Enter (1, IoOk) (1, IoFail) 3, Leave (2, IoOk) ((2, IoFail), (2, IoFail), (2, IoFail))] empty_db) (accountWaitKey 7)
   in n \<noteq> None \<and> 0 \<le> the n \<and> the n \<le> 3"
proof -
  let ?es = "[Enter (1, IoOk) (1, IoFail) 3, Leave (2, IoOk) ((2, IoFail), (2, IoFail), (2, IoFail))]"
  have "rv_c (fold (wait_apply mem_redis (NewConcurrencyCache 0 0) 7) ?es empty_db) (accountWaitKey 7) =
      Some 0"
    by code_simp
  with account_wait_count_bounded [OF mem.redis_server_axioms, where c = "NewConcurrencyCache 0 0"
      and i = 7 and es = ?es and M = 3 and r = empty_db]
  show ?thesis
    by (simp add: NewConcurrencyCache_def count_ok_def empty_db_def)
qed

end
