(* ===== verification/Concurrency_Maintenance.thy ===== *)
theory Concurrency_Maintenance
  imports Concurrency_Limits
begin

text \<open>
  Background and start-up maintenance of the concurrency cache: reconciling expired members of
  the active indices, and removing the slots of dead processes. The one-time sweep of legacy
  wait keys that precedes the start-up cleanup is not modelled.
\<close>

section \<open>Reconciling the active index\<close>

definition CleanupExpiredAccountSlots ::
  "'r redis_api \<Rightarrow> concurrencyCache \<Rightarrow> call \<Rightarrow> call \<times> call \<times> call \<Rightarrow> int \<Rightarrow> 'r
    \<Rightarrow> 'r \<times> (redisError + int)" where
  "CleanupExpiredAccountSlots R c c1 cs accountID r =
     (case roundtrip R c1
         (cleanupExpiredSlotsScript R (accountSlotKey accountID) (cc_slotTTLSeconds c) (fst c1)) r of
        (r, Inl e) \<Rightarrow> (r, Inl e)
      | (r, Inr n) \<Rightarrow>
          (case cs of (c2, c3, c4) \<Rightarrow>
             (refreshActiveIndex R c c2 c3 c4 accountActiveIndexKey accountID
                (accountSlotKey accountID) (accountWaitKey accountID) r, Inr n)))"

record activeIndexLoad =
  ail_id :: int
  ail_member :: string
  ail_slotCount :: int
  ail_waitCount :: int

text \<open>Members that are not positive decimal IDs are stale; the others are candidates.\<close>

definition parseMember :: "string \<Rightarrow> int option" where
  "parseMember member =
     (case strconv_Atoi member of None \<Rightarrow> None | Some i \<Rightarrow> if i \<le> 0 then None else Some i)"

definition loadChunk ::
  "'r redis_api \<Rightarrow> concurrencyCache \<Rightarrow> slotIndexSpec \<Rightarrow> int \<Rightarrow> (int \<times> string) list \<Rightarrow> 'r
    \<Rightarrow> 'r \<times> activeIndexLoad list" where
  "loadChunk R c spec now chunk r =
     fold (\<lambda>(i, member) (r, loads).
         case readActiveLoad R c (sis_slotKey spec i) (sis_waitKey spec i) now r of
           (r, slotCount, waitCount) \<Rightarrow>
             (r, loads @ [\<lparr> ail_id = i, ail_member = member, ail_slotCount = slotCount,
                           ail_waitCount = waitCount \<rparr>])) chunk (r, [])"

definition activeIndexPipelineChunkSize :: nat where
  "activeIndexPipelineChunkSize = 500"

definition activeIndexCleanupBatchSize :: nat where
  "activeIndexCleanupBatchSize = 1000"

text \<open>The loop over chunks; \<open>calls n\<close> is the round trip of the \<open>n\<close>-th pipeline.\<close>

function readChunks ::
  "'r redis_api \<Rightarrow> concurrencyCache \<Rightarrow> slotIndexSpec \<Rightarrow> int \<Rightarrow> (nat \<Rightarrow> call) \<Rightarrow> nat
    \<Rightarrow> (int \<times> string) list \<Rightarrow> activeIndexLoad list \<Rightarrow> 'r \<Rightarrow> 'r \<times> (redisError + activeIndexLoad list)" where
  "readChunks R c spec now calls n candidates loads r =
     (if candidates = [] then (r, Inr loads)
      else
        case roundtrip R (calls n)
            (loadChunk R c spec now (take activeIndexPipelineChunkSize candidates)) r of
          (r, Inl e) \<Rightarrow> (r, Inl e)
        | (r, Inr ls) \<Rightarrow>
            readChunks R c spec now calls (Suc n) (drop activeIndexPipelineChunkSize candidates)
              (loads @ ls) r)"
  by pat_completeness auto
termination
  by (relation "measure (\<lambda>(R, c, spec, now, calls, n, candidates, loads, r). length candidates)")
    (auto simp: activeIndexPipelineChunkSize_def)

declare readChunks.simps [simp del]

definition readIndexLoads ::
  "'r redis_api \<Rightarrow> concurrencyCache \<Rightarrow> slotIndexSpec \<Rightarrow> (nat \<Rightarrow> call) \<Rightarrow> string list \<Rightarrow> int \<Rightarrow> 'r
    \<Rightarrow> 'r \<times> (redisError + activeIndexLoad list \<times> string list)" where
  "readIndexLoads R c spec calls members now r =
     (let staleMembers = filter (\<lambda>m. parseMember m = None) members;
          candidates =
            List.map_filter (\<lambda>m. case parseMember m of None \<Rightarrow> None | Some i \<Rightarrow> Some (i, m)) members
      in case readChunks R c spec now calls 0 candidates [] r of
           (r, Inl e) \<Rightarrow> (r, Inl e)
         | (r, Inr loads) \<Rightarrow> (r, Inr (loads, staleMembers)))"

definition removeActiveIndexMembers :: "'r redis_api \<Rightarrow> call \<Rightarrow> string \<Rightarrow> string list \<Rightarrow> 'r \<Rightarrow> 'r" where
  "removeActiveIndexMembers R c1 indexKey members r =
     (if members = [] then r
      else fst (roundtrip R c1 (\<lambda>r. (fold (\<lambda>m r. fst (ZREM R indexKey m r)) members r, ())) r))"

definition addIndexMembers :: "'r redis_api \<Rightarrow> call \<Rightarrow> string \<Rightarrow> (int \<times> string) list \<Rightarrow> 'r \<Rightarrow> 'r" where
  "addIndexMembers R c1 indexKey refreshed r =
     (if refreshed = [] then r
      else fst (roundtrip R c1 (\<lambda>r. (fold (\<lambda>(s, m) r. ZADD R indexKey s m r) refreshed r, ())) r))"

definition reconcileExpiredIndexCandidates ::
  "'r redis_api \<Rightarrow> concurrencyCache \<Rightarrow> call \<Rightarrow> call \<Rightarrow> (nat \<Rightarrow> call) \<Rightarrow> call \<Rightarrow> call \<Rightarrow> slotIndexSpec \<Rightarrow> 'r
    \<Rightarrow> 'r \<times> (redisError + unit)" where
  "reconcileExpiredIndexCandidates R c c1 c2 calls c3 c4 spec r =
     (case roundtrip R c1 (\<lambda>r. (r, fst c1)) r of
        (r, Inl e) \<Rightarrow> (r, Inl e)
      | (r, Inr now) \<Rightarrow>
          (case roundtrip R c2
              (\<lambda>r. (r, ZRANGEBYSCORE R (sis_indexKey spec) now activeIndexCleanupBatchSize r)) r of
             (r, Inl e) \<Rightarrow> (r, Inl e)
           | (r, Inr members) \<Rightarrow>
               (case readIndexLoads R c spec calls members now r of
                  (r, Inl e) \<Rightarrow> (r, Inl e)
                | (r, Inr (loads, staleMembers)) \<Rightarrow>
                    let idle = (\<lambda>l. ail_slotCount l = 0 \<and> ail_waitCount l \<le> 0);
                        staleMembers = staleMembers @ map ail_member (filter idle loads);
                        refreshed = map (\<lambda>l. (now + activeIndexTTL c (ail_slotCount l) (ail_waitCount l),
                          ail_member l)) (filter (\<lambda>l. \<not> idle l) loads);
                        r = addIndexMembers R c3 (sis_indexKey spec) refreshed r
                    in (removeActiveIndexMembers R c4 (sis_indexKey spec) staleMembers r, Inr ()))))"

definition CleanupExpiredAccountSlotKeys ::
  "'r redis_api \<Rightarrow> concurrencyCache \<Rightarrow> (bool \<Rightarrow> call \<times> call \<times> (nat \<Rightarrow> call) \<times> call \<times> call) \<Rightarrow> 'r
    \<Rightarrow> 'r \<times> (redisError + unit)" where
  "CleanupExpiredAccountSlotKeys R c io r =
     (let run = (\<lambda>b spec. case io b of (c1, c2, calls, c3, c4) \<Rightarrow>
            reconcileExpiredIndexCandidates R c c1 c2 calls c3 c4 spec)
      in case run False accountSlotIndex r of
           (r, Inl e) \<Rightarrow> (r, Inl e)
         | (r, Inr _) \<Rightarrow> run True userSlotIndex r)"

section \<open>Slots of dead processes\<close>

fun staleProcessLoop ::
  "'r redis_api \<Rightarrow> concurrencyCache \<Rightarrow> slotIndexSpec \<Rightarrow> string \<Rightarrow> int \<Rightarrow> (nat \<Rightarrow> call \<times> call) \<Rightarrow> nat
    \<Rightarrow> string list \<Rightarrow> string list \<Rightarrow> (int \<times> string) list \<Rightarrow> 'r
    \<Rightarrow> 'r \<times> (redisError + string list \<times> (int \<times> string) list)" where
  "staleProcessLoop R c spec pfx now calls n [] stale refreshed r = (r, Inr (stale, refreshed))"
| "staleProcessLoop R c spec pfx now calls n (member # members) stale refreshed r =
     (case parseMember member of
        None \<Rightarrow> staleProcessLoop R c spec pfx now calls (Suc n) members (stale @ [member]) refreshed r
      | Some i \<Rightarrow>
          (case roundtrip R (fst (calls n)) (startupCleanupSlotScript R (sis_slotKey spec i) pfx
                  (cc_slotTTLSeconds c) (fst (fst (calls n)))) r of
             (r, Inl e) \<Rightarrow> (r, Inl e)
           | (r, Inr (_, remaining)) \<Rightarrow>
               (case roundtrip R (snd (calls n)) (\<lambda>r. (DEL R (sis_waitKey spec i) r, ())) r of
                  (r, Inl e) \<Rightarrow> (r, Inl e)
                | (r, Inr _) \<Rightarrow>
                    if remaining > 0
                    then staleProcessLoop R c spec pfx now calls (Suc n) members stale
                           (refreshed @ [(now + cc_slotTTLSeconds c, member)]) r
                    else staleProcessLoop R c spec pfx now calls (Suc n) members
                           (stale @ [member]) refreshed r)))"

definition cleanupStaleProcessSlotsForIndex ::
  "'r redis_api \<Rightarrow> concurrencyCache \<Rightarrow> (nat \<Rightarrow> call \<times> call) \<Rightarrow> call \<Rightarrow> call \<Rightarrow> slotIndexSpec \<Rightarrow> string list
    \<Rightarrow> string \<Rightarrow> int \<Rightarrow> 'r \<Rightarrow> 'r \<times> (redisError + unit)" where
  "cleanupStaleProcessSlotsForIndex R c calls c1 c2 spec members pfx now r =
     (case staleProcessLoop R c spec pfx now calls 0 members [] [] r of
        (r, Inl e) \<Rightarrow> (r, Inl e)
      | (r, Inr (stale, refreshed)) \<Rightarrow>
          let r = addIndexMembers R c1 (sis_indexKey spec) refreshed r
          in (removeActiveIndexMembers R c2 (sis_indexKey spec) stale r, Inr ()))"

section \<open>Properties\<close>

text \<open>The keys whose members all belong to the running process stay so.\<close>

definition only_active :: "string \<Rightarrow> string \<Rightarrow> rview \<Rightarrow> bool" where
  "only_active p k v \<longleftrightarrow> (\<forall>m. m |\<in>| fmdom (rv_z v k) \<longrightarrow> take (length p) m = p)"

context redis_server
begin

lemma startup_loop:
  assumes "distinct ms"
  shows "let x = fold (\<lambda>member (r, removed).
            if take (length p) member \<noteq> p
            then (fst (ZREM R k member r), removed + snd (ZREM R k member r)) else (r, removed))
          ms (r, a) in
    rv_z (view (fst x)) k =
      fmfilter (\<lambda>m. m \<notin> set ms \<or> take (length p) m = p) (rv_z (view r) k) \<and>
    snd x = a + int (card {m \<in> set ms. take (length p) m \<noteq> p \<and> m |\<in>| fmdom (rv_z (view r) k)})"
  using assms
proof (induction ms arbitrary: r a)
  case Nil
  have "fmfilter (\<lambda>m. True) z = z" for z :: "(string, int) fmap"
    by (rule fmap_ext) simp
  then show ?case by simp
next
  case (Cons m ms)
  let ?z = "rv_z (view r) k"
  let ?f = "\<lambda>member (r, removed). if take (length p) member \<noteq> p
      then (fst (ZREM R k member r), removed + snd (ZREM R k member r)) else (r, removed)"
  show ?case
  proof (cases "take (length p) m = p")
    case True
    have "{x \<in> set (m # ms). take (length p) x \<noteq> p \<and> x |\<in>| fmdom ?z} =
        {x \<in> set ms. take (length p) x \<noteq> p \<and> x |\<in>| fmdom ?z}"
      using True by auto
    moreover have "fmfilter (\<lambda>x. x \<notin> set (m # ms) \<or> take (length p) x = p) ?z =
        fmfilter (\<lambda>x. x \<notin> set ms \<or> take (length p) x = p) ?z"
      using True by (intro fmap_ext) auto
    ultimately show ?thesis
      using Cons.IH [of r a] Cons.prems True by (simp add: Let_def)
  next
    case False
    let ?r = "fst (ZREM R k m r)" and ?d = "snd (ZREM R k m r)"
    have z: "rv_z (view ?r) k = fmdrop m ?z"
      by (simp add: zrem)
    have d: "?d = (if m |\<in>| fmdom ?z then 1 else 0)"
      by (simp add: zrem doc_ZREM_def)
    have "fmfilter (\<lambda>x. x \<notin> set ms \<or> take (length p) x = p) (fmdrop m ?z) =
        fmfilter (\<lambda>x. x \<notin> set (m # ms) \<or> take (length p) x = p) ?z"
      using False by (intro fmap_ext) auto
    moreover have "int (card {x \<in> set (m # ms). take (length p) x \<noteq> p \<and> x |\<in>| fmdom ?z}) =
        ?d + int (card {x \<in> set ms. take (length p) x \<noteq> p \<and> x |\<in>| fmdom (fmdrop m ?z)})"
    proof -
      let ?B = "{x \<in> set ms. take (length p) x \<noteq> p \<and> x |\<in>| fmdom (fmdrop m ?z)}"
      let ?A = "{x \<in> set (m # ms). take (length p) x \<noteq> p \<and> x |\<in>| fmdom ?z}"
      have A: "?A = (if m |\<in>| fmdom ?z then insert m ?B else ?B)"
        using False Cons.prems by auto
      have B: "finite ?B" "m \<notin> ?B"
        by simp_all
      have "card ?A = (if m |\<in>| fmdom ?z then Suc (card ?B) else card ?B)"
        unfolding A by (simp only: card_insert_disjoint [OF B] if_distrib [where f = card])
      then show ?thesis unfolding d by (cases "m |\<in>| fmdom ?z") (simp_all only: if_True if_False of_nat_Suc add_0)
    qed
    moreover have "fold ?f (m # ms) (r, a) = fold ?f ms (?r, a + ?d)"
      using False by simp
    moreover note Cons.IH [of ?r "a + ?d", unfolded Let_def z]
    ultimately show ?thesis
      using Cons.prems by (simp only: Let_def distinct.simps add.assoc)
  qed
qed

lemma startup_script:
  fixes ttl now :: int and k k' p :: string and r :: 'r
  assumes "0 < ttl"
  defines "x \<equiv> startupCleanupSlotScript R k p ttl now r"
  shows "rv_z (view (fst x)) k = fmfilter (\<lambda>m. take (length p) m = p) (rv_z (view r) k)"
    and "fst (snd x) = int (card {m. m |\<in>| fmdom (rv_z (view r) k) \<and> take (length p) m \<noteq> p})"
    and "snd (snd x) = int (card {m. m |\<in>| fmdom (rv_z (view r) k) \<and> take (length p) m = p})"
    and "k' \<noteq> k \<Longrightarrow> rv_z (view (fst x)) k' = rv_z (view r) k'"
proof -
  let ?f = "\<lambda>member (r, removed). if take (length p) member \<noteq> p
      then (fst (ZREM R k member r), removed + snd (ZREM R k member r)) else (r, removed)"
  let ?z = "rv_z (view r) k" and ?y = "fold ?f (ZRANGE R k r) (r, 0)"
  let ?good = "fmfilter (\<lambda>m. take (length p) m = p) ?z"
  have "fmfilter (\<lambda>m. m \<notin> set (ZRANGE R k r) \<or> take (length p) m = p) ?z = ?good"
    unfolding zrange(1) by (rule fmap_ext) (auto simp: fmdom_notD)
  then have y: "rv_z (view (fst ?y)) k = ?good"
    "snd ?y = int (card {m. m |\<in>| fmdom ?z \<and> take (length p) m \<noteq> p})"
    using startup_loop [OF zrange(2) [of k r], where p = p and k = k and r = r and a = 0]
    by (simp_all add: Let_def zrange(1) conj_ac)
  have other: "k' \<noteq> k \<Longrightarrow> rv_z (view (fst (fold ?f ms s))) k' = rv_z (view (fst s)) k'" for ms s
    by (induction ms arbitrary: s) (auto simp: zrem split: prod.splits)
  have n: "ZCARD R k (fst ?y) = int (card {m. m |\<in>| fmdom ?z \<and> take (length p) m = p})"
    by (simp add: zcard doc_ZCARD_def y(1) fcard.rep_eq Int_def conj_commute)
  have x: "x = (if ZCARD R k (fst ?y) = 0 then DEL R k (fst ?y) else EXPIRE R k now ttl (fst ?y),
      snd ?y, ZCARD R k (fst ?y))"
    unfolding x_def startupCleanupSlotScript_def Let_def by (cases ?y) simp
  show "fst (snd x) = int (card {m. m |\<in>| fmdom ?z \<and> take (length p) m \<noteq> p})"
    "snd (snd x) = int (card {m. m |\<in>| fmdom ?z \<and> take (length p) m = p})"
    using y(2) n x by simp_all
  have empty: "?good = fmempty" if "ZCARD R k (fst ?y) = 0"
  proof -
    have "fmdom ?good = {||}"
      using that by (simp only: zcard doc_ZCARD_def y(1) of_nat_eq_0_iff fcard_0_eq)
    then show ?thesis by (cases ?good) simp_all
  qed
  show "rv_z (view (fst x)) k = ?good"
    using empty y(1) assms(1) by (auto simp: x del doc_DEL_def expire)
  show "k' \<noteq> k \<Longrightarrow> rv_z (view (fst x)) k' = rv_z (view r) k'"
    using other [of "ZRANGE R k r" "(r, 0)"] assms(1) by (auto simp: x del doc_DEL_def expire)
qed

lemma only_active_at: "only_active p k (view r) \<Longrightarrow> only_active p k (view (AT R t r))"
proof -
  obtain E where "view (AT R t r) = drop_keys E (view r)"
    using at by blast
  then show "only_active p k (view r) \<Longrightarrow> ?thesis"
    by (simp add: only_active_def drop_keys_def)
qed

lemma only_active_roundtrip:
  assumes "\<And>r. only_active p k (view r) \<Longrightarrow> only_active p k (view (fst (f r)))"
    and "only_active p k (view r)"
  shows "only_active p k (view (fst (roundtrip R cl f r)))"
  using assms(1) only_active_at [OF assms(2)]
  by (cases "snd cl") (simp_all add: roundtrip_def Let_def)

lemma only_active_fold:
  assumes "\<And>x r. only_active p k (view r) \<Longrightarrow> only_active p k (view (g x r))"
    and "only_active p k (view r)"
  shows "only_active p k (view (fold g xs r))"
  using assms(2) by (induction xs arbitrary: r) (simp_all add: assms(1))

lemma only_active_remove:
  assumes "only_active p k (view r)"
  shows "only_active p k (view (removeActiveIndexMembers R cl ik ms r))"
proof -
  have "only_active p k (view (fst (roundtrip R cl
      (\<lambda>r. (fold (\<lambda>m r. fst (ZREM R ik m r)) ms r, ())) r)))"
  proof (intro only_active_roundtrip assms)
    fix r assume "only_active p k (view r)"
    then show "only_active p k (view (fst (fold (\<lambda>m r. fst (ZREM R ik m r)) ms r, ())))"
      unfolding fst_conv by (rule only_active_fold [rotated]) (simp add: zrem only_active_def)
  qed
  with assms show ?thesis by (simp add: removeActiveIndexMembers_def)
qed

lemma only_active_add:
  assumes "only_active p k (view r)" and "ik \<noteq> k"
  shows "only_active p k (view (addIndexMembers R cl ik ms r))"
proof -
  have "only_active p k (view (fst (roundtrip R cl
      (\<lambda>r. (fold (\<lambda>(s, m) r. ZADD R ik s m r) ms r, ())) r)))"
  proof (intro only_active_roundtrip assms(1))
    fix r assume "only_active p k (view r)"
    then show "only_active p k (view (fst (fold (\<lambda>(s, m) r. ZADD R ik s m r) ms r, ())))"
      unfolding fst_conv using assms(2)
      by (rule_tac only_active_fold [rotated]) (simp_all add: zadd only_active_def split: prod.splits)
  qed
  with assms show ?thesis by (simp add: addIndexMembers_def)
qed

lemma only_active_script:
  "0 < ttl \<Longrightarrow> only_active p k (view r) \<Longrightarrow>
    only_active p k (view (fst (startupCleanupSlotScript R k' p ttl now r)))"
  by (cases "k' = k") (simp_all add: only_active_def startup_script)

lemma only_active_script_own:
  "0 < ttl \<Longrightarrow> only_active p k (view (fst (startupCleanupSlotScript R k p ttl now r)))"
  by (simp add: only_active_def startup_script)

lemma only_active_DEL: "only_active p k (view r) \<Longrightarrow> only_active p k (view (DEL R k' r))"
  by (simp add: only_active_def del doc_DEL_def)

lemma only_active_loop:
  assumes "staleProcessLoop R c spec p now calls n members stale refreshed r = (r', Inr x)"
    and "0 < cc_slotTTLSeconds c"
    and "only_active p k (view r) \<or> (\<exists>m \<in> set members. \<exists>i. parseMember m = Some i \<and> sis_slotKey spec i = k)"
  shows "only_active p k (view r')"
  using assms
proof (induction members arbitrary: n stale refreshed r)
  case Nil
  then show ?case by simp
next
  case (Cons m ms)
  show ?case
  proof (cases "parseMember m")
    case None
    then show ?thesis using Cons by auto
  next
    case (Some i)
    let ?script = "startupCleanupSlotScript R (sis_slotKey spec i) p (cc_slotTTLSeconds c) (fst (fst (calls n)))"
    let ?a = "roundtrip R (fst (calls n)) ?script r"
    obtain r1 y where a: "?a = (r1, y)" by (cases ?a)
    show ?thesis
    proof (cases y)
      case (Inl e)
      then show ?thesis using Cons.prems(1) Some a by simp
    next
      case (Inr q)
      obtain n1 remaining where q: "q = (n1, remaining)" by (cases q)
      let ?b = "roundtrip R (snd (calls n)) (\<lambda>r. (DEL R (sis_waitKey spec i) r, ())) r1"
      obtain r2 y2 where b: "?b = (r2, y2)" by (cases ?b)
      have y2: "\<exists>u. y2 = Inr u"
        using Cons.prems(1) Some a Inr q b by (cases y2) simp_all
      have r1: "r1 = fst (?script (AT R (fst (fst (calls n))) r))"
        using a Inr by (cases "snd (fst (calls n))") (auto simp: roundtrip_def Let_def)
      have own: "only_active p k (view r1)"
        if "only_active p k (view r) \<or> sis_slotKey spec i = k"
        using that only_active_script [OF Cons.prems(2) only_active_at] only_active_script_own [OF Cons.prems(2)]
        unfolding r1 by blast
      have "only_active p k (view r2)" if "only_active p k (view r1)"
        using only_active_roundtrip [OF _ that, where f = "\<lambda>r. (DEL R (sis_waitKey spec i) r, ())"
            and cl = "snd (calls n)"] only_active_DEL b by simp
      then have "only_active p k (view r2) \<or>
          (\<exists>m \<in> set ms. \<exists>i. parseMember m = Some i \<and> sis_slotKey spec i = k)"
        using Cons.prems(3) own Some by auto
      from Cons.IH [OF _ Cons.prems(2) this] show ?thesis
        using Cons.prems(1) Some a Inr q b y2 by (auto split: if_splits)
    qed
  qed
qed

lemma only_active_cleanup:
  assumes "snd (cleanupStaleProcessSlotsForIndex R c calls c1 c2 spec members p now r) = Inr ()"
    and "0 < cc_slotTTLSeconds c" and "m \<in> set members" and "parseMember m = Some i"
    and "sis_indexKey spec \<noteq> sis_slotKey spec i"
  shows "only_active p (sis_slotKey spec i)
    (view (fst (cleanupStaleProcessSlotsForIndex R c calls c1 c2 spec members p now r)))"
proof -
  obtain r1 x where l: "staleProcessLoop R c spec p now calls 0 members [] [] r = (r1, x)"
    by (cases "staleProcessLoop R c spec p now calls 0 members [] [] r")
  obtain stale refreshed where x: "x = Inr (stale, refreshed)"
    using assms(1) l by (cases x) (auto simp: cleanupStaleProcessSlotsForIndex_def)
  have "only_active p (sis_slotKey spec i) (view r1)"
    using only_active_loop [OF l [unfolded x] assms(2)] assms(3,4) by blast
  then show ?thesis
    using only_active_add [OF _ assms(5)] only_active_remove l x
    by (simp add: cleanupStaleProcessSlotsForIndex_def Let_def)
qed

end

text \<open>
  The start-up script removes from a slot key exactly the members of
  other processes: what stays is every member with the running process' prefix, unchanged, the
  two replies are the number removed and the number kept, and no other key is touched.
\<close>

theorem startup_cleanup_exact:
  assumes "redis_server R view" and "0 < slotTTL"
  shows "let x = startupCleanupSlotScript R key pfx slotTTL now r;
        mine = (\<lambda>m. take (length pfx) m = pfx); before = fset (fmdom (rv_z (view r) key)) in
    rv_z (view (fst x)) key = fmfilter mine (rv_z (view r) key) \<and>
    snd x = (int (card {m \<in> before. \<not> mine m}), int (card {m \<in> before. mine m})) \<and>
    (\<forall>k. k \<noteq> key \<longrightarrow> rv_z (view (fst x)) k = rv_z (view r) k)"
  using redis_server.startup_script [OF assms, where p = pfx and k = key and r = r and now = now]
  by (simp add: Let_def prod_eq_iff)

theorem startup_cleanup_exact_witness:
  "snd (startupCleanupSlotScript mem_redis ''k'' ''p-'' 60 5
     (doc_ZADD ''k'' 1 ''q-1'' (doc_ZADD ''k'' 2 ''p-1'' empty_db))) = (1, 1)"
proof -
  have "{m. (m = ''q-1'' \<or> m = ''p-1'') \<and> take (Suc (Suc 0)) m \<noteq> ''p-''} = {''q-1''}"
    "{m. (m = ''q-1'' \<or> m = ''p-1'') \<and> take (Suc (Suc 0)) m = ''p-''} = {''p-1''}"
    by auto
  with startup_cleanup_exact [OF mem.redis_server_axioms, where slotTTL = 60 and key = "''k''"
      and pfx = "''p-''" and now = 5
      and r = "doc_ZADD ''k'' 1 ''q-1'' (doc_ZADD ''k'' 2 ''p-1'' empty_db)"]
  show ?thesis by (simp add: Let_def empty_db_def)
qed

text \<open>
  Property C26 (safety). When the start-up cleanup of the account index reports success, no slot
  of a dead process counts any more: every member left in the slot key of every listed account
  carries the prefix of the running process, whatever the round trips of the index update did.
\<close>

theorem stale_process_slots_removed:
  assumes "redis_server R view" and "0 < cc_slotTTLSeconds c"
    and "snd (cleanupStaleProcessSlotsForIndex R c calls c1 c2 accountSlotIndex members pfx now r) = Inr ()"
    and "m \<in> set members" and "strconv_Atoi m = Some i" and "0 < i"
  shows "\<forall>q. q |\<in>| fmdom (rv_z (view (fst (cleanupStaleProcessSlotsForIndex R c calls c1 c2
      accountSlotIndex members pfx now r))) (accountSlotKey i)) \<longrightarrow> take (length pfx) q = pfx"
  using redis_server.only_active_cleanup [OF assms(1,3,2,4), where i = i] assms(1,5,6)
    slot_keys_distinct(3) [of i]
  by (simp add: parseMember_def accountSlotIndex_def only_active_def)

theorem stale_process_slots_removed_witness:
  "let r = doc_ZADD (accountSlotKey 7) 1 ''q-1'' (doc_ZADD (accountSlotKey 7) 2 ''p-1'' empty_db);
       ok = (5, IoOk) in
   fset (fmdom (rv_z (fst (cleanupStaleProcessSlotsForIndex mem_redis (NewConcurrencyCache 0 0)
      (\<lambda>_. (ok, ok)) ok ok accountSlotIndex [''7''] ''p-'' 5 r)) (accountSlotKey 7))) \<subseteq>
   {q. take 2 q = ''p-''}"
proof -
  let ?r = "doc_ZADD (accountSlotKey 7) 1 ''q-1'' (doc_ZADD (accountSlotKey 7) 2 ''p-1'' empty_db)"
  have "snd (cleanupStaleProcessSlotsForIndex mem_redis (NewConcurrencyCache 0 0)
      (\<lambda>_. ((5, IoOk), (5, IoOk))) (5, IoOk) (5, IoOk) accountSlotIndex [''7''] ''p-'' 5 ?r) = Inr ()"
    by code_simp
  moreover have "strconv_Atoi ''7'' = Some 7" "0 < cc_slotTTLSeconds (NewConcurrencyCache 0 0)"
    by code_simp+
  ultimately show ?thesis
    using stale_process_slots_removed [OF mem.redis_server_axioms, where r = ?r and i = 7
        and m = "''7''" and members = "[''7'']" and pfx = "''p-''"
        and c = "NewConcurrencyCache 0 0" and calls = "\<lambda>_. ((5, IoOk), (5, IoOk))"
        and ?c1.0 = "(5, IoOk)" and ?c2.0 = "(5, IoOk)" and now = 5]
    by (simp add: Let_def numeral_2_eq_2 subset_eq)
qed

text \<open>
  The load rate the scheduler compares with 100 is faithful to the limit:
  it is below 100 exactly when running and waiting requests together are below the limit.
\<close>

theorem load_rate_threshold:
  assumes "0 < maxConcurrency" and "0 \<le> current" and "0 \<le> waiting"
  shows "(loadRate current waiting maxConcurrency < 100 \<longleftrightarrow> current + waiting < maxConcurrency) \<and>
    0 \<le> loadRate current waiting maxConcurrency"
proof -
  let ?a = "(current + waiting) * 100"
  have "100 * maxConcurrency \<le> ?a" if "100 \<le> ?a div maxConcurrency"
  proof -
    have "maxConcurrency * 100 \<le> maxConcurrency * (?a div maxConcurrency)"
      using that assms(1) by (intro mult_left_mono) simp_all
    also have "\<dots> \<le> ?a"
      using assms(1) by (simp add: minus_mod_eq_mult_div [symmetric])
    finally show ?thesis by simp
  qed
  moreover have "100 \<le> ?a div maxConcurrency" if "100 * maxConcurrency \<le> ?a"
    using zdiv_mono1 [OF that assms(1)] assms(1) by simp
  moreover have "100 * maxConcurrency \<le> ?a \<longleftrightarrow> maxConcurrency \<le> current + waiting"
    by auto
  ultimately have "?a div maxConcurrency < 100 \<longleftrightarrow> current + waiting < maxConcurrency"
    unfolding not_le [symmetric] by blast
  then show ?thesis
    using assms by (simp add: loadRate_def Let_def pos_imp_zdiv_nonneg_iff)
qed

theorem load_rate_threshold_witness: "loadRate 1 1 3 < 100"
  using load_rate_threshold [of 3 1 1] by simp

text \<open>
  A live lease can be refused on account of a slot that has expired:
  \<open>acquireLiveLeaseScript\<close> does not purge the two sets of request slots it counts. Here the only
  slot of account 7 expired at second 910; at second 911 \<open>AcquireLiveLease\<close> with limit 1 says
  no, although at the same second \<open>AcquireAccountSlot\<close> with limit 1 says yes.
\<close>

theorem live_lease_counts_expired_slots:
  "let c = NewConcurrencyCache 15 0;
       r = doc_ZADD (accountSlotKey 7) 10 ''p-1'' empty_db in
   snd (AcquireLiveLease mem_redis (911, IoOk) 7 1 1 1 1 ''lease'' False r) = Inr False \<and>
   snd (AcquireAccountSlot mem_redis c (911, IoOk) (911, IoOk) 7 1 ''p-2'' r) = Inr True"
  by code_simp

end
