(* ===== verification/Aho_Corasick.thy ===== *)
theory Aho_Corasick
  imports Main "HOL-Library.Sublist"
begin

text \<open>
  The mathematics of a keyword automaton, apart from any representation: the states are the
  words of a prefix-closed set \<open>W\<close>, the state after reading a text is the longest suffix of the
  text in \<open>W\<close>, and the failure link of a state is the longest such suffix of its tail.
\<close>

text \<open>The longest suffix of a word that lies in \<open>W\<close> (the empty word if there is no other).\<close>

fun lsuf :: "'a list set \<Rightarrow> 'a list \<Rightarrow> 'a list" where
  "lsuf W [] = []"
| "lsuf W (c # w) = (if c # w \<in> W then c # w else lsuf W w)"

lemma lsuf_suffix: "suffix (lsuf W w) w"
  by (induction w) (auto intro: suffix_ConsI)

lemma length_lsuf_le: "length (lsuf W w) \<le> length w"
  using lsuf_suffix by (rule suffix_length_le)

lemma lsuf_id [simp]: "w \<in> W \<Longrightarrow> lsuf W w = w"
  by (cases w) simp_all

lemma suffix_lsuf: "suffix v w \<Longrightarrow> v \<in> W \<Longrightarrow> suffix v (lsuf W w)"
  by (induction w) (auto simp: suffix_Cons)

lemma length_lsuf_tl: "v \<noteq> [] \<Longrightarrow> length (lsuf W (tl v)) < length v"
  using length_lsuf_le [of W "tl v"] by (cases v) simp_all

locale keyword_trie =
  fixes W :: "'a list set"
  assumes root: "[] \<in> W"
    and closed: "w @ [c] \<in> W \<Longrightarrow> w \<in> W"
begin

lemma lsuf_in: "lsuf W w \<in> W"
  by (induction w) (auto simp: root)

lemma lsuf_eqI:
  assumes "v \<in> W" and "suffix v w" and "\<And>x. x \<in> W \<Longrightarrow> suffix x w \<Longrightarrow> length x \<le> length v"
  shows "lsuf W w = v"
proof -
  have "length (lsuf W w) \<le> length v"
    using assms(3) lsuf_in lsuf_suffix by blast
  moreover have "suffix v (lsuf W w)"
    using assms(1,2) by (intro suffix_lsuf)
  ultimately show ?thesis
    by (metis suffix_length_le suffix_order.eq_iff suffix_same_cases suffix_def append_eq_append_conv
        append_Nil le_antisym)
qed

text \<open>Reading one more letter needs only the current state.\<close>

lemma lsuf_snoc: "lsuf W (w @ [c]) = lsuf W (lsuf W w @ [c])"
proof (rule lsuf_eqI)
  show "lsuf W (lsuf W w @ [c]) \<in> W"
    by (rule lsuf_in)
  show "suffix (lsuf W (lsuf W w @ [c])) (w @ [c])"
    using lsuf_suffix [of W "lsuf W w @ [c]"] lsuf_suffix [of W w]
    by (meson suffix_appendI suffix_order.trans suffix_snoc same_suffix_suffix)
  show "length x \<le> length (lsuf W (lsuf W w @ [c]))" if "x \<in> W" "suffix x (w @ [c])" for x
  proof (cases x rule: rev_cases)
    case Nil
    then show ?thesis by simp
  next
    case (snoc y d)
    have "y \<in> W" "suffix y w" "d = c"
      using that snoc closed by auto
    then have "suffix x (lsuf W w @ [c])"
      using snoc suffix_lsuf by auto
    with that(1) show ?thesis
      by (intro suffix_length_le suffix_lsuf)
  qed
qed

lemma lsuf_fail:
  assumes "v \<noteq> []" and "v @ [c] \<notin> W"
  shows "lsuf W (v @ [c]) = lsuf W (lsuf W (tl v) @ [c])"
proof -
  have "lsuf W (v @ [c]) = lsuf W (tl v @ [c])"
    using assms by (cases v) simp_all
  then show ?thesis by (simp add: lsuf_snoc [of "tl v"])
qed

text \<open>The failure link of a child, in terms of the failure link of its parent.\<close>

lemma lsuf_tl_snoc: "v \<noteq> [] \<Longrightarrow> lsuf W (tl (v @ [c])) = lsuf W (lsuf W (tl v) @ [c])"
  using lsuf_snoc [of "tl v"] by (cases v) simp_all

text \<open>The words of \<open>W\<close> that end a state are the state itself and those that end its failure state.\<close>

lemma suffix_state:
  assumes "x \<in> W"
  shows "suffix x v \<longleftrightarrow> x = v \<or> suffix x (lsuf W (tl v))"
proof -
  have "suffix x (lsuf W (tl v)) \<Longrightarrow> suffix x v"
    using lsuf_suffix [of W "tl v"] by (meson suffix_order.trans suffix_tl)
  moreover have "suffix x v \<Longrightarrow> x \<noteq> v \<Longrightarrow> suffix x (lsuf W (tl v))"
    using assms suffix_lsuf by (cases v) (auto simp: suffix_Cons)
  ultimately show ?thesis by auto
qed

text \<open>The words of \<open>W\<close> that end a text are those that end its state.\<close>

lemma suffix_text: "x \<in> W \<Longrightarrow> suffix x (lsuf W w) \<longleftrightarrow> suffix x w"
  using lsuf_suffix [of W w] suffix_lsuf [of x w W] by (meson suffix_order.trans)

end

end
