(* ===== verification/Keyword_Matcher.thy ===== *)
theory Keyword_Matcher
  imports Go_Prelude Aho_Corasick "HOL-Library.Monad_Syntax" "HOL-Library.Char_ord"
begin

text \<open>
  The keyword automaton of content moderation
  (\<open>internal/service/content_moderation_keyword_matcher.go\<close>): building the trie, its failure
  links and its sorted edge table, and scanning a text.

  Slices are lists, an access out of range panics; a loop that need not end is a partial function.
  Both outcomes are \<open>None\<close>, so that a result \<open>Some\<close> means: no panic, and every loop ended.
  Indices are kept at the widths of the source: \<open>int32\<close>, \<open>uint32\<close> and \<open>uint16\<close> are the
  conversions. The array of root transitions is a function of the byte. \<open>u\<close> is the conversion
  \<open>strings.ToLower\<close> applies to strings that are not ASCII.
\<close>

section \<open>Data\<close>

definition int32 :: "int \<Rightarrow> int" where
  "int32 n = (n + 2 ^ 31) mod 2 ^ 32 - 2 ^ 31"

definition uint32 :: "int \<Rightarrow> int" where
  "uint32 n = n mod 2 ^ 32"

definition uint16 :: "int \<Rightarrow> int" where
  "uint16 n = n mod 2 ^ 16"

record kwNode =
  kn_failure :: int
  kn_bestKeyword :: int
  kn_edgeStart :: int
  kn_edgeCount :: int

record kwEdge =
  ke_target :: int
  ke_label :: char

record kwBuildEdge =
  be_target :: int
  be_nextSibling :: int
  be_label :: char

record contentModerationKeywordMatcher =
  km_nodes :: "kwNode list"
  km_edges :: "kwEdge list"
  km_rootTransitions :: "char \<Rightarrow> int"
  km_keywords :: "string list"

definition slice_at :: "'a list \<Rightarrow> int \<Rightarrow> 'a option" where
  "slice_at xs i = (if 0 \<le> i \<and> i < int (length xs) then Some (xs ! nat i) else None)"

primrec ofold :: "('a \<Rightarrow> 's \<Rightarrow> 's option) \<Rightarrow> 'a list \<Rightarrow> 's \<Rightarrow> 's option" where
  "ofold f [] s = Some s"
| "ofold f (x # xs) s = f x s \<bind> ofold f xs"

section \<open>Helpers of the builder\<close>

definition newContentModerationKeywordNode :: kwNode where
  "newContentModerationKeywordNode =
     \<lparr> kn_failure = 0, kn_bestKeyword = -1, kn_edgeStart = 0, kn_edgeCount = 0 \<rparr>"

definition contentModerationKeywordBuildFirstEdge :: "kwNode \<Rightarrow> int" where
  "contentModerationKeywordBuildFirstEdge node =
     (if kn_edgeStart node = 0 then -1 else int32 (uint32 (kn_edgeStart node - 1)))"

text \<open>The loop over a node's edges with its early return, and the edges such a loop visits.\<close>

partial_function (option) findEdge :: "kwBuildEdge list \<Rightarrow> char \<Rightarrow> int \<Rightarrow> int option" where
  "findEdge edges label edgeIndex =
     (if edgeIndex < 0 then Some (-1)
      else do {
        e \<leftarrow> slice_at edges edgeIndex;
        if be_label e = label then Some (be_target e) else findEdge edges label (be_nextSibling e)
      })"

partial_function (option) siblings :: "kwBuildEdge list \<Rightarrow> int \<Rightarrow> kwBuildEdge list option" where
  "siblings edges edgeIndex =
     (if edgeIndex < 0 then Some []
      else do {
        e \<leftarrow> slice_at edges edgeIndex;
        es \<leftarrow> siblings edges (be_nextSibling e);
        Some (e # es)
      })"

declare findEdge.simps [code] siblings.simps [code]

definition contentModerationKeywordBuildTransition ::
  "kwNode list \<Rightarrow> kwBuildEdge list \<Rightarrow> int \<Rightarrow> char \<Rightarrow> int option" where
  "contentModerationKeywordBuildTransition nodes edges state label =
     (if state < 0 \<or> state \<ge> int (length nodes) then Some (-1)
      else findEdge edges label (contentModerationKeywordBuildFirstEdge (nodes ! nat state)))"

definition minKeywordIndex :: "int \<Rightarrow> int \<Rightarrow> int" where
  "minKeywordIndex left right =
     (if left < 0 then right else if right < 0 \<or> left < right then left else right)"

section \<open>Building\<close>

subsection \<open>The trie\<close>

definition insertLabel ::
  "char \<Rightarrow> kwNode list \<times> kwBuildEdge list \<times> int \<Rightarrow> (kwNode list \<times> kwBuildEdge list \<times> int) option" where
  "insertLabel label = (\<lambda>(nodes, edges, state). do {
     next \<leftarrow> contentModerationKeywordBuildTransition nodes edges state label;
     if next < 0 then do {
       let next = int32 (int (length nodes));
       let nodes = nodes @ [newContentModerationKeywordNode];
       node \<leftarrow> slice_at nodes state;
       let edges = edges @ [\<lparr> be_target = next,
             be_nextSibling = contentModerationKeywordBuildFirstEdge node, be_label = label \<rparr>];
       Some (nodes[nat state := node \<lparr> kn_edgeStart := uint32 (int (length edges)) \<rparr>], edges, next)
     } else Some (nodes, edges, next)
   })"

definition insertKeyword ::
  "(string \<Rightarrow> string) \<Rightarrow> nat \<times> string \<Rightarrow> kwNode list \<times> kwBuildEdge list
    \<Rightarrow> (kwNode list \<times> kwBuildEdge list) option" where
  "insertKeyword u = (\<lambda>(keywordIndex, keyword) (nodes, edges).
     if keyword = [] then Some (nodes, edges)
     else do {
       (nodes, edges, state) \<leftarrow> ofold insertLabel (strings_ToLower u keyword) (nodes, edges, 0);
       node \<leftarrow> slice_at nodes state;
       let current = kn_bestKeyword node;
       Some (if current < 0 \<or> int32 (int keywordIndex) < current
             then nodes[nat state := node \<lparr> kn_bestKeyword := int32 (int keywordIndex) \<rparr>] else nodes,
             edges)
     })"

subsection \<open>Failure links\<close>

partial_function (option) fallbackLoop ::
  "kwNode list \<Rightarrow> kwBuildEdge list \<Rightarrow> char \<Rightarrow> int \<Rightarrow> int \<Rightarrow> int option" where
  "fallbackLoop nodes edges label failure fallback =
     (if fallback < 0 \<and> failure \<noteq> 0 then do {
        node \<leftarrow> slice_at nodes failure;
        fallback \<leftarrow> contentModerationKeywordBuildTransition nodes edges (kn_failure node) label;
        fallbackLoop nodes edges label (kn_failure node) fallback
      } else Some fallback)"

definition linkEdge ::
  "kwBuildEdge list \<Rightarrow> int \<Rightarrow> kwBuildEdge \<Rightarrow> kwNode list \<times> int list \<Rightarrow> (kwNode list \<times> int list) option" where
  "linkEdge edges state edge = (\<lambda>(nodes, queue). do {
     node \<leftarrow> slice_at nodes state;
     fallback \<leftarrow> contentModerationKeywordBuildTransition nodes edges (kn_failure node) (be_label edge);
     fallback \<leftarrow> fallbackLoop nodes edges (be_label edge) (kn_failure node) fallback;
     target \<leftarrow> slice_at nodes (be_target edge);
     let target = (if fallback \<ge> 0 then target \<lparr> kn_failure := fallback \<rparr> else target);
     let nodes = nodes[nat (be_target edge) := target];
     fnode \<leftarrow> slice_at nodes (kn_failure target);
     let target = target \<lparr> kn_bestKeyword := minKeywordIndex (kn_bestKeyword target) (kn_bestKeyword fnode) \<rparr>;
     Some (nodes[nat (be_target edge) := target], queue @ [be_target edge])
   })"

partial_function (option) linkLoop ::
  "kwBuildEdge list \<Rightarrow> nat \<Rightarrow> kwNode list \<Rightarrow> int list \<Rightarrow> kwNode list option" where
  "linkLoop edges queueIndex nodes queue =
     (if queueIndex < length queue then do {
        node \<leftarrow> slice_at nodes (queue ! queueIndex);
        es \<leftarrow> siblings edges (contentModerationKeywordBuildFirstEdge node);
        (nodes, queue) \<leftarrow> ofold (linkEdge edges (queue ! queueIndex)) es (nodes, queue);
        linkLoop edges (Suc queueIndex) nodes queue
      } else Some nodes)"

declare fallbackLoop.simps [code] linkLoop.simps [code]

subsection \<open>The edge table\<close>

text \<open>The insertion sort of the \<open>outgoing\<close> array: shifting, and the loop over the index.\<close>

primrec shiftInto :: "kwEdge \<Rightarrow> nat \<Rightarrow> kwEdge list \<Rightarrow> kwEdge list" where
  "shiftInto current 0 outgoing = outgoing[0 := current]"
| "shiftInto current (Suc i) outgoing =
     (if ke_label current < ke_label (outgoing ! i)
      then shiftInto current i (outgoing[Suc i := outgoing ! i])
      else outgoing[Suc i := current])"

definition sortOutgoing :: "kwEdge list \<Rightarrow> kwEdge list" where
  "sortOutgoing outgoing =
     fold (\<lambda>index outgoing. shiftInto (outgoing ! index) index outgoing) [1..<length outgoing] outgoing"

text \<open>\<open>outgoing\<close> has 256 entries; of it only the first \<open>count\<close>, written for this node, are used.\<close>

definition flattenNode ::
  "kwBuildEdge list \<Rightarrow> nat \<Rightarrow> kwNode list \<times> kwEdge list \<Rightarrow> (kwNode list \<times> kwEdge list) option" where
  "flattenNode buildEdges nodeIndex = (\<lambda>(nodes, edges). do {
     node \<leftarrow> slice_at nodes (int nodeIndex);
     es \<leftarrow> siblings buildEdges (contentModerationKeywordBuildFirstEdge node);
     if length es > 256 then None
     else do {
       let outgoing = sortOutgoing (map (\<lambda>e. \<lparr> ke_target = be_target e, ke_label = be_label e \<rparr>) es);
       Some (nodes[nodeIndex := node \<lparr> kn_edgeStart := uint32 (int (length edges)),
               kn_edgeCount := uint16 (int (length outgoing)) \<rparr>], edges @ outgoing)
     }
   })"

text \<open>The outer option is the outcome, the inner one Go's nil matcher.\<close>

definition newContentModerationKeywordMatcher ::
  "(string \<Rightarrow> string) \<Rightarrow> string list \<Rightarrow> contentModerationKeywordMatcher option option" where
  "newContentModerationKeywordMatcher u keywords =
     (if keywords = [] then Some None
      else do {
        (nodes, buildEdges) \<leftarrow> ofold (insertKeyword u) (enumerate 0 keywords)
            ([newContentModerationKeywordNode], []);
        if length nodes = 1 then Some None
        else do {
          root \<leftarrow> slice_at nodes 0;
          es \<leftarrow> siblings buildEdges (contentModerationKeywordBuildFirstEdge root);
          let rootTransitions = fold (\<lambda>e f. f(be_label e := be_target e)) es (\<lambda>_. 0);
          nodes \<leftarrow> linkLoop buildEdges 0 nodes (map be_target es);
          (nodes, edges) \<leftarrow> ofold (flattenNode buildEdges) [0..<length nodes] (nodes, []);
          Some (Some \<lparr> km_nodes = nodes, km_edges = edges, km_rootTransitions = rootTransitions,
                       km_keywords = keywords \<rparr>)
        }
      })"

section \<open>Scanning\<close>

function searchEdge :: "kwEdge list \<Rightarrow> char \<Rightarrow> int \<Rightarrow> int \<Rightarrow> int option" where
  "searchEdge edges label left right =
     (if left < right then do {
        let middle = left + (right - left) div 2;
        edge \<leftarrow> slice_at edges middle;
        if ke_label edge < label then searchEdge edges label (middle + 1) right
        else searchEdge edges label left middle
      } else Some left)"
  by pat_completeness auto
termination
  by (relation "measure (\<lambda>(edges, label, left, right). nat (right - left))") auto

declare searchEdge.simps [simp del]

definition km_next :: "contentModerationKeywordMatcher \<Rightarrow> int \<Rightarrow> char \<Rightarrow> int option" where
  "km_next m state label =
     (if state = 0 then Some (km_rootTransitions m label)
      else if state < 0 \<or> state \<ge> int (length (km_nodes m)) then Some 0
      else do {
        let node = km_nodes m ! nat state;
        let end = kn_edgeStart node + kn_edgeCount node;
        left \<leftarrow> searchEdge (km_edges m) label (kn_edgeStart node) end;
        if left < end then do {
          edge \<leftarrow> slice_at (km_edges m) left;
          Some (if ke_label edge = label then ke_target edge else 0)
        } else Some 0
      })"

partial_function (option) advance ::
  "contentModerationKeywordMatcher \<Rightarrow> char \<Rightarrow> int \<Rightarrow> int option" where
  "advance m label state = do {
     next \<leftarrow> km_next m state label;
     if next \<noteq> 0 then Some next
     else if state = 0 then Some state
     else do {
       node \<leftarrow> slice_at (km_nodes m) state;
       advance m label (kn_failure node)
     }
   }"

declare advance.simps [code]

fun scanText ::
  "contentModerationKeywordMatcher \<Rightarrow> string \<Rightarrow> int \<Rightarrow> int \<Rightarrow> string option option" where
  "scanText m [] state bestKeyword =
     (if bestKeyword < 0 \<or> bestKeyword \<ge> int (length (km_keywords m)) then Some None
      else map_option Some (slice_at (km_keywords m) bestKeyword))"
| "scanText m (label # lower) state bestKeyword = do {
     state \<leftarrow> advance m label state;
     node \<leftarrow> slice_at (km_nodes m) state;
     let bestKeyword = minKeywordIndex bestKeyword (kn_bestKeyword node);
     if bestKeyword = 0 then map_option Some (slice_at (km_keywords m) 0)
     else scanText m lower state bestKeyword
   }"

text \<open>The inner option is the pair of keyword and flag: \<open>None\<close> is \<open>("", false)\<close>.\<close>

definition Match ::
  "(string \<Rightarrow> string) \<Rightarrow> contentModerationKeywordMatcher option \<Rightarrow> string \<Rightarrow> string option option" where
  "Match u m text =
     (case m of
        None \<Rightarrow> Some None
      | Some m \<Rightarrow>
          if text = [] \<or> km_nodes m = [] \<or> km_keywords m = [] then Some None
          else scanText m (strings_ToLower u text) 0 (-1))"

end
