(* ===== verification/Keyword_Trie.thy ===== *)
theory Keyword_Trie
  imports Keyword_Matcher
begin

text \<open>
  The first phase of the keyword matcher: inserting the keywords builds a trie whose nodes are
  the prefixes of the keywords. The nodes are numbered in the order of a list \<open>ws\<close> of words.
\<close>

section \<open>Slices, conversions and loops\<close>

lemma slice_at_int [simp]: "i < length xs \<Longrightarrow> slice_at xs (int i) = Some (xs ! i)"
  by (simp add: slice_at_def)

lemma slice_at_SomeD: "slice_at xs i = Some x \<Longrightarrow> 0 \<le> i \<and> i < int (length xs) \<and> x = xs ! nat i"
  by (auto simp: slice_at_def split: if_splits)

lemma slice_at_append: "slice_at xs i = Some x \<Longrightarrow> slice_at (xs @ ys) i = Some x"
  by (auto simp: slice_at_def nth_append nat_less_iff split: if_splits)

lemma int32_small [simp]: "0 \<le> n \<Longrightarrow> n < 2 ^ 31 \<Longrightarrow> int32 n = n"
  by (simp add: int32_def)

lemma uint32_small [simp]: "0 \<le> n \<Longrightarrow> n < 2 ^ 32 \<Longrightarrow> uint32 n = n"
  by (simp add: uint32_def)

lemma uint16_small [simp]: "0 \<le> n \<Longrightarrow> n < 2 ^ 16 \<Longrightarrow> uint16 n = n"
  by (simp add: uint16_def)

lemma firstEdge_eq:
  "0 \<le> kn_edgeStart n \<Longrightarrow> kn_edgeStart n \<le> 2 ^ 31 \<Longrightarrow>
    contentModerationKeywordBuildFirstEdge n = kn_edgeStart n - 1"
  by (simp add: contentModerationKeywordBuildFirstEdge_def)

lemma firstEdge_update [simp]:
  "contentModerationKeywordBuildFirstEdge (n \<lparr> kn_failure := f \<rparr>) = contentModerationKeywordBuildFirstEdge n"
  "contentModerationKeywordBuildFirstEdge (n \<lparr> kn_bestKeyword := b \<rparr>) = contentModerationKeywordBuildFirstEdge n"
  by (simp_all add: contentModerationKeywordBuildFirstEdge_def)

lemma siblings_step:
  "\<not> i < 0 \<Longrightarrow> slice_at edges i = Some e \<Longrightarrow> siblings edges (be_nextSibling e) = Some es \<Longrightarrow>
    siblings edges i = Some (e # es)"
  by (subst siblings.simps) simp

text \<open>Induction over the edges a loop that ends has visited.\<close>

lemma siblings_induct [consumes 1, case_names finished step]:
  assumes "siblings edges i = Some es"
    and "\<And>i. i < 0 \<Longrightarrow> P i []"
    and "\<And>i e es. \<not> i < 0 \<Longrightarrow> slice_at edges i = Some e \<Longrightarrow> P (be_nextSibling e) es \<Longrightarrow> P i (e # es)"
  shows "P i es"
proof -
  have "siblings e i = Some es \<Longrightarrow> e = edges \<longrightarrow> P i es" for e
  proof (rule siblings.raw_induct [where P = "\<lambda>e i es. e = edges \<longrightarrow> P i es" and edges = e])
    fix rec es' i y
    assume IH: "\<And>es' i y. rec es' i = Some y \<Longrightarrow> es' = edges \<longrightarrow> P i y"
      and eq: "(if i < 0 then Some []
        else slice_at es' i \<bind> (\<lambda>e. rec es' (be_nextSibling e) \<bind> (\<lambda>es. Some (e # es)))) = Some y"
    show "es' = edges \<longrightarrow> P i y"
      using IH eq assms(2,3) by (auto simp: bind_eq_Some_conv split: if_splits)
  qed
  then show ?thesis using assms(1) by blast
qed

lemma siblings_append: "siblings edges i = Some es \<Longrightarrow> siblings (edges @ xs) i = Some es"
proof (induction rule: siblings_induct)
  case (finished i)
  then show ?case by (simp add: siblings.simps)
next
  case (step i e es)
  then show ?case by (intro siblings_step slice_at_append)
qed

text \<open>The search with early return looks through the edges the plain loop visits.\<close>

lemma findEdge_siblings:
  "siblings edges i = Some es \<Longrightarrow>
    findEdge edges c i = Some (case find (\<lambda>e. be_label e = c) es of None \<Rightarrow> -1 | Some e \<Rightarrow> be_target e)"
proof (induction rule: siblings_induct)
  case (finished i)
  then show ?case by (simp add: findEdge.simps)
next
  case (step i e es)
  then show ?case by (subst findEdge.simps) simp
qed

section \<open>Numbering\<close>

definition pos :: "string list \<Rightarrow> string \<Rightarrow> int" where
  "pos ws w = (if w \<in> set ws then int (length (takeWhile (\<lambda>v. v \<noteq> w) ws)) else -1)"

lemma takeWhile_shorter: "w \<in> set ws \<Longrightarrow> length (takeWhile (\<lambda>v. v \<noteq> w) ws) < length ws"
  by (induction ws) auto

lemma pos_less: "w \<in> set ws \<Longrightarrow> 0 \<le> pos ws w \<and> pos ws w < int (length ws)"
  using takeWhile_shorter [of w ws] by (simp add: pos_def)

lemma nth_pos: "w \<in> set ws \<Longrightarrow> ws ! nat (pos ws w) = w"
  using nth_length_takeWhile [of "\<lambda>v. v \<noteq> w" ws] takeWhile_shorter [of w ws]
  by (simp add: pos_def)

lemma pos_unique:
  assumes "distinct ws" and "j < length ws" and "ws ! j = w"
  shows "pos ws w = int j"
proof -
  have "w \<in> set ws" using assms by auto
  then have "ws ! nat (pos ws w) = ws ! j" "nat (pos ws w) < length ws" "0 \<le> pos ws w"
    using nth_pos pos_less [of w ws] assms by auto
  then have "nat (pos ws w) = j"
    using nth_eq_iff_index_eq [OF assms(1)] assms(2) by blast
  with \<open>0 \<le> pos ws w\<close> show ?thesis by simp
qed

lemma pos_notin: "w \<notin> set ws \<Longrightarrow> pos ws w = -1"
  by (simp add: pos_def)

lemma pos_neg_iff [simp]: "pos ws w < 0 \<longleftrightarrow> w \<notin> set ws"
  by (simp add: pos_def)

lemma pos_append: "w \<in> set ws \<Longrightarrow> pos (ws @ xs) w = pos ws w"
  by (simp add: pos_def takeWhile_append1)

lemma pos_snoc_new: "w \<notin> set ws \<Longrightarrow> pos (ws @ [w]) w = int (length ws)"
proof -
  assume "w \<notin> set ws"
  then have "takeWhile (\<lambda>v. v \<noteq> w) ws = ws"
    by (auto simp: takeWhile_eq_all_conv)
  then show ?thesis by (simp add: pos_def takeWhile_append)
qed

lemma slice_pos [simp]:
  "w \<in> set ws \<Longrightarrow> length nodes = length ws \<Longrightarrow> slice_at nodes (pos ws w) = Some (nodes ! nat (pos ws w))"
  using pos_less [of w ws] by (simp add: slice_at_def)

section \<open>The shape of the trie\<close>

definition adj :: "string list \<Rightarrow> kwBuildEdge list \<Rightarrow> kwNode \<Rightarrow> string \<Rightarrow> bool" where
  "adj ws edges node w \<longleftrightarrow> (\<exists>es.
     siblings edges (contentModerationKeywordBuildFirstEdge node) = Some es \<and>
     distinct (map be_label es) \<and>
     (\<lambda>e. (be_label e, be_target e)) ` set es = {(c, pos ws (w @ [c])) | c. w @ [c] \<in> set ws})"

definition node_shape :: "string list \<Rightarrow> kwBuildEdge list \<Rightarrow> kwNode \<Rightarrow> string \<Rightarrow> bool" where
  "node_shape ws edges node w \<longleftrightarrow>
     0 \<le> kn_edgeStart node \<and> kn_edgeStart node \<le> int (length edges) \<and> adj ws edges node w"

definition shape :: "string list \<Rightarrow> kwNode list \<Rightarrow> kwBuildEdge list \<Rightarrow> bool" where
  "shape ws nodes edges \<longleftrightarrow>
     ws \<noteq> [] \<and> ws ! 0 = [] \<and> distinct ws \<and> length nodes = length ws \<and> Suc (length edges) = length ws \<and>
     int (length ws) \<le> 2 ^ 31 \<and> (\<forall>w c. w @ [c] \<in> set ws \<longrightarrow> w \<in> set ws) \<and>
     (\<forall>j < length ws. node_shape ws edges (nodes ! j) (ws ! j))"

lemma node_shape_cong:
  "kn_edgeStart node' = kn_edgeStart node \<Longrightarrow> node_shape ws edges node' w = node_shape ws edges node w"
  by (simp add: node_shape_def adj_def contentModerationKeywordBuildFirstEdge_def)

lemma shape_cong:
  assumes "shape ws nodes edges" and "length nodes' = length nodes"
    and "\<And>j. j < length nodes \<Longrightarrow> kn_edgeStart (nodes' ! j) = kn_edgeStart (nodes ! j)"
  shows "shape ws nodes' edges"
proof -
  have "node_shape ws edges (nodes' ! j) (ws ! j) = node_shape ws edges (nodes ! j) (ws ! j)"
    if "j < length ws" for j
    using that assms by (intro node_shape_cong) (simp add: shape_def)
  with assms(1,2) show ?thesis by (simp add: shape_def)
qed

lemma shape_root: "shape ws nodes edges \<Longrightarrow> [] \<in> set ws \<and> pos ws [] = 0"
  using pos_unique [of ws 0 "[]"] by (auto simp: shape_def in_set_conv_nth)

lemma shape_trie: "shape ws nodes edges \<Longrightarrow> keyword_trie (set ws)"
  using shape_root by unfold_locales (auto simp: shape_def)

lemma shape_node:
  assumes "shape ws nodes edges" and "w \<in> set ws"
  shows "node_shape ws edges (nodes ! nat (pos ws w)) w"
  using assms pos_less [OF assms(2)] nth_pos [OF assms(2)]
  by (auto simp: shape_def nat_less_iff dest!: spec [of _ "nat (pos ws w)"])

lemma adj_find:
  assumes "distinct (map be_label es)"
    and "(\<lambda>e. (be_label e, be_target e)) ` set es = {(c, pos ws (w @ [c])) | c. w @ [c] \<in> set ws}"
  shows "(case find (\<lambda>e. be_label e = c) es of None \<Rightarrow> -1 | Some e \<Rightarrow> be_target e) = pos ws (w @ [c])"
proof (cases "find (\<lambda>e. be_label e = c) es")
  case None
  then have "\<forall>t. (c, t) \<notin> (\<lambda>e. (be_label e, be_target e)) ` set es"
    by (auto simp: find_None_iff)
  then have "w @ [c] \<notin> set ws" using assms(2) by auto
  then show ?thesis using None by (simp add: pos_notin)
next
  case (Some e)
  then have "e \<in> set es" "be_label e = c"
    by (auto simp: find_Some_iff)
  then have "(c, be_target e) \<in> (\<lambda>e. (be_label e, be_target e)) ` set es"
    by force
  then show ?thesis using assms(2) Some by auto
qed

lemma transition:
  assumes "shape ws nodes edges" and "w \<in> set ws"
  shows "contentModerationKeywordBuildTransition nodes edges (pos ws w) c = Some (pos ws (w @ [c]))"
proof -
  obtain es where "siblings edges (contentModerationKeywordBuildFirstEdge (nodes ! nat (pos ws w))) = Some es"
    "distinct (map be_label es)"
    "(\<lambda>e. (be_label e, be_target e)) ` set es = {(c, pos ws (w @ [c])) | c. w @ [c] \<in> set ws}"
    using shape_node [OF assms] by (auto simp: node_shape_def adj_def)
  then have "findEdge edges c (contentModerationKeywordBuildFirstEdge (nodes ! nat (pos ws w))) =
      Some (pos ws (w @ [c]))"
    using findEdge_siblings adj_find by simp
  moreover have "length nodes = length ws"
    using assms(1) by (simp add: shape_def)
  ultimately show ?thesis
    using pos_less [OF assms(2)] by (simp add: contentModerationKeywordBuildTransition_def assms(2))
qed

section \<open>Inserting\<close>

text \<open>The own keyword of each word; no failure link is set yet.\<close>

definition own_data :: "(string \<Rightarrow> int) \<Rightarrow> string list \<Rightarrow> kwNode list \<Rightarrow> bool" where
  "own_data own ws nodes \<longleftrightarrow>
     (\<forall>w. w \<notin> set ws \<longrightarrow> own w = -1) \<and>
     (\<forall>j < length ws. kn_failure (nodes ! j) = 0 \<and> kn_bestKeyword (nodes ! j) = own (ws ! j))"

lemma node_shape_new_word:
  assumes "node_shape ws edges node v" and "v \<noteq> w" and "w @ [c] \<notin> set ws"
  shows "node_shape (ws @ [w @ [c]]) (edges @ [e]) node v"
proof -
  have "{(d, pos (ws @ [w @ [c]]) (v @ [d])) | d. v @ [d] \<in> set (ws @ [w @ [c]])} =
      {(d, pos ws (v @ [d])) | d. v @ [d] \<in> set ws}"
    using assms(2) by (auto simp: pos_append)
  then show ?thesis
    using assms(1) siblings_append unfolding node_shape_def adj_def by fastforce
qed

lemma node_shape_parent:
  assumes "node_shape ws edges node w" and "w @ [c] \<notin> set ws" and "int (length edges) < 2 ^ 31"
  shows "node_shape (ws @ [w @ [c]])
    (edges @ [\<lparr> be_target = int (length ws), be_nextSibling = contentModerationKeywordBuildFirstEdge node,
                be_label = c \<rparr>])
    (node \<lparr> kn_edgeStart := int (Suc (length edges)) \<rparr>) w"
proof -
  let ?e = "\<lparr> be_target = int (length ws), be_nextSibling = contentModerationKeywordBuildFirstEdge node,
                be_label = c \<rparr>"
  let ?ws = "ws @ [w @ [c]]"
  obtain es where es: "siblings edges (contentModerationKeywordBuildFirstEdge node) = Some es"
    "distinct (map be_label es)"
    "(\<lambda>e. (be_label e, be_target e)) ` set es = {(d, pos ws (w @ [d])) | d. w @ [d] \<in> set ws}"
    using assms(1) by (auto simp: node_shape_def adj_def)
  have "contentModerationKeywordBuildFirstEdge (node \<lparr> kn_edgeStart := int (Suc (length edges)) \<rparr>) =
      int (length edges)"
    using assms(3) by (subst firstEdge_eq) simp_all
  moreover have "siblings (edges @ [?e]) (int (length edges)) = Some (?e # es)"
    using siblings_append [OF es(1)] by (intro siblings_step) (simp_all add: slice_at_def)
  moreover have "c \<notin> be_label ` set es"
  proof
    assume "c \<in> be_label ` set es"
    then have "\<exists>t. (c, t) \<in> (\<lambda>e. (be_label e, be_target e)) ` set es" by force
    then show False using es(3) assms(2) by auto
  qed
  moreover have "{(d, pos ?ws (w @ [d])) | d. w @ [d] \<in> set ?ws} =
      insert (c, int (length ws)) {(d, pos ws (w @ [d])) | d. w @ [d] \<in> set ws}"
    using assms(2) by (auto simp: pos_append pos_snoc_new)
  ultimately show ?thesis
    using es(2,3) by (auto simp: node_shape_def adj_def)
qed

lemma node_shape_leaf:
  assumes "\<forall>d. (w @ [c]) @ [d] \<notin> set (ws @ [w @ [c]])"
  shows "node_shape (ws @ [w @ [c]]) edges newContentModerationKeywordNode (w @ [c])"
  using assms
  by (simp add: node_shape_def adj_def newContentModerationKeywordNode_def
      contentModerationKeywordBuildFirstEdge_def siblings.simps)

lemma insertLabel_old:
  assumes "shape ws nodes edges" and "w \<in> set ws" and "w @ [c] \<in> set ws"
  shows "insertLabel c (nodes, edges, pos ws w) = Some (nodes, edges, pos ws (w @ [c]))"
  using transition [OF assms(1,2), of c] assms(3) by (simp add: insertLabel_def)

lemma insertLabel_new:
  assumes "shape ws nodes edges" and "own_data own ws nodes" and "w \<in> set ws" and "w @ [c] \<notin> set ws"
    and "int (length ws) < 2 ^ 31"
  defines "ws' \<equiv> ws @ [w @ [c]]"
  shows "\<exists>nodes' edges'. insertLabel c (nodes, edges, pos ws w) = Some (nodes', edges', pos ws' (w @ [c])) \<and>
    shape ws' nodes' edges' \<and> own_data own ws' nodes'"
proof -
  let ?j = "nat (pos ws w)"
  let ?node = "nodes ! ?j"
  let ?e = "\<lparr> be_target = int (length ws), be_nextSibling = contentModerationKeywordBuildFirstEdge ?node,
                be_label = c \<rparr>"
  let ?edges = "edges @ [?e]"
  let ?nodes = "(nodes @ [newContentModerationKeywordNode])
    [?j := ?node \<lparr> kn_edgeStart := int (length ?edges) \<rparr>]"
  note sh = assms(1) [unfolded shape_def]
  have len: "length nodes = length ws" "Suc (length edges) = length ws"
    using sh by simp_all
  have j: "?j < length ws" "ws ! ?j = w"
    using pos_less [OF assms(3)] nth_pos [OF assms(3)] by (simp_all add: nat_less_iff)
  have "slice_at (nodes @ [newContentModerationKeywordNode]) (pos ws w) = Some ?node"
    using pos_less [OF assms(3)] len(1) by (simp add: slice_at_def nth_append nat_less_iff)
  then have "insertLabel c (nodes, edges, pos ws w) = Some (?nodes, ?edges, pos ws' (w @ [c]))"
    using transition [OF assms(1,3), of c] assms(4,5) len
    by (simp add: insertLabel_def Let_def ws'_def pos_snoc_new)
  moreover have "node_shape ws' ?edges (?nodes ! i) (ws' ! i)" if "i < length ws'" for i
  proof (cases "i = length ws")
    case True
    have "(w @ [c]) @ [d] \<notin> set ws" for d
      using sh assms(4) by blast
    then have "\<forall>d. (w @ [c]) @ [d] \<notin> set (ws @ [w @ [c]])"
      by simp
    then have "node_shape ws' ?edges newContentModerationKeywordNode (w @ [c])"
      unfolding ws'_def by (rule node_shape_leaf)
    then show ?thesis using True len j by (simp add: ws'_def nth_append)
  next
    case False
    then have i: "i < length ws" using that by (simp add: ws'_def)
    show ?thesis
    proof (cases "i = ?j")
      case True
      have "node_shape ws edges ?node w" by (rule shape_node [OF assms(1,3)])
      then have "node_shape ws' ?edges (?node \<lparr> kn_edgeStart := int (length ?edges) \<rparr>) w"
        using node_shape_parent [OF _ assms(4), where edges = edges and node = ?node] assms(5) len
        by (simp add: ws'_def)
      then show ?thesis using True j len by (simp add: ws'_def nth_append)
    next
      case False
      then have "ws ! i \<noteq> w"
        using sh i j nth_eq_iff_index_eq by metis
      then have "node_shape ws' ?edges (nodes ! i) (ws ! i)"
        using node_shape_new_word [OF _ _ assms(4)] sh i by (simp add: ws'_def)
      then show ?thesis using i False len by (simp add: ws'_def nth_append)
    qed
  qed
  then have "shape ws' ?nodes ?edges"
    using sh assms(3,4,5) by (auto simp: shape_def ws'_def nth_append)
  moreover have "own_data own ws' ?nodes"
    using assms(2,4) j len
    by (auto simp: own_data_def ws'_def nth_append nth_list_update newContentModerationKeywordNode_def
        less_Suc_eq)
  ultimately show ?thesis by blast
qed

lemma insert_word:
  assumes "shape ws nodes edges" and "own_data own ws nodes" and "w \<in> set ws"
    and "int (length ws + length v) \<le> 2 ^ 31"
  shows "\<exists>ws' nodes' edges'. ofold insertLabel v (nodes, edges, pos ws w) =
      Some (nodes', edges', pos ws' (w @ v)) \<and> shape ws' nodes' edges' \<and> own_data own ws' nodes' \<and>
      set ws' = set ws \<union> {w @ p | p. prefix p v} \<and> length ws' \<le> length ws + length v"
  using assms
proof (induction v arbitrary: w ws nodes edges)
  case Nil
  then show ?case by (auto intro!: exI [of _ ws])
next
  case (Cons c v)
  obtain ws1 nodes1 edges1 where
    1: "insertLabel c (nodes, edges, pos ws w) = Some (nodes1, edges1, pos ws1 (w @ [c]))"
      "shape ws1 nodes1 edges1" "own_data own ws1 nodes1"
      "set ws1 = insert (w @ [c]) (set ws)" "length ws1 \<le> Suc (length ws)"
  proof (cases "w @ [c] \<in> set ws")
    case True
    then show ?thesis
      using insertLabel_old [OF Cons.prems(1,3) True] Cons.prems that by (simp add: insert_absorb)
  next
    case False
    then show ?thesis
      using insertLabel_new [OF Cons.prems(1-3) False] Cons.prems(4) that by auto
  qed
  have "int (length ws1 + length v) \<le> 2 ^ 31"
    using 1(5) Cons.prems(4) by simp
  with Cons.IH [OF 1(2,3)] 1(4) obtain ws' nodes' edges' where
    2: "ofold insertLabel v (nodes1, edges1, pos ws1 (w @ [c])) = Some (nodes', edges', pos ws' ((w @ [c]) @ v))"
      "shape ws' nodes' edges'" "own_data own ws' nodes'"
      "set ws' = set ws1 \<union> {(w @ [c]) @ p | p. prefix p v}" "length ws' \<le> length ws1 + length v"
    by blast
  have "{w @ p | p. prefix p (c # v)} = insert w {(w @ [c]) @ p | p. prefix p v}"
    by (auto simp: prefix_Cons)
  then have "set ws' = set ws \<union> {w @ p | p. prefix p (c # v)}"
    using 2(4) 1(4) Cons.prems(3) by auto
  then show ?case
    using 1(1,5) 2 by (intro exI [of _ ws'] exI [of _ nodes'] exI [of _ edges']) simp
qed

subsection \<open>Keyword indices\<close>

text \<open>The least index with a property, -1 when there is none.\<close>

definition least_index :: "(nat \<Rightarrow> bool) \<Rightarrow> int" where
  "least_index P = (if \<exists>k. P k then int (LEAST k. P k) else -1)"

lemma least_index_neg [simp]: "least_index P < 0 \<longleftrightarrow> (\<forall>k. \<not> P k)"
  by (auto simp: least_index_def)

lemma least_index_none: "(\<And>k. \<not> P k) \<Longrightarrow> least_index P = -1"
  by (simp add: least_index_def)

lemma least_index_eqI: "P k \<Longrightarrow> (\<And>i. i < k \<Longrightarrow> \<not> P i) \<Longrightarrow> least_index P = int k"
  using Least_equality [of P k] by (auto simp: least_index_def not_less [symmetric])

lemma least_index_cases:
  obtains (none) "\<And>k. \<not> P k" "least_index P = -1"
  | (some) k where "P k" "\<And>i. i < k \<Longrightarrow> \<not> P i" "least_index P = int k"
proof (cases "\<exists>k. P k")
  case True
  then have "P (LEAST k. P k)" "\<And>i. i < (LEAST k. P k) \<Longrightarrow> \<not> P i"
    by (rule LeastI_ex) (rule not_less_Least)
  moreover have "least_index P = int (LEAST k. P k)"
    using True by (simp add: least_index_def)
  ultimately show ?thesis by (rule some)
next
  case False
  then show ?thesis using none by (simp add: least_index_def)
qed

lemma least_index_zero: "least_index P = 0 \<Longrightarrow> P 0"
  by (cases P rule: least_index_cases) simp_all

lemma minKeywordIndex_least:
  "minKeywordIndex (least_index P) (least_index Q) = least_index (\<lambda>k. P k \<or> Q k)"
proof (cases P rule: least_index_cases)
  case none
  then show ?thesis by (simp add: minKeywordIndex_def)
next
  case P: (some i)
  show ?thesis
  proof (cases Q rule: least_index_cases)
    case none
    then show ?thesis using P by (simp add: minKeywordIndex_def)
  next
    case Q: (some j)
    have "least_index (\<lambda>k. P k \<or> Q k) = int (min i j)"
      using P Q by (intro least_index_eqI) (auto simp: min_def split: if_splits)
    then show ?thesis using P Q by (auto simp: minKeywordIndex_def min_def)
  qed
qed

subsection \<open>All keywords\<close>

definition keyword_at :: "(string \<Rightarrow> string) \<Rightarrow> string list \<Rightarrow> nat \<Rightarrow> string \<Rightarrow> nat \<Rightarrow> bool" where
  "keyword_at u kws n w k \<longleftrightarrow> k < n \<and> kws ! k \<noteq> [] \<and> strings_ToLower u (kws ! k) = w"

definition trie_words :: "(string \<Rightarrow> string) \<Rightarrow> string list \<Rightarrow> nat \<Rightarrow> string set" where
  "trie_words u kws n =
     insert [] {p. \<exists>k < n. kws ! k \<noteq> [] \<and> prefix p (strings_ToLower u (kws ! k))}"

interpretation kw: keyword_trie "trie_words u kws n" for u kws n
  by unfold_locales (auto simp: trie_words_def dest: append_prefixD)

definition total_length :: "(string \<Rightarrow> string) \<Rightarrow> string list \<Rightarrow> nat" where
  "total_length u kws = sum_list (map (\<lambda>k. length (strings_ToLower u k)) kws)"

lemma insert_keyword:
  assumes "shape ws nodes edges" and "own_data (\<lambda>w. least_index (keyword_at u kws n w)) ws nodes"
    and "set ws = trie_words u kws n" and "n < length kws" and "int (length kws) \<le> 2 ^ 31"
    and "int (length ws + length (strings_ToLower u (kws ! n))) \<le> 2 ^ 31"
  shows "\<exists>ws' nodes' edges'. insertKeyword u (n, kws ! n) (nodes, edges) = Some (nodes', edges') \<and>
      shape ws' nodes' edges' \<and> own_data (\<lambda>w. least_index (keyword_at u kws (Suc n) w)) ws' nodes' \<and>
      set ws' = trie_words u kws (Suc n) \<and>
      length ws' \<le> length ws + length (strings_ToLower u (kws ! n))"
proof (cases "kws ! n = []")
  case True
  have "keyword_at u kws (Suc n) w = keyword_at u kws n w" for w
    using True by (auto simp: keyword_at_def less_Suc_eq)
  moreover have "trie_words u kws (Suc n) = trie_words u kws n"
    using True by (auto simp: trie_words_def less_Suc_eq)
  ultimately show ?thesis
    using assms True by (intro exI [of _ ws]) (simp add: insertKeyword_def)
next
  case False
  let ?v = "strings_ToLower u (kws ! n)"
  let ?own = "\<lambda>w. least_index (keyword_at u kws n w)"
  let ?own' = "\<lambda>w. least_index (keyword_at u kws (Suc n) w)"
  have root: "[] \<in> set ws" "pos ws [] = 0"
    using shape_root [OF assms(1)] by simp_all
  obtain ws' nodes1 edges' where
    1: "ofold insertLabel ?v (nodes, edges, 0) = Some (nodes1, edges', pos ws' ?v)"
      "shape ws' nodes1 edges'" "own_data ?own ws' nodes1"
      "set ws' = set ws \<union> {p. prefix p ?v}" "length ws' \<le> length ws + length ?v"
    using insert_word [OF assms(1,2) root(1) assms(6)] root(2) by auto
  have words: "set ws' = trie_words u kws (Suc n)"
    using 1(4) assms(3) False by (auto simp: trie_words_def less_Suc_eq)
  have v: "?v \<in> set ws'" using 1(4) by simp
  let ?j = "nat (pos ws' ?v)"
  have len: "length nodes1 = length ws'" and dist: "distinct ws'"
    using 1(2) by (simp_all add: shape_def)
  have j: "?j < length ws'" "ws' ! ?j = ?v"
    using pos_less [OF v] nth_pos [OF v] by (simp_all add: nat_less_iff)
  have at_v: "ws' ! i = ?v \<longleftrightarrow> i = ?j" if "i < length ws'" for i
    using nth_eq_iff_index_eq [OF dist that j(1)] j(2) by simp
  let ?cur = "kn_bestKeyword (nodes1 ! ?j)"
  let ?node = "if ?cur < 0 \<or> int n < ?cur then (nodes1 ! ?j) \<lparr> kn_bestKeyword := int n \<rparr> else nodes1 ! ?j"
  have n: "int32 (int n) = int n" using assms(4,5) by simp
  have run: "insertKeyword u (n, kws ! n) (nodes, edges) = Some (nodes1[?j := ?node], edges')"
    using False 1(1) v len n by (simp add: insertKeyword_def Let_def)
  have "shape ws' (nodes1[?j := ?node]) edges'"
    using j len by (intro shape_cong [OF 1(2)]) (auto simp: nth_list_update)
  have own_eq: "?own' w = (if w = ?v \<and> ?own w < 0 then int n else ?own w)" for w
  proof (cases "w = ?v")
    case False
    then have "keyword_at u kws (Suc n) w = keyword_at u kws n w"
      by (auto simp: keyword_at_def less_Suc_eq)
    then show ?thesis using False by simp
  next
    case True
    then show ?thesis
    proof (cases "keyword_at u kws n w" rule: least_index_cases)
      case none
      have "?own' w = int n"
        by (rule least_index_eqI) (use none True \<open>kws ! n \<noteq> []\<close> in \<open>auto simp: keyword_at_def\<close>)
      then show ?thesis using none True by simp
    next
      case (some k)
      have "?own' w = int k"
        by (rule least_index_eqI) (use some in \<open>auto simp: keyword_at_def\<close>)
      then show ?thesis using some by auto
    qed
  qed
  have lt: "?own ?v < int n"
    by (cases "keyword_at u kws n ?v" rule: least_index_cases) (auto simp: keyword_at_def)
  have cur: "kn_failure (nodes1 ! ?j) = 0" "?cur = ?own ?v"
    using 1(3) j by (auto simp: own_data_def)
  have "kn_failure (nodes1[?j := ?node] ! i) = 0 \<and> kn_bestKeyword (nodes1[?j := ?node] ! i) = ?own' (ws' ! i)"
    if "i < length ws'" for i
  proof (cases "i = ?j")
    case True
    then show ?thesis using cur lt own_eq [of ?v] j len by simp
  next
    case False
    then show ?thesis using at_v [OF that] own_eq [of "ws' ! i"] 1(3) that by (simp add: own_data_def)
  qed
  then have "own_data ?own' ws' (nodes1[?j := ?node])"
    using 1(3) v own_eq by (auto simp: own_data_def)
  then show ?thesis
    using run \<open>shape ws' (nodes1[?j := ?node]) edges'\<close> words 1(5) by blast
qed

lemma insert_keywords:
  assumes "shape ws nodes edges" and "own_data (\<lambda>w. least_index (keyword_at u kws n w)) ws nodes"
    and "set ws = trie_words u kws n" and "n \<le> length kws" and "int (length kws) \<le> 2 ^ 31"
    and "int (length ws + total_length u (drop n kws)) \<le> 2 ^ 31"
  shows "\<exists>ws' nodes' edges'. ofold (insertKeyword u) (enumerate n (drop n kws)) (nodes, edges) =
      Some (nodes', edges') \<and> shape ws' nodes' edges' \<and>
      own_data (\<lambda>w. least_index (keyword_at u kws (length kws) w)) ws' nodes' \<and>
      set ws' = trie_words u kws (length kws)"
  using assms
proof (induction "length kws - n" arbitrary: n ws nodes edges)
  case 0
  then show ?case by auto
next
  case (Suc d)
  then have n: "n < length kws" "drop n kws = kws ! n # drop (Suc n) kws"
    by (auto simp: Cons_nth_drop_Suc)
  have room: "int (length ws + length (strings_ToLower u (kws ! n))) \<le> 2 ^ 31"
    using Suc.prems(6) n(2) by (simp add: total_length_def)
  obtain ws1 nodes1 edges1 where
    1: "insertKeyword u (n, kws ! n) (nodes, edges) = Some (nodes1, edges1)" "shape ws1 nodes1 edges1"
      "own_data (\<lambda>w. least_index (keyword_at u kws (Suc n) w)) ws1 nodes1"
      "set ws1 = trie_words u kws (Suc n)"
      "length ws1 \<le> length ws + length (strings_ToLower u (kws ! n))"
    using insert_keyword [OF Suc.prems(1-3) n(1) Suc.prems(5) room] by blast
  have "int (length ws1 + total_length u (drop (Suc n) kws)) \<le> 2 ^ 31"
    using Suc.prems(6) n(2) 1(5) by (simp add: total_length_def)
  then show ?case
    using Suc.hyps(1) [OF _ 1(2-4) _ Suc.prems(5)] Suc.hyps(2) n 1(1) by simp
qed

lemma shape_init: "shape [[]] [newContentModerationKeywordNode] []"
  by (simp add: shape_def node_shape_def adj_def newContentModerationKeywordNode_def
      contentModerationKeywordBuildFirstEdge_def siblings.simps)

text \<open>The trie of all keywords; enough room is the only condition.\<close>

definition keywords_fit :: "(string \<Rightarrow> string) \<Rightarrow> string list \<Rightarrow> bool" where
  "keywords_fit u kws \<longleftrightarrow> int (length kws) \<le> 2 ^ 31 \<and> int (Suc (total_length u kws)) \<le> 2 ^ 31"

lemma build_trie:
  assumes "keywords_fit u kws"
  shows "\<exists>ws nodes edges. ofold (insertKeyword u) (enumerate 0 kws) ([newContentModerationKeywordNode], []) =
      Some (nodes, edges) \<and> shape ws nodes edges \<and>
      own_data (\<lambda>w. least_index (keyword_at u kws (length kws) w)) ws nodes \<and>
      set ws = trie_words u kws (length kws)"
proof -
  have "own_data (\<lambda>w. least_index (keyword_at u kws 0 w)) [[]] [newContentModerationKeywordNode]"
    by (simp add: own_data_def keyword_at_def least_index_def newContentModerationKeywordNode_def)
  moreover have "set [[]] = trie_words u kws 0"
    by (simp add: trie_words_def)
  ultimately show ?thesis
    using insert_keywords [OF shape_init, of u kws 0] assms by (simp add: keywords_fit_def)
qed

end
