(* ===== verification/Keyword_Links.thy ===== *)
theory Keyword_Links
  imports Keyword_Trie
begin

text \<open>
  The second phase of the keyword matcher: the breadth-first loop sets every failure link to the
  longest proper suffix in the trie and every best keyword to the least one that ends the word.
\<close>

section \<open>Linked nodes\<close>

text \<open>The least keyword that ends a word; \<open>K v k\<close> says that the word \<open>v\<close> is keyword number \<open>k\<close>.\<close>

definition best_ending :: "(string \<Rightarrow> nat \<Rightarrow> bool) \<Rightarrow> string \<Rightarrow> int" where
  "best_ending K w = least_index (\<lambda>k. \<exists>v. suffix v w \<and> K v k)"

definition kwNode_of :: "string list \<Rightarrow> kwNode list \<Rightarrow> string \<Rightarrow> kwNode" where
  "kwNode_of ws nodes w = nodes ! nat (pos ws w)"

definition node_linked ::
  "string list \<Rightarrow> (string \<Rightarrow> nat \<Rightarrow> bool) \<Rightarrow> bool \<Rightarrow> kwNode \<Rightarrow> string \<Rightarrow> bool" where
  "node_linked ws K d node w \<longleftrightarrow>
     kn_failure node = (if d then pos ws (lsuf (set ws) (tl w)) else 0) \<and>
     kn_bestKeyword node = (if d then best_ending K w else least_index (K w))"

definition linked ::
  "string list \<Rightarrow> (string \<Rightarrow> nat \<Rightarrow> bool) \<Rightarrow> string set \<Rightarrow> kwNode list \<Rightarrow> bool" where
  "linked ws K D nodes \<longleftrightarrow>
     (\<forall>w k. K w k \<longrightarrow> w \<in> set ws \<and> w \<noteq> []) \<and>
     (\<forall>w \<in> set ws. node_linked ws K (w \<in> D) (kwNode_of ws nodes w) w)"

lemma linkedD:
  assumes "linked ws K D nodes" and "w \<in> set ws" and "w \<in> D"
  shows "kn_failure (kwNode_of ws nodes w) = pos ws (lsuf (set ws) (tl w))"
    and "kn_bestKeyword (kwNode_of ws nodes w) = best_ending K w"
  using assms by (auto simp: linked_def node_linked_def)

lemma best_ending_fail:
  assumes "keyword_trie (set ws)" and "\<And>v k. K v k \<Longrightarrow> v \<in> set ws"
  shows "best_ending K w = minKeywordIndex (least_index (K w)) (best_ending K (lsuf (set ws) (tl w)))"
proof -
  have "suffix v w \<and> K v k \<longleftrightarrow> v = w \<and> K v k \<or> suffix v (lsuf (set ws) (tl w)) \<and> K v k" for v k
    using keyword_trie.suffix_state [OF assms(1), of v w] assms(2) by blast
  then have "(\<lambda>k. \<exists>v. suffix v w \<and> K v k) = (\<lambda>k. K w k \<or> (\<exists>v. suffix v (lsuf (set ws) (tl w)) \<and> K v k))"
    by auto
  then show ?thesis
    unfolding best_ending_def minKeywordIndex_least by simp
qed

declare slice_pos [simp del]

lemma slice_node [simp]:
  "w \<in> set ws \<Longrightarrow> length nodes = length ws \<Longrightarrow> slice_at nodes (pos ws w) = Some (kwNode_of ws nodes w)"
  by (simp add: kwNode_of_def slice_pos)

lemma failure_zero: "kn_failure n = 0 \<Longrightarrow> n \<lparr> kn_failure := 0 \<rparr> = (n :: kwNode)"
  by (cases n) simp

lemma kwNode_of_update:
  assumes "distinct ws" and "length nodes = length ws" and "w \<in> set ws" and "v \<in> set ws"
  shows "kwNode_of ws (nodes[nat (pos ws v) := x]) w = (if w = v then x else kwNode_of ws nodes w)"
proof (cases "w = v")
  case True
  then show ?thesis
    using pos_less [OF assms(3)] assms(2) by (simp add: kwNode_of_def nat_less_iff)
next
  case False
  then have "nat (pos ws w) \<noteq> nat (pos ws v)"
    using nth_pos [OF assms(3)] nth_pos [OF assms(4)] by metis
  then show ?thesis using False by (simp add: kwNode_of_def)
qed

section \<open>One edge\<close>

lemma fallback:
  assumes "shape ws nodes edges" and "linked ws K D nodes" and "v \<in> set ws"
    and "\<And>w. w \<in> set ws \<Longrightarrow> length w \<le> length v \<Longrightarrow> w \<in> D"
  shows "fallbackLoop nodes edges c (pos ws v) (pos ws (v @ [c])) =
    Some (let x = lsuf (set ws) (v @ [c]) in if x = [] then -1 else pos ws x)"
  using assms(3,4)
proof (induction "length v" arbitrary: v rule: less_induct)
  case less
  note trie = shape_trie [OF assms(1)]
  have len: "length nodes = length ws" and dist: "distinct ws"
    using assms(1) by (simp_all add: shape_def)
  show ?case
  proof (cases "v @ [c] \<in> set ws")
    case True
    then show ?thesis
      by (subst fallbackLoop.simps) (simp add: Let_def)
  next
    case False
    show ?thesis
    proof (cases "v = []")
      case True
      then show ?thesis
        using False shape_root [OF assms(1)] by (subst fallbackLoop.simps) (simp add: pos_notin)
    next
      case v: False
      let ?f = "lsuf (set ws) (tl v)"
      have f: "?f \<in> set ws" "length ?f < length v"
        using keyword_trie.lsuf_in [OF trie] length_lsuf_tl [OF v] by auto
      have "pos ws v \<noteq> 0"
        using nth_pos [OF less.prems(1)] v assms(1) by (auto simp: shape_def)
      moreover have "kn_failure (kwNode_of ws nodes v) = pos ws ?f"
        using linkedD(1) [OF assms(2) less.prems(1)] less.prems by simp
      ultimately have "fallbackLoop nodes edges c (pos ws v) (pos ws (v @ [c])) =
          fallbackLoop nodes edges c (pos ws ?f) (pos ws (?f @ [c]))"
        using False less.prems(1) len transition [OF assms(1) f(1), of c]
        by (subst fallbackLoop.simps) simp
      moreover have "lsuf (set ws) (v @ [c]) = lsuf (set ws) (?f @ [c])"
        using keyword_trie.lsuf_fail [OF trie v False] .
      ultimately show ?thesis
        using less.hyps [OF f(2,1)] less.prems(2) f(2) by simp
    qed
  qed
qed

text \<open>Linking the edge from \<open>s\<close> labelled \<open>c\<close>, when all words not longer than \<open>s\<close> are linked.\<close>

lemma link_edge:
  assumes "shape ws nodes edges" and "linked ws K D nodes"
    and "s \<in> set ws" and "s \<noteq> []" and "s @ [be_label e] \<in> set ws" and "be_target e = pos ws (s @ [be_label e])"
    and "\<And>w. w \<in> set ws \<Longrightarrow> length w \<le> length s \<Longrightarrow> w \<in> D" and "s @ [be_label e] \<notin> D"
  shows "\<exists>nodes'. linkEdge edges (pos ws s) e (nodes, queue) =
      Some (nodes', queue @ [pos ws (s @ [be_label e])]) \<and>
    shape ws nodes' edges \<and> linked ws K (insert (s @ [be_label e]) D) nodes'"
proof -
  let ?W = "set ws" and ?t = "s @ [be_label e]"
  let ?f = "lsuf ?W (tl s)" and ?x = "lsuf ?W (tl ?t)"
  note trie = shape_trie [OF assms(1)]
  have len: "length nodes = length ws" and dist: "distinct ws" and K: "\<And>v k. K v k \<Longrightarrow> v \<in> ?W"
    using assms(1,2) by (auto simp: shape_def linked_def)
  have f: "?f \<in> ?W" "length ?f < length s" and x: "?x \<in> ?W" "length ?x \<le> length s" "?x \<noteq> ?t"
    using keyword_trie.lsuf_in [OF trie] length_lsuf_tl [OF assms(4)] length_lsuf_tl [of ?t ?W]
    by (auto simp: less_Suc_eq_le)
  have x_eq: "?x = lsuf ?W (?f @ [be_label e])"
    using keyword_trie.lsuf_tl_snoc [OF trie assms(4)] .
  have sD: "s \<in> D" "?x \<in> D" using assms(3,7) x by auto
  have fb: "fallbackLoop nodes edges (be_label e) (pos ws ?f) (pos ws (?f @ [be_label e])) =
      Some (if ?x = [] then -1 else pos ws ?x)"
    using fallback [OF assms(1,2) f(1), of "be_label e"] assms(7) f(2) x_eq by (simp add: Let_def)
  have t: "kn_failure (kwNode_of ws nodes ?t) = 0" "kn_bestKeyword (kwNode_of ws nodes ?t) = least_index (K ?t)"
    using assms(2,5,8) by (auto simp: linked_def node_linked_def)
  let ?n1 = "kwNode_of ws nodes ?t \<lparr> kn_failure := pos ws ?x \<rparr>"
  let ?n2 = "?n1 \<lparr> kn_bestKeyword := best_ending K ?t \<rparr>"
  let ?nodes1 = "nodes[nat (pos ws ?t) := ?n1]"
  let ?nodes2 = "nodes[nat (pos ws ?t) := ?n2]"
  obtain fallback where fallback:
    "fallbackLoop nodes edges (be_label e) (pos ws ?f) (pos ws (?f @ [be_label e])) = Some fallback"
    "(if 0 \<le> fallback then kwNode_of ws nodes ?t \<lparr> kn_failure := fallback \<rparr> else kwNode_of ws nodes ?t) = ?n1"
  proof (rule that [OF fb])
    show "(if 0 \<le> (if ?x = [] then -1 else pos ws ?x)
        then kwNode_of ws nodes ?t \<lparr> kn_failure := if ?x = [] then -1 else pos ws ?x \<rparr>
        else kwNode_of ws nodes ?t) = ?n1"
      using failure_zero [OF t(1)] shape_root [OF assms(1)] pos_less [OF x(1)] by (cases "?x = []") simp_all
  qed
  have "minKeywordIndex (kn_bestKeyword ?n1) (kn_bestKeyword (kwNode_of ws ?nodes1 ?x)) = best_ending K ?t"
    using t(2) best_ending_fail [OF trie K, where w = ?t] kwNode_of_update [OF dist len x(1) assms(5)] x(3)
      linkedD(2) [OF assms(2) x(1) sD(2)] by simp
  moreover have "slice_at ?nodes1 (pos ws ?x) = Some (kwNode_of ws ?nodes1 ?x)"
    using x(1) len by simp
  ultimately have "linkEdge edges (pos ws s) e (nodes, queue) = Some (?nodes2, queue @ [pos ws ?t])"
    using linkedD(1) [OF assms(2,3) sD(1)] transition [OF assms(1) f(1)] fallback assms(3,5,6) len
    by (simp add: linkEdge_def Let_def)
  moreover have "shape ws ?nodes2 edges"
  proof (rule shape_cong [OF assms(1)])
    show "kn_edgeStart (?nodes2 ! j) = kn_edgeStart (nodes ! j)" if "j < length nodes" for j
      using that by (cases "j = nat (pos ws ?t)") (simp_all add: kwNode_of_def)
  qed simp
  moreover have "linked ws K (insert ?t D) ?nodes2"
    using assms(2) kwNode_of_update [OF dist len _ assms(5), of _ ?n2]
    by (auto simp: linked_def node_linked_def)
  ultimately show ?thesis by blast
qed

section \<open>All edges of a node\<close>

lemma link_edges:
  assumes "shape ws nodes edges" and "linked ws K D nodes" and "s \<in> set ws" and "s \<noteq> []"
    and "\<And>e. e \<in> set es \<Longrightarrow> s @ [be_label e] \<in> set ws \<and> be_target e = pos ws (s @ [be_label e])"
    and "\<And>w. w \<in> set ws \<Longrightarrow> length w \<le> length s \<Longrightarrow> w \<in> D"
    and "\<And>e. e \<in> set es \<Longrightarrow> s @ [be_label e] \<notin> D" and "distinct (map be_label es)"
  shows "\<exists>nodes'. ofold (linkEdge edges (pos ws s)) es (nodes, queue) =
      Some (nodes', queue @ map (\<lambda>e. pos ws (s @ [be_label e])) es) \<and>
    shape ws nodes' edges \<and> linked ws K (D \<union> (\<lambda>e. s @ [be_label e]) ` set es) nodes'"
  using assms
proof (induction es arbitrary: nodes queue D)
  case Nil
  then show ?case by auto
next
  case (Cons e es)
  have e: "s @ [be_label e] \<in> set ws" "be_target e = pos ws (s @ [be_label e])" "s @ [be_label e] \<notin> D"
    using Cons.prems(5,7) by auto
  obtain nodes1 where 1: "linkEdge edges (pos ws s) e (nodes, queue) =
        Some (nodes1, queue @ [pos ws (s @ [be_label e])])"
      "shape ws nodes1 edges" "linked ws K (insert (s @ [be_label e]) D) nodes1"
    using link_edge [OF Cons.prems(1-4) e(1,2) Cons.prems(6) e(3)] by blast
  have "\<exists>nodes'. ofold (linkEdge edges (pos ws s)) es (nodes1, queue @ [pos ws (s @ [be_label e])]) =
      Some (nodes', (queue @ [pos ws (s @ [be_label e])]) @ map (\<lambda>e. pos ws (s @ [be_label e])) es) \<and>
    shape ws nodes' edges \<and>
    linked ws K (insert (s @ [be_label e]) D \<union> (\<lambda>e. s @ [be_label e]) ` set es) nodes'"
  proof (rule Cons.IH [OF 1(2,3) Cons.prems(3,4)])
    show "s @ [be_label a] \<notin> insert (s @ [be_label e]) D" if "a \<in> set es" for a
    proof -
      have "be_label a \<noteq> be_label e"
        using Cons.prems(8) that by (metis distinct.simps(2) image_eqI list.set_map list.simps(9))
      then show ?thesis using Cons.prems(7) that by simp
    qed
  qed (use Cons.prems(5,6,8) in auto)
  then show ?case using 1(1) by simp
qed

section \<open>The breadth-first loop\<close>

text \<open>
  The queue holds, in order of length, the words whose parent is the root or a word already
  dequeued.
\<close>

definition bfs_queue :: "string set \<Rightarrow> nat \<Rightarrow> string list \<Rightarrow> bool" where
  "bfs_queue W qi qs \<longleftrightarrow> distinct qs \<and> sorted (map length qs) \<and> qi \<le> length qs \<and>
     set qs = {w @ [c] | w c. w @ [c] \<in> W \<and> w \<in> insert [] (set (take qi qs))}"

lemma bfs_queue_complete:
  assumes "keyword_trie W" and "bfs_queue W qi qs"
    and "\<And>v. v \<in> set (drop qi qs) \<Longrightarrow> n \<le> length v" and "w \<in> W" and "w \<noteq> []" and "length w \<le> n"
  shows "w \<in> set qs"
  using assms(4-6)
proof (induction "length w" arbitrary: w rule: less_induct)
  case less
  obtain v c where w: "w = v @ [c]"
    using less.prems(2) by (cases w rule: rev_cases) auto
  have v: "v \<in> W" using keyword_trie.closed [OF assms(1)] less.prems(1) w by blast
  have "v \<in> insert [] (set (take qi qs))"
  proof (cases "v = []")
    case False
    then have "v \<in> set qs" using less.hyps [of v] v w less.prems(3) by simp
    moreover have "v \<notin> set (drop qi qs)" using assms(3) less.prems(3) w by force
    ultimately show ?thesis
      by (metis Un_iff append_take_drop_id insertI2 set_append)
  qed simp
  then show ?case using assms(2) less.prems(1) w unfolding bfs_queue_def by blast
qed

lemma bfs_queue_step:
  assumes "keyword_trie W" and "bfs_queue W qi qs" and "qi < length qs"
    and "set cs = {c. (qs ! qi) @ [c] \<in> W}" and "distinct cs"
  shows "bfs_queue W (Suc qi) (qs @ map (\<lambda>c. (qs ! qi) @ [c]) cs)"
    and "\<And>c. (qs ! qi) @ [c] \<notin> insert [] (set qs)"
proof -
  let ?s = "qs ! qi"
  have q: "distinct qs" "sorted (map length qs)"
    "set qs = {w @ [c] | w c. w @ [c] \<in> W \<and> w \<in> insert [] (set (take qi qs))}"
    using assms(2) by (auto simp: bfs_queue_def)
  have s: "?s \<in> set qs" using assms(3) by simp
  have "?s \<notin> set (take qi qs)"
    using q(1) assms(3) by (metis id_take_nth_drop distinct_append disjoint_insert(1) list.simps(15))
  moreover have "?s \<noteq> []" using s q(3) by auto
  ultimately show fresh: "?s @ [c] \<notin> insert [] (set qs)" for c
    using q(3) by auto
  have short: "length w \<le> Suc (length ?s)" if w: "w \<in> set qs" for w
  proof -
    obtain v c where v: "w = v @ [c]" "v \<in> insert [] (set (take qi qs))"
      using w q(3) by auto
    have "length v \<le> length ?s"
    proof (cases "v = []")
      case False
      then obtain i where "i < qi" "v = qs ! i"
        using v(2) by (auto simp: in_set_conv_nth)
      then show ?thesis
        using sorted_nth_mono [OF q(2), of i qi] assms(3) by simp
    qed simp
    then show ?thesis using v(1) by simp
  qed
  let ?new = "map (\<lambda>c. ?s @ [c]) cs"
  have "distinct (qs @ ?new)"
    using q(1) assms(5) fresh by (auto simp: distinct_map inj_on_def)
  moreover have "sorted (map length (qs @ ?new))"
    using q(2) short by (auto simp: sorted_append comp_def map_replicate_const)
  moreover have "set (qs @ ?new) =
      {w @ [c] | w c. w @ [c] \<in> W \<and> w \<in> insert [] (set (take (Suc qi) (qs @ ?new)))}"
    using assms(3,4) q(3) by (auto simp: take_Suc_conv_app_nth)
  ultimately show "bfs_queue W (Suc qi) (qs @ ?new)"
    using assms(3) by (simp add: bfs_queue_def)
qed

lemma node_edges:
  assumes "shape ws nodes edges" and "s \<in> set ws"
  obtains es where "siblings edges (contentModerationKeywordBuildFirstEdge (kwNode_of ws nodes s)) = Some es"
    and "distinct (map be_label es)" and "set (map be_label es) = {c. s @ [c] \<in> set ws}"
    and "\<And>e. e \<in> set es \<Longrightarrow> s @ [be_label e] \<in> set ws \<and> be_target e = pos ws (s @ [be_label e])"
proof -
  obtain es where es: "siblings edges (contentModerationKeywordBuildFirstEdge (kwNode_of ws nodes s)) = Some es"
    "distinct (map be_label es)"
    "(\<lambda>e. (be_label e, be_target e)) ` set es = {(c, pos ws (s @ [c])) | c. s @ [c] \<in> set ws}"
    using shape_node [OF assms] by (auto simp: node_shape_def adj_def kwNode_of_def)
  have "set (map be_label es) = fst ` (\<lambda>e. (be_label e, be_target e)) ` set es"
    by (simp add: image_image)
  then have "set (map be_label es) = {c. s @ [c] \<in> set ws}"
    unfolding es(3) by force
  moreover have "s @ [be_label e] \<in> set ws \<and> be_target e = pos ws (s @ [be_label e])" if "e \<in> set es" for e
  proof -
    have "(be_label e, be_target e) \<in> (\<lambda>e. (be_label e, be_target e)) ` set es"
      using that by (rule imageI)
    then show ?thesis unfolding es(3) by auto
  qed
  ultimately show ?thesis using es(1,2) that by blast
qed

lemma link_loop:
  assumes "shape ws nodes edges" and "linked ws K (insert [] (set qs)) nodes"
    and "bfs_queue (set ws) qi qs"
  shows "\<exists>nodes'. linkLoop edges qi nodes (map (pos ws) qs) = Some nodes' \<and>
    shape ws nodes' edges \<and> linked ws K (set ws) nodes'"
  using assms
proof (induction "length ws - qi" arbitrary: qi qs nodes rule: less_induct)
  case less
  note trie = shape_trie [OF less.prems(1)]
  have len: "length nodes = length ws" and dist: "distinct ws"
    using less.prems(1) by (simp_all add: shape_def)
  have sub: "set qs \<subseteq> set ws" and dq: "distinct qs" and sorted: "sorted (map length qs)"
    using less.prems(3) by (auto simp: bfs_queue_def)
  have "length qs \<le> length ws"
    using card_mono [OF _ sub] distinct_card [OF dq] distinct_card [OF dist] by simp
  show ?case
  proof (cases "qi < length qs")
    case False
    have "w \<in> insert [] (set qs)" if "w \<in> set ws" for w
      using bfs_queue_complete [OF trie less.prems(3) _ that, of "length w"] False by auto
    then have "insert [] (set qs) = set ws"
      using sub shape_root [OF less.prems(1)] by auto
    then show ?thesis
      using less.prems False by (subst linkLoop.simps) simp
  next
    case True
    let ?s = "qs ! qi"
    have "[] \<notin> set qs" "?s \<in> set qs"
      using less.prems(3) nth_mem [OF True] by (auto simp: bfs_queue_def)
    then have s: "?s \<in> set ws" "?s \<noteq> []"
      using sub by auto
    obtain es where es: "siblings edges (contentModerationKeywordBuildFirstEdge (kwNode_of ws nodes ?s)) = Some es"
      "distinct (map be_label es)" "set (map be_label es) = {c. ?s @ [c] \<in> set ws}"
      "\<And>e. e \<in> set es \<Longrightarrow> ?s @ [be_label e] \<in> set ws \<and> be_target e = pos ws (?s @ [be_label e])"
      using node_edges [OF less.prems(1) s(1)] by blast
    note step = bfs_queue_step [OF trie less.prems(3) True es(3,2)]
    have "length ?s \<le> length v" if "v \<in> set (drop qi qs)" for v
      using that True sorted_nth_mono [OF sorted] by (auto simp: in_set_conv_nth)
    then have short: "w \<in> insert [] (set qs)" if "w \<in> set ws" "length w \<le> length ?s" for w
      using bfs_queue_complete [OF trie less.prems(3) _ that(1) _ that(2)] by auto
    let ?qs = "qs @ map (\<lambda>c. ?s @ [c]) (map be_label es)"
    obtain nodes1 where 1: "ofold (linkEdge edges (pos ws ?s)) es (nodes, map (pos ws) qs) =
        Some (nodes1, map (pos ws) qs @ map (\<lambda>e. pos ws (?s @ [be_label e])) es)"
      "shape ws nodes1 edges"
      "linked ws K (insert [] (set qs) \<union> (\<lambda>e. ?s @ [be_label e]) ` set es) nodes1"
      using link_edges [OF less.prems(1,2) s es(4) short step(2) es(2)] by blast
    have "linked ws K (insert [] (set ?qs)) nodes1"
      using 1(3) by (simp add: image_image)
    moreover have "length ws - Suc qi < length ws - qi"
      using True \<open>length qs \<le> length ws\<close> by simp
    ultimately obtain nodes' where "linkLoop edges (Suc qi) nodes1 (map (pos ws) ?qs) = Some nodes'"
      "shape ws nodes' edges" "linked ws K (set ws) nodes'"
      using less.hyps [OF _ 1(2) _ step(1)] by blast
    then show ?thesis
      using True es(1) 1(1) s(1) len by (subst linkLoop.simps) (simp add: comp_def)
  qed
qed

end
