(* ===== verification/Keyword_Scan.thy ===== *)
theory Keyword_Scan
  imports Keyword_Links
begin

text \<open>
  The third phase of the keyword matcher, the sorted edge table with its binary search, and the
  scan of a text; together with the trie and its links they give the correctness of the matcher.
\<close>

section \<open>The insertion sort\<close>

lemma shiftInto_spec:
  "\<exists>zs. shiftInto current (length xs) (xs @ y # post) = zs @ post \<and> mset zs = add_mset current (mset xs) \<and>
    (sorted (map ke_label xs) \<longrightarrow> sorted (map ke_label zs))"
proof (induction xs arbitrary: y post rule: rev_induct)
  case Nil
  show ?case by (intro exI [of _ "[current]"]) simp
next
  case (snoc x xs)
  show ?case
  proof (cases "ke_label current < ke_label x")
    case True
    obtain zs where zs: "shiftInto current (length xs) (xs @ x # x # post) = zs @ x # post"
      "mset zs = add_mset current (mset xs)" "sorted (map ke_label xs) \<longrightarrow> sorted (map ke_label zs)"
      using snoc.IH [of x "x # post"] by blast
    have "set zs = insert current (set xs)"
      using zs(2) by (metis set_mset_add_mset_insert set_mset_mset)
    with zs True show ?thesis
      by (intro exI [of _ "zs @ [x]"]) (auto simp: nth_append list_update_append sorted_append)
  next
    case False
    then show ?thesis
      by (intro exI [of _ "xs @ [x, current]"])
        (auto simp: nth_append list_update_append sorted_append)
  qed
qed

lemma sortOutgoing_loop:
  assumes "sorted (map ke_label xs)"
  shows "let zs = fold (\<lambda>index out. shiftInto (out ! index) index out)
        [length xs..<length xs + length ys] (xs @ ys) in
    mset zs = mset (xs @ ys) \<and> sorted (map ke_label zs)"
  using assms
proof (induction ys arbitrary: xs)
  case Nil
  then show ?case by simp
next
  case (Cons y ys)
  obtain zs where zs: "shiftInto y (length xs) (xs @ y # ys) = zs @ ys" "mset zs = add_mset y (mset xs)"
    "sorted (map ke_label zs)"
    using shiftInto_spec [of y xs y ys] Cons.prems by blast
  have "length zs = Suc (length xs)"
    using zs(2) by (metis size_add_mset size_mset)
  then have "[length xs..<length xs + length (y # ys)] = length xs # [length zs..<length zs + length ys]"
    using upt_conv_Cons [of "length xs" "length xs + length (y # ys)"] by simp
  then show ?case
    using Cons.IH [OF zs(3)] zs(1,2) by (simp add: Let_def)
qed

lemma sortOutgoing_spec: "mset (sortOutgoing out) = mset out \<and> sorted (map ke_label (sortOutgoing out))"
proof (cases out)
  case Nil
  then show ?thesis by (simp add: sortOutgoing_def)
next
  case (Cons x xs)
  then show ?thesis
    using sortOutgoing_loop [of "[x]" xs] by (simp add: sortOutgoing_def Let_def)
qed

section \<open>The binary search\<close>

lemma searchEdge_spec:
  assumes "0 \<le> a" and "b \<le> int (length edges)" and "a \<le> l" and "l \<le> r" and "r \<le> b"
    and "\<And>i j. a \<le> i \<Longrightarrow> i \<le> j \<Longrightarrow> j < b \<Longrightarrow> ke_label (edges ! nat i) \<le> ke_label (edges ! nat j)"
    and "\<And>i. a \<le> i \<Longrightarrow> i < l \<Longrightarrow> ke_label (edges ! nat i) < c"
    and "\<And>i. r \<le> i \<Longrightarrow> i < b \<Longrightarrow> c \<le> ke_label (edges ! nat i)"
  shows "\<exists>p. searchEdge edges c l r = Some p \<and> a \<le> p \<and> p \<le> b \<and>
    (\<forall>i. a \<le> i \<and> i < p \<longrightarrow> ke_label (edges ! nat i) < c) \<and>
    (\<forall>i. p \<le> i \<and> i < b \<longrightarrow> c \<le> ke_label (edges ! nat i))"
  using assms(3-5,7,8)
proof (induction "nat (r - l)" arbitrary: l r rule: less_induct)
  case less
  show ?case
  proof (cases "l < r")
    case False
    then show ?thesis
      using less.prems by (subst searchEdge.simps) auto
  next
    case True
    let ?m = "l + (r - l) div 2"
    have m: "l \<le> ?m" "?m < r" using True by auto
    then have at: "slice_at edges ?m = Some (edges ! nat ?m)"
      using assms(1,2) less.prems(1,3) by (simp add: slice_at_def)
    show ?thesis
    proof (cases "ke_label (edges ! nat ?m) < c")
      case lt: True
      have "\<exists>p. searchEdge edges c (?m + 1) r = Some p \<and> a \<le> p \<and> p \<le> b \<and>
        (\<forall>i. a \<le> i \<and> i < p \<longrightarrow> ke_label (edges ! nat i) < c) \<and>
        (\<forall>i. p \<le> i \<and> i < b \<longrightarrow> c \<le> ke_label (edges ! nat i))"
      proof (rule less.hyps)
        show "ke_label (edges ! nat i) < c" if "a \<le> i" "i < ?m + 1" for i
          using assms(6) [of i ?m] that m less.prems(3) lt by fastforce
      qed (use m less.prems True in auto)
      then show ?thesis using True at lt by (subst searchEdge.simps) (simp add: Let_def)
    next
      case ge: False
      have "\<exists>p. searchEdge edges c l ?m = Some p \<and> a \<le> p \<and> p \<le> b \<and>
        (\<forall>i. a \<le> i \<and> i < p \<longrightarrow> ke_label (edges ! nat i) < c) \<and>
        (\<forall>i. p \<le> i \<and> i < b \<longrightarrow> c \<le> ke_label (edges ! nat i))"
      proof (rule less.hyps)
        show "c \<le> ke_label (edges ! nat i)" if "?m \<le> i" "i < b" for i
          using assms(6) [of ?m i] that m less.prems(1) ge by fastforce
      qed (use m less.prems True in auto)
      then show ?thesis using True at ge by (subst searchEdge.simps) (simp add: Let_def)
    qed
  qed
qed

text \<open>A node's edges are a sorted segment of the table.\<close>

definition segment :: "kwEdge list \<Rightarrow> kwNode \<Rightarrow> kwEdge list \<Rightarrow> bool" where
  "segment edges node out \<longleftrightarrow>
     (\<exists>pre post. edges = pre @ out @ post \<and> kn_edgeStart node = int (length pre)) \<and>
     kn_edgeCount node = int (length out) \<and> sorted (map ke_label out)"

lemma segment_append: "segment edges node out \<Longrightarrow> segment (edges @ xs) node out"
  unfolding segment_def by force

lemma search_segment:
  fixes edges out :: "kwEdge list" and node :: kwNode
  assumes "segment edges node out" and dist: "distinct (map ke_label out)"
  defines "stop \<equiv> kn_edgeStart node + kn_edgeCount node"
  shows "(do { left \<leftarrow> searchEdge edges c (kn_edgeStart node) stop;
      if left < stop then do { edge \<leftarrow> slice_at edges left;
        Some (if ke_label edge = c then ke_target edge else 0) } else Some 0 }) = Some t \<longleftrightarrow>
    (\<exists>e \<in> set out. ke_label e = c \<and> ke_target e = t) \<or> c \<notin> ke_label ` set out \<and> t = 0"
proof -
  obtain pre post where seg: "edges = pre @ out @ post" "kn_edgeStart node = int (length pre)"
    "kn_edgeCount node = int (length out)" "sorted (map ke_label out)"
    using assms(1) by (auto simp: segment_def)
  have stop: "stop = int (length pre + length out)" by (simp add: stop_def seg(2,3))
  have nth: "edges ! nat (int (length pre) + int i) = out ! i" if "i < length out" for i
    using that by (simp add: seg(1) nth_append nat_add_distrib)
  have nth': "edges ! nat i = out ! nat (i - int (length pre))"
    if "int (length pre) \<le> i" "i < stop" for i
    using nth [of "nat (i - int (length pre))"] that by (simp add: stop)
  have "\<exists>p. searchEdge edges c (kn_edgeStart node) stop = Some p \<and> int (length pre) \<le> p \<and> p \<le> stop \<and>
    (\<forall>i. int (length pre) \<le> i \<and> i < p \<longrightarrow> ke_label (edges ! nat i) < c) \<and>
    (\<forall>i. p \<le> i \<and> i < stop \<longrightarrow> c \<le> ke_label (edges ! nat i))"
    unfolding seg(2)
  proof (rule searchEdge_spec)
    show "ke_label (edges ! nat i) \<le> ke_label (edges ! nat j)"
      if "int (length pre) \<le> i" "i \<le> j" "j < stop" for i j
      using nth' [of i] nth' [of j] that
        sorted_nth_mono [OF seg(4), of "nat (i - int (length pre))" "nat (j - int (length pre))"]
      by (simp add: stop nat_diff_distrib nat_less_iff)
  qed (auto simp: stop seg(1))
  then obtain p where p: "searchEdge edges c (kn_edgeStart node) stop = Some p"
    "int (length pre) \<le> p" "p \<le> stop"
    "\<And>i. int (length pre) \<le> i \<Longrightarrow> i < p \<Longrightarrow> ke_label (edges ! nat i) < c"
    "\<And>i. p \<le> i \<Longrightarrow> i < stop \<Longrightarrow> c \<le> ke_label (edges ! nat i)"
    by blast
  have other: "ke_label (out ! i) \<noteq> c" if "i < length out" "int (length pre + i) < p" for i
    using p(4) [of "int (length pre + i)"] nth [of i] that by auto
  show ?thesis
  proof (cases "p < stop")
    case False
    have "ke_label (out ! i) \<noteq> c" if "i < length out" for i
      using other [of i] that False p(3) by (simp add: stop)
    then have "c \<notin> ke_label ` set out" by (metis image_iff in_set_conv_nth)
    then show ?thesis using p(1) False by auto
  next
    case True
    let ?k = "nat (p - int (length pre))"
    have k: "?k < length out" "slice_at edges p = Some (out ! ?k)"
      using True p(2) nth' [of p] by (auto simp: stop slice_at_def seg(1))
    have first: "?k \<le> i" if "i < length out" "ke_label (out ! i) = c" for i
      using other [OF that(1)] that(2) p(2) by linarith
    have hit: "ke_label (out ! ?k) = c" if e: "e \<in> set out" "ke_label e = c" for e
    proof -
      obtain i where i: "i < length out" "ke_label (out ! i) = c"
        using e by (auto simp: in_set_conv_nth)
      have "ke_label (out ! ?k) \<le> c"
        using sorted_nth_mono [OF seg(4) first [OF i]] i k(1) by simp
      moreover have "c \<le> ke_label (out ! ?k)"
        using p(5) [of p] True nth' [of p] p(2) by simp
      ultimately show ?thesis by simp
    qed
    have val: "(do { left \<leftarrow> searchEdge edges c (kn_edgeStart node) stop;
      if left < stop then do { edge \<leftarrow> slice_at edges left;
        Some (if ke_label edge = c then ke_target edge else 0) } else Some 0 }) =
      Some (if ke_label (out ! ?k) = c then ke_target (out ! ?k) else 0)"
      using p(1) True k(2) by simp
    have own: "out ! ?k \<in> set out" using k(1) by simp
    have uniq: "e = out ! ?k" if "e \<in> set out" "ke_label e = c" "ke_label (out ! ?k) = c" for e
      using dist own that by (auto simp: distinct_map dest: inj_onD)
    show ?thesis
    proof (cases "ke_label (out ! ?k) = c")
      case True
      have "(\<exists>e \<in> set out. ke_label e = c \<and> ke_target e = t) \<longleftrightarrow> ke_target (out ! ?k) = t"
        using own True uniq [OF _ _ True] by blast
      moreover have "c \<in> ke_label ` set out"
        using own True by blast
      ultimately show ?thesis unfolding val by (simp add: True)
    next
      case False
      then have "c \<notin> ke_label ` set out" using hit by auto
      then show ?thesis unfolding val using False by auto
    qed
  qed
qed

section \<open>The edge table\<close>

definition node_table :: "string list \<Rightarrow> kwEdge list \<Rightarrow> kwNode \<Rightarrow> string \<Rightarrow> bool" where
  "node_table ws edges node w \<longleftrightarrow> (\<exists>out. segment edges node out \<and> distinct (map ke_label out) \<and>
     (\<lambda>e. (ke_label e, ke_target e)) ` set out = {(c, pos ws (w @ [c])) | c. w @ [c] \<in> set ws})"

lemma node_table_append: "node_table ws edges node w \<Longrightarrow> node_table ws (edges @ xs) node w"
  unfolding node_table_def by (elim exE conjE, rule exI, intro conjI segment_append)

lemma card_labels: "distinct (cs :: char list) \<Longrightarrow> length cs \<le> 256"
proof -
  assume "distinct cs"
  then have "length cs = card (set cs)" by (simp add: distinct_card)
  also have "\<dots> \<le> card (UNIV :: char set)" by (intro card_mono) simp_all
  finally show ?thesis by (simp add: card_UNIV_char)
qed

text \<open>
  The loop over the nodes: those below \<open>k\<close> have their segment, the others are untouched, and
  the table so far has one edge for every child of a word below \<open>k\<close>.
\<close>

definition flat :: "string list \<Rightarrow> kwNode list \<Rightarrow> nat \<Rightarrow> kwNode list \<Rightarrow> kwEdge list \<Rightarrow> bool" where
  "flat ws nodes0 k nodes edges \<longleftrightarrow>
     length nodes = length nodes0 \<and> k \<le> length nodes0 \<and>
     (\<forall>j < length nodes0. kn_failure (nodes ! j) = kn_failure (nodes0 ! j) \<and>
        kn_bestKeyword (nodes ! j) = kn_bestKeyword (nodes0 ! j) \<and>
        (if j < k then node_table ws edges (nodes ! j) (ws ! j) else nodes ! j = nodes0 ! j)) \<and>
     distinct (map ke_target edges) \<and>
     set (map ke_target edges) = {pos ws (v @ [c]) | v c. v @ [c] \<in> set ws \<and> v \<in> set (take k ws)}"

lemma flat_length:
  assumes "flat ws nodes0 k nodes edges"
  shows "length edges \<le> length ws"
proof -
  have sub: "set (map ke_target edges) \<subseteq> int ` {..<length ws}"
  proof
    fix t assume "t \<in> set (map ke_target edges)"
    then obtain w where "t = pos ws w" "w \<in> set ws"
      using assms unfolding flat_def by blast
    then show "t \<in> int ` {..<length ws}"
      using pos_less [of w ws] by (intro image_eqI [of _ _ "nat t"]) (simp_all add: nat_less_iff)
  qed
  have "length edges = card (set (map ke_target edges))"
    using assms distinct_card [of "map ke_target edges"] by (simp add: flat_def)
  also have "\<dots> \<le> card (int ` {..<length ws})"
    by (rule card_mono [OF _ sub]) simp
  also have "\<dots> \<le> length ws"
    using card_image_le [of "{..<length ws}" int] by simp
  finally show ?thesis .
qed

lemma flatten_node:
  assumes "shape ws nodes0 buildEdges" and "flat ws nodes0 k nodes edges" and "k < length ws"
  shows "\<exists>nodes' edges'. flattenNode buildEdges k (nodes, edges) = Some (nodes', edges') \<and>
    flat ws nodes0 (Suc k) nodes' edges'"
proof -
  let ?w = "ws ! k"
  have dist: "distinct ws" and len: "length nodes0 = length ws" "length nodes = length ws"
    and small: "int (length ws) \<le> 2 ^ 31"
    using assms(1,2) by (auto simp: shape_def flat_def)
  have pk: "pos ws ?w = int k" using pos_unique [OF dist assms(3)] by simp
  have same: "nodes ! k = nodes0 ! k" using assms(2,3) len by (auto simp: flat_def)
  obtain es where es: "siblings buildEdges (contentModerationKeywordBuildFirstEdge (nodes ! k)) = Some es"
    "distinct (map be_label es)" "set (map be_label es) = {c. ?w @ [c] \<in> set ws}"
    "\<And>e. e \<in> set es \<Longrightarrow> ?w @ [be_label e] \<in> set ws \<and> be_target e = pos ws (?w @ [be_label e])"
    using node_edges [OF assms(1), of ?w] assms(3) pk by (auto simp: kwNode_of_def same)
  let ?raw = "map (\<lambda>e. \<lparr> ke_target = be_target e, ke_label = be_label e \<rparr>) es"
  let ?out = "sortOutgoing ?raw"
  have m: "mset ?out = mset ?raw" and sorted: "sorted (map ke_label ?out)"
    using sortOutgoing_spec by blast+
  have perm: "mset (map f ?out) = mset (map f ?raw)" for f :: "kwEdge \<Rightarrow> 'b"
    unfolding mset_map [of f] m ..
  have lab: "distinct (map ke_label ?out)"
    using mset_eq_imp_distinct_iff [OF perm [of ke_label]] es(2) by (simp add: comp_def)
  have set: "set ?out = set ?raw"
    using m by (rule mset_eq_setD)
  have lo: "length ?out = length es"
    using mset_eq_length [OF m] by simp
  have small_out: "length es \<le> 256"
    using card_labels [OF es(2)] by simp
  let ?node = "(nodes ! k) \<lparr> kn_edgeStart := int (length edges), kn_edgeCount := int (length ?out) \<rparr>"
  have run: "flattenNode buildEdges k (nodes, edges) = Some (nodes[k := ?node], edges @ ?out)"
    using es(1) small_out lo flat_length [OF assms(2)] small assms(3) len
    by (simp add: flattenNode_def Let_def)
  have pairs: "(\<lambda>e. (ke_label e, ke_target e)) ` set ?out = {(c, pos ws (?w @ [c])) | c. ?w @ [c] \<in> set ws}"
  proof -
    have "(\<lambda>e. (ke_label e, ke_target e)) ` set ?out = (\<lambda>e. (be_label e, pos ws (?w @ [be_label e]))) ` set es"
      unfolding set using es(4) by (simp add: image_image)
    also have "\<dots> = (\<lambda>c. (c, pos ws (?w @ [c]))) ` set (map be_label es)"
      by (simp add: image_image)
    also have "\<dots> = {(c, pos ws (?w @ [c])) | c. ?w @ [c] \<in> set ws}"
      unfolding es(3) by auto
    finally show ?thesis .
  qed
  have seg: "segment (edges @ ?out) ?node ?out"
    using sorted unfolding segment_def by (intro conjI exI [of _ edges] exI [of _ "[]"]) simp_all
  then have table: "node_table ws (edges @ ?out) ?node ?w"
    using lab pairs unfolding node_table_def by blast
  have targets: "set (map ke_target ?out) = {pos ws (?w @ [c]) | c. ?w @ [c] \<in> set ws}"
  proof -
    have "set (map ke_target ?out) = snd ` (\<lambda>e. (ke_label e, ke_target e)) ` set ?out"
      by (simp add: image_image)
    then show ?thesis unfolding pairs by (force simp: image_iff)
  qed
  have pos_inj: "pos ws v = pos ws v' \<Longrightarrow> v \<in> set ws \<Longrightarrow> v' \<in> set ws \<Longrightarrow> v = v'" for v v'
    by (metis nth_pos)
  have dt: "distinct (map ke_target ?out)"
  proof -
    have "inj_on (\<lambda>e. pos ws (?w @ [be_label e])) (set es)"
    proof (rule inj_onI)
      fix x y assume xy: "x \<in> set es" "y \<in> set es"
        "pos ws (?w @ [be_label x]) = pos ws (?w @ [be_label y])"
      then have "be_label x = be_label y" using pos_inj es(4) by blast
      with xy(1,2) es(2) show "x = y" by (auto simp: distinct_map inj_on_def)
    qed
    then have "distinct (map be_target es)"
      using es(2,4) by (auto simp: distinct_map inj_on_def)
    then show ?thesis
      using mset_eq_imp_distinct_iff [OF perm [of ke_target]] by (simp add: comp_def)
  qed
  have fresh: "?w \<notin> set (take k ws)"
    using dist assms(3) by (metis id_take_nth_drop distinct_append disjoint_insert(1) list.simps(15))
  have "t \<notin> set (map ke_target ?out)" if t: "t \<in> set (map ke_target edges)" for t
  proof
    assume "t \<in> set (map ke_target ?out)"
    then obtain d where d: "t = pos ws (?w @ [d])" "?w @ [d] \<in> set ws"
      unfolding targets by blast
    obtain v c where v: "t = pos ws (v @ [c])" "v @ [c] \<in> set ws" "v \<in> set (take k ws)"
      using t assms(2) unfolding flat_def by blast
    have "?w @ [d] = v @ [c]"
      using pos_inj [OF _ d(2) v(2)] d(1) v(1) by simp
    with v(3) have "?w \<in> set (take k ws)" by simp
    with fresh show False ..
  qed
  then have "set (map ke_target edges) \<inter> set (map ke_target ?out) = {}"
    by blast
  moreover have "set (map ke_target (edges @ ?out)) =
      {pos ws (v @ [c]) | v c. v @ [c] \<in> set ws \<and> v \<in> set (take (Suc k) ws)}"
    using assms(2,3) targets by (auto simp: flat_def take_Suc_conv_app_nth)
  ultimately have t: "distinct (map ke_target (edges @ ?out))"
    "set (map ke_target (edges @ ?out)) =
      {pos ws (v @ [c]) | v c. v @ [c] \<in> set ws \<and> v \<in> set (take (Suc k) ws)}"
    using assms(2) dt by (simp_all add: flat_def)
  have "flat ws nodes0 (Suc k) (nodes[k := ?node]) (edges @ ?out)"
    unfolding flat_def
  proof (intro conjI allI impI t)
    fix j assume j: "j < length nodes0"
    show "kn_failure (nodes[k := ?node] ! j) = kn_failure (nodes0 ! j)"
      "kn_bestKeyword (nodes[k := ?node] ! j) = kn_bestKeyword (nodes0 ! j)"
      using assms(2) j same len by (cases "j = k"; simp add: flat_def)+
    show "if j < Suc k then node_table ws (edges @ ?out) (nodes[k := ?node] ! j) (ws ! j)
        else nodes[k := ?node] ! j = nodes0 ! j"
      using assms(2) j table node_table_append len by (cases "j = k") (auto simp: flat_def less_Suc_eq)
  qed (use assms len in simp_all)
  then show ?thesis using run by blast
qed

lemma flatten_nodes:
  assumes "shape ws nodes0 buildEdges" and "flat ws nodes0 k nodes edges"
  shows "\<exists>nodes' edges'. ofold (flattenNode buildEdges) [k..<length ws] (nodes, edges) = Some (nodes', edges') \<and>
    flat ws nodes0 (length ws) nodes' edges'"
  using assms(2)
proof (induction "length ws - k" arbitrary: k nodes edges)
  case 0
  then have "k = length ws" using assms(1) by (simp add: flat_def shape_def)
  then show ?case using 0 by simp
next
  case (Suc d)
  then have k: "k < length ws" by simp
  obtain nodes1 edges1 where "flattenNode buildEdges k (nodes, edges) = Some (nodes1, edges1)"
    "flat ws nodes0 (Suc k) nodes1 edges1"
    using flatten_node [OF assms(1) Suc.prems k] by blast
  moreover have "[k..<length ws] = k # [Suc k..<length ws]"
    using k by (simp add: upt_conv_Cons)
  ultimately show ?case
    using Suc.hyps(1) [of "Suc k"] Suc.hyps(2) by simp
qed

section \<open>A finished matcher\<close>

definition matcher_ok ::
  "string list \<Rightarrow> (string \<Rightarrow> nat \<Rightarrow> bool) \<Rightarrow> contentModerationKeywordMatcher \<Rightarrow> bool" where
  "matcher_ok ws K m \<longleftrightarrow>
     keyword_trie (set ws) \<and> pos ws [] = 0 \<and> length (km_nodes m) = length ws \<and>
     (\<forall>w k. K w k \<longrightarrow> w \<in> set ws \<and> w \<noteq> []) \<and>
     (\<forall>w \<in> set ws. node_linked ws K True (kwNode_of ws (km_nodes m) w) w \<and>
       (\<forall>c. km_next m (pos ws w) c = Some (if w @ [c] \<in> set ws then pos ws (w @ [c]) else 0)))"

lemma advance_ok:
  assumes "matcher_ok ws K m" and "v \<in> set ws"
  shows "advance m c (pos ws v) = Some (pos ws (lsuf (set ws) (v @ [c])))"
  using assms(2)
proof (induction "length v" arbitrary: v rule: less_induct)
  case less
  have trie: "keyword_trie (set ws)" and root: "pos ws [] = 0" and len: "length (km_nodes m) = length ws"
    using assms(1) by (simp_all add: matcher_ok_def)
  have nxt: "km_next m (pos ws v) c = Some (if v @ [c] \<in> set ws then pos ws (v @ [c]) else 0)"
    and fail: "kn_failure (kwNode_of ws (km_nodes m) v) = pos ws (lsuf (set ws) (tl v))"
    using assms(1) less.prems by (auto simp: matcher_ok_def node_linked_def)
  have nonzero: "pos ws w \<noteq> 0" if "w \<in> set ws" "w \<noteq> []" for w
    using nth_pos [OF that(1)] nth_pos [OF keyword_trie.root [OF trie]] root that(2) by auto
  show ?case
  proof (cases "v @ [c] \<in> set ws")
    case True
    then show ?thesis
      using nxt nonzero by (subst advance.simps) simp
  next
    case False
    show ?thesis
    proof (cases "v = []")
      case True
      then show ?thesis
        using nxt False root by (subst advance.simps) simp
    next
      case v: False
      let ?f = "lsuf (set ws) (tl v)"
      have "advance m c (pos ws v) = advance m c (pos ws ?f)"
        using nxt False nonzero [OF less.prems v] less.prems len fail by (subst advance.simps) simp
      moreover have "advance m c (pos ws ?f) = Some (pos ws (lsuf (set ws) (?f @ [c])))"
        using less.hyps [OF length_lsuf_tl [OF v]] keyword_trie.lsuf_in [OF trie] by blast
      ultimately show ?thesis
        using keyword_trie.lsuf_fail [OF trie v False] by simp
    qed
  qed
qed

text \<open>The least keyword that ends somewhere in a text, behind a part already read.\<close>

definition best_within :: "(string \<Rightarrow> nat \<Rightarrow> bool) \<Rightarrow> string \<Rightarrow> int" where
  "best_within K inp = least_index (\<lambda>k. \<exists>v. sublist v inp \<and> K v k)"

lemma best_within_snoc:
  assumes "\<And>w k. K w k \<Longrightarrow> w \<noteq> []"
  shows "best_within K (inp @ [c]) = minKeywordIndex (best_within K inp) (best_ending K (inp @ [c]))"
proof -
  have "sublist v (inp @ [c]) \<longleftrightarrow> sublist v inp \<or> suffix v (inp @ [c])" for v
    by (auto simp: sublist_snoc suffix_imp_sublist)
  then show ?thesis
    unfolding best_within_def best_ending_def minKeywordIndex_least
    by (intro arg_cong [where f = least_index]) auto
qed

definition verdict :: "string list \<Rightarrow> int \<Rightarrow> string option" where
  "verdict kws b = (if b < 0 then None else Some (kws ! nat b))"

lemma scan_ok:
  assumes "matcher_ok ws K m" and "\<And>w k. K w k \<Longrightarrow> k < length (km_keywords m)"
  shows "scanText m rest (pos ws (lsuf (set ws) inp)) (best_within K inp) =
    Some (verdict (km_keywords m) (best_within K (inp @ rest)))"
proof (induction rest arbitrary: inp)
  case Nil
  show ?case
    by (cases "\<lambda>k. \<exists>v. sublist v inp \<and> K v k" rule: least_index_cases)
      (auto simp: best_within_def verdict_def slice_at_def dest: assms(2))
next
  case (Cons c rest)
  have trie: "keyword_trie (set ws)" and len: "length (km_nodes m) = length ws"
    and K: "\<And>w k. K w k \<Longrightarrow> w \<in> set ws" "\<And>w k. K w k \<Longrightarrow> w \<noteq> []"
    using assms(1) by (auto simp: matcher_ok_def)
  let ?v = "lsuf (set ws) inp" and ?v' = "lsuf (set ws) (inp @ [c])"
  have v: "?v \<in> set ws" "?v' \<in> set ws"
    using keyword_trie.lsuf_in [OF trie] by auto
  have "advance m c (pos ws ?v) = Some (pos ws ?v')"
    using advance_ok [OF assms(1) v(1)] keyword_trie.lsuf_snoc [OF trie] by simp
  moreover have "kn_bestKeyword (kwNode_of ws (km_nodes m) ?v') = best_ending K (inp @ [c])"
  proof -
    have "suffix w ?v' \<and> K w k \<longleftrightarrow> suffix w (inp @ [c]) \<and> K w k" for w k
      using keyword_trie.suffix_text [OF trie] K(1) by blast
    then show ?thesis
      using assms(1) v(2) by (simp add: matcher_ok_def node_linked_def best_ending_def)
  qed
  moreover have zero: "best_within K (inp @ c # rest) = 0" if b: "best_within K (inp @ [c]) = 0"
  proof -
    obtain w where "sublist w (inp @ [c])" "K w 0"
      using b least_index_zero [of "\<lambda>k. \<exists>v. sublist v (inp @ [c]) \<and> K v k"]
      by (auto simp: best_within_def)
    moreover have "sublist (inp @ [c]) (inp @ c # rest)"
      using sublist_appendI [of "inp @ [c]" "[]" rest] by simp
    ultimately have "\<exists>v. sublist v (inp @ c # rest) \<and> K v 0"
      using sublist_order.order.trans by blast
    then show ?thesis
      using least_index_eqI [of "\<lambda>k. \<exists>v. sublist v (inp @ c # rest) \<and> K v k" 0]
      unfolding best_within_def by simp
  qed
  moreover have "slice_at (km_keywords m) 0 = Some (km_keywords m ! 0)"
    if "best_within K (inp @ [c]) = 0"
    using least_index_zero [OF that [unfolded best_within_def]] assms(2) by (auto simp: slice_at_def)
  ultimately show ?case
    using best_within_snoc [OF K(2), where inp = inp and c = c] Cons.IH [of "inp @ [c]"] v(2) len
    by (auto simp: Let_def verdict_def)
qed

section \<open>Building gives a finished matcher\<close>

lemma rootTransitions:
  assumes "distinct (map be_label es)"
  shows "e \<in> set es \<Longrightarrow> fold (\<lambda>e f. f(be_label e := be_target e)) es g (be_label e) = be_target e"
    and "c \<notin> be_label ` set es \<Longrightarrow> fold (\<lambda>e f. f(be_label e := be_target e)) es g c = g c"
proof -
  show keep: "c \<notin> be_label ` set es \<Longrightarrow> fold (\<lambda>e f. f(be_label e := be_target e)) es g c = g c" for es c g
    by (induction es arbitrary: g) auto
  show "e \<in> set es \<Longrightarrow> fold (\<lambda>e f. f(be_label e := be_target e)) es g (be_label e) = be_target e"
    using assms
  proof (induction es arbitrary: g)
    case (Cons a es)
    show ?case
    proof (cases "e = a")
      case True
      then show ?thesis
        using keep [of "be_label e" es] Cons.prems by (simp del: fun_upd_apply add: fun_upd_same)
    next
      case False
      then show ?thesis using Cons by (simp del: fun_upd_apply)
    qed
  qed simp
qed

lemma linked_init:
  assumes "shape ws nodes edges" and "own_data (\<lambda>w. least_index (K w)) ws nodes"
    and "\<And>w k. K w k \<Longrightarrow> w \<in> set ws \<and> w \<noteq> []"
    and "\<And>w. w \<in> D \<Longrightarrow> length w \<le> 1"
  shows "linked ws K D nodes"
proof -
  have node: "kn_failure (kwNode_of ws nodes w) = 0 \<and> kn_bestKeyword (kwNode_of ws nodes w) = least_index (K w)"
    if "w \<in> set ws" for w
    using assms(2) pos_less [OF that] nth_pos [OF that]
    by (auto simp: own_data_def kwNode_of_def nat_less_iff dest!: spec [of _ "nat (pos ws w)"])
  have "best_ending K [] = -1"
    unfolding best_ending_def using assms(3) by (intro least_index_none) auto
  moreover have "lsuf (set ws) (tl w) = []" if "w \<in> D" for w
    using assms(4) [OF that] length_lsuf_le [of "set ws" "tl w"] by simp
  ultimately have "best_ending K w = least_index (K w)" if "w \<in> D" for w
    using best_ending_fail [OF shape_trie [OF assms(1)], of K w] assms(3) that
    by (auto simp: minKeywordIndex_def least_index_def)
  then show ?thesis
    using assms(3) node shape_root [OF assms(1)] \<open>\<And>w. w \<in> D \<Longrightarrow> lsuf (set ws) (tl w) = []\<close>
    by (auto simp: linked_def node_linked_def)
qed

lemma bfs_queue_init:
  assumes "distinct cs" and "set cs = {c. [c] \<in> W}"
  shows "bfs_queue W 0 (map (\<lambda>c. [c]) cs)"
  using assms by (auto simp: bfs_queue_def distinct_map inj_on_def comp_def map_replicate_const)

lemma table_next:
  assumes "node_table ws (km_edges m) (kwNode_of ws (km_nodes m) w) w" and "w \<in> set ws"
    and "length (km_nodes m) = length ws" and "pos ws w \<noteq> 0"
  shows "km_next m (pos ws w) c = Some (if w @ [c] \<in> set ws then pos ws (w @ [c]) else 0)"
proof -
  obtain out where out: "segment (km_edges m) (kwNode_of ws (km_nodes m) w) out" "distinct (map ke_label out)"
    "(\<lambda>e. (ke_label e, ke_target e)) ` set out = {(c, pos ws (w @ [c])) | c. w @ [c] \<in> set ws}"
    using assms(1) by (auto simp: node_table_def)
  let ?t = "if w @ [c] \<in> set ws then pos ws (w @ [c]) else 0"
  have mem: "(\<exists>e \<in> set out. ke_label e = c \<and> ke_target e = t) \<longleftrightarrow> w @ [c] \<in> set ws \<and> t = pos ws (w @ [c])" for t
  proof -
    have "(\<exists>e \<in> set out. ke_label e = c \<and> ke_target e = t) \<longleftrightarrow>
        (c, t) \<in> (\<lambda>e. (ke_label e, ke_target e)) ` set out"
      by force
    then show ?thesis unfolding out(3) by auto
  qed
  have "c \<in> ke_label ` set out \<longleftrightarrow> w @ [c] \<in> set ws"
    using mem by blast
  then have "(\<exists>e \<in> set out. ke_label e = c \<and> ke_target e = ?t) \<or> c \<notin> ke_label ` set out \<and> ?t = 0"
    using mem [of ?t] by auto
  note found = this [folded search_segment [OF out(1,2), of c ?t]]
  have "\<not> (pos ws w < 0 \<or> pos ws w \<ge> int (length (km_nodes m)))"
    using pos_less [OF assms(2)] assms(3) by linarith
  with found assms(4) show ?thesis
    by (simp only: km_next_def Let_def if_False kwNode_of_def)
qed

text \<open>The three phases put together, for a trie with at least one edge.\<close>

lemma build_ok:
  assumes "shape ws nodes edges" and "own_data (\<lambda>w. least_index (K w)) ws nodes"
    and "\<forall>w k. K w k \<longrightarrow> w \<in> set ws \<and> w \<noteq> []"
  shows "\<exists>m. (do {
          root \<leftarrow> slice_at nodes 0;
          es \<leftarrow> siblings edges (contentModerationKeywordBuildFirstEdge root);
          let rootTransitions = fold (\<lambda>e f. f(be_label e := be_target e)) es (\<lambda>_. 0);
          nodes \<leftarrow> linkLoop edges 0 nodes (map be_target es);
          (nodes, edges) \<leftarrow> ofold (flattenNode edges) [0..<length nodes] (nodes, []);
          Some (Some \<lparr> km_nodes = nodes, km_edges = edges, km_rootTransitions = rootTransitions,
                       km_keywords = kws \<rparr>)
        }) = Some (Some m) \<and> matcher_ok ws K m \<and> km_keywords m = kws"
proof -
  have root: "[] \<in> set ws" "pos ws [] = 0" and trie: "keyword_trie (set ws)"
    and len: "length nodes = length ws"
    using shape_root [OF assms(1)] shape_trie [OF assms(1)] assms(1) by (simp_all add: shape_def)
  have slice: "slice_at nodes 0 = Some (kwNode_of ws nodes [])"
    using slice_node [OF root(1) len] root(2) by simp
  obtain es where es: "siblings edges (contentModerationKeywordBuildFirstEdge (kwNode_of ws nodes [])) = Some es"
    "distinct (map be_label es)" "set (map be_label es) = {c. [c] \<in> set ws}"
    "\<And>e. e \<in> set es \<Longrightarrow> [be_label e] \<in> set ws \<and> be_target e = pos ws [be_label e]"
    using node_edges [OF assms(1) root(1)] by auto
  let ?qs = "map (\<lambda>c. [c]) (map be_label es)"
  have queue: "map be_target es = map (pos ws) ?qs"
    using es(4) by simp
  have "linked ws K (insert [] (set ?qs)) nodes"
    by (rule linked_init [OF assms(1,2)]) (use assms(3) in auto)
  then obtain nodes1 where 1: "linkLoop edges 0 nodes (map be_target es) = Some nodes1"
    "shape ws nodes1 edges" "linked ws K (set ws) nodes1"
    using link_loop [OF assms(1) _ bfs_queue_init [OF es(2,3)]] unfolding queue by blast
  have len1: "length nodes1 = length ws"
    using 1(2) by (simp add: shape_def)
  have "flat ws nodes1 0 nodes1 []"
    by (simp add: flat_def)
  then obtain nodes2 edges2 where 2:
    "ofold (flattenNode edges) [0..<length ws] (nodes1, []) = Some (nodes2, edges2)"
    "flat ws nodes1 (length ws) nodes2 edges2"
    using flatten_nodes [OF 1(2)] by blast
  have len2: "length nodes2 = length ws"
    using 2(2) len1 by (simp add: flat_def)
  let ?m = "\<lparr> km_nodes = nodes2, km_edges = edges2,
    km_rootTransitions = fold (\<lambda>e f. f(be_label e := be_target e)) es (\<lambda>_. 0), km_keywords = kws \<rparr>"
  have at: "kn_failure (kwNode_of ws nodes2 w) = kn_failure (kwNode_of ws nodes1 w) \<and>
      kn_bestKeyword (kwNode_of ws nodes2 w) = kn_bestKeyword (kwNode_of ws nodes1 w) \<and>
      node_table ws edges2 (kwNode_of ws nodes2 w) w" if "w \<in> set ws" for w
    using 2(2) len1 pos_less [OF that] nth_pos [OF that]
    by (auto simp: flat_def kwNode_of_def nat_less_iff dest!: spec [of _ "nat (pos ws w)"])
  have "km_next ?m (pos ws w) c = Some (if w @ [c] \<in> set ws then pos ws (w @ [c]) else 0)"
    if w: "w \<in> set ws" for w c
  proof (cases "w = []")
    case True
    show ?thesis
    proof (cases "[c] \<in> set ws")
      case c: True
      then have "c \<in> set (map be_label es)" using es(3) by simp
      then obtain e where "e \<in> set es" "be_label e = c" by auto
      then show ?thesis
        using rootTransitions(1) [OF es(2), of e "\<lambda>_. 0"] es(4) True c root(2) by (simp add: km_next_def)
    next
      case False
      then have "c \<notin> be_label ` set es" using es(3) by auto
      then show ?thesis
        using rootTransitions(2) [OF es(2), of c "\<lambda>_. 0"] False True root(2) by (simp add: km_next_def)
    qed
  next
    case False
    have "pos ws w \<noteq> 0"
      using nth_pos [OF w] nth_pos [OF root(1)] root(2) False by auto
    then show ?thesis
      using table_next [of ws ?m w c] at [OF w] w len2 by simp
  qed
  moreover have "node_linked ws K True (kwNode_of ws nodes2 w) w" if "w \<in> set ws" for w
    using 1(3) at [OF that] that by (auto simp: linked_def node_linked_def)
  ultimately have "matcher_ok ws K ?m"
    using trie root(2) len2 assms(3) by (auto simp: matcher_ok_def)
  then show ?thesis
    using slice es(1) 1(1) 2(1) len1 by (auto simp: Let_def)
qed

section \<open>Correctness of the matcher\<close>

definition keyword_match :: "(string \<Rightarrow> string) \<Rightarrow> string list \<Rightarrow> string \<Rightarrow> string option" where
  "keyword_match u kws t =
     find (\<lambda>kw. kw \<noteq> [] \<and> sublist (strings_ToLower u kw) (strings_ToLower u t)) kws"

lemma verdict_find:
  "verdict kws (least_index (\<lambda>k. k < length kws \<and> P (kws ! k))) = find P kws"
proof (cases "\<lambda>k. k < length kws \<and> P (kws ! k)" rule: least_index_cases)
  case none
  then have "find P kws = None" by (auto simp: find_None_iff in_set_conv_nth)
  then show ?thesis using none(2) by (simp add: verdict_def)
next
  case (some k)
  then have "find P kws = Some (kws ! k)"
    unfolding find_Some_iff by (intro exI [of _ k]) auto
  then show ?thesis using some(3) by (simp add: verdict_def)
qed

lemma verdict_keyword_match:
  "verdict kws (best_within (keyword_at u kws (length kws)) (strings_ToLower u t)) = keyword_match u kws t"
proof -
  have "(\<lambda>k. \<exists>v. sublist v (strings_ToLower u t) \<and> keyword_at u kws (length kws) v k) =
      (\<lambda>k. k < length kws \<and> kws ! k \<noteq> [] \<and> sublist (strings_ToLower u (kws ! k)) (strings_ToLower u t))"
    by (auto simp: keyword_at_def)
  then show ?thesis
    using verdict_find [of kws "\<lambda>kw. kw \<noteq> [] \<and> sublist (strings_ToLower u kw) (strings_ToLower u t)"]
    by (simp add: best_within_def keyword_match_def)
qed

lemma match_ok:
  assumes "\<And>s. u s = [] \<longleftrightarrow> s = []" and "matcher_ok ws (keyword_at u kws (length kws)) m"
    and "km_keywords m = kws" and "kws \<noteq> []"
  shows "Match u (Some m) t = Some (keyword_match u kws t)"
proof (cases "t = []")
  case True
  then have "keyword_match u kws t = None"
    using strings_ToLower_eq_Nil [OF assms(1)] by (auto simp: keyword_match_def find_None_iff)
  with True show ?thesis by (simp add: Match_def)
next
  case False
  let ?K = "keyword_at u kws (length kws)"
  have "best_within ?K [] = -1"
    unfolding best_within_def using assms(2) by (intro least_index_none) (auto simp: matcher_ok_def)
  moreover have "set ws \<noteq> {}" "length (km_nodes m) = length ws" "pos ws [] = 0"
    using assms(2) keyword_trie.root [of "set ws"] by (auto simp: matcher_ok_def)
  moreover have "k < length (km_keywords m)" if "?K w k" for w k
    using that assms(3) by (simp add: keyword_at_def)
  ultimately show ?thesis
    using scan_ok [OF assms(2), of "strings_ToLower u t" "[]"] assms(3,4) False
    by (auto simp: Match_def verdict_keyword_match)
qed

text \<open>
  Property C14 (functional). The keyword matcher is total and exact: for every list of keywords
  that fits the 32-bit indices, building it ends without a panic, and every call of \<open>Match\<close> on it
  ends without a panic and returns the first keyword of the list that is not empty and whose
  lower-case form occurs in the lower-case text, and nothing if there is none. The only assumption
  on the conversion of non-ASCII strings is that it maps no string to the empty one.
\<close>

theorem keyword_match_exact:
  assumes "\<And>s. u s = [] \<longleftrightarrow> s = []" and "keywords_fit u kws"
  shows "\<exists>m. newContentModerationKeywordMatcher u kws = Some m \<and>
    (\<forall>t. Match u m t =
      Some (find (\<lambda>kw. kw \<noteq> [] \<and> sublist (strings_ToLower u kw) (strings_ToLower u t)) kws))"
proof -
  let ?K = "keyword_at u kws (length kws)"
  note low = strings_ToLower_eq_Nil [OF assms(1)]
  obtain ws nodes edges where b:
    "ofold (insertKeyword u) (enumerate 0 kws) ([newContentModerationKeywordNode], []) = Some (nodes, edges)"
    "shape ws nodes edges" "own_data (\<lambda>w. least_index (?K w)) ws nodes"
    "set ws = trie_words u kws (length kws)"
    using build_trie [OF assms(2)] by blast
  have K: "w \<in> set ws \<and> w \<noteq> []" "k < length kws" if "?K w k" for w k
    using that low b(4) by (auto simp: keyword_at_def trie_words_def)
  have K': "\<forall>w k. ?K w k \<longrightarrow> w \<in> set ws \<and> w \<noteq> []"
    using K(1) by blast
  have len: "length nodes = length ws" and ws: "ws \<noteq> []" "ws ! 0 = []"
    using b(2) by (simp_all add: shape_def)
  show ?thesis unfolding keyword_match_def [symmetric]
  proof (cases "length nodes = 1")
    case True
    then have "set ws = {[]}"
      using len ws by (cases ws) auto
    have "\<not> ?K w k" for w k
      using K(1) [of w k] \<open>set ws = {[]}\<close> by auto
    then have "verdict kws (best_within ?K (strings_ToLower u t)) = None" for t
      by (simp add: best_within_def verdict_def)
    then have "keyword_match u kws t = None" for t
      by (simp add: verdict_keyword_match)
    then show "\<exists>m. newContentModerationKeywordMatcher u kws = Some m \<and>
        (\<forall>t. Match u m t = Some (keyword_match u kws t))"
      using b(1) True by (simp add: newContentModerationKeywordMatcher_def Match_def)
  next
    case False
    have ne: "kws \<noteq> []"
      using b(1) False by auto
    obtain m where m: "newContentModerationKeywordMatcher u kws = Some (Some m)"
      "matcher_ok ws ?K m" "km_keywords m = kws"
      using build_ok [OF b(2,3) K', where kws = kws] b(1) False ne
      by (auto simp: newContentModerationKeywordMatcher_def)
    have "Match u (Some m) t = Some (keyword_match u kws t)" for t
      using match_ok [OF assms(1) m(2,3) ne] .
    then show "\<exists>m. newContentModerationKeywordMatcher u kws = Some m \<and>
        (\<forall>t. Match u m t = Some (keyword_match u kws t))"
      using m(1) by blast
  qed
qed

theorem keyword_match_exact_witness:
  "\<exists>m. newContentModerationKeywordMatcher id [''hers'', ''He''] = Some m \<and>
     Match id m ''SHE'' = Some (Some ''He'')"
proof -
  have "keywords_fit id [''hers'', ''He'']"
    by code_simp
  moreover have "find (\<lambda>kw. kw \<noteq> [] \<and> sublist (strings_ToLower id kw) (strings_ToLower id ''SHE''))
      [''hers'', ''He''] = Some ''He''"
    by code_simp
  ultimately show ?thesis
    using keyword_match_exact [where u = id and kws = "[''hers'', ''He'']"] by auto
qed

end
