(* ===== verification/Go_Base64.thy ===== *)
theory Go_Base64
  imports Go_Order
begin

text \<open>
  Byte encodings of Go's standard library: \<open>base64.RawURLEncoding\<close> and big-endian integers
  (\<open>encoding/binary\<close>), with their round trips. The decoder follows the library: carriage returns
  and newlines are skipped, the unused low bits of a last incomplete group are ignored, and a
  single left-over character is an error.
\<close>

section \<open>Bytes\<close>

definition byte_val :: "char \<Rightarrow> nat" where
  "byte_val c = of_char c"

definition val_byte :: "nat \<Rightarrow> char" where
  "val_byte n = char_of n"

lemma val_byte_val [simp]: "val_byte (byte_val c) = c"
  by (simp add: val_byte_def byte_val_def)

lemma byte_val_byte [simp]: "n < 256 \<Longrightarrow> byte_val (val_byte n) = n"
  by (simp add: val_byte_def byte_val_def)

lemma byte_val_less [simp]: "byte_val c < 256"
  by (simp add: byte_val_def)

lemma byte_val_inject [simp]: "byte_val a = byte_val b \<longleftrightarrow> a = b"
  by (metis val_byte_val)

section \<open>Big-endian integers\<close>

text \<open>\<open>be_bytes k n\<close> is \<open>n\<close> in \<open>k\<close> bytes, most significant first; higher bytes are cut off.\<close>

primrec be_bytes :: "nat \<Rightarrow> nat \<Rightarrow> string" where
  "be_bytes 0 n = []"
| "be_bytes (Suc k) n = be_bytes k (n div 256) @ [val_byte (n mod 256)]"

definition be_value :: "string \<Rightarrow> nat" where
  "be_value bs = foldl (\<lambda>n b. n * 256 + byte_val b) 0 bs"

lemma length_be_bytes [simp]: "length (be_bytes k n) = k"
  by (induction k arbitrary: n) simp_all

lemma be_value_be_bytes: "n < 256 ^ k \<Longrightarrow> be_value (be_bytes k n) = n"
proof (induction k arbitrary: n)
  case 0
  then show ?case by (simp add: be_value_def)
next
  case (Suc k)
  then have "n div 256 < 256 ^ k"
    by (simp add: less_mult_imp_div_less mult.commute)
  then have "be_value (be_bytes k (n div 256)) = n div 256"
    by (rule Suc.IH)
  then show ?case by (simp add: be_value_def)
qed

lemma be_bytes_inject:
  assumes "be_bytes k m = be_bytes k n" and "m < 256 ^ k" and "n < 256 ^ k"
  shows "m = n"
  using assms by (metis be_value_be_bytes)

section \<open>Base 64\<close>

definition b64url :: string where
  "b64url = ''ABCDEFGHIJKLMNOPQRSTUVWXYZabcdefghijklmnopqrstuvwxyz0123456789-_''"

definition b64_char :: "nat \<Rightarrow> char" where
  "b64_char n = b64url ! n"

definition b64_value :: "char \<Rightarrow> nat option" where
  "b64_value c = (if c \<in> set b64url then Some (length (takeWhile (\<lambda>x. x \<noteq> c) b64url)) else None)"

fun b64_encode :: "string \<Rightarrow> string" where
  "b64_encode [] = []"
| "b64_encode [a] =
     (let v = byte_val a * 65536 in [b64_char (v div 262144), b64_char (v div 4096 mod 64)])"
| "b64_encode [a, b] =
     (let v = byte_val a * 65536 + byte_val b * 256
      in [b64_char (v div 262144), b64_char (v div 4096 mod 64), b64_char (v div 64 mod 64)])"
| "b64_encode (a # b # c # s) =
     (let v = byte_val a * 65536 + byte_val b * 256 + byte_val c
      in b64_char (v div 262144) # b64_char (v div 4096 mod 64) # b64_char (v div 64 mod 64)
           # b64_char (v mod 64) # b64_encode s)"

fun b64_bytes :: "nat list \<Rightarrow> string option" where
  "b64_bytes [] = Some []"
| "b64_bytes [w] = None"
| "b64_bytes [w, x] = (let v = w * 262144 + x * 4096 in Some [val_byte (v div 65536)])"
| "b64_bytes [w, x, y] =
     (let v = w * 262144 + x * 4096 + y * 64
      in Some [val_byte (v div 65536), val_byte (v div 256 mod 256)])"
| "b64_bytes (w # x # y # z # vs) =
     (let v = w * 262144 + x * 4096 + y * 64 + z
      in map_option (\<lambda>bs. val_byte (v div 65536) # val_byte (v div 256 mod 256)
           # val_byte (v mod 256) # bs) (b64_bytes vs))"

definition RawURLEncoding_EncodeToString :: "string \<Rightarrow> string" where
  "RawURLEncoding_EncodeToString bs = b64_encode bs"

definition RawURLEncoding_DecodeString :: "string \<Rightarrow> string option" where
  "RawURLEncoding_DecodeString s =
     (let cs = filter (\<lambda>c. c \<noteq> CHR 0x0A \<and> c \<noteq> CHR 0x0D) s
      in if list_all (\<lambda>c. b64_value c \<noteq> None) cs
         then b64_bytes (map (\<lambda>c. the (b64_value c)) cs) else None)"

text \<open>The 64 characters and their values.\<close>

lemma length_b64url: "length b64url = 64"
  by (simp add: b64url_def)

lemma distinct_b64url: "distinct b64url"
  by code_simp

lemma takeWhile_nth_distinct:
  "distinct xs \<Longrightarrow> i < length xs \<Longrightarrow> length (takeWhile (\<lambda>x. x \<noteq> xs ! i) xs) = i"
proof (induction xs arbitrary: i)
  case (Cons a xs)
  then show ?case by (cases i) auto
qed simp

lemma b64_value_char [simp]: "n < 64 \<Longrightarrow> b64_value (b64_char n) = Some n"
  using takeWhile_nth_distinct [OF distinct_b64url, of n] length_b64url
  by (auto simp: b64_value_def b64_char_def)

lemma b64_char_no_space [simp]:
  assumes "n < 64"
  shows "b64_char n \<noteq> CHR 0x0A" "b64_char n \<noteq> CHR 0x0D" "b64_char n \<noteq> CHR 0x3A"
proof -
  have "b64_char n \<in> set b64url"
    using assms length_b64url by (simp add: b64_char_def)
  moreover have "CHR 0x0A \<notin> set b64url" "CHR 0x0D \<notin> set b64url" "CHR 0x3A \<notin> set b64url"
    by code_simp+
  ultimately show "b64_char n \<noteq> CHR 0x0A" "b64_char n \<noteq> CHR 0x0D" "b64_char n \<noteq> CHR 0x3A"
    by metis+
qed

definition sextets :: "string \<Rightarrow> nat list \<Rightarrow> bool" where
  "sextets s vs \<longleftrightarrow> s = map b64_char vs \<and> (\<forall>v \<in> set vs. v < 64)"

lemma sextets_decode: "sextets s vs \<Longrightarrow> RawURLEncoding_DecodeString s = b64_bytes vs"
proof -
  assume s: "sextets s vs"
  then have "filter (\<lambda>c. c \<noteq> CHR 0x0A \<and> c \<noteq> CHR 0x0D) s = s"
    by (auto simp: sextets_def intro!: filter_True)
  moreover have "list_all (\<lambda>c. b64_value c \<noteq> None) s"
    using s by (auto simp: sextets_def list_all_iff)
  moreover have "map (\<lambda>c. the (b64_value c)) s = vs"
    using s by (auto simp: sextets_def intro!: map_idI)
  ultimately show ?thesis by (simp add: RawURLEncoding_DecodeString_def)
qed

lemma group3:
  assumes "v < 16777216"
  shows "v div 262144 * 262144 + v div 4096 mod 64 * 4096 + v div 64 mod 64 * 64 + v mod 64 = (v :: nat)"
    and "v div 262144 < 64"
proof -
  have d: "v div 4096 = v div 64 div 64" "v div 262144 = v div 64 div 64 div 64"
    by (simp_all add: div_mult2_eq [symmetric])
  have "v = v div 64 * 64 + v mod 64" "v div 64 = v div 64 div 64 * 64 + v div 64 mod 64"
    "v div 64 div 64 = v div 64 div 64 div 64 * 64 + v div 64 div 64 mod 64"
    by (simp_all only: div_mult_mod_eq)
  then show "v div 262144 * 262144 + v div 4096 mod 64 * 4096 + v div 64 mod 64 * 64 + v mod 64 = v"
    unfolding d by linarith
  show "v div 262144 < 64"
    using assms by (simp add: less_mult_imp_div_less)
qed

lemma bytes3:
  fixes a b c :: nat
  assumes "a < 256" and "b < 256" and "c < 256"
  shows "(a * 65536 + b * 256 + c) div 65536 = a"
    and "(a * 65536 + b * 256 + c) div 256 mod 256 = b"
    and "(a * 65536 + b * 256 + c) mod 256 = c"
    and "a * 65536 + b * 256 + c < 16777216"
proof -
  have v: "a * 65536 + b * 256 + c = c + (a * 256 + b) * 256" "a * 256 + b = b + a * 256"
    by simp_all
  have d: "(a * 65536 + b * 256 + c) div 256 = a * 256 + b"
    unfolding v(1) using assms(3) by (simp only: div_mult_self1 div_less add_0 add_0_right)
  show "(a * 65536 + b * 256 + c) mod 256 = c"
    unfolding v(1) using assms(3) by (simp only: mod_mult_self1 mod_less)
  show "(a * 65536 + b * 256 + c) div 256 mod 256 = b"
    unfolding d v(2) using assms(2) by (simp only: mod_mult_self1 mod_less)
  have "(a * 65536 + b * 256 + c) div 65536 = (a * 65536 + b * 256 + c) div 256 div 256"
    by (simp add: div_mult2_eq [symmetric])
  then show "(a * 65536 + b * 256 + c) div 65536 = a"
    unfolding d using assms(2) by simp
  show "a * 65536 + b * 256 + c < 16777216"
    using assms by linarith
qed

lemma b64_encode_sextets: "\<exists>vs. sextets (b64_encode bs) vs \<and> b64_bytes vs = Some bs"
proof (induction bs rule: b64_encode.induct)
  case 1
  show ?case by (intro exI [of _ "[]"]) (simp add: sextets_def)
next
  case (2 a)
  let ?v = "byte_val a * 65536"
  have v: "?v < 16777216" using bytes3(4) [of "byte_val a" 0 0] by simp
  have "?v = byte_val a * 1024 * 64" "?v = byte_val a * 16 * 64 * 64" by simp_all
  then have "?v mod 64 = 0" "?v div 64 mod 64 = 0"
    by (metis mod_mult_self2_is_0, metis div_mult_self_is_m mod_mult_self2_is_0 zero_less_numeral)
  then have "?v div 262144 * 262144 + ?v div 4096 mod 64 * 4096 = ?v"
    using group3(1) [OF v] by simp
  then show ?case
    using group3(2) [OF v] by (intro exI [of _ "[?v div 262144, ?v div 4096 mod 64]"])
      (simp add: sextets_def Let_def)
next
  case (3 a b)
  let ?v = "byte_val a * 65536 + byte_val b * 256"
  have v: "?v < 16777216" using bytes3(4) [of "byte_val a" "byte_val b" 0] by simp
  have "?v = (byte_val a * 1024 + byte_val b * 4) * 64" by simp
  then have "?v mod 64 = 0" by (metis mod_mult_self2_is_0)
  then have "?v div 262144 * 262144 + ?v div 4096 mod 64 * 4096 + ?v div 64 mod 64 * 64 = ?v"
    using group3(1) [OF v] by simp
  then show ?case
    using group3(2) [OF v] bytes3(1,2) [of "byte_val a" "byte_val b" 0]
    by (intro exI [of _ "[?v div 262144, ?v div 4096 mod 64, ?v div 64 mod 64]"])
      (simp add: sextets_def Let_def)
next
  case (4 a b c s)
  define v where "v = byte_val a * 65536 + byte_val b * 256 + byte_val c"
  obtain vs where vs: "sextets (b64_encode s) vs" "b64_bytes vs = Some s"
    using 4 by blast
  have v: "v < 16777216" "v div 65536 = byte_val a" "v div 256 mod 256 = byte_val b"
    "v mod 256 = byte_val c"
    unfolding v_def by (simp_all only: bytes3 byte_val_less)
  let ?vs = "v div 262144 # v div 4096 mod 64 # v div 64 mod 64 # v mod 64 # vs"
  have "b64_encode (a # b # c # s) = map b64_char ?vs"
    using vs(1) by (simp only: b64_encode.simps Let_def v_def [symmetric] sextets_def list.map)
  moreover have "\<forall>v \<in> set ?vs. v < 64"
    using vs(1) group3(2) [OF v(1)] by (simp add: sextets_def)
  moreover have "b64_bytes ?vs = Some (a # b # c # s)"
    unfolding b64_bytes.simps Let_def group3(1) [OF v(1)] v(2-4) vs(2) by simp
  ultimately show ?case
    unfolding sextets_def by blast
qed

lemma RawURLEncoding_roundtrip:
  "RawURLEncoding_DecodeString (RawURLEncoding_EncodeToString bs) = Some bs"
  using b64_encode_sextets [of bs] sextets_decode by (auto simp: RawURLEncoding_EncodeToString_def)

lemma RawURLEncoding_no_colon: "CHR '':'' \<notin> set (RawURLEncoding_EncodeToString bs)"
proof -
  obtain vs where "b64_encode bs = map b64_char vs" "\<forall>v \<in> set vs. v < 64"
    using b64_encode_sextets [of bs] by (auto simp: sextets_def)
  then show ?thesis
    using b64_char_no_space(3) [symmetric] by (force simp: RawURLEncoding_EncodeToString_def)
qed

lemma RawURLEncoding_Nil_iff [simp]: "RawURLEncoding_EncodeToString bs = [] \<longleftrightarrow> bs = []"
  by (cases bs rule: b64_encode.cases) (simp_all add: RawURLEncoding_EncodeToString_def Let_def)

end
