(* ===== verification/Secret_Keyring.thy ===== *)
theory Secret_Keyring
  imports Go_Base64
begin

text \<open>
  Versioned, purpose-bound envelopes and digests
  (\<open>internal/security/secretcrypto/keyring.go\<close>). Two primitives of the cryptographic library are
  parameters: \<open>G key\<close> is the AEAD that \<open>aes.NewCipher\<close> and \<open>cipher.NewGCM\<close> give for a key
  (\<open>None\<close> when they report an error), and \<open>H key msg\<close> the HMAC-SHA-256 of a message. What the code
  relies on is the locale \<open>gcm\<close>. A key is a string of bytes; the random nonce is an argument,
  \<open>None\<close> when the random source fails. A nil keyring is \<open>None\<close>.
\<close>

section \<open>The cryptographic primitives\<close>

record aead =
  NonceSize :: nat
  Overhead :: nat
  Seal :: "string \<Rightarrow> string \<Rightarrow> string \<Rightarrow> string" \<comment> \<open>nonce, plaintext, associated data\<close>
  Open :: "string \<Rightarrow> string \<Rightarrow> string \<Rightarrow> string option" \<comment> \<open>nonce, ciphertext, associated data\<close>

text \<open>
  AES-256-GCM as documented: 32-byte keys are accepted, nonces have 12 bytes, sealing adds a
  16-byte tag, and opening accepts exactly what sealing produces for the same nonce and
  associated data (the tag is a function of them and of the ciphertext).
\<close>

locale gcm =
  fixes G :: "string \<Rightarrow> aead option"
  assumes available: "length key = 32 \<Longrightarrow> \<exists>a. G key = Some a"
    and nonce_size: "G key = Some a \<Longrightarrow> NonceSize a = 12"
    and overhead: "G key = Some a \<Longrightarrow> Overhead a = 16"
    and length_seal: "G key = Some a \<Longrightarrow> length (Seal a nonce pt aad) = length pt + 16"
    and open_iff: "G key = Some a \<Longrightarrow> length nonce = 12 \<Longrightarrow>
      Open a nonce ct aad = Some pt \<longleftrightarrow> ct = Seal a nonce pt aad"

text \<open>A cipher that meets the contract: the tag is the checksum of everything that is bound.\<close>

definition checksum :: "string \<Rightarrow> string" where
  "checksum s = be_bytes 16 (be_value s)"

definition toy_gcm :: "string \<Rightarrow> aead option" where
  "toy_gcm key =
     (if length key = 32 then
        Some \<lparr> NonceSize = 12, Overhead = 16,
               Seal = (\<lambda>nonce pt aad. pt @ checksum (key @ nonce @ pt @ aad)),
               Open = (\<lambda>nonce ct aad.
                 let pt = take (length ct - 16) ct
                 in if length ct \<ge> 16 \<and> drop (length ct - 16) ct = checksum (key @ nonce @ pt @ aad)
                    then Some pt else None) \<rparr>
      else None)"

interpretation toy: gcm toy_gcm
proof
  fix key nonce ct aad pt :: string and a
  assume a: "toy_gcm key = Some a"
  have len: "length (checksum s) = 16" for s by (simp add: checksum_def)
  show "Open a nonce ct aad = Some pt \<longleftrightarrow> ct = Seal a nonce pt aad"
  proof
    assume "Open a nonce ct aad = Some pt"
    then have "pt = take (length ct - 16) ct" "drop (length ct - 16) ct = checksum (key @ nonce @ pt @ aad)"
      using a by (auto simp: toy_gcm_def Let_def split: if_splits)
    then have "ct = pt @ checksum (key @ nonce @ pt @ aad)"
      by (metis append_take_drop_id)
    then show "ct = Seal a nonce pt aad"
      using a by (auto simp: toy_gcm_def split: if_splits)
  next
    assume "ct = Seal a nonce pt aad"
    then show "Open a nonce ct aad = Some pt"
      using a len by (auto simp: toy_gcm_def Let_def split: if_splits)
  qed
qed (auto simp: toy_gcm_def checksum_def split: if_splits)

section \<open>Strings\<close>

text \<open>\<open>strings.SplitN\<close> with a one-byte separator and a positive count, and \<open>strings.Join\<close>.\<close>

fun strings_SplitN :: "string \<Rightarrow> char \<Rightarrow> nat \<Rightarrow> string list" where
  "strings_SplitN s sep 0 = []"
| "strings_SplitN s sep (Suc 0) = [s]"
| "strings_SplitN s sep (Suc (Suc n)) =
     (case dropWhile (\<lambda>c. c \<noteq> sep) s of
        [] \<Rightarrow> [s]
      | _ # rest \<Rightarrow> takeWhile (\<lambda>c. c \<noteq> sep) s # strings_SplitN rest sep (Suc n))"

fun strings_Join :: "string list \<Rightarrow> string \<Rightarrow> string" where
  "strings_Join [] sep = []"
| "strings_Join [s] sep = s"
| "strings_Join (s # t # ss) sep = s @ sep @ strings_Join (t # ss) sep"

lemma SplitN_step:
  assumes "sep \<notin> set s"
  shows "strings_SplitN (s @ sep # rest) sep (Suc (Suc n)) = s # strings_SplitN rest sep (Suc n)"
proof -
  have "takeWhile (\<lambda>c. c \<noteq> sep) (s @ sep # rest) = s" "dropWhile (\<lambda>c. c \<noteq> sep) (s @ sep # rest) = sep # rest"
    using assms by (induction s) auto
  then show ?thesis by simp
qed

section \<open>The keyring\<close>

definition envelopeScheme :: string where "envelopeScheme = ''enc''"
definition digestScheme :: string where "digestScheme = ''hmac''"
definition formatVersion :: string where "formatVersion = ''v1''"

definition keyIDChars :: string where
  "keyIDChars = ''ABCDEFGHIJKLMNOPQRSTUVWXYZabcdefghijklmnopqrstuvwxyz0123456789._-''"

definition keyIDPattern :: "string \<Rightarrow> bool" where
  "keyIDPattern s \<longleftrightarrow> 1 \<le> length s \<and> length s \<le> 64 \<and> list_all (\<lambda>c. c \<in> set keyIDChars) s"

record Keyring =
  kr_activeID :: string
  kr_keys :: "(string, string) gomap"

datatype cryptoError =
    InvalidActiveKeyID | EmptyKeyring | InvalidKeyID string | KeyLength string | ActiveKeyMissing
  | PurposeRequired | KeyUnavailable | CipherError | NonceError
  | InvalidEnvelope | InvalidPayload | AuthenticationFailed | KeyringRequired

fun copyKeys :: "(string \<times> string) list \<Rightarrow> (string, string) gomap \<Rightarrow> cryptoError + (string, string) gomap" where
  "copyKeys [] copied = Inr copied"
| "copyKeys ((i, raw) # rest) copied =
     (if \<not> keyIDPattern i then Inl (InvalidKeyID i)
      else if length raw \<noteq> 32 then Inl (KeyLength i)
      else copyKeys rest (AList.update i raw copied))"

definition NewKeyring :: "(nat \<Rightarrow> nat) \<Rightarrow> string \<Rightarrow> (string, string) gomap \<Rightarrow> cryptoError + Keyring" where
  "NewKeyring r activeID keys =
     (if \<not> keyIDPattern activeID then Inl InvalidActiveKeyID
      else if length keys = 0 then Inl EmptyKeyring
      else
        case copyKeys (map_range r keys) [] of
          Inl e \<Rightarrow> Inl e
        | Inr copied \<Rightarrow>
            if map_of copied activeID = None then Inl ActiveKeyMissing
            else Inr \<lparr> kr_activeID = activeID, kr_keys = copied \<rparr>)"

definition associatedData :: "string \<Rightarrow> string \<Rightarrow> string" where
  "associatedData pfx purpose = pfx @ ''purpose='' @ purpose"

definition blank :: "string \<Rightarrow> bool" where
  "blank purpose \<longleftrightarrow> strings_TrimSpace purpose = []"

definition Encrypt ::
  "(string \<Rightarrow> aead option) \<Rightarrow> string option \<Rightarrow> Keyring option \<Rightarrow> string \<Rightarrow> string \<Rightarrow> cryptoError + string" where
  "Encrypt G rnd k purpose plaintext =
     (case k of
        None \<Rightarrow> Inl PurposeRequired
      | Some k \<Rightarrow>
          if blank purpose then Inl PurposeRequired
          else
            case map_of (kr_keys k) (kr_activeID k) of
              None \<Rightarrow> Inl KeyUnavailable
            | Some key \<Rightarrow>
                (case G key of
                   None \<Rightarrow> Inl CipherError
                 | Some aes \<Rightarrow>
                     (case rnd of
                        None \<Rightarrow> Inl NonceError
                      | Some nonce \<Rightarrow>
                          let pfx = strings_Join [envelopeScheme, formatVersion, kr_activeID k, []] '':'';
                              payload = nonce @ Seal aes nonce plaintext (associatedData pfx purpose)
                          in Inr (pfx @ RawURLEncoding_EncodeToString payload))))"

text \<open>The structural test shared by the readers: scheme, version, key ID and body.\<close>

definition splitEnvelope :: "string \<Rightarrow> string \<Rightarrow> (string \<times> string) option" where
  "splitEnvelope scheme envelope =
     (case strings_SplitN envelope (CHR '':'') 4 of
        [p0, p1, p2, p3] \<Rightarrow>
          if p0 \<noteq> scheme \<or> p1 \<noteq> formatVersion \<or> \<not> keyIDPattern p2 \<or> p3 = [] then None
          else Some (p2, p3)
      | _ \<Rightarrow> None)"

definition Decrypt ::
  "(string \<Rightarrow> aead option) \<Rightarrow> Keyring option \<Rightarrow> string \<Rightarrow> string \<Rightarrow> cryptoError + string" where
  "Decrypt G k purpose envelope =
     (case k of
        None \<Rightarrow> Inl PurposeRequired
      | Some k \<Rightarrow>
          if blank purpose then Inl PurposeRequired
          else
            case splitEnvelope envelopeScheme envelope of
              None \<Rightarrow> Inl InvalidEnvelope
            | Some (keyID, body) \<Rightarrow>
                (case map_of (kr_keys k) keyID of
                   None \<Rightarrow> Inl KeyUnavailable
                 | Some key \<Rightarrow>
                     (case RawURLEncoding_DecodeString body of
                        None \<Rightarrow> Inl InvalidPayload
                      | Some payload \<Rightarrow>
                          (case G key of
                             None \<Rightarrow> Inl CipherError
                           | Some aes \<Rightarrow>
                               if length payload < NonceSize aes + Overhead aes then Inl InvalidPayload
                               else
                                 let nonce = take (NonceSize aes) payload;
                                     ciphertext = drop (NonceSize aes) payload;
                                     pfx = strings_Join [envelopeScheme, formatVersion, keyID, []] '':''
                                 in case Open aes nonce ciphertext (associatedData pfx purpose) of
                                      None \<Rightarrow> Inl AuthenticationFailed
                                    | Some plaintext \<Rightarrow> Inr plaintext))))"

definition NeedsRewrap :: "Keyring option \<Rightarrow> string \<Rightarrow> cryptoError + bool" where
  "NeedsRewrap k envelope =
     (case k of
        None \<Rightarrow> Inl KeyringRequired
      | Some k \<Rightarrow>
          (case splitEnvelope envelopeScheme envelope of
             None \<Rightarrow> Inl InvalidEnvelope
           | Some (keyID, body) \<Rightarrow>
               if map_of (kr_keys k) keyID = None then Inl KeyUnavailable
               else Inr (keyID \<noteq> kr_activeID k)))"

section \<open>Digests\<close>

definition keyedDigest :: "(string \<Rightarrow> string \<Rightarrow> string) \<Rightarrow> string \<Rightarrow> string \<Rightarrow> string \<Rightarrow> string" where
  "keyedDigest H key purpose secret = H key (purpose @ [CHR 0x00] @ secret)"

definition digestFor ::
  "(string \<Rightarrow> string \<Rightarrow> string) \<Rightarrow> string \<Rightarrow> string \<Rightarrow> string \<Rightarrow> string \<Rightarrow> string" where
  "digestFor H i key purpose secret =
     strings_Join [digestScheme, formatVersion, i, []] '':''
       @ RawURLEncoding_EncodeToString (keyedDigest H key purpose secret)"

definition Digest ::
  "(string \<Rightarrow> string \<Rightarrow> string) \<Rightarrow> Keyring option \<Rightarrow> string \<Rightarrow> string \<Rightarrow> cryptoError + string" where
  "Digest H k purpose secret =
     (case k of
        None \<Rightarrow> Inl PurposeRequired
      | Some k \<Rightarrow>
          if blank purpose then Inl PurposeRequired
          else
            case map_of (kr_keys k) (kr_activeID k) of
              None \<Rightarrow> Inl KeyUnavailable
            | Some key \<Rightarrow> Inr (digestFor H (kr_activeID k) key purpose secret))"

definition candidateIDs :: "(nat \<Rightarrow> nat) \<Rightarrow> Keyring \<Rightarrow> string list" where
  "candidateIDs r k =
     kr_activeID k # sort_SliceStable str_less
       (filter (\<lambda>i. i \<noteq> kr_activeID k) (map fst (map_range r (kr_keys k))))"

definition DigestCandidates ::
  "(string \<Rightarrow> string \<Rightarrow> string) \<Rightarrow> (nat \<Rightarrow> nat) \<Rightarrow> Keyring option \<Rightarrow> string \<Rightarrow> string
    \<Rightarrow> cryptoError + string list" where
  "DigestCandidates H r k purpose secret =
     (case k of
        None \<Rightarrow> Inl PurposeRequired
      | Some k \<Rightarrow>
          if blank purpose then Inl PurposeRequired
          else if map_of (kr_keys k) (kr_activeID k) = None then Inl KeyUnavailable
          else Inr (map (\<lambda>i. digestFor H i (the (map_of (kr_keys k) i)) purpose secret)
                 (candidateIDs r k)))"

definition IsDigest :: "Keyring option \<Rightarrow> string \<Rightarrow> bool" where
  "IsDigest k encoded =
     (case k of
        None \<Rightarrow> False
      | Some k \<Rightarrow>
          (case splitEnvelope digestScheme encoded of
             None \<Rightarrow> False
           | Some (keyID, body) \<Rightarrow>
               if map_of (kr_keys k) keyID = None then False
               else case RawURLEncoding_DecodeString body of
                 None \<Rightarrow> False
               | Some provided \<Rightarrow> length provided = 32))"

definition VerifyDigest ::
  "(string \<Rightarrow> string \<Rightarrow> string) \<Rightarrow> Keyring option \<Rightarrow> string \<Rightarrow> string \<Rightarrow> string \<Rightarrow> bool" where
  "VerifyDigest H k purpose secret encoded =
     (case k of
        None \<Rightarrow> False
      | Some k \<Rightarrow>
          if blank purpose then False
          else
            case splitEnvelope digestScheme encoded of
              None \<Rightarrow> False
            | Some (keyID, body) \<Rightarrow>
                (case map_of (kr_keys k) keyID of
                   None \<Rightarrow> False
                 | Some key \<Rightarrow>
                     (case RawURLEncoding_DecodeString body of
                        None \<Rightarrow> False
                      | Some provided \<Rightarrow>
                          if length provided \<noteq> 32 then False
                          else provided = keyedDigest H key purpose secret)))"

section \<open>Properties\<close>

definition keyring_ok :: "Keyring \<Rightarrow> bool" where
  "keyring_ok k \<longleftrightarrow> map_of (kr_keys k) (kr_activeID k) \<noteq> None \<and>
     (\<forall>i key. map_of (kr_keys k) i = Some key \<longrightarrow> keyIDPattern i \<and> length key = 32)"

lemma copyKeys_ok:
  assumes "copyKeys xs copied = Inr ks"
    and "\<forall>i key. map_of copied i = Some key \<longrightarrow> keyIDPattern i \<and> length key = 32"
  shows "\<forall>i key. map_of ks i = Some key \<longrightarrow> keyIDPattern i \<and> length key = 32"
  using assms
proof (induction xs arbitrary: copied)
  case (Cons x xs)
  obtain i raw where x: "x = (i, raw)" by (cases x)
  then have i: "keyIDPattern i" "length raw = 32" and rest: "copyKeys xs (AList.update i raw copied) = Inr ks"
    using Cons.prems(1) by (auto split: if_splits)
  show ?case
    by (rule Cons.IH [OF rest]) (use i Cons.prems(2) in simp)
qed simp

lemma NewKeyring_ok: "NewKeyring r activeID keys = Inr k \<Longrightarrow> keyring_ok k"
  using copyKeys_ok [of "map_range r keys" "[]"]
  by (auto simp: NewKeyring_def keyring_ok_def split: if_splits sum.splits)

lemma keyID_no_colon: "keyIDPattern i \<Longrightarrow> CHR '':'' \<notin> set i"
proof -
  have "CHR '':'' \<notin> set keyIDChars" by code_simp
  then show "keyIDPattern i \<Longrightarrow> ?thesis" by (auto simp: keyIDPattern_def list_all_iff)
qed

text \<open>What a writer puts together the readers take apart.\<close>

lemma split_join:
  assumes "CHR '':'' \<notin> set scheme" and "keyIDPattern i" and "body \<noteq> []"
  shows "splitEnvelope scheme (strings_Join [scheme, formatVersion, i, []] '':'' @ body) = Some (i, body)"
proof -
  have "CHR '':'' \<notin> set formatVersion" by (simp add: formatVersion_def)
  then have "strings_SplitN (scheme @ CHR '':'' # formatVersion @ CHR '':'' # i @ CHR '':'' # body) (CHR '':'')
      (Suc (Suc (Suc (Suc 0)))) = [scheme, formatVersion, i, body]"
    using assms(1) keyID_no_colon [OF assms(2)] by (simp only: SplitN_step strings_SplitN.simps(2) not_False_eq_True)
  then show ?thesis
    using assms(2,3) by (simp add: splitEnvelope_def eval_nat_numeral)
qed

lemma scheme_no_colon: "CHR '':'' \<notin> set envelopeScheme" "CHR '':'' \<notin> set digestScheme"
  by (simp_all add: envelopeScheme_def digestScheme_def)

text \<open>
  Property C27 (roundtrip). An envelope survives key rotation: for a keyring made by
  \<open>NewKeyring\<close>, a purpose that is not blank and a fresh 12-byte nonce, \<open>Encrypt\<close> succeeds, and every
  keyring that still holds the same key under that ID, whatever its active key, decrypts the
  envelope to the plaintext for the same purpose; \<open>NeedsRewrap\<close> then tells whether the writing key
  is no longer the active one.
\<close>

theorem envelope_roundtrip:
  assumes "gcm G" and "NewKeyring r activeID keys = Inr k" and "\<not> blank purpose" and "length nonce = 12"
  shows "\<exists>e. Encrypt G (Some nonce) (Some k) purpose plaintext = Inr e \<and>
    (\<forall>k'. map_of (kr_keys k') (kr_activeID k) = map_of (kr_keys k) (kr_activeID k) \<longrightarrow>
       Decrypt G (Some k') purpose e = Inr plaintext \<and>
       NeedsRewrap (Some k') e = Inr (kr_activeID k \<noteq> kr_activeID k'))"
proof -
  let ?i = "kr_activeID k"
  obtain key where key: "map_of (kr_keys k) ?i = Some key" "keyIDPattern ?i" "length key = 32"
    using NewKeyring_ok [OF assms(2)] by (auto simp: keyring_ok_def)
  obtain a where a: "G key = Some a" using gcm.available [OF assms(1) key(3)] by blast
  let ?pfx = "strings_Join [envelopeScheme, formatVersion, ?i, []] '':''"
  let ?ct = "Seal a nonce plaintext (associatedData ?pfx purpose)"
  let ?body = "RawURLEncoding_EncodeToString (nonce @ ?ct)"
  have len: "length ?ct = length plaintext + 16" using gcm.length_seal [OF assms(1) a] .
  have body: "?body \<noteq> []" using assms(4) by auto
  have enc: "Encrypt G (Some nonce) (Some k) purpose plaintext = Inr (?pfx @ ?body)"
    using assms(3) key(1) a by (simp add: Encrypt_def Let_def)
  have split: "splitEnvelope envelopeScheme (?pfx @ ?body) = Some (?i, ?body)"
    by (rule split_join [OF scheme_no_colon(1) key(2) body])
  have "Open a nonce ?ct (associatedData ?pfx purpose) = Some plaintext"
    using gcm.open_iff [OF assms(1) a assms(4)] by simp
  then have "Decrypt G (Some k') purpose (?pfx @ ?body) = Inr plaintext \<and>
      NeedsRewrap (Some k') (?pfx @ ?body) = Inr (?i \<noteq> kr_activeID k')"
    if "map_of (kr_keys k') ?i = map_of (kr_keys k) ?i" for k'
    using that assms(3,4) key(1) a split len gcm.nonce_size [OF assms(1) a] gcm.overhead [OF assms(1) a]
    by (simp del: strings_Join.simps add: Decrypt_def NeedsRewrap_def Let_def RawURLEncoding_roundtrip)
  then show ?thesis using enc by blast
qed

definition example_keyring :: Keyring where
  "example_keyring = \<lparr> kr_activeID = ''k1'', kr_keys = [(''k1'', replicate 32 CHR ''a'')] \<rparr>"

lemma example_keyring_new:
  "NewKeyring (\<lambda>_. 0) ''k1'' [(''k1'', replicate 32 CHR ''a'')] = Inr example_keyring"
  by code_simp

theorem envelope_roundtrip_witness:
  "\<exists>e. Encrypt toy_gcm (Some (replicate 12 CHR ''n'')) (Some example_keyring) ''totp'' ''secret'' = Inr e \<and>
     Decrypt toy_gcm (Some example_keyring) ''totp'' e = Inr ''secret''"
proof -
  have "\<not> blank ''totp''" by code_simp
  then show ?thesis
    using envelope_roundtrip [OF toy.gcm_axioms example_keyring_new, where purpose = "''totp''"
        and nonce = "replicate 12 CHR ''n''" and plaintext = "''secret''"] by auto
qed

subsection \<open>Digests\<close>

lemma candidateIDs_set:
  "map_of (kr_keys k) (kr_activeID k) \<noteq> None \<Longrightarrow> set (candidateIDs r k) = dom (map_of (kr_keys k))"
  by (auto simp: candidateIDs_def dom_map_of_conv_image_fst dest!: map_of_SomeD intro: rev_image_eqI)

lemma digest_accepted:
  assumes "\<And>key msg. length (H key msg) = 32" and "map_of (kr_keys k) i = Some key" and "keyIDPattern i"
    and "\<not> blank purpose"
  shows "VerifyDigest H (Some k) purpose secret (digestFor H i key purpose secret)"
    and "IsDigest (Some k) (digestFor H i key purpose secret)"
proof -
  let ?sum = "keyedDigest H key purpose secret"
  have len: "length ?sum = 32" by (simp add: keyedDigest_def assms(1))
  then have "RawURLEncoding_EncodeToString ?sum \<noteq> []" by auto
  note split = split_join [OF scheme_no_colon(2) assms(3) this]
  show "VerifyDigest H (Some k) purpose secret (digestFor H i key purpose secret)"
    "IsDigest (Some k) (digestFor H i key purpose secret)"
    unfolding digestFor_def using assms(2,4) split len
    by (simp_all del: strings_Join.simps add: VerifyDigest_def IsDigest_def RawURLEncoding_roundtrip)
qed

text \<open>
  Digests can be looked up across a rotation: the candidates of a
  secret start with the digest \<open>Digest\<close> would write now, they all verify and are recognised, and a
  digest written earlier, with a keyring whose active key is still held under the same ID, is one
  of them. No candidate depends on the iteration order of the key map.
\<close>

theorem digest_candidates_complete:
  assumes "\<And>key msg. length (H key msg) = 32" and "NewKeyring r activeID keys = Inr k" and "\<not> blank purpose"
  shows "\<exists>cs. DigestCandidates H r' (Some k) purpose secret = Inr cs \<and>
    Digest H (Some k) purpose secret = Inr (hd cs) \<and>
    (\<forall>d \<in> set cs. VerifyDigest H (Some k) purpose secret d \<and> IsDigest (Some k) d) \<and>
    (\<forall>old d. Digest H (Some old) purpose secret = Inr d \<and>
       map_of (kr_keys k) (kr_activeID old) = map_of (kr_keys old) (kr_activeID old) \<longrightarrow> d \<in> set cs) \<and>
    (\<forall>r''. \<exists>cs''. DigestCandidates H r'' (Some k) purpose secret = Inr cs'' \<and> set cs'' = set cs)"
proof -
  have k: "map_of (kr_keys k) (kr_activeID k) \<noteq> None"
    "\<And>i key. map_of (kr_keys k) i = Some key \<Longrightarrow> keyIDPattern i"
    using NewKeyring_ok [OF assms(2)] by (auto simp: keyring_ok_def)
  let ?dig = "\<lambda>i. digestFor H i (the (map_of (kr_keys k) i)) purpose secret"
  have cs: "DigestCandidates H r'' (Some k) purpose secret = Inr (map ?dig (candidateIDs r'' k))" for r''
    using k(1) assms(3) by (simp add: DigestCandidates_def)
  have ids: "set (candidateIDs r'' k) = dom (map_of (kr_keys k))" for r''
    by (rule candidateIDs_set [OF k(1)])
  have "Digest H (Some k) purpose secret = Inr (hd (map ?dig (candidateIDs r' k)))"
    using k(1) assms(3) by (auto simp: Digest_def candidateIDs_def)
  moreover have "\<forall>d \<in> set (map ?dig (candidateIDs r' k)).
      VerifyDigest H (Some k) purpose secret d \<and> IsDigest (Some k) d"
    using digest_accepted [OF assms(1) _ _ assms(3)] k(2) ids by auto
  moreover have "d \<in> set (map ?dig (candidateIDs r' k))"
    if "Digest H (Some old) purpose secret = Inr d"
      "map_of (kr_keys k) (kr_activeID old) = map_of (kr_keys old) (kr_activeID old)" for old d
    using that ids by (auto simp: Digest_def image_iff split: if_splits option.splits
        intro!: bexI [of _ "kr_activeID old"])
  ultimately show ?thesis
    unfolding cs using ids by auto
qed

theorem digest_candidates_complete_witness:
  "\<exists>cs. DigestCandidates (\<lambda>key msg. replicate 32 CHR ''h'') (\<lambda>_. 0) (Some example_keyring) ''api_key'' ''sk-1'' = Inr cs \<and>
     Digest (\<lambda>key msg. replicate 32 CHR ''h'') (Some example_keyring) ''api_key'' ''sk-1'' = Inr (hd cs)"
proof -
  have "\<not> blank ''api_key''" by code_simp
  then show ?thesis
    using digest_candidates_complete [OF _ example_keyring_new, where H = "\<lambda>key msg. replicate 32 CHR ''h''"
        and purpose = "''api_key''" and secret = "''sk-1''" and r' = "\<lambda>_. 0"] by auto
qed

end
