(* ===== verification/Crypt_Stream.thy ===== *)
theory Crypt_Stream
  imports Secret_Keyring
begin

text \<open>
  The framed encrypted stream of backups (\<open>internal/security/secretcrypto/stream.go\<close>).

  A reader is the data it still delivers and whether it ends with an error instead of the end of
  the file. A writer is a parameter: \<open>W w p\<close> is one call of \<open>Write\<close>, giving the new writer, the
  number of bytes and whether there was an error; the locale \<open>io_writer\<close> states the contract of
  \<open>io.Writer\<close>. The random source gives the nonce of the \<open>j\<close>-th record. The record index is a
  \<open>uint64\<close> and wraps.
\<close>

section \<open>Readers and writers\<close>

record Reader =
  rd_data :: string
  rd_fails :: bool

datatype read_result = RNil | REOF | RUnexpectedEOF | RFail

definition io_ReadFull :: "nat \<Rightarrow> Reader \<Rightarrow> string \<times> Reader \<times> read_result" where
  "io_ReadFull n rd =
     (if n \<le> length (rd_data rd)
      then (take n (rd_data rd), rd \<lparr> rd_data := drop n (rd_data rd) \<rparr>, RNil)
      else (rd_data rd, rd \<lparr> rd_data := [] \<rparr>,
            if rd_fails rd then RFail else if rd_data rd = [] then REOF else RUnexpectedEOF))"

type_synonym 'w writer = "'w \<Rightarrow> string \<Rightarrow> 'w \<times> int \<times> bool"

locale io_writer =
  fixes W :: "'w writer" and out :: "'w \<Rightarrow> string"
  assumes io_write: "W w p = (w', n, err) \<Longrightarrow>
    0 \<le> n \<and> n \<le> int (length p) \<and> out w' = out w @ take (nat n) p \<and> (n < int (length p) \<longrightarrow> err)"

definition buffer_write :: "string writer" where
  "buffer_write w p = (w @ p, int (length p), False)"

interpretation buffer: io_writer buffer_write "\<lambda>w. w"
  by unfold_locales (auto simp: buffer_write_def)

section \<open>The stream\<close>

definition streamChunkSize :: nat where "streamChunkSize = 64 * 1024"
definition streamFlagData :: char where "streamFlagData = CHR 0x00"
definition streamFlagFinal :: char where "streamFlagFinal = CHR 0x01"
definition streamMagic :: string where "streamMagic = ''S2BKENC1''"

datatype streamError =
    StreamArguments | StreamKeyUnavailable | StreamCipher | StreamNonce | StreamWrite | StreamShortWrite
  | StreamRead | StreamHeader | StreamKeyID | StreamTruncated | StreamRecordType | StreamRecordLength
  | StreamRecordTruncated | StreamAuthentication | StreamFinalRecord | StreamTrailing | StreamTrailingCheck
  | StreamEmptyRecord

function writeAll :: "'w writer \<Rightarrow> string \<Rightarrow> 'w \<Rightarrow> 'w \<times> streamError option" where
  "writeAll W data w =
     (if data = [] then (w, None)
      else
        case W w data of
          (w, n, err) \<Rightarrow>
            if err then (w, Some StreamWrite)
            else if n \<le> 0 \<or> n > int (length data) then (w, Some StreamShortWrite)
            else writeAll W (drop (nat n) data) w)"
  by pat_completeness auto
termination
  by (relation "measure (\<lambda>(W, data, w). length data)") auto

declare writeAll.simps [simp del]

definition streamAAD :: "string \<Rightarrow> string \<Rightarrow> nat \<Rightarrow> char \<Rightarrow> string" where
  "streamAAD keyID purpose index flag =
     streamMagic @ [val_byte (length keyID mod 256)] @ keyID
       @ be_bytes 2 (length purpose mod 2 ^ 16) @ purpose @ be_bytes 8 index @ [flag]"

definition writeStreamHeader :: "'w writer \<Rightarrow> string \<Rightarrow> 'w \<Rightarrow> 'w \<times> streamError option" where
  "writeStreamHeader W keyID w =
     writeAll W (streamMagic @ [val_byte (length keyID mod 256)] @ keyID) w"

definition writeEncryptedRecord ::
  "'w writer \<Rightarrow> (nat \<Rightarrow> string option) \<Rightarrow> aead \<Rightarrow> string \<Rightarrow> string \<Rightarrow> nat \<Rightarrow> nat \<Rightarrow> char \<Rightarrow> string
    \<Rightarrow> 'w \<Rightarrow> 'w \<times> streamError option" where
  "writeEncryptedRecord W rnd a keyID purpose j index flag plaintext w =
     (case rnd j of
        None \<Rightarrow> (w, Some StreamNonce)
      | Some nonce \<Rightarrow>
          let payload = nonce @ Seal a nonce plaintext (streamAAD keyID purpose index flag);
              header = flag # be_bytes 4 (length payload mod 2 ^ 32)
          in case writeAll W header w of
               (w, Some e) \<Rightarrow> (w, Some e)
             | (w, None) \<Rightarrow> writeAll W payload w)"

text \<open>The loop of \<open>EncryptStream\<close>; \<open>j\<close> counts the records for the random source.\<close>

function encryptLoop ::
  "'w writer \<Rightarrow> (nat \<Rightarrow> string option) \<Rightarrow> aead \<Rightarrow> string \<Rightarrow> string \<Rightarrow> nat \<Rightarrow> nat \<Rightarrow> Reader \<Rightarrow> 'w
    \<Rightarrow> 'w \<times> streamError option" where
  "encryptLoop W rnd a keyID purpose j index src w =
     (case io_ReadFull streamChunkSize src of
        (buf, src', readErr) \<Rightarrow>
          let n = length buf;
              (w, err) = (if n > 0
                then writeEncryptedRecord W rnd a keyID purpose j index streamFlagData buf w else (w, None));
              j = (if n > 0 then Suc j else j);
              index = (if n > 0 then (index + 1) mod 2 ^ 64 else index)
          in
            if err \<noteq> None then (w, err)
            else if readErr = RNil then encryptLoop W rnd a keyID purpose j index src' w
            else if readErr = RFail then (w, Some StreamRead)
            else writeEncryptedRecord W rnd a keyID purpose j index streamFlagFinal [] w)"
  by pat_completeness auto
termination
  by (relation "measure (\<lambda>(W, rnd, a, keyID, purpose, j, index, src, w). length (rd_data src))")
    (auto simp: io_ReadFull_def streamChunkSize_def split: if_splits)

declare encryptLoop.simps [simp del]

definition EncryptStream ::
  "(string \<Rightarrow> aead option) \<Rightarrow> (nat \<Rightarrow> string option) \<Rightarrow> 'w writer \<Rightarrow> Keyring option \<Rightarrow> string \<Rightarrow> 'w
    \<Rightarrow> Reader \<Rightarrow> 'w \<times> streamError option" where
  "EncryptStream G rnd W k purpose dst src =
     (case k of
        None \<Rightarrow> (dst, Some StreamArguments)
      | Some k \<Rightarrow>
          if blank purpose then (dst, Some StreamArguments)
          else
            case map_of (kr_keys k) (kr_activeID k) of
              None \<Rightarrow> (dst, Some StreamKeyUnavailable)
            | Some key \<Rightarrow>
                (case G key of
                   None \<Rightarrow> (dst, Some StreamCipher)
                 | Some a \<Rightarrow>
                     (case writeStreamHeader W (kr_activeID k) dst of
                        (dst, Some e) \<Rightarrow> (dst, Some e)
                      | (dst, None) \<Rightarrow> encryptLoop W rnd a (kr_activeID k) purpose 0 0 src dst)))"

definition readStreamHeader :: "Reader \<Rightarrow> Reader \<times> (streamError + string)" where
  "readStreamHeader src =
     (case io_ReadFull (length streamMagic) src of
        (magic, src, err) \<Rightarrow>
          if err \<noteq> RNil \<or> magic \<noteq> streamMagic then (src, Inl StreamHeader)
          else
            case io_ReadFull 1 src of
              (keyIDLen, src, err) \<Rightarrow>
                if err \<noteq> RNil \<or> byte_val (hd keyIDLen) = 0 \<or> byte_val (hd keyIDLen) > 64
                then (src, Inl StreamKeyID)
                else
                  case io_ReadFull (byte_val (hd keyIDLen)) src of
                    (keyID, src, err) \<Rightarrow>
                      if err \<noteq> RNil \<or> \<not> keyIDPattern keyID then (src, Inl StreamKeyID)
                      else (src, Inr keyID))"

function decryptLoop ::
  "'w writer \<Rightarrow> aead \<Rightarrow> string \<Rightarrow> string \<Rightarrow> nat \<Rightarrow> Reader \<Rightarrow> 'w \<Rightarrow> 'w \<times> streamError option" where
  "decryptLoop W a keyID purpose index src w =
     (case io_ReadFull 5 src of
        (recordHeader, src1, err) \<Rightarrow>
          if err \<noteq> RNil then (w, Some StreamTruncated)
          else
            let flag = hd recordHeader;
                payloadLen = be_value (tl recordHeader)
            in
              if flag \<noteq> streamFlagData \<and> flag \<noteq> streamFlagFinal then (w, Some StreamRecordType)
              else if payloadLen < NonceSize a + Overhead a
                  \<or> payloadLen > streamChunkSize + NonceSize a + Overhead a
              then (w, Some StreamRecordLength)
              else
                case io_ReadFull payloadLen src1 of
                  (payload, src2, err) \<Rightarrow>
                    if err \<noteq> RNil then (w, Some StreamRecordTruncated)
                    else
                      case Open a (take (NonceSize a) payload) (drop (NonceSize a) payload)
                          (streamAAD keyID purpose index flag) of
                        None \<Rightarrow> (w, Some StreamAuthentication)
                      | Some plaintext \<Rightarrow>
                          if flag = streamFlagFinal then
                            (if length plaintext \<noteq> 0 then (w, Some StreamFinalRecord)
                             else
                               case io_ReadFull 1 src2 of
                                 (_, _, err) \<Rightarrow>
                                   if err \<noteq> REOF
                                   then (w, Some (if err = RNil then StreamTrailing else StreamTrailingCheck))
                                   else (w, None))
                          else if length plaintext = 0 then (w, Some StreamEmptyRecord)
                          else
                            case writeAll W plaintext w of
                              (w, Some e) \<Rightarrow> (w, Some e)
                            | (w, None) \<Rightarrow>
                                decryptLoop W a keyID purpose ((index + 1) mod 2 ^ 64) src2 w)"
  by pat_completeness auto
termination
  by (relation "measure (\<lambda>(W, a, keyID, purpose, index, src, w). length (rd_data src))")
    (auto simp: io_ReadFull_def split: if_splits)

declare decryptLoop.simps [simp del]

definition DecryptStream ::
  "(string \<Rightarrow> aead option) \<Rightarrow> 'w writer \<Rightarrow> Keyring option \<Rightarrow> string \<Rightarrow> 'w \<Rightarrow> Reader
    \<Rightarrow> 'w \<times> streamError option" where
  "DecryptStream G W k purpose dst src =
     (case k of
        None \<Rightarrow> (dst, Some StreamArguments)
      | Some k \<Rightarrow>
          if blank purpose then (dst, Some StreamArguments)
          else
            case readStreamHeader src of
              (src, Inl e) \<Rightarrow> (dst, Some e)
            | (src, Inr keyID) \<Rightarrow>
                (case map_of (kr_keys k) keyID of
                   None \<Rightarrow> (dst, Some StreamKeyUnavailable)
                 | Some key \<Rightarrow>
                     (case G key of
                        None \<Rightarrow> (dst, Some StreamCipher)
                      | Some a \<Rightarrow> decryptLoop W a keyID purpose 0 src dst)))"

end
