(* ===== verification/Crypt_Stream_Proofs.thy ===== *)
theory Crypt_Stream_Proofs
  imports Crypt_Stream "HOL-Library.Sublist"
begin

text \<open>
  What the encrypted stream guarantees: decryption inverts encryption, every strict prefix and
  every extension of a stream is rejected, and the associated data of a record determines the key,
  the purpose, the position and the kind of the record.
\<close>

section \<open>Writers\<close>

definition reliable :: "'w writer \<Rightarrow> bool" where
  "reliable W \<longleftrightarrow> (\<forall>w p. \<not> snd (snd (W w p)))"

context io_writer
begin

lemma write_reliable: "reliable W \<Longrightarrow> \<exists>w'. W w p = (w', int (length p), False) \<and> out w' = out w @ p"
proof -
  assume r: "reliable W"
  obtain w' n err where w': "W w p = (w', n, err)" by (cases "W w p") auto
  then have "\<not> err" using r by (metis reliable_def snd_conv)
  with io_write [OF w'] have "n = int (length p)" "out w' = out w @ p" by auto
  with w' \<open>\<not> err\<close> show ?thesis by simp
qed

lemma writeAll_reliable:
  assumes "reliable W"
  shows "\<exists>w'. writeAll W bytes w = (w', None) \<and> out w' = out w @ bytes"
proof (cases "bytes = []")
  case True
  then show ?thesis by (simp add: writeAll.simps)
next
  case False
  obtain w' where "W w bytes = (w', int (length bytes), False)" "out w' = out w @ bytes"
    using write_reliable [OF assms] by blast
  with False show ?thesis
    by (subst writeAll.simps) (simp add: writeAll.simps [of W "[]"])
qed

end

section \<open>Frames\<close>

lemma strict_prefix_append_cases:
  assumes "strict_prefix x (F @ R)" and "\<not> strict_prefix x F"
  obtains y where "x = F @ y" and "strict_prefix y R"
proof -
  have "prefix x F \<or> (\<exists>y. x = F @ y \<and> prefix y R)" and ne: "x \<noteq> F @ R"
    using assms(1) by (auto simp: strict_prefix_def prefix_append)
  then consider "x = F @ []" | y where "x = F @ y" "prefix y R"
    using assms(2) by (auto simp: strict_prefix_def)
  then show thesis
  proof cases
    case 1
    with ne that show thesis by (cases R) auto
  next
    case 2
    with ne that show thesis by (auto simp: strict_prefix_def)
  qed
qed

definition payload_of :: "aead \<Rightarrow> string \<Rightarrow> string \<Rightarrow> string \<Rightarrow> nat \<Rightarrow> char \<Rightarrow> string \<Rightarrow> string" where
  "payload_of a keyID purpose nonce index flag pt = nonce @ Seal a nonce pt (streamAAD keyID purpose index flag)"

definition frame :: "aead \<Rightarrow> string \<Rightarrow> string \<Rightarrow> string \<Rightarrow> nat \<Rightarrow> char \<Rightarrow> string \<Rightarrow> string" where
  "frame a keyID purpose nonce index flag pt =
     (let payload = payload_of a keyID purpose nonce index flag pt
      in flag # be_bytes 4 (length payload mod 2 ^ 32) @ payload)"

fun frames ::
  "aead \<Rightarrow> string \<Rightarrow> string \<Rightarrow> (nat \<Rightarrow> string option) \<Rightarrow> nat \<Rightarrow> nat \<Rightarrow> string list \<Rightarrow> string" where
  "frames a keyID purpose rnd j index [] = frame a keyID purpose (the (rnd j)) index streamFlagFinal []"
| "frames a keyID purpose rnd j index (c # cs) =
     frame a keyID purpose (the (rnd j)) index streamFlagData c
       @ frames a keyID purpose rnd (Suc j) ((index + 1) mod 2 ^ 64) cs"

function chunks :: "string \<Rightarrow> string list" where
  "chunks bytes = (if bytes = [] then []
     else take streamChunkSize bytes # chunks (drop streamChunkSize bytes))"
  by pat_completeness auto
termination
  by (relation "measure length") (auto simp: streamChunkSize_def)

declare chunks.simps [simp del]

lemma concat_chunks: "concat (chunks bytes) = bytes"
  by (induction bytes rule: chunks.induct) (subst chunks.simps, simp)

lemma chunks_bounds: "c \<in> set (chunks bytes) \<Longrightarrow> c \<noteq> [] \<and> length c \<le> streamChunkSize"
proof (induction bytes rule: chunks.induct)
  case (1 bytes)
  show ?case
  proof (cases "bytes = []")
    case True
    then show ?thesis using 1(2) by (simp add: chunks.simps)
  next
    case False
    then have "c = take streamChunkSize bytes \<or> c \<in> set (chunks (drop streamChunkSize bytes))"
      using 1(2) by (subst (asm) chunks.simps) simp
    then show ?thesis using 1(1) False by (auto simp: streamChunkSize_def)
  qed
qed

text \<open>A cipher with the documented sizes, and the nonces of a run.\<close>

locale stream_cipher =
  fixes a :: aead and rnd :: "nat \<Rightarrow> string option"
  assumes sizes: "NonceSize a = 12" "Overhead a = 16"
    and length_seal: "length (Seal a nonce pt aad) = length pt + 16"
    and open_seal: "length nonce = 12 \<Longrightarrow> Open a nonce (Seal a nonce pt aad) aad = Some pt"
    and nonces: "\<exists>nonce. rnd j = Some nonce \<and> length nonce = 12"
begin

lemma nonce_length: "length (the (rnd j)) = 12"
  using nonces [of j] by auto

lemma length_payload: "length (payload_of a keyID purpose (the (rnd j)) index flag pt) = length pt + 28"
  by (simp add: payload_of_def length_seal nonce_length)

lemma length_payload_mod:
  "length pt \<le> streamChunkSize \<Longrightarrow>
    length (payload_of a keyID purpose (the (rnd j)) index flag pt) mod 2 ^ 32 = length pt + 28"
  by (simp add: length_payload streamChunkSize_def)

lemma frame_eq:
  "length pt \<le> streamChunkSize \<Longrightarrow> frame a keyID purpose (the (rnd j)) index flag pt =
    flag # be_bytes 4 (length pt + 28) @ payload_of a keyID purpose (the (rnd j)) index flag pt"
  by (simp only: frame_def Let_def length_payload_mod)

lemma open_payload:
  "Open a (take (NonceSize a) (payload_of a keyID purpose (the (rnd j)) index flag pt))
     (drop (NonceSize a) (payload_of a keyID purpose (the (rnd j)) index flag pt))
     (streamAAD keyID purpose index flag) = Some pt"
  using nonce_length [of j] by (simp add: payload_of_def sizes open_seal)

lemma be_length:
  "n \<le> streamChunkSize \<Longrightarrow> be_value (be_bytes 4 (n + 28)) = n + 28"
  by (rule be_value_be_bytes) (simp add: streamChunkSize_def)

subsection \<open>Reading a frame\<close>

lemma decrypt_frame:
  assumes "length pt \<le> streamChunkSize" and "flag = streamFlagData \<or> flag = streamFlagFinal"
  shows "decryptLoop W a keyID purpose index
      \<lparr> rd_data = frame a keyID purpose (the (rnd j)) index flag pt @ rest, rd_fails = f \<rparr> w =
    (if flag = streamFlagFinal then
       (if pt \<noteq> [] then (w, Some StreamFinalRecord)
        else if rest \<noteq> [] then (w, Some StreamTrailing)
        else if f then (w, Some StreamTrailingCheck) else (w, None))
     else if pt = [] then (w, Some StreamEmptyRecord)
     else case writeAll W pt w of
       (w, Some e) \<Rightarrow> (w, Some e)
     | (w, None) \<Rightarrow> decryptLoop W a keyID purpose ((index + 1) mod 2 ^ 64)
         \<lparr> rd_data = rest, rd_fails = f \<rparr> w)"
proof -
  let ?p = "payload_of a keyID purpose (the (rnd j)) index flag pt"
  have head: "io_ReadFull 5 \<lparr> rd_data = frame a keyID purpose (the (rnd j)) index flag pt @ rest, rd_fails = f \<rparr> =
      (flag # be_bytes 4 (length pt + 28), \<lparr> rd_data = ?p @ rest, rd_fails = f \<rparr>, RNil)"
    unfolding frame_eq [OF assms(1)] by (simp add: io_ReadFull_def)
  have body: "io_ReadFull (length pt + 28) \<lparr> rd_data = ?p @ rest, rd_fails = f \<rparr> =
      (?p, \<lparr> rd_data = rest, rd_fails = f \<rparr>, RNil)"
    by (simp add: io_ReadFull_def length_payload)
  have len: "\<not> (length pt + 28 < NonceSize a + Overhead a
      \<or> length pt + 28 > streamChunkSize + NonceSize a + Overhead a)"
    using assms(1) by (simp add: sizes)
  have flag: "\<not> (flag \<noteq> streamFlagData \<and> flag \<noteq> streamFlagFinal)"
    using assms(2) by blast
  have trail: "io_ReadFull 1 \<lparr> rd_data = rest, rd_fails = f \<rparr> =
      (take 1 rest, \<lparr> rd_data = drop 1 rest, rd_fails = f \<rparr>,
       if rest \<noteq> [] then RNil else if f then RFail else REOF)"
    by (cases rest) (simp_all add: io_ReadFull_def)
  show ?thesis
    by (subst decryptLoop.simps)
      (simp only: head prod.case Let_def list.sel be_length [OF assms(1)] flag len if_False if_True
        body open_payload option.case trail length_0_conv read_result.distinct simp_thms; simp)
qed

lemma decrypt_cut_frame:
  assumes "length pt \<le> streamChunkSize" and "flag = streamFlagData \<or> flag = streamFlagFinal"
    and "strict_prefix x (frame a keyID purpose (the (rnd j)) index flag pt)"
  shows "snd (decryptLoop W a keyID purpose index \<lparr> rd_data = x, rd_fails = f \<rparr> w) \<noteq> None"
proof (cases "length x < 5")
  case True
  then have "\<exists>b s err. io_ReadFull 5 \<lparr> rd_data = x, rd_fails = f \<rparr> = (b, s, err) \<and> err \<noteq> RNil"
    by (simp add: io_ReadFull_def)
  then show ?thesis
    by (subst decryptLoop.simps) auto
next
  case False
  let ?p = "payload_of a keyID purpose (the (rnd j)) index flag pt"
  let ?h = "flag # be_bytes 4 (length pt + 28)"
  obtain y where y: "x = ?h @ y" "strict_prefix y ?p"
  proof -
    have "strict_prefix x (?h @ ?p)"
      using assms(3) unfolding frame_eq [OF assms(1)] by simp
    moreover have "\<not> strict_prefix x ?h"
      using False prefix_length_less [of x ?h] by auto
    ultimately show ?thesis
      using strict_prefix_append_cases that by blast
  qed
  have head: "io_ReadFull 5 \<lparr> rd_data = x, rd_fails = f \<rparr> = (?h, \<lparr> rd_data = y, rd_fails = f \<rparr>, RNil)"
    by (simp add: io_ReadFull_def y(1))
  have "length y < length pt + 28"
    using prefix_length_less [OF y(2)] by (simp add: length_payload)
  then obtain b s err where body: "io_ReadFull (length pt + 28) \<lparr> rd_data = y, rd_fails = f \<rparr> = (b, s, err)"
    "err \<noteq> RNil"
    by (auto simp: io_ReadFull_def)
  have len: "\<not> (length pt + 28 < NonceSize a + Overhead a
      \<or> length pt + 28 > streamChunkSize + NonceSize a + Overhead a)"
    using assms(1) by (simp add: sizes)
  have flag: "\<not> (flag \<noteq> streamFlagData \<and> flag \<noteq> streamFlagFinal)"
    using assms(2) by blast
  show ?thesis
    by (subst decryptLoop.simps)
      (simp only: head prod.case Let_def list.sel be_length [OF assms(1)] flag len if_False if_True
        body simp_thms; simp)
qed

end

text \<open>Whole streams, with a writer that reports no errors.\<close>

locale stream_run = stream_cipher a rnd + io_writer W out
  for a :: aead and rnd :: "nat \<Rightarrow> string option" and W :: "'w writer" and out :: "'w \<Rightarrow> string" +
  assumes reliable_writer: "reliable W"
begin

lemma decrypt_frames:
  assumes "\<And>c. c \<in> set cs \<Longrightarrow> c \<noteq> [] \<and> length c \<le> streamChunkSize"
  shows "\<exists>w'. decryptLoop W a keyID purpose index
      \<lparr> rd_data = frames a keyID purpose rnd j index cs @ rest, rd_fails = False \<rparr> w =
      (w', if rest = [] then None else Some StreamTrailing) \<and> out w' = out w @ concat cs"
  using assms
proof (induction cs arbitrary: j index w)
  case Nil
  show ?case
    using decrypt_frame [of "[]" streamFlagFinal W keyID purpose index j rest False w] by simp
next
  case (Cons c cs)
  have c: "c \<noteq> []" "length c \<le> streamChunkSize" using Cons.prems by auto
  obtain w1 where w1: "writeAll W c w = (w1, None)" "out w1 = out w @ c"
    using writeAll_reliable [OF reliable_writer] by blast
  have "streamFlagData \<noteq> streamFlagFinal" by (simp add: streamFlagData_def streamFlagFinal_def)
  then have "decryptLoop W a keyID purpose index
      \<lparr> rd_data = frames a keyID purpose rnd j index (c # cs) @ rest, rd_fails = False \<rparr> w =
    decryptLoop W a keyID purpose ((index + 1) mod 2 ^ 64)
      \<lparr> rd_data = frames a keyID purpose rnd (Suc j) ((index + 1) mod 2 ^ 64) cs @ rest, rd_fails = False \<rparr> w1"
    using decrypt_frame [OF c(2), of streamFlagData W keyID purpose index j
        "frames a keyID purpose rnd (Suc j) ((index + 1) mod 2 ^ 64) cs @ rest" False w] c(1) w1(1)
    by simp
  then show ?case
    using Cons.IH [where j = "Suc j" and index = "(index + 1) mod 2 ^ 64" and w = w1] Cons.prems w1(2) by simp
qed

lemma decrypt_cut_frames:
  assumes "\<And>c. c \<in> set cs \<Longrightarrow> c \<noteq> [] \<and> length c \<le> streamChunkSize"
    and "strict_prefix x (frames a keyID purpose rnd j index cs)"
  shows "snd (decryptLoop W a keyID purpose index \<lparr> rd_data = x, rd_fails = False \<rparr> w) \<noteq> None"
  using assms
proof (induction cs arbitrary: j index w x)
  case Nil
  then show ?case by (intro decrypt_cut_frame [of "[]" streamFlagFinal]) simp_all
next
  case (Cons c cs)
  have c: "c \<noteq> []" "length c \<le> streamChunkSize" using Cons.prems by auto
  let ?F = "frame a keyID purpose (the (rnd j)) index streamFlagData c"
  let ?R = "frames a keyID purpose rnd (Suc j) ((index + 1) mod 2 ^ 64) cs"
  have x: "strict_prefix x (?F @ ?R)" using Cons.prems(2) by simp
  show ?case
  proof (cases "strict_prefix x ?F")
    case True
    then show ?thesis using c(2) by (intro decrypt_cut_frame) simp_all
  next
    case False
    then obtain y where y: "x = ?F @ y" "strict_prefix y ?R"
      using strict_prefix_append_cases [OF x] by blast
    obtain w1 where w1: "writeAll W c w = (w1, None)"
      using writeAll_reliable [OF reliable_writer] by blast
    have "streamFlagData \<noteq> streamFlagFinal" by (simp add: streamFlagData_def streamFlagFinal_def)
    then have "decryptLoop W a keyID purpose index \<lparr> rd_data = x, rd_fails = False \<rparr> w =
      decryptLoop W a keyID purpose ((index + 1) mod 2 ^ 64) \<lparr> rd_data = y, rd_fails = False \<rparr> w1"
      using decrypt_frame [OF c(2), of streamFlagData W keyID purpose index j y False w] c(1) w1 y(1)
      by simp
    then show ?thesis using Cons.IH [OF _ y(2)] Cons.prems(1) by simp
  qed
qed

subsection \<open>Writing\<close>

lemma write_record:
  "\<exists>w'. writeEncryptedRecord W rnd a keyID purpose j index flag pt w = (w', None) \<and>
    out w' = out w @ frame a keyID purpose (the (rnd j)) index flag pt"
proof -
  obtain nonce where n: "rnd j = Some nonce" using nonces by blast
  let ?p = "payload_of a keyID purpose nonce index flag pt"
  obtain w1 where w1: "writeAll W (flag # be_bytes 4 (length ?p mod 2 ^ 32)) w = (w1, None)"
    "out w1 = out w @ flag # be_bytes 4 (length ?p mod 2 ^ 32)"
    using writeAll_reliable [OF reliable_writer] by blast
  obtain w2 where w2: "writeAll W ?p w1 = (w2, None)" "out w2 = out w1 @ ?p"
    using writeAll_reliable [OF reliable_writer] by blast
  show ?thesis
    using w1 w2 n unfolding writeEncryptedRecord_def payload_of_def [symmetric] frame_def
    by (simp add: Let_def del: be_bytes.simps)
qed

lemma encrypt_frames:
  "\<exists>w'. encryptLoop W rnd a keyID purpose j index \<lparr> rd_data = bytes, rd_fails = False \<rparr> w = (w', None) \<and>
    out w' = out w @ frames a keyID purpose rnd j index (chunks bytes)"
proof (induction bytes arbitrary: j index w rule: chunks.induct)
  case (1 bytes)
  obtain wf where wf: "writeEncryptedRecord W rnd a keyID purpose j index streamFlagFinal [] w = (wf, None)"
    "out wf = out w @ frame a keyID purpose (the (rnd j)) index streamFlagFinal []"
    using write_record by blast
  show ?case
  proof (cases "bytes = []")
    case True
    then show ?thesis
      using wf by (subst encryptLoop.simps) (simp add: io_ReadFull_def streamChunkSize_def chunks.simps)
  next
    case False
    let ?c = "take streamChunkSize bytes" and ?rest = "drop streamChunkSize bytes"
    let ?i = "(index + 1) mod 2 ^ 64"
    have cs: "chunks bytes = ?c # chunks ?rest" using False by (subst chunks.simps) simp
    obtain w1 where w1: "writeEncryptedRecord W rnd a keyID purpose j index streamFlagData ?c w = (w1, None)"
      "out w1 = out w @ frame a keyID purpose (the (rnd j)) index streamFlagData ?c"
      using write_record by blast
    show ?thesis
    proof (cases "streamChunkSize \<le> length bytes")
      case True
      then have "encryptLoop W rnd a keyID purpose j index \<lparr> rd_data = bytes, rd_fails = False \<rparr> w =
          encryptLoop W rnd a keyID purpose (Suc j) ?i \<lparr> rd_data = ?rest, rd_fails = False \<rparr> w1"
        using False w1(1) by (subst encryptLoop.simps) (simp add: io_ReadFull_def streamChunkSize_def)
      then show ?thesis
        using 1 [OF False, where j = "Suc j" and index = ?i and w = w1] w1(2) cs by simp
    next
      case short: False
      then have rest: "?rest = []" "?c = bytes" by simp_all
      obtain w2 where w2: "writeEncryptedRecord W rnd a keyID purpose (Suc j) ?i streamFlagFinal [] w1 = (w2, None)"
        "out w2 = out w1 @ frame a keyID purpose (the (rnd (Suc j))) ?i streamFlagFinal []"
        using write_record by blast
      have "encryptLoop W rnd a keyID purpose j index \<lparr> rd_data = bytes, rd_fails = False \<rparr> w = (w2, None)"
        using False short w1(1) w2(1) rest(2) by (subst encryptLoop.simps) (simp add: io_ReadFull_def)
      then show ?thesis
        using w1(2) w2(2) cs rest by (simp add: chunks.simps)
    qed
  qed
qed

end

section \<open>The header\<close>

definition header :: "string \<Rightarrow> string" where
  "header keyID = streamMagic @ [val_byte (length keyID mod 256)] @ keyID"

lemma read_header:
  assumes "keyIDPattern keyID"
  shows "readStreamHeader \<lparr> rd_data = header keyID @ rest, rd_fails = f \<rparr> =
    (\<lparr> rd_data = rest, rd_fails = f \<rparr>, Inr keyID)"
proof -
  have len: "1 \<le> length keyID" "length keyID \<le> 64" using assms by (simp_all add: keyIDPattern_def)
  then have "keyID \<noteq> []" by auto
  then show ?thesis
    using assms len by (simp add: readStreamHeader_def header_def io_ReadFull_def)
qed

lemma read_cut_header:
  assumes "keyIDPattern keyID" and "strict_prefix x (header keyID)"
  shows "\<exists>rd e. readStreamHeader \<lparr> rd_data = x, rd_fails = f \<rparr> = (rd, Inl e)"
proof (cases "strict_prefix x streamMagic")
  case True
  then have "length x < length streamMagic" by (rule prefix_length_less)
  then show ?thesis
    by (auto simp: readStreamHeader_def io_ReadFull_def)
next
  case False
  let ?l = "val_byte (length keyID mod 256)"
  obtain y where y: "x = streamMagic @ y" "strict_prefix y ([?l] @ keyID)"
    using strict_prefix_append_cases [OF assms(2) [unfolded header_def] False] .
  have len: "1 \<le> length keyID" "length keyID \<le> 64" using assms(1) by (simp_all add: keyIDPattern_def)
  show ?thesis
  proof (cases y)
    case Nil
    then show ?thesis using y(1) by (auto simp: readStreamHeader_def io_ReadFull_def)
  next
    case (Cons b z)
    then have "b = ?l" "length z < length keyID"
      using y(2) prefix_length_less [OF y(2)] by auto
    then show ?thesis
      using y(1) Cons len by (auto simp: readStreamHeader_def io_ReadFull_def)
  qed
qed

section \<open>Guarantees\<close>

lemma stream_runI:
  assumes "gcm G" and "G key = Some a" and "\<forall>j. \<exists>nonce. rnd j = Some nonce \<and> length nonce = 12"
    and "io_writer W out" and "reliable W"
  shows "stream_run a rnd W out"
proof -
  have "stream_cipher a rnd"
    by unfold_locales (use gcm.nonce_size [OF assms(1,2)] gcm.overhead [OF assms(1,2)]
        gcm.length_seal [OF assms(1,2)] gcm.open_iff [OF assms(1,2)] assms(3) in auto)
  then show ?thesis
    using assms(4,5) by (simp add: stream_run_def stream_run_axioms_def)
qed

lemma EncryptStream_writes:
  assumes "gcm G" and "keyring_ok k" and "\<not> blank purpose"
    and "\<forall>j. \<exists>nonce. rnd j = Some nonce \<and> length nonce = 12"
    and "io_writer W out" and "reliable W"
  obtains key a w' where "map_of (kr_keys k) (kr_activeID k) = Some key" and "G key = Some a"
    and "keyIDPattern (kr_activeID k)"
    and "EncryptStream G rnd W (Some k) purpose w \<lparr> rd_data = bytes, rd_fails = False \<rparr> = (w', None)"
    and "out w' = out w @ header (kr_activeID k) @ frames a (kr_activeID k) purpose rnd 0 0 (chunks bytes)"
proof -
  obtain key where key: "map_of (kr_keys k) (kr_activeID k) = Some key" "keyIDPattern (kr_activeID k)"
    "length key = 32"
    using assms(2) by (auto simp: keyring_ok_def)
  obtain a where a: "G key = Some a" using gcm.available [OF assms(1) key(3)] by blast
  note run = stream_runI [OF assms(1) a assms(4-6)]
  obtain w1 where w1: "writeStreamHeader W (kr_activeID k) w = (w1, None)"
    "out w1 = out w @ header (kr_activeID k)"
    using io_writer.writeAll_reliable [OF assms(5,6)] unfolding writeStreamHeader_def header_def by blast
  obtain w2 where w2: "encryptLoop W rnd a (kr_activeID k) purpose 0 0 \<lparr> rd_data = bytes, rd_fails = False \<rparr> w1 =
      (w2, None)" "out w2 = out w1 @ frames a (kr_activeID k) purpose rnd 0 0 (chunks bytes)"
    using stream_run.encrypt_frames [OF run] by blast
  have "EncryptStream G rnd W (Some k) purpose w \<lparr> rd_data = bytes, rd_fails = False \<rparr> = (w2, None)"
    using assms(3) key(1) a w1(1) w2(1) by (simp add: EncryptStream_def)
  then show ?thesis using that key a w1(2) w2(2) by simp
qed

lemma buffer_reliable: "reliable buffer_write"
  by (simp add: reliable_def buffer_write_def)

definition example_nonces :: "nat \<Rightarrow> string option" where
  "example_nonces j = Some (replicate 12 CHR ''n'')"

lemma example_nonces_ok: "\<forall>j. \<exists>nonce. example_nonces j = Some nonce \<and> length nonce = 12"
  by (simp add: example_nonces_def)

definition example_aead :: aead where
  "example_aead = the (toy_gcm (replicate 32 CHR ''k''))"

lemma example_aead: "toy_gcm (replicate 32 CHR ''k'') = Some example_aead"
  by (simp add: example_aead_def toy_gcm_def)

interpretation toy_stream: stream_run example_aead example_nonces buffer_write "\<lambda>w. w"
  by (rule stream_runI [OF toy.gcm_axioms example_aead example_nonces_ok buffer.io_writer_axioms buffer_reliable])

lemma backup_purpose: "\<not> blank ''backup''"
  by code_simp

text \<open>
  Property C28 (roundtrip). A backup stream decrypts to what was encrypted: for a keyring made by
  \<open>NewKeyring\<close>, a purpose that is not blank and writers that report no error, \<open>EncryptStream\<close>
  ends without an error and appends a stream from which \<open>DecryptStream\<close>, with any keyring that
  still holds the writing key under its ID, appends exactly the original bytes, whatever their
  number, and reports no error.
\<close>

theorem stream_roundtrip:
  assumes "gcm G" and "NewKeyring r activeID keys = Inr k" and "\<not> blank purpose"
    and "\<forall>j. \<exists>nonce. rnd j = Some nonce \<and> length nonce = 12"
    and "io_writer W out" and "reliable W" and "io_writer V out'" and "reliable V"
  shows "\<exists>w' c. EncryptStream G rnd W (Some k) purpose w \<lparr> rd_data = bytes, rd_fails = False \<rparr> = (w', None) \<and>
    out w' = out w @ c \<and>
    (\<forall>k'. map_of (kr_keys k') (kr_activeID k) = map_of (kr_keys k) (kr_activeID k) \<longrightarrow>
      (\<exists>v'. DecryptStream G V (Some k') purpose v \<lparr> rd_data = c, rd_fails = False \<rparr> = (v', None) \<and>
        out' v' = out' v @ bytes))"
proof -
  let ?i = "kr_activeID k"
  obtain key a w' where e: "map_of (kr_keys k) ?i = Some key" "G key = Some a" "keyIDPattern ?i"
    "EncryptStream G rnd W (Some k) purpose w \<lparr> rd_data = bytes, rd_fails = False \<rparr> = (w', None)"
    "out w' = out w @ header ?i @ frames a ?i purpose rnd 0 0 (chunks bytes)"
    using EncryptStream_writes [OF assms(1) NewKeyring_ok [OF assms(2)] assms(3-6)] by blast
  note run = stream_runI [OF assms(1) e(2) assms(4,7,8)]
  obtain v' where v': "decryptLoop V a ?i purpose 0
      \<lparr> rd_data = frames a ?i purpose rnd 0 0 (chunks bytes), rd_fails = False \<rparr> v = (v', None)"
    "out' v' = out' v @ bytes"
    using stream_run.decrypt_frames [OF run, of "chunks bytes" ?i purpose 0 0 "[]" v] chunks_bounds
    by (auto simp: concat_chunks)
  have "DecryptStream G V (Some k') purpose v
      \<lparr> rd_data = header ?i @ frames a ?i purpose rnd 0 0 (chunks bytes), rd_fails = False \<rparr> = (v', None)"
    if "map_of (kr_keys k') ?i = map_of (kr_keys k) ?i" for k'
    using that assms(3) e(1-3) v'(1) read_header [OF e(3)] by (simp add: DecryptStream_def)
  then show ?thesis using e(4,5) v'(2) by blast
qed

theorem stream_roundtrip_witness:
  "\<exists>w' c. EncryptStream toy_gcm example_nonces buffer_write (Some example_keyring) ''backup'' []
       \<lparr> rd_data = ''dump'', rd_fails = False \<rparr> = (w', None) \<and> w' = c \<and>
     DecryptStream toy_gcm buffer_write (Some example_keyring) ''backup'' []
       \<lparr> rd_data = c, rd_fails = False \<rparr> = (''dump'', None)"
  using stream_roundtrip [OF toy.gcm_axioms example_keyring_new backup_purpose example_nonces_ok
      buffer.io_writer_axioms buffer_reliable buffer.io_writer_axioms buffer_reliable,
      where w = "[]" and v = "[]" and bytes = "''dump''"] by auto

text \<open>
  Property C29 (error). Truncation and appended data are detected: of the stream \<open>EncryptStream\<close>
  wrote, every strict prefix makes \<open>DecryptStream\<close> fail, also one that ends between two records,
  and so does the stream followed by anything.
\<close>

theorem stream_tampering_detected:
  assumes "gcm G" and "NewKeyring r activeID keys = Inr k" and "\<not> blank purpose"
    and "\<forall>j. \<exists>nonce. rnd j = Some nonce \<and> length nonce = 12"
    and "io_writer W out" and "reliable W" and "io_writer V out'" and "reliable V"
    and "EncryptStream G rnd W (Some k) purpose w \<lparr> rd_data = bytes, rd_fails = False \<rparr> = (w', None)"
    and "out w' = out w @ c"
  shows "(\<forall>x. strict_prefix x c \<longrightarrow>
      snd (DecryptStream G V (Some k) purpose v \<lparr> rd_data = x, rd_fails = False \<rparr>) \<noteq> None) \<and>
    (\<forall>x. x \<noteq> [] \<longrightarrow>
      snd (DecryptStream G V (Some k) purpose v \<lparr> rd_data = c @ x, rd_fails = False \<rparr>) = Some StreamTrailing)"
proof -
  let ?i = "kr_activeID k"
  obtain key a w'' where e: "map_of (kr_keys k) ?i = Some key" "G key = Some a" "keyIDPattern ?i"
    "EncryptStream G rnd W (Some k) purpose w \<lparr> rd_data = bytes, rd_fails = False \<rparr> = (w'', None)"
    "out w'' = out w @ header ?i @ frames a ?i purpose rnd 0 0 (chunks bytes)"
    using EncryptStream_writes [OF assms(1) NewKeyring_ok [OF assms(2)] assms(3-6)] by blast
  let ?f = "frames a ?i purpose rnd 0 0 (chunks bytes)"
  have c: "c = header ?i @ ?f" using e(4,5) assms(9,10) by simp
  note run = stream_runI [OF assms(1) e(2) assms(4,7,8)]
  have dec: "DecryptStream G V (Some k) purpose v \<lparr> rd_data = header ?i @ y, rd_fails = False \<rparr> =
      decryptLoop V a ?i purpose 0 \<lparr> rd_data = y, rd_fails = False \<rparr> v" for y
    using assms(3) e(1-3) read_header [OF e(3)] by (simp add: DecryptStream_def)
  have "snd (DecryptStream G V (Some k) purpose v \<lparr> rd_data = x, rd_fails = False \<rparr>) \<noteq> None"
    if x: "strict_prefix x c" for x
  proof (cases "strict_prefix x (header ?i)")
    case True
    then show ?thesis
      using read_cut_header [OF e(3) True, of False] assms(3) by (auto simp: DecryptStream_def)
  next
    case False
    then obtain y where y: "x = header ?i @ y" "strict_prefix y ?f"
      using strict_prefix_append_cases x unfolding c by blast
    show ?thesis
      unfolding y(1) dec by (rule stream_run.decrypt_cut_frames [OF run chunks_bounds y(2)])
  qed
  moreover have "snd (DecryptStream G V (Some k) purpose v \<lparr> rd_data = c @ x, rd_fails = False \<rparr>) =
      Some StreamTrailing" if "x \<noteq> []" for x
    using stream_run.decrypt_frames [OF run, of "chunks bytes" ?i purpose 0 0 x v] chunks_bounds that dec
    by (auto simp: c)
  ultimately show ?thesis by blast
qed

theorem stream_tampering_detected_witness:
  "snd (DecryptStream toy_gcm buffer_write (Some example_keyring) ''backup'' []
     \<lparr> rd_data = fst (EncryptStream toy_gcm example_nonces buffer_write (Some example_keyring) ''backup'' []
         \<lparr> rd_data = ''dump'', rd_fails = False \<rparr>) @ ''x'', rd_fails = False \<rparr>) = Some StreamTrailing"
proof -
  obtain key a w' where "EncryptStream toy_gcm example_nonces buffer_write (Some example_keyring) ''backup'' []
      \<lparr> rd_data = ''dump'', rd_fails = False \<rparr> = (w', None)"
    using EncryptStream_writes [OF toy.gcm_axioms NewKeyring_ok [OF example_keyring_new] backup_purpose
        example_nonces_ok buffer.io_writer_axioms buffer_reliable, where w = "[]" and bytes = "''dump''"]
    by blast
  then show ?thesis
    using stream_tampering_detected [OF toy.gcm_axioms example_keyring_new backup_purpose example_nonces_ok
        buffer.io_writer_axioms buffer_reliable buffer.io_writer_axioms buffer_reliable,
        where w = "[]" and v = "[]" and bytes = "''dump''"] by simp
qed

text \<open>
  Every record is bound to its place: the associated data of two records
  are equal only if the key IDs, the purposes, the sequence numbers and the record types are all
  equal, so no record of one stream, position or kind can stand for another.
\<close>

theorem stream_record_binding:
  assumes "keyIDPattern keyID" and "keyIDPattern keyID'" and "index < 2 ^ 64" and "index' < 2 ^ 64"
  shows "streamAAD keyID purpose index flag = streamAAD keyID' purpose' index' flag' \<longleftrightarrow>
    keyID = keyID' \<and> purpose = purpose' \<and> index = index' \<and> flag = flag'"
proof
  assume eq: "streamAAD keyID purpose index flag = streamAAD keyID' purpose' index' flag'"
  have len: "length keyID mod 256 = length keyID" "length keyID' mod 256 = length keyID'"
    using assms(1,2) by (simp_all add: keyIDPattern_def)
  let ?rest = "\<lambda>p i f. be_bytes 2 (length p mod 2 ^ 16) @ p @ be_bytes 8 i @ [f]"
  have hd: "val_byte (length keyID mod 256) = val_byte (length keyID' mod 256)"
    and tl: "keyID @ ?rest purpose index flag = keyID' @ ?rest purpose' index' flag'"
    using eq unfolding streamAAD_def by simp_all
  have "length keyID = length keyID'"
    using arg_cong [OF hd, of byte_val] len by simp
  with tl have i: "keyID = keyID'" "?rest purpose index flag = ?rest purpose' index' flag'"
    by (simp_all del: be_bytes.simps)
  then have "purpose @ be_bytes 8 index @ [flag] = purpose' @ be_bytes 8 index' @ [flag']"
    by (metis append_eq_append_conv length_be_bytes)
  moreover have "length (be_bytes 8 index @ [flag]) = length (be_bytes 8 index' @ [flag'])"
    by (simp del: be_bytes.simps)
  ultimately have "purpose = purpose'" "be_bytes 8 index @ [flag] = be_bytes 8 index' @ [flag']"
    using append_eq_append_conv by blast+
  then have "purpose = purpose'" "be_bytes 8 index = be_bytes 8 index'" "flag = flag'"
    by (simp_all del: be_bytes.simps)
  with i(1) be_bytes_inject [of 8 index index'] assms(3,4)
  show "keyID = keyID' \<and> purpose = purpose' \<and> index = index' \<and> flag = flag'" by simp
qed simp

theorem stream_record_binding_witness:
  "streamAAD ''k1'' ''backup'' 0 streamFlagData \<noteq> streamAAD ''k1'' ''backup'' 1 streamFlagData"
proof -
  have "keyIDPattern ''k1''" by code_simp
  then show ?thesis
    using stream_record_binding [of "''k1''" "''k1''" 0 1 "''backup''" streamFlagData "''backup''" streamFlagData]
    by simp
qed

end
