(* ===== verification/Image_Limiter.thy ===== *)
theory Image_Limiter
  imports Go_Any
begin

text \<open>
  The in-process limiter of image generations (\<open>handler/image_concurrency_limiter.go\<close>). The
  limiter is a record under one mutex; a waiting request sleeps on the channel \<open>notify\<close>, which
  every release closes and replaces. A channel is a number: the heap keeps the next number and the
  numbers of the closed channels. Requests run concurrently: each is a process whose steps are the
  sections under the mutex and the receive on the channel, and an action names the process that
  moves. The first theorems say that the limiter is a counting semaphore; the last ones that no
  wakeup is lost and that every request ends.
\<close>

section \<open>The limiter\<close>

record imageConcurrencyLimiter =
  il_notify :: "nat option"
  il_limit :: int
  il_active :: int
  il_waiting :: int
  il_enabled :: bool

definition new_limiter :: imageConcurrencyLimiter where
  "new_limiter = \<lparr> il_notify = None, il_limit = 0, il_active = 0, il_waiting = 0, il_enabled = False \<rparr>"

record channels =
  ch_next :: nat
  ch_closed :: "nat set"

definition make_chan :: "channels \<Rightarrow> nat \<times> channels" where
  "make_chan h = (ch_next h, h \<lparr> ch_next := Suc (ch_next h) \<rparr>)"

definition close_chan :: "nat \<Rightarrow> channels \<Rightarrow> channels" where
  "close_chan c h = h \<lparr> ch_closed := insert c (ch_closed h) \<rparr>"

text \<open>
  The four results of \<open>tryAcquireLocked\<close>: whether a release function is returned, \<open>acquired\<close>,
  whether a function that leaves the queue is returned, and the channel to wait on.
\<close>

definition prepareLocked ::
  "bool \<Rightarrow> int \<Rightarrow> imageConcurrencyLimiter \<Rightarrow> channels \<Rightarrow> imageConcurrencyLimiter \<times> channels" where
  "prepareLocked enabled limit l h =
     (let (l, h) = (case il_notify l of
            None \<Rightarrow> let (c, h') = make_chan h in (l \<lparr> il_notify := Some c \<rparr>, h')
          | Some _ \<Rightarrow> (l, h));
          l = (if il_enabled l \<noteq> enabled \<or> il_limit l \<noteq> limit
               then l \<lparr> il_enabled := enabled, il_limit := limit \<rparr> else l)
      in (l, h))"

definition tryAcquireLocked ::
  "bool \<Rightarrow> int \<Rightarrow> bool \<Rightarrow> int \<Rightarrow> imageConcurrencyLimiter \<Rightarrow> channels \<Rightarrow>
     (bool \<times> bool \<times> bool \<times> nat option) \<times> imageConcurrencyLimiter \<times> channels" where
  "tryAcquireLocked enabled limit wait maxWaiting l h =
     (let (l, h) = prepareLocked enabled limit l h
      in if il_active l < il_limit l
         then ((True, True, False, None), l \<lparr> il_active := il_active l + 1 \<rparr>, h)
         else if \<not> wait then ((False, False, False, None), l, h)
         else if maxWaiting > 0 \<and> il_waiting l \<ge> maxWaiting then ((False, False, False, None), l, h)
         else ((False, False, True, il_notify l), l \<lparr> il_waiting := il_waiting l + 1 \<rparr>, h))"

text \<open>The function \<open>releaseFunc\<close> returns, with the state of its \<open>sync.Once\<close>.\<close>

definition releaseFunc ::
  "bool \<Rightarrow> imageConcurrencyLimiter \<Rightarrow> channels \<Rightarrow> bool \<times> imageConcurrencyLimiter \<times> channels" where
  "releaseFunc once l h =
     (if once then (once, l, h)
      else let l = (if il_active l > 0 then l \<lparr> il_active := il_active l - 1 \<rparr> else l)
           in case il_notify l of
                None \<Rightarrow> (True, l, h)
              | Some c \<Rightarrow> let (c', h') = make_chan (close_chan c h)
                          in (True, l \<lparr> il_notify := Some c' \<rparr>, h'))"

definition waiterReleaseFunc :: "bool \<Rightarrow> imageConcurrencyLimiter \<Rightarrow> bool \<times> imageConcurrencyLimiter" where
  "waiterReleaseFunc once l =
     (if once then (once, l)
      else (True, if il_waiting l > 0 then l \<lparr> il_waiting := il_waiting l - 1 \<rparr> else l))"

text \<open>\<open>waitForSlot\<close> can return true when its channel is closed and false when its context ends.\<close>

definition waitForSlot :: "channels \<Rightarrow> nat \<Rightarrow> bool \<Rightarrow> bool \<Rightarrow> bool" where
  "waitForSlot h c ctx_done result \<longleftrightarrow> (if result then c \<in> ch_closed h else ctx_done)"

section \<open>Requests\<close>

record image_request =
  rq_enabled :: bool
  rq_limit :: int
  rq_wait :: bool
  rq_timeout :: duration
  rq_maxWaiting :: int

text \<open>The request \<open>acquireImageGenerationSlot\<close> makes of the configuration.\<close>

record ImageConcurrencyConfig =
  ic_Enabled :: bool
  ic_MaxConcurrentRequests :: int
  ic_OverflowMode :: string
  ic_WaitTimeoutSeconds :: int
  ic_MaxWaitingRequests :: int

definition acquireImageGenerationSlot :: "ImageConcurrencyConfig \<Rightarrow> image_request" where
  "acquireImageGenerationSlot c =
     \<lparr> rq_enabled = ic_Enabled c, rq_limit = ic_MaxConcurrentRequests c,
       rq_wait = (strings_TrimSpace (ic_OverflowMode c) = ''wait''),
       rq_timeout = int64_wrap (ic_WaitTimeoutSeconds c * Second),
       rq_maxWaiting = ic_MaxWaitingRequests c \<rparr>"

text \<open>
  Where a request is: before \<open>acquire\<close>, at the head of its loop, asleep on a channel, back from
  \<open>waitForSlot\<close> with true or with false and still counted as waiting, or returned: with a release
  function, with that function called, with no release function and true, or with false.
\<close>

datatype place =
    Fresh
  | Looping
  | Asleep nat
  | Woken
  | TimedOut
  | Holding
  | Released
  | Unlimited
  | Refused

definition acquire_entry :: "image_request \<Rightarrow> place" where
  "acquire_entry r =
     (if \<not> rq_enabled r \<or> rq_limit r \<le> 0 then Unlimited
      else if rq_wait r \<and> rq_timeout r \<le> 0 then Refused
      else Looping)"

definition acquire_tried :: "bool \<Rightarrow> bool \<times> bool \<times> bool \<times> nat option \<Rightarrow> place" where
  "acquire_tried wait res =
     (case res of (release, acquired, waitRelease, notify) \<Rightarrow>
        if acquired then Holding
        else case notify of
               None \<Rightarrow> Refused
             | Some c \<Rightarrow> if wait then Asleep c else Refused)"

record image_world =
  iw_lim :: imageConcurrencyLimiter
  iw_chans :: channels
  iw_at :: "place list"

datatype image_action =
    Enter nat
  | Try nat
  | Wake nat
  | Timeout nat
  | Unwait nat
  | Release nat
  | ReleaseAgain nat

definition move :: "nat \<Rightarrow> place \<Rightarrow> image_world \<Rightarrow> image_world" where
  "move p q w = w \<lparr> iw_at := (iw_at w)[p := q] \<rparr>"

definition place_at :: "image_world \<Rightarrow> nat \<Rightarrow> place option" where
  "place_at w p = (if p < length (iw_at w) then Some (iw_at w ! p) else None)"

fun image_step :: "image_request list \<Rightarrow> image_action \<Rightarrow> image_world \<Rightarrow> image_world option" where
  "image_step rs (Enter p) w =
     (if place_at w p = Some Fresh then Some (move p (acquire_entry (rs ! p)) w) else None)"
| "image_step rs (Try p) w =
     (if place_at w p = Some Looping then
        let r = rs ! p; maxWaiting = (if rq_maxWaiting r < 0 then 0 else rq_maxWaiting r);
            (res, l, h) = tryAcquireLocked (rq_enabled r) (rq_limit r) (rq_wait r) maxWaiting (iw_lim w) (iw_chans w)
        in Some (move p (acquire_tried (rq_wait r) res) (w \<lparr> iw_lim := l, iw_chans := h \<rparr>))
      else None)"
| "image_step rs (Wake p) w =
     (case place_at w p of
        Some (Asleep c) \<Rightarrow> if waitForSlot (iw_chans w) c False True then Some (move p Woken w) else None
      | _ \<Rightarrow> None)"
| "image_step rs (Timeout p) w =
     (case place_at w p of
        Some (Asleep c) \<Rightarrow> if waitForSlot (iw_chans w) c True False then Some (move p TimedOut w) else None
      | _ \<Rightarrow> None)"
| "image_step rs (Unwait p) w =
     (case place_at w p of
        Some Woken \<Rightarrow> Some (move p Looping (w \<lparr> iw_lim := snd (waiterReleaseFunc False (iw_lim w)) \<rparr>))
      | Some TimedOut \<Rightarrow> Some (move p Refused (w \<lparr> iw_lim := snd (waiterReleaseFunc False (iw_lim w)) \<rparr>))
      | _ \<Rightarrow> None)"
| "image_step rs (Release p) w =
     (if place_at w p = Some Holding then
        let (once, l, h) = releaseFunc False (iw_lim w) (iw_chans w)
        in Some (move p Released (w \<lparr> iw_lim := l, iw_chans := h \<rparr>))
      else None)"
| "image_step rs (ReleaseAgain p) w =
     (if place_at w p = Some Released then
        let (once, l, h) = releaseFunc True (iw_lim w) (iw_chans w)
        in Some (w \<lparr> iw_lim := l, iw_chans := h \<rparr>)
      else None)"

definition image_init :: "image_request list \<Rightarrow> image_world" where
  "image_init rs = \<lparr> iw_lim = new_limiter, iw_chans = \<lparr> ch_next = 0, ch_closed = {} \<rparr>,
                     iw_at = replicate (length rs) Fresh \<rparr>"

fun image_run :: "image_request list \<Rightarrow> image_action list \<Rightarrow> image_world \<Rightarrow> image_world option" where
  "image_run rs [] w = Some w"
| "image_run rs (a # as) w = Option.bind (image_step rs a w) (image_run rs as)"

section \<open>Counting\<close>

abbreviation count_if :: "('a \<Rightarrow> bool) \<Rightarrow> 'a list \<Rightarrow> nat" where
  "count_if P xs \<equiv> length (filter P xs)"

lemma count_if_update:
  "p < length xs \<Longrightarrow>
     int (count_if P (xs[p := y])) = int (count_if P xs) - of_bool (P (xs ! p)) + of_bool (P y)"
proof (induction xs arbitrary: p)
  case (Cons x xs)
  then show ?case by (cases p) auto
qed simp

lemma count_if_pos: "p < length xs \<Longrightarrow> P (xs ! p) \<Longrightarrow> 0 < count_if P xs"
  by (metis filter_empty_conv length_greater_0_conv nth_mem)

definition queued :: "place \<Rightarrow> bool" where
  "queued q \<longleftrightarrow> (case q of Asleep _ \<Rightarrow> True | Woken \<Rightarrow> True | TimedOut \<Rightarrow> True | _ \<Rightarrow> False)"

lemma queued_simps [simp]:
  "queued (Asleep c)" "queued Woken" "queued TimedOut"
  "\<not> queued Fresh" "\<not> queued Looping" "\<not> queued Holding" "\<not> queued Released" "\<not> queued Unlimited" "\<not> queued Refused"
  by (simp_all add: queued_def)

definition limited :: "place \<Rightarrow> bool" where
  "limited q \<longleftrightarrow> queued q \<or> q = Looping \<or> q = Holding"

definition place_ok :: "imageConcurrencyLimiter \<Rightarrow> channels \<Rightarrow> image_request \<Rightarrow> place \<Rightarrow> bool" where
  "place_ok l h r q \<longleftrightarrow>
     (limited q \<longrightarrow> rq_enabled r \<and> 0 < rq_limit r \<and> (rq_wait r \<longrightarrow> 0 < rq_timeout r)) \<and>
     (queued q \<longrightarrow> rq_wait r) \<and>
     (\<forall>c. q = Asleep c \<longrightarrow> c \<in> ch_closed h \<or> il_notify l = Some c \<and> rq_limit r \<le> il_active l)"

definition fresh_chan :: "nat \<Rightarrow> channels \<Rightarrow> bool" where
  "fresh_chan c h \<longleftrightarrow> c < ch_next h \<and> c \<notin> ch_closed h"

definition image_inv :: "image_request list \<Rightarrow> image_world \<Rightarrow> bool" where
  "image_inv rs w \<longleftrightarrow>
     length (iw_at w) = length rs \<and>
     il_active (iw_lim w) = int (count_if (\<lambda>q. q = Holding) (iw_at w)) \<and>
     il_waiting (iw_lim w) = int (count_if queued (iw_at w)) \<and>
     (\<forall>c. il_notify (iw_lim w) = Some c \<longrightarrow> fresh_chan c (iw_chans w)) \<and>
     ch_closed (iw_chans w) \<subseteq> {..<ch_next (iw_chans w)} \<and>
     (\<forall>p<length rs. place_ok (iw_lim w) (iw_chans w) (rs ! p) (iw_at w ! p))"

lemma image_init_inv: "image_inv rs (image_init rs)"
  by (simp add: image_inv_def image_init_def new_limiter_def place_ok_def limited_def)

section \<open>The invariant\<close>

text \<open>No step takes a waiting request off its channel without closing the channel.\<close>

definition keeps_waiters ::
  "imageConcurrencyLimiter \<Rightarrow> channels \<Rightarrow> imageConcurrencyLimiter \<Rightarrow> channels \<Rightarrow> bool" where
  "keeps_waiters l h l' h' \<longleftrightarrow> ch_closed h \<subseteq> ch_closed h' \<and>
     (\<forall>c. il_notify l = Some c \<longrightarrow>
        c \<in> ch_closed h' \<or> il_notify l' = Some c \<and> il_active l \<le> il_active l')"

lemma keeps_waiters_refl [simp]: "keeps_waiters l h l h"
  by (simp add: keeps_waiters_def)

lemma place_ok_mono: "place_ok l h r q \<Longrightarrow> keeps_waiters l h l' h' \<Longrightarrow> place_ok l' h' r q"
  by (auto simp: place_ok_def keeps_waiters_def)

lemma image_inv_move:
  assumes "image_inv rs w" and "place_at w p = Some q0"
    and "il_active l = il_active (iw_lim w) - of_bool (q0 = Holding) + of_bool (q = Holding)"
    and "il_waiting l = il_waiting (iw_lim w) - of_bool (queued q0) + of_bool (queued q)"
    and "\<forall>c. il_notify l = Some c \<longrightarrow> fresh_chan c h" and "ch_closed h \<subseteq> {..<ch_next h}"
    and "keeps_waiters (iw_lim w) (iw_chans w) l h" and "place_ok l h (rs ! p) q"
  shows "image_inv rs (move p q (w \<lparr> iw_lim := l, iw_chans := h \<rparr>))"
proof -
  have p: "p < length (iw_at w)" "iw_at w ! p = q0"
    using assms(2) by (auto simp: place_at_def split: if_splits)
  have "place_ok l h (rs ! i) ((iw_at w)[p := q] ! i)" if "i < length rs" for i
    using assms(1,7,8) that p(1) place_ok_mono by (cases "i = p") (auto simp: image_inv_def)
  then show ?thesis
    using assms(1,3-6) p
      count_if_update [OF p(1), of "\<lambda>q. q = Holding" q] count_if_update [OF p(1), of queued q]
    by (simp add: image_inv_def move_def)
qed

lemma image_inv_move_only:
  assumes "image_inv rs w" and "place_at w p = Some q0" and "q0 = Holding \<longleftrightarrow> q = Holding"
    and "queued q0 \<longleftrightarrow> queued q" and "place_ok (iw_lim w) (iw_chans w) (rs ! p) q"
  shows "image_inv rs (move p q w)"
  using image_inv_move [OF assms(1,2), of "iw_lim w" q "iw_chans w"] assms
  by (simp add: image_inv_def)

lemma image_inv_place:
  "image_inv rs w \<Longrightarrow> place_at w p = Some q \<Longrightarrow>
     p < length rs \<and> place_ok (iw_lim w) (iw_chans w) (rs ! p) q"
  by (auto simp: image_inv_def place_at_def split: if_splits)

lemma image_inv_holding:
  "image_inv rs w \<Longrightarrow> place_at w p = Some Holding \<Longrightarrow> 0 < il_active (iw_lim w)"
  using count_if_pos [of p "iw_at w" "\<lambda>q. q = Holding"]
  by (auto simp: image_inv_def place_at_def split: if_splits)

lemma image_inv_queued:
  "image_inv rs w \<Longrightarrow> place_at w p = Some q \<Longrightarrow> queued q \<Longrightarrow> 0 < il_waiting (iw_lim w)"
  using count_if_pos [of p "iw_at w" queued]
  by (auto simp: image_inv_def place_at_def split: if_splits)

text \<open>The three outcomes of \<open>tryAcquireLocked\<close>.\<close>

lemma prepareLocked_cases:
  assumes "\<forall>c. il_notify l = Some c \<longrightarrow> fresh_chan c h" and "ch_closed h \<subseteq> {..<ch_next h}"
  obtains l' h' c where "prepareLocked enabled limit l h = (l', h')"
    "il_notify l' = Some c" "fresh_chan c h'" "ch_closed h' = ch_closed h" "ch_next h \<le> ch_next h'"
    "il_notify l = Some c \<or> il_notify l = None" "il_limit l' = limit" "il_active l' = il_active l"
    "il_waiting l' = il_waiting l"
proof (cases "il_notify l")
  case None
  have "ch_next h \<notin> ch_closed h" using assms(2) by auto
  then show thesis
    using that [of "fst (prepareLocked enabled limit l h)" "snd (prepareLocked enabled limit l h)" "ch_next h"] None
    by (simp add: prepareLocked_def make_chan_def fresh_chan_def)
next
  case (Some c)
  then show thesis
    using that [of "fst (prepareLocked enabled limit l h)" "snd (prepareLocked enabled limit l h)" c] assms(1)
    by (simp add: prepareLocked_def)
qed

lemma tryAcquireLocked_cases:
  assumes "tryAcquireLocked enabled limit wait maxWaiting l h = (res, l', h')"
    and "\<forall>c. il_notify l = Some c \<longrightarrow> fresh_chan c h" and "ch_closed h \<subseteq> {..<ch_next h}"
  obtains c where "il_notify l' = Some c" "fresh_chan c h'" "ch_closed h' = ch_closed h" "ch_next h \<le> ch_next h'"
    "il_notify l = Some c \<or> il_notify l = None" "il_limit l' = limit"
    "il_active l < limit \<and> res = (True, True, False, None) \<and>
       il_active l' = il_active l + 1 \<and> il_waiting l' = il_waiting l \<or>
     limit \<le> il_active l \<and> (wait \<longrightarrow> 0 < maxWaiting \<and> maxWaiting \<le> il_waiting l) \<and>
       res = (False, False, False, None) \<and> il_active l' = il_active l \<and> il_waiting l' = il_waiting l \<or>
     limit \<le> il_active l \<and> wait \<and> (0 < maxWaiting \<longrightarrow> il_waiting l < maxWaiting) \<and>
       res = (False, False, True, Some c) \<and> il_active l' = il_active l \<and> il_waiting l' = il_waiting l + 1"
proof -
  obtain l1 h1 c where p: "prepareLocked enabled limit l h = (l1, h1)"
    and c: "il_notify l1 = Some c" "fresh_chan c h1" "ch_closed h1 = ch_closed h" "ch_next h \<le> ch_next h1"
      "il_notify l = Some c \<or> il_notify l = None" "il_limit l1 = limit" "il_active l1 = il_active l"
      "il_waiting l1 = il_waiting l"
    by (rule prepareLocked_cases [OF assms(2,3)])
  note t = assms(1) [unfolded tryAcquireLocked_def p Let_def prod.case c(6,7)]
  consider "il_active l < limit"
    | "\<not> il_active l < limit" "wait \<longrightarrow> 0 < maxWaiting \<and> maxWaiting \<le> il_waiting l"
    | "\<not> il_active l < limit" "wait" "\<not> (0 < maxWaiting \<and> maxWaiting \<le> il_waiting l)"
    by blast
  then show thesis
  proof cases
    case 1
    then have "res = (True, True, False, None)" "l' = l1 \<lparr> il_active := il_active l + 1 \<rparr>" "h' = h1"
      using t by simp_all
    then show thesis using that [of c] c 1 by simp
  next
    case 2
    then have "res = (False, False, False, None)" "l' = l1" "h' = h1"
      using t c(8) by (cases wait; simp)+
    then show thesis using that [of c] c 2 by simp
  next
    case 3
    then have "res = (False, False, True, Some c)" "l' = l1 \<lparr> il_waiting := il_waiting l + 1 \<rparr>" "h' = h1"
      using t c(1,8) by auto
    then show thesis using that [of c] c 3 by (simp add: not_le)
  qed
qed

lemma try_inv:
  assumes "image_inv rs w" and "image_step rs (Try p) w = Some w'"
  shows "image_inv rs w'"
proof -
  have p: "place_at w p = Some Looping" using assms(2) by (auto split: if_splits)
  let ?r = "rs ! p" and ?m = "if rq_maxWaiting (rs ! p) < 0 then 0 else rq_maxWaiting (rs ! p)"
  obtain res l h where t: "tryAcquireLocked (rq_enabled ?r) (rq_limit ?r) (rq_wait ?r) ?m (iw_lim w) (iw_chans w)
      = (res, l, h)" by (metis prod_cases3)
  then have w': "w' = move p (acquire_tried (rq_wait ?r) res) (w \<lparr> iw_lim := l, iw_chans := h \<rparr>)"
    using assms(2) p by (simp add: Let_def)
  have nc: "\<forall>c. il_notify (iw_lim w) = Some c \<longrightarrow> fresh_chan c (iw_chans w)"
    "ch_closed (iw_chans w) \<subseteq> {..<ch_next (iw_chans w)}" using assms(1) by (simp_all add: image_inv_def)
  have ok: "place_ok (iw_lim w) (iw_chans w) ?r Looping" using image_inv_place [OF assms(1) p] by simp
  obtain c where c: "il_notify l = Some c" "fresh_chan c h" "ch_closed h = ch_closed (iw_chans w)"
      "ch_next (iw_chans w) \<le> ch_next h" "il_notify (iw_lim w) = Some c \<or> il_notify (iw_lim w) = None"
    and d: "il_active (iw_lim w) < rq_limit ?r \<and> res = (True, True, False, None) \<and>
        il_active l = il_active (iw_lim w) + 1 \<and> il_waiting l = il_waiting (iw_lim w) \<or>
      res = (False, False, False, None) \<and>
        il_active l = il_active (iw_lim w) \<and> il_waiting l = il_waiting (iw_lim w) \<or>
      rq_limit ?r \<le> il_active (iw_lim w) \<and> rq_wait ?r \<and> res = (False, False, True, Some c) \<and>
        il_active l = il_active (iw_lim w) \<and> il_waiting l = il_waiting (iw_lim w) + 1"
    by (rule tryAcquireLocked_cases [OF t nc]) blast
  have k: "keeps_waiters (iw_lim w) (iw_chans w) l h"
  proof -
    have "il_active (iw_lim w) \<le> il_active l" using d by (elim disjE) simp_all
    then show ?thesis
      using c(1,3,5) by (cases "il_notify (iw_lim w)") (simp_all add: keeps_waiters_def)
  qed
  have n: "\<forall>c. il_notify l = Some c \<longrightarrow> fresh_chan c h" "ch_closed h \<subseteq> {..<ch_next h}"
    using c nc(2) by auto
  let ?q = "acquire_tried (rq_wait ?r) res"
  have q: "il_active l = il_active (iw_lim w) + of_bool (?q = Holding)"
    "il_waiting l = il_waiting (iw_lim w) + of_bool (queued ?q)"
    using d by (elim disjE; simp add: acquire_tried_def)+
  have "place_ok l h ?r ?q"
    using d by (elim disjE) (use ok c(1) in \<open>simp_all add: acquire_tried_def place_ok_def limited_def\<close>)
  then show ?thesis
    unfolding w' using image_inv_move [OF assms(1) p _ _ n k, of ?q] q by simp
qed

lemma release_inv:
  assumes "image_inv rs w" and "image_step rs (Release p) w = Some w'"
  shows "image_inv rs w'"
proof -
  have p: "place_at w p = Some Holding" using assms(2) by (auto split: if_splits)
  obtain once l h where t: "releaseFunc False (iw_lim w) (iw_chans w) = (once, l, h)" by (metis prod_cases3)
  then have w': "w' = move p Released (w \<lparr> iw_lim := l, iw_chans := h \<rparr>)"
    using assms(2) p by simp
  have nc: "\<forall>c. il_notify (iw_lim w) = Some c \<longrightarrow> fresh_chan c (iw_chans w)"
    "ch_closed (iw_chans w) \<subseteq> {..<ch_next (iw_chans w)}" using assms(1) by (simp_all add: image_inv_def)
  have "il_active l = il_active (iw_lim w) - 1" "il_waiting l = il_waiting (iw_lim w)"
    "\<forall>c. il_notify l = Some c \<longrightarrow> fresh_chan c h" "ch_closed h \<subseteq> {..<ch_next h}"
    "keeps_waiters (iw_lim w) (iw_chans w) l h"
    using t nc image_inv_holding [OF assms(1) p]
    by (auto simp: releaseFunc_def Let_def make_chan_def close_chan_def keeps_waiters_def fresh_chan_def subset_iff less_Suc_eq
        split: option.splits)
  then show ?thesis
    unfolding w' by (intro image_inv_move [OF assms(1) p]) (auto simp: place_ok_def limited_def)
qed

lemma unwait_inv:
  assumes "image_inv rs w" and "image_step rs (Unwait p) w = Some w'"
  shows "image_inv rs w'"
proof -
  obtain q where p: "place_at w p = Some q" and q: "q = Woken \<or> q = TimedOut"
    using assms(2) by (auto split: option.splits place.splits)
  let ?q = "if q = Woken then Looping else Refused"
  let ?l = "snd (waiterReleaseFunc False (iw_lim w))"
  have w': "w' = move p ?q (w \<lparr> iw_lim := ?l, iw_chans := iw_chans w \<rparr>)"
    using assms(2) p q by auto
  have l: "il_waiting ?l = il_waiting (iw_lim w) - 1" "il_active ?l = il_active (iw_lim w)"
    "il_notify ?l = il_notify (iw_lim w)"
    using image_inv_queued [OF assms(1) p] q by (auto simp: waiterReleaseFunc_def)
  have n: "\<forall>c. il_notify ?l = Some c \<longrightarrow> fresh_chan c (iw_chans w)"
    "ch_closed (iw_chans w) \<subseteq> {..<ch_next (iw_chans w)}" using assms(1) l by (simp_all add: image_inv_def)
  have "place_ok ?l (iw_chans w) (rs ! p) ?q"
    using q image_inv_place [OF assms(1) p] by (auto simp: place_ok_def limited_def)
  then show ?thesis
    unfolding w' using q l by (intro image_inv_move [OF assms(1) p] n) (auto simp: keeps_waiters_def)
qed

lemma image_step_inv:
  assumes "image_inv rs w" and "image_step rs a w = Some w'"
  shows "image_inv rs w'"
proof (cases a)
  case (Enter p)
  then have "place_at w p = Some Fresh" "w' = move p (acquire_entry (rs ! p)) w"
    using assms(2) by (auto split: if_splits)
  then show ?thesis
    using image_inv_move_only [OF assms(1), of p Fresh "acquire_entry (rs ! p)"]
    by (auto simp: acquire_entry_def place_ok_def limited_def split: if_splits)
next
  case (Try p)
  then show ?thesis using try_inv assms by simp
next
  case (Wake p)
  then obtain c where "place_at w p = Some (Asleep c)" "w' = move p Woken w"
    using assms(2) by (auto split: option.splits place.splits if_splits)
  then show ?thesis
    using image_inv_move_only [OF assms(1), of p "Asleep c" Woken] image_inv_place [OF assms(1)]
    by (auto simp: place_ok_def limited_def)
next
  case (Timeout p)
  then obtain c where "place_at w p = Some (Asleep c)" "w' = move p TimedOut w"
    using assms(2) by (auto split: option.splits place.splits if_splits)
  then show ?thesis
    using image_inv_move_only [OF assms(1), of p "Asleep c" TimedOut] image_inv_place [OF assms(1)]
    by (auto simp: place_ok_def limited_def)
next
  case (Unwait p)
  then show ?thesis using unwait_inv assms by simp
next
  case (Release p)
  then show ?thesis using release_inv assms by simp
next
  case (ReleaseAgain p)
  then show ?thesis using assms by (auto simp: releaseFunc_def split: if_splits)
qed

lemma image_run_inv:
  "image_inv rs w \<Longrightarrow> image_run rs as w = Some w' \<Longrightarrow> image_inv rs w'"
  by (induction as arbitrary: w) (auto simp: bind_eq_Some_conv intro: image_step_inv)

section \<open>A counting semaphore\<close>

text \<open>
  The specification: the set of the requests that hold a slot, which grows by one request when the
  number of holders is below the limit that request asks for, and loses one holder at a time.
\<close>

inductive sem_step :: "(nat \<Rightarrow> int) \<Rightarrow> nat set \<Rightarrow> nat set \<Rightarrow> bool" for limit where
  sem_stutter: "sem_step limit H H"
| sem_grant: "p \<notin> H \<Longrightarrow> int (card H) < limit p \<Longrightarrow> sem_step limit H (insert p H)"
| sem_drop: "p \<in> H \<Longrightarrow> sem_step limit H (H - {p})"

locale counting_semaphore =
  fixes step :: "'a \<Rightarrow> 's \<Rightarrow> 's option" and inv :: "'s \<Rightarrow> bool"
    and holders :: "'s \<Rightarrow> nat set" and limit :: "nat \<Rightarrow> int"
  assumes finite_holders: "inv s \<Longrightarrow> finite (holders s)"
    and inv_step: "inv s \<Longrightarrow> step a s = Some s' \<Longrightarrow> inv s'"
    and refines: "inv s \<Longrightarrow> step a s = Some s' \<Longrightarrow> sem_step limit (holders s) (holders s')"
begin

lemma bounded_step:
  assumes "inv s" and "step a s = Some s'" and "\<And>p. p \<in> holders s' \<Longrightarrow> limit p \<le> L"
    and "int (card (holders s)) \<le> L"
  shows "int (card (holders s')) \<le> L"
proof -
  have fin: "finite (holders s)" by (rule finite_holders [OF assms(1)])
  show ?thesis
    using refines [OF assms(1,2)]
  proof (cases rule: sem_step.cases)
    case sem_stutter
    then show ?thesis using assms(4) by simp
  next
    case (sem_grant p)
    then show ?thesis using assms(3) [of p] fin by simp
  next
    case (sem_drop p)
    then show ?thesis using assms(4) fin card_Diff1_le [of "holders s" p] by simp
  qed
qed

end

definition image_holders :: "image_world \<Rightarrow> nat set" where
  "image_holders w = {p. place_at w p = Some Holding}"

lemma card_image_holders: "card (image_holders w) = count_if (\<lambda>q. q = Holding) (iw_at w)"
proof -
  have "image_holders w = {p. p < length (iw_at w) \<and> iw_at w ! p = Holding}"
    by (auto simp: image_holders_def place_at_def)
  then show ?thesis by (simp add: length_filter_conv_card)
qed

lemma finite_image_holders [simp]: "finite (image_holders w)"
  by (rule finite_subset [of _ "{..<length (iw_at w)}"]) (auto simp: image_holders_def place_at_def split: if_splits)

lemma at_move [simp]: "place_at (move p q w) p' = (if p' = p \<and> place_at w p \<noteq> None then Some q else place_at w p')"
  by (auto simp: place_at_def move_def)

lemma at_lim [simp]: "place_at (w \<lparr> iw_lim := l \<rparr>) p = place_at w p" "place_at (w \<lparr> iw_chans := h \<rparr>) p = place_at w p"
  by (simp_all add: place_at_def)

lemma image_holders_move:
  "place_at w p \<noteq> None \<Longrightarrow>
     image_holders (move p q w) = (if q = Holding then insert p (image_holders w) else image_holders w - {p})"
  by (auto simp: image_holders_def)

lemma image_holders_other: "place_at w p = Some q \<Longrightarrow> q \<noteq> Holding \<Longrightarrow> image_holders w - {p} = image_holders w"
  by (auto simp: image_holders_def)

lemma image_holders_lim [simp]:
  "image_holders (w \<lparr> iw_lim := l \<rparr>) = image_holders w" "image_holders (w \<lparr> iw_chans := h \<rparr>) = image_holders w"
  by (simp_all add: image_holders_def)

text \<open>A try grants a slot exactly when fewer requests hold one than it asks for.\<close>

lemma image_try:
  assumes "image_inv rs w" and "image_step rs (Try p) w = Some w'"
  shows "place_at w p = Some Looping"
    and "int (card (image_holders w)) < rq_limit (rs ! p) \<Longrightarrow> image_holders w' = insert p (image_holders w)"
    and "\<not> int (card (image_holders w)) < rq_limit (rs ! p) \<Longrightarrow> image_holders w' = image_holders w"
    and "\<not> int (card (image_holders w)) < rq_limit (rs ! p) \<Longrightarrow> rq_wait (rs ! p) \<Longrightarrow> rq_maxWaiting (rs ! p) \<le> 0 \<Longrightarrow>
      place_at w' p \<noteq> Some Refused"
proof -
  show p: "place_at w p = Some Looping" using assms(2) by (auto split: if_splits)
  let ?r = "rs ! p" and ?m = "if rq_maxWaiting (rs ! p) < 0 then 0 else rq_maxWaiting (rs ! p)"
  obtain res l h where t: "tryAcquireLocked (rq_enabled ?r) (rq_limit ?r) (rq_wait ?r) ?m (iw_lim w) (iw_chans w)
      = (res, l, h)" by (metis prod_cases3)
  let ?q = "acquire_tried (rq_wait ?r) res"
  have w': "w' = move p ?q (w \<lparr> iw_lim := l, iw_chans := h \<rparr>)" using assms(2) p t by (simp add: Let_def)
  have act: "il_active (iw_lim w) = int (card (image_holders w))"
    using assms(1) by (simp add: image_inv_def card_image_holders)
  have nc: "\<forall>c. il_notify (iw_lim w) = Some c \<longrightarrow> fresh_chan c (iw_chans w)"
    "ch_closed (iw_chans w) \<subseteq> {..<ch_next (iw_chans w)}" using assms(1) by (simp_all add: image_inv_def)
  have q: "?q = Holding \<longleftrightarrow> int (card (image_holders w)) < rq_limit ?r"
    and r: "?q = Refused \<Longrightarrow> rq_wait ?r \<Longrightarrow> 0 < ?m"
    unfolding act [symmetric]
    by (rule tryAcquireLocked_cases [OF t nc]; elim disjE; simp add: acquire_tried_def)+
  have h: "image_holders w' = (if ?q = Holding then insert p (image_holders w) else image_holders w)"
    using p image_holders_other [OF p] by (simp add: w' image_holders_move)
  show "int (card (image_holders w)) < rq_limit (rs ! p) \<Longrightarrow> image_holders w' = insert p (image_holders w)"
    and "\<not> int (card (image_holders w)) < rq_limit (rs ! p) \<Longrightarrow> image_holders w' = image_holders w"
    using h q by simp_all
  show "place_at w' p \<noteq> Some Refused" if "rq_wait ?r" "rq_maxWaiting ?r \<le> 0"
    using r that p by (auto simp: w' split: if_splits)
qed

lemma image_step_refines:
  assumes "image_inv rs w" and "image_step rs a w = Some w'"
  shows "sem_step (\<lambda>p. rq_limit (rs ! p)) (image_holders w) (image_holders w')"
proof -
  have stutter: "sem_step (\<lambda>p. rq_limit (rs ! p)) (image_holders w) (image_holders (move p q w))"
    if "place_at w p = Some q0" "q0 \<noteq> Holding" "q \<noteq> Holding" for p q q0
    using that image_holders_other [OF that(1)] by (simp add: image_holders_move sem_stutter)
  show ?thesis
  proof (cases a)
    case (Enter p)
    then show ?thesis
      using assms(2) stutter [of p Fresh "acquire_entry (rs ! p)"]
      by (auto simp: acquire_entry_def split: if_splits)
  next
    case (Try p)
    note t = image_try [OF assms(1) assms(2) [unfolded Try]]
    show ?thesis
    proof (cases "int (card (image_holders w)) < rq_limit (rs ! p)")
      case True
      have "p \<notin> image_holders w" using t(1) by (simp add: image_holders_def)
      then show ?thesis using t(2) [OF True] sem_grant [of p "image_holders w" "\<lambda>p. rq_limit (rs ! p)"] True by simp
    next
      case False
      then show ?thesis using t(3) by (simp add: sem_stutter)
    qed
  next
    case (Wake p)
    then show ?thesis
      using assms(2) stutter by (auto split: option.splits place.splits if_splits)
  next
    case (Timeout p)
    then show ?thesis
      using assms(2) stutter by (auto split: option.splits place.splits if_splits)
  next
    case (Unwait p)
    then show ?thesis
      using assms(2) stutter by (auto simp: image_holders_move image_holders_other sem_stutter
        split: option.splits place.splits)
  next
    case (Release p)
    then have p: "place_at w p = Some Holding" using assms(2) by (auto split: if_splits)
    with assms(2) Release have "image_holders w' = image_holders w - {p}"
      by (auto simp: image_holders_move split: prod.splits)
    then show ?thesis using sem_drop [of p "image_holders w"] p by (simp add: image_holders_def)
  next
    case (ReleaseAgain p)
    then show ?thesis using assms(2) by (auto simp: releaseFunc_def sem_stutter split: if_splits)
  qed
qed

interpretation image_sem: counting_semaphore "image_step rs" "image_inv rs" image_holders "\<lambda>p. rq_limit (rs ! p)"
  for rs
  by unfold_locales (auto intro: image_step_inv image_step_refines)

section \<open>Progress\<close>

definition ended :: "place \<Rightarrow> bool" where
  "ended q \<longleftrightarrow> q = Released \<or> q = Unlimited \<or> q = Refused"

definition rank :: "nat set \<Rightarrow> place \<Rightarrow> nat" where
  "rank cl q = (case q of
       Fresh \<Rightarrow> 4 | Looping \<Rightarrow> 3 | Asleep c \<Rightarrow> (if c \<in> cl then 5 else 2)
     | Woken \<Rightarrow> 4 | TimedOut \<Rightarrow> 1 | _ \<Rightarrow> 0)"

definition potential :: "image_world \<Rightarrow> nat" where
  "potential w = (3 * length (iw_at w) + 1) * count_if (\<lambda>q. \<not> ended q) (iw_at w) +
     sum_list (map (rank (ch_closed (iw_chans w))) (iw_at w))"

lemma sum_rank_mono: "sum_list (map (rank cl') qs) \<le> sum_list (map (rank cl) qs) + 3 * length qs"
  by (induction qs) (auto simp: rank_def split: place.splits)

lemma sum_list_update_rank:
  "p < length qs \<Longrightarrow>
     sum_list (map (f :: place \<Rightarrow> nat) (qs[p := q])) + f (qs ! p) = sum_list (map f qs) + f q"
proof (induction qs arbitrary: p)
  case (Cons x qs)
  then show ?case by (cases p) auto
qed simp

lemma potential_move:
  assumes "place_at w p = Some q0" and "rank (ch_closed (iw_chans w)) q < rank (ch_closed (iw_chans w)) q0"
    and "\<not> ended q0" and "ch_closed h = ch_closed (iw_chans w)"
  shows "potential (move p q (w \<lparr> iw_lim := l, iw_chans := h \<rparr>)) < potential w"
proof -
  have p: "p < length (iw_at w)" "iw_at w ! p = q0" using assms(1) by (auto simp: place_at_def split: if_splits)
  let ?c = "count_if (\<lambda>q. \<not> ended q)"
  have "?c ((iw_at w)[p := q]) \<le> ?c (iw_at w)"
    using count_if_update [OF p(1), of "\<lambda>q. \<not> ended q" q] assms(3) p(2) by (cases "ended q") simp_all
  then have "(3 * length (iw_at w) + 1) * ?c ((iw_at w)[p := q]) \<le> (3 * length (iw_at w) + 1) * ?c (iw_at w)"
    by (rule mult_le_mono2)
  then show ?thesis
    using sum_list_update_rank [OF p(1), of "rank (ch_closed (iw_chans w))" q] assms(2,4) p(2)
    by (simp add: potential_def move_def)
qed

lemma potential_move_only:
  assumes "place_at w p = Some q0" and "rank (ch_closed (iw_chans w)) q < rank (ch_closed (iw_chans w)) q0"
    and "\<not> ended q0"
  shows "potential (move p q w) < potential w"
  using potential_move [OF assms, of "iw_chans w" "iw_lim w"] by simp

lemma potential_release:
  assumes "place_at w p = Some Holding"
  shows "potential (move p Released (w \<lparr> iw_lim := l, iw_chans := h \<rparr>)) < potential w"
proof -
  have p: "p < length (iw_at w)" "iw_at w ! p = Holding" using assms by (auto simp: place_at_def split: if_splits)
  let ?c = "count_if (\<lambda>q. \<not> ended q)" and ?n = "length (iw_at w)" and ?qs = "(iw_at w)[p := Released]"
  have c: "?c (iw_at w) = Suc (?c ?qs)"
    using count_if_update [OF p(1), of "\<lambda>q. \<not> ended q" Released] p(2) by (simp add: ended_def)
  have "sum_list (map (rank (ch_closed h)) ?qs) \<le> sum_list (map (rank (ch_closed (iw_chans w))) ?qs) + 3 * ?n"
    using sum_rank_mono [of "ch_closed h" ?qs "ch_closed (iw_chans w)"] by simp
  moreover have "sum_list (map (rank (ch_closed (iw_chans w))) ?qs) =
      sum_list (map (rank (ch_closed (iw_chans w))) (iw_at w))"
    using sum_list_update_rank [OF p(1), of "rank (ch_closed (iw_chans w))" Released] p(2) by (simp add: rank_def)
  ultimately show ?thesis by (simp add: potential_def move_def c)
qed

lemma image_step_potential:
  assumes "image_inv rs w" and "image_step rs a w = Some w'" and "\<forall>p. a \<noteq> ReleaseAgain p"
  shows "potential w' < potential w"
proof (cases a)
  case (Enter p)
  then show ?thesis
    using assms(2) potential_move_only [of w p Fresh "acquire_entry (rs ! p)"]
    by (auto simp: acquire_entry_def rank_def ended_def split: if_splits)
next
  case (Try p)
  then have p: "place_at w p = Some Looping" using assms(2) by (auto split: if_splits)
  let ?r = "rs ! p" and ?m = "if rq_maxWaiting (rs ! p) < 0 then 0 else rq_maxWaiting (rs ! p)"
  obtain res l h where t: "tryAcquireLocked (rq_enabled ?r) (rq_limit ?r) (rq_wait ?r) ?m (iw_lim w) (iw_chans w)
      = (res, l, h)" by (metis prod_cases3)
  have w': "w' = move p (acquire_tried (rq_wait ?r) res) (w \<lparr> iw_lim := l, iw_chans := h \<rparr>)"
    using assms(2) p t Try by (simp add: Let_def)
  have nc: "\<forall>c. il_notify (iw_lim w) = Some c \<longrightarrow> fresh_chan c (iw_chans w)"
    "ch_closed (iw_chans w) \<subseteq> {..<ch_next (iw_chans w)}" using assms(1) by (simp_all add: image_inv_def)
  show ?thesis
    unfolding w'
    by (rule tryAcquireLocked_cases [OF t nc]; rule potential_move [OF p]; (elim disjE)?)
      (simp_all add: rank_def acquire_tried_def ended_def fresh_chan_def)
next
  case (Wake p)
  then obtain c where "place_at w p = Some (Asleep c)" "w' = move p Woken w" "c \<in> ch_closed (iw_chans w)"
    using assms(2) by (auto simp: waitForSlot_def split: option.splits place.splits if_splits)
  then show ?thesis using potential_move_only [of w p "Asleep c" Woken] by (simp add: rank_def ended_def)
next
  case (Timeout p)
  then obtain c where "place_at w p = Some (Asleep c)" "w' = move p TimedOut w"
    using assms(2) by (auto split: option.splits place.splits if_splits)
  then show ?thesis using potential_move_only [of w p "Asleep c" TimedOut] by (simp add: rank_def ended_def)
next
  case (Unwait p)
  let ?l = "snd (waiterReleaseFunc False (iw_lim w))"
  consider "place_at w p = Some Woken" "w' = move p Looping (w \<lparr> iw_lim := ?l, iw_chans := iw_chans w \<rparr>)"
    | "place_at w p = Some TimedOut" "w' = move p Refused (w \<lparr> iw_lim := ?l, iw_chans := iw_chans w \<rparr>)"
    using assms(2) Unwait by (auto split: option.splits place.splits)
  then show ?thesis
  proof cases
    case 1
    then show ?thesis
      using potential_move [OF 1(1), of Looping "iw_chans w" ?l] by (simp add: rank_def ended_def)
  next
    case 2
    then show ?thesis
      using potential_move [OF 2(1), of Refused "iw_chans w" ?l] by (simp add: rank_def ended_def)
  qed
next
  case (Release p)
  then show ?thesis
    using assms(2) potential_release by (auto split: if_splits prod.splits)
next
  case (ReleaseAgain p)
  then show ?thesis using assms(3) by simp
qed

lemma image_run_potential:
  "image_inv rs w \<Longrightarrow> image_run rs as w = Some w' \<Longrightarrow> \<forall>p. ReleaseAgain p \<notin> set as \<Longrightarrow>
     length as + potential w' \<le> potential w"
proof (induction as arbitrary: w)
  case (Cons a as)
  then obtain w1 where w1: "image_step rs a w = Some w1" "image_run rs as w1 = Some w'"
    by (auto simp: bind_eq_Some_conv)
  have "potential w1 < potential w" using image_step_potential [OF Cons.prems(1) w1(1)] Cons.prems(3) by auto
  moreover have "length as + potential w' \<le> potential w1"
    using Cons.IH [OF image_step_inv [OF Cons.prems(1) w1(1)] w1(2)] Cons.prems(3) by auto
  ultimately show ?case by simp
qed simp

lemma potential_init: "potential (image_init rs) = length rs * (3 * length rs + 5)"
proof -
  have "count_if (\<lambda>q. \<not> ended q) (replicate n Fresh) = n" for n
    by (induction n) (auto simp: ended_def)
  moreover have "sum_list (map (rank {}) (replicate n Fresh)) = 4 * n" for n
    by (induction n) (auto simp: rank_def)
  ultimately show ?thesis by (simp add: potential_def image_init_def algebra_simps)
qed

text \<open>No request can move any more, unless its context ends or it calls its release function again.\<close>

definition image_stuck :: "image_request list \<Rightarrow> image_world \<Rightarrow> bool" where
  "image_stuck rs w \<longleftrightarrow> (\<forall>p < length rs. image_step rs (Enter p) w = None \<and> image_step rs (Try p) w = None \<and>
     image_step rs (Wake p) w = None \<and> image_step rs (Unwait p) w = None \<and> image_step rs (Release p) w = None)"

lemma holder_exists:
  assumes "image_inv rs w" and "0 < il_active (iw_lim w)"
  obtains p where "p < length rs" and "place_at w p = Some Holding"
proof -
  have "filter (\<lambda>q. q = Holding) (iw_at w) \<noteq> []" using assms by (auto simp: image_inv_def)
  then have "Holding \<in> set (iw_at w)" by (auto simp: filter_empty_conv)
  then obtain p where "p < length (iw_at w)" "iw_at w ! p = Holding" by (auto simp: in_set_conv_nth)
  then show thesis using that assms(1) by (auto simp: place_at_def image_inv_def)
qed

lemma image_stuck_ended:
  assumes "image_inv rs w" and "image_stuck rs w" and "p < length rs"
  shows "\<exists>q. place_at w p = Some q \<and> ended q"
proof -
  have no_holder: "place_at w p' \<noteq> Some Holding" if "p' < length rs" for p'
    using assms(2) that by (auto simp: image_stuck_def split: prod.splits)
  obtain q where q: "place_at w p = Some q" using assms(1,3) by (auto simp: place_at_def image_inv_def)
  have "ended q"
  proof (cases q)
    case (Asleep c)
    then have "c \<notin> ch_closed (iw_chans w)"
      using assms(2,3) q by (auto simp: image_stuck_def waitForSlot_def)
    then have "0 < il_active (iw_lim w)"
      using image_inv_place [OF assms(1) q] Asleep by (auto simp: place_ok_def limited_def)
    then show ?thesis using holder_exists [OF assms(1)] no_holder by blast
  qed (use assms(2,3) q no_holder in \<open>auto simp: image_stuck_def ended_def Let_def split: prod.splits\<close>)
  with q show ?thesis by blast
qed

text \<open>A request that is prepared to wait is never turned away while its context lives.\<close>

definition patient :: "image_request \<Rightarrow> bool" where
  "patient r \<longleftrightarrow> rq_enabled r \<and> 0 < rq_limit r \<and> rq_wait r \<and> 0 < rq_timeout r \<and> rq_maxWaiting r \<le> 0"

lemma patient_step:
  assumes "image_inv rs w" and "image_step rs a w = Some w'" and "a \<noteq> Timeout p" and "patient (rs ! p)"
    and "place_at w p \<noteq> Some TimedOut" and "place_at w p \<noteq> Some Refused" and "place_at w p \<noteq> Some Unlimited"
  shows "place_at w' p \<noteq> Some TimedOut \<and> place_at w' p \<noteq> Some Refused \<and> place_at w' p \<noteq> Some Unlimited"
proof (cases "a = Try p")
  case True
  note t = image_try [OF assms(1) assms(2) [unfolded True]]
  have "place_at w' p \<noteq> Some Refused"
  proof (cases "int (card (image_holders w)) < rq_limit (rs ! p)")
    case True
    then have "p \<in> image_holders w'" using t(2) by simp
    then show ?thesis by (simp add: image_holders_def)
  next
    case False
    then show ?thesis using t(4) assms(4) by (simp add: patient_def)
  qed
  moreover have "place_at w' p \<noteq> Some TimedOut \<and> place_at w' p \<noteq> Some Unlimited"
    using assms(2) True
    by (auto simp: acquire_tried_def Let_def split: if_splits prod.splits option.splits)
  ultimately show ?thesis by simp
next
  case False
  then show ?thesis
    using assms(2-)
    by (cases a) (auto simp: patient_def acquire_entry_def releaseFunc_def Let_def
        split: if_splits prod.splits option.splits place.splits)
qed

lemma patient_run:
  "image_inv rs w \<Longrightarrow> image_run rs as w = Some w' \<Longrightarrow> Timeout p \<notin> set as \<Longrightarrow> patient (rs ! p) \<Longrightarrow>
   place_at w p \<noteq> Some TimedOut \<Longrightarrow> place_at w p \<noteq> Some Refused \<Longrightarrow> place_at w p \<noteq> Some Unlimited \<Longrightarrow>
     place_at w' p \<noteq> Some TimedOut \<and> place_at w' p \<noteq> Some Refused \<and> place_at w' p \<noteq> Some Unlimited"
proof (induction as arbitrary: w)
  case (Cons a as)
  then obtain w1 where w1: "image_step rs a w = Some w1" "image_run rs as w1 = Some w'"
    by (auto simp: bind_eq_Some_conv)
  have "a \<noteq> Timeout p" using Cons.prems(3) by auto
  then show ?case
    using Cons.IH [OF image_step_inv [OF Cons.prems(1) w1(1)] w1(2)] Cons.prems(3)
      patient_step [OF Cons.prems(1) w1(1) _ Cons.prems(4-7)] Cons.prems(4) by simp
qed simp

section \<open>Guarantees\<close>

lemma image_try_iff:
  assumes "image_inv rs w" and "image_step rs (Try p) w = Some w'"
  shows "p \<in> image_holders w' \<longleftrightarrow> int (card (image_holders w)) < rq_limit (rs ! p)"
proof -
  note t = image_try [OF assms]
  have "p \<notin> image_holders w" using t(1) by (simp add: image_holders_def)
  then show ?thesis using t(2,3) by blast
qed

lemma image_holders_init: "image_holders (image_init rs) = {}"
  by (auto simp: image_holders_def image_init_def place_at_def)

lemma image_run_bounded:
  assumes "image_inv rs v" and "image_run rs as v = Some w"
    and "\<forall>r \<in> set rs. rq_limit r \<le> L" and "int (card (image_holders v)) \<le> L"
  shows "int (card (image_holders w)) \<le> L"
  using assms(1,2,4)
proof (induction as arbitrary: v)
  case (Cons a as)
  then obtain v1 where v1: "image_step rs a v = Some v1" "image_run rs as v1 = Some w"
    by (auto simp: bind_eq_Some_conv)
  have inv1: "image_inv rs v1" by (rule image_step_inv [OF Cons.prems(1) v1(1)])
  have "rq_limit (rs ! p) \<le> L" if "p \<in> image_holders v1" for p
    using that image_inv_place [OF inv1] assms(3) by (auto simp: image_holders_def)
  then show ?case
    using Cons.IH [OF inv1 v1(2)] image_sem.bounded_step [OF Cons.prems(1) v1(1) _ Cons.prems(3)] by blast
qed simp

text \<open>
  Property C31 (refinement). The image limiter is a counting semaphore. In every state that any
  interleaving of requests reaches, \<open>active\<close> is the number of requests that hold a slot and
  \<open>waiting\<close> the number of requests in the queue; every further step leaves the set of holders
  alone, removes one holder, or adds one request while fewer requests than that request's own
  limit hold a slot; a try succeeds exactly in that case; and while no holder asked for more than
  \<open>L\<close>, at most \<open>L\<close> requests hold a slot.
\<close>

theorem image_limiter_refines_semaphore:
  assumes "image_run rs as (image_init rs) = Some w"
  shows "il_active (iw_lim w) = int (card (image_holders w)) \<and>
    il_waiting (iw_lim w) = int (length (filter queued (iw_at w))) \<and>
    (\<forall>a w'. image_step rs a w = Some w' \<longrightarrow>
      sem_step (\<lambda>p. rq_limit (rs ! p)) (image_holders w) (image_holders w')) \<and>
    (\<forall>p w'. image_step rs (Try p) w = Some w' \<longrightarrow>
      (p \<in> image_holders w' \<longleftrightarrow> int (card (image_holders w)) < rq_limit (rs ! p))) \<and>
    (\<forall>L. (\<forall>r \<in> set rs. rq_limit r \<le> L) \<and> 0 \<le> L \<longrightarrow> int (card (image_holders w)) \<le> L)"
proof -
  have inv: "image_inv rs w" by (rule image_run_inv [OF image_init_inv assms])
  have "il_active (iw_lim w) = int (card (image_holders w))"
    and "il_waiting (iw_lim w) = int (length (filter queued (iw_at w)))"
    using inv by (simp_all add: image_inv_def card_image_holders)
  moreover have "\<forall>a w'. image_step rs a w = Some w' \<longrightarrow>
      sem_step (\<lambda>p. rq_limit (rs ! p)) (image_holders w) (image_holders w')"
    using image_sem.refines [OF inv] by blast
  moreover have "\<forall>p w'. image_step rs (Try p) w = Some w' \<longrightarrow>
      (p \<in> image_holders w' \<longleftrightarrow> int (card (image_holders w)) < rq_limit (rs ! p))"
    using image_try_iff [OF inv] by blast
  moreover have "\<forall>L. (\<forall>r \<in> set rs. rq_limit r \<le> L) \<and> 0 \<le> L \<longrightarrow> int (card (image_holders w)) \<le> L"
    using image_run_bounded [OF image_init_inv assms] by (simp add: image_holders_init)
  ultimately show ?thesis by blast
qed

definition example_request :: image_request where
  "example_request = \<lparr> rq_enabled = True, rq_limit = 1, rq_wait = True, rq_timeout = Second, rq_maxWaiting = 0 \<rparr>"

definition example_actions :: "image_action list" where
  "example_actions = [Enter 0, Enter 1, Try 0, Try 1, Release 0, Wake 1, Unwait 1, Try 1]"

theorem image_limiter_refines_semaphore_witness:
  "let rs = [example_request, example_request];
       w = the (image_run rs example_actions (image_init rs))
   in il_active (iw_lim w) = int (card (image_holders w)) \<and> place_at w 0 = Some Released \<and> place_at w 1 = Some Holding"
proof -
  let ?rs = "[example_request, example_request]"
  obtain w where w: "image_run ?rs example_actions (image_init ?rs) = Some w"
    "place_at w 0 = Some Released" "place_at w 1 = Some Holding"
  proof
    show "image_run ?rs example_actions (image_init ?rs) = Some (the (image_run ?rs example_actions (image_init ?rs)))"
      "place_at (the (image_run ?rs example_actions (image_init ?rs))) 0 = Some Released"
      "place_at (the (image_run ?rs example_actions (image_init ?rs))) 1 = Some Holding"
      by code_simp+
  qed
  then show ?thesis
    using image_limiter_refines_semaphore [OF w(1)] by (simp add: Let_def)
qed

lemma all_ended_free:
  assumes "image_inv rs w" and "\<forall>p < length rs. \<exists>q. place_at w p = Some q \<and> ended q"
  shows "il_active (iw_lim w) = 0 \<and> il_waiting (iw_lim w) = 0"
proof -
  have "ended q" if "q \<in> set (iw_at w)" for q
    using assms that by (auto simp: in_set_conv_nth place_at_def image_inv_def)
  then have "q \<noteq> Holding \<and> \<not> queued q" if "q \<in> set (iw_at w)" for q
    using that by (fastforce simp: ended_def)
  then have "filter (\<lambda>q. q = Holding) (iw_at w) = []" "filter queued (iw_at w) = []"
    by (auto simp: filter_empty_conv)
  then show ?thesis using assms(1) by (simp add: image_inv_def)
qed

text \<open>
  Property C35 (liveness). No wakeup is lost and every request ends. Any run of \<open>n\<close> requests in
  which no release function is called twice has at most \<open>n (3 n + 5)\<close> steps; in a state where
  only contexts could still end, every request has returned and every slot is free again; and a
  request that waits, with no bound on the queue, has then been granted its slot unless its own
  context ended first.
\<close>

theorem image_limiter_liveness:
  assumes "image_run rs as (image_init rs) = Some w" and "\<forall>p. ReleaseAgain p \<notin> set as"
  shows "length as \<le> length rs * (3 * length rs + 5) \<and>
    (image_stuck rs w \<longrightarrow>
      (\<forall>p < length rs. \<exists>q. place_at w p = Some q \<and> ended q) \<and>
      il_active (iw_lim w) = 0 \<and> il_waiting (iw_lim w) = 0 \<and>
      (\<forall>p < length rs. patient (rs ! p) \<and> Timeout p \<notin> set as \<longrightarrow> place_at w p = Some Released))"
proof -
  have inv: "image_inv rs w" by (rule image_run_inv [OF image_init_inv assms(1)])
  have "length as \<le> length rs * (3 * length rs + 5)"
    using image_run_potential [OF image_init_inv assms] by (simp add: potential_init)
  moreover have "(\<forall>p < length rs. \<exists>q. place_at w p = Some q \<and> ended q) \<and>
      il_active (iw_lim w) = 0 \<and> il_waiting (iw_lim w) = 0 \<and>
      (\<forall>p < length rs. patient (rs ! p) \<and> Timeout p \<notin> set as \<longrightarrow> place_at w p = Some Released)"
    if stuck: "image_stuck rs w"
  proof -
    have e: "\<forall>p < length rs. \<exists>q. place_at w p = Some q \<and> ended q"
      using image_stuck_ended [OF inv stuck] by blast
    have "place_at w p = Some Released" if p: "p < length rs" "patient (rs ! p)" "Timeout p \<notin> set as" for p
    proof -
      have "place_at (image_init rs) p = Some Fresh" using p(1) by (simp add: place_at_def image_init_def)
      then show ?thesis
        using e p(1) patient_run [OF image_init_inv assms(1) p(3,2)] by (auto simp: ended_def)
    qed
    then show ?thesis using e all_ended_free [OF inv e] by blast
  qed
  ultimately show ?thesis by blast
qed

theorem image_limiter_liveness_witness:
  "let rs = [example_request, example_request]; as = example_actions @ [Release 1]
   in place_at (the (image_run rs as (image_init rs))) 1 = Some Released \<and> length as \<le> 22"
proof -
  let ?rs = "[example_request, example_request]" and ?as = "example_actions @ [Release 1]"
  obtain w where w: "image_run ?rs ?as (image_init ?rs) = Some w" "image_stuck ?rs w"
  proof
    let ?w = "the (image_run ?rs ?as (image_init ?rs))"
    show "image_run ?rs ?as (image_init ?rs) = Some ?w" by code_simp
    have "place_at ?w 0 = Some Released" "place_at ?w 1 = Some Released" by code_simp+
    then show "image_stuck ?rs ?w" by (auto simp: image_stuck_def less_Suc_eq numeral_2_eq_2)
  qed
  have "\<forall>p. ReleaseAgain p \<notin> set ?as" "Timeout 1 \<notin> set ?as" "patient (?rs ! 1)"
    by (simp_all add: example_actions_def patient_def example_request_def Second_def)
  then show ?thesis
    using image_limiter_liveness [OF w(1)] w by (simp add: Let_def)
qed

end
