(* ===== verification/Idempotency_Store.thy ===== *)
theory Idempotency_Store
  imports Go_Order Go_Any
begin

text \<open>
  The table of idempotency records (\<open>repository/idempotency_repo.go\<close>, columns and unique index of
  \<open>migrations/057_add_idempotency_records.sql\<close>), which the idempotency coordinator and the system
  operation lock share. Every method is one SQL statement, so one atomic change of the table. A
  statement can fail: then the caller gets an error, and the change may or may not have happened
  (the connection can break on either side of it), which the argument of type \<open>fate\<close> decides.
  \<open>dbnow\<close> is the \<open>NOW()\<close> of the database. Times keep their nanoseconds, where PostgreSQL rounds
  them to microseconds.
\<close>

section \<open>Rows and statements\<close>

definition StatusProcessing :: string where
  "StatusProcessing = ''processing''"

definition StatusSucceeded :: string where
  "StatusSucceeded = ''succeeded''"

definition StatusFailedRetryable :: string where
  "StatusFailedRetryable = ''failed_retryable''"

lemmas status_defs = StatusProcessing_def StatusSucceeded_def StatusFailedRetryable_def

lemma status_distinct [simp]:
  "StatusProcessing \<noteq> StatusSucceeded" "StatusSucceeded \<noteq> StatusProcessing"
  "StatusProcessing \<noteq> StatusFailedRetryable" "StatusFailedRetryable \<noteq> StatusProcessing"
  "StatusSucceeded \<noteq> StatusFailedRetryable" "StatusFailedRetryable \<noteq> StatusSucceeded"
  by (simp_all add: status_defs)

record IdempotencyRecord =
  ir_ID :: int
  ir_Scope :: string
  ir_KeyHash :: string
  ir_Fingerprint :: string
  ir_Status :: string
  ir_ResponseStatus :: "int option"
  ir_ResponseBody :: "string option"
  ir_ErrorReason :: "string option"
  ir_LockedUntil :: "gotime option"
  ir_ExpiresAt :: gotime
  ir_CreatedAt :: gotime
  ir_UpdatedAt :: gotime

record idem_table =
  it_rows :: "IdempotencyRecord list"
  it_seq :: int

definition empty_table :: idem_table where
  "empty_table = \<lparr> it_rows = [], it_seq = 1 \<rparr>"

datatype fate = Works | Lost_before | Lost_after

definition statement :: "fate \<Rightarrow> idem_table \<Rightarrow> 'a \<times> idem_table \<Rightarrow> (unit + 'a) \<times> idem_table" where
  "statement f t r = (case f of
       Works \<Rightarrow> (Inr (fst r), snd r)
     | Lost_before \<Rightarrow> (Inl (), t)
     | Lost_after \<Rightarrow> (Inl (), snd r))"

lemma statement_Works: "statement Works t r = (Inr (fst r), snd r)"
  by (simp add: statement_def)

lemma statement_cases:
  assumes "statement f t r = (res, t')"
  obtains "f = Works" "res = Inr (fst r)" "t' = snd r" | "res = Inl ()" "t' = t \<or> t' = snd r"
  using assms by (cases f) (auto simp: statement_def)

definition find_row :: "idem_table \<Rightarrow> string \<Rightarrow> string \<Rightarrow> IdempotencyRecord option" where
  "find_row t scope keyHash = find (\<lambda>r. ir_Scope r = scope \<and> ir_KeyHash r = keyHash) (it_rows t)"

definition row_by_id :: "idem_table \<Rightarrow> int \<Rightarrow> IdempotencyRecord option" where
  "row_by_id t i = find (\<lambda>r. ir_ID r = i) (it_rows t)"

text \<open>\<open>UPDATE \<dots> SET u WHERE c\<close>: the number of rows changed and the table after it.\<close>

definition update_rows ::
  "(IdempotencyRecord \<Rightarrow> bool) \<Rightarrow> (IdempotencyRecord \<Rightarrow> IdempotencyRecord) \<Rightarrow> idem_table \<Rightarrow> nat \<times> idem_table" where
  "update_rows c u t =
     (length (filter c (it_rows t)), t \<lparr> it_rows := map (\<lambda>r. if c r then u r else r) (it_rows t) \<rparr>)"

text \<open>
  The insertion takes an ID from the sequence even when the unique index refuses the row. The
  record comes back with its ID and timestamps.
\<close>

definition CreateProcessing ::
  "fate \<Rightarrow> gotime \<Rightarrow> IdempotencyRecord option \<Rightarrow> idem_table \<Rightarrow>
     (unit + bool \<times> IdempotencyRecord option) \<times> idem_table" where
  "CreateProcessing f dbnow rcd t =
     (case rcd of
        None \<Rightarrow> (Inr (False, None), t)
      | Some r \<Rightarrow>
          let i = it_seq t; t1 = t \<lparr> it_seq := i + 1 \<rparr>;
              r1 = r \<lparr> ir_ID := i, ir_CreatedAt := dbnow, ir_UpdatedAt := dbnow \<rparr>
          in statement f t
               (case find_row t (ir_Scope r) (ir_KeyHash r) of
                  Some _ \<Rightarrow> ((False, Some r), t1)
                | None \<Rightarrow> ((True, Some r1),
                    t1 \<lparr> it_rows := it_rows t @
                      [r1 \<lparr> ir_ResponseStatus := None, ir_ResponseBody := None, ir_ErrorReason := None \<rparr>] \<rparr>)))"

definition GetByScopeAndKeyHash ::
  "fate \<Rightarrow> string \<Rightarrow> string \<Rightarrow> idem_table \<Rightarrow> unit + IdempotencyRecord option" where
  "GetByScopeAndKeyHash f scope keyHash t =
     (if f = Works then Inr (find_row t scope keyHash) else Inl ())"

definition lock_free :: "gotime \<Rightarrow> IdempotencyRecord \<Rightarrow> bool" where
  "lock_free now r \<longleftrightarrow> (case ir_LockedUntil r of None \<Rightarrow> True | Some u \<Rightarrow> u \<le> now)"

definition TryReclaim ::
  "fate \<Rightarrow> gotime \<Rightarrow> int \<Rightarrow> string \<Rightarrow> gotime \<Rightarrow> gotime \<Rightarrow> gotime \<Rightarrow> idem_table \<Rightarrow> (unit + bool) \<times> idem_table" where
  "TryReclaim f dbnow i fromStatus now newLockedUntil newExpiresAt t =
     statement f t (map_prod (\<lambda>affected. affected > 0) (\<lambda>t. t)
       (update_rows (\<lambda>r. ir_ID r = i \<and> ir_Status r = fromStatus \<and> lock_free now r)
          (\<lambda>r. r \<lparr> ir_Status := StatusProcessing, ir_LockedUntil := Some newLockedUntil, ir_ErrorReason := None,
                   ir_UpdatedAt := dbnow, ir_ExpiresAt := newExpiresAt \<rparr>) t))"

definition ExtendProcessingLock ::
  "fate \<Rightarrow> gotime \<Rightarrow> int \<Rightarrow> string \<Rightarrow> gotime \<Rightarrow> gotime \<Rightarrow> idem_table \<Rightarrow> (unit + bool) \<times> idem_table" where
  "ExtendProcessingLock f dbnow i requestFingerprint newLockedUntil newExpiresAt t =
     statement f t (map_prod (\<lambda>affected. affected > 0) (\<lambda>t. t)
       (update_rows (\<lambda>r. ir_ID r = i \<and> ir_Status r = StatusProcessing \<and> ir_Fingerprint r = requestFingerprint)
          (\<lambda>r. r \<lparr> ir_LockedUntil := Some newLockedUntil, ir_ExpiresAt := newExpiresAt, ir_UpdatedAt := dbnow \<rparr>) t))"

definition MarkSucceeded ::
  "fate \<Rightarrow> gotime \<Rightarrow> int \<Rightarrow> int \<Rightarrow> string \<Rightarrow> gotime \<Rightarrow> idem_table \<Rightarrow> (unit + unit) \<times> idem_table" where
  "MarkSucceeded f dbnow i responseStatus responseBody expiresAt t =
     statement f t (map_prod (\<lambda>_. ()) (\<lambda>t. t)
       (update_rows (\<lambda>r. ir_ID r = i)
          (\<lambda>r. r \<lparr> ir_Status := StatusSucceeded, ir_ResponseStatus := Some responseStatus,
                   ir_ResponseBody := Some responseBody, ir_ErrorReason := None, ir_LockedUntil := None,
                   ir_ExpiresAt := expiresAt, ir_UpdatedAt := dbnow \<rparr>) t))"

definition MarkFailedRetryable ::
  "fate \<Rightarrow> gotime \<Rightarrow> int \<Rightarrow> string \<Rightarrow> gotime \<Rightarrow> gotime \<Rightarrow> idem_table \<Rightarrow> (unit + unit) \<times> idem_table" where
  "MarkFailedRetryable f dbnow i errorReason lockedUntil expiresAt t =
     statement f t (map_prod (\<lambda>_. ()) (\<lambda>t. t)
       (update_rows (\<lambda>r. ir_ID r = i)
          (\<lambda>r. r \<lparr> ir_Status := StatusFailedRetryable, ir_ErrorReason := Some errorReason,
                   ir_LockedUntil := Some lockedUntil, ir_ExpiresAt := expiresAt, ir_UpdatedAt := dbnow \<rparr>) t))"

definition DeleteExpired :: "fate \<Rightarrow> gotime \<Rightarrow> int \<Rightarrow> idem_table \<Rightarrow> (unit + int) \<times> idem_table" where
  "DeleteExpired f now limit t =
     (let limit = (if limit \<le> 0 then 500 else limit);
          victims = take (nat limit)
            (sort_SliceStable (\<lambda>a b. ir_ExpiresAt a < ir_ExpiresAt b) (filter (\<lambda>r. ir_ExpiresAt r \<le> now) (it_rows t)));
          dead = map ir_ID victims
      in statement f t
           (int (length (filter (\<lambda>r. ir_ID r \<in> set dead) (it_rows t))),
            t \<lparr> it_rows := filter (\<lambda>r. ir_ID r \<notin> set dead) (it_rows t) \<rparr>))"

section \<open>Well-formed tables\<close>

definition row_key :: "IdempotencyRecord \<Rightarrow> string \<times> string" where
  "row_key r = (ir_Scope r, ir_KeyHash r)"

definition table_ok :: "idem_table \<Rightarrow> bool" where
  "table_ok t \<longleftrightarrow> distinct (map ir_ID (it_rows t)) \<and> distinct (map row_key (it_rows t)) \<and>
     0 < it_seq t \<and> (\<forall>r \<in> set (it_rows t). 0 < ir_ID r \<and> ir_ID r < it_seq t)"

lemma table_ok_empty: "table_ok empty_table"
  by (simp add: table_ok_def empty_table_def)

lemma find_distinct:
  assumes "distinct (map f xs)" and "x \<in> set xs"
  shows "find (\<lambda>y. f y = f x) xs = Some x"
  using assms by (induction xs) (auto simp: image_iff)

lemma row_by_id_iff:
  assumes "table_ok t"
  shows "row_by_id t i = Some r \<longleftrightarrow> r \<in> set (it_rows t) \<and> ir_ID r = i"
  using assms find_distinct [of ir_ID "it_rows t" r]
  by (auto simp: row_by_id_def table_ok_def find_Some_iff)

lemma find_row_iff:
  assumes "table_ok t"
  shows "find_row t s k = Some r \<longleftrightarrow> r \<in> set (it_rows t) \<and> ir_Scope r = s \<and> ir_KeyHash r = k"
  using assms find_distinct [of row_key "it_rows t" r]
  by (auto simp: find_row_def table_ok_def row_key_def find_Some_iff)

lemma row_by_id_None_iff: "row_by_id t i = None \<longleftrightarrow> (\<forall>r \<in> set (it_rows t). ir_ID r \<noteq> i)"
  by (auto simp: row_by_id_def find_None_iff)

lemma find_row_None_iff: "find_row t s k = None \<longleftrightarrow> (\<forall>r \<in> set (it_rows t). (ir_Scope r, ir_KeyHash r) \<noteq> (s, k))"
  by (auto simp: find_row_def find_None_iff)

text \<open>An update that keeps the identity of the rows.\<close>

definition keeps_key :: "(IdempotencyRecord \<Rightarrow> IdempotencyRecord) \<Rightarrow> bool" where
  "keeps_key u \<longleftrightarrow> (\<forall>r. ir_ID (u r) = ir_ID r \<and> ir_Scope (u r) = ir_Scope r \<and> ir_KeyHash (u r) = ir_KeyHash r \<and>
     ir_Fingerprint (u r) = ir_Fingerprint r)"

lemma update_rows_ok:
  assumes "table_ok t" and "keeps_key u"
  shows "table_ok (snd (update_rows c u t))"
proof -
  have e: "ir_ID \<circ> (\<lambda>r. if c r then u r else r) = ir_ID" "row_key \<circ> (\<lambda>r. if c r then u r else r) = row_key"
    using assms(2) by (auto simp: keeps_key_def row_key_def)
  show ?thesis
    using assms by (auto simp: table_ok_def update_rows_def keeps_key_def e)
qed

lemma update_rows_by_id:
  assumes "table_ok t" and "keeps_key u"
  shows "row_by_id (snd (update_rows (\<lambda>r. ir_ID r = i \<and> c r) u t)) j =
    (if j = i then map_option (\<lambda>r. if c r then u r else r) (row_by_id t i) else row_by_id t j)"
proof (cases "row_by_id t j")
  case None
  then have "row_by_id (snd (update_rows (\<lambda>r. ir_ID r = i \<and> c r) u t)) j = None"
    using assms(2) by (auto simp: row_by_id_None_iff update_rows_def keeps_key_def)
  then show ?thesis using None by auto
next
  case (Some r)
  then have r: "r \<in> set (it_rows t)" "ir_ID r = j" using assms(1) by (simp_all add: row_by_id_iff)
  let ?r = "if ir_ID r = i \<and> c r then u r else r"
  have "?r \<in> set (it_rows (snd (update_rows (\<lambda>r. ir_ID r = i \<and> c r) u t)))"
    using r(1) by (auto simp: update_rows_def)
  moreover have "ir_ID ?r = j" using r(2) assms(2) by (simp add: keeps_key_def)
  ultimately have "row_by_id (snd (update_rows (\<lambda>r. ir_ID r = i \<and> c r) u t)) j = Some ?r"
    using row_by_id_iff [OF update_rows_ok [OF assms]] by blast
  then show ?thesis using Some r(2) by auto
qed

lemma update_rows_affected:
  assumes "table_ok t"
  shows "0 < fst (update_rows (\<lambda>r. ir_ID r = i \<and> c r) u t) \<longleftrightarrow> (\<exists>r. row_by_id t i = Some r \<and> c r)"
  using row_by_id_iff [OF assms] by (auto simp: update_rows_def filter_empty_conv)

lemma update_rows_none:
  assumes "\<not> (0 < fst (update_rows c u t))"
  shows "snd (update_rows c u t) = t"
proof -
  have "map (\<lambda>r. if c r then u r else r) (it_rows t) = it_rows t"
    using assms by (auto simp: update_rows_def filter_empty_conv intro!: map_idI)
  then show ?thesis by (simp add: update_rows_def)
qed

lemma find_row_keeps:
  assumes "table_ok t" and "table_ok t'"
    and "\<And>i r. row_by_id t i = Some r \<Longrightarrow> \<exists>r'. row_by_id t' i = Some r' \<and> row_key r' = row_key r"
    and "find_row t s k = Some r"
  shows "find_row t' s k = row_by_id t' (ir_ID r)"
proof -
  have r: "row_by_id t (ir_ID r) = Some r" "ir_Scope r = s" "ir_KeyHash r = k"
    using assms(1,4) by (simp_all add: row_by_id_iff find_row_iff)
  then obtain r' where r': "row_by_id t' (ir_ID r) = Some r'" "row_key r' = row_key r" using assms(3) by blast
  then have "find_row t' s k = Some r'" using assms(2) r(2,3) by (simp add: find_row_iff row_by_id_iff row_key_def)
  then show ?thesis using r'(1) by simp
qed

section \<open>The statements on well-formed tables\<close>

lemma map_prod_snd: "map_prod f (\<lambda>t. t) p = (f (fst p), snd p)"
  by (cases p) simp

text \<open>What an update of one row with the condition \<open>c\<close> does, whatever its fate.\<close>

lemma statement_update:
  assumes "table_ok t" and "keeps_key u"
    and "statement f t (map_prod g (\<lambda>t. t) (update_rows (\<lambda>r. ir_ID r = i \<and> c r) u t)) = (res, t')"
  shows "table_ok t'" and "it_seq t' = it_seq t"
    and "j \<noteq> i \<Longrightarrow> row_by_id t' j = row_by_id t j"
    and "row_by_id t' i = row_by_id t i \<or>
      (\<exists>r. row_by_id t i = Some r \<and> c r \<and> row_by_id t' i = Some (u r))"
    and "res = Inr x \<Longrightarrow>
      row_by_id t' i = map_option (\<lambda>r. if c r then u r else r) (row_by_id t i)"
proof -
  let ?t = "snd (update_rows (\<lambda>r. ir_ID r = i \<and> c r) u t)"
  have t': "t' = t \<or> t' = ?t" and w: "res = Inr x \<Longrightarrow> t' = ?t"
    using assms(3) by (auto simp: map_prod_snd elim: statement_cases)
  show "table_ok t'" and "it_seq t' = it_seq t"
    using t' assms(1) update_rows_ok [OF assms(1,2)] by (auto simp: update_rows_def)
  show "j \<noteq> i \<Longrightarrow> row_by_id t' j = row_by_id t j"
    using t' update_rows_by_id [OF assms(1,2)] by auto
  show "row_by_id t' i = row_by_id t i \<or>
      (\<exists>r. row_by_id t i = Some r \<and> c r \<and> row_by_id t' i = Some (u r))"
    using t' update_rows_by_id [OF assms(1,2), of i c i] by (cases "row_by_id t i") (auto split: if_splits)
  show "res = Inr x \<Longrightarrow> row_by_id t' i = map_option (\<lambda>r. if c r then u r else r) (row_by_id t i)"
    using w update_rows_by_id [OF assms(1,2), of i c i] by simp
qed

definition reclaimed :: "gotime \<Rightarrow> gotime \<Rightarrow> gotime \<Rightarrow> IdempotencyRecord \<Rightarrow> IdempotencyRecord" where
  "reclaimed dbnow newLockedUntil newExpiresAt r =
     r \<lparr> ir_Status := StatusProcessing, ir_LockedUntil := Some newLockedUntil, ir_ErrorReason := None,
         ir_UpdatedAt := dbnow, ir_ExpiresAt := newExpiresAt \<rparr>"

lemma keeps_key_reclaimed [simp]: "keeps_key (reclaimed d l e)"
  by (simp add: keeps_key_def reclaimed_def)

lemma TryReclaim_alt:
  "TryReclaim f d i s now l e t = statement f t (map_prod (\<lambda>n. n > 0) (\<lambda>t. t)
     (update_rows (\<lambda>r. ir_ID r = i \<and> ir_Status r = s \<and> lock_free now r) (reclaimed d l e) t))"
  by (simp add: TryReclaim_def reclaimed_def [abs_def])

text \<open>
  The contract both clients of the table rely on: a claim is taken from a row only in the status
  the caller saw and only when its lock is over.
\<close>

locale claim_repo =
  fixes ok :: "'t \<Rightarrow> bool" and by_id :: "'t \<Rightarrow> int \<Rightarrow> IdempotencyRecord option"
    and reclaim :: "fate \<Rightarrow> gotime \<Rightarrow> int \<Rightarrow> string \<Rightarrow> gotime \<Rightarrow> gotime \<Rightarrow> gotime \<Rightarrow> 't \<Rightarrow> (unit + bool) \<times> 't"
  assumes reclaim_ok: "ok t \<Longrightarrow> reclaim f d i s now l e t = (res, t') \<Longrightarrow> ok t'"
    and reclaim_taken: "ok t \<Longrightarrow> reclaim f d i s now l e t = (Inr True, t') \<Longrightarrow>
      \<exists>r. by_id t i = Some r \<and> ir_Status r = s \<and> lock_free now r \<and> by_id t' i = Some (reclaimed d l e r)"
    and reclaim_refused: "ok t \<Longrightarrow> reclaim f d i s now l e t = (Inr False, t') \<Longrightarrow>
      t' = t \<and> (\<forall>r. by_id t i = Some r \<longrightarrow> ir_Status r \<noteq> s \<or> \<not> lock_free now r)"
    and reclaim_other: "ok t \<Longrightarrow> reclaim f d i s now l e t = (res, t') \<Longrightarrow> j \<noteq> i \<Longrightarrow> by_id t' j = by_id t j"
begin

lemma held_row_not_reclaimed:
  assumes "ok t" and "by_id t i = Some r" and "ir_LockedUntil r = Some u" and "now < u"
  shows "fst (reclaim f d i s now l e t) \<noteq> Inr True"
proof
  assume "fst (reclaim f d i s now l e t) = Inr True"
  then obtain t' where "reclaim f d i s now l e t = (Inr True, t')"
    by (cases "reclaim f d i s now l e t") auto
  from reclaim_taken [OF assms(1) this] assms(2-4) show False by (auto simp: lock_free_def)
qed

lemma reclaim_exclusive:
  assumes "ok t" and "reclaim f d i s now l e t = (Inr True, t')" and "now' < l"
  shows "fst (reclaim f' d' i s' now' l' e' t') \<noteq> Inr True"
proof -
  obtain r where "by_id t' i = Some (reclaimed d l e r)" using reclaim_taken [OF assms(1,2)] by blast
  then show ?thesis
    using held_row_not_reclaimed [OF reclaim_ok [OF assms(1,2)]] assms(3) by (auto simp: reclaimed_def)
qed

end

interpretation sql: claim_repo table_ok row_by_id TryReclaim
proof
  fix t t' f d i s now l e res j
  assume ok: "table_ok t"
  let ?up = "update_rows (\<lambda>r. ir_ID r = i \<and> ir_Status r = s \<and> lock_free now r) (reclaimed d l e) t"
  show "table_ok t'" if "TryReclaim f d i s now l e t = (res, t')"
    using that statement_update(1) [OF ok keeps_key_reclaimed, where c = "\<lambda>r. ir_Status r = s \<and> lock_free now r"]
    by (simp add: TryReclaim_alt)
  show "row_by_id t' j = row_by_id t j" if "TryReclaim f d i s now l e t = (res, t')" "j \<noteq> i"
    using that statement_update(3) [OF ok keeps_key_reclaimed, where c = "\<lambda>r. ir_Status r = s \<and> lock_free now r"]
    by (simp add: TryReclaim_alt)
  show "\<exists>r. row_by_id t i = Some r \<and> ir_Status r = s \<and> lock_free now r \<and> row_by_id t' i = Some (reclaimed d l e r)"
    if "TryReclaim f d i s now l e t = (Inr True, t')"
  proof -
    have "0 < fst ?up" "t' = snd ?up"
      using that by (auto simp: TryReclaim_alt map_prod_snd elim: statement_cases)
    then show ?thesis
      using update_rows_affected [OF ok] update_rows_by_id [OF ok keeps_key_reclaimed] by auto
  qed
  show "t' = t \<and> (\<forall>r. row_by_id t i = Some r \<longrightarrow> ir_Status r \<noteq> s \<or> \<not> lock_free now r)"
    if "TryReclaim f d i s now l e t = (Inr False, t')"
  proof -
    have "\<not> 0 < fst ?up" "t' = snd ?up"
      using that by (auto simp: TryReclaim_alt map_prod_snd elim: statement_cases)
    then show ?thesis
      using update_rows_affected [OF ok, of i "\<lambda>r. ir_Status r = s \<and> lock_free now r" "reclaimed d l e"]
        update_rows_none [of "\<lambda>r. ir_ID r = i \<and> ir_Status r = s \<and> lock_free now r" "reclaimed d l e" t] by simp
  qed
qed

definition new_row :: "gotime \<Rightarrow> int \<Rightarrow> IdempotencyRecord \<Rightarrow> IdempotencyRecord" where
  "new_row dbnow i r =
     r \<lparr> ir_ID := i, ir_CreatedAt := dbnow, ir_UpdatedAt := dbnow,
         ir_ResponseStatus := None, ir_ResponseBody := None, ir_ErrorReason := None \<rparr>"

lemma insert_row:
  assumes "table_ok t" and "find_row t (ir_Scope r) (ir_KeyHash r) = None"
    and "t' = t \<lparr> it_seq := it_seq t + 1, it_rows := it_rows t @ [new_row d (it_seq t) r] \<rparr>"
  shows "table_ok t'" and "row_by_id t' j = (if j = it_seq t then Some (new_row d (it_seq t) r) else row_by_id t j)"
proof -
  have "ir_ID x \<noteq> it_seq t" if "x \<in> set (it_rows t)" for x using assms(1) that by (auto simp: table_ok_def)
  moreover have "row_key x \<noteq> row_key (new_row d (it_seq t) r)" if "x \<in> set (it_rows t)" for x
    using assms(2) that by (auto simp: find_row_None_iff row_key_def new_row_def)
  ultimately show ok: "table_ok t'"
    using assms(1) by (force simp: table_ok_def assms(3) new_row_def)
  have n: "row_by_id t (it_seq t) = None"
    using assms(1) by (fastforce simp: row_by_id_None_iff table_ok_def)
  show "row_by_id t' j = (if j = it_seq t then Some (new_row d (it_seq t) r) else row_by_id t j)"
  proof (cases "j = it_seq t")
    case True
    then show ?thesis using row_by_id_iff [OF ok] by (simp add: assms(3) new_row_def)
  next
    case False
    show ?thesis
    proof (cases "row_by_id t j")
      case None
      then have "row_by_id t' j = None"
        using False by (auto simp: row_by_id_None_iff assms(3) new_row_def)
      then show ?thesis using None False by simp
    next
      case (Some x)
      then have "row_by_id t' j = Some x"
        using row_by_id_iff [OF ok] row_by_id_iff [OF assms(1)] by (simp add: assms(3))
      then show ?thesis using Some False by simp
    qed
  qed
qed

lemma CreateProcessing_cases:
  assumes "table_ok t" and "CreateProcessing f d (Some r) t = (res, t')"
  shows "table_ok t'"
    and "res = Inr (b, x) \<Longrightarrow> b \<Longrightarrow>
      find_row t (ir_Scope r) (ir_KeyHash r) = None \<and> (\<exists>r1. x = Some r1 \<and> ir_ID r1 = it_seq t) \<and>
      (\<forall>j. row_by_id t' j = (if j = it_seq t then Some (new_row d (it_seq t) r) else row_by_id t j))"
    and "res = Inr (b, x) \<Longrightarrow> \<not> b \<Longrightarrow>
      find_row t (ir_Scope r) (ir_KeyHash r) \<noteq> None \<and> (\<forall>j. row_by_id t' j = row_by_id t j)"
    and "(\<forall>j. row_by_id t' j = row_by_id t j) \<or>
      find_row t (ir_Scope r) (ir_KeyHash r) = None \<and>
      (\<forall>j. row_by_id t' j = (if j = it_seq t then Some (new_row d (it_seq t) r) else row_by_id t j))"
proof -
  have seq: "table_ok (t \<lparr> it_seq := it_seq t + 1 \<rparr>)" "row_by_id (t \<lparr> it_seq := it_seq t + 1 \<rparr>) j = row_by_id t j" for j
    using assms(1) by (auto simp: table_ok_def row_by_id_def)
  note ins = insert_row [OF assms(1), of r _ d]
  have all: "table_ok t' \<and> (\<forall>b x. res = Inr (b, x) \<longrightarrow> b \<longrightarrow>
      find_row t (ir_Scope r) (ir_KeyHash r) = None \<and> (\<exists>r1. x = Some r1 \<and> ir_ID r1 = it_seq t) \<and>
      (\<forall>j. row_by_id t' j = (if j = it_seq t then Some (new_row d (it_seq t) r) else row_by_id t j))) \<and>
    (\<forall>b x. res = Inr (b, x) \<longrightarrow> \<not> b \<longrightarrow>
      find_row t (ir_Scope r) (ir_KeyHash r) \<noteq> None \<and> (\<forall>j. row_by_id t' j = row_by_id t j)) \<and>
    ((\<forall>j. row_by_id t' j = row_by_id t j) \<or>
      find_row t (ir_Scope r) (ir_KeyHash r) = None \<and>
      (\<forall>j. row_by_id t' j = (if j = it_seq t then Some (new_row d (it_seq t) r) else row_by_id t j)))"
  proof (cases "find_row t (ir_Scope r) (ir_KeyHash r)")
    case None
    let ?t = "t \<lparr> it_seq := it_seq t + 1, it_rows := it_rows t @ [new_row d (it_seq t) r] \<rparr>"
    have c: "CreateProcessing f d (Some r) t = statement f t
        ((True, Some (r \<lparr> ir_ID := it_seq t, ir_CreatedAt := d, ir_UpdatedAt := d \<rparr>)), ?t)"
      using None by (simp add: CreateProcessing_def Let_def new_row_def)
    show ?thesis
      using assms(2) [unfolded c] ins(1) [OF None, of ?t] ins(2) [OF None, of ?t] None assms(1)
      by (elim statement_cases) auto
  next
    case (Some y)
    have c: "CreateProcessing f d (Some r) t = statement f t ((False, Some r), t \<lparr> it_seq := it_seq t + 1 \<rparr>)"
      using Some by (simp add: CreateProcessing_def Let_def)
    show ?thesis
      using assms(2) [unfolded c] seq Some assms(1) by (elim statement_cases) auto
  qed
  from all show "table_ok t'" by (rule conjunct1)
  from all [THEN conjunct2, THEN conjunct1]
  show "res = Inr (b, x) \<Longrightarrow> b \<Longrightarrow>
      find_row t (ir_Scope r) (ir_KeyHash r) = None \<and> (\<exists>r1. x = Some r1 \<and> ir_ID r1 = it_seq t) \<and>
      (\<forall>j. row_by_id t' j = (if j = it_seq t then Some (new_row d (it_seq t) r) else row_by_id t j))"
    by (elim allE impE)
  from all [THEN conjunct2, THEN conjunct2, THEN conjunct1]
  show "res = Inr (b, x) \<Longrightarrow> \<not> b \<Longrightarrow>
      find_row t (ir_Scope r) (ir_KeyHash r) \<noteq> None \<and> (\<forall>j. row_by_id t' j = row_by_id t j)"
    by (elim allE impE)
  from all [THEN conjunct2, THEN conjunct2, THEN conjunct2]
  show "(\<forall>j. row_by_id t' j = row_by_id t j) \<or>
      find_row t (ir_Scope r) (ir_KeyHash r) = None \<and>
      (\<forall>j. row_by_id t' j = (if j = it_seq t then Some (new_row d (it_seq t) r) else row_by_id t j))" .
qed

lemma filter_rows_ok: "table_ok t \<Longrightarrow> table_ok (t \<lparr> it_rows := filter P (it_rows t) \<rparr>)"
  by (auto simp: table_ok_def distinct_map inj_on_def)

lemma DeleteExpired_cases:
  assumes "table_ok t" and "DeleteExpired f now limit t = (res, t')"
  shows "table_ok t'" and "row_by_id t' i = Some r \<Longrightarrow> row_by_id t i = Some r"
    and "row_by_id t i = Some r \<Longrightarrow> now < ir_ExpiresAt r \<Longrightarrow> row_by_id t' i = Some r"
proof -
  obtain dead where d: "t' = t \<or> t' = t \<lparr> it_rows := filter (\<lambda>r. ir_ID r \<notin> dead) (it_rows t) \<rparr>"
    and x: "dead \<subseteq> {ir_ID r |r. r \<in> set (it_rows t) \<and> ir_ExpiresAt r \<le> now}"
  proof
    let ?limit = "if limit \<le> 0 then 500 else limit"
    let ?dead = "ir_ID ` set (take (nat ?limit)
      (sort_SliceStable (\<lambda>a b. ir_ExpiresAt a < ir_ExpiresAt b) (filter (\<lambda>r. ir_ExpiresAt r \<le> now) (it_rows t))))"
    show "t' = t \<or> t' = t \<lparr> it_rows := filter (\<lambda>r. ir_ID r \<notin> ?dead) (it_rows t) \<rparr>"
      using assms(2) by (auto simp: DeleteExpired_def Let_def elim: statement_cases)
    show "?dead \<subseteq> {ir_ID r |r. r \<in> set (it_rows t) \<and> ir_ExpiresAt r \<le> now}"
      by (auto dest!: in_set_takeD)
  qed
  show ok: "table_ok t'" using d filter_rows_ok [OF assms(1)] assms(1) by blast
  show "row_by_id t' i = Some r \<Longrightarrow> row_by_id t i = Some r"
    using d row_by_id_iff [OF ok] row_by_id_iff [OF assms(1)] by auto
  show "row_by_id t' i = Some r" if "row_by_id t i = Some r" "now < ir_ExpiresAt r"
  proof -
    have r: "r \<in> set (it_rows t)" "ir_ID r = i" using that row_by_id_iff [OF assms(1)] by auto
    have "i \<notin> dead"
    proof
      assume "i \<in> dead"
      then obtain r' where "r' \<in> set (it_rows t)" "ir_ID r' = i" "ir_ExpiresAt r' \<le> now" using x by auto
      then have "row_by_id t i = Some r'" using row_by_id_iff [OF assms(1)] by simp
      then show False using that \<open>ir_ExpiresAt r' \<le> now\<close> by simp
    qed
    then show ?thesis using d r row_by_id_iff [OF ok] by auto
  qed
qed

definition succeeded_row :: "gotime \<Rightarrow> int \<Rightarrow> string \<Rightarrow> gotime \<Rightarrow> IdempotencyRecord \<Rightarrow> IdempotencyRecord" where
  "succeeded_row dbnow responseStatus responseBody expiresAt r =
     r \<lparr> ir_Status := StatusSucceeded, ir_ResponseStatus := Some responseStatus,
         ir_ResponseBody := Some responseBody, ir_ErrorReason := None, ir_LockedUntil := None,
         ir_ExpiresAt := expiresAt, ir_UpdatedAt := dbnow \<rparr>"

definition failed_row :: "gotime \<Rightarrow> string \<Rightarrow> gotime \<Rightarrow> gotime \<Rightarrow> IdempotencyRecord \<Rightarrow> IdempotencyRecord" where
  "failed_row dbnow errorReason lockedUntil expiresAt r =
     r \<lparr> ir_Status := StatusFailedRetryable, ir_ErrorReason := Some errorReason,
         ir_LockedUntil := Some lockedUntil, ir_ExpiresAt := expiresAt, ir_UpdatedAt := dbnow \<rparr>"

definition extended_row :: "gotime \<Rightarrow> gotime \<Rightarrow> gotime \<Rightarrow> IdempotencyRecord \<Rightarrow> IdempotencyRecord" where
  "extended_row dbnow newLockedUntil newExpiresAt r =
     r \<lparr> ir_LockedUntil := Some newLockedUntil, ir_ExpiresAt := newExpiresAt, ir_UpdatedAt := dbnow \<rparr>"

lemma keeps_key_marks [simp]:
  "keeps_key (succeeded_row d n b e)" "keeps_key (failed_row d m l e)" "keeps_key (extended_row d l e)"
  by (simp_all add: keeps_key_def succeeded_row_def failed_row_def extended_row_def)

lemma MarkSucceeded_alt:
  "MarkSucceeded f d i n b e t =
     statement f t (map_prod (\<lambda>_. ()) (\<lambda>t. t) (update_rows (\<lambda>r. ir_ID r = i \<and> True) (succeeded_row d n b e) t))"
  by (simp add: MarkSucceeded_def succeeded_row_def [abs_def])

lemma MarkFailedRetryable_alt:
  "MarkFailedRetryable f d i m l e t =
     statement f t (map_prod (\<lambda>_. ()) (\<lambda>t. t) (update_rows (\<lambda>r. ir_ID r = i \<and> True) (failed_row d m l e) t))"
  by (simp add: MarkFailedRetryable_def failed_row_def [abs_def])

lemma ExtendProcessingLock_alt:
  "ExtendProcessingLock f d i p l e t =
     statement f t (map_prod (\<lambda>n. n > 0) (\<lambda>t. t)
       (update_rows (\<lambda>r. ir_ID r = i \<and> ir_Status r = StatusProcessing \<and> ir_Fingerprint r = p) (extended_row d l e) t))"
  by (simp add: ExtendProcessingLock_def extended_row_def [abs_def])

lemmas mark_succeeded = statement_update [OF _ keeps_key_marks(1), where c = "\<lambda>_. True" and g = "\<lambda>_. ()", folded MarkSucceeded_alt]
lemmas mark_failed = statement_update [OF _ keeps_key_marks(2), where c = "\<lambda>_. True" and g = "\<lambda>_. ()", folded MarkFailedRetryable_alt]
lemmas extend_lock = statement_update [OF _ keeps_key_marks(3),
    where c = "\<lambda>r. ir_Status r = StatusProcessing \<and> ir_Fingerprint r = p" and g = "\<lambda>n. n > 0" for p, folded ExtendProcessingLock_alt]
lemmas try_reclaim = statement_update [OF _ keeps_key_reclaimed,
    where c = "\<lambda>r. ir_Status r = s \<and> lock_free now r" and g = "\<lambda>n. n > 0" for s now, folded TryReclaim_alt]

section \<open>Reachable tables\<close>

inductive table_reach :: "idem_table \<Rightarrow> bool" where
  reach_empty: "table_reach empty_table"
| reach_create: "table_reach t \<Longrightarrow> CreateProcessing f d r t = (c, t') \<Longrightarrow> table_reach t'"
| reach_reclaim: "table_reach t \<Longrightarrow> TryReclaim f d i s now l e t = (b, t') \<Longrightarrow> table_reach t'"
| reach_extend: "table_reach t \<Longrightarrow> ExtendProcessingLock f d i p l e t = (b, t') \<Longrightarrow> table_reach t'"
| reach_succeeded: "table_reach t \<Longrightarrow> MarkSucceeded f d i n m e t = (u, t') \<Longrightarrow> table_reach t'"
| reach_failed: "table_reach t \<Longrightarrow> MarkFailedRetryable f d i m l e t = (u, t') \<Longrightarrow> table_reach t'"
| reach_delete: "table_reach t \<Longrightarrow> DeleteExpired f now n t = (k, t') \<Longrightarrow> table_reach t'"

lemma table_reach_ok: "table_reach t \<Longrightarrow> table_ok t"
proof (induction rule: table_reach.induct)
  case (reach_create t f d r c t')
  then show ?case
    by (cases r) (auto simp: CreateProcessing_def dest: CreateProcessing_cases(1))
next
  case (reach_delete t f now n k t')
  then show ?case by (blast dest: DeleteExpired_cases(1))
qed (auto simp: table_ok_empty dest: try_reclaim(1) extend_lock(1) mark_succeeded(1) mark_failed(1))

end
