(* ===== verification/Idempotency.thy ===== *)
theory Idempotency
  imports Idempotency_Store "HOL-Library.Word"
begin

text \<open>
  The idempotency coordinator (\<open>service/idempotency.go\<close>), its counters
  (\<open>service/idempotency_observability.go\<close>) and the clean-up of expired records
  (\<open>service/idempotency_cleanup_service.go\<close>). \<open>Execute\<close> is a sequence of calls of the table, and
  other requests run between two of them. It is therefore a process: the place of a request says
  which call comes next and what its local variables hold, and one step does that call and the
  code up to the next one. \<open>Execute\<close> itself runs the steps of one request to the end.

  Outside the sources are SHA-256, JSON encoding, the Unicode tables and the executed operation;
  the redaction of texts (\<open>logredact.RedactText\<close>) is a parameter too. The theorems hold for every
  choice of them, apart from the laws they name.
\<close>

section \<open>Strings\<close>

definition hex_digit :: "nat \<Rightarrow> char" where
  "hex_digit n = (if n < 10 then char_of (48 + n) else char_of (87 + n))"

definition hex_EncodeToString :: "string \<Rightarrow> string" where
  "hex_EncodeToString s = concat (map (\<lambda>c. [hex_digit (byte_of c div 16), hex_digit (byte_of c mod 16)]) s)"

definition utf8_between :: "nat \<Rightarrow> nat \<Rightarrow> char \<Rightarrow> bool" where
  "utf8_between lo hi c \<longleftrightarrow> lo \<le> byte_of c \<and> byte_of c \<le> hi"

text \<open>The number of bytes of the first code point, 0 when it is not encoded validly.\<close>

definition utf8_width :: "string \<Rightarrow> nat" where
  "utf8_width s =
     (case s of [] \<Rightarrow> 0 | c # r \<Rightarrow>
       let b = byte_of c; cont = utf8_between 128 191;
           run = (\<lambda>n lo hi. if length r \<ge> n \<and> utf8_between lo hi (r ! 0) \<and> (\<forall>i \<in> {1..<n}. cont (r ! i))
                            then n + 1 else 0)
       in if b < 128 then 1
          else if b < 194 then 0
          else if b \<le> 223 then run 1 128 191
          else if b = 224 then run 2 160 191
          else if b = 237 then run 2 128 159
          else if b \<le> 239 then run 2 128 191
          else if b = 240 then run 3 144 191
          else if b \<le> 243 then run 3 128 191
          else if b = 244 then run 3 128 143
          else 0)"

function utf8_ValidString :: "string \<Rightarrow> bool" where
  "utf8_ValidString s \<longleftrightarrow>
     (if s = [] then True else if utf8_width s = 0 then False else utf8_ValidString (drop (utf8_width s) s))"
  by pat_completeness auto
termination
  by (relation "measure length") auto

declare utf8_ValidString.simps [simp del]

lemma utf8_ValidString_Nil [simp]: "utf8_ValidString []"
  by (subst utf8_ValidString.simps) simp

text \<open>The loop of \<open>truncateUTF8\<close>, on its counter.\<close>

fun truncate_at :: "string \<Rightarrow> nat \<Rightarrow> nat" where
  "truncate_at s 0 = 0"
| "truncate_at s (Suc n) = (if utf8_ValidString (take (Suc n) s) then Suc n else truncate_at s n)"

definition truncateUTF8 :: "string \<Rightarrow> int \<Rightarrow> string" where
  "truncateUTF8 s maxBytes =
     (if maxBytes \<le> 0 \<or> int (length s) \<le> maxBytes then s else take (truncate_at s (nat maxBytes)) s)"

section \<open>Errors\<close>

record ApplicationError =
  ae_Code :: int
  ae_Reason :: string
  ae_Message :: string
  ae_Metadata :: "(string \<times> string) list option"

text \<open>An error of Go: an application error or any other, of which only the text matters.\<close>

datatype goerr = AppError ApplicationError | OtherError string

definition BadRequest :: "string \<Rightarrow> string \<Rightarrow> ApplicationError" where
  "BadRequest reason message = \<lparr> ae_Code = 400, ae_Reason = reason, ae_Message = message, ae_Metadata = None \<rparr>"

definition Conflict :: "string \<Rightarrow> string \<Rightarrow> ApplicationError" where
  "Conflict reason message = \<lparr> ae_Code = 409, ae_Reason = reason, ae_Message = message, ae_Metadata = None \<rparr>"

definition ServiceUnavailable :: "string \<Rightarrow> string \<Rightarrow> ApplicationError" where
  "ServiceUnavailable reason message = \<lparr> ae_Code = 503, ae_Reason = reason, ae_Message = message, ae_Metadata = None \<rparr>"

definition InternalServer :: "string \<Rightarrow> string \<Rightarrow> ApplicationError" where
  "InternalServer reason message = \<lparr> ae_Code = 500, ae_Reason = reason, ae_Message = message, ae_Metadata = None \<rparr>"

definition Reason :: "goerr \<Rightarrow> string" where
  "Reason err = (case err of AppError e \<Rightarrow> ae_Reason e | OtherError _ \<Rightarrow> [])"

definition WithMetadata :: "(string \<times> string) list \<Rightarrow> ApplicationError \<Rightarrow> ApplicationError" where
  "WithMetadata md e = e \<lparr> ae_Metadata := Some md \<rparr>"

definition ErrIdempotencyKeyRequired :: ApplicationError where
  "ErrIdempotencyKeyRequired = BadRequest ''IDEMPOTENCY_KEY_REQUIRED'' ''idempotency key is required''"

definition ErrIdempotencyKeyInvalid :: ApplicationError where
  "ErrIdempotencyKeyInvalid = BadRequest ''IDEMPOTENCY_KEY_INVALID'' ''idempotency key is invalid''"

definition ErrIdempotencyKeyConflict :: ApplicationError where
  "ErrIdempotencyKeyConflict =
     Conflict ''IDEMPOTENCY_KEY_CONFLICT'' ''idempotency key reused with different payload''"

definition ErrIdempotencyInProgress :: ApplicationError where
  "ErrIdempotencyInProgress = Conflict ''IDEMPOTENCY_IN_PROGRESS'' ''idempotent request is still processing''"

definition ErrIdempotencyRetryBackoff :: ApplicationError where
  "ErrIdempotencyRetryBackoff =
     Conflict ''IDEMPOTENCY_RETRY_BACKOFF'' ''idempotent request is in retry backoff window''"

definition ErrIdempotencyStoreUnavail :: ApplicationError where
  "ErrIdempotencyStoreUnavail =
     ServiceUnavailable ''IDEMPOTENCY_STORE_UNAVAILABLE'' ''idempotency store unavailable''"

definition ErrIdempotencyInvalidPayload :: ApplicationError where
  "ErrIdempotencyInvalidPayload =
     BadRequest ''IDEMPOTENCY_PAYLOAD_INVALID'' ''failed to normalize request payload''"

lemmas idem_errors = ErrIdempotencyKeyRequired_def ErrIdempotencyKeyInvalid_def ErrIdempotencyKeyConflict_def
  ErrIdempotencyInProgress_def ErrIdempotencyRetryBackoff_def ErrIdempotencyStoreUnavail_def
  ErrIdempotencyInvalidPayload_def BadRequest_def Conflict_def ServiceUnavailable_def

text \<open>\<open>int(d.Seconds())\<close>: exact for a duration below \<open>2 ^ 22\<close> seconds.\<close>

definition whole_seconds :: "duration \<Rightarrow> int" where
  "whole_seconds d = (if d \<ge> 0 then d div Second else - ((- d) div Second))"

definition conflictWithRetryAfter :: "ApplicationError \<Rightarrow> gotime option \<Rightarrow> gotime \<Rightarrow> ApplicationError" where
  "conflictWithRetryAfter base lockedUntil now =
     (case lockedUntil of
        None \<Rightarrow> base
      | Some u \<Rightarrow>
          let sec = whole_seconds (time_Sub u now); sec = (if sec \<le> 0 then 1 else sec)
          in WithMetadata [(''retry_after'', strconv_FormatInt sec)] base)"

definition RetryAfterSecondsFromError :: "goerr \<Rightarrow> int" where
  "RetryAfterSecondsFromError err =
     (case err of
        OtherError _ \<Rightarrow> 0
      | AppError e \<Rightarrow>
          (case ae_Metadata e of
             None \<Rightarrow> 0
           | Some md \<Rightarrow>
               let v = strings_TrimSpace (case map_of md ''retry_after'' of None \<Rightarrow> [] | Some v \<Rightarrow> v)
               in if v = [] then 0
                  else case strconv_Atoi v of
                         None \<Rightarrow> 0
                       | Some seconds \<Rightarrow> if seconds \<le> 0 then 0 else seconds))"

section \<open>Keys and fingerprints\<close>

text \<open>
  The loop of \<open>NormalizeIdempotencyKey\<close> runs over code points; a byte from 128 on belongs to a
  code point above 126, or to an invalid encoding, which reads as U+FFFD.
\<close>

definition NormalizeIdempotencyKey :: "string \<Rightarrow> ApplicationError + string" where
  "NormalizeIdempotencyKey raw =
     (let key = strings_TrimSpace raw
      in if key = [] then Inr []
         else if length key > 128 then Inl ErrIdempotencyKeyInvalid
         else if \<exists>c \<in> set key. byte_of c < 33 \<or> byte_of c > 126 then Inl ErrIdempotencyKeyInvalid
         else Inr key)"

record idem_env =
  env_upper :: "string \<Rightarrow> string"
  env_sha256 :: "string \<Rightarrow> string"
  env_Marshal :: "goany \<Rightarrow> string option"
  env_Unmarshal :: "string \<Rightarrow> goany option"
  env_Redact :: "string \<Rightarrow> string"

definition HashIdempotencyKey :: "idem_env \<Rightarrow> string \<Rightarrow> string" where
  "HashIdempotencyKey E key = hex_EncodeToString (env_sha256 E key)"

definition BuildIdempotencyFingerprint ::
  "idem_env \<Rightarrow> string \<Rightarrow> string \<Rightarrow> string \<Rightarrow> goany \<Rightarrow> ApplicationError + string" where
  "BuildIdempotencyFingerprint E meth route actorScope payload =
     (let meth = (if meth = [] then ''POST'' else meth);
          route = (if route = [] then ''/'' else route);
          actorScope = (if actorScope = [] then ''anonymous'' else actorScope)
      in case env_Marshal E payload of
           None \<Rightarrow> Inl ErrIdempotencyInvalidPayload
         | Some raw \<Rightarrow>
             Inr (hex_EncodeToString (env_sha256 E
               (strings_ToUpper (env_upper E) meth @ [CHR 0x0A] @ route @ [CHR 0x0A] @ actorScope @ [CHR 0x0A] @ raw))))"

section \<open>Counters\<close>

record idempotencyMetrics =
  im_claimTotal :: "64 word"
  im_replayTotal :: "64 word"
  im_conflictTotal :: "64 word"
  im_retryBackoffTotal :: "64 word"
  im_processingDurationCount :: "64 word"
  im_processingDurationMicros :: "64 word"
  im_storeUnavailableTotal :: "64 word"

definition recordIdempotencyClaim :: "idempotencyMetrics \<Rightarrow> idempotencyMetrics" where
  "recordIdempotencyClaim m = m \<lparr> im_claimTotal := im_claimTotal m + 1 \<rparr>"

definition recordIdempotencyReplay :: "idempotencyMetrics \<Rightarrow> idempotencyMetrics" where
  "recordIdempotencyReplay m = m \<lparr> im_replayTotal := im_replayTotal m + 1 \<rparr>"

definition recordIdempotencyConflict :: "idempotencyMetrics \<Rightarrow> idempotencyMetrics" where
  "recordIdempotencyConflict m = m \<lparr> im_conflictTotal := im_conflictTotal m + 1 \<rparr>"

definition recordIdempotencyRetryBackoff :: "idempotencyMetrics \<Rightarrow> idempotencyMetrics" where
  "recordIdempotencyRetryBackoff m = m \<lparr> im_retryBackoffTotal := im_retryBackoffTotal m + 1 \<rparr>"

definition recordIdempotencyProcessingDuration :: "duration \<Rightarrow> idempotencyMetrics \<Rightarrow> idempotencyMetrics" where
  "recordIdempotencyProcessingDuration d m =
     (let d = (if d < 0 then 0 else d)
      in m \<lparr> im_processingDurationCount := im_processingDurationCount m + 1,
             im_processingDurationMicros := im_processingDurationMicros m + word_of_int (d div 1000) \<rparr>)"

definition RecordIdempotencyStoreUnavailable :: "idempotencyMetrics \<Rightarrow> idempotencyMetrics" where
  "RecordIdempotencyStoreUnavailable m = m \<lparr> im_storeUnavailableTotal := im_storeUnavailableTotal m + 1 \<rparr>"

section \<open>The coordinator\<close>

record IdempotencyConfig =
  ic_DefaultTTL :: duration
  ic_SystemOperationTTL :: duration
  ic_ProcessingTimeout :: duration
  ic_FailedRetryBackoff :: duration
  ic_MaxStoredResponseLen :: int
  ic_ObserveOnly :: bool

definition DefaultIdempotencyConfig :: IdempotencyConfig where
  "DefaultIdempotencyConfig =
     \<lparr> ic_DefaultTTL = 24 * Hour, ic_SystemOperationTTL = 1 * Hour, ic_ProcessingTimeout = 30 * Second,
       ic_FailedRetryBackoff = 5 * Second, ic_MaxStoredResponseLen = 64 * 1024, ic_ObserveOnly = True \<rparr>"

text \<open>The TTLs of the default coordinator, which may be missing.\<close>

definition DefaultWriteIdempotencyTTL :: "IdempotencyConfig option \<Rightarrow> duration" where
  "DefaultWriteIdempotencyTTL co =
     (case co of
        Some cfg \<Rightarrow> if ic_DefaultTTL cfg > 0 then ic_DefaultTTL cfg else ic_DefaultTTL DefaultIdempotencyConfig
      | None \<Rightarrow> ic_DefaultTTL DefaultIdempotencyConfig)"

definition DefaultSystemOperationIdempotencyTTL :: "IdempotencyConfig option \<Rightarrow> duration" where
  "DefaultSystemOperationIdempotencyTTL co =
     (case co of
        Some cfg \<Rightarrow>
          if ic_SystemOperationTTL cfg > 0 then ic_SystemOperationTTL cfg
          else ic_SystemOperationTTL DefaultIdempotencyConfig
      | None \<Rightarrow> ic_SystemOperationTTL DefaultIdempotencyConfig)"

text \<open>The interval and the batch size of the clean-up, from the configured seconds and size.\<close>

definition NewIdempotencyCleanupService :: "(int \<times> int) option \<Rightarrow> duration \<times> int" where
  "NewIdempotencyCleanupService cfg =
     (case cfg of
        None \<Rightarrow> (60 * Second, 500)
      | Some (intervalSeconds, batchSize) \<Rightarrow>
          (if intervalSeconds > 0 then int64_wrap (intervalSeconds * Second) else 60 * Second,
           if batchSize > 0 then batchSize else 500))"

text \<open>The options of a request, whether its executor is nil, and whether the coordinator has a table.\<close>

record IdempotencyExecuteOptions =
  op_Scope :: string
  op_ActorScope :: string
  op_Method :: string
  op_Route :: string
  op_IdempotencyKey :: string
  op_Payload :: goany
  op_TTL :: duration
  op_RequireKey :: bool
  op_executor_nil :: bool
  op_repo_nil :: bool

definition marshalStoredResponse :: "idem_env \<Rightarrow> IdempotencyConfig \<Rightarrow> goany \<Rightarrow> string option" where
  "marshalStoredResponse E cfg v =
     (case env_Marshal E v of
        None \<Rightarrow> None
      | Some raw \<Rightarrow>
          let redacted = env_Redact E raw
          in Some (if ic_MaxStoredResponseLen cfg > 0 \<and> int (length redacted) > ic_MaxStoredResponseLen cfg
                   then truncateUTF8 redacted (ic_MaxStoredResponseLen cfg) @ ''...(truncated)''
                   else redacted))"

definition decodeStoredResponse :: "idem_env \<Rightarrow> string option \<Rightarrow> goany option" where
  "decodeStoredResponse E stored =
     (case stored of
        None \<Rightarrow> Some (AnyMap [])
      | Some s \<Rightarrow> if strings_TrimSpace s = [] then Some (AnyMap []) else env_Unmarshal E s)"

text \<open>The local variables \<open>Execute\<close> computes before its first call of the table.\<close>

record claim =
  cl_keyHash :: string
  cl_fingerprint :: string
  cl_now :: gotime
  cl_expiresAt :: gotime
  cl_lockedUntil :: gotime

type_synonym idem_result = "goerr + goany \<times> bool"

datatype idem_place =
    Entry
  | Plain
  | Creating claim
  | Getting claim
  | ReclaimingExpired claim IdempotencyRecord
  | GettingLatest claim
  | ReclaimingFailed claim IdempotencyRecord
  | Executing claim int
  | Failing claim int gotime goerr
  | Succeeding claim int gotime goany
  | Returned idem_result

abbreviation refuse :: "ApplicationError \<Rightarrow> idem_place" where
  "refuse e \<equiv> Returned (Inl (AppError e))"

abbreviation unavailable :: idem_place where
  "unavailable \<equiv> refuse ErrIdempotencyStoreUnavail"

text \<open>Up to the first call.\<close>

definition execute_entry ::
  "idem_env \<Rightarrow> IdempotencyConfig \<Rightarrow> IdempotencyExecuteOptions \<Rightarrow> gotime \<Rightarrow> idempotencyMetrics \<Rightarrow> idem_place \<times> idempotencyMetrics" where
  "execute_entry E cfg opts now m =
     (if op_executor_nil opts
      then (refuse (InternalServer ''IDEMPOTENCY_EXECUTOR_NIL'' ''idempotency executor is nil''), m)
      else case NormalizeIdempotencyKey (op_IdempotencyKey opts) of
        Inl err \<Rightarrow> (refuse err, m)
      | Inr key \<Rightarrow>
          if key = [] then
            (if op_RequireKey opts \<and> \<not> ic_ObserveOnly cfg then refuse ErrIdempotencyKeyRequired else Plain, m)
          else if op_repo_nil opts then (unavailable, RecordIdempotencyStoreUnavailable m)
          else if op_Scope opts = [] then
            (refuse (BadRequest ''IDEMPOTENCY_SCOPE_REQUIRED'' ''idempotency scope is required''), m)
          else case BuildIdempotencyFingerprint E (op_Method opts) (op_Route opts) (op_ActorScope opts) (op_Payload opts) of
            Inl err \<Rightarrow> (refuse err, m)
          | Inr fingerprint \<Rightarrow>
              let ttl = (if op_TTL opts \<le> 0 then ic_DefaultTTL cfg else op_TTL opts)
              in (Creating \<lparr> cl_keyHash = HashIdempotencyKey E key, cl_fingerprint = fingerprint, cl_now = now,
                             cl_expiresAt = now + ttl, cl_lockedUntil = now + ic_ProcessingTimeout cfg \<rparr>, m))"

definition claim_record :: "IdempotencyExecuteOptions \<Rightarrow> claim \<Rightarrow> IdempotencyRecord" where
  "claim_record opts c =
     \<lparr> ir_ID = 0, ir_Scope = op_Scope opts, ir_KeyHash = cl_keyHash c, ir_Fingerprint = cl_fingerprint c,
       ir_Status = StatusProcessing, ir_ResponseStatus = None, ir_ResponseBody = None, ir_ErrorReason = None,
       ir_LockedUntil = Some (cl_lockedUntil c), ir_ExpiresAt = cl_expiresAt c,
       ir_CreatedAt = time_zero, ir_UpdatedAt = time_zero \<rparr>"

text \<open>The check of the ID that precedes the execution.\<close>

definition execute_with :: "claim \<Rightarrow> int \<Rightarrow> idempotencyMetrics \<Rightarrow> idem_place \<times> idempotencyMetrics" where
  "execute_with c i m =
     (if i = 0 then (unavailable, RecordIdempotencyStoreUnavailable m) else (Executing c i, m))"

text \<open>The switch over the status of the existing record.\<close>

definition on_status :: "idem_env \<Rightarrow> claim \<Rightarrow> IdempotencyRecord \<Rightarrow> idempotencyMetrics \<Rightarrow> idem_place \<times> idempotencyMetrics" where
  "on_status E c existing m =
     (if ir_Status existing = StatusSucceeded then
        (case decodeStoredResponse E (ir_ResponseBody existing) of
           None \<Rightarrow> (unavailable, RecordIdempotencyStoreUnavailable m)
         | Some v \<Rightarrow> (Returned (Inr (v, True)), recordIdempotencyReplay m))
      else if ir_Status existing = StatusProcessing then
        (refuse (conflictWithRetryAfter ErrIdempotencyInProgress (ir_LockedUntil existing) (cl_now c)),
         recordIdempotencyConflict m)
      else if ir_Status existing = StatusFailedRetryable then
        (if \<not> lock_free (cl_now c) existing
         then (refuse (conflictWithRetryAfter ErrIdempotencyRetryBackoff (ir_LockedUntil existing) (cl_now c)),
               recordIdempotencyRetryBackoff (recordIdempotencyConflict m))
         else (ReclaimingFailed c existing, m))
      else (refuse ErrIdempotencyKeyConflict, recordIdempotencyConflict m))"

definition on_existing ::
  "idem_env \<Rightarrow> claim \<Rightarrow> unit + IdempotencyRecord option \<Rightarrow> idempotencyMetrics \<Rightarrow> idem_place \<times> idempotencyMetrics" where
  "on_existing E c res m =
     (case res of
        Inl _ \<Rightarrow> (unavailable, RecordIdempotencyStoreUnavailable m)
      | Inr None \<Rightarrow> (unavailable, RecordIdempotencyStoreUnavailable m)
      | Inr (Some existing) \<Rightarrow>
          if ir_Fingerprint existing \<noteq> cl_fingerprint c
          then (refuse ErrIdempotencyKeyConflict, recordIdempotencyConflict m)
          else if ir_ExpiresAt existing \<le> cl_now c then (ReclaimingExpired c existing, m)
          else on_status E c existing m)"

text \<open>The same after a lost race for an expired record: its time is not looked at again.\<close>

definition on_latest ::
  "idem_env \<Rightarrow> claim \<Rightarrow> unit + IdempotencyRecord option \<Rightarrow> idempotencyMetrics \<Rightarrow> idem_place \<times> idempotencyMetrics" where
  "on_latest E c res m =
     (case res of
        Inl _ \<Rightarrow> (unavailable, RecordIdempotencyStoreUnavailable m)
      | Inr None \<Rightarrow> (unavailable, RecordIdempotencyStoreUnavailable m)
      | Inr (Some latest) \<Rightarrow>
          if ir_Fingerprint latest \<noteq> cl_fingerprint c
          then (refuse ErrIdempotencyKeyConflict, recordIdempotencyConflict m)
          else on_status E c latest m)"

section \<open>Steps\<close>

text \<open>
  What a step meets: the clock before and after it, the clock and the fate of its statement, and
  the result of the operation when it is the step that runs it.
\<close>

record idem_input =
  in_now :: gotime
  in_end :: gotime
  in_dbnow :: gotime
  in_fate :: fate
  in_exec :: "goerr + goany"

fun idem_step ::
  "idem_env \<Rightarrow> IdempotencyConfig \<Rightarrow> IdempotencyExecuteOptions \<Rightarrow> idem_input \<Rightarrow>
     idem_place \<Rightarrow> idem_table \<Rightarrow> idempotencyMetrics \<Rightarrow> idem_place \<times> idem_table \<times> idempotencyMetrics" where
  "idem_step E cfg opts inp Entry t m =
     (let (p, m) = execute_entry E cfg opts (in_now inp) m in (p, t, m))"
| "idem_step E cfg opts inp Plain t m =
     (Returned (case in_exec inp of Inl err \<Rightarrow> Inl err | Inr v \<Rightarrow> Inr (v, False)), t, m)"
| "idem_step E cfg opts inp (Creating c) t m =
     (case CreateProcessing (in_fate inp) (in_dbnow inp) (Some (claim_record opts c)) t of
        (Inl _, t) \<Rightarrow> (unavailable, t, RecordIdempotencyStoreUnavailable m)
      | (Inr (owner, rcd), t) \<Rightarrow>
          if owner then
            let (p, m) = execute_with c (case rcd of None \<Rightarrow> 0 | Some r \<Rightarrow> ir_ID r) (recordIdempotencyClaim m)
            in (p, t, m)
          else (Getting c, t, m))"
| "idem_step E cfg opts inp (Getting c) t m =
     (let (p, m) = on_existing E c (GetByScopeAndKeyHash (in_fate inp) (op_Scope opts) (cl_keyHash c) t) m
      in (p, t, m))"
| "idem_step E cfg opts inp (ReclaimingExpired c existing) t m =
     (case TryReclaim (in_fate inp) (in_dbnow inp) (ir_ID existing) (ir_Status existing) (cl_now c)
             (cl_lockedUntil c) (cl_expiresAt c) t of
        (Inl _, t) \<Rightarrow> (unavailable, t, RecordIdempotencyStoreUnavailable m)
      | (Inr taken, t) \<Rightarrow>
          if taken then let (p, m) = execute_with c (ir_ID existing) (recordIdempotencyClaim m) in (p, t, m)
          else (GettingLatest c, t, m))"
| "idem_step E cfg opts inp (GettingLatest c) t m =
     (let (p, m) = on_latest E c (GetByScopeAndKeyHash (in_fate inp) (op_Scope opts) (cl_keyHash c) t) m
      in (p, t, m))"
| "idem_step E cfg opts inp (ReclaimingFailed c existing) t m =
     (case TryReclaim (in_fate inp) (in_dbnow inp) (ir_ID existing) StatusFailedRetryable (cl_now c)
             (cl_lockedUntil c) (cl_expiresAt c) t of
        (Inl _, t) \<Rightarrow> (unavailable, t, RecordIdempotencyStoreUnavailable m)
      | (Inr taken, t) \<Rightarrow>
          if taken then let (p, m) = execute_with c (ir_ID existing) (recordIdempotencyClaim m) in (p, t, m)
          else (refuse (conflictWithRetryAfter ErrIdempotencyInProgress (ir_LockedUntil existing) (cl_now c)), t,
                recordIdempotencyConflict m))"
| "idem_step E cfg opts inp (Executing c i) t m =
     (case in_exec inp of
        Inl err \<Rightarrow> (Failing c i (in_now inp) err, t, m)
      | Inr v \<Rightarrow> (Succeeding c i (in_now inp) v, t, m))"
| "idem_step E cfg opts inp (Failing c i execStart err) t m =
     (let backoffUntil = in_now inp + ic_FailedRetryBackoff cfg;
          reason = (if Reason err = [] then ''EXECUTION_FAILED'' else Reason err);
          m = recordIdempotencyRetryBackoff m;
          (marked, t) = MarkFailedRetryable (in_fate inp) (in_dbnow inp) i reason backoffUntil (cl_expiresAt c) t;
          m = (case marked of Inl _ \<Rightarrow> RecordIdempotencyStoreUnavailable m | Inr _ \<Rightarrow> m)
      in (Returned (Inl err), t, recordIdempotencyProcessingDuration (time_Sub (in_end inp) execStart) m))"
| "idem_step E cfg opts inp (Succeeding c i execStart v) t m =
     (let (p, t, m) =
        (case marshalStoredResponse E cfg v of
           None \<Rightarrow> (unavailable, t, RecordIdempotencyStoreUnavailable m)
         | Some storedBody \<Rightarrow>
             (case MarkSucceeded (in_fate inp) (in_dbnow inp) i 200 storedBody (cl_expiresAt c) t of
                (Inl _, t) \<Rightarrow> (unavailable, t, RecordIdempotencyStoreUnavailable m)
              | (Inr _, t) \<Rightarrow> (Returned (Inr (v, False)), t, m)))
      in (p, t, recordIdempotencyProcessingDuration (time_Sub (in_end inp) execStart) m))"
| "idem_step E cfg opts inp (Returned r) t m = (Returned r, t, m)"

text \<open>
  \<open>Execute\<close> on its own: the steps of one request, which meets the inputs one after the other. No
  request makes more than eight steps.
\<close>

fun idem_run ::
  "idem_env \<Rightarrow> IdempotencyConfig \<Rightarrow> IdempotencyExecuteOptions \<Rightarrow> (nat \<Rightarrow> idem_input) \<Rightarrow> nat \<Rightarrow>
     idem_place \<times> idem_table \<times> idempotencyMetrics \<Rightarrow> idem_place \<times> idem_table \<times> idempotencyMetrics" where
  "idem_run E cfg opts inps 0 st = st"
| "idem_run E cfg opts inps (Suc n) (p, t, m) =
     idem_run E cfg opts (\<lambda>j. inps (Suc j)) n (idem_step E cfg opts (inps 0) p t m)"

definition Execute ::
  "idem_env \<Rightarrow> IdempotencyConfig \<Rightarrow> IdempotencyExecuteOptions \<Rightarrow> (nat \<Rightarrow> idem_input) \<Rightarrow>
     idem_table \<Rightarrow> idempotencyMetrics \<Rightarrow> idem_result option \<times> idem_table \<times> idempotencyMetrics" where
  "Execute E cfg opts inps t m =
     (case idem_run E cfg opts inps 8 (Entry, t, m) of
        (Returned r, t, m) \<Rightarrow> (Some r, t, m)
      | (_, t, m) \<Rightarrow> (None, t, m))"

text \<open>The number of steps a request can still make.\<close>

fun steps_left :: "idem_place \<Rightarrow> nat" where
  "steps_left Entry = 8"
| "steps_left Plain = 1"
| "steps_left (Creating c) = 7"
| "steps_left (Getting c) = 6"
| "steps_left (ReclaimingExpired c r) = 5"
| "steps_left (GettingLatest c) = 4"
| "steps_left (ReclaimingFailed c r) = 3"
| "steps_left (Executing c i) = 2"
| "steps_left (Failing c i s e) = 1"
| "steps_left (Succeeding c i s v) = 1"
| "steps_left (Returned r) = 0"

lemma steps_left_zero: "steps_left p = 0 \<longleftrightarrow> (\<exists>r. p = Returned r)"
  by (cases p) auto

lemma steps_left_step: "steps_left (fst (idem_step E cfg opts inp p t m)) \<le> steps_left p - 1"
  by (cases p) (auto simp: execute_entry_def execute_with_def on_existing_def on_latest_def on_status_def Let_def
      split: sum.splits option.splits prod.splits if_splits)

lemma steps_left_run: "steps_left (fst (idem_run E cfg opts inps n (p, t, m))) \<le> steps_left p - n"
proof (induction n arbitrary: p t m inps)
  case (Suc n)
  obtain p' t' m' where st: "idem_step E cfg opts (inps 0) p t m = (p', t', m')" by (metis prod_cases3)
  then have "steps_left p' \<le> steps_left p - 1"
    using steps_left_step [of E cfg opts "inps 0" p t m] by simp
  then show ?case using Suc.IH [of "\<lambda>j. inps (Suc j)" p' t' m'] st by simp
qed simp

lemma Execute_returns: "\<exists>r t' m'. Execute E cfg opts inps t m = (Some r, t', m')"
proof -
  obtain p t' m' where r: "idem_run E cfg opts inps 8 (Entry, t, m) = (p, t', m')" by (metis prod_cases3)
  then have "steps_left p = 0"
    using steps_left_run [of E cfg opts inps 8 Entry t m] by simp
  then show ?thesis using r by (auto simp: Execute_def steps_left_zero)
qed

section \<open>Concurrent requests\<close>

record idem_world =
  wd_table :: idem_table
  wd_metrics :: idempotencyMetrics
  wd_at :: "idem_place list"
  wd_done :: "(string \<times> string) list" \<comment> \<open>the keys of the operations that ran and succeeded\<close>

datatype idem_action = Act nat idem_input | Cleanup gotime int fate

definition executed_key :: "IdempotencyExecuteOptions \<Rightarrow> idem_input \<Rightarrow> idem_place \<Rightarrow> (string \<times> string) list" where
  "executed_key opts inp p =
     (case p of
        Executing c i \<Rightarrow> (case in_exec inp of Inl _ \<Rightarrow> [] | Inr _ \<Rightarrow> [(op_Scope opts, cl_keyHash c)])
      | _ \<Rightarrow> [])"

text \<open>\<open>cleanupOnce\<close> ignores what the statement returns.\<close>

definition cleanupOnce :: "gotime \<Rightarrow> int \<Rightarrow> fate \<Rightarrow> idem_table \<Rightarrow> idem_table" where
  "cleanupOnce now batch f t = snd (DeleteExpired f now batch t)"

fun idem_world_step ::
  "idem_env \<Rightarrow> IdempotencyConfig \<Rightarrow> IdempotencyExecuteOptions list \<Rightarrow> idem_action \<Rightarrow> idem_world \<Rightarrow> idem_world" where
  "idem_world_step E cfg reqs (Act p inp) w =
     (if p < length (wd_at w) then
        let (q, t, m) = idem_step E cfg (reqs ! p) inp (wd_at w ! p) (wd_table w) (wd_metrics w)
        in w \<lparr> wd_table := t, wd_metrics := m, wd_at := (wd_at w)[p := q],
               wd_done := executed_key (reqs ! p) inp (wd_at w ! p) @ wd_done w \<rparr>
      else w)"
| "idem_world_step E cfg reqs (Cleanup now limit f) w =
     w \<lparr> wd_table := cleanupOnce now limit f (wd_table w) \<rparr>"

definition idem_world_run ::
  "idem_env \<Rightarrow> IdempotencyConfig \<Rightarrow> IdempotencyExecuteOptions list \<Rightarrow> idem_action list \<Rightarrow> idem_world \<Rightarrow> idem_world" where
  "idem_world_run E cfg reqs as w = foldl (\<lambda>w a. idem_world_step E cfg reqs a w) w as"

definition zero_metrics :: idempotencyMetrics where
  "zero_metrics = \<lparr> im_claimTotal = 0, im_replayTotal = 0, im_conflictTotal = 0, im_retryBackoffTotal = 0,
     im_processingDurationCount = 0, im_processingDurationMicros = 0, im_storeUnavailableTotal = 0 \<rparr>"

definition idem_init :: "IdempotencyExecuteOptions list \<Rightarrow> idem_world" where
  "idem_init reqs = \<lparr> wd_table = empty_table, wd_metrics = zero_metrics,
     wd_at = replicate (length reqs) Entry, wd_done = [] \<rparr>"

end
