(* ===== verification/Idempotency_Proofs.thy ===== *)
theory Idempotency_Proofs
  imports Idempotency
begin

text \<open>
  What the idempotency coordinator guarantees when any number of requests run at the same time:
  within the lifetime of the records, the operation behind a key succeeds at most once and never
  runs twice at the same time. The invariant ties the place of every request to the row it owns.
\<close>

section \<open>Places and rows\<close>

definition effective_ttl :: "IdempotencyConfig \<Rightarrow> IdempotencyExecuteOptions \<Rightarrow> duration" where
  "effective_ttl cfg opts = (if op_TTL opts \<le> 0 then ic_DefaultTTL cfg else op_TTL opts)"

fun owner_id :: "idem_place \<Rightarrow> int option" where
  "owner_id (Executing c i) = Some i"
| "owner_id (Failing c i s e) = Some i"
| "owner_id (Succeeding c i s v) = Some i"
| "owner_id _ = None"

fun undecided_id :: "idem_place \<Rightarrow> int option" where
  "undecided_id (Executing c i) = Some i"
| "undecided_id (Failing c i s e) = Some i"
| "undecided_id _ = None"

lemma undecided_owner: "undecided_id q = Some i \<Longrightarrow> owner_id q = Some i"
  by (cases q) auto

definition has_row :: "idem_table \<Rightarrow> int \<Rightarrow> string \<times> string \<Rightarrow> bool" where
  "has_row t i k \<longleftrightarrow> (\<exists>r. row_by_id t i = Some r \<and> row_key r = k)"

definition owns :: "idem_table \<Rightarrow> int \<Rightarrow> string \<times> string \<Rightarrow> bool" where
  "owns t i k \<longleftrightarrow> (\<exists>r. row_by_id t i = Some r \<and> row_key r = k \<and> ir_Status r = StatusProcessing)"

definition claim_ok :: "gotime \<Rightarrow> claim \<Rightarrow> bool" where
  "claim_ok W c \<longleftrightarrow> cl_now c < W \<and> W \<le> cl_expiresAt c"

fun place_ok :: "IdempotencyExecuteOptions \<Rightarrow> gotime \<Rightarrow> idem_table \<Rightarrow> idem_place \<Rightarrow> bool" where
  "place_ok opts W t (Creating c) \<longleftrightarrow> claim_ok W c"
| "place_ok opts W t (Getting c) \<longleftrightarrow> claim_ok W c"
| "place_ok opts W t (ReclaimingExpired c r) \<longleftrightarrow> False"
| "place_ok opts W t (GettingLatest c) \<longleftrightarrow> False"
| "place_ok opts W t (ReclaimingFailed c r) \<longleftrightarrow> claim_ok W c \<and> has_row t (ir_ID r) (op_Scope opts, cl_keyHash c)"
| "place_ok opts W t (Executing c i) \<longleftrightarrow> claim_ok W c \<and> owns t i (op_Scope opts, cl_keyHash c)"
| "place_ok opts W t (Failing c i s e) \<longleftrightarrow> claim_ok W c \<and> owns t i (op_Scope opts, cl_keyHash c)"
| "place_ok opts W t (Succeeding c i s v) \<longleftrightarrow> claim_ok W c \<and> owns t i (op_Scope opts, cl_keyHash c)"
| "place_ok opts W t _ \<longleftrightarrow> True"

text \<open>The row of a key whose operation has succeeded: it is never given out again.\<close>

definition settled :: "idem_table \<Rightarrow> idem_place list \<Rightarrow> string \<times> string \<Rightarrow> bool" where
  "settled t qs k \<longleftrightarrow> (\<exists>i r. row_by_id t i = Some r \<and> row_key r = k \<and> ir_Status r \<noteq> StatusFailedRetryable \<and>
     (\<forall>q \<in> set qs. undecided_id q \<noteq> Some i))"

definition idem_inv :: "IdempotencyExecuteOptions list \<Rightarrow> gotime \<Rightarrow> idem_world \<Rightarrow> bool" where
  "idem_inv reqs W w \<longleftrightarrow>
     table_ok (wd_table w) \<and> length (wd_at w) = length reqs \<and>
     (\<forall>i r. row_by_id (wd_table w) i = Some r \<longrightarrow> W \<le> ir_ExpiresAt r) \<and>
     (\<forall>p < length reqs. place_ok (reqs ! p) W (wd_table w) (wd_at w ! p)) \<and>
     (\<forall>p < length reqs. \<forall>p' < length reqs. \<forall>i.
        owner_id (wd_at w ! p) = Some i \<longrightarrow> owner_id (wd_at w ! p') = Some i \<longrightarrow> p = p') \<and>
     distinct (wd_done w) \<and> (\<forall>k \<in> set (wd_done w). settled (wd_table w) (wd_at w) k)"

text \<open>
  The requests start on a table that earlier requests have left behind: none of its rows expires
  before \<open>W\<close>, and the rows of the operations that have succeeded so far are not marked retryable.
\<close>

definition idem_start :: "IdempotencyExecuteOptions list \<Rightarrow> idem_table \<Rightarrow> (string \<times> string) list \<Rightarrow> idem_world" where
  "idem_start reqs t ks = idem_init reqs \<lparr> wd_table := t, wd_done := ks \<rparr>"

definition live_table :: "gotime \<Rightarrow> idem_table \<Rightarrow> (string \<times> string) list \<Rightarrow> bool" where
  "live_table W t ks \<longleftrightarrow> table_ok t \<and> (\<forall>i r. row_by_id t i = Some r \<longrightarrow> W \<le> ir_ExpiresAt r) \<and> distinct ks \<and>
     (\<forall>k \<in> set ks. \<exists>i r. row_by_id t i = Some r \<and> row_key r = k \<and> ir_Status r \<noteq> StatusFailedRetryable)"

lemma live_table_empty: "live_table W empty_table []"
  by (simp add: live_table_def table_ok_empty) (simp add: row_by_id_def empty_table_def)

lemma idem_start_inv: "live_table W t ks \<Longrightarrow> idem_inv reqs W (idem_start reqs t ks)"
  by (fastforce simp: idem_inv_def idem_start_def idem_init_def live_table_def settled_def)

text \<open>A change of the table that is confined to one row and keeps its key.\<close>

definition changes :: "int \<Rightarrow> idem_table \<Rightarrow> idem_table \<Rightarrow> bool" where
  "changes i t t' \<longleftrightarrow> (\<forall>j. j \<noteq> i \<longrightarrow> row_by_id t' j = row_by_id t j) \<and>
     (\<forall>r. row_by_id t i = Some r \<longrightarrow> (\<exists>r'. row_by_id t' i = Some r' \<and> row_key r' = row_key r))"

lemma changes_same: "(\<And>j. row_by_id t' j = row_by_id t j) \<Longrightarrow> changes i t t'"
  by (simp add: changes_def)

lemma has_row_changes: "has_row t j k \<Longrightarrow> changes i t t' \<Longrightarrow> has_row t' j k"
  by (cases "j = i") (auto simp: has_row_def changes_def)

lemma place_ok_changes:
  assumes "place_ok opts W t q" and "changes i t t'" and "owner_id q \<noteq> Some i"
  shows "place_ok opts W t' q"
  using assms has_row_changes [OF _ assms(2)]
  by (cases q) (auto simp: owns_def changes_def)

lemma same_key_same_id:
  assumes "table_ok t" and "row_by_id t i = Some r" and "row_by_id t j = Some r'" and "row_key r = row_key r'"
  shows "i = j"
proof -
  have "find_row t (ir_Scope r) (ir_KeyHash r) = Some r" "find_row t (ir_Scope r) (ir_KeyHash r) = Some r'"
    using assms by (auto simp: find_row_iff row_by_id_iff row_key_def)
  then show ?thesis using assms(2,3) by (simp add: row_by_id_iff [OF assms(1)])
qed

lemma idem_inv_step:
  assumes inv: "idem_inv reqs W w" and p: "p < length reqs"
    and t': "table_ok t'" "changes i (wd_table w) t'" "\<And>r. row_by_id t' i = Some r \<Longrightarrow> W \<le> ir_ExpiresAt r"
    and others: "\<And>p'. p' < length reqs \<Longrightarrow> p' \<noteq> p \<Longrightarrow> owner_id (wd_at w ! p') \<noteq> Some i"
    and q: "place_ok (reqs ! p) W t' q" "\<And>j. owner_id q = Some j \<Longrightarrow> j = i"
    and log: "distinct ks" "\<And>k. k \<in> set ks \<Longrightarrow> settled t' ((wd_at w)[p := q]) k"
  shows "idem_inv reqs W (w \<lparr> wd_table := t', wd_metrics := m, wd_at := (wd_at w)[p := q], wd_done := ks \<rparr>)"
proof -
  have len: "length (wd_at w) = length reqs" using inv by (simp add: idem_inv_def)
  have e: "\<forall>i r. row_by_id (wd_table w) i = Some r \<longrightarrow> W \<le> ir_ExpiresAt r" using inv by (simp add: idem_inv_def)
  have "W \<le> ir_ExpiresAt r" if r: "row_by_id t' j = Some r" for j r
  proof (cases "j = i")
    case True
    then show ?thesis using t'(3) r by simp
  next
    case False
    then have "row_by_id (wd_table w) j = Some r" using t'(2) r by (simp add: changes_def)
    then show ?thesis using e by blast
  qed
  moreover have "place_ok (reqs ! p') W t' ((wd_at w)[p := q] ! p')" if "p' < length reqs" for p'
  proof (cases "p' = p")
    case True
    then show ?thesis using q(1) that len by simp
  next
    case False
    then show ?thesis
      using place_ok_changes [OF _ t'(2) others [OF that False]] inv that by (simp add: idem_inv_def)
  qed
  moreover have "p1 = p2" if "p1 < length reqs" "p2 < length reqs"
    "owner_id ((wd_at w)[p := q] ! p1) = Some j" "owner_id ((wd_at w)[p := q] ! p2) = Some j" for p1 p2 j
  proof -
    have o: "p' = p \<Longrightarrow> j = i" "p' \<noteq> p \<Longrightarrow> j \<noteq> i \<and> owner_id (wd_at w ! p') = Some j"
      if "p' < length reqs" "owner_id ((wd_at w)[p := q] ! p') = Some j" for p'
      using that len p q(2) others by auto
    note o1 = o [OF that(1,3)] and o2 = o [OF that(2,4)]
    have u: "owner_id (wd_at w ! p1) = Some j \<Longrightarrow> owner_id (wd_at w ! p2) = Some j \<Longrightarrow> p1 = p2"
      using inv that(1,2) by (simp add: idem_inv_def)
    show ?thesis
    proof (cases "p1 = p \<or> p2 = p")
      case True
      then show ?thesis using o1 o2 by blast
    next
      case False
      then show ?thesis using u o1(2) o2(2) by simp
    qed
  qed
  ultimately show ?thesis
    using t'(1) log len unfolding idem_inv_def by simp
qed

section \<open>Steps keep the invariant\<close>

lemma settled_step:
  assumes "settled t qs k" and "changes i t t'" and "\<And>j. undecided_id q = Some j \<Longrightarrow> j = i"
    and "\<And>r r'. row_by_id t i = Some r \<Longrightarrow> row_by_id t' i = Some r' \<Longrightarrow> row_key r = k \<Longrightarrow>
      ir_Status r \<noteq> StatusFailedRetryable \<Longrightarrow> \<forall>x \<in> set qs. undecided_id x \<noteq> Some i \<Longrightarrow>
      ir_Status r' \<noteq> StatusFailedRetryable \<and> undecided_id q \<noteq> Some i"
  shows "settled t' (qs[p := q]) k"
proof -
  obtain j r where j: "row_by_id t j = Some r" "row_key r = k" "ir_Status r \<noteq> StatusFailedRetryable"
      "\<forall>x \<in> set qs. undecided_id x \<noteq> Some j"
    using assms(1) unfolding settled_def by blast
  have sub: "set (qs[p := q]) \<subseteq> insert q (set qs)" by (rule set_update_subset_insert)
  show ?thesis
  proof (cases "j = i")
    case True
    then obtain r' where r': "row_by_id t' i = Some r'" "row_key r' = k" using assms(2) j(1,2) by (auto simp: changes_def)
    then have "ir_Status r' \<noteq> StatusFailedRetryable" "undecided_id q \<noteq> Some i"
      using assms(4) [of r r'] j True by simp_all
    then show ?thesis using r' j(4) True sub unfolding settled_def by blast
  next
    case False
    then have "row_by_id t' j = Some r" "undecided_id q \<noteq> Some j" using assms(2,3) j(1) by (auto simp: changes_def)
    then show ?thesis using j(2-4) sub unfolding settled_def by blast
  qed
qed

lemma idem_invD:
  assumes "idem_inv reqs W w"
  shows "table_ok (wd_table w)" and "length (wd_at w) = length reqs"
    and "row_by_id (wd_table w) i = Some r \<Longrightarrow> W \<le> ir_ExpiresAt r"
    and "p < length reqs \<Longrightarrow> place_ok (reqs ! p) W (wd_table w) (wd_at w ! p)"
    and "p < length reqs \<Longrightarrow> p' < length reqs \<Longrightarrow> owner_id (wd_at w ! p) = Some i \<Longrightarrow>
      owner_id (wd_at w ! p') = Some i \<Longrightarrow> p = p'"
    and "distinct (wd_done w)" and "k \<in> set (wd_done w) \<Longrightarrow> settled (wd_table w) (wd_at w) k"
  using assms unfolding idem_inv_def by blast+

lemma owner_row:
  assumes "place_ok opts W t q" and "owner_id q = Some i"
  shows "\<exists>r. row_by_id t i = Some r \<and> ir_Status r = StatusProcessing"
  using assms by (cases q) (auto simp: owns_def)

lemma row_zero: "table_ok t \<Longrightarrow> row_by_id t 0 = None"
  by (fastforce simp: row_by_id_None_iff table_ok_def)

text \<open>A step that leaves the rows alone and makes no claim.\<close>

lemma idem_inv_same_rows:
  assumes "idem_inv reqs W w" and "p < length reqs" and "table_ok t'"
    and "\<And>j. row_by_id t' j = row_by_id (wd_table w) j"
    and "place_ok (reqs ! p) W t' q" and "owner_id q = None"
  shows "idem_inv reqs W (w \<lparr> wd_table := t', wd_metrics := m, wd_at := (wd_at w)[p := q], wd_done := wd_done w \<rparr>)"
proof (rule idem_inv_step [OF assms(1,2,3), where i = 0])
  note inv = idem_invD [OF assms(1)]
  have z: "row_by_id (wd_table w) 0 = None" "row_by_id t' 0 = None"
    using row_zero [OF inv(1)] assms(4) by simp_all
  show c: "changes 0 (wd_table w) t'" using assms(4) by (rule changes_same)
  show "W \<le> ir_ExpiresAt r" if "row_by_id t' 0 = Some r" for r using that z by simp
  show "owner_id (wd_at w ! p') \<noteq> Some 0" if "p' < length reqs" "p' \<noteq> p" for p'
    using owner_row [OF inv(4) [OF that(1)], of 0] z by auto
  show "place_ok (reqs ! p) W t' q" by (rule assms(5))
  show "j = 0" if "owner_id q = Some j" for j using that assms(6) by simp
  show "distinct (wd_done w)" by (rule inv(6))
  have "undecided_id q = None" using assms(6) undecided_owner by (cases "undecided_id q") auto
  then show "settled t' ((wd_at w)[p := q]) k" if "k \<in> set (wd_done w)" for k
    using settled_step [OF inv(7) [OF that] c, of q p] z by simp
qed

text \<open>A step of the owner of a row that settles it or gives it up.\<close>

lemma idem_inv_owner:
  assumes "idem_inv reqs W w" and "p < length reqs" and "owner_id (wd_at w ! p) = Some i"
    and "table_ok t'" and "changes i (wd_table w) t'"
    and "\<And>r. row_by_id t' i = Some r \<Longrightarrow> W \<le> ir_ExpiresAt r"
    and "undecided_id (wd_at w ! p) = None \<Longrightarrow>
      \<forall>r'. row_by_id t' i = Some r' \<longrightarrow> ir_Status r' \<noteq> StatusFailedRetryable"
  shows "idem_inv reqs W (w \<lparr> wd_table := t', wd_metrics := m, wd_at := (wd_at w)[p := Returned res],
    wd_done := wd_done w \<rparr>)"
proof (rule idem_inv_step [OF assms(1,2,4,5,6)])
  note inv = idem_invD [OF assms(1)]
  show "owner_id (wd_at w ! p') \<noteq> Some i" if "p' < length reqs" "p' \<noteq> p" for p'
    using inv(5) [OF assms(2) that(1) assms(3)] that(2) by blast
  show "distinct (wd_done w)" by (rule inv(6))
  have at_p: "wd_at w ! p \<in> set (wd_at w)" using assms(2) inv(2) by simp
  have dec: "undecided_id (wd_at w ! p) = None" if "\<forall>x \<in> set (wd_at w). undecided_id x \<noteq> Some i"
    using that at_p assms(3) by (cases "wd_at w ! p") auto
  show "settled t' ((wd_at w)[p := Returned res]) k" if "k \<in> set (wd_done w)" for k
    by (rule settled_step [OF inv(7) [OF that] assms(5)]) (use assms(7) dec in auto)
qed simp_all

lemma create_step_inv:
  assumes "idem_inv reqs W w" and "p < length reqs" and "wd_at w ! p = Creating c"
    and "idem_step E cfg (reqs ! p) inp (Creating c) (wd_table w) (wd_metrics w) = (q, t', m)"
  shows "idem_inv reqs W (w \<lparr> wd_table := t', wd_metrics := m, wd_at := (wd_at w)[p := q], wd_done := wd_done w \<rparr>)"
proof -
  note inv = idem_invD [OF assms(1)]
  let ?t = "wd_table w" and ?r = "claim_record (reqs ! p) c" and ?k = "(op_Scope (reqs ! p), cl_keyHash c)"
  let ?i = "it_seq ?t" and ?d = "in_dbnow inp"
  have c: "claim_ok W c" using inv(4) [OF assms(2)] assms(3) by simp
  obtain res where cr: "CreateProcessing (in_fate inp) ?d (Some ?r) ?t = (res, t')"
    using assms(4) by (auto simp: execute_with_def split: prod.splits sum.splits if_splits option.splits)
  note cases = CreateProcessing_cases [OF inv(1) cr]
  have q: "q = Executing c ?i \<and> (\<exists>x. res = Inr (True, x)) \<or> owner_id q = None \<and> place_ok (reqs ! p) W t' q"
  proof (cases res)
    case (Inl u)
    then show ?thesis using assms(4) cr by auto
  next
    case (Inr bx)
    obtain b x where bx: "bx = (b, x)" by (cases bx)
    show ?thesis
    proof (cases b)
      case True
      then obtain r1 where "x = Some r1" "ir_ID r1 = ?i" using cases(2) Inr bx by blast
      moreover have "?i \<noteq> 0" using inv(1) by (simp add: table_ok_def)
      ultimately show ?thesis using assms(4) cr Inr bx True by (simp add: execute_with_def)
    next
      case False
      then show ?thesis using assms(4) cr Inr bx c by auto
    qed
  qed
  have key: "row_key (new_row ?d ?i ?r) = ?k" "ir_Status (new_row ?d ?i ?r) = StatusProcessing"
    "ir_ExpiresAt (new_row ?d ?i ?r) = cl_expiresAt c" "ir_Scope ?r = fst ?k" "ir_KeyHash ?r = snd ?k"
    by (simp_all add: row_key_def new_row_def claim_record_def)
  consider (same) "\<forall>j. row_by_id t' j = row_by_id ?t j" "owner_id q = None" "place_ok (reqs ! p) W t' q"
    | (new) "find_row ?t (fst ?k) (snd ?k) = None"
      "\<forall>j. row_by_id t' j = (if j = ?i then Some (new_row ?d ?i ?r) else row_by_id ?t j)"
  proof (cases "\<exists>x. res = Inr (True, x)")
    case True
    then obtain x where x: "res = Inr (True, x)" by blast
    show thesis
      by (rule new) (use cases(2) [OF x TrueI] in \<open>simp_all add: key(4,5)\<close>)
  next
    case False
    then have o: "owner_id q = None" "place_ok (reqs ! p) W t' q" using q by simp_all
    from cases(4) show thesis
    proof
      assume "\<forall>j. row_by_id t' j = row_by_id ?t j"
      from this o show thesis by (rule same)
    next
      assume a: "find_row ?t (ir_Scope ?r) (ir_KeyHash ?r) = None \<and>
        (\<forall>j. row_by_id t' j = (if j = ?i then Some (new_row ?d ?i ?r) else row_by_id ?t j))"
      show thesis by (rule new) (use a in \<open>simp_all add: key(4,5)\<close>)
    qed
  qed
  then show ?thesis
  proof cases
    case same
    then show ?thesis using idem_inv_same_rows [OF assms(1,2) cases(1)] by blast
  next
    case new
    have none: "row_by_id ?t ?i = None" using inv(1) by (fastforce simp: row_by_id_None_iff table_ok_def)
    have ch: "changes ?i ?t t'" using new(2) none by (simp add: changes_def)
    show ?thesis
    proof (rule idem_inv_step [OF assms(1,2) cases(1) ch])
      show "W \<le> ir_ExpiresAt r" if "row_by_id t' ?i = Some r" for r
        using that new(2) key(3) c by (simp add: claim_ok_def)
      show "owner_id (wd_at w ! p') \<noteq> Some ?i" if "p' < length reqs" "p' \<noteq> p" for p'
        using owner_row [OF inv(4) [OF that(1)], of ?i] none by auto
      have "owns t' ?i ?k" using new(2) key by (simp add: owns_def)
      then show "place_ok (reqs ! p) W t' q" using q c by auto
      show o: "j = ?i" if "owner_id q = Some j" for j using that q by auto
      show "distinct (wd_done w)" by (rule inv(6))
      show "settled t' ((wd_at w)[p := q]) k" if "k \<in> set (wd_done w)" for k
        by (rule settled_step [OF inv(7) [OF that] ch]) (use none o undecided_owner in auto)
    qed
  qed
qed

lemma reclaim_step_inv:
  assumes "idem_inv reqs W w" and "p < length reqs" and "wd_at w ! p = ReclaimingFailed c x"
    and "idem_step E cfg (reqs ! p) inp (ReclaimingFailed c x) (wd_table w) (wd_metrics w) = (q, t', m)"
  shows "idem_inv reqs W (w \<lparr> wd_table := t', wd_metrics := m, wd_at := (wd_at w)[p := q], wd_done := wd_done w \<rparr>)"
proof -
  note inv = idem_invD [OF assms(1)]
  let ?t = "wd_table w" and ?i = "ir_ID x" and ?k = "(op_Scope (reqs ! p), cl_keyHash c)"
  let ?rec = "reclaimed (in_dbnow inp) (cl_lockedUntil c) (cl_expiresAt c)"
  have c: "claim_ok W c" and k: "has_row ?t ?i ?k" using inv(4) [OF assms(2)] assms(3) by simp_all
  then have i0: "?i \<noteq> 0" using row_zero [OF inv(1)] by (auto simp: has_row_def)
  obtain res where tr: "TryReclaim (in_fate inp) (in_dbnow inp) ?i StatusFailedRetryable (cl_now c)
      (cl_lockedUntil c) (cl_expiresAt c) ?t = (res, t')"
    using assms(4) by (auto simp: execute_with_def split: prod.splits sum.splits if_splits)
  have q: "q = Executing c ?i \<and> res = Inr True \<or> owner_id q = None \<and> place_ok (reqs ! p) W t' q"
    using assms(4) tr i0 by (auto simp: execute_with_def split: sum.splits if_splits)
  note tr' = try_reclaim [OF inv(1) tr]
  consider (same) "\<forall>j. row_by_id t' j = row_by_id ?t j" "owner_id q = None" "place_ok (reqs ! p) W t' q"
    | (taken) r where "row_by_id ?t ?i = Some r" "ir_Status r = StatusFailedRetryable"
        "row_by_id t' ?i = Some (?rec r)" "\<forall>j. j \<noteq> ?i \<longrightarrow> row_by_id t' j = row_by_id ?t j"
  proof -
    consider (a) "row_by_id t' ?i = row_by_id ?t ?i"
      | (b) r where "row_by_id ?t ?i = Some r" "ir_Status r = StatusFailedRetryable" "row_by_id t' ?i = Some (?rec r)"
      using tr'(4) by blast
    then show thesis
    proof cases
      case a
      then have rows: "\<forall>j. row_by_id t' j = row_by_id ?t j" using tr'(3) by metis
      show thesis
      proof (cases "res = Inr True")
        case True
        then show ?thesis using sql.reclaim_taken [OF inv(1), of "in_fate inp"] tr tr'(3) taken by blast
      next
        case False
        then have "owner_id q = None" "place_ok (reqs ! p) W t' q" using q by auto
        then show ?thesis by (rule same [OF rows])
      qed
    next
      case b
      then show thesis using taken tr'(3) by blast
    qed
  qed
  then show ?thesis
  proof cases
    case same
    then show ?thesis using idem_inv_same_rows [OF assms(1,2) tr'(1)] by blast
  next
    case (taken r)
    have key: "row_key (?rec r) = ?k" "ir_Status (?rec r) = StatusProcessing" "ir_ExpiresAt (?rec r) = cl_expiresAt c"
      "row_key (?rec r) = row_key r"
      using k taken(1) by (auto simp: has_row_def row_key_def reclaimed_def)
    have ch: "changes ?i ?t t'" using taken key(4) by (simp add: changes_def)
    show ?thesis
    proof (rule idem_inv_step [OF assms(1,2) tr'(1) ch])
      show "W \<le> ir_ExpiresAt r'" if "row_by_id t' ?i = Some r'" for r'
        using that taken(3) key(3) c by (simp add: claim_ok_def)
      show "owner_id (wd_at w ! p') \<noteq> Some ?i" if "p' < length reqs" "p' \<noteq> p" for p'
        using owner_row [OF inv(4) [OF that(1)], of ?i] taken(1,2) by auto
      have "owns t' ?i ?k" using taken(3) key by (simp add: owns_def)
      then show "place_ok (reqs ! p) W t' q" using q c by auto
      show o: "j = ?i" if "owner_id q = Some j" for j using that q by auto
      show "distinct (wd_done w)" by (rule inv(6))
      show "settled t' ((wd_at w)[p := q]) k" if "k \<in> set (wd_done w)" for k
        by (rule settled_step [OF inv(7) [OF that] ch]) (use taken(1,2) o undecided_owner in auto)
    qed
  qed
qed

lemma getting_step:
  assumes "table_ok t" and "claim_ok W c" and "\<And>i r. row_by_id t i = Some r \<Longrightarrow> W \<le> ir_ExpiresAt r"
    and "idem_step E cfg opts inp (Getting c) t m = (q, t', m')"
  shows "t' = t" and "owner_id q = None" and "place_ok opts W t q"
proof -
  show "t' = t" using assms(4) by (auto split: prod.splits)
  have "owner_id q = None \<and> place_ok opts W t q"
  proof (cases "GetByScopeAndKeyHash (in_fate inp) (op_Scope opts) (cl_keyHash c) t")
    case (Inl u)
    then show ?thesis using assms(4) by (auto simp: on_existing_def)
  next
    case (Inr ro)
    show ?thesis
    proof (cases ro)
      case None
      then show ?thesis using assms(4) Inr by (auto simp: on_existing_def)
    next
      case (Some r)
      then have f: "find_row t (op_Scope opts) (cl_keyHash c) = Some r"
        using Inr by (auto simp: GetByScopeAndKeyHash_def split: if_splits)
      then have r: "row_by_id t (ir_ID r) = Some r" "row_key r = (op_Scope opts, cl_keyHash c)"
        using assms(1) by (simp_all add: find_row_iff row_by_id_iff row_key_def)
      then have "\<not> ir_ExpiresAt r \<le> cl_now c" using assms(2,3) by (force simp: claim_ok_def)
      then show ?thesis
        using assms(2,4) Inr Some r
        by (auto simp: on_existing_def on_status_def has_row_def split: prod.splits if_splits option.splits)
    qed
  qed
  then show "owner_id q = None" "place_ok opts W t q" by simp_all
qed

lemma exec_step_inv:
  assumes "idem_inv reqs W w" and "p < length reqs" and "wd_at w ! p = Executing c i"
    and "idem_step E cfg (reqs ! p) inp (Executing c i) (wd_table w) (wd_metrics w) = (q, t', m)"
  shows "idem_inv reqs W (w \<lparr> wd_table := t', wd_metrics := m, wd_at := (wd_at w)[p := q],
    wd_done := executed_key (reqs ! p) inp (Executing c i) @ wd_done w \<rparr>)"
proof -
  note inv = idem_invD [OF assms(1)]
  let ?t = "wd_table w" and ?k = "(op_Scope (reqs ! p), cl_keyHash c)"
  have t': "t' = ?t" using assms(4) by (auto split: sum.splits)
  have pl: "claim_ok W c" "owns ?t i ?k" using inv(4) [OF assms(2)] assms(3) by simp_all
  then obtain r where r: "row_by_id ?t i = Some r" "row_key r = ?k" "ir_Status r = StatusProcessing"
    by (auto simp: owns_def)
  have ch: "changes i ?t t'" unfolding t' by (rule changes_same) simp
  have others: "owner_id (wd_at w ! p') \<noteq> Some i" if "p' < length reqs" "p' \<noteq> p" for p'
    using inv(5) [OF assms(2) that(1), of i] assms(3) that(2) by auto
  have in_at: "Executing c i \<in> set (wd_at w)" using assms(2,3) inv(2) nth_mem by metis
  have fresh: "?k \<notin> set (wd_done w)"
  proof
    assume "?k \<in> set (wd_done w)"
    then obtain j r' where j: "row_by_id ?t j = Some r'" "row_key r' = ?k"
      "\<forall>q \<in> set (wd_at w). undecided_id q \<noteq> Some j" using inv(7) unfolding settled_def by blast
    have "j = i" by (rule same_key_same_id [OF inv(1) j(1) r(1)]) (simp add: j(2) r(2))
    then show False using j(3) in_at by force
  qed
  have q: "q = Failing c i (in_now inp) err \<and> executed_key (reqs ! p) inp (Executing c i) = []"
    if "in_exec inp = Inl err" for err
    using assms(4) that by (simp add: executed_key_def)
  have q': "q = Succeeding c i (in_now inp) v \<and> executed_key (reqs ! p) inp (Executing c i) = [?k]"
    if "in_exec inp = Inr v" for v
    using assms(4) that by (simp add: executed_key_def)
  have old: "settled t' ((wd_at w)[p := q]) k" if "k \<in> set (wd_done w)" for k
  proof (rule settled_step [OF inv(7) [OF that] ch])
    show "j = i" if "undecided_id q = Some j" for j using that q q' by (cases "in_exec inp") auto
  qed (use in_at r t' in force)+
  have new: "settled t' ((wd_at w)[p := q]) ?k" if "in_exec inp = Inr v" for v
  proof -
    have "undecided_id x \<noteq> Some i" if x: "x \<in> set ((wd_at w)[p := q])" for x
    proof -
      obtain n where n: "n < length reqs" "x = (wd_at w)[p := q] ! n"
        using x inv(2) by (auto simp: in_set_conv_nth)
      show ?thesis
      proof (cases "n = p")
        case True
        then show ?thesis using n q' [OF \<open>in_exec inp = Inr v\<close>] inv(2) by simp
      next
        case False
        then show ?thesis using n others [OF n(1) False] undecided_owner by auto
      qed
    qed
    then show ?thesis using r unfolding settled_def t' by (metis status_distinct(3))
  qed
  show ?thesis
  proof (rule idem_inv_step [OF assms(1,2) _ ch])
    show "table_ok t'" using inv(1) t' by simp
    show "W \<le> ir_ExpiresAt r" if "row_by_id t' i = Some r" for r using that inv(3) t' by simp
    show "place_ok (reqs ! p) W t' q" using q q' pl t' by (cases "in_exec inp") auto
    show "j = i" if "owner_id q = Some j" for j using that q q' by (cases "in_exec inp") auto
    show "distinct (executed_key (reqs ! p) inp (Executing c i) @ wd_done w)"
      using fresh inv(6) q q' by (cases "in_exec inp") auto
    show "settled t' ((wd_at w)[p := q]) k" if k: "k \<in> set (executed_key (reqs ! p) inp (Executing c i) @ wd_done w)" for k
    proof (cases "k \<in> set (wd_done w)")
      case True
      then show ?thesis by (rule old)
    next
      case False
      then obtain v where "in_exec inp = Inr v" "k = ?k" using k q q' by (cases "in_exec inp") auto
      then show ?thesis using new by simp
    qed
  qed (rule others)
qed

lemma mark_changes:
  assumes "row_by_id t' i = row_by_id t i \<or>
      (\<exists>r. row_by_id t i = Some r \<and> c r \<and> row_by_id t' i = Some (u r))"
    and "\<And>j. j \<noteq> i \<Longrightarrow> row_by_id t' j = row_by_id t j" and "keeps_key u"
  shows "changes i t t'"
  using assms by (auto simp: changes_def keeps_key_def row_key_def)

lemma failing_step_inv:
  assumes "idem_inv reqs W w" and "p < length reqs" and "wd_at w ! p = Failing c i st err"
    and "idem_step E cfg (reqs ! p) inp (Failing c i st err) (wd_table w) (wd_metrics w) = (q, t', m)"
  shows "idem_inv reqs W (w \<lparr> wd_table := t', wd_metrics := m, wd_at := (wd_at w)[p := q], wd_done := wd_done w \<rparr>)"
proof -
  note inv = idem_invD [OF assms(1)]
  have c: "claim_ok W c" using inv(4) [OF assms(2)] assms(3) by simp
  obtain res l msg where mk: "MarkFailedRetryable (in_fate inp) (in_dbnow inp) i msg l (cl_expiresAt c) (wd_table w) = (res, t')"
    and q: "q = Returned (Inl err)"
    using assms(4) by (auto simp: Let_def split: prod.splits)
  note mk' = mark_failed [OF inv(1) mk]
  have "W \<le> ir_ExpiresAt r" if "row_by_id t' i = Some r" for r
    using mk'(4) that inv(3) c by (auto simp: failed_row_def claim_ok_def)
  then show ?thesis
    unfolding q using assms(3)
    by (intro idem_inv_owner [OF assms(1,2) _ mk'(1) mark_changes [OF mk'(4,3) keeps_key_marks(2)]]) simp_all
qed

lemma succeeding_step_inv:
  assumes "idem_inv reqs W w" and "p < length reqs" and "wd_at w ! p = Succeeding c i st v"
    and "idem_step E cfg (reqs ! p) inp (Succeeding c i st v) (wd_table w) (wd_metrics w) = (q, t', m)"
  shows "idem_inv reqs W (w \<lparr> wd_table := t', wd_metrics := m, wd_at := (wd_at w)[p := q], wd_done := wd_done w \<rparr>)"
proof -
  note inv = idem_invD [OF assms(1)]
  have c: "claim_ok W c" and o: "owns (wd_table w) i (op_Scope (reqs ! p), cl_keyHash c)"
    using inv(4) [OF assms(2)] assms(3) by simp_all
  obtain res where q: "q = Returned res" using assms(4) by (auto simp: Let_def split: option.splits prod.splits sum.splits)
  have ow: "owner_id (wd_at w ! p) = Some i" using assms(3) by simp
  show ?thesis
  proof (cases "marshalStoredResponse E cfg v")
    case None
    then have t': "t' = wd_table w" using assms(4) by simp
    have ch: "changes i (wd_table w) t'" unfolding t' by (rule changes_same) simp
    have ok: "table_ok t'" using inv(1) t' by simp
    show ?thesis
      unfolding q by (rule idem_inv_owner [OF assms(1,2) ow ok ch]) (use o inv(3) t' in \<open>auto simp: owns_def\<close>)
  next
    case (Some b)
    then obtain x where mk: "MarkSucceeded (in_fate inp) (in_dbnow inp) i 200 b (cl_expiresAt c) (wd_table w) = (x, t')"
      using assms(4) by (auto split: prod.splits sum.splits)
    note mk' = mark_succeeded [OF inv(1) mk]
    have "W \<le> ir_ExpiresAt r" if "row_by_id t' i = Some r" for r
      using mk'(4) that inv(3) c by (auto simp: succeeded_row_def claim_ok_def)
    moreover have "\<forall>r'. row_by_id t' i = Some r' \<longrightarrow> ir_Status r' \<noteq> StatusFailedRetryable"
      using mk'(4) o by (auto simp: succeeded_row_def owns_def)
    ultimately show ?thesis
      unfolding q
      by (intro idem_inv_owner [OF assms(1,2) ow mk'(1) mark_changes [OF mk'(4,3) keeps_key_marks(1)]]) simp_all
  qed
qed

lemma entry_step:
  assumes "idem_step E cfg opts inp Entry t m = (q, t', m')"
    and "in_now inp < W" and "W \<le> in_now inp + effective_ttl cfg opts"
  shows "t' = t" and "owner_id q = None" and "place_ok opts W t q"
proof -
  show "t' = t" using assms(1) by (auto split: prod.splits)
  have "owner_id q = None \<and> place_ok opts W t q"
    using assms
    by (auto simp: execute_entry_def effective_ttl_def claim_ok_def Let_def split: prod.splits sum.splits if_splits)
  then show "owner_id q = None" "place_ok opts W t q" by simp_all
qed

definition in_window :: "IdempotencyConfig \<Rightarrow> IdempotencyExecuteOptions list \<Rightarrow> gotime \<Rightarrow> idem_action \<Rightarrow> bool" where
  "in_window cfg reqs W a \<longleftrightarrow> (case a of
       Act p inp \<Rightarrow> in_now inp < W \<and> (p < length reqs \<longrightarrow> W \<le> in_now inp + effective_ttl cfg (reqs ! p))
     | Cleanup now limit f \<Rightarrow> now < W)"

lemma act_inv:
  assumes "idem_inv reqs W w" and "in_window cfg reqs W (Act p inp)"
  shows "idem_inv reqs W (idem_world_step E cfg reqs (Act p inp) w)"
proof (cases "p < length reqs")
  case False
  then show ?thesis using assms(1) idem_invD(2) [OF assms(1)] by simp
next
  case p: True
  note inv = idem_invD [OF assms(1)]
  obtain q t' m where st: "idem_step E cfg (reqs ! p) inp (wd_at w ! p) (wd_table w) (wd_metrics w) = (q, t', m)"
    by (metis prod_cases3)
  have w': "idem_world_step E cfg reqs (Act p inp) w = w \<lparr> wd_table := t', wd_metrics := m,
      wd_at := (wd_at w)[p := q], wd_done := executed_key (reqs ! p) inp (wd_at w ! p) @ wd_done w \<rparr>"
    using p inv(2) st by simp
  have same: "idem_inv reqs W (w \<lparr> wd_table := t', wd_metrics := m, wd_at := (wd_at w)[p := q], wd_done := wd_done w \<rparr>)"
    if "t' = wd_table w" "owner_id q = None" "place_ok (reqs ! p) W (wd_table w) q"
    using idem_inv_same_rows [OF assms(1) p, of t' q m] that inv(1) by simp
  note time = assms(2) [unfolded in_window_def, simplified]
  show ?thesis
  proof (cases "wd_at w ! p")
    case Entry
    have t: "in_now inp < W" "W \<le> in_now inp + effective_ttl cfg (reqs ! p)" using time p by simp_all
    show ?thesis unfolding w' using same [OF entry_step [OF st [unfolded Entry] t]] Entry
      by (simp add: executed_key_def)
  next
    case Plain
    then show ?thesis unfolding w' using same st by (auto simp: executed_key_def)
  next
    case (Creating c)
    then show ?thesis unfolding w' using create_step_inv [OF assms(1) p Creating st [unfolded Creating]]
      by (simp add: executed_key_def)
  next
    case (Getting c)
    then have "claim_ok W c" using inv(4) [OF p] by simp
    then show ?thesis unfolding w' using same getting_step [OF inv(1) _ inv(3) st [unfolded Getting]] Getting
      by (simp add: executed_key_def)
  next
    case (ReclaimingExpired c r)
    then show ?thesis using inv(4) [OF p] by simp
  next
    case (GettingLatest c)
    then show ?thesis using inv(4) [OF p] by simp
  next
    case (ReclaimingFailed c r)
    then show ?thesis unfolding w' using reclaim_step_inv [OF assms(1) p ReclaimingFailed st [unfolded ReclaimingFailed]]
      by (simp add: executed_key_def)
  next
    case (Executing c i)
    then show ?thesis unfolding w' using exec_step_inv [OF assms(1) p Executing st [unfolded Executing]] by simp
  next
    case (Failing c i s e)
    then show ?thesis unfolding w' using failing_step_inv [OF assms(1) p Failing st [unfolded Failing]]
      by (simp add: executed_key_def)
  next
    case (Succeeding c i s v)
    then show ?thesis unfolding w' using succeeding_step_inv [OF assms(1) p Succeeding st [unfolded Succeeding]]
      by (simp add: executed_key_def)
  next
    case (Returned r)
    then have "q = Returned r" "t' = wd_table w" using st by simp_all
    moreover have "executed_key (reqs ! p) inp (wd_at w ! p) = []" using Returned by (simp add: executed_key_def)
    ultimately show ?thesis unfolding w' using same by simp
  qed
qed

lemma cleanup_inv:
  assumes "idem_inv reqs W w" and "now < W"
  shows "idem_inv reqs W (idem_world_step E cfg reqs (Cleanup now limit f) w)"
proof -
  note inv = idem_invD [OF assms(1)]
  obtain res t' where d: "DeleteExpired f now limit (wd_table w) = (res, t')" by (cases "DeleteExpired f now limit (wd_table w)")
  note d' = DeleteExpired_cases [OF inv(1) d]
  have same: "row_by_id t' i = row_by_id (wd_table w) i" for i
  proof (cases "row_by_id (wd_table w) i")
    case None
    then show ?thesis using d'(2) by (cases "row_by_id t' i") auto
  next
    case (Some r)
    then show ?thesis using d'(3) [OF Some] inv(3) [OF Some] assms(2) by simp
  qed
  have "place_ok opts W t' q = place_ok opts W (wd_table w) q" for opts q
    by (cases q) (simp_all add: has_row_def owns_def same)
  moreover have "settled t' qs k = settled (wd_table w) qs k" for qs k by (simp add: settled_def same)
  ultimately show ?thesis
    using assms(1) d d'(1) by (simp add: idem_inv_def same cleanupOnce_def)
qed

lemma idem_world_run_inv:
  assumes "idem_inv reqs W w" and "\<forall>a \<in> set as. in_window cfg reqs W a"
  shows "idem_inv reqs W (idem_world_run E cfg reqs as w)"
  using assms
proof (induction as arbitrary: w)
  case (Cons a as)
  have "idem_inv reqs W (idem_world_step E cfg reqs a w)"
    using Cons.prems act_inv cleanup_inv by (cases a) (auto simp: in_window_def)
  then show ?case using Cons by (simp add: idem_world_run_def)
qed (simp add: idem_world_run_def)

section \<open>Guarantees\<close>

definition example_env :: idem_env where
  "example_env = \<lparr> env_upper = (\<lambda>s. s), env_sha256 = (\<lambda>s. s), env_Marshal = (\<lambda>v. Some ''{}''),
     env_Unmarshal = (\<lambda>s. if s = ''{}'' then Some (AnyMap []) else None), env_Redact = (\<lambda>s. s) \<rparr>"

definition example_opts :: IdempotencyExecuteOptions where
  "example_opts = \<lparr> op_Scope = ''pay'', op_ActorScope = ''user:1'', op_Method = ''POST'', op_Route = ''/pay'',
     op_IdempotencyKey = ''k1'', op_Payload = AnyNil, op_TTL = 0, op_RequireKey = True,
     op_executor_nil = False, op_repo_nil = False \<rparr>"

definition ok_input :: "gotime \<Rightarrow> idem_input" where
  "ok_input now = \<lparr> in_now = now, in_end = now, in_dbnow = now, in_fate = Works, in_exec = Inr AnyNil \<rparr>"

text \<open>
  Property C10 (safety). At most once: let any number of requests run at the same time, in any
  interleaving, with statements failing on either side of their effect and expired records being
  deleted in between, on a table that earlier requests have left behind. While all of it happens
  within one TTL and no row of that table expires in this time, every operation succeeds at most
  once per scope and key, two requests with the same scope and key never run the operation at the
  same time, and no request runs it again after it succeeded, be it now or earlier. The condition
  on the rows is needed: a row that is already expired can be reclaimed by two requests
  (\<open>expired_record_reclaimed_twice\<close>).
\<close>

theorem idempotent_execution_once:
  assumes "\<forall>a \<in> set as. (case a of Act p inp \<Rightarrow> t0 \<le> in_now inp \<and> in_now inp < t0 + D
      | Cleanup now limit f \<Rightarrow> now < t0 + D)"
    and "\<forall>opts \<in> set reqs. D \<le> effective_ttl cfg opts"
    and "live_table (t0 + D) t ks" "w = idem_world_run E cfg reqs as (idem_start reqs t ks)"
  shows "distinct (wd_done w) \<and>
    (\<forall>p p' c c' i i'. p < length reqs \<and> p' < length reqs \<and> wd_at w ! p = Executing c i \<and>
      wd_at w ! p' = Executing c' i' \<and>
      (op_Scope (reqs ! p), cl_keyHash c) = (op_Scope (reqs ! p'), cl_keyHash c') \<longrightarrow> p = p') \<and>
    (\<forall>p c i. p < length reqs \<and> wd_at w ! p = Executing c i \<longrightarrow>
      (op_Scope (reqs ! p), cl_keyHash c) \<notin> set (wd_done w))"
proof -
  have "in_window cfg reqs (t0 + D) a" if a: "a \<in> set as" for a
  proof (cases a)
    case (Act p inp)
    then have n: "t0 \<le> in_now inp" "in_now inp < t0 + D" using bspec [OF assms(1) a] by simp_all
    moreover have "D \<le> effective_ttl cfg (reqs ! p)" if "p < length reqs" using assms(2) that by simp
    ultimately show ?thesis using Act by (auto simp: in_window_def)
  next
    case (Cleanup now limit f)
    then show ?thesis using bspec [OF assms(1) a] by (simp add: in_window_def)
  qed
  then have inv0: "idem_inv reqs (t0 + D) w"
    unfolding assms(4) using idem_world_run_inv [OF idem_start_inv [OF assms(3)]] by blast
  note inv = idem_invD [OF inv0]
  have row: "\<exists>r. row_by_id (wd_table w) i = Some r \<and> row_key r = (op_Scope (reqs ! p), cl_keyHash c)"
    if "p < length reqs" "wd_at w ! p = Executing c i" for p c i
    using inv(4) [OF that(1)] that(2) by (auto simp: owns_def)
  have "p = p'" if a: "p < length reqs" "p' < length reqs" "wd_at w ! p = Executing c i" "wd_at w ! p' = Executing c' i'"
      "(op_Scope (reqs ! p), cl_keyHash c) = (op_Scope (reqs ! p'), cl_keyHash c')" for p p' c c' i i'
  proof -
    obtain r r' where "row_by_id (wd_table w) i = Some r" "row_by_id (wd_table w) i' = Some r'" "row_key r = row_key r'"
      using row [OF a(1,3)] row [OF a(2,4)] a(5) by auto
    then have "i = i'" by (rule same_key_same_id [OF inv(1)])
    then show ?thesis using inv(5) [OF a(1,2), of i] a(3,4) by simp
  qed
  moreover have "(op_Scope (reqs ! p), cl_keyHash c) \<notin> set (wd_done w)"
    if a: "p < length reqs" "wd_at w ! p = Executing c i" for p c i
  proof
    assume "(op_Scope (reqs ! p), cl_keyHash c) \<in> set (wd_done w)"
    then obtain j r where j: "row_by_id (wd_table w) j = Some r" "row_key r = (op_Scope (reqs ! p), cl_keyHash c)"
      "\<forall>q \<in> set (wd_at w). undecided_id q \<noteq> Some j" using inv(7) unfolding settled_def by blast
    obtain r' where r': "row_by_id (wd_table w) i = Some r'" "row_key r' = (op_Scope (reqs ! p), cl_keyHash c)"
      using row [OF a] by blast
    have "j = i" by (rule same_key_same_id [OF inv(1) j(1) r'(1)]) (simp add: j(2) r'(2))
    moreover have "Executing c i \<in> set (wd_at w)" using a inv(2) nth_mem by metis
    ultimately show False using j(3) by force
  qed
  ultimately show ?thesis using inv(6) by blast
qed

theorem idempotent_execution_once_witness:
  "let reqs = [example_opts, example_opts];
       as = map (\<lambda>p. Act p (ok_input 5)) [0, 1, 0, 1, 0, 1, 0, 1];
       w = idem_world_run example_env DefaultIdempotencyConfig reqs as (idem_start reqs empty_table [])
   in wd_done w = [(''pay'', ''6b31'')] \<and> distinct (wd_done w)"
proof -
  let ?reqs = "[example_opts, example_opts]"
  let ?as = "map (\<lambda>p. Act p (ok_input 5)) [0, 1, 0, 1, 0, 1, 0, 1]"
  let ?w = "idem_world_run example_env DefaultIdempotencyConfig ?reqs ?as (idem_start ?reqs empty_table [])"
  have "wd_done ?w = [(''pay'', ''6b31'')]" by code_simp
  moreover have "distinct (wd_done ?w)"
  proof -
    have "\<forall>a \<in> set ?as. (case a of Act p inp \<Rightarrow> 0 \<le> in_now inp \<and> in_now inp < 0 + Hour | Cleanup now limit f \<Rightarrow> now < 0 + Hour)"
      "\<forall>opts \<in> set ?reqs. Hour \<le> effective_ttl DefaultIdempotencyConfig opts"
      by code_simp+
    then show ?thesis using idempotent_execution_once [OF _ _ live_table_empty refl] by blast
  qed
  ultimately show ?thesis by (simp add: Let_def)
qed

end
