(* ===== verification/Idempotency_Replay.thy ===== *)
theory Idempotency_Replay
  imports Idempotency_Proofs
begin

text \<open>
  What single requests of the idempotency coordinator return: a repeated request gets the stored
  response, a key that is reused with another payload is refused. Two defects are shown on
  concrete or symbolic runs: a response that was cut off on storage cannot be replayed, and two
  requests that find the same expired record can both run the operation.
\<close>

section \<open>Runs of one request\<close>

lemma run_Returned: "idem_run E cfg opts inps n (Returned r, t, m) = (Returned r, t, m)"
  by (induction n arbitrary: inps) simp_all

definition keyed :: "idem_env \<Rightarrow> IdempotencyExecuteOptions \<Rightarrow> string \<Rightarrow> string \<Rightarrow> bool" where
  "keyed E opts key fp \<longleftrightarrow> \<not> op_executor_nil opts \<and> \<not> op_repo_nil opts \<and> op_Scope opts \<noteq> [] \<and>
     NormalizeIdempotencyKey (op_IdempotencyKey opts) = Inr key \<and> key \<noteq> [] \<and>
     BuildIdempotencyFingerprint E (op_Method opts) (op_Route opts) (op_ActorScope opts) (op_Payload opts) = Inr fp"

definition claim_of :: "idem_env \<Rightarrow> IdempotencyConfig \<Rightarrow> IdempotencyExecuteOptions \<Rightarrow> string \<Rightarrow> string \<Rightarrow> gotime \<Rightarrow> claim" where
  "claim_of E cfg opts key fp now =
     \<lparr> cl_keyHash = HashIdempotencyKey E key, cl_fingerprint = fp, cl_now = now,
       cl_expiresAt = now + effective_ttl cfg opts, cl_lockedUntil = now + ic_ProcessingTimeout cfg \<rparr>"

lemma claim_of_simps [simp]:
  "cl_keyHash (claim_of E cfg opts key fp now) = HashIdempotencyKey E key"
  "cl_fingerprint (claim_of E cfg opts key fp now) = fp"
  "cl_now (claim_of E cfg opts key fp now) = now"
  "cl_expiresAt (claim_of E cfg opts key fp now) = now + effective_ttl cfg opts"
  by (simp_all add: claim_of_def)

lemma keyed_entry:
  "keyed E opts key fp \<Longrightarrow>
     idem_step E cfg opts inp Entry t m = (Creating (claim_of E cfg opts key fp (in_now inp)), t, m)"
  by (simp add: keyed_def execute_entry_def claim_of_def effective_ttl_def Let_def)

lemma Execute_keyed:
  assumes "keyed E opts key fp"
  shows "Execute E cfg opts inps t m =
    (case idem_run E cfg opts (\<lambda>j. inps (Suc j)) 7 (Creating (claim_of E cfg opts key fp (in_now (inps 0))), t, m) of
       (Returned r, t, m) \<Rightarrow> (Some r, t, m) | (_, t, m) \<Rightarrow> (None, t, m))"
proof -
  have "idem_run E cfg opts inps 8 (Entry, t, m) =
      idem_run E cfg opts (\<lambda>j. inps (Suc j)) 7 (Creating (claim_of E cfg opts key fp (in_now (inps 0))), t, m)"
    using idem_run.simps(2) [of E cfg opts inps 7 Entry t m] keyed_entry [OF assms, of cfg "inps 0" t m] by simp
  then show ?thesis by (simp add: Execute_def)
qed

text \<open>
  Whether a request runs the operation it was sent for: some step of it starts at the call of the
  operation, with or without a record.
\<close>

definition operating :: "idem_place \<Rightarrow> bool" where
  "operating p = (case p of Plain \<Rightarrow> True | Executing c i \<Rightarrow> True | _ \<Rightarrow> False)"

fun runs_within ::
  "idem_env \<Rightarrow> IdempotencyConfig \<Rightarrow> IdempotencyExecuteOptions \<Rightarrow> (nat \<Rightarrow> idem_input) \<Rightarrow> nat \<Rightarrow>
   idem_place \<times> idem_table \<times> idempotencyMetrics \<Rightarrow> bool" where
  "runs_within E cfg opts inps 0 st = False"
| "runs_within E cfg opts inps (Suc n) (p, t, m) =
     (operating p \<or> runs_within E cfg opts (\<lambda>j. inps (Suc j)) n (idem_step E cfg opts (inps 0) p t m))"

definition runs_operation ::
  "idem_env \<Rightarrow> IdempotencyConfig \<Rightarrow> IdempotencyExecuteOptions \<Rightarrow> (nat \<Rightarrow> idem_input) \<Rightarrow> idem_table \<Rightarrow>
   idempotencyMetrics \<Rightarrow> bool" where
  "runs_operation E cfg opts inps t m = runs_within E cfg opts inps 8 (Entry, t, m)"

lemma operating_simps [simp]:
  "operating Plain" "operating (Executing c i)" "\<not> operating Entry" "\<not> operating (Creating cl)" "\<not> operating (Getting cl)"
  "\<not> operating (Returned r)"
  by (simp_all add: operating_def)

lemma runs_within_Returned: "\<not> runs_within E cfg opts inps n (Returned r, t, m)"
  by (induction n arbitrary: inps) simp_all

lemma runs_operation_keyed:
  assumes "keyed E opts key fp"
  shows "runs_operation E cfg opts inps t m \<longleftrightarrow>
    runs_within E cfg opts (\<lambda>j. inps (Suc j)) 7 (Creating (claim_of E cfg opts key fp (in_now (inps 0))), t, m)"
  using runs_within.simps(2) [of E cfg opts inps 7 Entry t m] keyed_entry [OF assms, of cfg "inps 0" t m]
  by (simp add: runs_operation_def)

text \<open>The first request with a key whose operation succeeds.\<close>

lemma Execute_fresh:
  assumes k: "keyed E opts key fp" and ok: "table_ok t"
    and none: "find_row t (op_Scope opts) (HashIdempotencyKey E key) = None"
    and works: "\<forall>j. in_fate (inps j) = Works" and ex: "in_exec (inps 2) = Inr v"
    and body: "marshalStoredResponse E cfg v = Some body"
  shows "runs_operation E cfg opts inps t m \<and>
    (\<exists>t1 m1 r. Execute E cfg opts inps t m = (Some (Inr (v, False)), t1, m1) \<and> table_ok t1 \<and>
    find_row t1 (op_Scope opts) (HashIdempotencyKey E key) = Some r \<and> ir_Status r = StatusSucceeded \<and>
    ir_ResponseBody r = Some body \<and> ir_Fingerprint r = fp \<and>
    ir_ExpiresAt r = in_now (inps 0) + effective_ttl cfg opts)"
proof -
  let ?c = "claim_of E cfg opts key fp (in_now (inps 0))" and ?i = "it_seq t"
  obtain r0 t0 where cr: "CreateProcessing (in_fate (inps 1)) (in_dbnow (inps 1)) (Some (claim_record opts ?c)) t =
      (Inr (True, Some r0), t0)"
    using none works by (simp add: CreateProcessing_def claim_record_def Let_def statement_Works)
  note cr' = CreateProcessing_cases [OF ok cr]
  have key: "ir_Scope (claim_record opts ?c) = op_Scope opts" "ir_KeyHash (claim_record opts ?c) = HashIdempotencyKey E key"
    by (simp_all add: claim_record_def)
  have r0: "ir_ID r0 = ?i" "?i \<noteq> 0" using cr'(2) ok by (auto simp: table_ok_def)
  obtain t1 where mk: "MarkSucceeded (in_fate (inps 3)) (in_dbnow (inps 3)) ?i 200 body (cl_expiresAt ?c) t0 = (Inr (), t1)"
    using works by (simp add: MarkSucceeded_def statement_Works)
  note mk' = mark_succeeded [OF cr'(1) mk]
  let ?r = "succeeded_row (in_dbnow (inps 3)) 200 body (cl_expiresAt ?c) (new_row (in_dbnow (inps 1)) ?i (claim_record opts ?c))"
  have row: "row_by_id t1 ?i = Some ?r"
    using mk'(5) [OF refl] cr'(2) [OF refl TrueI] by simp
  have "find_row t1 (op_Scope opts) (HashIdempotencyKey E key) = Some ?r"
    using row mk'(1) by (simp add: find_row_iff row_by_id_iff succeeded_row_def new_row_def claim_record_def)
  moreover have "\<exists>m1. Execute E cfg opts inps t m = (Some (Inr (v, False)), t1, m1)"
    using cr r0 ex body mk
    by (simp add: Execute_keyed [OF k] eval_nat_numeral execute_with_def run_Returned)
  moreover have "runs_operation E cfg opts inps t m"
    using cr r0 by (simp add: runs_operation_keyed [OF k] eval_nat_numeral execute_with_def)
  ultimately show ?thesis
    using mk'(1) by (auto simp: succeeded_row_def new_row_def claim_record_def)
qed

text \<open>A request that finds a record that has succeeded and is still valid.\<close>

lemma Execute_succeeded:
  assumes k: "keyed E opts key fp"
    and row: "find_row t (op_Scope opts) (HashIdempotencyKey E key) = Some r" "ir_Status r = StatusSucceeded"
      "in_now (inps 0) < ir_ExpiresAt r"
    and works: "\<forall>j. in_fate (inps j) = Works"
  shows "\<not> runs_operation E cfg opts inps t m \<and> (\<exists>t' m'. Execute E cfg opts inps t m =
    (Some (if ir_Fingerprint r \<noteq> fp then Inl (AppError ErrIdempotencyKeyConflict)
           else case decodeStoredResponse E (ir_ResponseBody r) of
                  None \<Rightarrow> Inl (AppError ErrIdempotencyStoreUnavail) | Some v \<Rightarrow> Inr (v, True)), t', m') \<and>
    it_rows t' = it_rows t)"
proof -
  let ?c = "claim_of E cfg opts key fp (in_now (inps 0))" and ?t = "t \<lparr> it_seq := it_seq t + 1 \<rparr>"
  have cr: "CreateProcessing (in_fate (inps 1)) (in_dbnow (inps 1)) (Some (claim_record opts ?c)) t =
      (Inr (False, Some (claim_record opts ?c)), ?t)"
    using row(1) works by (simp add: CreateProcessing_def claim_record_def Let_def statement_Works)
  have "GetByScopeAndKeyHash (in_fate (inps 2)) (op_Scope opts) (HashIdempotencyKey E key) ?t = Inr (Some r)"
    using row(1) works by (simp add: GetByScopeAndKeyHash_def find_row_def)
  then show ?thesis
    using cr row(2,3)
    by (auto simp: Execute_keyed [OF k] runs_operation_keyed [OF k] eval_nat_numeral on_existing_def on_status_def
        run_Returned runs_within_Returned split: option.splits)
qed

section \<open>Guarantees\<close>

text \<open>
  Property C11 (functional). A repeated request is answered from the store: after the first request
  with a fresh key ran the operation and succeeded, any later request with the same scope and key,
  before the record expires, leaves the rows alone and does not run its operation, provided that
  the statements of both requests work. It gets a key conflict when its fingerprint differs. When
  the fingerprint is the same it gets the stored response, marked as replayed, or the error that the
  store is unavailable in the case that the stored text cannot be decoded again (which happens to
  responses that were cut off on storage: \<open>oversized_response_never_replayed\<close>). The first request
  got the result of the operation itself.
\<close>

theorem idempotent_replay:
  assumes "keyed E opts key fp" and "table_ok t"
    and "find_row t (op_Scope opts) (HashIdempotencyKey E key) = None"
    and "\<forall>j. in_fate (inps j) = Works" and "in_exec (inps 2) = Inr v"
    and "marshalStoredResponse E cfg v = Some body"
    and "keyed E opts' key fp'" and "op_Scope opts' = op_Scope opts" and "\<forall>j. in_fate (inps' j) = Works"
    and "in_now (inps' 0) < in_now (inps 0) + effective_ttl cfg opts"
  shows "runs_operation E cfg opts inps t m \<and>
    (\<exists>t1 m1 t2 m2. Execute E cfg opts inps t m = (Some (Inr (v, False)), t1, m1) \<and>
    \<not> runs_operation E cfg opts' inps' t1 m1 \<and>
    Execute E cfg opts' inps' t1 m1 =
      (Some (if fp' \<noteq> fp then Inl (AppError ErrIdempotencyKeyConflict)
             else case decodeStoredResponse E (Some body) of
                    None \<Rightarrow> Inl (AppError ErrIdempotencyStoreUnavail) | Some x \<Rightarrow> Inr (x, True)), t2, m2) \<and>
    it_rows t2 = it_rows t1)"
proof -
  obtain t1 m1 r where e: "runs_operation E cfg opts inps t m"
      "Execute E cfg opts inps t m = (Some (Inr (v, False)), t1, m1)"
    and r: "find_row t1 (op_Scope opts) (HashIdempotencyKey E key) = Some r" "ir_Status r = StatusSucceeded"
      "ir_ResponseBody r = Some body" "ir_Fingerprint r = fp" "ir_ExpiresAt r = in_now (inps 0) + effective_ttl cfg opts"
    using Execute_fresh [OF assms(1-6), of m] by blast
  have "in_now (inps' 0) < ir_ExpiresAt r" using assms(10) r(5) by simp
  then show ?thesis
    using Execute_succeeded [OF assms(7) _ r(2) _ assms(9), of t1 cfg m1] e r assms(8) by auto
qed

lemma example_keyed: "keyed example_env example_opts ''k1'' (hex_EncodeToString (''POST'' @ [CHR 0x0A] @ ''/pay'' @ [CHR 0x0A] @ ''user:1'' @ [CHR 0x0A] @ ''{}''))"
  by code_simp

lemma find_row_empty [simp]: "find_row empty_table s k = None"
  by (simp add: find_row_def empty_table_def)

theorem idempotent_replay_witness:
  "runs_operation example_env DefaultIdempotencyConfig example_opts (\<lambda>_. ok_input 5) empty_table zero_metrics \<and>
   (\<exists>t1 m1 t2 m2. Execute example_env DefaultIdempotencyConfig example_opts (\<lambda>_. ok_input 5) empty_table zero_metrics =
      (Some (Inr (AnyNil, False)), t1, m1) \<and>
    \<not> runs_operation example_env DefaultIdempotencyConfig example_opts (\<lambda>_. ok_input 7) t1 m1 \<and>
    Execute example_env DefaultIdempotencyConfig example_opts (\<lambda>_. ok_input 7) t1 m1 =
      (Some (Inr (AnyMap [], True)), t2, m2) \<and> it_rows t2 = it_rows t1)"
proof -
  have "marshalStoredResponse example_env DefaultIdempotencyConfig AnyNil = Some ''{}''"
    "decodeStoredResponse example_env (Some ''{}'') = Some (AnyMap [])"
    "in_now (ok_input 7) < in_now (ok_input 5) + effective_ttl DefaultIdempotencyConfig example_opts"
    "in_exec (ok_input 5) = Inr AnyNil" "in_fate (ok_input 5) = Works" "in_fate (ok_input 7) = Works" by code_simp+
  then show ?thesis
    using idempotent_replay [OF example_keyed table_ok_empty _ _ _ _ example_keyed, where cfg = DefaultIdempotencyConfig
        and inps = "\<lambda>_. ok_input 5" and inps' = "\<lambda>_. ok_input 7" and m = zero_metrics
        and v = AnyNil and body = "''{}''"] by simp
qed

lemma trim_prefixes_keeps_last:
  assumes "\<forall>e \<in> set es. c \<notin> set e"
  shows "\<exists>s'. trim_prefixes es (s @ [c]) = s' @ [c]"
  using assms
proof (induction es "s @ [c]" arbitrary: s rule: trim_prefixes.induct)
  case (1 es)
  show ?case
  proof (cases "List.find (\<lambda>e. e \<noteq> [] \<and> prefix e (s @ [c])) es")
    case None
    then show ?thesis by (simp add: trim_prefixes.simps [of es "s @ [c]"])
  next
    case (Some e)
    then have "e \<noteq> [] \<and> prefix e (s @ [c]) \<and> e \<in> set es" by (metis (mono_tags, lifting) find_Some_iff nth_mem)
    then have e: "e \<in> set es" "prefix e (s @ [c])" by simp_all
    then have "prefix e s" using 1(2) by (auto simp: prefix_snoc)
    then have "drop (length e) (s @ [c]) = drop (length e) s @ [c]" by (auto dest: prefix_length_le)
    then show ?thesis using 1(1) [OF Some, of "drop (length e) s"] 1(2) Some
      by (simp add: trim_prefixes.simps [of es "s @ [c]"])
  qed
qed

lemma TrimSpace_not_blank:
  assumes "\<forall>e \<in> set unicode_spaces. c \<notin> set e"
  shows "strings_TrimSpace (s @ [c]) \<noteq> []"
proof -
  obtain s' where s': "trim_prefixes unicode_spaces (s @ [c]) = s' @ [c]"
    using trim_prefixes_keeps_last [OF assms] by blast
  have "trim_prefixes (map rev unicode_spaces) (c # rev s') = c # rev s'"
    unfolding trim_prefixes_fixed_iff using assms by (auto simp: prefix_Cons)
  then show ?thesis by (simp add: strings_TrimSpace_def s')
qed

lemma truncated_not_blank: "strings_TrimSpace (s @ ''...(truncated)'') \<noteq> []"
proof -
  have "\<forall>e \<in> set unicode_spaces. CHR '')'' \<notin> set e" by code_simp
  then show ?thesis using TrimSpace_not_blank [of "CHR '')''" "s @ ''...(truncated''"] by simp
qed

text \<open>
  A response longer than \<open>MaxStoredResponseLen\<close> is stored with its end cut off
  and a note appended, which is not JSON. The first request succeeds, and every repetition of it
  is refused as if the store were unavailable until the record expires: the client that retries
  never learns that its operation was carried out. The only fact used about the JSON decoder is
  that no JSON text ends in a closing parenthesis.
\<close>

theorem oversized_response_never_replayed:
  assumes "keyed E opts key fp" and "table_ok t"
    and "find_row t (op_Scope opts) (HashIdempotencyKey E key) = None"
    and "\<forall>j. in_fate (inps j) = Works" and "in_exec (inps 2) = Inr v"
    and "env_Marshal E v = Some raw" and "0 < ic_MaxStoredResponseLen cfg"
    and "ic_MaxStoredResponseLen cfg < int (length (env_Redact E raw))"
    and "\<forall>s. env_Unmarshal E (s @ '')'') = None"
    and "\<forall>j. in_fate (inps' j) = Works" and "in_now (inps' 0) < in_now (inps 0) + effective_ttl cfg opts"
  shows "\<exists>t1 m1 t2 m2. Execute E cfg opts inps t m = (Some (Inr (v, False)), t1, m1) \<and>
    Execute E cfg opts inps' t1 m1 = (Some (Inl (AppError ErrIdempotencyStoreUnavail)), t2, m2)"
proof -
  let ?cut = "truncateUTF8 (env_Redact E raw) (ic_MaxStoredResponseLen cfg)"
  let ?body = "?cut @ ''...(truncated)''"
  have body: "marshalStoredResponse E cfg v = Some ?body"
    using assms(6-8) by (simp add: marshalStoredResponse_def)
  obtain t1 m1 r where e: "runs_operation E cfg opts inps t m"
      "Execute E cfg opts inps t m = (Some (Inr (v, False)), t1, m1)"
    and r: "find_row t1 (op_Scope opts) (HashIdempotencyKey E key) = Some r" "ir_Status r = StatusSucceeded"
      "ir_ResponseBody r = Some ?body" "ir_Fingerprint r = fp" "ir_ExpiresAt r = in_now (inps 0) + effective_ttl cfg opts"
    using Execute_fresh [OF assms(1-5) body, of m] by blast
  have "env_Unmarshal E ?body = None"
    using spec [OF assms(9), of "?cut @ ''...(truncated''"] by simp
  then have "decodeStoredResponse E (Some ?body) = None"
    using truncated_not_blank [of ?cut] by (simp add: decodeStoredResponse_def)
  moreover have "in_now (inps' 0) < ir_ExpiresAt r" using assms(11) r(5) by simp
  ultimately show ?thesis
    using Execute_succeeded [OF assms(1) r(1,2) _ assms(10), of cfg m1] e r(3,4) by auto
qed

definition tiny_config :: IdempotencyConfig where
  "tiny_config = DefaultIdempotencyConfig \<lparr> ic_MaxStoredResponseLen := 1 \<rparr>"

theorem oversized_response_never_replayed_witness:
  "\<exists>t1 m1 t2 m2. Execute example_env tiny_config example_opts (\<lambda>_. ok_input 5) empty_table zero_metrics =
      (Some (Inr (AnyNil, False)), t1, m1) \<and>
    Execute example_env tiny_config example_opts (\<lambda>_. ok_input 7) t1 m1 =
      (Some (Inl (AppError ErrIdempotencyStoreUnavail)), t2, m2)"
proof -
  have "env_Marshal example_env AnyNil = Some ''{}''" "0 < ic_MaxStoredResponseLen tiny_config"
    "ic_MaxStoredResponseLen tiny_config < int (length (env_Redact example_env ''{}''))"
    "in_now (ok_input 7) < in_now (ok_input 5) + effective_ttl tiny_config example_opts"
    "in_exec (ok_input 5) = Inr AnyNil" "in_fate (ok_input 5) = Works" "in_fate (ok_input 7) = Works" by code_simp+
  moreover have "\<forall>s. env_Unmarshal example_env (s @ '')'') = None"
    by (auto simp: example_env_def append_eq_Cons_conv)
  ultimately show ?thesis
    using oversized_response_never_replayed [OF example_keyed table_ok_empty, where cfg = tiny_config
        and inps = "\<lambda>_. ok_input 5" and inps' = "\<lambda>_. ok_input 7" and m = zero_metrics
        and v = AnyNil and raw = "''{}''"] by simp
qed

text \<open>
  Two requests can both take over the same expired record. Both read it after
  it expired; one reclaims it, runs the operation and stores the result, so that the record is
  valid again for a whole TTL; the other still reclaims it, because the statement compares only
  the status, which is \<open>succeeded\<close> as before, and the lock, which is gone, and runs the operation a
  second time at once.
\<close>

definition race_expiry :: gotime where
  "race_expiry = 5 + 24 * Hour"

definition race_prefix :: "idem_action list" where
  "race_prefix = map (\<lambda>p. Act p (ok_input 5)) [0, 0, 0, 0] @
     map (\<lambda>p. Act p (ok_input race_expiry)) [1, 1, 1, 2, 2, 2, 1, 1, 1]"

definition race_suffix :: "idem_action list" where
  "race_suffix = map (\<lambda>p. Act p (ok_input race_expiry)) [2, 2, 2]"

theorem expired_record_reclaimed_twice:
  "let reqs = [example_opts, example_opts, example_opts];
       w1 = idem_world_run example_env DefaultIdempotencyConfig reqs race_prefix (idem_init reqs);
       w2 = idem_world_run example_env DefaultIdempotencyConfig reqs race_suffix w1
   in map_option (\<lambda>r. ir_Status r = StatusSucceeded \<and> race_expiry < ir_ExpiresAt r) (find_row (wd_table w1) ''pay'' ''6b31'') =
        Some True \<and>
      wd_done w1 = [(''pay'', ''6b31''), (''pay'', ''6b31'')] \<and>
      wd_done w2 = (''pay'', ''6b31'') # wd_done w1 \<and>
      wd_at w2 ! 2 = Returned (Inr (AnyNil, False))"
  by code_simp

lemma hex_digit_range: "n < 16 \<Longrightarrow> hex_digit n \<in> set ''0123456789abcdef''"
proof -
  assume "n < 16"
  moreover have "\<forall>n \<in> {0..<16}. hex_digit n \<in> set ''0123456789abcdef''" by code_simp
  ultimately show ?thesis by simp
qed

lemma byte_of_less: "byte_of c < 256"
proof -
  have "(of_char c :: nat) mod 256 = of_char c" by simp
  moreover have "(of_char c :: nat) mod 256 < 256" by (rule mod_less_divisor) simp
  ultimately show ?thesis unfolding byte_of_def by metis
qed

lemma hex_shape:
  "length (hex_EncodeToString s) = 2 * length s \<and> set (hex_EncodeToString s) \<subseteq> set ''0123456789abcdef''"
proof (induction s)
  case (Cons c s)
  have b: "byte_of c div 16 < 16" "byte_of c mod 16 < 16"
    using byte_of_less [of c] by auto
  have "hex_EncodeToString (c # s) = hex_digit (byte_of c div 16) # hex_digit (byte_of c mod 16) # hex_EncodeToString s"
    by (simp add: hex_EncodeToString_def)
  then show ?case using Cons hex_digit_range [OF b(1)] hex_digit_range [OF b(2)] by simp
qed (simp add: hex_EncodeToString_def)

text \<open>
  Property C40 (type). What is written to the key columns has the shape they need: a key that
  \<open>NormalizeIdempotencyKey\<close> accepts has at most 128 bytes, all printable and none of them a space,
  and normalises to itself; with a 32-byte hash, the key hash and every fingerprint are 64
  hexadecimal digits.
\<close>

theorem idempotency_key_shape:
  assumes "NormalizeIdempotencyKey raw = Inr key" and "\<forall>s. length (env_sha256 E s) = 32"
  shows "length key \<le> 128 \<and> (\<forall>c \<in> set key. 33 \<le> byte_of c \<and> byte_of c \<le> 126) \<and>
    NormalizeIdempotencyKey key = Inr key \<and>
    length (HashIdempotencyKey E key) = 64 \<and> set (HashIdempotencyKey E key) \<subseteq> set ''0123456789abcdef'' \<and>
    (\<forall>meth route actor payload fp. BuildIdempotencyFingerprint E meth route actor payload = Inr fp \<longrightarrow>
      length fp = 64 \<and> set fp \<subseteq> set ''0123456789abcdef'')"
proof -
  have key: "key = [] \<or> key = strings_TrimSpace raw \<and> length key \<le> 128 \<and> (\<forall>c \<in> set key. 33 \<le> byte_of c \<and> byte_of c \<le> 126)"
    using assms(1) by (auto simp: NormalizeIdempotencyKey_def Let_def not_less split: if_splits)
  have hex: "length (hex_EncodeToString s) = 2 * length s \<and> set (hex_EncodeToString s) \<subseteq> set ''0123456789abcdef''" for s
    by (rule hex_shape)
  have "NormalizeIdempotencyKey key = Inr key"
    using key by (fastforce simp: NormalizeIdempotencyKey_def Let_def not_less)
  then show ?thesis
    using key hex assms(2)
    by (auto simp: HashIdempotencyKey_def BuildIdempotencyFingerprint_def Let_def split: option.splits)
qed

theorem idempotency_key_shape_witness:
  "NormalizeIdempotencyKey ''order-1'' = Inr ''order-1'' \<and>
   length (HashIdempotencyKey (example_env \<lparr> env_sha256 := (\<lambda>_. replicate 32 CHR ''a'') \<rparr>) ''order-1'') = 64"
proof -
  have "NormalizeIdempotencyKey '' order-1 '' = Inr ''order-1''" by code_simp
  then show ?thesis
    using idempotency_key_shape [of "'' order-1 ''" "''order-1''" "example_env \<lparr> env_sha256 := (\<lambda>_. replicate 32 CHR ''a'') \<rparr>"]
    by simp
qed

end
