(* ===== verification/Statement_Program.thy ===== *)
theory Statement_Program
  imports Main
begin

text \<open>
  Programs that share a database. A program is a tree of commands: it ends with a value, or it
  issues one command and goes on with the reply. A command (one SQL statement, one transaction, one
  reading of the clock, one call of a remote service) is atomic; between two commands of a program
  other programs run. The meaning of the commands is an argument \<open>exec\<close> of the definitions below:
  from the input of the surroundings (clock, failures, replies of remote services), the command and
  the state it gives the reply and the next state.

  Interference is handled by rely and guarantee with one relation for both: \<open>evolves s s'\<close> says what
  any number of commands of any of the programs may do to the state. A program is \<open>good\<close> when
  each of its commands, issued in any state the current one may have evolved into, keeps the
  invariant and stays within \<open>evolves\<close>; the locale \<open>interference\<close> lifts this to worlds of programs.
\<close>

section \<open>Programs\<close>

datatype ('c, 'r, 'a) prog = Return 'a | Do 'c "'r \<Rightarrow> ('c, 'r, 'a) prog"

primrec bind_prog :: "('c, 'r, 'a) prog \<Rightarrow> ('a \<Rightarrow> ('c, 'r, 'b) prog) \<Rightarrow> ('c, 'r, 'b) prog" where
  "bind_prog (Return a) f = f a"
| "bind_prog (Do c k) f = Do c (\<lambda>r. bind_prog (k r) f)"

text \<open>
  The program run alone, the \<open>n\<close>-th of its commands with the \<open>n\<close>-th input: the value, the state and
  the inputs that are left.
\<close>

primrec run_prog ::
  "('i \<Rightarrow> 'c \<Rightarrow> 's \<Rightarrow> 'r \<times> 's) \<Rightarrow> ('c, 'r, 'a) prog \<Rightarrow> (nat \<Rightarrow> 'i) \<Rightarrow> 's \<Rightarrow> 'a \<times> 's \<times> (nat \<Rightarrow> 'i)" where
  "run_prog exec (Return a) ins s = (a, s, ins)"
| "run_prog exec (Do c k) ins s =
     (case exec (ins 0) c s of (r, s') \<Rightarrow> run_prog exec (k r) (\<lambda>n. ins (Suc n)) s')"

lemma run_prog_bind:
  "run_prog exec (bind_prog p f) ins s =
     (case run_prog exec p ins s of (a, s', ins') \<Rightarrow> run_prog exec (f a) ins' s')"
  by (induction p arbitrary: ins s) (auto split: prod.splits)

lemma bind_prog_assoc: "bind_prog (bind_prog p f) g = bind_prog p (\<lambda>a. bind_prog (f a) g)"
  by (induction p) auto

lemma bind_prog_Return: "bind_prog p Return = p"
  by (induction p) auto

text \<open>
  What a program run alone ends with, when every input is \<open>calm\<close>: the counterpart of the triples below
  for claims that a program gets its work done.
\<close>

definition ends ::
  "('i \<Rightarrow> 'c \<Rightarrow> 's \<Rightarrow> 'r \<times> 's) \<Rightarrow> ('i \<Rightarrow> bool) \<Rightarrow> ('c, 'r, 'a) prog \<Rightarrow> 's \<Rightarrow> ('a \<Rightarrow> 's \<Rightarrow> bool) \<Rightarrow> bool" where
  "ends exec calm p s Q \<longleftrightarrow> (\<forall>ins a s' ins'. (\<forall>n. calm (ins n)) \<longrightarrow> run_prog exec p ins s = (a, s', ins') \<longrightarrow> Q a s' \<and> (\<forall>n. calm (ins' n)))"

lemma ends_run: "ends exec calm p s Q \<Longrightarrow> \<forall>n. calm (ins n) \<Longrightarrow> run_prog exec p ins s = (a, s', ins') \<Longrightarrow> Q a s'"
  unfolding ends_def by blast

lemma ends_Return: "Q a s \<Longrightarrow> ends exec calm (Return a) s Q"
  by (simp add: ends_def)

lemma ends_Do:
  assumes "\<And>i r s'. calm i \<Longrightarrow> exec i c s = (r, s') \<Longrightarrow> ends exec calm (k r) s' Q"
  shows "ends exec calm (Do c k) s Q"
  unfolding ends_def
proof (intro allI impI)
  fix ins a s' ins'
  assume calm: "\<forall>n. calm (ins n)" and run: "run_prog exec (Do c k) ins s = (a, s', ins')"
  obtain r s1 where e: "exec (ins 0) c s = (r, s1)" by (rule prod.exhaust)
  have "run_prog exec (k r) (\<lambda>n. ins (Suc n)) s1 = (a, s', ins')" using run e by simp
  moreover have "ends exec calm (k r) s1 Q" using assms e calm by blast
  ultimately show "Q a s' \<and> (\<forall>n. calm (ins' n))"
    unfolding ends_def using calm by (elim allE [where x = "\<lambda>n. ins (Suc n)"]) simp
qed

lemma ends_bind:
  assumes "ends exec calm p s R" and "\<And>a s'. R a s' \<Longrightarrow> ends exec calm (f a) s' Q"
  shows "ends exec calm (bind_prog p f) s Q"
  unfolding ends_def
proof (intro allI impI)
  fix ins a s' ins'
  assume calm: "\<forall>n. calm (ins n)" and run: "run_prog exec (bind_prog p f) ins s = (a, s', ins')"
  obtain b s1 ins1 where p: "run_prog exec p ins s = (b, s1, ins1)" using prod_cases3 by blast
  have "R b s1 \<and> (\<forall>n. calm (ins1 n))" using assms(1) calm p unfolding ends_def by blast
  moreover have "run_prog exec (f b) ins1 s1 = (a, s', ins')" using run p by (simp add: run_prog_bind)
  ultimately show "Q a s' \<and> (\<forall>n. calm (ins' n))" using assms(2) unfolding ends_def by blast
qed

lemma ends_conseq: "ends exec calm p s R \<Longrightarrow> (\<And>a s'. R a s' \<Longrightarrow> Q a s') \<Longrightarrow> ends exec calm p s Q"
  unfolding ends_def by blast

section \<open>Worlds of programs\<close>

type_synonym ('c, 'r, 'a, 's) world = "('c, 'r, 'a) prog list \<times> 's"

text \<open>A program of the world makes its next step, or a further program starts.\<close>

datatype ('i, 'q) happening = Turn nat 'i | Start 'q

fun world_step ::
  "('i \<Rightarrow> 'c \<Rightarrow> 's \<Rightarrow> 'r \<times> 's) \<Rightarrow> ('q \<Rightarrow> ('c, 'r, 'a) prog) \<Rightarrow> ('i, 'q) happening \<Rightarrow>
     ('c, 'r, 'a, 's) world \<Rightarrow> ('c, 'r, 'a, 's) world" where
  "world_step exec code (Start q) (ps, s) = (ps @ [code q], s)"
| "world_step exec code (Turn n i) (ps, s) =
     (if n < length ps
      then case ps ! n of
             Return a \<Rightarrow> (ps, s)
           | Do c k \<Rightarrow> (case exec i c s of (r, s') \<Rightarrow> (ps[n := k r], s'))
      else (ps, s))"

definition world_run ::
  "('i \<Rightarrow> 'c \<Rightarrow> 's \<Rightarrow> 'r \<times> 's) \<Rightarrow> ('q \<Rightarrow> ('c, 'r, 'a) prog) \<Rightarrow> ('i, 'q) happening list \<Rightarrow> 's \<Rightarrow>
     ('c, 'r, 'a, 's) world" where
  "world_run exec code hs s = fold (world_step exec code) hs ([], s)"

section \<open>Interference\<close>

primrec good ::
  "('i \<Rightarrow> 'c \<Rightarrow> 's \<Rightarrow> 'r \<times> 's) \<Rightarrow> ('s \<Rightarrow> bool) \<Rightarrow> ('s \<Rightarrow> 's \<Rightarrow> bool) \<Rightarrow>
     ('c, 'r, 'a) prog \<Rightarrow> ('s \<Rightarrow> 'a \<Rightarrow> bool) \<Rightarrow> 's \<Rightarrow> bool" where
  "good exec invar evolves (Return a) Q s \<longleftrightarrow> (\<forall>s1. evolves s s1 \<and> invar s1 \<longrightarrow> Q s1 a)"
| "good exec invar evolves (Do c k) Q s \<longleftrightarrow>
     (\<forall>s1 i r s2. evolves s s1 \<and> invar s1 \<and> exec i c s1 = (r, s2) \<longrightarrow>
        invar s2 \<and> evolves s1 s2 \<and> good exec invar evolves (k r) Q s2)"

declare good.simps [simp del]

lemma good_ReturnI:
  assumes "\<And>s1. evolves s s1 \<Longrightarrow> invar s1 \<Longrightarrow> Q s1 a"
  shows "good exec invar evolves (Return a) Q s"
  unfolding good.simps using assms by blast

lemma good_ReturnD: "good exec invar evolves (Return a) Q s \<Longrightarrow> evolves s s1 \<Longrightarrow> invar s1 \<Longrightarrow> Q s1 a"
  unfolding good.simps by blast

lemma good_DoI:
  assumes "\<And>s1 i r s2. evolves s s1 \<Longrightarrow> invar s1 \<Longrightarrow> exec i c s1 = (r, s2) \<Longrightarrow>
    invar s2 \<and> evolves s1 s2 \<and> good exec invar evolves (k r) Q s2"
  shows "good exec invar evolves (Do c k) Q s"
  unfolding good.simps using assms by blast

lemma good_DoD:
  assumes "good exec invar evolves (Do c k) Q s" and "evolves s s1" and "invar s1" and "exec i c s1 = (r, s2)"
  shows "invar s2" and "evolves s1 s2" and "good exec invar evolves (k r) Q s2"
  using assms unfolding good.simps by blast+

text \<open>
  The same as triples: from the states of the invariant that satisfy \<open>P\<close> the program is good, and
  it ends with \<open>Q\<close>. \<open>P\<close> has to be stable, since others may run before the first command.
\<close>

definition stable :: "('s \<Rightarrow> 's \<Rightarrow> bool) \<Rightarrow> ('s \<Rightarrow> bool) \<Rightarrow> bool" where
  "stable evolves P \<longleftrightarrow> (\<forall>s s'. P s \<longrightarrow> evolves s s' \<longrightarrow> P s')"

lemma stableI: "(\<And>s s'. P s \<Longrightarrow> evolves s s' \<Longrightarrow> P s') \<Longrightarrow> stable evolves P"
  by (simp add: stable_def)

lemma stableD: "stable evolves P \<Longrightarrow> P s \<Longrightarrow> evolves s s' \<Longrightarrow> P s'"
  by (simp add: stable_def)

lemma stable_const: "stable evolves (\<lambda>s. A)"
  by (simp add: stable_def)

lemma stable_conj: "stable evolves P \<Longrightarrow> stable evolves Q \<Longrightarrow> stable evolves (\<lambda>s. P s \<and> Q s)"
  unfolding stable_def by blast

lemma stable_disj: "stable evolves P \<Longrightarrow> stable evolves Q \<Longrightarrow> stable evolves (\<lambda>s. P s \<or> Q s)"
  unfolding stable_def by blast

lemma stable_imp: "stable evolves P \<Longrightarrow> stable evolves (\<lambda>s. A \<longrightarrow> P s)"
  unfolding stable_def by blast

definition triple ::
  "('i \<Rightarrow> 'c \<Rightarrow> 's \<Rightarrow> 'r \<times> 's) \<Rightarrow> ('s \<Rightarrow> bool) \<Rightarrow> ('s \<Rightarrow> 's \<Rightarrow> bool) \<Rightarrow>
     ('s \<Rightarrow> bool) \<Rightarrow> ('c, 'r, 'a) prog \<Rightarrow> ('s \<Rightarrow> 'a \<Rightarrow> bool) \<Rightarrow> bool" where
  "triple exec invar evolves P p Q \<longleftrightarrow> (\<forall>s. invar s \<longrightarrow> P s \<longrightarrow> good exec invar evolves p Q s)"

lemma triple_good: "triple exec invar evolves P p Q \<Longrightarrow> invar s \<Longrightarrow> P s \<Longrightarrow> good exec invar evolves p Q s"
  by (simp add: triple_def)

locale interference =
  fixes exec :: "'i \<Rightarrow> 'c \<Rightarrow> 's \<Rightarrow> 'r \<times> 's"
    and invar :: "'s \<Rightarrow> bool"
    and evolves :: "'s \<Rightarrow> 's \<Rightarrow> bool"
  assumes evolves_refl: "evolves s s"
    and evolves_trans: "evolves s1 s2 \<Longrightarrow> evolves s2 s3 \<Longrightarrow> evolves s1 s3"
begin

lemma good_evolves:
  assumes g: "good exec invar evolves p Q s" and e: "evolves s s'"
  shows "good exec invar evolves p Q s'"
proof (cases p)
  case (Return a)
  then show ?thesis using good_ReturnD [of exec invar evolves a Q s] g evolves_trans [OF e] by (simp add: good_ReturnI)
next
  case (Do c k)
  show ?thesis
    unfolding Do
  proof (rule good_DoI)
    fix s1 i r s2
    assume "evolves s' s1" "invar s1" "exec i c s1 = (r, s2)"
    then show "invar s2 \<and> evolves s1 s2 \<and> good exec invar evolves (k r) Q s2"
      using good_DoD [OF g [unfolded Do] evolves_trans [OF e]] by simp
  qed
qed

lemma good_bind:
  assumes "good exec invar evolves p Q s" and "invar s"
    and "\<And>s1 a. evolves s s1 \<Longrightarrow> invar s1 \<Longrightarrow> Q s1 a \<Longrightarrow> good exec invar evolves (f a) R s1"
  shows "good exec invar evolves (bind_prog p f) R s"
  using assms
proof (induction p arbitrary: s)
  case (Return a)
  then show ?case using good_ReturnD [OF Return.prems(1) evolves_refl] evolves_refl by simp
next
  case (Do c k)
  show ?case
    unfolding bind_prog.simps
  proof (rule good_DoI)
    fix s1 i r s2
    assume s1: "evolves s s1" "invar s1" "exec i c s1 = (r, s2)"
    note k = good_DoD [OF Do.prems(1) s1]
    have "good exec invar evolves (bind_prog (k r) f) R s2"
    proof (rule Do.IH)
      show "k r \<in> range k" by simp
      fix s3 a
      assume "evolves s2 s3" "invar s3" "Q s3 a"
      then show "good exec invar evolves (f a) R s3"
        using Do.prems(3) evolves_trans [OF evolves_trans [OF s1(1) k(2)]] by blast
    qed (fact k)+
    then show "invar s2 \<and> evolves s1 s2 \<and> good exec invar evolves (bind_prog (k r) f) R s2" using k by simp
  qed
qed

lemma good_seq:
  assumes "good exec invar evolves p Q s" and "\<And>s1 a. good exec invar evolves (f a) R s1"
  shows "good exec invar evolves (bind_prog p f) R s"
  using assms(1)
proof (induction p arbitrary: s)
  case (Return a)
  then show ?case using assms(2) by simp
next
  case (Do c k)
  show ?case
    unfolding bind_prog.simps
  proof (rule good_DoI)
    fix s1 i r s2
    assume "evolves s s1" "invar s1" "exec i c s1 = (r, s2)"
    from good_DoD [OF Do.prems this] Do.IH [of "k r" s2]
    show "invar s2 \<and> evolves s1 s2 \<and> good exec invar evolves (bind_prog (k r) f) R s2" by simp
  qed
qed

lemma good_weaken:
  assumes "good exec invar evolves p Q s"
    and "\<And>s1 a. evolves s s1 \<Longrightarrow> invar s1 \<Longrightarrow> Q s1 a \<Longrightarrow> R s1 a"
  shows "good exec invar evolves p R s"
  using assms
proof (induction p arbitrary: s)
  case (Return a)
  then show ?case using good_ReturnD [OF Return.prems(1)] by (intro good_ReturnI) blast
next
  case (Do c k)
  show ?case
  proof (rule good_DoI)
    fix s1 i r s2
    assume s1: "evolves s s1" "invar s1" "exec i c s1 = (r, s2)"
    note k = good_DoD [OF Do.prems(1) s1]
    have "good exec invar evolves (k r) R s2"
    proof (rule Do.IH)
      show "k r \<in> range k" by simp
      fix s3 a
      assume "evolves s2 s3" "invar s3" "Q s3 a"
      then show "R s3 a" using Do.prems(2) evolves_trans [OF evolves_trans [OF s1(1) k(2)]] by blast
    qed (fact k)
    then show "invar s2 \<and> evolves s1 s2 \<and> good exec invar evolves (k r) R s2" using k by simp
  qed
qed

lemma good_run:
  assumes "good exec invar evolves p Q s" and "invar s" and "run_prog exec p ins s = (a, s', ins')"
  shows "invar s' \<and> evolves s s' \<and> Q s' a"
  using assms
proof (induction p arbitrary: ins s)
  case (Return x)
  then show ?case using evolves_refl good_ReturnD [OF Return.prems(1) evolves_refl] by simp
next
  case (Do c k)
  obtain r s2 where e: "exec (ins 0) c s = (r, s2)" by (rule prod.exhaust)
  note k = good_DoD [OF Do.prems(1) evolves_refl Do.prems(2) e]
  have "run_prog exec (k r) (\<lambda>n. ins (Suc n)) s2 = (a, s', ins')" using Do.prems(3) e by simp
  then have "invar s' \<and> evolves s2 s' \<and> Q s' a" using Do.IH [of "k r" s2] k by simp
  then show ?case using evolves_trans [OF k(2)] by blast
qed

lemma triple_Return:
  assumes "stable evolves P" and "\<And>s. invar s \<Longrightarrow> P s \<Longrightarrow> Q s a"
  shows "triple exec invar evolves P (Return a) Q"
  unfolding triple_def using assms(2) stableD [OF assms(1)] by (intro allI impI good_ReturnI) blast

lemma triple_Do:
  assumes "stable evolves P"
    and "\<And>s i r s2. invar s \<Longrightarrow> P s \<Longrightarrow> exec i c s = (r, s2) \<Longrightarrow> invar s2 \<and> evolves s s2 \<and> P' r s2"
    and "\<And>r. triple exec invar evolves (P' r) (k r) Q"
  shows "triple exec invar evolves P (Do c k) Q"
  unfolding triple_def
proof (intro allI impI good_DoI)
  fix s s1 i r s2
  assume s: "P s" "evolves s s1" "invar s1" "exec i c s1 = (r, s2)"
  have "invar s2 \<and> evolves s1 s2 \<and> P' r s2" using assms(2) stableD [OF assms(1) s(1,2)] s(3,4) by blast
  then show "invar s2 \<and> evolves s1 s2 \<and> good exec invar evolves (k r) Q s2" using assms(3) by (simp add: triple_def)
qed

lemma triple_bind:
  assumes "triple exec invar evolves P p R" and "\<And>a. triple exec invar evolves (\<lambda>s. R s a) (f a) Q"
  shows "triple exec invar evolves P (bind_prog p f) Q"
  unfolding triple_def
proof (intro allI impI)
  fix s
  assume "invar s" "P s"
  then show "good exec invar evolves (bind_prog p f) Q s"
    using assms by (intro good_bind [OF triple_good [OF assms(1)]] triple_good [OF assms(2)])
qed

lemma triple_conseq:
  assumes "triple exec invar evolves P' p Q'" and "\<And>s. invar s \<Longrightarrow> P s \<Longrightarrow> P' s" and "\<And>s a. invar s \<Longrightarrow> Q' s a \<Longrightarrow> Q s a"
  shows "triple exec invar evolves P p Q"
  unfolding triple_def
proof (intro allI impI)
  fix s
  assume "invar s" "P s"
  then have "good exec invar evolves p Q' s" by (intro triple_good [OF assms(1)] assms(2))
  then show "good exec invar evolves p Q s" by (rule good_weaken) (rule assms(3))
qed

text \<open>What is stable and known before is known after.\<close>

lemma good_frame:
  assumes "good exec invar evolves p Q s" and "F s" and "stable evolves F"
  shows "good exec invar evolves p (\<lambda>s a. Q s a \<and> F s) s"
  using assms(1,2)
proof (induction p arbitrary: s)
  case (Return a)
  show ?case
    using good_ReturnD [OF Return.prems(1)] stableD [OF assms(3) Return.prems(2)] by (intro good_ReturnI) blast
next
  case (Do c k)
  show ?case
  proof (rule good_DoI)
    fix s1 i r s2
    assume s1: "evolves s s1" "invar s1" "exec i c s1 = (r, s2)"
    note k = good_DoD [OF Do.prems(1) s1]
    have "F s2" using stableD [OF assms(3)] Do.prems(2) s1(1) k(2) by blast
    then show "invar s2 \<and> evolves s1 s2 \<and> good exec invar evolves (k r) (\<lambda>s a. Q s a \<and> F s) s2"
      using Do.IH [of "k r" s2] k by simp
  qed
qed

lemma triple_frame:
  assumes "triple exec invar evolves P p Q" and "stable evolves F"
  shows "triple exec invar evolves (\<lambda>s. P s \<and> F s) p (\<lambda>s a. Q s a \<and> F s)"
  unfolding triple_def using good_frame [OF triple_good [OF assms(1)] _ assms(2)] by simp

definition good_world :: "('c, 'r, 'a, 's) world \<Rightarrow> bool" where
  "good_world w \<longleftrightarrow> invar (snd w) \<and> (\<forall>p \<in> set (fst w). good exec invar evolves p (\<lambda>_ _. True) (snd w))"

lemma good_world_act:
  assumes "good_world (ps, s)"
  shows "good_world (world_step exec code (Turn n i) (ps, s)) \<and> evolves s (snd (world_step exec code (Turn n i) (ps, s)))"
proof (cases "n < length ps")
  case False
  then show ?thesis using assms evolves_refl by simp
next
  case True
  show ?thesis
  proof (cases "ps ! n")
    case (Return a)
    then show ?thesis using True assms evolves_refl by simp
  next
    case (Do c k)
    obtain r s2 where e: "exec i c s = (r, s2)" by (rule prod.exhaust)
    have g: "invar s" "\<forall>p \<in> set ps. good exec invar evolves p (\<lambda>_ _. True) s"
      using assms by (simp_all add: good_world_def)
    then have "good exec invar evolves (Do c k) (\<lambda>_ _. True) s" using True Do nth_mem by metis
    note k = good_DoD [OF this evolves_refl g(1) e]
    have "good exec invar evolves p (\<lambda>_ _. True) s2" if "p \<in> set (ps[n := k r])" for p
    proof -
      have "p = k r \<or> p \<in> set ps" using that set_update_subset_insert by fastforce
      then show ?thesis using k g(2) good_evolves by blast
    qed
    then show ?thesis using True Do e k by (simp add: good_world_def)
  qed
qed

lemma good_fold:
  assumes "good_world w" and "\<And>q s. Start q \<in> set hs \<Longrightarrow> invar s \<Longrightarrow> evolves (snd w) s \<Longrightarrow> good exec invar evolves (code q) (\<lambda>_ _. True) s"
  shows "good_world (fold (world_step exec code) hs w) \<and> evolves (snd w) (snd (fold (world_step exec code) hs w))"
  using assms
proof (induction hs arbitrary: w)
  case Nil
  then show ?case using evolves_refl by simp
next
  case (Cons h hs)
  let ?w = "world_step exec code h w"
  have w: "good_world ?w \<and> evolves (snd w) (snd ?w)"
  proof (cases h)
    case (Turn n i)
    then show ?thesis using good_world_act [of "fst w" "snd w"] Cons.prems(1) by simp
  next
    case (Start q)
    then have "good exec invar evolves (code q) (\<lambda>_ _. True) (snd w)"
      using Cons.prems evolves_refl by (simp add: good_world_def)
    then show ?thesis using Start Cons.prems(1) evolves_refl by (cases w) (simp add: good_world_def)
  qed
  have "good exec invar evolves (code q) (\<lambda>_ _. True) s" if "Start q \<in> set hs" "invar s" "evolves (snd ?w) s" for q s
    using Cons.prems(2) [of q s] that evolves_trans [of "snd w" "snd ?w" s] w by simp
  then have "good_world (fold (world_step exec code) hs ?w) \<and> evolves (snd ?w) (snd (fold (world_step exec code) hs ?w))"
    using Cons.IH [of ?w] w by blast
  then show ?case using w evolves_trans [of "snd w" "snd ?w"] by simp
qed

lemma good_world_run:
  assumes "invar s"
    and "\<And>q s1. Start q \<in> set hs \<Longrightarrow> invar s1 \<Longrightarrow> evolves s s1 \<Longrightarrow> good exec invar evolves (code q) (\<lambda>_ _. True) s1"
    and "world_run exec code hs s = (ps, s')"
  shows "invar s'" and "evolves s s'"
proof -
  have "good_world ([], s)" using assms(1) by (simp add: good_world_def)
  from good_fold [OF this, of hs code] assms(2,3) show "invar s'" "evolves s s'"
    by (simp_all add: good_world_def world_run_def)
qed

end

end
