(* ===== verification/System_Lock.thy ===== *)
theory System_Lock
  imports Idempotency Statement_Program
begin

text \<open>
  The lock of system operations (\<open>service/system_operation_lock_service.go\<close>): update, rollback and
  restart of the whole installation exclude each other through one row of the idempotency table.
  \<open>Acquire\<close> is a program of single statements, so several of them interleave; the holder renews its lease from
  a goroutine, whose rounds are \<open>renew_round\<close>.
\<close>

section \<open>The service\<close>

definition systemOperationLockScope :: string where
  "systemOperationLockScope = ''admin.system.operations.global_lock''"

definition systemOperationLockKey :: string where
  "systemOperationLockKey = ''global-system-operation-lock''"

definition ErrSystemOperationBusy :: ApplicationError where
  "ErrSystemOperationBusy = Conflict ''SYSTEM_OPERATION_BUSY'' ''another system operation is in progress''"

record SystemOperationLock =
  sl_recordID :: int
  sl_operationID :: string
  sl_renewing :: bool

record SystemOperationLockService =
  ss_repo_nil :: bool
  ss_lease :: duration
  ss_renewInterval :: duration
  ss_ttl :: duration

definition NewSystemOperationLockService :: "bool \<Rightarrow> IdempotencyConfig \<Rightarrow> SystemOperationLockService" where
  "NewSystemOperationLockService repo_nil cfg =
     (let lease = (if ic_ProcessingTimeout cfg \<le> 0 then 30 * Second else ic_ProcessingTimeout cfg);
          renewInterval = lease div 3;
          renewInterval = (if renewInterval < Second then Second else renewInterval);
          ttl = (if ic_SystemOperationTTL cfg \<le> 0 then Hour else ic_SystemOperationTTL cfg)
      in \<lparr> ss_repo_nil = repo_nil, ss_lease = lease, ss_renewInterval = renewInterval, ss_ttl = ttl \<rparr>)"

definition busyError :: "string \<Rightarrow> gotime option \<Rightarrow> gotime \<Rightarrow> ApplicationError" where
  "busyError operationID lockedUntil now =
     (let md = (if operationID \<noteq> [] then [(''operation_id'', operationID)] else []);
          md = (case lockedUntil of
                  None \<Rightarrow> md
                | Some u \<Rightarrow>
                    let sec = whole_seconds (time_Sub u now); sec = (if sec \<le> 0 then 1 else sec)
                    in md @ [(''retry_after'', strconv_FormatInt sec)])
      in if md = [] then ErrSystemOperationBusy else WithMetadata md ErrSystemOperationBusy)"

definition lock_record :: "idem_env \<Rightarrow> SystemOperationLockService \<Rightarrow> string \<Rightarrow> gotime \<Rightarrow> IdempotencyRecord" where
  "lock_record E s operationID now =
     \<lparr> ir_ID = 0, ir_Scope = systemOperationLockScope, ir_KeyHash = HashIdempotencyKey E systemOperationLockKey,
       ir_Fingerprint = operationID, ir_Status = StatusProcessing, ir_ResponseStatus = None,
       ir_ResponseBody = None, ir_ErrorReason = None, ir_LockedUntil = Some (now + ss_lease s),
       ir_ExpiresAt = now + ss_ttl s, ir_CreatedAt = time_zero, ir_UpdatedAt = time_zero \<rparr>"

definition granted :: "string \<Rightarrow> int \<Rightarrow> ApplicationError + SystemOperationLock" where
  "granted operationID i =
     (if i = 0 then Inl ErrIdempotencyStoreUnavail
      else Inr \<lparr> sl_recordID = i, sl_operationID = operationID, sl_renewing = True \<rparr>)"

text \<open>
  The calls of the table: one statement each. An input is the fate of the statement and the clock of the database.
\<close>

datatype lock_cmd =
    L_create IdempotencyRecord
  | L_get string string
  | L_reclaim int string gotime gotime gotime

datatype lock_reply =
    L_created "unit + bool \<times> IdempotencyRecord option" | L_row "unit + IdempotencyRecord option" | L_taken "unit + bool"

fun lock_exec :: "fate \<times> gotime \<Rightarrow> lock_cmd \<Rightarrow> idem_table \<Rightarrow> lock_reply \<times> idem_table" where
  "lock_exec (f, dbnow) (L_create r) t = map_prod L_created id (CreateProcessing f dbnow (Some r) t)"
| "lock_exec (f, dbnow) (L_get scope keyHash) t = (L_row (GetByScopeAndKeyHash f scope keyHash t), t)"
| "lock_exec (f, dbnow) (L_reclaim i fromStatus now lockedUntil expiresAt) t =
     map_prod L_taken id (TryReclaim f dbnow i fromStatus now lockedUntil expiresAt t)"

type_synonym lock_prog = "(lock_cmd, lock_reply, ApplicationError + SystemOperationLock) prog"

text \<open>
  \<open>Acquire\<close> is a program of these statements, between which others may run; \<open>now\<close> is the clock it reads at the
  start. Its last three statements, when the row is there already: the row is read, reclaimed, and read again.
\<close>

definition acquire_latest :: "idem_env \<Rightarrow> gotime \<Rightarrow> lock_prog" where
  "acquire_latest E now =
     Do (L_get systemOperationLockScope (HashIdempotencyKey E systemOperationLockKey)) (\<lambda>r. case r of
       L_row (Inr (Some latest)) \<Rightarrow> Return (Inl (busyError (ir_Fingerprint latest) (ir_LockedUntil latest) now))
     | _ \<Rightarrow> Return (Inl ErrSystemOperationBusy))"

definition acquire_reclaim ::
  "idem_env \<Rightarrow> SystemOperationLockService \<Rightarrow> string \<Rightarrow> gotime \<Rightarrow> IdempotencyRecord \<Rightarrow> lock_prog" where
  "acquire_reclaim E s operationID now existing =
     Do (L_reclaim (ir_ID existing) (ir_Status existing) now (now + ss_lease s) (now + ss_ttl s)) (\<lambda>r. case r of
       L_taken (Inr taken) \<Rightarrow> if \<not> taken then acquire_latest E now else Return (granted operationID (ir_ID existing))
     | _ \<Rightarrow> Return (Inl ErrIdempotencyStoreUnavail))"

definition acquire_existing :: "idem_env \<Rightarrow> SystemOperationLockService \<Rightarrow> string \<Rightarrow> gotime \<Rightarrow> lock_prog" where
  "acquire_existing E s operationID now =
     Do (L_get systemOperationLockScope (HashIdempotencyKey E systemOperationLockKey)) (\<lambda>r. case r of
       L_row (Inr (Some existing)) \<Rightarrow>
         if ir_Status existing = StatusProcessing \<and> ir_LockedUntil existing \<noteq> None \<and> \<not> lock_free now existing
         then Return (Inl (busyError (ir_Fingerprint existing) (ir_LockedUntil existing) now))
         else acquire_reclaim E s operationID now existing
     | _ \<Rightarrow> Return (Inl ErrIdempotencyStoreUnavail))"

definition Acquire :: "idem_env \<Rightarrow> SystemOperationLockService option \<Rightarrow> string \<Rightarrow> gotime \<Rightarrow> lock_prog" where
  "Acquire E so operationID now =
     (case so of
        None \<Rightarrow> Return (Inl ErrIdempotencyStoreUnavail)
      | Some s \<Rightarrow>
          if ss_repo_nil s then Return (Inl ErrIdempotencyStoreUnavail)
          else if operationID = [] then
            Return (Inl (BadRequest ''SYSTEM_OPERATION_ID_REQUIRED'' ''operation id is required''))
          else Do (L_create (lock_record E s operationID now)) (\<lambda>r. case r of
                 L_created (Inr (owner, rcd)) \<Rightarrow>
                   if owner then Return (granted operationID (case rcd of None \<Rightarrow> 0 | Some r \<Rightarrow> ir_ID r))
                   else acquire_existing E s operationID now
               | _ \<Rightarrow> Return (Inl ErrIdempotencyStoreUnavail)))"

text \<open>\<open>Acquire\<close> while nobody else uses the table: its statements meet the fates \<open>f 0\<close>, \<open>f 1\<close>, \<open>\<dots>\<close> in this order.\<close>

definition Acquire_run ::
  "idem_env \<Rightarrow> SystemOperationLockService option \<Rightarrow> (nat \<Rightarrow> fate) \<Rightarrow> gotime \<Rightarrow> string \<Rightarrow> gotime \<Rightarrow> idem_table \<Rightarrow>
     (ApplicationError + SystemOperationLock) \<times> idem_table" where
  "Acquire_run E so f dbnow operationID now t =
     (case run_prog lock_exec (Acquire E so operationID now) (\<lambda>n. (f n, dbnow)) t of (r, t', _) \<Rightarrow> (r, t'))"

text \<open>One tick of \<open>renewLoop\<close>: the lock is renewed, kept for the next round, or given up.\<close>

definition renew_round ::
  "SystemOperationLockService \<Rightarrow> fate \<Rightarrow> gotime \<Rightarrow> gotime \<Rightarrow> SystemOperationLock \<Rightarrow> idem_table \<Rightarrow>
     SystemOperationLock \<times> idem_table" where
  "renew_round s f dbnow now lk t =
     (if \<not> sl_renewing lk then (lk, t)
      else case ExtendProcessingLock f dbnow (sl_recordID lk) (sl_operationID lk) (now + ss_lease s) (now + ss_ttl s) t of
             (Inl _, t) \<Rightarrow> (lk, t)
           | (Inr ok, t) \<Rightarrow> (if ok then lk else lk \<lparr> sl_renewing := False \<rparr>, t))"

definition Release ::
  "SystemOperationLockService option \<Rightarrow> fate \<Rightarrow> gotime \<Rightarrow> SystemOperationLock option \<Rightarrow> bool \<Rightarrow> string \<Rightarrow> gotime \<Rightarrow>
     idem_table \<Rightarrow> (unit + unit) \<times> SystemOperationLock option \<times> idem_table" where
  "Release so f dbnow lk succeeded failureReason now t =
     (case (so, lk) of
        (Some s, Some l) \<Rightarrow>
          if ss_repo_nil s then (Inr (), lk, t)
          else let l' = l \<lparr> sl_renewing := False \<rparr>; expiresAt = now + ss_ttl s
               in if succeeded then
                    let (err, t) = MarkSucceeded f dbnow (sl_recordID l) 200
                          (''{\"operation_id\":\"'' @ sl_operationID l @ ''\",\"released\":true}'') expiresAt t
                    in (err, Some l', t)
                  else let reason = (if failureReason = [] then ''SYSTEM_OPERATION_FAILED'' else failureReason);
                           (err, t) = MarkFailedRetryable f dbnow (sl_recordID l) reason now expiresAt t
                       in (err, Some l', t)
      | _ \<Rightarrow> (Inr (), lk, t))"

section \<open>What an acquisition leaves behind\<close>

abbreviation lock_row :: "idem_env \<Rightarrow> idem_table \<Rightarrow> IdempotencyRecord option" where
  "lock_row E t \<equiv> find_row t systemOperationLockScope (HashIdempotencyKey E systemOperationLockKey)"

lemma lock_row_by_id: "table_ok t \<Longrightarrow> lock_row E t = Some r \<Longrightarrow> row_by_id t (ir_ID r) = Some r"
  by (simp add: find_row_iff row_by_id_iff)

text \<open>What an \<open>Acquire\<close> that runs alone does when the row is there already.\<close>

definition existing_run ::
  "idem_env \<Rightarrow> SystemOperationLockService \<Rightarrow> (nat \<Rightarrow> fate) \<Rightarrow> gotime \<Rightarrow> string \<Rightarrow> gotime \<Rightarrow> idem_table \<Rightarrow>
     (ApplicationError + SystemOperationLock) \<times> idem_table" where
  "existing_run E s f dbnow operationID now t =
     (case run_prog lock_exec (acquire_existing E s operationID now) (\<lambda>n. (f (Suc n), dbnow)) t of (r, t', _) \<Rightarrow> (r, t'))"

lemma Acquire_run_def':
  "Acquire_run E (Some s) f d op now t =
     (if ss_repo_nil s then (Inl ErrIdempotencyStoreUnavail, t)
      else if op = [] then (Inl (BadRequest ''SYSTEM_OPERATION_ID_REQUIRED'' ''operation id is required''), t)
      else case CreateProcessing (f 0) d (Some (lock_record E s op now)) t of
             (Inl _, t) \<Rightarrow> (Inl ErrIdempotencyStoreUnavail, t)
           | (Inr (owner, rcd), t) \<Rightarrow>
               if owner then (granted op (case rcd of None \<Rightarrow> 0 | Some r \<Rightarrow> ir_ID r), t)
               else existing_run E s f d op now t)"
  by (simp add: Acquire_run_def Acquire_def existing_run_def split: prod.splits sum.splits)

lemma existing_run_def':
  "existing_run E s f d op now t =
     (case GetByScopeAndKeyHash (f 1) systemOperationLockScope (HashIdempotencyKey E systemOperationLockKey) t of
        Inl _ \<Rightarrow> (Inl ErrIdempotencyStoreUnavail, t)
      | Inr None \<Rightarrow> (Inl ErrIdempotencyStoreUnavail, t)
      | Inr (Some existing) \<Rightarrow>
          if ir_Status existing = StatusProcessing \<and> ir_LockedUntil existing \<noteq> None \<and> \<not> lock_free now existing
          then (Inl (busyError (ir_Fingerprint existing) (ir_LockedUntil existing) now), t)
          else (case TryReclaim (f 2) d (ir_ID existing) (ir_Status existing) now (now + ss_lease s) (now + ss_ttl s) t of
                  (Inl _, t) \<Rightarrow> (Inl ErrIdempotencyStoreUnavail, t)
                | (Inr taken, t) \<Rightarrow>
                    if \<not> taken then
                      (case GetByScopeAndKeyHash (f 3) systemOperationLockScope (HashIdempotencyKey E systemOperationLockKey) t of
                         Inr (Some latest) \<Rightarrow> (Inl (busyError (ir_Fingerprint latest) (ir_LockedUntil latest) now), t)
                       | _ \<Rightarrow> (Inl ErrSystemOperationBusy, t))
                    else (granted op (ir_ID existing), t)))"
  by (auto simp: existing_run_def acquire_existing_def acquire_reclaim_def acquire_latest_def eval_nat_numeral
      split: prod.splits sum.splits option.splits)

text \<open>The outcome on a table that has the row.\<close>

lemma Acquire_existing:
  assumes "table_ok t" and "lock_row E t = Some r"
  shows "Acquire_run E (Some s) f d op now t =
    (if ss_repo_nil s then (Inl ErrIdempotencyStoreUnavail, t)
     else if op = [] then (Inl (BadRequest ''SYSTEM_OPERATION_ID_REQUIRED'' ''operation id is required''), t)
     else case f 0 of
         Works \<Rightarrow> existing_run E s f d op now (t \<lparr> it_seq := it_seq t + 1 \<rparr>)
       | Lost_before \<Rightarrow> (Inl ErrIdempotencyStoreUnavail, t)
       | Lost_after \<Rightarrow> (Inl ErrIdempotencyStoreUnavail, t \<lparr> it_seq := it_seq t + 1 \<rparr>))"
  using assms(2) by (cases "f 0") (simp_all add: Acquire_run_def' CreateProcessing_def lock_record_def statement_def Let_def)

lemma table_ok_seq: "table_ok t \<Longrightarrow> table_ok (t \<lparr> it_seq := it_seq t + 1 \<rparr>)"
  by (auto simp: table_ok_def)

lemma find_row_seq [simp]: "find_row (t \<lparr> it_seq := n \<rparr>) sc k = find_row t sc k"
  by (simp add: find_row_def)

lemma row_by_id_seq [simp]: "row_by_id (t \<lparr> it_seq := n \<rparr>) i = row_by_id t i"
  by (simp add: row_by_id_def)

lemma it_rows_seq [simp]: "it_rows (t \<lparr> it_seq := n \<rparr>) = it_rows t"
  by simp

text \<open>A granted lock owns the row, with a lease from the time of the call.\<close>

lemma Acquire_granted:
  assumes ok: "table_ok t" and a: "Acquire_run E (Some s) f d op now t = (Inr lk, t1)"
  shows "table_ok t1 \<and> sl_operationID lk = op \<and> sl_renewing lk \<and>
    (\<exists>r. row_by_id t1 (sl_recordID lk) = Some r \<and> lock_row E t1 = Some r \<and> ir_Status r = StatusProcessing \<and>
       ir_LockedUntil r = Some (now + ss_lease s) \<and>
       (case lock_row E t of None \<Rightarrow> ir_Fingerprint r = op | Some r0 \<Rightarrow> ir_Fingerprint r = ir_Fingerprint r0))"
proof (cases "lock_row E t")
  case None
  let ?r = "lock_record E s op now"
  have key: "ir_Scope ?r = systemOperationLockScope" "ir_KeyHash ?r = HashIdempotencyKey E systemOperationLockKey"
    by (simp_all add: lock_record_def)
  obtain rcd where cr: "CreateProcessing (f 0) d (Some ?r) t = (Inr (True, rcd), t1)"
      "granted op (case rcd of None \<Rightarrow> 0 | Some r \<Rightarrow> ir_ID r) = Inr lk"
  proof -
    obtain res t' where c: "CreateProcessing (f 0) d (Some ?r) t = (res, t')" by (cases "CreateProcessing (f 0) d (Some ?r) t")
    have "\<not> (\<exists>x. res = Inr (False, x))" using CreateProcessing_cases(3) [OF ok c] None key by auto
    then show thesis
      using a c that by (cases res) (auto simp: Acquire_run_def' split: if_splits prod.splits)
  qed
  note c = CreateProcessing_cases [OF ok cr(1)]
  let ?n = "new_row d (it_seq t) ?r"
  obtain r1 where r1: "rcd = Some r1" "ir_ID r1 = it_seq t" and row: "row_by_id t1 (it_seq t) = Some ?n"
    using c(2) [OF refl TrueI] by auto
  have "it_seq t \<noteq> 0" using ok by (simp add: table_ok_def)
  then have lk: "sl_recordID lk = it_seq t" "sl_operationID lk = op" "sl_renewing lk"
    using cr(2) r1 by (auto simp: granted_def)
  have "lock_row E t1 = Some ?n"
    using row c(1) key by (simp add: find_row_iff row_by_id_iff new_row_def)
  then show ?thesis using c(1) lk row None by (auto simp: new_row_def lock_record_def)
next
  case (Some r0)
  let ?t = "t \<lparr> it_seq := it_seq t + 1 \<rparr>"
  have ae: "existing_run E s f d op now ?t = (Inr lk, t1)"
    using a Acquire_existing [OF ok Some, of s f d op now] by (auto split: if_splits fate.splits)
  then have tr: "TryReclaim (f 2) d (ir_ID r0) (ir_Status r0) now (now + ss_lease s) (now + ss_ttl s) ?t = (Inr True, t1)"
    and g: "granted op (ir_ID r0) = Inr lk"
    using Some
    by (auto simp: existing_run_def' GetByScopeAndKeyHash_def Let_def
        split: if_splits prod.splits sum.splits option.splits)
  have lk: "sl_recordID lk = ir_ID r0" "sl_operationID lk = op" "sl_renewing lk"
    using g by (auto simp: granted_def split: if_splits)
  obtain r where "row_by_id ?t (ir_ID r0) = Some r"
    and row: "row_by_id t1 (ir_ID r0) = Some (reclaimed d (now + ss_lease s) (now + ss_ttl s) r)"
    using sql.reclaim_taken [OF table_ok_seq [OF ok] tr] by blast
  then have "r = r0" using lock_row_by_id [OF ok Some] by simp
  moreover have ok1: "table_ok t1" by (rule sql.reclaim_ok [OF table_ok_seq [OF ok] tr])
  moreover have "ir_Scope r0 = systemOperationLockScope" "ir_KeyHash r0 = HashIdempotencyKey E systemOperationLockKey"
    using Some ok by (simp_all add: find_row_iff)
  ultimately have "lock_row E t1 = Some (reclaimed d (now + ss_lease s) (now + ss_ttl s) r0)"
    using row by (simp add: find_row_iff row_by_id_iff reclaimed_def)
  then show ?thesis using ok1 lk row \<open>r = r0\<close> Some by (auto simp: reclaimed_def)
qed

text \<open>While the lease of the row lasts, nobody else is granted the lock.\<close>

lemma Acquire_busy:
  assumes ok: "table_ok t" and row: "lock_row E t = Some r" "ir_Status r = StatusProcessing" "ir_LockedUntil r = Some u" "now < u"
  shows "\<exists>e. fst (Acquire_run E (Some s) f d op now t) = Inl e" and "it_rows (snd (Acquire_run E (Some s) f d op now t)) = it_rows t"
proof -
  have "\<not> lock_free now r" using row by (simp add: lock_free_def)
  then have "\<exists>e. existing_run E s f d op now (t \<lparr> it_seq := it_seq t + 1 \<rparr>) = (Inl e, t \<lparr> it_seq := it_seq t + 1 \<rparr>)"
    using row by (simp add: existing_run_def' GetByScopeAndKeyHash_def Let_def)
  then show "\<exists>e. fst (Acquire_run E (Some s) f d op now t) = Inl e"
    and "it_rows (snd (Acquire_run E (Some s) f d op now t)) = it_rows t"
    using Acquire_existing [OF ok row(1), of s f d op now] by (auto split: fate.splits)
qed

section \<open>Racing requests\<close>

text \<open>
  Several requests for the lock. A request has the configuration of its process, its operation and the clock it
  read; \<open>started hs\<close> are the requests of a world in the order in which they start.
\<close>

record lock_request =
  lq_repo_nil :: bool
  lq_config :: IdempotencyConfig
  lq_operation :: string
  lq_now :: gotime

abbreviation lq_service :: "lock_request \<Rightarrow> SystemOperationLockService" where
  "lq_service q \<equiv> NewSystemOperationLockService (lq_repo_nil q) (lq_config q)"

definition lock_code :: "idem_env \<Rightarrow> lock_request \<Rightarrow> lock_prog" where
  "lock_code E q = Acquire E (Some (lq_service q)) (lq_operation q) (lq_now q)"

fun started :: "('i, 'q) happening list \<Rightarrow> 'q list" where
  "started [] = []"
| "started (Start q # hs) = q # started hs"
| "started (Turn n i # hs) = started hs"

definition lease_end :: "lock_request \<Rightarrow> gotime" where
  "lease_end q = lq_now q + ss_lease (lq_service q)"

lemma lease_pos: "lq_now q < lease_end q"
  by (simp add: lease_end_def NewSystemOperationLockService_def Let_def Second_def)

text \<open>The row says that the lock is held at least to the end of the lease of the request.\<close>

definition holds :: "idem_env \<Rightarrow> idem_table \<Rightarrow> lock_request \<Rightarrow> bool" where
  "holds E t q \<longleftrightarrow> (\<exists>r u. lock_row E t = Some r \<and> ir_LockedUntil r = Some u \<and> lease_end q \<le> u)"

text \<open>What a statement does to the row: nothing, or it writes the lease of its request, over a lease that is over.\<close>

definition lock_writes :: "idem_env \<Rightarrow> lock_request \<Rightarrow> idem_table \<Rightarrow> idem_table \<Rightarrow> bool" where
  "lock_writes E q t t' \<longleftrightarrow>
     (\<exists>r'. lock_row E t' = Some r' \<and> ir_LockedUntil r' = Some (lease_end q) \<and>
        (\<forall>r. lock_row E t = Some r \<longrightarrow> lock_free (lq_now q) r \<and> ir_ID r' = ir_ID r))"

text \<open>Where a request can be.\<close>

definition lock_place :: "idem_env \<Rightarrow> idem_table \<Rightarrow> lock_request \<Rightarrow> lock_prog \<Rightarrow> bool" where
  "lock_place E t q p \<longleftrightarrow>
     p = lock_code E q \<or> p = acquire_existing E (lq_service q) (lq_operation q) (lq_now q) \<or>
     (\<exists>x r. p = acquire_reclaim E (lq_service q) (lq_operation q) (lq_now q) x \<and> lock_row E t = Some r \<and> ir_ID r = ir_ID x) \<or>
     p = acquire_latest E (lq_now q) \<or> (\<exists>e. p = Return (Inl e)) \<or> (\<exists>lk. p = Return (Inr lk) \<and> holds E t q)"

lemma lock_place_Inl [simp]: "lock_place E t q (Return (Inl e))"
  by (simp add: lock_place_def)

lemma lock_place_others:
  assumes "lock_place E t q p" and "lock_row E t' = lock_row E t \<or> lock_writes E q' t t'"
  shows "lock_place E t' q p"
proof -
  have "holds E t' q" if h: "holds E t q"
  proof (cases "lock_row E t' = lock_row E t")
    case False
    obtain r u where r: "lock_row E t = Some r" "ir_LockedUntil r = Some u" "lease_end q \<le> u" using h by (auto simp: holds_def)
    then have "u \<le> lq_now q'" using assms(2) False by (auto simp: lock_writes_def lock_free_def)
    then show ?thesis using assms(2) False r lease_pos [of q'] by (auto simp: holds_def lock_writes_def)
  qed (use h in \<open>simp add: holds_def\<close>)
  moreover have "\<exists>r'. lock_row E t' = Some r' \<and> ir_ID r' = ir_ID r" if "lock_row E t = Some r" for r
    using assms(2) that by (auto simp: lock_writes_def)
  ultimately show ?thesis using assms(1) unfolding lock_place_def by metis
qed

lemma lock_row_same:
  assumes "table_ok t" and "table_ok t'" and "\<And>j. row_by_id t' j = row_by_id t j"
  shows "lock_row E t' = lock_row E t"
proof -
  have "r \<in> set (it_rows t') \<longleftrightarrow> r \<in> set (it_rows t)" for r
    using row_by_id_iff [OF assms(1), of "ir_ID r" r] row_by_id_iff [OF assms(2), of "ir_ID r" r] assms(3) by simp
  then have "lock_row E t' = Some r \<longleftrightarrow> lock_row E t = Some r" for r using assms(1,2) by (simp add: find_row_iff)
  then show ?thesis by (metis not_None_eq)
qed

lemma create_step:
  assumes ok: "table_ok t" and c: "CreateProcessing f d (Some (lock_record E (lq_service q) op (lq_now q))) t = (res, t')"
  shows "lock_row E t' = lock_row E t \<and> (\<forall>x. res \<noteq> Inr (True, x)) \<or> lock_writes E q t t' \<and> (\<forall>x. res \<noteq> Inr (False, x))"
proof -
  let ?r = "lock_record E (lq_service q) op (lq_now q)"
  have key: "ir_Scope ?r = systemOperationLockScope" "ir_KeyHash ?r = HashIdempotencyKey E systemOperationLockKey"
    by (simp_all add: lock_record_def)
  note cases = CreateProcessing_cases [OF ok c]
  have same: "lock_row E t' = lock_row E t" if "\<forall>j. row_by_id t' j = row_by_id t j"
    by (rule lock_row_same [OF ok cases(1)]) (use that in simp)
  consider "\<forall>j. row_by_id t' j = row_by_id t j" "\<forall>x. res \<noteq> Inr (True, x)"
    | "lock_row E t = None" "row_by_id t' (it_seq t) = Some (new_row d (it_seq t) ?r)" "\<forall>x. res \<noteq> Inr (False, x)"
    using cases(2-4) key by (metis (full_types))
  then show ?thesis
  proof cases
    case 2
    then have "lock_row E t' = Some (new_row d (it_seq t) ?r)"
      using cases(1) key by (simp add: find_row_iff row_by_id_iff new_row_def)
    then show ?thesis using 2 by (simp add: lock_writes_def new_row_def lock_record_def lease_end_def)
  qed (use same in blast)
qed

lemma reclaim_step:
  assumes ok: "table_ok t" and row: "lock_row E t = Some r" "ir_ID r = i"
    and tr: "TryReclaim f d i st (lq_now q) (lease_end q) e t = (res, t')"
  shows "lock_row E t' = lock_row E t \<and> res \<noteq> Inr True \<or> lock_writes E q t t'"
proof -
  let ?r = "reclaimed d (lease_end q) e r"
  have ok': "table_ok t'" by (rule sql.reclaim_ok [OF ok tr])
  have id: "row_by_id t i = Some r" using lock_row_by_id [OF ok row(1)] row(2) by simp
  have written: "lock_writes E q t t'" if w: "lock_free (lq_now q) r" "row_by_id t' i = Some ?r"
  proof -
    have "ir_Scope r = systemOperationLockScope" "ir_KeyHash r = HashIdempotencyKey E systemOperationLockKey"
      using row(1) ok by (simp_all add: find_row_iff)
    then have "lock_row E t' = Some ?r" using w(2) ok' by (simp add: find_row_iff row_by_id_iff reclaimed_def)
    then show ?thesis using w(1) row(1) by (simp add: lock_writes_def reclaimed_def)
  qed
  show ?thesis
  proof (cases "res = Inr True")
    case True
    then show ?thesis using sql.reclaim_taken [OF ok] tr id written by fastforce
  next
    case False
    have "row_by_id t' i = Some r \<or> lock_free (lq_now q) r \<and> row_by_id t' i = Some ?r"
      using statement_update(4) [OF ok keeps_key_reclaimed tr [unfolded TryReclaim_alt]] id by auto
    then show ?thesis
    proof
      assume "row_by_id t' i = Some r"
      then have "row_by_id t' j = row_by_id t j" for j using sql.reclaim_other [OF ok tr, of j] id by (cases "j = i") simp_all
      then show ?thesis using lock_row_same [OF ok ok'] False by blast
    qed (use written in blast)
  qed
qed

lemma lock_place_granted: "lock_place E t q (Return (Inr lk)) \<Longrightarrow> holds E t q"
  by (auto simp: lock_place_def lock_code_def Acquire_def acquire_existing_def acquire_reclaim_def acquire_latest_def
      split: if_splits)

lemma written_granted:
  assumes "lock_writes E q t t'"
  shows "lock_place E t' q (Return (granted op i))"
  using assms by (auto simp: granted_def lock_place_def holds_def lock_writes_def)

lemma lock_step:
  assumes ok: "table_ok t" and place: "lock_place E t q (Do c k)" and exec: "lock_exec inp c t = (r, t')"
  shows "table_ok t' \<and> lock_place E t' q (k r) \<and>
    (lock_row E t' = lock_row E t \<and> (\<forall>lk. k r \<noteq> Return (Inr lk)) \<or> lock_writes E q t t')"
proof -
  obtain f d where inp: "inp = (f, d)" by (cases inp)
  let ?s = "lq_service q" and ?op = "lq_operation q" and ?now = "lq_now q"
  consider (create) "lock_code E q = Do c k" | (existing) "acquire_existing E ?s ?op ?now = Do c k"
    | (reclaim) x r0 where "acquire_reclaim E ?s ?op ?now x = Do c k" "lock_row E t = Some r0" "ir_ID r0 = ir_ID x"
    | (latest) "acquire_latest E ?now = Do c k"
    using place by (auto simp: lock_place_def)
  then show ?thesis
  proof cases
    case create
    then have c: "c = L_create (lock_record E ?s ?op ?now)"
      and k: "k = (\<lambda>r. case r of
         L_created (Inr (owner, rcd)) \<Rightarrow>
           if owner then Return (granted ?op (case rcd of None \<Rightarrow> 0 | Some r \<Rightarrow> ir_ID r)) else acquire_existing E ?s ?op ?now
       | _ \<Rightarrow> Return (Inl ErrIdempotencyStoreUnavail))"
      by (auto simp: lock_code_def Acquire_def split: if_splits)
    obtain res where cr: "CreateProcessing f d (Some (lock_record E ?s ?op ?now)) t = (res, t')" and r: "r = L_created res"
      using exec by (cases "CreateProcessing f d (Some (lock_record E ?s ?op ?now)) t") (simp add: inp c)
    note step = create_step [OF ok cr]
    have "lock_place E t' q (acquire_existing E ?s ?op ?now)" by (simp add: lock_place_def)
    moreover have "acquire_existing E ?s ?op ?now \<noteq> Return y" for y by (simp add: acquire_existing_def)
    ultimately show ?thesis
      using CreateProcessing_cases(1) [OF ok cr] step written_granted
      by (cases res) (auto simp: k r split: prod.splits)
  next
    case existing
    then have c: "c = L_get systemOperationLockScope (HashIdempotencyKey E systemOperationLockKey)"
      and k: "k = (\<lambda>r. case r of
         L_row (Inr (Some existing)) \<Rightarrow>
           if ir_Status existing = StatusProcessing \<and> ir_LockedUntil existing \<noteq> None \<and> \<not> lock_free ?now existing
           then Return (Inl (busyError (ir_Fingerprint existing) (ir_LockedUntil existing) ?now))
           else acquire_reclaim E ?s ?op ?now existing
       | _ \<Rightarrow> Return (Inl ErrIdempotencyStoreUnavail))"
      by (simp_all add: acquire_existing_def)
    have "lock_place E t q (acquire_reclaim E ?s ?op ?now x)" if "lock_row E t = Some x" for x
      using that by (auto simp: lock_place_def)
    moreover have "acquire_reclaim E ?s ?op ?now x \<noteq> Return y" for x y by (simp add: acquire_reclaim_def)
    ultimately show ?thesis
      using exec ok by (auto simp: inp c k GetByScopeAndKeyHash_def split: option.splits if_splits)
  next
    case reclaim
    then have c: "c = L_reclaim (ir_ID x) (ir_Status x) ?now (lease_end q) (?now + ss_ttl ?s)"
      and k: "k = (\<lambda>r. case r of
         L_taken (Inr taken) \<Rightarrow> if \<not> taken then acquire_latest E ?now else Return (granted ?op (ir_ID x))
       | _ \<Rightarrow> Return (Inl ErrIdempotencyStoreUnavail))"
      by (simp_all add: acquire_reclaim_def lease_end_def)
    obtain res where tr: "TryReclaim f d (ir_ID x) (ir_Status x) ?now (lease_end q) (?now + ss_ttl ?s) t = (res, t')" and r: "r = L_taken res"
      using exec by (cases "TryReclaim f d (ir_ID x) (ir_Status x) ?now (lease_end q) (?now + ss_ttl ?s) t") (simp add: inp c)
    note step = reclaim_step [OF ok reclaim(2,3) tr]
    have "lock_place E t' q (acquire_latest E ?now)" by (simp add: lock_place_def)
    moreover have "acquire_latest E ?now \<noteq> Return y" for y by (simp add: acquire_latest_def)
    ultimately show ?thesis
      using sql.reclaim_ok [OF ok tr] step written_granted by (cases res) (auto simp: k r)
  next
    case latest
    then show ?thesis
      using exec ok by (auto simp: inp acquire_latest_def split: sum.splits option.splits)
  qed
qed

text \<open>Worlds of requests: those that were granted the lock have leases that do not overlap.\<close>

definition apart :: "lock_request \<Rightarrow> lock_request \<Rightarrow> bool" where
  "apart q q' \<longleftrightarrow> lease_end q \<le> lq_now q' \<or> lease_end q' \<le> lq_now q"

definition lock_world :: "idem_env \<Rightarrow> lock_request list \<Rightarrow> lock_prog list \<Rightarrow> idem_table \<Rightarrow> bool" where
  "lock_world E qs ps t \<longleftrightarrow>
     table_ok t \<and> length ps = length qs \<and> (\<forall>i < length qs. lock_place E t (qs ! i) (ps ! i)) \<and>
     (\<forall>i < length qs. \<forall>j < length qs. \<forall>lk lk'. i \<noteq> j \<longrightarrow> ps ! i = Return (Inr lk) \<longrightarrow> ps ! j = Return (Inr lk') \<longrightarrow>
        apart (qs ! i) (qs ! j))"

lemma granted_apart:
  assumes "lock_writes E q t t'" and "holds E t q'"
  shows "apart q q'" and "apart q' q"
  using assms by (auto simp: lock_writes_def holds_def lock_free_def apart_def)

lemma lock_world_turn:
  assumes w: "lock_world E qs ps t" and n: "n < length ps" "ps ! n = Do c k" and exec: "lock_exec inp c t = (r, t')"
  shows "lock_world E qs (ps[n := k r]) t'"
proof -
  have ok: "table_ok t" and len: "length ps = length qs" and place: "\<And>i. i < length qs \<Longrightarrow> lock_place E t (qs ! i) (ps ! i)"
    and old: "\<And>i j lk lk'. i < length qs \<Longrightarrow> j < length qs \<Longrightarrow> i \<noteq> j \<Longrightarrow> ps ! i = Return (Inr lk) \<Longrightarrow> ps ! j = Return (Inr lk') \<Longrightarrow>
      apart (qs ! i) (qs ! j)"
    using w by (auto simp: lock_world_def)
  have nq: "n < length qs" using n(1) len by simp
  have step: "table_ok t'" "lock_place E t' (qs ! n) (k r)"
    "lock_row E t' = lock_row E t \<and> (\<forall>lk. k r \<noteq> Return (Inr lk)) \<or> lock_writes E (qs ! n) t t'"
    using lock_step [OF ok _ exec] place [OF nq] n(2) by auto
  have "lock_place E t' (qs ! i) (ps[n := k r] ! i)" if "i < length qs" for i
    using step lock_place_others [OF place [OF that]] that len by (cases "i = n") auto
  moreover have new: "apart (qs ! n) (qs ! j) \<and> apart (qs ! j) (qs ! n)"
    if "k r = Return (Inr lk)" "j < length qs" "j \<noteq> n" "ps ! j = Return (Inr lk')" for lk lk' j
    using step(3) that granted_apart lock_place_granted place [OF that(2)] by metis
  have "apart (qs ! i) (qs ! j)"
    if "i < length qs" "j < length qs" "i \<noteq> j" "ps[n := k r] ! i = Return (Inr lk)" "ps[n := k r] ! j = Return (Inr lk')" for i j lk lk'
    using that old new len by (cases "i = n"; cases "j = n") auto
  ultimately show ?thesis using step(1) len by (auto simp: lock_world_def)
qed

lemma lock_world_start:
  assumes "lock_world E qs ps t"
  shows "lock_world E (qs @ [q]) (ps @ [lock_code E q]) t"
proof -
  have "lock_code E q \<noteq> Return (Inr lk)" for lk by (simp add: lock_code_def Acquire_def)
  moreover have "lock_place E t q (lock_code E q)" by (simp add: lock_place_def)
  ultimately show ?thesis using assms by (auto simp: lock_world_def nth_append less_Suc_eq)
qed

lemma lock_world_run:
  assumes "lock_world E qs ps t" and "fold (world_step lock_exec (lock_code E)) hs (ps, t) = (ps', t')"
  shows "lock_world E (qs @ started hs) ps' t'"
  using assms
proof (induction hs arbitrary: qs ps t)
  case (Cons h hs)
  show ?case
  proof (cases h)
    case (Start q)
    then show ?thesis using Cons.IH [OF lock_world_start [OF Cons.prems(1)]] Cons.prems(2) by simp
  next
    case (Turn n inp)
    show ?thesis
    proof (cases "n < length ps \<and> (\<exists>c k. ps ! n = Do c k)")
      case True
      then obtain c k where n: "n < length ps" "ps ! n = Do c k" by blast
      obtain r t1 where e: "lock_exec inp c t = (r, t1)" by (cases "lock_exec inp c t")
      show ?thesis
        using Cons.IH [OF lock_world_turn [OF Cons.prems(1) n e]] Cons.prems(2) by (simp add: Turn n e)
    next
      case False
      then have "world_step lock_exec (lock_code E) h (ps, t) = (ps, t)" by (cases "ps ! n") (auto simp: Turn)
      then show ?thesis using Cons.IH [OF Cons.prems(1)] Cons.prems(2) by (simp add: Turn)
    qed
  qed
qed simp

section \<open>Guarantees\<close>

text \<open>
  Property C37 (safety). Within a lease the lock excludes. Let any number of processes call \<open>Acquire\<close>, in any
  interleaving of the single statements, from any well-formed table, with any clocks, leases from any
  configurations and with statements that fail before or after their effect. Two different calls that were both
  granted the lock have leases that do not overlap: the one lease ends before or when the other call read its
  clock. The condition is that nothing but these calls changes the row meanwhile: a release ends a lease
  early, which it is meant to do, and renewals and the deletion of the expired row are not in this world either.
\<close>

theorem system_lock_exclusive:
  assumes "table_ok t" and "world_run lock_exec (lock_code E) hs t = (ps, t')"
    and "i < length ps" and "j < length ps" and "i \<noteq> j" and "ps ! i = Return (Inr lk)" and "ps ! j = Return (Inr lk')"
  shows "length ps = length (started hs) \<and>
    (lease_end (started hs ! i) \<le> lq_now (started hs ! j) \<or> lease_end (started hs ! j) \<le> lq_now (started hs ! i))"
proof -
  have "lock_world E [] [] t" using assms(1) by (simp add: lock_world_def)
  then have "lock_world E ([] @ started hs) ps t'" by (rule lock_world_run) (use assms(2) in \<open>simp add: world_run_def\<close>)
  then show ?thesis using assms(3-7) unfolding lock_world_def apart_def by simp
qed

definition example_service :: SystemOperationLockService where
  "example_service = NewSystemOperationLockService False DefaultIdempotencyConfig"

definition plain_env :: idem_env where
  "plain_env = \<lparr> env_upper = (\<lambda>s. s), env_sha256 = (\<lambda>s. s), env_Marshal = (\<lambda>v. None), env_Unmarshal = (\<lambda>s. None),
     env_Redact = (\<lambda>s. s) \<rparr>"

text \<open>
  Two calls race for the lock; one is granted it. A third call, an hour later, takes the lock over. The first two
  find no row, so one of the two creations fails.
\<close>

definition lock_race :: "(fate \<times> gotime, lock_request) happening list" where
  "lock_race =
     (let q = (\<lambda>op now. Start \<lparr> lq_repo_nil = False, lq_config = DefaultIdempotencyConfig, lq_operation = op, lq_now = now \<rparr>);
          turn = (\<lambda>n. Turn n (Works, 0))
      in [q ''update'' 0, q ''restart'' 1, turn 1, turn 0, turn 0, q ''rollback'' Hour, turn 2, turn 2, turn 2])"

theorem system_lock_exclusive_witness:
  "let (ps, t') = world_run lock_exec (lock_code plain_env) lock_race empty_table;
       won = (\<lambda>p. case p of Return (Inr lk) \<Rightarrow> sl_operationID lk | _ \<Rightarrow> [])
   in map won ps = [[], ''restart'', ''rollback''] \<and>
      (lease_end (started lock_race ! 1) \<le> lq_now (started lock_race ! 2) \<or>
       lease_end (started lock_race ! 2) \<le> lq_now (started lock_race ! 1))"
proof -
  let ?w = "world_run lock_exec (lock_code plain_env) lock_race empty_table"
  let ?won = "\<lambda>p :: lock_prog. case p of Return (Inr lk) \<Rightarrow> sl_operationID lk | _ \<Rightarrow> []"
  have won: "map ?won (fst ?w) = [[], ''restart'', ''rollback'']" by code_simp
  then have len: "length (fst ?w) = 3" by (metis length_map length_Cons list.size(3) numeral_3_eq_3)
  have "?won (fst ?w ! 1) = ''restart''" "?won (fst ?w ! 2) = ''rollback''"
    using arg_cong [OF won, of "\<lambda>xs. xs ! 1"] arg_cong [OF won, of "\<lambda>xs. xs ! 2"] len by simp_all
  then obtain lk lk' where "fst ?w ! 1 = Return (Inr lk)" "fst ?w ! 2 = Return (Inr lk')"
    by (auto split: prog.splits sum.splits)
  then show ?thesis
    using system_lock_exclusive [OF table_ok_empty, of plain_env lock_race "fst ?w" "snd ?w" 1 2 lk lk'] won len
    by (auto simp: Let_def split: prod.splits)
qed

lemma lost_renewal:
  assumes "table_ok t" and "row_by_id t (sl_recordID lk) = Some r" and "ir_Fingerprint r \<noteq> sl_operationID lk"
    and "sl_renewing lk"
  shows "renew_round s Works d now lk t = (lk \<lparr> sl_renewing := False \<rparr>, t)"
proof -
  let ?up = "update_rows (\<lambda>r. ir_ID r = sl_recordID lk \<and> ir_Status r = StatusProcessing \<and>
      ir_Fingerprint r = sl_operationID lk) (extended_row d (now + ss_lease s) (now + ss_ttl s)) t"
  have "\<not> 0 < fst ?up"
    using update_rows_affected [OF assms(1)] assms(2,3) by auto
  then have "snd ?up = t" "fst ?up = 0" using update_rows_none by auto
  then show ?thesis
    using assms(4) by (simp add: renew_round_def ExtendProcessingLock_alt map_prod_snd statement_Works)
qed

text \<open>
  A lock that was taken over cannot be renewed. Once the row exists, every
  later operation gets the lock by reclaiming the row, and that leaves the fingerprint of the
  operation that created the row. The renewal asks for the fingerprint of the new operation, so
  its first round finds no row, leaves the table alone and ends the renewal; and when the first
  lease is over, another operation is granted the lock while the holder is still running.
\<close>

theorem takeover_never_renewed:
  assumes "table_ok t" and "lock_row E t = Some r" and "ir_Fingerprint r \<noteq> op"
    and "ir_Status r \<noteq> StatusProcessing" and "lock_free now r"
    and "\<not> ss_repo_nil s" and "op \<noteq> []" and "op' \<noteq> []" and "now + ss_lease s \<le> now'"
  shows "\<exists>lk t1 lk' t2. Acquire_run E (Some s) (\<lambda>_. Works) d op now t = (Inr lk, t1) \<and>
    renew_round s Works d' renewTime lk t1 = (lk \<lparr> sl_renewing := False \<rparr>, t1) \<and>
    Acquire_run E (Some s) (\<lambda>_. Works) d'' op' now' t1 = (Inr lk', t2) \<and> sl_recordID lk' = sl_recordID lk"
proof -
  let ?rec = "reclaimed d (now + ss_lease s) (now + ss_ttl s)"
  have take: "\<exists>t1. Acquire_run E (Some s) (\<lambda>_. Works) d op now t =
      (Inr \<lparr> sl_recordID = ir_ID r, sl_operationID = op, sl_renewing = True \<rparr>, t1)"
    if row: "table_ok t" "lock_row E t = Some r" "ir_Status r = StatusProcessing \<longrightarrow> lock_free now r" "lock_free now r" "op \<noteq> []"
    for t r op now d
  proof -
    let ?t = "t \<lparr> it_seq := it_seq t + 1 \<rparr>"
    have id: "row_by_id ?t (ir_ID r) = Some r" "ir_ID r \<noteq> 0"
      using lock_row_by_id [OF row(1,2)] row(1) by (auto simp: row_by_id_iff table_ok_def)
    obtain res t1 where tr: "TryReclaim Works d (ir_ID r) (ir_Status r) now (now + ss_lease s) (now + ss_ttl s) ?t = (res, t1)"
      by (cases "TryReclaim Works d (ir_ID r) (ir_Status r) now (now + ss_lease s) (now + ss_ttl s) ?t")
    have "res = Inr True"
      using tr sql.reclaim_refused [OF table_ok_seq [OF row(1)], of Works d "ir_ID r" "ir_Status r" now] id row(4)
      by (cases res) (auto simp: TryReclaim_def statement_Works)
    then show ?thesis
      using Acquire_existing [OF row(1,2)] tr row id(2) \<open>\<not> ss_repo_nil s\<close>
      by (auto simp: existing_run_def' GetByScopeAndKeyHash_def granted_def Let_def)
  qed
  obtain t1 where a: "Acquire_run E (Some s) (\<lambda>_. Works) d op now t =
      (Inr \<lparr> sl_recordID = ir_ID r, sl_operationID = op, sl_renewing = True \<rparr>, t1)"
    using take [OF assms(1,2) _ assms(5,7)] assms(4) by blast
  let ?lk = "\<lparr> sl_recordID = ir_ID r, sl_operationID = op, sl_renewing = True \<rparr>"
  obtain r1 where r1: "table_ok t1" "row_by_id t1 (ir_ID r) = Some r1" "lock_row E t1 = Some r1"
      "ir_LockedUntil r1 = Some (now + ss_lease s)" "ir_Fingerprint r1 = ir_Fingerprint r"
    using Acquire_granted [OF assms(1) a] assms(2) by auto
  have "renew_round s Works d' renewTime ?lk t1 = (?lk \<lparr> sl_renewing := False \<rparr>, t1)"
    using lost_renewal [OF r1(1), of ?lk r1 s d' renewTime] r1(2,5) assms(3) by simp
  moreover have "lock_free now' r1" using r1(4) assms(9) by (simp add: lock_free_def)
  then obtain t2 where "Acquire_run E (Some s) (\<lambda>_. Works) d'' op' now' t1 =
      (Inr \<lparr> sl_recordID = ir_ID r1, sl_operationID = op', sl_renewing = True \<rparr>, t2)"
    using take [OF r1(1,3) _ _ assms(8)] by blast
  moreover have "ir_ID r1 = ir_ID r" using r1(1,2) by (simp add: row_by_id_iff)
  ultimately show ?thesis using a by auto
qed

definition released_table :: idem_table where
  "released_table = (let (g, t) = Acquire_run plain_env (Some example_service) (\<lambda>_. Works) 0 ''update'' 0 empty_table
     in snd (snd (Release (Some example_service) Works 1 (case g of Inl _ \<Rightarrow> None | Inr lk \<Rightarrow> Some lk) True [] 1 t)))"

theorem takeover_never_renewed_witness:
  "\<exists>lk t1 lk' t2. Acquire_run plain_env (Some example_service) (\<lambda>_. Works) 2 ''restart'' 2 released_table = (Inr lk, t1) \<and>
    renew_round example_service Works 3 (10 * Second) lk t1 = (lk \<lparr> sl_renewing := False \<rparr>, t1) \<and>
    Acquire_run plain_env (Some example_service) (\<lambda>_. Works) 4 ''rollback'' (40 * Second) t1 = (Inr lk', t2)"
proof -
  obtain r where r: "lock_row plain_env released_table = Some r" "ir_Fingerprint r \<noteq> ''restart''"
    "ir_Status r \<noteq> StatusProcessing" "lock_free 2 r"
  proof -
    have "map_option (\<lambda>r. (ir_Fingerprint r = ''restart'', ir_Status r = StatusProcessing, lock_free 2 r))
        (lock_row plain_env released_table) = Some (False, False, True)" by code_simp
    then show thesis using that by (auto simp: map_option_case split: option.splits)
  qed
  have ok: "table_ok released_table" by code_simp
  have "\<not> ss_repo_nil example_service" "2 + ss_lease example_service \<le> 40 * Second" by code_simp+
  then show ?thesis
    using takeover_never_renewed [OF ok r(1,2,3,4), of example_service "''rollback''" "40 * Second" 2 3 "10 * Second" 4] by auto
qed

end
