(* ===== verification/Shared_Table.thy ===== *)
theory Shared_Table
  imports Idempotency_Proofs System_Lock
begin

text \<open>
  The idempotency coordinator and the system lock write to the same table. A step of a request
  changes at most the row of the request's own key, so requests of other scopes never touch the
  row of the lock.
\<close>

section \<open>Rows a request can write\<close>

text \<open>The row a request may still write, and the key that row has while it exists.\<close>

fun target_id :: "idem_place \<Rightarrow> (claim \<times> int) option" where
  "target_id (ReclaimingExpired c r) = Some (c, ir_ID r)"
| "target_id (ReclaimingFailed c r) = Some (c, ir_ID r)"
| "target_id (Executing c i) = Some (c, i)"
| "target_id (Failing c i st e) = Some (c, i)"
| "target_id (Succeeding c i st v) = Some (c, i)"
| "target_id _ = None"

definition target_ok :: "IdempotencyExecuteOptions \<Rightarrow> idem_table \<Rightarrow> idem_place \<Rightarrow> bool" where
  "target_ok opts t q \<longleftrightarrow>
     (\<forall>c i. target_id q = Some (c, i) \<longrightarrow> has_row t i (op_Scope opts, cl_keyHash c))"

lemma target_ok_None: "target_id q = None \<Longrightarrow> target_ok opts t q"
  by (simp add: target_ok_def)

lemma target_ok_changes: "target_ok opts t q \<Longrightarrow> changes i t t' \<Longrightarrow> target_ok opts t' q"
  using has_row_changes by (auto simp: target_ok_def)

text \<open>What one step of a request does to the table: a change of one row, the row of its own key.\<close>

definition own_change :: "IdempotencyExecuteOptions \<Rightarrow> idem_table \<Rightarrow> idem_table \<Rightarrow> bool" where
  "own_change opts t t' \<longleftrightarrow> table_ok t' \<and>
     ((\<forall>j. row_by_id t' j = row_by_id t j) \<or>
      (\<exists>i h. changes i t t' \<and> has_row t' i (op_Scope opts, h)))"

lemma own_change_same: "table_ok t' \<Longrightarrow> (\<forall>j. row_by_id t' j = row_by_id t j) \<Longrightarrow> own_change opts t t'"
  by (simp add: own_change_def)

lemma own_change_lock_row:
  assumes "table_ok t" and "own_change opts t t'" and "op_Scope opts \<noteq> systemOperationLockScope"
  shows "lock_row E t' = lock_row E t"
proof -
  have ok': "table_ok t'" using assms(2) by (simp add: own_change_def)
  have key: "ir_Scope r = systemOperationLockScope" if "lock_row E x = Some r" "table_ok x" for x r
    using that by (simp add: find_row_iff)
  have eq: "row_by_id t' (ir_ID r) = row_by_id t (ir_ID r)"
    if r: "lock_row E t = Some r \<or> lock_row E t' = Some r" for r
  proof -
    consider "\<forall>j. row_by_id t' j = row_by_id t j"
      | i h where "changes i t t'" "has_row t' i (op_Scope opts, h)"
      using assms(2) by (auto simp: own_change_def)
    then show ?thesis
    proof cases
      case 2
      have "ir_ID r \<noteq> i"
      proof
        assume i: "ir_ID r = i"
        obtain r' where r': "row_by_id t' i = Some r'" "ir_Scope r' = op_Scope opts"
          using 2(2) by (auto simp: has_row_def row_key_def)
        from r show False
        proof
          assume l: "lock_row E t = Some r"
          then have "row_by_id t i = Some r" using lock_row_by_id [OF assms(1) l] i by simp
          then have "row_key r' = row_key r" using 2(1) r'(1) by (auto simp: changes_def)
          then show False using key [OF l assms(1)] r'(2) assms(3) by (simp add: row_key_def)
        next
          assume l: "lock_row E t' = Some r"
          then show False using lock_row_by_id [OF ok' l] i r' key [OF l ok'] assms(3) by simp
        qed
      qed
      then show ?thesis using 2(1) by (simp add: changes_def)
    qed simp
  qed
  have "lock_row E t' = Some r" if l: "lock_row E t = Some r" for r
  proof -
    have "row_by_id t' (ir_ID r) = Some r" using eq [of r] lock_row_by_id [OF assms(1) l] l by simp
    then show ?thesis using l by (simp add: find_row_iff [OF assms(1)] find_row_iff [OF ok'] row_by_id_iff [OF ok'])
  qed
  moreover have "lock_row E t = Some r" if l: "lock_row E t' = Some r" for r
  proof -
    have "row_by_id t (ir_ID r) = Some r" using eq [of r] lock_row_by_id [OF ok' l] l by simp
    then show ?thesis using l by (simp add: find_row_iff [OF assms(1)] find_row_iff [OF ok'] row_by_id_iff [OF assms(1)])
  qed
  ultimately show ?thesis by (cases "lock_row E t"; cases "lock_row E t'") auto
qed

section \<open>Steps of requests\<close>

lemma own_change_row:
  assumes "table_ok t'" and "changes i t t'" and "has_row t i k" and "fst k = op_Scope opts"
  shows "own_change opts t t'"
proof -
  have "has_row t' i k" by (rule has_row_changes [OF assms(3,2)])
  then show ?thesis using assms(1,2,4) unfolding own_change_def by (metis prod.collapse)
qed

lemma own_change_statement:
  assumes "table_ok t'" and "has_row t i (op_Scope opts, h)" and "keeps_key u"
    and "row_by_id t' i = row_by_id t i \<or> (\<exists>r. row_by_id t i = Some r \<and> c r \<and> row_by_id t' i = Some (u r))"
    and "\<And>j. j \<noteq> i \<Longrightarrow> row_by_id t' j = row_by_id t j"
  shows "own_change opts t t' \<and> changes i t t'"
proof -
  have ch: "changes i t t'" by (rule mark_changes [OF assms(4,5,3)])
  then show ?thesis using own_change_row [OF assms(1) ch assms(2)] by simp
qed

lemma existing_target:
  assumes "table_ok t" and "GetByScopeAndKeyHash f (op_Scope opts) (cl_keyHash c) t = res"
    and "q = fst (on_existing E c res m) \<or> q = fst (on_latest E c res m)"
  shows "target_ok opts t q"
proof -
  have st: "target_ok opts t (fst (on_status E c r m))" if "find_row t (op_Scope opts) (cl_keyHash c) = Some r" for r m
    using that assms(1)
    by (auto simp: on_status_def target_ok_def has_row_def find_row_iff row_by_id_iff row_key_def split: option.splits)
  have re: "target_ok opts t (ReclaimingExpired c r)" if "find_row t (op_Scope opts) (cl_keyHash c) = Some r" for r
    using that assms(1) by (auto simp: target_ok_def has_row_def find_row_iff row_by_id_iff row_key_def)
  show ?thesis
  proof (cases res)
    case (Inl u)
    then show ?thesis using assms(3) by (auto simp: on_existing_def on_latest_def target_ok_None)
  next
    case (Inr ro)
    then have ro: "ro = find_row t (op_Scope opts) (cl_keyHash c)"
      using assms(2) by (auto simp: GetByScopeAndKeyHash_def split: if_splits)
    show ?thesis
    proof (cases ro)
      case None
      then show ?thesis using assms(3) Inr by (auto simp: on_existing_def on_latest_def target_ok_None)
    next
      case (Some r)
      then show ?thesis
        using assms(3) Inr st [of r m] re [of r] ro
        by (auto simp: on_existing_def on_latest_def target_ok_None)
    qed
  qed
qed

lemma reclaim_target:
  assumes "table_ok t" and "has_row t i (op_Scope opts, cl_keyHash c)"
    and "TryReclaim f d i st now l e t = (res, t')"
  shows "own_change opts t t' \<and> changes i t t'"
proof -
  note tr = try_reclaim [OF assms(1,3)]
  show ?thesis by (rule own_change_statement [OF tr(1) assms(2) keeps_key_reclaimed tr(4,3)])
qed

lemma creating_target:
  assumes "table_ok t" and "idem_step E cfg opts inp (Creating c) t m = (q, t', m')"
  shows "own_change opts t t' \<and> target_ok opts t' q \<and> (\<exists>i. changes i t t')"
proof -
  let ?r = "claim_record opts c" and ?i = "it_seq t"
  obtain res where cr: "CreateProcessing (in_fate inp) (in_dbnow inp) (Some ?r) t = (res, t')"
    using assms(2) by (auto simp: execute_with_def split: prod.splits sum.splits if_splits option.splits)
  note cases = CreateProcessing_cases [OF assms(1) cr]
  have none: "row_by_id t ?i = None" using assms(1) by (fastforce simp: row_by_id_None_iff table_ok_def)
  have new: "changes ?i t t' \<and> has_row t' ?i (op_Scope opts, cl_keyHash c)"
    if "\<forall>j. row_by_id t' j = (if j = ?i then Some (new_row (in_dbnow inp) ?i ?r) else row_by_id t j)"
    using that none by (simp add: changes_def has_row_def row_key_def new_row_def claim_record_def)
  have "own_change opts t t' \<and> (\<exists>i. changes i t t')"
    using cases(4)
  proof
    assume "\<forall>j. row_by_id t' j = row_by_id t j"
    then show ?thesis using own_change_same [OF cases(1)] changes_same by blast
  next
    assume "find_row t (ir_Scope ?r) (ir_KeyHash ?r) = None \<and>
      (\<forall>j. row_by_id t' j = (if j = ?i then Some (new_row (in_dbnow inp) ?i ?r) else row_by_id t j))"
    then show ?thesis using new cases(1) unfolding own_change_def by blast
  qed
  moreover have "target_ok opts t' q"
  proof (cases "\<exists>x. res = Inr (True, x)")
    case True
    then obtain x where x: "res = Inr (True, x)" by blast
    obtain r1 where "x = Some r1" "ir_ID r1 = ?i" and h: "has_row t' ?i (op_Scope opts, cl_keyHash c)"
      using cases(2) [OF x TrueI] new by blast
    then have "target_id q = None \<or> q = Executing c ?i"
      using assms(2) cr x by (auto simp: execute_with_def split: if_splits)
    then show ?thesis using h by (auto simp: target_ok_def)
  next
    case False
    then have "target_id q = None" using assms(2) cr by (cases res) auto
    then show ?thesis by (rule target_ok_None)
  qed
  ultimately show ?thesis by simp
qed

lemma idem_step_target:
  assumes ok: "table_ok t" and tg: "target_ok opts t p" and st: "idem_step E cfg opts inp p t m = (q, t', m')"
  shows "own_change opts t t' \<and> target_ok opts t' q \<and> (\<exists>i. changes i t t')"
proof -
  have same: ?thesis if "t' = t" "target_ok opts t q"
    using that own_change_same [OF ok] changes_same by blast
  have row: ?thesis if "own_change opts t t' \<and> changes i t t'" "target_ok opts t' q" for i using that by blast
  show ?thesis
  proof (cases p)
    case Entry
    then have "t' = t \<and> target_id q = None"
      using st by (auto simp: execute_entry_def Let_def split: prod.splits sum.splits if_splits)
    then show ?thesis using same target_ok_None by blast
  next
    case Plain
    then have "t' = t \<and> target_id q = None" using st by auto
    then show ?thesis using same target_ok_None by blast
  next
    case (Creating c)
    then show ?thesis using creating_target [OF ok] st by simp
  next
    case (Getting c)
    then have "t' = t" and q: "q = fst (on_existing E c (GetByScopeAndKeyHash (in_fate inp) (op_Scope opts) (cl_keyHash c) t) m)"
      using st by (auto split: prod.splits)
    then show ?thesis using same existing_target [OF ok refl, of q E c] by blast
  next
    case (GettingLatest c)
    then have "t' = t" and q: "q = fst (on_latest E c (GetByScopeAndKeyHash (in_fate inp) (op_Scope opts) (cl_keyHash c) t) m)"
      using st by (auto split: prod.splits)
    then show ?thesis using same existing_target [OF ok refl, of q E c] by blast
  next
    case (ReclaimingExpired c r)
    then have h: "has_row t (ir_ID r) (op_Scope opts, cl_keyHash c)" using tg by (simp add: target_ok_def)
    obtain res where tr: "TryReclaim (in_fate inp) (in_dbnow inp) (ir_ID r) (ir_Status r) (cl_now c)
        (cl_lockedUntil c) (cl_expiresAt c) t = (res, t')" and "target_id q = None \<or> q = Executing c (ir_ID r)"
      using st ReclaimingExpired by (auto simp: execute_with_def split: prod.splits sum.splits if_splits)
    then show ?thesis
      using row [OF reclaim_target [OF ok h tr]] reclaim_target [OF ok h tr] has_row_changes [OF h]
      by (auto simp: target_ok_def)
  next
    case (ReclaimingFailed c r)
    then have h: "has_row t (ir_ID r) (op_Scope opts, cl_keyHash c)" using tg by (simp add: target_ok_def)
    obtain res where tr: "TryReclaim (in_fate inp) (in_dbnow inp) (ir_ID r) StatusFailedRetryable (cl_now c)
        (cl_lockedUntil c) (cl_expiresAt c) t = (res, t')" and "target_id q = None \<or> q = Executing c (ir_ID r)"
      using st ReclaimingFailed by (auto simp: execute_with_def split: prod.splits sum.splits if_splits)
    then show ?thesis
      using row [OF reclaim_target [OF ok h tr]] reclaim_target [OF ok h tr] has_row_changes [OF h]
      by (auto simp: target_ok_def)
  next
    case (Executing c i)
    then have "t' = t \<and> target_ok opts t q" using st tg by (auto simp: target_ok_def split: sum.splits)
    then show ?thesis using same by blast
  next
    case (Failing c i s e)
    then have h: "has_row t i (op_Scope opts, cl_keyHash c)" using tg by (simp add: target_ok_def)
    obtain res l msg where mk: "MarkFailedRetryable (in_fate inp) (in_dbnow inp) i msg l (cl_expiresAt c) t = (res, t')"
      and q: "target_id q = None" using st Failing by (auto simp: Let_def split: prod.splits)
    note mk' = mark_failed [OF ok mk]
    show ?thesis
      using row [OF own_change_statement [OF mk'(1) h keeps_key_marks(2) mk'(4,3)] target_ok_None [OF q]] .
  next
    case (Succeeding c i s v)
    then have h: "has_row t i (op_Scope opts, cl_keyHash c)" using tg by (simp add: target_ok_def)
    show ?thesis
    proof (cases "marshalStoredResponse E cfg v")
      case None
      then have "t' = t \<and> target_id q = None" using st Succeeding by auto
      then show ?thesis using same target_ok_None by blast
    next
      case (Some b)
      then obtain res where mk: "MarkSucceeded (in_fate inp) (in_dbnow inp) i 200 b (cl_expiresAt c) t = (res, t')"
        and q: "target_id q = None" using st Succeeding by (auto split: prod.splits sum.splits)
      note mk' = mark_succeeded [OF ok mk]
      show ?thesis
        using row [OF own_change_statement [OF mk'(1) h keeps_key_marks(1) mk'(4,3)] target_ok_None [OF q]] .
    qed
  next
    case (Returned r)
    then have "t' = t \<and> target_id q = None" using st by auto
    then show ?thesis using same target_ok_None by blast
  qed
qed

definition targets_ok :: "IdempotencyExecuteOptions list \<Rightarrow> idem_world \<Rightarrow> bool" where
  "targets_ok reqs w \<longleftrightarrow> table_ok (wd_table w) \<and> length (wd_at w) = length reqs \<and>
     (\<forall>p < length reqs. target_ok (reqs ! p) (wd_table w) (wd_at w ! p))"

lemma act_targets:
  assumes "targets_ok reqs w" and "\<forall>opts \<in> set reqs. op_Scope opts \<noteq> systemOperationLockScope"
  shows "targets_ok reqs (idem_world_step E cfg reqs (Act p inp) w) \<and>
    lock_row E (wd_table (idem_world_step E cfg reqs (Act p inp) w)) = lock_row E (wd_table w)"
proof (cases "p < length reqs")
  case False
  then show ?thesis using assms(1) by (simp add: targets_ok_def)
next
  case True
  obtain q t' m where st: "idem_step E cfg (reqs ! p) inp (wd_at w ! p) (wd_table w) (wd_metrics w) = (q, t', m)"
    by (metis prod_cases3)
  have ok: "table_ok (wd_table w)" and len: "length (wd_at w) = length reqs"
    and tg: "\<And>p. p < length reqs \<Longrightarrow> target_ok (reqs ! p) (wd_table w) (wd_at w ! p)"
    using assms(1) by (simp_all add: targets_ok_def)
  obtain i where own: "own_change (reqs ! p) (wd_table w) t'" and q: "target_ok (reqs ! p) t' q"
    and ch: "changes i (wd_table w) t'"
    using idem_step_target [OF ok tg [OF True] st] by blast
  have "target_ok (reqs ! j) t' ((wd_at w)[p := q] ! j)" if "j < length reqs" for j
    using that q target_ok_changes [OF tg ch] len by (cases "j = p") auto
  moreover have "lock_row E t' = lock_row E (wd_table w)"
    using own_change_lock_row [OF ok own] assms(2) True by simp
  moreover have "table_ok t'" using own by (simp add: own_change_def)
  ultimately show ?thesis using st True len by (simp add: targets_ok_def)
qed

end
