(* ===== verification/Composite_Route.thy ===== *)
theory Composite_Route
  imports Account Go_Order "HOL-Library.Product_Lexorder"
begin

text \<open>
  Routing inside a composite group: which provider and which model a public model name stands for
  (\<open>service/composite_model_route.go\<close>, \<open>service/composite_route_resolver.go\<close>,
  \<open>service/composite_platform.go\<close>). A route table of the group comes first, a detector of well-known
  names second. The decision travels with the request in its context, whose four values are the
  record \<open>route_ctx\<close>; a repository that fails or is missing is an argument.
\<close>

section \<open>Routes\<close>

definition CompositeRouteMatchExact :: string where
  "CompositeRouteMatchExact = ''exact''"

definition CompositeRouteMatchPrefix :: string where
  "CompositeRouteMatchPrefix = ''prefix''"

definition CompositeRouteEndpointAny :: string where
  "CompositeRouteEndpointAny = ''any''"

definition composite_endpoints :: "string list" where
  "composite_endpoints = [''messages'', ''count_tokens'', ''responses'', ''chat_completions'', ''embeddings'',
     ''images'', ''gemini'']"

definition CompositeRouteSourceExplicit :: string where
  "CompositeRouteSourceExplicit = ''route''"

definition CompositeRouteSourceDetector :: string where
  "CompositeRouteSourceDetector = ''detector''"

record CompositeModelRoute =
  cr_ID :: int
  cr_GroupID :: int
  cr_PublicModel :: string
  cr_MatchType :: string
  cr_TargetPlatform :: string
  cr_UpstreamModel :: string
  cr_Endpoint :: string
  cr_Priority :: int
  cr_Enabled :: bool
  cr_Notes :: string

record CompositeRouteDecision =
  cd_Matched :: bool
  cd_Source :: string
  cd_GroupID :: int
  cd_PublicModel :: string
  cd_TargetPlatform :: string
  cd_UpstreamModel :: string
  cd_Endpoint :: string
  cd_Route :: "CompositeModelRoute option"
  cd_Reason :: string

record CompositeRouteInput =
  ci_PublicModel :: string
  ci_MatchType :: string
  ci_TargetPlatform :: string
  ci_UpstreamModel :: string
  ci_Endpoint :: string
  ci_Priority :: int
  ci_Enabled :: bool
  ci_Notes :: string

definition normalizeCompositeRouteEndpoint :: "(string \<Rightarrow> string) \<Rightarrow> string \<Rightarrow> string" where
  "normalizeCompositeRouteEndpoint u endpoint =
     (let endpoint = strings_ToLower u (strings_TrimSpace endpoint)
      in if endpoint = [] then CompositeRouteEndpointAny
         else if endpoint \<in> set composite_endpoints then endpoint
         else CompositeRouteEndpointAny)"

definition normalizeCompositeRouteMatchType :: "(string \<Rightarrow> string) \<Rightarrow> string \<Rightarrow> string" where
  "normalizeCompositeRouteMatchType u matchType =
     (if strings_ToLower u (strings_TrimSpace matchType) = CompositeRouteMatchPrefix
      then CompositeRouteMatchPrefix else CompositeRouteMatchExact)"

definition normalizeCompositeRouteInput :: "(string \<Rightarrow> string) \<Rightarrow> CompositeRouteInput \<Rightarrow> CompositeRouteInput" where
  "normalizeCompositeRouteInput u i =
     (let i = i \<lparr> ci_PublicModel := strings_TrimSpace (ci_PublicModel i),
                 ci_MatchType := normalizeCompositeRouteMatchType u (ci_MatchType i),
                 ci_TargetPlatform := strings_TrimSpace (ci_TargetPlatform i),
                 ci_UpstreamModel := strings_TrimSpace (ci_UpstreamModel i),
                 ci_Endpoint := normalizeCompositeRouteEndpoint u (ci_Endpoint i) \<rparr>;
          i = (if ci_UpstreamModel i = [] \<and> ci_MatchType i = CompositeRouteMatchExact
               then i \<lparr> ci_UpstreamModel := ci_PublicModel i \<rparr> else i)
      in i \<lparr> ci_Notes := strings_TrimSpace (ci_Notes i) \<rparr>)"

section \<open>Matching\<close>

record candidate =
  ca_route :: CompositeModelRoute
  ca_matchStrength :: int
  ca_endpointWeight :: int
  ca_prefixLen :: int

text \<open>One round of the loop: the candidate a route gives, if it applies.\<close>

definition route_candidate :: "(string \<Rightarrow> string) \<Rightarrow> string \<Rightarrow> string \<Rightarrow> CompositeModelRoute \<Rightarrow> candidate option" where
  "route_candidate u model endpoint route =
     (let route = route \<lparr> cr_Endpoint := normalizeCompositeRouteEndpoint u (cr_Endpoint route) \<rparr>
      in if cr_Endpoint route \<noteq> endpoint \<and> cr_Endpoint route \<noteq> CompositeRouteEndpointAny then None
         else let route = route \<lparr> cr_MatchType := normalizeCompositeRouteMatchType u (cr_MatchType route) \<rparr>;
                  publicModel = strings_TrimSpace (cr_PublicModel route);
                  weight = (if cr_Endpoint route = endpoint then 1 else 0)
              in if publicModel = [] then None
                 else if cr_MatchType route = CompositeRouteMatchExact then
                   (if publicModel \<noteq> model then None
                    else Some \<lparr> ca_route = route, ca_matchStrength = 2, ca_endpointWeight = weight,
                                ca_prefixLen = int (length publicModel) \<rparr>)
                 else if cr_MatchType route = CompositeRouteMatchPrefix then
                   (if \<not> prefix publicModel model then None
                    else Some \<lparr> ca_route = route, ca_matchStrength = 1, ca_endpointWeight = weight,
                                ca_prefixLen = int (length publicModel) \<rparr>)
                 else None)"

definition candidate_less :: "candidate \<Rightarrow> candidate \<Rightarrow> bool" where
  "candidate_less a b \<longleftrightarrow>
     (if ca_matchStrength a \<noteq> ca_matchStrength b then ca_matchStrength a > ca_matchStrength b
      else if ca_endpointWeight a \<noteq> ca_endpointWeight b then ca_endpointWeight a > ca_endpointWeight b
      else if ca_prefixLen a \<noteq> ca_prefixLen b then ca_prefixLen a > ca_prefixLen b
      else if cr_Priority (ca_route a) \<noteq> cr_Priority (ca_route b)
      then cr_Priority (ca_route a) < cr_Priority (ca_route b)
      else cr_ID (ca_route a) < cr_ID (ca_route b))"

definition matchCompositeRoute ::
  "(string \<Rightarrow> string) \<Rightarrow> CompositeModelRoute list \<Rightarrow> string \<Rightarrow> string \<Rightarrow> CompositeModelRoute option" where
  "matchCompositeRoute u routes model endpoint =
     (if routes = [] then None
      else let candidates = List.map_filter (route_candidate u model endpoint) routes
           in if candidates = [] then None
              else Some (ca_route (hd (sort_SliceStable candidate_less candidates))))"

section \<open>The detector\<close>

definition TrimPrefix :: "string \<Rightarrow> string \<Rightarrow> string" where
  "TrimPrefix s p = (if prefix p s then drop (length p) s else s)"

definition hasOpenAISeriesPrefix :: "string \<Rightarrow> bool" where
  "hasOpenAISeriesPrefix model \<longleftrightarrow>
     (\<exists>p \<in> set [''o1'', ''o3'', ''o4'', ''o5'']. model = p \<or> prefix (p @ ''-'') model)"

definition detect_provider :: "string \<Rightarrow> string option" where
  "detect_provider provider =
     (if provider \<in> {''anthropic'', ''claude''} then Some PlatformAnthropic
      else if provider \<in> {''openai'', ''chatgpt''} then Some PlatformOpenAI
      else if provider \<in> {''google'', ''google-ai-studio'', ''gemini''} then Some PlatformGemini
      else if provider \<in> {''xai'', ''x-ai'', ''grok''} then Some PlatformGrok
      else None)"

definition detect_name :: "string \<Rightarrow> string option" where
  "detect_name s =
     (if prefix ''anthropic.claude-'' s \<or> prefix ''claude-'' s then Some PlatformAnthropic
      else if (\<exists>p \<in> set [''gpt-'', ''chatgpt-'', ''codex-'', ''text-embedding-'', ''text-moderation-'',
          ''omni-moderation-'', ''dall-e-'', ''gpt-image-'', ''tts-'', ''whisper-'']. prefix p s) \<or>
          hasOpenAISeriesPrefix s then Some PlatformOpenAI
      else if prefix ''gemini-'' s \<or> prefix ''learnlm-'' s then Some PlatformGemini
      else if s = ''grok'' \<or> prefix ''grok-'' s then Some PlatformGrok
      else None)"

definition DetectModelPlatform :: "(string \<Rightarrow> string) \<Rightarrow> string \<Rightarrow> string option" where
  "DetectModelPlatform u model =
     (let normalized = strings_ToLower u (strings_TrimSpace model)
      in if normalized = [] then None
         else let normalized = TrimPrefix normalized ''models/'';
                  provider = takeWhile (\<lambda>c. c \<noteq> CHR ''/'') normalized;
                  slash = length provider
              in if 0 < slash \<and> slash < length normalized then
                   (case detect_provider (strings_TrimSpace provider) of
                      Some p \<Rightarrow> Some p
                    | None \<Rightarrow>
                        let rest = strings_TrimSpace (drop (slash + 1) normalized)
                        in detect_name (if rest \<noteq> [] then TrimPrefix rest ''models/'' else normalized))
                 else detect_name normalized)"

section \<open>Resolution\<close>

text \<open>
  The resolver: \<open>None\<close> for a resolver without a repository, otherwise what \<open>ListByGroup\<close> returns for
  the enabled routes of a group.
\<close>

type_synonym route_repo = "(int \<Rightarrow> unit + CompositeModelRoute list) option"

definition no_decision :: "int \<Rightarrow> string \<Rightarrow> string \<Rightarrow> CompositeRouteDecision" where
  "no_decision groupID model endpoint =
     \<lparr> cd_Matched = False, cd_Source = [], cd_GroupID = groupID, cd_PublicModel = model, cd_TargetPlatform = [],
       cd_UpstreamModel = [], cd_Endpoint = endpoint, cd_Route = None, cd_Reason = [] \<rparr>"

definition resolve_detected :: "(string \<Rightarrow> string) \<Rightarrow> int \<Rightarrow> string \<Rightarrow> string \<Rightarrow> CompositeRouteDecision" where
  "resolve_detected u groupID model endpoint =
     (case DetectModelPlatform u model of
        Some platform \<Rightarrow>
          (no_decision groupID model endpoint) \<lparr> cd_Matched := True, cd_Source := CompositeRouteSourceDetector,
            cd_TargetPlatform := platform, cd_UpstreamModel := model \<rparr>
      | None \<Rightarrow>
          (no_decision groupID model endpoint)
            \<lparr> cd_Reason := ''no explicit route or built-in detector match'' \<rparr>)"

definition Resolve ::
  "(string \<Rightarrow> string) \<Rightarrow> route_repo \<Rightarrow> int \<Rightarrow> string \<Rightarrow> string \<Rightarrow> (unit \<times> CompositeRouteDecision) + CompositeRouteDecision" where
  "Resolve u repo groupID model endpoint =
     (let model = strings_TrimSpace model; endpoint = normalizeCompositeRouteEndpoint u endpoint
      in if model = [] then Inr ((no_decision groupID model endpoint) \<lparr> cd_Reason := ''model is required'' \<rparr>)
         else case repo of
           None \<Rightarrow> Inr (resolve_detected u groupID model endpoint)
         | Some list \<Rightarrow>
             if groupID \<le> 0 then Inr (resolve_detected u groupID model endpoint)
             else case list groupID of
               Inl err \<Rightarrow> Inl (err, no_decision groupID model endpoint)
             | Inr routes \<Rightarrow>
                 (case matchCompositeRoute u routes model endpoint of
                    None \<Rightarrow> Inr (resolve_detected u groupID model endpoint)
                  | Some route \<Rightarrow>
                      let upstream = strings_TrimSpace (cr_UpstreamModel route);
                          upstream = (if upstream = [] then model else upstream)
                      in Inr \<lparr> cd_Matched = True, cd_Source = CompositeRouteSourceExplicit, cd_GroupID = groupID,
                               cd_PublicModel = model, cd_TargetPlatform = cr_TargetPlatform route,
                               cd_UpstreamModel = upstream, cd_Endpoint = endpoint, cd_Route = Some route,
                               cd_Reason = [] \<rparr>))"

section \<open>The decision in the context\<close>

record route_ctx =
  rx_TargetPlatform :: "string option"
  rx_UpstreamModel :: "string option"
  rx_PublicModel :: "string option"
  rx_Source :: "string option"

definition WithResolvedTargetPlatform :: "route_ctx option \<Rightarrow> string \<Rightarrow> route_ctx option" where
  "WithResolvedTargetPlatform ctx platform =
     (let platform = strings_TrimSpace platform
      in if platform = [] then ctx else map_option (\<lambda>c. c \<lparr> rx_TargetPlatform := Some platform \<rparr>) ctx)"

text \<open>The four readers share their body: the value, trimmed, unless it is missing or blank.\<close>

definition value_from :: "(route_ctx \<Rightarrow> string option) \<Rightarrow> route_ctx option \<Rightarrow> string option" where
  "value_from get ctx =
     (case ctx of
        None \<Rightarrow> None
      | Some c \<Rightarrow>
          (case get c of
             None \<Rightarrow> None
           | Some v \<Rightarrow> let v = strings_TrimSpace v in if v = [] then None else Some v))"

definition ResolvedTargetPlatformFromContext :: "route_ctx option \<Rightarrow> string option" where
  [go_defs]: "ResolvedTargetPlatformFromContext = value_from rx_TargetPlatform"

definition ResolvedUpstreamModelFromContext :: "route_ctx option \<Rightarrow> string option" where
  [go_defs]: "ResolvedUpstreamModelFromContext = value_from rx_UpstreamModel"

definition RequestedPublicModelFromContext :: "route_ctx option \<Rightarrow> string option" where
  [go_defs]: "RequestedPublicModelFromContext = value_from rx_PublicModel"

definition CompositeRouteSourceFromContext :: "route_ctx option \<Rightarrow> string option" where
  [go_defs]: "CompositeRouteSourceFromContext = value_from rx_Source"

definition WithCompositeRouteDecision :: "route_ctx option \<Rightarrow> CompositeRouteDecision \<Rightarrow> route_ctx option" where
  "WithCompositeRouteDecision ctx d =
     (if ctx = None \<or> \<not> cd_Matched d then ctx
      else let ctx = WithResolvedTargetPlatform ctx (cd_TargetPlatform d);
               m = strings_TrimSpace (cd_UpstreamModel d);
               ctx = (if m \<noteq> [] then map_option (\<lambda>c. c \<lparr> rx_UpstreamModel := Some m \<rparr>) ctx else ctx);
               m = strings_TrimSpace (cd_PublicModel d);
               ctx = (if m \<noteq> [] then map_option (\<lambda>c. c \<lparr> rx_PublicModel := Some m \<rparr>) ctx else ctx);
               source = strings_TrimSpace (cd_Source d)
           in if source \<noteq> [] then map_option (\<lambda>c. c \<lparr> rx_Source := Some source \<rparr>) ctx else ctx)"

text \<open>The group is its ID and its platform; the flag says whether a decision was made.\<close>

definition resolveCompositeRouteDecision ::
  "(string \<Rightarrow> string) \<Rightarrow> route_repo \<Rightarrow> route_ctx option \<Rightarrow> (int \<times> string) option \<Rightarrow> string \<Rightarrow> string \<Rightarrow>
     CompositeRouteDecision \<times> bool \<times> unit option" where
  "resolveCompositeRouteDecision u repo ctx grp requestedModel endpoint =
     (case grp of
        None \<Rightarrow> (no_decision 0 [] [], False, None)
      | Some (groupID, platform) \<Rightarrow>
          if platform \<noteq> PlatformComposite then (no_decision 0 [] [], False, None)
          else case ResolvedTargetPlatformFromContext ctx of
            Some target \<Rightarrow>
              (let upstreamModel = (case ResolvedUpstreamModelFromContext ctx of Some m \<Rightarrow> m | None \<Rightarrow> requestedModel);
                   source = (case CompositeRouteSourceFromContext ctx of Some v \<Rightarrow> v | None \<Rightarrow> CompositeRouteSourceDetector)
               in (\<lparr> cd_Matched = True, cd_Source = source, cd_GroupID = groupID, cd_PublicModel = requestedModel,
                     cd_TargetPlatform = target, cd_UpstreamModel = upstreamModel,
                     cd_Endpoint = normalizeCompositeRouteEndpoint u endpoint, cd_Route = None, cd_Reason = [] \<rparr>,
                   True, None))
          | None \<Rightarrow>
              (case Resolve u repo groupID requestedModel endpoint of
                 Inl (err, d) \<Rightarrow> (d, False, Some err)
               | Inr d \<Rightarrow> (d, cd_Matched d, None)))"

definition isConcreteRequestPlatform :: "string \<Rightarrow> bool" where
  "isConcreteRequestPlatform platform \<longleftrightarrow>
     platform \<in> {PlatformAnthropic, PlatformOpenAI, PlatformGemini, PlatformAntigravity, PlatformGrok}"

text \<open>What the administrator's input is stored as is in normal form: storing it again changes nothing.\<close>

lemma normalized_endpoint_idem [simp]:
  "normalizeCompositeRouteEndpoint u (normalizeCompositeRouteEndpoint u e) = normalizeCompositeRouteEndpoint u e"
proof -
  have "list_all (\<lambda>e. e \<noteq> [] \<and> ascii_string e \<and> strings_TrimSpace e = e \<and> map ascii_lower e = e)
      (CompositeRouteEndpointAny # composite_endpoints)" by code_simp
  then have plain: "e \<noteq> [] \<and> ascii_string e \<and> strings_TrimSpace e = e \<and> map ascii_lower e = e"
    if "e \<in> set (CompositeRouteEndpointAny # composite_endpoints)" for e
    using that unfolding list_all_iff by blast
  have fixed: "normalizeCompositeRouteEndpoint u e = e" if e: "e \<in> set (CompositeRouteEndpointAny # composite_endpoints)" for e
    using plain [OF e] e by (simp add: normalizeCompositeRouteEndpoint_def strings_ToLower_def Let_def) blast
  show ?thesis by (rule fixed) (simp add: normalizeCompositeRouteEndpoint_def Let_def)
qed

lemma normalized_match_type_idem [simp]:
  "normalizeCompositeRouteMatchType u (normalizeCompositeRouteMatchType u t) = normalizeCompositeRouteMatchType u t"
proof -
  have "strings_ToLower u (strings_TrimSpace t) = t" if "t \<in> {CompositeRouteMatchExact, CompositeRouteMatchPrefix}" for t
  proof -
    have "list_all (\<lambda>e. ascii_string e \<and> strings_TrimSpace e = e \<and> map ascii_lower e = e)
        [CompositeRouteMatchExact, CompositeRouteMatchPrefix]" by code_simp
    then show ?thesis using that by (auto simp: strings_ToLower_def)
  qed
  then show ?thesis by (simp add: normalizeCompositeRouteMatchType_def)
qed

lemma normalizeCompositeRouteInput_idem:
  "normalizeCompositeRouteInput u (normalizeCompositeRouteInput u i) = normalizeCompositeRouteInput u i"
proof -
  obtain pm mt tp um ep pr en no where i: "i = \<lparr> ci_PublicModel = pm, ci_MatchType = mt, ci_TargetPlatform = tp,
      ci_UpstreamModel = um, ci_Endpoint = ep, ci_Priority = pr, ci_Enabled = en, ci_Notes = no \<rparr>" by (cases i)
  have mt: "normalizeCompositeRouteMatchType u (normalizeCompositeRouteMatchType u mt) = normalizeCompositeRouteMatchType u mt"
    by simp
  show ?thesis unfolding i
    by (cases "strings_TrimSpace um = [] \<and> normalizeCompositeRouteMatchType u mt = CompositeRouteMatchExact")
      (use mt in \<open>auto simp: normalizeCompositeRouteInput_def Let_def\<close>)
qed

section \<open>The best route\<close>

text \<open>
  The specification: when a route applies, and its rank. Exact names come before prefixes, the
  endpoint of the request before any endpoint, longer names before shorter ones, then the lower
  priority number and the lower ID.
\<close>

definition route_exact :: "(string \<Rightarrow> string) \<Rightarrow> CompositeModelRoute \<Rightarrow> bool" where
  "route_exact u r \<longleftrightarrow> normalizeCompositeRouteMatchType u (cr_MatchType r) = CompositeRouteMatchExact"

definition route_applies :: "(string \<Rightarrow> string) \<Rightarrow> string \<Rightarrow> string \<Rightarrow> CompositeModelRoute \<Rightarrow> bool" where
  "route_applies u model endpoint r \<longleftrightarrow>
     normalizeCompositeRouteEndpoint u (cr_Endpoint r) \<in> {endpoint, CompositeRouteEndpointAny} \<and>
     strings_TrimSpace (cr_PublicModel r) \<noteq> [] \<and>
     (if route_exact u r then strings_TrimSpace (cr_PublicModel r) = model
      else prefix (strings_TrimSpace (cr_PublicModel r)) model)"

definition route_rank ::
  "(string \<Rightarrow> string) \<Rightarrow> string \<Rightarrow> CompositeModelRoute \<Rightarrow> int \<times> int \<times> int \<times> int \<times> int" where
  "route_rank u endpoint r =
     (if route_exact u r then 0 else 1,
      if normalizeCompositeRouteEndpoint u (cr_Endpoint r) = endpoint then 0 else 1,
      - int (length (strings_TrimSpace (cr_PublicModel r))), cr_Priority r, cr_ID r)"

definition normalized_route :: "(string \<Rightarrow> string) \<Rightarrow> CompositeModelRoute \<Rightarrow> CompositeModelRoute" where
  "normalized_route u r = r \<lparr> cr_Endpoint := normalizeCompositeRouteEndpoint u (cr_Endpoint r),
     cr_MatchType := normalizeCompositeRouteMatchType u (cr_MatchType r) \<rparr>"

definition candidate_key :: "candidate \<Rightarrow> int \<times> int \<times> int \<times> int \<times> int" where
  "candidate_key c = (2 - ca_matchStrength c, 1 - ca_endpointWeight c, - ca_prefixLen c,
     cr_Priority (ca_route c), cr_ID (ca_route c))"

lemma candidate_less_key: "candidate_less a b \<longleftrightarrow> candidate_key a < candidate_key b"
  by (auto simp: candidate_less_def candidate_key_def)

interpretation candidates: strict_weak candidate_less
  unfolding candidate_less_key [abs_def] by (rule strict_weak_key)

lemma match_type_cases:
  "normalizeCompositeRouteMatchType u t = CompositeRouteMatchExact \<or>
   normalizeCompositeRouteMatchType u t = CompositeRouteMatchPrefix"
  by (simp add: normalizeCompositeRouteMatchType_def)

lemma exact_not_prefix: "CompositeRouteMatchExact \<noteq> CompositeRouteMatchPrefix"
  by (simp add: CompositeRouteMatchExact_def CompositeRouteMatchPrefix_def)

lemma route_candidate_cases:
  "route_candidate u model endpoint r \<noteq> None \<longleftrightarrow> route_applies u model endpoint r"
  "route_candidate u model endpoint r = Some c \<Longrightarrow>
     ca_route c = normalized_route u r \<and> candidate_key c = route_rank u endpoint r"
  using match_type_cases [of u "cr_MatchType r"] exact_not_prefix
  by (auto simp: route_candidate_def route_applies_def route_exact_def normalized_route_def candidate_key_def
      route_rank_def Let_def split: if_splits)

lemma matchCompositeRoute_spec:
  "(matchCompositeRoute u routes model endpoint = None \<longleftrightarrow> (\<forall>r \<in> set routes. \<not> route_applies u model endpoint r)) \<and>
   (\<forall>x. matchCompositeRoute u routes model endpoint = Some x \<longrightarrow>
     (\<exists>r \<in> set routes. x = normalized_route u r \<and> route_applies u model endpoint r \<and>
       (\<forall>r' \<in> set routes. route_applies u model endpoint r' \<longrightarrow> route_rank u endpoint r \<le> route_rank u endpoint r')))"
proof -
  let ?C = "List.map_filter (route_candidate u model endpoint) routes"
  have C: "c \<in> set ?C \<longleftrightarrow> (\<exists>r \<in> set routes. route_candidate u model endpoint r = Some c)" for c
    by (force simp: List.map_filter_def)
  have empty: "?C = [] \<longleftrightarrow> (\<forall>r \<in> set routes. \<not> route_applies u model endpoint r)"
  proof -
    have "?C = [] \<longleftrightarrow> (\<forall>c. c \<notin> set ?C)" by (metis last_in_set empty_iff list.set(1))
    then show ?thesis unfolding C using route_candidate_cases(1) [of u model endpoint] by (metis not_None_eq)
  qed
  have none: "matchCompositeRoute u routes model endpoint = None \<longleftrightarrow> ?C = []"
    by (cases "routes = []") (simp_all add: matchCompositeRoute_def Let_def List.map_filter_def)
  have "\<exists>r \<in> set routes. x = normalized_route u r \<and> route_applies u model endpoint r \<and>
      (\<forall>r' \<in> set routes. route_applies u model endpoint r' \<longrightarrow> route_rank u endpoint r \<le> route_rank u endpoint r')"
    if x: "matchCompositeRoute u routes model endpoint = Some x" for x
  proof -
    let ?c = "hd (sort_SliceStable candidate_less ?C)"
    have ne: "?C \<noteq> []" and c: "x = ca_route ?c"
      using x none by (auto simp: matchCompositeRoute_def Let_def split: if_splits)
    obtain r where r: "r \<in> set routes" "route_candidate u model endpoint r = Some ?c"
      using candidates.hd_sort_in [OF ne] unfolding C by blast
    have "route_rank u endpoint r \<le> route_rank u endpoint r'"
      if r': "r' \<in> set routes" "route_applies u model endpoint r'" for r'
    proof -
      obtain c' where c': "route_candidate u model endpoint r' = Some c'"
        using r'(2) route_candidate_cases(1) [of u model endpoint r'] by blast
      then have "c' \<in> set ?C" using r'(1) unfolding C by blast
      then have "\<not> candidate_key c' < candidate_key ?c"
        using candidates.hd_sort_minimal [of c' ?C] by (simp add: candidate_less_key)
      then show ?thesis
        using route_candidate_cases(2) [OF r(2)] route_candidate_cases(2) [OF c'] by simp
    qed
    then show ?thesis
      using r c route_candidate_cases(1) [of u model endpoint r] route_candidate_cases(2) [OF r(2)] by auto
  qed
  then show ?thesis using none empty by blast
qed


section \<open>What a resolution decides\<close>

definition explicit_decision :: "int \<Rightarrow> string \<Rightarrow> string \<Rightarrow> CompositeModelRoute \<Rightarrow> CompositeRouteDecision" where
  "explicit_decision groupID model endpoint r =
     \<lparr> cd_Matched = True, cd_Source = CompositeRouteSourceExplicit, cd_GroupID = groupID, cd_PublicModel = model,
       cd_TargetPlatform = cr_TargetPlatform r,
       cd_UpstreamModel = (if strings_TrimSpace (cr_UpstreamModel r) = [] then model
         else strings_TrimSpace (cr_UpstreamModel r)),
       cd_Endpoint = endpoint, cd_Route = Some r, cd_Reason = [] \<rparr>"

definition best_route ::
  "(string \<Rightarrow> string) \<Rightarrow> string \<Rightarrow> string \<Rightarrow> CompositeModelRoute list \<Rightarrow> CompositeModelRoute \<Rightarrow> bool" where
  "best_route u model endpoint routes r \<longleftrightarrow> r \<in> set routes \<and> route_applies u model endpoint r \<and>
     (\<forall>r' \<in> set routes. route_applies u model endpoint r' \<longrightarrow> route_rank u endpoint r \<le> route_rank u endpoint r')"

lemma matchCompositeRoute_cases:
  obtains "matchCompositeRoute u routes model endpoint = None"
      "\<forall>r \<in> set routes. \<not> route_applies u model endpoint r"
  | r where "matchCompositeRoute u routes model endpoint = Some (normalized_route u r)"
      "best_route u model endpoint routes r"
  using matchCompositeRoute_spec [of u routes model endpoint]
  by (cases "matchCompositeRoute u routes model endpoint") (auto simp: best_route_def)

lemma Resolve_listed:
  assumes "strings_TrimSpace model \<noteq> []" "0 < groupID" "list groupID = Inr routes"
  shows "Resolve u (Some list) groupID model endpoint =
    Inr (case matchCompositeRoute u routes (strings_TrimSpace model) (normalizeCompositeRouteEndpoint u endpoint) of
        None \<Rightarrow> resolve_detected u groupID (strings_TrimSpace model) (normalizeCompositeRouteEndpoint u endpoint)
      | Some r \<Rightarrow> explicit_decision groupID (strings_TrimSpace model) (normalizeCompositeRouteEndpoint u endpoint) r)"
  using assms by (simp add: Resolve_def Let_def explicit_decision_def split: option.splits)

text \<open>
  Property C17 (functional). In a composite group whose route table can be read, a request for a model is
  decided as follows. If no enabled route applies, the detector decides. Otherwise the decision comes
  from a route that applies and that no other applicable route beats: exact names before prefixes, the
  request's endpoint before any endpoint, longer names, then lower priority and lower ID. The upstream
  model is the route's, or the requested model where the route leaves it blank.
\<close>

theorem composite_resolution_best:
  assumes "strings_TrimSpace model \<noteq> []" "0 < groupID" "list groupID = Inr routes"
  shows "let m = strings_TrimSpace model; e = normalizeCompositeRouteEndpoint u endpoint in
    (if \<exists>r \<in> set routes. route_applies u m e r
     then \<exists>r. best_route u m e routes r \<and>
       Resolve u (Some list) groupID model endpoint = Inr (explicit_decision groupID m e (normalized_route u r))
     else Resolve u (Some list) groupID model endpoint = Inr (resolve_detected u groupID m e))"
proof -
  let ?m = "strings_TrimSpace model" and ?e = "normalizeCompositeRouteEndpoint u endpoint"
  note res = Resolve_listed [of model groupID list routes u endpoint, OF assms]
  show ?thesis
  proof (rule matchCompositeRoute_cases [of u routes ?m ?e])
    assume "matchCompositeRoute u routes ?m ?e = None" "\<forall>r \<in> set routes. \<not> route_applies u ?m ?e r"
    then show ?thesis by (simp add: res Let_def)
  next
    fix r assume m: "matchCompositeRoute u routes ?m ?e = Some (normalized_route u r)"
      and best: "best_route u ?m ?e routes r"
    then have "\<exists>r \<in> set routes. route_applies u ?m ?e r" by (auto simp: best_route_def)
    moreover have "Resolve u (Some list) groupID model endpoint = Inr (explicit_decision groupID ?m ?e (normalized_route u r))"
      by (simp add: res m)
    ultimately show ?thesis using best by (auto simp: Let_def)
  qed
qed

definition example_routes :: "CompositeModelRoute list" where
  "example_routes =
     [\<lparr> cr_ID = 1, cr_GroupID = 7, cr_PublicModel = ''deepseek'', cr_MatchType = ''prefix'', cr_TargetPlatform = ''openai'',
        cr_UpstreamModel = [], cr_Endpoint = ''any'', cr_Priority = 0, cr_Enabled = True, cr_Notes = [] \<rparr>,
      \<lparr> cr_ID = 2, cr_GroupID = 7, cr_PublicModel = ''deepseek-v4'', cr_MatchType = '' Prefix'', cr_TargetPlatform = ''anthropic'',
        cr_UpstreamModel = [], cr_Endpoint = ''messages'', cr_Priority = 5, cr_Enabled = True, cr_Notes = [] \<rparr>]"

definition example_decision :: CompositeRouteDecision where
  "example_decision = explicit_decision 7 ''deepseek-v4-pro'' ''messages''
     ((example_routes ! 1) \<lparr> cr_MatchType := ''prefix'' \<rparr>)"

lemma example_resolved:
  "Resolve id (Some (\<lambda>_. Inr example_routes)) 7 '' deepseek-v4-pro'' ''messages'' = Inr example_decision"
  by code_simp

theorem composite_resolution_best_witness:
  "\<exists>r. best_route id ''deepseek-v4-pro'' ''messages'' example_routes r \<and>
     Resolve id (Some (\<lambda>_. Inr example_routes)) 7 ''deepseek-v4-pro'' ''messages'' =
       Inr (explicit_decision 7 ''deepseek-v4-pro'' ''messages'' (normalized_route id r))"
proof -
  have m: "strings_TrimSpace ''deepseek-v4-pro'' = ''deepseek-v4-pro''"
    and e: "normalizeCompositeRouteEndpoint id ''messages'' = ''messages''" by code_simp+
  have ex: "\<exists>r \<in> set example_routes. route_applies id ''deepseek-v4-pro'' ''messages'' r" by code_simp
  show ?thesis
    using composite_resolution_best [of "''deepseek-v4-pro''" 7 "\<lambda>_. Inr example_routes" example_routes id "''messages''"] ex
    by (simp add: m e Let_def)
qed

text \<open>
  The decision a handler stored in the context is the one every later stage reads back: the route table is
  not asked again, so a table edited meanwhile cannot move the request to another provider.
\<close>

lemma Resolve_matched_shape:
  assumes "Resolve u repo groupID model endpoint = Inr d" "cd_Matched d"
  shows "cd_PublicModel d = strings_TrimSpace model \<and> strings_TrimSpace model \<noteq> [] \<and> cd_GroupID d = groupID \<and>
    cd_Endpoint d = normalizeCompositeRouteEndpoint u endpoint \<and>
    strings_TrimSpace (cd_UpstreamModel d) = cd_UpstreamModel d \<and> cd_UpstreamModel d \<noteq> [] \<and>
    cd_Source d \<in> {CompositeRouteSourceExplicit, CompositeRouteSourceDetector}"
  using assms
  by (auto simp: Resolve_def resolve_detected_def no_decision_def Let_def split: if_splits option.splits sum.splits)

lemma source_trimmed:
  assumes "s \<in> {CompositeRouteSourceExplicit, CompositeRouteSourceDetector}"
  shows "strings_TrimSpace s = s \<and> s \<noteq> []"
proof -
  have "strings_TrimSpace ''route'' = ''route''" "strings_TrimSpace ''detector'' = ''detector''" by code_simp+
  then show ?thesis
    using assms by (auto simp: CompositeRouteSourceExplicit_def CompositeRouteSourceDetector_def)
qed

text \<open>
  A matched decision with a nonblank target platform, stored in the context of a
  request by one resolution, is what \<open>resolveCompositeRouteDecision\<close> returns at every later stage of that
  request, with the same provider, upstream model and source, whatever the route table holds by then and
  even if it can no longer be read.
\<close>

theorem composite_decision_sticky:
  assumes "Resolve u repo groupID model endpoint = Inr d" "cd_Matched d"
    and "strings_TrimSpace (cd_TargetPlatform d) \<noteq> []"
  shows "resolveCompositeRouteDecision u repo' (WithCompositeRouteDecision (Some c) d)
      (Some (groupID, PlatformComposite)) (strings_TrimSpace model) endpoint =
    (d \<lparr> cd_TargetPlatform := strings_TrimSpace (cd_TargetPlatform d), cd_Route := None, cd_Reason := [] \<rparr>, True, None)"
proof -
  note shape = Resolve_matched_shape [OF assms(1,2)]
  note src = source_trimmed [of "cd_Source d"]
  have ctx: "WithCompositeRouteDecision (Some c) d =
      Some (c \<lparr> rx_TargetPlatform := Some (strings_TrimSpace (cd_TargetPlatform d)),
        rx_UpstreamModel := Some (cd_UpstreamModel d), rx_PublicModel := Some (cd_PublicModel d),
        rx_Source := Some (cd_Source d) \<rparr>)"
    using shape src assms(2,3) by (simp add: WithCompositeRouteDecision_def WithResolvedTargetPlatform_def Let_def)
  have d: "d = \<lparr> cd_Matched = True, cd_Source = cd_Source d, cd_GroupID = groupID, cd_PublicModel = strings_TrimSpace model,
      cd_TargetPlatform = cd_TargetPlatform d, cd_UpstreamModel = cd_UpstreamModel d,
      cd_Endpoint = normalizeCompositeRouteEndpoint u endpoint, cd_Route = cd_Route d, cd_Reason = cd_Reason d \<rparr>"
    using shape assms(2) by simp
  show ?thesis
    unfolding ctx using shape src assms(3)
    by (subst d) (simp add: resolveCompositeRouteDecision_def go_defs value_from_def Let_def)
qed

theorem composite_decision_sticky_witness:
  "resolveCompositeRouteDecision id None
     (WithCompositeRouteDecision (Some \<lparr> rx_TargetPlatform = None, rx_UpstreamModel = None, rx_PublicModel = None,
        rx_Source = None \<rparr>) example_decision)
     (Some (7, PlatformComposite)) ''deepseek-v4-pro'' ''messages'' =
   (example_decision \<lparr> cd_Route := None \<rparr>, True, None)"
proof -
  have "cd_Matched example_decision" "cd_Reason example_decision = []"
    "strings_TrimSpace (cd_TargetPlatform example_decision) = cd_TargetPlatform example_decision"
    "cd_TargetPlatform example_decision \<noteq> []" "strings_TrimSpace '' deepseek-v4-pro'' = ''deepseek-v4-pro''"
    by code_simp+
  then show ?thesis
    using composite_decision_sticky [OF example_resolved, of None] by simp
qed

end
