(* ===== verification/Model_Mapping.thy ===== *)
theory Model_Mapping
  imports Account Go_Order "HOL-Library.Product_Lexorder" "HOL-Library.List_Lexorder" "HOL-Library.Char_ord" "HOL-Library.Word"
begin

text \<open>
  Which models an account serves and what it calls them upstream: the \<open>model_mapping\<close> of an account's
  credentials with its trailing wildcards, the defaults of the platforms that have one, and the cache
  of the parsed mapping (\<open>service/account.go\<close>, \<open>service/openai_model_mapping.go\<close>,
  \<open>service/antigravity_gateway_service.go\<close>, \<open>domain/constants.go\<close>, \<open>pkg/xai/models.go\<close>).

  A \<open>map[string]string\<close> is an association list; nil and empty maps are not told apart by this code.
  \<open>r\<close> is the order in which a loop over a map visits it, \<open>u\<close> the Unicode path of \<open>ToLower\<close>.
\<close>

unbundle bit_operations_syntax

section \<open>Wildcards\<close>

type_synonym model_map = "(string, string) gomap"

definition matchAntigravityWildcard :: "string \<Rightarrow> string \<Rightarrow> bool" where
  "matchAntigravityWildcard pattern str \<longleftrightarrow>
     (if suffix ''*'' pattern then prefix (butlast pattern) str else pattern = str)"

definition matchWildcard :: "string \<Rightarrow> string \<Rightarrow> bool" where
  "matchWildcard pattern str = matchAntigravityWildcard pattern str"

definition pattern_less :: "string \<times> string \<Rightarrow> string \<times> string \<Rightarrow> bool" where
  "pattern_less a b \<longleftrightarrow>
     (if length (fst a) \<noteq> length (fst b) then length (fst a) > length (fst b) else fst a < fst b)"

text \<open>
  \<open>sort.Slice\<close> is not stable, but no two patterns of a map are equal, so the sorted slice is
  determined by the comparison.
\<close>

definition matchWildcardMappingResult :: "(nat \<Rightarrow> nat) \<Rightarrow> model_map \<Rightarrow> string \<Rightarrow> string \<times> bool" where
  "matchWildcardMappingResult r mapping requestedModel =
     (let matches = filter (\<lambda>(pattern, target). matchWildcard pattern requestedModel) (map_range r mapping)
      in if matches = [] then (requestedModel, False)
         else (snd (hd (sort_SliceStable pattern_less matches)), True))"

definition mappingHasWildcardForModel :: "model_map \<Rightarrow> string \<Rightarrow> bool" where
  "mappingHasWildcardForModel mapping model \<longleftrightarrow> list_ex (\<lambda>(pattern, _). matchWildcard pattern model) mapping"

definition mappingSupportsRequestedModel :: "model_map \<Rightarrow> string \<Rightarrow> bool" where
  "mappingSupportsRequestedModel mapping requestedModel \<longleftrightarrow>
     (if requestedModel = [] then False
      else if map_of mapping requestedModel \<noteq> None then True
      else list_ex (\<lambda>(pattern, _). matchWildcard pattern requestedModel) mapping)"

definition resolveRequestedModelInMapping :: "(nat \<Rightarrow> nat) \<Rightarrow> model_map \<Rightarrow> string \<Rightarrow> string \<times> bool" where
  "resolveRequestedModelInMapping r mapping requestedModel =
     (if requestedModel = [] then ([], False)
      else case map_of mapping requestedModel of
        Some mappedModel \<Rightarrow> (mappedModel, True)
      | None \<Rightarrow> matchWildcardMappingResult r mapping requestedModel)"

definition normalizeRequestedModelForLookup :: "string \<Rightarrow> string \<Rightarrow> string" where
  "normalizeRequestedModelForLookup platform requestedModel =
     (let trimmed = strings_TrimSpace requestedModel
      in if trimmed = [] then []
         else if platform \<noteq> PlatformGemini \<and> platform \<noteq> PlatformAntigravity then trimmed
         else if trimmed = ''gemini-3.1-pro-preview-customtools'' then ''gemini-3.1-pro-preview''
         else trimmed)"

section \<open>The mapping of an account\<close>

abbreviation "AntigravityGemini31ProAgentModel \<equiv> ''gemini-pro-agent''"

definition DefaultAntigravityModelMapping :: model_map where
  "DefaultAntigravityModelMapping =
     [(''claude-fable-5'', ''claude-fable-5''), (''claude-opus-4-8'', ''claude-opus-4-8''),
      (''claude-opus-4-7'', ''claude-opus-4-7''),
      (''claude-opus-4-6-thinking'', ''claude-opus-4-6-thinking''),
      (''claude-opus-4-6'', ''claude-opus-4-6-thinking''),
      (''claude-opus-4-5-thinking'', ''claude-opus-4-6-thinking''),
      (''claude-sonnet-4-6'', ''claude-sonnet-4-6''), (''claude-sonnet-4-5'', ''claude-sonnet-4-5''),
      (''claude-sonnet-4-5-thinking'', ''claude-sonnet-4-5-thinking''),
      (''claude-opus-4-5-20251101'', ''claude-opus-4-6-thinking''),
      (''claude-sonnet-4-5-20250929'', ''claude-sonnet-4-5''),
      (''claude-haiku-4-5'', ''claude-sonnet-4-6''),
      (''claude-haiku-4-5-20251001'', ''claude-sonnet-4-6''), (''gemini-2.5-flash'', ''gemini-2.5-flash''),
      (''gemini-2.5-flash-image'', ''gemini-2.5-flash-image''),
      (''gemini-2.5-flash-image-preview'', ''gemini-2.5-flash-image''),
      (''gemini-2.5-flash-lite'', ''gemini-2.5-flash-lite''),
      (''gemini-2.5-flash-thinking'', ''gemini-2.5-flash-thinking''),
      (''gemini-2.5-pro'', ''gemini-2.5-pro''), (''gemini-3-flash'', ''gemini-3-flash''),
      (''gemini-3-pro-high'', ''gemini-3-pro-high''), (''gemini-3-pro-low'', ''gemini-3-pro-low''),
      (''gemini-3-flash-preview'', ''gemini-3-flash''), (''gemini-3-pro-preview'', ''gemini-3-pro-high''),
      (AntigravityGemini31ProAgentModel, AntigravityGemini31ProAgentModel),
      (''gemini-3.1-pro'', AntigravityGemini31ProAgentModel),
      (''gemini-3.1-pro-high'', AntigravityGemini31ProAgentModel),
      (''gemini-3.1-pro-low'', ''gemini-3.1-pro-low''),
      (''gemini-3.1-pro-preview'', AntigravityGemini31ProAgentModel),
      (''gemini-3.1-flash-image'', ''gemini-3.1-flash-image''),
      (''gemini-3.1-flash-image-preview'', ''gemini-3.1-flash-image''),
      (''gemini-3.6-flash'', ''gemini-3.6-flash''), (''gemini-3.6-flash-high'', ''gemini-3.6-flash-high''),
      (''gemini-3.6-flash-low'', ''gemini-3.6-flash-low''),
      (''gemini-3.6-flash-medium'', ''gemini-3.6-flash-medium''),
      (''gemini-3.6-flash-tiered'', ''gemini-3.6-flash-tiered''),
      (''gemini-3-pro-image'', ''gemini-3.1-flash-image''),
      (''gemini-3-pro-image-preview'', ''gemini-3.1-flash-image''),
      (''gpt-oss-120b-medium'', ''gpt-oss-120b-medium''),
      (''tab_flash_lite_preview'', ''tab_flash_lite_preview'')]"

definition xai_defaultModels :: "string list" where
  "xai_defaultModels =
     [''grok-4.5'', ''grok-4.3'', ''grok-build-0.1'', ''grok-composer-2.5-fast'',
      ''grok-4.20-0309-reasoning'', ''grok-4.20-0309-non-reasoning'', ''grok-4.20-multi-agent-0309'',
      ''grok-imagine'', ''grok-imagine-image'', ''grok-imagine-image-quality'', ''grok-imagine-edit'',
      ''grok-imagine-video'', ''grok-imagine-video-1.5'']"

definition xai_aliases :: model_map where
  "xai_aliases =
     [(''grok'', ''grok-4.5''), (''grok-latest'', ''grok-4.5''), (''grok-4.5-latest'', ''grok-4.5''),
      (''grok-build'', ''grok-build-0.1''), (''grok-build-latest'', ''grok-4.5''),
      (''grok-composer'', ''grok-composer-2.5-fast''), (''composer-2.5'', ''grok-composer-2.5-fast''),
      (''grok-4.20-reasoning'', ''grok-4.20-0309-reasoning''),
      (''grok-4.20-non-reasoning'', ''grok-4.20-0309-non-reasoning'')]"

definition xai_DefaultModelMapping :: model_map where
  "xai_DefaultModelMapping =
     fold (\<lambda>(k, v) m. AList.update k v m) xai_aliases
       (fold (\<lambda>model m. AList.update model model m) xai_defaultModels [])"

text \<open>The string values of a \<open>map[string]any\<close>.\<close>

definition string_entries :: "(string \<times> goany) list \<Rightarrow> model_map" where
  "string_entries raw = List.map_filter (\<lambda>(k, v). case v of AnyString s \<Rightarrow> Some (k, s) | _ \<Rightarrow> None) raw"

definition stringMappingFromRaw :: "goany option \<Rightarrow> model_map" where
  "stringMappingFromRaw raw =
     (case raw of
        Some (AnyMap mapping) \<Rightarrow> string_entries mapping
      | Some (AnyStringMap mapping) \<Rightarrow> mapping
      | _ \<Rightarrow> [])"

definition ensureAntigravityDefaultPassthrough :: "string \<Rightarrow> model_map \<Rightarrow> model_map" where
  "ensureAntigravityDefaultPassthrough model mapping =
     (if model = [] then mapping
      else if map_of mapping model \<noteq> None then mapping
      else if list_ex (\<lambda>(pattern, _). matchWildcard pattern model) mapping then mapping
      else AList.update model model mapping)"

definition ensureAntigravityDefaultPassthroughs :: "string list \<Rightarrow> model_map \<Rightarrow> model_map" where
  "ensureAntigravityDefaultPassthroughs models mapping = fold ensureAntigravityDefaultPassthrough models mapping"

definition passthrough_models :: "string list" where
  "passthrough_models =
     [''gemini-3-flash'', ''gemini-3.1-pro-high'', ''gemini-3.1-pro-low'', ''gemini-3.6-flash'',
      ''gemini-3.6-flash-high'', ''gemini-3.6-flash-low'', ''gemini-3.6-flash-medium'',
      ''gemini-3.6-flash-tiered'']"

definition gemini31_aliases :: "(string \<times> string list) list" where
  "gemini31_aliases =
     [(''gemini-3.1-pro'', [''gemini-3.1-pro'']),
      (''gemini-3.1-pro-high'', [''gemini-3.1-pro-high'']),
      (''gemini-3.1-pro-preview'', [''gemini-3.1-pro-preview'', ''gemini-3.1-pro-high''])]"

definition apply_alias :: "string \<Rightarrow> string \<times> string list \<Rightarrow> model_map \<Rightarrow> model_map" where
  "apply_alias target alias mapping =
     (case map_of mapping (fst alias) of
        Some current \<Rightarrow>
          if current \<in> set (snd alias) then AList.update (fst alias) target mapping else mapping
      | None \<Rightarrow>
          if mappingHasWildcardForModel mapping (fst alias) then mapping
          else AList.update (fst alias) target mapping)"

definition applyAntigravityGemini31ProAliases :: "model_map \<Rightarrow> model_map" where
  "applyAntigravityGemini31ProAliases mapping =
     (let target = strings_TrimSpace
            (case map_of mapping AntigravityGemini31ProAgentModel of None \<Rightarrow> [] | Some t \<Rightarrow> t)
      in if target = [] then mapping else fold (apply_alias target) gemini31_aliases mapping)"

definition platform_default :: "Account \<Rightarrow> model_map" where
  "platform_default a =
     (if a_Platform a = PlatformAntigravity then DefaultAntigravityModelMapping
      else if a_Platform a = PlatformGrok then xai_DefaultModelMapping
      else [])"

definition resolveModelMapping :: "Account \<Rightarrow> (string \<times> goany) list \<Rightarrow> model_map" where
  "resolveModelMapping a rawMapping =
     (if a_Credentials a = None then platform_default a
      else if rawMapping = [] then platform_default a
      else let result = string_entries rawMapping
           in if result \<noteq> [] then
                (if a_Platform a = PlatformAntigravity
                 then applyAntigravityGemini31ProAliases
                        (ensureAntigravityDefaultPassthroughs passthrough_models result)
                 else result)
              else platform_default a)"

section \<open>The cache\<close>

text \<open>\<open>hash/fnv\<close>'s 64-bit FNV-1a, byte by byte.\<close>

definition fnv64a :: "nat list \<Rightarrow> 64 word" where
  "fnv64a bs = fold (\<lambda>b h. (h XOR of_nat b) * 1099511628211) bs 14695981039346656037"

definition mapping_bytes :: "(string \<times> goany) list \<Rightarrow> nat list" where
  "mapping_bytes rawMapping =
     concat (map (\<lambda>k. map byte_of k @ [0] @
       (case any_index rawMapping k of AnyString v \<Rightarrow> map byte_of v | _ \<Rightarrow> [1]) @ [255])
       (sort (map fst rawMapping)))"

definition modelMappingSignature :: "(string \<times> goany) list \<Rightarrow> 64 word" where
  "modelMappingSignature rawMapping = (if rawMapping = [] then 0 else fnv64a (mapping_bytes rawMapping))"

record mapping_cache =
  mc_mapping :: model_map
  mc_ready :: bool
  mc_credentialsPtr :: nat
  mc_rawPtr :: nat
  mc_rawLen :: nat
  mc_rawSig :: "64 word"

definition rawMapping_of :: "Account \<Rightarrow> (string \<times> goany) list" where
  "rawMapping_of a = (case any_get (a_Credentials a) ''model_mapping'' of Some (AnyMap m) \<Rightarrow> m | _ \<Rightarrow> [])"

text \<open>
  The pair \<open>p\<close> holds what \<open>mapPtr\<close> returns for the credentials and for the raw mapping: the address
  of the map, or 0 for nil.
\<close>

definition GetModelMapping :: "nat \<times> nat \<Rightarrow> Account \<Rightarrow> mapping_cache \<Rightarrow> model_map \<times> mapping_cache" where
  "GetModelMapping p a c =
     (let (credentialsPtr, rawPtr) = p; rawMapping = rawMapping_of a; rawLen = length rawMapping;
          rawSig = modelMappingSignature rawMapping
      in if mc_ready c \<and> mc_credentialsPtr c = credentialsPtr \<and> mc_rawPtr c = rawPtr \<and> mc_rawLen c = rawLen \<and>
            mc_rawSig c = rawSig
         then (mc_mapping c, c)
         else let mapping = resolveModelMapping a rawMapping
              in (mapping, \<lparr> mc_mapping = mapping, mc_ready = True, mc_credentialsPtr = credentialsPtr,
                             mc_rawPtr = rawPtr, mc_rawLen = rawLen, mc_rawSig = rawSig \<rparr>))"

section \<open>Questions about a model\<close>

definition IsOpenAIPassthroughEnabled :: "Account \<Rightarrow> bool" where
  "IsOpenAIPassthroughEnabled a \<longleftrightarrow>
     (if \<not> IsOpenAI a \<or> a_Extra a = None then False
      else case as_bool (any_get (a_Extra a) ''openai_passthrough'') of
        Some enabled \<Rightarrow> enabled
      | None \<Rightarrow> (case as_bool (any_get (a_Extra a) ''openai_oauth_passthrough'') of
          Some enabled \<Rightarrow> enabled | None \<Rightarrow> False))"

definition lastOpenAIModelSegment :: "string \<Rightarrow> string" where
  "lastOpenAIModelSegment model =
     (let model = strings_TrimSpace model
      in if model = [] then []
         else strings_TrimSpace (rev (takeWhile (\<lambda>c. c \<noteq> CHR ''/'') (rev model))))"

definition openAIOAuthForeignModelPrefixes :: "string list" where
  "openAIOAuthForeignModelPrefixes =
     [''deepseek-'', ''glm-'', ''kimi-'', ''moonshot-'', ''qwen-'', ''qwen2-'', ''qwen3-'', ''qwen4-'',
      ''qwq-'', ''minimax-'', ''gemini-'', ''gemma-'', ''grok-'', ''doubao-'', ''hunyuan-'', ''llama-'',
      ''llama2-'', ''llama3-'', ''meta-llama'', ''mistral-'', ''mixtral-'', ''baichuan-'', ''ernie-'',
      ''step-'', ''seed-'', ''yi-'']"

definition isOpenAIOAuthServableModel :: "(string \<Rightarrow> string) \<Rightarrow> string \<Rightarrow> bool" where
  "isOpenAIOAuthServableModel u requestedModel \<longleftrightarrow>
     (let model = strings_ToLower u (lastOpenAIModelSegment requestedModel)
      in if model = [] then True
         else if model = ''k3'' \<or> model = ''k3-256k'' then False
         else \<not> list_ex (\<lambda>p. prefix p model) openAIOAuthForeignModelPrefixes)"

definition IsModelSupported ::
  "(string \<Rightarrow> string) \<Rightarrow> nat \<times> nat \<Rightarrow> Account \<Rightarrow> mapping_cache \<Rightarrow> string \<Rightarrow> bool \<times> mapping_cache" where
  "IsModelSupported u p a c requestedModel =
     (if IsOpenAIPassthroughEnabled a then (True, c)
      else let (mapping, c) = GetModelMapping p a c
           in if mapping = [] then
                (if IsOpenAIOAuth a then isOpenAIOAuthServableModel u requestedModel else True, c)
              else if mappingSupportsRequestedModel mapping requestedModel then (True, c)
              else let normalized = normalizeRequestedModelForLookup (a_Platform a) requestedModel
                   in (normalized \<noteq> requestedModel \<and> mappingSupportsRequestedModel mapping normalized, c))"

definition ResolveMappedModel ::
  "(nat \<Rightarrow> nat) \<Rightarrow> nat \<times> nat \<Rightarrow> Account \<Rightarrow> mapping_cache \<Rightarrow> string \<Rightarrow> (string \<times> bool) \<times> mapping_cache" where
  "ResolveMappedModel r p a c requestedModel =
     (let (mapping, c) = GetModelMapping p a c
      in if mapping = [] then ((requestedModel, False), c)
         else let res = resolveRequestedModelInMapping r mapping requestedModel
              in if snd res then ((fst res, True), c)
                 else let normalized = normalizeRequestedModelForLookup (a_Platform a) requestedModel;
                          res = resolveRequestedModelInMapping r mapping normalized
                      in if normalized \<noteq> requestedModel \<and> snd res then ((fst res, True), c)
                         else ((requestedModel, False), c))"

definition GetMappedModel ::
  "(nat \<Rightarrow> nat) \<Rightarrow> nat \<times> nat \<Rightarrow> Account \<Rightarrow> mapping_cache \<Rightarrow> string \<Rightarrow> string \<times> mapping_cache" where
  "GetMappedModel r p a c requestedModel =
     (let (res, c) = ResolveMappedModel r p a c requestedModel in (fst res, c))"

definition mapAntigravityModel ::
  "(string \<Rightarrow> string) \<Rightarrow> (nat \<Rightarrow> nat) \<Rightarrow> nat \<times> nat \<Rightarrow> Account option \<Rightarrow> mapping_cache \<Rightarrow> string \<Rightarrow> string \<times> mapping_cache" where
  "mapAntigravityModel u r p account c requestedModel =
     (case account of
        None \<Rightarrow> ([], c)
      | Some a \<Rightarrow>
          let requestedModel = (if prefix ''models/'' requestedModel then drop 7 requestedModel else requestedModel);
              (mapping, c) = GetModelMapping p a c
          in if mapping = [] then ([], c)
             else let (mapped, c) = GetMappedModel r p a c requestedModel
                  in if mapped \<noteq> requestedModel then (mapped, c)
                     else let (supported, c) = IsModelSupported u p a c requestedModel
                          in (if supported then requestedModel else [], c))"

definition resolveOpenAIForwardModel ::
  "(nat \<Rightarrow> nat) \<Rightarrow> nat \<times> nat \<Rightarrow> Account option \<Rightarrow> mapping_cache \<Rightarrow> string \<Rightarrow> string \<Rightarrow> string \<times> mapping_cache" where
  "resolveOpenAIForwardModel r p account c requestedModel dispatchModel =
     (let dispatchModel = strings_TrimSpace dispatchModel
      in case account of
           None \<Rightarrow> (if dispatchModel \<noteq> [] then dispatchModel else requestedModel, c)
         | Some a \<Rightarrow>
             let ((mappedModel, matched), c) = ResolveMappedModel r p a c requestedModel
             in (if \<not> matched \<and> dispatchModel \<noteq> [] then dispatchModel else mappedModel, c))"

definition GetCompactModelMapping :: "Account option \<Rightarrow> model_map" where
  "GetCompactModelMapping a =
     (case a of None \<Rightarrow> [] | Some a \<Rightarrow> stringMappingFromRaw (any_get (a_Credentials a) ''compact_model_mapping''))"

definition ResolveCompactMappedModel :: "(nat \<Rightarrow> nat) \<Rightarrow> Account option \<Rightarrow> string \<Rightarrow> string \<times> bool" where
  "ResolveCompactMappedModel r a requestedModel =
     (let mapping = GetCompactModelMapping a
      in if mapping = [] then (requestedModel, False)
         else let res = resolveRequestedModelInMapping r mapping requestedModel
              in if snd res then res else (requestedModel, False))"

definition resolveOpenAICompactForwardModel :: "(nat \<Rightarrow> nat) \<Rightarrow> Account option \<Rightarrow> string \<Rightarrow> string" where
  "resolveOpenAICompactForwardModel r account model =
     (let trimmedModel = strings_TrimSpace model
      in if trimmedModel = [] \<or> account = None then trimmedModel
         else let (mappedModel, matched) = ResolveCompactMappedModel r account trimmedModel
              in if \<not> matched then trimmedModel
                 else let trimmedMapped = strings_TrimSpace mappedModel
                      in if trimmedMapped \<noteq> [] then trimmedMapped else trimmedModel)"

section \<open>The reference: try the name, then its prefixes, longest first\<close>

fun longest_rule :: "model_map \<Rightarrow> string \<Rightarrow> string option" where
  "longest_rule mapping q =
     (case map_of mapping (q @ ''*'') of
        Some t \<Rightarrow> Some t
      | None \<Rightarrow> if q = [] then None else longest_rule mapping (butlast q))"

declare longest_rule.simps [simp del]

definition model_rule :: "model_map \<Rightarrow> string \<Rightarrow> string option" where
  "model_rule mapping m =
     (if m = [] then None
      else case map_of mapping m of Some t \<Rightarrow> Some t | None \<Rightarrow> longest_rule mapping m)"

lemma longest_rule_Some:
  assumes "prefix p q" "map_of mapping (p @ ''*'') = Some t"
    and "\<And>p'. prefix p' q \<Longrightarrow> length p < length p' \<Longrightarrow> map_of mapping (p' @ ''*'') = None"
  shows "longest_rule mapping q = Some t"
  using assms
proof (induction q rule: rev_induct)
  case Nil
  then show ?case by (simp add: longest_rule.simps)
next
  case (snoc x q)
  show ?case
  proof (cases "p = q @ [x]")
    case True
    with snoc.prems show ?thesis by (simp add: longest_rule.simps)
  next
    case False
    then have p: "prefix p q" using snoc.prems(1) by (simp add: prefix_snoc)
    then have "map_of mapping ((q @ [x]) @ ''*'') = None"
      using snoc.prems(3) [of "q @ [x]"] prefix_length_le [OF p] by simp
    moreover have "longest_rule mapping q = Some t"
      by (rule snoc.IH [OF p snoc.prems(2)]) (use snoc.prems(3) in auto)
    ultimately show ?thesis by (subst longest_rule.simps) simp
  qed
qed

lemma longest_rule_None:
  "longest_rule mapping q = None \<longleftrightarrow> (\<forall>p. prefix p q \<longrightarrow> map_of mapping (p @ ''*'') = None)"
proof (induction q rule: rev_induct)
  case Nil
  then show ?case by (subst longest_rule.simps) (simp split: option.splits)
next
  case (snoc x q)
  show ?case
    by (subst longest_rule.simps) (auto simp: snoc.IH prefix_snoc split: option.splits)
qed

definition pattern_key :: "string \<times> string \<Rightarrow> int \<times> string" where
  "pattern_key a = (- int (length (fst a)), fst a)"

lemma pattern_less_key: "pattern_less a b \<longleftrightarrow> pattern_key a < pattern_key b"
  by (simp add: pattern_less_def pattern_key_def less_prod_def')

interpretation patterns: strict_weak pattern_less
  unfolding pattern_less_key [abs_def] by (rule strict_weak_key)

lemma matchWildcard_cases:
  assumes "matchWildcard pattern m"
  obtains (name) "pattern = m" | (star) q where "pattern = q @ ''*''" "prefix q m"
proof (cases "suffix ''*'' pattern")
  case True
  then obtain q where "pattern = q @ ''*''" by (rule suffixE)
  moreover from this have "prefix q m"
    using assms True by (simp add: matchWildcard_def matchAntigravityWildcard_def butlast_append)
  ultimately show thesis by (rule star)
next
  case False
  then show thesis using assms name by (simp add: matchWildcard_def matchAntigravityWildcard_def)
qed

lemma matchWildcard_star [simp]: "matchWildcard (q @ ''*'') m \<longleftrightarrow> prefix q m"
  by (simp add: matchWildcard_def matchAntigravityWildcard_def butlast_append)

lemma matchWildcardMappingResult_rule:
  assumes wf: "gm_wf mapping" and new: "map_of mapping m = None"
  shows "matchWildcardMappingResult r mapping m =
    (case longest_rule mapping m of Some t \<Rightarrow> (t, True) | None \<Rightarrow> (m, False))"
proof -
  let ?M = "filter (\<lambda>(pattern, target). matchWildcard pattern m) (map_range r mapping)"
  let ?b = "hd (sort_SliceStable pattern_less ?M)"
  have M: "(x, t) \<in> set ?M \<longleftrightarrow> (\<exists>q. x = q @ ''*'' \<and> prefix q m \<and> map_of mapping x = Some t)" for x t
    using wf new by (auto elim!: matchWildcard_cases)
  show ?thesis
  proof (cases "?M = []")
    case True
    then have "longest_rule mapping m = None"
      unfolding longest_rule_None using M by (metis empty_iff list.set(1) not_None_eq)
    with True show ?thesis by (simp add: matchWildcardMappingResult_def)
  next
    case False
    obtain x t where b: "?b = (x, t)" by (cases ?b)
    have "(x, t) \<in> set ?M" using patterns.hd_sort_in [OF False] b by simp
    then obtain q where q: "x = q @ ''*''" "prefix q m" "map_of mapping x = Some t" using M by blast
    have "map_of mapping (q' @ ''*'') = None" if q': "prefix q' m" "length q < length q'" for q'
    proof (rule ccontr)
      assume "map_of mapping (q' @ ''*'') \<noteq> None"
      then obtain t' where "(q' @ ''*'', t') \<in> set ?M" using M q'(1) by blast
      then have "\<not> pattern_less (q' @ ''*'', t') (x, t)"
        using patterns.hd_sort_minimal [of "(q' @ ''*'', t')" ?M] b by simp
      then show False using q'(2) q(1) by (simp add: pattern_less_def)
    qed
    then have "longest_rule mapping m = Some t" using longest_rule_Some q by metis
    with False b show ?thesis by (simp add: matchWildcardMappingResult_def Let_def)
  qed
qed

lemma model_rule_None:
  "model_rule mapping m = None \<longleftrightarrow> m = [] \<or> (map_of mapping m = None \<and> longest_rule mapping m = None)"
  by (simp add: model_rule_def split: option.splits)

lemma resolve_rule:
  "gm_wf mapping \<Longrightarrow> resolveRequestedModelInMapping r mapping m =
    (case model_rule mapping m of Some t \<Rightarrow> (t, True) | None \<Rightarrow> (m, False))"
  by (simp add: resolveRequestedModelInMapping_def model_rule_def matchWildcardMappingResult_rule split: option.splits)

lemma supports_rule:
  assumes "gm_wf mapping"
  shows "mappingSupportsRequestedModel mapping m \<longleftrightarrow> model_rule mapping m \<noteq> None"
proof (cases "m = [] \<or> map_of mapping m \<noteq> None")
  case True
  then show ?thesis by (auto simp: mappingSupportsRequestedModel_def model_rule_None)
next
  case False
  have "list_ex (\<lambda>(pattern, _). matchWildcard pattern m) mapping \<longleftrightarrow> longest_rule mapping m \<noteq> None"
  proof
    assume "list_ex (\<lambda>(pattern, _). matchWildcard pattern m) mapping"
    then obtain x t where x: "(x, t) \<in> set mapping" "matchWildcard x m" by (auto simp: list_ex_iff)
    from x(2) show "longest_rule mapping m \<noteq> None"
      by (cases rule: matchWildcard_cases)
        (use x(1) False assms in \<open>auto simp: longest_rule_None simp del: not_None_eq\<close>)
  next
    assume "longest_rule mapping m \<noteq> None"
    then obtain q t where q: "prefix q m" "map_of mapping (q @ ''*'') = Some t" by (auto simp: longest_rule_None)
    then have "(q @ ''*'', t) \<in> set mapping" by (auto dest: map_of_SomeD)
    then show "list_ex (\<lambda>(pattern, _). matchWildcard pattern m) mapping" using q(1) by (force simp: list_ex_iff)
  qed
  then show ?thesis using False by (simp add: mappingSupportsRequestedModel_def model_rule_None)
qed

text \<open>
  Property C19 (equivalence). Looking a model up in a mapping, by collecting the matching patterns in
  whatever order the map is visited and sorting them by length, gives what the reference gives: the
  entry of the model itself, else that of the longest prefix of it that has a wildcard entry. The
  outcome does not depend on the order of the visit, and the yes/no question agrees with it.
\<close>

theorem model_lookup_longest:
  assumes "gm_wf mapping"
  shows "resolveRequestedModelInMapping r mapping m =
      (case model_rule mapping m of Some t \<Rightarrow> (t, True) | None \<Rightarrow> (m, False)) \<and>
    mappingSupportsRequestedModel mapping m = snd (resolveRequestedModelInMapping r mapping m)"
  using assms by (simp add: resolve_rule supports_rule split: option.splits)

definition example_mapping :: model_map where
  "example_mapping = [(''claude-*'', ''claude-sonnet-4-5''), (''claude-opus-*'', ''claude-opus-4-6''), (''gpt-5'', ''gpt-5'')]"

theorem model_lookup_longest_witness:
  "resolveRequestedModelInMapping id example_mapping ''claude-opus-4-1'' = (''claude-opus-4-6'', True) \<and>
   mappingSupportsRequestedModel example_mapping ''claude-opus-4-1''"
proof -
  have "gm_wf example_mapping" "model_rule example_mapping ''claude-opus-4-1'' = Some ''claude-opus-4-6''" by code_simp+
  then show ?thesis using model_lookup_longest [of example_mapping id "''claude-opus-4-1''"] by simp
qed

section \<open>Accounts\<close>

definition account_mapping :: "Account \<Rightarrow> model_map" where
  "account_mapping a = resolveModelMapping a (rawMapping_of a)"

definition account_rule :: "Account \<Rightarrow> string \<Rightarrow> string option" where
  "account_rule a m =
     (case model_rule (account_mapping a) m of
        Some t \<Rightarrow> Some t
      | None \<Rightarrow> model_rule (account_mapping a) (normalizeRequestedModelForLookup (a_Platform a) m))"

text \<open>
  Two association lists are the same map when they find the same; a lookup, the platform defaults and
  the rewriting of an Antigravity mapping do not see the difference.
\<close>

lemma longest_rule_cong:
  assumes "map_of m = map_of m'"
  shows "longest_rule m q = longest_rule m' q"
proof (induction q rule: rev_induct)
  case Nil
  then show ?case by (simp add: longest_rule.simps assms)
next
  case (snoc x q)
  have "longest_rule n (q @ [x]) = (case map_of n ((q @ [x]) @ ''*'') of Some t \<Rightarrow> Some t | None \<Rightarrow> longest_rule n q)" for n
    by (subst longest_rule.simps) (simp split: option.split)
  then show ?case using assms snoc.IH by (simp split: option.split)
qed

lemma model_rule_cong: "map_of m = map_of m' \<Longrightarrow> model_rule m q = model_rule m' q"
  using longest_rule_cong [of m m' q] by (simp add: model_rule_def split: option.split)

lemma empty_cong: "map_of m = map_of m' \<Longrightarrow> m = [] \<longleftrightarrow> m' = []"
  by (metis map_of_eq_empty_iff)

lemma some_pattern_cong:
  fixes m m' :: model_map
  assumes "map_of m = map_of m'"
  shows "list_ex (\<lambda>(pattern, _). matchWildcard pattern q) m \<longleftrightarrow> list_ex (\<lambda>(pattern, _). matchWildcard pattern q) m'"
proof -
  have keys: "list_ex (\<lambda>(pattern, _). matchWildcard pattern q) n \<longleftrightarrow> (\<exists>x \<in> dom (map_of n). matchWildcard x q)"
    for n :: model_map
    unfolding dom_map_of_conv_image_fst by (force simp: list_ex_iff)
  show ?thesis unfolding keys assms ..
qed

lemma fold_cong_map:
  assumes step: "\<And>x m m'. map_of m = map_of m' \<Longrightarrow> map_of (f x m) = map_of (f x m')" and "map_of m = map_of m'"
  shows "map_of (fold f xs m) = map_of (fold f xs m')"
  using assms(2)
proof (induction xs arbitrary: m m')
  case Nil
  then show ?case by simp
next
  case (Cons x xs)
  show ?case using Cons.IH [OF step [OF Cons.prems]] by simp
qed

lemma antigravity_rewrite_cong:
  assumes "map_of m = map_of m'"
  shows "map_of (applyAntigravityGemini31ProAliases (ensureAntigravityDefaultPassthroughs ms m)) =
    map_of (applyAntigravityGemini31ProAliases (ensureAntigravityDefaultPassthroughs ms m'))"
proof -
  have 1: "map_of (ensureAntigravityDefaultPassthroughs ms m) = map_of (ensureAntigravityDefaultPassthroughs ms m')"
    unfolding ensureAntigravityDefaultPassthroughs_def
  proof (rule fold_cong_map [OF _ assms])
    show "map_of (ensureAntigravityDefaultPassthrough x n) = map_of (ensureAntigravityDefaultPassthrough x n')"
      if "map_of n = map_of n'" for x n n'
      using that some_pattern_cong [OF that, of x] by (simp add: ensureAntigravityDefaultPassthrough_def)
  qed
  have 2: "map_of (applyAntigravityGemini31ProAliases m) = map_of (applyAntigravityGemini31ProAliases m')"
    if same: "map_of m = map_of m'" for m m' :: model_map
  proof -
    have "map_of (fold (apply_alias t) as m) = map_of (fold (apply_alias t) as m')" for t as
    proof (rule fold_cong_map [OF _ same])
      show "map_of (apply_alias t x n) = map_of (apply_alias t x n')" if "map_of n = map_of n'" for x n n'
        using that some_pattern_cong [OF that, of "fst x"]
        by (simp add: apply_alias_def mappingHasWildcardForModel_def split: option.splits)
    qed
    then show ?thesis using same by (simp add: applyAntigravityGemini31ProAliases_def Let_def)
  qed
  show ?thesis by (rule 2 [OF 1])
qed

lemma string_entries_simps [simp]:
  "string_entries [] = []"
  "string_entries ((k, v) # raw) = (case v of AnyString s \<Rightarrow> (k, s) # string_entries raw | _ \<Rightarrow> string_entries raw)"
  by (auto simp: string_entries_def List.map_filter_def split: goany.splits)

lemma fst_string_entries: "fst ` set (string_entries raw) \<subseteq> fst ` set raw"
proof (induction raw)
  case Nil
  then show ?case by simp
next
  case (Cons x raw)
  obtain k v where "x = (k, v)" by (cases x)
  with Cons show ?case by (cases v) auto
qed

lemma gm_wf_string_entries: "gm_wf raw \<Longrightarrow> gm_wf (string_entries raw)"
proof (induction raw)
  case Nil
  then show ?case by simp
next
  case (Cons x raw)
  have "fst x \<notin> fst ` set (string_entries raw)" using Cons.prems fst_string_entries [of raw] by auto
  with Cons show ?case by (cases x) (auto split: goany.splits)
qed

lemma map_of_string_entries:
  "gm_wf raw \<Longrightarrow> map_of (string_entries raw) k = (case map_of raw k of Some (AnyString s) \<Rightarrow> Some s | _ \<Rightarrow> None)"
proof (induction raw)
  case Nil
  then show ?case by simp
next
  case (Cons x raw)
  have "map_of raw (fst x) = None" using Cons.prems by (simp add: map_of_eq_None_iff)
  with Cons show ?case by (cases x) (auto split: goany.splits option.splits)
qed

lemma gm_wf_default: "gm_wf (platform_default a)"
proof -
  have "gm_wf DefaultAntigravityModelMapping" "gm_wf xai_DefaultModelMapping" by code_simp+
  then show ?thesis by (simp add: platform_default_def)
qed

lemma fold_preserves: "(\<And>x m. P m \<Longrightarrow> P (f x m)) \<Longrightarrow> P m \<Longrightarrow> P (fold f xs m)"
  by (induction xs arbitrary: m) auto

lemma update_not_Nil [simp]: "AList.update k v m \<noteq> []"
  by (cases m) auto

lemma antigravity_rewrite_wf:
  assumes "gm_wf m" "m \<noteq> []"
  shows "gm_wf (applyAntigravityGemini31ProAliases (ensureAntigravityDefaultPassthroughs ms m)) \<and>
    applyAntigravityGemini31ProAliases (ensureAntigravityDefaultPassthroughs ms m) \<noteq> []"
proof -
  let ?P = "\<lambda>m :: model_map. gm_wf m \<and> m \<noteq> []"
  have 1: "?P (ensureAntigravityDefaultPassthroughs ms m)"
    unfolding ensureAntigravityDefaultPassthroughs_def
    by (rule fold_preserves [where P = ?P]) (use assms in \<open>auto simp: ensureAntigravityDefaultPassthrough_def\<close>)
  have 2: "?P (fold (apply_alias t) as m)" if "?P m" for t as m
    by (rule fold_preserves [where P = ?P]) (use that in \<open>auto simp: apply_alias_def split: option.splits\<close>)
  show ?thesis using 1 2 [OF 1] by (simp add: applyAntigravityGemini31ProAliases_def Let_def)
qed

lemma gm_wf_account_mapping:
  assumes "gm_wf (rawMapping_of a)"
  shows "gm_wf (account_mapping a)"
  using gm_wf_string_entries [OF assms] gm_wf_default [of a] antigravity_rewrite_wf
  by (simp add: account_mapping_def resolveModelMapping_def Let_def)

lemma antigravity_mapping_not_Nil:
  assumes "gm_wf (rawMapping_of a)" "a_Platform a = PlatformAntigravity"
  shows "account_mapping a \<noteq> []"
  using gm_wf_string_entries [OF assms(1)] antigravity_rewrite_wf assms(2)
  by (simp add: account_mapping_def resolveModelMapping_def platform_default_def DefaultAntigravityModelMapping_def Let_def)

lemma account_mapping_cong:
  assumes "a_Platform a = a_Platform b" "gm_wf (rawMapping_of a)" "gm_wf (rawMapping_of b)"
    and "map_of (string_entries (rawMapping_of a)) = map_of (string_entries (rawMapping_of b))"
  shows "map_of (account_mapping a) = map_of (account_mapping b)"
proof -
  have shape: "account_mapping x = (if string_entries (rawMapping_of x) = [] then platform_default x
      else if a_Platform x = PlatformAntigravity
      then applyAntigravityGemini31ProAliases (ensureAntigravityDefaultPassthroughs passthrough_models (string_entries (rawMapping_of x)))
      else string_entries (rawMapping_of x))" for x
  proof -
    have "rawMapping_of x = []" if "a_Credentials x = None" using that by (simp add: rawMapping_of_def any_get_def)
    then show ?thesis by (auto simp: account_mapping_def resolveModelMapping_def Let_def)
  qed
  show ?thesis
    unfolding shape using empty_cong [OF assms(4)] antigravity_rewrite_cong [OF assms(4)] assms(1,4)
    by (simp add: platform_default_def)
qed

section \<open>What the cache answers\<close>

text \<open>A cache that, when it is asked about this account, answers with the account's mapping.\<close>

definition cache_ok :: "nat \<times> nat \<Rightarrow> Account \<Rightarrow> mapping_cache \<Rightarrow> bool" where
  "cache_ok p a c \<longleftrightarrow>
     (mc_ready c \<and> mc_credentialsPtr c = fst p \<and> mc_rawPtr c = snd p \<and> mc_rawLen c = length (rawMapping_of a) \<and>
      mc_rawSig c = modelMappingSignature (rawMapping_of a) \<longrightarrow>
      map_of (mc_mapping c) = map_of (account_mapping a) \<and> gm_wf (mc_mapping c))"

lemma GetModelMapping_cases:
  assumes "cache_ok p a c" "gm_wf (rawMapping_of a)"
  obtains M c' where "GetModelMapping p a c = (M, c')" "map_of M = map_of (account_mapping a)" "gm_wf M" "cache_ok p a c'"
proof -
  have "map_of (fst (GetModelMapping p a c)) = map_of (account_mapping a) \<and> gm_wf (fst (GetModelMapping p a c)) \<and>
      cache_ok p a (snd (GetModelMapping p a c))"
    using assms(1) gm_wf_account_mapping [OF assms(2)]
    by (cases p) (auto simp: GetModelMapping_def cache_ok_def account_mapping_def Let_def)
  then show thesis using that by (cases "GetModelMapping p a c") auto
qed

lemma ResolveMappedModel_rule:
  assumes "cache_ok p a c" "gm_wf (rawMapping_of a)" "account_mapping a \<noteq> []"
  obtains c' where "cache_ok p a c'" "ResolveMappedModel r p a c m =
    (case account_rule a m of Some t \<Rightarrow> (t, True) | None \<Rightarrow> (m, False), c')"
proof -
  obtain M c' where c': "GetModelMapping p a c = (M, c')" "map_of M = map_of (account_mapping a)" "gm_wf M" "cache_ok p a c'"
    using GetModelMapping_cases [OF assms(1,2)] by blast
  have "M \<noteq> []" using empty_cong [OF c'(2)] assms(3) by simp
  then show thesis
    by (intro that [OF c'(4)])
      (auto simp: ResolveMappedModel_def c'(1) account_rule_def Let_def resolve_rule [OF c'(3)]
        model_rule_cong [OF c'(2)] split: option.splits)
qed

lemma IsModelSupported_rule:
  assumes "cache_ok p a c" "gm_wf (rawMapping_of a)" "account_mapping a \<noteq> []" "\<not> IsOpenAIPassthroughEnabled a"
  obtains c' where "cache_ok p a c'" "IsModelSupported u p a c m = (account_rule a m \<noteq> None, c')"
proof -
  obtain M c' where c': "GetModelMapping p a c = (M, c')" "map_of M = map_of (account_mapping a)" "gm_wf M" "cache_ok p a c'"
    using GetModelMapping_cases [OF assms(1,2)] by blast
  have "M \<noteq> []" using empty_cong [OF c'(2)] assms(3) by simp
  then show thesis
    by (intro that [OF c'(4)])
      (use assms(4) in \<open>auto simp: IsModelSupported_def c'(1) account_rule_def Let_def supports_rule [OF c'(3)]
        model_rule_cong [OF c'(2)] split: option.splits\<close>)
qed

text \<open>
  For an Antigravity account \<open>mapAntigravityModel\<close>, which infers from two separate
  questions whether a rule applied, is exact: the answer is the target of the account's rule for the
  model, also when that target is the model itself, and empty when the account has no rule for it,
  which is what keeps the account out of the candidates.
\<close>

theorem antigravity_model_exact:
  assumes "cache_ok p a c" "gm_wf (rawMapping_of a)" "a_Platform a = PlatformAntigravity"
  shows "fst (mapAntigravityModel u r p (Some a) c m) =
    (case account_rule a (if prefix ''models/'' m then drop 7 m else m) of None \<Rightarrow> [] | Some t \<Rightarrow> t)"
proof -
  let ?m = "if prefix ''models/'' m then drop 7 m else m"
  have ne: "account_mapping a \<noteq> []" by (rule antigravity_mapping_not_Nil [OF assms(2,3)])
  have np: "\<not> IsOpenAIPassthroughEnabled a" using assms(3) by (simp add: IsOpenAIPassthroughEnabled_def IsOpenAI_def)
  obtain M c1 where c1: "GetModelMapping p a c = (M, c1)" "map_of M = map_of (account_mapping a)" "cache_ok p a c1"
    using GetModelMapping_cases [OF assms(1,2)] by blast
  obtain c2 where c2: "cache_ok p a c2" "ResolveMappedModel r p a c1 ?m =
      (case account_rule a ?m of Some t \<Rightarrow> (t, True) | None \<Rightarrow> (?m, False), c2)"
    using ResolveMappedModel_rule [OF c1(3) assms(2) ne] by blast
  obtain c3 where c3: "IsModelSupported u p a c2 ?m = (account_rule a ?m \<noteq> None, c3)"
    using IsModelSupported_rule [OF c2(1) assms(2) ne np] by blast
  have M: "M \<noteq> []" using empty_cong [OF c1(2)] ne by simp
  show ?thesis
    unfolding mapAntigravityModel_def option.case GetMappedModel_def c1(1) Let_def prod.case c2(2) c3
    using M by (simp split: option.split)
qed

definition example_account :: "string \<Rightarrow> (string \<times> goany) list \<Rightarrow> Account" where
  "example_account platform raw =
     \<lparr> a_ID = 1, a_Name = ''a'', a_Notes = None, a_Platform = platform, a_Type = AccountTypeOAuth,
       a_Credentials = Some [(''model_mapping'', AnyMap raw)], a_Extra = None, a_ProxyID = None,
       a_ProxyFallbackOriginID = None, a_Concurrency = 1, a_Priority = 1, a_RateMultiplier = None, a_LoadFactor = None,
       a_Status = ''active'', a_ErrorMessage = [], a_LastUsedAt = None, a_ExpiresAt = None, a_AutoPauseOnExpired = False,
       a_CreatedAt = 0, a_UpdatedAt = 0, a_Schedulable = True, a_RateLimitedAt = None, a_RateLimitResetAt = None,
       a_OverloadUntil = None, a_TempUnschedulableUntil = None, a_TempUnschedulableReason = [],
       a_SessionWindowStart = None, a_SessionWindowEnd = None, a_SessionWindowStatus = [], a_ParentAccountID = None,
       a_QuotaDimension = [], a_GroupIDs = [] \<rparr>"

definition fresh_cache :: mapping_cache where
  "fresh_cache = \<lparr> mc_mapping = [], mc_ready = False, mc_credentialsPtr = 0, mc_rawPtr = 0, mc_rawLen = 0, mc_rawSig = 0 \<rparr>"

lemma fresh_cache_ok: "cache_ok p a fresh_cache"
  by (simp add: cache_ok_def fresh_cache_def)

theorem antigravity_model_exact_witness:
  "fst (mapAntigravityModel id id (1, 2) (Some (example_account PlatformAntigravity
      [(''claude-*'', AnyString ''claude-sonnet-4-5''), (''gemini-pro-agent'', AnyString ''gemini-pro-agent'')]))
      fresh_cache ''models/gemini-3.1-pro-preview-customtools'') = ''gemini-pro-agent''"
proof -
  let ?a = "example_account PlatformAntigravity
      [(''claude-*'', AnyString ''claude-sonnet-4-5''), (''gemini-pro-agent'', AnyString ''gemini-pro-agent'')]"
  have "gm_wf (rawMapping_of ?a)" "a_Platform ?a = PlatformAntigravity"
    "account_rule ?a ''gemini-3.1-pro-preview-customtools'' = Some ''gemini-pro-agent''" by code_simp+
  then show ?thesis
    using antigravity_model_exact [OF fresh_cache_ok, of ?a id id "(1, 2)" "''models/gemini-3.1-pro-preview-customtools''"]
    by simp
qed

section \<open>The cache is transparent\<close>

text \<open>
  Calls of \<open>GetModelMapping\<close> on one account object: between calls its credentials may be replaced or its
  raw mapping changed in place, so each call sees its own pointers and contents.
\<close>

fun cached_mappings :: "((nat \<times> nat) \<times> Account) list \<Rightarrow> mapping_cache \<Rightarrow> model_map list" where
  "cached_mappings [] c = []"
| "cached_mappings ((p, a) # calls) c =
     (let (M, c') = GetModelMapping p a c in M # cached_mappings calls c')"

text \<open>
  The signature separates a key from its value by a zero byte and ends the value with the byte 255, and a
  value that is not a string counts as the byte 1. This is unambiguous for keys without zero bytes and
  values without the byte 255, which no UTF-8 text contains, other than the one-byte text 1.
\<close>

definition clean_entry :: "string \<times> goany \<Rightarrow> bool" where
  "clean_entry e \<longleftrightarrow> 0 \<notin> set (map byte_of (fst e)) \<and>
     (case snd e of AnyString s \<Rightarrow> 255 \<notin> set (map byte_of s) \<and> map byte_of s \<noteq> [1] | _ \<Rightarrow> True)"

definition value_bytes :: "goany \<Rightarrow> nat list" where
  "value_bytes v = (case v of AnyString s \<Rightarrow> map byte_of s | _ \<Rightarrow> [1])"

definition block :: "nat list \<times> nat list \<Rightarrow> nat list" where
  "block kv = fst kv @ [0] @ snd kv @ [255]"

lemma until_unique:
  assumes "xs @ s # us = ys @ s # vs" "s \<notin> set xs" "s \<notin> set ys"
  shows "xs = ys \<and> us = vs"
proof -
  have "takeWhile (\<lambda>c. c \<noteq> s) (xs @ s # us) = xs" "takeWhile (\<lambda>c. c \<noteq> s) (ys @ s # vs) = ys"
    using assms(2,3) by (auto simp: takeWhile_tail)
  then show ?thesis using assms(1) by simp
qed

lemma blocks_unique:
  assumes "concat (map block xs) = concat (map block ys)"
    and "\<forall>kv \<in> set xs \<union> set ys. 0 \<notin> set (fst kv) \<and> 255 \<notin> set (snd kv)"
  shows "xs = ys"
  using assms
proof (induction xs arbitrary: ys)
  case Nil
  then show ?case by (cases ys) (simp_all add: block_def)
next
  case (Cons x xs)
  then obtain y ys' where ys: "ys = y # ys'" by (cases ys) (auto simp: block_def)
  have free: "0 \<notin> set (fst x)" "0 \<notin> set (fst y)" "255 \<notin> set (snd x)" "255 \<notin> set (snd y)"
    using Cons.prems(2) by (auto simp: ys)
  have "fst x @ 0 # snd x @ 255 # concat (map block xs) = fst y @ 0 # snd y @ 255 # concat (map block ys')"
    using Cons.prems(1) by (simp add: ys block_def [of x] block_def [of y])
  note key = until_unique [OF this free(1,2)]
  note val = until_unique [OF conjunct2 [OF key] free(3,4)]
  have "xs = ys'" using Cons.IH [OF conjunct2 [OF val]] Cons.prems(2) by (simp add: ys)
  then show ?case using key val by (simp add: ys prod_eq_iff)
qed

lemma byte_of_inj: "inj byte_of"
  by (simp add: byte_of_def inj_on_def)

lemma any_index_in: "gm_wf raw \<Longrightarrow> k \<in> fst ` set raw \<Longrightarrow> (k, any_index raw k) \<in> set raw"
  by (auto simp: any_index_def)

lemma mapping_bytes_blocks:
  "mapping_bytes raw = concat (map block (map (\<lambda>k. (map byte_of k, value_bytes (any_index raw k))) (sort (map fst raw))))"
  by (simp add: mapping_bytes_def block_def value_bytes_def comp_def)

lemma value_bytes_inj:
  assumes "value_bytes v = value_bytes w" "clean_entry (k, v)" "clean_entry (k, w)"
  shows "(case v of AnyString s \<Rightarrow> Some s | _ \<Rightarrow> None) = (case w of AnyString s \<Rightarrow> Some s | _ \<Rightarrow> None)"
  using assms inj_eq [OF inj_mapI [OF byte_of_inj]]
  by (auto simp: value_bytes_def clean_entry_def split: goany.splits)

lemma mapping_bytes_inj:
  assumes wf: "gm_wf raw" "gm_wf raw'" and clean: "list_all clean_entry raw" "list_all clean_entry raw'"
    and eq: "mapping_bytes raw = mapping_bytes raw'"
  shows "map_of (string_entries raw) = map_of (string_entries raw')"
proof -
  let ?f = "\<lambda>raw k. (map byte_of k, value_bytes (any_index raw k))" and ?K = "sort (map fst raw)"
  have entry: "clean_entry (k, any_index n k)" if "gm_wf n" "list_all clean_entry n" "k \<in> fst ` set n" for k n
    using any_index_in [OF that(1,3)] that(2) by (simp add: list_all_iff)
  have ok: "0 \<notin> set (map byte_of k) \<and> 255 \<notin> set (value_bytes (any_index n k))"
    if "gm_wf n" "list_all clean_entry n" "k \<in> fst ` set n" for k n
    using entry [OF that] by (auto simp: clean_entry_def value_bytes_def split: goany.splits)
  have blocks: "map (?f raw) ?K = map (?f raw') (sort (map fst raw'))"
  proof (rule blocks_unique)
    show "concat (map block (map (?f raw) ?K)) = concat (map block (map (?f raw') (sort (map fst raw'))))"
      using eq by (simp only: mapping_bytes_blocks)
    show "\<forall>kv \<in> set (map (?f raw) ?K) \<union> set (map (?f raw') (sort (map fst raw'))). 0 \<notin> set (fst kv) \<and> 255 \<notin> set (snd kv)"
      using ok [OF wf(1) clean(1)] ok [OF wf(2) clean(2)] by (fastforce simp del: set_map simp: image_iff set_map)
  qed
  have "map (map byte_of) ?K = map (map byte_of) (sort (map fst raw'))"
    using arg_cong [OF blocks, of "map fst"] by (simp add: comp_def)
  then have K: "?K = sort (map fst raw')"
    using inj_mapI [OF inj_mapI [OF byte_of_inj]] by (simp add: inj_eq)
  have keys: "fst ` set raw = fst ` set raw'" using arg_cong [OF K, of set] by simp
  have same: "value_bytes (any_index raw k) = value_bytes (any_index raw' k)" if "k \<in> fst ` set raw" for k
    using blocks that unfolding K [symmetric] by auto
  show ?thesis
  proof
    fix k
    show "map_of (string_entries raw) k = map_of (string_entries raw') k"
    proof (cases "k \<in> fst ` set raw")
      case True
      then obtain v w where vw: "map_of raw k = Some v" "map_of raw' k = Some w"
        using keys by (metis map_of_eq_None_iff not_None_eq)
      have ix: "any_index raw k = v" "any_index raw' k = w" using vw by (simp_all add: any_index_def)
      show ?thesis
        using value_bytes_inj [OF same [OF True] entry [OF wf(1) clean(1) True] entry [OF wf(2) clean(2)]] True
        by (simp add: map_of_string_entries wf vw keys ix)
    next
      case False
      then have "map_of raw k = None" "map_of raw' k = None" using keys by (simp_all add: map_of_eq_None_iff)
      then show ?thesis by (simp add: map_of_string_entries wf)
    qed
  qed
qed

definition cache_from :: "((nat \<times> nat) \<times> Account) set \<Rightarrow> mapping_cache \<Rightarrow> bool" where
  "cache_from S c \<longleftrightarrow> mc_ready c \<longrightarrow>
     (\<exists>(p, a) \<in> S. map_of (mc_mapping c) = map_of (account_mapping a) \<and> gm_wf (mc_mapping c) \<and>
        mc_rawLen c = length (rawMapping_of a) \<and> mc_rawSig c = modelMappingSignature (rawMapping_of a))"

definition distinguished :: "string \<Rightarrow> ((nat \<times> nat) \<times> Account) set \<Rightarrow> bool" where
  "distinguished platform S \<longleftrightarrow>
     (\<forall>(p, a) \<in> S. a_Platform a = platform \<and> gm_wf (rawMapping_of a) \<and> list_all clean_entry (rawMapping_of a)) \<and>
     inj_on fnv64a ((\<lambda>(p, a). mapping_bytes (rawMapping_of a)) ` S)"

lemma distinguished_same:
  assumes "distinguished platform S" "(p, a) \<in> S" "(q, b) \<in> S" "length (rawMapping_of a) = length (rawMapping_of b)"
    and "modelMappingSignature (rawMapping_of a) = modelMappingSignature (rawMapping_of b)"
  shows "map_of (account_mapping a) = map_of (account_mapping b)"
proof -
  have S: "a_Platform x = platform \<and> gm_wf (rawMapping_of x) \<and> list_all clean_entry (rawMapping_of x)"
    if "(t, x) \<in> S" for t x
    using assms(1) that by (auto simp: distinguished_def)
  have ab: "a_Platform a = a_Platform b" "gm_wf (rawMapping_of a)" "gm_wf (rawMapping_of b)"
      "list_all clean_entry (rawMapping_of a)" "list_all clean_entry (rawMapping_of b)"
    using S [OF assms(2)] S [OF assms(3)] by simp_all
  have "map_of (string_entries (rawMapping_of a)) = map_of (string_entries (rawMapping_of b))"
  proof (cases "rawMapping_of a = []")
    case True
    then show ?thesis using assms(4) by simp
  next
    case False
    then have hash: "fnv64a (mapping_bytes (rawMapping_of a)) = fnv64a (mapping_bytes (rawMapping_of b))"
      using assms(4,5) by (auto simp: modelMappingSignature_def split: if_splits)
    let ?B = "(\<lambda>(p, a). mapping_bytes (rawMapping_of a)) ` S"
    have inj: "inj_on fnv64a ?B" using assms(1) by (simp add: distinguished_def)
    have "mapping_bytes (rawMapping_of a) \<in> ?B" "mapping_bytes (rawMapping_of b) \<in> ?B"
      using imageI [OF assms(2), of "\<lambda>(p, a). mapping_bytes (rawMapping_of a)"]
        imageI [OF assms(3), of "\<lambda>(p, a). mapping_bytes (rawMapping_of a)"] by simp_all
    with inj hash have "mapping_bytes (rawMapping_of a) = mapping_bytes (rawMapping_of b)" by (rule inj_onD)
    then show ?thesis using mapping_bytes_inj ab by blast
  qed
  then show ?thesis using account_mapping_cong ab by blast
qed

lemma cached_mappings_from:
  assumes "distinguished platform S" "set calls \<subseteq> S" "cache_from S c"
  shows "list_all2 (\<lambda>M (p, a). map_of M = map_of (account_mapping a)) (cached_mappings calls c) calls"
  using assms(2,3)
proof (induction calls arbitrary: c)
  case Nil
  then show ?case by simp
next
  case (Cons x calls)
  obtain p a where x: "x = (p, a)" by (cases x)
  have S: "(p, a) \<in> S" and wf: "gm_wf (rawMapping_of a)"
    using Cons.prems(1) assms(1) by (auto simp: x distinguished_def)
  have ok: "cache_ok p a c"
    using Cons.prems(2) distinguished_same [OF assms(1) _ S] by (fastforce simp: cache_from_def cache_ok_def)
  obtain M c' where G: "GetModelMapping p a c = (M, c')" "map_of M = map_of (account_mapping a)"
    using GetModelMapping_cases [OF ok wf] by blast
  have "cache_from S c'"
  proof (cases "c' = c")
    case True
    then show ?thesis using Cons.prems(2) by simp
  next
    case False
    then have "mc_mapping c' = account_mapping a" "mc_rawLen c' = length (rawMapping_of a)"
      "mc_rawSig c' = modelMappingSignature (rawMapping_of a)"
      using G(1) by (auto simp: GetModelMapping_def account_mapping_def Let_def split: prod.splits if_splits)
    then show ?thesis using S gm_wf_account_mapping [OF wf] by (force simp: cache_from_def)
  qed
  then show ?case using Cons.IH [of c'] Cons.prems(1) by (simp add: x G)
qed

text \<open>
  The cache of the parsed mapping is transparent. Over any sequence of calls on
  one account, with its credentials replaced or edited in place between them, every call returns the
  mapping of the account as it is then, provided the platform stays, the mapping's texts are clean, and
  FNV-1a does not collide on the mappings the account goes through.
\<close>

theorem mapping_cache_transparent:
  assumes "distinguished platform (set calls)"
  shows "list_all2 (\<lambda>M (p, a). map_of M = map_of (account_mapping a)) (cached_mappings calls fresh_cache) calls"
  by (rule cached_mappings_from [OF assms subset_refl]) (simp add: cache_from_def fresh_cache_def)

definition example_calls :: "((nat \<times> nat) \<times> Account) list" where
  "example_calls =
     [((1, 2), example_account PlatformOpenAI [(''gpt-*'', AnyString ''gpt-5''), (''o1'', AnyBool True)]),
      ((1, 2), example_account PlatformOpenAI [(''gpt-*'', AnyString ''gpt-6''), (''o1'', AnyBool True)]),
      ((1, 2), example_account PlatformOpenAI [(''o1'', AnyBool True), (''gpt-*'', AnyString ''gpt-6'')])]"

theorem mapping_cache_transparent_witness:
  "map map_of (cached_mappings example_calls fresh_cache) = [[''gpt-*'' \<mapsto> ''gpt-5''], [''gpt-*'' \<mapsto> ''gpt-6''], [''gpt-*'' \<mapsto> ''gpt-6'']]"
proof -
  have "list_all (\<lambda>(p, a). a_Platform a = PlatformOpenAI \<and> gm_wf (rawMapping_of a) \<and>
      list_all clean_entry (rawMapping_of a)) example_calls" by code_simp
  moreover have "distinct (map fnv64a (remdups (map (\<lambda>(p, a). mapping_bytes (rawMapping_of a)) example_calls)))" by code_simp
  ultimately have "distinguished PlatformOpenAI (set example_calls)"
    by (auto simp: distinguished_def list_all_iff distinct_map)
  moreover have "map (\<lambda>(p, a). account_mapping a) example_calls =
      [[(''gpt-*'', ''gpt-5'')], [(''gpt-*'', ''gpt-6'')], [(''gpt-*'', ''gpt-6'')]]" by code_simp
  ultimately show ?thesis
    using mapping_cache_transparent [of PlatformOpenAI example_calls]
    by (auto simp: example_calls_def list_all2_Cons2)
qed

end
