(* ===== verification/Invalid_Auth.thy ===== *)
theory Invalid_Auth
  imports Go_Any "HOL-Library.Word"
begin

text \<open>
  The limiter of clients that keep failing to authenticate (\<open>service/invalid_auth_abuse_limiter.go\<close>): a
  sharded table of failure counters per client, a bound on the number of tracked clients, and one
  shared counter for the clients that find no room. This theory holds the sequential operations, in
  which one call runs at a time, and what they promise to a client; \<open>Invalid_Auth_Race\<close> runs
  the same code in many goroutines at once.

  A nil limiter does nothing and blocks nobody; the operations below are those of a limiter that
  exists. \<open>now\<close> is the value \<open>l.now()\<close> returns in the call. The counters are 64-bit words, the cleanup
  cursor is a 32-bit word, and the hash that picks a shard is 32-bit FNV-1a.
\<close>

unbundle bit_operations_syntax

section \<open>State\<close>

definition invalidAuthAbuseShardCount :: nat where
  "invalidAuthAbuseShardCount = 16"

record invalidAuthAbuseEntry =
  ae_failures :: int
  ae_windowStart :: gotime
  ae_blockedUntil :: gotime

type_synonym abuse_shard = "(string, invalidAuthAbuseEntry) gomap"

record invalidAuthAbuseLimiter =
  al_threshold :: int
  al_window :: duration
  al_block :: duration
  al_capacity :: int
  al_shards :: "abuse_shard list"
  al_overflow :: invalidAuthAbuseEntry
  al_tracked :: int
  al_recorded :: "64 word"
  al_blocked :: "64 word"
  al_rejected :: "64 word"
  al_expired :: "64 word"
  al_overflowed :: "64 word"
  al_globalBlocked :: "64 word"
  al_cleanupNext :: int
  al_cleanupCursor :: "32 word"

record InvalidAuthAbuseConfig =
  ac_Enabled :: bool
  ac_Threshold :: int
  ac_WindowSeconds :: int
  ac_BlockSeconds :: int
  ac_Capacity :: int

definition zero_entry :: invalidAuthAbuseEntry where
  "zero_entry = \<lparr> ae_failures = 0, ae_windowStart = time_zero, ae_blockedUntil = time_zero \<rparr>"

definition newInvalidAuthAbuseLimiter :: "InvalidAuthAbuseConfig option \<Rightarrow> invalidAuthAbuseLimiter option" where
  "newInvalidAuthAbuseLimiter cfg =
     (case cfg of
        None \<Rightarrow> None
      | Some c \<Rightarrow>
          if \<not> ac_Enabled c then None
          else if ac_Threshold c \<le> 0 \<or> ac_WindowSeconds c \<le> 0 \<or> ac_BlockSeconds c \<le> 0 \<or> ac_Capacity c \<le> 0 then None
          else Some \<lparr> al_threshold = ac_Threshold c, al_window = int64_wrap (ac_WindowSeconds c * Second),
                      al_block = int64_wrap (ac_BlockSeconds c * Second), al_capacity = ac_Capacity c,
                      al_shards = replicate invalidAuthAbuseShardCount [], al_overflow = zero_entry, al_tracked = 0,
                      al_recorded = 0, al_blocked = 0, al_rejected = 0, al_expired = 0, al_overflowed = 0,
                      al_globalBlocked = 0, al_cleanupNext = 0, al_cleanupCursor = 0 \<rparr>)"

section \<open>Pieces of the operations\<close>

definition shard :: "string \<Rightarrow> nat" where
  "shard clientKey =
     (let hash = fold (\<lambda>c h. (h XOR of_nat (byte_of c)) * 16777619) clientKey (2166136261 :: 32 word)
      in unat (hash mod of_nat invalidAuthAbuseShardCount))"

definition entryExpired :: "duration \<Rightarrow> invalidAuthAbuseEntry \<Rightarrow> gotime \<Rightarrow> bool" where
  "entryExpired window entry now \<longleftrightarrow>
     \<not> ae_blockedUntil entry > now \<and> \<not> ae_windowStart entry > now \<and> \<not> now < ae_windowStart entry + window"

definition UnixNano :: "gotime \<Rightarrow> int" where
  "UnixNano t = int64_wrap (t - 62135596800 * Second)"

definition entries_of :: "invalidAuthAbuseLimiter \<Rightarrow> string \<Rightarrow> abuse_shard" where
  "entries_of l k = al_shards l ! shard k"

definition with_entries :: "string \<Rightarrow> abuse_shard \<Rightarrow> invalidAuthAbuseLimiter \<Rightarrow> invalidAuthAbuseLimiter" where
  "with_entries k m l = l \<lparr> al_shards := (al_shards l)[shard k := m] \<rparr>"

definition maybeCleanupAtCapacity :: "gotime \<Rightarrow> invalidAuthAbuseLimiter \<Rightarrow> invalidAuthAbuseLimiter" where
  "maybeCleanupAtCapacity now l =
     (if al_tracked l < al_capacity l then l
      else if UnixNano now < al_cleanupNext l then l
      else let index = al_cleanupCursor l;
               i = unat (index mod of_nat invalidAuthAbuseShardCount);
               gone = filter (\<lambda>(_, e). entryExpired (al_window l) e now) (al_shards l ! i);
               kept = filter (\<lambda>(_, e). \<not> entryExpired (al_window l) e now) (al_shards l ! i)
           in l \<lparr> al_cleanupNext := UnixNano (now + 100 * Millisecond), al_cleanupCursor := index + 1,
                  al_shards := (al_shards l)[i := kept], al_tracked := al_tracked l - int (length gone),
                  al_expired := al_expired l + of_nat (length gone) \<rparr>)"

text \<open>The lookup both operations begin with: an entry that has expired is dropped.\<close>

definition live_entry ::
  "string \<Rightarrow> gotime \<Rightarrow> invalidAuthAbuseLimiter \<Rightarrow> invalidAuthAbuseEntry option \<times> invalidAuthAbuseLimiter" where
  "live_entry clientKey now l =
     (case map_of (entries_of l clientKey) clientKey of
        None \<Rightarrow> (None, l)
      | Some entry \<Rightarrow>
          if entryExpired (al_window l) entry now
          then (None, (with_entries clientKey (AList.delete clientKey (entries_of l clientKey)) l)
                  \<lparr> al_tracked := al_tracked l - 1, al_expired := al_expired l + 1 \<rparr>)
          else (Some entry, l))"

definition reserveEntry :: "invalidAuthAbuseLimiter \<Rightarrow> bool \<times> invalidAuthAbuseLimiter" where
  "reserveEntry l =
     (if al_tracked l \<ge> al_capacity l then (False, l) else (True, l \<lparr> al_tracked := al_tracked l + 1 \<rparr>))"

text \<open>What a failure does to a counter, and whether it starts a block; \<open>stale\<close> says that its window is over.\<close>

definition count_failure ::
  "int \<Rightarrow> duration \<Rightarrow> bool \<Rightarrow> gotime \<Rightarrow> invalidAuthAbuseEntry \<Rightarrow> invalidAuthAbuseEntry \<times> bool" where
  "count_failure threshold block stale now e =
     (let e = (if stale then e \<lparr> ae_windowStart := now, ae_failures := 0 \<rparr> else e);
          e = e \<lparr> ae_failures := ae_failures e + 1 \<rparr>
      in if ae_failures e \<ge> threshold
         then (\<lparr> ae_failures = 0, ae_windowStart = now + block, ae_blockedUntil = now + block \<rparr>, True)
         else (e, False))"

definition entry_failure ::
  "invalidAuthAbuseLimiter \<Rightarrow> gotime \<Rightarrow> invalidAuthAbuseEntry \<Rightarrow> invalidAuthAbuseEntry \<times> bool" where
  "entry_failure l now entry =
     (if ae_blockedUntil entry > now then (entry, False)
      else count_failure (al_threshold l) (al_block l)
             (ae_windowStart entry > now \<or> \<not> now < ae_windowStart entry + al_window l) now entry)"

definition recordOverflow :: "gotime \<Rightarrow> invalidAuthAbuseLimiter \<Rightarrow> invalidAuthAbuseLimiter" where
  "recordOverflow now l =
     (let l = l \<lparr> al_overflowed := al_overflowed l + 1 \<rparr>; ov = al_overflow l
      in if ae_blockedUntil ov > now then l
         else let (ov, started) = count_failure (al_threshold l) (al_block l)
                    (time_IsZero (ae_windowStart ov) \<or> \<not> now < ae_windowStart ov + al_window l) now ov
              in l \<lparr> al_overflow := ov, al_blocked := al_blocked l + (if started then 1 else 0) \<rparr>)"

definition checkOverflow :: "gotime \<Rightarrow> invalidAuthAbuseLimiter \<Rightarrow> duration \<times> bool" where
  "checkOverflow now l =
     (if ae_blockedUntil (al_overflow l) > now then (time_Sub (ae_blockedUntil (al_overflow l)) now, True)
      else (0, False))"

section \<open>The two operations\<close>

definition abuse_check :: "string \<Rightarrow> gotime \<Rightarrow> invalidAuthAbuseLimiter \<Rightarrow> (duration \<times> bool) \<times> invalidAuthAbuseLimiter" where
  "abuse_check clientKey now l =
     (if clientKey = [] then ((0, False), l)
      else let l = maybeCleanupAtCapacity now l; (entry, l) = live_entry clientKey now l
           in case entry of
                Some e \<Rightarrow>
                  if ae_blockedUntil e > now
                  then ((time_Sub (ae_blockedUntil e) now, True), l \<lparr> al_rejected := al_rejected l + 1 \<rparr>)
                  else ((0, False), l)
              | None \<Rightarrow>
                  if al_tracked l \<ge> al_capacity l \<and> snd (checkOverflow now l)
                  then (checkOverflow now l,
                        l \<lparr> al_rejected := al_rejected l + 1, al_globalBlocked := al_globalBlocked l + 1 \<rparr>)
                  else ((0, False), l))"

definition update_entry :: "string \<Rightarrow> gotime \<Rightarrow> invalidAuthAbuseEntry \<Rightarrow> invalidAuthAbuseLimiter \<Rightarrow> invalidAuthAbuseLimiter" where
  "update_entry clientKey now entry l =
     (let (entry, started) = entry_failure l now entry
      in (with_entries clientKey (AList.update clientKey entry (entries_of l clientKey)) l)
           \<lparr> al_blocked := al_blocked l + (if started then 1 else 0) \<rparr>)"

definition abuse_record :: "string \<Rightarrow> gotime \<Rightarrow> invalidAuthAbuseLimiter \<Rightarrow> invalidAuthAbuseLimiter" where
  "abuse_record clientKey now l =
     (if clientKey = [] then l
      else let l = l \<lparr> al_recorded := al_recorded l + 1 \<rparr>; l = maybeCleanupAtCapacity now l;
               (entry, l) = live_entry clientKey now l
           in case entry of
                Some e \<Rightarrow> update_entry clientKey now e l
              | None \<Rightarrow>
                  let (reserved, l) = reserveEntry l
                  in if \<not> reserved then recordOverflow now l
                     else update_entry clientKey now (zero_entry \<lparr> ae_windowStart := now \<rparr>) l)"

record InvalidAuthAbuseHealth =
  ah_Enabled :: bool
  ah_Tracked :: int
  ah_Capacity :: int
  ah_Recorded :: "64 word"
  ah_Blocks :: "64 word"
  ah_Rejected :: "64 word"
  ah_Expired :: "64 word"
  ah_Overflowed :: "64 word"
  ah_GlobalBlocked :: "64 word"

definition health :: "invalidAuthAbuseLimiter \<Rightarrow> InvalidAuthAbuseHealth" where
  "health l =
     \<lparr> ah_Enabled = True, ah_Tracked = al_tracked l, ah_Capacity = al_capacity l, ah_Recorded = al_recorded l,
       ah_Blocks = al_blocked l, ah_Rejected = al_rejected l, ah_Expired = al_expired l,
       ah_Overflowed = al_overflowed l, ah_GlobalBlocked = al_globalBlocked l \<rparr>"

text \<open>The service's entry points, for a limiter that may be missing.\<close>

definition CheckInvalidAuthAbuse ::
  "string \<Rightarrow> gotime \<Rightarrow> invalidAuthAbuseLimiter option \<Rightarrow> (duration \<times> bool) \<times> invalidAuthAbuseLimiter option" where
  "CheckInvalidAuthAbuse k now s =
     (case s of None \<Rightarrow> ((0, False), None) | Some l \<Rightarrow> let (res, l) = abuse_check k now l in (res, Some l))"

definition RecordInvalidAuthFailure ::
  "string \<Rightarrow> gotime \<Rightarrow> invalidAuthAbuseLimiter option \<Rightarrow> invalidAuthAbuseLimiter option" where
  "RecordInvalidAuthFailure k now s = map_option (abuse_record k now) s"

end
