(* ===== verification/Invalid_Auth_Proofs.thy ===== *)
theory Invalid_Auth_Proofs
  imports Invalid_Auth
begin

text \<open>
  What the limiter of failing clients promises, for every sequence of calls: a client that fails often
  enough within a window is refused for the whole block, and nobody is refused without such a burst of
  failures, of its own or, when the table is full, of all untracked clients together.
\<close>

section \<open>What an operation does to one client's entry\<close>

definition abuse_wf :: "invalidAuthAbuseLimiter \<Rightarrow> bool" where
  "abuse_wf l \<longleftrightarrow> length (al_shards l) = invalidAuthAbuseShardCount \<and> list_all gm_wf (al_shards l)"

definition entry_of :: "invalidAuthAbuseLimiter \<Rightarrow> string \<Rightarrow> invalidAuthAbuseEntry option" where
  "entry_of l k = map_of (entries_of l k) k"

definition config_of :: "invalidAuthAbuseLimiter \<Rightarrow> int \<times> duration \<times> duration \<times> int" where
  "config_of l = (al_threshold l, al_window l, al_block l, al_capacity l)"

lemma mod16_lt: "unat ((w :: 32 word) mod of_nat invalidAuthAbuseShardCount) < invalidAuthAbuseShardCount"
  by (simp add: invalidAuthAbuseShardCount_def unat_mod)

lemma shard_lt: "shard k < invalidAuthAbuseShardCount"
  unfolding shard_def Let_def by (rule mod16_lt)

lemma wf_entries: "abuse_wf l \<Longrightarrow> gm_wf (entries_of l k)"
  using shard_lt [of k] by (simp add: abuse_wf_def entries_of_def list_all_length)

lemma wf_put: "abuse_wf l \<Longrightarrow> gm_wf m \<Longrightarrow> list_all gm_wf ((al_shards l)[i := m])"
  unfolding abuse_wf_def list_all_iff using set_update_subset_insert [of "al_shards l" i m] by blast

lemma with_entries_wf: "abuse_wf l \<Longrightarrow> gm_wf m \<Longrightarrow> abuse_wf (with_entries k m l)"
  using wf_put [of l m "shard k"] by (simp add: abuse_wf_def with_entries_def)

lemma entries_put:
  "abuse_wf l \<Longrightarrow> i < invalidAuthAbuseShardCount \<Longrightarrow>
    (al_shards l)[i := m] ! shard k = (if shard k = i then m else entries_of l k)"
  by (simp add: abuse_wf_def entries_of_def nth_list_update)

lemma entry_of_with_entries:
  "abuse_wf l \<Longrightarrow> entry_of (with_entries k m l) k' = (if shard k' = shard k then map_of m k' else entry_of l k')"
  using entries_put [of l "shard k" m k'] shard_lt [of k]
  by (simp add: entry_of_def entries_of_def with_entries_def)

text \<open>The fields that none of these lemmas look at.\<close>

lemma entry_of_frame [simp]:
  "entry_of (l \<lparr> al_tracked := t \<rparr>) k = entry_of l k"
  "entry_of (l \<lparr> al_expired := w \<rparr>) k = entry_of l k"
  "entry_of (l \<lparr> al_recorded := w \<rparr>) k = entry_of l k"
  "entry_of (l \<lparr> al_blocked := w \<rparr>) k = entry_of l k"
  "entry_of (l \<lparr> al_rejected := w \<rparr>) k = entry_of l k"
  "entry_of (l \<lparr> al_globalBlocked := w \<rparr>) k = entry_of l k"
  "entry_of (l \<lparr> al_overflowed := w \<rparr>) k = entry_of l k"
  "entry_of (l \<lparr> al_overflow := e \<rparr>) k = entry_of l k"
  by (simp_all add: entry_of_def entries_of_def)

lemma abuse_wf_frame [simp]:
  "abuse_wf (l \<lparr> al_tracked := t \<rparr>) = abuse_wf l"
  "abuse_wf (l \<lparr> al_expired := w \<rparr>) = abuse_wf l"
  "abuse_wf (l \<lparr> al_recorded := w \<rparr>) = abuse_wf l"
  "abuse_wf (l \<lparr> al_blocked := w \<rparr>) = abuse_wf l"
  "abuse_wf (l \<lparr> al_rejected := w \<rparr>) = abuse_wf l"
  "abuse_wf (l \<lparr> al_globalBlocked := w \<rparr>) = abuse_wf l"
  "abuse_wf (l \<lparr> al_overflowed := w \<rparr>) = abuse_wf l"
  "abuse_wf (l \<lparr> al_overflow := e \<rparr>) = abuse_wf l"
  by (simp_all add: abuse_wf_def)

lemma entries_of_frame [simp]:
  "entries_of (l \<lparr> al_tracked := t \<rparr>) k = entries_of l k"
  "entries_of (l \<lparr> al_recorded := w \<rparr>) k = entries_of l k"
  by (simp_all add: entries_of_def)

lemma config_of_frame [simp]:
  "config_of (with_entries k m l) = config_of l"
  "config_of (l \<lparr> al_tracked := t \<rparr>) = config_of l"
  "config_of (l \<lparr> al_expired := w \<rparr>) = config_of l"
  "config_of (l \<lparr> al_recorded := w \<rparr>) = config_of l"
  "config_of (l \<lparr> al_blocked := w \<rparr>) = config_of l"
  "config_of (l \<lparr> al_rejected := w \<rparr>) = config_of l"
  "config_of (l \<lparr> al_globalBlocked := w \<rparr>) = config_of l"
  "config_of (l \<lparr> al_overflowed := w \<rparr>) = config_of l"
  "config_of (l \<lparr> al_overflow := e \<rparr>) = config_of l"
  by (simp_all add: config_of_def with_entries_def)

lemma cleanup_entry:
  assumes "abuse_wf l"
  shows "abuse_wf (maybeCleanupAtCapacity now l)" "config_of (maybeCleanupAtCapacity now l) = config_of l"
    "al_overflow (maybeCleanupAtCapacity now l) = al_overflow l"
    "al_tracked (maybeCleanupAtCapacity now l) \<le> al_tracked l"
    "entry_of (maybeCleanupAtCapacity now l) k = entry_of l k \<or>
     entry_of (maybeCleanupAtCapacity now l) k = None \<and> (\<exists>x. entry_of l k = Some x \<and> entryExpired (al_window l) x now)"
proof -
  let ?i = "unat (al_cleanupCursor l mod of_nat invalidAuthAbuseShardCount)"
  let ?kept = "filter (\<lambda>(_, e). \<not> entryExpired (al_window l) e now) (al_shards l ! ?i)"
  have i: "?i < invalidAuthAbuseShardCount" by (rule mod16_lt)
  have wf: "gm_wf (al_shards l ! ?i)" using assms i by (simp add: abuse_wf_def list_all_length)
  show "abuse_wf (maybeCleanupAtCapacity now l)"
    using wf_put [OF assms gm_wf_filter [OF wf], of ?i] assms
    by (auto simp: maybeCleanupAtCapacity_def abuse_wf_def Let_def)
  show "config_of (maybeCleanupAtCapacity now l) = config_of l"
    "al_overflow (maybeCleanupAtCapacity now l) = al_overflow l"
    "al_tracked (maybeCleanupAtCapacity now l) \<le> al_tracked l"
    by (simp_all add: maybeCleanupAtCapacity_def config_of_def Let_def)
  have "map_of ?kept k = entry_of l k \<or>
      map_of ?kept k = None \<and> (\<exists>x. entry_of l k = Some x \<and> entryExpired (al_window l) x now)" if "shard k = ?i"
    using map_of_filter_wf [OF wf, of "\<lambda>(_, e). \<not> entryExpired (al_window l) e now" k] that
    by (auto simp: entry_of_def entries_of_def split: option.splits)
  then show "entry_of (maybeCleanupAtCapacity now l) k = entry_of l k \<or>
     entry_of (maybeCleanupAtCapacity now l) k = None \<and> (\<exists>x. entry_of l k = Some x \<and> entryExpired (al_window l) x now)"
    using entries_put [OF assms i, of ?kept k]
    by (auto simp: maybeCleanupAtCapacity_def entry_of_def entries_of_def Let_def)
qed

definition live :: "invalidAuthAbuseLimiter \<Rightarrow> string \<Rightarrow> gotime \<Rightarrow> invalidAuthAbuseEntry option" where
  "live l k now =
     (case entry_of l k of None \<Rightarrow> None | Some e \<Rightarrow> if entryExpired (al_window l) e now then None else Some e)"

lemma live_entry_entry:
  assumes "abuse_wf l" "live_entry k now l = (e, l')"
  shows "e = live l k now" "abuse_wf l'" "config_of l' = config_of l" "al_overflow l' = al_overflow l"
    "al_tracked l' \<le> al_tracked l" "entry_of l' k = live l k now" "k' \<noteq> k \<Longrightarrow> entry_of l' k' = entry_of l k'"
proof -
  have wf: "abuse_wf (with_entries k (AList.delete k (entries_of l k)) l)"
    using with_entries_wf [OF assms(1) gm_wf_delete [OF wf_entries [OF assms(1)]]] by blast
  note defs = live_entry_def live_def entry_of_def [symmetric]
  show "e = live l k now" "abuse_wf l'" "config_of l' = config_of l" "al_tracked l' \<le> al_tracked l"
    using assms wf by (auto simp: defs split: option.splits if_splits)
  show "al_overflow l' = al_overflow l"
    using assms(2) by (auto simp: defs with_entries_def split: option.splits if_splits)
  show "entry_of l' k = live l k now"
    using assms by (auto simp: defs entry_of_with_entries split: option.splits if_splits)
  show "entry_of l' k' = entry_of l k'" if "k' \<noteq> k"
  proof -
    have "entry_of (with_entries k (AList.delete k (entries_of l k)) l) k' = entry_of l k'"
      using entry_of_with_entries [OF assms(1), of k "AList.delete k (entries_of l k)" k'] that
      by (simp add: entry_of_def entries_of_def)
    then show ?thesis using assms(2) by (auto simp: defs split: option.splits if_splits)
  qed
qed

lemma update_entry_entry:
  assumes "abuse_wf l"
  shows "abuse_wf (update_entry k now e l)" "config_of (update_entry k now e l) = config_of l"
    "al_overflow (update_entry k now e l) = al_overflow l"
    "entry_of (update_entry k now e l) k' = (if k' = k then Some (fst (entry_failure l now e)) else entry_of l k')"
proof -
  obtain e' b where e': "entry_failure l now e = (e', b)" by (cases "entry_failure l now e")
  let ?m = "AList.update k e' (entries_of l k)"
  show "abuse_wf (update_entry k now e l)"
    using with_entries_wf [OF assms gm_wf_update [OF wf_entries [OF assms]]] by (simp add: update_entry_def e')
  show "config_of (update_entry k now e l) = config_of l" by (simp add: update_entry_def e')
  show "al_overflow (update_entry k now e l) = al_overflow l" by (simp add: update_entry_def e' with_entries_def)
  show "entry_of (update_entry k now e l) k' = (if k' = k then Some (fst (entry_failure l now e)) else entry_of l k')"
    using entry_of_with_entries [OF assms, of k ?m k'] by (simp add: update_entry_def e' entry_of_def entries_of_def)
qed

lemma recordOverflow_entry:
  "abuse_wf (recordOverflow now l) = abuse_wf l" "config_of (recordOverflow now l) = config_of l"
  "entry_of (recordOverflow now l) k = entry_of l k"
  by (simp_all add: recordOverflow_def Let_def split: prod.split)

section \<open>Calls\<close>

datatype auth_event =
    Failure string gotime
  | Question string gotime

primrec event_time :: "auth_event \<Rightarrow> gotime" where
  "event_time (Failure k t) = t"
| "event_time (Question k t) = t"

primrec event_apply :: "auth_event \<Rightarrow> invalidAuthAbuseLimiter \<Rightarrow> invalidAuthAbuseLimiter" where
  "event_apply (Failure k t) l = abuse_record k t l"
| "event_apply (Question k t) l = snd (abuse_check k t l)"

definition abuse_run :: "auth_event list \<Rightarrow> invalidAuthAbuseLimiter \<Rightarrow> invalidAuthAbuseLimiter" where
  "abuse_run es l = fold event_apply es l"

text \<open>The entry a failure of \<open>k\<close> counts in: the live one, or a new one.\<close>

definition counted :: "invalidAuthAbuseLimiter \<Rightarrow> string \<Rightarrow> gotime \<Rightarrow> invalidAuthAbuseEntry" where
  "counted l k now = (case live l k now of Some e \<Rightarrow> e | None \<Rightarrow> zero_entry \<lparr> ae_windowStart := now \<rparr>)"

lemma entry_failure_config: "config_of l = config_of l' \<Longrightarrow> entry_failure l = entry_failure l'"
  by (simp add: fun_eq_iff entry_failure_def config_of_def)

lemma cleaned:
  assumes "abuse_wf l" "live_entry k now (maybeCleanupAtCapacity now l) = (e, l')"
  shows "e = live l k now" "abuse_wf l'" "config_of l' = config_of l" "al_overflow l' = al_overflow l"
    "al_tracked l' \<le> al_tracked l" "entry_of l' k = live l k now"
    "k' \<noteq> k \<Longrightarrow> entry_of l' k' = entry_of l k' \<or>
       entry_of l' k' = None \<and> (\<exists>x. entry_of l k' = Some x \<and> entryExpired (al_window l) x now)"
proof -
  note c = cleanup_entry [OF assms(1), of now]
  note e = live_entry_entry [OF c(1) assms(2)]
  have w: "al_window (maybeCleanupAtCapacity now l) = al_window l" using c(2) by (simp add: config_of_def)
  have "live (maybeCleanupAtCapacity now l) k now = live l k now"
    using c(5) [of k] unfolding live_def w by (elim disjE conjE exE) simp_all
  then show "e = live l k now" "entry_of l' k = live l k now" using e(1,6) by simp_all
  show "abuse_wf l'" "config_of l' = config_of l" "al_overflow l' = al_overflow l" "al_tracked l' \<le> al_tracked l"
    using e(2-5) c(2-4) by simp_all
  show "entry_of l' k' = entry_of l k' \<or>
       entry_of l' k' = None \<and> (\<exists>x. entry_of l k' = Some x \<and> entryExpired (al_window l) x now)" if "k' \<noteq> k"
    using e(7) [OF that] c(5) [of k'] by simp
qed

text \<open>
  The one lemma the theorems below rest on: a call leaves another client's entry alone unless it has
  expired; a question does the same to the client's own; a failure counts, or finds no room.
\<close>

lemma record_cases:
  assumes "abuse_wf l" "k \<noteq> []"
  obtains (counts) "abuse_wf (abuse_record k now l)" "config_of (abuse_record k now l) = config_of l"
      "al_overflow (abuse_record k now l) = al_overflow l"
      "entry_of (abuse_record k now l) k = Some (fst (entry_failure l now (counted l k now)))"
      "\<And>k'. k' \<noteq> k \<Longrightarrow> entry_of (abuse_record k now l) k' = entry_of l k' \<or> entry_of (abuse_record k now l) k' = None \<and>
         (\<exists>x. entry_of l k' = Some x \<and> entryExpired (al_window l) x now)"
  | (full) l' where "abuse_record k now l = recordOverflow now l'" "abuse_wf l'" "config_of l' = config_of l"
      "al_overflow l' = al_overflow l" "live l k now = None" "al_tracked l' \<ge> al_capacity l" "al_tracked l' \<le> al_tracked l"
      "entry_of l' k = None"
      "\<And>k'. k' \<noteq> k \<Longrightarrow> entry_of l' k' = entry_of l k' \<or> entry_of l' k' = None \<and>
         (\<exists>x. entry_of l k' = Some x \<and> entryExpired (al_window l) x now)"
proof -
  let ?l = "l \<lparr> al_recorded := al_recorded l + 1 \<rparr>"
  obtain e l' where e: "live_entry k now (maybeCleanupAtCapacity now ?l) = (e, l')"
    by (cases "live_entry k now (maybeCleanupAtCapacity now ?l)")
  have live_eq: "live ?l k now = live l k now" by (simp add: live_def split: option.split)
  have c: "e = live l k now" "abuse_wf l'" "config_of l' = config_of l" "al_overflow l' = al_overflow l"
      "al_tracked l' \<le> al_tracked l" "entry_of l' k = live l k now"
      "\<And>k'. k' \<noteq> k \<Longrightarrow> entry_of l' k' = entry_of l k' \<or>
        entry_of l' k' = None \<and> (\<exists>x. entry_of l k' = Some x \<and> entryExpired (al_window l) x now)"
    using cleaned [of ?l k now e l'] e assms(1) live_eq by simp_all
  have rec: "abuse_record k now l = (case e of Some x \<Rightarrow> update_entry k now x l'
      | None \<Rightarrow> if al_tracked l' \<ge> al_capacity l' then recordOverflow now l'
          else update_entry k now (zero_entry \<lparr> ae_windowStart := now \<rparr>) (l' \<lparr> al_tracked := al_tracked l' + 1 \<rparr>))"
    using assms(2) e by (simp add: abuse_record_def reserveEntry_def Let_def split: option.split)
  have cap: "al_capacity l' = al_capacity l" using c(3) by (simp add: config_of_def)
  show thesis
  proof (cases "e = None \<and> al_tracked l' \<ge> al_capacity l'")
    case True
    show thesis by (rule full [of l']) (use True c rec cap in auto)
  next
    case False
    have "\<exists>t. abuse_record k now l = update_entry k now (counted l k now) (l' \<lparr> al_tracked := t \<rparr>)"
    proof (cases e)
      case None
      then show ?thesis using False rec c(1) [symmetric] by (auto simp: counted_def)
    next
      case (Some x)
      then have "abuse_record k now l = update_entry k now (counted l k now) (l' \<lparr> al_tracked := al_tracked l' \<rparr>)"
        using rec c(1) [symmetric] by (simp add: counted_def)
      then show ?thesis ..
    qed
    then obtain t where r: "abuse_record k now l = update_entry k now (counted l k now) (l' \<lparr> al_tracked := t \<rparr>)" ..
    note u = update_entry_entry [of "l' \<lparr> al_tracked := t \<rparr>" k now "counted l k now"]
    have ef: "entry_failure (l' \<lparr> al_tracked := t \<rparr>) = entry_failure l"
      by (rule entry_failure_config) (simp add: c(3))
    show thesis
      by (rule counts) (use u c(2-4) c(7) in \<open>simp_all add: r ef\<close>)
  qed
qed

definition unless_expired ::
  "gotime \<Rightarrow> invalidAuthAbuseLimiter \<Rightarrow> invalidAuthAbuseLimiter \<Rightarrow> string \<Rightarrow> bool" where
  "unless_expired now l l' k \<longleftrightarrow> entry_of l' k = entry_of l k \<or>
     entry_of l' k = None \<and> (\<exists>x. entry_of l k = Some x \<and> entryExpired (al_window l) x now)"

lemma check_effect:
  assumes "abuse_wf l"
  shows "abuse_wf (snd (abuse_check k now l))" "config_of (snd (abuse_check k now l)) = config_of l"
    "al_overflow (snd (abuse_check k now l)) = al_overflow l" "unless_expired now l (snd (abuse_check k now l)) k'"
proof -
  obtain e l' where e: "live_entry k now (maybeCleanupAtCapacity now l) = (e, l')"
    by (cases "live_entry k now (maybeCleanupAtCapacity now l)")
  note c = cleaned [OF assms e]
  obtain a b where r: "k \<noteq> [] \<Longrightarrow> snd (abuse_check k now l) = l' \<lparr> al_rejected := a, al_globalBlocked := b \<rparr>"
  proof
    show "snd (abuse_check k now l) = l' \<lparr> al_rejected := al_rejected (snd (abuse_check k now l)),
        al_globalBlocked := al_globalBlocked (snd (abuse_check k now l)) \<rparr>" if "k \<noteq> []"
      using that e by (simp add: abuse_check_def Let_def split: option.split)
  qed
  have "unless_expired now l l' k'"
  proof (cases "k' = k")
    case True
    then show ?thesis using c(6) by (auto simp: unless_expired_def live_def split: option.splits)
  next
    case False
    then show ?thesis using c(7) by (simp add: unless_expired_def)
  qed
  then show "unless_expired now l (snd (abuse_check k now l)) k'"
    using r by (cases "k = []") (simp_all add: abuse_check_def [of "[]"] unless_expired_def)
  show "abuse_wf (snd (abuse_check k now l))" "config_of (snd (abuse_check k now l)) = config_of l"
    "al_overflow (snd (abuse_check k now l)) = al_overflow l"
    using r c(2-4) assms by (cases "k = []"; simp add: abuse_check_def [of "[]"])+
qed

lemma check_result:
  assumes "abuse_wf l" "k \<noteq> []"
  shows "live l k now = Some e \<Longrightarrow> fst (abuse_check k now l) =
      (if ae_blockedUntil e > now then (time_Sub (ae_blockedUntil e) now, True) else (0, False))"
    and "live l k now = None \<Longrightarrow> fst (abuse_check k now l) = (d, True) \<Longrightarrow>
      al_tracked l \<ge> al_capacity l \<and> ae_blockedUntil (al_overflow l) > now \<and>
      d = time_Sub (ae_blockedUntil (al_overflow l)) now"
proof -
  obtain e' l' where e': "live_entry k now (maybeCleanupAtCapacity now l) = (e', l')"
    by (cases "live_entry k now (maybeCleanupAtCapacity now l)")
  note c = cleaned [OF assms(1) e']
  show "fst (abuse_check k now l) =
      (if ae_blockedUntil e > now then (time_Sub (ae_blockedUntil e) now, True) else (0, False))" if "live l k now = Some e"
    using that c(1) assms(2) by (simp add: abuse_check_def e')
  show "al_tracked l \<ge> al_capacity l \<and> ae_blockedUntil (al_overflow l) > now \<and>
      d = time_Sub (ae_blockedUntil (al_overflow l)) now"
    if "live l k now = None" "fst (abuse_check k now l) = (d, True)"
    using that c(1,3,4,5) assms(2)
    by (auto simp: abuse_check_def e' checkOverflow_def config_of_def split: if_splits)
qed

primrec fails :: "string \<Rightarrow> auth_event \<Rightarrow> bool" where
  "fails k (Failure k' t) \<longleftrightarrow> k' = k"
| "fails k (Question k' t) \<longleftrightarrow> False"

lemma apply_effect:
  assumes "abuse_wf l"
  shows "abuse_wf (event_apply ev l)" "config_of (event_apply ev l) = config_of l"
    "\<not> fails k ev \<Longrightarrow> unless_expired (event_time ev) l (event_apply ev l) k"
proof -
  have "abuse_wf (event_apply ev l) \<and> config_of (event_apply ev l) = config_of l \<and>
      (\<not> fails k ev \<longrightarrow> unless_expired (event_time ev) l (event_apply ev l) k)"
  proof (cases ev)
    case (Question q t)
    then show ?thesis using check_effect [OF assms] by simp
  next
    case (Failure q t)
    show ?thesis
    proof (cases "q = []")
      case True
      then show ?thesis using assms by (simp add: Failure abuse_record_def unless_expired_def)
    next
      case False
      show ?thesis
        by (rule record_cases [OF assms False, of t])
          (auto simp: Failure recordOverflow_entry unless_expired_def)
    qed
  qed
  then show "abuse_wf (event_apply ev l)" "config_of (event_apply ev l) = config_of l"
    "\<not> fails k ev \<Longrightarrow> unless_expired (event_time ev) l (event_apply ev l) k" by simp_all
qed

lemma run_wf: "abuse_wf l \<Longrightarrow> abuse_wf (abuse_run es l) \<and> config_of (abuse_run es l) = config_of l"
  by (induction es arbitrary: l) (auto simp: abuse_run_def apply_effect)

lemma live_kept:
  assumes "abuse_wf l" "entry_of l k = Some x" "\<not> entryExpired (al_window l) x (event_time ev)" "\<not> fails k ev"
  shows "entry_of (event_apply ev l) k = Some x"
  using apply_effect(3) [OF assms(1,4)] assms(2,3) by (auto simp: unless_expired_def)

lemma failure_counts:
  assumes "abuse_wf l" "k \<noteq> []" "live l k now \<noteq> None \<or> al_tracked l < al_capacity l"
  shows "entry_of (event_apply (Failure k now) l) k = Some (fst (entry_failure l now (counted l k now)))"
  by (rule record_cases [OF assms(1,2), of now]) (use assms(3) in auto)

section \<open>A burst of failures is refused\<close>

definition own_failures :: "string \<Rightarrow> auth_event list \<Rightarrow> int" where
  "own_failures k es = int (length (filter (fails k) es))"

definition counting :: "int \<Rightarrow> gotime \<Rightarrow> invalidAuthAbuseEntry" where
  "counting j s = \<lparr> ae_failures = j, ae_windowStart = s, ae_blockedUntil = time_zero \<rparr>"

definition blocking :: "gotime \<Rightarrow> invalidAuthAbuseEntry" where
  "blocking b = \<lparr> ae_failures = 0, ae_windowStart = b, ae_blockedUntil = b \<rparr>"

lemma counting_not_expired: "s \<le> now \<Longrightarrow> now < s + window \<Longrightarrow> \<not> entryExpired window (counting j s) now"
  by (simp add: entryExpired_def counting_def)

lemma blocking_not_expired: "now < b \<Longrightarrow> \<not> entryExpired window (blocking b) now"
  by (simp add: entryExpired_def blocking_def)

lemma count_once:
  assumes "0 \<le> s" "s \<le> now" "now < s + al_window l"
  shows "fst (entry_failure l now (counting j s)) =
    (if j + 1 \<ge> al_threshold l then blocking (now + al_block l) else counting (j + 1) s)"
  using assms by (simp add: entry_failure_def count_failure_def counting_def blocking_def)

lemma counted_live: "live l k now = Some x \<Longrightarrow> counted l k now = x"
  by (simp add: counted_def)

lemma live_Some: "entry_of l k = Some x \<Longrightarrow> \<not> entryExpired (al_window l) x now \<Longrightarrow> live l k now = Some x"
  by (simp add: live_def)

lemma run_counting:
  assumes "abuse_wf l" "k \<noteq> []" "entry_of l k = Some (counting j s)" "0 \<le> s"
    and "\<forall>ev \<in> set es. s \<le> event_time ev \<and> event_time ev < s + al_window l" "j + own_failures k es < al_threshold l"
  shows "entry_of (abuse_run es l) k = Some (counting (j + own_failures k es) s)"
  using assms
proof (induction es arbitrary: l j)
  case Nil
  then show ?case by (simp add: abuse_run_def own_failures_def)
next
  case (Cons ev es)
  let ?l = "event_apply ev l" and ?t = "event_time ev"
  have t: "s \<le> ?t" "?t < s + al_window l" using Cons.prems(5) by simp_all
  have cfg: "al_window ?l = al_window l" "al_threshold ?l = al_threshold l"
    using apply_effect(2) [OF Cons.prems(1), of ev] by (simp_all add: config_of_def)
  note alive = live_Some [OF Cons.prems(3) counting_not_expired [OF t]]
  have own: "own_failures k (ev # es) = (if fails k ev then 1 else 0) + own_failures k es"
    by (simp add: own_failures_def)
  have nn: "0 \<le> own_failures k es" by (simp add: own_failures_def)
  have "entry_of ?l k = Some (counting (j + (if fails k ev then 1 else 0)) s)"
  proof (cases "fails k ev")
    case True
    then have ev: "ev = Failure k ?t" by (cases ev) auto
    have "entry_of ?l k = Some (fst (entry_failure l ?t (counted l k ?t)))"
      using failure_counts [OF Cons.prems(1,2), of ?t] alive ev by simp
    then show ?thesis
      using True own nn Cons.prems(6) count_once [OF Cons.prems(4) t, of j] counted_live [OF alive] by simp
  next
    case False
    then show ?thesis using live_kept [OF Cons.prems(1,3) counting_not_expired [OF t]] by simp
  qed
  from Cons.IH [OF apply_effect(1) [OF Cons.prems(1)] Cons.prems(2) this Cons.prems(4)]
  show ?case using Cons.prems(5,6) by (simp add: abuse_run_def own cfg add.assoc)
qed

lemma run_blocking:
  assumes "abuse_wf l" "k \<noteq> []" "entry_of l k = Some (blocking b)" "\<forall>ev \<in> set es. event_time ev < b"
  shows "entry_of (abuse_run es l) k = Some (blocking b)"
  using assms
proof (induction es arbitrary: l)
  case Nil
  then show ?case by (simp add: abuse_run_def)
next
  case (Cons ev es)
  let ?t = "event_time ev"
  have t: "?t < b" using Cons.prems(4) by simp
  note alive = live_Some [OF Cons.prems(3) blocking_not_expired [OF t]]
  have "entry_of (event_apply ev l) k = Some (blocking b)"
  proof (cases "fails k ev")
    case True
    then have ev: "ev = Failure k ?t" by (cases ev) auto
    have "entry_of (event_apply ev l) k = Some (fst (entry_failure l ?t (counted l k ?t)))"
      using failure_counts [OF Cons.prems(1,2), of ?t] alive ev by simp
    then show ?thesis using counted_live [OF alive] t by (simp add: entry_failure_def blocking_def)
  next
    case False
    then show ?thesis using live_kept [OF Cons.prems(1,3) blocking_not_expired [OF t]] by simp
  qed
  from Cons.IH [OF apply_effect(1) [OF Cons.prems(1)] Cons.prems(2) this] Cons.prems(4)
  show ?case by (simp add: abuse_run_def)
qed

lemma burst_blocks:
  assumes "abuse_wf l" "k \<noteq> []" "live l k s = None" "al_tracked l < al_capacity l" "0 \<le> s"
    and "1 \<le> al_threshold l" "hd (es @ [Failure k n]) = Failure k s"
    and "\<forall>ev \<in> set (es @ [Failure k n]). s \<le> event_time ev \<and> event_time ev < s + al_window l"
    and "own_failures k (es @ [Failure k n]) = al_threshold l"
  shows "entry_of (abuse_run (es @ [Failure k n]) l) k = Some (blocking (n + al_block l))"
proof -
  have n: "s \<le> n" "n < s + al_window l" using assms(8) by simp_all
  have first: "entry_of (event_apply (Failure k s) l) k =
      Some (if 1 \<ge> al_threshold l then blocking (s + al_block l) else counting 1 s)"
  proof -
    have "counted l k s = counting 0 s" using assms(3) by (simp add: counted_def counting_def zero_entry_def)
    then show ?thesis
      using failure_counts [OF assms(1,2), of s] assms(4,5) count_once [of s s l 0] n by simp
  qed
  show ?thesis
  proof (cases es)
    case Nil
    then show ?thesis using first assms(6,7,9) by (simp add: abuse_run_def own_failures_def)
  next
    case (Cons ev mid)
    let ?l = "event_apply (Failure k s) l"
    have ev: "ev = Failure k s" using assms(7) Cons by simp
    have own: "2 + own_failures k mid = al_threshold l" using assms(9) by (simp add: own_failures_def Cons ev)
    then have th: "\<not> 1 \<ge> al_threshold l" by (simp add: own_failures_def)
    have cfg: "al_window ?l = al_window l" "al_threshold ?l = al_threshold l" "al_block ?l = al_block l"
      using apply_effect(2) [OF assms(1), of "Failure k s"] by (simp_all add: config_of_def)
    have wf: "abuse_wf ?l" by (rule apply_effect(1) [OF assms(1)])
    let ?m = "abuse_run mid ?l"
    have m: "entry_of ?m k = Some (counting (1 + own_failures k mid) s)"
      by (rule run_counting [OF wf assms(2)]) (use first th assms(5,8) own cfg Cons in auto)
    have mwf: "abuse_wf ?m" "config_of ?m = config_of l"
      using run_wf [OF wf, of mid] apply_effect(2) [OF assms(1), of "Failure k s"] by simp_all
    have mcfg: "al_window ?m = al_window l" "al_threshold ?m = al_threshold l" "al_block ?m = al_block l"
      using mwf(2) by (simp_all add: config_of_def)
    have alive: "live ?m k n = Some (counting (1 + own_failures k mid) s)"
      by (rule live_Some [OF m counting_not_expired]) (use n mcfg in simp_all)
    have "entry_of (event_apply (Failure k n) ?m) k = Some (blocking (n + al_block l))"
      using failure_counts [OF mwf(1) assms(2), of n] alive counted_live [OF alive]
        count_once [of s n ?m "1 + own_failures k mid"] assms(5) n own mcfg by simp
    then show ?thesis by (simp add: Cons ev abuse_run_def)
  qed
qed

text \<open>
  Property C20 (functional). Suppose that a client has no live entry (it is neither being counted nor blocked) when
  its first failure comes, and that the table has room at that moment. If it then fails as often as the
  threshold, that first failure included, before the window that the first failure opened is over,
  whatever other clients do in between, it is refused from the last of these failures until the
  block has passed: every question in that time is answered with the time left, no matter
  which calls of this or other clients come in between, cleanups of the table included. Both
  conditions are needed: the window is a fixed one that starts at the first counted failure, so
  failures that straddle the end of an older window are counted in two, and a client that finds the
  table full is counted in the shared overflow entry and not by itself.
\<close>

theorem burst_refused:
  assumes "abuse_wf l" "k \<noteq> []" "live l k s = None" "al_tracked l < al_capacity l" "0 \<le> s" "1 \<le> al_threshold l"
    and "hd (es @ [Failure k n]) = Failure k s" "own_failures k (es @ [Failure k n]) = al_threshold l"
    and "\<forall>ev \<in> set (es @ [Failure k n]). s \<le> event_time ev \<and> event_time ev < s + al_window l"
    and "\<forall>ev \<in> set later. event_time ev < n + al_block l" "now < n + al_block l"
  shows "fst (abuse_check k now (abuse_run (es @ Failure k n # later) l)) = (time_Sub (n + al_block l) now, True)"
proof -
  let ?l = "abuse_run (es @ [Failure k n]) l"
  note run = run_wf [OF assms(1)]
  have "entry_of (abuse_run later ?l) k = Some (blocking (n + al_block l))"
    by (rule run_blocking [OF conjunct1 [OF run] assms(2) burst_blocks [OF assms(1-6,7,9,8)] assms(10)])
  moreover have "abuse_run (es @ Failure k n # later) l = abuse_run later ?l" by (simp add: abuse_run_def)
  ultimately have e: "entry_of (abuse_run (es @ Failure k n # later) l) k = Some (blocking (n + al_block l))" by simp
  show ?thesis
    using check_result(1) [OF conjunct1 [OF run] assms(2) live_Some [OF e blocking_not_expired [OF assms(11)]]] assms(11)
    by (simp add: blocking_def)
qed

definition example_limiter :: invalidAuthAbuseLimiter where
  "example_limiter = the (newInvalidAuthAbuseLimiter (Some \<lparr> ac_Enabled = True, ac_Threshold = 3, ac_WindowSeconds = 60,
     ac_BlockSeconds = 300, ac_Capacity = 2 \<rparr>))"

theorem burst_refused_witness:
  "fst (abuse_check ''10.0.0.1'' (63000000005 * Second) (abuse_run
     ([Failure ''10.0.0.1'' (63000000000 * Second), Question ''10.0.0.1'' (63000000001 * Second),
       Failure ''10.0.0.2'' (63000000001 * Second), Failure ''10.0.0.1'' (63000000002 * Second)] @
      Failure ''10.0.0.1'' (63000000003 * Second) # [Failure ''10.0.0.3'' (63000000004 * Second)]) example_limiter)) =
   (298 * Second, True)"
proof -
  have l: "abuse_wf example_limiter" "live example_limiter ''10.0.0.1'' (63000000000 * Second) = None"
    "al_tracked example_limiter = 0" "al_capacity example_limiter = 2" "al_threshold example_limiter = 3"
    "al_window example_limiter = 60000000000" "al_block example_limiter = 300000000000" by code_simp+
  have sub: "time_Sub 63000000303000000000 63000000005000000000 = 298000000000" by code_simp
  show ?thesis
    using burst_refused [OF l(1) _ l(2), of "[Failure ''10.0.0.1'' (63000000000 * Second),
        Question ''10.0.0.1'' (63000000001 * Second), Failure ''10.0.0.2'' (63000000001 * Second),
        Failure ''10.0.0.1'' (63000000002 * Second)]" "63000000003 * Second"
        "[Failure ''10.0.0.3'' (63000000004 * Second)]" "63000000005 * Second"]
    by (simp add: l(3-) own_failures_def sub Second_def)
qed

section \<open>Nobody is refused without a burst\<close>

primrec any_failure :: "auth_event \<Rightarrow> bool" where
  "any_failure (Failure k t) \<longleftrightarrow> True"
| "any_failure (Question k t) \<longleftrightarrow> False"

definition in_window :: "(auth_event \<Rightarrow> bool) \<Rightarrow> duration \<Rightarrow> auth_event list \<Rightarrow> gotime \<Rightarrow> int" where
  "in_window P w es s = int (length (filter (\<lambda>ev. P ev \<and> s \<le> event_time ev \<and> event_time ev < s + w) es))"

text \<open>At time \<open>n\<close> some window holds \<open>threshold\<close> failures.\<close>

definition burst_at :: "(auth_event \<Rightarrow> bool) \<Rightarrow> int \<Rightarrow> duration \<Rightarrow> auth_event list \<Rightarrow> gotime \<Rightarrow> bool" where
  "burst_at P threshold w es n \<longleftrightarrow> (\<exists>s. s \<le> n \<and> n < s + w \<and> threshold \<le> in_window P w es s)"

text \<open>A counter is backed by the failures that were recorded.\<close>

definition backed ::
  "invalidAuthAbuseLimiter \<Rightarrow> (auth_event \<Rightarrow> bool) \<Rightarrow> auth_event list \<Rightarrow> invalidAuthAbuseEntry \<Rightarrow> bool" where
  "backed l P es e \<longleftrightarrow> ae_failures e \<le> in_window P (al_window l) es (ae_windowStart e) \<and>
     (ae_blockedUntil e = time_zero \<or>
      (\<exists>n. ae_blockedUntil e = n + al_block l \<and> burst_at P (al_threshold l) (al_window l) es n))"

lemma in_window_snoc:
  "in_window P w (es @ [ev]) s =
     in_window P w es s + (if P ev \<and> s \<le> event_time ev \<and> event_time ev < s + w then 1 else 0)"
  by (simp add: in_window_def)

lemma burst_at_snoc: "burst_at P threshold w es n \<Longrightarrow> burst_at P threshold w (es @ [ev]) n"
  by (force simp: burst_at_def in_window_snoc)

lemma backed_snoc: "backed l P es e \<Longrightarrow> backed l P (es @ [ev]) e"
  by (force simp: backed_def in_window_snoc intro: burst_at_snoc)

lemma backed_fresh: "backed l P es (zero_entry \<lparr> ae_windowStart := s \<rparr>)"
  by (simp add: backed_def zero_entry_def in_window_def)

lemma count_failure_backed:
  assumes "backed l P es e" "P ev" "event_time ev = now" "0 < al_window l"
    and "stale \<or> (ae_windowStart e \<le> now \<and> now < ae_windowStart e + al_window l)"
  shows "backed l P (es @ [ev]) (fst (count_failure (al_threshold l) (al_block l) stale now e))"
proof -
  define s where "s = (if stale then now else ae_windowStart e)"
  define j where "j = (if stale then 0 else ae_failures e)"
  have s: "s \<le> now" "now < s + al_window l" using assms(4,5) by (auto simp: s_def)
  have "j \<le> in_window P (al_window l) es s"
    using assms(1) by (simp add: j_def s_def backed_def in_window_def)
  then have count: "j + 1 \<le> in_window P (al_window l) (es @ [ev]) s"
    using assms(2,3) s by (simp add: in_window_snoc)
  have cf: "fst (count_failure (al_threshold l) (al_block l) stale now e) =
      (if j + 1 \<ge> al_threshold l then blocking (now + al_block l)
       else e \<lparr> ae_windowStart := s, ae_failures := j + 1 \<rparr>)"
    by (simp add: count_failure_def j_def s_def blocking_def Let_def)
  show ?thesis
  proof (cases "j + 1 \<ge> al_threshold l")
    case True
    have "burst_at P (al_threshold l) (al_window l) (es @ [ev]) now"
      unfolding burst_at_def using s count True by (intro exI [of _ s]) simp
    then show ?thesis using True unfolding cf by (auto simp: backed_def blocking_def in_window_def)
  next
    case False
    then show ?thesis
      using count backed_snoc [OF assms(1), of ev] unfolding cf by (simp add: backed_def)
  qed
qed

lemma backed_config: "config_of l = config_of l' \<Longrightarrow> backed l = backed l'"
  by (simp add: fun_eq_iff backed_def config_of_def)

definition history :: "auth_event list \<Rightarrow> invalidAuthAbuseLimiter \<Rightarrow> bool" where
  "history es l \<longleftrightarrow> (\<forall>k e. entry_of l k = Some e \<longrightarrow> backed l (fails k) es e) \<and> backed l any_failure es (al_overflow l) \<and>
     (ae_windowStart (al_overflow l) = time_zero \<or> ae_windowStart (al_overflow l) = ae_blockedUntil (al_overflow l) \<or>
      ae_windowStart (al_overflow l) \<in> event_time ` set es)"

lemma entry_failure_backed:
  assumes "backed l (fails k) es e" "0 < al_window l"
  shows "backed l (fails k) (es @ [Failure k now]) (fst (entry_failure l now e))"
proof (cases "ae_blockedUntil e > now")
  case True
  then show ?thesis using backed_snoc [OF assms(1)] by (simp add: entry_failure_def)
next
  case False
  then show ?thesis
    unfolding entry_failure_def by (simp, intro count_failure_backed [OF assms(1) _ _ assms(2)]) auto
qed

lemma recordOverflow_overflow:
  "al_overflow (recordOverflow now l) =
     (if ae_blockedUntil (al_overflow l) > now then al_overflow l
      else fst (count_failure (al_threshold l) (al_block l) (time_IsZero (ae_windowStart (al_overflow l)) \<or>
        \<not> now < ae_windowStart (al_overflow l) + al_window l) now (al_overflow l)))"
  by (simp add: recordOverflow_def Let_def split: prod.split)

lemma overflow_backed:
  assumes "history es l" "0 < al_window l" "\<forall>ev \<in> set es. event_time ev \<le> now"
  shows "backed l any_failure (es @ [Failure k now]) (al_overflow (recordOverflow now l)) \<and>
    (let ov = al_overflow (recordOverflow now l)
     in ae_windowStart ov = time_zero \<or> ae_windowStart ov = ae_blockedUntil ov \<or>
        ae_windowStart ov \<in> event_time ` set (es @ [Failure k now]))"
proof -
  let ?o = "al_overflow l"
  let ?stale = "time_IsZero (ae_windowStart ?o) \<or> \<not> now < ae_windowStart ?o + al_window l"
  have o: "backed l any_failure es ?o" "ae_windowStart ?o = time_zero \<or> ae_windowStart ?o = ae_blockedUntil ?o \<or>
      ae_windowStart ?o \<in> event_time ` set es" using assms(1) by (simp_all add: history_def)
  show ?thesis
  proof (cases "ae_blockedUntil ?o > now")
    case True
    then show ?thesis using o backed_snoc [OF o(1)] by (auto simp: recordOverflow_overflow Let_def)
  next
    case False
    have start: "?stale \<or> (ae_windowStart ?o \<le> now \<and> now < ae_windowStart ?o + al_window l)"
      using o(2) False assms(3) by (auto simp: time_IsZero_def)
    have "backed l any_failure (es @ [Failure k now]) (fst (count_failure (al_threshold l) (al_block l) ?stale now ?o))"
      by (rule count_failure_backed [OF o(1) _ _ assms(2) start]) simp_all
    moreover have "let ov = fst (count_failure (al_threshold l) (al_block l) ?stale now ?o)
       in ae_windowStart ov = time_zero \<or> ae_windowStart ov = ae_blockedUntil ov \<or>
          ae_windowStart ov \<in> event_time ` set (es @ [Failure k now])"
      using o(2) False by (auto simp: count_failure_def time_IsZero_def Let_def)
    ultimately show ?thesis using False by (simp only: recordOverflow_overflow if_False)
  qed
qed

lemma history_weaken:
  assumes "history es l" "config_of l' = config_of l" "al_overflow l' = al_overflow l"
    and "\<And>k. entry_of l' k = entry_of l k \<or> entry_of l' k = None"
  shows "history (es @ [ev]) l'"
proof -
  have "backed l' (fails k) (es @ [ev]) e" if "entry_of l' k = Some e" for k e
    using assms(1) assms(4) [of k] that backed_snoc backed_config [OF assms(2)] by (auto simp: history_def)
  then show ?thesis
    using assms(1,3) backed_snoc backed_config [OF assms(2)] by (auto simp: history_def)
qed

lemma counted_backed: "history es l \<Longrightarrow> backed l (fails k) es (counted l k now)"
  using backed_fresh by (auto simp: counted_def live_def history_def split: option.splits if_splits)

lemma history_step:
  assumes "history es l" "abuse_wf l" "0 < al_window l" "\<forall>e \<in> set es. event_time e \<le> event_time ev"
  shows "history (es @ [ev]) (event_apply ev l)"
proof (cases "\<exists>k now. ev = Failure k now \<and> k \<noteq> []")
  case False
  have "al_overflow (event_apply ev l) = al_overflow l"
    using False check_effect(3) [OF assms(2)] by (cases ev) (auto simp: abuse_record_def)
  moreover have "entry_of (event_apply ev l) k = entry_of l k \<or> entry_of (event_apply ev l) k = None" for k
  proof (cases ev)
    case (Failure q t)
    then show ?thesis using False by (simp add: abuse_record_def)
  next
    case (Question q t)
    then show ?thesis using check_effect(4) [OF assms(2), of t q k] by (auto simp: unless_expired_def)
  qed
  ultimately show ?thesis using history_weaken [OF assms(1) apply_effect(2) [OF assms(2)]] by blast
next
  case True
  then obtain k now where ev: "ev = Failure k now" and k: "k \<noteq> []" by blast
  show ?thesis
  proof (rule record_cases [OF assms(2) k, of now])
    assume c: "config_of (abuse_record k now l) = config_of l" "al_overflow (abuse_record k now l) = al_overflow l"
      "entry_of (abuse_record k now l) k = Some (fst (entry_failure l now (counted l k now)))"
      "\<And>k'. k' \<noteq> k \<Longrightarrow> entry_of (abuse_record k now l) k' = entry_of l k' \<or> entry_of (abuse_record k now l) k' = None \<and>
         (\<exists>x. entry_of l k' = Some x \<and> entryExpired (al_window l) x now)"
    have "backed l (fails k') (es @ [ev]) e" if e: "entry_of (abuse_record k now l) k' = Some e" for k' e
    proof (cases "k' = k")
      case True
      then show ?thesis
        using entry_failure_backed [OF counted_backed [OF assms(1), of k now] assms(3), of now] c(3) e ev by simp
    next
      case False
      then have "entry_of l k' = Some e" using c(4) [OF False] e by simp
      then show ?thesis using assms(1) backed_snoc by (simp add: history_def)
    qed
    then show ?thesis
      using assms(1) c(2) backed_snoc backed_config [OF c(1)] by (auto simp: history_def ev)
  next
    fix l' assume c: "abuse_record k now l = recordOverflow now l'" "config_of l' = config_of l"
      "al_overflow l' = al_overflow l" "entry_of l' k = None"
      "\<And>k'. k' \<noteq> k \<Longrightarrow> entry_of l' k' = entry_of l k' \<or> entry_of l' k' = None \<and>
         (\<exists>x. entry_of l k' = Some x \<and> entryExpired (al_window l) x now)"
    have w: "al_window l' = al_window l" using c(2) by (simp add: config_of_def)
    have keep: "entry_of l' k' = entry_of l k' \<or> entry_of l' k' = None" for k'
    proof (cases "k' = k")
      case True
      then show ?thesis using c(4) by simp
    next
      case False
      show ?thesis using c(5) [OF False] by (elim disjE conjE) simp_all
    qed
    have es: "\<forall>k' e. entry_of l' k' = Some e \<longrightarrow> backed l' (fails k') (es @ [ev]) e"
      using history_weaken [OF assms(1) c(2,3) keep] by (simp add: history_def)
    have "backed l' (fails k') es e" if "entry_of l' k' = Some e" for k' e
      using assms(1) keep [of k'] that backed_config [OF c(2)] by (auto simp: history_def)
    then have "history es l'" using assms(1) c(3) backed_config [OF c(2)] by (auto simp: history_def)
    note ov = overflow_backed [OF this, of now k]
    show ?thesis
      using es ov assms(3,4) backed_config [OF recordOverflow_entry(2), of now l']
      by (auto simp: history_def ev c(1) recordOverflow_entry w Let_def)
  qed
qed

lemma new_limiter_history:
  assumes "newInvalidAuthAbuseLimiter cfg = Some l"
  shows "abuse_wf l \<and> history [] l"
proof -
  have "al_shards l = replicate invalidAuthAbuseShardCount [] \<and> al_overflow l = zero_entry"
    using assms by (auto simp: newInvalidAuthAbuseLimiter_def split: option.splits if_splits)
  then show ?thesis
    using shard_lt
    by (auto simp: abuse_wf_def history_def entry_of_def entries_of_def backed_def zero_entry_def in_window_def list_all_iff)
qed

lemma run_history:
  assumes "newInvalidAuthAbuseLimiter cfg = Some l" "0 < al_window l" "sorted (map event_time es)"
  shows "history es (abuse_run es l)"
  using assms(3)
proof (induction es rule: rev_induct)
  case Nil
  then show ?case using new_limiter_history [OF assms(1)] by (simp add: abuse_run_def)
next
  case (snoc ev es)
  have wf: "abuse_wf (abuse_run es l)" "al_window (abuse_run es l) = al_window l"
    using run_wf [of l es] new_limiter_history [OF assms(1)] by (auto simp: config_of_def)
  have "history (es @ [ev]) (event_apply ev (abuse_run es l))"
    by (rule history_step) (use snoc wf assms(2) in \<open>auto simp: sorted_append\<close>)
  then show ?case by (simp add: abuse_run_def)
qed

text \<open>
  Property C21 (safety). A limiter that was just made and has seen any calls in the order of their times
  refuses a client only after a burst: at some time \<open>n\<close> less than a block ago, a window held as many
  failures as the threshold, and what is left of the block since \<open>n\<close> is the time the client is
  told. The failures are the client's own, or, if the table is full, those of all clients together.
\<close>

theorem refused_only_after_burst:
  assumes "newInvalidAuthAbuseLimiter cfg = Some l" "0 < al_window l" "sorted (map event_time es)" "0 \<le> now"
    and "fst (abuse_check k now (abuse_run es l)) = (d, True)"
  shows "\<exists>n. now < n + al_block l \<and> d = time_Sub (n + al_block l) now \<and>
    (burst_at (fails k) (al_threshold l) (al_window l) es n \<or>
     al_capacity l \<le> al_tracked (abuse_run es l) \<and> burst_at any_failure (al_threshold l) (al_window l) es n)"
proof -
  let ?l = "abuse_run es l"
  have wf: "abuse_wf ?l" and cfg: "al_threshold ?l = al_threshold l" "al_window ?l = al_window l" "al_block ?l = al_block l"
      "al_capacity ?l = al_capacity l"
    using run_wf [of l es] new_limiter_history [OF assms(1)] by (auto simp: config_of_def)
  have k: "k \<noteq> []" using assms(5) by (auto simp: abuse_check_def)
  have h: "history es ?l" by (rule run_history [OF assms(1-3)])
  show ?thesis
  proof (cases "live ?l k now")
    case (Some e)
    then have e: "entry_of ?l k = Some e" by (auto simp: live_def split: option.splits if_splits)
    have b: "ae_blockedUntil e > now" "d = time_Sub (ae_blockedUntil e) now"
      using check_result(1) [OF wf k Some] assms(5) by (auto split: if_splits)
    have "backed ?l (fails k) es e" using h e by (simp add: history_def)
    then obtain n where "ae_blockedUntil e = n + al_block l" "burst_at (fails k) (al_threshold l) (al_window l) es n"
      using b(1) assms(4) by (auto simp: backed_def cfg)
    then show ?thesis using b by auto
  next
    case None
    note r = check_result(2) [OF wf k None assms(5)]
    have "backed ?l any_failure es (al_overflow ?l)" using h by (simp add: history_def)
    then obtain n where "ae_blockedUntil (al_overflow ?l) = n + al_block l"
      "burst_at any_failure (al_threshold l) (al_window l) es n"
      using r assms(4) by (auto simp: backed_def cfg)
    then show ?thesis using r cfg by auto
  qed
qed

text \<open>A full table: the third client finds no room, and its three failures close the door to untracked clients.\<close>

definition example_overflow :: "auth_event list" where
  "example_overflow =
     [Failure ''10.0.0.1'' 63000000000000000000, Failure ''10.0.0.2'' 63000000001000000000,
      Failure ''10.0.0.3'' 63000000002000000000, Failure ''10.0.0.4'' 63000000003000000000,
      Failure ''10.0.0.3'' 63000000004000000000]"

theorem refused_only_after_burst_witness:
  "\<exists>n. 63000000014000000000 < n + al_block example_limiter \<and> 290 * Second = time_Sub (n + al_block example_limiter) 63000000014000000000 \<and>
    (burst_at (fails ''10.0.0.9'') (al_threshold example_limiter) (al_window example_limiter) example_overflow n \<or>
     al_capacity example_limiter \<le> al_tracked (abuse_run example_overflow example_limiter) \<and>
     burst_at any_failure (al_threshold example_limiter) (al_window example_limiter) example_overflow n)"
proof -
  have "fst (abuse_check ''10.0.0.9'' 63000000014000000000 (abuse_run example_overflow example_limiter)) = (290 * Second, True)"
    "0 < al_window example_limiter" "sorted (map event_time example_overflow)" by code_simp+
  moreover have "newInvalidAuthAbuseLimiter (Some \<lparr> ac_Enabled = True, ac_Threshold = 3, ac_WindowSeconds = 60,
     ac_BlockSeconds = 300, ac_Capacity = 2 \<rparr>) = Some example_limiter" by code_simp
  ultimately show ?thesis using refused_only_after_burst by simp
qed

end
