(* ===== verification/Invalid_Auth_Race.thy ===== *)
theory Invalid_Auth_Race
  imports Invalid_Auth_Proofs Go_Order
begin

text \<open>
  The limiter of failing clients in many goroutines at once. A goroutine runs one call of \<open>check\<close> or
  \<open>record\<close>; its steps are the atomic operations on the shared counters and the sections under a shard's
  mutex between them, so that another goroutine can move wherever the source lets it. A map that
  is only touched under its shard's mutex changes together with the counter update next to it. The
  two compare-and-swap loops retry until their load and swap happen without interruption, so each is
  one step.
\<close>

section \<open>Goroutines\<close>

datatype auth_call =
    Checks string
  | Records string

primrec client :: "auth_call \<Rightarrow> string" where
  "client (Checks k) = k"
| "client (Records k) = k"

primrec records :: "auth_call \<Rightarrow> bool" where
  "records (Checks k) = False"
| "records (Records k) = True"

text \<open>
  Where a call is: before it starts; at the load of \<open>tracked\<close>, the swap of \<open>cleanupNext\<close>, the cursor and the
  lock of the cleanup; in its loop with the keys still to visit; before the lock of the client's
  shard; holding it, before \<open>reserveEntry\<close> or before the entry is updated, where the flag says
  that the entry was reserved now; at the overflow counter; at the last two tests of \<open>check\<close>; done.
\<close>

datatype auth_place =
    Start
  | Gate gotime
  | NextCleanup gotime
  | Cursor gotime
  | SweepLock gotime nat
  | Sweep gotime nat "string list"
  | Lookup gotime
  | Reserve gotime
  | Update gotime invalidAuthAbuseEntry bool
  | Overflow gotime
  | CapacityTest gotime
  | OverflowTest gotime
  | Finished "duration \<times> bool"

record auth_world =
  aw_lim :: invalidAuthAbuseLimiter
  aw_locks :: "nat option list"
  aw_at :: "auth_place list"

text \<open>One key of the cleanup loop.\<close>

definition sweep_key :: "gotime \<Rightarrow> nat \<Rightarrow> string \<Rightarrow> invalidAuthAbuseLimiter \<Rightarrow> invalidAuthAbuseLimiter" where
  "sweep_key now s key l =
     (case map_of (al_shards l ! s) key of
        None \<Rightarrow> l
      | Some e \<Rightarrow>
          if entryExpired (al_window l) e now
          then l \<lparr> al_shards := (al_shards l)[s := AList.delete key (al_shards l ! s)],
                   al_tracked := al_tracked l - 1, al_expired := al_expired l + 1 \<rparr>
          else l)"

text \<open>
  One step of a call, in the goroutine \<open>i\<close>: the new limiter, the shard whose mutex is locked or
  unlocked, its new holder, and the new place; \<open>None\<close> for a call that has to wait or has ended.
  \<open>t\<close> is what the clock shows if the call reads it, \<open>r\<close> the order of a map if it ranges over one.
\<close>

fun call_step ::
  "nat \<Rightarrow> auth_call \<Rightarrow> gotime \<Rightarrow> (nat \<Rightarrow> nat) \<Rightarrow> auth_place \<Rightarrow> nat option list \<Rightarrow> invalidAuthAbuseLimiter \<Rightarrow>
     (invalidAuthAbuseLimiter \<times> nat option list \<times> auth_place) option" where
  "call_step i c t r Start locks l =
     (if client c = [] then Some (l, locks, Finished (0, False))
      else Some (if records c then l \<lparr> al_recorded := al_recorded l + 1 \<rparr> else l, locks, Gate t))"
| "call_step i c t r (Gate now) locks l =
     Some (l, locks, if al_tracked l < al_capacity l then Lookup now else NextCleanup now)"
| "call_step i c t r (NextCleanup now) locks l =
     (if UnixNano now < al_cleanupNext l then Some (l, locks, Lookup now)
      else Some (l \<lparr> al_cleanupNext := UnixNano (now + 100 * Millisecond) \<rparr>, locks, Cursor now))"
| "call_step i c t r (Cursor now) locks l =
     Some (l \<lparr> al_cleanupCursor := al_cleanupCursor l + 1 \<rparr>, locks,
           SweepLock now (unat (al_cleanupCursor l mod of_nat invalidAuthAbuseShardCount)))"
| "call_step i c t r (SweepLock now s) locks l =
     (if locks ! s \<noteq> None then None
      else Some (l, locks[s := Some i], Sweep now s (map fst (map_range r (al_shards l ! s)))))"
| "call_step i c t r (Sweep now s []) locks l = Some (l, locks[s := None], Lookup now)"
| "call_step i c t r (Sweep now s (key # keys)) locks l = Some (sweep_key now s key l, locks, Sweep now s keys)"
| "call_step i c t r (Lookup now) locks l =
     (if locks ! shard (client c) \<noteq> None then None
      else let (entry, l) = live_entry (client c) now l
           in if records c then
                Some (l, locks[shard (client c) := Some i],
                      case entry of Some e \<Rightarrow> Update now e False | None \<Rightarrow> Reserve now)
              else Some (case entry of
                  Some e \<Rightarrow>
                    if ae_blockedUntil e > now
                    then (l \<lparr> al_rejected := al_rejected l + 1 \<rparr>, locks, Finished (time_Sub (ae_blockedUntil e) now, True))
                    else (l, locks, Finished (0, False))
                | None \<Rightarrow> (l, locks, CapacityTest now)))"
| "call_step i c t r (Reserve now) locks l =
     (let (reserved, l) = reserveEntry l
      in if reserved then Some (l, locks, Update now (zero_entry \<lparr> ae_windowStart := now \<rparr>) True)
         else Some (l, locks[shard (client c) := None], Overflow now))"
| "call_step i c t r (Update now e new) locks l =
     Some (update_entry (client c) now e l, locks[shard (client c) := None], Finished (0, False))"
| "call_step i c t r (Overflow now) locks l = Some (recordOverflow now l, locks, Finished (0, False))"
| "call_step i c t r (CapacityTest now) locks l =
     Some (l, locks, if al_tracked l \<ge> al_capacity l then OverflowTest now else Finished (0, False))"
| "call_step i c t r (OverflowTest now) locks l =
     Some (if snd (checkOverflow now l)
           then (l \<lparr> al_rejected := al_rejected l + 1, al_globalBlocked := al_globalBlocked l + 1 \<rparr>, locks,
                 Finished (checkOverflow now l))
           else (l, locks, Finished (0, False)))"
| "call_step i c t r (Finished res) locks l = None"

type_synonym auth_move = "nat \<times> gotime \<times> (nat \<Rightarrow> nat)"

definition race_step :: "auth_call list \<Rightarrow> auth_move \<Rightarrow> auth_world \<Rightarrow> auth_world option" where
  "race_step cs m w =
     (case m of (i, t, r) \<Rightarrow>
        if i < length cs then
          map_option (\<lambda>(l, locks, p). \<lparr> aw_lim = l, aw_locks = locks, aw_at = (aw_at w)[i := p] \<rparr>)
            (call_step i (cs ! i) t r (aw_at w ! i) (aw_locks w) (aw_lim w))
        else None)"

definition race_init :: "auth_call list \<Rightarrow> invalidAuthAbuseLimiter \<Rightarrow> auth_world" where
  "race_init cs l = \<lparr> aw_lim = l, aw_locks = replicate invalidAuthAbuseShardCount None,
                      aw_at = replicate (length cs) Start \<rparr>"

fun race_run :: "auth_call list \<Rightarrow> auth_move list \<Rightarrow> auth_world \<Rightarrow> auth_world option" where
  "race_run cs [] w = Some w"
| "race_run cs (m # ms) w = Option.bind (race_step cs m w) (race_run cs ms)"

section \<open>The invariant\<close>

definition holds_lock :: "auth_call \<Rightarrow> auth_place \<Rightarrow> nat option" where
  "holds_lock c p = (case p of Sweep _ s _ \<Rightarrow> Some s | Reserve _ \<Rightarrow> Some (shard (client c))
     | Update _ _ _ \<Rightarrow> Some (shard (client c)) | _ \<Rightarrow> None)"

definition place_ok :: "invalidAuthAbuseLimiter \<Rightarrow> auth_call \<Rightarrow> auth_place \<Rightarrow> bool" where
  "place_ok l c p \<longleftrightarrow> (case p of
       SweepLock _ s \<Rightarrow> s < invalidAuthAbuseShardCount
     | Sweep _ s _ \<Rightarrow> s < invalidAuthAbuseShardCount
     | Reserve _ \<Rightarrow> entry_of l (client c) = None
     | Update _ _ new \<Rightarrow> entry_of l (client c) = None \<longleftrightarrow> new
     | _ \<Rightarrow> True)"

definition reserved_by :: "auth_place \<Rightarrow> int" where
  "reserved_by p = (case p of Update _ _ True \<Rightarrow> 1 | _ \<Rightarrow> 0)"

definition total_entries :: "invalidAuthAbuseLimiter \<Rightarrow> int" where
  "total_entries l = sum_list (map (\<lambda>m. int (length m)) (al_shards l))"

definition race_ok :: "auth_call list \<Rightarrow> auth_world \<Rightarrow> bool" where
  "race_ok cs w \<longleftrightarrow> length (aw_at w) = length cs \<and> length (aw_locks w) = invalidAuthAbuseShardCount \<and>
     abuse_wf (aw_lim w) \<and>
     (\<forall>s < invalidAuthAbuseShardCount. \<forall>i.
        aw_locks w ! s = Some i \<longleftrightarrow> i < length cs \<and> holds_lock (cs ! i) (aw_at w ! i) = Some s) \<and>
     (\<forall>i < length cs. place_ok (aw_lim w) (cs ! i) (aw_at w ! i)) \<and>
     al_tracked (aw_lim w) = total_entries (aw_lim w) + sum_list (map reserved_by (aw_at w)) \<and>
     al_tracked (aw_lim w) \<le> al_capacity (aw_lim w)"

section \<open>What the pieces do to the table's size\<close>

lemma sum_list_put:
  "i < length xs \<Longrightarrow> sum_list (map f (xs[i := y])) = sum_list (map f xs) - f (xs ! i) + (f y :: int)"
proof (induction xs arbitrary: i)
  case Nil
  then show ?case by simp
next
  case (Cons x xs)
  then show ?case by (cases i) simp_all
qed

lemma total_put:
  "abuse_wf l \<Longrightarrow> s < invalidAuthAbuseShardCount \<Longrightarrow>
    sum_list (map (\<lambda>m. int (length m)) ((al_shards l)[s := m])) =
      total_entries l - int (length (al_shards l ! s)) + int (length m)"
  unfolding total_entries_def abuse_wf_def by (simp add: sum_list_put)

definition only_shard :: "nat \<Rightarrow> invalidAuthAbuseLimiter \<Rightarrow> invalidAuthAbuseLimiter \<Rightarrow> bool" where
  "only_shard s l l' \<longleftrightarrow> (\<forall>s'. s' \<noteq> s \<longrightarrow> al_shards l' ! s' = al_shards l ! s')"

text \<open>How far the counter of tracked clients is ahead of the table.\<close>

definition surplus :: "invalidAuthAbuseLimiter \<Rightarrow> int" where
  "surplus l = al_tracked l - total_entries l"

lemma delete_size:
  assumes "abuse_wf l" "s < invalidAuthAbuseShardCount" "map_of (al_shards l ! s) key = Some e"
  shows "int (length (AList.delete key (al_shards l ! s))) = int (length (al_shards l ! s)) - 1"
proof -
  have "gm_wf (al_shards l ! s)" using assms(1,2) by (simp add: abuse_wf_def list_all_length)
  moreover have "al_shards l ! s \<noteq> []" using assms(3) by auto
  ultimately show ?thesis using assms(3) length_delete [of "al_shards l ! s" key] by (cases "al_shards l ! s") auto
qed

lemma sweep_key_size:
  assumes "abuse_wf l" "s < invalidAuthAbuseShardCount"
  shows "abuse_wf (sweep_key now s key l)" "config_of (sweep_key now s key l) = config_of l" "only_shard s l (sweep_key now s key l)"
    "surplus (sweep_key now s key l) = surplus l" "al_tracked (sweep_key now s key l) \<le> al_tracked l"
proof -
  have "gm_wf (AList.delete key (al_shards l ! s))" using assms by (simp add: abuse_wf_def list_all_length)
  from wf_put [OF assms(1) this, of s] show "abuse_wf (sweep_key now s key l)"
    using assms by (auto simp: sweep_key_def abuse_wf_def split: option.split)
  show "config_of (sweep_key now s key l) = config_of l" "only_shard s l (sweep_key now s key l)"
    "al_tracked (sweep_key now s key l) \<le> al_tracked l"
    by (auto simp: sweep_key_def config_of_def only_shard_def split: option.split)
  show "surplus (sweep_key now s key l) = surplus l"
    using total_put [OF assms, of "AList.delete key (al_shards l ! s)"] delete_size [OF assms]
    by (auto simp: sweep_key_def surplus_def total_entries_def split: option.split)
qed

lemma live_entry_size:
  assumes "abuse_wf l" "live_entry k now l = (e, l')"
  shows "only_shard (shard k) l l'" "surplus l' = surplus l"
proof -
  note p = total_put [OF assms(1) shard_lt, of k "AList.delete k (entries_of l k)"]
  show "only_shard (shard k) l l'"
    using assms(2) by (auto simp: live_entry_def only_shard_def with_entries_def split: option.splits if_splits)
  show "surplus l' = surplus l"
    using assms(2) p delete_size [OF assms(1) shard_lt, of k k]
    by (auto simp: live_entry_def surplus_def with_entries_def total_entries_def entries_of_def split: option.splits if_splits)
qed

lemma update_entry_size:
  assumes "abuse_wf l"
  shows "only_shard (shard k) l (update_entry k now e l)" "al_tracked (update_entry k now e l) = al_tracked l"
    "surplus (update_entry k now e l) = surplus l - (if entry_of l k = None then 1 else 0)"
proof -
  obtain e' b where e': "entry_failure l now e = (e', b)" by (cases "entry_failure l now e")
  show "only_shard (shard k) l (update_entry k now e l)" "al_tracked (update_entry k now e l) = al_tracked l"
    by (simp_all add: update_entry_def e' only_shard_def with_entries_def)
  show "surplus (update_entry k now e l) = surplus l - (if entry_of l k = None then 1 else 0)"
    using total_put [OF assms shard_lt, of k "AList.update k e' (entries_of l k)"] length_update [of k e' "entries_of l k"]
    by (simp add: update_entry_def e' surplus_def with_entries_def total_entries_def entries_of_def entry_of_def)
qed

lemma recordOverflow_size:
  "al_shards (recordOverflow now l) = al_shards l" "al_tracked (recordOverflow now l) = al_tracked l"
  "surplus (recordOverflow now l) = surplus l"
  by (simp_all add: recordOverflow_def surplus_def total_entries_def Let_def split: prod.split)

section \<open>One step\<close>

text \<open>A step either leaves the tables and the mutexes alone, or owns the mutex of the one shard it works on.\<close>

definition quiet ::
  "auth_call \<Rightarrow> auth_place \<Rightarrow> nat option list \<Rightarrow> invalidAuthAbuseLimiter \<Rightarrow>
     invalidAuthAbuseLimiter \<times> nat option list \<times> auth_place \<Rightarrow> bool" where
  "quiet c p locks l res \<longleftrightarrow> (case res of (l', locks', p') \<Rightarrow>
     locks' = locks \<and> holds_lock c p' = holds_lock c p \<and> al_shards l' = al_shards l)"

definition owning ::
  "nat \<Rightarrow> nat \<Rightarrow> auth_call \<Rightarrow> auth_place \<Rightarrow> nat option list \<Rightarrow> invalidAuthAbuseLimiter \<Rightarrow>
     invalidAuthAbuseLimiter \<times> nat option list \<times> auth_place \<Rightarrow> bool" where
  "owning i s c p locks l res \<longleftrightarrow> (case res of (l', locks', p') \<Rightarrow>
     s < invalidAuthAbuseShardCount \<and> holds_lock c p \<in> {None, Some s} \<and> holds_lock c p' \<in> {None, Some s} \<and>
     locks ! s = (if holds_lock c p = Some s then Some i else None) \<and>
     locks' = locks[s := if holds_lock c p' = Some s then Some i else None] \<and> only_shard s l l')"

definition sound_step ::
  "auth_call \<Rightarrow> auth_place \<Rightarrow> invalidAuthAbuseLimiter \<Rightarrow> invalidAuthAbuseLimiter \<Rightarrow> auth_place \<Rightarrow> bool" where
  "sound_step c p l l' p' \<longleftrightarrow> abuse_wf l' \<and> al_capacity l' = al_capacity l \<and> place_ok l' c p' \<and>
     surplus l' - reserved_by p' = surplus l - reserved_by p \<and> al_tracked l' \<le> al_capacity l"

lemma sound_same_table:
  assumes "abuse_wf l" "al_tracked l \<le> al_capacity l" "al_shards l' = al_shards l" "al_capacity l' = al_capacity l"
    "al_tracked l' = al_tracked l" "reserved_by p = 0" "reserved_by p' = 0" "place_ok l' c p'"
  shows "sound_step c p l l' p'"
  using assms by (simp add: sound_step_def surplus_def total_entries_def abuse_wf_def)

definition step_spec ::
  "nat \<Rightarrow> auth_call \<Rightarrow> auth_place \<Rightarrow> nat option list \<Rightarrow> invalidAuthAbuseLimiter \<Rightarrow>
     invalidAuthAbuseLimiter \<times> nat option list \<times> auth_place \<Rightarrow> bool" where
  "step_spec i c p locks l res \<longleftrightarrow> sound_step c p l (fst res) (snd (snd res)) \<and>
     (quiet c p locks l res \<or> (\<exists>s. owning i s c p locks l res))"

lemma spec_quiet:
  "sound_step c p l l' p' \<Longrightarrow> locks' = locks \<Longrightarrow> holds_lock c p' = holds_lock c p \<Longrightarrow> al_shards l' = al_shards l \<Longrightarrow>
    step_spec i c p locks l (l', locks', p')"
  by (simp add: step_spec_def quiet_def)

lemma spec_owning:
  "sound_step c p l l' p' \<Longrightarrow> owning i s c p locks l (l', locks', p') \<Longrightarrow> step_spec i c p locks l (l', locks', p')"
  by (auto simp: step_spec_def)

lemmas place_defs = holds_lock_def place_ok_def reserved_by_def

lemma capacity_config: "config_of l' = config_of l \<Longrightarrow> al_capacity l' = al_capacity l"
  by (simp add: config_of_def)

lemma spec_lookup:
  assumes "abuse_wf l" "al_tracked l \<le> al_capacity l" "length locks = invalidAuthAbuseShardCount"
    "call_step i c t r (Lookup now) locks l = Some res"
  shows "step_spec i c (Lookup now) locks l res"
proof -
  let ?s = "shard (client c)"
  obtain e l' where e: "live_entry (client c) now l = (e, l')" by (cases "live_entry (client c) now l")
  note le = live_entry_entry [OF assms(1) e] and sz = live_entry_size [OF assms(1) e]
  have free: "locks ! ?s = None" using assms(4) by (auto split: if_splits)
  have same: "locks[?s := None] = locks" using free by (metis list_update_id)
  have snd: "sound_step c (Lookup now) l l'' p'"
    if "reserved_by p' = 0" "place_ok l' c p'" "l'' = l' \<or> (\<exists>w. l'' = l' \<lparr> al_rejected := w \<rparr>)" for p' l''
    using that le(2,3,5) sz(2) assms(2) capacity_config [OF le(3)]
    by (auto simp: sound_step_def reserved_by_def surplus_def total_entries_def place_ok_def split: auth_place.splits)
  show ?thesis
  proof (cases "records c")
    case True
    let ?p = "case e of Some e \<Rightarrow> Update now e False | None \<Rightarrow> Reserve now"
    have res: "res = (l', locks[?s := Some i], ?p)" using assms(4) free True by (simp add: e)
    have "reserved_by ?p = 0" "place_ok l' c ?p" "holds_lock c ?p = Some ?s"
      using le(1,6) by (auto simp: place_defs split: option.split)
    then show ?thesis unfolding res
      by (intro spec_owning [of _ _ _ _ _ _ ?s] snd) (auto simp: owning_def shard_lt free sz(1) holds_lock_def)
  next
    case False
    have "\<exists>l'' p'. res = (l'', locks, p') \<and> reserved_by p' = 0 \<and> place_ok l' c p' \<and> holds_lock c p' = None \<and>
        (l'' = l' \<or> (\<exists>w. l'' = l' \<lparr> al_rejected := w \<rparr>))"
      using assms(4) free False by (auto simp: e place_defs split: option.splits if_splits)
    then obtain l'' p' where res: "res = (l'', locks, p')" and p': "reserved_by p' = 0" "place_ok l' c p'"
      "holds_lock c p' = None" "l'' = l' \<or> (\<exists>w. l'' = l' \<lparr> al_rejected := w \<rparr>)" by blast
    have "only_shard ?s l l''" using sz(1) p'(4) by (auto simp: only_shard_def)
    then show ?thesis unfolding res
      by (intro spec_owning [of _ _ _ _ _ _ ?s] snd)
        (use p' in \<open>auto simp: owning_def shard_lt free same holds_lock_def [of c "Lookup now"]\<close>)
  qed
qed

lemma spec_reserve:
  assumes "abuse_wf l" "al_tracked l \<le> al_capacity l" "place_ok l c (Reserve now)" "locks ! shard (client c) = Some i"
    "call_step i c t r (Reserve now) locks l = Some res"
  shows "step_spec i c (Reserve now) locks l res"
proof (cases "al_tracked l \<ge> al_capacity l")
  case True
  then have "res = (l, locks[shard (client c) := None], Overflow now)" using assms(5) by (simp add: reserveEntry_def)
  then show ?thesis
    using assms(1-4)
    by (auto intro!: spec_owning [of _ _ _ _ _ _ "shard (client c)"] sound_same_table
        simp: owning_def shard_lt only_shard_def place_defs)
next
  case False
  then have "res = (l \<lparr> al_tracked := al_tracked l + 1 \<rparr>, locks, Update now (zero_entry \<lparr> ae_windowStart := now \<rparr>) True)"
    using assms(5) by (simp add: reserveEntry_def)
  then show ?thesis
    using assms(1-3) False
    by (auto intro!: spec_quiet simp: sound_step_def place_defs surplus_def total_entries_def)
qed

lemma spec_update:
  assumes "abuse_wf l" "al_tracked l \<le> al_capacity l" "place_ok l c (Update now e new)" "locks ! shard (client c) = Some i"
    "call_step i c t r (Update now e new) locks l = Some res"
  shows "step_spec i c (Update now e new) locks l res"
proof -
  note u = update_entry_entry [OF assms(1), of "client c" now e] and z = update_entry_size [OF assms(1), of "client c" now e]
  have res: "res = (update_entry (client c) now e l, locks[shard (client c) := None], Finished (0, False))"
    using assms(5) by simp
  have "sound_step c (Update now e new) l (update_entry (client c) now e l) (Finished (0, False))"
    using u(1) capacity_config [OF u(2)] z(2,3) assms(2,3) by (auto simp: sound_step_def place_defs)
  then show ?thesis unfolding res
    by (rule spec_owning [of _ _ _ _ _ _ "shard (client c)"]) (use assms(4) z(1) in \<open>simp add: owning_def shard_lt holds_lock_def\<close>)
qed

lemma call_step_spec:
  assumes "abuse_wf l" "al_tracked l \<le> al_capacity l" "place_ok l c p" "length locks = invalidAuthAbuseShardCount"
    "\<And>s. holds_lock c p = Some s \<Longrightarrow> locks ! s = Some i" "call_step i c t r p locks l = Some res"
  shows "step_spec i c p locks l res"
proof (cases p)
  case (Sweep now s keys)
  have s: "s < invalidAuthAbuseShardCount" "locks ! s = Some i" using assms(3,5) Sweep by (auto simp: place_defs)
  show ?thesis
  proof (cases keys)
    case Nil
    then show ?thesis using assms(1,2,6) s Sweep
      by (auto intro!: spec_owning [of _ _ _ _ _ _ s] sound_same_table simp: owning_def only_shard_def place_defs)
  next
    case (Cons key keys')
    note z = sweep_key_size [OF assms(1) s(1), of now key]
    have res: "res = (sweep_key now s key l, locks, Sweep now s keys')" using assms(6) by (simp add: Sweep Cons)
    have "locks[s := Some i] = locks" using s(2) by (metis list_update_id)
    then show ?thesis unfolding res Sweep
      by (intro spec_owning [of _ _ _ _ _ _ s])
        (use z s assms(2) capacity_config [OF z(2)] in \<open>auto simp: sound_step_def owning_def place_defs\<close>)
  qed
next
  case (Overflow now)
  then have "res = (recordOverflow now l, locks, Finished (0, False))" using assms(6) by simp
  then show ?thesis
    unfolding Overflow
    using assms(1,2) capacity_config [OF recordOverflow_entry(2)] by (auto intro!: spec_quiet sound_same_table simp: recordOverflow_size place_defs)
next
  case (Lookup now)
  then show ?thesis using spec_lookup [OF assms(1,2,4)] assms(6) by simp
next
  case (Reserve now)
  then show ?thesis using spec_reserve [OF assms(1,2)] assms(3,5,6) by (simp add: holds_lock_def)
next
  case (Update now e new)
  then show ?thesis using spec_update [OF assms(1,2)] assms(3,5,6) by (simp add: holds_lock_def)
next
  case (SweepLock now s)
  then have "s < invalidAuthAbuseShardCount" "locks ! s = None"
    "res = (l, locks[s := Some i], Sweep now s (map fst (map_range r (al_shards l ! s))))"
    using assms(3,6) by (auto simp: place_ok_def split: if_splits)
  then show ?thesis using assms(1,2) SweepLock
    by (auto intro!: spec_owning [of _ _ _ _ _ _ s] sound_same_table simp: owning_def only_shard_def place_defs)
qed (use assms(1,2,6) mod16_lt in \<open>auto intro!: spec_quiet sound_same_table simp: place_defs split: if_splits\<close>)

section \<open>Every interleaving\<close>

lemma place_ok_other:
  assumes "place_ok l c p" "holds_lock c p = Some (shard (client c)) \<Longrightarrow> entry_of l' (client c) = entry_of l (client c)"
  shows "place_ok l' c p"
  using assms by (cases p) (simp_all add: place_ok_def holds_lock_def)

lemma race_ok_step:
  assumes ok: "race_ok cs w" and i: "i < length cs"
    and spec: "step_spec i (cs ! i) (aw_at w ! i) (aw_locks w) (aw_lim w) (l', locks', p')"
  shows "race_ok cs \<lparr> aw_lim = l', aw_locks = locks', aw_at = (aw_at w)[i := p'] \<rparr>"
proof -
  let ?c = "cs ! i" and ?p = "aw_at w ! i" and ?l = "aw_lim w" and ?locks = "aw_locks w"
  have len: "length (aw_at w) = length cs" "length ?locks = invalidAuthAbuseShardCount"
    and lock: "\<And>s j. s < invalidAuthAbuseShardCount \<Longrightarrow>
      ?locks ! s = Some j \<longleftrightarrow> j < length cs \<and> holds_lock (cs ! j) (aw_at w ! j) = Some s"
    and places: "\<And>j. j < length cs \<Longrightarrow> place_ok ?l (cs ! j) (aw_at w ! j)"
    and size: "surplus ?l = sum_list (map reserved_by (aw_at w))"
    using ok by (auto simp: race_ok_def surplus_def)
  have sound: "sound_step ?c ?p ?l l' p'" using spec by (simp add: step_spec_def)
  have nth: "(aw_at w)[i := p'] ! j = (if j = i then p' else aw_at w ! j)" for j using i len(1) by (simp add: nth_list_update)
  consider (quiet) "locks' = ?locks" "holds_lock ?c p' = holds_lock ?c ?p" "al_shards l' = al_shards ?l"
    | (owning) s where "owning i s ?c ?p ?locks ?l (l', locks', p')"
    using spec by (auto simp: step_spec_def quiet_def)
  then have "length locks' = invalidAuthAbuseShardCount \<and>
      (\<forall>s < invalidAuthAbuseShardCount. \<forall>j. locks' ! s = Some j \<longleftrightarrow>
         j < length cs \<and> holds_lock (cs ! j) ((aw_at w)[i := p'] ! j) = Some s) \<and>
      (\<forall>j < length cs. j \<noteq> i \<longrightarrow> place_ok l' (cs ! j) (aw_at w ! j))"
  proof cases
    case quiet
    have "place_ok l' (cs ! j) (aw_at w ! j)" if "j < length cs" for j
      by (rule place_ok_other [OF places [OF that]]) (simp add: entry_of_def entries_of_def quiet(3))
    then show ?thesis using quiet(1,2) lock len by (auto simp: nth)
  next
    case (owning s)
    have s: "s < invalidAuthAbuseShardCount" "holds_lock ?c ?p \<in> {None, Some s}" "holds_lock ?c p' \<in> {None, Some s}"
        "?locks ! s = (if holds_lock ?c ?p = Some s then Some i else None)"
        "locks' = ?locks[s := if holds_lock ?c p' = Some s then Some i else None]" "only_shard s ?l l'"
      using owning by (auto simp: owning_def)
    have other: "holds_lock (cs ! j) (aw_at w ! j) \<noteq> Some s" if "j < length cs" "j \<noteq> i" for j
      using lock [OF s(1), of j] s(4) that by (auto split: if_splits)
    have "place_ok l' (cs ! j) (aw_at w ! j)" if "j < length cs" "j \<noteq> i" for j
    proof (rule place_ok_other [OF places [OF that(1)]])
      assume "holds_lock (cs ! j) (aw_at w ! j) = Some (shard (client (cs ! j)))"
      then have "shard (client (cs ! j)) \<noteq> s" using other [OF that] by auto
      then show "entry_of l' (client (cs ! j)) = entry_of ?l (client (cs ! j))"
        using s(6) by (simp add: only_shard_def entry_of_def entries_of_def)
    qed
    moreover have "locks' ! s' = Some j \<longleftrightarrow> j < length cs \<and> holds_lock (cs ! j) ((aw_at w)[i := p'] ! j) = Some s'"
      if "s' < invalidAuthAbuseShardCount" for s' j
    proof (cases "s' = s")
      case True
      then show ?thesis using s(1,5) len(2) i other [of j] by (auto simp: nth)
    next
      case False
      then show ?thesis using s(2,3,5) lock [OF that, of j] i by (auto simp: nth)
    qed
    ultimately show ?thesis using s(5) len(2) by simp
  qed
  moreover have "surplus l' = sum_list (map reserved_by ((aw_at w)[i := p']))"
    using sound size sum_list_put [of i "aw_at w" reserved_by p'] i len(1) by (simp add: sound_step_def)
  ultimately show ?thesis
    using sound len i by (auto simp: race_ok_def sound_step_def surplus_def nth)
qed

lemma race_step_ok:
  assumes "race_ok cs w" "race_step cs m w = Some w'"
  shows "race_ok cs w' \<and> al_capacity (aw_lim w') = al_capacity (aw_lim w)"
proof -
  obtain i t r where m: "m = (i, t, r)" by (cases m)
  obtain l' locks' p' where i: "i < length cs"
    and st: "call_step i (cs ! i) t r (aw_at w ! i) (aw_locks w) (aw_lim w) = Some (l', locks', p')"
    and w': "w' = \<lparr> aw_lim = l', aw_locks = locks', aw_at = (aw_at w)[i := p'] \<rparr>"
    using assms(2) by (auto simp: race_step_def m split: if_splits)
  have "aw_locks w ! s = Some i" if "holds_lock (cs ! i) (aw_at w ! i) = Some s" for s
  proof -
    have "s < invalidAuthAbuseShardCount"
      using assms(1) i that shard_lt [of "client (cs ! i)"]
      by (cases "aw_at w ! i") (auto simp: race_ok_def holds_lock_def place_ok_def)
    then show ?thesis using assms(1) i that by (auto simp: race_ok_def)
  qed
  then have spec: "step_spec i (cs ! i) (aw_at w ! i) (aw_locks w) (aw_lim w) (l', locks', p')"
    using assms(1) i by (intro call_step_spec [OF _ _ _ _ _ st]) (auto simp: race_ok_def)
  then show ?thesis
    using race_ok_step [OF assms(1) i spec] by (simp add: w' step_spec_def sound_step_def)
qed

lemma race_run_ok:
  "race_ok cs w \<Longrightarrow> race_run cs ms w = Some w' \<Longrightarrow> race_ok cs w' \<and> al_capacity (aw_lim w') = al_capacity (aw_lim w)"
proof (induction ms arbitrary: w)
  case Nil
  then show ?case by simp
next
  case (Cons m ms)
  obtain w1 where "race_step cs m w = Some w1" "race_run cs ms w1 = Some w'"
    using Cons.prems(2) by (auto simp: bind_eq_Some_conv)
  then show ?case using race_step_ok [OF Cons.prems(1)] Cons.IH by metis
qed

lemma race_init_ok:
  assumes "newInvalidAuthAbuseLimiter cfg = Some l"
  shows "race_ok cs (race_init cs l)"
proof -
  have l: "al_shards l = replicate invalidAuthAbuseShardCount []" "al_tracked l = 0" "0 < al_capacity l"
    using assms by (auto simp: newInvalidAuthAbuseLimiter_def split: option.splits if_splits)
  have "abuse_wf l" using new_limiter_history [OF assms] by blast
  then show ?thesis
    using l(3) by (auto simp: race_ok_def race_init_def holds_lock_def place_ok_def total_entries_def reserved_by_def l(1,2) sum_list_replicate)
qed

lemma total_nonneg: "0 \<le> sum_list (map reserved_by ps)"
  by (rule sum_list_nonneg) (auto simp: reserved_by_def split: auth_place.splits bool.splits)

definition is_finished :: "auth_place \<Rightarrow> bool" where
  "is_finished p \<longleftrightarrow> (case p of Finished _ \<Rightarrow> True | _ \<Rightarrow> False)"

text \<open>
  Property C22 (invariant). However the calls of any number of goroutines interleave, the tables of a limiter
  never hold more clients than its capacity, the counter of tracked clients is never behind the tables
  nor beyond the capacity, and once every call has returned the counter is exact.
\<close>

theorem tracked_clients_bounded:
  assumes "newInvalidAuthAbuseLimiter cfg = Some l" "race_run cs ms (race_init cs l) = Some w"
  shows "total_entries (aw_lim w) \<le> al_tracked (aw_lim w) \<and> al_tracked (aw_lim w) \<le> al_capacity l \<and>
    (list_all is_finished (aw_at w) \<longrightarrow> al_tracked (aw_lim w) = total_entries (aw_lim w))"
proof -
  have ok: "race_ok cs w" and cap: "al_capacity (aw_lim w) = al_capacity l"
    using race_run_ok [OF race_init_ok [OF assms(1)] assms(2)] by (simp_all add: race_init_def)
  have "sum_list (map reserved_by (aw_at w)) = 0" if "list_all is_finished (aw_at w)"
  proof -
    have "map reserved_by (aw_at w) = map (\<lambda>_. 0) (aw_at w)"
      using that by (auto simp: list_all_iff is_finished_def reserved_by_def split: auth_place.splits)
    then show ?thesis by (simp add: map_replicate_const sum_list_replicate)
  qed
  then show ?thesis using ok cap total_nonneg [of "aw_at w"] by (auto simp: race_ok_def)
qed

definition race_example :: "auth_move list" where
  "race_example =
     [(0, 63000000000000000000, id), (1, 63000000000000000000, id), (0, 0, id), (0, 0, id), (1, 0, id), (1, 0, id),
      (0, 0, id), (1, 0, id), (1, 0, id), (0, 0, id)]"

definition race_limiter :: invalidAuthAbuseLimiter where
  "race_limiter = the (newInvalidAuthAbuseLimiter (Some \<lparr> ac_Enabled = True, ac_Threshold = 3, ac_WindowSeconds = 60,
     ac_BlockSeconds = 300, ac_Capacity = 1 \<rparr>))"

text \<open>Two clients race for the last place: one is counted, the other goes to the overflow counter.\<close>

theorem tracked_clients_bounded_witness:
  "\<exists>w. race_run [Records ''10.0.0.1'', Records ''10.0.0.2''] race_example
      (race_init [Records ''10.0.0.1'', Records ''10.0.0.2''] race_limiter) = Some w \<and>
    list_all is_finished (aw_at w) \<and> al_tracked (aw_lim w) = total_entries (aw_lim w) \<and> al_tracked (aw_lim w) \<le> 1"
proof -
  let ?cs = "[Records ''10.0.0.1'', Records ''10.0.0.2'']"
  have "newInvalidAuthAbuseLimiter (Some \<lparr> ac_Enabled = True, ac_Threshold = 3, ac_WindowSeconds = 60,
     ac_BlockSeconds = 300, ac_Capacity = 1 \<rparr>) = Some race_limiter" "al_capacity race_limiter = 1" by code_simp+
  note bound = tracked_clients_bounded [OF this(1), of ?cs race_example] and cap = this(2)
  have "case race_run ?cs race_example (race_init ?cs race_limiter) of
      None \<Rightarrow> False | Some w \<Rightarrow> list_all is_finished (aw_at w)" by code_simp
  then obtain w where "race_run ?cs race_example (race_init ?cs race_limiter) = Some w" "list_all is_finished (aw_at w)"
    by (cases "race_run ?cs race_example (race_init ?cs race_limiter)") auto
  then show ?thesis using bound [of w] cap by (intro exI [of _ w]) simp
qed

section \<open>Every call returns\<close>

primrec phase :: "auth_place \<Rightarrow> nat" where
  "phase Start = 12"
| "phase (Gate t) = 11"
| "phase (NextCleanup t) = 10"
| "phase (Cursor t) = 9"
| "phase (SweepLock t s) = 8"
| "phase (Sweep t s ks) = 7"
| "phase (Lookup t) = 6"
| "phase (Reserve t) = 5"
| "phase (Update t e b) = 4"
| "phase (Overflow t) = 4"
| "phase (CapacityTest t) = 4"
| "phase (OverflowTest t) = 3"
| "phase (Finished res) = 0"

definition keys_left :: "auth_place \<Rightarrow> nat" where
  "keys_left p = (case p of Sweep _ _ ks \<Rightarrow> length ks | _ \<Rightarrow> 0)"

lemma call_step_decreases:
  assumes "call_step i c t r p locks l = Some (l', locks', p')"
  shows "phase p' < phase p \<or> phase p' = phase p \<and> keys_left p' < keys_left p"
proof (cases p)
  case (Sweep now s ks)
  then show ?thesis using assms by (cases ks) (auto simp: keys_left_def)
qed (use assms in \<open>auto split: if_splits prod.splits option.splits\<close>)

definition work_left :: "auth_world \<Rightarrow> nat \<times> nat" where
  "work_left w = (sum_list (map phase (aw_at w)), sum_list (map keys_left (aw_at w)))"

lemma sum_list_put_nat:
  "i < length xs \<Longrightarrow> sum_list (map f (xs[i := y])) + f (xs ! i) = sum_list (map f xs) + (f y :: nat)"
proof (induction xs arbitrary: i)
  case Nil
  then show ?case by simp
next
  case (Cons x xs)
  then show ?case by (cases i) (simp_all add: algebra_simps)
qed

lemma race_step_decreases:
  assumes "race_ok cs w" "race_step cs m w = Some w'"
  shows "(work_left w', work_left w) \<in> less_than <*lex*> less_than"
proof -
  obtain i t r where m: "m = (i, t, r)" by (cases m)
  obtain l' locks' p' where i: "i < length cs"
    and st: "call_step i (cs ! i) t r (aw_at w ! i) (aw_locks w) (aw_lim w) = Some (l', locks', p')"
    and w': "w' = \<lparr> aw_lim = l', aw_locks = locks', aw_at = (aw_at w)[i := p'] \<rparr>"
    using assms(2) by (auto simp: race_step_def m split: if_splits)
  have len: "i < length (aw_at w)" using assms(1) i by (simp add: race_ok_def)
  show ?thesis
    using call_step_decreases [OF st] sum_list_put_nat [OF len, of phase p'] sum_list_put_nat [OF len, of keys_left p']
    by (auto simp: work_left_def w')
qed

lemma waits_for_holder:
  assumes "race_ok cs w" "i < length cs" "\<not> is_finished (aw_at w ! i)"
    and stuck: "\<And>j. race_step cs (j, 0, id) w = None"
  shows False
proof -
  have go: "call_step j (cs ! j) 0 id (aw_at w ! j) (aw_locks w) (aw_lim w) = None" if "j < length cs" for j
    using stuck [of j] that by (simp add: race_step_def)
  have busy: "holds_lock (cs ! j) (aw_at w ! j) = None" if "j < length cs" for j
  proof (rule ccontr)
    assume h: "holds_lock (cs ! j) (aw_at w ! j) \<noteq> None"
    show False
    proof (cases "aw_at w ! j")
      case (Sweep t s ks)
      then show False using go [OF that] by (cases ks) auto
    qed (use h go [OF that] in \<open>auto simp: holds_lock_def split: prod.splits if_splits\<close>)
  qed
  have free: "aw_locks w ! s = None" if "s < invalidAuthAbuseShardCount" for s
  proof (rule ccontr)
    assume "aw_locks w ! s \<noteq> None"
    then obtain j where "aw_locks w ! s = Some j" by blast
    then show False using assms(1) that busy [of j] by (auto simp: race_ok_def)
  qed
  show False
  proof (cases "aw_at w ! i")
    case (Sweep t s ks)
    then show False using go [OF assms(2)] by (cases ks) auto
  next
    case (SweepLock t s)
    then have "s < invalidAuthAbuseShardCount" using assms(1,2) by (auto simp: race_ok_def place_ok_def)
    then show False using go [OF assms(2)] free SweepLock by simp
  next
    case (Lookup t)
    then show False using go [OF assms(2)] free [OF shard_lt] by (auto split: prod.splits if_splits)
  qed (use go [OF assms(2)] assms(3) in \<open>auto simp: is_finished_def split: prod.splits if_splits\<close>)
qed

definition race_edge :: "auth_call list \<Rightarrow> invalidAuthAbuseLimiter \<Rightarrow> (auth_world \<times> auth_world) set" where
  "race_edge cs l = {(w', w). (\<exists>ms. race_run cs ms (race_init cs l) = Some w) \<and> (\<exists>m. race_step cs m w = Some w')}"

text \<open>
  Property C36 (liveness). Calls on the limiter never block each other for good: from a new limiter no
  schedule of the goroutines goes on for ever, and where none can move any more every call has
  returned.
\<close>

theorem calls_return:
  assumes "newInvalidAuthAbuseLimiter cfg = Some l"
  shows "wf (race_edge cs l) \<and>
    (\<forall>ms w. race_run cs ms (race_init cs l) = Some w \<and> (\<forall>m. race_step cs m w = None) \<longrightarrow>
       list_all is_finished (aw_at w))"
proof
  have "(work_left w', work_left w) \<in> less_than <*lex*> less_than" if edge: "(w', w) \<in> race_edge cs l" for w w'
  proof -
    obtain ms m where "race_run cs ms (race_init cs l) = Some w" "race_step cs m w = Some w'"
      using edge unfolding race_edge_def by blast
    then show ?thesis using race_step_decreases race_run_ok [OF race_init_ok [OF assms]] by blast
  qed
  then have "race_edge cs l \<subseteq> inv_image (less_than <*lex*> less_than) work_left" by (auto simp del: in_lex_prod)
  moreover have "wf (inv_image (less_than <*lex*> less_than) work_left)" by auto
  ultimately show "wf (race_edge cs l)" by (metis wf_subset)
  show "\<forall>ms w. race_run cs ms (race_init cs l) = Some w \<and> (\<forall>m. race_step cs m w = None) \<longrightarrow>
       list_all is_finished (aw_at w)"
  proof (intro allI impI)
    fix ms w assume w: "race_run cs ms (race_init cs l) = Some w \<and> (\<forall>m. race_step cs m w = None)"
    have ok: "race_ok cs w" using race_run_ok [OF race_init_ok [OF assms]] w by blast
    have "is_finished (aw_at w ! i)" if "i < length cs" for i
      using waits_for_holder [OF ok that] w by blast
    then show "list_all is_finished (aw_at w)" using ok by (auto simp: list_all_length race_ok_def)
  qed
qed

theorem calls_return_witness:
  "wf (race_edge [Records ''10.0.0.1'', Records ''10.0.0.2''] race_limiter)"
proof -
  have "newInvalidAuthAbuseLimiter (Some \<lparr> ac_Enabled = True, ac_Threshold = 3, ac_WindowSeconds = 60,
     ac_BlockSeconds = 300, ac_Capacity = 1 \<rparr>) = Some race_limiter" by code_simp
  then show ?thesis using calls_return by blast
qed

end
