(* ===== verification/Subscription.thy ===== *)
theory Subscription
  imports Go_Any
begin

text \<open>
  Subscriptions of users to groups: the record of \<open>service/user_subscription.go\<close> with its three
  usage windows, the terms \<open>service/subscription_service.go\<close> gives and renews, and the statements of
  \<open>repository/user_subscription_repo.go\<close> as functions on the table. Revoking a subscription is a
  soft deletion; every query but \<open>GetByIDIncludeDeleted\<close> sees live rows only, and a unique index
  allows one live row for a user and a group.

  \<open>AddDate(0, 0, d)\<close> and \<open>startOfDay\<close> work in the time zone of the process. The model has zones of
  a fixed offset \<open>tz\<close> from UTC, so a day has 24 hours.
\<close>

section \<open>Records\<close>

definition Day :: duration where
  "Day = 24 * Hour"

lemma Day_pos [simp]: "0 < Day"
  by (simp add: Day_def Hour_def)

abbreviation "SubscriptionStatusActive \<equiv> ''active''"
abbreviation "SubscriptionStatusExpired \<equiv> ''expired''"
abbreviation "SubscriptionStatusSuspended \<equiv> ''suspended''"

record UserSubscription =
  sb_ID :: int
  sb_UserID :: int
  sb_GroupID :: int
  sb_StartsAt :: gotime
  sb_ExpiresAt :: gotime
  sb_Status :: string
  sb_DailyWindowStart :: "gotime option"
  sb_WeeklyWindowStart :: "gotime option"
  sb_MonthlyWindowStart :: "gotime option"
  sb_DailyUsageUSD :: rat
  sb_WeeklyUsageUSD :: rat
  sb_MonthlyUsageUSD :: rat
  sb_AssignedBy :: "int option"
  sb_AssignedAt :: gotime
  sb_Notes :: string
  sb_DeletedAt :: "gotime option"

text \<open>What subscriptions read of a group.\<close>

record subscription_group =
  sg_ID :: int
  sg_Status :: string
  sg_SubscriptionType :: string
  sg_DailyLimitUSD :: "rat option"
  sg_WeeklyLimitUSD :: "rat option"
  sg_MonthlyLimitUSD :: "rat option"

definition IsSubscriptionType :: "subscription_group \<Rightarrow> bool" where
  "IsSubscriptionType g \<longleftrightarrow> sg_SubscriptionType g = ''subscription''"

datatype sub_error =
    ErrSubscriptionNotFound | ErrSubscriptionExpired | ErrSubscriptionSuspended
  | ErrSubscriptionAlreadyExists | ErrSubscriptionAssignConflict string
  | ErrSubscriptionNotRevoked | ErrSubscriptionRestoreConflict
  | ErrGroupNotFound | ErrGroupNotSubscriptionType | ErrInvalidInput
  | ErrDailyLimitExceeded | ErrWeeklyLimitExceeded | ErrMonthlyLimitExceeded
  | ErrSubscriptionNilInput | ErrAdjustWouldExpire | ErrCannotShortenExpired
  | ErrSubscriptionStore

section \<open>Terms and windows\<close>

definition sub_IsActive :: "gotime \<Rightarrow> UserSubscription \<Rightarrow> bool" where
  "sub_IsActive now s \<longleftrightarrow> sb_Status s = SubscriptionStatusActive \<and> now < sb_ExpiresAt s"

definition sub_IsExpired :: "gotime \<Rightarrow> UserSubscription \<Rightarrow> bool" where
  "sub_IsExpired now s \<longleftrightarrow> sb_ExpiresAt s < now"

definition daysRemainingAt :: "gotime \<Rightarrow> UserSubscription \<Rightarrow> int" where
  "daysRemainingAt now s =
     (let remaining = time_Sub (sb_ExpiresAt s) now
      in if remaining \<le> 0 then 0
         else remaining div Day + (if remaining mod Day \<noteq> 0 then 1 else 0))"

definition IsWindowActivated :: "UserSubscription \<Rightarrow> bool" where
  "IsWindowActivated s \<longleftrightarrow>
     sb_DailyWindowStart s \<noteq> None \<or> sb_WeeklyWindowStart s \<noteq> None \<or> sb_MonthlyWindowStart s \<noteq> None"

definition HasOneTimeDailyQuota :: "UserSubscription \<Rightarrow> bool" where
  "HasOneTimeDailyQuota s \<longleftrightarrow>
     \<not> time_IsZero (sb_StartsAt s) \<and> \<not> time_IsZero (sb_ExpiresAt s) \<and> sb_ExpiresAt s \<le> sb_StartsAt s + Day"

text \<open>
  The three windows. Their code differs in the fields, the period and, for the daily window, the
  exception for subscriptions of one day.
\<close>

datatype window = Daily | Weekly | Monthly

primrec period :: "window \<Rightarrow> duration" where
  "period Daily = 24 * Hour"
| "period Weekly = 7 * 24 * Hour"
| "period Monthly = 30 * 24 * Hour"

primrec window_start :: "window \<Rightarrow> UserSubscription \<Rightarrow> gotime option" where
  "window_start Daily = sb_DailyWindowStart"
| "window_start Weekly = sb_WeeklyWindowStart"
| "window_start Monthly = sb_MonthlyWindowStart"

primrec window_usage :: "window \<Rightarrow> UserSubscription \<Rightarrow> rat" where
  "window_usage Daily = sb_DailyUsageUSD"
| "window_usage Weekly = sb_WeeklyUsageUSD"
| "window_usage Monthly = sb_MonthlyUsageUSD"

primrec set_start :: "window \<Rightarrow> gotime option \<Rightarrow> UserSubscription \<Rightarrow> UserSubscription" where
  "set_start Daily t s = s \<lparr> sb_DailyWindowStart := t \<rparr>"
| "set_start Weekly t s = s \<lparr> sb_WeeklyWindowStart := t \<rparr>"
| "set_start Monthly t s = s \<lparr> sb_MonthlyWindowStart := t \<rparr>"

primrec set_usage :: "window \<Rightarrow> rat \<Rightarrow> UserSubscription \<Rightarrow> UserSubscription" where
  "set_usage Daily q s = s \<lparr> sb_DailyUsageUSD := q \<rparr>"
| "set_usage Weekly q s = s \<lparr> sb_WeeklyUsageUSD := q \<rparr>"
| "set_usage Monthly q s = s \<lparr> sb_MonthlyUsageUSD := q \<rparr>"

definition NeedsResetAt :: "window \<Rightarrow> gotime \<Rightarrow> UserSubscription \<Rightarrow> bool" where
  "NeedsResetAt w now s \<longleftrightarrow>
     (case window_start w s of
        None \<Rightarrow> False
      | Some t \<Rightarrow> \<not> (w = Daily \<and> HasOneTimeDailyQuota s) \<and> t + period w \<le> now)"

definition startOfDay :: "duration \<Rightarrow> gotime \<Rightarrow> gotime" where
  "startOfDay tz t = (t + tz) div Day * Day - tz"

definition window_anchor :: "duration \<Rightarrow> UserSubscription \<Rightarrow> gotime \<Rightarrow> gotime" where
  "window_anchor tz s previous =
     (let legacyAnchor = startOfDay tz (sb_StartsAt s)
      in if legacyAnchor < sb_StartsAt s \<and> previous = legacyAnchor then sb_StartsAt s else previous)"

text \<open>
  \<open>automaticWindowStartAt\<close>: the start of the window that holds \<open>now\<close>, when the window has to be
  reset. Both quotients have positive operands, where \<open>div\<close> is Go's division.
\<close>

definition automaticWindowStartAt ::
  "duration \<Rightarrow> UserSubscription \<Rightarrow> gotime option \<Rightarrow> duration \<Rightarrow> gotime \<Rightarrow> gotime option" where
  "automaticWindowStartAt tz s previous per now =
     (case previous of
        None \<Rightarrow> None
      | Some p \<Rightarrow>
          let anchor = window_anchor tz s p; next = anchor + per
          in if now < next \<or> \<not> next < sb_ExpiresAt s then None
             else
               let periods = time_Sub now anchor div per;
                   lastPeriodBeforeExpiry = (time_Sub (sb_ExpiresAt s) anchor - 1) div per;
                   periods = (if lastPeriodBeforeExpiry < periods then lastPeriodBeforeExpiry else periods)
               in Some (anchor + periods * per))"

definition automatic_start :: "duration \<Rightarrow> window \<Rightarrow> gotime \<Rightarrow> UserSubscription \<Rightarrow> gotime option" where
  "automatic_start tz w now s =
     (if w = Daily \<and> HasOneTimeDailyQuota s then None
      else automaticWindowStartAt tz s (window_start w s) (period w) now)"

definition canAutomaticallyResetAt :: "duration \<Rightarrow> window \<Rightarrow> gotime \<Rightarrow> UserSubscription \<Rightarrow> bool" where
  "canAutomaticallyResetAt tz w now s \<longleftrightarrow> automatic_start tz w now s \<noteq> None"

definition ResetTime :: "window \<Rightarrow> UserSubscription \<Rightarrow> gotime option" where
  "ResetTime w s =
     (case window_start w s of
        None \<Rightarrow> None
      | Some t \<Rightarrow> Some (if w = Daily \<and> HasOneTimeDailyQuota s then sb_ExpiresAt s else t + period w))"

primrec window_limit :: "window \<Rightarrow> subscription_group \<Rightarrow> rat option" where
  "window_limit Daily = sg_DailyLimitUSD"
| "window_limit Weekly = sg_WeeklyLimitUSD"
| "window_limit Monthly = sg_MonthlyLimitUSD"

definition HasLimit :: "window \<Rightarrow> subscription_group \<Rightarrow> bool" where
  "HasLimit w g \<longleftrightarrow> (case window_limit w g of None \<Rightarrow> False | Some l \<Rightarrow> 0 < l)"

definition CheckLimit :: "window \<Rightarrow> UserSubscription \<Rightarrow> subscription_group \<Rightarrow> rat \<Rightarrow> bool" where
  "CheckLimit w s g additionalCost \<longleftrightarrow>
     (\<not> HasLimit w g \<or>
      (case window_limit w g of None \<Rightarrow> True | Some l \<Rightarrow> window_usage w s + additionalCost \<le> l))"

definition CheckUsageLimits :: "UserSubscription \<Rightarrow> subscription_group \<Rightarrow> rat \<Rightarrow> sub_error option" where
  "CheckUsageLimits s g additionalCost =
     (if \<not> CheckLimit Daily s g additionalCost then Some ErrDailyLimitExceeded
      else if \<not> CheckLimit Weekly s g additionalCost then Some ErrWeeklyLimitExceeded
      else if \<not> CheckLimit Monthly s g additionalCost then Some ErrMonthlyLimitExceeded
      else None)"

text \<open>\<open>ValidateAndCheckLimits\<close> corrects the usage of past windows in the caller's record.\<close>

definition clear_past :: "duration \<Rightarrow> gotime \<Rightarrow> window \<Rightarrow> UserSubscription \<times> bool \<Rightarrow> UserSubscription \<times> bool" where
  "clear_past tz now w r =
     (if canAutomaticallyResetAt tz w now (fst r) then (set_usage w 0 (fst r), True) else r)"

definition ValidateAndCheckLimits ::
  "duration \<Rightarrow> gotime \<Rightarrow> UserSubscription \<Rightarrow> subscription_group \<Rightarrow> UserSubscription \<times> bool \<times> sub_error option" where
  "ValidateAndCheckLimits tz now s g =
     (if sb_Status s = SubscriptionStatusExpired then (s, False, Some ErrSubscriptionExpired)
      else if sb_Status s = SubscriptionStatusSuspended then (s, False, Some ErrSubscriptionSuspended)
      else if sb_ExpiresAt s \<le> now then (s, False, Some ErrSubscriptionExpired)
      else
        let r = clear_past tz now Monthly (clear_past tz now Weekly (clear_past tz now Daily (s, False)));
            s' = fst r; needsMaintenance = (snd r \<or> \<not> IsWindowActivated s')
        in (s', needsMaintenance, CheckUsageLimits s' g 0))"

section \<open>Statements on the table\<close>

type_synonym sub_table = "UserSubscription list"

definition live :: "UserSubscription \<Rightarrow> bool" where
  "live s \<longleftrightarrow> sb_DeletedAt s = None"

definition sub_by_id :: "int \<Rightarrow> sub_table \<Rightarrow> UserSubscription option" where
  "sub_by_id i t = find (\<lambda>s. sb_ID s = i \<and> live s) t"

definition GetByUserIDAndGroupID :: "int \<Rightarrow> int \<Rightarrow> sub_table \<Rightarrow> UserSubscription option" where
  "GetByUserIDAndGroupID u g t = find (\<lambda>s. sb_UserID s = u \<and> sb_GroupID s = g \<and> live s) t"

definition GetActiveByUserIDAndGroupID :: "gotime \<Rightarrow> int \<Rightarrow> int \<Rightarrow> sub_table \<Rightarrow> UserSubscription option" where
  "GetActiveByUserIDAndGroupID now u g t =
     find (\<lambda>s. sb_UserID s = u \<and> sb_GroupID s = g \<and> live s \<and> sb_Status s = SubscriptionStatusActive \<and>
               now < sb_ExpiresAt s) t"

text \<open>\<open>UPDATE \<dots> SET f WHERE id = i AND c\<close>. Only queries and deletions add \<open>deleted_at IS NULL\<close> by themselves.\<close>

definition update_sub ::
  "int \<Rightarrow> (UserSubscription \<Rightarrow> bool) \<Rightarrow> (UserSubscription \<Rightarrow> UserSubscription) \<Rightarrow> sub_table \<Rightarrow> sub_table" where
  "update_sub i c f t = map (\<lambda>s. if sb_ID s = i \<and> c s then f s else s) t"

definition affected_subs :: "int \<Rightarrow> (UserSubscription \<Rightarrow> bool) \<Rightarrow> sub_table \<Rightarrow> nat" where
  "affected_subs i c t = length (filter (\<lambda>s. sb_ID s = i \<and> c s) t)"

definition next_sub_id :: "sub_table \<Rightarrow> int" where
  "next_sub_id t = fold (\<lambda>s m. max m (sb_ID s)) t 0 + 1"

section \<open>Giving and renewing terms\<close>

definition MaxExpiresAt :: gotime where
  "MaxExpiresAt = 66238041599 * Second" \<comment> \<open>2099-12-31T23:59:59Z\<close>

definition MaxValidityDays :: int where
  "MaxValidityDays = 36500"

definition cap_expiry :: "gotime \<Rightarrow> gotime" where
  "cap_expiry t = (if MaxExpiresAt < t then MaxExpiresAt else t)"

definition normalizeAssignValidityDays :: "int \<Rightarrow> int" where
  "normalizeAssignValidityDays days =
     (let days = (if days \<le> 0 then 30 else days) in if MaxValidityDays < days then MaxValidityDays else days)"

record AssignSubscriptionInput =
  as_UserID :: int
  as_GroupID :: int
  as_ValidityDays :: int
  as_AssignedBy :: int
  as_Notes :: string

definition appendSubscriptionNotes :: "string \<Rightarrow> string \<Rightarrow> string" where
  "appendSubscriptionNotes existingNotes newNotes =
     (if newNotes = [] then existingNotes
      else if existingNotes = [] then newNotes
      else existingNotes @ [CHR 0x0A] @ newNotes)"

definition renewedSubscriptionTerm :: "UserSubscription \<Rightarrow> string \<Rightarrow> gotime \<Rightarrow> gotime \<Rightarrow> UserSubscription" where
  "renewedSubscriptionTerm s notes startsAt expiresAt =
     s \<lparr> sb_StartsAt := startsAt, sb_ExpiresAt := expiresAt, sb_Status := SubscriptionStatusActive,
         sb_DailyWindowStart := Some startsAt, sb_WeeklyWindowStart := Some startsAt,
         sb_MonthlyWindowStart := Some startsAt, sb_DailyUsageUSD := 0, sb_WeeklyUsageUSD := 0,
         sb_MonthlyUsageUSD := 0, sb_Notes := appendSubscriptionNotes (sb_Notes s) notes \<rparr>"

text \<open>
  \<open>updateExistingSubscriptionTerm\<close> holds the lock of the row during its transaction, so its effect
  is one function of the row.
\<close>

definition existing_term ::
  "gotime \<Rightarrow> int \<Rightarrow> string \<Rightarrow> bool \<Rightarrow> UserSubscription \<Rightarrow> UserSubscription" where
  "existing_term now validityDays notes assignmentSemantics s =
     (if assignmentSemantics \<and> sb_Status s = SubscriptionStatusSuspended then s
      else
        let isExpired = (if assignmentSemantics
              then sb_Status s = SubscriptionStatusExpired \<or>
                   sb_Status s \<noteq> SubscriptionStatusSuspended \<and> sb_ExpiresAt s \<le> now
              else sb_ExpiresAt s \<le> now);
            newExpiresAt = cap_expiry ((if isExpired then now else sb_ExpiresAt s) + validityDays * Day);
            notes = (if assignmentSemantics \<and> strings_TrimSpace (sb_Notes s) = strings_TrimSpace notes then [] else notes)
        in if isExpired then renewedSubscriptionTerm s notes now newExpiresAt
           else s \<lparr> sb_ExpiresAt := newExpiresAt, sb_Status := SubscriptionStatusActive,
                    sb_Notes := (if notes \<noteq> [] then appendSubscriptionNotes (sb_Notes s) notes else sb_Notes s) \<rparr>)"

definition updateExistingSubscriptionTerm ::
  "gotime \<Rightarrow> int \<Rightarrow> int \<Rightarrow> string \<Rightarrow> bool \<Rightarrow> sub_table \<Rightarrow> sub_error + sub_table" where
  "updateExistingSubscriptionTerm now i validityDays notes assignmentSemantics t =
     (case sub_by_id i t of
        None \<Rightarrow> Inl ErrSubscriptionNotFound
      | Some _ \<Rightarrow> Inr (update_sub i (\<lambda>_. True) (existing_term now validityDays notes assignmentSemantics) t))"

definition createSubscription :: "gotime \<Rightarrow> AssignSubscriptionInput \<Rightarrow> sub_table \<Rightarrow> sub_error + UserSubscription \<times> sub_table" where
  "createSubscription now inp t =
     (if GetByUserIDAndGroupID (as_UserID inp) (as_GroupID inp) t \<noteq> None then Inl ErrSubscriptionAlreadyExists
      else
        let sub = \<lparr> sb_ID = next_sub_id t, sb_UserID = as_UserID inp, sb_GroupID = as_GroupID inp,
              sb_StartsAt = now,
              sb_ExpiresAt = cap_expiry (now + normalizeAssignValidityDays (as_ValidityDays inp) * Day),
              sb_Status = SubscriptionStatusActive,
              sb_DailyWindowStart = None, sb_WeeklyWindowStart = None, sb_MonthlyWindowStart = None,
              sb_DailyUsageUSD = 0, sb_WeeklyUsageUSD = 0, sb_MonthlyUsageUSD = 0,
              sb_AssignedBy = (if 0 < as_AssignedBy inp then Some (as_AssignedBy inp) else None),
              sb_AssignedAt = now, sb_Notes = as_Notes inp, sb_DeletedAt = None \<rparr>
        in Inr (sub, t @ [sub]))"

definition find_group :: "int \<Rightarrow> subscription_group list \<Rightarrow> subscription_group option" where
  "find_group i gs = find (\<lambda>g. sg_ID g = i) gs"

text \<open>\<open>assignOrExtendSubscription\<close>, inside the transaction of its caller: the flag says that a subscription was extended.\<close>

definition assignOrExtendSubscription ::
  "gotime \<Rightarrow> subscription_group list \<Rightarrow> AssignSubscriptionInput \<Rightarrow> sub_table \<Rightarrow> sub_error + bool \<times> sub_table" where
  "assignOrExtendSubscription now gs inp t =
     (case find_group (as_GroupID inp) gs of
        None \<Rightarrow> Inl ErrGroupNotFound
      | Some g \<Rightarrow>
          if \<not> IsSubscriptionType g then Inl ErrGroupNotSubscriptionType
          else
            let validityDays = normalizeAssignValidityDays (as_ValidityDays inp)
            in case GetByUserIDAndGroupID (as_UserID inp) (as_GroupID inp) t of
                 Some s \<Rightarrow>
                   (case updateExistingSubscriptionTerm now (sb_ID s) validityDays (as_Notes inp) False t of
                      Inl e \<Rightarrow> Inl e
                    | Inr t' \<Rightarrow> Inr (True, t'))
               | None \<Rightarrow>
                   (case createSubscription now inp t of
                      Inl e \<Rightarrow> Inl e
                    | Inr r \<Rightarrow> Inr (False, snd r)))"

definition detectAssignSemanticConflict :: "UserSubscription \<Rightarrow> AssignSubscriptionInput \<Rightarrow> string option" where
  "detectAssignSemanticConflict s inp =
     (let expectedExpiresAt = cap_expiry (sb_StartsAt s + normalizeAssignValidityDays (as_ValidityDays inp) * Day)
      in if \<not> time_IsZero (sb_StartsAt s) \<and> sb_ExpiresAt s \<noteq> expectedExpiresAt then Some ''validity_days_mismatch''
         else if strings_TrimSpace (sb_Notes s) \<noteq> strings_TrimSpace (as_Notes inp) then Some ''notes_mismatch''
         else None)"

text \<open>\<open>assignSubscriptionWithReuse\<close> without interference between its statements.\<close>

definition assignSubscriptionWithReuse ::
  "gotime \<Rightarrow> subscription_group list \<Rightarrow> AssignSubscriptionInput \<Rightarrow> sub_table \<Rightarrow> sub_error + bool \<times> sub_table" where
  "assignSubscriptionWithReuse now gs inp t =
     (case find_group (as_GroupID inp) gs of
        None \<Rightarrow> Inl ErrGroupNotFound
      | Some g \<Rightarrow>
          if \<not> IsSubscriptionType g then Inl ErrGroupNotSubscriptionType
          else case GetByUserIDAndGroupID (as_UserID inp) (as_GroupID inp) t of
                 Some s \<Rightarrow>
                   if sb_Status s = SubscriptionStatusExpired \<or>
                      sb_Status s \<noteq> SubscriptionStatusSuspended \<and> sb_ExpiresAt s \<le> now
                   then (case updateExistingSubscriptionTerm now (sb_ID s)
                                (normalizeAssignValidityDays (as_ValidityDays inp)) (as_Notes inp) True t of
                           Inl e \<Rightarrow> Inl e
                         | Inr t' \<Rightarrow> Inr (True, t'))
                   else (case detectAssignSemanticConflict s inp of
                           Some reason \<Rightarrow> Inl (ErrSubscriptionAssignConflict reason)
                         | None \<Rightarrow> Inr (True, t))
               | None \<Rightarrow>
                   (case createSubscription now inp t of
                      Inl e \<Rightarrow> Inl e
                    | Inr r \<Rightarrow> Inr (False, snd r)))"

text \<open>The decision of \<open>ExtendSubscription\<close>: the new end of the term, from the row it read.\<close>

definition adjusted_expiry :: "gotime \<Rightarrow> int \<Rightarrow> UserSubscription \<Rightarrow> sub_error + gotime" where
  "adjusted_expiry now days s =
     (let days = (if MaxValidityDays < days then MaxValidityDays else days);
          days = (if days < - MaxValidityDays then - MaxValidityDays else days);
          isExpired = (sb_ExpiresAt s \<le> now)
      in if isExpired \<and> days < 0 then Inl ErrCannotShortenExpired
         else
           let newExpiresAt = cap_expiry ((if isExpired then now else sb_ExpiresAt s) + days * Day)
           in if newExpiresAt \<le> now then Inl ErrAdjustWouldExpire else Inr newExpiresAt)"

definition ExtendSubscription :: "gotime \<Rightarrow> int \<Rightarrow> int \<Rightarrow> sub_table \<Rightarrow> sub_error + sub_table" where
  "ExtendSubscription now i days t =
     (case sub_by_id i t of
        None \<Rightarrow> Inl ErrSubscriptionNotFound
      | Some s \<Rightarrow>
          (case adjusted_expiry now days s of
             Inl e \<Rightarrow> Inl e
           | Inr newExpiresAt \<Rightarrow>
               Inr (update_sub i (\<lambda>_. True)
                 (\<lambda>r. r \<lparr> sb_ExpiresAt := newExpiresAt,
                         sb_Status := (if sb_Status s = SubscriptionStatusExpired then SubscriptionStatusActive
                                       else sb_Status r) \<rparr>) t)))"

definition RevokeSubscription :: "gotime \<Rightarrow> int \<Rightarrow> sub_table \<Rightarrow> sub_error + sub_table" where
  "RevokeSubscription now i t =
     (case sub_by_id i t of
        None \<Rightarrow> Inl ErrSubscriptionNotFound
      | Some _ \<Rightarrow> Inr (update_sub i live (\<lambda>r. r \<lparr> sb_DeletedAt := Some now \<rparr>) t))"

definition RestoreSubscription :: "gotime \<Rightarrow> int \<Rightarrow> sub_table \<Rightarrow> sub_error + sub_table" where
  "RestoreSubscription now i t =
     (case find (\<lambda>s. sb_ID s = i) t of
        None \<Rightarrow> Inl ErrSubscriptionNotFound
      | Some s \<Rightarrow>
          if live s then Inl ErrSubscriptionNotRevoked
          else if GetByUserIDAndGroupID (sb_UserID s) (sb_GroupID s) t \<noteq> None then Inl ErrSubscriptionRestoreConflict
          else
            let restoredStatus = (if sb_Status s = SubscriptionStatusActive \<and> sb_ExpiresAt s \<le> now
                  then SubscriptionStatusExpired else sb_Status s)
            in Inr (map (\<lambda>r. if sb_ID r = i then r \<lparr> sb_Status := restoredStatus, sb_DeletedAt := None \<rparr> else r) t))"

text \<open>\<open>reduceOrCancelSubscription\<close> of the redeem service, for codes of a negative number of days.\<close>

definition reduceOrCancelSubscription ::
  "gotime \<Rightarrow> int \<Rightarrow> int \<Rightarrow> int \<Rightarrow> string \<Rightarrow> sub_table \<Rightarrow> sub_error + sub_table" where
  "reduceOrCancelSubscription now u g reduceDays notes t =
     (case GetByUserIDAndGroupID u g t of
        None \<Rightarrow> Inl ErrSubscriptionNotFound
      | Some s \<Rightarrow>
          let left = time_Sub (sb_ExpiresAt s) now;
              remaining = (if left < 0 then 0 else left div Day);
              newNotes = (if sb_Notes s \<noteq> [] then sb_Notes s @ [CHR 0x0A] else []) @ notes
          in Inr (update_sub (sb_ID s) (\<lambda>_. True)
               (\<lambda>r. (if remaining \<le> reduceDays
                     then r \<lparr> sb_Status := SubscriptionStatusExpired, sb_ExpiresAt := now \<rparr>
                     else r \<lparr> sb_ExpiresAt := sb_ExpiresAt s - reduceDays * Day \<rparr>) \<lparr> sb_Notes := newNotes \<rparr>) t))"

definition BatchUpdateExpiredStatus :: "gotime \<Rightarrow> sub_table \<Rightarrow> nat \<times> sub_table" where
  "BatchUpdateExpiredStatus now t =
     (let due = (\<lambda>s. live s \<and> sb_Status s = SubscriptionStatusActive \<and> sb_ExpiresAt s \<le> now)
      in (length (filter due t), map (\<lambda>s. if due s then s \<lparr> sb_Status := SubscriptionStatusExpired \<rparr> else s) t))"

end
