(* ===== verification/Subscription_Windows.thy ===== *)
theory Subscription_Windows
  imports Subscription Statement_Program Idempotency_Store
begin

text \<open>
  The maintenance of the usage windows (\<open>CheckAndActivateWindow\<close>, \<open>CheckAndResetWindows\<close>,
  \<open>EnsureWindowMaintenance\<close>) next to the recording of usage, as programs on the table of
  subscriptions: every request of a subscription may run both, from a copy of the row that a cache
  gave it. The lemmas: where an automatic reset puts the start of the window, that one reset catches
  up with the clock, what a purchase does to the term, and that no interleaving of maintenance
  and recording loses usage of the current window.
\<close>

section \<open>The start of the current window\<close>

lemma period_pos [simp]: "0 < period w"
  by (cases w) (simp_all add: Hour_def)

lemma window_anchor_ge: "p \<le> window_anchor tz s p"
  by (simp add: window_anchor_def Let_def)

definition within_duration :: "gotime \<Rightarrow> gotime \<Rightarrow> bool" where
  "within_duration t u \<longleftrightarrow> minDuration \<le> t - u \<and> t - u \<le> maxDuration"

lemma time_Sub_exact: "within_duration t u \<Longrightarrow> time_Sub t u = t - u"
  by (simp add: within_duration_def time_Sub_def)

lemma automatic_cases:
  assumes "automaticWindowStartAt tz s (Some p) per now = Some w"
  obtains "window_anchor tz s p + per \<le> now" and "window_anchor tz s p + per < sb_ExpiresAt s"
    and "w = window_anchor tz s p +
      min (time_Sub now (window_anchor tz s p) div per) ((time_Sub (sb_ExpiresAt s) (window_anchor tz s p) - 1) div per) * per"
  using assms by (auto simp: automaticWindowStartAt_def Let_def min_def split: if_splits)

lemma automatic_Some:
  assumes "automaticWindowStartAt tz s previous per now = Some w"
  obtains p where "previous = Some p"
  using assms by (cases previous) (auto simp: automaticWindowStartAt_def)

lemma time_Sub_ge: "d \<le> maxDuration \<Longrightarrow> u + d \<le> t \<Longrightarrow> 0 \<le> d \<Longrightarrow> d \<le> time_Sub t u"
  by (auto simp: time_Sub_def minDuration_def min_def max_def)

lemma automatic_advances:
  assumes "automaticWindowStartAt tz s (Some p) per now = Some w" and "0 < per" and "per < maxDuration"
  shows "p < w" and "window_anchor tz s p + per \<le> w"
proof -
  let ?a = "window_anchor tz s p"
  from assms(1) obtain g: "?a + per \<le> now" "?a + per < sb_ExpiresAt s"
    and w: "w = ?a + min (time_Sub now ?a div per) ((time_Sub (sb_ExpiresAt s) ?a - 1) div per) * per"
    by (rule automatic_cases)
  have "per \<le> time_Sub now ?a" using time_Sub_ge [of per ?a now] g(1) assms(2,3) by simp
  then have "1 \<le> time_Sub now ?a div per" using assms(2) by (simp add: pos_imp_zdiv_pos_iff int_one_le_iff_zero_less)
  moreover have "per + 1 \<le> time_Sub (sb_ExpiresAt s) ?a" using time_Sub_ge [of "per + 1" ?a] g(2) assms(2,3) by simp
  then have "1 \<le> (time_Sub (sb_ExpiresAt s) ?a - 1) div per"
    using assms(2) by (simp add: pos_imp_zdiv_pos_iff int_one_le_iff_zero_less)
  ultimately have "1 \<le> min (time_Sub now ?a div per) ((time_Sub (sb_ExpiresAt s) ?a - 1) div per)" by simp
  then have "1 * per \<le> min (time_Sub now ?a div per) ((time_Sub (sb_ExpiresAt s) ?a - 1) div per) * per"
    using assms(2) by (intro mult_right_mono) simp_all
  then show "?a + per \<le> w" using w by simp
  then show "p < w" using window_anchor_ge [of p tz s] assms(2) by simp
qed

lemma quotient_bounds:
  fixes x per :: int
  assumes "0 < per"
  shows "x div per * per \<le> x" and "x < x div per * per + per"
  using assms pos_mod_bound [of per x] pos_mod_sign [of per x] div_mult_mod_eq [of x per] by linarith+

lemma automatic_bounds:
  assumes "automaticWindowStartAt tz s (Some p) per now = Some w" and "0 < per"
    and "within_duration now (window_anchor tz s p)" and "within_duration (sb_ExpiresAt s) (window_anchor tz s p)"
  shows "w \<le> now" and "w < sb_ExpiresAt s" and "now < w + per \<or> sb_ExpiresAt s \<le> w + per"
proof -
  let ?a = "window_anchor tz s p"
  let ?k = "(now - ?a) div per" and ?l = "(sb_ExpiresAt s - ?a - 1) div per"
  from assms(1) have w: "w = ?a + min ?k ?l * per"
    by (rule automatic_cases) (simp add: time_Sub_exact [OF assms(3)] time_Sub_exact [OF assms(4)])
  note b = quotient_bounds [OF assms(2), of "now - ?a"] quotient_bounds [OF assms(2), of "sb_ExpiresAt s - ?a - 1"]
  have m: "min ?k ?l * per \<le> ?k * per" "min ?k ?l * per \<le> ?l * per"
    using assms(2) by (simp_all add: mult_right_mono)
  show "w \<le> now" using w m(1) b(1) by linarith
  show "w < sb_ExpiresAt s" using w m(2) b(3) by linarith
  have "min ?k ?l * per = ?k * per \<or> min ?k ?l * per = ?l * per" by (simp add: min_def)
  then show "now < w + per \<or> sb_ExpiresAt s \<le> w + per" using w b(2,4) by linarith
qed

lemma startOfDay_le: "startOfDay tz t \<le> t"
  using quotient_bounds(1) [OF Day_pos, of "t + tz"] by (simp add: startOfDay_def)

lemma anchor_eq: "window_anchor tz s p = (if p = startOfDay tz (sb_StartsAt s) then sb_StartsAt s else p)"
  using startOfDay_le [of tz "sb_StartsAt s"] by (auto simp: window_anchor_def Let_def)

text \<open>At most one multiple of the period is the last one that is neither after \<open>now\<close> nor at or after \<open>e\<close>.\<close>

lemma last_start_unique:
  fixes k l per a now e :: int
  assumes "0 < per" and "a + k * per \<le> now" and "a + k * per < e"
    and "now < a + l * per + per \<or> e \<le> a + l * per + per"
  shows "k \<le> l"
proof (rule ccontr)
  assume "\<not> k \<le> l"
  then have "(l + 1) * per \<le> k * per" using assms(1) by (intro mult_right_mono) simp_all
  then show False using assms(2-4) by (auto simp: distrib_right)
qed

text \<open>
  Property C32 (functional). An automatic reset puts the start of the usage window where the clock is.
  The anchor is the old start; a window that was opened at midnight of the day the subscription began,
  as older versions did, is anchored at the beginning of the subscription instead. A reset happens exactly
  when some later start, a whole number of periods after the anchor, has been reached and is before the
  end of the subscription, and the new start is the last such one: the clock has not reached the end of
  the window it opens, unless the next window would begin at or after the end of the subscription. So one
  reset catches up, however many periods the subscription was idle. The premise: the clock and the end
  of the subscription are no more than about 292 years from the anchor, the range of a duration.
\<close>

theorem automatic_window_start:
  assumes "a = (if p = startOfDay tz (sb_StartsAt s) then sb_StartsAt s else p)"
    and "within_duration now a" and "within_duration (sb_ExpiresAt s) a"
  shows "automaticWindowStartAt tz s (Some p) (period w) now = Some t \<longleftrightarrow>
    (\<exists>k \<ge> 1. t = a + k * period w) \<and> t \<le> now \<and> t < sb_ExpiresAt s \<and>
    (now < t + period w \<or> sb_ExpiresAt s \<le> t + period w)" (is "?f = Some t \<longleftrightarrow> ?last t")
proof -
  have per: "0 < period w" "period w < maxDuration" by (cases w; simp add: Hour_def maxDuration_def)+
  have a: "window_anchor tz s p = a" by (simp add: anchor_eq assms(1))
  have sound: "?last u" if u: "?f = Some u" for u
  proof -
    note adv = automatic_advances [OF u per]
    note b = automatic_bounds [OF u per(1), unfolded a, OF assms(2,3)]
    obtain k where k: "u = a + k * period w" using u by (rule automatic_cases) (auto simp: a)
    then have "1 * period w \<le> k * period w" using adv(2) by (simp add: a)
    then have "1 \<le> k" using per(1) by (simp add: mult_le_cancel_right)
    then show ?thesis using k b by blast
  qed
  show ?thesis
  proof
    assume l: "?last t"
    then obtain k where k: "1 \<le> k" "t = a + k * period w" by blast
    then have "1 * period w \<le> k * period w" using less_imp_le [OF per(1)] by (intro mult_right_mono) simp_all
    then have "a + period w \<le> now" "a + period w < sb_ExpiresAt s" using l k(2) by linarith+
    then obtain u where u: "?f = Some u" by (auto simp: automaticWindowStartAt_def Let_def a)
    then obtain j where j: "u = a + j * period w" using sound by blast
    have "k \<le> j" "j \<le> k"
      using last_start_unique [OF per(1), of a k now "sb_ExpiresAt s" j]
        last_start_unique [OF per(1), of a j now "sb_ExpiresAt s" k] l sound [OF u] j k(2) by simp_all
    then show "?f = Some t" using u j k(2) by simp
  qed (rule sound)
qed

definition example_sub :: UserSubscription where
  "example_sub = \<lparr> sb_ID = 7, sb_UserID = 1, sb_GroupID = 2, sb_StartsAt = 10 * Day + Hour,
     sb_ExpiresAt = 40 * Day + Hour, sb_Status = SubscriptionStatusActive,
     sb_DailyWindowStart = Some (10 * Day), sb_WeeklyWindowStart = Some (10 * Day), sb_MonthlyWindowStart = Some (10 * Day),
     sb_DailyUsageUSD = 3, sb_WeeklyUsageUSD = 3, sb_MonthlyUsageUSD = 3,
     sb_AssignedBy = None, sb_AssignedAt = 10 * Day + Hour, sb_Notes = [], sb_DeletedAt = None \<rparr>"

text \<open>The window of the example was opened at midnight of the first day and is anchored an hour later.\<close>

theorem automatic_window_start_witness:
  "automaticWindowStartAt 0 example_sub (Some (10 * Day)) (period Daily) (13 * Day + 5 * Hour) = Some (13 * Day + Hour) \<and>
   (\<exists>k \<ge> 1. 13 * Day + Hour = (10 * Day + Hour) + k * period Daily) \<and> 13 * Day + 5 * Hour < 13 * Day + Hour + period Daily"
proof -
  have a: "10 * Day + Hour = (if 10 * Day = startOfDay 0 (sb_StartsAt example_sub) then sb_StartsAt example_sub else 10 * Day)"
    "within_duration (13 * Day + 5 * Hour) (10 * Day + Hour)"
    "within_duration (sb_ExpiresAt example_sub) (10 * Day + Hour)" by code_simp+
  have f: "automaticWindowStartAt 0 example_sub (Some (10 * Day)) (period Daily) (13 * Day + 5 * Hour) = Some (13 * Day + Hour)"
    by code_simp
  have "\<not> sb_ExpiresAt example_sub \<le> 13 * Day + Hour + period Daily" by code_simp
  then show ?thesis using f iffD1 [OF automatic_window_start [OF a] f] by blast
qed

section \<open>Terms\<close>

definition subs_ok :: "sub_table \<Rightarrow> bool" where
  "subs_ok t \<longleftrightarrow> distinct (map sb_ID t) \<and>
     (\<forall>r \<in> set t. \<forall>s \<in> set t. live r \<and> live s \<and> sb_UserID r = sb_UserID s \<and> sb_GroupID r = sb_GroupID s \<longrightarrow> r = s)"

lemma fold_max_ge: "m \<le> fold (\<lambda>s m. max m (sb_ID s)) t m"
  by (induction t arbitrary: m) (auto intro: order.trans [OF max.cobounded1])

lemma fold_max_in: "s \<in> set t \<Longrightarrow> sb_ID s \<le> fold (\<lambda>s m. max m (sb_ID s)) t m"
proof (induction t arbitrary: m)
  case (Cons r t)
  show ?case
  proof (cases "s = r")
    case True
    then show ?thesis using fold_max_ge [of "max m (sb_ID r)" t] by simp
  next
    case False
    then show ?thesis using Cons by simp
  qed
qed simp

lemma next_sub_id_fresh: "s \<in> set t \<Longrightarrow> sb_ID s < next_sub_id t"
  using fold_max_in [of s t 0] by (simp add: next_sub_id_def)

lemma subs_ok_unique:
  assumes "subs_ok t" and "r \<in> set t" and "s \<in> set t" and "live r" and "live s"
    and "sb_UserID r = sb_UserID s" and "sb_GroupID r = sb_GroupID s"
  shows "r = s"
  using assms by (simp add: subs_ok_def)

lemma subs_ok_id: "subs_ok t \<Longrightarrow> r \<in> set t \<Longrightarrow> s \<in> set t \<Longrightarrow> sb_ID r = sb_ID s \<Longrightarrow> r = s"
  by (simp add: subs_ok_def distinct_map inj_on_def)

lemma user_group_iff:
  assumes "subs_ok t"
  shows "GetByUserIDAndGroupID u g t = Some s \<longleftrightarrow> s \<in> set t \<and> live s \<and> sb_UserID s = u \<and> sb_GroupID s = g"
proof
  assume "GetByUserIDAndGroupID u g t = Some s"
  from find_SomeD [OF this [unfolded GetByUserIDAndGroupID_def]]
  show "s \<in> set t \<and> live s \<and> sb_UserID s = u \<and> sb_GroupID s = g" by simp
next
  assume s: "s \<in> set t \<and> live s \<and> sb_UserID s = u \<and> sb_GroupID s = g"
  then show "GetByUserIDAndGroupID u g t = Some s"
    unfolding GetByUserIDAndGroupID_def using subs_ok_unique [OF assms] by (intro find_the) simp_all
qed

lemma user_group_None: "GetByUserIDAndGroupID u g t = None \<longleftrightarrow> (\<forall>s \<in> set t. \<not> (sb_UserID s = u \<and> sb_GroupID s = g \<and> live s))"
  by (auto simp: GetByUserIDAndGroupID_def find_None_iff)

lemma sub_by_id_iff:
  assumes "subs_ok t"
  shows "sub_by_id i t = Some s \<longleftrightarrow> s \<in> set t \<and> live s \<and> sb_ID s = i"
proof
  assume "sub_by_id i t = Some s"
  from find_SomeD [OF this [unfolded sub_by_id_def]] show "s \<in> set t \<and> live s \<and> sb_ID s = i" by simp
next
  assume "s \<in> set t \<and> live s \<and> sb_ID s = i"
  then show "sub_by_id i t = Some s"
    unfolding sub_by_id_def using subs_ok_id [OF assms] by (intro find_the) simp_all
qed

text \<open>An update that keeps what identifies a row.\<close>

definition keeps_identity :: "(UserSubscription \<Rightarrow> UserSubscription) \<Rightarrow> bool" where
  "keeps_identity f \<longleftrightarrow> (\<forall>s. sb_ID (f s) = sb_ID s \<and> sb_UserID (f s) = sb_UserID s \<and> sb_GroupID (f s) = sb_GroupID s \<and>
     sb_DeletedAt (f s) = sb_DeletedAt s)"

lemma map_subs_ok:
  assumes "subs_ok t" and "keeps_identity f"
  shows "subs_ok (map f t)"
  unfolding subs_ok_def
proof (intro conjI ballI impI)
  have id: "sb_ID (f s) = sb_ID s" "sb_UserID (f s) = sb_UserID s" "sb_GroupID (f s) = sb_GroupID s" "live (f s) = live s" for s
    using assms(2) by (simp_all add: keeps_identity_def live_def)
  show "distinct (map sb_ID (map f t))" using assms(1) by (simp add: subs_ok_def o_def id(1))
  fix a b
  assume "a \<in> set (map f t)" "b \<in> set (map f t)"
  then obtain r s where rs: "r \<in> set t" "a = f r" "s \<in> set t" "b = f s" by auto
  assume "live a \<and> live b \<and> sb_UserID a = sb_UserID b \<and> sb_GroupID a = sb_GroupID b"
  then show "a = b" using subs_ok_unique [OF assms(1) rs(1,3)] by (simp add: rs(2,4) id)
qed

lemma update_sub_ok:
  assumes "subs_ok t" and "keeps_identity f"
  shows "subs_ok (update_sub i c f t)"
  unfolding update_sub_def using assms by (intro map_subs_ok) (simp_all add: keeps_identity_def)

lemma existing_term_identity: "keeps_identity (existing_term now d n b)"
  by (simp add: keeps_identity_def existing_term_def renewedSubscriptionTerm_def Let_def)

text \<open>An update of a live row leaves the rows of other users and groups and the deleted ones alone.\<close>

lemma update_other_rows:
  assumes "subs_ok t" and "s \<in> set t" and "live s" and "sb_UserID s = u" and "sb_GroupID s = g" and "keeps_identity f"
  shows "filter (\<lambda>r. \<not> (live r \<and> sb_UserID r = u \<and> sb_GroupID r = g)) (update_sub (sb_ID s) c f t) =
    filter (\<lambda>r. \<not> (live r \<and> sb_UserID r = u \<and> sb_GroupID r = g)) t"
proof -
  let ?P = "\<lambda>r. \<not> (live r \<and> sb_UserID r = u \<and> sb_GroupID r = g)"
  let ?f = "\<lambda>r. if sb_ID r = sb_ID s \<and> c r then f r else r"
  have P: "?P (?f r) = ?P r" for r using assms(6) by (simp add: keeps_identity_def live_def)
  have "?f r = r" if "r \<in> set (filter ?P t)" for r
    using that subs_ok_id [OF assms(1) _ assms(2)] assms(3-5) by auto
  then have "map ?f (filter ?P t) = filter ?P t" by (rule map_idI)
  then show ?thesis unfolding update_sub_def filter_map by (simp only: o_def P)
qed

lemma create_ok:
  assumes "subs_ok t" and "createSubscription now inp t = Inr (sub, t')"
  shows "subs_ok t'" and "t' = t @ [sub]" and "live sub"
proof -
  have n: "GetByUserIDAndGroupID (as_UserID inp) (as_GroupID inp) t = None" and t': "t' = t @ [sub]"
    and sub: "sb_ID sub = next_sub_id t" "sb_UserID sub = as_UserID inp" "sb_GroupID sub = as_GroupID inp" "live sub"
    using assms(2) by (auto simp: createSubscription_def Let_def live_def split: if_splits)
  have "sb_ID sub \<notin> sb_ID ` set t" using sub(1) next_sub_id_fresh by fastforce
  then show "subs_ok t'" using assms(1) t' sub n unfolding subs_ok_def user_group_None by auto
  show "t' = t @ [sub]" "live sub" using t' sub by simp_all
qed

lemma assign_ok:
  assumes "subs_ok t" and "assignOrExtendSubscription now gs inp t = Inr (ext, t')"
  shows "subs_ok t'"
proof (cases "GetByUserIDAndGroupID (as_UserID inp) (as_GroupID inp) t")
  case None
  then show ?thesis
    using assms create_ok(1) [OF assms(1)]
    by (auto simp: assignOrExtendSubscription_def Let_def split: option.splits if_splits sum.splits)
next
  case (Some s)
  then show ?thesis
    using assms update_sub_ok [OF assms(1) existing_term_identity]
    by (auto simp: assignOrExtendSubscription_def updateExistingSubscriptionTerm_def Let_def
        split: option.splits if_splits sum.splits)
qed

text \<open>
  Property C33 (functional). A purchase for an existing subscription group never fails, and afterwards the
  user has an active subscription of the group that ends exactly the bought days after the later of now and
  the end the subscription had (30 days when the number is not positive, at most 36500), capped at the year
  2099. The flag says whether a subscription existed. All other rows, those of other users and groups and
  the deleted ones, are what they were, in the same order.
\<close>

theorem assign_gives_days:
  assumes "subs_ok t" and "find_group (as_GroupID inp) gs = Some g" and "IsSubscriptionType g"
  shows "\<exists>t' s. assignOrExtendSubscription now gs inp t =
      Inr (GetByUserIDAndGroupID (as_UserID inp) (as_GroupID inp) t \<noteq> None, t') \<and>
    GetByUserIDAndGroupID (as_UserID inp) (as_GroupID inp) t' = Some s \<and> sb_Status s = SubscriptionStatusActive \<and>
    sb_ExpiresAt s = min MaxExpiresAt (normalizeAssignValidityDays (as_ValidityDays inp) * Day +
      (case GetByUserIDAndGroupID (as_UserID inp) (as_GroupID inp) t of
         None \<Rightarrow> now | Some r \<Rightarrow> max now (sb_ExpiresAt r))) \<and>
    filter (\<lambda>r. \<not> (live r \<and> sb_UserID r = as_UserID inp \<and> sb_GroupID r = as_GroupID inp)) t' =
      filter (\<lambda>r. \<not> (live r \<and> sb_UserID r = as_UserID inp \<and> sb_GroupID r = as_GroupID inp)) t"
proof (cases "GetByUserIDAndGroupID (as_UserID inp) (as_GroupID inp) t")
  case None
  then obtain sub where c: "createSubscription now inp t = Inr (sub, t @ [sub])"
    and sub: "sb_UserID sub = as_UserID inp" "sb_GroupID sub = as_GroupID inp" "sb_Status sub = SubscriptionStatusActive"
      "sb_ExpiresAt sub = cap_expiry (now + normalizeAssignValidityDays (as_ValidityDays inp) * Day)"
    by (simp add: createSubscription_def Let_def)
  have r: "assignOrExtendSubscription now gs inp t = Inr (False, t @ [sub])"
    using assms(2,3) None c by (simp add: assignOrExtendSubscription_def)
  have "GetByUserIDAndGroupID (as_UserID inp) (as_GroupID inp) (t @ [sub]) = Some sub"
    using user_group_iff [OF create_ok(1) [OF assms(1) c]] create_ok(3) [OF assms(1) c] sub by simp
  then show ?thesis using r None sub create_ok(3) [OF assms(1) c] by (auto simp: cap_expiry_def)
next
  case (Some s)
  let ?d = "normalizeAssignValidityDays (as_ValidityDays inp)"
  let ?u = "existing_term now ?d (as_Notes inp) False"
  let ?t = "update_sub (sb_ID s) (\<lambda>_. True) ?u t"
  have s: "s \<in> set t" "live s" "sb_UserID s = as_UserID inp" "sb_GroupID s = as_GroupID inp"
    using Some user_group_iff [OF assms(1)] by simp_all
  then have "sub_by_id (sb_ID s) t = Some s" using sub_by_id_iff [OF assms(1)] by simp
  then have r: "assignOrExtendSubscription now gs inp t = Inr (True, ?t)"
    using assms(2,3) Some by (simp add: assignOrExtendSubscription_def updateExistingSubscriptionTerm_def Let_def)
  have ok: "subs_ok ?t" by (rule update_sub_ok [OF assms(1) existing_term_identity])
  have "?u s \<in> set ?t" using s(1,2) by (force simp: update_sub_def)
  moreover have "live (?u s)" "sb_UserID (?u s) = as_UserID inp" "sb_GroupID (?u s) = as_GroupID inp"
    using existing_term_identity [of now ?d "as_Notes inp" False] s by (simp_all add: keeps_identity_def live_def)
  ultimately have "GetByUserIDAndGroupID (as_UserID inp) (as_GroupID inp) ?t = Some (?u s)"
    using user_group_iff [OF ok] by simp
  moreover have "sb_Status (?u s) = SubscriptionStatusActive"
    "sb_ExpiresAt (?u s) = min MaxExpiresAt (?d * Day + max now (sb_ExpiresAt s))"
    by (auto simp: existing_term_def renewedSubscriptionTerm_def Let_def cap_expiry_def)
  ultimately show ?thesis
    using r Some update_other_rows [OF assms(1) s existing_term_identity, of "\<lambda>_. True" now ?d "as_Notes inp" False] by auto
qed

theorem assign_gives_days_witness:
  "\<exists>t' s. assignOrExtendSubscription (50 * Day)
      [\<lparr> sg_ID = 2, sg_Status = ''active'', sg_SubscriptionType = ''subscription'', sg_DailyLimitUSD = None,
         sg_WeeklyLimitUSD = None, sg_MonthlyLimitUSD = None \<rparr>]
      \<lparr> as_UserID = 1, as_GroupID = 2, as_ValidityDays = 30, as_AssignedBy = 0, as_Notes = [] \<rparr> [example_sub] =
      Inr (True, t') \<and>
    GetByUserIDAndGroupID 1 2 t' = Some s \<and> sb_Status s = SubscriptionStatusActive \<and> sb_ExpiresAt s = 80 * Day"
  using assign_gives_days [of "[example_sub]"
      "\<lparr> as_UserID = 1, as_GroupID = 2, as_ValidityDays = 30, as_AssignedBy = 0, as_Notes = [] \<rparr>"
      "[\<lparr> sg_ID = 2, sg_Status = ''active'', sg_SubscriptionType = ''subscription'', sg_DailyLimitUSD = None,
         sg_WeeklyLimitUSD = None, sg_MonthlyLimitUSD = None \<rparr>]"
      "\<lparr> sg_ID = 2, sg_Status = ''active'', sg_SubscriptionType = ''subscription'', sg_DailyLimitUSD = None,
         sg_WeeklyLimitUSD = None, sg_MonthlyLimitUSD = None \<rparr>" "50 * Day"]
  by (auto simp: subs_ok_def find_group_def IsSubscriptionType_def GetByUserIDAndGroupID_def live_def example_sub_def
      normalizeAssignValidityDays_def MaxValidityDays_def MaxExpiresAt_def Day_def Hour_def Second_def)

section \<open>Maintenance and recording as programs\<close>

record sub_db =
  sd_subs :: sub_table
  sd_groups :: "int list" \<comment> \<open>the groups that are not deleted\<close>

record sub_input =
  si_fate :: fate
  si_now :: gotime

datatype sub_cmd =
    S_now
  | S_get int
  | S_exists int
  | S_activate int gotime
  | S_reset window int "gotime option" gotime
  | S_increment int rat
  | S_extend int gotime

datatype sub_reply = S_time gotime | S_row "UserSubscription option" | S_flag bool | S_rows nat | S_lost

definition sub_statement :: "fate \<Rightarrow> sub_db \<Rightarrow> sub_reply \<times> sub_db \<Rightarrow> sub_reply \<times> sub_db" where
  "sub_statement f db r = (case f of Works \<Rightarrow> r | Lost_before \<Rightarrow> (S_lost, db) | Lost_after \<Rightarrow> (S_lost, snd r))"

definition sub_update ::
  "int \<Rightarrow> (UserSubscription \<Rightarrow> bool) \<Rightarrow> (UserSubscription \<Rightarrow> UserSubscription) \<Rightarrow> sub_db \<Rightarrow> sub_reply \<times> sub_db" where
  "sub_update i c f db =
     (S_rows (affected_subs i c (sd_subs db)), db \<lparr> sd_subs := update_sub i c f (sd_subs db) \<rparr>)"

text \<open>
  \<open>ActivateWindows\<close>, the three \<open>Reset\<dots>Usage\<close> statements, which compare the start of the window with the
  one the caller saw, \<open>IncrementUsage\<close> and \<open>ExtendExpiry\<close>.
\<close>

definition ActivateWindows :: "int \<Rightarrow> gotime \<Rightarrow> sub_db \<Rightarrow> sub_reply \<times> sub_db" where
  "ActivateWindows i start =
     sub_update i (\<lambda>s. sb_DailyWindowStart s = None \<and> sb_WeeklyWindowStart s = None \<and> sb_MonthlyWindowStart s = None)
       (\<lambda>s. s \<lparr> sb_DailyWindowStart := Some start, sb_WeeklyWindowStart := Some start, sb_MonthlyWindowStart := Some start \<rparr>)"

definition ResetUsage :: "window \<Rightarrow> int \<Rightarrow> gotime option \<Rightarrow> gotime \<Rightarrow> sub_db \<Rightarrow> sub_reply \<times> sub_db" where
  "ResetUsage w i expectedWindowStart newWindowStart =
     sub_update i (\<lambda>s. window_start w s = expectedWindowStart) (\<lambda>s. set_start w (Some newWindowStart) (set_usage w 0 s))"

definition IncrementUsage :: "int \<Rightarrow> rat \<Rightarrow> sub_db \<Rightarrow> sub_reply \<times> sub_db" where
  "IncrementUsage i costUSD db =
     sub_update i (\<lambda>s. live s \<and> sb_GroupID s \<in> set (sd_groups db))
       (\<lambda>s. s \<lparr> sb_DailyUsageUSD := sb_DailyUsageUSD s + costUSD, sb_WeeklyUsageUSD := sb_WeeklyUsageUSD s + costUSD,
               sb_MonthlyUsageUSD := sb_MonthlyUsageUSD s + costUSD \<rparr>) db"

definition ExtendExpiry :: "int \<Rightarrow> gotime \<Rightarrow> sub_db \<Rightarrow> sub_reply \<times> sub_db" where
  "ExtendExpiry i newExpiresAt = sub_update i (\<lambda>_. True) (\<lambda>s. s \<lparr> sb_ExpiresAt := newExpiresAt \<rparr>)"

fun sub_exec :: "sub_input \<Rightarrow> sub_cmd \<Rightarrow> sub_db \<Rightarrow> sub_reply \<times> sub_db" where
  "sub_exec inp S_now db = (S_time (si_now inp), db)"
| "sub_exec inp (S_get i) db = sub_statement (si_fate inp) db (S_row (sub_by_id i (sd_subs db)), db)"
| "sub_exec inp (S_exists i) db = sub_statement (si_fate inp) db (S_flag (sub_by_id i (sd_subs db) \<noteq> None), db)"
| "sub_exec inp (S_activate i t) db = sub_statement (si_fate inp) db (ActivateWindows i t db)"
| "sub_exec inp (S_reset w i p t) db = sub_statement (si_fate inp) db (ResetUsage w i p t db)"
| "sub_exec inp (S_increment i q) db = sub_statement (si_fate inp) db (IncrementUsage i q db)"
| "sub_exec inp (S_extend i t) db = sub_statement (si_fate inp) db (ExtendExpiry i t db)"

type_synonym 'a sub_prog = "(sub_cmd, sub_reply, 'a) prog"

text \<open>\<open>translateConditionalWindowReset\<close>: a statement that changed no row lost a race, unless the row is missing.\<close>

definition translateConditionalWindowReset :: "sub_cmd \<Rightarrow> int \<Rightarrow> sub_error option sub_prog" where
  "translateConditionalWindowReset c i =
     Do c (\<lambda>r. case r of
       S_rows n \<Rightarrow>
         if 0 < n then Return None
         else Do (S_exists i) (\<lambda>r. case r of
                S_flag e \<Rightarrow> Return (if e then None else Some ErrSubscriptionNotFound)
              | _ \<Rightarrow> Return (Some ErrSubscriptionStore))
     | _ \<Rightarrow> Return (Some ErrSubscriptionStore))"

definition CheckAndActivateWindow :: "UserSubscription \<Rightarrow> sub_error option sub_prog" where
  "CheckAndActivateWindow s =
     Do S_now (\<lambda>r. case r of
       S_time now \<Rightarrow>
         if IsWindowActivated s then Return None
         else translateConditionalWindowReset (S_activate (sb_ID s) now) (sb_ID s)
     | _ \<Rightarrow> Return (Some ErrSubscriptionStore))"

fun reset_windows :: "duration \<Rightarrow> gotime \<Rightarrow> window list \<Rightarrow> UserSubscription \<Rightarrow> (sub_error option \<times> UserSubscription) sub_prog" where
  "reset_windows tz now [] s = Return (None, s)"
| "reset_windows tz now (w # ws) s =
     (case automatic_start tz w now s of
        None \<Rightarrow> reset_windows tz now ws s
      | Some t \<Rightarrow>
          bind_prog (translateConditionalWindowReset (S_reset w (sb_ID s) (window_start w s) t) (sb_ID s))
            (\<lambda>e. case e of
               Some e \<Rightarrow> Return (Some e, s)
             | None \<Rightarrow> reset_windows tz now ws (set_usage w 0 (set_start w (Some t) s))))"

definition CheckAndResetWindows :: "duration \<Rightarrow> UserSubscription \<Rightarrow> (sub_error option \<times> UserSubscription) sub_prog" where
  "CheckAndResetWindows tz s =
     Do S_now (\<lambda>r. case r of
       S_time now \<Rightarrow> reset_windows tz now [Daily, Weekly, Monthly] s
     | _ \<Rightarrow> Return (Some ErrSubscriptionStore, s))"

definition EnsureWindowMaintenance :: "duration \<Rightarrow> UserSubscription option \<Rightarrow> (sub_error + UserSubscription) sub_prog" where
  "EnsureWindowMaintenance tz so =
     (case so of
        None \<Rightarrow> Return (Inl ErrSubscriptionNilInput)
      | Some s \<Rightarrow>
          bind_prog (if IsWindowActivated s then Return None else CheckAndActivateWindow s)
            (\<lambda>e. case e of
               Some e \<Rightarrow> Return (Inl e)
             | None \<Rightarrow>
                 bind_prog (CheckAndResetWindows tz s)
                   (\<lambda>r. case fst r of
                      Some e \<Rightarrow> Return (Inl e)
                    | None \<Rightarrow>
                        Do (S_get (sb_ID s)) (\<lambda>r. case r of
                          S_row (Some refreshed) \<Rightarrow> Return (Inr refreshed)
                        | S_row None \<Rightarrow> Return (Inl ErrSubscriptionNotFound)
                        | _ \<Rightarrow> Return (Inl ErrSubscriptionStore)))))"

definition RecordUsage :: "int \<Rightarrow> rat \<Rightarrow> sub_error option sub_prog" where
  "RecordUsage i costUSD =
     Do (S_increment i costUSD) (\<lambda>r. case r of
       S_rows n \<Rightarrow> Return (if 0 < n then None else Some ErrSubscriptionNotFound)
     | _ \<Rightarrow> Return (Some ErrSubscriptionStore))"

text \<open>
  The requests of a world: maintenance from any copy of a subscription, recorded usage, and terms
  that are extended.
\<close>

datatype window_request = Maintain "UserSubscription option" | Record int rat | Prolong int gotime

primrec window_code :: "duration \<Rightarrow> window_request \<Rightarrow> unit sub_prog" where
  "window_code tz (Maintain so) = bind_prog (EnsureWindowMaintenance tz so) (\<lambda>_. Return ())"
| "window_code tz (Record i q) = bind_prog (RecordUsage i q) (\<lambda>_. Return ())"
| "window_code tz (Prolong i t) = Do (S_extend i t) (\<lambda>_. Return ())"

section \<open>No usage is lost\<close>

definition later :: "gotime option \<Rightarrow> gotime option \<Rightarrow> bool" where
  "later p q \<longleftrightarrow> (case q of None \<Rightarrow> False | Some t \<Rightarrow> (case p of None \<Rightarrow> True | Some s \<Rightarrow> s < t))"

definition row_evolves :: "UserSubscription \<Rightarrow> UserSubscription \<Rightarrow> bool" where
  "row_evolves s s' \<longleftrightarrow>
     (\<forall>w. window_start w s' = window_start w s \<and> window_usage w s \<le> window_usage w s' \<or>
          later (window_start w s) (window_start w s'))"

definition subs_evolve :: "sub_db \<Rightarrow> sub_db \<Rightarrow> bool" where
  "subs_evolve db db' \<longleftrightarrow>
     (\<forall>i s. sub_by_id i (sd_subs db) = Some s \<longrightarrow> (\<exists>s'. sub_by_id i (sd_subs db') = Some s' \<and> row_evolves s s'))"

lemma later_trans: "later p q \<Longrightarrow> later q r \<Longrightarrow> later p r"
  by (auto simp: later_def split: option.splits)

lemma row_evolves_refl: "row_evolves s s"
  by (simp add: row_evolves_def)

lemma row_evolves_trans:
  assumes "row_evolves r s" and "row_evolves s t"
  shows "row_evolves r t"
  unfolding row_evolves_def
proof
  fix w
  from assms have "window_start w s = window_start w r \<and> window_usage w r \<le> window_usage w s \<or> later (window_start w r) (window_start w s)"
    and "window_start w t = window_start w s \<and> window_usage w s \<le> window_usage w t \<or> later (window_start w s) (window_start w t)"
    by (simp_all add: row_evolves_def)
  then show "window_start w t = window_start w r \<and> window_usage w r \<le> window_usage w t \<or> later (window_start w r) (window_start w t)"
    using later_trans by fastforce
qed

abbreviation "good_sub \<equiv> good sub_exec (\<lambda>db. subs_ok (sd_subs db)) subs_evolve"

interpretation sw: interference sub_exec "\<lambda>db. subs_ok (sd_subs db)" subs_evolve
proof
  show "subs_evolve s s" for s using row_evolves_refl by (auto simp: subs_evolve_def)
  show "subs_evolve s1 s3" if "subs_evolve s1 s2" "subs_evolve s2 s3" for s1 s2 s3
    using that row_evolves_trans unfolding subs_evolve_def by blast
qed

text \<open>A statement that keeps the identity of the rows and lets each of them evolve.\<close>

definition kind_update :: "(UserSubscription \<Rightarrow> bool) \<Rightarrow> (UserSubscription \<Rightarrow> UserSubscription) \<Rightarrow> bool" where
  "kind_update c f \<longleftrightarrow> keeps_identity f \<and> (\<forall>s. c s \<longrightarrow> row_evolves s (f s))"

lemma kind_update_evolves:
  assumes "subs_ok (sd_subs db)" and "kind_update c f"
  shows "subs_ok (sd_subs (snd (sub_update i c f db)))" and "subs_evolve db (snd (sub_update i c f db))"
proof -
  have k: "keeps_identity f" using assms(2) by (simp add: kind_update_def)
  show ok: "subs_ok (sd_subs (snd (sub_update i c f db)))"
    using update_sub_ok [OF assms(1) k] by (simp add: sub_update_def)
  show "subs_evolve db (snd (sub_update i c f db))"
    unfolding subs_evolve_def
  proof (intro allI impI)
    fix j s
    assume "sub_by_id j (sd_subs db) = Some s"
    then have s: "s \<in> set (sd_subs db)" "live s" "sb_ID s = j" using sub_by_id_iff [OF assms(1)] by simp_all
    let ?s = "if sb_ID s = i \<and> c s then f s else s"
    have "?s \<in> set (sd_subs (snd (sub_update i c f db)))" using s(1) by (auto simp: sub_update_def update_sub_def)
    moreover have "live ?s" "sb_ID ?s = j" using s k by (auto simp: keeps_identity_def live_def)
    ultimately have "sub_by_id j (sd_subs (snd (sub_update i c f db))) = Some ?s" using sub_by_id_iff [OF ok] by blast
    moreover have "row_evolves s ?s" using assms(2) row_evolves_refl by (simp add: kind_update_def)
    ultimately show "\<exists>s'. sub_by_id j (sd_subs (snd (sub_update i c f db))) = Some s' \<and> row_evolves s s'" by blast
  qed
qed

definition kind_cmd :: "sub_cmd \<Rightarrow> bool" where
  "kind_cmd c \<longleftrightarrow> (case c of
       S_reset w i p t \<Rightarrow> later p (Some t)
     | S_increment i q \<Rightarrow> 0 \<le> q
     | _ \<Rightarrow> True)"

lemma kind_activate:
  "kind_update (\<lambda>s. sb_DailyWindowStart s = None \<and> sb_WeeklyWindowStart s = None \<and> sb_MonthlyWindowStart s = None)
     (\<lambda>s. s \<lparr> sb_DailyWindowStart := Some t, sb_WeeklyWindowStart := Some t, sb_MonthlyWindowStart := Some t \<rparr>)"
proof -
  have "later (window_start w s) (window_start w (s \<lparr> sb_DailyWindowStart := Some t, sb_WeeklyWindowStart := Some t, sb_MonthlyWindowStart := Some t \<rparr>))"
    if "sb_DailyWindowStart s = None \<and> sb_WeeklyWindowStart s = None \<and> sb_MonthlyWindowStart s = None" for w s
    using that by (cases w) (simp_all add: later_def)
  then show ?thesis by (simp add: kind_update_def keeps_identity_def row_evolves_def)
qed

lemma kind_reset:
  assumes "later p (Some t)"
  shows "kind_update (\<lambda>s. window_start w s = p) (\<lambda>s. set_start w (Some t) (set_usage w 0 s))"
proof -
  have "window_start v (set_start w (Some t) (set_usage w 0 s)) = (if v = w then Some t else window_start v s) \<and>
      window_usage v (set_start w (Some t) (set_usage w 0 s)) = (if v = w then 0 else window_usage v s)" for v s
    by (cases v; cases w) simp_all
  moreover have "keeps_identity (\<lambda>s. set_start w (Some t) (set_usage w 0 s))"
    by (cases w) (simp_all add: keeps_identity_def)
  ultimately show ?thesis using assms by (auto simp: kind_update_def row_evolves_def)
qed

lemma kind_increment:
  assumes "0 \<le> q"
  shows "kind_update c (\<lambda>s. s \<lparr> sb_DailyUsageUSD := sb_DailyUsageUSD s + q, sb_WeeklyUsageUSD := sb_WeeklyUsageUSD s + q,
    sb_MonthlyUsageUSD := sb_MonthlyUsageUSD s + q \<rparr>)" (is "kind_update c ?f")
proof -
  have "window_start w (?f s) = window_start w s \<and> window_usage w s \<le> window_usage w (?f s)" for w s
    using assms by (cases w) simp_all
  then show ?thesis by (simp add: kind_update_def keeps_identity_def row_evolves_def)
qed

lemma kind_extend: "kind_update c (\<lambda>s. s \<lparr> sb_ExpiresAt := t \<rparr>)"
proof -
  have "window_start w (s \<lparr> sb_ExpiresAt := t \<rparr>) = window_start w s \<and> window_usage w s \<le> window_usage w (s \<lparr> sb_ExpiresAt := t \<rparr>)" for w s
    by (cases w) simp_all
  then show ?thesis by (simp add: kind_update_def keeps_identity_def row_evolves_def)
qed

lemma statement_evolves:
  assumes "subs_ok (sd_subs db)" and "subs_ok (sd_subs (snd r))" and "subs_evolve db (snd r)"
    and "sub_statement f db r = (x, db')"
  shows "subs_ok (sd_subs db') \<and> subs_evolve db db'"
  using assms sw.evolves_refl by (cases f) (auto simp: sub_statement_def)

lemma exec_evolves:
  assumes ok: "subs_ok (sd_subs db)" and "kind_cmd c" and "sub_exec inp c db = (r, db')"
  shows "subs_ok (sd_subs db') \<and> subs_evolve db db'"
proof (cases c)
  case S_now
  then show ?thesis using assms sw.evolves_refl by simp
next
  case (S_get i)
  then show ?thesis using statement_evolves [OF ok _ _ assms(3) [unfolded S_get sub_exec.simps]] ok sw.evolves_refl by simp
next
  case (S_exists i)
  then show ?thesis using statement_evolves [OF ok _ _ assms(3) [unfolded S_exists sub_exec.simps]] ok sw.evolves_refl by simp
next
  case (S_activate i t)
  show ?thesis
    using statement_evolves [OF ok _ _ assms(3) [unfolded S_activate sub_exec.simps ActivateWindows_def]]
      kind_update_evolves [OF ok kind_activate] by blast
next
  case (S_reset w i p t)
  then have "later p (Some t)" using assms(2) by (simp add: kind_cmd_def)
  then show ?thesis
    using statement_evolves [OF ok _ _ assms(3) [unfolded S_reset sub_exec.simps ResetUsage_def]]
      kind_update_evolves [OF ok kind_reset] by blast
next
  case (S_increment i q)
  then have "0 \<le> q" using assms(2) by (simp add: kind_cmd_def)
  then show ?thesis
    using statement_evolves [OF ok _ _ assms(3) [unfolded S_increment sub_exec.simps IncrementUsage_def]]
      kind_update_evolves [OF ok kind_increment] by blast
next
  case (S_extend i t)
  show ?thesis
    using statement_evolves [OF ok _ _ assms(3) [unfolded S_extend sub_exec.simps ExtendExpiry_def]]
      kind_update_evolves [OF ok kind_extend] by blast
qed

lemma good_kind:
  assumes "kind_cmd c" and "\<And>r db. good_sub (k r) Q db"
  shows "good_sub (Do c k) Q db"
proof (rule good_DoI)
  fix db1 inp r db2
  assume "subs_evolve db db1" "subs_ok (sd_subs db1)" "sub_exec inp c db1 = (r, db2)"
  then show "subs_ok (sd_subs db2) \<and> subs_evolve db1 db2 \<and> good_sub (k r) Q db2"
    using exec_evolves [OF _ assms(1)] assms(2) by blast
qed

lemma good_end: "good_sub (Return a) (\<lambda>_ _. True) db"
  by (rule good_ReturnI) simp

lemma good_conditional:
  assumes "kind_cmd c"
  shows "good_sub (translateConditionalWindowReset c i) (\<lambda>_ _. True) db"
  unfolding translateConditionalWindowReset_def
  by (rule good_kind [OF assms]) (auto simp: kind_cmd_def good_end intro!: good_kind split: sub_reply.split)

lemma automatic_start_later:
  assumes "automatic_start tz w now s = Some t"
  shows "later (window_start w s) (Some t)"
proof -
  have a: "automaticWindowStartAt tz s (window_start w s) (period w) now = Some t"
    using assms by (simp add: automatic_start_def split: if_splits)
  then obtain p where p: "window_start w s = Some p" by (rule automatic_Some)
  have "0 < period w" "period w < maxDuration" by (cases w; simp add: Hour_def maxDuration_def)+
  from automatic_advances(1) [OF a [unfolded p] this] show ?thesis by (simp add: p later_def)
qed

lemma good_reset_windows: "good_sub (reset_windows tz now ws s) (\<lambda>_ _. True) db"
proof (induction ws arbitrary: s db)
  case (Cons w ws)
  show ?case
  proof (cases "automatic_start tz w now s")
    case (Some t)
    have "kind_cmd (S_reset w (sb_ID s) (window_start w s) t)"
      using automatic_start_later [OF Some] by (simp add: kind_cmd_def)
    note seq = sw.good_seq [OF good_conditional [OF this]]
    have "good_sub (case e of None \<Rightarrow> reset_windows tz now ws (set_usage w 0 (set_start w (Some t) s))
        | Some e \<Rightarrow> Return (Some e, s)) (\<lambda>_ _. True) db" for e db
      by (simp add: Cons good_end split: option.split)
    then show ?thesis unfolding reset_windows.simps Some option.case by (rule seq)
  qed (simp add: Cons)
qed (simp add: good_end)

lemma good_activate: "good_sub (CheckAndActivateWindow s) (\<lambda>_ _. True) db"
  unfolding CheckAndActivateWindow_def
  by (rule good_kind) (auto simp: kind_cmd_def good_end good_conditional split: sub_reply.split)

lemma good_resets: "good_sub (CheckAndResetWindows tz s) (\<lambda>_ _. True) db"
  unfolding CheckAndResetWindows_def
  by (rule good_kind) (auto simp: kind_cmd_def good_end good_reset_windows simp del: reset_windows.simps split: sub_reply.split)

lemma good_maintenance: "good_sub (EnsureWindowMaintenance tz so) (\<lambda>_ _. True) db"
proof (cases so)
  case None
  then show ?thesis by (simp add: EnsureWindowMaintenance_def good_end)
next
  case (Some s)
  have get: "good_sub (Do (S_get i) k) (\<lambda>_ _. True) db" if "\<And>r db. good_sub (k r) (\<lambda>_ _. True) db"
    for i db and k :: "sub_reply \<Rightarrow> (sub_error + UserSubscription) sub_prog"
    using that by (intro good_kind) (simp_all add: kind_cmd_def)
  have "good_sub (if IsWindowActivated s then Return None else CheckAndActivateWindow s) (\<lambda>_ _. True) db" for db
    by (simp add: good_end good_activate)
  then show ?thesis
    unfolding EnsureWindowMaintenance_def Some option.case
    by (rule sw.good_seq)
      (auto split: option.split sub_reply.split simp: good_end intro!: get sw.good_seq [OF good_resets])
qed

lemma good_window_code:
  assumes "\<And>i c. q = Record i c \<Longrightarrow> 0 \<le> c"
  shows "good_sub (window_code tz q) (\<lambda>_ _. True) db"
proof (cases q)
  case (Maintain so)
  then show ?thesis using sw.good_seq [OF good_maintenance good_end] by simp
next
  case (Record i c)
  have "good_sub (RecordUsage i c) (\<lambda>_ _. True) db"
    unfolding RecordUsage_def using assms [OF Record]
    by (intro good_kind) (auto simp: kind_cmd_def good_end split: sub_reply.split)
  then show ?thesis using sw.good_seq [OF _ good_end] Record by simp
next
  case (Prolong i t)
  then show ?thesis by (auto simp: kind_cmd_def good_end intro!: good_kind)
qed

text \<open>
  Property C16 (safety). Window maintenance never loses recorded usage. Requests maintain the windows from any
  copies of the subscriptions, however stale, record costs and extend terms, in any interleaving of their
  statements and with statements that fail. For every live subscription and each of its windows, the window
  at the end either has a later start, or it has the same start and at least the usage it had: a stale
  maintenance run cannot clear the usage of a window that another request has already moved on.
\<close>

theorem window_usage_kept:
  assumes "subs_ok (sd_subs db)" and "\<And>i c. Start (Record i c) \<in> set hs \<Longrightarrow> 0 \<le> c"
    and "world_run sub_exec (window_code tz) hs db = (ps, db')" and "sub_by_id i (sd_subs db) = Some s"
  shows "\<exists>s'. sub_by_id i (sd_subs db') = Some s' \<and>
    (window_start w s' = window_start w s \<and> window_usage w s \<le> window_usage w s' \<or>
     later (window_start w s) (window_start w s'))"
proof -
  have "subs_evolve db db'"
    using sw.good_world_run(2) [OF assms(1) good_window_code assms(3)] assms(2) by blast
  then show ?thesis using assms(4) unfolding subs_evolve_def row_evolves_def by blast
qed

text \<open>Two requests see the same past window; the second one resets it after the first has recorded its cost.\<close>

definition window_race :: "(sub_input, window_request) happening list" where
  "window_race =
     (let now = \<lparr> si_fate = Works, si_now = 13 * Day + 5 * Hour \<rparr>
      in [Start (Maintain (Some example_sub)), Start (Maintain (Some example_sub)), Start (Record 7 2),
          Turn 0 now, Turn 1 now, Turn 0 now, Turn 2 now, Turn 1 now])"

definition race_db :: sub_db where
  "race_db = \<lparr> sd_subs = [example_sub], sd_groups = [2] \<rparr>"

lemma window_race_end:
  "map (\<lambda>s. (sb_DailyWindowStart s, sb_DailyUsageUSD s)) (sd_subs (snd (world_run sub_exec (window_code 0) window_race race_db))) =
     [(Some (13 * Day + Hour), 2)]"
  by code_simp

theorem window_usage_kept_witness:
  "\<exists>s'. sub_by_id 7 (sd_subs (snd (world_run sub_exec (window_code 0) window_race race_db))) = Some s' \<and>
    (window_start Daily s' = Some (10 * Day) \<and> 3 \<le> sb_DailyUsageUSD s' \<or> later (Some (10 * Day)) (sb_DailyWindowStart s'))"
proof -
  let ?w = "world_run sub_exec (window_code 0) window_race race_db"
  have "\<exists>s'. sub_by_id 7 (sd_subs (snd ?w)) = Some s' \<and>
    (window_start Daily s' = window_start Daily example_sub \<and> window_usage Daily example_sub \<le> window_usage Daily s' \<or>
     later (window_start Daily example_sub) (window_start Daily s'))"
  proof (rule window_usage_kept)
    show "subs_ok (sd_subs race_db)" by (simp add: subs_ok_def race_db_def)
    show "0 \<le> c" if "Start (Record i c) \<in> set window_race" for i c using that by (simp add: window_race_def Let_def)
    show "?w = (fst ?w, snd ?w)" by simp
    show "sub_by_id 7 (sd_subs race_db) = Some example_sub" by (simp add: sub_by_id_def race_db_def example_sub_def live_def)
  qed
  then show ?thesis by (simp add: example_sub_def)
qed

end
