(* ===== verification/Decimal_Library.thy ===== *)
theory Decimal_Library
  imports Go_Any
begin

text \<open>
  Decimal arithmetic. The payment and billing code computes with a decimal library that is not part of
  the program (\<open>github.com/shopspring/decimal\<close>); its rounding operations are a parameter of the model,
  the record \<open>decimal_lib\<close>, and the definitions that use them take it as an argument. The locale
  \<open>decimal_library\<close> states what its documentation says of them, and the lemmas of the payment code rest on
  these laws. A decimal is the number it stands for; sums, products and comparisons of decimals are exact.

  \<open>round_half_away\<close> is the rounding of \<open>math.Round\<close> of the Go library and of a \<open>NUMERIC\<close> column of the database.
\<close>

section \<open>Rounding half away from zero\<close>

definition round_half_away :: "nat \<Rightarrow> rat \<Rightarrow> rat" where
  "round_half_away n q =
     (let r = of_int \<lfloor>\<bar>q\<bar> * 10 ^ n + 1 / 2\<rfloor> / 10 ^ n in if q < 0 then - r else r)"

definition trunc_int :: "rat \<Rightarrow> int" where
  "trunc_int q = (if 0 \<le> q then \<lfloor>q\<rfloor> else - \<lfloor>- q\<rfloor>)"

lemma Ints_floor: "x \<in> \<int> \<longleftrightarrow> of_int \<lfloor>x\<rfloor> = (x :: rat)"
  by (metis Ints_cases Ints_of_int floor_of_int)

lemma trunc_int_of_int [simp]: "trunc_int (of_int k) = k"
  by (simp add: trunc_int_def flip: of_int_minus)

lemma Ints_trunc: "of_int (trunc_int x) = x \<longleftrightarrow> (x :: rat) \<in> \<int>"
  by (metis Ints_cases Ints_of_int trunc_int_of_int)

lemma scaled_distance: "\<bar>u - q\<bar> * 10 ^ n = \<bar>u * 10 ^ n - q * 10 ^ n\<bar>" for u q :: rat
  by (simp add: abs_mult flip: left_diff_distrib)

lemma half_away_digits: "round_half_away n q * 10 ^ n \<in> \<int>"
  by (simp add: round_half_away_def Let_def)

lemma half_away_minus: "round_half_away n (- q) = - round_half_away n q"
  by (cases q "0 :: rat" rule: linorder_cases) (simp_all add: round_half_away_def Let_def floor_eq_iff)

lemma half_away_mono:
  assumes "0 \<le> a" and "a \<le> b"
  shows "round_half_away n a \<le> round_half_away n b"
proof -
  have "a * 10 ^ n \<le> b * 10 ^ n" using assms(2) by (simp add: mult_right_mono)
  then have "\<lfloor>a * 10 ^ n + 1 / 2\<rfloor> \<le> \<lfloor>b * 10 ^ n + 1 / 2\<rfloor>" by (intro floor_mono) simp
  then show ?thesis using assms by (simp add: round_half_away_def Let_def divide_right_mono)
qed

lemma half_away_nonneg: "0 \<le> a \<Longrightarrow> 0 \<le> round_half_away n a"
  by (simp add: round_half_away_def Let_def)

lemma half_away_exact:
  assumes "q * 10 ^ n \<in> \<int>"
  shows "round_half_away n q = q"
proof -
  obtain k where k: "q * 10 ^ n = of_int k" using assms by (rule Ints_cases)
  have a: "\<bar>q\<bar> * 10 ^ n = of_int \<bar>k\<bar>" using k by (metis abs_mult abs_numeral of_int_abs power_abs)
  have "\<lfloor>\<bar>q\<bar> * 10 ^ n + 1 / 2\<rfloor> = \<bar>k\<bar>" unfolding a by (intro floor_unique) simp_all
  moreover have "of_int \<bar>k\<bar> / 10 ^ n = \<bar>q\<bar>" using a by (simp add: field_simps)
  ultimately show ?thesis by (auto simp: round_half_away_def Let_def)
qed

lemma half_away_near: "\<bar>round_half_away n q - q\<bar> * 10 ^ n \<le> 1 / 2"
proof -
  have pos: "\<bar>round_half_away n q - q\<bar> * 10 ^ n \<le> 1 / 2" if "0 \<le> q" for q
  proof -
    let ?f = "of_int \<lfloor>q * 10 ^ n + 1 / 2\<rfloor> :: rat"
    have "\<bar>?f - q * 10 ^ n\<bar> \<le> 1 / 2" by linarith
    moreover have "\<bar>round_half_away n q - q\<bar> * 10 ^ n = \<bar>?f - q * 10 ^ n\<bar>"
      using that by (simp add: round_half_away_def Let_def scaled_distance)
    ultimately show ?thesis by simp
  qed
  show ?thesis
  proof (cases "0 \<le> q")
    case False
    then have "\<bar>- round_half_away n q - - q\<bar> * 10 ^ n \<le> 1 / 2" using pos [of "- q"] by (simp add: half_away_minus)
    then show ?thesis by (simp add: abs_minus_commute)
  qed (rule pos)
qed

lemma half_away_half:
  assumes "\<bar>round_half_away n q - q\<bar> * 10 ^ n = 1 / 2"
  shows "\<bar>q\<bar> < \<bar>round_half_away n q\<bar>"
proof -
  have pos: "q < round_half_away n q" if h: "\<bar>round_half_away n q - q\<bar> * 10 ^ n = 1 / 2" and q: "0 \<le> q" for q
  proof -
    let ?f = "of_int \<lfloor>q * 10 ^ n + 1 / 2\<rfloor> :: rat"
    have r: "round_half_away n q = ?f / 10 ^ n" using q by (simp add: round_half_away_def)
    have "\<bar>?f - q * 10 ^ n\<bar> = 1 / 2" using h by (simp add: r scaled_distance)
    then have "q * 10 ^ n < ?f" by linarith
    then show ?thesis by (simp add: r field_simps)
  qed
  show ?thesis
  proof (cases "0 \<le> q")
    case True
    then show ?thesis using pos [OF assms True] by simp
  next
    case False
    then have "- q < round_half_away n (- q)"
      using pos [of "- q"] assms by (simp add: half_away_minus abs_minus_commute)
    then show ?thesis using False by (simp add: half_away_minus)
  qed
qed

text \<open>The three facts determine the result.\<close>

lemma half_away_unique:
  assumes "y * 10 ^ n \<in> \<int>" and "\<bar>y - q\<bar> * 10 ^ n \<le> 1 / 2" and "\<bar>y - q\<bar> * 10 ^ n = 1 / 2 \<Longrightarrow> \<bar>q\<bar> < \<bar>y\<bar>"
  shows "y = round_half_away n q"
proof (rule ccontr)
  let ?r = "round_half_away n q" and ?x = "q * 10 ^ n"
  obtain j k where jk: "y * 10 ^ n = of_int j" "?r * 10 ^ n = of_int k"
    using assms(1) half_away_digits by (metis Ints_cases)
  assume "y \<noteq> ?r"
  then have ne: "j \<noteq> k" using jk by (metis divide_divide_eq_right nonzero_mult_div_cancel_right power_not_zero zero_neq_numeral)
  have near: "\<bar>of_int j - ?x\<bar> \<le> 1 / 2" "\<bar>of_int k - ?x\<bar> \<le> 1 / 2"
    using assms(2) half_away_near [of n q] by (simp_all add: scaled_distance jk)
  then have half: "\<bar>of_int j - ?x\<bar> = 1 / 2" "\<bar>of_int k - ?x\<bar> = 1 / 2" using ne by linarith+
  have away: "\<bar>?x\<bar> < \<bar>u * 10 ^ n\<bar>" if "\<bar>q\<bar> < \<bar>u\<bar>" for u using that by (simp add: abs_mult)
  have "\<bar>?x\<bar> < \<bar>of_int j\<bar>" "\<bar>?x\<bar> < \<bar>of_int k\<bar>"
    using away [OF assms(3)] away [OF half_away_half [of n q]] half by (simp_all add: scaled_distance jk)
  moreover have "of_int j \<noteq> (of_int k :: rat)" using ne by simp
  ultimately have "\<bar>of_int j :: rat\<bar> < of_int 1 \<and> \<bar>of_int k :: rat\<bar> < of_int 1" using half by (simp add: abs_if split: if_splits)
  then show False using ne unfolding of_int_abs [symmetric] of_int_less_iff by linarith
qed

section \<open>The library\<close>

text \<open>\<open>StringFixed\<close> gives a text; the model has the number it shows.\<close>

record decimal_lib =
  dl_Round :: "nat \<Rightarrow> rat \<Rightarrow> rat"
  dl_StringFixed :: "nat \<Rightarrow> rat \<Rightarrow> rat"
  dl_RoundUp :: "nat \<Rightarrow> rat \<Rightarrow> rat"
  dl_Truncate :: "nat \<Rightarrow> rat \<Rightarrow> rat"
  dl_Div :: "rat \<Rightarrow> rat \<Rightarrow> rat"
  dl_IntPart :: "rat \<Rightarrow> int"

text \<open>
  What the documentation says: \<open>Round\<close> gives the nearest number with the digits asked for, the one away from zero
  when two are as near; \<open>StringFixed\<close> rounds in the same way; \<open>RoundUp\<close> rounds away from zero; \<open>Truncate\<close>
  cuts digits off; \<open>Div\<close> is exact up to 16 digits and rounds to them; \<open>IntPart\<close> is the integer part of a
  number in the range of \<open>int64\<close>.
\<close>

locale decimal_library =
  fixes D :: decimal_lib
  assumes Round_digits: "dl_Round D n q * 10 ^ n \<in> \<int>"
    and Round_near: "\<bar>dl_Round D n q - q\<bar> * 10 ^ n \<le> 1 / 2"
    and Round_half: "\<bar>dl_Round D n q - q\<bar> * 10 ^ n = 1 / 2 \<Longrightarrow> \<bar>q\<bar> < \<bar>dl_Round D n q\<bar>"
    and StringFixed_rounds: "dl_StringFixed D n q = dl_Round D n q"
    and RoundUp_digits: "dl_RoundUp D n q * 10 ^ n \<in> \<int>"
    and RoundUp_away: "\<bar>q\<bar> \<le> \<bar>dl_RoundUp D n q\<bar>"
    and RoundUp_near: "\<bar>dl_RoundUp D n q - q\<bar> * 10 ^ n < 1"
    and Truncate_cuts: "dl_Truncate D n q = of_int (trunc_int (q * 10 ^ n)) / 10 ^ n"
    and Div_rounds: "b \<noteq> 0 \<Longrightarrow> dl_Div D a b = dl_Round D 16 (a / b)"
    and IntPart_int: "\<bar>q\<bar> < 2 ^ 63 \<Longrightarrow> dl_IntPart D q = trunc_int q"
begin

lemma Round_eq: "dl_Round D n q = round_half_away n q"
  by (rule half_away_unique [OF Round_digits Round_near Round_half])

lemma Round_mono: "0 \<le> a \<Longrightarrow> a \<le> b \<Longrightarrow> dl_Round D n a \<le> dl_Round D n b"
  by (simp add: Round_eq half_away_mono)

lemma Round_nonneg: "0 \<le> a \<Longrightarrow> 0 \<le> dl_Round D n a"
  by (simp add: Round_eq half_away_nonneg)

lemma Round_exact: "q * 10 ^ n \<in> \<int> \<Longrightarrow> dl_Round D n q = q"
  by (simp add: Round_eq half_away_exact)

lemma RoundUp_bounds:
  assumes "0 \<le> q"
  shows "q \<le> dl_RoundUp D n q" and "dl_RoundUp D n q < q + 1 / 10 ^ n"
proof -
  let ?r = "dl_RoundUp D n q"
  have near: "\<bar>?r * 10 ^ n - q * 10 ^ n\<bar> < 1" using RoundUp_near [of n q] by (simp add: scaled_distance)
  obtain k where k: "?r * 10 ^ n = of_int k" using RoundUp_digits by (rule Ints_cases)
  have "0 \<le> q * 10 ^ n" using assms by simp
  then have "-1 < (of_int k :: rat)" using near by (simp add: k)
  then have "0 \<le> k" by linarith
  then have "0 \<le> ?r * 10 ^ n" by (simp add: k)
  then have "0 \<le> ?r" using mult_le_cancel_right_pos [of "10 ^ n" 0 ?r] by simp
  then show "q \<le> ?r" using RoundUp_away [of q n] assms by simp
  have "?r * 10 ^ n < q * 10 ^ n + 1" using near by linarith
  then show "?r < q + 1 / 10 ^ n" by (simp add: field_simps)
qed

lemma Truncate_int: "dl_Truncate D 0 q = q \<longleftrightarrow> q \<in> \<int>"
  by (simp add: Truncate_cuts Ints_trunc)

lemma Div_exact: "b \<noteq> 0 \<Longrightarrow> a / b * 10 ^ 16 \<in> \<int> \<Longrightarrow> dl_Div D a b = a / b"
  by (simp add: Div_rounds Round_exact)

lemma Div_nonneg: "0 < b \<Longrightarrow> 0 \<le> a \<Longrightarrow> 0 \<le> dl_Div D a b"
  by (simp add: Div_rounds Round_nonneg)

end

text \<open>A library that keeps its promises, for examples.\<close>

definition round_away :: "nat \<Rightarrow> rat \<Rightarrow> rat" where
  "round_away n q = (let r = of_int \<lceil>\<bar>q\<bar> * 10 ^ n\<rceil> / 10 ^ n in if q < 0 then - r else r)"

definition decimal_reference :: decimal_lib where
  "decimal_reference =
     \<lparr> dl_Round = round_half_away, dl_StringFixed = round_half_away, dl_RoundUp = round_away,
       dl_Truncate = (\<lambda>n q. of_int (trunc_int (q * 10 ^ n)) / 10 ^ n),
       dl_Div = (\<lambda>a b. round_half_away 16 (a / b)), dl_IntPart = (\<lambda>q. int64_wrap (trunc_int q)) \<rparr>"

lemma round_away_minus: "round_away n (- q) = - round_away n q"
  by (cases q "0 :: rat" rule: linorder_cases) (simp_all add: round_away_def Let_def)

lemma round_away_pos:
  assumes "0 \<le> q"
  shows "q \<le> round_away n q" and "\<bar>round_away n q - q\<bar> * 10 ^ n < 1"
proof -
  have "q * 10 ^ n \<le> of_int \<lceil>q * 10 ^ n\<rceil>" "of_int \<lceil>q * 10 ^ n\<rceil> < q * 10 ^ n + 1" by linarith+
  moreover have "round_away n q * 10 ^ n = of_int \<lceil>q * 10 ^ n\<rceil>" using assms by (simp add: round_away_def)
  ultimately have "q * 10 ^ n \<le> round_away n q * 10 ^ n" "\<bar>round_away n q * 10 ^ n - q * 10 ^ n\<bar> < 1" by simp_all
  then show "q \<le> round_away n q" "\<bar>round_away n q - q\<bar> * 10 ^ n < 1" unfolding scaled_distance by simp_all
qed

lemma round_away_bounds: "\<bar>q\<bar> \<le> \<bar>round_away n q\<bar> \<and> \<bar>round_away n q - q\<bar> * 10 ^ n < 1"
proof (cases "0 \<le> q")
  case True
  then show ?thesis using round_away_pos [OF True, of n] by simp
next
  case False
  then show ?thesis using round_away_pos [of "- q" n] by (simp add: round_away_minus abs_minus_commute)
qed

lemma trunc_int_less:
  assumes "\<bar>q\<bar> < 2 ^ 63"
  shows "\<bar>trunc_int q\<bar> < 2 ^ 63"
proof -
  have "\<bar>of_int (trunc_int q) :: rat\<bar> \<le> \<bar>q\<bar>" by (simp add: trunc_int_def)
  then have "(of_int \<bar>trunc_int q\<bar> :: rat) < of_int (2 ^ 63)" using assms by simp
  then show ?thesis by (simp only: of_int_less_iff)
qed

interpretation dref: decimal_library decimal_reference
proof
  show "\<bar>q\<bar> < 2 ^ 63 \<Longrightarrow> dl_IntPart decimal_reference q = trunc_int q" for q
    using trunc_int_less [of q] by (auto simp: decimal_reference_def int64_min_def int64_max_def intro!: int64_wrap_id)
  show "\<bar>dl_Round decimal_reference n q - q\<bar> * 10 ^ n = 1 / 2 \<Longrightarrow> \<bar>q\<bar> < \<bar>dl_Round decimal_reference n q\<bar>" for n q
    using half_away_half by (simp add: decimal_reference_def)
  show "\<bar>dl_Round decimal_reference n q - q\<bar> * 10 ^ n \<le> 1 / 2" for n q
    using half_away_near by (simp add: decimal_reference_def)
  show "dl_RoundUp decimal_reference n q * 10 ^ n \<in> \<int>" for n q
    by (simp add: decimal_reference_def round_away_def Let_def)
qed (simp_all add: decimal_reference_def half_away_digits round_away_bounds)

end
