(* ===== verification/Payment_Rules.thy ===== *)
theory Payment_Rules
  imports Decimal_Library
begin

text \<open>
  The data of payment orders and the rules of the payment service that need no database: currencies
  and amounts (\<open>payment/currency.go\<close>, \<open>service/payment_currency.go\<close>, \<open>service/payment_amounts.go\<close>), the
  provider an order is bound to and the snapshot taken of it
  (\<open>service/payment_order_provider_snapshot.go\<close>), and the references under which an order is known
  outside (\<open>service/payment_order_lifecycle.go\<close>, \<open>service/payment_fulfillment.go\<close>).

  Amounts in the database are rational numbers; an amount that comes from a provider or from a request
  is a \<open>gofloat\<close>, a rational or one of the special values of \<open>float64\<close>, whose arithmetic is exact in
  the model. \<open>strings.EqualFold\<close> and \<open>strings.ToUpper\<close> take the Unicode tables as arguments
  (\<open>folds\<close>, \<open>upper\<close>) for strings with non-ASCII bytes.
\<close>

section \<open>Orders\<close>

datatype OrderStatus =
    OrderStatusPending | OrderStatusPaid | OrderStatusRecharging | OrderStatusCompleted | OrderStatusExpired
  | OrderStatusCancelled | OrderStatusFailed | OrderStatusRefundRequested | OrderStatusRefunding
  | OrderStatusRefundPending | OrderStatusPartiallyRefunded | OrderStatusRefunded | OrderStatusRefundFailed

primrec status_text :: "OrderStatus \<Rightarrow> string" where
  "status_text OrderStatusPending = ''PENDING''"
| "status_text OrderStatusPaid = ''PAID''"
| "status_text OrderStatusRecharging = ''RECHARGING''"
| "status_text OrderStatusCompleted = ''COMPLETED''"
| "status_text OrderStatusExpired = ''EXPIRED''"
| "status_text OrderStatusCancelled = ''CANCELLED''"
| "status_text OrderStatusFailed = ''FAILED''"
| "status_text OrderStatusRefundRequested = ''REFUND_REQUESTED''"
| "status_text OrderStatusRefunding = ''REFUNDING''"
| "status_text OrderStatusRefundPending = ''REFUND_PENDING''"
| "status_text OrderStatusPartiallyRefunded = ''PARTIALLY_REFUNDED''"
| "status_text OrderStatusRefunded = ''REFUNDED''"
| "status_text OrderStatusRefundFailed = ''REFUND_FAILED''"

primrec psIsRefundStatus :: "OrderStatus \<Rightarrow> bool" where
  "psIsRefundStatus OrderStatusPending = False"
| "psIsRefundStatus OrderStatusPaid = False"
| "psIsRefundStatus OrderStatusRecharging = False"
| "psIsRefundStatus OrderStatusCompleted = False"
| "psIsRefundStatus OrderStatusExpired = False"
| "psIsRefundStatus OrderStatusCancelled = False"
| "psIsRefundStatus OrderStatusFailed = False"
| "psIsRefundStatus OrderStatusRefundRequested = True"
| "psIsRefundStatus OrderStatusRefunding = True"
| "psIsRefundStatus OrderStatusRefundPending = True"
| "psIsRefundStatus OrderStatusPartiallyRefunded = True"
| "psIsRefundStatus OrderStatusRefunded = True"
| "psIsRefundStatus OrderStatusRefundFailed = True"

abbreviation "OrderTypeBalance \<equiv> ''balance''"
abbreviation "OrderTypeSubscription \<equiv> ''subscription''"

datatype gofloat = Fin rat | NaN | PosInf | NegInf

text \<open>
  Errors: an application error with its code, reason and message, another error by its text, a text
  with the amounts it prints, an error wrapped by \<open>fmt.Errorf\<close>, and what the database reports.
\<close>

datatype db_fault = RowNotFound | NotSingular | ConstraintViolation | StatementLost

datatype pay_error =
    App int string string
  | Plain string
  | Amounts string "gofloat list"
  | Wrapped string pay_error
  | Fault db_fault

abbreviation pay_BadRequest :: "string \<Rightarrow> string \<Rightarrow> pay_error" where
  "pay_BadRequest \<equiv> App 400"

abbreviation pay_Forbidden :: "string \<Rightarrow> string \<Rightarrow> pay_error" where
  "pay_Forbidden \<equiv> App 403"

abbreviation pay_NotFound :: "string \<Rightarrow> string \<Rightarrow> pay_error" where
  "pay_NotFound \<equiv> App 404"

abbreviation pay_Conflict :: "string \<Rightarrow> string \<Rightarrow> pay_error" where
  "pay_Conflict \<equiv> App 409"

abbreviation pay_InternalServer :: "string \<Rightarrow> string \<Rightarrow> pay_error" where
  "pay_InternalServer \<equiv> App 500"

text \<open>The column of the failure reason holds the text of an error; the model keeps the error.\<close>

record PaymentOrder =
  po_ID :: int
  po_UserID :: int
  po_Amount :: rat
  po_PayAmount :: rat
  po_RechargeCode :: string
  po_OutTradeNo :: string
  po_PaymentType :: string
  po_PaymentTradeNo :: string
  po_OrderType :: string
  po_SubscriptionGroupID :: "int option"
  po_SubscriptionDays :: "int option"
  po_ProviderInstanceID :: "string option"
  po_ProviderKey :: "string option"
  po_ProviderSnapshot :: "(string \<times> goany) list"
  po_Status :: OrderStatus
  po_RefundAmount :: rat
  po_RefundReason :: "string option"
  po_RefundAt :: "gotime option"
  po_ForceRefund :: bool
  po_RefundRequestedAt :: "gotime option"
  po_RefundRequestReason :: "string option"
  po_RefundRequestedBy :: "string option"
  po_ExpiresAt :: gotime
  po_PaidAt :: "gotime option"
  po_CompletedAt :: "gotime option"
  po_FailedAt :: "gotime option"
  po_FailedReason :: "pay_error option"
  po_CreatedAt :: gotime
  po_UpdatedAt :: gotime

text \<open>The columns of amounts have type \<open>DECIMAL(20, 2)\<close>: the database rounds what is written to two digits.\<close>

definition numeric2 :: "rat \<Rightarrow> rat" where
  "numeric2 q = round_half_away 2 q"

definition psStringValue :: "string option \<Rightarrow> string" where
  "psStringValue v = (case v of None \<Rightarrow> [] | Some s \<Rightarrow> s)"

definition strings_EqualFold :: "(string \<Rightarrow> string \<Rightarrow> bool) \<Rightarrow> string \<Rightarrow> string \<Rightarrow> bool" where
  "strings_EqualFold folds s t \<longleftrightarrow>
     (if ascii_string s \<and> ascii_string t then map ascii_lower s = map ascii_lower t else folds s t)"

section \<open>Currencies and amounts\<close>

abbreviation "DefaultPaymentCurrency \<equiv> ''CNY''"

definition zero_decimal_currencies :: "string list" where
  "zero_decimal_currencies =
     [''BIF'', ''CLP'', ''DJF'', ''GNF'', ''JPY'', ''KMF'', ''KRW'', ''MGA'', ''PYG'', ''RWF'', ''VND'', ''VUV'', ''XAF'', ''XOF'', ''XPF'']"

definition three_decimal_currencies :: "string list" where
  "three_decimal_currencies = [''BHD'', ''IQD'', ''JOD'', ''KWD'', ''LYD'', ''OMR'', ''TND'']"

text \<open>The table \<open>paymentCurrencyAmountUnits\<close>: digits of the minor unit of the API, and digits allowed in an amount.\<close>

definition paymentCurrencyAmountUnits :: "string \<Rightarrow> (nat \<times> nat) option" where
  "paymentCurrencyAmountUnits c =
     (if c \<in> set zero_decimal_currencies then Some (0, 0)
      else if c \<in> set [''ISK'', ''UGX''] then Some (2, 0)
      else if c \<in> set three_decimal_currencies then Some (3, 3)
      else None)"

definition NormalizePaymentCurrency :: "(string \<Rightarrow> string) \<Rightarrow> string \<Rightarrow> string option" where
  "NormalizePaymentCurrency upper raw =
     (let currency = strings_ToUpper upper (strings_TrimSpace raw)
      in if currency = [] then Some DefaultPaymentCurrency
         else if length currency \<noteq> 3 then None
         else if list_all (\<lambda>ch. 65 \<le> byte_of ch \<and> byte_of ch \<le> 90) currency then Some currency
         else None)"

definition paymentCurrencyAmountUnitFor :: "(string \<Rightarrow> string) \<Rightarrow> string \<Rightarrow> nat \<times> nat" where
  "paymentCurrencyAmountUnitFor upper currency =
     (case NormalizePaymentCurrency upper currency of
        None \<Rightarrow> (2, 2)
      | Some normalized \<Rightarrow>
          (case paymentCurrencyAmountUnits normalized of None \<Rightarrow> (2, 2) | Some amountUnit \<Rightarrow> amountUnit))"

definition CurrencyMinorUnit :: "(string \<Rightarrow> string) \<Rightarrow> string \<Rightarrow> nat" where
  "CurrencyMinorUnit upper currency = fst (paymentCurrencyAmountUnitFor upper currency)"

definition CurrencyMaxFractionDigits :: "(string \<Rightarrow> string) \<Rightarrow> string \<Rightarrow> nat" where
  "CurrencyMaxFractionDigits upper currency = snd (paymentCurrencyAmountUnitFor upper currency)"

datatype amount_error = InvalidAmount | InvalidCurrency | TooManyDecimals nat

text \<open>
  \<open>AmountToMinorUnit\<close> after the decimal parser of the library has read the text: \<open>d\<close> is its result.
  Powers of ten are made exactly by \<open>decimal.New\<close>.
\<close>

definition AmountToMinorUnit :: "decimal_lib \<Rightarrow> (string \<Rightarrow> string) \<Rightarrow> rat option \<Rightarrow> string \<Rightarrow> amount_error + int" where
  "AmountToMinorUnit D upper parsed currency =
     (case parsed of
        None \<Rightarrow> Inl InvalidAmount
      | Some d \<Rightarrow>
          (case NormalizePaymentCurrency upper currency of
             None \<Rightarrow> Inl InvalidCurrency
           | Some normalizedCurrency \<Rightarrow>
               let unit = paymentCurrencyAmountUnitFor upper normalizedCurrency;
                   scaledForPrecision = d * 10 ^ snd unit
               in if scaledForPrecision \<noteq> dl_Truncate D 0 scaledForPrecision then Inl (TooManyDecimals (snd unit))
                  else Inr (dl_IntPart D (d * 10 ^ fst unit))))"

definition MinorUnitToAmount :: "decimal_lib \<Rightarrow> (string \<Rightarrow> string) \<Rightarrow> int \<Rightarrow> string \<Rightarrow> rat" where
  "MinorUnitToAmount D upper v currency = dl_Div D (of_int v) (10 ^ CurrencyMinorUnit upper currency)"

definition psOrderCurrencyTolerance :: "nat \<Rightarrow> rat" where
  "psOrderCurrencyTolerance minorUnit = (if minorUnit \<le> 2 then 1 / 100 else 1 / 10 ^ minorUnit / 2)"

definition paymentAmountToleranceForCurrency :: "(string \<Rightarrow> string) \<Rightarrow> string \<Rightarrow> rat" where
  "paymentAmountToleranceForCurrency upper currency = psOrderCurrencyTolerance (CurrencyMinorUnit upper currency)"

definition isValidProviderAmount :: "gofloat \<Rightarrow> bool" where
  "isValidProviderAmount amount \<longleftrightarrow> (case amount of Fin q \<Rightarrow> 0 < q | _ \<Rightarrow> False)"

text \<open>Amounts computed with decimals; the conversion of the result to \<open>float64\<close> is not modelled.\<close>

definition normalizeBalanceRechargeMultiplier :: "gofloat \<Rightarrow> rat" where
  "normalizeBalanceRechargeMultiplier m = (case m of Fin q \<Rightarrow> (if q \<le> 0 then 1 else q) | _ \<Rightarrow> 1)"

definition calculateCreditedBalance :: "decimal_lib \<Rightarrow> rat \<Rightarrow> gofloat \<Rightarrow> rat" where
  "calculateCreditedBalance D paymentAmount multiplier =
     dl_Round D 2 (paymentAmount * normalizeBalanceRechargeMultiplier multiplier)"

definition calculateGatewayRefundAmount :: "decimal_lib \<Rightarrow> (string \<Rightarrow> string) \<Rightarrow> rat \<Rightarrow> rat \<Rightarrow> rat \<Rightarrow> string \<Rightarrow> rat" where
  "calculateGatewayRefundAmount D upper orderAmount payAmount refundAmount currency =
     (if orderAmount \<le> 0 \<or> payAmount \<le> 0 \<or> refundAmount \<le> 0 then 0
      else
        let fractionDigits = CurrencyMaxFractionDigits upper currency
        in if \<bar>refundAmount - orderAmount\<bar> \<le> paymentAmountToleranceForCurrency upper currency
           then dl_Round D fractionDigits payAmount
           else dl_Round D fractionDigits (dl_Div D (payAmount * refundAmount) orderAmount))"

section \<open>Snapshots of the provider\<close>

record paymentOrderProviderSnapshot =
  sn_SchemaVersion :: int
  sn_ProviderInstanceID :: string
  sn_ProviderKey :: string
  sn_PaymentMode :: string
  sn_MerchantAppID :: string
  sn_MerchantID :: string
  sn_Currency :: string

definition psSnapshotStringValue :: "goany \<Rightarrow> string" where
  "psSnapshotStringValue v = (case v of AnyString s \<Rightarrow> strings_TrimSpace s | _ \<Rightarrow> [])"

definition psSnapshotIntValue :: "goany \<Rightarrow> int" where
  "psSnapshotIntValue v =
     (case v of
        AnyInt n \<Rightarrow> n
      | AnyInt64 n \<Rightarrow> n
      | AnyFloat64 q \<Rightarrow> float64_to_int q
      | AnyString s \<Rightarrow> (case strconv_Atoi (strings_TrimSpace s) of None \<Rightarrow> 0 | Some n \<Rightarrow> n)
      | _ \<Rightarrow> 0)"

definition psOrderProviderSnapshot :: "PaymentOrder \<Rightarrow> paymentOrderProviderSnapshot option" where
  "psOrderProviderSnapshot o1 =
     (let m = po_ProviderSnapshot o1;
          snapshot = \<lparr> sn_SchemaVersion = psSnapshotIntValue (any_index m ''schema_version''),
            sn_ProviderInstanceID = psSnapshotStringValue (any_index m ''provider_instance_id''),
            sn_ProviderKey = psSnapshotStringValue (any_index m ''provider_key''),
            sn_PaymentMode = psSnapshotStringValue (any_index m ''payment_mode''),
            sn_MerchantAppID = psSnapshotStringValue (any_index m ''merchant_app_id''),
            sn_MerchantID = psSnapshotStringValue (any_index m ''merchant_id''),
            sn_Currency = psSnapshotStringValue (any_index m ''currency'') \<rparr>
      in if m = [] then None
         else if sn_SchemaVersion snapshot = 0 \<and> sn_ProviderInstanceID snapshot = [] \<and> sn_ProviderKey snapshot = [] \<and>
                 sn_PaymentMode snapshot = [] \<and> sn_MerchantAppID snapshot = [] \<and> sn_MerchantID snapshot = [] \<and>
                 sn_Currency snapshot = []
         then None
         else Some snapshot)"

definition PaymentOrderCurrency :: "(string \<Rightarrow> string) \<Rightarrow> PaymentOrder \<Rightarrow> string" where
  "PaymentOrderCurrency upper o1 =
     (case psOrderProviderSnapshot o1 of
        None \<Rightarrow> DefaultPaymentCurrency
      | Some snapshot \<Rightarrow>
          (case NormalizePaymentCurrency upper (sn_Currency snapshot) of
             None \<Rightarrow> DefaultPaymentCurrency
           | Some currency \<Rightarrow> currency))"

definition expectedNotificationProviderKey :: "(string \<Rightarrow> string) option \<Rightarrow> string \<Rightarrow> string \<Rightarrow> string \<Rightarrow> string" where
  "expectedNotificationProviderKey registry orderPaymentType orderProviderKey instanceProviderKey =
     (if strings_TrimSpace instanceProviderKey \<noteq> [] then strings_TrimSpace instanceProviderKey
      else if strings_TrimSpace orderProviderKey \<noteq> [] then strings_TrimSpace orderProviderKey
      else case registry of
             None \<Rightarrow> strings_TrimSpace orderPaymentType
           | Some key_of \<Rightarrow>
               if strings_TrimSpace (key_of orderPaymentType) \<noteq> [] then strings_TrimSpace (key_of orderPaymentType)
               else strings_TrimSpace orderPaymentType)"

definition expectedNotificationProviderKeyForOrder ::
  "(string \<Rightarrow> string) option \<Rightarrow> PaymentOrder \<Rightarrow> string \<Rightarrow> string" where
  "expectedNotificationProviderKeyForOrder registry o1 instanceProviderKey =
     (let orderProviderKey =
            (case psOrderProviderSnapshot o1 of
               None \<Rightarrow> psStringValue (po_ProviderKey o1)
             | Some snapshot \<Rightarrow>
                 if sn_ProviderKey snapshot \<noteq> [] then sn_ProviderKey snapshot else psStringValue (po_ProviderKey o1))
      in expectedNotificationProviderKey registry (po_PaymentType o1) orderProviderKey instanceProviderKey)"

text \<open>
  One comparison of \<open>validateProviderSnapshotMetadata\<close>: the snapshot's value, when there is one,
  against the value of the metadata.
\<close>

definition metadata_get :: "(string \<times> string) list \<Rightarrow> string \<Rightarrow> string" where
  "metadata_get m k = (case map_of m k of None \<Rightarrow> [] | Some v \<Rightarrow> v)"

definition snapshot_check ::
  "(string \<Rightarrow> string \<Rightarrow> bool) \<Rightarrow> string \<Rightarrow> string \<Rightarrow> string \<Rightarrow> string \<Rightarrow> pay_error option" where
  "snapshot_check folds missing mismatch expected actual =
     (let expected = strings_TrimSpace expected
      in if expected = [] then None
         else if actual = [] then Some (Plain missing)
         else if strings_EqualFold folds expected actual then None
         else Some (Plain (mismatch @ '': expected '' @ expected @ '', got '' @ actual)))"

fun first_error :: "pay_error option list \<Rightarrow> pay_error option" where
  "first_error [] = None"
| "first_error (Some e # es) = Some e"
| "first_error (None # es) = first_error es"

definition state_check :: "(string \<Rightarrow> string \<Rightarrow> bool) \<Rightarrow> string \<Rightarrow> string \<Rightarrow> string \<Rightarrow> pay_error option" where
  "state_check folds mismatch wanted actual =
     (if actual \<noteq> [] \<and> \<not> strings_EqualFold folds actual wanted
      then Some (Plain (mismatch @ '': expected '' @ wanted @ '', got '' @ actual)) else None)"

definition validateProviderSnapshotMetadata ::
  "(string \<Rightarrow> string \<Rightarrow> bool) \<Rightarrow> (string \<Rightarrow> string) \<Rightarrow> PaymentOrder \<Rightarrow> string \<Rightarrow> (string \<times> string) list \<Rightarrow> pay_error option" where
  "validateProviderSnapshotMetadata folds upper o1 providerKey metadata =
     (if metadata = [] then None
      else case psOrderProviderSnapshot o1 of
             None \<Rightarrow> None
           | Some sn \<Rightarrow>
               let key = strings_TrimSpace providerKey;
                   field = (\<lambda>k. strings_TrimSpace (metadata_get metadata k));
                   currency = strings_ToUpper upper (field ''currency'')
               in if key = ''wxpay'' then first_error
                    [snapshot_check folds ''wxpay notification missing appid'' ''wxpay appid mismatch'' (sn_MerchantAppID sn) (field ''appid''),
                     snapshot_check folds ''wxpay notification missing mchid'' ''wxpay mchid mismatch'' (sn_MerchantID sn) (field ''mchid''),
                     snapshot_check folds ''wxpay notification missing currency'' ''wxpay currency mismatch'' (sn_Currency sn) currency,
                     state_check folds ''wxpay trade_state mismatch'' ''SUCCESS'' (field ''trade_state'')]
                  else if key = ''alipay'' then
                    snapshot_check folds ''alipay app_id missing'' ''alipay app_id mismatch'' (sn_MerchantAppID sn) (field ''app_id'')
                  else if key = ''easypay'' then
                    snapshot_check folds ''easypay pid missing'' ''easypay pid mismatch'' (sn_MerchantID sn) (field ''pid'')
                  else if key = ''stripe'' then
                    snapshot_check folds ''stripe notification missing currency'' ''stripe currency mismatch'' (sn_Currency sn) currency
                  else if key = ''airwallex'' then first_error
                    [snapshot_check folds ''airwallex account_id missing'' ''airwallex account_id mismatch'' (sn_MerchantID sn) (field ''account_id''),
                     snapshot_check folds ''airwallex notification missing currency'' ''airwallex currency mismatch'' (sn_Currency sn) currency,
                     state_check folds ''airwallex status mismatch'' ''SUCCEEDED'' (field ''status'')]
                  else None)"

section \<open>References\<close>

definition GetBasePaymentType :: "string \<Rightarrow> string" where
  "GetBasePaymentType t =
     (if t = ''easypay'' then ''easypay''
      else if t = ''airwallex'' then ''airwallex''
      else if t = ''stripe'' \<or> t = ''card'' \<or> t = ''link'' then ''stripe''
      else if prefix ''alipay'' t then ''alipay''
      else if prefix ''wxpay'' t then ''wxpay''
      else t)"

text \<open>The argument \<open>provider_key\<close> is the key of the provider, \<open>None\<close> for a nil provider.\<close>

definition paymentOrderQueryReference :: "PaymentOrder \<Rightarrow> string option \<Rightarrow> string" where
  "paymentOrderQueryReference o1 provider_key =
     (let k0 = (case provider_key of None \<Rightarrow> [] | Some k \<Rightarrow> strings_TrimSpace k);
          k1 = (if k0 \<noteq> [] then k0 else
            (case psOrderProviderSnapshot o1 of None \<Rightarrow> [] | Some sn \<Rightarrow> strings_TrimSpace (sn_ProviderKey sn)));
          k2 = (if k1 \<noteq> [] then k1 else strings_TrimSpace (psStringValue (po_ProviderKey o1)));
          k3 = (if k2 \<noteq> [] then k2 else strings_TrimSpace (po_PaymentType o1))
      in if GetBasePaymentType k3 \<in> {''alipay'', ''easypay'', ''wxpay''} then strings_TrimSpace (po_OutTradeNo o1)
         else if strings_TrimSpace (po_PaymentTradeNo o1) \<noteq> [] then strings_TrimSpace (po_PaymentTradeNo o1)
         else strings_TrimSpace (po_OutTradeNo o1))"

definition paymentOrderShouldPersistUpstreamTradeNo ::
  "(string \<Rightarrow> string \<Rightarrow> bool) \<Rightarrow> string \<Rightarrow> string \<Rightarrow> string \<Rightarrow> bool" where
  "paymentOrderShouldPersistUpstreamTradeNo folds queryRef upstreamTradeNo currentTradeNo =
     (let upstreamTradeNo = strings_TrimSpace upstreamTradeNo
      in upstreamTradeNo \<noteq> [] \<and>
         \<not> strings_EqualFold folds upstreamTradeNo (strings_TrimSpace currentTradeNo) \<and>
         \<not> strings_EqualFold folds upstreamTradeNo (strings_TrimSpace queryRef))"

definition paymentOrderAllowsRegistryFallback :: "PaymentOrder \<Rightarrow> bool" where
  "paymentOrderAllowsRegistryFallback o1 \<longleftrightarrow>
     psOrderProviderSnapshot o1 = None \<and> strings_TrimSpace (psStringValue (po_ProviderInstanceID o1)) = [] \<and>
     strings_TrimSpace (psStringValue (po_ProviderKey o1)) = []"

definition paymentOrderFallbackProviderKey :: "(string \<Rightarrow> string) option \<Rightarrow> PaymentOrder \<Rightarrow> string" where
  "paymentOrderFallbackProviderKey registry o1 =
     (let fallback = strings_TrimSpace (GetBasePaymentType (strings_TrimSpace (po_PaymentType o1)))
      in case registry of
           None \<Rightarrow> fallback
         | Some key_of \<Rightarrow>
             if strings_TrimSpace (key_of (po_PaymentType o1)) \<noteq> [] then strings_TrimSpace (key_of (po_PaymentType o1))
             else fallback)"

definition out_trade_no_char :: "char \<Rightarrow> bool" where
  "out_trade_no_char ch \<longleftrightarrow>
     97 \<le> byte_of ch \<and> byte_of ch \<le> 122 \<or> 65 \<le> byte_of ch \<and> byte_of ch \<le> 90 \<or> is_digit ch \<or> ch = CHR ''_'' \<or> ch = CHR ''-''"

text \<open>The loop runs over code points; a byte above 127 is part of none of the admitted ones.\<close>

definition normalizeOrderLookupOutTradeNo :: "string \<Rightarrow> pay_error + string" where
  "normalizeOrderLookupOutTradeNo raw =
     (let outTradeNo = strings_TrimSpace raw
      in if outTradeNo = [] then Inl (pay_BadRequest ''INVALID_OUT_TRADE_NO'' ''out_trade_no is required'')
         else if 64 < length outTradeNo then Inl (pay_BadRequest ''INVALID_OUT_TRADE_NO'' ''out_trade_no is invalid'')
         else if \<not> list_all out_trade_no_char outTradeNo then Inl (pay_BadRequest ''INVALID_OUT_TRADE_NO'' ''out_trade_no is invalid'')
         else Inr outTradeNo)"

abbreviation "orderIDPrefix \<equiv> ''sub2_''"

text \<open>\<open>parseLegacyPaymentOrderID\<close>: \<open>not_found\<close> says that the lookup ended with a not-found error.\<close>

definition parseLegacyPaymentOrderID :: "string \<Rightarrow> bool \<Rightarrow> int option" where
  "parseLegacyPaymentOrderID orderID not_found =
     (if \<not> not_found then None
      else
        let orderID = strings_TrimSpace orderID
        in if \<not> prefix orderIDPrefix orderID then None
           else
             let trimmed = drop (length orderIDPrefix) orderID
             in if trimmed = [] \<or> trimmed = orderID then None
                else case strconv_Atoi trimmed of
                       None \<Rightarrow> None
                     | Some oid \<Rightarrow> if oid \<le> 0 then None else Some oid)"

section \<open>Provider instances\<close>

record PaymentProviderInstance =
  pi_ID :: int
  pi_ProviderKey :: string
  pi_SupportedTypes :: string
  pi_Enabled :: bool
  pi_RefundEnabled :: bool
  pi_AllowUserRefund :: bool

fun split_commas :: "string \<Rightarrow> string list" where
  "split_commas [] = [[]]"
| "split_commas (c # cs) =
     (if c = CHR '','' then [] # split_commas cs
      else case split_commas cs of [] \<Rightarrow> [[c]] | p # ps \<Rightarrow> (c # p) # ps)"

definition normalizeVisibleMethodSupportType :: "string \<Rightarrow> string" where
  "normalizeVisibleMethodSupportType paymentType =
     (let t = strings_TrimSpace paymentType
      in if t = ''alipay'' \<or> t = ''alipay_direct'' then ''alipay''
         else if t = ''wxpay'' \<or> t = ''wxpay_direct'' then ''wxpay''
         else t)"

definition InstanceSupportsType :: "string \<Rightarrow> string \<Rightarrow> bool" where
  "InstanceSupportsType supportedTypes target \<longleftrightarrow>
     supportedTypes = [] \<or>
     list_ex (\<lambda>t. let supported = strings_TrimSpace t
                  in supported = target \<or> normalizeVisibleMethodSupportType supported = normalizeVisibleMethodSupportType target)
       (split_commas supportedTypes)"

definition psLegacyOrderMatchesInstance :: "string \<Rightarrow> PaymentProviderInstance \<Rightarrow> bool" where
  "psLegacyOrderMatchesInstance orderPaymentType inst =
     (let baseType = GetBasePaymentType (strings_TrimSpace orderPaymentType);
          instanceProviderKey = strings_TrimSpace (pi_ProviderKey inst)
      in if baseType = [] then False
         else if baseType = ''stripe'' then instanceProviderKey = ''stripe''
         else if instanceProviderKey = ''stripe'' then False
         else if instanceProviderKey = baseType then True
         else InstanceSupportsType (pi_SupportedTypes inst) baseType)"

definition psFilterLegacyOrderProviderInstances :: "string \<Rightarrow> PaymentProviderInstance list \<Rightarrow> PaymentProviderInstance list" where
  "psFilterLegacyOrderProviderInstances orderPaymentType instances =
     (if strings_TrimSpace orderPaymentType = [] then instances
      else filter (psLegacyOrderMatchesInstance orderPaymentType) instances)"

end
