(* ===== verification/User_Balance.thy ===== *)
theory User_Balance
  imports Payment_Rules
begin

text \<open>
  The balance of users, as the statements of \<open>repository/user_repo.go\<close> change it. Each operation is
  one SQL statement (\<open>DeductBalance\<close> tries a second one). The table holds the users that are not
  deleted.
\<close>

record user_row =
  us_ID :: int
  us_Balance :: rat
  us_TotalRecharged :: rat
  us_Concurrency :: int

type_synonym user_table = "user_row list"

datatype user_error = ErrUserNotFound | ErrNegativeAmount | ErrBalanceNegative rat rat

definition find_user :: "int \<Rightarrow> user_table \<Rightarrow> user_row option" where
  "find_user i t = find (\<lambda>u. us_ID u = i) t"

definition update_user :: "int \<Rightarrow> (user_row \<Rightarrow> user_row) \<Rightarrow> user_table \<Rightarrow> user_table" where
  "update_user i f t = map (\<lambda>u. if us_ID u = i then f u else u) t"

definition on_user :: "int \<Rightarrow> (user_row \<Rightarrow> user_row) \<Rightarrow> user_table \<Rightarrow> user_error + user_table" where
  "on_user i f t = (if find_user i t = None then Inl ErrUserNotFound else Inr (update_user i f t))"

definition add_balance :: "rat \<Rightarrow> user_row \<Rightarrow> user_row" where
  "add_balance amount u =
     u \<lparr> us_Balance := us_Balance u + amount,
         us_TotalRecharged := (if 0 < amount then us_TotalRecharged u + amount else us_TotalRecharged u) \<rparr>"

definition UpdateBalance :: "int \<Rightarrow> rat \<Rightarrow> user_table \<Rightarrow> user_error + user_table" where
  "UpdateBalance i amount = on_user i (add_balance amount)"

definition ApplyRedeemBalanceAdjustment :: "int \<Rightarrow> rat \<Rightarrow> user_table \<Rightarrow> user_error + user_table" where
  "ApplyRedeemBalanceAdjustment i delta = on_user i (\<lambda>u. u \<lparr> us_Balance := max (us_Balance u + delta) 0 \<rparr>)"

definition DeductBalance :: "int \<Rightarrow> rat \<Rightarrow> user_table \<Rightarrow> user_error + user_table" where
  "DeductBalance i amount = on_user i (\<lambda>u. u \<lparr> us_Balance := us_Balance u - amount \<rparr>)"

definition available :: "rat \<Rightarrow> user_row \<Rightarrow> rat" where
  "available amount u = min amount (max (us_Balance u) 0)"

definition DeductAvailableBalance :: "int \<Rightarrow> rat \<Rightarrow> user_table \<Rightarrow> user_error + rat \<times> user_table" where
  "DeductAvailableBalance i amount t =
     (if amount < 0 then Inl ErrNegativeAmount
      else case find_user i t of
             None \<Rightarrow> Inl ErrUserNotFound
           | Some u \<Rightarrow>
               Inr (available amount u, update_user i (\<lambda>u. u \<lparr> us_Balance := us_Balance u - available amount u \<rparr>) t))"

definition AdjustBalance :: "int \<Rightarrow> rat \<Rightarrow> user_table \<Rightarrow> user_error + (rat \<times> rat) \<times> user_table" where
  "AdjustBalance i delta t =
     (case find_user i t of
        None \<Rightarrow> Inl ErrUserNotFound
      | Some u \<Rightarrow>
          if 0 \<le> us_Balance u + delta
          then Inr ((us_Balance u, us_Balance u + delta), update_user i (\<lambda>u. u \<lparr> us_Balance := us_Balance u + delta \<rparr>) t)
          else Inl (ErrBalanceNegative (us_Balance u) (us_Balance u + delta)))"

definition SetBalance :: "int \<Rightarrow> rat \<Rightarrow> user_table \<Rightarrow> user_error + (rat \<times> rat) \<times> user_table" where
  "SetBalance i v t =
     (case find_user i t of
        None \<Rightarrow> Inl ErrUserNotFound
      | Some u \<Rightarrow>
          if v < 0 then Inl (ErrBalanceNegative (us_Balance u) v)
          else Inr ((us_Balance u, v), update_user i (\<lambda>u. u \<lparr> us_Balance := v \<rparr>) t))"

definition UpdateConcurrency :: "int \<Rightarrow> int \<Rightarrow> user_table \<Rightarrow> user_error + user_table" where
  "UpdateConcurrency i amount = on_user i (\<lambda>u. u \<lparr> us_Concurrency := us_Concurrency u + amount \<rparr>)"

definition ApplyRedeemConcurrencyAdjustment :: "int \<Rightarrow> int \<Rightarrow> user_table \<Rightarrow> user_error + user_table" where
  "ApplyRedeemConcurrencyAdjustment i delta = on_user i (\<lambda>u. u \<lparr> us_Concurrency := max (us_Concurrency u + delta) 0 \<rparr>)"

section \<open>Balances after an operation\<close>

definition balance_of :: "int \<Rightarrow> user_table \<Rightarrow> rat" where
  "balance_of i t = (case find_user i t of None \<Rightarrow> 0 | Some u \<Rightarrow> us_Balance u)"

definition keeps_user :: "(user_row \<Rightarrow> user_row) \<Rightarrow> bool" where
  "keeps_user f \<longleftrightarrow> (\<forall>u. us_ID (f u) = us_ID u)"

lemma find_update_user:
  assumes "keeps_user f"
  shows "find_user j (update_user i f t) = (if j = i then map_option f (find_user i t) else find_user j t)"
  using assms by (induction t) (auto simp: find_user_def update_user_def keeps_user_def)

lemma keeps_user_updates [simp]:
  "keeps_user (add_balance a)" "keeps_user (\<lambda>u. u \<lparr> us_Balance := g u \<rparr>)" "keeps_user (\<lambda>u. u \<lparr> us_Concurrency := h u \<rparr>)"
  by (simp_all add: keeps_user_def add_balance_def)

lemma balance_of_update:
  assumes "keeps_user f" and "find_user i t = Some u"
  shows "balance_of j (update_user i f t) = (if j = i then us_Balance (f u) else balance_of j t)"
  using assms by (simp add: balance_of_def find_update_user)

lemma UpdateBalance_balance:
  assumes "UpdateBalance i a t = Inr t'"
  shows "balance_of j t' = balance_of j t + (if j = i then a else 0)"
  using assms balance_of_update [of "add_balance a" i t] by (auto simp: UpdateBalance_def on_user_def balance_of_def add_balance_def split: if_splits)

lemma available_bounds:
  assumes "0 \<le> a"
  shows "0 \<le> available a u" and "available a u \<le> a" and "available a u \<le> max (us_Balance u) 0"
  using assms by (simp_all add: available_def)

lemma DeductAvailable_balance:
  assumes "DeductAvailableBalance i a t = Inr (d, t')"
  shows "balance_of j t' = balance_of j t - (if j = i then d else 0)" and "0 \<le> d" and "d \<le> a"
    and "0 \<le> balance_of i t \<Longrightarrow> 0 \<le> balance_of i t'"
proof -
  obtain u where u: "find_user i t = Some u" and a: "0 \<le> a" and d: "d = available a u"
    and t': "t' = update_user i (\<lambda>u. u \<lparr> us_Balance := us_Balance u - available a u \<rparr>) t"
    using assms by (auto simp: DeductAvailableBalance_def split: if_splits option.splits)
  have b: "balance_of j t' = (if j = i then us_Balance u - d else balance_of j t)" for j
    unfolding t' d by (subst balance_of_update [OF _ u]) simp_all
  then show "balance_of j t' = balance_of j t - (if j = i then d else 0)" using u by (simp add: balance_of_def)
  show "0 \<le> d" "d \<le> a" using available_bounds [OF a] d by simp_all
  show "0 \<le> balance_of i t'" if "0 \<le> balance_of i t"
    using that b [of i] u available_bounds(3) [OF a, of u] d by (simp add: balance_of_def)
qed

end
