(* ===== verification/Affiliate.thy ===== *)
theory Affiliate
  imports User_Balance Subscription
begin

text \<open>
  Rebates for inviting users: the amount of a rebate (\<open>AccrueInviteRebateForOrder\<close> of
  \<open>service/affiliate_service.go\<close>) and the bookkeeping of \<open>repository/affiliate_repo.go\<close>, a row of
  quotas for each user and a ledger. Every operation is one transaction, so one function of the state.
  The settings are an argument; the model has no limit on the retries that find a free invitation
  code for a new row, which is the code the caller passes.

  A rebate enters the history quota and either the available or the frozen quota; thawing moves
  matured rebates from frozen to available; a transfer moves the available quota to the balance.
  \<open>books_ok\<close> says that nothing gets lost or counted twice on the way.
\<close>

section \<open>Operations\<close>

record affiliate_row =
  af_UserID :: int
  af_Code :: string
  af_RatePercent :: "gofloat option"
  af_InviterID :: "int option"
  af_Count :: int
  af_Quota :: rat
  af_Frozen :: rat
  af_History :: rat
  af_CreatedAt :: gotime

record ledger_row =
  al_UserID :: int
  al_Action :: string
  al_Amount :: rat
  al_SourceUser :: "int option"
  al_SourceOrder :: "int option"
  al_FrozenUntil :: "gotime option"

record affiliate_db =
  ad_rows :: "affiliate_row list"
  ad_ledger :: "ledger_row list"

record affiliate_settings =
  st_Enabled :: bool
  st_RatePercent :: gofloat
  st_DurationDays :: int
  st_PerInviteeCap :: rat
  st_FreezeHours :: int

definition find_affiliate :: "int \<Rightarrow> affiliate_db \<Rightarrow> affiliate_row option" where
  "find_affiliate i db = find (\<lambda>r. af_UserID r = i) (ad_rows db)"

definition update_affiliate :: "int \<Rightarrow> (affiliate_row \<Rightarrow> affiliate_row) \<Rightarrow> affiliate_db \<Rightarrow> affiliate_db" where
  "update_affiliate i f db = db \<lparr> ad_rows := map (\<lambda>r. if af_UserID r = i then f r else r) (ad_rows db) \<rparr>"

definition EnsureUserAffiliate :: "gotime \<Rightarrow> string \<Rightarrow> int \<Rightarrow> affiliate_db \<Rightarrow> affiliate_row \<times> affiliate_db" where
  "EnsureUserAffiliate dbnow code i db =
     (case find_affiliate i db of
        Some r \<Rightarrow> (r, db)
      | None \<Rightarrow>
          let r = \<lparr> af_UserID = i, af_Code = code, af_RatePercent = None, af_InviterID = None, af_Count = 0,
                    af_Quota = 0, af_Frozen = 0, af_History = 0, af_CreatedAt = dbnow \<rparr>
          in (r, db \<lparr> ad_rows := ad_rows db @ [r] \<rparr>))"

definition clampAffiliateRebateRate :: "gofloat \<Rightarrow> rat" where
  "clampAffiliateRebateRate v =
     (case v of Fin q \<Rightarrow> (if q < 0 then 0 else if 100 < q then 100 else q) | _ \<Rightarrow> 20)"

definition globalRebateRatePercent :: "affiliate_settings \<Rightarrow> rat" where
  "globalRebateRatePercent st = clampAffiliateRebateRate (st_RatePercent st)"

definition resolveRebateRatePercent :: "affiliate_settings \<Rightarrow> affiliate_row \<Rightarrow> rat" where
  "resolveRebateRatePercent st inviter =
     (case af_RatePercent inviter of
        None \<Rightarrow> globalRebateRatePercent st
      | Some v \<Rightarrow> (case v of Fin q \<Rightarrow> clampAffiliateRebateRate (Fin q) | _ \<Rightarrow> globalRebateRatePercent st))"

text \<open>\<open>roundTo\<close>: \<open>math.Round\<close> rounds half away from zero.\<close>

definition roundTo :: "rat \<Rightarrow> nat \<Rightarrow> rat" where
  "roundTo v scale = round_half_away scale v"

definition GetAccruedRebateFromInvitee :: "int \<Rightarrow> int \<Rightarrow> affiliate_db \<Rightarrow> rat" where
  "GetAccruedRebateFromInvitee inviter invitee db =
     sum_list (map al_Amount (filter (\<lambda>l. al_UserID l = inviter \<and> al_SourceUser l = Some invitee \<and> al_Action l = ''accrue'')
       (ad_ledger db)))"

definition AccrueQuota ::
  "gotime \<Rightarrow> int \<Rightarrow> int \<Rightarrow> rat \<Rightarrow> int \<Rightarrow> int option \<Rightarrow> affiliate_db \<Rightarrow> bool \<times> affiliate_db" where
  "AccrueQuota dbnow inviter invitee amount freezeHours sourceOrder db =
     (if amount \<le> 0 then (False, db)
      else if find_affiliate inviter db = None then (False, db)
      else
        let db1 = update_affiliate inviter
              (\<lambda>r. (if 0 < freezeHours then r \<lparr> af_Frozen := af_Frozen r + amount \<rparr> else r \<lparr> af_Quota := af_Quota r + amount \<rparr>)
                    \<lparr> af_History := af_History r + amount \<rparr>) db;
            entry = \<lparr> al_UserID = inviter, al_Action = ''accrue'', al_Amount = amount, al_SourceUser = Some invitee,
              al_SourceOrder = sourceOrder,
              al_FrozenUntil = (if 0 < freezeHours then Some (dbnow + freezeHours * Hour) else None) \<rparr>
        in (True, db1 \<lparr> ad_ledger := ad_ledger db @ [entry] \<rparr>))"

definition rebate_amount :: "affiliate_settings \<Rightarrow> affiliate_row \<Rightarrow> rat \<Rightarrow> rat \<Rightarrow> rat" where
  "rebate_amount st inviter base existing =
     (let rebate = roundTo (base * (resolveRebateRatePercent st inviter / 100)) 8
      in if rebate \<le> 0 then 0
         else if 0 < st_PerInviteeCap st then
           (if st_PerInviteeCap st \<le> existing then 0
            else let remaining = st_PerInviteeCap st - existing
                 in if remaining < rebate then roundTo remaining 8 else rebate)
         else rebate)"

text \<open>The codes for rows that are missing, of the invitee and of the inviter, are \<open>c1\<close> and \<open>c2\<close>.\<close>

definition AccrueInviteRebateForOrder ::
  "affiliate_settings \<Rightarrow> gotime \<Rightarrow> string \<Rightarrow> string \<Rightarrow> int \<Rightarrow> rat \<Rightarrow> int option \<Rightarrow> affiliate_db \<Rightarrow> rat \<times> affiliate_db" where
  "AccrueInviteRebateForOrder st now c1 c2 invitee base sourceOrder db =
     (if invitee \<le> 0 \<or> base \<le> 0 then (0, db)
      else if \<not> st_Enabled st then (0, db)
      else
        let e1 = EnsureUserAffiliate now c1 invitee db
        in case af_InviterID (fst e1) of
             None \<Rightarrow> (0, snd e1)
           | Some inviterID \<Rightarrow>
               if inviterID \<le> 0 then (0, snd e1)
               else
                 let e2 = EnsureUserAffiliate now c2 inviterID (snd e1)
                 in if 0 < st_DurationDays st \<and> af_CreatedAt (fst e1) + st_DurationDays st * Day < now then (0, snd e2)
                    else
                      let rebate = rebate_amount st (fst e2) base (GetAccruedRebateFromInvitee inviterID invitee (snd e2));
                          r = AccrueQuota now inviterID invitee rebate (st_FreezeHours st) sourceOrder (snd e2)
                      in if rebate \<le> 0 then (0, snd e2)
                         else ((if fst r then rebate else 0), snd r))"

definition matured :: "gotime \<Rightarrow> int \<Rightarrow> ledger_row \<Rightarrow> bool" where
  "matured dbnow i l \<longleftrightarrow> al_UserID l = i \<and> (case al_FrozenUntil l of None \<Rightarrow> False | Some u \<Rightarrow> u \<le> dbnow)"

definition ThawFrozenQuota :: "gotime \<Rightarrow> int \<Rightarrow> affiliate_db \<Rightarrow> rat \<times> affiliate_db" where
  "ThawFrozenQuota dbnow i db =
     (let thawed = sum_list (map al_Amount (filter (matured dbnow i) (ad_ledger db)));
          db1 = db \<lparr> ad_ledger := map (\<lambda>l. if matured dbnow i l then l \<lparr> al_FrozenUntil := None \<rparr> else l) (ad_ledger db) \<rparr>
      in if thawed \<le> 0 then (0, db1)
         else (thawed, update_affiliate i
           (\<lambda>r. r \<lparr> af_Quota := af_Quota r + thawed, af_Frozen := max (af_Frozen r - thawed) 0 \<rparr>) db1))"

datatype affiliate_error = ErrAffiliateQuotaEmpty | AffiliateUser user_error

text \<open>\<open>TransferQuotaToBalance\<close>: an error rolls the transaction back.\<close>

definition TransferQuotaToBalance ::
  "gotime \<Rightarrow> string \<Rightarrow> int \<Rightarrow> affiliate_db \<times> user_table \<Rightarrow> affiliate_error + rat \<times> (affiliate_db \<times> user_table)" where
  "TransferQuotaToBalance dbnow code i s =
     (let db1 = snd (EnsureUserAffiliate dbnow code i (fst s));
          db2 = snd (ThawFrozenQuota dbnow i db1)
      in case find_affiliate i db2 of
           None \<Rightarrow> Inl ErrAffiliateQuotaEmpty
         | Some r \<Rightarrow>
             if af_Quota r \<le> 0 then Inl ErrAffiliateQuotaEmpty
             else
               let transferred = af_Quota r; db3 = update_affiliate i (\<lambda>r. r \<lparr> af_Quota := 0 \<rparr>) db2
               in case UpdateBalance i transferred (snd s) of
                    Inl e \<Rightarrow> Inl (AffiliateUser e)
                  | Inr us \<Rightarrow>
                      let entry = \<lparr> al_UserID = i, al_Action = ''transfer'', al_Amount = transferred, al_SourceUser = None,
                            al_SourceOrder = None, al_FrozenUntil = None \<rparr>
                      in Inr (transferred, (db3 \<lparr> ad_ledger := ad_ledger db3 @ [entry] \<rparr>, us)))"

definition BindInviter :: "gotime \<Rightarrow> string \<Rightarrow> string \<Rightarrow> int \<Rightarrow> int \<Rightarrow> affiliate_db \<Rightarrow> bool \<times> affiliate_db" where
  "BindInviter dbnow c1 c2 i inviter db =
     (let db2 = snd (EnsureUserAffiliate dbnow c2 inviter (snd (EnsureUserAffiliate dbnow c1 i db)));
          free = (case find_affiliate i db2 of None \<Rightarrow> False | Some r \<Rightarrow> af_InviterID r = None)
      in if \<not> free then (False, db2)
         else (True, update_affiliate inviter (\<lambda>r. r \<lparr> af_Count := af_Count r + 1 \<rparr>)
                (update_affiliate i (\<lambda>r. r \<lparr> af_InviterID := Some inviter \<rparr>) db2)))"

section \<open>The books\<close>

definition ledger_sum :: "(ledger_row \<Rightarrow> bool) \<Rightarrow> affiliate_db \<Rightarrow> rat" where
  "ledger_sum P db = sum_list (map al_Amount (filter P (ad_ledger db)))"

abbreviation "accrued i \<equiv> (\<lambda>l. al_UserID l = i \<and> al_Action l = ''accrue'')"
abbreviation "frozen i \<equiv> (\<lambda>l. al_UserID l = i \<and> al_FrozenUntil l \<noteq> None)"
abbreviation "transferred i \<equiv> (\<lambda>l. al_UserID l = i \<and> al_Action l = ''transfer'')"

definition row_books :: "affiliate_db \<Rightarrow> affiliate_row \<Rightarrow> bool" where
  "row_books db r \<longleftrightarrow>
     af_History r = ledger_sum (accrued (af_UserID r)) db \<and>
     af_Frozen r = ledger_sum (frozen (af_UserID r)) db \<and>
     af_History r = af_Quota r + af_Frozen r + ledger_sum (transferred (af_UserID r)) db \<and> 0 \<le> af_Quota r"

definition books_ok :: "affiliate_db \<Rightarrow> bool" where
  "books_ok db \<longleftrightarrow> distinct (map af_UserID (ad_rows db)) \<and>
     (\<forall>l \<in> set (ad_ledger db). 0 < al_Amount l \<and> al_UserID l \<in> af_UserID ` set (ad_rows db) \<and>
        (al_FrozenUntil l \<noteq> None \<longrightarrow> al_Action l = ''accrue'')) \<and>
     (\<forall>r \<in> set (ad_rows db). row_books db r)"

lemma ledger_sum_append: "ledger_sum P (db \<lparr> ad_ledger := ad_ledger db @ [l] \<rparr>) = ledger_sum P db + (if P l then al_Amount l else 0)"
  by (simp add: ledger_sum_def)

lemma ledger_sum_rows [simp]: "ledger_sum P (db \<lparr> ad_rows := x \<rparr>) = ledger_sum P db" "ledger_sum P (update_affiliate i f db) = ledger_sum P db"
  by (simp_all add: ledger_sum_def update_affiliate_def)

lemma find_affiliate_iff:
  assumes "books_ok db"
  shows "find_affiliate i db = Some r \<longleftrightarrow> r \<in> set (ad_rows db) \<and> af_UserID r = i"
proof
  assume "find_affiliate i db = Some r"
  from find_SomeD [OF this [unfolded find_affiliate_def]] show "r \<in> set (ad_rows db) \<and> af_UserID r = i" by simp
next
  assume "r \<in> set (ad_rows db) \<and> af_UserID r = i"
  moreover have "inj_on af_UserID (set (ad_rows db))" using assms by (simp add: books_ok_def distinct_map)
  ultimately show "find_affiliate i db = Some r"
    unfolding find_affiliate_def by (intro find_the) (auto simp: inj_on_def)
qed

lemma find_affiliate_None: "find_affiliate i db = None \<longleftrightarrow> i \<notin> af_UserID ` set (ad_rows db)"
  by (auto simp: find_affiliate_def find_None_iff)

lemma books_row: "books_ok db \<Longrightarrow> r \<in> set (ad_rows db) \<Longrightarrow> row_books db r"
  by (simp add: books_ok_def)

text \<open>The books after a change of the row of one user and of the ledger.\<close>

lemma books_change:
  assumes "books_ok db" and "\<And>r. af_UserID (f r) = af_UserID r"
    and "db' = (update_affiliate i f db) \<lparr> ad_ledger := ls \<rparr>"
    and "\<forall>l \<in> set ls. 0 < al_Amount l \<and> al_UserID l \<in> af_UserID ` set (ad_rows db) \<and>
      (al_FrozenUntil l \<noteq> None \<longrightarrow> al_Action l = ''accrue'')"
    and "\<And>r. r \<in> set (ad_rows db) \<Longrightarrow> af_UserID r = i \<Longrightarrow> row_books db r \<Longrightarrow> row_books db' (f r)"
    and "\<And>r. r \<in> set (ad_rows db) \<Longrightarrow> af_UserID r \<noteq> i \<Longrightarrow> row_books db r \<Longrightarrow> row_books db' r"
  shows "books_ok db'"
proof -
  have rows: "ad_rows db' = map (\<lambda>r. if af_UserID r = i then f r else r) (ad_rows db)"
    and ledger: "ad_ledger db' = ls" using assms(3) by (simp_all add: update_affiliate_def)
  have ids: "map af_UserID (ad_rows db') = map af_UserID (ad_rows db)" using assms(2) by (simp add: rows)
  then have "af_UserID ` set (ad_rows db') = af_UserID ` set (ad_rows db)" by (metis list.set_map)
  moreover have "row_books db' r'" if "r' \<in> set (ad_rows db')" for r'
  proof -
    obtain r where "r \<in> set (ad_rows db)" "r' = (if af_UserID r = i then f r else r)" using \<open>r' \<in> set (ad_rows db')\<close> rows by auto
    then show ?thesis using assms(5,6) books_row [OF assms(1)] by simp
  qed
  ultimately show ?thesis using assms(1,4) ids ledger by (simp add: books_ok_def)
qed

lemma books_update:
  assumes "books_ok db" and "\<And>r. af_UserID (f r) = af_UserID r \<and> af_Quota (f r) = af_Quota r \<and> af_Frozen (f r) = af_Frozen r \<and>
    af_History (f r) = af_History r"
  shows "books_ok (update_affiliate i f db)"
proof (rule books_change [OF assms(1), of f])
  show "update_affiliate i f db = update_affiliate i f db \<lparr> ad_ledger := ad_ledger db \<rparr>" by (simp add: update_affiliate_def)
qed (use assms in \<open>simp_all add: row_books_def books_ok_def\<close>)

lemma books_ensure:
  assumes "books_ok db"
  shows "books_ok (snd (EnsureUserAffiliate now c i db))"
    and "find_affiliate i (snd (EnsureUserAffiliate now c i db)) = Some (fst (EnsureUserAffiliate now c i db))"
    and "find_affiliate j db = Some r \<Longrightarrow> find_affiliate j (snd (EnsureUserAffiliate now c i db)) = Some r"
    and "ad_ledger (snd (EnsureUserAffiliate now c i db)) = ad_ledger db"
proof -
  let ?db = "snd (EnsureUserAffiliate now c i db)" and ?r = "fst (EnsureUserAffiliate now c i db)"
  have "books_ok ?db \<and> find_affiliate i ?db = Some ?r \<and> ad_ledger ?db = ad_ledger db \<and> set (ad_rows db) \<subseteq> set (ad_rows ?db)"
  proof (cases "find_affiliate i db")
    case (Some r)
    then show ?thesis using assms by (simp add: EnsureUserAffiliate_def)
  next
    case None
    then have i: "i \<notin> af_UserID ` set (ad_rows db)" by (simp add: find_affiliate_None)
    have "\<forall>l \<in> set (ad_ledger db). al_UserID l \<noteq> i" using assms i by (auto simp: books_ok_def)
    then have zero: "filter (\<lambda>l. al_UserID l = i \<and> Q l) (ad_ledger db) = []" for Q by (simp add: filter_empty_conv)
    have r: "af_UserID ?r = i" "af_Quota ?r = 0" "af_Frozen ?r = 0" "af_History ?r = 0"
      and db: "?db = db \<lparr> ad_rows := ad_rows db @ [?r] \<rparr>"
      using None by (simp_all add: EnsureUserAffiliate_def Let_def)
    have "row_books ?db ?r" by (simp add: row_books_def r db ledger_sum_def zero)
    moreover have "row_books ?db x" if "row_books db x" for x using that by (simp add: row_books_def db)
    ultimately have "books_ok ?db" using assms i r(1) unfolding books_ok_def by (subst (asm) db, subst db) (auto simp: db)
    then show ?thesis using find_affiliate_iff [of ?db i ?r] r(1) db by auto
  qed
  then show "books_ok ?db" "find_affiliate i ?db = Some ?r" "ad_ledger ?db = ad_ledger db"
    "find_affiliate j db = Some r \<Longrightarrow> find_affiliate j ?db = Some r"
    using find_affiliate_iff [of ?db j r] find_affiliate_iff [OF assms, of j r] by auto
qed

lemma books_accrue:
  assumes "books_ok db"
  shows "books_ok (snd (AccrueQuota now inviter invitee amount h so db))"
proof (cases "amount \<le> 0 \<or> find_affiliate inviter db = None")
  case True
  then show ?thesis using assms by (auto simp: AccrueQuota_def)
next
  case False
  then have a: "0 < amount" and i: "inviter \<in> af_UserID ` set (ad_rows db)" by (auto simp: find_affiliate_None)
  let ?f = "\<lambda>r. (if 0 < h then r \<lparr> af_Frozen := af_Frozen r + amount \<rparr> else r \<lparr> af_Quota := af_Quota r + amount \<rparr>)
    \<lparr> af_History := af_History r + amount \<rparr>"
  let ?e = "\<lparr> al_UserID = inviter, al_Action = ''accrue'', al_Amount = amount, al_SourceUser = Some invitee,
    al_SourceOrder = so, al_FrozenUntil = (if 0 < h then Some (now + h * Hour) else None) \<rparr>"
  let ?db = "(update_affiliate inviter ?f db) \<lparr> ad_ledger := ad_ledger db @ [?e] \<rparr>"
  have sum: "ledger_sum P ?db = ledger_sum P db + (if P ?e then amount else 0)" for P
    by (simp add: ledger_sum_def update_affiliate_def)
  have "books_ok ?db"
  proof (rule books_change [OF assms, of ?f])
    show "\<forall>l \<in> set (ad_ledger db @ [?e]). 0 < al_Amount l \<and> al_UserID l \<in> af_UserID ` set (ad_rows db) \<and>
        (al_FrozenUntil l \<noteq> None \<longrightarrow> al_Action l = ''accrue'')"
      using assms a i by (auto simp: books_ok_def)
    fix r
    assume "r \<in> set (ad_rows db)" and b: "row_books db r"
    show "row_books ?db (?f r)" if "af_UserID r = inviter" using b a that unfolding row_books_def sum by auto
    show "row_books ?db r" if "af_UserID r \<noteq> inviter" using b that unfolding row_books_def sum by auto
  qed simp_all
  moreover have "find_affiliate inviter db \<noteq> None" using False by simp
  ultimately show ?thesis using a by (simp only: AccrueQuota_def Let_def not_le [symmetric] if_False snd_conv simp_thms)
qed

lemma matured_frozen: "matured now i l \<Longrightarrow> al_UserID l = i \<and> al_FrozenUntil l \<noteq> None"
  by (auto simp: matured_def split: option.splits)

lemma matured_split:
  "ledger_sum (frozen i) db = ledger_sum (matured now i) db +
     ledger_sum (frozen i) (db \<lparr> ad_ledger := map (\<lambda>l. if matured now i l then l \<lparr> al_FrozenUntil := None \<rparr> else l) (ad_ledger db) \<rparr>)"
proof -
  have "sum_list (map al_Amount (filter (frozen i) ls)) = sum_list (map al_Amount (filter (matured now i) ls)) +
      sum_list (map al_Amount (filter (frozen i) (map (\<lambda>l. if matured now i l then l \<lparr> al_FrozenUntil := None \<rparr> else l) ls)))" for ls
  proof (induction ls)
    case (Cons l ls)
    then show ?case using matured_frozen [of now i l] by (cases "matured now i l") (simp_all del: not_None_eq)
  qed simp
  from this [of "ad_ledger db"] show ?thesis by (simp add: ledger_sum_def)
qed

lemma ledger_sum_thawed:
  assumes "\<And>l. P (l \<lparr> al_FrozenUntil := None \<rparr>) = P l"
  shows "ledger_sum P (db \<lparr> ad_ledger := map (\<lambda>l. if matured now i l then l \<lparr> al_FrozenUntil := None \<rparr> else l) (ad_ledger db) \<rparr>) =
    ledger_sum P db"
proof -
  have "sum_list (map al_Amount (filter P (map (\<lambda>l. if matured now i l then l \<lparr> al_FrozenUntil := None \<rparr> else l) ls))) =
      sum_list (map al_Amount (filter P ls))" for ls
    using assms by (induction ls) auto
  then show ?thesis by (simp add: ledger_sum_def)
qed

lemma frozen_thawed_other:
  assumes "j \<noteq> i"
  shows "ledger_sum (frozen j) (db \<lparr> ad_ledger := map (\<lambda>l. if matured now i l then l \<lparr> al_FrozenUntil := None \<rparr> else l) (ad_ledger db) \<rparr>) =
    ledger_sum (frozen j) db"
proof -
  have "sum_list (map al_Amount (filter (frozen j) (map (\<lambda>l. if matured now i l then l \<lparr> al_FrozenUntil := None \<rparr> else l) ls))) =
      sum_list (map al_Amount (filter (frozen j) ls))" for ls
  proof (induction ls)
    case (Cons l ls)
    then show ?case using matured_frozen [of now i l] assms by (cases "matured now i l") (simp_all del: not_None_eq)
  qed simp
  then show ?thesis by (simp add: ledger_sum_def)
qed

lemma ledger_sum_nonneg:
  assumes "\<And>l. l \<in> set (ad_ledger db) \<Longrightarrow> 0 < al_Amount l"
  shows "0 \<le> ledger_sum P db"
proof -
  have "0 \<le> x" if "x \<in> set (map al_Amount (filter P (ad_ledger db)))" for x
    using that assms by (auto intro: less_imp_le)
  then show ?thesis unfolding ledger_sum_def by (rule sum_list_nonneg)
qed

lemma books_thaw:
  assumes "books_ok db"
  shows "books_ok (snd (ThawFrozenQuota now i db))"
proof -
  let ?ls = "map (\<lambda>l. if matured now i l then l \<lparr> al_FrozenUntil := None \<rparr> else l) (ad_ledger db)"
  let ?db1 = "db \<lparr> ad_ledger := ?ls \<rparr>" and ?t = "ledger_sum (matured now i) db"
  let ?f = "\<lambda>r. if ?t \<le> 0 then r else r \<lparr> af_Quota := af_Quota r + ?t, af_Frozen := max (af_Frozen r - ?t) 0 \<rparr>"
  have same: "ledger_sum (accrued j) ?db1 = ledger_sum (accrued j) db" "ledger_sum (transferred j) ?db1 = ledger_sum (transferred j) db" for j
    by (rule ledger_sum_thawed, simp)+
  have pos: "0 \<le> ?t" using assms by (intro ledger_sum_nonneg) (simp add: books_ok_def)
  have ls: "\<forall>l \<in> set ?ls. 0 < al_Amount l \<and> al_UserID l \<in> af_UserID ` set (ad_rows db) \<and>
      (al_FrozenUntil l \<noteq> None \<longrightarrow> al_Action l = ''accrue'')"
    using assms by (auto simp: books_ok_def)
  have sums: "ledger_sum P (update_affiliate i ?f db \<lparr> ad_ledger := ?ls \<rparr>) = ledger_sum P ?db1" for P
    by (simp add: ledger_sum_def update_affiliate_def)
  have "books_ok (update_affiliate i ?f db \<lparr> ad_ledger := ?ls \<rparr>)"
  proof (rule books_change [OF assms, of ?f, OF _ refl ls])
    fix r
    assume b: "row_books db r"
    note split = matured_split [where i = i and db = db and now = now]
      frozen_thawed_other [where j = "af_UserID r" and i = i and db = db and now = now]
    show "row_books (update_affiliate i ?f db \<lparr> ad_ledger := ?ls \<rparr>) r" if "af_UserID r \<noteq> i"
      using b split(2) [OF that] by (simp add: row_books_def sums same)
    have "0 \<le> ledger_sum (frozen i) ?db1"
    proof (rule ledger_sum_nonneg)
      fix l
      assume "l \<in> set (ad_ledger ?db1)"
      moreover have "ad_ledger ?db1 = ?ls" by simp
      ultimately have "l \<in> set ?ls" by (rule back_subst [of "\<lambda>x. l \<in> set x"])
      then show "0 < al_Amount l" using ls by blast
    qed
    then have m: "max (ledger_sum (frozen i) db - ?t) 0 = ledger_sum (frozen i) ?db1" using split(1) by linarith
    have z: "ledger_sum (frozen i) db = ledger_sum (frozen i) ?db1" if "?t \<le> 0" using split(1) pos that by linarith
    show "row_books (update_affiliate i ?f db \<lparr> ad_ledger := ?ls \<rparr>) (?f r)" if "af_UserID r = i"
    proof (cases "?t \<le> 0")
      case True
      then show ?thesis using b z that unfolding row_books_def sums by (simp del: not_None_eq add: same)
    next
      case False
      then have "0 < ?t" by simp
      then show ?thesis using b m split(1) that unfolding row_books_def sums by (simp del: not_None_eq add: same)
    qed
  qed simp
  moreover have "snd (ThawFrozenQuota now i db) = update_affiliate i ?f db \<lparr> ad_ledger := ?ls \<rparr>"
    by (auto simp: ThawFrozenQuota_def Let_def update_affiliate_def ledger_sum_def map_idI)
  ultimately show ?thesis by simp
qed

lemma books_accrue_rebate:
  assumes "books_ok db"
  shows "books_ok (snd (AccrueInviteRebateForOrder st now c1 c2 invitee base so db))"
proof -
  let ?e1 = "EnsureUserAffiliate now c1 invitee db"
  have e1: "books_ok (snd ?e1)" by (rule books_ensure(1) [OF assms])
  have e2: "books_ok (snd (EnsureUserAffiliate now c2 j (snd ?e1)))" for j by (rule books_ensure(1) [OF e1])
  show ?thesis
    using assms e1 e2 books_accrue [OF e2]
    by (simp add: AccrueInviteRebateForOrder_def Let_def split: option.split)
qed

lemma books_bind: "books_ok db \<Longrightarrow> books_ok (snd (BindInviter now c1 c2 i j db))"
  using books_ensure(1) [OF books_ensure(1)]
  by (simp add: BindInviter_def Let_def books_update)

lemma books_transfer:
  assumes "books_ok db" and "TransferQuotaToBalance now c i (db, us) = Inr (a, (db', us'))"
  shows "books_ok db'" and "0 < a" and "balance_of j us' = balance_of j us + (if j = i then a else 0)"
proof -
  let ?db2 = "snd (ThawFrozenQuota now i (snd (EnsureUserAffiliate now c i db)))"
  have ok: "books_ok ?db2" by (rule books_thaw [OF books_ensure(1) [OF assms(1)]])
  obtain r where r: "find_affiliate i ?db2 = Some r" "0 < af_Quota r" "a = af_Quota r" "UpdateBalance i a us = Inr us'"
    and db': "db' = update_affiliate i (\<lambda>r. r \<lparr> af_Quota := 0 \<rparr>) ?db2 \<lparr> ad_ledger := ad_ledger ?db2 @
      [\<lparr> al_UserID = i, al_Action = ''transfer'', al_Amount = a, al_SourceUser = None, al_SourceOrder = None, al_FrozenUntil = None \<rparr>] \<rparr>"
    using assms(2) by (auto simp: TransferQuotaToBalance_def Let_def update_affiliate_def split: option.splits if_splits sum.splits)
  let ?e = "\<lparr> al_UserID = i, al_Action = ''transfer'', al_Amount = a, al_SourceUser = None, al_SourceOrder = None, al_FrozenUntil = None \<rparr>"
  have a: "0 < a" using r by simp
  have i: "r \<in> set (ad_rows ?db2)" "af_UserID r = i" using r(1) find_affiliate_iff [OF ok] by simp_all
  have sum: "ledger_sum P db' = ledger_sum P ?db2 + (if P ?e then a else 0)" for P
    unfolding db' by (simp add: ledger_sum_def update_affiliate_def)
  show "books_ok db'"
  proof (rule books_change [OF ok, of "\<lambda>r. r \<lparr> af_Quota := 0 \<rparr>"])
    show "db' = update_affiliate i (\<lambda>r. r \<lparr> af_Quota := 0 \<rparr>) ?db2 \<lparr> ad_ledger := ad_ledger ?db2 @ [?e] \<rparr>" by (rule db')
    show "\<forall>l \<in> set (ad_ledger ?db2 @ [?e]). 0 < al_Amount l \<and> al_UserID l \<in> af_UserID ` set (ad_rows ?db2) \<and>
        (al_FrozenUntil l \<noteq> None \<longrightarrow> al_Action l = ''accrue'')"
      using ok a i by (auto simp: books_ok_def)
    fix q
    assume q: "q \<in> set (ad_rows ?db2)" and b: "row_books ?db2 q"
    show "row_books db' (q \<lparr> af_Quota := 0 \<rparr>)" if "af_UserID q = i"
    proof -
      have "q = r" using find_affiliate_iff [OF ok, of i q] q that r(1) by simp
      then show ?thesis using b r(3) i(2) unfolding row_books_def sum by simp
    qed
    show "row_books db' q" if "af_UserID q \<noteq> i" using b that unfolding row_books_def sum by auto
  qed simp
  show "0 < a" "balance_of j us' = balance_of j us + (if j = i then a else 0)"
    using a UpdateBalance_balance [OF r(4)] by simp_all
qed

section \<open>Histories of operations\<close>

datatype affiliate_op =
    Bind string string int int
  | Accrue affiliate_settings string string int rat "int option"
  | Thaw int
  | Transfer string int

fun affiliate_step :: "gotime \<times> affiliate_op \<Rightarrow> affiliate_db \<times> user_table \<Rightarrow> affiliate_db \<times> user_table" where
  "affiliate_step (now, Bind c1 c2 i j) s = (snd (BindInviter now c1 c2 i j (fst s)), snd s)"
| "affiliate_step (now, Accrue st c1 c2 i base so) s = (snd (AccrueInviteRebateForOrder st now c1 c2 i base so (fst s)), snd s)"
| "affiliate_step (now, Thaw i) s = (snd (ThawFrozenQuota now i (fst s)), snd s)"
| "affiliate_step (now, Transfer c i) s =
     (case TransferQuotaToBalance now c i s of Inl e \<Rightarrow> s | Inr r \<Rightarrow> snd r)"

lemma transferred_kept:
  "ledger_sum (transferred i) (snd (BindInviter now c1 c2 u v db)) = ledger_sum (transferred i) db"
  "ledger_sum (transferred i) (snd (ThawFrozenQuota now u db)) = ledger_sum (transferred i) db"
  "ledger_sum (transferred i) (snd (AccrueQuota now u v a h so db)) = ledger_sum (transferred i) db"
  "ledger_sum (transferred i) (snd (AccrueInviteRebateForOrder st now c1 c2 u base so db)) = ledger_sum (transferred i) db"
proof -
  have ensure: "ledger_sum P (snd (EnsureUserAffiliate now c u db)) = ledger_sum P db" for P c u db
    by (simp add: EnsureUserAffiliate_def Let_def split: option.split)
  show "ledger_sum (transferred i) (snd (BindInviter now c1 c2 u v db)) = ledger_sum (transferred i) db"
    by (simp add: BindInviter_def Let_def ensure)
  have "ledger_sum (transferred i) (db \<lparr> ad_ledger := map (\<lambda>l. if matured now u l then l \<lparr> al_FrozenUntil := None \<rparr> else l) (ad_ledger db) \<rparr>) =
      ledger_sum (transferred i) db"
    by (rule ledger_sum_thawed) simp
  then show "ledger_sum (transferred i) (snd (ThawFrozenQuota now u db)) = ledger_sum (transferred i) db"
    by (simp add: ThawFrozenQuota_def Let_def)
  have accrue: "ledger_sum (transferred i) (snd (AccrueQuota now u v a h so db)) = ledger_sum (transferred i) db" for u v a h so db
    by (simp add: AccrueQuota_def Let_def ledger_sum_def update_affiliate_def)
  then show "ledger_sum (transferred i) (snd (AccrueQuota now u v a h so db)) = ledger_sum (transferred i) db" .
  show "ledger_sum (transferred i) (snd (AccrueInviteRebateForOrder st now c1 c2 u base so db)) = ledger_sum (transferred i) db"
    by (simp add: AccrueInviteRebateForOrder_def Let_def ensure accrue split: option.split)
qed

lemma transferred_sum:
  assumes "TransferQuotaToBalance now c u (db, us) = Inr (a, (db', us'))"
  shows "ledger_sum (transferred i) db' = ledger_sum (transferred i) db + (if i = u then a else 0)"
proof -
  let ?db2 = "snd (ThawFrozenQuota now u (snd (EnsureUserAffiliate now c u db)))"
  have "ledger_sum (transferred i) db' = ledger_sum (transferred i) ?db2 + (if i = u then a else 0)"
    using assms by (auto simp: TransferQuotaToBalance_def Let_def ledger_sum_def update_affiliate_def
        split: option.splits if_splits sum.splits)
  also have "ledger_sum (transferred i) ?db2 = ledger_sum (transferred i) db"
    by (simp add: transferred_kept EnsureUserAffiliate_def Let_def split: option.split)
  finally show ?thesis .
qed

lemma affiliate_step_ok:
  assumes "books_ok (fst s)"
  shows "books_ok (fst (affiliate_step x s))"
    and "balance_of i (snd (affiliate_step x s)) - ledger_sum (transferred i) (fst (affiliate_step x s)) =
      balance_of i (snd s) - ledger_sum (transferred i) (fst s)"
proof -
  obtain now op where x: "x = (now, op)" by (rule prod.exhaust)
  have "books_ok (fst (affiliate_step x s)) \<and>
      balance_of i (snd (affiliate_step x s)) - ledger_sum (transferred i) (fst (affiliate_step x s)) =
      balance_of i (snd s) - ledger_sum (transferred i) (fst s)"
  proof (cases op)
    case (Transfer c u)
    show ?thesis
    proof (cases "TransferQuotaToBalance now c u s")
      case (Inl e)
      then show ?thesis using x Transfer assms by simp
    next
      case (Inr r)
      then have "TransferQuotaToBalance now c u (fst s, snd s) = Inr (fst r, (fst (snd r), snd (snd r)))" by simp
      from books_transfer [OF assms this] transferred_sum [OF this] show ?thesis using x Transfer Inr by simp
    qed
  qed (use x assms in \<open>simp_all add: books_bind books_accrue_rebate books_thaw transferred_kept\<close>)
  then show "books_ok (fst (affiliate_step x s))"
    "balance_of i (snd (affiliate_step x s)) - ledger_sum (transferred i) (fst (affiliate_step x s)) =
      balance_of i (snd s) - ledger_sum (transferred i) (fst s)" by simp_all
qed

text \<open>
  Property C15 (invariant). The books of the rebates balance after every history of bindings, accruals, thaws
  and transfers from empty tables: for each user the history quota is the sum of the accruals in the ledger
  and equals the available quota, the frozen quota and the transfers together, the frozen quota is what the
  ledger still holds back (so the clamp at zero never acts), no quota is negative, and the balance of the
  user has grown by exactly the transfers in the ledger.
\<close>

theorem affiliate_books:
  assumes "fold affiliate_step ops (\<lparr> ad_rows = [], ad_ledger = [] \<rparr>, us) = (db, us')"
  shows "books_ok db \<and> balance_of i us' = balance_of i us + ledger_sum (transferred i) db"
proof -
  have "books_ok (fst (fold affiliate_step ops s)) \<and>
      balance_of i (snd (fold affiliate_step ops s)) - ledger_sum (transferred i) (fst (fold affiliate_step ops s)) =
      balance_of i (snd s) - ledger_sum (transferred i) (fst s)" if "books_ok (fst s)" for s
    using that affiliate_step_ok by (induction ops arbitrary: s) simp_all
  from this [of "(\<lparr> ad_rows = [], ad_ledger = [] \<rparr>, us)"] assms show ?thesis
    by (simp add: books_ok_def ledger_sum_def)
qed

definition example_rebates :: "(gotime \<times> affiliate_op) list" where
  "example_rebates =
     (let st = \<lparr> st_Enabled = True, st_RatePercent = Fin 20, st_DurationDays = 0, st_PerInviteeCap = 25, st_FreezeHours = 24 \<rparr>
      in [(0, Bind ''A'' ''B'' 1 2), (Hour, Accrue st ''A'' ''B'' 1 100 (Some 5)), (2 * Hour, Accrue st ''A'' ''B'' 1 100 (Some 6)),
          (25 * Hour, Transfer ''B'' 2), (30 * Hour, Thaw 2)])"

theorem affiliate_books_witness:
  "books_ok (fst (fold affiliate_step example_rebates (\<lparr> ad_rows = [], ad_ledger = [] \<rparr>,
       [\<lparr> us_ID = 2, us_Balance = 1, us_TotalRecharged = 0, us_Concurrency = 0 \<rparr>]))) \<and>
   balance_of 2 (snd (fold affiliate_step example_rebates (\<lparr> ad_rows = [], ad_ledger = [] \<rparr>,
       [\<lparr> us_ID = 2, us_Balance = 1, us_TotalRecharged = 0, us_Concurrency = 0 \<rparr>]))) = 21"
proof -
  let ?s = "(\<lparr> ad_rows = [], ad_ledger = [] \<rparr>, [\<lparr> us_ID = 2, us_Balance = 1, us_TotalRecharged = 0, us_Concurrency = 0 \<rparr>])"
  have b: "balance_of 2 (snd ?s) = 1" and t: "ledger_sum (transferred 2) (fst (fold affiliate_step example_rebates ?s)) = 20"
    by code_simp+
  show ?thesis using affiliate_books [of example_rebates "snd ?s" "fst (fold affiliate_step example_rebates ?s)"
      "snd (fold affiliate_step example_rebates ?s)" 2] b t by simp
qed

end
