(* ===== verification/Payment_Store.thy ===== *)
theory Payment_Store
  imports Affiliate Subscription Statement_Program Idempotency_Store
begin

text \<open>
  The database of the payment service and the commands its programs issue. One command is one SQL
  statement, one transaction, one reading of the clock, or one call of Redis or of a payment provider;
  programs of the service interleave between commands. A statement or a transaction can be lost on
  either side of its effect (\<open>fate\<close>). What comes from outside (the clock, replies of providers and of
  Redis) is the input of the command.

  The transactions are modelled as atomic: each of them starts with a statement that takes the lock the
  later ones depend on (the row of the redeem code, the row of the order, the unique index of the audit
  log).

  Rows keep what the programs read. An update through the generated client sets \<open>updated_at\<close> to the
  clock unless the caller sets it. Audit rows have a unique index on order and action
  (\<open>migrations/131_affiliate_rebate_hardening.sql\<close>).
\<close>

section \<open>Tables\<close>

abbreviation "StatusUnused \<equiv> ''unused''"
abbreviation "StatusUsed \<equiv> ''used''"
abbreviation "StatusExpired \<equiv> ''expired''"
abbreviation "RedeemTypeBalance \<equiv> ''balance''"
abbreviation "RedeemTypeConcurrency \<equiv> ''concurrency''"
abbreviation "RedeemTypeSubscription \<equiv> ''subscription''"
abbreviation "RedeemTypeInvitation \<equiv> ''invitation''"

record RedeemCode =
  rc_ID :: int
  rc_Code :: string
  rc_Type :: string
  rc_Value :: rat
  rc_Status :: string
  rc_UsedBy :: "int option"
  rc_UsedAt :: "gotime option"
  rc_ExpiresAt :: "gotime option"
  rc_GroupID :: "int option"
  rc_ValidityDays :: int

definition IsUsed :: "RedeemCode \<Rightarrow> bool" where
  "IsUsed r \<longleftrightarrow> rc_Status r = StatusUsed"

definition IsExpiredAt :: "gotime \<Rightarrow> RedeemCode \<Rightarrow> bool" where
  "IsExpiredAt now r \<longleftrightarrow>
     rc_Status r = StatusExpired \<or>
     rc_Status r = StatusUnused \<and> (case rc_ExpiresAt r of None \<Rightarrow> False | Some t \<Rightarrow> t \<le> now)"

definition CanUse :: "gotime \<Rightarrow> RedeemCode \<Rightarrow> bool" where
  "CanUse now r \<longleftrightarrow> rc_Status r = StatusUnused \<and> \<not> IsExpiredAt now r"

datatype detail = DS string | DN gofloat | DB bool | DI int | DE "pay_error option" | DT gotime

record audit_row =
  au_OrderID :: int
  au_Action :: string
  au_Operator :: string
  au_Detail :: "(string \<times> detail) list"
  au_CreatedAt :: gotime

text \<open>
  The last two fields are no tables: they record every credit a redeem code has given and every order
  whose subscription was assigned. No program reads them.
\<close>

record pay_db =
  pd_orders :: "PaymentOrder list"
  pd_codes :: "RedeemCode list"
  pd_users :: user_table
  pd_audits :: "audit_row list"
  pd_subs :: sub_table
  pd_groups :: "subscription_group list"
  pd_instances :: "PaymentProviderInstance list"
  pd_affiliates :: affiliate_db
  pd_credits :: "(string \<times> int \<times> rat) list"
  pd_assigned :: "int list"

section \<open>Surroundings\<close>

text \<open>The Unicode tables, the provider key the registry has for a payment type, the settings of the affiliate service.\<close>

record pay_env =
  pe_fold :: "string \<Rightarrow> string \<Rightarrow> bool"
  pe_upper :: "string \<Rightarrow> string"
  pe_registry :: "(string \<Rightarrow> string) option"
  pe_affiliate :: "affiliate_settings option"
  pe_decimal :: decimal_lib

record payment_provider =
  pv_Key :: string
  pv_Cancelable :: bool
  pv_QueriesRefunds :: bool
  pv_Identity :: "(string \<times> string) list"

record QueryOrderResponse =
  qr_TradeNo :: string
  qr_Status :: string
  qr_Amount :: gofloat
  qr_Metadata :: "(string \<times> string) list"

record RefundResponse =
  rr_RefundID :: string
  rr_Status :: string

text \<open>
  The input of a command. \<open>in_refund\<close> is the response of a refund call, if any, and whether the call
  returned an error; \<open>in_lock\<close> and \<open>in_attempts\<close> are the replies of Redis, \<open>None\<close> for an error.
\<close>

record pay_input =
  in_fate :: fate
  in_clock :: gotime
  in_dbnow :: gotime
  in_aff_codes :: "string \<times> string"
  in_provider :: "payment_provider option"
  in_query :: "QueryOrderResponse option"
  in_refund :: "RefundResponse option \<times> bool"
  in_lock :: "bool option"
  in_attempts :: "nat option"
  in_cache_ok :: bool

section \<open>Plans and results of refunds\<close>

abbreviation "DeductionTypeBalance \<equiv> ''balance''"
abbreviation "DeductionTypeSubscription \<equiv> ''subscription''"
abbreviation "DeductionTypeNone \<equiv> ''none''"

text \<open>A warning that ends with the text of an error keeps that error in \<open>rs_Cause\<close>.\<close>

record RefundPlan =
  rp_OrderID :: int
  rp_Order :: PaymentOrder
  rp_RefundAmount :: rat
  rp_GatewayAmount :: rat
  rp_Reason :: string
  rp_Force :: bool
  rp_DeductBalance :: bool
  rp_DeductionType :: string
  rp_BalanceToDeduct :: rat
  rp_SubDaysToDeduct :: int
  rp_SubscriptionID :: int

record RefundResult =
  rs_Success :: bool
  rs_Warning :: string
  rs_Cause :: "pay_error option"
  rs_RequireForce :: bool
  rs_BalanceDeducted :: rat
  rs_SubDaysDeducted :: int

section \<open>Commands\<close>

datatype pay_cmd =
    Clock
  | GetOrder int
  | FindOrder string
  | QueryOrders "PaymentOrder \<Rightarrow> bool"
  | UpdateOrders "PaymentOrder \<Rightarrow> bool" "PaymentOrder \<Rightarrow> PaymentOrder"
  | UpdateOneOrder int "PaymentOrder \<Rightarrow> PaymentOrder"
  | AddAudit int string string "(string \<times> detail) list"
  | CountAudits int "string list"
  | LastAudit int string
  | GetCode string
  | GetCodeByID int
  | InsertCode RedeemCode
  | UseCode_tx RedeemCode int
  | GetUser int
  | DeductAvailable int rat
  | AddBalance int rat
  | Rebate_tx PaymentOrder rat
  | Accrue_tx int rat
  | GetGroup int
  | AssignSubscription_tx PaymentOrder int int
  | GetActiveSub int int
  | GetSub int
  | ExtendSub int gotime
  | SetSubStatus int string
  | DeleteSub int
  | GetInstance int
  | QueryInstances "PaymentProviderInstance \<Rightarrow> bool"
  | FinalizeRefund_tx RefundPlan
  | RedeemAttempts int
  | AcquireRedeemLock string
  | ReleaseRedeemLock string
  | CountRedeemError int
  | InvalidateSubCaches int int
  | MakeProvider PaymentProviderInstance
  | RegistryProvider string
  | QueryProvider string
  | CancelProvider string
  | RefundAtProvider string string rat string
  | QueryRefundAtProvider string string string rat

datatype pay_reply =
    RFault db_fault
  | RErr pay_error
  | RDone
  | RTime gotime
  | ROrder PaymentOrder
  | ROrders "PaymentOrder list"
  | RCount nat
  | RAudit audit_row
  | RCode RedeemCode
  | RUser user_row
  | RAmount rat
  | RGroup subscription_group
  | RSub UserSubscription
  | RInstance PaymentProviderInstance
  | RInstances "PaymentProviderInstance list"
  | RProvider "payment_provider option"
  | RQuery "QueryOrderResponse option"
  | RRefund "RefundResponse option" bool
  | RLock "bool option"
  | RAttempts "nat option"
  | RResult RefundResult

text \<open>What a program makes of a reply: the value, or the fault of the database.\<close>

definition as_time :: "pay_reply \<Rightarrow> gotime" where
  "as_time r = (case r of RTime t \<Rightarrow> t | _ \<Rightarrow> 0)"

definition as_order :: "pay_reply \<Rightarrow> db_fault + PaymentOrder" where
  "as_order r = (case r of ROrder v \<Rightarrow> Inr v | RFault e \<Rightarrow> Inl e | _ \<Rightarrow> Inl StatementLost)"

definition as_orders :: "pay_reply \<Rightarrow> db_fault + PaymentOrder list" where
  "as_orders r = (case r of ROrders v \<Rightarrow> Inr v | RFault e \<Rightarrow> Inl e | _ \<Rightarrow> Inl StatementLost)"

definition as_count :: "pay_reply \<Rightarrow> db_fault + nat" where
  "as_count r = (case r of RCount v \<Rightarrow> Inr v | RFault e \<Rightarrow> Inl e | _ \<Rightarrow> Inl StatementLost)"

definition as_audit :: "pay_reply \<Rightarrow> db_fault + audit_row" where
  "as_audit r = (case r of RAudit v \<Rightarrow> Inr v | RFault e \<Rightarrow> Inl e | _ \<Rightarrow> Inl StatementLost)"

definition as_code :: "pay_reply \<Rightarrow> db_fault + RedeemCode" where
  "as_code r = (case r of RCode v \<Rightarrow> Inr v | RFault e \<Rightarrow> Inl e | _ \<Rightarrow> Inl StatementLost)"

definition as_user :: "pay_reply \<Rightarrow> db_fault + user_row" where
  "as_user r = (case r of RUser v \<Rightarrow> Inr v | RFault e \<Rightarrow> Inl e | _ \<Rightarrow> Inl StatementLost)"

definition as_group :: "pay_reply \<Rightarrow> db_fault + subscription_group" where
  "as_group r = (case r of RGroup v \<Rightarrow> Inr v | RFault e \<Rightarrow> Inl e | _ \<Rightarrow> Inl StatementLost)"

definition as_sub :: "pay_reply \<Rightarrow> db_fault + UserSubscription" where
  "as_sub r = (case r of RSub v \<Rightarrow> Inr v | RFault e \<Rightarrow> Inl e | _ \<Rightarrow> Inl StatementLost)"

definition as_instance :: "pay_reply \<Rightarrow> db_fault + PaymentProviderInstance" where
  "as_instance r = (case r of RInstance v \<Rightarrow> Inr v | RFault e \<Rightarrow> Inl e | _ \<Rightarrow> Inl StatementLost)"

definition as_instances :: "pay_reply \<Rightarrow> db_fault + PaymentProviderInstance list" where
  "as_instances r = (case r of RInstances v \<Rightarrow> Inr v | RFault e \<Rightarrow> Inl e | _ \<Rightarrow> Inl StatementLost)"

definition as_amount :: "pay_reply \<Rightarrow> pay_error + rat" where
  "as_amount r = (case r of RAmount v \<Rightarrow> Inr v | RErr e \<Rightarrow> Inl e | RFault e \<Rightarrow> Inl (Fault e) | _ \<Rightarrow> Inl (Fault StatementLost))"

definition as_outcome :: "pay_reply \<Rightarrow> pay_error option" where
  "as_outcome r = (case r of RDone \<Rightarrow> None | RErr e \<Rightarrow> Some e | RFault e \<Rightarrow> Some (Fault e) | _ \<Rightarrow> Some (Fault StatementLost))"

definition as_result :: "pay_reply \<Rightarrow> pay_error + RefundResult" where
  "as_result r = (case r of RResult v \<Rightarrow> Inr v | RErr e \<Rightarrow> Inl e | RFault e \<Rightarrow> Inl (Fault e) | _ \<Rightarrow> Inl (Fault StatementLost))"

definition as_provider :: "pay_reply \<Rightarrow> payment_provider option" where
  "as_provider r = (case r of RProvider v \<Rightarrow> v | _ \<Rightarrow> None)"

definition as_query :: "pay_reply \<Rightarrow> QueryOrderResponse option" where
  "as_query r = (case r of RQuery v \<Rightarrow> v | _ \<Rightarrow> None)"

definition as_refund :: "pay_reply \<Rightarrow> RefundResponse option \<times> bool" where
  "as_refund r = (case r of RRefund v e \<Rightarrow> (v, e) | _ \<Rightarrow> (None, True))"

lemmas as_defs = as_time_def as_order_def as_orders_def as_count_def as_audit_def as_code_def as_user_def as_group_def
  as_sub_def as_instance_def as_instances_def as_amount_def as_outcome_def as_result_def as_provider_def as_query_def as_refund_def

section \<open>Statements\<close>

definition pay_statement :: "fate \<Rightarrow> pay_db \<Rightarrow> pay_reply \<times> pay_db \<Rightarrow> pay_reply \<times> pay_db" where
  "pay_statement f db r = (case f of
       Works \<Rightarrow> r
     | Lost_before \<Rightarrow> (RFault StatementLost, db)
     | Lost_after \<Rightarrow> (RFault StatementLost, snd r))"

definition pay_read :: "fate \<Rightarrow> pay_db \<Rightarrow> 'a option \<Rightarrow> ('a \<Rightarrow> pay_reply) \<Rightarrow> pay_reply \<times> pay_db" where
  "pay_read f db v c = pay_statement f db (case v of None \<Rightarrow> (RFault RowNotFound, db) | Some x \<Rightarrow> (c x, db))"

definition find_order :: "int \<Rightarrow> pay_db \<Rightarrow> PaymentOrder option" where
  "find_order i db = find (\<lambda>r. po_ID r = i) (pd_orders db)"

definition find_code :: "string \<Rightarrow> pay_db \<Rightarrow> RedeemCode option" where
  "find_code c db = find (\<lambda>r. rc_Code r = c) (pd_codes db)"

definition code_by_id :: "int \<Rightarrow> pay_db \<Rightarrow> RedeemCode option" where
  "code_by_id i db = find (\<lambda>r. rc_ID r = i) (pd_codes db)"

text \<open>\<open>UPDATE payment_orders SET u WHERE c\<close>, with the default of \<open>updated_at\<close>.\<close>

definition update_orders ::
  "gotime \<Rightarrow> (PaymentOrder \<Rightarrow> bool) \<Rightarrow> (PaymentOrder \<Rightarrow> PaymentOrder) \<Rightarrow> pay_db \<Rightarrow> pay_db" where
  "update_orders now c u db =
     db \<lparr> pd_orders := map (\<lambda>r. if c r then u (r \<lparr> po_UpdatedAt := now \<rparr>) else r) (pd_orders db) \<rparr>"

definition has_audit :: "int \<Rightarrow> string list \<Rightarrow> pay_db \<Rightarrow> bool" where
  "has_audit i acts db \<longleftrightarrow> list_ex (\<lambda>a. au_OrderID a = i \<and> au_Action a \<in> set acts) (pd_audits db)"

definition insert_audit :: "gotime \<Rightarrow> int \<Rightarrow> string \<Rightarrow> string \<Rightarrow> (string \<times> detail) list \<Rightarrow> pay_db \<Rightarrow> db_fault + pay_db" where
  "insert_audit now i action op d db =
     (if has_audit i [action] db then Inl ConstraintViolation
      else Inr (db \<lparr> pd_audits := pd_audits db @
             [\<lparr> au_OrderID = i, au_Action = action, au_Operator = op, au_Detail = d, au_CreatedAt = now \<rparr>] \<rparr>))"

definition next_code_id :: "pay_db \<Rightarrow> int" where
  "next_code_id db = foldl (\<lambda>m r. max m (rc_ID r)) 0 (pd_codes db) + 1"

definition insert_code :: "RedeemCode \<Rightarrow> pay_db \<Rightarrow> db_fault + pay_db" where
  "insert_code r db =
     (if find_code (rc_Code r) db \<noteq> None then Inl ConstraintViolation
      else Inr (db \<lparr> pd_codes := pd_codes db @ [r \<lparr> rc_ID := next_code_id db \<rparr>] \<rparr>))"

section \<open>Transactions\<close>

text \<open>
  The transaction of \<open>Redeem\<close>: mark the code as used where it is unused, then give the user its value.
  \<open>code\<close> is the row the caller has read.
\<close>

definition ErrRedeemCodeUsed :: pay_error where
  "ErrRedeemCodeUsed = pay_Conflict ''REDEEM_CODE_USED'' ''redeem code already used''"

definition user_fault :: "user_error \<Rightarrow> pay_error" where
  "user_fault e = (case e of
       ErrUserNotFound \<Rightarrow> pay_NotFound ''USER_NOT_FOUND'' ''user not found''
     | _ \<Rightarrow> Plain ''deduction amount must be nonnegative'')"

text \<open>The error of a conflicting assignment carries its reason as metadata, kept here in the message.\<close>

definition sub_fault :: "sub_error \<Rightarrow> pay_error" where
  "sub_fault e = (case e of
       ErrSubscriptionNotFound \<Rightarrow> pay_NotFound ''SUBSCRIPTION_NOT_FOUND'' ''subscription not found''
     | ErrSubscriptionExpired \<Rightarrow> pay_Forbidden ''SUBSCRIPTION_EXPIRED'' ''subscription has expired''
     | ErrSubscriptionSuspended \<Rightarrow> pay_Forbidden ''SUBSCRIPTION_SUSPENDED'' ''subscription is suspended''
     | ErrSubscriptionAlreadyExists \<Rightarrow>
         pay_Conflict ''SUBSCRIPTION_ALREADY_EXISTS'' ''subscription already exists for this user and group''
     | ErrSubscriptionAssignConflict reason \<Rightarrow>
         Wrapped reason (pay_Conflict ''SUBSCRIPTION_ASSIGN_CONFLICT''
           ''subscription exists but request conflicts with existing assignment semantics'')
     | ErrSubscriptionNotRevoked \<Rightarrow> pay_Conflict ''SUBSCRIPTION_NOT_REVOKED'' ''subscription is not revoked''
     | ErrSubscriptionRestoreConflict \<Rightarrow>
         pay_Conflict ''SUBSCRIPTION_RESTORE_CONFLICT'' ''subscription already exists for this user and group''
     | ErrGroupNotFound \<Rightarrow> pay_NotFound ''GROUP_NOT_FOUND'' ''group not found''
     | ErrGroupNotSubscriptionType \<Rightarrow> pay_BadRequest ''GROUP_NOT_SUBSCRIPTION_TYPE'' ''group is not a subscription type''
     | ErrInvalidInput \<Rightarrow>
         pay_BadRequest ''INVALID_INPUT'' ''at least one of resetDaily, resetWeekly, or resetMonthly must be true''
     | ErrDailyLimitExceeded \<Rightarrow> App 429 ''DAILY_LIMIT_EXCEEDED'' ''daily usage limit exceeded''
     | ErrWeeklyLimitExceeded \<Rightarrow> App 429 ''WEEKLY_LIMIT_EXCEEDED'' ''weekly usage limit exceeded''
     | ErrMonthlyLimitExceeded \<Rightarrow> App 429 ''MONTHLY_LIMIT_EXCEEDED'' ''monthly usage limit exceeded''
     | ErrSubscriptionNilInput \<Rightarrow> pay_BadRequest ''SUBSCRIPTION_NIL_INPUT'' ''subscription input cannot be nil''
     | ErrAdjustWouldExpire \<Rightarrow>
         pay_BadRequest ''ADJUST_WOULD_EXPIRE'' ''adjustment would result in expired subscription (remaining days must be > 0)''
     | ErrCannotShortenExpired \<Rightarrow> pay_BadRequest ''CANNOT_SHORTEN_EXPIRED'' ''cannot shorten an expired subscription''
     | ErrSubscriptionStore \<Rightarrow> Fault StatementLost)"

definition unsupportedRedeemTypeError :: "string \<Rightarrow> pay_error" where
  "unsupportedRedeemTypeError codeType =
     (if codeType = RedeemTypeInvitation
      then pay_BadRequest ''REDEEM_CODE_UNSUPPORTED_TYPE'' ''invitation codes can only be used during registration''
      else pay_BadRequest ''REDEEM_CODE_UNSUPPORTED_TYPE'' (''unsupported redeem type: '' @ codeType))"

definition mark_code_used :: "gotime \<Rightarrow> int \<Rightarrow> int \<Rightarrow> pay_db \<Rightarrow> pay_db" where
  "mark_code_used now i u db =
     db \<lparr> pd_codes := map (\<lambda>r. if rc_ID r = i \<and> rc_Status r = StatusUnused
            then r \<lparr> rc_Status := StatusUsed, rc_UsedBy := Some u, rc_UsedAt := Some now \<rparr> else r) (pd_codes db) \<rparr>"

definition with_users :: "user_error + user_table \<Rightarrow> pay_db \<Rightarrow> pay_error + pay_db" where
  "with_users r db = (case r of Inl e \<Rightarrow> Inl (user_fault e) | Inr us \<Rightarrow> Inr (db \<lparr> pd_users := us \<rparr>))"

definition with_subs :: "sub_error + sub_table \<Rightarrow> pay_db \<Rightarrow> pay_error + pay_db" where
  "with_subs r db = (case r of Inl e \<Rightarrow> Inl (sub_fault e) | Inr t \<Rightarrow> Inr (db \<lparr> pd_subs := t \<rparr>))"

text \<open>The notes a redeemed code leaves on a subscription, in UTF-8.\<close>

definition redeem_note_prefix :: string where
  "redeem_note_prefix = [CHR 0xE9, CHR 0x80, CHR 0x9A, CHR 0xE8, CHR 0xBF, CHR 0x87, CHR 0xE5, CHR 0x85, CHR 0x91, CHR 0xE6, CHR 0x8D, CHR 0xA2, CHR 0xE7, CHR 0xA0, CHR 0x81, CHR 0x20]"

definition redeem_note :: "string \<Rightarrow> string" where
  "redeem_note code = redeem_note_prefix @ code @ [CHR 0x20, CHR 0xE5, CHR 0x85, CHR 0x91, CHR 0xE6, CHR 0x8D, CHR 0xA2]"

definition reduce_note :: "string \<Rightarrow> int \<Rightarrow> string" where
  "reduce_note code days = redeem_note_prefix @ code @
     [CHR 0x20, CHR 0xE9, CHR 0x80, CHR 0x80, CHR 0xE6, CHR 0xAC, CHR 0xBE, CHR 0xE6, CHR 0x89, CHR 0xA3, CHR 0xE5, CHR 0x87, CHR 0x8F, CHR 0x20]
     @ strconv_FormatInt days @ [CHR 0x20, CHR 0xE5, CHR 0xA4, CHR 0xA9]"

definition grant_code :: "gotime \<Rightarrow> RedeemCode \<Rightarrow> int \<Rightarrow> pay_db \<Rightarrow> pay_error + pay_db" where
  "grant_code now code u db =
     (if rc_Type code = RedeemTypeBalance then
        map_sum (Wrapped ''update user balance'') (\<lambda>db. db \<lparr> pd_credits := pd_credits db @ [(rc_Code code, u, rc_Value code)] \<rparr>)
          (with_users (if rc_Value code < 0 then ApplyRedeemBalanceAdjustment u (rc_Value code) (pd_users db)
                       else UpdateBalance u (rc_Value code) (pd_users db)) db)
      else if rc_Type code = RedeemTypeConcurrency then
        (let delta = float64_to_int (rc_Value code)
         in map_sum (Wrapped ''update user concurrency'') (\<lambda>db. db)
              (with_users (if delta < 0 then ApplyRedeemConcurrencyAdjustment u delta (pd_users db)
                           else UpdateConcurrency u delta (pd_users db)) db))
      else if rc_Type code = RedeemTypeSubscription then
        (case rc_GroupID code of
           None \<Rightarrow> Inl (Plain ''nil group'')
         | Some g \<Rightarrow>
             if rc_ValidityDays code < 0
             then map_sum (Wrapped ''reduce or cancel subscription'') (\<lambda>db. db)
                    (with_subs (reduceOrCancelSubscription now u g (- rc_ValidityDays code)
                       (reduce_note (rc_Code code) (- rc_ValidityDays code)) (pd_subs db)) db)
             else map_sum (Wrapped ''assign or extend subscription'') (\<lambda>db. db)
                    (with_subs (map_sum (\<lambda>e. e) snd (assignOrExtendSubscription now (pd_groups db)
                       \<lparr> as_UserID = u, as_GroupID = g,
                         as_ValidityDays = (if rc_ValidityDays code = 0 then 30 else rc_ValidityDays code),
                         as_AssignedBy = 0, as_Notes = redeem_note (rc_Code code) \<rparr> (pd_subs db))) db))
      else Inl (unsupportedRedeemTypeError (rc_Type code)))"

definition use_code_tx :: "gotime \<Rightarrow> RedeemCode \<Rightarrow> int \<Rightarrow> pay_db \<Rightarrow> pay_error + pay_db" where
  "use_code_tx now code u db =
     (if filter (\<lambda>r. rc_ID r = rc_ID code \<and> rc_Status r = StatusUnused) (pd_codes db) = [] then Inl ErrRedeemCodeUsed
      else grant_code now code u (mark_code_used now (rc_ID code) u db))"

text \<open>
  The transaction of \<open>applyAffiliateRebateForOrder\<close>: claim the audit row of the rebate unless the order
  has one of either outcome, accrue the rebate, give the row its final action.
\<close>

definition rebate_audits :: "string list" where
  "rebate_audits = [''AFFILIATE_REBATE_APPLIED'', ''AFFILIATE_REBATE_SKIPPED'']"

definition rebate_row :: "gotime \<Rightarrow> PaymentOrder \<Rightarrow> rat \<Rightarrow> rat \<Rightarrow> audit_row" where
  "rebate_row now ord base rebate =
     \<lparr> au_OrderID = po_ID ord, au_Action = (if rebate \<le> 0 then ''AFFILIATE_REBATE_SKIPPED'' else ''AFFILIATE_REBATE_APPLIED''),
       au_Operator = ''system'',
       au_Detail = [(''baseAmount'', DN (Fin base)),
         (if rebate \<le> 0 then (''reason'', DS ''no inviter bound or rebate amount <= 0'') else (''rebateAmount'', DN (Fin rebate)))],
       au_CreatedAt = now \<rparr>"

definition rebate_tx :: "affiliate_settings \<Rightarrow> gotime \<Rightarrow> string \<times> string \<Rightarrow> PaymentOrder \<Rightarrow> rat \<Rightarrow> pay_db \<Rightarrow> pay_db" where
  "rebate_tx st now codes ord base db =
     (if has_audit (po_ID ord) rebate_audits db then db
      else
        let r = AccrueInviteRebateForOrder st now (fst codes) (snd codes) (po_UserID ord) base (Some (po_ID ord)) (pd_affiliates db)
        in db \<lparr> pd_affiliates := snd r, pd_audits := pd_audits db @ [rebate_row now ord base (fst r)] \<rparr>)"

text \<open>
  The transaction of \<open>ensurePaymentSubscriptionAssigned\<close>. A subscription that carries the note of the
  order was assigned by an earlier version of the code.
\<close>

fun split_lines :: "string \<Rightarrow> string list" where
  "split_lines [] = [[]]"
| "split_lines (c # cs) =
     (if c = CHR 0x0A then [] # split_lines cs
      else if c = CHR 0x0D \<and> cs \<noteq> [] \<and> hd cs = CHR 0x0A then split_lines cs
      else case split_lines cs of [] \<Rightarrow> [[c]] | p # ps \<Rightarrow> (c # p) # ps)"

definition paymentSubscriptionOrderNote :: "int \<Rightarrow> string" where
  "paymentSubscriptionOrderNote orderID = ''payment order '' @ strconv_FormatInt orderID"

definition hasPaymentSubscriptionOrderNote :: "string \<Rightarrow> string \<Rightarrow> bool" where
  "hasPaymentSubscriptionOrderNote notes orderNote \<longleftrightarrow>
     list_ex (\<lambda>line. strings_TrimSpace line = orderNote) (split_lines notes)"

definition assignment_audits :: "string list" where
  "assignment_audits = [''SUBSCRIPTION_ASSIGNED'', ''SUBSCRIPTION_SUCCESS'']"

definition assign_subscription_tx :: "gotime \<Rightarrow> PaymentOrder \<Rightarrow> int \<Rightarrow> int \<Rightarrow> pay_db \<Rightarrow> pay_error + pay_db" where
  "assign_subscription_tx now ord groupID days db =
     (if has_audit (po_ID ord) assignment_audits db then Inr db
      else
        let orderNote = paymentSubscriptionOrderNote (po_ID ord);
            recovered = (case GetByUserIDAndGroupID (po_UserID ord) groupID (pd_subs db) of
                None \<Rightarrow> False | Some s \<Rightarrow> hasPaymentSubscriptionOrderNote (sb_Notes s) orderNote);
            assigned = (if recovered then Inr (pd_subs db)
              else map_sum (\<lambda>e. e) snd (assignOrExtendSubscription now (pd_groups db)
                \<lparr> as_UserID = po_UserID ord, as_GroupID = groupID, as_ValidityDays = days, as_AssignedBy = 0,
                  as_Notes = orderNote \<rparr> (pd_subs db)))
        in case assigned of
             Inl e \<Rightarrow> Inl (Wrapped ''assign subscription'' (sub_fault e))
           | Inr t \<Rightarrow>
               map_sum Fault (\<lambda>db. db)
                 (insert_audit now (po_ID ord) ''SUBSCRIPTION_ASSIGNED'' ''system''
                    [(''groupID'', DI groupID), (''validityDays'', DI days), (''recoveredFromNote'', DB recovered)]
                    (db \<lparr> pd_subs := t,
                           pd_assigned := (if recovered then pd_assigned db else pd_assigned db @ [po_ID ord]) \<rparr>)))"

text \<open>The transaction of \<open>finalizePendingRefundSuccess\<close>.\<close>

definition refund_status :: "RefundPlan \<Rightarrow> OrderStatus" where
  "refund_status p =
     (if rp_RefundAmount p < po_Amount (rp_Order p) then OrderStatusPartiallyRefunded else OrderStatusRefunded)"

definition mark_refunded :: "gotime \<Rightarrow> RefundPlan \<Rightarrow> PaymentOrder \<Rightarrow> PaymentOrder" where
  "mark_refunded now p r =
     r \<lparr> po_Status := refund_status p, po_RefundAmount := numeric2 (rp_RefundAmount p), po_RefundReason := Some (rp_Reason p),
         po_RefundAt := Some now, po_ForceRefund := rp_Force p \<rparr>"

definition refund_success_detail :: "RefundPlan \<Rightarrow> (string \<times> detail) list" where
  "refund_success_detail p =
     [(''refundAmount'', DN (Fin (rp_RefundAmount p))), (''reason'', DS (rp_Reason p)),
      (''balanceDeducted'', DN (Fin (rp_BalanceToDeduct p))), (''force'', DB (rp_Force p))]"

definition refund_success :: "RefundPlan \<Rightarrow> RefundResult" where
  "refund_success p = \<lparr> rs_Success = True, rs_Warning = [], rs_Cause = None, rs_RequireForce = False,
     rs_BalanceDeducted = rp_BalanceToDeduct p, rs_SubDaysDeducted = rp_SubDaysToDeduct p \<rparr>"

definition final_balance_deduction :: "RefundPlan \<Rightarrow> pay_db \<Rightarrow> pay_error + RefundPlan \<times> pay_db" where
  "final_balance_deduction p db =
     (if rp_DeductionType p = DeductionTypeBalance \<and> 0 < rp_BalanceToDeduct p
      then case DeductAvailableBalance (po_UserID (rp_Order p)) (rp_BalanceToDeduct p) (pd_users db) of
             Inl e \<Rightarrow> Inl (Wrapped ''deduction'' (user_fault e))
           | Inr r \<Rightarrow> Inr (p \<lparr> rp_BalanceToDeduct := fst r \<rparr>, db \<lparr> pd_users := snd r \<rparr>)
      else Inr (p, db))"

definition final_subscription_deduction :: "gotime \<Rightarrow> RefundPlan \<Rightarrow> sub_table \<Rightarrow> pay_error + sub_table" where
  "final_subscription_deduction now p t =
     (if rp_DeductionType p = DeductionTypeSubscription \<and> 0 < rp_SubDaysToDeduct p \<and> 0 < rp_SubscriptionID p
      then (case ExtendSubscription now (rp_SubscriptionID p) (- rp_SubDaysToDeduct p) t of
              Inr t' \<Rightarrow> Inr t'
            | Inl ErrAdjustWouldExpire \<Rightarrow>
                (case RevokeSubscription now (rp_SubscriptionID p) t of
                   Inl e \<Rightarrow> Inl (Wrapped ''revoke subscription'' (sub_fault e))
                 | Inr t' \<Rightarrow> Inr t')
            | Inl e \<Rightarrow> Inl (Wrapped ''deduct subscription days'' (sub_fault e)))
      else Inr t)"

definition applyRefundFinalDeduction :: "gotime \<Rightarrow> RefundPlan \<Rightarrow> pay_db \<Rightarrow> pay_error + RefundPlan \<times> pay_db" where
  "applyRefundFinalDeduction now p db =
     (case final_balance_deduction p db of
        Inl e \<Rightarrow> Inl e
      | Inr (p, db) \<Rightarrow>
          (case final_subscription_deduction now p (pd_subs db) of
             Inl e \<Rightarrow> Inl e
           | Inr t \<Rightarrow> Inr (p, db \<lparr> pd_subs := t \<rparr>)))"

definition finalize_refund_tx :: "gotime \<Rightarrow> gotime \<Rightarrow> RefundPlan \<Rightarrow> pay_db \<Rightarrow> pay_error + RefundResult \<times> pay_db" where
  "finalize_refund_tx now dbnow p db =
     (let pending = (\<lambda>r. po_ID r = rp_OrderID p \<and> po_Status r = OrderStatusRefundPending)
      in if filter pending (pd_orders db) = [] then Inl (pay_Conflict ''CONFLICT'' ''order status changed'')
         else
           let db1 = update_orders now pending (\<lambda>r. r \<lparr> po_Status := OrderStatusRefunding \<rparr>) db
           in case applyRefundFinalDeduction now p db1 of
                Inl e \<Rightarrow> Inl e
              | Inr (p, db2) \<Rightarrow>
                  let db3 = update_orders now (\<lambda>r. po_ID r = rp_OrderID p) (mark_refunded now p) db2
                  in case insert_audit dbnow (rp_OrderID p) ''REFUND_SUCCESS'' ''admin'' (refund_success_detail p) db3 of
                       Inl e \<Rightarrow> Inl (Wrapped ''write refund audit'' (Fault e))
                     | Inr db4 \<Rightarrow> Inr (refund_success p, db4))"

section \<open>The meaning of the commands\<close>

definition pay_tx :: "fate \<Rightarrow> pay_db \<Rightarrow> pay_error + pay_reply \<times> pay_db \<Rightarrow> pay_reply \<times> pay_db" where
  "pay_tx f db r = pay_statement f db (case r of Inl e \<Rightarrow> (RErr e, db) | Inr x \<Rightarrow> x)"

definition sub_rows :: "pay_db \<Rightarrow> sub_table \<Rightarrow> pay_reply \<times> pay_db" where
  "sub_rows db t = (RDone, db \<lparr> pd_subs := t \<rparr>)"

definition one_sub :: "int \<Rightarrow> (UserSubscription \<Rightarrow> UserSubscription) \<Rightarrow> pay_db \<Rightarrow> pay_reply \<times> pay_db" where
  "one_sub i f db =
     (if \<forall>s \<in> set (pd_subs db). sb_ID s \<noteq> i then (RErr (pay_NotFound ''SUBSCRIPTION_NOT_FOUND'' ''subscription not found''), db)
      else (RDone, db \<lparr> pd_subs := update_sub i (\<lambda>_. True) f (pd_subs db) \<rparr>))"

fun pay_exec :: "pay_env \<Rightarrow> pay_input \<Rightarrow> pay_cmd \<Rightarrow> pay_db \<Rightarrow> pay_reply \<times> pay_db" where
  "pay_exec E inp Clock db = (RTime (in_clock inp), db)"
| "pay_exec E inp (GetOrder i) db = pay_read (in_fate inp) db (find_order i db) ROrder"
| "pay_exec E inp (FindOrder tn) db =
     pay_statement (in_fate inp) db
       (case filter (\<lambda>r. po_OutTradeNo r = tn) (pd_orders db) of
          [] \<Rightarrow> (RFault RowNotFound, db)
        | [r] \<Rightarrow> (ROrder r, db)
        | _ \<Rightarrow> (RFault NotSingular, db))"
| "pay_exec E inp (QueryOrders c) db = pay_statement (in_fate inp) db (ROrders (filter c (pd_orders db)), db)"
| "pay_exec E inp (UpdateOrders c u) db =
     pay_statement (in_fate inp) db (RCount (length (filter c (pd_orders db))), update_orders (in_clock inp) c u db)"
| "pay_exec E inp (UpdateOneOrder i u) db =
     pay_statement (in_fate inp) db
       (case find_order i db of
          None \<Rightarrow> (RFault RowNotFound, db)
        | Some _ \<Rightarrow> (RDone, update_orders (in_clock inp) (\<lambda>r. po_ID r = i) u db))"
| "pay_exec E inp (AddAudit i action op d) db =
     pay_statement (in_fate inp) db
       (case insert_audit (in_dbnow inp) i action op d db of Inl e \<Rightarrow> (RFault e, db) | Inr db' \<Rightarrow> (RDone, db'))"
| "pay_exec E inp (CountAudits i acts) db =
     pay_statement (in_fate inp) db (RCount (if has_audit i acts db then 1 else 0), db)"
| "pay_exec E inp (LastAudit i action) db =
     pay_read (in_fate inp) db (find (\<lambda>a. au_OrderID a = i \<and> au_Action a = action) (pd_audits db)) RAudit"
| "pay_exec E inp (GetCode c) db = pay_read (in_fate inp) db (find_code c db) RCode"
| "pay_exec E inp (GetCodeByID i) db = pay_read (in_fate inp) db (code_by_id i db) RCode"
| "pay_exec E inp (InsertCode r) db =
     pay_statement (in_fate inp) db (case insert_code r db of Inl e \<Rightarrow> (RFault e, db) | Inr db' \<Rightarrow> (RDone, db'))"
| "pay_exec E inp (UseCode_tx code u) db =
     pay_tx (in_fate inp) db (map_sum (\<lambda>e. e) (\<lambda>db'. (RDone, db')) (use_code_tx (in_clock inp) code u db))"
| "pay_exec E inp (GetUser i) db = pay_read (in_fate inp) db (find_user i (pd_users db)) RUser"
| "pay_exec E inp (DeductAvailable i q) db =
     pay_statement (in_fate inp) db
       (case DeductAvailableBalance i q (pd_users db) of
          Inl e \<Rightarrow> (RErr (user_fault e), db)
        | Inr r \<Rightarrow> (RAmount (fst r), db \<lparr> pd_users := snd r \<rparr>))"
| "pay_exec E inp (AddBalance i q) db =
     pay_statement (in_fate inp) db
       (case UpdateBalance i q (pd_users db) of
          Inl e \<Rightarrow> (RErr (user_fault e), db)
        | Inr us \<Rightarrow> (RDone, db \<lparr> pd_users := us \<rparr>))"
| "pay_exec E inp (Rebate_tx ord base) db =
     pay_statement (in_fate inp) db
       (case pe_affiliate E of
          None \<Rightarrow> (RDone, db)
        | Some st \<Rightarrow> (RDone, rebate_tx st (in_dbnow inp) (in_aff_codes inp) ord base db))"
| "pay_exec E inp (Accrue_tx u amount) db =
     pay_statement (in_fate inp) db
       (case pe_affiliate E of
          None \<Rightarrow> (RDone, db)
        | Some st \<Rightarrow> (RDone, db \<lparr> pd_affiliates := snd (AccrueInviteRebateForOrder st (in_dbnow inp) (fst (in_aff_codes inp))
                               (snd (in_aff_codes inp)) u amount None (pd_affiliates db)) \<rparr>))"
| "pay_exec E inp (GetGroup i) db = pay_read (in_fate inp) db (find_group i (pd_groups db)) RGroup"
| "pay_exec E inp (AssignSubscription_tx ord g days) db =
     pay_tx (in_fate inp) db (map_sum (\<lambda>e. e) (\<lambda>db'. (RDone, db')) (assign_subscription_tx (in_clock inp) ord g days db))"
| "pay_exec E inp (GetActiveSub u g) db =
     pay_read (in_fate inp) db (GetActiveByUserIDAndGroupID (in_clock inp) u g (pd_subs db)) RSub"
| "pay_exec E inp (GetSub i) db = pay_read (in_fate inp) db (sub_by_id i (pd_subs db)) RSub"
| "pay_exec E inp (ExtendSub i t) db = pay_statement (in_fate inp) db (one_sub i (\<lambda>s. s \<lparr> sb_ExpiresAt := t \<rparr>) db)"
| "pay_exec E inp (SetSubStatus i st) db = pay_statement (in_fate inp) db (one_sub i (\<lambda>s. s \<lparr> sb_Status := st \<rparr>) db)"
| "pay_exec E inp (DeleteSub i) db =
     pay_statement (in_fate inp) db
       (RDone, db \<lparr> pd_subs := update_sub i live (\<lambda>s. s \<lparr> sb_DeletedAt := Some (in_clock inp) \<rparr>) (pd_subs db) \<rparr>)"
| "pay_exec E inp (GetInstance i) db = pay_read (in_fate inp) db (find (\<lambda>x. pi_ID x = i) (pd_instances db)) RInstance"
| "pay_exec E inp (QueryInstances c) db = pay_statement (in_fate inp) db (RInstances (filter c (pd_instances db)), db)"
| "pay_exec E inp (FinalizeRefund_tx p) db =
     pay_tx (in_fate inp) db
       (map_sum (\<lambda>e. e) (\<lambda>r. (RResult (fst r), snd r)) (finalize_refund_tx (in_clock inp) (in_dbnow inp) p db))"
| "pay_exec E inp (RedeemAttempts u) db = (RAttempts (in_attempts inp), db)"
| "pay_exec E inp (AcquireRedeemLock c) db = (RLock (in_lock inp), db)"
| "pay_exec E inp (ReleaseRedeemLock c) db = (RDone, db)"
| "pay_exec E inp (CountRedeemError u) db = (RDone, db)"
| "pay_exec E inp (InvalidateSubCaches u g) db =
     (if in_cache_ok inp then (RDone, db) else (RErr (Plain ''invalidate subscription cache''), db))"
| "pay_exec E inp (MakeProvider x) db = (RProvider (in_provider inp), db)"
| "pay_exec E inp (RegistryProvider t) db = (RProvider (in_provider inp), db)"
| "pay_exec E inp (QueryProvider ref) db = (RQuery (in_query inp), db)"
| "pay_exec E inp (CancelProvider ref) db = (RDone, db)"
| "pay_exec E inp (RefundAtProvider tn out q reason) db = (RRefund (fst (in_refund inp)) (snd (in_refund inp)), db)"
| "pay_exec E inp (QueryRefundAtProvider tn out rid q) db = (RRefund (fst (in_refund inp)) (snd (in_refund inp)), db)"

type_synonym 'a pay_prog = "(pay_cmd, pay_reply, 'a) prog"

end
