(* ===== verification/Payment_Invariant.thy ===== *)
theory Payment_Invariant
  imports Payment_Store
begin

text \<open>
  What the tables of the payment service satisfy at every moment, and what any number of steps of the
  service may do to them. Both are stated for a flag \<open>strict\<close>: it is on for worlds in which no order
  became \<open>FAILED\<close> before it was paid, and then everything that grants something rests on a payment.
\<close>

section \<open>What steps may change\<close>

definition order_same :: "PaymentOrder \<Rightarrow> PaymentOrder \<Rightarrow> bool" where
  "order_same r r' \<longleftrightarrow>
     po_ID r' = po_ID r \<and> po_UserID r' = po_UserID r \<and> po_Amount r' = po_Amount r \<and> po_RechargeCode r' = po_RechargeCode r \<and>
     po_OrderType r' = po_OrderType r \<and> (po_PaidAt r \<noteq> None \<longrightarrow> po_PaidAt r' \<noteq> None)"

definition code_same :: "RedeemCode \<Rightarrow> RedeemCode \<Rightarrow> bool" where
  "code_same c c' \<longleftrightarrow>
     rc_ID c' = rc_ID c \<and> rc_Code c' = rc_Code c \<and> rc_Type c' = rc_Type c \<and> rc_Value c' = rc_Value c \<and> (IsUsed c \<longrightarrow> IsUsed c')"

definition pay_evolves :: "pay_db \<Rightarrow> pay_db \<Rightarrow> bool" where
  "pay_evolves db db' \<longleftrightarrow>
     list_all2 order_same (pd_orders db) (pd_orders db') \<and>
     (\<forall>c \<in> set (pd_codes db). \<exists>c' \<in> set (pd_codes db'). code_same c c') \<and>
     set (pd_audits db) \<subseteq> set (pd_audits db')"

lemma order_same_refl [simp]: "order_same r r"
  by (simp add: order_same_def)

lemma order_same_trans: "order_same a b \<Longrightarrow> order_same b c \<Longrightarrow> order_same a c"
  by (simp add: order_same_def)

lemma code_same_refl [simp]: "code_same c c"
  by (simp add: code_same_def)

lemma code_same_trans: "code_same a b \<Longrightarrow> code_same b c \<Longrightarrow> code_same a c"
  by (simp add: code_same_def)

lemma pay_evolves_refl [simp]: "pay_evolves db db"
  by (auto simp: pay_evolves_def list.rel_refl intro: code_same_refl)

lemma pay_evolves_trans:
  assumes "pay_evolves a b" and "pay_evolves b c"
  shows "pay_evolves a c"
proof -
  have "list_all2 order_same (pd_orders a) (pd_orders c)"
    using assms list_all2_trans [of order_same order_same order_same] order_same_trans unfolding pay_evolves_def by blast
  moreover have "\<exists>x' \<in> set (pd_codes c). code_same x x'" if "x \<in> set (pd_codes a)" for x
    using assms that code_same_trans unfolding pay_evolves_def by blast
  ultimately show ?thesis using assms unfolding pay_evolves_def by blast
qed

section \<open>The invariant\<close>

definition active :: "OrderStatus \<Rightarrow> bool" where
  "active s \<longleftrightarrow> s \<noteq> OrderStatusPending \<and> s \<noteq> OrderStatusCancelled \<and> s \<noteq> OrderStatusExpired"

definition settled_status :: "OrderStatus \<Rightarrow> bool" where
  "settled_status s \<longleftrightarrow> s = OrderStatusCompleted \<or> psIsRefundStatus s"

definition code_used :: "string \<Rightarrow> pay_db \<Rightarrow> bool" where
  "code_used c db \<longleftrightarrow> (\<exists>x \<in> set (pd_codes db). rc_Code x = c \<and> IsUsed x)"

definition fulfilled :: "pay_db \<Rightarrow> PaymentOrder \<Rightarrow> bool" where
  "fulfilled db r \<longleftrightarrow>
     (if po_OrderType r = OrderTypeSubscription then has_audit (po_ID r) assignment_audits db
      else code_used (po_RechargeCode r) db)"

definition credits_of :: "string \<Rightarrow> pay_db \<Rightarrow> (string \<times> int \<times> rat) list" where
  "credits_of c db = filter (\<lambda>x. fst x = c) (pd_credits db)"

definition paid :: "bool \<Rightarrow> PaymentOrder \<Rightarrow> bool" where
  "paid strict r \<longleftrightarrow> strict \<longrightarrow> po_PaidAt r \<noteq> None"

definition order_ok :: "bool \<Rightarrow> pay_db \<Rightarrow> PaymentOrder \<Rightarrow> bool" where
  "order_ok strict db r \<longleftrightarrow>
     (settled_status (po_Status r) \<longrightarrow> fulfilled db r) \<and>
     (active (po_Status r) \<longrightarrow> paid strict r) \<and>
     (\<forall>c \<in> set (pd_codes db). rc_Code c = po_RechargeCode r \<longrightarrow>
        rc_Type c = RedeemTypeBalance \<and> rc_Value c = po_Amount r \<and> paid strict r) \<and>
     credits_of (po_RechargeCode r) db =
       (if code_used (po_RechargeCode r) db then [(po_RechargeCode r, po_UserID r, po_Amount r)] else []) \<and>
     po_RechargeCode r \<noteq> [] \<and> strings_TrimSpace (po_RechargeCode r) = po_RechargeCode r"

definition rebates_of :: "int \<Rightarrow> pay_db \<Rightarrow> ledger_row list" where
  "rebates_of i db = filter (\<lambda>l. al_SourceOrder l = Some i) (ad_ledger (pd_affiliates db))"

text \<open>Whether an order gave something besides the credit of its code: its subscription, or a rebate of the inviter.\<close>

definition has_grant :: "int \<Rightarrow> pay_db \<Rightarrow> bool" where
  "has_grant i db \<longleftrightarrow> i \<in> set (pd_assigned db) \<or> rebates_of i db \<noteq> []"

definition paid_order :: "bool \<Rightarrow> int \<Rightarrow> pay_db \<Rightarrow> bool" where
  "paid_order strict i db \<longleftrightarrow> (\<forall>r \<in> set (pd_orders db). po_ID r = i \<longrightarrow> paid strict r)"

definition pay_ok :: "bool \<Rightarrow> pay_db \<Rightarrow> bool" where
  "pay_ok strict db \<longleftrightarrow>
     distinct (map po_ID (pd_orders db)) \<and> distinct (map po_RechargeCode (pd_orders db)) \<and>
     distinct (map rc_Code (pd_codes db)) \<and> distinct (map rc_ID (pd_codes db)) \<and>
     (\<forall>r \<in> set (pd_orders db). order_ok strict db r) \<and>
     distinct (pd_assigned db) \<and> (\<forall>i \<in> set (pd_assigned db). has_audit i assignment_audits db) \<and>
     (\<forall>i. length (rebates_of i db) \<le> (if has_audit i rebate_audits db then 1 else 0)) \<and>
     (\<forall>i. has_grant i db \<longrightarrow> paid_order strict i db)"

text \<open>What a program knows of the orders and codes it has read.\<close>

definition known_order :: "PaymentOrder \<Rightarrow> pay_db \<Rightarrow> bool" where
  "known_order ord db \<longleftrightarrow> (\<exists>r \<in> set (pd_orders db). order_same ord r)"

definition known_code :: "RedeemCode \<Rightarrow> pay_db \<Rightarrow> bool" where
  "known_code c db \<longleftrightarrow> (\<exists>x \<in> set (pd_codes db). code_same c x)"

definition settled :: "int \<Rightarrow> pay_db \<Rightarrow> bool" where
  "settled i db \<longleftrightarrow> (\<forall>r \<in> set (pd_orders db). po_ID r = i \<longrightarrow> fulfilled db r)"

definition may_redeem :: "int \<Rightarrow> string \<Rightarrow> pay_db \<Rightarrow> bool" where
  "may_redeem u c db \<longleftrightarrow> (\<forall>r \<in> set (pd_orders db). po_RechargeCode r = c \<longrightarrow> po_UserID r = u)"

definition not_subscription :: "int \<Rightarrow> pay_db \<Rightarrow> bool" where
  "not_subscription i db \<longleftrightarrow> (\<forall>r \<in> set (pd_orders db). po_ID r = i \<longrightarrow> po_OrderType r \<noteq> OrderTypeSubscription)"

definition subscription_order :: "int \<Rightarrow> pay_db \<Rightarrow> bool" where
  "subscription_order i db \<longleftrightarrow> (\<forall>r \<in> set (pd_orders db). po_ID r = i \<longrightarrow> po_OrderType r = OrderTypeSubscription)"

lemmas pay_defs = pay_ok_def order_ok_def fulfilled_def code_used_def credits_of_def rebates_of_def has_audit_def paid_def
  has_grant_def paid_order_def

subsection \<open>Stability\<close>

lemma evolves_order_back:
  assumes "pay_evolves db db'" and "r' \<in> set (pd_orders db')"
  shows "\<exists>r \<in> set (pd_orders db). order_same r r'"
proof -
  have all: "list_all2 order_same (pd_orders db) (pd_orders db')" using assms(1) by (simp add: pay_evolves_def)
  obtain n where n: "n < length (pd_orders db')" "r' = pd_orders db' ! n" using assms(2) by (auto simp: in_set_conv_nth)
  then have "order_same (pd_orders db ! n) r'" using list_all2_nthD2 [OF all] by simp
  moreover have "pd_orders db ! n \<in> set (pd_orders db)" using n(1) list_all2_lengthD [OF all] by simp
  ultimately show ?thesis by blast
qed

lemma evolves_order:
  assumes "pay_evolves db db'" and "r \<in> set (pd_orders db)"
  shows "\<exists>r' \<in> set (pd_orders db'). order_same r r'"
proof -
  have all: "list_all2 order_same (pd_orders db) (pd_orders db')" using assms(1) by (simp add: pay_evolves_def)
  obtain n where n: "n < length (pd_orders db)" "r = pd_orders db ! n" using assms(2) by (auto simp: in_set_conv_nth)
  then have "order_same r (pd_orders db' ! n)" using list_all2_nthD [OF all] by simp
  moreover have "pd_orders db' ! n \<in> set (pd_orders db')" using n(1) list_all2_lengthD [OF all] by simp
  ultimately show ?thesis by blast
qed

lemma evolves_all:
  assumes "\<forall>r \<in> set (pd_orders db). P r" and "pay_evolves db db'" and "\<And>r r'. order_same r r' \<Longrightarrow> P r \<Longrightarrow> P' r'"
  shows "\<forall>r \<in> set (pd_orders db'). P' r"
  using assms evolves_order_back by blast

lemma has_audit_evolves: "has_audit i acts db \<Longrightarrow> pay_evolves db db' \<Longrightarrow> has_audit i acts db'"
  by (auto simp: has_audit_def pay_evolves_def list_ex_iff)

lemma code_used_evolves: "code_used c db \<Longrightarrow> pay_evolves db db' \<Longrightarrow> code_used c db'"
  unfolding code_used_def pay_evolves_def code_same_def by metis

lemma fulfilled_evolves: "fulfilled db r \<Longrightarrow> order_same r r' \<Longrightarrow> pay_evolves db db' \<Longrightarrow> fulfilled db' r'"
  using has_audit_evolves code_used_evolves by (simp add: fulfilled_def order_same_def split: if_splits)

lemma known_order_evolves: "known_order ord db \<Longrightarrow> pay_evolves db db' \<Longrightarrow> known_order ord db'"
  unfolding known_order_def using evolves_order order_same_trans by blast

lemma known_code_evolves: "known_code c db \<Longrightarrow> pay_evolves db db' \<Longrightarrow> known_code c db'"
  unfolding known_code_def pay_evolves_def using code_same_trans by blast

lemma settled_evolves: "settled i db \<Longrightarrow> pay_evolves db db' \<Longrightarrow> settled i db'"
  unfolding settled_def by (erule (1) evolves_all) (auto simp: order_same_def intro: fulfilled_evolves [of db])

lemma paid_evolves: "paid strict r \<Longrightarrow> order_same r r' \<Longrightarrow> paid strict r'"
  by (simp add: paid_def order_same_def)

lemma paid_order_evolves: "paid_order strict i db \<Longrightarrow> pay_evolves db db' \<Longrightarrow> paid_order strict i db'"
  unfolding paid_order_def by (erule (1) evolves_all) (auto simp: order_same_def paid_def)

lemma may_redeem_evolves: "may_redeem u c db \<Longrightarrow> pay_evolves db db' \<Longrightarrow> may_redeem u c db'"
  unfolding may_redeem_def by (erule (1) evolves_all) (auto simp: order_same_def paid_def)

lemma not_subscription_evolves: "not_subscription i db \<Longrightarrow> pay_evolves db db' \<Longrightarrow> not_subscription i db'"
  unfolding not_subscription_def by (erule (1) evolves_all) (auto simp: order_same_def paid_def)

lemma subscription_order_evolves: "subscription_order i db \<Longrightarrow> pay_evolves db db' \<Longrightarrow> subscription_order i db'"
  unfolding subscription_order_def by (erule (1) evolves_all) (auto simp: order_same_def paid_def)

named_theorems stables \<open>predicates that steps of others do not falsify\<close>

lemma stable_facts [stables]:
  "stable pay_evolves (has_audit i acts)" "stable pay_evolves (code_used c)" "stable pay_evolves (known_order ord)"
  "stable pay_evolves (known_code x)" "stable pay_evolves (settled i)" "stable pay_evolves (paid_order strict i)"
  "stable pay_evolves (may_redeem u c)" "stable pay_evolves (not_subscription i)" "stable pay_evolves (subscription_order i)"
  by (rule stableI, erule (1) has_audit_evolves code_used_evolves known_order_evolves known_code_evolves settled_evolves
    paid_order_evolves may_redeem_evolves not_subscription_evolves subscription_order_evolves)+

declare stable_const [stables] stable_conj [stables] stable_disj [stables] stable_imp [stables]

subsection \<open>Orders by their keys\<close>

lemma order_unique:
  assumes "pay_ok strict db" and "r \<in> set (pd_orders db)" and "r' \<in> set (pd_orders db)" and "po_ID r = po_ID r'"
  shows "r = r'"
  using assms by (auto simp: pay_ok_def distinct_map inj_on_def)

lemma order_of_code:
  assumes "pay_ok strict db" and "r \<in> set (pd_orders db)" and "r' \<in> set (pd_orders db)" and "po_RechargeCode r = po_RechargeCode r'"
  shows "r = r'"
  using assms by (auto simp: pay_ok_def distinct_map inj_on_def)

lemma known_order_eq:
  assumes "pay_ok strict db" and "known_order ord db" and "r \<in> set (pd_orders db)" and "po_ID r = po_ID ord"
  shows "order_same ord r"
proof -
  obtain x where x: "x \<in> set (pd_orders db)" "order_same ord x" using assms(2) by (auto simp: known_order_def)
  then have "r = x" using order_unique [OF assms(1,3)] assms(4) by (simp add: order_same_def)
  then show ?thesis using x(2) by simp
qed

lemma code_unique:
  assumes "pay_ok strict db" and "c \<in> set (pd_codes db)" and "c' \<in> set (pd_codes db)" and "rc_ID c = rc_ID c' \<or> rc_Code c = rc_Code c'"
  shows "c = c'"
  using assms by (auto simp: pay_ok_def distinct_map inj_on_def)

lemma only_order:
  assumes "pay_ok strict db" and "x \<in> set (pd_orders db)"
  shows "(\<forall>r \<in> set (pd_orders db). po_ID r = po_ID x \<longrightarrow> P r) \<longleftrightarrow> P x"
  using assms(2) order_unique [OF assms(1) _ assms(2)] by blast

lemma settled_iff: "pay_ok strict db \<Longrightarrow> x \<in> set (pd_orders db) \<Longrightarrow> settled (po_ID x) db \<longleftrightarrow> fulfilled db x"
  unfolding settled_def by (rule only_order)

lemma paid_order_iff: "pay_ok strict db \<Longrightarrow> x \<in> set (pd_orders db) \<Longrightarrow> paid_order strict (po_ID x) db \<longleftrightarrow> paid strict x"
  unfolding paid_order_def by (rule only_order)

lemma order_settled:
  assumes "pay_ok strict db" and "x \<in> set (pd_orders db)" and "settled_status (po_Status x)"
  shows "settled (po_ID x) db"
  unfolding settled_iff [OF assms(1,2)] using assms by (simp add: pay_ok_def order_ok_def)

lemma order_paid:
  assumes "pay_ok strict db" and "x \<in> set (pd_orders db)" and "active (po_Status x)"
  shows "paid_order strict (po_ID x) db"
  unfolding paid_order_iff [OF assms(1,2)] using assms by (simp add: pay_ok_def order_ok_def)

end
