(* ===== verification/Payment_Commands.thy ===== *)
theory Payment_Commands
  imports Payment_Invariant
begin

text \<open>
  Every command of the payment service keeps the invariant of the tables. \<open>command_ok\<close> is what a program
  has to know before it issues a command, and \<open>exec_ok\<close> is the lemma the programs use.
\<close>

section \<open>Effects of the statements\<close>

text \<open>Changes of the tables the invariant does not look at.\<close>

lemma pay_ok_users [simp]: "pay_ok strict (db \<lparr> pd_users := us \<rparr>) = pay_ok strict db"
  by (simp add: pay_defs)

lemma pay_ok_subs [simp]: "pay_ok strict (db \<lparr> pd_subs := t \<rparr>) = pay_ok strict db"
  by (simp add: pay_defs)

lemma evolves_users [simp]: "pay_evolves db (db' \<lparr> pd_users := us \<rparr>) = pay_evolves db db'"
  by (simp add: pay_evolves_def)

lemma evolves_subs [simp]: "pay_evolves db (db' \<lparr> pd_subs := t \<rparr>) = pay_evolves db db'"
  by (simp add: pay_evolves_def)

lemma fulfilled_orders [simp]: "fulfilled (db \<lparr> pd_orders := x \<rparr>) r = fulfilled db r"
  by (simp add: fulfilled_def code_used_def has_audit_def)

text \<open>An order that is still well when the other tables have changed.\<close>

lemma order_ok_evolves:
  assumes "order_ok strict db r" and "pay_evolves db db'" and "pd_credits db' = pd_credits db"
    and "set (pd_codes db') = set (pd_codes db)" and "order_same r r'"
    and "settled_status (po_Status r') \<Longrightarrow> fulfilled db' r'" and "active (po_Status r') \<Longrightarrow> paid strict r'"
  shows "order_ok strict db' r'"
proof -
  have keys: "po_RechargeCode r' = po_RechargeCode r" "po_UserID r' = po_UserID r" "po_Amount r' = po_Amount r"
    using assms(5) by (simp_all add: order_same_def)
  have "code_used c db' = code_used c db" "credits_of c db' = credits_of c db" for c
    using assms(3,4) by (simp_all add: code_used_def credits_of_def)
  then show ?thesis using assms(1,4,6,7) paid_evolves [OF _ assms(5)] unfolding order_ok_def keys by auto
qed

lemma order_ok_cong:
  "pd_codes db' = pd_codes db \<Longrightarrow> pd_audits db' = pd_audits db \<Longrightarrow> pd_credits db' = pd_credits db \<Longrightarrow>
    order_ok strict db' r = order_ok strict db r"
  by (simp add: order_ok_def fulfilled_def code_used_def credits_of_def has_audit_def)

lemma pay_ok_update:
  assumes ok: "pay_ok strict db"
    and u: "\<And>r. r \<in> set (pd_orders db) \<Longrightarrow> order_same r (f r) \<and> (settled_status (po_Status (f r)) \<longrightarrow> fulfilled db (f r)) \<and>
      (active (po_Status (f r)) \<longrightarrow> paid strict (f r))"
  shows "pay_ok strict (db \<lparr> pd_orders := map f (pd_orders db) \<rparr>) \<and> pay_evolves db (db \<lparr> pd_orders := map f (pd_orders db) \<rparr>)"
proof
  let ?db = "db \<lparr> pd_orders := map f (pd_orders db) \<rparr>"
  show e: "pay_evolves db ?db"
    using u by (auto simp: pay_evolves_def list_all2_conv_all_nth intro: code_same_refl)
  have keys: "map po_ID (pd_orders ?db) = map po_ID (pd_orders db)" "map po_RechargeCode (pd_orders ?db) = map po_RechargeCode (pd_orders db)"
    using u by (simp_all add: order_same_def)
  have "order_ok strict ?db (f r)" if r: "r \<in> set (pd_orders db)" for r
  proof (rule order_ok_evolves [OF _ e])
    show "order_ok strict db r" using ok r by (simp add: pay_ok_def)
    show "fulfilled ?db (f r)" if "settled_status (po_Status (f r))" using u [OF r] that by simp
  qed (use u [OF r] in simp_all)
  moreover have "has_grant i ?db = has_grant i db" for i by (simp add: has_grant_def rebates_of_def)
  ultimately show "pay_ok strict ?db"
    using ok paid_order_evolves [OF _ e] unfolding pay_ok_def keys by (simp add: has_audit_def rebates_of_def)
qed

lemma pay_ok_audit:
  assumes "pay_ok strict db"
  shows "pay_ok strict (db \<lparr> pd_audits := pd_audits db @ [a] \<rparr>) \<and> pay_evolves db (db \<lparr> pd_audits := pd_audits db @ [a] \<rparr>)"
proof
  let ?db = "db \<lparr> pd_audits := pd_audits db @ [a] \<rparr>"
  show e: "pay_evolves db ?db" by (auto simp: pay_evolves_def list.rel_refl intro: code_same_refl)
  have "order_ok strict ?db r" if r: "r \<in> set (pd_orders db)" for r
  proof (rule order_ok_evolves [OF _ e])
    show ok: "order_ok strict db r" using assms r by (simp add: pay_ok_def)
    show "fulfilled ?db r" if "settled_status (po_Status r)" using ok that fulfilled_evolves [OF _ order_same_refl e] by (simp add: order_ok_def)
    show "paid strict r" if "active (po_Status r)" using ok that by (simp add: order_ok_def)
  qed simp_all
  moreover have "length (rebates_of i ?db) \<le> (if has_audit i rebate_audits ?db then 1 else 0)" for i
  proof -
    have "length (rebates_of i db) \<le> (if has_audit i rebate_audits db then 1 else 0)" using assms by (simp add: pay_ok_def)
    then show ?thesis using has_audit_evolves [OF _ e, of i rebate_audits] by (simp add: rebates_of_def split: if_splits)
  qed
  moreover have "has_grant i ?db = has_grant i db" for i by (simp add: has_grant_def rebates_of_def)
  ultimately show "pay_ok strict ?db"
    using assms has_audit_evolves [OF _ e] paid_order_evolves [OF _ e] by (simp add: pay_ok_def)
qed

lemma insert_audit_row:
  assumes "insert_audit now i action op d db = Inr db'"
  shows "\<exists>a. au_OrderID a = i \<and> au_Action a = action \<and> db' = db \<lparr> pd_audits := pd_audits db @ [a] \<rparr>"
  using assms
  by (intro exI [of _ "\<lparr> au_OrderID = i, au_Action = action, au_Operator = op, au_Detail = d, au_CreatedAt = now \<rparr>"])
    (simp add: insert_audit_def split: if_splits)

lemma pay_ok_insert_audit:
  assumes "pay_ok strict db" and "insert_audit now i action op d db = Inr db'"
  shows "pay_ok strict db' \<and> pay_evolves db db'"
  using insert_audit_row [OF assms(2)] pay_ok_audit [OF assms(1)] by blast


subsection \<open>Redeem codes\<close>

lemma foldl_max: "(x :: int) \<le> foldl (\<lambda>m r. max m (f r)) x rs \<and> (\<forall>r \<in> set rs. f r \<le> foldl (\<lambda>m r. max m (f r)) x rs)"
proof (induction rs arbitrary: x)
  case (Cons r rs)
  from Cons [of "max x (f r)"] show ?case by simp
qed simp

lemma next_code_id_new: "next_code_id db \<notin> rc_ID ` set (pd_codes db)"
  using foldl_max [of 0 rc_ID "pd_codes db"] by (fastforce simp: next_code_id_def)

lemma pay_ok_insert_code:
  assumes ok: "pay_ok strict db" and ins: "insert_code c db = Inr db'" and new: "\<not> IsUsed c"
    and own: "\<And>r. r \<in> set (pd_orders db) \<Longrightarrow> po_RechargeCode r = rc_Code c \<Longrightarrow>
      rc_Type c = RedeemTypeBalance \<and> rc_Value c = po_Amount r \<and> paid strict r"
  shows "pay_ok strict db' \<and> pay_evolves db db'"
proof
  let ?c = "c \<lparr> rc_ID := next_code_id db \<rparr>"
  have db': "db' = db \<lparr> pd_codes := pd_codes db @ [?c] \<rparr>" and none: "find_code (rc_Code c) db = None"
    using ins by (auto simp: insert_code_def split: if_splits)
  have fresh: "rc_Code c \<notin> rc_Code ` set (pd_codes db)" using none by (auto simp: find_code_def find_None_iff)
  show e: "pay_evolves db db'" unfolding db' by (auto simp: pay_evolves_def list.rel_refl intro: code_same_refl)
  have used: "code_used x db' = code_used x db" for x
    using new by (auto simp: db' code_used_def IsUsed_def)
  have "order_ok strict db' r" if r: "r \<in> set (pd_orders db)" for r
  proof -
    have r_ok: "order_ok strict db r" using ok r by (simp add: pay_ok_def)
    have "fulfilled db' r = fulfilled db r" "credits_of (po_RechargeCode r) db' = credits_of (po_RechargeCode r) db"
      using used by (simp_all add: fulfilled_def has_audit_def credits_of_def db')
    then show ?thesis using r_ok own [OF r] used unfolding order_ok_def by (auto simp: db')
  qed
  then show "pay_ok strict db'"
    using ok fresh next_code_id_new [of db] by (simp add: pay_ok_def db' has_audit_def rebates_of_def has_grant_def paid_order_def)
qed

lemma with_users_tables:
  assumes "with_users x db = Inr db'"
  shows "\<exists>us. db' = db \<lparr> pd_users := us \<rparr>"
  using assms by (auto simp: with_users_def split: sum.splits)

lemma with_subs_tables:
  assumes "with_subs x db = Inr db'"
  shows "\<exists>t. db' = db \<lparr> pd_subs := t \<rparr>"
  using assms by (auto simp: with_subs_def split: sum.splits)

lemma map_sum_Inr: "map_sum f g x = Inr y \<longleftrightarrow> (\<exists>z. x = Inr z \<and> y = g z)"
  by (cases x) auto

lemma grant_code_tables:
  assumes "grant_code now code u db = Inr db'"
  shows "\<exists>us t. db' = db \<lparr> pd_users := us, pd_subs := t,
    pd_credits := (if rc_Type code = RedeemTypeBalance then pd_credits db @ [(rc_Code code, u, rc_Value code)] else pd_credits db) \<rparr>"
proof (cases "rc_Type code = RedeemTypeBalance")
  case True
  then obtain x db1 where "with_users x db = Inr db1" "db' = db1 \<lparr> pd_credits := pd_credits db1 @ [(rc_Code code, u, rc_Value code)] \<rparr>"
    using assms by (auto simp: grant_code_def map_sum_Inr)
  moreover from this(1) obtain us where "db1 = db \<lparr> pd_users := us \<rparr>" using with_users_tables by blast
  ultimately show ?thesis using True by (intro exI [of _ us] exI [of _ "pd_subs db"]) simp
next
  case False
  have "(\<exists>x. with_users x db = Inr db') \<or> (\<exists>x. with_subs x db = Inr db')"
    using assms False by (auto simp: grant_code_def map_sum_Inr Let_def split: if_splits option.splits)
  then consider us where "db' = db \<lparr> pd_users := us \<rparr>" | t where "db' = db \<lparr> pd_subs := t \<rparr>"
    using with_users_tables with_subs_tables by blast
  then show ?thesis
  proof cases
    case (1 us)
    then show ?thesis using False by (intro exI [of _ us] exI [of _ "pd_subs db"]) simp
  next
    case (2 t)
    then show ?thesis using False by (intro exI [of _ "pd_users db"] exI [of _ t]) simp
  qed
qed


lemma pay_ok_use_code:
  assumes ok: "pay_ok strict db" and use: "use_code_tx now code u db = Inr db'"
    and code: "known_code code db" and own: "may_redeem u (rc_Code code) db"
  shows "pay_ok strict db' \<and> pay_evolves db db' \<and> code_used (rc_Code code) db'"
proof -
  define mk :: "RedeemCode \<Rightarrow> RedeemCode" where "mk = (\<lambda>r. if rc_ID r = rc_ID code \<and> rc_Status r = StatusUnused
    then r \<lparr> rc_Status := StatusUsed, rc_UsedBy := Some u, rc_UsedAt := Some now \<rparr> else r)"
  obtain x where x: "x \<in> set (pd_codes db)" "code_same code x" using code by (auto simp: known_code_def)
  obtain y where y: "y \<in> set (pd_codes db)" "rc_ID y = rc_ID code" "rc_Status y = StatusUnused"
    using use by (auto simp: use_code_tx_def filter_empty_conv split: if_splits)
  have xy: "y = x" using code_unique [OF ok y(1) x(1)] x(2) y(2) by (simp add: code_same_def)
  have same: "rc_Code x = rc_Code code" "rc_ID x = rc_ID code" "rc_Type x = rc_Type code" "rc_Value x = rc_Value code"
    using x(2) by (simp_all add: code_same_def)
  from use have "grant_code now code u (mark_code_used now (rc_ID code) u db) = Inr db'"
    by (simp add: use_code_tx_def split: if_splits)
  from grant_code_tables [OF this, unfolded mark_code_used_def, folded mk_def] obtain us t where db': "db' = db \<lparr> pd_codes := map mk (pd_codes db), pd_users := us, pd_subs := t,
      pd_credits := (if rc_Type code = RedeemTypeBalance then pd_credits db @ [(rc_Code code, u, rc_Value code)] else pd_credits db) \<rparr>"
    by (elim exE) (simp cong: if_cong)
  have mk: "code_same c (mk c) \<and> rc_Code (mk c) = rc_Code c" for c by (simp add: mk_def code_same_def IsUsed_def)
  have evolves: "pay_evolves db db'"
    using mk by (auto simp: db' pay_evolves_def list.rel_refl)
  have used_x: "\<not> IsUsed x" using y(3) xy by (simp add: IsUsed_def)
  have other: "mk c = c" if "c \<in> set (pd_codes db)" "rc_Code c \<noteq> rc_Code code" for c
    using that code_unique [OF ok that(1) x(1)] same by (auto simp: mk_def)
  have used: "code_used c db' \<longleftrightarrow> c = rc_Code code \<or> code_used c db" for c
  proof (cases "c = rc_Code code")
    case True
    have "mk x \<in> set (pd_codes db')" using x(1) by (auto simp: db')
    moreover have "IsUsed (mk x)" "rc_Code (mk x) = c" using y xy same True by (simp_all add: IsUsed_def mk_def)
    ultimately show ?thesis using True by (auto simp: code_used_def)
  next
    case False
    then have "(\<exists>z \<in> set (pd_codes db). rc_Code (mk z) = c \<and> IsUsed (mk z)) \<longleftrightarrow> (\<exists>z \<in> set (pd_codes db). rc_Code z = c \<and> IsUsed z)"
      using other mk by metis
    then show ?thesis using False by (simp add: code_used_def db')
  qed
  have unused: "\<not> code_used (rc_Code code) db"
    using code_unique [OF ok _ x(1)] same(1) used_x unfolding code_used_def by metis
  have "order_ok strict db' r" if r: "r \<in> set (pd_orders db)" for r
  proof -
    have r_ok: "order_ok strict db r" using ok r by (simp add: pay_ok_def)
    have "credits_of (po_RechargeCode r) db' =
        (if code_used (po_RechargeCode r) db' then [(po_RechargeCode r, po_UserID r, po_Amount r)] else [])"
    proof (cases "po_RechargeCode r = rc_Code code")
      case True
      have "rc_Type code = RedeemTypeBalance" "rc_Value code = po_Amount r" "credits_of (rc_Code code) db = []"
        using r_ok x(1) same True unused by (auto simp: order_ok_def)
      moreover have "po_UserID r = u" using own r True by (simp add: may_redeem_def)
      ultimately show ?thesis using True used by (simp add: credits_of_def db')
    next
      case False
      then show ?thesis using r_ok used by (simp add: credits_of_def db' order_ok_def)
    qed
    moreover have "fulfilled db' r" if "fulfilled db r" using fulfilled_evolves [OF that order_same_refl evolves] .
    moreover have "\<forall>c \<in> set (pd_codes db'). rc_Code c = po_RechargeCode r \<longrightarrow>
        rc_Type c = RedeemTypeBalance \<and> rc_Value c = po_Amount r \<and> paid strict r"
      using r_ok mk by (auto simp: order_ok_def db' code_same_def)
    ultimately show ?thesis using r_ok by (simp add: order_ok_def)
  qed
  moreover have codes: "map rc_Code (pd_codes db') = map rc_Code (pd_codes db)" "map rc_ID (pd_codes db') = map rc_ID (pd_codes db)"
    by (simp_all add: db' mk_def)
  ultimately have "pay_ok strict db'"
    using ok unfolding pay_ok_def codes by (simp add: db' has_audit_def rebates_of_def has_grant_def paid_order_def)
  then show ?thesis using evolves used by simp
qed

subsection \<open>Subscriptions, rebates, refunds\<close>

lemma pay_ok_assign:
  assumes ok: "pay_ok strict db" and tx: "assign_subscription_tx now ord g days db = Inr db'"
    and paid: "paid_order strict (po_ID ord) db"
  shows "pay_ok strict db' \<and> pay_evolves db db' \<and> has_audit (po_ID ord) assignment_audits db'"
proof (cases "has_audit (po_ID ord) assignment_audits db")
  case True
  then show ?thesis using assms by (simp add: assign_subscription_tx_def)
next
  case False
  define rec where "rec = (case GetByUserIDAndGroupID (po_UserID ord) g (pd_subs db) of
    None \<Rightarrow> False | Some s \<Rightarrow> hasPaymentSubscriptionOrderNote (sb_Notes s) (paymentSubscriptionOrderNote (po_ID ord)))"
  define ids where "ids = (if rec then pd_assigned db else pd_assigned db @ [po_ID ord])"
  from tx False obtain t where "insert_audit now (po_ID ord) ''SUBSCRIPTION_ASSIGNED'' ''system''
      [(''groupID'', DI g), (''validityDays'', DI days), (''recoveredFromNote'', DB rec)] (db \<lparr> pd_subs := t, pd_assigned := ids \<rparr>) = Inr db'"
    unfolding assign_subscription_tx_def Let_def rec_def [symmetric] ids_def [symmetric] by (auto simp: map_sum_Inr split: sum.splits)
  from insert_audit_row [OF this] obtain a where a: "au_OrderID a = po_ID ord" "au_Action a = ''SUBSCRIPTION_ASSIGNED''"
    and db': "db' = db \<lparr> pd_subs := t, pd_assigned := ids, pd_audits := pd_audits db @ [a] \<rparr>"
    by auto
  have ids: "ids = pd_assigned db \<or> ids = pd_assigned db @ [po_ID ord]" by (simp add: ids_def)
  let ?db = "db \<lparr> pd_audits := pd_audits db @ [a] \<rparr>"
  have new: "pay_ok strict ?db" "pay_evolves db ?db" using pay_ok_audit [OF ok] by simp_all
  have audit: "has_audit (po_ID ord) assignment_audits ?db" using a by (simp add: has_audit_def assignment_audits_def)
  have "po_ID ord \<notin> set (pd_assigned db)" using ok False by (auto simp: pay_ok_def)
  moreover have "order_ok strict db' r = order_ok strict ?db r" for r by (rule order_ok_cong) (simp_all add: db')
  moreover have "paid_order strict i db'" if "has_grant i db'" for i
  proof (cases "i = po_ID ord")
    case False
    then have "has_grant i ?db" using that ids by (auto simp: has_grant_def rebates_of_def db')
    then have "paid_order strict i ?db" using new(1) unfolding pay_ok_def by blast
    then show ?thesis by (simp add: paid_order_def db')
  qed (use paid in \<open>simp add: paid_order_def db'\<close>)
  ultimately have "pay_ok strict db'" using new(1) audit ids unfolding pay_ok_def by (auto simp: db' has_audit_def rebates_of_def)
  moreover have "pay_evolves db db'" using new(2) by (simp add: pay_evolves_def db')
  ultimately show ?thesis using audit by (simp add: has_audit_def db')
qed

lemma AccrueQuota_ledger:
  assumes "ad_ledger db' = ls"
  shows "\<exists>xs. ad_ledger (snd (AccrueQuota now i j q h so db')) = ls @ xs \<and> length xs \<le> 1 \<and> (\<forall>l \<in> set xs. al_SourceOrder l = so)"
  using assms by (simp add: AccrueQuota_def Let_def)

lemma EnsureUserAffiliate_ledger [simp]: "ad_ledger (snd (EnsureUserAffiliate now c i db)) = ad_ledger db"
  by (simp add: EnsureUserAffiliate_def Let_def split: option.split)

lemma Accrue_ledger:
  "\<exists>xs. ad_ledger (snd (AccrueInviteRebateForOrder st now c1 c2 i base so db)) = ad_ledger db @ xs \<and> length xs \<le> 1 \<and>
    (\<forall>l \<in> set xs. al_SourceOrder l = so)"
  by (simp add: AccrueInviteRebateForOrder_def Let_def AccrueQuota_ledger split: option.split del: One_nat_def)

lemma pay_ok_accrue:
  assumes "pay_ok strict db" and "aff = snd (AccrueInviteRebateForOrder st now c1 c2 i base None (pd_affiliates db))"
  shows "pay_ok strict (db \<lparr> pd_affiliates := aff \<rparr>) \<and> pay_evolves db (db \<lparr> pd_affiliates := aff \<rparr>)"
proof -
  obtain xs where xs: "ad_ledger aff = ad_ledger (pd_affiliates db) @ xs" "\<forall>l \<in> set xs. al_SourceOrder l = None"
    using Accrue_ledger [of st now c1 c2 i base None "pd_affiliates db"] assms(2) by blast
  have "filter (\<lambda>l. al_SourceOrder l = Some j) xs = []" for j using xs(2) by (auto simp: filter_empty_conv)
  then have "rebates_of j (db \<lparr> pd_affiliates := aff \<rparr>) = rebates_of j db" for j by (simp add: rebates_of_def xs(1))
  moreover have "order_ok strict (db \<lparr> pd_affiliates := aff \<rparr>) r = order_ok strict db r" for r by (rule order_ok_cong) simp_all
  ultimately show ?thesis
    using assms(1) by (auto simp: pay_ok_def has_audit_def has_grant_def paid_order_def pay_evolves_def list.rel_refl intro: code_same_refl)
qed

lemma pay_ok_rebate:
  assumes ok: "pay_ok strict db" and paid: "paid_order strict (po_ID ord) db"
  shows "pay_ok strict (rebate_tx st now codes ord base db) \<and> pay_evolves db (rebate_tx st now codes ord base db)"
proof (cases "has_audit (po_ID ord) rebate_audits db")
  case True
  then show ?thesis using ok by (simp add: rebate_tx_def)
next
  case False
  let ?r = "AccrueInviteRebateForOrder st now (fst codes) (snd codes) (po_UserID ord) base (Some (po_ID ord)) (pd_affiliates db)"
  define a where "a = rebate_row now ord base (fst ?r)"
  have a: "au_OrderID a = po_ID ord" "au_Action a \<in> set rebate_audits" by (simp_all add: a_def rebate_row_def rebate_audits_def)
  have db': "rebate_tx st now codes ord base db = db \<lparr> pd_affiliates := snd ?r, pd_audits := pd_audits db @ [a] \<rparr>" (is "_ = ?db'")
    using False by (simp add: rebate_tx_def Let_def a_def)
  let ?db = "db \<lparr> pd_audits := pd_audits db @ [a] \<rparr>"
  have new: "pay_ok strict ?db" "pay_evolves db ?db" using pay_ok_audit [OF ok] by simp_all
  obtain xs where xs: "ad_ledger (snd ?r) = ad_ledger (pd_affiliates db) @ xs" "length xs \<le> 1" "\<forall>l \<in> set xs. al_SourceOrder l = Some (po_ID ord)"
    using Accrue_ledger by blast
  have "length (rebates_of i ?db') \<le> (if has_audit i rebate_audits ?db' then 1 else 0)" for i
  proof (cases "i = po_ID ord")
    case True
    have "length (rebates_of (po_ID ord) db) \<le> (if has_audit (po_ID ord) rebate_audits db then 1 else 0)"
      using ok unfolding pay_ok_def by blast
    then have "rebates_of (po_ID ord) db = []" using False by simp
    then have "length (rebates_of i ?db') \<le> 1"
      using True xs(1,2) le_trans [OF length_filter_le xs(2)] by (simp add: rebates_of_def)
    moreover have "has_audit i rebate_audits ?db'" using True a by (simp add: has_audit_def)
    ultimately show ?thesis by simp
  next
    case other: False
    then have "filter (\<lambda>l. al_SourceOrder l = Some i) xs = []" using xs(3) by (auto simp: filter_empty_conv)
    then have "rebates_of i ?db' = rebates_of i ?db" by (simp add: rebates_of_def xs(1))
    moreover have "has_audit i rebate_audits ?db' = has_audit i rebate_audits ?db" by (simp add: has_audit_def)
    ultimately show ?thesis using new(1) by (simp add: pay_ok_def)
  qed
  moreover have "order_ok strict ?db' r = order_ok strict ?db r" for r by (rule order_ok_cong) simp_all
  moreover have "paid_order strict i ?db'" if "has_grant i ?db'" for i
  proof (cases "i = po_ID ord")
    case other: False
    then have "filter (\<lambda>l. al_SourceOrder l = Some i) xs = []" using xs(3) by (auto simp: filter_empty_conv)
    then have "has_grant i ?db" using that by (simp add: has_grant_def rebates_of_def xs(1))
    then have "paid_order strict i ?db" using new(1) unfolding pay_ok_def by blast
    then show ?thesis by (simp add: paid_order_def)
  qed (use paid in \<open>simp add: paid_order_def\<close>)
  ultimately have "pay_ok strict ?db'" using new(1) by (simp add: pay_ok_def has_audit_def)
  moreover have "pay_evolves db ?db'" using new(2) by (simp add: pay_evolves_def)
  ultimately show ?thesis using db' by simp
qed


text \<open>A new status is allowed when the order is settled already or the new status asks for nothing.\<close>

definition status_allowed :: "bool \<Rightarrow> pay_db \<Rightarrow> PaymentOrder \<Rightarrow> PaymentOrder \<Rightarrow> bool" where
  "status_allowed strict db r r' \<longleftrightarrow>
     order_same r r' \<and>
     (settled_status (po_Status r') \<longrightarrow> settled_status (po_Status r) \<or> settled (po_ID r) db) \<and>
     (active (po_Status r') \<longrightarrow> active (po_Status r) \<or> paid strict r' \<or> paid_order strict (po_ID r) db)"

lemma order_stamp [simp]: "order_same r (r \<lparr> po_UpdatedAt := t \<rparr>)"
  by (simp add: order_same_def)

lemma pay_ok_update_orders:
  assumes ok: "pay_ok strict db"
    and u: "\<And>r. r \<in> set (pd_orders db) \<Longrightarrow> c r \<Longrightarrow> status_allowed strict db r (u (r \<lparr> po_UpdatedAt := now \<rparr>))"
  shows "pay_ok strict (update_orders now c u db) \<and> pay_evolves db (update_orders now c u db)"
  unfolding update_orders_def
proof (rule pay_ok_update [OF ok])
  fix r
  assume r: "r \<in> set (pd_orders db)"
  let ?f = "if c r then u (r \<lparr> po_UpdatedAt := now \<rparr>) else r"
  have r_ok: "order_ok strict db r" using ok r by (simp add: pay_ok_def)
  show "order_same r ?f \<and> (settled_status (po_Status ?f) \<longrightarrow> fulfilled db ?f) \<and> (active (po_Status ?f) \<longrightarrow> paid strict ?f)"
  proof (cases "c r")
    case True
    note a = u [OF r True]
    let ?r = "u (r \<lparr> po_UpdatedAt := now \<rparr>)"
    have same: "order_same r ?r" using a by (simp add: status_allowed_def)
    have "fulfilled db ?r" if "settled_status (po_Status ?r)"
    proof -
      have "fulfilled db r" using that a r r_ok by (auto simp: status_allowed_def settled_def order_ok_def)
      then show ?thesis using fulfilled_evolves [OF _ same pay_evolves_refl] by simp
    qed
    moreover have "paid strict ?r" if "active (po_Status ?r)"
      using that a r r_ok paid_evolves [OF _ same] by (auto simp: status_allowed_def paid_order_def order_ok_def)
    ultimately show ?thesis using same True by simp
  next
    case False
    then show ?thesis using r_ok by (simp add: order_ok_def)
  qed
qed

lemma final_deduction_tables:
  assumes "applyRefundFinalDeduction now p db = Inr (p', db')"
  shows "\<exists>us t. db' = db \<lparr> pd_users := us, pd_subs := t \<rparr> \<and> rp_OrderID p' = rp_OrderID p \<and> rp_Order p' = rp_Order p"
proof -
  obtain db1 t where b: "final_balance_deduction p db = Inr (p', db1)" and db': "db' = db1 \<lparr> pd_subs := t \<rparr>"
    using assms unfolding applyRefundFinalDeduction_def by (auto split: sum.splits)
  have "\<exists>us. db1 = db \<lparr> pd_users := us \<rparr> \<and> rp_OrderID p' = rp_OrderID p \<and> rp_Order p' = rp_Order p"
  proof (cases "rp_DeductionType p = DeductionTypeBalance \<and> 0 < rp_BalanceToDeduct p")
    case True
    then show ?thesis using b by (auto simp: final_balance_deduction_def split: sum.splits)
  next
    case False
    then have "final_balance_deduction p db = Inr (p, db)" unfolding final_balance_deduction_def by (rule if_not_P)
    then show ?thesis using b by (intro exI [of _ "pd_users db"]) simp
  qed
  then show ?thesis using db' by auto
qed

lemma pay_ok_finalize:
  assumes ok: "pay_ok strict db" and tx: "finalize_refund_tx now dbnow p db = Inr (res, db')"
  shows "pay_ok strict db' \<and> pay_evolves db db'"
proof -
  let ?pending = "\<lambda>r. po_ID r = rp_OrderID p \<and> po_Status r = OrderStatusRefundPending"
  let ?db1 = "update_orders now ?pending (\<lambda>r. r \<lparr> po_Status := OrderStatusRefunding \<rparr>) db"
  obtain x where x: "x \<in> set (pd_orders db)" "po_ID x = rp_OrderID p" "po_Status x = OrderStatusRefundPending"
    using tx by (auto simp: finalize_refund_tx_def Let_def filter_empty_conv split: if_splits)
  have settled: "settled (rp_OrderID p) db" using order_settled [OF ok x(1)] x by (simp add: settled_status_def)
  have paid: "paid_order strict (rp_OrderID p) db" using order_paid [OF ok x(1)] x by (simp add: active_def)
  have db1: "pay_ok strict ?db1 \<and> pay_evolves db ?db1"
    by (rule pay_ok_update_orders [OF ok])
      (auto simp: status_allowed_def settled_status_def active_def order_same_def)
  obtain p2 db2 where d: "applyRefundFinalDeduction now p ?db1 = Inr (p2, db2)"
    and tx2: "insert_audit dbnow (rp_OrderID p2) ''REFUND_SUCCESS'' ''admin'' (refund_success_detail p2)
      (update_orders now (\<lambda>r. po_ID r = rp_OrderID p2) (mark_refunded now p2) db2) = Inr db'"
  proof (cases "applyRefundFinalDeduction now p ?db1")
    case (Inl e)
    then show ?thesis using tx x by (simp add: finalize_refund_tx_def Let_def split: if_splits)
  next
    case (Inr r)
    then show ?thesis using tx by (intro that [of "fst r" "snd r"]) (simp_all add: finalize_refund_tx_def Let_def split: if_splits prod.splits sum.splits)
  qed
  obtain us t where db2: "db2 = ?db1 \<lparr> pd_users := us, pd_subs := t \<rparr>" and p2: "rp_OrderID p2 = rp_OrderID p" "rp_Order p2 = rp_Order p"
    using final_deduction_tables [OF d] by blast
  have ok2: "pay_ok strict db2" "pay_evolves db db2" using db1 by (simp_all add: db2)
  have s2: "settled (rp_OrderID p) db2" "paid_order strict (rp_OrderID p) db2"
    by (rule settled_evolves [OF settled ok2(2)], rule paid_order_evolves [OF paid ok2(2)])
  have "pay_ok strict (update_orders now (\<lambda>r. po_ID r = rp_OrderID p2) (mark_refunded now p2) db2) \<and>
      pay_evolves db2 (update_orders now (\<lambda>r. po_ID r = rp_OrderID p2) (mark_refunded now p2) db2)"
    by (rule pay_ok_update_orders [OF ok2(1)]) (use s2 p2 in \<open>auto simp: status_allowed_def mark_refunded_def order_same_def\<close>)
  then show ?thesis
    using pay_ok_insert_audit [OF _ tx2] pay_evolves_trans ok2(2) by blast
qed

section \<open>Commands\<close>

definition command_ok :: "bool \<Rightarrow> pay_cmd \<Rightarrow> pay_db \<Rightarrow> bool" where
  "command_ok strict cmd db \<longleftrightarrow> (case cmd of
       UpdateOrders c u \<Rightarrow> \<forall>r \<in> set (pd_orders db). c r \<longrightarrow> (\<forall>t. status_allowed strict db r (u (r \<lparr> po_UpdatedAt := t \<rparr>)))
     | UpdateOneOrder i u \<Rightarrow>
         \<forall>r \<in> set (pd_orders db). po_ID r = i \<longrightarrow> (\<forall>t. status_allowed strict db r (u (r \<lparr> po_UpdatedAt := t \<rparr>)))
     | InsertCode c \<Rightarrow> \<not> IsUsed c \<and> (\<forall>r \<in> set (pd_orders db). po_RechargeCode r = rc_Code c \<longrightarrow>
         rc_Type c = RedeemTypeBalance \<and> rc_Value c = po_Amount r \<and> paid strict r)
     | UseCode_tx code u \<Rightarrow> known_code code db \<and> may_redeem u (rc_Code code) db
     | AssignSubscription_tx ord g days \<Rightarrow> paid_order strict (po_ID ord) db
     | Rebate_tx ord base \<Rightarrow> paid_order strict (po_ID ord) db
     | _ \<Rightarrow> True)"

definition kept :: "bool \<Rightarrow> pay_db \<Rightarrow> pay_db \<Rightarrow> bool" where
  "kept strict db db' \<longleftrightarrow> pay_ok strict db' \<and> pay_evolves db db'"

lemma kept_refl: "pay_ok strict db \<Longrightarrow> kept strict db db"
  by (simp add: kept_def)

lemma kept_statement:
  assumes "pay_ok strict db" and "kept strict db (snd x)" and "pay_statement f db x = (r, db')"
  shows "kept strict db db'"
  using assms by (cases f) (auto simp: pay_statement_def kept_refl)

lemma kept_read:
  assumes "pay_ok strict db" and "pay_read f db v c = (r, db')"
  shows "kept strict db db'"
  using assms(2) kept_refl [OF assms(1)]
  by (intro kept_statement [OF assms(1) _ assms(2) [unfolded pay_read_def]]) (simp split: option.split)

lemma kept_tx:
  assumes "pay_ok strict db" and "\<And>x. res = Inr x \<Longrightarrow> kept strict db (snd x)" and "pay_tx f db res = (r, db')"
  shows "kept strict db db'"
  using kept_refl [OF assms(1)] assms(2)
  by (intro kept_statement [OF assms(1) _ assms(3) [unfolded pay_tx_def]]) (simp split: sum.split)

lemma exec_ok:
  assumes ok: "pay_ok strict db" and "command_ok strict cmd db" and ex: "pay_exec E inp cmd db = (r, db')"
  shows "kept strict db db'"
proof -
  note st = kept_statement [OF ok] and same = kept_refl [OF ok]
  show ?thesis
  proof (cases cmd)
    case (UpdateOrders c u)
    have "kept strict db (update_orders (in_clock inp) c u db)"
      unfolding kept_def using pay_ok_update_orders [OF ok] assms(2) UpdateOrders by (simp add: command_ok_def)
    then show ?thesis using st [OF _ ex [unfolded UpdateOrders pay_exec.simps]] by simp
  next
    case (UpdateOneOrder i u)
    have "kept strict db (update_orders (in_clock inp) (\<lambda>r. po_ID r = i) u db)"
      unfolding kept_def using pay_ok_update_orders [OF ok] assms(2) UpdateOneOrder by (simp add: command_ok_def)
    then show ?thesis using st [OF _ ex [unfolded UpdateOneOrder pay_exec.simps]] same by (simp split: option.splits)
  next
    case (AddAudit i action op d)
    have "kept strict db db1" if "insert_audit (in_dbnow inp) i action op d db = Inr db1" for db1
      unfolding kept_def using pay_ok_insert_audit [OF ok that] by simp
    then show ?thesis using st [OF _ ex [unfolded AddAudit pay_exec.simps]] same by (simp split: sum.splits)
  next
    case (InsertCode c)
    have "kept strict db db1" if "insert_code c db = Inr db1" for db1
      unfolding kept_def using pay_ok_insert_code [OF ok that] assms(2) InsertCode by (simp add: command_ok_def)
    then show ?thesis using st [OF _ ex [unfolded InsertCode pay_exec.simps]] same by (simp split: sum.splits)
  next
    case (UseCode_tx code u)
    have "kept strict db db1" if "use_code_tx (in_clock inp) code u db = Inr db1" for db1
      unfolding kept_def using pay_ok_use_code [OF ok that] assms(2) UseCode_tx by (simp add: command_ok_def)
    then show ?thesis using kept_tx [OF ok _ ex [unfolded UseCode_tx pay_exec.simps]] by (auto simp: map_sum_Inr)
  next
    case (AssignSubscription_tx ord g days)
    have "kept strict db db1" if "assign_subscription_tx (in_clock inp) ord g days db = Inr db1" for db1
      unfolding kept_def using pay_ok_assign [OF ok that] assms(2) AssignSubscription_tx by (simp add: command_ok_def)
    then show ?thesis using kept_tx [OF ok _ ex [unfolded AssignSubscription_tx pay_exec.simps]] by (auto simp: map_sum_Inr)
  next
    case (FinalizeRefund_tx p)
    have "kept strict db (snd x)" if "finalize_refund_tx (in_clock inp) (in_dbnow inp) p db = Inr x" for x
      unfolding kept_def using pay_ok_finalize [OF ok, of "in_clock inp" "in_dbnow inp" p "fst x" "snd x"] that by simp
    then show ?thesis using kept_tx [OF ok _ ex [unfolded FinalizeRefund_tx pay_exec.simps]] by (fastforce simp: map_sum_Inr)
  next
    case (Rebate_tx ord base)
    have "kept strict db (rebate_tx s (in_dbnow inp) (in_aff_codes inp) ord base db)" for s
      unfolding kept_def using pay_ok_rebate [OF ok] assms(2) Rebate_tx by (simp add: command_ok_def)
    then show ?thesis using st [OF _ ex [unfolded Rebate_tx pay_exec.simps]] same by (simp split: option.splits)
  next
    case (Accrue_tx u amount)
    have "kept strict db (db \<lparr> pd_affiliates := snd (AccrueInviteRebateForOrder s (in_dbnow inp) (fst (in_aff_codes inp))
        (snd (in_aff_codes inp)) u amount None (pd_affiliates db)) \<rparr>)" for s
      unfolding kept_def by (rule pay_ok_accrue [OF ok refl])
    then show ?thesis using st [OF _ ex [unfolded Accrue_tx pay_exec.simps]] same by (simp split: option.splits)
  next
    case (DeductAvailable i q)
    then show ?thesis using st [OF _ ex [unfolded DeductAvailable pay_exec.simps]] ok by (simp add: kept_def split: sum.splits)
  next
    case (AddBalance i q)
    then show ?thesis using st [OF _ ex [unfolded AddBalance pay_exec.simps]] ok by (simp add: kept_def split: sum.splits)
  next
    case (ExtendSub i t)
    then show ?thesis using st [OF _ ex [unfolded ExtendSub pay_exec.simps]] ok by (simp add: kept_def one_sub_def)
  next
    case (SetSubStatus i s)
    then show ?thesis using st [OF _ ex [unfolded SetSubStatus pay_exec.simps]] ok by (simp add: kept_def one_sub_def)
  next
    case (DeleteSub i)
    then show ?thesis using st [OF _ ex [unfolded DeleteSub pay_exec.simps]] ok by (simp add: kept_def)
  next
    case (FindOrder tn)
    then show ?thesis using st [OF _ ex [unfolded FindOrder pay_exec.simps]] same by (simp split: list.splits)
  next
    case (QueryOrders c)
    then show ?thesis using st [OF _ ex [unfolded QueryOrders pay_exec.simps]] same by simp
  next
    case (CountAudits i acts)
    then show ?thesis using st [OF _ ex [unfolded CountAudits pay_exec.simps]] same by simp
  next
    case (QueryInstances c)
    then show ?thesis using st [OF _ ex [unfolded QueryInstances pay_exec.simps]] same by simp
  qed (use ex ok same in \<open>auto simp: kept_read split: if_splits\<close>)
qed

end
