(* ===== verification/Payment_Fulfillment.thy ===== *)
theory Payment_Fulfillment
  imports Payment_Store
begin

text \<open>
  The programs that turn a payment into a credit: the redeem service (\<open>service/redeem_service.go\<close>) and
  the fulfillment of orders (\<open>service/payment_fulfillment.go\<close>), from the notification of a provider
  to the completed order, with the resolution of the provider instance of an order
  (\<open>service/payment_refund.go\<close>). Each function of the source is one program. Logging, metrics and mail
  are left out; the L1 cache of subscriptions is not modelled.
\<close>

section \<open>Audit log\<close>

definition writeAuditLog :: "int \<Rightarrow> string \<Rightarrow> string \<Rightarrow> (string \<times> detail) list \<Rightarrow> 'a pay_prog \<Rightarrow> 'a pay_prog" where
  "writeAuditLog oid action op d next = Do (AddAudit oid action op d) (\<lambda>_. next)"

definition hasAuditLog :: "int \<Rightarrow> string \<Rightarrow> bool pay_prog" where
  "hasAuditLog oid action = Do (CountAudits oid [action]) (\<lambda>r. Return (case as_count r of Inl _ \<Rightarrow> False | Inr c \<Rightarrow> 0 < c))"

section \<open>Redeem codes\<close>

definition ErrRedeemCodeNotFound :: pay_error where
  "ErrRedeemCodeNotFound = pay_NotFound ''REDEEM_CODE_NOT_FOUND'' ''redeem code not found''"

definition ErrRedeemCodeExpired :: pay_error where
  "ErrRedeemCodeExpired = pay_Conflict ''REDEEM_CODE_EXPIRED'' ''redeem code expired''"

definition ErrRedeemRateLimited :: pay_error where
  "ErrRedeemRateLimited = App 429 ''REDEEM_RATE_LIMITED'' ''too many failed attempts, please try again later''"

definition ErrRedeemCodeLocked :: pay_error where
  "ErrRedeemCodeLocked = pay_Conflict ''REDEEM_CODE_LOCKED'' ''redeem code is being processed, please try again''"

definition redeemMaxErrorsPerHour :: nat where
  "redeemMaxErrorsPerHour = 20"

definition CreateCode :: "RedeemCode \<Rightarrow> pay_error option pay_prog" where
  "CreateCode code =
     (let code = code \<lparr> rc_Code := strings_TrimSpace (rc_Code code) \<rparr>
      in if rc_Code code = [] then Return (Some (Plain ''code is required''))
         else
           let code = (if rc_Type code = [] then code \<lparr> rc_Type := RedeemTypeBalance \<rparr> else code)
           in if rc_Type code \<noteq> RedeemTypeInvitation \<and> rc_Value code = 0 then Return (Some (Plain ''value must not be zero''))
              else
                let code = (if rc_Status code = [] then code \<lparr> rc_Status := StatusUnused \<rparr> else code)
                in Do Clock (\<lambda>now.
                     if IsExpiredAt (as_time now) code then Return (Some ErrRedeemCodeExpired)
                     else Do (InsertCode code) (\<lambda>r.
                       Return (map_option (Wrapped ''create redeem code'') (as_outcome r)))))"

text \<open>\<open>Redeem\<close> under its lock. \<open>skip\<close> is the mark of \<open>ContextSkipRedeemAffiliate\<close>.\<close>

definition reload_code :: "int \<Rightarrow> (pay_error + RedeemCode) pay_prog" where
  "reload_code i = Do (GetCodeByID i) (\<lambda>r. case as_code r of
     Inl e \<Rightarrow> Return (Inl (Wrapped ''get updated redeem code'' (Fault e))) | Inr c \<Rightarrow> Return (Inr c))"

definition redeem_apply :: "bool \<Rightarrow> int \<Rightarrow> RedeemCode \<Rightarrow> (pay_error + RedeemCode) pay_prog" where
  "redeem_apply skip u code =
     Do (GetUser u) (\<lambda>r. case as_user r of
       Inl e \<Rightarrow> Return (Inl (Wrapped ''get user'' (Fault e)))
     | Inr _ \<Rightarrow>
         Do (UseCode_tx code u) (\<lambda>r. case as_outcome r of
           Some e \<Rightarrow> Return (Inl e)
         | None \<Rightarrow>
             if rc_Type code = RedeemTypeBalance \<and> 0 < rc_Value code \<and> \<not> skip
             then Do (Accrue_tx u (rc_Value code)) (\<lambda>_. reload_code (rc_ID code))
             else reload_code (rc_ID code)))"

definition redeem_locked :: "bool \<Rightarrow> int \<Rightarrow> string \<Rightarrow> (pay_error + RedeemCode) pay_prog" where
  "redeem_locked skip u c =
     Do (GetCode c) (\<lambda>r. case as_code r of
       Inl RowNotFound \<Rightarrow> Do (CountRedeemError u) (\<lambda>_. Return (Inl ErrRedeemCodeNotFound))
     | Inl e \<Rightarrow> Return (Inl (Wrapped ''get redeem code'' (Fault e)))
     | Inr code \<Rightarrow>
         Do Clock (\<lambda>now.
           if IsExpiredAt (as_time now) code then Do (CountRedeemError u) (\<lambda>_. Return (Inl ErrRedeemCodeExpired))
           else Do Clock (\<lambda>now.
             if \<not> CanUse (as_time now) code then Do (CountRedeemError u) (\<lambda>_. Return (Inl ErrRedeemCodeUsed))
             else if rc_Type code = RedeemTypeBalance \<or> rc_Type code = RedeemTypeConcurrency then redeem_apply skip u code
             else if rc_Type code = RedeemTypeSubscription then
               (if rc_GroupID code = None
                then Return (Inl (pay_BadRequest ''REDEEM_CODE_INVALID'' ''invalid subscription redeem code: missing group_id''))
                else redeem_apply skip u code)
             else Return (Inl (unsupportedRedeemTypeError (rc_Type code))))))"

definition Redeem :: "bool \<Rightarrow> int \<Rightarrow> string \<Rightarrow> (pay_error + RedeemCode) pay_prog" where
  "Redeem skip u c =
     Do (RedeemAttempts u) (\<lambda>r.
       if (case r of RAttempts (Some n) \<Rightarrow> redeemMaxErrorsPerHour \<le> n | _ \<Rightarrow> False) then Return (Inl ErrRedeemRateLimited)
       else Do (AcquireRedeemLock c) (\<lambda>r.
         if (case r of RLock (Some False) \<Rightarrow> True | _ \<Rightarrow> False) then Return (Inl ErrRedeemCodeLocked)
         else bind_prog (redeem_locked skip u c) (\<lambda>res. Do (ReleaseRedeemLock c) (\<lambda>_. Return res))))"

section \<open>The provider instance of an order\<close>

definition resolveSnapshotOrderProviderInstance ::
  "pay_env \<Rightarrow> PaymentOrder \<Rightarrow> paymentOrderProviderSnapshot \<Rightarrow> (pay_error + PaymentProviderInstance option) pay_prog" where
  "resolveSnapshotOrderProviderInstance E ord snapshot =
     (let columnInstanceID = strings_TrimSpace (psStringValue (po_ProviderInstanceID ord));
          snapshotInstanceID = (if strings_TrimSpace (sn_ProviderInstanceID snapshot) = [] then columnInstanceID
                                else strings_TrimSpace (sn_ProviderInstanceID snapshot))
      in if snapshotInstanceID = [] then Return (Inl (Plain ''provider snapshot is missing provider_instance_id''))
         else if columnInstanceID \<noteq> [] \<and> sn_ProviderInstanceID snapshot \<noteq> [] \<and>
                 \<not> strings_EqualFold (pe_fold E) columnInstanceID (sn_ProviderInstanceID snapshot)
         then Return (Inl (Plain ''provider snapshot instance mismatch''))
         else case strconv_Atoi snapshotInstanceID of
                None \<Rightarrow> Return (Inl (Plain ''provider snapshot instance id is invalid''))
              | Some instID \<Rightarrow>
                  Do (GetInstance instID) (\<lambda>r. case as_instance r of
                    Inl RowNotFound \<Rightarrow> Return (Inl (Plain ''provider snapshot instance is missing''))
                  | Inl e \<Rightarrow> Return (Inl (Fault e))
                  | Inr inst \<Rightarrow>
                      if sn_ProviderKey snapshot \<noteq> [] \<and>
                         \<not> strings_EqualFold (pe_fold E) (strings_TrimSpace (pi_ProviderKey inst)) (sn_ProviderKey snapshot)
                      then Return (Inl (Plain ''provider snapshot key mismatch''))
                      else Return (Inr (Some inst))))"

definition the_single :: "'a list \<Rightarrow> 'a option" where
  "the_single xs = (case xs of [x] \<Rightarrow> Some x | _ \<Rightarrow> None)"

definition resolveUniqueLegacyOrderProviderInstance :: "PaymentOrder \<Rightarrow> (pay_error + PaymentProviderInstance option) pay_prog" where
  "resolveUniqueLegacyOrderProviderInstance ord =
     (let paymentType = GetBasePaymentType (strings_TrimSpace (po_PaymentType ord));
          providerKey = strings_TrimSpace (psStringValue (po_ProviderKey ord));
          unique = (\<lambda>c. Do (QueryInstances c) (\<lambda>r. case as_instances r of
            Inl e \<Rightarrow> Return (Inl (Fault e))
          | Inr instances \<Rightarrow> Return (Inr (the_single (psFilterLegacyOrderProviderInstances paymentType instances)))))
      in if providerKey \<noteq> [] then unique (\<lambda>x. pi_ProviderKey x = providerKey)
         else if paymentType = [] then Return (Inr None)
         else unique (\<lambda>_. True))"

definition getOrderProviderInstance :: "pay_env \<Rightarrow> PaymentOrder \<Rightarrow> (pay_error + PaymentProviderInstance option) pay_prog" where
  "getOrderProviderInstance E ord =
     (case psOrderProviderSnapshot ord of
        Some snapshot \<Rightarrow> resolveSnapshotOrderProviderInstance E ord snapshot
      | None \<Rightarrow>
          let instIDStr = strings_TrimSpace (psStringValue (po_ProviderInstanceID ord))
          in if instIDStr = [] then resolveUniqueLegacyOrderProviderInstance ord
             else case strconv_Atoi instIDStr of
                    None \<Rightarrow> Return (Inr None)
                  | Some instID \<Rightarrow>
                      Do (GetInstance instID) (\<lambda>r. case as_instance r of
                        Inl e \<Rightarrow> Return (Inl (Fault e)) | Inr inst \<Rightarrow> Return (Inr (Some inst))))"

section \<open>Fulfillment\<close>

definition paymentFulfillmentLeaseDuration :: duration where
  "paymentFulfillmentLeaseDuration = 5 * Minute"

definition paymentGraceMinutes :: int where
  "paymentGraceMinutes = 5"

text \<open>The lease is the \<open>updated_at\<close> of the claimed row; \<open>Inr None\<close> is the nil lease of a completed order.\<close>

definition lease_free :: "gotime \<Rightarrow> int \<Rightarrow> PaymentOrder \<Rightarrow> bool" where
  "lease_free staleBefore i r \<longleftrightarrow>
     po_ID r = i \<and> (po_Status r = OrderStatusPaid \<or> po_Status r = OrderStatusFailed \<or>
       po_Status r = OrderStatusRecharging \<and> po_UpdatedAt r \<le> staleBefore)"

definition claim_lease :: "gotime \<Rightarrow> PaymentOrder \<Rightarrow> PaymentOrder" where
  "claim_lease now r =
     r \<lparr> po_Status := OrderStatusRecharging, po_UpdatedAt := now, po_FailedAt := None, po_FailedReason := None \<rparr>"

definition acquirePaymentFulfillmentLease :: "PaymentOrder \<Rightarrow> (pay_error + gotime option) pay_prog" where
  "acquirePaymentFulfillmentLease ord =
     Do Clock (\<lambda>t.
       let now = as_time t - as_time t mod 1000; staleBefore = now - paymentFulfillmentLeaseDuration
       in Do (UpdateOrders (lease_free staleBefore (po_ID ord)) (claim_lease now)) (\<lambda>r. case as_count r of
            Inl e \<Rightarrow> Return (Inl (Wrapped ''acquire fulfillment lease'' (Fault e)))
          | Inr updated \<Rightarrow>
              if updated = 0 then
                Do (GetOrder (po_ID ord)) (\<lambda>r. case as_order r of
                  Inl e \<Rightarrow> Return (Inl (Wrapped ''reload fulfillment lease'' (Fault e)))
                | Inr current \<Rightarrow>
                    if po_Status current = OrderStatusCompleted then Return (Inr None)
                    else if po_Status current = OrderStatusRecharging
                    then Return (Inl (pay_Conflict ''CONFLICT'' ''order is being processed''))
                    else Return (Inl (pay_Conflict ''CONFLICT'' ''order status changed while acquiring fulfillment lease'')))
              else
                Do (GetOrder (po_ID ord)) (\<lambda>r. case as_order r of
                  Inl e \<Rightarrow> Return (Inl (Wrapped ''reload acquired fulfillment lease'' (Fault e)))
                | Inr claimed \<Rightarrow>
                    if po_Status claimed \<noteq> OrderStatusRecharging
                    then Return (Inl (pay_Conflict ''CONFLICT'' ''fulfillment lease was lost''))
                    else Return (Inr (Some (po_UpdatedAt claimed))))))"

datatype redeemAction = redeemActionCreate | redeemActionRedeem | redeemActionSkipCompleted

definition resolveRedeemAction :: "db_fault + RedeemCode \<Rightarrow> redeemAction" where
  "resolveRedeemAction lookup =
     (case lookup of
        Inl _ \<Rightarrow> redeemActionCreate
      | Inr existing \<Rightarrow> if IsUsed existing then redeemActionSkipCompleted else redeemActionRedeem)"

definition affiliateRebateBaseAmount :: "PaymentOrder \<Rightarrow> rat" where
  "affiliateRebateBaseAmount ord =
     (if po_OrderType ord = OrderTypeBalance \<or> po_OrderType ord = OrderTypeSubscription then po_Amount ord else 0)"

definition applyAffiliateRebateForOrder :: "pay_env \<Rightarrow> PaymentOrder \<Rightarrow> pay_error option pay_prog" where
  "applyAffiliateRebateForOrder E ord =
     (let baseAmount = affiliateRebateBaseAmount ord
      in if baseAmount \<le> 0 then Return None
         else if pe_affiliate E = None then Return None
         else Do (Rebate_tx ord baseAmount) (\<lambda>r. case as_outcome r of
                None \<Rightarrow> Return None
              | Some e \<Rightarrow>
                  writeAuditLog (po_ID ord) ''AFFILIATE_REBATE_FAILED'' ''system'' [(''error'', DE (Some e))]
                    (Return (Some (Wrapped ''affiliate rebate tx'' e)))))"

definition leased :: "int \<Rightarrow> gotime \<Rightarrow> PaymentOrder \<Rightarrow> bool" where
  "leased i version r \<longleftrightarrow> po_ID r = i \<and> po_Status r = OrderStatusRecharging \<and> po_UpdatedAt r = version"

definition markCompleted :: "PaymentOrder \<Rightarrow> gotime \<Rightarrow> string \<Rightarrow> pay_error option pay_prog" where
  "markCompleted ord version auditAction =
     Do Clock (\<lambda>now.
       Do (UpdateOrders (leased (po_ID ord) version)
             (\<lambda>r. r \<lparr> po_Status := OrderStatusCompleted, po_CompletedAt := Some (as_time now) \<rparr>)) (\<lambda>r. case as_count r of
         Inl e \<Rightarrow> Return (Some (Wrapped ''mark completed'' (Fault e)))
       | Inr updated \<Rightarrow>
           if updated = 0 then
             Do (GetOrder (po_ID ord)) (\<lambda>r. case as_order r of
               Inr current \<Rightarrow>
                 if po_Status current = OrderStatusCompleted then Return None
                 else Return (Some (pay_Conflict ''CONFLICT'' ''fulfillment lease was lost before completion''))
             | Inl _ \<Rightarrow> Return (Some (pay_Conflict ''CONFLICT'' ''fulfillment lease was lost before completion'')))
           else bind_prog (hasAuditLog (po_ID ord) auditAction) (\<lambda>has.
             if has then Return None
             else writeAuditLog (po_ID ord) auditAction ''system''
                    [(''rechargeCode'', DS (po_RechargeCode ord)), (''creditedAmount'', DN (Fin (po_Amount ord))),
                     (''payAmount'', DN (Fin (po_PayAmount ord)))]
                    (Return None))))"

definition markFailed :: "int \<Rightarrow> gotime \<Rightarrow> pay_error \<Rightarrow> unit pay_prog" where
  "markFailed oid version cause =
     Do Clock (\<lambda>now.
       Do (UpdateOrders (leased oid version)
             (\<lambda>r. r \<lparr> po_Status := OrderStatusFailed, po_FailedAt := Some (as_time now), po_FailedReason := Some cause \<rparr>)) (\<lambda>r.
         case as_count r of
           Inl _ \<Rightarrow> Return ()
         | Inr c \<Rightarrow>
             if 0 < c then writeAuditLog oid ''FULFILLMENT_FAILED'' ''system'' [(''reason'', DE (Some cause))] (Return ())
             else Return ()))"

definition recharge_code :: "PaymentOrder \<Rightarrow> RedeemCode" where
  "recharge_code ord = \<lparr> rc_ID = 0, rc_Code = po_RechargeCode ord, rc_Type = RedeemTypeBalance, rc_Value = po_Amount ord,
     rc_Status = StatusUnused, rc_UsedBy = None, rc_UsedAt = None, rc_ExpiresAt = None, rc_GroupID = None, rc_ValidityDays = 0 \<rparr>"

definition complete_recharge :: "pay_env \<Rightarrow> PaymentOrder \<Rightarrow> gotime \<Rightarrow> pay_error option pay_prog" where
  "complete_recharge E ord lease =
     bind_prog (applyAffiliateRebateForOrder E ord) (\<lambda>e. case e of
       Some e \<Rightarrow> Return (Some e)
     | None \<Rightarrow> markCompleted ord lease ''RECHARGE_SUCCESS'')"

definition redeem_recharge :: "pay_env \<Rightarrow> PaymentOrder \<Rightarrow> gotime \<Rightarrow> pay_error option pay_prog" where
  "redeem_recharge E ord lease =
     bind_prog (Redeem True (po_UserID ord) (po_RechargeCode ord)) (\<lambda>res. case res of
       Inl e \<Rightarrow> Return (Some (Wrapped ''redeem balance'' e))
     | Inr _ \<Rightarrow> complete_recharge E ord lease)"

definition doBalance :: "pay_env \<Rightarrow> PaymentOrder \<Rightarrow> gotime \<Rightarrow> pay_error option pay_prog" where
  "doBalance E ord lease =
     Do (GetCode (po_RechargeCode ord)) (\<lambda>r. case resolveRedeemAction (as_code r) of
       redeemActionSkipCompleted \<Rightarrow> complete_recharge E ord lease
     | redeemActionCreate \<Rightarrow>
         bind_prog (CreateCode (recharge_code ord)) (\<lambda>e. case e of
           Some e \<Rightarrow> Return (Some (Wrapped ''create redeem code'' e))
         | None \<Rightarrow> redeem_recharge E ord lease)
     | redeemActionRedeem \<Rightarrow> redeem_recharge E ord lease)"

text \<open>
  The part \<open>ExecuteBalanceFulfillment\<close> and \<open>ExecuteSubscriptionFulfillment\<close> share: the state the order
  must be in, and the work under the lease.
\<close>

definition fulfill_guard :: "PaymentOrder \<Rightarrow> pay_error option option" where
  "fulfill_guard ord =
     (if po_Status ord = OrderStatusCompleted then Some None
      else if psIsRefundStatus (po_Status ord)
      then Some (Some (pay_BadRequest ''INVALID_STATUS'' ''refund-related order cannot fulfill''))
      else if po_Status ord \<noteq> OrderStatusPaid \<and> po_Status ord \<noteq> OrderStatusFailed \<and> po_Status ord \<noteq> OrderStatusRecharging
      then Some (Some (pay_BadRequest ''INVALID_STATUS'' (''order cannot fulfill in status '' @ status_text (po_Status ord))))
      else None)"

definition with_lease :: "PaymentOrder \<Rightarrow> (gotime \<Rightarrow> pay_error option pay_prog) \<Rightarrow> pay_error option pay_prog" where
  "with_lease ord work =
     bind_prog (acquirePaymentFulfillmentLease ord) (\<lambda>lease. case lease of
       Inl e \<Rightarrow> Return (Some e)
     | Inr None \<Rightarrow> Return None
     | Inr (Some version) \<Rightarrow>
         bind_prog (work version) (\<lambda>e. case e of
           None \<Rightarrow> Return None
         | Some e \<Rightarrow> bind_prog (markFailed (po_ID ord) version e) (\<lambda>_. Return (Some e))))"

definition ExecuteBalanceFulfillment :: "pay_env \<Rightarrow> int \<Rightarrow> pay_error option pay_prog" where
  "ExecuteBalanceFulfillment E oid =
     Do (GetOrder oid) (\<lambda>r. case as_order r of
       Inl _ \<Rightarrow> Return (Some (pay_NotFound ''NOT_FOUND'' ''order not found''))
     | Inr ord \<Rightarrow>
         (case fulfill_guard ord of
            Some result \<Rightarrow> Return result
          | None \<Rightarrow> with_lease ord (doBalance E ord)))"

definition ensurePaymentSubscriptionAssigned :: "PaymentOrder \<Rightarrow> int \<Rightarrow> int \<Rightarrow> pay_error option pay_prog" where
  "ensurePaymentSubscriptionAssigned ord groupID days =
     (let invalidate = (\<lambda>w. Do (InvalidateSubCaches (po_UserID ord) groupID) (\<lambda>r. Return (map_option w (as_outcome r))))
      in Do (AssignSubscription_tx ord groupID days) (\<lambda>r. case as_outcome r of
           None \<Rightarrow> invalidate (Wrapped ''invalidate subscription cache after fulfillment'')
         | Some e \<Rightarrow>
             if e = Fault ConstraintViolation then
               Do (CountAudits (po_ID ord) assignment_audits) (\<lambda>r.
                 if (case as_count r of Inl _ \<Rightarrow> False | Inr c \<Rightarrow> 0 < c) then invalidate (\<lambda>e. e)
                 else Return (Some (Wrapped ''record subscription assignment audit'' e)))
             else Return (Some (case e of Fault _ \<Rightarrow> Wrapped ''subscription fulfillment tx'' e | _ \<Rightarrow> e))))"

definition doSub :: "pay_env \<Rightarrow> PaymentOrder \<Rightarrow> int \<Rightarrow> int \<Rightarrow> gotime \<Rightarrow> pay_error option pay_prog" where
  "doSub E ord gid days lease =
     Do (GetGroup gid) (\<lambda>r.
       if (case as_group r of Inl _ \<Rightarrow> True | Inr g \<Rightarrow> sg_Status g \<noteq> ''active'')
       then Return (Some (Plain (''group '' @ strconv_FormatInt gid @ '' no longer exists or inactive'')))
       else bind_prog (ensurePaymentSubscriptionAssigned ord gid days) (\<lambda>e. case e of
         Some e \<Rightarrow> Return (Some e)
       | None \<Rightarrow>
           bind_prog (applyAffiliateRebateForOrder E ord) (\<lambda>e. case e of
             Some e \<Rightarrow> Return (Some e)
           | None \<Rightarrow> markCompleted ord lease ''SUBSCRIPTION_SUCCESS'')))"

definition ExecuteSubscriptionFulfillment :: "pay_env \<Rightarrow> int \<Rightarrow> pay_error option pay_prog" where
  "ExecuteSubscriptionFulfillment E oid =
     Do (GetOrder oid) (\<lambda>r. case as_order r of
       Inl _ \<Rightarrow> Return (Some (pay_NotFound ''NOT_FOUND'' ''order not found''))
     | Inr ord \<Rightarrow>
         (case fulfill_guard ord of
            Some result \<Rightarrow> Return result
          | None \<Rightarrow>
              (case (po_SubscriptionGroupID ord, po_SubscriptionDays ord) of
                 (Some gid, Some days) \<Rightarrow> with_lease ord (doSub E ord gid days)
               | _ \<Rightarrow> Return (Some (pay_BadRequest ''INVALID_STATUS'' ''missing subscription info'')))))"

definition executeFulfillment :: "pay_env \<Rightarrow> int \<Rightarrow> pay_error option pay_prog" where
  "executeFulfillment E oid =
     Do (GetOrder oid) (\<lambda>r. case as_order r of
       Inl e \<Rightarrow> Return (Some (Wrapped ''get order'' (Fault e)))
     | Inr ord \<Rightarrow>
         if po_OrderType ord = OrderTypeSubscription then ExecuteSubscriptionFulfillment E oid
         else ExecuteBalanceFulfillment E oid)"

section \<open>Notifications\<close>

definition alreadyProcessed :: "pay_env \<Rightarrow> int \<Rightarrow> pay_error option pay_prog" where
  "alreadyProcessed E oid =
     Do (GetOrder oid) (\<lambda>r. case as_order r of
       Inl _ \<Rightarrow> Return None
     | Inr cur \<Rightarrow>
         (case po_Status cur of
            OrderStatusFailed \<Rightarrow> executeFulfillment E oid
          | OrderStatusPaid \<Rightarrow> executeFulfillment E oid
          | OrderStatusRecharging \<Rightarrow> executeFulfillment E oid
          | OrderStatusExpired \<Rightarrow>
              writeAuditLog oid ''PAYMENT_AFTER_EXPIRY'' ''system''
                [(''status'', DS (status_text (po_Status cur))), (''updatedAt'', DT (po_UpdatedAt cur)),
                 (''reason'', DS ''payment arrived after expiry grace period'')] (Return None)
          | _ \<Rightarrow> Return None))"

definition payable :: "gotime \<Rightarrow> int \<Rightarrow> PaymentOrder \<Rightarrow> bool" where
  "payable grace i r \<longleftrightarrow>
     po_ID r = i \<and> (po_Status r = OrderStatusPending \<or> po_Status r = OrderStatusCancelled \<or>
       po_Status r = OrderStatusExpired \<and> grace \<le> po_UpdatedAt r)"

definition mark_paid :: "gotime \<Rightarrow> string \<Rightarrow> rat \<Rightarrow> PaymentOrder \<Rightarrow> PaymentOrder" where
  "mark_paid now tradeNo paid r =
     r \<lparr> po_Status := OrderStatusPaid, po_PayAmount := numeric2 paid, po_PaymentTradeNo := tradeNo, po_PaidAt := Some now,
         po_FailedAt := None, po_FailedReason := None \<rparr>"

definition toPaid :: "pay_env \<Rightarrow> PaymentOrder \<Rightarrow> string \<Rightarrow> rat \<Rightarrow> string \<Rightarrow> pay_error option pay_prog" where
  "toPaid E ord tradeNo paid pk =
     Do Clock (\<lambda>t.
       let now = as_time t; grace = now - paymentGraceMinutes * Minute
       in Do (UpdateOrders (payable grace (po_ID ord)) (mark_paid now tradeNo paid)) (\<lambda>r. case as_count r of
            Inl e \<Rightarrow> Return (Some (Wrapped ''update to PAID'' (Fault e)))
          | Inr c \<Rightarrow>
              if c = 0 then alreadyProcessed E (po_ID ord)
              else
                let fulfill = writeAuditLog (po_ID ord) ''ORDER_PAID'' pk
                      [(''tradeNo'', DS tradeNo), (''paidAmount'', DN (Fin paid))] (executeFulfillment E (po_ID ord))
                in if po_Status ord = OrderStatusCancelled \<or> po_Status ord = OrderStatusExpired
                   then writeAuditLog (po_ID ord) ''ORDER_RECOVERED'' pk
                          [(''previous_status'', DS (status_text (po_Status ord))), (''tradeNo'', DS tradeNo),
                           (''paidAmount'', DN (Fin paid)),
                           (''reason'', DS (''webhook payment success received after order '' @ status_text (po_Status ord)))]
                          fulfill
                   else fulfill))"

text \<open>The checks of \<open>confirmPayment\<close>, with the audit action of the failed one.\<close>

definition confirm_check ::
  "pay_env \<Rightarrow> PaymentOrder \<Rightarrow> string \<Rightarrow> string \<Rightarrow> gofloat \<Rightarrow> string \<Rightarrow> (string \<times> string) list \<Rightarrow>
     (string \<times> (string \<times> detail) list \<times> pay_error) + rat" where
  "confirm_check E ord instanceProviderKey tradeNo paid pk metadata =
     (let expectedProviderKey = expectedNotificationProviderKeyForOrder (pe_registry E) ord instanceProviderKey
      in if expectedProviderKey \<noteq> [] \<and> strings_TrimSpace pk \<noteq> [] \<and>
            \<not> strings_EqualFold (pe_fold E) expectedProviderKey (strings_TrimSpace pk)
         then Inl (''PAYMENT_PROVIDER_MISMATCH'',
                [(''expectedProvider'', DS expectedProviderKey), (''actualProvider'', DS pk), (''tradeNo'', DS tradeNo)],
                Plain (''provider mismatch: expected '' @ expectedProviderKey @ '', got '' @ pk))
         else case validateProviderSnapshotMetadata (pe_fold E) (pe_upper E) ord pk metadata of
                Some e \<Rightarrow> Inl (''PAYMENT_PROVIDER_METADATA_MISMATCH'', [(''detail'', DE (Some e)), (''tradeNo'', DS tradeNo)], e)
              | None \<Rightarrow>
                  let amounts = [(''expected'', DN (Fin (po_PayAmount ord))), (''paid'', DN paid), (''tradeNo'', DS tradeNo)]
                  in (case paid of
                        Fin q \<Rightarrow>
                          if \<not> isValidProviderAmount paid
                          then Inl (''PAYMENT_INVALID_AMOUNT'', amounts, Amounts ''invalid paid amount from provider'' [paid])
                          else if paymentAmountToleranceForCurrency (pe_upper E) (PaymentOrderCurrency (pe_upper E) ord) < \<bar>q - po_PayAmount ord\<bar>
                          then Inl (''PAYMENT_AMOUNT_MISMATCH'', amounts, Amounts ''amount mismatch'' [Fin (po_PayAmount ord), paid])
                          else Inr q
                      | _ \<Rightarrow> Inl (''PAYMENT_INVALID_AMOUNT'', amounts, Amounts ''invalid paid amount from provider'' [paid])))"

definition confirmPayment ::
  "pay_env \<Rightarrow> int \<Rightarrow> string \<Rightarrow> gofloat \<Rightarrow> string \<Rightarrow> (string \<times> string) list \<Rightarrow> pay_error option pay_prog" where
  "confirmPayment E oid tradeNo paid pk metadata =
     Do (GetOrder oid) (\<lambda>r. case as_order r of
       Inl _ \<Rightarrow> Return None
     | Inr ord \<Rightarrow>
         bind_prog (getOrderProviderInstance E ord) (\<lambda>inst.
           let instanceProviderKey = (case inst of Inr (Some x) \<Rightarrow> pi_ProviderKey x | _ \<Rightarrow> [])
           in case confirm_check E ord instanceProviderKey tradeNo paid pk metadata of
                Inl (action, d, e) \<Rightarrow> writeAuditLog (po_ID ord) action pk d (Return (Some e))
              | Inr q \<Rightarrow> toPaid E ord tradeNo q pk))"

record PaymentNotification =
  pn_TradeNo :: string
  pn_OrderID :: string
  pn_Amount :: gofloat
  pn_Status :: string
  pn_Metadata :: "(string \<times> string) list"

abbreviation "NotificationStatusSuccess \<equiv> ''success''"

definition HandlePaymentNotification :: "pay_env \<Rightarrow> PaymentNotification \<Rightarrow> string \<Rightarrow> pay_error option pay_prog" where
  "HandlePaymentNotification E n pk =
     (if pn_Status n \<noteq> NotificationStatusSuccess then Return None
      else Do (FindOrder (pn_OrderID n)) (\<lambda>r. case as_order r of
        Inr ord \<Rightarrow> confirmPayment E (po_ID ord) (pn_TradeNo n) (pn_Amount n) pk (pn_Metadata n)
      | Inl e \<Rightarrow>
          (case parseLegacyPaymentOrderID (pn_OrderID n) (e = RowNotFound) of
             Some oid \<Rightarrow> confirmPayment E oid (pn_TradeNo n) (pn_Amount n) pk (pn_Metadata n)
           | None \<Rightarrow>
               if e = RowNotFound then Return (Some (Wrapped (''payment order not found: out_trade_no='' @ pn_OrderID n) (Fault e)))
               else Return (Some (Wrapped (''lookup order failed for out_trade_no '' @ pn_OrderID n) (Fault e))))))"

definition RetryFulfillment :: "pay_env \<Rightarrow> int \<Rightarrow> pay_error option pay_prog" where
  "RetryFulfillment E oid =
     Do (GetOrder oid) (\<lambda>r. case as_order r of
       Inl _ \<Rightarrow> Return (Some (pay_NotFound ''NOT_FOUND'' ''order not found''))
     | Inr ord \<Rightarrow>
         if po_PaidAt ord = None then Return (Some (pay_BadRequest ''INVALID_STATUS'' ''order is not paid''))
         else if psIsRefundStatus (po_Status ord)
         then Return (Some (pay_BadRequest ''INVALID_STATUS'' ''refund-related order cannot retry''))
         else if po_Status ord = OrderStatusCompleted
         then Return (Some (pay_BadRequest ''INVALID_STATUS'' ''order already completed''))
         else if po_Status ord \<noteq> OrderStatusFailed \<and> po_Status ord \<noteq> OrderStatusPaid \<and> po_Status ord \<noteq> OrderStatusRecharging
         then Return (Some (pay_BadRequest ''INVALID_STATUS'' ''only paid, failed, and recoverable recharging orders can retry''))
         else writeAuditLog oid ''RECHARGE_RETRY'' ''admin'' [(''detail'', DS ''admin manual retry'')] (executeFulfillment E oid))"

end
