(* ===== verification/Payment_Lifecycle.thy ===== *)
theory Payment_Lifecycle
  imports Payment_Fulfillment
begin

text \<open>
  The programs of \<open>service/payment_order_lifecycle.go\<close>: cancelling and expiring orders, which first ask the
  provider whether the order was paid after all, and the reconciliation with the provider.
\<close>

section \<open>Asking the provider\<close>

datatype checkPaidResult = checkPaidNothing | checkPaidResultAlreadyPaid | checkPaidResultCancelled

definition webhookRegistryFallbackAllowed :: "string \<Rightarrow> bool pay_prog" where
  "webhookRegistryFallbackAllowed key =
     (let providerKey = strings_TrimSpace key
      in if providerKey = [] then Return False
         else Do (QueryInstances (\<lambda>x. pi_ProviderKey x = providerKey \<and> pi_Enabled x)) (\<lambda>r. case as_instances r of
                Inl _ \<Rightarrow> Return False
              | Inr xs \<Rightarrow> Return (length xs \<le> 1)))"

definition getOrderProvider :: "pay_env \<Rightarrow> PaymentOrder \<Rightarrow> payment_provider option pay_prog" where
  "getOrderProvider E ord =
     bind_prog (getOrderProviderInstance E ord) (\<lambda>inst. case inst of
       Inl _ \<Rightarrow> Return None
     | Inr (Some x) \<Rightarrow> Do (MakeProvider x) (\<lambda>r. Return (as_provider r))
     | Inr None \<Rightarrow>
         if \<not> paymentOrderAllowsRegistryFallback ord then Return None
         else
           let providerKey = paymentOrderFallbackProviderKey (pe_registry E) ord
           in if providerKey = [] then Return None
              else bind_prog (webhookRegistryFallbackAllowed providerKey) (\<lambda>ok.
                if \<not> ok then Return None
                else Do (RegistryProvider (po_PaymentType ord)) (\<lambda>r. Return (as_provider r))))"

definition requeryPaidOrderOnce :: "string \<Rightarrow> QueryOrderResponse option pay_prog" where
  "requeryPaidOrderOnce queryRef =
     (if strings_TrimSpace queryRef = [] then Return None
      else Do (QueryProvider queryRef) (\<lambda>r. case as_query r of
        None \<Rightarrow> Return None
      | Some resp \<Rightarrow>
          if qr_Status resp \<noteq> ''paid'' \<or> \<not> isValidProviderAmount (qr_Amount resp) then Return None else Return (Some resp)))"

text \<open>The notification \<open>checkPaidWithOptions\<close> makes of a paid response; errors of it are logged only.\<close>

definition notify_paid :: "pay_env \<Rightarrow> PaymentOrder \<Rightarrow> payment_provider \<Rightarrow> QueryOrderResponse \<Rightarrow> string \<Rightarrow> checkPaidResult pay_prog" where
  "notify_paid E ord prov resp tradeNo =
     bind_prog (HandlePaymentNotification E
         \<lparr> pn_TradeNo = tradeNo, pn_OrderID = po_OutTradeNo ord, pn_Amount = qr_Amount resp, pn_Status = ''success'',
           pn_Metadata = qr_Metadata resp \<rparr> (pv_Key prov))
       (\<lambda>_. Return checkPaidResultAlreadyPaid)"

definition paid_response :: "pay_env \<Rightarrow> PaymentOrder \<Rightarrow> payment_provider \<Rightarrow> string \<Rightarrow> QueryOrderResponse \<Rightarrow> checkPaidResult pay_prog" where
  "paid_response E ord prov queryRef resp =
     (let upstreamTradeNo = strings_TrimSpace (qr_TradeNo resp)
      in if paymentOrderShouldPersistUpstreamTradeNo (pe_fold E) queryRef upstreamTradeNo (po_PaymentTradeNo ord)
         then Do (UpdateOrders (\<lambda>r. po_ID r = po_ID ord) (\<lambda>r. r \<lparr> po_PaymentTradeNo := upstreamTradeNo \<rparr>))
                (\<lambda>_. notify_paid E ord prov resp upstreamTradeNo)
         else notify_paid E ord prov resp (po_PaymentTradeNo ord))"

definition checkPaidWithOptions :: "pay_env \<Rightarrow> PaymentOrder \<Rightarrow> bool \<Rightarrow> checkPaidResult pay_prog" where
  "checkPaidWithOptions E ord cancelIfUnpaid =
     bind_prog (getOrderProvider E ord) (\<lambda>p. case p of
       None \<Rightarrow> Return checkPaidNothing
     | Some prov \<Rightarrow>
         let queryRef = paymentOrderQueryReference ord (Some (pv_Key prov))
         in if queryRef = [] then Return checkPaidNothing
            else Do (QueryProvider queryRef) (\<lambda>r. case as_query r of
              None \<Rightarrow> Return checkPaidNothing
            | Some resp \<Rightarrow>
                if qr_Status resp = ''paid'' then
                  (if \<not> isValidProviderAmount (qr_Amount resp)
                   then writeAuditLog (po_ID ord) ''PAYMENT_INVALID_AMOUNT'' (pv_Key prov)
                          [(''expected'', DN (Fin (po_PayAmount ord))), (''paid'', DN (qr_Amount resp)),
                           (''tradeNo'', DS (qr_TradeNo resp)), (''queryRef'', DS queryRef)]
                          (bind_prog (requeryPaidOrderOnce queryRef) (\<lambda>again. case again of
                             None \<Rightarrow> Return checkPaidNothing
                           | Some resp \<Rightarrow> paid_response E ord prov queryRef resp))
                   else paid_response E ord prov queryRef resp)
                else if \<not> cancelIfUnpaid then Return checkPaidNothing
                else if pv_Cancelable prov then Do (CancelProvider queryRef) (\<lambda>_. Return checkPaidNothing)
                else Return checkPaidNothing))"

definition checkPaid :: "pay_env \<Rightarrow> PaymentOrder \<Rightarrow> checkPaidResult pay_prog" where
  "checkPaid E ord = checkPaidWithOptions E ord True"

definition reconcilePaid :: "pay_env \<Rightarrow> PaymentOrder \<Rightarrow> checkPaidResult pay_prog" where
  "reconcilePaid E ord = checkPaidWithOptions E ord False"

section \<open>Cancelling and expiring\<close>

definition cancelCore :: "pay_env \<Rightarrow> PaymentOrder \<Rightarrow> OrderStatus \<Rightarrow> string \<Rightarrow> string \<Rightarrow> (pay_error + checkPaidResult) pay_prog" where
  "cancelCore E ord fs op ad =
     (let cancel = Do (UpdateOrders (\<lambda>r. po_ID r = po_ID ord \<and> po_Status r = OrderStatusPending) (\<lambda>r. r \<lparr> po_Status := fs \<rparr>))
            (\<lambda>r. case as_count r of
               Inl e \<Rightarrow> Return (Inl (Wrapped ''update order status'' (Fault e)))
             | Inr c \<Rightarrow>
                 if 0 < c
                 then writeAuditLog (po_ID ord) (if fs = OrderStatusExpired then ''ORDER_EXPIRED'' else ''ORDER_CANCELLED'') op
                        [(''detail'', DS ad)] (Return (Inr checkPaidResultCancelled))
                 else Return (Inr checkPaidResultCancelled))
      in if po_PaymentTradeNo ord \<noteq> [] \<or> po_PaymentType ord \<noteq> []
         then bind_prog (checkPaid E ord) (\<lambda>res.
                if res = checkPaidResultAlreadyPaid then Return (Inr checkPaidResultAlreadyPaid) else cancel)
         else cancel)"

definition CancelOrder :: "pay_env \<Rightarrow> int \<Rightarrow> int \<Rightarrow> (pay_error + checkPaidResult) pay_prog" where
  "CancelOrder E orderID userID =
     Do (GetOrder orderID) (\<lambda>r. case as_order r of
       Inl _ \<Rightarrow> Return (Inl (pay_NotFound ''NOT_FOUND'' ''order not found''))
     | Inr ord \<Rightarrow>
         if po_UserID ord \<noteq> userID then Return (Inl (pay_Forbidden ''FORBIDDEN'' ''no permission for this order''))
         else if po_Status ord \<noteq> OrderStatusPending
         then Return (Inl (pay_BadRequest ''INVALID_STATUS'' ''order cannot be cancelled in current status''))
         else cancelCore E ord OrderStatusCancelled (''user:'' @ strconv_FormatInt userID) ''user cancelled order'')"

definition AdminCancelOrder :: "pay_env \<Rightarrow> int \<Rightarrow> (pay_error + checkPaidResult) pay_prog" where
  "AdminCancelOrder E orderID =
     Do (GetOrder orderID) (\<lambda>r. case as_order r of
       Inl _ \<Rightarrow> Return (Inl (pay_NotFound ''NOT_FOUND'' ''order not found''))
     | Inr ord \<Rightarrow>
         if po_Status ord \<noteq> OrderStatusPending
         then Return (Inl (pay_BadRequest ''INVALID_STATUS'' ''order cannot be cancelled in current status''))
         else cancelCore E ord OrderStatusCancelled ''admin'' ''admin cancelled order'')"

fun expire_orders :: "pay_env \<Rightarrow> PaymentOrder list \<Rightarrow> nat \<Rightarrow> (pay_error + nat) pay_prog" where
  "expire_orders E [] n = Return (Inr n)"
| "expire_orders E (ord # ords) n =
     bind_prog (cancelCore E ord OrderStatusExpired ''system'' ''order expired'') (\<lambda>outcome. case outcome of
       Inr checkPaidResultCancelled \<Rightarrow> expire_orders E ords (n + 1)
     | _ \<Rightarrow> expire_orders E ords n)"

definition ExpireTimedOutOrders :: "pay_env \<Rightarrow> (pay_error + nat) pay_prog" where
  "ExpireTimedOutOrders E =
     Do Clock (\<lambda>now. Do (QueryOrders (\<lambda>r. po_Status r = OrderStatusPending \<and> po_ExpiresAt r \<le> as_time now)) (\<lambda>r. case as_orders r of
       Inl e \<Rightarrow> Return (Inl (Wrapped ''query expired'' (Fault e)))
     | Inr orders \<Rightarrow> expire_orders E orders 0))"

section \<open>Reconciliation\<close>

fun reconcile_orders :: "pay_env \<Rightarrow> PaymentOrder list \<Rightarrow> nat \<Rightarrow> (pay_error + nat) pay_prog" where
  "reconcile_orders E [] n = Return (Inr n)"
| "reconcile_orders E (ord # ords) n =
     bind_prog (reconcilePaid E ord) (\<lambda>res. reconcile_orders E ords (if res = checkPaidResultAlreadyPaid then n + 1 else n))"

definition pendingWxpayReconcileLimit :: nat where
  "pendingWxpayReconcileLimit = 20"

definition wxpay_order :: "PaymentOrder \<Rightarrow> bool" where
  "wxpay_order r \<longleftrightarrow>
     po_PaymentType r = ''wxpay'' \<or> prefix ''wxpay_'' (po_PaymentType r) \<or>
     po_ProviderKey r = Some ''wxpay'' \<or> prefix ''wxpay_'' (psStringValue (po_ProviderKey r))"

definition ReconcilePendingWxpayOrders :: "pay_env \<Rightarrow> (pay_error + nat) pay_prog" where
  "ReconcilePendingWxpayOrders E =
     Do Clock (\<lambda>now.
       Do (QueryOrders (\<lambda>r. po_Status r = OrderStatusPending \<and> as_time now < po_ExpiresAt r \<and> wxpay_order r)) (\<lambda>r. case as_orders r of
         Inl e \<Rightarrow> Return (Inl (Wrapped ''query pending wxpay orders'' (Fault e)))
       | Inr orders \<Rightarrow>
           reconcile_orders E (take pendingWxpayReconcileLimit (sort_SliceStable (\<lambda>a b. po_CreatedAt a < po_CreatedAt b) orders)) 0))"

definition VerifyOrderByOutTradeNo :: "pay_env \<Rightarrow> string \<Rightarrow> int \<Rightarrow> (pay_error + PaymentOrder) pay_prog" where
  "VerifyOrderByOutTradeNo E raw userID =
     (case normalizeOrderLookupOutTradeNo raw of
        Inl e \<Rightarrow> Return (Inl e)
      | Inr outTradeNo \<Rightarrow>
          Do (FindOrder outTradeNo) (\<lambda>r. case as_order r of
            Inl _ \<Rightarrow> Return (Inl (pay_NotFound ''NOT_FOUND'' ''order not found''))
          | Inr ord \<Rightarrow>
              if po_UserID ord \<noteq> userID then Return (Inl (pay_Forbidden ''FORBIDDEN'' ''no permission for this order''))
              else if po_Status ord = OrderStatusPending \<or> po_Status ord = OrderStatusExpired then
                bind_prog (reconcilePaid E ord) (\<lambda>result.
                  if result = checkPaidResultAlreadyPaid
                  then Do (GetOrder (po_ID ord)) (\<lambda>r. case as_order r of
                         Inl e \<Rightarrow> Return (Inl (Wrapped ''reload order'' (Fault e)))
                       | Inr ord \<Rightarrow> Return (Inr ord))
                  else Return (Inr ord))
              else Return (Inr ord)))"

definition VerifyOrderPublic :: "string \<Rightarrow> (pay_error + PaymentOrder) pay_prog" where
  "VerifyOrderPublic raw =
     (case normalizeOrderLookupOutTradeNo raw of
        Inl e \<Rightarrow> Return (Inl e)
      | Inr outTradeNo \<Rightarrow>
          Do (FindOrder outTradeNo) (\<lambda>r. case as_order r of
            Inl _ \<Rightarrow> Return (Inl (pay_NotFound ''NOT_FOUND'' ''order not found''))
          | Inr ord \<Rightarrow> Return (Inr ord)))"

section \<open>Orders the provider refused\<close>

text \<open>
  The last step of \<open>CreateOrder\<close> (\<open>service/payment_order.go\<close>) when the call of the provider, or the
  statement that stores its answer, has failed. The payment may exist at the provider all the same.
\<close>

definition fail_created_order :: "int \<Rightarrow> unit pay_prog" where
  "fail_created_order oid = Do (UpdateOneOrder oid (\<lambda>r. r \<lparr> po_Status := OrderStatusFailed \<rparr>)) (\<lambda>_. Return ())"

section \<open>The limit on cancellations\<close>

record cancel_config =
  cc_Enabled :: bool
  cc_Max :: int
  cc_Window :: int
  cc_Unit :: string
  cc_Mode :: string

definition cancelRateLimitWindowStart :: "duration \<Rightarrow> gotime \<Rightarrow> cancel_config \<Rightarrow> gotime" where
  "cancelRateLimitWindowStart tz now cfg =
     (let w = (if cc_Window cfg \<le> 0 then 1 else cc_Window cfg);
          unit = (if cc_Unit cfg = [] then ''day'' else cc_Unit cfg)
      in if cc_Mode cfg = ''fixed'' then
           (if unit = ''minute'' then (now - now mod Minute) - (w - 1) * Minute
            else if unit = ''day'' then startOfDay tz now - (w - 1) * Day
            else (now - now mod Hour) - (w - 1) * Hour)
         else if unit = ''minute'' then now - w * Minute
         else if unit = ''day'' then now - w * Day
         else now - w * Hour)"

definition checkCancelRateLimit :: "duration \<Rightarrow> gotime \<Rightarrow> cancel_config \<Rightarrow> int \<Rightarrow> pay_db \<Rightarrow> pay_error option" where
  "checkCancelRateLimit tz now cfg userID db =
     (if \<not> cc_Enabled cfg \<or> cc_Max cfg \<le> 0 then None
      else if cc_Max cfg \<le> int (length (filter (\<lambda>a. au_Action a = ''ORDER_CANCELLED'' \<and>
                au_Operator a = ''user:'' @ strconv_FormatInt userID \<and>
                cancelRateLimitWindowStart tz now cfg \<le> au_CreatedAt a) (pd_audits db)))
      then Some (App 429 ''CANCEL_RATE_LIMITED'' ''cancel rate limited'')
      else None)"

end
