(* ===== verification/Payment_Refund.thy ===== *)
theory Payment_Refund
  imports Payment_Lifecycle
begin

text \<open>
  The programs of \<open>service/payment_refund.go\<close>: a user asks for a refund, an administrator prepares and
  executes it, and a refund the provider left pending is finalised later. \<open>ExtendSubscription\<close> and
  \<open>RevokeSubscription\<close> of \<open>service/subscription_service.go\<close> run here outside a transaction, one statement at
  a time.
\<close>

section \<open>The provider of a refund\<close>

definition getRefundOrderProviderInstance :: "pay_env \<Rightarrow> PaymentOrder \<Rightarrow> (pay_error + PaymentProviderInstance option) pay_prog" where
  "getRefundOrderProviderInstance E ord =
     (case psOrderProviderSnapshot ord of
        Some snapshot \<Rightarrow> resolveSnapshotOrderProviderInstance E ord snapshot
      | None \<Rightarrow>
          let instIDStr = strings_TrimSpace (psStringValue (po_ProviderInstanceID ord))
          in if instIDStr = [] then Return (Inr None)
             else case strconv_Atoi instIDStr of
                    None \<Rightarrow> Return (Inl (Plain ''refund provider instance id is invalid''))
                  | Some instID \<Rightarrow>
                      Do (GetInstance instID) (\<lambda>r. case as_instance r of
                        Inl RowNotFound \<Rightarrow> Return (Inl (Plain ''refund provider instance is missing''))
                      | Inl e \<Rightarrow> Return (Inl (Fault e))
                      | Inr inst \<Rightarrow> Return (Inr (Some inst))))"

definition getRefundProvider :: "pay_env \<Rightarrow> PaymentOrder \<Rightarrow> (pay_error + payment_provider) pay_prog" where
  "getRefundProvider E ord =
     bind_prog (getRefundOrderProviderInstance E ord) (\<lambda>inst. case inst of
       Inl e \<Rightarrow> Return (Inl e)
     | Inr None \<Rightarrow> Return (Inl (Plain ''refund provider instance is unavailable''))
     | Inr (Some x) \<Rightarrow> Do (MakeProvider x) (\<lambda>r. Return (case as_provider r of
         None \<Rightarrow> Inl (Plain ''create provider'') | Some prov \<Rightarrow> Inr prov)))"

section \<open>The request of the user\<close>

definition validateRefundRequest :: "pay_env \<Rightarrow> int \<Rightarrow> int \<Rightarrow> (pay_error + PaymentOrder) pay_prog" where
  "validateRefundRequest E oid uid =
     Do (GetOrder oid) (\<lambda>r. case as_order r of
       Inl _ \<Rightarrow> Return (Inl (pay_NotFound ''NOT_FOUND'' ''order not found''))
     | Inr ord \<Rightarrow>
         if po_UserID ord \<noteq> uid then Return (Inl (pay_Forbidden ''FORBIDDEN'' ''no permission''))
         else if po_OrderType ord \<noteq> OrderTypeBalance
         then Return (Inl (pay_BadRequest ''INVALID_ORDER_TYPE'' ''only balance orders can request refund''))
         else if po_Status ord \<noteq> OrderStatusCompleted
         then Return (Inl (pay_BadRequest ''INVALID_STATUS'' ''only completed orders can request refund''))
         else bind_prog (getRefundOrderProviderInstance E ord) (\<lambda>inst. case inst of
           Inr (Some x) \<Rightarrow>
             if \<not> pi_AllowUserRefund x
             then Return (Inl (pay_Forbidden ''USER_REFUND_DISABLED'' ''user refund is not enabled for this provider''))
             else Return (Inr ord)
         | _ \<Rightarrow> Return (Inl (pay_Forbidden ''USER_REFUND_DISABLED'' ''refund is not available for this order''))))"

definition refund_requestable :: "int \<Rightarrow> int \<Rightarrow> PaymentOrder \<Rightarrow> bool" where
  "refund_requestable oid uid r \<longleftrightarrow>
     po_ID r = oid \<and> po_UserID r = uid \<and> po_Status r = OrderStatusCompleted \<and> po_OrderType r = OrderTypeBalance"

definition request_refund :: "gotime \<Rightarrow> string \<Rightarrow> string \<Rightarrow> rat \<Rightarrow> PaymentOrder \<Rightarrow> PaymentOrder" where
  "request_refund now reason requester amount r =
     r \<lparr> po_Status := OrderStatusRefundRequested, po_RefundRequestedAt := Some now, po_RefundRequestReason := Some reason,
         po_RefundRequestedBy := Some requester, po_RefundAmount := numeric2 amount \<rparr>"

definition RequestRefund :: "pay_env \<Rightarrow> int \<Rightarrow> int \<Rightarrow> string \<Rightarrow> pay_error option pay_prog" where
  "RequestRefund E oid uid reason =
     bind_prog (validateRefundRequest E oid uid) (\<lambda>v. case v of
       Inl e \<Rightarrow> Return (Some e)
     | Inr ord \<Rightarrow>
         Do (GetUser (po_UserID ord)) (\<lambda>r. case as_user r of
           Inl e \<Rightarrow> Return (Some (Wrapped ''get user'' (Fault e)))
         | Inr u \<Rightarrow>
             if us_Balance u < po_Amount ord
             then Return (Some (pay_BadRequest ''BALANCE_NOT_ENOUGH'' ''refund amount exceeds balance''))
             else
               let nr = strings_TrimSpace reason
               in Do Clock (\<lambda>now.
                    Do (UpdateOrders (refund_requestable oid uid)
                          (request_refund (as_time now) nr (strconv_FormatInt uid) (po_Amount ord))) (\<lambda>r. case as_count r of
                      Inl e \<Rightarrow> Return (Some (Wrapped ''update'' (Fault e)))
                    | Inr c \<Rightarrow>
                        if c = 0 then Return (Some (pay_Conflict ''CONFLICT'' ''order status changed''))
                        else writeAuditLog oid ''REFUND_REQUESTED'' (''user:'' @ strconv_FormatInt uid)
                               [(''amount'', DN (Fin (po_Amount ord))), (''reason'', DS nr)] (Return None)))))"

section \<open>Preparing a refund\<close>

definition require_force :: "string \<Rightarrow> RefundResult" where
  "require_force warning = \<lparr> rs_Success = False, rs_Warning = warning, rs_Cause = None, rs_RequireForce = True,
     rs_BalanceDeducted = 0, rs_SubDaysDeducted = 0 \<rparr>"

definition prepDeduct :: "PaymentOrder \<Rightarrow> RefundPlan \<Rightarrow> bool \<Rightarrow> (RefundResult + RefundPlan) pay_prog" where
  "prepDeduct ord p force =
     (if po_OrderType ord = OrderTypeSubscription then
        let p = p \<lparr> rp_DeductionType := DeductionTypeSubscription \<rparr>
        in case (po_SubscriptionGroupID ord, po_SubscriptionDays ord) of
             (Some g, Some days) \<Rightarrow>
               let p = p \<lparr> rp_SubDaysToDeduct := days \<rparr>
               in Do (GetActiveSub (po_UserID ord) g) (\<lambda>r. case as_sub r of
                    Inr s \<Rightarrow> Return (Inr (p \<lparr> rp_SubscriptionID := sb_ID s \<rparr>))
                  | Inl _ \<Rightarrow>
                      if \<not> force then Return (Inl (require_force ''cannot find active subscription for deduction, use force''))
                      else Return (Inr p))
           | _ \<Rightarrow> Return (Inr p)
      else Do (GetUser (po_UserID ord)) (\<lambda>r. case as_user r of
        Inl _ \<Rightarrow>
          if \<not> force then Return (Inl (require_force ''cannot fetch user balance, use force'')) else Return (Inr p)
      | Inr u \<Rightarrow>
          let p = p \<lparr> rp_DeductionType := DeductionTypeBalance \<rparr>
          in if us_Balance u < rp_RefundAmount p \<and> \<not> force
             then Return (Inl (require_force ''user balance is insufficient for deduction, use force''))
             else Return (Inr (p \<lparr> rp_BalanceToDeduct := max 0 (min (rp_RefundAmount p) (us_Balance u)) \<rparr>))))"

definition refundable :: "OrderStatus list" where
  "refundable = [OrderStatusCompleted, OrderStatusRefundRequested, OrderStatusRefundPending, OrderStatusRefundFailed]"

definition refund_reason :: "PaymentOrder \<Rightarrow> string \<Rightarrow> string" where
  "refund_reason ord reason =
     (let rr = strings_TrimSpace reason;
          rr = (if rr = [] then psStringValue (po_RefundRequestReason ord) else rr)
      in if rr = [] then ''refund order:'' @ strconv_FormatInt (po_ID ord) else rr)"

definition new_plan :: "pay_env \<Rightarrow> PaymentOrder \<Rightarrow> int \<Rightarrow> rat \<Rightarrow> string \<Rightarrow> bool \<Rightarrow> bool \<Rightarrow> RefundPlan" where
  "new_plan E ord oid amt reason force deduct =
     \<lparr> rp_OrderID = oid, rp_Order = ord, rp_RefundAmount = amt,
       rp_GatewayAmount = calculateGatewayRefundAmount (pe_decimal E) (pe_upper E) (po_Amount ord) (po_PayAmount ord) amt (PaymentOrderCurrency (pe_upper E) ord),
       rp_Reason = refund_reason ord reason, rp_Force = force, rp_DeductBalance = deduct, rp_DeductionType = DeductionTypeNone,
       rp_BalanceToDeduct = 0, rp_SubDaysToDeduct = 0, rp_SubscriptionID = 0 \<rparr>"

definition PrepareRefund ::
  "pay_env \<Rightarrow> int \<Rightarrow> gofloat \<Rightarrow> string \<Rightarrow> bool \<Rightarrow> bool \<Rightarrow> (pay_error + RefundResult + RefundPlan) pay_prog" where
  "PrepareRefund E oid amt reason force deduct =
     Do (GetOrder oid) (\<lambda>r. case as_order r of
       Inl _ \<Rightarrow> Return (Inl (pay_NotFound ''NOT_FOUND'' ''order not found''))
     | Inr ord \<Rightarrow>
         if po_Status ord \<notin> set refundable
         then Return (Inl (pay_BadRequest ''INVALID_STATUS'' ''order status does not allow refund''))
         else bind_prog (getRefundOrderProviderInstance E ord) (\<lambda>inst. case inst of
           Inl _ \<Rightarrow> Return (Inl (pay_InternalServer ''PROVIDER_LOOKUP_FAILED'' ''failed to look up payment provider for this order''))
         | Inr None \<Rightarrow> Return (Inl (pay_Forbidden ''REFUND_DISABLED'' ''refund is not available for this order''))
         | Inr (Some x) \<Rightarrow>
             if \<not> pi_RefundEnabled x
             then Return (Inl (pay_Forbidden ''REFUND_DISABLED'' ''refund is not enabled for this provider''))
             else case amt of
                    Fin q \<Rightarrow>
                      let q = (if q \<le> 0 then po_Amount ord else q)
                      in if paymentAmountToleranceForCurrency (pe_upper E) (PaymentOrderCurrency (pe_upper E) ord) < q - po_Amount ord
                         then Return (Inl (pay_BadRequest ''REFUND_AMOUNT_EXCEEDED'' ''refund amount exceeds recharge''))
                         else
                           let p = new_plan E ord oid q reason force deduct
                           in if deduct then bind_prog (prepDeduct ord p force) (\<lambda>d. Return (Inr d))
                              else Return (Inr (Inr p))
                  | _ \<Rightarrow> Return (Inl (pay_BadRequest ''INVALID_AMOUNT'' ''invalid refund amount''))))"

section \<open>Subscriptions, statement by statement\<close>

definition would_expire :: pay_error where
  "would_expire = pay_BadRequest ''ADJUST_WOULD_EXPIRE'' ''adjustment would result in expired subscription (remaining days must be > 0)''"

definition sub_not_found :: pay_error where
  "sub_not_found = pay_NotFound ''SUBSCRIPTION_NOT_FOUND'' ''subscription not found''"

definition translate_sub :: "db_fault \<Rightarrow> pay_error" where
  "translate_sub e = (if e = RowNotFound then sub_not_found else Fault e)"

definition extend_subscription :: "int \<Rightarrow> int \<Rightarrow> pay_error option pay_prog" where
  "extend_subscription i days =
     Do (GetSub i) (\<lambda>r. case as_sub r of
       Inl _ \<Rightarrow> Return (Some sub_not_found)
     | Inr s \<Rightarrow>
         Do Clock (\<lambda>now. case adjusted_expiry (as_time now) days s of
           Inl ErrAdjustWouldExpire \<Rightarrow> Return (Some would_expire)
         | Inl _ \<Rightarrow> Return (Some (pay_BadRequest ''CANNOT_SHORTEN_EXPIRED'' ''cannot shorten an expired subscription''))
         | Inr newExpiresAt \<Rightarrow>
             Do (ExtendSub i newExpiresAt) (\<lambda>r. case as_outcome r of
               Some e \<Rightarrow> Return (Some e)
             | None \<Rightarrow>
                 let reload = Do (GetSub i) (\<lambda>r. Return (case as_sub r of Inl e \<Rightarrow> Some (translate_sub e) | Inr _ \<Rightarrow> None))
                 in if sb_Status s = SubscriptionStatusExpired
                    then Do (SetSubStatus i SubscriptionStatusActive) (\<lambda>r. case as_outcome r of
                           Some e \<Rightarrow> Return (Some e) | None \<Rightarrow> reload)
                    else reload)))"

definition revoke_subscription :: "int \<Rightarrow> pay_error option pay_prog" where
  "revoke_subscription i =
     Do (GetSub i) (\<lambda>r. case as_sub r of
       Inl e \<Rightarrow> Return (Some (translate_sub e))
     | Inr s \<Rightarrow>
         Do (DeleteSub i) (\<lambda>r. case as_outcome r of
           Some e \<Rightarrow> Return (Some e)
         | None \<Rightarrow> Do (InvalidateSubCaches (sb_UserID s) (sb_GroupID s)) (\<lambda>r. Return (as_outcome r))))"

section \<open>Rolling back\<close>

definition RollbackRefund :: "RefundPlan \<Rightarrow> pay_error option \<Rightarrow> bool pay_prog" where
  "RollbackRefund p gErr =
     (let failed = (\<lambda>e d. writeAuditLog (rp_OrderID p) ''REFUND_ROLLBACK_FAILED'' ''admin''
            [(''gatewayError'', DE gErr), (''rollbackError'', DE (Some e)), d] (Return False));
          subscription =
            (if rp_DeductionType p = DeductionTypeSubscription \<and> 0 < rp_SubDaysToDeduct p \<and> 0 < rp_SubscriptionID p
             then bind_prog (extend_subscription (rp_SubscriptionID p) (rp_SubDaysToDeduct p)) (\<lambda>e. case e of
                    Some e \<Rightarrow> failed e (''subDaysDeducted'', DI (rp_SubDaysToDeduct p)) | None \<Rightarrow> Return True)
             else Return True)
      in if rp_DeductionType p = DeductionTypeBalance \<and> 0 < rp_BalanceToDeduct p
         then Do (AddBalance (po_UserID (rp_Order p)) (rp_BalanceToDeduct p)) (\<lambda>r. case as_outcome r of
                Some e \<Rightarrow> failed e (''balanceDeducted'', DN (Fin (rp_BalanceToDeduct p))) | None \<Rightarrow> subscription)
         else subscription)"

definition restored_status :: "RefundPlan \<Rightarrow> OrderStatus" where
  "restored_status p =
     (if po_Status (rp_Order p) = OrderStatusRefundRequested then OrderStatusRefundRequested else OrderStatusCompleted)"

definition restoreStatus :: "RefundPlan \<Rightarrow> 'a pay_prog \<Rightarrow> 'a pay_prog" where
  "restoreStatus p next =
     Do (UpdateOneOrder (rp_OrderID p) (\<lambda>r. r \<lparr> po_Status := restored_status p \<rparr>)) (\<lambda>_. next)"

definition refund_warning :: "string \<Rightarrow> pay_error option \<Rightarrow> RefundResult" where
  "refund_warning warning cause = \<lparr> rs_Success = False, rs_Warning = warning, rs_Cause = cause, rs_RequireForce = False,
     rs_BalanceDeducted = 0, rs_SubDaysDeducted = 0 \<rparr>"

definition mark_refund_failed :: "gotime \<Rightarrow> pay_error \<Rightarrow> PaymentOrder \<Rightarrow> PaymentOrder" where
  "mark_refund_failed now e r =
     r \<lparr> po_Status := OrderStatusRefundFailed, po_FailedAt := Some now, po_FailedReason := Some e \<rparr>"

definition handleGwFail :: "RefundPlan \<Rightarrow> pay_error \<Rightarrow> (pay_error + RefundResult) pay_prog" where
  "handleGwFail p gErr =
     bind_prog (RollbackRefund p (Some gErr)) (\<lambda>ok.
       if ok then
         restoreStatus p
           (writeAuditLog (rp_OrderID p) ''REFUND_GATEWAY_FAILED'' ''admin'' [(''detail'', DE (Some gErr))]
             (Return (Inr (refund_warning ''gateway failed, rolled back'' (Some gErr)))))
       else
         Do Clock (\<lambda>now. Do (UpdateOneOrder (rp_OrderID p) (mark_refund_failed (as_time now) gErr)) (\<lambda>_.
           writeAuditLog (rp_OrderID p) ''REFUND_FAILED'' ''admin'' [(''detail'', DE (Some gErr))]
             (Return (Inl (Wrapped ''REFUND_FAILED'' gErr))))))"

section \<open>Executing a refund\<close>

definition markRefundOk :: "RefundPlan \<Rightarrow> (pay_error + RefundResult) pay_prog" where
  "markRefundOk p =
     Do Clock (\<lambda>now. Do (UpdateOneOrder (rp_OrderID p) (mark_refunded (as_time now) p)) (\<lambda>r. case as_outcome r of
       Some e \<Rightarrow> Return (Inl (Wrapped ''mark refund'' e))
     | None \<Rightarrow>
         writeAuditLog (rp_OrderID p) ''REFUND_SUCCESS'' ''admin'' (refund_success_detail p) (Return (Inr (refund_success p)))))"

definition mark_refund_pending :: "RefundPlan \<Rightarrow> PaymentOrder \<Rightarrow> PaymentOrder" where
  "mark_refund_pending p r =
     r \<lparr> po_Status := OrderStatusRefundPending, po_RefundAmount := numeric2 (rp_RefundAmount p), po_RefundReason := Some (rp_Reason p),
         po_RefundAt := None, po_ForceRefund := rp_Force p, po_FailedAt := None, po_FailedReason := None \<rparr>"

definition pending_detail :: "RefundPlan \<Rightarrow> RefundPlan \<Rightarrow> RefundResponse \<Rightarrow> bool \<Rightarrow> (string \<times> detail) list" where
  "pending_detail p p' resp ok =
     [(''refundID'', DS (strings_TrimSpace (rr_RefundID resp))), (''refundAmount'', DN (Fin (rp_RefundAmount p))),
      (''reason'', DS (rp_Reason p)), (''force'', DB (rp_Force p)),
      (''balanceDeducted'', DN (Fin (rp_BalanceToDeduct p'))), (''subDaysDeducted'', DI (rp_SubDaysToDeduct p')),
      (''balanceRolledBack'', DN (Fin (rp_BalanceToDeduct p))), (''subDaysRolledBack'', DI (rp_SubDaysToDeduct p)),
      (''deductionRollbackOK'', DB ok)]"

definition markRefundPending :: "RefundPlan \<Rightarrow> RefundResponse \<Rightarrow> (pay_error + RefundResult) pay_prog" where
  "markRefundPending p resp =
     bind_prog (RollbackRefund p None) (\<lambda>ok.
       let p' = (if ok then p \<lparr> rp_BalanceToDeduct := 0, rp_SubDaysToDeduct := 0 \<rparr> else p)
       in Do (UpdateOneOrder (rp_OrderID p) (mark_refund_pending p)) (\<lambda>r. case as_outcome r of
            Some e \<Rightarrow> Return (Inl (Wrapped ''mark refund pending'' e))
          | None \<Rightarrow>
              writeAuditLog (rp_OrderID p) ''REFUND_PENDING'' ''admin'' (pending_detail p p' resp ok)
                (Return (Inr (refund_warning
                   (''gateway refund is pending confirmation'' @ (if ok then [] else ''; refund deduction rollback failed'')) None)))))"

definition validateRefundProviderResponse :: "RefundResponse option \<Rightarrow> pay_error option" where
  "validateRefundProviderResponse resp =
     (case resp of
        None \<Rightarrow> Some (Plain ''payment refund response missing'')
      | Some resp \<Rightarrow>
          let status = strings_TrimSpace (rr_Status resp)
          in if status \<in> set [''success'', ''refunded'', ''pending''] then None
             else if status = ''failed'' then Some (Plain (''payment refund failed: status '' @ status))
             else Some (Plain (''payment refund returned unknown status: '' @ status)))"

definition unknown_status :: "RefundResponse \<Rightarrow> pay_error" where
  "unknown_status resp = Plain (''payment refund returned unknown status: '' @ strings_TrimSpace (rr_Status resp))"

definition finishRefund :: "RefundPlan \<Rightarrow> RefundResponse \<Rightarrow> (pay_error + RefundResult) pay_prog" where
  "finishRefund p resp =
     (case validateRefundProviderResponse (Some resp) of
        Some e \<Rightarrow> handleGwFail p e
      | None \<Rightarrow>
          let status = strings_TrimSpace (rr_Status resp)
          in if status = ''success'' \<or> status = ''refunded'' then markRefundOk p
             else if status = ''pending'' then markRefundPending p resp
             else handleGwFail p (unknown_status resp))"

text \<open>The text of an amount has the digits of its currency; the model passes the number it shows.\<close>

definition formatGatewayRefundAmount :: "pay_env \<Rightarrow> rat \<Rightarrow> PaymentOrder \<Rightarrow> rat" where
  "formatGatewayRefundAmount E amount ord =
     dl_StringFixed (pe_decimal E) (CurrencyMaxFractionDigits (pe_upper E) (PaymentOrderCurrency (pe_upper E) ord)) amount"

definition gwRefund :: "pay_env \<Rightarrow> RefundPlan \<Rightarrow> (pay_error + RefundResponse) pay_prog" where
  "gwRefund E p =
     (let ord = rp_Order p
      in if po_PaymentTradeNo ord = [] then
           writeAuditLog (po_ID ord) ''REFUND_NO_TRADE_NO'' ''admin'' [(''detail'', DS ''skipped'')]
             (Return (Inr \<lparr> rr_RefundID = [], rr_Status = ''success'' \<rparr>))
         else bind_prog (getRefundProvider E ord) (\<lambda>prov. case prov of
           Inl e \<Rightarrow> Return (Inl (Wrapped ''get refund provider'' e))
         | Inr prov \<Rightarrow>
             (case validateProviderSnapshotMetadata (pe_fold E) (pe_upper E) ord (pv_Key prov) (pv_Identity prov) of
                Some e \<Rightarrow>
                  writeAuditLog (po_ID ord) ''REFUND_PROVIDER_METADATA_MISMATCH'' ''admin'' [(''detail'', DE (Some e))]
                    (Return (Inl e))
              | None \<Rightarrow>
                  Do (RefundAtProvider (po_PaymentTradeNo ord) (po_OutTradeNo ord)
                       (formatGatewayRefundAmount E (rp_GatewayAmount p) ord) (rp_Reason p)) (\<lambda>r.
                    case as_refund r of
                      (resp, True) \<Rightarrow>
                        (case resp of
                           Some resp \<Rightarrow>
                             if strings_TrimSpace (rr_Status resp) = ''pending'' then Return (Inr resp)
                             else Return (Inl (Plain ''refund''))
                         | None \<Rightarrow> Return (Inl (Plain ''refund'')))
                    | (resp, False) \<Rightarrow>
                        (case validateRefundProviderResponse resp of
                           Some e \<Rightarrow> Return (Inl e)
                         | None \<Rightarrow> (case resp of Some resp \<Rightarrow> Return (Inr resp) | None \<Rightarrow> Return (Inl (Plain ''refund'')))))))) "

definition deduct_balance :: "RefundPlan \<Rightarrow> (pay_error + RefundPlan) pay_prog" where
  "deduct_balance p =
     (if rp_DeductionType p = DeductionTypeBalance \<and> 0 < rp_BalanceToDeduct p then
        bind_prog (hasAuditLog (rp_OrderID p) ''REFUND_ROLLBACK_FAILED'') (\<lambda>has.
          if has then Return (Inr (p \<lparr> rp_BalanceToDeduct := 0 \<rparr>))
          else Do (DeductAvailable (po_UserID (rp_Order p)) (rp_BalanceToDeduct p)) (\<lambda>r. case as_amount r of
            Inl e \<Rightarrow> restoreStatus p (Return (Inl (Wrapped ''deduction'' e)))
          | Inr deducted \<Rightarrow> Return (Inr (p \<lparr> rp_BalanceToDeduct := deducted \<rparr>))))
      else Return (Inr p))"

definition deduct_subscription :: "RefundPlan \<Rightarrow> (pay_error + RefundPlan) pay_prog" where
  "deduct_subscription p =
     (if rp_DeductionType p = DeductionTypeSubscription \<and> 0 < rp_SubDaysToDeduct p \<and> 0 < rp_SubscriptionID p then
        bind_prog (hasAuditLog (rp_OrderID p) ''REFUND_ROLLBACK_FAILED'') (\<lambda>has.
          if has then Return (Inr (p \<lparr> rp_SubDaysToDeduct := 0 \<rparr>))
          else bind_prog (extend_subscription (rp_SubscriptionID p) (- rp_SubDaysToDeduct p)) (\<lambda>e. case e of
            None \<Rightarrow> Return (Inr p)
          | Some e \<Rightarrow>
              if e = would_expire then
                bind_prog (revoke_subscription (rp_SubscriptionID p)) (\<lambda>e. case e of
                  None \<Rightarrow> Return (Inr p)
                | Some e \<Rightarrow> restoreStatus p (Return (Inl (Wrapped ''revoke subscription'' e))))
              else restoreStatus p (Return (Inl (Wrapped ''deduct subscription days'' e)))))
      else Return (Inr p))"

definition refund_lockable :: "int \<Rightarrow> PaymentOrder \<Rightarrow> bool" where
  "refund_lockable i r \<longleftrightarrow> po_ID r = i \<and> po_Status r \<in> set refundable"

definition ExecuteRefund :: "pay_env \<Rightarrow> RefundPlan \<Rightarrow> (pay_error + RefundResult) pay_prog" where
  "ExecuteRefund E p =
     Do (UpdateOrders (refund_lockable (rp_OrderID p)) (\<lambda>r. r \<lparr> po_Status := OrderStatusRefunding \<rparr>)) (\<lambda>r. case as_count r of
       Inl e \<Rightarrow> Return (Inl (Wrapped ''lock'' (Fault e)))
     | Inr c \<Rightarrow>
         if c = 0 then Return (Inl (pay_Conflict ''CONFLICT'' ''order status changed''))
         else bind_prog (deduct_balance p) (\<lambda>d. case d of
           Inl e \<Rightarrow> Return (Inl e)
         | Inr p \<Rightarrow>
             bind_prog (deduct_subscription p) (\<lambda>d. case d of
               Inl e \<Rightarrow> Return (Inl e)
             | Inr p \<Rightarrow>
                 bind_prog (gwRefund E p) (\<lambda>g. case g of
                   Inl e \<Rightarrow> handleGwFail p e
                 | Inr resp \<Rightarrow> finishRefund p resp))))"

section \<open>Finalising a pending refund\<close>

definition finalizeRefundFailed :: "PaymentOrder \<Rightarrow> pay_error \<Rightarrow> (pay_error + RefundResult) pay_prog" where
  "finalizeRefundFailed ord gErr =
     Do Clock (\<lambda>now. Do (UpdateOneOrder (po_ID ord) (mark_refund_failed (as_time now) gErr)) (\<lambda>_.
       writeAuditLog (po_ID ord) ''REFUND_FAILED'' ''admin'' [(''detail'', DE (Some gErr))]
         (Return (Inr (refund_warning ''gateway refund failed'' (Some gErr))))))"

text \<open>The identifier of the refund and whether the deduction was rolled back, as the audit row has them.\<close>

definition latestRefundPendingDetail :: "int \<Rightarrow> (string \<times> bool) pay_prog" where
  "latestRefundPendingDetail oid =
     Do (LastAudit oid ''REFUND_PENDING'') (\<lambda>r. Return (case as_audit r of
       Inl _ \<Rightarrow> ([], True)
     | Inr a \<Rightarrow>
         (strings_TrimSpace (case map_of (au_Detail a) ''refundID'' of Some (DS s) \<Rightarrow> s | _ \<Rightarrow> []),
          (case map_of (au_Detail a) ''deductionRollbackOK'' of Some (DB b) \<Rightarrow> b | _ \<Rightarrow> True))))"

definition refundFinalizePlan :: "pay_env \<Rightarrow> PaymentOrder \<Rightarrow> RefundPlan" where
  "refundFinalizePlan E ord =
     (let reason = strings_TrimSpace (psStringValue (po_RefundReason ord))
      in \<lparr> rp_OrderID = po_ID ord, rp_Order = ord, rp_RefundAmount = po_RefundAmount ord,
           rp_GatewayAmount = calculateGatewayRefundAmount (pe_decimal E) (pe_upper E) (po_Amount ord) (po_PayAmount ord) (po_RefundAmount ord)
             (PaymentOrderCurrency (pe_upper E) ord),
           rp_Reason = (if reason = [] then ''refund order:'' @ strconv_FormatInt (po_ID ord) else reason),
           rp_Force = po_ForceRefund ord, rp_DeductBalance = True, rp_DeductionType = DeductionTypeBalance,
           rp_BalanceToDeduct = (if po_OrderType ord = OrderTypeBalance then po_RefundAmount ord else 0),
           rp_SubDaysToDeduct = 0, rp_SubscriptionID = 0 \<rparr>)"

definition finalize_response :: "PaymentOrder \<Rightarrow> RefundPlan \<Rightarrow> RefundResponse \<Rightarrow> (pay_error + RefundResult) pay_prog" where
  "finalize_response ord p resp =
     (let status = strings_TrimSpace (rr_Status resp)
      in if status = ''success'' \<or> status = ''refunded'' then Do (FinalizeRefund_tx p) (\<lambda>r. Return (as_result r))
         else if status = ''pending''
         then writeAuditLog (po_ID ord) ''REFUND_QUERY_PENDING'' ''admin'' [(''refundID'', DS (rr_RefundID resp))]
                (Return (Inr (refund_warning ''gateway refund is still pending confirmation'' None)))
         else finalizeRefundFailed ord (unknown_status resp))"

text \<open>
  \<open>QueryAndFinalizeRefund\<close> after the provider has answered: the response, whether the call failed, and
  \<open>rolledBack\<close> from the audit row.
\<close>

definition refund_answer ::
  "pay_env \<Rightarrow> PaymentOrder \<Rightarrow> bool \<Rightarrow> RefundResponse option \<Rightarrow> bool \<Rightarrow> (pay_error + RefundResult) pay_prog" where
  "refund_answer E ord rolledBack answer failed =
     (if failed then Return (Inl (Plain ''query refund''))
      else case answer of
        None \<Rightarrow> finalizeRefundFailed ord (Plain ''payment refund response missing'')
      | Some resp \<Rightarrow>
          (case validateRefundProviderResponse (Some resp) of
             Some e \<Rightarrow> finalizeRefundFailed ord e
           | None \<Rightarrow>
               let plan = refundFinalizePlan E ord
               in if \<not> rolledBack
                  then finalize_response ord (plan \<lparr> rp_BalanceToDeduct := 0, rp_SubDaysToDeduct := 0 \<rparr>) resp
                  else if po_OrderType ord = OrderTypeSubscription
                  then bind_prog (prepDeduct ord plan True) (\<lambda>d. case d of
                         Inl early \<Rightarrow> Return (Inr early) | Inr plan \<Rightarrow> finalize_response ord plan resp)
                  else finalize_response ord plan resp))"

definition query_refund :: "pay_env \<Rightarrow> PaymentOrder \<Rightarrow> (pay_error + RefundResult) pay_prog" where
  "query_refund E ord =
     bind_prog (getRefundProvider E ord) (\<lambda>prov. case prov of
       Inl e \<Rightarrow> Return (Inl (Wrapped ''get refund provider'' e))
     | Inr prov \<Rightarrow>
         if \<not> pv_QueriesRefunds prov
         then Return (Inl (pay_BadRequest ''REFUND_QUERY_UNSUPPORTED''
                ''this payment provider does not support refund status query; please verify manually''))
         else bind_prog (latestRefundPendingDetail (po_ID ord)) (\<lambda>detail.
           Do (QueryRefundAtProvider (po_PaymentTradeNo ord) (po_OutTradeNo ord) (fst detail)
                (formatGatewayRefundAmount E (po_RefundAmount ord) ord)) (\<lambda>r.
             refund_answer E ord (snd detail) (fst (as_refund r)) (snd (as_refund r)))))"

definition QueryAndFinalizeRefund :: "pay_env \<Rightarrow> int \<Rightarrow> (pay_error + RefundResult) pay_prog" where
  "QueryAndFinalizeRefund E oid =
     Do (GetOrder oid) (\<lambda>r. case as_order r of
       Inl _ \<Rightarrow> Return (Inl (pay_NotFound ''NOT_FOUND'' ''order not found''))
     | Inr ord \<Rightarrow>
         if po_Status ord \<noteq> OrderStatusRefundPending
         then Return (Inl (pay_BadRequest ''INVALID_STATUS'' ''only refund pending orders can be finalized''))
         else query_refund E ord)"

section \<open>The handler of the administrator\<close>

definition ProcessRefund :: "pay_env \<Rightarrow> int \<Rightarrow> gofloat \<Rightarrow> string \<Rightarrow> bool \<Rightarrow> bool \<Rightarrow> (pay_error + RefundResult) pay_prog" where
  "ProcessRefund E oid amt reason force deduct =
     bind_prog (PrepareRefund E oid amt reason force deduct) (\<lambda>res. case res of
       Inl e \<Rightarrow> Return (Inl e)
     | Inr (Inl early) \<Rightarrow> Return (Inr early)
     | Inr (Inr plan) \<Rightarrow> ExecuteRefund E plan)"

end
