(* ===== verification/Payment_Triples.thy ===== *)
theory Payment_Triples
  imports Payment_Commands Payment_Refund
begin

text \<open>
  Reasoning about the programs of the payment service under interference. The invariant and the
  relation of \<open>Payment_Invariant\<close> interpret the locale \<open>interference\<close>; the rules below are those of its
  triples for the commands of the service, so that the triple of a program follows its text.
  \<open>harmless\<close> programs issue only commands that keep the invariant in every state.
\<close>

section \<open>Triples\<close>

interpretation pay: interference "pay_exec E" "pay_ok strict" pay_evolves for E strict
  by unfold_locales (simp, rule pay_evolves_trans)

abbreviation ptriple :: "pay_env \<Rightarrow> bool \<Rightarrow> (pay_db \<Rightarrow> bool) \<Rightarrow> 'a pay_prog \<Rightarrow> (pay_db \<Rightarrow> 'a \<Rightarrow> bool) \<Rightarrow> bool" where
  "ptriple E strict \<equiv> triple (pay_exec E) (pay_ok strict) pay_evolves"

abbreviation pstable :: "(pay_db \<Rightarrow> bool) \<Rightarrow> bool" where
  "pstable \<equiv> stable pay_evolves"

text \<open>The rule for a command: its condition, and what its reply tells.\<close>

lemma p_Do:
  assumes "pstable P" and "\<And>s. pay_ok strict s \<Longrightarrow> P s \<Longrightarrow> command_ok strict c s"
    and "\<And>s inp r s2. pay_ok strict s \<Longrightarrow> P s \<Longrightarrow> pay_exec E inp c s = (r, s2) \<Longrightarrow> pay_ok strict s2 \<Longrightarrow> pay_evolves s s2 \<Longrightarrow> P s2 \<Longrightarrow> P' r s2"
    and "\<And>r. ptriple E strict (P' r) (k r) Q"
  shows "ptriple E strict P (Do c k) Q"
proof (rule pay.triple_Do [OF assms(1) _ assms(4)])
  fix s inp r s2
  assume s: "pay_ok strict s" "P s" "pay_exec E inp c s = (r, s2)"
  have "kept strict s s2" by (rule exec_ok [OF s(1) assms(2) [OF s(1,2)] s(3)])
  then have k: "pay_ok strict s2" "pay_evolves s s2" by (simp_all add: kept_def)
  then show "pay_ok strict s2 \<and> pay_evolves s s2 \<and> P' r s2"
    using assms(3) [OF s k stableD [OF assms(1) s(2) k(2)]] by simp
qed

lemmas p_Return = pay.triple_Return

section \<open>Programs without conditions\<close>

text \<open>A command that keeps the invariant in every state, and a program of such commands.\<close>

definition free_command :: "pay_cmd \<Rightarrow> bool" where
  "free_command c \<longleftrightarrow> (\<forall>strict db. command_ok strict c db)"

primrec harmless :: "'a pay_prog \<Rightarrow> bool" where
  "harmless (Return a) = True"
| "harmless (Do c k) = (free_command c \<and> (\<forall>r. harmless (k r)))"

named_theorems harmless_programs

lemma harmless_bind [harmless_programs]:
  "harmless p \<Longrightarrow> (\<And>a. harmless (f a)) \<Longrightarrow> harmless (bind_prog p f)"
  by (induction p) auto

lemma free_commands [simp]:
  "free_command Clock" "free_command (GetOrder i)" "free_command (FindOrder tn)" "free_command (QueryOrders c)"
  "free_command (AddAudit i action op d)" "free_command (CountAudits i acts)" "free_command (LastAudit i action)"
  "free_command (GetCode x)" "free_command (GetCodeByID i)" "free_command (GetUser i)" "free_command (DeductAvailable i q)"
  "free_command (AddBalance i q)" "free_command (Accrue_tx i q)" "free_command (GetGroup i)"
  "free_command (GetActiveSub i j)" "free_command (GetSub i)"
  "free_command (ExtendSub i t)" "free_command (SetSubStatus i s)" "free_command (DeleteSub i)" "free_command (GetInstance i)"
  "free_command (QueryInstances d')" "free_command (FinalizeRefund_tx p)" "free_command (RedeemAttempts i)"
  "free_command (AcquireRedeemLock x)" "free_command (ReleaseRedeemLock x)" "free_command (CountRedeemError i)"
  "free_command (InvalidateSubCaches i j)" "free_command (MakeProvider y)" "free_command (RegistryProvider x)"
  "free_command (QueryProvider x)" "free_command (CancelProvider x)" "free_command (RefundAtProvider x y' q z)"
  "free_command (QueryRefundAtProvider x y' z q)"
  by (simp_all add: free_command_def command_ok_def)

lemma free_ok: "free_command c \<Longrightarrow> command_ok strict c db"
  by (simp add: free_command_def)

lemma p_free:
  assumes "free_command c" and "pstable P" and "\<And>r. ptriple E strict P (k r) Q"
  shows "ptriple E strict P (Do c k) Q"
  by (rule p_Do [OF assms(2) _ _ assms(3)]) (simp_all add: free_ok assms(1))

lemma p_harmless:
  assumes "harmless p" and "pstable P"
  shows "ptriple E strict P p (\<lambda>s a. P s)"
  using assms(1)
proof (induction p)
  case (Return a)
  show ?case by (rule p_Return [OF assms(2)])
next
  case (Do c k)
  then show ?case by (intro p_free assms(2)) auto
qed

lemma p_harmless_then:
  assumes "harmless p" and "pstable P" and "\<And>a. ptriple E strict P (f a) Q"
  shows "ptriple E strict P (bind_prog p f) Q"
  by (rule pay.triple_bind [OF p_harmless [OF assms(1,2)] assms(3)])

lemma p_audit:
  assumes "pstable P" and "ptriple E strict P next Q"
  shows "ptriple E strict P (writeAuditLog oid action op d next) Q"
  unfolding writeAuditLog_def by (rule p_free) (simp_all add: assms)

lemma harmless_audit [harmless_programs]: "harmless next \<Longrightarrow> harmless (writeAuditLog oid action op d next)"
  by (simp add: writeAuditLog_def)

lemma harmless_hasAudit [harmless_programs]: "harmless (hasAuditLog oid action)"
  by (simp add: hasAuditLog_def)

lemma harmless_snapshot [harmless_programs]: "harmless (resolveSnapshotOrderProviderInstance E ord sn)"
  by (simp add: resolveSnapshotOrderProviderInstance_def Let_def split: option.split sum.split db_fault.split)

lemma harmless_legacy [harmless_programs]: "harmless (resolveUniqueLegacyOrderProviderInstance ord)"
  by (simp add: resolveUniqueLegacyOrderProviderInstance_def Let_def split: sum.split)

lemma harmless_instance [harmless_programs]: "harmless (getOrderProviderInstance E ord)"
  by (simp add: getOrderProviderInstance_def Let_def harmless_programs split: option.split sum.split)

lemma code_known: "code \<in> set (pd_codes db) \<Longrightarrow> known_code code db"
  unfolding known_code_def using code_same_refl by blast

lemma order_known: "ord \<in> set (pd_orders db) \<Longrightarrow> known_order ord db"
  unfolding known_order_def using order_same_refl by blast

section \<open>Replies\<close>

lemma statement_reply: "pay_statement f db x = (r, db') \<Longrightarrow> r = RFault StatementLost \<or> x = (r, db')"
  by (cases f) (auto simp: pay_statement_def)

lemma order_reply:
  assumes "pay_exec E inp (GetOrder i) db = (r, db')" and "as_order r = Inr ord"
  shows "db' = db \<and> ord \<in> set (pd_orders db) \<and> po_ID ord = i"
proof -
  from assms have "find_order i db = Some ord" "db' = db"
    by (auto simp: pay_read_def as_order_def dest!: statement_reply split: option.splits pay_reply.splits)
  then show ?thesis using find_SomeD [of "\<lambda>r. po_ID r = i" "pd_orders db" ord] by (simp add: find_order_def)
qed

lemma code_reply:
  assumes "pay_exec E inp (GetCode c) db = (r, db')" and "as_code r = Inr code"
  shows "db' = db \<and> code \<in> set (pd_codes db) \<and> rc_Code code = c"
proof -
  from assms have "find_code c db = Some code" "db' = db"
    by (auto simp: pay_read_def as_code_def dest!: statement_reply split: option.splits pay_reply.splits)
  then show ?thesis using find_SomeD [of "\<lambda>r. rc_Code r = c" "pd_codes db" code] by (simp add: find_code_def)
qed

lemma outcome_done: "as_outcome r = None \<longleftrightarrow> r = RDone"
  by (cases r) (simp_all add: as_outcome_def)

lemma use_reply:
  assumes "pay_exec E inp (UseCode_tx code u) db = (r, db')" and "as_outcome r = None"
  shows "use_code_tx (in_clock inp) code u db = Inr db'"
  using assms by (auto simp: outcome_done pay_tx_def map_sum_Inr dest!: statement_reply split: sum.splits)

lemma assign_reply:
  assumes "pay_exec E inp (AssignSubscription_tx ord g days) db = (r, db')" and "as_outcome r = None"
  shows "assign_subscription_tx (in_clock inp) ord g days db = Inr db'"
  using assms by (auto simp: outcome_done pay_tx_def map_sum_Inr dest!: statement_reply split: sum.splits)

lemma update_reply:
  assumes "pay_exec E inp (UpdateOrders c u) db = (r, db')" and "as_count r = Inr n" and "n \<noteq> 0"
  shows "\<exists>x \<in> set (pd_orders db). c x"
  using assms by (auto simp: as_count_def filter_empty_conv dest!: statement_reply split: pay_reply.splits)

lemma audits_reply:
  assumes "pay_exec E inp (CountAudits i acts) db = (r, db')" and "as_count r = Inr n" and "0 < n"
  shows "db' = db \<and> has_audit i acts db"
  using assms by (auto simp: as_count_def dest!: statement_reply split: pay_reply.splits if_splits)


text \<open>What a program knows after it has read an order.\<close>

definition order_facts :: "bool \<Rightarrow> int \<Rightarrow> PaymentOrder \<Rightarrow> pay_db \<Rightarrow> bool" where
  "order_facts strict i ord s \<longleftrightarrow>
     known_order ord s \<and> po_ID ord = i \<and> (settled_status (po_Status ord) \<longrightarrow> settled i s) \<and>
     (active (po_Status ord) \<longrightarrow> paid_order strict i s)"

lemma order_facts_stable [stables]: "pstable (order_facts strict i ord)"
  unfolding order_facts_def by (intro stables)

lemma order_facts_read:
  assumes "pay_ok strict s" and "ord \<in> set (pd_orders s)" and "po_ID ord = i"
  shows "order_facts strict i ord s"
  using assms order_settled [OF assms(1,2)] order_paid [OF assms(1,2)] by (simp add: order_facts_def order_known)

lemma p_order:
  assumes "pstable P" and "\<And>r e. as_order r = Inl e \<Longrightarrow> ptriple E strict P (k r) Q"
    and "\<And>r ord. as_order r = Inr ord \<Longrightarrow> ptriple E strict (\<lambda>s. P s \<and> order_facts strict i ord s) (k r) Q"
  shows "ptriple E strict P (Do (GetOrder i) k) Q"
proof (rule p_Do [where P' = "\<lambda>r s. P s \<and> (case as_order r of Inl e \<Rightarrow> True | Inr ord \<Rightarrow> order_facts strict i ord s)", OF assms(1)])
  show "ptriple E strict (\<lambda>s. P s \<and> (case as_order r of Inl e \<Rightarrow> True | Inr ord \<Rightarrow> order_facts strict i ord s)) (k r) Q" for r
    using assms(2,3) by (cases "as_order r") simp_all
  fix s inp r s2
  assume s: "pay_ok strict s2" "pay_exec E inp (GetOrder i) s = (r, s2)" "P s2"
  then show "P s2 \<and> (case as_order r of Inl e \<Rightarrow> True | Inr ord \<Rightarrow> order_facts strict i ord s2)"
    using order_reply [OF s(2)] order_facts_read [OF s(1)] by (auto split: sum.split)
qed (simp_all add: free_ok)

section \<open>Cases\<close>

lemma p_sum:
  "(\<And>e. x = Inl e \<Longrightarrow> ptriple E strict P (f e) Q) \<Longrightarrow> (\<And>v. x = Inr v \<Longrightarrow> ptriple E strict P (g v) Q) \<Longrightarrow>
    ptriple E strict P (case x of Inl e \<Rightarrow> f e | Inr v \<Rightarrow> g v) Q"
  by (simp split: sum.split)

lemma p_option:
  "(x = None \<Longrightarrow> ptriple E strict P f Q) \<Longrightarrow> (\<And>v. x = Some v \<Longrightarrow> ptriple E strict P (g v) Q) \<Longrightarrow>
    ptriple E strict P (case x of None \<Rightarrow> f | Some v \<Rightarrow> g v) Q"
  by (simp split: option.split)

lemma p_if: "(b \<Longrightarrow> ptriple E strict P f Q) \<Longrightarrow> (\<not> b \<Longrightarrow> ptriple E strict P g Q) \<Longrightarrow> ptriple E strict P (if b then f else g) Q"
  by simp

lemma p_fault:
  "ptriple E strict P a Q \<Longrightarrow> ptriple E strict P b Q \<Longrightarrow> ptriple E strict P c Q \<Longrightarrow> ptriple E strict P d Q \<Longrightarrow>
    ptriple E strict P (case e of RowNotFound \<Rightarrow> a | NotSingular \<Rightarrow> b | ConstraintViolation \<Rightarrow> c | StatementLost \<Rightarrow> d) Q"
  by (simp split: db_fault.split)

lemmas p_cases = p_sum p_option p_if p_fault

text \<open>A program that needs no more than its harmless commands, with a result that follows from what is known.\<close>

lemma p_keep:
  assumes "harmless p" and "pstable P" and "\<And>s a. pay_ok strict s \<Longrightarrow> P s \<Longrightarrow> Q s a"
  shows "ptriple E strict P p Q"
  by (rule pay.triple_conseq [OF p_harmless [OF assms(1,2)]]) (use assms(3) in simp_all)

end
