(* ===== verification/Payment_Granting.thy ===== *)
theory Payment_Granting
  imports Payment_Triples
begin

text \<open>
  The programs that grant something: redeeming a code, recharging a balance and assigning a
  subscription under the lease of the order. Each is shown to keep the invariant of the tables in
  any interleaving; the triples say what the program knows when it ends.
\<close>

section \<open>Redeem codes\<close>

lemma harmless_reload [harmless_programs]: "harmless (reload_code i)"
  by (simp add: reload_code_def split: sum.split)

abbreviation redeemed :: "string \<Rightarrow> pay_db \<Rightarrow> 'a + 'b \<Rightarrow> bool" where
  "redeemed c \<equiv> (\<lambda>s res. isl res \<or> code_used c s)"

lemma p_use_code:
  assumes "pstable P" and "\<And>s. P s \<Longrightarrow> known_code code s \<and> may_redeem u (rc_Code code) s"
    and "\<And>r. ptriple E strict (\<lambda>s. P s \<and> (as_outcome r = None \<longrightarrow> code_used (rc_Code code) s)) (k r) Q"
  shows "ptriple E strict P (Do (UseCode_tx code u) k) Q"
proof (rule p_Do [OF assms(1) _ _ assms(3)])
  show "command_ok strict (UseCode_tx code u) s" if "P s" for s using assms(2) [OF that] by (simp add: command_ok_def)
  fix s inp r s2
  assume s: "pay_ok strict s" "P s" "pay_exec E inp (UseCode_tx code u) s = (r, s2)" "P s2"
  then show "P s2 \<and> (as_outcome r = None \<longrightarrow> code_used (rc_Code code) s2)"
    using pay_ok_use_code [OF s(1) use_reply [OF s(3)]] assms(2) [OF s(2)] by simp
qed

lemma redeem_apply_triple:
  "ptriple E strict (\<lambda>s. known_code code s \<and> may_redeem u (rc_Code code) s) (redeem_apply skip u code) (redeemed (rc_Code code))"
  unfolding redeem_apply_def
  by (intro p_free p_cases p_use_code p_Return stables) (auto intro!: p_keep stables simp: harmless_programs)

lemma p_code:
  assumes "pstable P" and "\<And>r e. as_code r = Inl e \<Longrightarrow> ptriple E strict P (k r) Q"
    and "\<And>r code. as_code r = Inr code \<Longrightarrow> rc_Code code = c \<Longrightarrow>
      ptriple E strict (\<lambda>s. P s \<and> known_code code s \<and> (IsUsed code \<longrightarrow> code_used c s)) (k r) Q"
  shows "ptriple E strict P (Do (GetCode c) k) Q"
proof (rule p_Do [where P' = "\<lambda>r s. P s \<and> (case as_code r of Inl e \<Rightarrow> True
    | Inr code \<Rightarrow> rc_Code code = c \<and> known_code code s \<and> (IsUsed code \<longrightarrow> code_used c s))", OF assms(1)])
  show "ptriple E strict (\<lambda>s. P s \<and> (case as_code r of Inl e \<Rightarrow> True
    | Inr code \<Rightarrow> rc_Code code = c \<and> known_code code s \<and> (IsUsed code \<longrightarrow> code_used c s))) (k r) Q" for r
  proof (cases "as_code r")
    case (Inl e)
    then show ?thesis using assms(2) by simp
  next
    case (Inr code)
    show ?thesis
    proof (cases "rc_Code code = c")
      case True
      then show ?thesis using assms(3) [OF Inr] Inr by simp
    next
      case False
      then show ?thesis using Inr by (simp add: triple_def)
    qed
  qed
  fix s inp r s2
  assume s: "pay_exec E inp (GetCode c) s = (r, s2)" "P s2"
  then show "P s2 \<and> (case as_code r of Inl e \<Rightarrow> True
      | Inr code \<Rightarrow> rc_Code code = c \<and> known_code code s2 \<and> (IsUsed code \<longrightarrow> code_used c s2))"
    using code_reply [OF s(1)] by (auto simp: code_known code_used_def split: sum.split)
qed (simp_all add: free_ok)

lemma redeem_locked_triple: "ptriple E strict (may_redeem u c) (redeem_locked skip u c) (redeemed c)"
proof -
  have app: "ptriple E strict (\<lambda>s. may_redeem u (rc_Code code) s \<and> known_code code s \<and> (IsUsed code \<longrightarrow> code_used (rc_Code code) s))
      (redeem_apply skip u code) (redeemed (rc_Code code))" for code
    by (rule pay.triple_conseq [OF redeem_apply_triple]) simp_all
  show ?thesis
    unfolding redeem_locked_def
    by (intro p_code) (auto intro!: p_cases p_free p_Return stables app)
qed

lemma Redeem_triple: "ptriple E strict (may_redeem u c) (Redeem skip u c) (redeemed c)"
proof -
  have "ptriple E strict (may_redeem u c) (bind_prog (redeem_locked skip u c) (\<lambda>res. Do (ReleaseRedeemLock c) (\<lambda>_. Return res))) (redeemed c)"
    by (intro pay.triple_bind [OF redeem_locked_triple]) (intro p_free p_Return stables; simp)
  then show ?thesis unfolding Redeem_def by (intro p_free p_if) (auto intro!: p_Return stables)
qed


section \<open>Fulfillment\<close>

lemma p_update:
  assumes "pstable P"
    and "\<And>s r t. pay_ok strict s \<Longrightarrow> P s \<Longrightarrow> r \<in> set (pd_orders s) \<Longrightarrow> c r \<Longrightarrow> status_allowed strict s r (u (r \<lparr> po_UpdatedAt := t \<rparr>))"
    and "\<And>r. ptriple E strict P (k r) Q"
  shows "ptriple E strict P (Do (UpdateOrders c u) k) Q"
  by (rule p_Do [OF assms(1) _ _ assms(3)]) (simp_all add: command_ok_def assms(2))

lemma p_update_one:
  assumes "pstable P"
    and "\<And>s r t. pay_ok strict s \<Longrightarrow> P s \<Longrightarrow> r \<in> set (pd_orders s) \<Longrightarrow> po_ID r = i \<Longrightarrow> status_allowed strict s r (u (r \<lparr> po_UpdatedAt := t \<rparr>))"
    and "\<And>r. ptriple E strict P (k r) Q"
  shows "ptriple E strict P (Do (UpdateOneOrder i u) k) Q"
  by (rule p_Do [OF assms(1) _ _ assms(3)]) (simp_all add: command_ok_def assms(2))

lemmas allowed_defs = status_allowed_def order_same_def settled_status_def active_def

lemma acquire_triple: "ptriple E strict (\<lambda>s. True) (acquirePaymentFulfillmentLease ord) (\<lambda>s a. True)"
  unfolding acquirePaymentFulfillmentLease_def Let_def
  by (intro p_free p_update p_cases p_Return stables) (auto simp: lease_free_def claim_lease_def allowed_defs)

lemma markFailed_triple: "ptriple E strict (\<lambda>s. True) (markFailed oid version cause) (\<lambda>s a. True)"
  unfolding markFailed_def
  by (intro p_free p_update p_cases p_audit p_Return stables) (auto simp: leased_def allowed_defs)

lemma harmless_completed [harmless_programs]:
  "harmless (bind_prog (hasAuditLog oid action) (\<lambda>has. if has then Return a else writeAuditLog oid action op d (Return b)))"
  by (intro harmless_bind) (simp_all add: harmless_programs)

lemma markCompleted_triple: "ptriple E strict (settled (po_ID ord)) (markCompleted ord version action) (\<lambda>s a. True)"
  unfolding markCompleted_def
  by (intro p_free p_update p_cases p_harmless_then p_audit p_Return stables)
    (auto simp: leased_def allowed_defs harmless_programs)


subsection \<open>Balance orders\<close>

text \<open>What is known of an order under fulfillment.\<close>

abbreviation payable_order :: "bool \<Rightarrow> PaymentOrder \<Rightarrow> pay_db \<Rightarrow> bool" where
  "payable_order strict ord \<equiv> (\<lambda>s. known_order ord s \<and> paid_order strict (po_ID ord) s)"

lemma known_order_row:
  assumes "known_order ord s"
  obtains r where "r \<in> set (pd_orders s)" "order_same ord r"
  using assms by (auto simp: known_order_def)

lemma known_recharge_code:
  assumes "pay_ok strict s" and "known_order ord s"
  shows "po_RechargeCode ord \<noteq> [] \<and> strings_TrimSpace (po_RechargeCode ord) = po_RechargeCode ord"
proof -
  obtain r where r: "r \<in> set (pd_orders s)" "order_same ord r" by (rule known_order_row [OF assms(2)])
  have "order_ok strict s r" using assms(1) r(1) by (simp add: pay_ok_def)
  then show ?thesis using r(2) by (simp add: order_ok_def order_same_def)
qed

lemma known_code_owner:
  assumes "pay_ok strict s" and "known_order ord s" and "r \<in> set (pd_orders s)" and "po_RechargeCode r = po_RechargeCode ord"
  shows "order_same ord r"
proof -
  obtain x where x: "x \<in> set (pd_orders s)" "order_same ord x" by (rule known_order_row [OF assms(2)])
  then have "r = x" using order_of_code [OF assms(1,3)] assms(4) by (simp add: order_same_def)
  then show ?thesis using x by simp
qed

lemma known_may_redeem:
  assumes "pay_ok strict s" and "known_order ord s"
  shows "may_redeem (po_UserID ord) (po_RechargeCode ord) s"
  using known_code_owner [OF assms] by (simp add: may_redeem_def order_same_def)

lemma used_settles:
  assumes "pay_ok strict s" and "known_order ord s" and "not_subscription (po_ID ord) s" and "code_used (po_RechargeCode ord) s"
  shows "settled (po_ID ord) s"
  unfolding settled_def
proof (intro ballI impI)
  fix r
  assume r: "r \<in> set (pd_orders s)" "po_ID r = po_ID ord"
  have "po_RechargeCode r = po_RechargeCode ord" using known_order_eq [OF assms(1,2) r] by (simp add: order_same_def)
  moreover have "po_OrderType r \<noteq> OrderTypeSubscription" using r assms(3) by (simp add: not_subscription_def)
  ultimately show "fulfilled s r" using assms(4) by (simp add: fulfilled_def)
qed

lemma audit_settles:
  assumes "pay_ok strict s" and "subscription_order i s" and "has_audit i assignment_audits s"
  shows "settled i s"
  using assms(2,3) by (simp add: settled_def fulfilled_def subscription_order_def)

lemma CreateCode_triple:
  "ptriple E strict (payable_order strict ord) (CreateCode (recharge_code ord)) (\<lambda>s a. payable_order strict ord s)"
proof -
  let ?c = "recharge_code ord \<lparr> rc_Code := strings_TrimSpace (po_RechargeCode ord) \<rparr>"
  have ins: "ptriple E strict (payable_order strict ord) (Do (InsertCode ?c) (\<lambda>r. Return (f r))) (\<lambda>s a. payable_order strict ord s)" for f :: "pay_reply \<Rightarrow> pay_error option"
  proof (rule p_Do [where P' = "\<lambda>r. payable_order strict ord"])
    show "pstable (payable_order strict ord)" by (intro stables)
    fix s
    assume s: "pay_ok strict s" "payable_order strict ord s"
    have "rc_Value (recharge_code ord) = po_Amount r \<and> paid strict r"
      if r: "r \<in> set (pd_orders s)" "po_RechargeCode r = po_RechargeCode ord" for r
    proof -
      have "order_same ord r" using known_code_owner [OF s(1) _ r] s(2) by simp
      then show ?thesis using s(2) r(1) by (simp add: order_same_def paid_order_def recharge_code_def)
    qed
    then show "command_ok strict (InsertCode ?c) s"
      using known_recharge_code [OF s(1)] s(2) by (simp add: command_ok_def recharge_code_def IsUsed_def)
  qed (auto intro!: p_Return stables)
  have "CreateCode (recharge_code ord) =
      (if strings_TrimSpace (po_RechargeCode ord) = [] then Return (Some (Plain ''code is required''))
       else if po_Amount ord = 0 then Return (Some (Plain ''value must not be zero''))
       else Do Clock (\<lambda>now. if IsExpiredAt (as_time now) ?c then Return (Some ErrRedeemCodeExpired)
         else Do (InsertCode ?c) (\<lambda>r. Return (map_option (Wrapped ''create redeem code'') (as_outcome r)))))"
    by (simp add: CreateCode_def Let_def recharge_code_def cong: if_cong)
  then show ?thesis using ins by (auto intro!: p_if p_Return stables p_free [of Clock])
qed

text \<open>The rebate of the inviter rests on a payment of the order.\<close>

lemma p_rebate:
  assumes "pstable P" and "\<And>s. P s \<Longrightarrow> paid_order strict (po_ID ord) s"
  shows "ptriple E strict P (applyAffiliateRebateForOrder E ord) (\<lambda>s a. P s)"
proof -
  have "ptriple E strict P (Do (Rebate_tx ord base) (\<lambda>r. case as_outcome r of
      None \<Rightarrow> Return None
    | Some e \<Rightarrow> writeAuditLog (po_ID ord) action op (d e) (Return (Some (Wrapped w e))))) (\<lambda>s a. P s)" for base action op d w
    by (rule p_Do [where P' = "\<lambda>r. P", OF assms(1)])
      (auto intro!: p_option p_audit p_Return assms(1) simp: command_ok_def assms(2))
  then show ?thesis unfolding applyAffiliateRebateForOrder_def Let_def by (intro p_if p_Return assms(1)) simp_all
qed

lemma complete_recharge_triple:
  "ptriple E strict (\<lambda>s. payable_order strict ord s \<and> not_subscription (po_ID ord) s \<and> code_used (po_RechargeCode ord) s)
     (complete_recharge E ord lease) (\<lambda>s a. True)"
  unfolding complete_recharge_def
  by (intro pay.triple_bind [OF p_rebate] p_cases p_Return stables pay.triple_conseq [OF markCompleted_triple])
    (auto intro: used_settles)

abbreviation recharge_order :: "bool \<Rightarrow> PaymentOrder \<Rightarrow> pay_db \<Rightarrow> bool" where
  "recharge_order strict ord \<equiv> (\<lambda>s. payable_order strict ord s \<and> not_subscription (po_ID ord) s)"

lemma redeem_recharge_triple: "ptriple E strict (recharge_order strict ord) (redeem_recharge E ord lease) (\<lambda>s a. True)"
  unfolding redeem_recharge_def
proof (rule pay.triple_bind [where R = "\<lambda>s res. redeemed (po_RechargeCode ord) s res \<and> recharge_order strict ord s"])
  show "ptriple E strict (recharge_order strict ord) (Redeem True (po_UserID ord) (po_RechargeCode ord))
      (\<lambda>s res. redeemed (po_RechargeCode ord) s res \<and> recharge_order strict ord s)"
    by (rule pay.triple_conseq [OF pay.triple_frame [where F = "recharge_order strict ord", OF Redeem_triple]])
      (auto intro!: stables intro: known_may_redeem)
  fix res :: "pay_error + RedeemCode"
  show "ptriple E strict (\<lambda>s. redeemed (po_RechargeCode ord) s res \<and> recharge_order strict ord s) (case res of
      Inl e \<Rightarrow> Return (Some (Wrapped ''redeem balance'' e)) | Inr _ \<Rightarrow> complete_recharge E ord lease) (\<lambda>s a. True)"
    by (intro p_cases p_Return stables pay.triple_conseq [OF complete_recharge_triple]) auto
qed

lemma doBalance_triple: "ptriple E strict (recharge_order strict ord) (doBalance E ord lease) (\<lambda>s a. True)"
  unfolding doBalance_def
proof (rule p_code)
  show "pstable (recharge_order strict ord)" by (intro stables)
  have create: "ptriple E strict (recharge_order strict ord) (bind_prog (CreateCode (recharge_code ord)) (\<lambda>e. case e of
        Some e \<Rightarrow> Return (Some (Wrapped ''create redeem code'' e)) | None \<Rightarrow> redeem_recharge E ord lease)) (\<lambda>s a. True)"
    by (rule pay.triple_bind [OF pay.triple_frame [where F = "not_subscription (po_ID ord)", OF CreateCode_triple]])
      (intro stables p_cases p_Return redeem_recharge_triple; simp)+
  show "ptriple E strict (recharge_order strict ord) (case resolveRedeemAction (as_code r) of
       redeemActionSkipCompleted \<Rightarrow> complete_recharge E ord lease
     | redeemActionCreate \<Rightarrow>
         bind_prog (CreateCode (recharge_code ord)) (\<lambda>e. case e of
           Some e \<Rightarrow> Return (Some (Wrapped ''create redeem code'' e)) | None \<Rightarrow> redeem_recharge E ord lease)
     | redeemActionRedeem \<Rightarrow> redeem_recharge E ord lease) (\<lambda>s a. True)" if "as_code r = Inl e" for r e
    using create that by (simp add: resolveRedeemAction_def)
  show "ptriple E strict (\<lambda>s. recharge_order strict ord s \<and> known_code code s \<and> (IsUsed code \<longrightarrow> code_used (po_RechargeCode ord) s))
     (case resolveRedeemAction (as_code r) of
       redeemActionSkipCompleted \<Rightarrow> complete_recharge E ord lease
     | redeemActionCreate \<Rightarrow>
         bind_prog (CreateCode (recharge_code ord)) (\<lambda>e. case e of
           Some e \<Rightarrow> Return (Some (Wrapped ''create redeem code'' e)) | None \<Rightarrow> redeem_recharge E ord lease)
     | redeemActionRedeem \<Rightarrow> redeem_recharge E ord lease) (\<lambda>s a. True)" if "as_code r = Inr code" for r code
  proof (cases "IsUsed code")
    case True
    then show ?thesis using that by (auto simp: resolveRedeemAction_def intro: pay.triple_conseq [OF complete_recharge_triple])
  next
    case False
    then show ?thesis using that by (auto simp: resolveRedeemAction_def intro: pay.triple_conseq [OF redeem_recharge_triple])
  qed
qed

subsection \<open>Subscription orders\<close>

lemma assign_triple:
  "ptriple E strict (paid_order strict (po_ID ord)) (ensurePaymentSubscriptionAssigned ord g days)
     (\<lambda>s e. e = None \<longrightarrow> has_audit (po_ID ord) assignment_audits s)"
proof -
  have inval: "ptriple E strict (has_audit (po_ID ord) assignment_audits) (Do (InvalidateSubCaches u g) (\<lambda>r. Return (f r)))
      (\<lambda>s e. e = None \<longrightarrow> has_audit (po_ID ord) assignment_audits s)" for u and f :: "pay_reply \<Rightarrow> pay_error option"
    by (intro p_free p_Return stables) simp_all
  show ?thesis
    unfolding ensurePaymentSubscriptionAssigned_def Let_def
  proof (rule p_Do [where P' = "\<lambda>r s. as_outcome r = None \<longrightarrow> has_audit (po_ID ord) assignment_audits s"])
    fix s inp r s2
    assume s: "pay_ok strict s" "pay_exec E inp (AssignSubscription_tx ord g days) s = (r, s2)" "paid_order strict (po_ID ord) s"
    show "as_outcome r = None \<longrightarrow> has_audit (po_ID ord) assignment_audits s2"
      using pay_ok_assign [OF s(1) assign_reply [OF s(2)] s(3)] by simp
  next
    fix r
    have count: "ptriple E strict (\<lambda>s. True) (Do (CountAudits (po_ID ord) assignment_audits) (\<lambda>r.
          if (case as_count r of Inl _ \<Rightarrow> False | Inr c \<Rightarrow> 0 < c)
          then Do (InvalidateSubCaches (po_UserID ord) g) (\<lambda>r. Return (map_option (\<lambda>e. e) (as_outcome r)))
          else Return (Some (Wrapped ''record subscription assignment audit'' e))))
        (\<lambda>s e. e = None \<longrightarrow> has_audit (po_ID ord) assignment_audits s)" for e
    proof (rule p_Do [where P' = "\<lambda>r s. (case as_count r of Inl _ \<Rightarrow> False | Inr c \<Rightarrow> 0 < c) \<longrightarrow> has_audit (po_ID ord) assignment_audits s"])
      fix s inp r s2
      assume "pay_exec E inp (CountAudits (po_ID ord) assignment_audits) s = (r, s2)"
      from audits_reply [OF this]
      show "(case as_count r of Inl _ \<Rightarrow> False | Inr c \<Rightarrow> 0 < c) \<longrightarrow> has_audit (po_ID ord) assignment_audits s2"
        by (auto split: sum.splits)
    qed (auto intro!: p_if p_Return stables pay.triple_conseq [OF inval] simp: free_ok)
    show "ptriple E strict (\<lambda>s. as_outcome r = None \<longrightarrow> has_audit (po_ID ord) assignment_audits s) (case as_outcome r of
        None \<Rightarrow> Do (InvalidateSubCaches (po_UserID ord) g) (\<lambda>r. Return (map_option (Wrapped ''invalidate subscription cache after fulfillment'') (as_outcome r)))
      | Some e \<Rightarrow>
          if e = Fault ConstraintViolation then
            Do (CountAudits (po_ID ord) assignment_audits) (\<lambda>r.
              if (case as_count r of Inl _ \<Rightarrow> False | Inr c \<Rightarrow> 0 < c)
              then Do (InvalidateSubCaches (po_UserID ord) g) (\<lambda>r. Return (map_option (\<lambda>e. e) (as_outcome r)))
              else Return (Some (Wrapped ''record subscription assignment audit'' e)))
          else Return (Some (case e of Fault _ \<Rightarrow> Wrapped ''subscription fulfillment tx'' e | _ \<Rightarrow> e)))
        (\<lambda>s e. e = None \<longrightarrow> has_audit (po_ID ord) assignment_audits s)"
      by (intro p_cases p_Return stables pay.triple_conseq [OF count] pay.triple_conseq [OF inval]) simp_all
  qed (auto intro!: stables simp: command_ok_def)
qed

abbreviation paid_subscription :: "bool \<Rightarrow> int \<Rightarrow> pay_db \<Rightarrow> bool" where
  "paid_subscription strict i \<equiv> (\<lambda>s. subscription_order i s \<and> paid_order strict i s)"

lemma doSub_triple: "ptriple E strict (paid_subscription strict (po_ID ord)) (doSub E ord gid days lease) (\<lambda>s a. True)"
proof -
  let ?R = "\<lambda>s e. (e = None \<longrightarrow> has_audit (po_ID ord) assignment_audits s) \<and> paid_subscription strict (po_ID ord) s"
  have assign: "ptriple E strict (paid_subscription strict (po_ID ord)) (ensurePaymentSubscriptionAssigned ord gid days) ?R"
    by (rule pay.triple_conseq [OF pay.triple_frame [where F = "paid_subscription strict (po_ID ord)", OF assign_triple]])
      (auto intro: stables)
  have "ptriple E strict (\<lambda>s. ?R s e) (case e of
         Some e \<Rightarrow> Return (Some e)
       | None \<Rightarrow>
           bind_prog (applyAffiliateRebateForOrder E ord) (\<lambda>e. case e of
             Some e \<Rightarrow> Return (Some e)
           | None \<Rightarrow> markCompleted ord lease ''SUBSCRIPTION_SUCCESS'')) (\<lambda>s a. True)" for e
    by (intro p_cases pay.triple_bind [OF p_rebate] p_Return stables pay.triple_conseq [OF markCompleted_triple])
      (auto intro: audit_settles)
  then have "ptriple E strict (paid_subscription strict (po_ID ord)) (bind_prog (ensurePaymentSubscriptionAssigned ord gid days) (\<lambda>e. case e of
         Some e \<Rightarrow> Return (Some e)
       | None \<Rightarrow>
           bind_prog (applyAffiliateRebateForOrder E ord) (\<lambda>e. case e of
             Some e \<Rightarrow> Return (Some e)
           | None \<Rightarrow> markCompleted ord lease ''SUBSCRIPTION_SUCCESS''))) (\<lambda>s a. True)"
    by (rule pay.triple_bind [OF assign])
  then show ?thesis unfolding doSub_def by (intro p_free p_if p_Return stables) simp_all
qed

subsection \<open>Under the lease\<close>

lemma with_lease_triple:
  assumes "\<And>version. ptriple E strict P (work version) (\<lambda>s a. True)" and "pstable P"
  shows "ptriple E strict P (with_lease ord work) (\<lambda>s a. True)"
proof -
  have acquire: "ptriple E strict P (acquirePaymentFulfillmentLease ord) (\<lambda>s a. P s)"
    by (rule pay.triple_conseq [OF pay.triple_frame [where F = P, OF acquire_triple assms(2)]]) simp_all
  have fail: "ptriple E strict (\<lambda>s. True) (bind_prog (markFailed i v e) (\<lambda>_. Return (Some e))) (\<lambda>s a. True)" for i v e
    by (rule pay.triple_bind [OF markFailed_triple]) (intro p_Return stables, simp)
  show ?thesis
    unfolding with_lease_def
    by (rule pay.triple_bind [OF acquire])
      (intro p_cases p_Return assms stables pay.triple_bind [OF assms(1)] pay.triple_conseq [OF fail]; simp)
qed

lemma guard_active: "fulfill_guard ord = None \<Longrightarrow> active (po_Status ord)"
  by (auto simp: fulfill_guard_def active_def split: if_splits)

lemma order_facts_payable: "order_facts strict i ord s \<Longrightarrow> active (po_Status ord) \<Longrightarrow> payable_order strict ord s \<and> po_ID ord = i"
  by (auto simp: order_facts_def)

lemma ExecuteBalance_triple: "ptriple E strict (not_subscription oid) (ExecuteBalanceFulfillment E oid) (\<lambda>s a. True)"
  unfolding ExecuteBalanceFulfillment_def
proof (rule p_order)
  fix r ord
  assume r: "as_order r = Inr ord"
  have "ptriple E strict (recharge_order strict ord) (with_lease ord (doBalance E ord)) (\<lambda>s a. True)"
    by (rule with_lease_triple [OF doBalance_triple]) (intro stables)
  then show "ptriple E strict (\<lambda>s. not_subscription oid s \<and> order_facts strict oid ord s) (case as_order r of
       Inl _ \<Rightarrow> Return (Some (pay_NotFound ''NOT_FOUND'' ''order not found''))
     | Inr ord \<Rightarrow>
         (case fulfill_guard ord of
            Some result \<Rightarrow> Return result
          | None \<Rightarrow> with_lease ord (doBalance E ord))) (\<lambda>s a. True)"
    unfolding r sum.case
    by (intro p_cases p_Return stables) (auto elim!: pay.triple_conseq dest!: order_facts_payable [OF _ guard_active])
qed (auto intro!: p_Return stables)

lemma ExecuteSubscription_triple: "ptriple E strict (subscription_order oid) (ExecuteSubscriptionFulfillment E oid) (\<lambda>s a. True)"
  unfolding ExecuteSubscriptionFulfillment_def
proof (rule p_order)
  fix r ord
  assume r: "as_order r = Inr ord"
  have work: "ptriple E strict (paid_subscription strict (po_ID ord)) (with_lease ord (doSub E ord gid days)) (\<lambda>s a. True)" for gid days
    by (rule with_lease_triple [OF doSub_triple]) (intro stables)
  have sub: "ptriple E strict (\<lambda>s. subscription_order oid s \<and> order_facts strict oid ord s) (with_lease ord (doSub E ord gid days)) (\<lambda>s a. True)"
    if "fulfill_guard ord = None" for gid days
    by (rule pay.triple_conseq [OF work]) (use guard_active [OF that] in \<open>auto simp: order_facts_def\<close>)
  then show "ptriple E strict (\<lambda>s. subscription_order oid s \<and> order_facts strict oid ord s) (case as_order r of
       Inl _ \<Rightarrow> Return (Some (pay_NotFound ''NOT_FOUND'' ''order not found''))
     | Inr ord \<Rightarrow>
         (case fulfill_guard ord of
            Some result \<Rightarrow> Return result
          | None \<Rightarrow>
              (case (po_SubscriptionGroupID ord, po_SubscriptionDays ord) of
                 (Some gid, Some days) \<Rightarrow> with_lease ord (doSub E ord gid days)
               | _ \<Rightarrow> Return (Some (pay_BadRequest ''INVALID_STATUS'' ''missing subscription info''))))) (\<lambda>s a. True)"
    unfolding r sum.case prod.case by (intro p_cases p_Return stables) simp_all
qed (auto intro!: p_Return stables)

lemma known_type:
  assumes "pay_ok strict s" and "order_facts strict i ord s"
  shows "if po_OrderType ord = OrderTypeSubscription then subscription_order i s else not_subscription i s"
proof -
  have ord: "known_order ord s" "po_ID ord = i" using assms(2) by (simp_all add: order_facts_def)
  have "po_OrderType r = po_OrderType ord" if "r \<in> set (pd_orders s)" "po_ID r = i" for r
    using known_order_eq [OF assms(1) ord(1)] that ord(2) by (simp add: order_same_def)
  then show ?thesis by (simp add: subscription_order_def not_subscription_def)
qed

lemma executeFulfillment_triple: "ptriple E strict (\<lambda>s. True) (executeFulfillment E oid) (\<lambda>s a. True)"
  unfolding executeFulfillment_def
proof (rule p_order)
  fix r ord
  assume r: "as_order r = Inr ord"
  show "ptriple E strict (\<lambda>s. True \<and> order_facts strict oid ord s) (case as_order r of
       Inl e \<Rightarrow> Return (Some (Wrapped ''get order'' (Fault e)))
     | Inr ord \<Rightarrow>
         if po_OrderType ord = OrderTypeSubscription then ExecuteSubscriptionFulfillment E oid
         else ExecuteBalanceFulfillment E oid) (\<lambda>s a. True)"
    unfolding r sum.case
    by (intro p_if pay.triple_conseq [OF ExecuteSubscription_triple] pay.triple_conseq [OF ExecuteBalance_triple])
      (use known_type in fastforce)+
qed (auto intro!: p_Return stables)

end
