(* ===== verification/Payment_Safety.thy ===== *)
theory Payment_Safety
  imports Payment_Granting
begin

text \<open>
  All programs of the payment service keep the invariant, so every world of them does: notifications,
  retries, cancellations, expiry, reconciliation, refunds and redemptions, in any number and any
  interleaving, each statement possibly lost before or after its effect.
\<close>

abbreviation safe :: "pay_env \<Rightarrow> bool \<Rightarrow> 'a pay_prog \<Rightarrow> bool" where
  "safe E strict p \<equiv> ptriple E strict (\<lambda>s. True) p (\<lambda>s a. True)"

lemma safe_any: "safe E strict p \<Longrightarrow> ptriple E strict P p (\<lambda>s a. True)"
  by (erule pay.triple_conseq) simp_all

lemma safe_Return: "ptriple E strict P (Return a) (\<lambda>s a. True)"
  by (rule pay.triple_conseq [where P' = "\<lambda>s. True"]) (auto intro!: p_Return stables)

lemma safe_harmless: "harmless p \<Longrightarrow> ptriple E strict P p (\<lambda>s a. True)"
  by (rule safe_any) (intro p_keep stables, simp_all)

lemma safe_order: "(\<And>r. safe E strict (k r)) \<Longrightarrow> safe E strict (Do (GetOrder i) k)"
  by (intro p_free stables) simp_all

section \<open>Notifications\<close>

lemma alreadyProcessed_safe: "safe E strict (alreadyProcessed E oid)"
  unfolding alreadyProcessed_def
  by (intro p_free p_cases stables safe_Return) (auto intro!: executeFulfillment_triple safe_Return safe_harmless
    simp: harmless_programs split: OrderStatus.split)

lemma toPaid_safe: "safe E strict (toPaid E ord tradeNo amount pk)"
  unfolding toPaid_def Let_def
  by (intro p_free p_update p_cases p_audit stables safe_Return alreadyProcessed_safe executeFulfillment_triple)
    (auto simp: payable_def mark_paid_def allowed_defs paid_def)

lemma confirmPayment_safe: "safe E strict (confirmPayment E oid tradeNo amount pk metadata)"
  unfolding confirmPayment_def Let_def
  by (intro p_free p_sum p_harmless_then harmless_instance stables safe_Return)
    (auto intro!: toPaid_safe safe_harmless simp: harmless_programs split: sum.split)

lemma HandlePaymentNotification_safe: "safe E strict (HandlePaymentNotification E n pk)"
  unfolding HandlePaymentNotification_def
  by (intro p_cases p_free stables safe_Return confirmPayment_safe) simp_all

lemma RetryFulfillment_safe: "safe E strict (RetryFulfillment E oid)"
  unfolding RetryFulfillment_def
  by (intro p_cases p_free p_audit stables safe_Return executeFulfillment_triple) simp_all

section \<open>Lifecycle\<close>

lemma harmless_fallback [harmless_programs]: "harmless (webhookRegistryFallbackAllowed key)"
  by (simp add: webhookRegistryFallbackAllowed_def Let_def split: sum.split)

lemma harmless_provider [harmless_programs]: "harmless (getOrderProvider E ord)"
  unfolding getOrderProvider_def Let_def
  by (intro harmless_bind) (simp_all add: harmless_programs split: sum.split option.split)

lemma harmless_requery [harmless_programs]: "harmless (requeryPaidOrderOnce ref)"
  by (simp add: requeryPaidOrderOnce_def split: option.split)

lemma notify_paid_safe: "safe E strict (notify_paid E ord prov resp tradeNo)"
  unfolding notify_paid_def by (rule pay.triple_bind [OF HandlePaymentNotification_safe]) (rule safe_Return)

lemma paid_response_safe: "safe E strict (paid_response E ord prov ref resp)"
  unfolding paid_response_def Let_def
  by (intro p_if p_update stables notify_paid_safe) (auto simp: allowed_defs)

lemma checkPaid_safe: "safe E strict (checkPaidWithOptions E ord cancel)"
  unfolding checkPaidWithOptions_def Let_def
  by (intro p_harmless_then p_cases p_free p_audit harmless_provider harmless_requery stables safe_Return paid_response_safe) simp_all

lemma cancelCore_safe:
  assumes "\<not> active fs"
  shows "safe E strict (cancelCore E ord fs op ad)"
proof -
  have fs: "\<not> settled_status fs" using assms by (cases fs) (simp_all add: settled_status_def active_def)
  have "safe E strict (Do (UpdateOrders (\<lambda>r. po_ID r = po_ID ord \<and> po_Status r = OrderStatusPending) (\<lambda>r. r \<lparr> po_Status := fs \<rparr>))
            (\<lambda>r. case as_count r of
               Inl e \<Rightarrow> Return (Inl (Wrapped ''update order status'' (Fault e)))
             | Inr c \<Rightarrow>
                 if 0 < c
                 then writeAuditLog (po_ID ord) (if fs = OrderStatusExpired then ''ORDER_EXPIRED'' else ''ORDER_CANCELLED'') op
                        [(''detail'', DS ad)] (Return (Inr checkPaidResultCancelled))
                 else Return (Inr checkPaidResultCancelled)))"
    by (intro p_update p_cases p_audit stables safe_Return) (use assms fs in \<open>auto simp: status_allowed_def order_same_def\<close>)
  then show ?thesis
    unfolding cancelCore_def Let_def checkPaid_def
    by (intro p_if pay.triple_bind [OF checkPaid_safe] safe_Return)
qed

lemma cancel_safe: "safe E strict (cancelCore E ord OrderStatusCancelled op ad)" "safe E strict (cancelCore E ord OrderStatusExpired op ad)"
  by (rule cancelCore_safe, simp add: active_def)+

lemma CancelOrder_safe: "safe E strict (CancelOrder E i u)"
  unfolding CancelOrder_def by (intro p_free p_cases stables safe_Return cancel_safe) simp_all

lemma AdminCancelOrder_safe: "safe E strict (AdminCancelOrder E i)"
  unfolding AdminCancelOrder_def by (intro p_free p_cases stables safe_Return cancel_safe) simp_all

lemma expire_orders_safe: "safe E strict (expire_orders E ords n)"
proof (induction ords arbitrary: n)
  case (Cons ord ords)
  have "safe E strict (case outcome of Inr checkPaidResultCancelled \<Rightarrow> expire_orders E ords (n + 1) | _ \<Rightarrow> expire_orders E ords n)" for outcome
    using Cons by (auto split: sum.split checkPaidResult.split)
  then show ?case unfolding expire_orders.simps by (rule pay.triple_bind [OF cancel_safe(2)])
qed (simp add: safe_Return)

lemma ExpireTimedOutOrders_safe: "safe E strict (ExpireTimedOutOrders E)"
  unfolding ExpireTimedOutOrders_def by (intro p_free p_cases stables safe_Return expire_orders_safe) simp_all

lemma reconcile_orders_safe: "safe E strict (reconcile_orders E ords n)"
proof (induction ords arbitrary: n)
  case (Cons ord ords)
  show ?case unfolding reconcile_orders.simps reconcilePaid_def by (rule pay.triple_bind [OF checkPaid_safe Cons])
qed (simp add: safe_Return)

lemma Reconcile_safe: "safe E strict (ReconcilePendingWxpayOrders E)"
  unfolding ReconcilePendingWxpayOrders_def by (intro p_free p_cases stables safe_Return reconcile_orders_safe) simp_all

lemma Verify_safe: "safe E strict (VerifyOrderByOutTradeNo E raw u)"
  unfolding VerifyOrderByOutTradeNo_def reconcilePaid_def
  by (intro p_free p_cases stables safe_Return pay.triple_bind [OF checkPaid_safe]) simp_all

section \<open>Refunds\<close>

lemma harmless_refund_instance [harmless_programs]: "harmless (getRefundOrderProviderInstance E ord)"
  by (simp add: getRefundOrderProviderInstance_def Let_def harmless_programs split: option.split sum.split db_fault.split)

lemma harmless_refund_provider [harmless_programs]: "harmless (getRefundProvider E ord)"
  unfolding getRefundProvider_def by (intro harmless_bind) (simp_all add: harmless_programs split: sum.split option.split)

lemma harmless_validate [harmless_programs]: "harmless (validateRefundRequest E oid uid)"
proof -
  have "harmless (bind_prog (getRefundOrderProviderInstance E ord) (\<lambda>inst. case inst of
           Inr (Some x) \<Rightarrow>
             if \<not> pi_AllowUserRefund x
             then Return (Inl (pay_Forbidden ''USER_REFUND_DISABLED'' ''user refund is not enabled for this provider''))
             else Return (Inr ord)
         | _ \<Rightarrow> Return (Inl (pay_Forbidden ''USER_REFUND_DISABLED'' ''refund is not available for this order''))))" for ord
    by (intro harmless_bind) (simp_all add: harmless_programs split: sum.split option.split)
  then show ?thesis by (simp add: validateRefundRequest_def split: sum.split)
qed

lemma harmless_prepDeduct [harmless_programs]: "harmless (prepDeduct ord p force)"
  by (simp add: prepDeduct_def Let_def split: option.split sum.split)

lemma harmless_extend [harmless_programs]: "harmless (extend_subscription i days)"
  by (simp add: extend_subscription_def Let_def split: option.split sum.split sub_error.split)

lemma harmless_revoke [harmless_programs]: "harmless (revoke_subscription i)"
  by (simp add: revoke_subscription_def split: option.split sum.split)

lemma harmless_rollback [harmless_programs]: "harmless (RollbackRefund p e)"
proof -
  have "harmless (bind_prog (extend_subscription i days) (\<lambda>e. case e of
      Some e \<Rightarrow> writeAuditLog j action op d (Return a) | None \<Rightarrow> Return b))" for i days j action op d and a b :: bool
    by (intro harmless_bind) (simp_all add: harmless_programs split: option.split)
  then show ?thesis unfolding RollbackRefund_def Let_def
    by (simp add: harmless_programs harmless_bind split: option.split)
qed

lemma RequestRefund_safe: "safe E strict (RequestRefund E oid uid reason)"
  unfolding RequestRefund_def Let_def
  by (intro p_harmless_then harmless_validate p_cases p_free p_update p_audit stables safe_Return)
    (auto simp: refund_requestable_def request_refund_def allowed_defs)

text \<open>An order under refund was settled before, so every status a refund gives it is allowed.\<close>

abbreviation refunding :: "bool \<Rightarrow> int \<Rightarrow> pay_db \<Rightarrow> bool" where
  "refunding strict i \<equiv> (\<lambda>s. settled i s \<and> paid_order strict i s)"

lemma p_refund_update:
  assumes "\<And>r t. order_same r (u (r \<lparr> po_UpdatedAt := t \<rparr>))" and "\<And>r. ptriple E strict (refunding strict i) (k r) Q"
  shows "ptriple E strict (refunding strict i) (Do (UpdateOneOrder i u) k) Q"
  by (intro p_update_one stables assms) (use assms(1) in \<open>auto simp: status_allowed_def\<close>)

lemma restoreStatus_refunding:
  "ptriple E strict (refunding strict (rp_OrderID p)) next Q \<Longrightarrow> ptriple E strict (refunding strict (rp_OrderID p)) (restoreStatus p next) Q"
  unfolding restoreStatus_def by (intro p_refund_update) (simp_all add: order_same_def)

lemma handleGwFail_refunding: "ptriple E strict (refunding strict (rp_OrderID p)) (handleGwFail p e) (\<lambda>s a. True)"
  unfolding handleGwFail_def
  by (intro p_harmless_then harmless_rollback p_if restoreStatus_refunding p_audit p_free p_refund_update stables safe_Return)
    (simp_all add: order_same_def mark_refund_failed_def)

lemma markRefundOk_refunding: "ptriple E strict (refunding strict (rp_OrderID p)) (markRefundOk p) (\<lambda>s a. True)"
  unfolding markRefundOk_def
  by (intro p_cases p_audit p_refund_update p_free [of Clock] stables safe_Return) (simp_all add: order_same_def mark_refunded_def)

lemma markRefundPending_refunding: "ptriple E strict (refunding strict (rp_OrderID p)) (markRefundPending p resp) (\<lambda>s a. True)"
  unfolding markRefundPending_def Let_def
  by (intro p_harmless_then harmless_rollback p_cases p_audit p_refund_update stables safe_Return) (simp_all add: order_same_def mark_refund_pending_def)

lemma finishRefund_refunding: "ptriple E strict (refunding strict (rp_OrderID p)) (finishRefund p resp) (\<lambda>s a. True)"
  unfolding finishRefund_def Let_def
  by (intro p_cases handleGwFail_refunding markRefundOk_refunding markRefundPending_refunding)

lemma harmless_gwRefund [harmless_programs]: "harmless (gwRefund E p)"
proof -
  have "harmless (bind_prog (getRefundProvider E ord) f)" if "\<And>a. harmless (f a)" for ord and f :: "pay_error + payment_provider \<Rightarrow> (pay_error + RefundResponse) pay_prog"
    using that by (intro harmless_bind harmless_refund_provider)
  then show ?thesis unfolding gwRefund_def Let_def
    by (simp add: harmless_programs split: option.split sum.split prod.split bool.split)
qed

text \<open>The deductions do not change which order the plan is for.\<close>

lemma deduct_balance_refunding:
  "ptriple E strict (refunding strict (rp_OrderID p)) (deduct_balance p)
     (\<lambda>s a. refunding strict (rp_OrderID p) s \<and> (\<forall>q. a = Inr q \<longrightarrow> rp_OrderID q = rp_OrderID p))"
  unfolding deduct_balance_def
  by (intro p_if p_harmless_then harmless_hasAudit p_free [of "DeductAvailable i q" for i q] p_cases restoreStatus_refunding stables p_Return) simp_all

lemma deduct_subscription_refunding:
  "ptriple E strict (refunding strict (rp_OrderID p)) (deduct_subscription p)
     (\<lambda>s a. refunding strict (rp_OrderID p) s \<and> (\<forall>q. a = Inr q \<longrightarrow> rp_OrderID q = rp_OrderID p))"
  unfolding deduct_subscription_def
  by (intro p_if p_harmless_then harmless_hasAudit harmless_extend harmless_revoke p_cases restoreStatus_refunding stables p_Return) simp_all

lemma refund_work_refunding:
  "ptriple E strict (refunding strict (rp_OrderID p)) (bind_prog (deduct_subscription p) (\<lambda>d. case d of
     Inl e \<Rightarrow> Return (Inl e)
   | Inr p \<Rightarrow> bind_prog (gwRefund E p) (\<lambda>g. case g of Inl e \<Rightarrow> handleGwFail p e | Inr resp \<Rightarrow> finishRefund p resp))) (\<lambda>s a. True)"
proof (rule pay.triple_bind [OF deduct_subscription_refunding])
  fix d :: "pay_error + RefundPlan"
  have "ptriple E strict (refunding strict (rp_OrderID q)) (bind_prog (gwRefund E q) (\<lambda>g. case g of
      Inl e \<Rightarrow> handleGwFail q e | Inr resp \<Rightarrow> finishRefund q resp)) (\<lambda>s a. True)" for q
    by (intro p_harmless_then harmless_gwRefund p_cases handleGwFail_refunding finishRefund_refunding stables)
  note work = this
  show "ptriple E strict (\<lambda>s. refunding strict (rp_OrderID p) s \<and> (\<forall>q. d = Inr q \<longrightarrow> rp_OrderID q = rp_OrderID p)) (case d of
      Inl e \<Rightarrow> Return (Inl e)
    | Inr p \<Rightarrow> bind_prog (gwRefund E p) (\<lambda>g. case g of Inl e \<Rightarrow> handleGwFail p e | Inr resp \<Rightarrow> finishRefund p resp)) (\<lambda>s a. True)"
    by (intro p_sum safe_Return pay.triple_conseq [OF work]) auto
qed


lemma ExecuteRefund_safe: "safe E strict (ExecuteRefund E p)"
  unfolding ExecuteRefund_def
proof (rule p_Do [where P' = "\<lambda>r s. \<forall>n. as_count r = Inr n \<longrightarrow> n \<noteq> 0 \<longrightarrow> refunding strict (rp_OrderID p) s"])
  show "command_ok strict (UpdateOrders (refund_lockable (rp_OrderID p)) (\<lambda>r. r \<lparr> po_Status := OrderStatusRefunding \<rparr>)) s" for s
    by (auto simp: command_ok_def refund_lockable_def refundable_def allowed_defs)
next
  fix s inp r s2
  assume s: "pay_ok strict s" "pay_evolves s s2"
    "pay_exec E inp (UpdateOrders (refund_lockable (rp_OrderID p)) (\<lambda>r. r \<lparr> po_Status := OrderStatusRefunding \<rparr>)) s = (r, s2)"
  show "\<forall>n. as_count r = Inr n \<longrightarrow> n \<noteq> 0 \<longrightarrow> refunding strict (rp_OrderID p) s2"
  proof (intro allI impI)
    fix n
    assume n: "as_count r = Inr n" "n \<noteq> 0"
    obtain x where x: "x \<in> set (pd_orders s)" "refund_lockable (rp_OrderID p) x" using update_reply [OF s(3) n] by blast
    then have st: "po_ID x = rp_OrderID p" "settled_status (po_Status x)" "active (po_Status x)"
      by (auto simp: refund_lockable_def refundable_def settled_status_def active_def)
    have "settled (rp_OrderID p) s" "paid_order strict (rp_OrderID p) s"
      using order_settled [OF s(1) x(1) st(2)] order_paid [OF s(1) x(1) st(3)] st(1) by simp_all
    then show "refunding strict (rp_OrderID p) s2" using settled_evolves paid_order_evolves s(2) by blast
  qed
next
  fix r
  let ?rest = "\<lambda>p. bind_prog (deduct_subscription p) (\<lambda>d. case d of
     Inl e \<Rightarrow> Return (Inl e)
   | Inr p \<Rightarrow> bind_prog (gwRefund E p) (\<lambda>g. case g of Inl e \<Rightarrow> handleGwFail p e | Inr resp \<Rightarrow> finishRefund p resp))"
  have "ptriple E strict (\<lambda>s. refunding strict (rp_OrderID p) s \<and> (\<forall>q. d = Inr q \<longrightarrow> rp_OrderID q = rp_OrderID p))
      (case d of Inl e \<Rightarrow> Return (Inl e) | Inr p \<Rightarrow> ?rest p) (\<lambda>s a. True)" for d
    by (intro p_sum safe_Return pay.triple_conseq [OF refund_work_refunding]) auto
  from pay.triple_bind [OF deduct_balance_refunding this]
  have work: "ptriple E strict (refunding strict (rp_OrderID p)) (bind_prog (deduct_balance p) (\<lambda>d. case d of
      Inl e \<Rightarrow> Return (Inl e) | Inr p \<Rightarrow> ?rest p)) (\<lambda>s a. True)" .
  show "ptriple E strict (\<lambda>s. \<forall>n. as_count r = Inr n \<longrightarrow> n \<noteq> 0 \<longrightarrow> refunding strict (rp_OrderID p) s) (case as_count r of
       Inl e \<Rightarrow> Return (Inl (Wrapped ''lock'' (Fault e)))
     | Inr c \<Rightarrow>
         if c = 0 then Return (Inl (pay_Conflict ''CONFLICT'' ''order status changed''))
         else bind_prog (deduct_balance p) (\<lambda>d. case d of Inl e \<Rightarrow> Return (Inl e) | Inr p \<Rightarrow> ?rest p)) (\<lambda>s a. True)"
    by (intro p_cases safe_Return pay.triple_conseq [OF work]) auto
qed (intro stables)

lemma finalizeRefundFailed_refunding: "ptriple E strict (refunding strict (po_ID ord)) (finalizeRefundFailed ord e) (\<lambda>s a. True)"
  unfolding finalizeRefundFailed_def
  by (intro p_audit p_refund_update p_free [of Clock] stables safe_Return) (simp_all add: order_same_def mark_refund_failed_def)

lemma harmless_detail [harmless_programs]: "harmless (latestRefundPendingDetail oid)"
  by (simp add: latestRefundPendingDetail_def)

lemma finalize_response_refunding: "ptriple E strict (refunding strict (po_ID ord)) (finalize_response ord p resp) (\<lambda>s a. True)"
  unfolding finalize_response_def Let_def
  by (intro p_if p_audit finalizeRefundFailed_refunding p_free [of "FinalizeRefund_tx p"] stables safe_Return) simp_all

lemma refund_answer_refunding: "ptriple E strict (refunding strict (po_ID ord)) (refund_answer E ord b a f) (\<lambda>s a. True)"
  unfolding refund_answer_def Let_def
  by (intro p_cases p_harmless_then harmless_prepDeduct finalizeRefundFailed_refunding finalize_response_refunding stables safe_Return)

lemma query_refund_refunding: "ptriple E strict (refunding strict (po_ID ord)) (query_refund E ord) (\<lambda>s a. True)"
  unfolding query_refund_def
  by (intro p_cases p_harmless_then harmless_refund_provider harmless_detail p_free refund_answer_refunding stables safe_Return) simp

lemma QueryAndFinalizeRefund_safe: "safe E strict (QueryAndFinalizeRefund E oid)"
  unfolding QueryAndFinalizeRefund_def
proof (rule p_order)
  fix r ord
  assume r: "as_order r = Inr ord"
  show "ptriple E strict (\<lambda>s. True \<and> order_facts strict oid ord s) (case as_order r of
       Inl _ \<Rightarrow> Return (Inl (pay_NotFound ''NOT_FOUND'' ''order not found''))
     | Inr ord \<Rightarrow>
         if po_Status ord \<noteq> OrderStatusRefundPending
         then Return (Inl (pay_BadRequest ''INVALID_STATUS'' ''only refund pending orders can be finalized''))
         else query_refund E ord) (\<lambda>s a. True)"
    unfolding r sum.case
    by (intro p_if safe_Return pay.triple_conseq [OF query_refund_refunding]) (auto simp: order_facts_def settled_status_def active_def)
qed (auto intro!: p_Return stables)

lemma harmless_PrepareRefund [harmless_programs]: "harmless (PrepareRefund E oid amt reason force deduct)"
proof -
  have "harmless (bind_prog (getRefundOrderProviderInstance E ord) f)" if "\<And>a. harmless (f a)"
    for ord and f :: "pay_error + PaymentProviderInstance option \<Rightarrow> (pay_error + RefundResult + RefundPlan) pay_prog"
    using that by (intro harmless_bind harmless_refund_instance)
  then show ?thesis unfolding PrepareRefund_def Let_def
    by (simp add: harmless_programs split: option.split sum.split gofloat.split)
qed

end
