(* ===== verification/Payment_World.thy ===== *)
theory Payment_World
  imports Payment_Safety
begin

text \<open>
  The payment service as a world of programs, and what holds in every run of it, whatever the order
  of the steps, the clocks, the answers of providers and Redis, and the statements that get lost.
\<close>

section \<open>Worlds of the payment service\<close>

datatype pay_request =
    Notify PaymentNotification string
  | Retry int
  | CancelByUser int int
  | CancelByAdmin int
  | ExpireOrders
  | ReconcileWxpay
  | Verify string int
  | UserRefund int int string
  | AdminRefund int gofloat string bool bool
  | FinalizeRefund int
  | RedeemByUser int string
  | ProviderRefused int

definition ignoring :: "'a pay_prog \<Rightarrow> unit pay_prog" where
  "ignoring p = bind_prog p (\<lambda>_. Return ())"

fun pay_code :: "pay_env \<Rightarrow> pay_request \<Rightarrow> unit pay_prog" where
  "pay_code E (Notify n pk) = ignoring (HandlePaymentNotification E n pk)"
| "pay_code E (Retry oid) = ignoring (RetryFulfillment E oid)"
| "pay_code E (CancelByUser oid u) = ignoring (CancelOrder E oid u)"
| "pay_code E (CancelByAdmin oid) = ignoring (AdminCancelOrder E oid)"
| "pay_code E ExpireOrders = ignoring (ExpireTimedOutOrders E)"
| "pay_code E ReconcileWxpay = ignoring (ReconcilePendingWxpayOrders E)"
| "pay_code E (Verify raw u) = ignoring (VerifyOrderByOutTradeNo E raw u)"
| "pay_code E (UserRefund oid u reason) = ignoring (RequestRefund E oid u reason)"
| "pay_code E (AdminRefund oid q reason force deduct) = ignoring (ProcessRefund E oid q reason force deduct)"
| "pay_code E (FinalizeRefund oid) = ignoring (QueryAndFinalizeRefund E oid)"
| "pay_code E (RedeemByUser u c) = ignoring (Redeem False u c)"
| "pay_code E (ProviderRefused oid) = fail_created_order oid"

lemma ignoring_triple: "ptriple E strict P p Q \<Longrightarrow> ptriple E strict P (ignoring p) (\<lambda>s a. True)"
  unfolding ignoring_def by (rule pay.triple_bind) (auto intro: safe_Return)

lemma ProcessRefund_safe: "safe E strict (ProcessRefund E oid amt reason force deduct)"
  unfolding ProcessRefund_def
  by (intro p_harmless_then harmless_PrepareRefund p_cases safe_Return ExecuteRefund_safe stables)

lemma fail_created_order_safe: "safe E False (fail_created_order oid)"
  unfolding fail_created_order_def
  by (intro p_update_one stables safe_Return) (auto simp: allowed_defs paid_def)

text \<open>What a request must respect: recharge codes are redeemed by their owners, and in strict worlds no order is refused.\<close>

definition request_ok :: "bool \<Rightarrow> pay_db \<Rightarrow> pay_request \<Rightarrow> bool" where
  "request_ok strict db q \<longleftrightarrow> (case q of
       RedeemByUser u c \<Rightarrow> may_redeem u c db
     | ProviderRefused oid \<Rightarrow> \<not> strict
     | _ \<Rightarrow> True)"

lemma request_safe:
  assumes "case q of ProviderRefused oid \<Rightarrow> \<not> strict | _ \<Rightarrow> True"
  shows "ptriple E strict (\<lambda>s. \<forall>u c. q = RedeemByUser u c \<longrightarrow> may_redeem u c s) (pay_code E q) (\<lambda>s a. True)"
proof (cases q)
  case (RedeemByUser u c)
  then show ?thesis using pay.triple_conseq [OF ignoring_triple [OF Redeem_triple]] by simp
next
  case (ProviderRefused oid)
  then show ?thesis using assms fail_created_order_safe by simp
qed (simp_all add: safe_any ignoring_triple [OF HandlePaymentNotification_safe] ignoring_triple [OF RetryFulfillment_safe]
  ignoring_triple [OF CancelOrder_safe] ignoring_triple [OF AdminCancelOrder_safe] ignoring_triple [OF ExpireTimedOutOrders_safe]
  ignoring_triple [OF Reconcile_safe] ignoring_triple [OF Verify_safe] ignoring_triple [OF RequestRefund_safe]
  ignoring_triple [OF ProcessRefund_safe] ignoring_triple [OF QueryAndFinalizeRefund_safe])


text \<open>The tables before the first step: orders that wait for their payment, and nothing granted for them.\<close>

definition fresh_db :: "pay_db \<Rightarrow> bool" where
  "fresh_db db \<longleftrightarrow>
     distinct (map po_ID (pd_orders db)) \<and> distinct (map po_RechargeCode (pd_orders db)) \<and>
     distinct (map rc_Code (pd_codes db)) \<and> distinct (map rc_ID (pd_codes db)) \<and>
     list_all (\<lambda>r. po_Status r = OrderStatusPending \<and> po_RechargeCode r \<noteq> [] \<and>
       strings_TrimSpace (po_RechargeCode r) = po_RechargeCode r \<and>
       list_all (\<lambda>c. rc_Code c \<noteq> po_RechargeCode r) (pd_codes db)) (pd_orders db) \<and>
     pd_credits db = [] \<and> pd_assigned db = [] \<and>
     list_all (\<lambda>l. al_SourceOrder l = None) (ad_ledger (pd_affiliates db))"

lemma fresh_ok: "fresh_db db \<Longrightarrow> pay_ok strict db"
proof -
  assume f: "fresh_db db"
  have "order_ok strict db r" if "r \<in> set (pd_orders db)" for r
  proof -
    have "po_Status r = OrderStatusPending" "\<forall>c \<in> set (pd_codes db). rc_Code c \<noteq> po_RechargeCode r"
      "po_RechargeCode r \<noteq> []" "strings_TrimSpace (po_RechargeCode r) = po_RechargeCode r" "pd_credits db = []"
      using f that by (auto simp: fresh_db_def list_all_iff)
    then show ?thesis by (auto simp: order_ok_def settled_status_def active_def credits_of_def code_used_def)
  qed
  moreover have "rebates_of i db = []" for i using f by (auto simp: fresh_db_def rebates_of_def list_all_iff filter_empty_conv)
  ultimately show ?thesis using f by (simp add: pay_ok_def fresh_db_def has_grant_def)
qed

lemma pay_world:
  assumes "pay_ok strict db" and "world_run (pay_exec E) (pay_code E) hs db = (ps, db')"
    and "\<forall>q. Start q \<in> set hs \<longrightarrow> request_ok strict db q"
  shows "pay_ok strict db'" and "pay_evolves db db'"
proof -
  have "good (pay_exec E) (pay_ok strict) pay_evolves (pay_code E q) (\<lambda>_ _. True) s"
    if "Start q \<in> set hs" "pay_ok strict s" "pay_evolves db s" for q s
  proof (rule triple_good [OF request_safe that(2)])
    have q: "request_ok strict db q" using that assms(3) by blast
    then show "case q of ProviderRefused oid \<Rightarrow> \<not> strict | _ \<Rightarrow> True" by (cases q) (simp_all add: request_ok_def)
    show "\<forall>u c. q = RedeemByUser u c \<longrightarrow> may_redeem u c s"
      using q may_redeem_evolves [OF _ that(3)] by (auto simp: request_ok_def)
  qed
  from pay.good_world_run [OF assms(1) this assms(2)] show "pay_ok strict db'" "pay_evolves db db'" by blast+
qed

section \<open>An example\<close>

definition example_order :: PaymentOrder where
  "example_order = \<lparr> po_ID = 1, po_UserID = 5, po_Amount = 10, po_PayAmount = 10, po_RechargeCode = ''PAY-1-7'',
     po_OutTradeNo = ''sub2_x'', po_PaymentType = ''alipay'', po_PaymentTradeNo = [], po_OrderType = ''balance'',
     po_SubscriptionGroupID = None, po_SubscriptionDays = None, po_ProviderInstanceID = Some ''3'', po_ProviderKey = Some ''alipay'',
     po_ProviderSnapshot = [], po_Status = OrderStatusPending, po_RefundAmount = 0, po_RefundReason = None, po_RefundAt = None,
     po_ForceRefund = False, po_RefundRequestedAt = None, po_RefundRequestReason = None, po_RefundRequestedBy = None,
     po_ExpiresAt = 1000, po_PaidAt = None, po_CompletedAt = None, po_FailedAt = None, po_FailedReason = None,
     po_CreatedAt = 0, po_UpdatedAt = 0 \<rparr>"

definition example_pay_db :: pay_db where
  "example_pay_db = \<lparr> pd_orders = [example_order], pd_codes = [],
     pd_users = [\<lparr> us_ID = 5, us_Balance = 2, us_TotalRecharged = 0, us_Concurrency = 1 \<rparr>], pd_audits = [], pd_subs = [], pd_groups = [],
     pd_instances = [\<lparr> pi_ID = 3, pi_ProviderKey = ''alipay'', pi_SupportedTypes = ''alipay'', pi_Enabled = True,
       pi_RefundEnabled = True, pi_AllowUserRefund = True \<rparr>],
     pd_affiliates = \<lparr> ad_rows = [], ad_ledger = [] \<rparr>, pd_credits = [], pd_assigned = [] \<rparr>"

definition example_pay_env :: pay_env where
  "example_pay_env = \<lparr> pe_fold = (=), pe_upper = (\<lambda>s. s), pe_registry = None, pe_affiliate = None, pe_decimal = decimal_reference \<rparr>"

definition pay_ok_input :: "gotime \<Rightarrow> pay_input" where
  "pay_ok_input t = \<lparr> in_fate = Works, in_clock = t, in_dbnow = t, in_aff_codes = ([], []), in_provider = None, in_query = None,
     in_refund = (None, False), in_lock = Some True, in_attempts = Some 0, in_cache_ok = True \<rparr>"

definition example_notification :: PaymentNotification where
  "example_notification = \<lparr> pn_TradeNo = ''T9'', pn_OrderID = ''sub2_x'', pn_Amount = Fin 10, pn_Status = ''success'', pn_Metadata = [] \<rparr>"

text \<open>Two notifications of one payment, turn by turn.\<close>

definition pay_race :: "(pay_input, pay_request) happening list" where
  "pay_race = [Start (Notify example_notification ''alipay''), Start (Notify example_notification ''alipay'')] @
     concat (replicate 28 [Turn 0 (pay_ok_input 100), Turn 1 (pay_ok_input 100)])"

definition race_run :: "pay_db \<Rightarrow> (pay_cmd, pay_reply, unit, pay_db) world" where
  "race_run db = world_run (pay_exec example_pay_env) (pay_code example_pay_env) pay_race db"

definition sub_pay_db :: pay_db where
  "sub_pay_db = example_pay_db \<lparr> pd_orders := [example_order \<lparr> po_ID := 2, po_RechargeCode := ''PAY-2-3'', po_OrderType := ''subscription'',
       po_SubscriptionGroupID := Some 4, po_SubscriptionDays := Some 30 \<rparr>],
     pd_groups := [\<lparr> sg_ID = 4, sg_Status = ''active'', sg_SubscriptionType = ''subscription'', sg_DailyLimitUSD = None, sg_WeeklyLimitUSD = None, sg_MonthlyLimitUSD = None \<rparr>] \<rparr>"

lemma race_requests: "\<forall>u c. Start (RedeemByUser u c) \<in> set pay_race \<longrightarrow> may_redeem u c db"
  by (simp add: pay_race_def)

section \<open>Properties\<close>

text \<open>
  Property C1 (safety). A payment is credited at most once, and completed exactly when it was: in every
  run of any number of notifications, retries, cancellations, reconciliations, refunds and
  redemptions of codes (recharge codes only by the owner of the order), an order's recharge code has
  either given nothing, or exactly one credit of the amount of the order to the user of the order;
  and a balance order that is completed, or was and went into a refund, has given that credit. User
  and amount are those the order was created with.
\<close>

theorem payment_credited_once:
  assumes "fresh_db db" and "world_run (pay_exec E) (pay_code E) hs db = (ps, db')"
    and "\<forall>u c. Start (RedeemByUser u c) \<in> set hs \<longrightarrow> may_redeem u c db" and "r \<in> set (pd_orders db')"
  shows "credits_of (po_RechargeCode r) db' \<in> {[], [(po_RechargeCode r, po_UserID r, po_Amount r)]} \<and>
    (settled_status (po_Status r) \<and> po_OrderType r \<noteq> OrderTypeSubscription \<longrightarrow>
      credits_of (po_RechargeCode r) db' = [(po_RechargeCode r, po_UserID r, po_Amount r)]) \<and>
    (\<exists>r0 \<in> set (pd_orders db). po_ID r0 = po_ID r \<and> po_UserID r0 = po_UserID r \<and> po_Amount r0 = po_Amount r)"
proof -
  have "\<forall>q. Start q \<in> set hs \<longrightarrow> request_ok False db q"
    using assms(3) by (auto simp: request_ok_def split: pay_request.split)
  note w = pay_world [OF fresh_ok [OF assms(1)] assms(2) this]
  have r: "order_ok False db' r" using w(1) assms(4) by (simp add: pay_ok_def)
  obtain r0 where "r0 \<in> set (pd_orders db)" "order_same r0 r" using evolves_order_back [OF w(2) assms(4)] by blast
  then show ?thesis using r by (auto simp: order_ok_def fulfilled_def order_same_def split: if_splits)
qed

theorem payment_credited_once_witness:
  "map po_Status (pd_orders (snd (race_run example_pay_db))) = [OrderStatusCompleted] \<and>
   credits_of ''PAY-1-7'' (snd (race_run example_pay_db)) = [(''PAY-1-7'', 5, 10)]"
proof -
  let ?db = "snd (race_run example_pay_db)"
  have orders: "map (\<lambda>r. (po_Status r, po_RechargeCode r, po_UserID r, po_Amount r, po_OrderType r)) (pd_orders ?db) =
      [(OrderStatusCompleted, ''PAY-1-7'', 5, 10, ''balance'')]" by code_simp
  then obtain r where r: "pd_orders ?db = [r]" "po_Status r = OrderStatusCompleted" "po_RechargeCode r = ''PAY-1-7''"
    "po_UserID r = 5" "po_Amount r = 10" "po_OrderType r = ''balance''" by auto
  have fresh: "fresh_db example_pay_db" by code_simp
  have run: "world_run (pay_exec example_pay_env) (pay_code example_pay_env) pay_race example_pay_db = (fst (race_run example_pay_db), ?db)"
    by (simp add: race_run_def)
  have "credits_of (po_RechargeCode r) ?db = [(po_RechargeCode r, po_UserID r, po_Amount r)]"
    using payment_credited_once [OF fresh run race_requests, of r] r by (simp add: settled_status_def)
  then show ?thesis using r by simp
qed

text \<open>
  Property C2 (safety). The other grants of an order happen at most once as well: no order's
  subscription is assigned twice, no order gives the inviter two rebates, and a completed
  subscription order has the record of its assignment.
\<close>

theorem granted_once:
  assumes "fresh_db db" and "world_run (pay_exec E) (pay_code E) hs db = (ps, db')"
    and "\<forall>u c. Start (RedeemByUser u c) \<in> set hs \<longrightarrow> may_redeem u c db"
  shows "distinct (pd_assigned db') \<and> length (rebates_of i db') \<le> 1 \<and>
    (\<forall>r \<in> set (pd_orders db'). settled_status (po_Status r) \<and> po_OrderType r = OrderTypeSubscription \<longrightarrow>
       has_audit (po_ID r) assignment_audits db')"
proof -
  have "\<forall>q. Start q \<in> set hs \<longrightarrow> request_ok False db q"
    using assms(3) by (auto simp: request_ok_def split: pay_request.split)
  note w = pay_world [OF fresh_ok [OF assms(1)] assms(2) this]
  have "length (rebates_of i db') \<le> (if has_audit i rebate_audits db' then 1 else 0)" using w(1) unfolding pay_ok_def by blast
  then show ?thesis using w(1) by (auto simp: pay_ok_def order_ok_def fulfilled_def split: if_splits)
qed

theorem granted_once_witness:
  "map po_Status (pd_orders (snd (race_run sub_pay_db))) = [OrderStatusCompleted] \<and> pd_assigned (snd (race_run sub_pay_db)) = [2] \<and>
   has_audit 2 assignment_audits (snd (race_run sub_pay_db)) \<and> length (rebates_of 2 (snd (race_run sub_pay_db))) \<le> 1"
proof -
  let ?db = "snd (race_run sub_pay_db)"
  have orders: "map (\<lambda>r. (po_ID r, po_Status r, po_OrderType r)) (pd_orders ?db) = [(2, OrderStatusCompleted, ''subscription'')]" by code_simp
  then obtain r where r: "pd_orders ?db = [r]" "po_ID r = 2" "po_Status r = OrderStatusCompleted" "po_OrderType r = ''subscription''" by auto
  have fresh: "fresh_db sub_pay_db" by code_simp
  have run: "world_run (pay_exec example_pay_env) (pay_code example_pay_env) pay_race sub_pay_db = (fst (race_run sub_pay_db), ?db)"
    by (simp add: race_run_def)
  have "pd_assigned ?db = [2]" by code_simp
  then show ?thesis
    using granted_once [OF fresh run race_requests, of 2] r by (simp add: settled_status_def)
qed

text \<open>
  Property C4 (safety). Nothing is granted without a payment, under two conditions on the run: the provider
  refuses no order at its creation, and a recharge code is redeemed by hand only by the owner of its order. In
  every such run an order without the time of a payment is pending, cancelled or expired, its recharge code has
  given nothing and does not even exist as a code to redeem, its subscription has not been assigned, and the inviter of its user has
  got no rebate for it. The first condition is needed: a refused order is \<open>FAILED\<close>, which later notifications
  and retries take for a paid one (\<open>refused_order_credited\<close>).
\<close>

theorem credit_needs_payment:
  assumes "fresh_db db" and "world_run (pay_exec E) (pay_code E) hs db = (ps, db')"
    and "\<forall>u c. Start (RedeemByUser u c) \<in> set hs \<longrightarrow> may_redeem u c db" and "\<forall>i. Start (ProviderRefused i) \<notin> set hs"
    and "r \<in> set (pd_orders db')" and "po_PaidAt r = None"
  shows "credits_of (po_RechargeCode r) db' = [] \<and> find_code (po_RechargeCode r) db' = None \<and>
    po_ID r \<notin> set (pd_assigned db') \<and> rebates_of (po_ID r) db' = [] \<and>
    po_Status r \<in> {OrderStatusPending, OrderStatusCancelled, OrderStatusExpired}"
proof -
  have "\<forall>q. Start q \<in> set hs \<longrightarrow> request_ok True db q"
    using assms(3,4) by (auto simp: request_ok_def split: pay_request.split)
  note w = pay_world [OF fresh_ok [OF assms(1)] assms(2) this]
  have r: "order_ok True db' r" using w(1) assms(5) by (simp add: pay_ok_def)
  have unpaid: "\<not> paid True r" using assms(6) by (simp add: paid_def)
  then have code: "\<forall>c \<in> set (pd_codes db'). rc_Code c \<noteq> po_RechargeCode r" using r by (auto simp: order_ok_def)
  then have "\<not> code_used (po_RechargeCode r) db'" "find_code (po_RechargeCode r) db' = None"
    by (auto simp: code_used_def find_code_def find_None_iff)
  moreover have "\<not> has_grant (po_ID r) db'"
    using w(1) paid_order_iff [OF w(1) assms(5)] unpaid unfolding pay_ok_def by blast
  ultimately show ?thesis using r unpaid by (auto simp: order_ok_def active_def has_grant_def)
qed

definition cancel_run :: "(pay_input, pay_request) happening list" where
  "cancel_run = [Start (CancelByUser 1 5)] @ replicate 8 (Turn 0 (pay_ok_input 10))"

theorem credit_needs_payment_witness:
  "let db = snd (world_run (pay_exec example_pay_env) (pay_code example_pay_env) cancel_run example_pay_db)
   in map po_Status (pd_orders db) = [OrderStatusCancelled] \<and> credits_of ''PAY-1-7'' db = [] \<and>
      1 \<notin> set (pd_assigned db) \<and> rebates_of 1 db = []"
proof -
  let ?w = "world_run (pay_exec example_pay_env) (pay_code example_pay_env) cancel_run example_pay_db"
  have orders: "map (\<lambda>r. (po_ID r, po_Status r, po_RechargeCode r, po_PaidAt r)) (pd_orders (snd ?w)) =
      [(1, OrderStatusCancelled, ''PAY-1-7'', None)]" by code_simp
  then obtain r where r: "pd_orders (snd ?w) = [r]" "po_ID r = 1" "po_Status r = OrderStatusCancelled" "po_RechargeCode r = ''PAY-1-7''" "po_PaidAt r = None"
    by auto
  have fresh: "fresh_db example_pay_db" by code_simp
  have redeem: "\<forall>u c. Start (RedeemByUser u c) \<in> set cancel_run \<longrightarrow> may_redeem u c example_pay_db"
    and refused: "\<forall>i. Start (ProviderRefused i) \<notin> set cancel_run" by (simp_all add: cancel_run_def)
  have run: "?w = (fst ?w, snd ?w)" by simp
  from credit_needs_payment [OF fresh run redeem refused, of r] r show ?thesis by (simp add: Let_def)
qed

end
