(* ===== verification/Payment_Findings.thy ===== *)
theory Payment_Findings
  imports Payment_World
begin

text \<open>
  Runs of the payment service that end where its authors did not mean them to end. Each is one
  concrete run of the model, evaluated.
\<close>

text \<open>The request alone, its \<open>n\<close>-th command with the \<open>n\<close>-th input, on the tables.\<close>

definition alone :: "pay_request \<Rightarrow> (nat \<Rightarrow> pay_input) \<Rightarrow> pay_db \<Rightarrow> pay_db" where
  "alone q ins db = fst (snd (run_prog (pay_exec example_pay_env) (pay_code example_pay_env q) ins db))"

definition example_provider :: payment_provider where
  "example_provider = \<lparr> pv_Key = ''alipay'', pv_Cancelable = False, pv_QueriesRefunds = True, pv_Identity = [] \<rparr>"

definition refund_input :: "RefundResponse option \<times> bool \<Rightarrow> pay_input" where
  "refund_input resp = (pay_ok_input 200) \<lparr> in_provider := Some example_provider, in_refund := resp \<rparr>"

definition answers :: "string \<Rightarrow> nat \<Rightarrow> pay_input" where
  "answers status n = refund_input (Some \<lparr> rr_RefundID = ''R1'', rr_Status = status \<rparr>, False)"

definition losing :: "nat \<Rightarrow> (nat \<Rightarrow> pay_input) \<Rightarrow> nat \<Rightarrow> pay_input" where
  "losing k ins n = (if n = k then (ins n) \<lparr> in_fate := Lost_before \<rparr> else ins n)"

definition books :: "pay_db \<Rightarrow> (OrderStatus \<times> rat \<times> rat) list" where
  "books db = map (\<lambda>(r, u). (po_Status r, us_Balance u, us_TotalRecharged u)) (zip (pd_orders db) (pd_users db))"

text \<open>An order of 10 that was paid and credited to a balance of 40.\<close>

definition completed_db :: pay_db where
  "completed_db = alone (Notify example_notification ''alipay'') (\<lambda>_. pay_ok_input 100)
     (example_pay_db \<lparr> pd_users := [\<lparr> us_ID = 5, us_Balance = 40, us_TotalRecharged = 0, us_Concurrency = 1 \<rparr>] \<rparr>)"

lemma completed_books: "books completed_db = [(OrderStatusCompleted, 50, 10)]"
  by code_simp

text \<open>
  A refund for which the administrator asked not to deduct the balance keeps it when the provider
  refunds at once, and loses it when the provider first answers \<open>pending\<close>: \<open>refundFinalizePlan\<close> deducts
  always.
\<close>

lemma deduct_choice_lost:
  "books (alone (AdminRefund 1 (Fin 0) [] False False) (answers ''success'') completed_db) = [(OrderStatusRefunded, 50, 10)] \<and>
   books (alone (FinalizeRefund 1) (answers ''success'')
     (alone (AdminRefund 1 (Fin 0) [] False False) (answers ''pending'') completed_db)) = [(OrderStatusRefunded, 40, 10)]"
  by code_simp

text \<open>
  A second attempt that the provider leaves pending cannot record that its deduction was not rolled
  back, since the audit log keeps one row of each action, so the finalisation deducts a second time.
\<close>

lemma refund_deducts_twice:
  "let first = alone (AdminRefund 1 (Fin 0) [] False True) (answers ''pending'') completed_db;
       second = alone (AdminRefund 1 (Fin 0) [] False True) (losing 9 (answers ''pending'')) first
   in map fst (books second) = [OrderStatusRefundPending] \<and> map us_Balance (pd_users second) = [40] \<and>
      map us_Balance (pd_users (alone (FinalizeRefund 1) (answers ''success'') second)) = [30]"
  by code_simp

text \<open>The rollback of a refund adds the amount to the sum of all recharges, which only payments should.\<close>

lemma rollback_counts_as_recharge:
  "books (alone (AdminRefund 1 (Fin 0) [] False True) (\<lambda>_. refund_input (None, True)) completed_db) = [(OrderStatusCompleted, 50, 20)]"
  by code_simp

text \<open>
  When the last statement of a refund is lost the order stays in \<open>REFUNDING\<close>; no later request can take
  it from there.
\<close>

lemma refunding_is_final:
  "let db = alone (AdminRefund 1 (Fin 0) [] False True) (losing 10 (answers ''success'')) completed_db
   in map fst (books db) = [OrderStatusRefunding] \<and>
      map fst (books (alone (AdminRefund 1 (Fin 0) [] True True) (answers ''success'') db)) = [OrderStatusRefunding] \<and>
      map fst (books (alone (FinalizeRefund 1) (answers ''success'') db)) = [OrderStatusRefunding] \<and>
      map fst (books (alone (Retry 1) (answers ''success'') db)) = [OrderStatusRefunding]"
  by code_simp

text \<open>
  An order that \<open>CreateOrder\<close> marked \<open>FAILED\<close> although the provider had taken it: the notification
  of the payment credits it without recording the payment, and a refund then takes the balance back
  without asking the provider, whose calls fail in this run.
\<close>

lemma refused_order_credited:
  "let db = alone (Notify example_notification ''alipay'') (\<lambda>_. pay_ok_input 100)
         (alone (ProviderRefused 1) (\<lambda>_. pay_ok_input 50) example_pay_db);
       db' = alone (AdminRefund 1 (Fin 0) [] False True) (\<lambda>_. refund_input (None, True)) db
   in pd_credits db = [(''PAY-1-7'', 5, 10)] \<and> map po_PaidAt (pd_orders db) = [None] \<and> map po_PaymentTradeNo (pd_orders db) = [[]] \<and>
      books db' = [(OrderStatusRefunded, 2, 10)]"
  by code_simp

end
