(* ===== verification/Payment_Recovery.thy ===== *)
theory Payment_Recovery
  imports Payment_World
begin

text \<open>
  The way back from an interrupted fulfillment: one retry of the administrator without faults completes
  a paid balance order, at whatever point the earlier attempt stopped. The runs of this theory are
  those of one program alone (\<open>ends\<close>); that the order is credited exactly once by then follows from the
  invariant of \<open>Payment_Invariant\<close>, which the retry keeps.

  An input is \<open>calm\<close> when no statement is lost, Redis grants the lock of the code, the user is below
  the limit of failed redemptions, and a lease left behind has run out.
\<close>

definition calm :: "PaymentOrder \<Rightarrow> pay_input \<Rightarrow> bool" where
  "calm r inp \<longleftrightarrow>
     in_fate inp = Works \<and> in_lock inp \<noteq> Some False \<and> (\<forall>n. in_attempts inp = Some n \<longrightarrow> n < redeemMaxErrorsPerHour) \<and>
     (po_Status r = OrderStatusRecharging \<longrightarrow>
        po_UpdatedAt r \<le> in_clock inp - in_clock inp mod 1000 - paymentFulfillmentLeaseDuration)"

abbreviation pends :: "pay_env \<Rightarrow> PaymentOrder \<Rightarrow> 'a pay_prog \<Rightarrow> pay_db \<Rightarrow> ('a \<Rightarrow> pay_db \<Rightarrow> bool) \<Rightarrow> bool" where
  "pends E r0 \<equiv> ends (pay_exec E) (calm r0)"

text \<open>The tables the fulfillment reads.\<close>

definition same_core :: "pay_db \<Rightarrow> pay_db \<Rightarrow> bool" where
  "same_core db db' \<longleftrightarrow> pd_orders db' = pd_orders db \<and> pd_codes db' = pd_codes db \<and> pd_users db' = pd_users db"

lemma same_core_refl [simp]: "same_core db db"
  by (simp add: same_core_def)

lemma same_core_finds:
  "same_core db db' \<Longrightarrow> find_order i db' = find_order i db \<and> find_code c db' = find_code c db \<and>
    find_user u (pd_users db') = find_user u (pd_users db)"
  by (simp add: same_core_def find_order_def find_code_def)

lemma calm_works [simp]: "calm r0 inp \<Longrightarrow> in_fate inp = Works"
  by (simp add: calm_def)

lemma works_statement [simp]: "pay_statement Works db x = x"
  by (simp add: pay_statement_def)

lemma audit_core:
  assumes "calm r0 inp" and "pay_exec E inp (AddAudit i a op d) db = (r, db')"
  shows "same_core db db'"
  using assms by (auto simp: insert_audit_def same_core_def split: if_splits)

lemma ends_audit:
  assumes "\<And>db'. same_core db db' \<Longrightarrow> pends E r0 next db' Q"
  shows "pends E r0 (writeAuditLog i a op d next) db Q"
  unfolding writeAuditLog_def using assms audit_core by (intro ends_Do) blast

lemma ends_else: "\<not> b \<Longrightarrow> pends E r0 g db Q \<Longrightarrow> pends E r0 (if b then f else g) db Q"
  by simp

lemma ends_clock:
  assumes "\<And>inp. calm r0 inp \<Longrightarrow> pends E r0 (k (RTime (in_clock inp))) db Q"
  shows "pends E r0 (Do Clock k) db Q"
  using assms by (intro ends_Do) auto

lemma ends_order:
  assumes "find_order i db = Some r" and "pends E r0 (k (ROrder r)) db Q"
  shows "pends E r0 (Do (GetOrder i) k) db Q"
  using assms by (intro ends_Do) (simp add: pay_read_def)

lemma find_order_update:
  assumes "\<And>r. po_ID (u r) = po_ID r"
  shows "find_order i (update_orders now c u db) =
    map_option (\<lambda>r. if c r then u (r \<lparr> po_UpdatedAt := now \<rparr>) else r) (find_order i db)"
proof -
  have "find (\<lambda>r. po_ID r = i) (map f rs) = map_option f (find (\<lambda>r. po_ID r = i) rs)" if "\<And>r. po_ID (f r) = po_ID r" for f rs
    using that by (induction rs) simp_all
  from this [of "\<lambda>r. if c r then u (r \<lparr> po_UpdatedAt := now \<rparr>) else r"] show ?thesis
    using assms by (simp add: find_order_def update_orders_def)
qed

lemma find_order_in: "find_order i db = Some r \<Longrightarrow> r \<in> set (pd_orders db) \<and> po_ID r = i"
  using find_SomeD [of "\<lambda>r. po_ID r = i" "pd_orders db" r] by (simp add: find_order_def)

lemma ends_update:
  assumes "find_order i db = Some r" and "c r" and "\<And>r. po_ID (u r) = po_ID r"
    and "\<And>now n db'. 0 < n \<Longrightarrow> db' = update_orders now c u db \<Longrightarrow> find_order i db' = Some (u (r \<lparr> po_UpdatedAt := now \<rparr>)) \<Longrightarrow>
      pends E r0 (k (RCount n)) db' Q"
  shows "pends E r0 (Do (UpdateOrders c u) k) db Q"
proof (rule ends_Do)
  fix inp x db'
  assume inp: "calm r0 inp" "pay_exec E inp (UpdateOrders c u) db = (x, db')"
  then have x: "x = RCount (length (filter c (pd_orders db)))" "db' = update_orders (in_clock inp) c u db" by simp_all
  have "filter c (pd_orders db) \<noteq> []" using find_order_in [OF assms(1)] assms(2) by (auto simp: filter_empty_conv)
  moreover have "find_order i db' = Some (u (r \<lparr> po_UpdatedAt := in_clock inp \<rparr>))"
    using find_order_update [of u i "in_clock inp" c db] assms(1-3) x(2) by simp
  ultimately show "pends E r0 (k x) db' Q" using assms(4) x by simp
qed

lemma acquire_ends:
  assumes "find_order i db = Some r0" and "po_ID ord = i"
    and "po_Status r0 \<in> {OrderStatusPaid, OrderStatusFailed, OrderStatusRecharging}"
  shows "pends E r0 (acquirePaymentFulfillmentLease ord) db (\<lambda>a db'. \<exists>r'. a = Inr (Some (po_UpdatedAt r')) \<and>
    find_order i db' = Some r' \<and> po_Status r' = OrderStatusRecharging \<and> pd_codes db' = pd_codes db \<and> pd_users db' = pd_users db)"
  unfolding acquirePaymentFulfillmentLease_def Let_def
  using assms find_order_in [OF assms(1)]
  by (intro ends_clock ends_update [OF assms(1)])
    (auto simp: lease_free_def calm_def claim_lease_def as_count_def as_order_def as_time_def update_orders_def intro!: ends_order ends_Return)


text \<open>A row of the order's recharge code that can be redeemed.\<close>

definition redeemable :: "RedeemCode \<Rightarrow> bool" where
  "redeemable c \<longleftrightarrow> rc_Status c = StatusUnused \<and> rc_ExpiresAt c = None \<and> rc_Type c = RedeemTypeBalance"

lemma redeemable_now: "redeemable c \<Longrightarrow> \<not> IsExpiredAt t c \<and> CanUse t c"
  by (simp add: redeemable_def IsExpiredAt_def CanUse_def)

lemma find_code_in: "find_code c db = Some x \<Longrightarrow> x \<in> set (pd_codes db) \<and> rc_Code x = c"
  using find_SomeD [of "\<lambda>r. rc_Code r = c" "pd_codes db" x] by (simp add: find_code_def)

lemma find_append_None: "find P xs = None \<Longrightarrow> find P (xs @ ys) = find P ys"
  by (induction xs) (simp_all split: if_splits)

lemma CreateCode_ends:
  assumes "find_code (po_RechargeCode ord) db = None" and "po_RechargeCode ord \<noteq> []"
    and "strings_TrimSpace (po_RechargeCode ord) = po_RechargeCode ord" and "po_Amount ord \<noteq> 0"
  shows "pends E r0 (CreateCode (recharge_code ord)) db (\<lambda>e db'. e = None \<and> pd_orders db' = pd_orders db \<and> pd_users db' = pd_users db \<and>
    (\<exists>x. find_code (po_RechargeCode ord) db' = Some x \<and> redeemable x))"
proof -
  have ins: "insert_code (recharge_code ord) db = Inr (db \<lparr> pd_codes := pd_codes db @ [recharge_code ord \<lparr> rc_ID := next_code_id db \<rparr>] \<rparr>)"
    using assms(1) by (simp add: insert_code_def recharge_code_def)
  have "find_code (po_RechargeCode ord) (db \<lparr> pd_codes := pd_codes db @ [recharge_code ord \<lparr> rc_ID := next_code_id db \<rparr>] \<rparr>) =
      Some (recharge_code ord \<lparr> rc_ID := next_code_id db \<rparr>)"
    using find_append_None [OF assms(1) [unfolded find_code_def]] by (simp add: find_code_def recharge_code_def)
  moreover have "redeemable (recharge_code ord \<lparr> rc_ID := next_code_id db \<rparr>)" by (simp add: redeemable_def recharge_code_def)
  moreover have "CreateCode (recharge_code ord) = Do Clock (\<lambda>now. if IsExpiredAt (as_time now) (recharge_code ord) then Return (Some ErrRedeemCodeExpired)
      else Do (InsertCode (recharge_code ord)) (\<lambda>r. Return (map_option (Wrapped ''create redeem code'') (as_outcome r))))"
    using assms(2-4) by (simp add: CreateCode_def Let_def recharge_code_def cong: if_cong)
  moreover have "\<not> IsExpiredAt t (recharge_code ord)" for t by (simp add: IsExpiredAt_def recharge_code_def)
  ultimately show ?thesis using ins by (auto intro!: ends_clock ends_Do ends_Return simp: as_outcome_def)
qed

lemma use_code_works:
  assumes "x \<in> set (pd_codes db)" and "redeemable x" and "find_user u (pd_users db) \<noteq> None"
  shows "\<exists>db'. use_code_tx now x u db = Inr db' \<and> pd_orders db' = pd_orders db \<and> code_by_id (rc_ID x) db' \<noteq> None"
proof -
  let ?db = "mark_code_used now (rc_ID x) u db"
  have "filter (\<lambda>r. rc_ID r = rc_ID x \<and> rc_Status r = StatusUnused) (pd_codes db) \<noteq> []"
    using assms(1,2) by (auto simp: filter_empty_conv redeemable_def)
  moreover have "\<exists>us. (if rc_Value x < 0 then ApplyRedeemBalanceAdjustment u (rc_Value x) (pd_users ?db)
      else UpdateBalance u (rc_Value x) (pd_users ?db)) = Inr us"
    using assms(3) by (auto simp: ApplyRedeemBalanceAdjustment_def UpdateBalance_def on_user_def mark_code_used_def)
  then obtain us where "(if rc_Value x < 0 then ApplyRedeemBalanceAdjustment u (rc_Value x) (pd_users ?db)
      else UpdateBalance u (rc_Value x) (pd_users ?db)) = Inr us" ..
  ultimately have "use_code_tx now x u db = Inr (?db \<lparr> pd_users := us, pd_credits := pd_credits ?db @ [(rc_Code x, u, rc_Value x)] \<rparr>)"
    using assms(2) by (simp add: use_code_tx_def grant_code_def redeemable_def with_users_def)
  moreover have "map rc_ID (pd_codes ?db) = map rc_ID (pd_codes db)" by (simp add: mark_code_used_def)
  then have "rc_ID x \<in> rc_ID ` set (pd_codes ?db)" using assms(1) by (metis image_eqI list.set_map)
  then have "code_by_id (rc_ID x) (?db \<lparr> pd_users := us, pd_credits := cs \<rparr>) \<noteq> None" for cs
    by (auto simp: code_by_id_def find_None_iff)
  ultimately show ?thesis by (simp add: mark_code_used_def)
qed

lemma Redeem_ends:
  assumes "find_code c db = Some x" and "redeemable x" and "find_user u (pd_users db) \<noteq> None"
  shows "pends E r0 (Redeem True u c) db (\<lambda>a db'. \<not> isl a \<and> pd_orders db' = pd_orders db)"
proof -
  obtain y where y: "find_user u (pd_users db) = Some y" using assms(3) by blast
  have reload: "pends E r0 (reload_code i) s (\<lambda>a db'. \<not> isl a \<and> pd_orders db' = pd_orders db)"
    if "code_by_id i s \<noteq> None" "pd_orders s = pd_orders db" for i s
    unfolding reload_code_def using that by (intro ends_Do) (auto simp: pay_read_def as_code_def intro!: ends_Return)
  have app: "pends E r0 (redeem_apply True u x) db (\<lambda>a db'. \<not> isl a \<and> pd_orders db' = pd_orders db)"
    unfolding redeem_apply_def
  proof (rule ends_Do)
    fix inp z s
    assume "calm r0 inp" "pay_exec E inp (GetUser u) db = (z, s)"
    then have s: "s = db" "as_user z = Inr y" using y by (auto simp: pay_read_def as_user_def)
    have "pends E r0 (Do (UseCode_tx x u) (\<lambda>r. case as_outcome r of Some e \<Rightarrow> Return (Inl e) | None \<Rightarrow> reload_code (rc_ID x))) db
        (\<lambda>a db'. \<not> isl a \<and> pd_orders db' = pd_orders db)"
    proof (rule ends_Do)
      fix inp z s
      assume i: "calm r0 inp" "pay_exec E inp (UseCode_tx x u) db = (z, s)"
      obtain db' where "use_code_tx (in_clock inp) x u db = Inr db'" "pd_orders db' = pd_orders db" "code_by_id (rc_ID x) db' \<noteq> None"
        using use_code_works [OF _ assms(2,3)] find_code_in [OF assms(1)] by blast
      then show "pends E r0 (case as_outcome z of Some e \<Rightarrow> Return (Inl e) | None \<Rightarrow> reload_code (rc_ID x)) s
          (\<lambda>a db'. \<not> isl a \<and> pd_orders db' = pd_orders db)"
        using i reload by (auto simp: pay_tx_def as_outcome_def)
    qed
    then show "pends E r0 (case as_user z of
         Inl e \<Rightarrow> Return (Inl (Wrapped ''get user'' (Fault e)))
       | Inr _ \<Rightarrow>
           Do (UseCode_tx x u) (\<lambda>r. case as_outcome r of
             Some e \<Rightarrow> Return (Inl e)
           | None \<Rightarrow>
               if rc_Type x = RedeemTypeBalance \<and> 0 < rc_Value x \<and> \<not> True
               then Do (Accrue_tx u (rc_Value x)) (\<lambda>_. reload_code (rc_ID x))
               else reload_code (rc_ID x))) s (\<lambda>a db'. \<not> isl a \<and> pd_orders db' = pd_orders db)"
      unfolding s by simp
  qed
  have "pends E r0 (redeem_locked True u c) db (\<lambda>a db'. \<not> isl a \<and> pd_orders db' = pd_orders db)"
    unfolding redeem_locked_def
    using assms(1) redeemable_now [OF assms(2)] app assms(2)
    by (intro ends_Do) (auto simp: pay_read_def as_code_def redeemable_def intro!: ends_clock)
  then have "pends E r0 (bind_prog (redeem_locked True u c) (\<lambda>res. Do (ReleaseRedeemLock c) (\<lambda>_. Return res))) db
      (\<lambda>a db'. \<not> isl a \<and> pd_orders db' = pd_orders db)"
    by (rule ends_bind) (auto intro!: ends_Do ends_Return)
  note locked = this
  have attempts: "\<not> (case r of RAttempts (Some n) \<Rightarrow> redeemMaxErrorsPerHour \<le> n | _ \<Rightarrow> False)" "s' = s"
    if "calm r0 inp" "pay_exec E inp (RedeemAttempts u) s = (r, s')" for inp r s s'
    using that by (auto simp: calm_def split: option.splits)
  have lock: "\<not> (case r of RLock (Some False) \<Rightarrow> True | _ \<Rightarrow> False)" "s' = s"
    if "calm r0 inp" "pay_exec E inp (AcquireRedeemLock c) s = (r, s')" for inp r s s'
    using that by (auto simp: calm_def split: option.splits bool.splits)
  show ?thesis
    unfolding Redeem_def
  proof (rule ends_Do, rule ends_else, goal_cases)
    case (1 inp r s)
    then show ?case by (rule attempts)
  next
    case (2 inp r s)
    then have s: "s = db" by (rule attempts)
    show ?case
      unfolding s
    proof (rule ends_Do, rule ends_else, goal_cases)
      case (1 inp r s)
      then show ?case by (rule lock)
    next
      case (2 inp r s)
      then have "s = db" by (rule lock)
      then show ?case using locked by simp
    qed
  qed
qed

lemma rebate_ends: "pends E r0 (applyAffiliateRebateForOrder E ord) db (\<lambda>e db'. e = None \<and> same_core db db')"
proof -
  have core: "same_core db (rebate_tx st now codes ord base db)" for st now codes base
    by (simp add: rebate_tx_def Let_def same_core_def)
  show ?thesis
    unfolding applyAffiliateRebateForOrder_def Let_def
    by (auto simp: as_outcome_def intro!: ends_Do ends_Return core split: option.splits)
qed

lemma markCompleted_ends:
  assumes "find_order (po_ID ord) db = Some r" and "po_Status r = OrderStatusRecharging"
  shows "pends E r0 (markCompleted ord (po_UpdatedAt r) action) db (\<lambda>e db'. e = None \<and>
    (\<exists>r'. find_order (po_ID ord) db' = Some r' \<and> po_Status r' = OrderStatusCompleted))"
proof -
  have tail: "pends E r0 (bind_prog (hasAuditLog i action) (\<lambda>has. if has then Return None else writeAuditLog i action op d (Return None))) s
      (\<lambda>e db'. e = (None :: pay_error option) \<and> (\<exists>r'. find_order (po_ID ord) db' = Some r' \<and> po_Status r' = OrderStatusCompleted))"
    if "find_order (po_ID ord) s = Some r'" "po_Status r' = OrderStatusCompleted" for i op d s r'
    by (rule ends_bind [where R = "\<lambda>a s'. s' = s"])
      (use that in \<open>auto simp: hasAuditLog_def same_core_def find_order_def intro!: ends_Do ends_Return ends_audit\<close>)
  show ?thesis
    unfolding markCompleted_def
    using find_order_in [OF assms(1)] assms(2)
    by (intro ends_clock ends_update [OF assms(1)]) (auto simp: leased_def as_count_def intro!: tail)
qed

lemma complete_recharge_ends:
  assumes "find_order (po_ID ord) db = Some r" and "po_Status r = OrderStatusRecharging"
  shows "pends E r0 (complete_recharge E ord (po_UpdatedAt r)) db (\<lambda>e db'. e = None \<and>
    (\<exists>r'. find_order (po_ID ord) db' = Some r' \<and> po_Status r' = OrderStatusCompleted))"
  unfolding complete_recharge_def
  by (rule ends_bind [OF rebate_ends]) (use assms same_core_finds in \<open>auto intro!: markCompleted_ends\<close>)

lemma redeem_recharge_ends:
  assumes "find_order (po_ID ord) db = Some r" and "po_Status r = OrderStatusRecharging"
    and "find_code (po_RechargeCode ord) db = Some x" and "redeemable x" and "find_user (po_UserID ord) (pd_users db) \<noteq> None"
  shows "pends E r0 (redeem_recharge E ord (po_UpdatedAt r)) db (\<lambda>e db'. e = None \<and>
    (\<exists>r'. find_order (po_ID ord) db' = Some r' \<and> po_Status r' = OrderStatusCompleted))"
  unfolding redeem_recharge_def
proof (rule ends_bind [OF Redeem_ends [OF assms(3-5)]])
  fix a :: "pay_error + RedeemCode" and db' :: pay_db
  assume "\<not> isl a \<and> pd_orders db' = pd_orders db"
  then show "pends E r0 (case a of Inl e \<Rightarrow> Return (Some (Wrapped ''redeem balance'' e)) | Inr _ \<Rightarrow> complete_recharge E ord (po_UpdatedAt r)) db'
      (\<lambda>e db'. e = None \<and> (\<exists>r'. find_order (po_ID ord) db' = Some r' \<and> po_Status r' = OrderStatusCompleted))"
    using complete_recharge_ends [of ord db' r] assms(1,2) by (cases a) (simp_all add: find_order_def)
qed

text \<open>The states of the recharge code in which the fulfillment can go on.\<close>

definition code_usable :: "string \<Rightarrow> pay_db \<Rightarrow> bool" where
  "code_usable c db \<longleftrightarrow> (case find_code c db of None \<Rightarrow> True | Some x \<Rightarrow> IsUsed x \<or> redeemable x)"

lemma doBalance_ends:
  assumes "find_order (po_ID ord) db = Some r" and "po_Status r = OrderStatusRecharging"
    and "code_usable (po_RechargeCode ord) db" and "find_user (po_UserID ord) (pd_users db) \<noteq> None"
    and "po_RechargeCode ord \<noteq> []" and "strings_TrimSpace (po_RechargeCode ord) = po_RechargeCode ord" and "po_Amount ord \<noteq> 0"
  shows "pends E r0 (doBalance E ord (po_UpdatedAt r)) db (\<lambda>e db'. e = None \<and>
    (\<exists>r'. find_order (po_ID ord) db' = Some r' \<and> po_Status r' = OrderStatusCompleted))"
  unfolding doBalance_def
proof (rule ends_Do)
  fix inp z s
  assume "calm r0 inp" "pay_exec E inp (GetCode (po_RechargeCode ord)) db = (z, s)"
  then have s: "s = db" and z: "as_code z = (case find_code (po_RechargeCode ord) db of None \<Rightarrow> Inl RowNotFound | Some x \<Rightarrow> Inr x)"
    by (auto simp: pay_read_def as_code_def split: option.splits)
  have create: "pends E r0 (bind_prog (CreateCode (recharge_code ord)) (\<lambda>e. case e of
        Some e \<Rightarrow> Return (Some (Wrapped ''create redeem code'' e)) | None \<Rightarrow> redeem_recharge E ord (po_UpdatedAt r))) db
      (\<lambda>e db'. e = None \<and> (\<exists>r'. find_order (po_ID ord) db' = Some r' \<and> po_Status r' = OrderStatusCompleted))"
    if "find_code (po_RechargeCode ord) db = None"
  proof (rule ends_bind [OF CreateCode_ends [OF that assms(5-7)]], elim conjE exE, goal_cases)
    case (1 a s' x)
    then have "find_order (po_ID ord) s' = Some r" "find_user (po_UserID ord) (pd_users s') \<noteq> None"
      using assms(1,4) by (simp_all add: find_order_def)
    then show ?case using redeem_recharge_ends [OF _ assms(2)] 1 by simp
  qed
  show "pends E r0 (case resolveRedeemAction (as_code z) of
       redeemActionSkipCompleted \<Rightarrow> complete_recharge E ord (po_UpdatedAt r)
     | redeemActionCreate \<Rightarrow>
         bind_prog (CreateCode (recharge_code ord)) (\<lambda>e. case e of
           Some e \<Rightarrow> Return (Some (Wrapped ''create redeem code'' e)) | None \<Rightarrow> redeem_recharge E ord (po_UpdatedAt r))
     | redeemActionRedeem \<Rightarrow> redeem_recharge E ord (po_UpdatedAt r)) s
      (\<lambda>e db'. e = None \<and> (\<exists>r'. find_order (po_ID ord) db' = Some r' \<and> po_Status r' = OrderStatusCompleted))"
    unfolding s z
    using create complete_recharge_ends [OF assms(1,2)] redeem_recharge_ends [OF assms(1,2) _ _ assms(4)] assms(3)
    by (auto simp: resolveRedeemAction_def code_usable_def split: option.splits)
qed


lemma retry_ends:
  assumes "find_order i db = Some r" and "po_PaidAt r \<noteq> None"
    and "po_Status r \<in> {OrderStatusPaid, OrderStatusFailed, OrderStatusRecharging}" and "po_OrderType r \<noteq> OrderTypeSubscription"
    and "code_usable (po_RechargeCode r) db" and "find_user (po_UserID r) (pd_users db) \<noteq> None"
    and "po_RechargeCode r \<noteq> []" and "strings_TrimSpace (po_RechargeCode r) = po_RechargeCode r" and "po_Amount r \<noteq> 0"
  shows "pends E r (RetryFulfillment E i) db (\<lambda>e db'. e = None \<and>
    (\<exists>r'. find_order i db' = Some r' \<and> po_Status r' = OrderStatusCompleted))"
proof -
  let ?Q = "\<lambda>e db'. e = (None :: pay_error option) \<and> (\<exists>r'. find_order i db' = Some r' \<and> po_Status r' = OrderStatusCompleted)"
  have i: "po_ID r = i" using find_order_in [OF assms(1)] by simp
  have guard: "fulfill_guard r = None" using assms(3) by (auto simp: fulfill_guard_def)
  have work: "pends E r (with_lease r (doBalance E r)) s ?Q" if core: "same_core db s" for s
    unfolding with_lease_def
  proof (rule ends_bind [OF acquire_ends])
    show "find_order i s = Some r" using same_core_finds [OF core] assms(1) by simp
    fix a :: "pay_error + gotime option" and s' :: pay_db
    assume "\<exists>r'. a = Inr (Some (po_UpdatedAt r')) \<and> find_order i s' = Some r' \<and> po_Status r' = OrderStatusRecharging \<and>
      pd_codes s' = pd_codes s \<and> pd_users s' = pd_users s"
    then obtain r' where a: "a = Inr (Some (po_UpdatedAt r'))" and r': "find_order (po_ID r) s' = Some r'" "po_Status r' = OrderStatusRecharging"
      and s': "pd_codes s' = pd_codes db" "pd_users s' = pd_users db" using core i by (auto simp: same_core_def)
    have "code_usable (po_RechargeCode r) s'" using assms(5) s'(1) by (simp add: code_usable_def find_code_def)
    then have "pends E r (doBalance E r (po_UpdatedAt r')) s' ?Q"
      using doBalance_ends [OF r' _ _ assms(7-9)] assms(6) s'(2) i by simp
    then show "pends E r (case a of Inl e \<Rightarrow> Return (Some e) | Inr None \<Rightarrow> Return None
      | Inr (Some version) \<Rightarrow> bind_prog (doBalance E r version) (\<lambda>e. case e of None \<Rightarrow> Return None
          | Some e \<Rightarrow> bind_prog (markFailed (po_ID r) version e) (\<lambda>_. Return (Some e)))) s' ?Q"
      unfolding a by (auto intro!: ends_Return elim!: ends_bind)
  qed (use i assms(3) in simp_all)
  have "pends E r (executeFulfillment E i) s ?Q" if "same_core db s" for s
  proof -
    have r: "find_order i s = Some r" using same_core_finds [OF that] assms(1) by simp
    show ?thesis
      unfolding executeFulfillment_def ExecuteBalanceFulfillment_def
      using assms(4) guard work [OF that] by (auto simp: as_order_def intro!: ends_order [OF r])
  qed
  then show ?thesis
    unfolding RetryFulfillment_def using assms(2,3)
    by (auto simp: as_order_def intro!: ends_order [OF assms(1)] ends_audit)
qed

section \<open>An interrupted fulfillment\<close>

text \<open>The worker stops after the recharge code was created and before it is redeemed.\<close>

definition crash_run :: "(pay_input, pay_request) happening list" where
  "crash_run = Start (Notify example_notification ''alipay'') # replicate 14 (Turn 0 (pay_ok_input 100))"

definition crashed_db :: pay_db where
  "crashed_db = snd (world_run (pay_exec example_pay_env) (pay_code example_pay_env) crash_run example_pay_db)"

lemma crashed_ok: "pay_ok True crashed_db"
proof -
  let ?w = "world_run (pay_exec example_pay_env) (pay_code example_pay_env) crash_run example_pay_db"
  have "fresh_db example_pay_db" by code_simp
  moreover have "\<forall>q. Start q \<in> set crash_run \<longrightarrow> request_ok True example_pay_db q" by (simp add: crash_run_def request_ok_def)
  ultimately show ?thesis using pay_world(1) [OF fresh_ok, of example_pay_db example_pay_env crash_run "fst ?w" "snd ?w"]
    by (simp add: crashed_db_def)
qed

text \<open>
  Property C12 (liveness). A retry completes a paid order: from any state of the tables that the service
  can be in, for an order that was paid, of whatever status an interrupted fulfillment leaves (paid,
  failed, or recharging with a lease that has run out), with its recharge code not yet created,
  created or used, a retry in which no statement is lost returns no error, leaves the order
  completed, and its recharge code has then given exactly one credit of the order's amount to its
  user.
\<close>

theorem retry_completes:
  assumes "pay_ok strict db" and "r \<in> set (pd_orders db)" and "po_PaidAt r \<noteq> None"
    and "po_Status r \<in> {OrderStatusPaid, OrderStatusFailed, OrderStatusRecharging}" and "po_OrderType r \<noteq> OrderTypeSubscription"
    and "po_Amount r \<noteq> 0" and "find_user (po_UserID r) (pd_users db) \<noteq> None" and "code_usable (po_RechargeCode r) db"
    and "\<forall>n. calm r (ins n)" and "run_prog (pay_exec E) (RetryFulfillment E (po_ID r)) ins db = (e, db', ins')"
  shows "e = None \<and> (\<exists>r'. find_order (po_ID r) db' = Some r' \<and> po_Status r' = OrderStatusCompleted) \<and>
    credits_of (po_RechargeCode r) db' = [(po_RechargeCode r, po_UserID r, po_Amount r)]"
proof -
  have r_ok: "order_ok strict db r" using assms(1,2) by (simp add: pay_ok_def)
  have "find_order (po_ID r) db = Some r"
    unfolding find_order_def using assms(2) order_unique [OF assms(1)] by (intro find_the) auto
  from ends_run [OF retry_ends [OF this assms(3,4,5,8,7) _ _ assms(6)] assms(9,10)]
  obtain r' where e: "e = None" and r': "find_order (po_ID r) db' = Some r'" "po_Status r' = OrderStatusCompleted"
    using r_ok by (auto simp: order_ok_def)
  from pay.good_run [OF triple_good [OF RetryFulfillment_safe assms(1)] assms(1,10)]
  have db': "pay_ok strict db'" "pay_evolves db db'" by simp_all
  have in': "r' \<in> set (pd_orders db')" "po_ID r' = po_ID r" using find_order_in [OF r'(1)] by simp_all
  obtain r0 where r0: "r0 \<in> set (pd_orders db)" "order_same r0 r'" using evolves_order_back [OF db'(2) in'(1)] by blast
  then have "po_ID r0 = po_ID r" using in'(2) by (simp add: order_same_def)
  then have "r0 = r" by (rule order_unique [OF assms(1) r0(1) assms(2)])
  then have same: "order_same r r'" using r0(2) by simp
  have "order_ok strict db' r'" using db'(1) in'(1) by (simp add: pay_ok_def)
  then show ?thesis
    using e r' same assms(5) by (auto simp: order_ok_def fulfilled_def settled_status_def order_same_def split: if_splits)
qed

theorem retry_completes_witness:
  "let res = run_prog (pay_exec example_pay_env) (RetryFulfillment example_pay_env 1) (\<lambda>_. pay_ok_input (10 * Minute)) crashed_db
   in map po_Status (pd_orders crashed_db) = [OrderStatusRecharging] \<and> pd_credits crashed_db = [] \<and>
      fst res = None \<and> credits_of ''PAY-1-7'' (fst (snd res)) = [(''PAY-1-7'', 5, 10)]"
proof -
  let ?res = "run_prog (pay_exec example_pay_env) (RetryFulfillment example_pay_env 1) (\<lambda>_. pay_ok_input (10 * Minute)) crashed_db"
  have "map (\<lambda>r. (po_ID r, po_Status r, po_RechargeCode r, po_UserID r, po_Amount r)) (pd_orders crashed_db) =
      [(1, OrderStatusRecharging, ''PAY-1-7'', 5, 10)]" by code_simp
  moreover have "map (\<lambda>r. (po_OrderType r, po_PaidAt r, po_UpdatedAt r)) (pd_orders crashed_db) = [(''balance'', Some 100, 0)]" by code_simp
  ultimately obtain r where r: "pd_orders crashed_db = [r]" "po_ID r = 1" "po_Status r = OrderStatusRecharging" "po_RechargeCode r = ''PAY-1-7''"
    "po_UserID r = 5" "po_Amount r = 10" "po_OrderType r = ''balance''" "po_PaidAt r = Some 100" "po_UpdatedAt r = 0" by auto
  have facts: "find_user 5 (pd_users crashed_db) \<noteq> None" "code_usable ''PAY-1-7'' crashed_db" "pd_credits crashed_db = []"
    by code_simp+
  have "in_clock (pay_ok_input (10 * Minute)) - in_clock (pay_ok_input (10 * Minute)) mod 1000 - paymentFulfillmentLeaseDuration \<ge> 0"
    by code_simp
  then have inputs: "\<forall>n :: nat. calm r (pay_ok_input (10 * Minute))"
    using r by (simp add: calm_def pay_ok_input_def redeemMaxErrorsPerHour_def)
  have run: "run_prog (pay_exec example_pay_env) (RetryFulfillment example_pay_env (po_ID r)) (\<lambda>_. pay_ok_input (10 * Minute)) crashed_db =
      (fst ?res, fst (snd ?res), snd (snd ?res))" using r(2) by simp
  have "fst ?res = None \<and> credits_of (po_RechargeCode r) (fst (snd ?res)) = [(po_RechargeCode r, po_UserID r, po_Amount r)]"
    using retry_completes [OF crashed_ok _ _ _ _ _ _ _ inputs run] r facts by simp
  then show ?thesis using r facts(3) by (simp add: Let_def)
qed

end
