(* ===== verification/Payment_Checks.thy ===== *)
theory Payment_Checks
  imports Payment_World
begin

text \<open>
  The checks in front of the tables: what a notification with a wrong amount or a wrong merchant can
  change, that amounts survive the conversion to minor units and back, and that a refund never asks
  the gateway for more than was paid.
\<close>

section \<open>Notifications that do not fit the order\<close>

definition mismatched :: "pay_env \<Rightarrow> PaymentOrder \<Rightarrow> gofloat \<Rightarrow> string \<Rightarrow> (string \<times> string) list \<Rightarrow> bool" where
  "mismatched E r amt pk metadata \<longleftrightarrow>
     \<not> isValidProviderAmount amt \<or>
     (case amt of
        Fin q \<Rightarrow> paymentAmountToleranceForCurrency (pe_upper E) (PaymentOrderCurrency (pe_upper E) r) < \<bar>q - po_PayAmount r\<bar>
      | _ \<Rightarrow> True) \<or>
     validateProviderSnapshotMetadata (pe_fold E) (pe_upper E) r pk metadata \<noteq> None"

lemma confirm_check_mismatched:
  assumes "mismatched E r amt pk metadata"
  shows "\<exists>x. confirm_check E r key tradeNo amt pk metadata = Inl x"
  using assms
  by (auto simp: mismatched_def confirm_check_def Let_def isValidProviderAmount_def split: option.splits gofloat.splits)

text \<open>Programs that only read.\<close>

fun reads :: "pay_cmd \<Rightarrow> bool" where
  "reads (GetOrder i) = True"
| "reads (FindOrder tn) = True"
| "reads (QueryOrders c) = True"
| "reads (GetInstance i) = True"
| "reads (QueryInstances c) = True"
| "reads c = False"

primrec reading :: "'a pay_prog \<Rightarrow> bool" where
  "reading (Return a) = True"
| "reading (Do c k) = (reads c \<and> (\<forall>r. reading (k r)))"

lemma reads_exec: "reads c \<Longrightarrow> snd (pay_exec E inp c db) = db"
  by (cases c) (auto simp: pay_statement_def pay_read_def split: fate.splits option.splits list.splits)

lemma reading_run:
  assumes "reading p" and "run_prog (pay_exec E) p ins db = (a, db', ins')"
  shows "db' = db"
  using assms
proof (induction p arbitrary: ins db)
  case (Do c k)
  obtain r db1 where e: "pay_exec E (ins 0) c db = (r, db1)" by (rule prod.exhaust)
  then have "db1 = db" using Do.prems(1) reads_exec [of c E "ins 0" db] by simp
  then show ?case using Do.IH [of "k r"] Do.prems e by auto
qed simp

lemma getOrderProviderInstance_reading: "reading (getOrderProviderInstance E ord)"
  by (auto simp: getOrderProviderInstance_def resolveSnapshotOrderProviderInstance_def
      resolveUniqueLegacyOrderProviderInstance_def Let_def split: option.split sum.split db_fault.split)

lemma write_audit_run:
  assumes "run_prog (pay_exec E) (writeAuditLog i action op d (Return e)) ins db = (e', db', ins')"
  shows "e' = e \<and> db' = db \<lparr> pd_audits := pd_audits db' \<rparr>"
  using assms
  by (auto simp: writeAuditLog_def pay_statement_def insert_audit_def split: prod.splits fate.splits sum.splits if_splits)

text \<open>
  Property C13 (error). A notification that does not fit its order moves nothing: when the amount is no
  positive finite number, is off by more than the tolerance of the currency, or the merchant of the
  notification is not the one the order was created with, \<open>confirmPayment\<close> leaves every table but the audit
  log as it was, whichever statements fail, and returns an error as soon as it could read the order.
\<close>

theorem wrong_payment_rejected:
  assumes "\<forall>r. find_order oid db = Some r \<longrightarrow> mismatched E r amt pk metadata"
    and "run_prog (pay_exec E) (confirmPayment E oid tradeNo amt pk metadata) ins db = (e, db', ins')"
  shows "db' = db \<lparr> pd_audits := pd_audits db' \<rparr> \<and>
    (find_order oid db \<noteq> None \<and> in_fate (ins 0) = Works \<longrightarrow> e \<noteq> None)"
proof -
  obtain rep db1 where get: "pay_exec E (ins 0) (GetOrder oid) db = (rep, db1)" by (rule prod.exhaust)
  have db1: "db1 = db" using reads_exec [of "GetOrder oid" E "ins 0" db] get by simp
  show ?thesis
  proof (cases "as_order rep")
    case (Inl f)
    then have "e = None \<and> db' = db" using assms(2) get db1 by (simp add: confirmPayment_def)
    moreover have "\<not> (find_order oid db \<noteq> None \<and> in_fate (ins 0) = Works)"
      using get Inl by (auto simp: pay_read_def pay_statement_def as_order_def)
    ultimately show ?thesis by simp
  next
    case (Inr ord)
    then have ord: "find_order oid db = Some ord"
      using get by (auto simp: pay_read_def pay_statement_def as_order_def split: fate.splits option.splits)
    obtain inst db2 ins2 where inst: "run_prog (pay_exec E) (getOrderProviderInstance E ord) (\<lambda>n. ins (Suc n)) db = (inst, db2, ins2)"
      using prod_cases3 by blast
    have db2: "db2 = db" by (rule reading_run [OF getOrderProviderInstance_reading inst])
    let ?key = "case inst of Inr (Some x) \<Rightarrow> pi_ProviderKey x | _ \<Rightarrow> []"
    obtain action d err where check: "confirm_check E ord ?key tradeNo amt pk metadata = Inl (action, d, err)"
      using confirm_check_mismatched assms(1) ord by (metis prod_cases3)
    have "run_prog (pay_exec E) (writeAuditLog (po_ID ord) action pk d (Return (Some err))) ins2 db = (e, db', ins')"
      using assms(2) get db1 db2 Inr inst check by (simp add: confirmPayment_def run_prog_bind Let_def)
    from write_audit_run [OF this] show ?thesis by simp
  qed
qed

theorem wrong_payment_rejected_witness:
  "let r = run_prog (pay_exec example_pay_env) (confirmPayment example_pay_env 1 ''T9'' (Fin 9) ''alipay'' []) (\<lambda>_. pay_ok_input 100) example_pay_db
   in fst (snd r) = example_pay_db \<lparr> pd_audits := pd_audits (fst (snd r)) \<rparr> \<and> fst r \<noteq> None \<and> length (pd_audits (fst (snd r))) = 1"
proof -
  let ?r = "run_prog (pay_exec example_pay_env) (confirmPayment example_pay_env 1 ''T9'' (Fin 9) ''alipay'' []) (\<lambda>_. pay_ok_input 100) example_pay_db"
  have order: "find_order 1 example_pay_db = Some example_order" by code_simp
  have "mismatched example_pay_env example_order (Fin 9) ''alipay'' []" by code_simp
  moreover have "length (pd_audits (fst (snd ?r))) = 1" by code_simp
  ultimately show ?thesis
    using wrong_payment_rejected [of 1 example_pay_db example_pay_env "Fin 9" "''alipay''" "[]" "''T9''" "\<lambda>_. pay_ok_input 100"
        "fst ?r" "fst (snd ?r)" "snd (snd ?r)"] order
    by (simp add: pay_ok_input_def Let_def)
qed

section \<open>Minor units\<close>

definition visible :: "char \<Rightarrow> bool" where
  "visible ch \<longleftrightarrow> 33 \<le> byte_of ch \<and> byte_of ch \<le> 126"

lemma spaces_invisible: "\<forall>x \<in> set unicode_spaces. x \<noteq> [] \<and> \<not> visible (hd x) \<and> \<not> visible (last x)"
proof -
  have "list_all (\<lambda>x. x \<noteq> [] \<and> \<not> visible (hd x) \<and> \<not> visible (last x)) unicode_spaces" by code_simp
  then show ?thesis by (simp add: list_all_iff)
qed

lemma prefix_hd: "prefix x s \<Longrightarrow> x \<noteq> [] \<Longrightarrow> hd x \<in> set s"
  by (auto simp: prefix_def)

lemma visible_trim:
  assumes "list_all visible s"
  shows "strings_TrimSpace s = s"
proof -
  have "trim_prefixes unicode_spaces s = s"
    using assms spaces_invisible prefix_hd unfolding trim_prefixes_fixed_iff list_all_iff by blast
  moreover have "trim_prefixes (map rev unicode_spaces) (rev s) = rev s"
    unfolding trim_prefixes_fixed_iff
  proof (intro ballI impI notI)
    fix x assume x: "x \<in> set (map rev unicode_spaces)" "prefix x (rev s)"
    then obtain y where y: "y \<in> set unicode_spaces" "x = rev y" by auto
    then have "hd x = last y" "x \<noteq> []" using spaces_invisible by (auto simp: hd_rev)
    then show False using prefix_hd [OF x(2)] y(1) spaces_invisible assms by (auto simp: list_all_iff)
  qed
  ultimately show ?thesis by (simp add: strings_TrimSpace_def)
qed

lemma upper_capitals:
  assumes "list_all (\<lambda>ch. 65 \<le> byte_of ch \<and> byte_of ch \<le> 90) s"
  shows "strings_ToUpper u s = s"
  using assms by (auto simp: strings_ToUpper_def ascii_string_def ascii_upper_def list_all_iff intro!: map_idI)

text \<open>A currency code that was normalised once is kept.\<close>

lemma normalize_again:
  assumes "NormalizePaymentCurrency upper raw = Some c"
  shows "NormalizePaymentCurrency upper c = Some c"
proof -
  have "list_all (\<lambda>ch. 65 \<le> byte_of ch \<and> byte_of ch \<le> 90) ''CNY''" by code_simp
  then have c: "length c = 3" "list_all (\<lambda>ch. 65 \<le> byte_of ch \<and> byte_of ch \<le> 90) c"
    using assms by (auto simp: NormalizePaymentCurrency_def Let_def split: if_splits)
  then have "list_all visible c" by (auto simp: visible_def list_all_iff)
  then show ?thesis using c by (auto simp: NormalizePaymentCurrency_def visible_trim upper_capitals)
qed

lemma unit_normalized:
  "NormalizePaymentCurrency upper raw = Some c \<Longrightarrow> paymentCurrencyAmountUnitFor upper c = paymentCurrencyAmountUnitFor upper raw"
  by (simp add: paymentCurrencyAmountUnitFor_def normalize_again)

lemma unit_digits: "snd (paymentCurrencyAmountUnitFor upper c) \<le> fst (paymentCurrencyAmountUnitFor upper c)"
  by (auto simp: paymentCurrencyAmountUnitFor_def paymentCurrencyAmountUnits_def split: option.split if_splits)

lemma more_digits:
  fixes q :: rat
  assumes "q * 10 ^ m \<in> \<int>" and "m \<le> n"
  shows "q * 10 ^ n \<in> \<int>"
proof -
  have "q * 10 ^ n = q * 10 ^ m * 10 ^ (n - m)" using assms(2) by (simp add: mult.assoc flip: power_add)
  moreover have "q * 10 ^ m * 10 ^ (n - m) \<in> \<int>" by (intro Ints_mult assms(1) Ints_power) simp
  ultimately show ?thesis by metis
qed

lemma unit_small:
  "fst (paymentCurrencyAmountUnitFor upper c) \<le> 16" "snd (paymentCurrencyAmountUnitFor upper c) \<le> 16"
  by (auto simp: paymentCurrencyAmountUnitFor_def paymentCurrencyAmountUnits_def split: option.split if_splits)

text \<open>
  Amounts survive the way to the provider: whenever \<open>AmountToMinorUnit\<close> accepts an
  amount and its number of minor units fits 64 bits, the conversion back gives exactly the amount, for
  every currency; and it accepts an amount exactly when the currency is a code of three letters (or
  empty) and the amount has no more decimals than the currency allows.
\<close>

theorem minor_units_exact:
  assumes "decimal_library D" and "\<bar>d * 10 ^ CurrencyMinorUnit upper currency\<bar> < 2 ^ 63"
  shows "case AmountToMinorUnit D upper (Some d) currency of
      Inr v \<Rightarrow> MinorUnitToAmount D upper v currency = d \<and>
        NormalizePaymentCurrency upper currency \<noteq> None \<and> d * 10 ^ CurrencyMaxFractionDigits upper currency \<in> \<int>
    | Inl _ \<Rightarrow> NormalizePaymentCurrency upper currency = None \<or> d * 10 ^ CurrencyMaxFractionDigits upper currency \<notin> \<int>"
proof (cases "NormalizePaymentCurrency upper currency")
  case (Some c)
  let ?u = "paymentCurrencyAmountUnitFor upper currency" and ?x = "d * 10 ^ CurrencyMaxFractionDigits upper currency"
  note defs = AmountToMinorUnit_def Let_def unit_normalized [OF Some] CurrencyMaxFractionDigits_def
  note trunc = decimal_library.Truncate_int [OF assms(1), of ?x]
  show ?thesis
  proof (cases "?x \<in> \<int>")
    case False
    then show ?thesis using trunc Some by (auto simp: defs)
  next
    case True
    have "d * 10 ^ fst ?u = ?x * 10 ^ (fst ?u - snd ?u)"
      using unit_digits [of upper currency] by (simp add: CurrencyMaxFractionDigits_def mult.assoc flip: power_add)
    moreover have "?x * 10 ^ (fst ?u - snd ?u) \<in> \<int>" by (intro Ints_mult True Ints_power) simp
    ultimately have "d * 10 ^ fst ?u \<in> \<int>" by metis
    then obtain k where k: "d * 10 ^ fst ?u = of_int k" by (rule Ints_cases)
    then have "dl_IntPart D (of_int k) = k"
      using decimal_library.IntPart_int [OF assms(1), of "of_int k"] assms(2) by (simp add: CurrencyMinorUnit_def)
    then have "AmountToMinorUnit D upper (Some d) currency = Inr k" using Some k True trunc by (auto simp: defs)
    moreover have "of_int k / 10 ^ fst ?u = d" using k by (simp flip: k)
    moreover have "of_int k / 10 ^ fst ?u * 10 ^ 16 \<in> (\<int> :: rat set)"
      by (rule more_digits [OF _ unit_small(1) [of upper currency]]) simp
    ultimately show ?thesis
      using True Some decimal_library.Div_exact [OF assms(1), of "10 ^ fst ?u" "of_int k"]
      by (simp add: MinorUnitToAmount_def CurrencyMinorUnit_def)
  qed
qed (simp add: AmountToMinorUnit_def)

theorem minor_units_exact_witness:
  "AmountToMinorUnit decimal_reference (\<lambda>s. s) (Some (1234 / 100)) ''usd'' = Inr 1234 \<and>
   MinorUnitToAmount decimal_reference (\<lambda>s. s) 1234 ''usd'' = 1234 / 100"
proof -
  have unit: "CurrencyMinorUnit (\<lambda>s. s) ''usd'' = 2" by code_simp
  have "AmountToMinorUnit decimal_reference (\<lambda>s. s) (Some (1234 / 100)) ''usd'' = Inr 1234" by code_simp
  then show ?thesis
    using minor_units_exact [OF dref.decimal_library_axioms, of "1234 / 100" "\<lambda>s. s" "''usd''"] unit by simp
qed

section \<open>Gateway amounts of refunds\<close>

context decimal_library
begin

lemma Round_error: "m \<le> n \<Longrightarrow> \<bar>dl_Round D n q - q\<bar> * 10 ^ m \<le> 1 / 2"
  using Round_near [of n q] power_increasing [of m n "10 :: rat"] mult_left_mono [of "10 ^ m" "10 ^ n" "\<bar>dl_Round D n q - q\<bar>"]
  by simp

text \<open>The share of a partial refund, in 16 digits and in the digits of the currency.\<close>

lemma refund_share:
  assumes "0 < pay" and "0 < order" and "0 \<le> refund" and "refund \<le> order" and "pay * 10 ^ n \<in> \<int>" and "n \<le> 16"
    and "g = dl_Round D n (dl_Div D (pay * refund) order)"
  shows "0 \<le> g" and "g \<le> pay" and "\<bar>g - pay * refund / order\<bar> * 10 ^ n \<le> 1"
proof -
  let ?x = "pay * refund / order"
  have d: "dl_Div D (pay * refund) order = dl_Round D 16 ?x" using assms(2) by (simp add: Div_rounds)
  have x: "0 \<le> ?x" "?x \<le> pay" using assms(1-4) by (simp_all add: pos_divide_le_eq mult_left_mono)
  then have le: "0 \<le> dl_Round D 16 ?x" "dl_Round D 16 ?x \<le> pay"
    using Round_nonneg Round_mono [of ?x pay 16] Round_exact [OF more_digits [OF assms(5,6)]] by simp_all
  then show "0 \<le> g" "g \<le> pay"
    using Round_nonneg Round_mono [OF le, of n] Round_exact [OF assms(5)] by (simp_all add: assms(7) d)
  have "\<bar>g - ?x\<bar> * 10 ^ n \<le> \<bar>g - dl_Round D 16 ?x\<bar> * 10 ^ n + \<bar>dl_Round D 16 ?x - ?x\<bar> * 10 ^ n"
    unfolding distrib_right [symmetric] by (intro mult_right_mono) simp_all
  then show "\<bar>g - ?x\<bar> * 10 ^ n \<le> 1"
    using Round_near [of n "dl_Round D 16 ?x"] Round_error [OF assms(6), of ?x] by (simp add: assms(7) d)
qed

end

text \<open>
  Property C34 (bounds). A refund never asks the gateway for more than was paid. The premises: the decimal library
  keeps its promises, the payment has at most the digits of its currency, as every accepted amount has, and the
  refund passed the check of \<open>PrepareRefund\<close>, at most the tolerance above the amount of the order. Then the amount
  for the gateway is not negative and at most the payment; a refund of the whole order asks for exactly the payment;
  and a refund below the amount of the order by more than the tolerance asks for its share of the payment, up
  to one smallest unit of the currency.
\<close>

theorem gateway_refund_bounded:
  assumes "decimal_library D" and "refundAmount - orderAmount \<le> paymentAmountToleranceForCurrency upper currency"
    and "0 < payAmount" and "0 < orderAmount" and "payAmount * 10 ^ CurrencyMaxFractionDigits upper currency \<in> \<int>"
    and "g = calculateGatewayRefundAmount D upper orderAmount payAmount refundAmount currency"
  shows "0 \<le> g \<and> g \<le> payAmount \<and> (refundAmount = orderAmount \<longrightarrow> g = payAmount) \<and>
    (0 < refundAmount \<and> refundAmount < orderAmount - paymentAmountToleranceForCurrency upper currency \<longrightarrow>
      \<bar>g - payAmount * refundAmount / orderAmount\<bar> * 10 ^ CurrencyMaxFractionDigits upper currency \<le> 1)"
proof -
  let ?tol = "paymentAmountToleranceForCurrency upper currency" and ?n = "CurrencyMaxFractionDigits upper currency"
  have tol: "0 \<le> ?tol" by (simp add: paymentAmountToleranceForCurrency_def psOrderCurrencyTolerance_def)
  have n: "?n \<le> 16" by (simp add: CurrencyMaxFractionDigits_def unit_small)
  consider "refundAmount \<le> 0" | "0 < refundAmount" "\<bar>refundAmount - orderAmount\<bar> \<le> ?tol"
    | "0 < refundAmount" "\<not> \<bar>refundAmount - orderAmount\<bar> \<le> ?tol" by linarith
  then show ?thesis
  proof cases
    case 1
    then show ?thesis using assms(3,4,6) by (auto simp: calculateGatewayRefundAmount_def)
  next
    case 2
    then have "g = payAmount"
      using assms(3-6) decimal_library.Round_exact [OF assms(1,5)] by (simp add: calculateGatewayRefundAmount_def)
    then show ?thesis using 2 assms(3) by auto
  next
    case 3
    then have less: "refundAmount < orderAmount" using assms(2) tol by linarith
    have "g = dl_Round D ?n (dl_Div D (payAmount * refundAmount) orderAmount)"
      using 3 assms(3,4,6) by (simp add: calculateGatewayRefundAmount_def Let_def)
    from decimal_library.refund_share [OF assms(1,3,4) _ _ assms(5) n this]
    show ?thesis using less 3(1) by simp
  qed
qed

theorem gateway_refund_bounded_witness:
  "calculateGatewayRefundAmount decimal_reference (\<lambda>s. s) 20 10 5 ''CNY'' = 5 / 2 \<and>
   calculateGatewayRefundAmount decimal_reference (\<lambda>s. s) 20 10 5 ''CNY'' \<le> 10"
proof -
  have "CurrencyMaxFractionDigits (\<lambda>s. s) ''CNY'' = 2" "paymentAmountToleranceForCurrency (\<lambda>s. s) ''CNY'' = 1 / 100"
    "calculateGatewayRefundAmount decimal_reference (\<lambda>s. s) 20 10 5 ''CNY'' = 5 / 2" by code_simp+
  then show ?thesis
    using gateway_refund_bounded [OF dref.decimal_library_axioms _ _ _ _ refl, of 5 20 "\<lambda>s. s" "''CNY''" 10] by simp
qed

end
