(* ===== verification/Payment_Balancer.thy ===== *)
theory Payment_Balancer
  imports Payment_World "HOL-Library.Word"
begin

text \<open>
  The choice of a provider instance for a new order (\<open>payment/load_balancer.go\<close>): the enabled instances
  that support the method, what each has taken today, the limits of the channel, and the strategy.

  A row of the instance table carries here what the choice reads: the limits as decoded from their JSON
  (none when the text is empty or unreadable), the decrypted configuration (\<open>decryptConfig\<close> gives an
  empty one instead of an error), the position in the order of the rows and the payment mode. The
  counter of the round robin is an atomic 64-bit word.
\<close>

section \<open>Instances and their limits\<close>

record ChannelLimits =
  cl_DailyLimit :: rat
  cl_SingleMin :: rat
  cl_SingleMax :: rat

definition no_limits :: ChannelLimits where
  "no_limits = \<lparr> cl_DailyLimit = 0, cl_SingleMin = 0, cl_SingleMax = 0 \<rparr>"

record lb_instance = PaymentProviderInstance +
  li_Limits :: "(string \<times> ChannelLimits) list"
  li_Config :: "(string \<times> string) list"
  li_SortOrder :: int
  li_PaymentMode :: string

record InstanceSelection =
  se_InstanceID :: string
  se_ProviderKey :: string
  se_Config :: "(string \<times> string) list"
  se_SupportedTypes :: string
  se_PaymentMode :: string

definition legacyVisibleMethodAlias :: "string \<Rightarrow> string" where
  "legacyVisibleMethodAlias paymentType =
     (if normalizeVisibleMethodSupportType paymentType = ''alipay'' then ''alipay_direct''
      else if normalizeVisibleMethodSupportType paymentType = ''wxpay'' then ''wxpay_direct''
      else [])"

definition getInstanceChannelLimits :: "lb_instance \<Rightarrow> string \<Rightarrow> ChannelLimits" where
  "getInstanceChannelLimits inst paymentType =
     (let lookupKey = (if pi_ProviderKey inst = ''stripe'' then ''stripe'' else paymentType);
          aliasKey = legacyVisibleMethodAlias lookupKey
      in case map_of (li_Limits inst) lookupKey of
           Some cl \<Rightarrow> cl
         | None \<Rightarrow>
             if aliasKey = [] then no_limits
             else case map_of (li_Limits inst) aliasKey of Some cl \<Rightarrow> cl | None \<Rightarrow> no_limits)"

definition resolveWxpayJSAPIAppID :: "(string \<times> string) list \<Rightarrow> string" where
  "resolveWxpayJSAPIAppID config =
     (if strings_TrimSpace (metadata_get config ''mpAppId'') \<noteq> [] then strings_TrimSpace (metadata_get config ''mpAppId'')
      else strings_TrimSpace (metadata_get config ''appId''))"

text \<open>
  \<open>queryEnabledInstances\<close>. The argument \<open>expectedAppID\<close> is the application of the WeChat browser, empty
  when the context carries none; rows of equal position keep their order in the table.
\<close>

definition supports_order :: "string \<Rightarrow> string \<Rightarrow> lb_instance \<Rightarrow> bool" where
  "supports_order expectedAppID paymentType inst =
     (if paymentType = ''stripe'' then pi_ProviderKey inst = ''stripe''
      else InstanceSupportsType (pi_SupportedTypes inst) paymentType \<and>
           (expectedAppID \<noteq> [] \<and> normalizeVisibleMethodSupportType paymentType = ''wxpay'' \<and> pi_ProviderKey inst = ''wxpay''
              \<longrightarrow> resolveWxpayJSAPIAppID (li_Config inst) = expectedAppID))"

definition queryEnabledInstances :: "lb_instance list \<Rightarrow> string \<Rightarrow> string \<Rightarrow> string \<Rightarrow> pay_error + lb_instance list" where
  "queryEnabledInstances rows expectedAppID providerKey paymentType =
     (let instances = sort_key li_SortOrder (filter (\<lambda>x. pi_Enabled x \<and> (providerKey \<noteq> [] \<longrightarrow> pi_ProviderKey x = providerKey)) rows);
          matched = filter (supports_order expectedAppID paymentType) instances
      in if matched = [] then Inl (Plain (''no enabled instance for payment type '' @ paymentType)) else Inr matched)"

definition counts_today :: "gotime \<Rightarrow> int \<Rightarrow> PaymentOrder \<Rightarrow> bool" where
  "counts_today todayStart i r \<longleftrightarrow>
     po_ProviderInstanceID r = Some (strconv_FormatInt i) \<and> todayStart \<le> po_CreatedAt r \<and>
     po_Status r \<in> {OrderStatusPending, OrderStatusPaid, OrderStatusCompleted, OrderStatusRecharging}"

text \<open>\<open>attachDailyUsage\<close>: \<open>orders\<close> is \<open>None\<close> when the query failed, which counts as no usage.\<close>

definition used_today :: "gotime \<Rightarrow> PaymentOrder list option \<Rightarrow> lb_instance \<Rightarrow> rat" where
  "used_today todayStart orders x =
     (case orders of
        None \<Rightarrow> 0
      | Some rs \<Rightarrow> sum_list (map po_PayAmount (filter (counts_today todayStart (pi_ID x)) rs)))"

definition attachDailyUsage :: "gotime \<Rightarrow> PaymentOrder list option \<Rightarrow> lb_instance list \<Rightarrow> (lb_instance \<times> rat) list" where
  "attachDailyUsage todayStart orders instances = map (\<lambda>x. (x, used_today todayStart orders x)) instances"

definition fits :: "string \<Rightarrow> rat \<Rightarrow> lb_instance \<times> rat \<Rightarrow> bool" where
  "fits paymentType orderAmount c =
     (let cl = getInstanceChannelLimits (fst c) paymentType
      in \<not> (0 < cl_SingleMin cl \<and> orderAmount < cl_SingleMin cl) \<and>
         \<not> (0 < cl_SingleMax cl \<and> cl_SingleMax cl < orderAmount) \<and>
         \<not> (0 < cl_DailyLimit cl \<and> cl_DailyLimit cl < snd c + orderAmount))"

definition filterByLimits :: "(lb_instance \<times> rat) list \<Rightarrow> string \<Rightarrow> rat \<Rightarrow> (lb_instance \<times> rat) list" where
  "filterByLimits candidates paymentType orderAmount = filter (fits paymentType orderAmount) candidates"

section \<open>Strategies\<close>

fun least_amount :: "lb_instance \<times> rat \<Rightarrow> (lb_instance \<times> rat) list \<Rightarrow> lb_instance \<times> rat" where
  "least_amount best [] = best"
| "least_amount best (c # cs) = least_amount (if snd c < snd best then c else best) cs"

definition pickLeastAmount :: "(lb_instance \<times> rat) list \<Rightarrow> lb_instance \<times> rat" where
  "pickLeastAmount candidates = least_amount (hd candidates) (tl candidates)"

definition pickByStrategy :: "64 word \<Rightarrow> (lb_instance \<times> rat) list \<Rightarrow> string \<Rightarrow> (lb_instance \<times> rat) \<times> 64 word" where
  "pickByStrategy counter candidates strategy =
     (if strategy = ''least-amount'' \<and> 1 < length candidates then (pickLeastAmount candidates, counter)
      else (candidates ! (unat (counter + 1) mod length candidates), counter + 1))"

definition buildSelection :: "lb_instance \<Rightarrow> InstanceSelection" where
  "buildSelection x =
     \<lparr> se_InstanceID = strconv_FormatInt (pi_ID x), se_ProviderKey = pi_ProviderKey x,
       se_Config = (if li_PaymentMode x \<noteq> [] then AList.update ''paymentMode'' (li_PaymentMode x) (li_Config x) else li_Config x),
       se_SupportedTypes = pi_SupportedTypes x, se_PaymentMode = li_PaymentMode x \<rparr>"

definition available_candidates ::
  "gotime \<Rightarrow> PaymentOrder list option \<Rightarrow> lb_instance list \<Rightarrow> string \<Rightarrow> rat \<Rightarrow> (lb_instance \<times> rat) list" where
  "available_candidates todayStart orders instances paymentType orderAmount =
     (let candidates = attachDailyUsage todayStart orders instances;
          available = filterByLimits candidates paymentType orderAmount
      in if available = [] then candidates else available)"

definition SelectInstance ::
  "gotime \<Rightarrow> PaymentOrder list option \<Rightarrow> lb_instance list \<Rightarrow> string \<Rightarrow> string \<Rightarrow> string \<Rightarrow> string \<Rightarrow> rat \<Rightarrow> 64 word \<Rightarrow>
     pay_error + InstanceSelection \<times> 64 word" where
  "SelectInstance todayStart orders rows expectedAppID providerKey paymentType strategy orderAmount counter =
     (case queryEnabledInstances rows expectedAppID providerKey paymentType of
        Inl e \<Rightarrow> Inl e
      | Inr instances \<Rightarrow>
          let (selected, counter) = pickByStrategy counter (available_candidates todayStart orders instances paymentType orderAmount) strategy
          in Inr (buildSelection (fst selected), counter))"

section \<open>The choice\<close>

lemma least_amount_min:
  "least_amount best cs \<in> set (best # cs) \<and> (\<forall>c \<in> set (best # cs). snd (least_amount best cs) \<le> snd c)"
proof (induction best cs rule: least_amount.induct)
  case (2 best c cs)
  then show ?case by (cases "snd c < snd best") (force simp: not_less)+
qed simp

lemma pick_in:
  assumes "candidates \<noteq> []"
  shows "fst (pickByStrategy counter candidates strategy) \<in> set candidates"
proof (cases "strategy = ''least-amount'' \<and> 1 < length candidates")
  case True
  then have "pickLeastAmount candidates \<in> set (hd candidates # tl candidates)"
    unfolding pickLeastAmount_def using least_amount_min by blast
  then show ?thesis using assms True by (simp add: pickByStrategy_def)
next
  case False
  have "unat (counter + 1) mod length candidates < length candidates" using assms by simp
  then show ?thesis using False by (auto simp: pickByStrategy_def)
qed

lemma pick_least:
  assumes "c \<in> set candidates"
  shows "snd (fst (pickByStrategy counter candidates ''least-amount'')) \<le> snd c"
proof (cases "1 < length candidates")
  case True
  then have "candidates = hd candidates # tl candidates" by (cases candidates) auto
  then show ?thesis
    using assms True least_amount_min [of "hd candidates" "tl candidates"] by (simp add: pickByStrategy_def pickLeastAmount_def)
next
  case False
  then have "candidates = [c]" using assms by (cases candidates) auto
  then show ?thesis by (simp add: pickByStrategy_def)
qed

definition eligible :: "lb_instance list \<Rightarrow> string \<Rightarrow> string \<Rightarrow> string \<Rightarrow> lb_instance \<Rightarrow> bool" where
  "eligible rows expectedAppID providerKey paymentType x \<longleftrightarrow>
     x \<in> set rows \<and> pi_Enabled x \<and> (providerKey \<noteq> [] \<longrightarrow> pi_ProviderKey x = providerKey) \<and> supports_order expectedAppID paymentType x"

lemma query_eligible:
  "queryEnabledInstances rows app key ty = Inr xs \<Longrightarrow> xs \<noteq> [] \<and> (\<forall>x. x \<in> set xs \<longleftrightarrow> eligible rows app key ty x)"
  "queryEnabledInstances rows app key ty = Inl e \<Longrightarrow> \<not> eligible rows app key ty x"
  by (auto simp: queryEnabledInstances_def eligible_def Let_def filter_empty_conv split: if_splits)

text \<open>
  Property C18 (functional). The instance of a new order: when no enabled instance supports the method
  the selection is refused; otherwise an instance is chosen that is enabled, of the wanted provider and
  supports the method, and if any such instance has room for the amount (single payment and day) the
  chosen one has, and with the strategy least-amount no instance with room has taken less today.
\<close>

theorem selection_best:
  "case SelectInstance todayStart orders rows app key ty strategy amount counter of
     Inl _ \<Rightarrow> \<forall>y. \<not> eligible rows app key ty y
   | Inr (sel, _) \<Rightarrow>
       \<exists>x. eligible rows app key ty x \<and> sel = buildSelection x \<and>
         (\<forall>y. eligible rows app key ty y \<and> fits ty amount (y, used_today todayStart orders y) \<longrightarrow>
            fits ty amount (x, used_today todayStart orders x) \<and>
            (strategy = ''least-amount'' \<longrightarrow> used_today todayStart orders x \<le> used_today todayStart orders y))"
proof (cases "queryEnabledInstances rows app key ty")
  case (Inl e)
  then show ?thesis using query_eligible(2) [OF Inl] by (simp add: SelectInstance_def)
next
  case (Inr xs)
  let ?u = "used_today todayStart orders" and ?cs = "available_candidates todayStart orders xs ty amount"
  let ?c = "fst (pickByStrategy counter ?cs strategy)"
  note el = query_eligible(1) [OF Inr]
  have cs: "set ?cs = (if \<exists>y \<in> set xs. fits ty amount (y, ?u y) then {(y, ?u y) |y. y \<in> set xs \<and> fits ty amount (y, ?u y)}
      else {(y, ?u y) |y. y \<in> set xs})"
    by (auto simp: available_candidates_def attachDailyUsage_def filterByLimits_def Let_def filter_empty_conv)
  then have "set ?cs \<noteq> {}" using el by (auto split: if_splits)
  then have c: "?c \<in> set ?cs" by (intro pick_in) auto
  then obtain x where x: "?c = (x, ?u x)" "x \<in> set xs" using cs by (auto split: if_splits)
  have "fits ty amount (x, ?u x) \<and> (strategy = ''least-amount'' \<longrightarrow> ?u x \<le> ?u y)"
    if y: "eligible rows app key ty y" "fits ty amount (y, ?u y)" for y
  proof -
    have "y \<in> set xs" using el y(1) by blast
    then have "set ?cs = {(y, ?u y) |y. y \<in> set xs \<and> fits ty amount (y, ?u y)}" using cs y(2) by (simp only: if_True) auto
    then have "?c \<in> {(y, ?u y) |y. y \<in> set xs \<and> fits ty amount (y, ?u y)}" "(y, ?u y) \<in> set ?cs" using c y(2) \<open>y \<in> set xs\<close> by auto
    then show ?thesis using x(1) pick_least [of "(y, ?u y)" ?cs counter] by auto
  qed
  moreover have "SelectInstance todayStart orders rows app key ty strategy amount counter =
      Inr (buildSelection x, snd (pickByStrategy counter ?cs strategy))"
    using Inr x(1) by (simp add: SelectInstance_def split_beta)
  ultimately show ?thesis using el x(2) by auto
qed

definition example_instance :: "int \<Rightarrow> rat \<Rightarrow> lb_instance" where
  "example_instance i daily = \<lparr> pi_ID = i, pi_ProviderKey = ''alipay'', pi_SupportedTypes = ''alipay'', pi_Enabled = True, pi_RefundEnabled = True,
     pi_AllowUserRefund = True, li_Limits = [(''alipay'', \<lparr> cl_DailyLimit = daily, cl_SingleMin = 0, cl_SingleMax = 0 \<rparr>)],
     li_Config = [], li_SortOrder = i, li_PaymentMode = [] \<rparr>"

theorem selection_best_witness:
  "let rows = [example_instance 3 15, example_instance 4 100]
   in \<exists>x c. SelectInstance 0 (Some [example_order]) rows [] [] ''alipay'' ''round-robin'' 10 0 = Inr (buildSelection x, c) \<and>
        eligible rows [] [] ''alipay'' x \<and> fits ''alipay'' 10 (x, used_today 0 (Some [example_order]) x) \<and>
        \<not> fits ''alipay'' 10 (example_instance 3 15, used_today 0 (Some [example_order]) (example_instance 3 15))"
proof -
  let ?rows = "[example_instance 3 15, example_instance 4 100]"
  obtain sel c where sel: "SelectInstance 0 (Some [example_order]) ?rows [] [] ''alipay'' ''round-robin'' 10 0 = Inr (sel, c)"
  proof -
    have "isl (SelectInstance 0 (Some [example_order]) ?rows [] [] ''alipay'' ''round-robin'' 10 0) = False" by code_simp
    then show ?thesis using that by (cases "SelectInstance 0 (Some [example_order]) ?rows [] [] ''alipay'' ''round-robin'' 10 0") auto
  qed
  have "eligible ?rows [] [] ''alipay'' (example_instance 4 100)"
    "fits ''alipay'' 10 (example_instance 4 100, used_today 0 (Some [example_order]) (example_instance 4 100))"
    "\<not> fits ''alipay'' 10 (example_instance 3 15, used_today 0 (Some [example_order]) (example_instance 3 15))" by code_simp+
  then show ?thesis
    using selection_best [where todayStart = 0 and orders = "Some [example_order]" and rows = ?rows and app = "[]" and key = "[]"
        and ty = "''alipay''" and strategy = "''round-robin''" and amount = 10 and counter = 0] sel
    by (auto simp: Let_def)
qed

text \<open>
  The round robin is fair: as many successive choices as there are candidates take each of them once,
  as long as the counter does not wrap.
\<close>

fun picks :: "(lb_instance \<times> rat) list \<Rightarrow> string \<Rightarrow> nat \<Rightarrow> 64 word \<Rightarrow> (lb_instance \<times> rat) list" where
  "picks cs strategy 0 counter = []"
| "picks cs strategy (Suc k) counter =
     (let (c, counter) = pickByStrategy counter cs strategy in c # picks cs strategy k counter)"

lemma picks_nth:
  assumes "strategy \<noteq> ''least-amount''" and "unat counter + k < 2 ^ 64"
  shows "picks cs strategy k counter = map (\<lambda>i. cs ! ((unat counter + 1 + i) mod length cs)) [0..<k]"
  using assms(2)
proof (induction k arbitrary: counter)
  case (Suc k)
  have "unat (counter + 1) = unat counter + 1" using Suc.prems by (subst unat_plus_if') simp
  then show ?case using assms(1) Suc.IH [of "counter + 1"] Suc.prems
    by (simp add: pickByStrategy_def map_upt_Suc del: upt_Suc)
qed simp

lemma round_robin_fair:
  assumes "strategy \<noteq> ''least-amount''" and "unat counter + length cs < 2 ^ 64"
  shows "mset (picks cs strategy (length cs) counter) = mset cs"
proof -
  have "picks cs strategy (length cs) counter = rotate (unat counter + 1) cs"
    unfolding picks_nth [OF assms] by (rule nth_equalityI) (simp_all add: nth_rotate del: rotate_Suc)
  moreover have "mset (rotate n cs) = mset cs" for n
    by (metis append_take_drop_id mset_append add.commute rotate_drop_take)
  ultimately show ?thesis by (simp only:)
qed

end
