(* ===== verification/Payment_Terms.thy ===== *)
theory Payment_Terms
  imports Payment_Checks Payment_Balancer
begin

text \<open>
  The terms of a new payment order (\<open>service/payment_order.go\<close>, \<open>payment/fee.go\<close>): the checks of the
  request, the amount to pay, and the snapshot of the chosen provider, with what becomes of it when the
  provider reports the payment. Texts of amounts stand for their values.
\<close>

section \<open>The amount to pay\<close>

definition CalculatePayAmountForCurrency :: "decimal_lib \<Rightarrow> (string \<Rightarrow> string) \<Rightarrow> rat \<Rightarrow> rat \<Rightarrow> string \<Rightarrow> rat" where
  "CalculatePayAmountForCurrency D upper rechargeAmount feeRate currency =
     (let fractionDigits = CurrencyMaxFractionDigits upper currency
      in if feeRate \<le> 0 then dl_StringFixed D fractionDigits rechargeAmount
         else
           let fee = dl_RoundUp D fractionDigits (dl_Div D (rechargeAmount * feeRate) 100)
           in dl_StringFixed D fractionDigits (rechargeAmount + fee))"

definition amount_error_text :: "amount_error \<Rightarrow> string" where
  "amount_error_text e = (case e of
       InvalidAmount \<Rightarrow> ''invalid amount''
     | InvalidCurrency \<Rightarrow> ''invalid payment currency''
     | TooManyDecimals n \<Rightarrow>
         if n = 0 then ''payment amount must be a whole number''
         else ''payment amount must not have more than '' @ strconv_FormatInt (int n) @ '' decimal places'')"

definition validateCreateOrderAmountCurrency :: "decimal_lib \<Rightarrow> (string \<Rightarrow> string) \<Rightarrow> rat \<Rightarrow> string \<Rightarrow> pay_error option" where
  "validateCreateOrderAmountCurrency D upper amount currency =
     (case AmountToMinorUnit D upper (Some amount) currency of
        Inl e \<Rightarrow> Some (pay_BadRequest ''INVALID_AMOUNT'' (amount_error_text e))
      | Inr _ \<Rightarrow> None)"

definition calculateCreateOrderPayAmount :: "decimal_lib \<Rightarrow> (string \<Rightarrow> string) \<Rightarrow> rat \<Rightarrow> rat \<Rightarrow> string \<Rightarrow> pay_error + rat" where
  "calculateCreateOrderPayAmount D upper limitAmount feeRate currency =
     (case validateCreateOrderAmountCurrency D upper limitAmount currency of
        Some e \<Rightarrow> Inl e
      | None \<Rightarrow>
          let payAmount = CalculatePayAmountForCurrency D upper limitAmount feeRate currency
          in case validateCreateOrderAmountCurrency D upper payAmount currency of Some e \<Rightarrow> Inl e | None \<Rightarrow> Inr payAmount)"

definition normalizeSubscriptionUSDToCNYRate :: "gofloat \<Rightarrow> rat" where
  "normalizeSubscriptionUSDToCNYRate rate = (case rate of Fin q \<Rightarrow> (if q < 0 then 0 else q) | _ \<Rightarrow> 0)"

definition calculateSubscriptionGatewayBaseAmount :: "decimal_lib \<Rightarrow> (string \<Rightarrow> string) \<Rightarrow> rat \<Rightarrow> gofloat \<Rightarrow> string \<Rightarrow> rat" where
  "calculateSubscriptionGatewayBaseAmount D upper amount usdToCnyRate currency =
     (let rate = normalizeSubscriptionUSDToCNYRate usdToCnyRate
      in if rate \<le> 0 \<or> currency \<noteq> DefaultPaymentCurrency then amount
         else dl_Round D (CurrencyMaxFractionDigits upper currency) (amount * rate))"

definition calculateCreateOrderPayAmountForOrderType ::
  "decimal_lib \<Rightarrow> (string \<Rightarrow> string) \<Rightarrow> rat \<Rightarrow> rat \<Rightarrow> string \<Rightarrow> string \<Rightarrow> gofloat \<Rightarrow> pay_error + rat" where
  "calculateCreateOrderPayAmountForOrderType D upper limitAmount feeRate currency orderType usdToCnyRate =
     calculateCreateOrderPayAmount D upper
       (if orderType = OrderTypeSubscription then calculateSubscriptionGatewayBaseAmount D upper limitAmount usdToCnyRate currency
        else limitAmount) feeRate currency"

context decimal_library
begin

lemma accepted_amount:
  "validateCreateOrderAmountCurrency D upper d currency = None \<longleftrightarrow>
     NormalizePaymentCurrency upper currency \<noteq> None \<and> d * 10 ^ CurrencyMaxFractionDigits upper currency \<in> \<int>"
proof (cases "NormalizePaymentCurrency upper currency")
  case (Some c)
  then show ?thesis
    using Truncate_int [of "d * 10 ^ CurrencyMaxFractionDigits upper currency"]
    by (auto simp: validateCreateOrderAmountCurrency_def AmountToMinorUnit_def Let_def unit_normalized [OF Some]
        CurrencyMaxFractionDigits_def)
qed (simp add: validateCreateOrderAmountCurrency_def AmountToMinorUnit_def)

text \<open>
  What a user is asked to pay: an amount in the digits of its currency is never
  refused for its fee; without a fee the payment is the amount, and with one it exceeds the amount by at
  least the fee and by less than one smallest unit of the currency more.
\<close>

lemma pay_amount_exact:
  assumes "validateCreateOrderAmountCurrency D upper a currency = None" and "0 \<le> a"
    and "fee = (if feeRate \<le> 0 then 0 else dl_Div D (a * feeRate) 100)"
  shows "\<exists>p. calculateCreateOrderPayAmount D upper a feeRate currency = Inr p \<and>
    a + fee \<le> p \<and> p < a + fee + 1 / 10 ^ CurrencyMaxFractionDigits upper currency \<and> (feeRate \<le> 0 \<longrightarrow> p = a)"
proof -
  let ?n = "CurrencyMaxFractionDigits upper currency"
  have a: "NormalizePaymentCurrency upper currency \<noteq> None" "a * 10 ^ ?n \<in> \<int>" using assms(1) by (simp_all add: accepted_amount)
  have fee: "0 \<le> fee" using assms(2,3) Div_nonneg by simp
  define up where "up = (if feeRate \<le> 0 then 0 else dl_RoundUp D ?n fee)"
  have up: "up * 10 ^ ?n \<in> \<int>" "fee \<le> up" "up < fee + 1 / 10 ^ ?n"
    using RoundUp_bounds [OF fee, of ?n] RoundUp_digits [of ?n fee] assms(3) by (cases "feeRate \<le> 0"; simp add: up_def)+
  have sum: "(a + up) * 10 ^ ?n \<in> \<int>" using a(2) up(1) by (simp add: distrib_right)
  have "CalculatePayAmountForCurrency D upper a feeRate currency = dl_Round D ?n (a + up)"
    using assms(3) by (simp add: CalculatePayAmountForCurrency_def StringFixed_rounds Let_def up_def)
  then have "CalculatePayAmountForCurrency D upper a feeRate currency = a + up" using Round_exact [OF sum] by simp
  moreover have "validateCreateOrderAmountCurrency D upper (a + up) currency = None" using a(1) sum accepted_amount by blast
  ultimately have "calculateCreateOrderPayAmount D upper a feeRate currency = Inr (a + up)"
    using assms(1) by (simp add: calculateCreateOrderPayAmount_def)
  then show ?thesis using up by (auto simp: up_def)
qed

lemma pay_at_least:
  assumes "calculateCreateOrderPayAmount D upper a feeRate currency = Inr p" and "0 \<le> a"
  shows "a \<le> p"
proof -
  have "validateCreateOrderAmountCurrency D upper a currency = None"
    using assms(1) by (auto simp: calculateCreateOrderPayAmount_def split: option.splits)
  note exact = pay_amount_exact [OF this assms(2) refl, of feeRate]
  have "0 \<le> (if feeRate \<le> 0 then 0 else dl_Div D (a * feeRate) 100)" using assms(2) Div_nonneg by simp
  then show ?thesis using exact assms(1) by auto
qed

end

section \<open>The snapshot of the provider\<close>

definition paymentProviderConfigCurrency :: "(string \<Rightarrow> string) \<Rightarrow> string \<Rightarrow> (string \<times> string) list \<Rightarrow> string" where
  "paymentProviderConfigCurrency upper providerKey cfg =
     (if strings_TrimSpace providerKey = ''stripe'' \<or> strings_TrimSpace providerKey = ''airwallex''
      then case NormalizePaymentCurrency upper (metadata_get cfg ''currency'') of
             Some currency \<Rightarrow> currency
           | None \<Rightarrow> DefaultPaymentCurrency
      else DefaultPaymentCurrency)"

definition paymentOrderSnapshotWxpayAppID :: "InstanceSelection \<Rightarrow> string \<Rightarrow> string" where
  "paymentOrderSnapshotWxpayAppID sel openID =
     (if strings_TrimSpace (se_ProviderKey sel) \<noteq> ''wxpay'' then []
      else if strings_TrimSpace openID \<noteq> [] then strings_TrimSpace (resolveWxpayJSAPIAppID (se_Config sel))
      else strings_TrimSpace (metadata_get (se_Config sel) ''appId''))"

text \<open>An entry that is made only for a value that is not empty.\<close>

definition entry :: "string \<Rightarrow> string \<Rightarrow> (string \<times> goany) list" where
  "entry k v = (if v = [] then [] else [(k, AnyString v)])"

text \<open>
  \<open>buildPaymentOrderProviderSnapshot\<close>, as it is read back: the column is JSON, so the version comes back as
  a \<open>float64\<close>. An empty map stands for nil.
\<close>

definition buildPaymentOrderProviderSnapshot ::
  "(string \<Rightarrow> string) \<Rightarrow> InstanceSelection option \<Rightarrow> string \<Rightarrow> (string \<times> goany) list" where
  "buildPaymentOrderProviderSnapshot upper selected openID =
     (case selected of
        None \<Rightarrow> []
      | Some sel \<Rightarrow>
          let providerKey = strings_TrimSpace (se_ProviderKey sel);
              config = (\<lambda>k. strings_TrimSpace (metadata_get (se_Config sel) k));
              currency = paymentProviderConfigCurrency upper providerKey (se_Config sel);
              snapshot = [(''schema_version'', AnyFloat64 2)] @
                entry ''provider_instance_id'' (strings_TrimSpace (se_InstanceID sel)) @
                entry ''provider_key'' providerKey @
                entry ''payment_mode'' (strings_TrimSpace (se_PaymentMode sel)) @
                (if providerKey = ''wxpay''
                 then entry ''merchant_app_id'' (paymentOrderSnapshotWxpayAppID sel openID) @ entry ''merchant_id'' (config ''mchId'') @
                      [(''currency'', AnyString DefaultPaymentCurrency)]
                 else if providerKey = ''alipay'' then entry ''merchant_app_id'' (config ''appId'')
                 else if providerKey = ''easypay'' then entry ''merchant_id'' (config ''pid'')
                 else if providerKey = ''stripe'' then [(''currency'', AnyString currency)]
                 else if providerKey = ''airwallex'' then entry ''merchant_id'' (config ''accountId'') @ [(''currency'', AnyString currency)]
                 else [])
          in if length snapshot = 1 then [] else snapshot)"

text \<open>The identity of the merchant of a selection, by provider.\<close>

definition merchant_app :: "InstanceSelection \<Rightarrow> string \<Rightarrow> string" where
  "merchant_app sel openID =
     (let key = strings_TrimSpace (se_ProviderKey sel)
      in if key = ''wxpay'' then paymentOrderSnapshotWxpayAppID sel openID
         else if key = ''alipay'' then strings_TrimSpace (metadata_get (se_Config sel) ''appId'')
         else [])"

definition merchant_id :: "InstanceSelection \<Rightarrow> string" where
  "merchant_id sel =
     (let key = strings_TrimSpace (se_ProviderKey sel)
      in if key = ''wxpay'' then strings_TrimSpace (metadata_get (se_Config sel) ''mchId'')
         else if key = ''easypay'' then strings_TrimSpace (metadata_get (se_Config sel) ''pid'')
         else if key = ''airwallex'' then strings_TrimSpace (metadata_get (se_Config sel) ''accountId'')
         else [])"

definition merchant_currency :: "(string \<Rightarrow> string) \<Rightarrow> InstanceSelection \<Rightarrow> string" where
  "merchant_currency upper sel =
     (let key = strings_TrimSpace (se_ProviderKey sel)
      in if key = ''wxpay'' \<or> key = ''stripe'' \<or> key = ''airwallex''
         then paymentProviderConfigCurrency upper key (se_Config sel) else [])"

lemma snapshot_value [simp]: "psSnapshotStringValue (AnyString v) = strings_TrimSpace v" "psSnapshotStringValue AnyNil = []"
  by (simp_all add: psSnapshotStringValue_def)

lemma index_entry:
  "any_index (entry k v @ m) k' = (if k = k' \<and> v \<noteq> [] then AnyString v else any_index m k')"
  "any_index (entry k v) k' = (if k = k' \<and> v \<noteq> [] then AnyString v else AnyNil)"
  "any_index ((k, x) # m) k' = (if k = k' then x else any_index m k')"
  "any_index [] k' = AnyNil"
  by (simp_all add: entry_def any_index_def)

lemma snapshot_if: "psSnapshotStringValue (if v \<noteq> [] then AnyString v else AnyNil) = strings_TrimSpace v"
  by simp

lemma provider_trims:
  "strings_TrimSpace ''wxpay'' = ''wxpay''" "strings_TrimSpace ''alipay'' = ''alipay''" "strings_TrimSpace ''easypay'' = ''easypay''"
  "strings_TrimSpace ''stripe'' = ''stripe''" "strings_TrimSpace ''airwallex'' = ''airwallex''" "strings_TrimSpace ''CNY'' = ''CNY''"
  by code_simp+

lemma plain_currency:
  "strings_TrimSpace key \<noteq> ''stripe'' \<Longrightarrow> strings_TrimSpace key \<noteq> ''airwallex'' \<Longrightarrow> paymentProviderConfigCurrency upper key cfg = ''CNY''"
  by (simp add: paymentProviderConfigCurrency_def)

definition config_currency_ok :: "(string \<Rightarrow> string) \<Rightarrow> string \<Rightarrow> bool" where
  "config_currency_ok upper c \<longleftrightarrow>
     NormalizePaymentCurrency upper c = Some c \<and> strings_TrimSpace c = c \<and> strings_ToUpper upper c = c \<and> c \<noteq> []"

lemma normalized_ok:
  assumes "NormalizePaymentCurrency upper raw = Some c"
  shows "config_currency_ok upper c"
proof -
  have "list_all (\<lambda>ch. 65 \<le> byte_of ch \<and> byte_of ch \<le> 90) ''CNY''" by code_simp
  then have c: "length c = 3" "list_all (\<lambda>ch. 65 \<le> byte_of ch \<and> byte_of ch \<le> 90) c"
    using assms by (auto simp: NormalizePaymentCurrency_def Let_def split: if_splits)
  then have "list_all visible c" by (auto simp: visible_def list_all_iff)
  then show ?thesis using c normalize_again [OF assms] visible_trim upper_capitals unfolding config_currency_ok_def by fastforce
qed

lemma config_currency: "config_currency_ok upper (paymentProviderConfigCurrency upper key cfg)"
proof -
  have "NormalizePaymentCurrency upper [] = Some ''CNY''" by (simp add: NormalizePaymentCurrency_def strings_ToUpper_def ascii_string_def)
  then show ?thesis using normalized_ok by (auto simp: paymentProviderConfigCurrency_def split: option.split)
qed

lemma snapshot_read:
  assumes "po_ProviderSnapshot r = buildPaymentOrderProviderSnapshot upper (Some sel) openID"
    and "strings_TrimSpace (se_ProviderKey sel) \<noteq> []"
  shows "psOrderProviderSnapshot r = Some \<lparr> sn_SchemaVersion = 2, sn_ProviderInstanceID = strings_TrimSpace (se_InstanceID sel),
    sn_ProviderKey = strings_TrimSpace (se_ProviderKey sel), sn_PaymentMode = strings_TrimSpace (se_PaymentMode sel),
    sn_MerchantAppID = merchant_app sel openID, sn_MerchantID = merchant_id sel, sn_Currency = merchant_currency upper sel \<rparr>"
proof -
  let ?key = "strings_TrimSpace (se_ProviderKey sel)" and ?m = "po_ProviderSnapshot r"
  have two: "psSnapshotIntValue (AnyFloat64 2) = 2" by code_simp
  note trim = config_currency [unfolded config_currency_ok_def, THEN conjunct2, THEN conjunct1]
  have app: "strings_TrimSpace (paymentOrderSnapshotWxpayAppID sel openID) = paymentOrderSnapshotWxpayAppID sel openID"
    by (simp add: paymentOrderSnapshotWxpayAppID_def)
  have key: "entry ''provider_key'' ?key \<noteq> []" using assms(2) by (simp add: entry_def)
  have cur: "[(''currency'', AnyString c)] = entry ''currency'' c" if "config_currency_ok upper c" for c
    using that by (simp add: entry_def config_currency_ok_def)
  have cny: "config_currency_ok upper ''CNY''" using config_currency [of upper "[]"] plain_currency [of "[]"] by simp
  have none: "entry k [] = []" for k by (simp add: entry_def)
  consider "?key = ''wxpay''" | "?key = ''alipay''" | "?key = ''easypay''" | "?key = ''stripe''" | "?key = ''airwallex''"
    | "?key \<noteq> ''wxpay''" "?key \<noteq> ''alipay''" "?key \<noteq> ''easypay''" "?key \<noteq> ''stripe''" "?key \<noteq> ''airwallex''" by blast
  then have m: "?m = [(''schema_version'', AnyFloat64 2)] @
      entry ''provider_instance_id'' (strings_TrimSpace (se_InstanceID sel)) @ entry ''provider_key'' ?key @
      entry ''payment_mode'' (strings_TrimSpace (se_PaymentMode sel)) @ entry ''merchant_app_id'' (merchant_app sel openID) @
      entry ''merchant_id'' (merchant_id sel) @ entry ''currency'' (merchant_currency upper sel)"
    by cases (use key in \<open>simp_all add: assms(1) buildPaymentOrderProviderSnapshot_def Let_def merchant_app_def merchant_id_def
      merchant_currency_def none plain_currency provider_trims cur [OF cny] cur [OF config_currency]\<close>)
  have "strings_TrimSpace (merchant_app sel openID) = merchant_app sel openID" "strings_TrimSpace (merchant_id sel) = merchant_id sel"
    "strings_TrimSpace (merchant_currency upper sel) = merchant_currency upper sel"
    by (simp_all add: merchant_app_def merchant_id_def merchant_currency_def Let_def app trim)
  then show ?thesis unfolding psOrderProviderSnapshot_def m Let_def
    by (simp add: index_entry two snapshot_if)
qed

lemma created_currency:
  assumes "po_ProviderSnapshot r = buildPaymentOrderProviderSnapshot upper (Some sel) openID"
    and "strings_TrimSpace (se_ProviderKey sel) \<noteq> []"
  shows "PaymentOrderCurrency upper r = paymentProviderConfigCurrency upper (se_ProviderKey sel) (se_Config sel)"
proof -
  let ?c = "paymentProviderConfigCurrency upper (se_ProviderKey sel) (se_Config sel)"
  have c: "paymentProviderConfigCurrency upper (strings_TrimSpace (se_ProviderKey sel)) (se_Config sel) = ?c"
    by (simp add: paymentProviderConfigCurrency_def)
  have "NormalizePaymentCurrency upper ?c = Some ?c" using config_currency [of upper] by (simp add: config_currency_ok_def)
  moreover have "NormalizePaymentCurrency upper [] = Some ''CNY''" by (simp add: NormalizePaymentCurrency_def strings_ToUpper_def ascii_string_def)
  moreover have "merchant_currency upper sel = ?c \<or> merchant_currency upper sel = [] \<and> ?c = ''CNY''"
    by (simp add: merchant_currency_def Let_def c plain_currency)
  ultimately show ?thesis by (auto simp: PaymentOrderCurrency_def snapshot_read [OF assms])
qed

text \<open>
  The metadata a provider attaches to the notifications of a merchant (\<open>payment/provider\<close>): the fields that are
  compared with the snapshot.
\<close>

definition merchant_metadata :: "(string \<Rightarrow> string) \<Rightarrow> InstanceSelection \<Rightarrow> string \<Rightarrow> (string \<times> string) list" where
  "merchant_metadata upper sel openID =
     (let key = strings_TrimSpace (se_ProviderKey sel)
      in if key = ''wxpay'' then
           [(''appid'', merchant_app sel openID), (''mchid'', merchant_id sel), (''currency'', ''CNY''), (''trade_state'', ''SUCCESS'')]
         else if key = ''alipay'' then [(''app_id'', merchant_app sel openID)]
         else if key = ''easypay'' then [(''pid'', merchant_id sel)]
         else if key = ''stripe'' then [(''currency'', merchant_currency upper sel)]
         else if key = ''airwallex'' then
           [(''account_id'', merchant_id sel), (''currency'', merchant_currency upper sel), (''status'', ''SUCCEEDED'')]
         else [])"

lemma equal_fold_refl: "\<forall>s. folds s s \<Longrightarrow> strings_EqualFold folds s s"
  by (simp add: strings_EqualFold_def)

lemma check_same: "\<forall>s. folds s s \<Longrightarrow> snapshot_check folds a b v (strings_TrimSpace v) = None"
  by (simp add: snapshot_check_def Let_def equal_fold_refl)

lemma own_metadata_accepted:
  assumes "po_ProviderSnapshot r = buildPaymentOrderProviderSnapshot upper (Some sel) openID"
    and "strings_TrimSpace (se_ProviderKey sel) \<noteq> []" and "\<forall>s. folds s s"
  shows "validateProviderSnapshotMetadata folds upper r (se_ProviderKey sel) (merchant_metadata upper sel openID) = None"
proof -
  let ?key = "strings_TrimSpace (se_ProviderKey sel)"
  have cur: "strings_ToUpper upper (strings_TrimSpace (merchant_currency upper sel)) = strings_TrimSpace (merchant_currency upper sel)"
    using config_currency [of upper ?key "se_Config sel"]
    by (auto simp: merchant_currency_def Let_def config_currency_ok_def strings_ToUpper_def ascii_string_def)
  have state: "state_check folds a s s = None" for a s using assms(3) by (simp add: state_check_def equal_fold_refl)
  have same: "snapshot_check folds a b v (strings_TrimSpace v) = None" for a b v using assms(3) by (rule check_same)
  have words: "strings_TrimSpace ''SUCCESS'' = ''SUCCESS''" "strings_TrimSpace ''SUCCEEDED'' = ''SUCCEEDED''" by code_simp+
  have wx: "merchant_currency upper sel = ''CNY''" if "?key = ''wxpay''"
    using that by (simp add: merchant_currency_def plain_currency provider_trims)
  consider "?key = ''wxpay''" | "?key = ''alipay''" | "?key = ''easypay''" | "?key = ''stripe''" | "?key = ''airwallex''"
    | "?key \<noteq> ''wxpay''" "?key \<noteq> ''alipay''" "?key \<noteq> ''easypay''" "?key \<noteq> ''stripe''" "?key \<noteq> ''airwallex''" by blast
  then show ?thesis
    by cases (use wx cur in \<open>simp_all add: validateProviderSnapshotMetadata_def merchant_metadata_def Let_def snapshot_read [OF assms(1,2)]
      metadata_get_def same same [of _ _ "''CNY''", unfolded provider_trims] state words provider_trims\<close>)
qed

section \<open>Requests and their terms\<close>

record CreateOrderRequest =
  cr_UserID :: int
  cr_Amount :: gofloat
  cr_PaymentType :: string
  cr_OpenID :: string
  cr_OrderType :: string
  cr_PlanID :: int

record PaymentConfig =
  pc_Enabled :: bool
  pc_MinAmount :: rat
  pc_MaxAmount :: rat
  pc_DailyLimit :: rat
  pc_OrderTimeoutMin :: int
  pc_MaxPendingOrders :: int
  pc_BalanceDisabled :: bool
  pc_BalanceRechargeMultiplier :: gofloat
  pc_SubscriptionUSDToCNYRate :: gofloat
  pc_RechargeFeeRate :: rat

record SubscriptionPlan =
  sp_GroupID :: int
  sp_Price :: rat
  sp_ValidityDays :: int
  sp_ValidityUnit :: string
  sp_ForSale :: bool

definition psComputeValidityDays :: "int \<Rightarrow> string \<Rightarrow> int" where
  "psComputeValidityDays days unit =
     (if unit = ''week'' \<or> unit = ''weeks'' then days * 7
      else if unit = ''month'' \<or> unit = ''months'' then days * 30
      else days)"

definition NormalizeVisibleMethod :: "string \<Rightarrow> string" where
  "NormalizeVisibleMethod m = GetBasePaymentType (strings_TrimSpace m)"

definition validateSubOrder :: "(int \<Rightarrow> SubscriptionPlan option) \<Rightarrow> subscription_group list \<Rightarrow> CreateOrderRequest \<Rightarrow> pay_error + SubscriptionPlan" where
  "validateSubOrder plans groups req =
     (if cr_PlanID req = 0 then Inl (pay_BadRequest ''INVALID_INPUT'' ''subscription order requires a plan'')
      else case plans (cr_PlanID req) of
             None \<Rightarrow> Inl (pay_NotFound ''PLAN_NOT_AVAILABLE'' ''plan not found or not for sale'')
           | Some plan \<Rightarrow>
               if \<not> sp_ForSale plan then Inl (pay_NotFound ''PLAN_NOT_AVAILABLE'' ''plan not found or not for sale'')
               else case find_group (sp_GroupID plan) groups of
                      None \<Rightarrow> Inl (pay_NotFound ''GROUP_NOT_FOUND'' ''subscription group is no longer available'')
                    | Some g \<Rightarrow>
                        if sg_Status g \<noteq> ''active'' then Inl (pay_NotFound ''GROUP_NOT_FOUND'' ''subscription group is no longer available'')
                        else if \<not> IsSubscriptionType g then Inl (pay_BadRequest ''GROUP_TYPE_MISMATCH'' ''group is not a subscription type'')
                        else Inr plan)"

definition validateOrderInput ::
  "(int \<Rightarrow> SubscriptionPlan option) \<Rightarrow> subscription_group list \<Rightarrow> PaymentConfig \<Rightarrow> CreateOrderRequest \<Rightarrow> pay_error + SubscriptionPlan option" where
  "validateOrderInput plans groups cfg req =
     (if cr_OrderType req = OrderTypeBalance \<and> pc_BalanceDisabled cfg
      then Inl (pay_Forbidden ''BALANCE_PAYMENT_DISABLED'' ''balance recharge has been disabled'')
      else if cr_OrderType req = OrderTypeSubscription then map_sum (\<lambda>e. e) Some (validateSubOrder plans groups req)
      else case cr_Amount req of
             Fin a \<Rightarrow>
               if a \<le> 0 then Inl (pay_BadRequest ''INVALID_AMOUNT'' ''amount must be a positive number'')
               else if 0 < pc_MinAmount cfg \<and> a < pc_MinAmount cfg \<or> 0 < pc_MaxAmount cfg \<and> pc_MaxAmount cfg < a
               then Inl (pay_BadRequest ''INVALID_AMOUNT'' ''amount out of range'')
               else Inr None
           | _ \<Rightarrow> Inl (pay_BadRequest ''INVALID_AMOUNT'' ''amount must be a positive number''))"

text \<open>
  The terms of an order, in \<open>CreateOrder\<close> between the checks and the transaction: the amount the order
  credits, the amount its limits count, the amount to pay and the chosen instance. \<open>methodCurrency\<close> is the
  currency the enabled instances of the method agree on, \<open>select\<close> the choice of an instance for an amount to pay.
\<close>

record order_terms =
  ot_Amount :: rat
  ot_LimitAmount :: rat
  ot_PayAmount :: rat
  ot_Selection :: InstanceSelection

definition finite_amount :: "gofloat \<Rightarrow> rat" where
  "finite_amount a = (case a of Fin q \<Rightarrow> q | _ \<Rightarrow> 0)"

definition order_amounts :: "decimal_lib \<Rightarrow> PaymentConfig \<Rightarrow> CreateOrderRequest \<Rightarrow> SubscriptionPlan option \<Rightarrow> rat \<times> rat" where
  "order_amounts D cfg req plan =
     (case plan of
        Some p \<Rightarrow> (sp_Price p, sp_Price p)
      | None \<Rightarrow>
          (if cr_OrderType req = OrderTypeBalance
           then calculateCreditedBalance D (finite_amount (cr_Amount req)) (pc_BalanceRechargeMultiplier cfg)
           else finite_amount (cr_Amount req), finite_amount (cr_Amount req)))"

definition create_terms ::
  "decimal_lib \<Rightarrow> (string \<Rightarrow> string) \<Rightarrow> PaymentConfig \<Rightarrow> CreateOrderRequest \<Rightarrow> SubscriptionPlan option \<Rightarrow> string \<Rightarrow>
     (rat \<Rightarrow> pay_error + InstanceSelection) \<Rightarrow> pay_error + order_terms" where
  "create_terms D upper cfg req plan methodCurrency select =
     (let (orderAmount, limitAmount) = order_amounts D cfg req plan;
          pay = (\<lambda>currency. calculateCreateOrderPayAmountForOrderType D upper limitAmount (pc_RechargeFeeRate cfg) currency
                   (cr_OrderType req) (pc_SubscriptionUSDToCNYRate cfg))
      in case pay methodCurrency of
           Inl e \<Rightarrow> Inl e
         | Inr p0 \<Rightarrow>
             (case select p0 of
                Inl e \<Rightarrow> Inl (App 503 ''PAYMENT_GATEWAY_ERROR'' ''method_not_configured'')
              | Inr sel \<Rightarrow>
                  let selectedCurrency = paymentProviderConfigCurrency upper (se_ProviderKey sel) (se_Config sel)
                  in case (if selectedCurrency \<noteq> methodCurrency then pay selectedCurrency else Inr p0) of
                       Inl e \<Rightarrow> Inl e
                     | Inr p \<Rightarrow>
                         (case validateCreateOrderAmountCurrency D upper p selectedCurrency of
                            Some e \<Rightarrow> Inl e
                          | None \<Rightarrow> Inr \<lparr> ot_Amount = orderAmount, ot_LimitAmount = limitAmount, ot_PayAmount = p, ot_Selection = sel \<rparr>)))"

text \<open>
  \<open>CreateOrder\<close> up to its transaction: the checks in their order, and the terms. \<open>userStatus\<close> is the status of
  the user, if the lookup gave one; the limit of cancellations is the one of \<open>Payment_Lifecycle\<close>.
\<close>

definition normalized_request :: "CreateOrderRequest \<Rightarrow> CreateOrderRequest" where
  "normalized_request req =
     req \<lparr> cr_OrderType := (if cr_OrderType req = [] then OrderTypeBalance else cr_OrderType req),
           cr_PaymentType := (if NormalizeVisibleMethod (cr_PaymentType req) \<noteq> [] then NormalizeVisibleMethod (cr_PaymentType req)
                              else cr_PaymentType req) \<rparr>"

definition prepare_order ::
  "decimal_lib \<Rightarrow> (string \<Rightarrow> string) \<Rightarrow> PaymentConfig \<Rightarrow> (int \<Rightarrow> SubscriptionPlan option) \<Rightarrow> subscription_group list \<Rightarrow> pay_error option \<Rightarrow> string option \<Rightarrow>
     pay_error + string \<Rightarrow> (rat \<Rightarrow> pay_error + InstanceSelection) \<Rightarrow> CreateOrderRequest \<Rightarrow>
     pay_error + CreateOrderRequest \<times> SubscriptionPlan option \<times> order_terms" where
  "prepare_order D upper cfg plans groups cancelLimit userStatus methodCurrency select req0 =
     (let req = normalized_request req0
      in if \<not> pc_Enabled cfg then Inl (pay_Forbidden ''PAYMENT_DISABLED'' ''payment system is disabled'')
         else case validateOrderInput plans groups cfg req of
                Inl e \<Rightarrow> Inl e
              | Inr plan \<Rightarrow>
                  (case cancelLimit of
                     Some e \<Rightarrow> Inl e
                   | None \<Rightarrow>
                       (case userStatus of
                          None \<Rightarrow> Inl (Plain ''get user'')
                        | Some st \<Rightarrow>
                            if st \<noteq> ''active'' then Inl (pay_Forbidden ''USER_INACTIVE'' ''user account is disabled'')
                            else case methodCurrency of
                                   Inl e \<Rightarrow> Inl e
                                 | Inr c \<Rightarrow> map_sum (\<lambda>e. e) (\<lambda>terms. (req, plan, terms)) (create_terms D upper cfg req plan c select))))"

lemma prepared_terms:
  assumes "prepare_order D upper cfg plans groups cancelLimit userStatus methodCurrency select req0 = Inr (req, plan, terms)"
  obtains c where "create_terms D upper cfg req plan c select = Inr terms" "validateOrderInput plans groups cfg req = Inr plan"
  using assms by (auto simp: prepare_order_def Let_def map_sum_Inr split: if_splits sum.splits option.splits)

lemma prepared_positive:
  assumes "decimal_library D"
    and "prepare_order D upper cfg plans groups cancelLimit userStatus methodCurrency select req0 = Inr (req, plan, terms)"
    and "cr_OrderType req \<noteq> OrderTypeSubscription"
  shows "0 < ot_PayAmount terms"
proof -
  obtain c where terms: "create_terms D upper cfg req plan c select = Inr terms" and input: "validateOrderInput plans groups cfg req = Inr plan"
    using prepared_terms [OF assms(2)] .
  obtain a where a: "cr_Amount req = Fin a" "0 < a" "plan = None"
    using input assms(3) by (auto simp: validateOrderInput_def not_le split: if_splits gofloat.splits)
  have "a \<le> p" if "calculateCreateOrderPayAmount D upper a f cur = Inr p" for f cur p using decimal_library.pay_at_least [OF assms(1) that] a(2) by simp
  then have "a \<le> ot_PayAmount terms"
    using terms a assms(3)
    by (auto simp: create_terms_def order_amounts_def finite_amount_def calculateCreateOrderPayAmountForOrderType_def Let_def
        split: sum.splits option.splits if_splits)
  then show ?thesis using a(2) by simp
qed

end
