(* ===== verification/Payment_Creation.thy ===== *)
theory Payment_Creation
  imports Payment_Terms
begin

text \<open>
  The creation of a payment order (\<open>service/payment_order.go\<close>). The transaction runs in the default isolation of
  the database, where its reads see what others have committed and its own row is visible from its commit
  on: it is a program of the reading statements and of one last command that inserts the row with its
  recharge code and commits. Not part of it: the authorisation pages of WeChat and the call of the provider,
  which change no order but for the failure step in \<open>Payment_Lifecycle\<close>.
\<close>

section \<open>The transaction\<close>

record order_draft =
  dr_UserID :: int
  dr_Amount :: rat
  dr_PayAmount :: rat
  dr_OutTradeNo :: string
  dr_PaymentType :: string
  dr_OrderType :: string
  dr_ExpiresAt :: gotime
  dr_ProviderInstanceID :: "string option"
  dr_ProviderKey :: "string option"
  dr_ProviderSnapshot :: "(string \<times> goany) list"
  dr_SubscriptionGroupID :: "int option"
  dr_SubscriptionDays :: "int option"

definition recharge_code_text :: "int \<Rightarrow> gotime \<Rightarrow> string" where
  "recharge_code_text i now = ''PAY-'' @ strconv_FormatInt i @ ''-'' @ strconv_FormatInt (now mod 100000)"

text \<open>The row of a draft, with the amounts as the columns hold them. The clock is that of the recharge code; the database's defaults take its own.\<close>

definition order_of_draft :: "int \<Rightarrow> gotime \<Rightarrow> order_draft \<Rightarrow> PaymentOrder" where
  "order_of_draft i now d =
     \<lparr> po_ID = i, po_UserID = dr_UserID d, po_Amount = numeric2 (dr_Amount d), po_PayAmount = numeric2 (dr_PayAmount d),
       po_RechargeCode = recharge_code_text i now, po_OutTradeNo = dr_OutTradeNo d, po_PaymentType = dr_PaymentType d,
       po_PaymentTradeNo = [], po_OrderType = dr_OrderType d, po_SubscriptionGroupID = dr_SubscriptionGroupID d,
       po_SubscriptionDays = dr_SubscriptionDays d, po_ProviderInstanceID = dr_ProviderInstanceID d, po_ProviderKey = dr_ProviderKey d,
       po_ProviderSnapshot = dr_ProviderSnapshot d, po_Status = OrderStatusPending, po_RefundAmount = 0, po_RefundReason = None,
       po_RefundAt = None, po_ForceRefund = False, po_RefundRequestedAt = None, po_RefundRequestReason = None,
       po_RefundRequestedBy = None, po_ExpiresAt = dr_ExpiresAt d, po_PaidAt = None, po_CompletedAt = None, po_FailedAt = None,
       po_FailedReason = None, po_CreatedAt = now, po_UpdatedAt = now \<rparr>"

datatype create_cmd =
    K_clock
  | K_candidate
  | K_pending int
  | K_paid int gotime
  | K_exists string
  | K_insert order_draft

datatype create_reply =
    V_time gotime | V_text string | V_count nat | V_orders "PaymentOrder list" | V_flag bool | V_order PaymentOrder | V_fault db_fault

text \<open>The random part of a trade number, with the date in front, is an input.\<close>

record create_input =
  ki_fate :: fate
  ki_clock :: gotime
  ki_text :: string

definition create_statement :: "fate \<Rightarrow> pay_db \<Rightarrow> create_reply \<times> pay_db \<Rightarrow> create_reply \<times> pay_db" where
  "create_statement f db r = (case f of
       Works \<Rightarrow> r
     | Lost_before \<Rightarrow> (V_fault StatementLost, db)
     | Lost_after \<Rightarrow> (V_fault StatementLost, snd r))"

definition next_order_id :: "pay_db \<Rightarrow> int" where
  "next_order_id db = foldl (\<lambda>m r. max m (po_ID r)) 0 (pd_orders db) + 1"

definition pending_of :: "int \<Rightarrow> pay_db \<Rightarrow> PaymentOrder list" where
  "pending_of u db = filter (\<lambda>r. po_UserID r = u \<and> po_Status r = OrderStatusPending) (pd_orders db)"

definition paid_since :: "int \<Rightarrow> gotime \<Rightarrow> pay_db \<Rightarrow> PaymentOrder list" where
  "paid_since u ts db = filter (\<lambda>r. po_UserID r = u \<and>
     po_Status r \<in> {OrderStatusPaid, OrderStatusRecharging, OrderStatusCompleted} \<and>
     (case po_PaidAt r of None \<Rightarrow> False | Some t \<Rightarrow> ts \<le> t)) (pd_orders db)"

definition insert_order :: "gotime \<Rightarrow> order_draft \<Rightarrow> pay_db \<Rightarrow> create_reply \<times> pay_db" where
  "insert_order now d db =
     (if dr_OutTradeNo d \<noteq> [] \<and> list_ex (\<lambda>r. po_OutTradeNo r = dr_OutTradeNo d) (pd_orders db) then (V_fault ConstraintViolation, db)
      else let r = order_of_draft (next_order_id db) now d in (V_order r, db \<lparr> pd_orders := pd_orders db @ [r] \<rparr>))"

fun create_exec :: "create_input \<Rightarrow> create_cmd \<Rightarrow> pay_db \<Rightarrow> create_reply \<times> pay_db" where
  "create_exec inp K_clock db = (V_time (ki_clock inp), db)"
| "create_exec inp K_candidate db = (V_text (orderIDPrefix @ ki_text inp), db)"
| "create_exec inp (K_pending u) db = create_statement (ki_fate inp) db (V_count (length (pending_of u db)), db)"
| "create_exec inp (K_paid u ts) db = create_statement (ki_fate inp) db (V_orders (paid_since u ts db), db)"
| "create_exec inp (K_exists tn) db = create_statement (ki_fate inp) db (V_flag (list_ex (\<lambda>r. po_OutTradeNo r = tn) (pd_orders db)), db)"
| "create_exec inp (K_insert d) db = create_statement (ki_fate inp) db (insert_order (ki_clock inp) d db)"

type_synonym 'a create_prog = "(create_cmd, create_reply, 'a) prog"

definition as_fault :: "string \<Rightarrow> create_reply \<Rightarrow> pay_error" where
  "as_fault w r = (case r of V_fault f \<Rightarrow> Wrapped w (Fault f) | _ \<Rightarrow> Plain w)"

definition pending_limit :: "int \<Rightarrow> int" where
  "pending_limit limit = (if limit \<le> 0 then 3 else limit)"

definition checkPendingLimit :: "int \<Rightarrow> int \<Rightarrow> pay_error option create_prog" where
  "checkPendingLimit userID limit =
     Do (K_pending userID) (\<lambda>r. case r of
       V_count c \<Rightarrow> Return (if pending_limit limit \<le> int c then Some (App 429 ''TOO_MANY_PENDING'' ''too_many_pending'') else None)
     | _ \<Rightarrow> Return (Some (as_fault ''count pending orders'' r)))"

definition psStartOfDayUTC :: "gotime \<Rightarrow> gotime" where
  "psStartOfDayUTC t = t - t mod Day"

definition used_amount :: "PaymentOrder list \<Rightarrow> rat" where
  "used_amount orders = sum_list (map (\<lambda>r. if po_OrderType r = OrderTypeBalance then po_PayAmount r else po_Amount r) orders)"

definition checkDailyLimit :: "int \<Rightarrow> rat \<Rightarrow> rat \<Rightarrow> pay_error option create_prog" where
  "checkDailyLimit userID amount limit =
     (if limit \<le> 0 then Return None
      else Do K_clock (\<lambda>t. case t of
        V_time now \<Rightarrow>
          Do (K_paid userID (psStartOfDayUTC now)) (\<lambda>r. case r of
            V_orders orders \<Rightarrow>
              Return (if limit < used_amount orders + amount then Some (App 429 ''DAILY_LIMIT_EXCEEDED'' ''daily_limit_exceeded'') else None)
          | _ \<Rightarrow> Return (Some (as_fault ''query daily usage'' r)))
      | _ \<Rightarrow> Return None))"

fun allocateOutTradeNo :: "nat \<Rightarrow> (pay_error + string) create_prog" where
  "allocateOutTradeNo 0 = Return (Inl (Plain ''generate unique out_trade_no: exhausted 5 attempts''))"
| "allocateOutTradeNo (Suc k) =
     Do K_candidate (\<lambda>c. case c of
       V_text candidate \<Rightarrow>
         Do (K_exists candidate) (\<lambda>r. case r of
           V_flag b \<Rightarrow> if b then allocateOutTradeNo k else Return (Inr candidate)
         | _ \<Rightarrow> Return (Inl (as_fault ''check out_trade_no uniqueness'' r)))
     | _ \<Rightarrow> Return (Inl (Plain ''no candidate'')))"

definition maxAttempts :: nat where
  "maxAttempts = 5"

definition not_empty :: "string \<Rightarrow> string option" where
  "not_empty s = (if s = [] then None else Some s)"

definition draft_order ::
  "(string \<Rightarrow> string) \<Rightarrow> PaymentConfig \<Rightarrow> CreateOrderRequest \<Rightarrow> SubscriptionPlan option \<Rightarrow> order_terms \<Rightarrow> string \<Rightarrow> gotime \<Rightarrow> order_draft" where
  "draft_order upper cfg req plan terms outTradeNo now =
     \<lparr> dr_UserID = cr_UserID req, dr_Amount = ot_Amount terms, dr_PayAmount = ot_PayAmount terms, dr_OutTradeNo = outTradeNo,
       dr_PaymentType = cr_PaymentType req, dr_OrderType = cr_OrderType req,
       dr_ExpiresAt = now + (if pc_OrderTimeoutMin cfg \<le> 0 then 30 else pc_OrderTimeoutMin cfg) * Minute,
       dr_ProviderInstanceID = not_empty (strings_TrimSpace (se_InstanceID (ot_Selection terms))),
       dr_ProviderKey = not_empty (strings_TrimSpace (se_ProviderKey (ot_Selection terms))),
       dr_ProviderSnapshot = buildPaymentOrderProviderSnapshot upper (Some (ot_Selection terms)) (cr_OpenID req),
       dr_SubscriptionGroupID = map_option sp_GroupID plan,
       dr_SubscriptionDays = map_option (\<lambda>p. psComputeValidityDays (sp_ValidityDays p) (sp_ValidityUnit p)) plan \<rparr>"

definition createOrderInTx ::
  "(string \<Rightarrow> string) \<Rightarrow> PaymentConfig \<Rightarrow> CreateOrderRequest \<Rightarrow> SubscriptionPlan option \<Rightarrow> order_terms \<Rightarrow> (pay_error + PaymentOrder) create_prog" where
  "createOrderInTx upper cfg req plan terms =
     bind_prog (checkPendingLimit (cr_UserID req) (pc_MaxPendingOrders cfg)) (\<lambda>e. case e of
       Some e \<Rightarrow> Return (Inl e)
     | None \<Rightarrow> bind_prog (checkDailyLimit (cr_UserID req) (ot_LimitAmount terms) (pc_DailyLimit cfg)) (\<lambda>e. case e of
         Some e \<Rightarrow> Return (Inl e)
       | None \<Rightarrow>
           Do K_clock (\<lambda>t. bind_prog (allocateOutTradeNo maxAttempts) (\<lambda>tn. case tn of
             Inl e \<Rightarrow> Return (Inl e)
           | Inr outTradeNo \<Rightarrow>
               Do (K_insert (draft_order upper cfg req plan terms outTradeNo (case t of V_time now \<Rightarrow> now | _ \<Rightarrow> 0))) (\<lambda>r. case r of
                 V_order ord \<Rightarrow> Return (Inr ord)
               | _ \<Rightarrow> Return (Inl (as_fault ''create order'' r)))))))"

section \<open>What creation builds\<close>

lemma format_digits: "list_all is_digit (format_nat n)"
proof (induction n rule: format_nat.induct)
  case (1 n)
  have "n mod 10 < 10" by simp
  then show ?case using 1 by (cases "n < 10") (auto simp: format_nat.simps [of n] digit_char)
qed

lemma format_int_digits: "0 \<le> i \<Longrightarrow> list_all is_digit (strconv_FormatInt i)"
  by (simp add: strconv_FormatInt_def format_digits)

lemma format_int_inject:
  assumes "0 \<le> i" and "0 \<le> j" and "strconv_FormatInt i = strconv_FormatInt j"
  shows "i = j"
proof -
  have "format_nat (nat i) = format_nat (nat j)" using assms by (simp only: strconv_FormatInt_def not_less [symmetric] if_False)
  then have "Some (nat i) = Some (nat j)" by (metis digits_value_format)
  then show ?thesis using assms(1,2) by simp
qed

lemma digits_until_dash: "list_all is_digit xs \<Longrightarrow> takeWhile is_digit (xs @ ''-'' @ ys) = xs"
proof (induction xs)
  case Nil
  have "\<not> is_digit (CHR ''-'')" by code_simp
  then show ?case by simp
qed simp

lemma recharge_code_inject:
  assumes "recharge_code_text i s = recharge_code_text j t" and "0 \<le> i" and "0 \<le> j"
  shows "i = j"
proof -
  have "strconv_FormatInt i @ ''-'' @ strconv_FormatInt (s mod 100000) = strconv_FormatInt j @ ''-'' @ strconv_FormatInt (t mod 100000)"
    using assms(1) by (simp add: recharge_code_text_def)
  then have "strconv_FormatInt i = strconv_FormatInt j"
    using digits_until_dash [OF format_int_digits [OF assms(2)]] digits_until_dash [OF format_int_digits [OF assms(3)]] by metis
  then show ?thesis by (rule format_int_inject [OF assms(2,3)])
qed

lemma recharge_code_trim:
  assumes "0 \<le> i"
  shows "strings_TrimSpace (recharge_code_text i t) = recharge_code_text i t"
proof (rule visible_trim)
  have "list_all visible xs" if "list_all is_digit xs" for xs
    using that by (auto simp: list_all_iff is_digit_def visible_def byte_of_def)
  moreover have "list_all visible ''PAY-''" "list_all visible ''-''" by code_simp+
  moreover have "0 \<le> t mod 100000" by simp
  ultimately show "list_all visible (recharge_code_text i t)"
    using format_int_digits assms unfolding recharge_code_text_def list_all_append by blast
qed

text \<open>The tables while orders are only created: what holds of them after every statement.\<close>

definition created_ok :: "pay_db \<Rightarrow> bool" where
  "created_ok db \<longleftrightarrow>
     (\<forall>r \<in> set (pd_orders db). po_Status r = OrderStatusPending \<and> 0 < po_ID r \<and> (\<exists>t. po_RechargeCode r = recharge_code_text (po_ID r) t)) \<and>
     distinct (map po_ID (pd_orders db)) \<and> distinct (filter (\<lambda>tn. tn \<noteq> []) (map po_OutTradeNo (pd_orders db))) \<and>
     distinct (map rc_Code (pd_codes db)) \<and> distinct (map rc_ID (pd_codes db)) \<and> (\<forall>c \<in> set (pd_codes db). \<not> prefix ''PAY-'' (rc_Code c)) \<and>
     pd_credits db = [] \<and> pd_assigned db = [] \<and> (\<forall>l \<in> set (ad_ledger (pd_affiliates db)). al_SourceOrder l = None)"

lemma created_fresh: "created_ok db \<Longrightarrow> fresh_db db"
proof -
  assume ok: "created_ok db"
  have code: "\<exists>t. po_RechargeCode r = recharge_code_text (po_ID r) t" "0 < po_ID r" "po_Status r = OrderStatusPending"
    if "r \<in> set (pd_orders db)" for r using ok that by (simp_all add: created_ok_def)
  have "inj_on po_RechargeCode (set (pd_orders db))"
  proof (rule inj_onI)
    fix r s assume rs: "r \<in> set (pd_orders db)" "s \<in> set (pd_orders db)" "po_RechargeCode r = po_RechargeCode s"
    obtain t t' where "recharge_code_text (po_ID r) t = recharge_code_text (po_ID s) t'" using code(1) rs by metis
    then have "po_ID r = po_ID s" using code(2) rs(1,2) by (intro recharge_code_inject) (auto intro: less_imp_le)
    moreover have "inj_on po_ID (set (pd_orders db))" using ok by (simp add: created_ok_def distinct_map)
    ultimately show "r = s" using rs(1,2) by (auto dest: inj_onD)
  qed
  moreover have "distinct (pd_orders db)" using ok by (auto simp: created_ok_def distinct_map)
  ultimately have "distinct (map po_RechargeCode (pd_orders db))" by (simp add: distinct_map)
  moreover have "po_RechargeCode r \<noteq> [] \<and> strings_TrimSpace (po_RechargeCode r) = po_RechargeCode r \<and> prefix ''PAY-'' (po_RechargeCode r)"
    if r: "r \<in> set (pd_orders db)" for r
  proof -
    obtain t where t: "po_RechargeCode r = recharge_code_text (po_ID r) t" "0 \<le> po_ID r" using code [OF r] by auto
    then show ?thesis using recharge_code_trim by (simp add: recharge_code_text_def)
  qed
  ultimately show ?thesis using ok code(3) by (auto simp: fresh_db_def created_ok_def list_all_iff)
qed

lemma next_order_id_new: "0 < next_order_id db" "\<forall>r \<in> set (pd_orders db). po_ID r < next_order_id db"
  using foldl_max [of 0 po_ID "pd_orders db"] by (auto simp: next_order_id_def)

lemma insert_created: "created_ok db \<Longrightarrow> created_ok (snd (insert_order now d db))"
  using next_order_id_new [of db]
  by (auto simp: insert_order_def created_ok_def Let_def order_of_draft_def list_ex_iff)

lemma exec_created: "created_ok db \<Longrightarrow> created_ok (snd (create_exec inp c db))"
  by (cases c) (auto simp: create_statement_def insert_created split: fate.split)

lemma world_created:
  assumes "created_ok db"
  shows "created_ok (snd (world_run create_exec code hs db))"
proof -
  have "created_ok (snd (fold (world_step create_exec code) hs w))" if "created_ok (snd w)" for w
    using that
  proof (induction hs arbitrary: w)
    case (Cons h hs)
    have "created_ok (snd (world_step create_exec code h w))"
    proof (cases h)
      case (Turn n inp)
      have "created_ok s'" if "create_exec inp c (snd w) = (r, s')" for c r s' using exec_created [OF Cons.prems, of inp c] that by simp
      then show ?thesis using Turn Cons.prems by (cases w) (auto split: prog.split prod.split)
    qed (use Cons.prems in \<open>cases w; simp\<close>)
    then show ?case using Cons.IH by simp
  qed simp
  then show ?thesis using assms by (simp add: world_run_def)
qed

record create_request =
  rq_upper :: "string \<Rightarrow> string"
  rq_config :: PaymentConfig
  rq_request :: CreateOrderRequest
  rq_plan :: "SubscriptionPlan option"
  rq_terms :: order_terms

definition create_code :: "create_request \<Rightarrow> (pay_error + PaymentOrder) create_prog" where
  "create_code q = createOrderInTx (rq_upper q) (rq_config q) (rq_request q) (rq_plan q) (rq_terms q)"

text \<open>
  Property C5 (invariant). However creations of orders interleave and whichever of their statements are lost,
  the tables they build are those the payment service can start from: every order waits for its payment, the
  numbers, recharge codes and trade numbers of orders are unique, no recharge code is a redeem code yet, and
  nothing was granted. (Redeem codes of other origin do not begin with \<open>PAY-\<close>.)
\<close>

theorem created_orders_fresh:
  assumes "pd_orders db = []" and "distinct (map rc_Code (pd_codes db))" and "distinct (map rc_ID (pd_codes db))"
    and "\<forall>c \<in> set (pd_codes db). \<not> prefix ''PAY-'' (rc_Code c)" and "pd_credits db = []" and "pd_assigned db = []"
    and "ad_ledger (pd_affiliates db) = []" and "world_run create_exec create_code hs db = (ps, db')"
  shows "fresh_db db' \<and> distinct (filter (\<lambda>tn. tn \<noteq> []) (map po_OutTradeNo (pd_orders db')))"
proof -
  have "created_ok db" using assms(1-7) by (simp add: created_ok_def)
  then have ok: "created_ok db'" using world_created [of db create_code hs] assms(8) by simp
  then show ?thesis using created_fresh [OF ok] by (simp add: created_ok_def)
qed

definition example_terms :: order_terms where
  "example_terms = \<lparr> ot_Amount = 10, ot_LimitAmount = 10, ot_PayAmount = 10,
     ot_Selection = \<lparr> se_InstanceID = ''3'', se_ProviderKey = ''alipay'', se_Config = [(''appId'', ''A7'')], se_SupportedTypes = ''alipay'', se_PaymentMode = [] \<rparr> \<rparr>"

definition example_create :: create_request where
  "example_create = \<lparr> rq_upper = (\<lambda>s. s),
     rq_config = \<lparr> pc_Enabled = True, pc_MinAmount = 0, pc_MaxAmount = 0, pc_DailyLimit = 100, pc_OrderTimeoutMin = 30, pc_MaxPendingOrders = 1,
       pc_BalanceDisabled = False, pc_BalanceRechargeMultiplier = Fin 1, pc_SubscriptionUSDToCNYRate = Fin 0, pc_RechargeFeeRate = 0 \<rparr>,
     rq_request = \<lparr> cr_UserID = 5, cr_Amount = Fin 10, cr_PaymentType = ''alipay'', cr_OpenID = [], cr_OrderType = ''balance'', cr_PlanID = 0 \<rparr>,
     rq_plan = None, rq_terms = example_terms \<rparr>"

definition create_turn :: "nat \<Rightarrow> string \<Rightarrow> (create_input, create_request) happening" where
  "create_turn n x = Turn n \<lparr> ki_fate = Works, ki_clock = 7, ki_text = x \<rparr>"

definition create_race :: "(create_input, create_request) happening list" where
  "create_race = [Start example_create, Start example_create] @ concat (replicate 7 [create_turn 0 ''a'', create_turn 1 ''b''])"

theorem created_orders_fresh_witness:
  "let db' = snd (world_run create_exec create_code create_race (example_pay_db \<lparr> pd_orders := [] \<rparr>))
   in fresh_db db' \<and> length (pd_orders db') = 2"
proof -
  let ?db = "example_pay_db \<lparr> pd_orders := [] \<rparr>" and ?w = "world_run create_exec create_code create_race (example_pay_db \<lparr> pd_orders := [] \<rparr>)"
  have "length (pd_orders (snd ?w)) = 2" by code_simp
  then show ?thesis
    using created_orders_fresh [of ?db create_race "fst ?w" "snd ?w"] by (simp add: example_pay_db_def)
qed

section \<open>Limits\<close>
















text \<open>
  Currencies of three digits do not survive the columns: an order for 1.234 Kuwaiti dinars is accepted and the
  provider is asked for that amount, but the row holds 1.23, which is further away than the tolerance of the
  currency, and the notification of the very payment that was asked for is refused.
\<close>

definition dinar_terms :: order_terms where
  "dinar_terms = \<lparr> ot_Amount = 1234 / 1000, ot_LimitAmount = 1234 / 1000, ot_PayAmount = 1234 / 1000,
     ot_Selection = \<lparr> se_InstanceID = ''4'', se_ProviderKey = ''stripe'', se_Config = [(''currency'', ''KWD'')], se_SupportedTypes = ''stripe'', se_PaymentMode = [] \<rparr> \<rparr>"

lemma three_digit_order_refused:
  "validateCreateOrderAmountCurrency decimal_reference (\<lambda>s. s) (ot_PayAmount dinar_terms) ''KWD'' = None \<and>
   (case run_prog create_exec (create_code (example_create \<lparr> rq_terms := dinar_terms \<rparr>)) (\<lambda>_. \<lparr> ki_fate = Works, ki_clock = 7, ki_text = ''x'' \<rparr>)
       (example_pay_db \<lparr> pd_orders := [] \<rparr>) of
      (Inr r, _) \<Rightarrow> po_PayAmount r = 123 / 100 \<and>
        isl (confirm_check example_pay_env r [] ''T1'' (Fin (ot_PayAmount dinar_terms)) ''stripe'' [])
    | _ \<Rightarrow> False)"
  by code_simp

text \<open>
  Two creations that interleave can exceed the limit of pending orders: both count before either inserts,
  and nothing in the transaction keeps them apart. Here the limit is one order.
\<close>

lemma pending_limit_race:
  "let db = snd (world_run create_exec create_code create_race (example_pay_db \<lparr> pd_orders := [] \<rparr>))
   in pending_limit (pc_MaxPendingOrders (rq_config example_create)) = 1 \<and> length (pending_of 5 db) = 2"
  by code_simp

end
