(* ===== verification/Account_Quota.thy ===== *)
theory Account_Quota
  imports Subscription
begin

text \<open>
  The spending quota of an upstream account: a total, a daily and a weekly limit. The numbers live in the
  \<open>extra\<close> column of the account. Two sides work on them: the scheduler asks \<open>IsQuotaExceeded\<close>
  (\<open>service/account.go\<close>), and a billed request adds its cost by one SQL statement
  (\<open>repository/account_repo.go\<close>). Each side decides for itself whether a window has run out, the scheduler
  from the start of the window, the statement from the stored time of the next reset.

  The keys of the column are the fields of a record, \<open>None\<close> for a key that is absent; an absent limit is 0.
  Values are readable, and a stored text of a time is the time it denotes. The time zone database is an argument, for Go
  and for PostgreSQL: a zone turns an instant into the wall clock (nanoseconds since the first of January 1970, as
  if that clock showed UTC) and back.
\<close>

section \<open>Time zones\<close>

record zone =
  zn_local :: "gotime \<Rightarrow> int"
  zn_instant :: "int \<Rightarrow> gotime"

definition fixed_zone :: "duration \<Rightarrow> zone" where
  "fixed_zone off = \<lparr> zn_local = (\<lambda>t. t + off), zn_instant = (\<lambda>l. l - off) \<rparr>"

abbreviation "utc_zone \<equiv> fixed_zone 0"

record zone_tables =
  zs_go :: "string \<Rightarrow> zone option"
  zs_pg :: "string \<Rightarrow> zone option"

definition time_LoadLocation :: "zone_tables \<Rightarrow> string \<Rightarrow> zone option" where
  "time_LoadLocation Z n = (if n = [] \<or> n = ''UTC'' then Some utc_zone else zs_go Z n)"

text \<open>
  \<open>time.Date(t.Year(), t.Month(), t.Day(), hour, 0, 0, 0, tz)\<close> of \<open>t\<close> in the zone, \<open>AddDate(0, 0, k)\<close> and
  \<open>Weekday\<close> (Sunday is 0; the first of January 1970 was a Thursday).
\<close>

definition date_at :: "zone \<Rightarrow> int \<Rightarrow> gotime \<Rightarrow> gotime" where
  "date_at z hour t = zn_instant z (zn_local z t div Day * Day + hour * Hour)"

definition AddDate :: "zone \<Rightarrow> int \<Rightarrow> gotime \<Rightarrow> gotime" where
  "AddDate z k t = zn_instant z (zn_local z t + k * Day)"

definition Weekday :: "zone \<Rightarrow> gotime \<Rightarrow> int" where
  "Weekday z t = (zn_local z t div Day + 4) mod 7"

text \<open>The remainder of Go and of PostgreSQL has the sign of the dividend.\<close>

definition rem7 :: "int \<Rightarrow> int" where
  "rem7 x = (if x < 0 then - ((- x) mod 7) else x mod 7)"

text \<open>The formats of both sides keep whole seconds of a reset time.\<close>

definition whole_seconds :: "gotime \<Rightarrow> gotime" where
  "whole_seconds t = t - t mod Second"

section \<open>Reset times of the service\<close>

definition nextFixedDailyReset :: "int \<Rightarrow> zone \<Rightarrow> gotime \<Rightarrow> gotime" where
  "nextFixedDailyReset hour tz after =
     (let today = date_at tz hour after
      in if \<not> after < today then AddDate tz 1 today else today)"

definition lastFixedDailyReset :: "int \<Rightarrow> zone \<Rightarrow> gotime \<Rightarrow> gotime" where
  "lastFixedDailyReset hour tz now =
     (let today = date_at tz hour now
      in if now < today then AddDate tz (- 1) today else today)"

definition nextFixedWeeklyReset :: "int \<Rightarrow> int \<Rightarrow> zone \<Rightarrow> gotime \<Rightarrow> gotime" where
  "nextFixedWeeklyReset day hour tz after =
     (let todayReset = date_at tz hour after;
          daysForward = rem7 (day - Weekday tz todayReset + 7);
          daysForward = (if daysForward = 0 \<and> \<not> after < todayReset then 7 else daysForward)
      in AddDate tz daysForward todayReset)"

definition lastFixedWeeklyReset :: "int \<Rightarrow> int \<Rightarrow> zone \<Rightarrow> gotime \<Rightarrow> gotime" where
  "lastFixedWeeklyReset day hour tz now =
     (let todayReset = date_at tz hour now;
          daysBack = rem7 (Weekday tz todayReset - day + 7);
          daysBack = (if daysBack = 0 \<and> now < todayReset then 7 else daysBack)
      in AddDate tz (- daysBack) todayReset)"

section \<open>The quota\<close>

record quota_window =
  qw_Limit :: rat
  qw_Used :: "rat option"
  qw_Start :: "gotime option"
  qw_Mode :: "string option"
  qw_ResetAt :: "gotime option"
  qw_Day :: "int option"
  qw_Hour :: "int option"

record quota_extra =
  qe_Limit :: rat
  qe_Used :: "rat option"
  qe_Daily :: quota_window
  qe_Weekly :: quota_window
  qe_Timezone :: "string option"

definition or_default :: "'a option \<Rightarrow> 'a \<Rightarrow> 'a" where
  "or_default x d = (case x of None \<Rightarrow> d | Some v \<Rightarrow> v)"

definition total_used :: "quota_extra \<Rightarrow> rat" where
  "total_used q = or_default (qe_Used q) 0"

definition window_used :: "quota_window \<Rightarrow> rat" where
  "window_used w = or_default (qw_Used w) 0"

definition fixed_mode :: "quota_window \<Rightarrow> bool" where
  "fixed_mode w \<longleftrightarrow> or_default (qw_Mode w) ''rolling'' = ''fixed''"

definition quota_location :: "zone_tables \<Rightarrow> quota_extra \<Rightarrow> zone" where
  "quota_location Z q =
     (let tzName = or_default (qe_Timezone q) []
      in or_default (time_LoadLocation Z (if tzName = [] then ''UTC'' else tzName)) utc_zone)"

definition isFixedDailyPeriodExpired :: "zone_tables \<Rightarrow> gotime \<Rightarrow> quota_extra \<Rightarrow> gotime option \<Rightarrow> bool" where
  "isFixedDailyPeriodExpired Z now q periodStart =
     (case periodStart of
        None \<Rightarrow> True
      | Some s \<Rightarrow> s < lastFixedDailyReset (or_default (qw_Hour (qe_Daily q)) 0) (quota_location Z q) now)"

definition isFixedWeeklyPeriodExpired :: "zone_tables \<Rightarrow> gotime \<Rightarrow> quota_extra \<Rightarrow> gotime option \<Rightarrow> bool" where
  "isFixedWeeklyPeriodExpired Z now q periodStart =
     (case periodStart of
        None \<Rightarrow> True
      | Some s \<Rightarrow> s < lastFixedWeeklyReset (or_default (qw_Day (qe_Weekly q)) 1) (or_default (qw_Hour (qe_Weekly q)) 0)
                        (quota_location Z q) now)"

definition isPeriodExpired :: "gotime \<Rightarrow> gotime option \<Rightarrow> duration \<Rightarrow> bool" where
  "isPeriodExpired now periodStart dur =
     (case periodStart of None \<Rightarrow> True | Some s \<Rightarrow> dur \<le> time_Sub now s)"

definition IsDailyQuotaPeriodExpired :: "zone_tables \<Rightarrow> gotime \<Rightarrow> quota_extra \<Rightarrow> bool" where
  "IsDailyQuotaPeriodExpired Z now q =
     (if fixed_mode (qe_Daily q) then isFixedDailyPeriodExpired Z now q (qw_Start (qe_Daily q))
      else isPeriodExpired now (qw_Start (qe_Daily q)) (24 * Hour))"

definition IsWeeklyQuotaPeriodExpired :: "zone_tables \<Rightarrow> gotime \<Rightarrow> quota_extra \<Rightarrow> bool" where
  "IsWeeklyQuotaPeriodExpired Z now q =
     (if fixed_mode (qe_Weekly q) then isFixedWeeklyPeriodExpired Z now q (qw_Start (qe_Weekly q))
      else isPeriodExpired now (qw_Start (qe_Weekly q)) (7 * 24 * Hour))"

definition HasAnyQuotaLimit :: "quota_extra \<Rightarrow> bool" where
  "HasAnyQuotaLimit q \<longleftrightarrow> 0 < qe_Limit q \<or> 0 < qw_Limit (qe_Daily q) \<or> 0 < qw_Limit (qe_Weekly q)"

definition IsQuotaExceeded :: "zone_tables \<Rightarrow> gotime \<Rightarrow> quota_extra \<Rightarrow> bool" where
  "IsQuotaExceeded Z now q =
     (if 0 < qe_Limit q \<and> qe_Limit q \<le> total_used q then True
      else if 0 < qw_Limit (qe_Daily q) \<and> \<not> IsDailyQuotaPeriodExpired Z now q \<and> qw_Limit (qe_Daily q) \<le> window_used (qe_Daily q) then True
      else 0 < qw_Limit (qe_Weekly q) \<and> \<not> IsWeeklyQuotaPeriodExpired Z now q \<and> qw_Limit (qe_Weekly q) \<le> window_used (qe_Weekly q))"

section \<open>Saving a configuration\<close>

datatype quota_error =
    InvalidTimezone | InvalidDailyMode | InvalidDailyHour | InvalidWeeklyMode | InvalidWeeklyDay | InvalidWeeklyHour
  | UnknownZone | QuotaFault | ErrAccountNotFound

definition bad_mode :: "string option \<Rightarrow> bool" where
  "bad_mode m \<longleftrightarrow> (case m of None \<Rightarrow> False | Some s \<Rightarrow> s \<noteq> ''rolling'' \<and> s \<noteq> ''fixed'')"

definition outside :: "int option \<Rightarrow> int \<Rightarrow> bool" where
  "outside v most \<longleftrightarrow> (case v of None \<Rightarrow> False | Some i \<Rightarrow> i < 0 \<or> most < i)"

definition ValidateQuotaResetConfig :: "zone_tables \<Rightarrow> quota_extra \<Rightarrow> quota_error option" where
  "ValidateQuotaResetConfig Z q =
     (if or_default (qe_Timezone q) [] \<noteq> [] \<and> time_LoadLocation Z (or_default (qe_Timezone q) []) = None then Some InvalidTimezone
      else if bad_mode (qw_Mode (qe_Daily q)) then Some InvalidDailyMode
      else if outside (qw_Hour (qe_Daily q)) 23 then Some InvalidDailyHour
      else if bad_mode (qw_Mode (qe_Weekly q)) then Some InvalidWeeklyMode
      else if outside (qw_Day (qe_Weekly q)) 6 then Some InvalidWeeklyDay
      else if outside (qw_Hour (qe_Weekly q)) 23 then Some InvalidWeeklyHour
      else None)"

definition clamped :: "int option \<Rightarrow> int \<Rightarrow> int \<Rightarrow> int" where
  "clamped v most d = (let i = or_default v d in if i < 0 \<or> most < i then d else i)"

definition ComputeQuotaResetAt :: "zone_tables \<Rightarrow> gotime \<Rightarrow> quota_extra \<Rightarrow> quota_extra" where
  "ComputeQuotaResetAt Z now q =
     (let tz = quota_location Z q; d = qe_Daily q; w = qe_Weekly q
      in q \<lparr> qe_Daily := d \<lparr> qw_ResetAt :=
               (if fixed_mode d then Some (whole_seconds (nextFixedDailyReset (clamped (qw_Hour d) 23 0) tz now)) else None) \<rparr>,
             qe_Weekly := w \<lparr> qw_ResetAt :=
               (if fixed_mode w then Some (whole_seconds (nextFixedWeeklyReset (clamped (qw_Day w) 6 1) (clamped (qw_Hour w) 23 0) tz now)) else None) \<rparr> \<rparr>)"

definition aligned :: "gotime \<Rightarrow> quota_window \<Rightarrow> quota_window" where
  "aligned lastReset w =
     (if fixed_mode w \<and> 0 < qw_Limit w \<and> (case qw_Start w of None \<Rightarrow> True | Some s \<Rightarrow> s < lastReset)
      then w \<lparr> qw_Used := Some 0, qw_Start := Some (whole_seconds lastReset) \<rparr>
      else w)"

definition NormalizeFixedQuotaWindows :: "zone_tables \<Rightarrow> gotime \<Rightarrow> quota_extra \<Rightarrow> quota_extra" where
  "NormalizeFixedQuotaWindows Z now q =
     (let tz = quota_location Z q; d = qe_Daily q; w = qe_Weekly q
      in q \<lparr> qe_Daily := aligned (lastFixedDailyReset (clamped (qw_Hour d) 23 0) tz now) d,
             qe_Weekly := aligned (lastFixedWeeklyReset (clamped (qw_Day w) 6 1) (clamped (qw_Hour w) 23 0) tz now) w \<rparr>)"

text \<open>
  The part of \<open>UpdateAccount\<close> that saves an edited configuration: limits, modes, hours, day and zone are
  those of the request. A key of a usage or a start that the stored account has is kept; one that it does not have is
  taken from the request, if it is there. The two functions read the clock one after the other.
\<close>

definition kept_key :: "'a option \<Rightarrow> 'a option \<Rightarrow> 'a option" where
  "kept_key old new = (case old of Some v \<Rightarrow> Some v | None \<Rightarrow> new)"

definition kept_usage :: "quota_window \<Rightarrow> quota_window \<Rightarrow> quota_window" where
  "kept_usage old new = new \<lparr> qw_Used := kept_key (qw_Used old) (qw_Used new), qw_Start := kept_key (qw_Start old) (qw_Start new) \<rparr>"

definition save_quota_config :: "zone_tables \<Rightarrow> gotime \<Rightarrow> gotime \<Rightarrow> quota_extra \<Rightarrow> quota_extra \<Rightarrow> quota_error + quota_extra" where
  "save_quota_config Z now1 now2 edited stored =
     (let q = edited \<lparr> qe_Used := kept_key (qe_Used stored) (qe_Used edited), qe_Daily := kept_usage (qe_Daily stored) (qe_Daily edited),
                       qe_Weekly := kept_usage (qe_Weekly stored) (qe_Weekly edited) \<rparr>
      in case ValidateQuotaResetConfig Z q of
           Some e \<Rightarrow> Inl e
         | None \<Rightarrow> Inr (NormalizeFixedQuotaWindows Z now2 (ComputeQuotaResetAt Z now1 q)))"

section \<open>The statements\<close>

text \<open>
  The expressions of \<open>repository/account_repo.go\<close>; \<open>now\<close> is \<open>NOW()\<close>, and the date 1970-01-01 is the
  instant 0. \<open>pg_zone\<close> is what \<open>AT TIME ZONE\<close> finds under the name; a name it does not know aborts the
  statement.
\<close>

definition pg_zone :: "zone_tables \<Rightarrow> quota_extra \<Rightarrow> zone option" where
  "pg_zone Z q = zs_pg Z (or_default (qe_Timezone q) ''UTC'')"

definition dailyExpiredExpr :: "gotime \<Rightarrow> quota_extra \<Rightarrow> bool" where
  "dailyExpiredExpr now q =
     (let w = qe_Daily q
      in if fixed_mode w then or_default (qw_ResetAt w) 0 \<le> now
         else or_default (qw_Start w) 0 + 24 * Hour \<le> now)"

definition weeklyExpiredExpr :: "gotime \<Rightarrow> quota_extra \<Rightarrow> bool" where
  "weeklyExpiredExpr now q =
     (let w = qe_Weekly q
      in if fixed_mode w then or_default (qw_ResetAt w) 0 \<le> now
         else or_default (qw_Start w) 0 + 168 * Hour \<le> now)"

definition sql_today :: "zone \<Rightarrow> gotime \<Rightarrow> int" where
  "sql_today z now = zn_local z now div Day * Day"

definition nextDailyResetAtExpr :: "zone \<Rightarrow> gotime \<Rightarrow> quota_window \<Rightarrow> gotime option" where
  "nextDailyResetAtExpr z now w =
     (if fixed_mode w
      then let hour = or_default (qw_Hour w) 0
           in Some (whole_seconds
                (if zn_instant z (sql_today z now + hour * Hour) \<le> now
                 then zn_instant z (sql_today z now + hour * Hour + Day)
                 else zn_instant z (sql_today z now + hour * Hour)))
      else None)"

definition nextWeeklyResetAtExpr :: "zone \<Rightarrow> gotime \<Rightarrow> quota_window \<Rightarrow> gotime option" where
  "nextWeeklyResetAtExpr z now w =
     (if fixed_mode w
      then let hour = or_default (qw_Hour w) 0; days = rem7 (or_default (qw_Day w) 1 - (zn_local z now div Day + 4) mod 7 + 7)
           in Some (whole_seconds
                (if days = 0 \<and> zn_instant z (sql_today z now + hour * Hour) \<le> now
                 then zn_instant z (sql_today z now + hour * Hour + 7 * Day)
                 else zn_instant z (sql_today z now + hour * Hour + days * Day)))
      else None)"

definition increment_window ::
  "gotime \<Rightarrow> rat \<Rightarrow> bool \<Rightarrow> (zone \<Rightarrow> gotime \<Rightarrow> quota_window \<Rightarrow> gotime option) \<Rightarrow> zone option \<Rightarrow> quota_window \<Rightarrow> quota_error + quota_window" where
  "increment_window now amount expired nextExpr z w =
     (if \<not> 0 < qw_Limit w then Inr w
      else if \<not> expired then Inr (w \<lparr> qw_Used := Some (window_used w + amount), qw_Start := Some (or_default (qw_Start w) now) \<rparr>)
      else if fixed_mode w \<and> z = None then Inl UnknownZone
      else Inr (w \<lparr> qw_Used := Some amount, qw_Start := Some now,
                   qw_ResetAt := (case z of
                       None \<Rightarrow> qw_ResetAt w
                     | Some z \<Rightarrow> (case nextExpr z now w of None \<Rightarrow> qw_ResetAt w | Some r \<Rightarrow> Some r)) \<rparr>))"

text \<open>The column after the statement that \<open>IncrementQuotaUsed\<close> and the billing transaction share.\<close>

definition increment_quota :: "zone_tables \<Rightarrow> gotime \<Rightarrow> rat \<Rightarrow> quota_extra \<Rightarrow> quota_error + quota_extra" where
  "increment_quota Z now amount q =
     (case increment_window now amount (dailyExpiredExpr now q) nextDailyResetAtExpr (pg_zone Z q) (qe_Daily q) of
        Inl e \<Rightarrow> Inl e
      | Inr d \<Rightarrow>
          (case increment_window now amount (weeklyExpiredExpr now q) nextWeeklyResetAtExpr (pg_zone Z q) (qe_Weekly q) of
             Inl e \<Rightarrow> Inl e
           | Inr w \<Rightarrow> Inr (q \<lparr> qe_Used := Some (total_used q + amount), qe_Daily := d, qe_Weekly := w \<rparr>)))"

text \<open>Whether a dimension reached its limit by this very amount.\<close>

definition crossed :: "rat \<Rightarrow> rat \<Rightarrow> rat \<Rightarrow> bool" where
  "crossed limit used amount \<longleftrightarrow> 0 < limit \<and> limit \<le> used \<and> used - amount < limit"

text \<open>
  The accounts with the log of outbox events of the scheduler. \<open>account_repo\<close>'s own statement writes its
  event after the change, on its own; a lost event is only logged (\<open>event\<close> is its fate).
\<close>

record quota_account =
  qa_ID :: int
  qa_Deleted :: bool
  qa_Extra :: quota_extra

record quota_db =
  qd_accounts :: "quota_account list"
  qd_outbox :: "int list"

definition account_by_id :: "int \<Rightarrow> bool \<Rightarrow> quota_account list \<Rightarrow> quota_account option" where
  "account_by_id i allowDeleted t = find (\<lambda>a. qa_ID a = i \<and> (\<not> qa_Deleted a \<or> allowDeleted)) t"

definition set_extra :: "int \<Rightarrow> bool \<Rightarrow> quota_extra \<Rightarrow> quota_account list \<Rightarrow> quota_account list" where
  "set_extra i allowDeleted q t = map (\<lambda>a. if qa_ID a = i \<and> (\<not> qa_Deleted a \<or> allowDeleted) then a \<lparr> qa_Extra := q \<rparr> else a) t"

definition account_IncrementQuotaUsed ::
  "zone_tables \<Rightarrow> gotime \<Rightarrow> bool \<Rightarrow> int \<Rightarrow> rat \<Rightarrow> quota_db \<Rightarrow> quota_error option \<times> quota_db" where
  "account_IncrementQuotaUsed Z now event i amount db =
     (case account_by_id i False (qd_accounts db) of
        None \<Rightarrow> (None, db)
      | Some a \<Rightarrow>
          (case increment_quota Z now amount (qa_Extra a) of
             Inl e \<Rightarrow> (Some e, db)
           | Inr q \<Rightarrow>
               (None, db \<lparr> qd_accounts := set_extra i False q (qd_accounts db),
                          qd_outbox := (if crossed (qe_Limit q) (total_used q) amount \<and> event then qd_outbox db @ [i] else qd_outbox db) \<rparr>)))"

definition cleared :: "quota_window \<Rightarrow> quota_window" where
  "cleared w = w \<lparr> qw_Used := Some 0, qw_Start := None, qw_ResetAt := None \<rparr>"

definition reset_quota :: "quota_extra \<Rightarrow> quota_extra" where
  "reset_quota q = q \<lparr> qe_Used := Some 0, qe_Daily := cleared (qe_Daily q), qe_Weekly := cleared (qe_Weekly q) \<rparr>"

definition ResetQuotaUsed :: "bool \<Rightarrow> int \<Rightarrow> quota_db \<Rightarrow> quota_db" where
  "ResetQuotaUsed event i db =
     db \<lparr> qd_accounts := map (\<lambda>a. if qa_ID a = i \<and> \<not> qa_Deleted a then a \<lparr> qa_Extra := reset_quota (qa_Extra a) \<rparr> else a) (qd_accounts db),
          qd_outbox := (if event then qd_outbox db @ [i] else qd_outbox db) \<rparr>"

end
