(* ===== verification/Quota_Windows.thy ===== *)
theory Quota_Windows
  imports Account_Quota
begin

text \<open>
  That the two sides of an account's quota agree on its windows. The reset times of a window in a zone of
  fixed offset form a grid; the interface \<open>reset_schedule\<close> is what both sides need of the next and the last
  point, and the daily and weekly functions of the service are its instances. On top of it, an invariant of
  the stored quota under every sequence of edits, increments and resets.
\<close>

section \<open>Schedules of resets\<close>

locale reset_schedule =
  fixes nxt lst :: "gotime \<Rightarrow> gotime" and period origin :: int
  assumes nxt_grid: "period dvd nxt t - origin" and nxt_after: "t < nxt t" and nxt_near: "nxt t \<le> t + period"
    and lst_grid: "period dvd lst t - origin" and lst_before: "lst t \<le> t" and lst_near: "t < lst t + period"
begin

lemma grid_gap:
  assumes "period dvd x - origin" and "period dvd y - origin" and "x < y"
  shows "x + period \<le> y"
proof -
  have "period dvd y - x" using dvd_diff [OF assms(2,1)] by simp
  then have "period \<le> y - x" using assms(3) by (intro zdvd_imp_le) simp_all
  then show ?thesis by simp
qed

lemma next_passed_iff: "nxt s \<le> t \<longleftrightarrow> s < lst t"
proof
  assume "nxt s \<le> t"
  then show "s < lst t" using grid_gap [OF lst_grid nxt_grid, of t s] lst_near [of t] nxt_after [of s] by linarith
next
  assume "s < lst t"
  then show "nxt s \<le> t" using grid_gap [OF lst_grid nxt_grid, of t s] nxt_near [of s] lst_before [of t] by linarith
qed

lemma next_same:
  assumes "lst t \<le> s" and "s \<le> t"
  shows "nxt s = nxt t"
proof (rule ccontr)
  have "t < nxt s" using assms(1) next_passed_iff [of s t] by linarith
  moreover have "s < nxt t" using assms(2) nxt_after [of t] by linarith
  moreover assume "nxt s \<noteq> nxt t"
  ultimately show False
    using grid_gap [OF nxt_grid nxt_grid, of s t] grid_gap [OF nxt_grid nxt_grid, of t s] nxt_near [of s] nxt_near [of t] by linarith
qed

end

section \<open>The schedules of the service\<close>

lemma whole_seconds_grid: "Second dvd t \<Longrightarrow> whole_seconds t = t"
  by (simp add: whole_seconds_def)

lemma rem7_nonneg: "0 \<le> x \<Longrightarrow> rem7 x = x mod 7"
  by (simp add: rem7_def)

lemma clamped_range: "0 \<le> d \<Longrightarrow> d \<le> m \<Longrightarrow> 0 \<le> clamped v m d \<and> clamped v m d \<le> m"
  by (simp add: clamped_def Let_def)

lemma date_at_fixed: "date_at (fixed_zone off) h t = (t + off) div Day * Day + h * Hour - off"
  by (simp add: date_at_def fixed_zone_def)

lemma AddDate_fixed: "AddDate (fixed_zone off) k t = t + k * Day"
  by (simp add: AddDate_def fixed_zone_def)

lemma day_bounds:
  assumes "0 \<le> h" and "h \<le> 23"
  shows "date_at (fixed_zone off) h t - Day < t" and "t < date_at (fixed_zone off) h t + Day"
    and "(t + off) div Day = (date_at (fixed_zone off) h t + off) div Day"
proof -
  have h: "0 \<le> h * Hour" "h * Hour < Day" using assms by (simp_all add: Hour_def Day_def)
  have t: "(t + off) div Day * Day \<le> t + off" "t + off < (t + off) div Day * Day + Day"
    using minus_mod_eq_div_mult [of "t + off" Day] pos_mod_bound [of Day "t + off"] pos_mod_sign [of Day "t + off"] Day_pos by linarith+
  show "date_at (fixed_zone off) h t - Day < t" "t < date_at (fixed_zone off) h t + Day"
    using h t by (simp_all add: date_at_fixed)
  have "date_at (fixed_zone off) h t + off = h * Hour + (t + off) div Day * Day" by (simp add: date_at_fixed)
  then show "(t + off) div Day = (date_at (fixed_zone off) h t + off) div Day"
    using h Day_pos by simp
qed

interpretation daily: reset_schedule "nextFixedDailyReset (clamped v 23 0) (fixed_zone off)"
  "lastFixedDailyReset (clamped v 23 0) (fixed_zone off)" Day "clamped v 23 0 * Hour - off" for v off
proof
  fix t
  let ?h = "clamped v 23 0" and ?D = "date_at (fixed_zone off) (clamped v 23 0) t"
  have h: "0 \<le> ?h" "?h \<le> 23" using clamped_range [of 0 23 v] by simp_all
  have b: "?D - Day < t" "t < ?D + Day" by (rule day_bounds [OF h])+
  have g: "Day dvd ?D - (?h * Hour - off)" by (simp add: date_at_fixed)
  have n: "nextFixedDailyReset ?h (fixed_zone off) t = (if t < ?D then ?D else ?D + Day)"
    by (simp add: nextFixedDailyReset_def AddDate_fixed Let_def)
  have l: "lastFixedDailyReset ?h (fixed_zone off) t = (if t < ?D then ?D - Day else ?D)"
    by (simp add: lastFixedDailyReset_def AddDate_fixed Let_def)
  have up: "Day dvd ?D + Day - (?h * Hour - off)" using dvd_add [OF g dvd_refl] by (simp add: algebra_simps)
  have down: "Day dvd ?D - Day - (?h * Hour - off)" using dvd_diff [OF g dvd_refl] by (simp add: algebra_simps)
  show "Day dvd nextFixedDailyReset ?h (fixed_zone off) t - (?h * Hour - off)" unfolding n using g up by simp
  show "Day dvd lastFixedDailyReset ?h (fixed_zone off) t - (?h * Hour - off)" unfolding l using g down by simp
  show "t < nextFixedDailyReset ?h (fixed_zone off) t" "nextFixedDailyReset ?h (fixed_zone off) t \<le> t + Day"
    "lastFixedDailyReset ?h (fixed_zone off) t \<le> t" "t < lastFixedDailyReset ?h (fixed_zone off) t + Day"
    unfolding n l using b by auto
qed

text \<open>The weekly points: days whose number, counted from the first of January 1970, is three past the weekday.\<close>

lemma week_distances:
  fixes k d :: int
  assumes "0 \<le> d" and "d \<le> 6"
  defines "f \<equiv> (d - (k + 4) mod 7 + 7) mod 7" and "g \<equiv> ((k + 4) mod 7 - d + 7) mod 7"
  shows "0 \<le> f" "f \<le> 6" "0 \<le> g" "g \<le> 6" "f = 0 \<longleftrightarrow> g = 0"
    and "rem7 (d - (k + 4) mod 7 + 7) = f" "rem7 ((k + 4) mod 7 - d + 7) = g"
    and "7 dvd k + f - (d + 3)" "7 dvd k + - g - (d + 3)"
proof -
  show "0 \<le> f" "f \<le> 6" "0 \<le> g" "g \<le> 6" unfolding f_def g_def by presburger+
  show "f = 0 \<longleftrightarrow> g = 0" unfolding f_def g_def by presburger
  show "rem7 (d - (k + 4) mod 7 + 7) = f" unfolding f_def by (rule rem7_nonneg) (use assms(1) in presburger)
  show "rem7 ((k + 4) mod 7 - d + 7) = g" unfolding g_def by (rule rem7_nonneg) (use assms(2) in presburger)
  show "7 dvd k + f - (d + 3)" "7 dvd k + - g - (d + 3)" unfolding f_def g_def by presburger+
qed

lemma week_or_seven:
  fixes k f d :: int
  assumes "7 dvd k + f - (d + 3)"
  shows "7 dvd k + (if f = 0 \<and> c then 7 else f) - (d + 3)" "7 dvd k + (if f = 0 \<and> c then - 7 else f) - (d + 3)"
  using assms by presburger+

lemma week_point:
  assumes "7 dvd k + f - (d + 3)"
  shows "7 * Day dvd k * Day + h * Hour - off + f * Day - ((d + 3) * Day + h * Hour - off)"
proof -
  have "k * Day + h * Hour - off + f * Day - ((d + 3) * Day + h * Hour - off) = (k + f - (d + 3)) * Day" by (simp add: algebra_simps)
  then show ?thesis using assms by (simp add: mult_dvd_mono)
qed

interpretation weekly: reset_schedule "nextFixedWeeklyReset (clamped u 6 1) (clamped v 23 0) (fixed_zone off)"
  "lastFixedWeeklyReset (clamped u 6 1) (clamped v 23 0) (fixed_zone off)" "7 * Day"
  "(clamped u 6 1 + 3) * Day + clamped v 23 0 * Hour - off" for u v off
proof
  fix t
  let ?h = "clamped v 23 0" and ?d = "clamped u 6 1" and ?k = "(t + off) div Day"
  let ?D = "date_at (fixed_zone off) ?h t" and ?o = "(?d + 3) * Day + ?h * Hour - off"
  have h: "0 \<le> ?h" "?h \<le> 23" using clamped_range [of 0 23 v] by simp_all
  have d: "0 \<le> ?d" "?d \<le> 6" using clamped_range [of 1 6 u] by simp_all
  have b: "?D - Day < t" "t < ?D + Day" by (rule day_bounds [OF h])+
  have D: "?D = ?k * Day + ?h * Hour - off" by (rule date_at_fixed)
  have w: "Weekday (fixed_zone off) ?D = (?k + 4) mod 7"
    using day_bounds(3) [OF h, of t off] by (simp add: Weekday_def fixed_zone_def)
  define f where "f = (?d - (?k + 4) mod 7 + 7) mod 7"
  define g where "g = ((?k + 4) mod 7 - ?d + 7) mod 7"
  note dist = week_distances [OF d, of ?k, folded f_def g_def]
  have n: "nextFixedWeeklyReset ?d ?h (fixed_zone off) t = ?D + (if f = 0 \<and> \<not> t < ?D then 7 else f) * Day"
    by (simp add: nextFixedWeeklyReset_def AddDate_fixed Let_def w dist(6))
  have l: "lastFixedWeeklyReset ?d ?h (fixed_zone off) t = ?D + (if g = 0 \<and> t < ?D then - 7 else - g) * Day"
    by (simp add: lastFixedWeeklyReset_def AddDate_fixed Let_def w dist(7))
  have p: "7 dvd ?k + (if f = 0 \<and> \<not> t < ?D then 7 else f) - (?d + 3)" "7 dvd ?k + (if g = 0 \<and> t < ?D then - 7 else - g) - (?d + 3)"
    using week_or_seven(1) [OF dist(8), of "\<not> t < ?D"] week_or_seven(2) [OF dist(9), of "t < ?D"] by simp_all
  show "7 * Day dvd nextFixedWeeklyReset ?d ?h (fixed_zone off) t - ?o"
    unfolding n D by (rule week_point [OF p(1) [unfolded D]])
  show "7 * Day dvd lastFixedWeeklyReset ?d ?h (fixed_zone off) t - ?o"
    unfolding l D by (rule week_point [OF p(2) [unfolded D]])
  have mult: "a * Day \<le> c * Day" if "a \<le> c" for a c using that Day_pos by simp
  have fg: "1 * Day \<le> f * Day" "1 * Day \<le> g * Day" if "f \<noteq> 0"
    using dist(1-5) that by (auto intro!: mult simp del: mult_1 mult_le_cancel_right)
  have six: "f * Day \<le> 6 * Day" "g * Day \<le> 6 * Day" using mult [OF dist(2)] mult [OF dist(4)] by blast+
  show "t < nextFixedWeeklyReset ?d ?h (fixed_zone off) t" "nextFixedWeeklyReset ?d ?h (fixed_zone off) t \<le> t + 7 * Day"
    unfolding n using b fg(1) six(1) by (cases "f = 0"; cases "t < ?D"; simp del: mult_le_cancel_right; linarith)+
  show "lastFixedWeeklyReset ?d ?h (fixed_zone off) t \<le> t" "t < lastFixedWeeklyReset ?d ?h (fixed_zone off) t + 7 * Day"
    unfolding l using b fg(2) six(2) dist(5) by (cases "f = 0"; cases "t < ?D"; simp del: mult_le_cancel_right; linarith)+
qed

section \<open>Agreement on a window\<close>

text \<open>
  The two verdicts on a window, over any schedule: the one of the service from the start of the window, the
  one of the statement from the stored reset time. A window is in step when the stored reset time is the next
  one after the start; right after an edit around a reset time it may be behind, with no usage to lose.
\<close>

definition service_expired :: "(gotime \<Rightarrow> gotime) \<Rightarrow> duration \<Rightarrow> gotime \<Rightarrow> quota_window \<Rightarrow> bool" where
  "service_expired lst dur t w =
     (if fixed_mode w then (case qw_Start w of None \<Rightarrow> True | Some s \<Rightarrow> s < lst t) else isPeriodExpired t (qw_Start w) dur)"

definition statement_expired :: "duration \<Rightarrow> gotime \<Rightarrow> quota_window \<Rightarrow> bool" where
  "statement_expired dur t w =
     (if fixed_mode w then or_default (qw_ResetAt w) 0 \<le> t else or_default (qw_Start w) 0 + dur \<le> t)"

definition window_synced :: "(gotime \<Rightarrow> gotime) \<Rightarrow> gotime \<Rightarrow> quota_window \<Rightarrow> bool" where
  "window_synced nxt now w \<longleftrightarrow>
     (\<forall>s. qw_Start w = Some s \<longrightarrow> s \<le> now) \<and>
     (0 < qw_Limit w \<and> fixed_mode w \<longrightarrow>
        qw_Start w = None \<and> qw_ResetAt w = None \<or>
        (\<exists>s r. qw_Start w = Some s \<and> qw_ResetAt w = Some r \<and> (r = nxt s \<or> window_used w = 0 \<and> r \<le> now)))"

lemma window_synced_mono: "window_synced nxt now w \<Longrightarrow> now \<le> t \<Longrightarrow> window_synced nxt t w"
  unfolding window_synced_def by (auto intro: order_trans)

lemma window_synced_cleared: "window_synced nxt now (cleared w)"
  by (simp add: window_synced_def cleared_def)

lemma rolling_agree:
  assumes "0 \<le> dur" and "dur \<le> t" and "dur \<le> 7 * Day"
  shows "isPeriodExpired t start dur \<longleftrightarrow> or_default start 0 + dur \<le> t"
proof -
  have "dur \<le> maxDuration" using assms(3) by (simp add: maxDuration_def Day_def Hour_def)
  then have "time_Sub t s < dur \<longleftrightarrow> t - s < dur" for s
    using assms(1) by (intro time_Sub_lt_iff) (simp_all add: minDuration_def)
  then have "dur \<le> time_Sub t s \<longleftrightarrow> s + dur \<le> t" for s by (smt (verit))
  then show ?thesis unfolding isPeriodExpired_def or_default_def using assms(2) by (cases start) simp_all
qed

context reset_schedule
begin

lemma verdicts_agree:
  assumes "window_synced nxt now w" and "0 < qw_Limit w" and "now \<le> t" and "0 \<le> dur" and "dur \<le> t" and "dur \<le> 7 * Day"
  shows "service_expired lst dur t w = statement_expired dur t w \<or> window_used w = 0"
proof (cases "fixed_mode w")
  case False
  then show ?thesis using rolling_agree assms(4-6) by (simp add: service_expired_def statement_expired_def)
next
  case True
  then have "qw_Start w = None \<and> qw_ResetAt w = None \<or> (\<exists>s. qw_Start w = Some s \<and> qw_ResetAt w = Some (nxt s)) \<or> window_used w = 0"
    using assms(1,2) unfolding window_synced_def by auto
  moreover have "0 \<le> t" using assms(4,5) by linarith
  ultimately show ?thesis
    unfolding service_expired_def statement_expired_def or_default_def using True next_passed_iff [of _ t] by (elim disjE exE conjE) simp_all
qed

lemma seconds_points:
  assumes "Second dvd period" and "Second dvd origin"
  shows "whole_seconds (nxt t) = nxt t" and "whole_seconds (lst t) = lst t"
proof -
  have "Second dvd x" if "period dvd x - origin" for x using dvd_add [OF dvd_trans [OF assms(1) that] assms(2)] by simp
  then show "whole_seconds (nxt t) = nxt t" "whole_seconds (lst t) = lst t" using nxt_grid lst_grid whole_seconds_grid by blast+
qed

lemma edit_synced:
  assumes old: "\<And>s. qw_Start w = Some s \<Longrightarrow> s \<le> now1" and "now1 \<le> now2" and "fixed_mode w \<Longrightarrow> qw_ResetAt w = Some (nxt now1)"
    and "whole_seconds (lst now2) = lst now2"
  shows "window_synced nxt now2 (aligned (lst now2) w)"
proof (cases "fixed_mode w \<and> 0 < qw_Limit w")
  case True
  then have r: "qw_ResetAt w = Some (nxt now1)" using assms(3) by blast
  show ?thesis
  proof (cases "case qw_Start w of None \<Rightarrow> True | Some s \<Rightarrow> s < lst now2")
    case reset: True
    have "nxt now1 = nxt (lst now2) \<or> nxt now1 \<le> now2"
    proof (cases "now1 < lst now2")
      case True
      then show ?thesis using next_passed_iff by blast
    next
      case False
      have "lst now1 \<le> lst now2" using next_passed_iff [of "lst now2" now1] nxt_after [of "lst now2"]
        grid_gap [OF lst_grid lst_grid, of now2 now1] lst_near [of now2] lst_before [of now1] assms(2) by linarith
      then show ?thesis using next_same [of now1 "lst now2"] False by simp
    qed
    then show ?thesis
      using True reset r lst_before [of now2] assms(4) by (auto simp: aligned_def window_synced_def fixed_mode_def window_used_def or_default_def)
  next
    case False
    then obtain s where s: "qw_Start w = Some s" "lst now2 \<le> s" by (auto split: option.splits)
    then have "nxt s = nxt now2" using old assms(2) by (intro next_same) auto
    moreover have "nxt now1 = nxt now2" using s old assms(2) by (intro next_same) auto
    ultimately show ?thesis using True False s r old assms(2) by (fastforce simp: aligned_def window_synced_def)
  qed
next
  case False
  then have "aligned (lst now2) w = w" by (auto simp: aligned_def)
  then show ?thesis using False old assms(2) by (fastforce simp: window_synced_def)
qed

lemma increment_synced:
  assumes "window_synced nxt now w" and "now \<le> t" and "0 \<le> t"
    and "increment_window t amount (statement_expired dur t w) nextExpr z w = Inr w'"
    and "\<And>y. z = Some y \<Longrightarrow> nextExpr y t w = (if fixed_mode w then Some (nxt t) else None)"
  shows "window_synced nxt t w'"
proof -
  note mono = window_synced_mono [OF assms(1,2)]
  consider (off) "\<not> 0 < qw_Limit w" "w' = w"
    | (add) "0 < qw_Limit w" "\<not> statement_expired dur t w" "w' = w \<lparr> qw_Used := Some (window_used w + amount), qw_Start := Some (or_default (qw_Start w) t) \<rparr>"
    | (new) "statement_expired dur t w" "qw_Start w' = Some t" "fixed_mode w' = fixed_mode w" "fixed_mode w \<Longrightarrow> qw_ResetAt w' = Some (nxt t)"
    using assms(4,5) by (force simp: increment_window_def fixed_mode_def split: if_splits option.splits)
  then show ?thesis
  proof cases
    case add
    have start: "or_default (qw_Start w) t \<le> t" using mono by (cases "qw_Start w") (auto simp: window_synced_def or_default_def)
    show ?thesis
    proof (cases "fixed_mode w")
      case True
      then obtain s r where "qw_Start w = Some s" "qw_ResetAt w = Some r" "r = nxt s \<or> window_used w = 0 \<and> r \<le> t" "t < r"
        using mono add assms(3) by (auto simp: window_synced_def statement_expired_def or_default_def)
      then show ?thesis using add start True by (simp add: window_synced_def fixed_mode_def or_default_def)
    qed (use add start in \<open>simp add: window_synced_def fixed_mode_def\<close>)
  qed (use mono in \<open>auto simp: window_synced_def\<close>)
qed

end

lemma increment_used:
  assumes "increment_window t amount expired nextExpr z w = Inr w'" and "0 < qw_Limit w"
  shows "window_used w' = (if expired then 0 else window_used w) + amount" and "qw_Limit w' = qw_Limit w"
  using assms by (auto simp: increment_window_def window_used_def or_default_def split: if_splits)

end
