(* ===== verification/Quota_Verdict.thy ===== *)
theory Quota_Verdict
  imports Quota_Windows
begin

text \<open>
  Histories of one account's quota: edits of its configuration, increments by billed requests and resets by an
  administrator, at times that do not run backwards. At every moment the verdict of the scheduler is about
  exactly the usage the next increment will continue.
\<close>

section \<open>Expressions of the statement and the service\<close>

definition plain_zone :: "zone_tables \<Rightarrow> quota_extra \<Rightarrow> bool" where
  "plain_zone Z q \<longleftrightarrow>
     (\<exists>off. Second dvd off \<and> quota_location Z q = fixed_zone off \<and> (pg_zone Z q = None \<or> pg_zone Z q = Some (fixed_zone off)))"

definition valid_window :: "quota_window \<Rightarrow> bool" where
  "valid_window w \<longleftrightarrow> \<not> outside (qw_Hour w) 23 \<and> \<not> outside (qw_Day w) 6"

lemma clamped_inside: "\<not> outside v most \<Longrightarrow> or_default v d = clamped v most d"
  by (auto simp: outside_def clamped_def or_default_def split: option.splits)

definition daily_next :: "quota_extra \<Rightarrow> zone \<Rightarrow> gotime \<Rightarrow> gotime" where
  "daily_next q z = nextFixedDailyReset (clamped (qw_Hour (qe_Daily q)) 23 0) z"

definition weekly_next :: "quota_extra \<Rightarrow> zone \<Rightarrow> gotime \<Rightarrow> gotime" where
  "weekly_next q z = nextFixedWeeklyReset (clamped (qw_Day (qe_Weekly q)) 6 1) (clamped (qw_Hour (qe_Weekly q)) 23 0) z"

lemma seconds_in [simp]: "Second dvd Day" "Second dvd h * Hour"
  by (simp_all add: Second_def Day_def Hour_def dvd_def)

lemma seconds_origin:
  assumes "Second dvd off"
  shows "Second dvd h * Hour - off" and "Second dvd (d + 3) * Day + h * Hour - off"
  using assms by simp_all

lemma daily_seconds:
  assumes "Second dvd off"
  shows "whole_seconds (nextFixedDailyReset (clamped v 23 0) (fixed_zone off) t) = nextFixedDailyReset (clamped v 23 0) (fixed_zone off) t"
    and "whole_seconds (lastFixedDailyReset (clamped v 23 0) (fixed_zone off) t) = lastFixedDailyReset (clamped v 23 0) (fixed_zone off) t"
  using daily.seconds_points seconds_origin(1) [OF assms] by simp_all

lemma weekly_seconds:
  assumes "Second dvd off"
  shows "whole_seconds (nextFixedWeeklyReset (clamped u 6 1) (clamped v 23 0) (fixed_zone off) t) =
      nextFixedWeeklyReset (clamped u 6 1) (clamped v 23 0) (fixed_zone off) t"
    and "whole_seconds (lastFixedWeeklyReset (clamped u 6 1) (clamped v 23 0) (fixed_zone off) t) =
      lastFixedWeeklyReset (clamped u 6 1) (clamped v 23 0) (fixed_zone off) t"
  using weekly.seconds_points seconds_origin(2) [OF assms] by simp_all

text \<open>The expressions in SQL compute the same reset times as the service.\<close>

lemma daily_expression:
  assumes "Second dvd off" and "\<not> outside (qw_Hour w) 23"
  shows "nextDailyResetAtExpr (fixed_zone off) t w =
    (if fixed_mode w then Some (nextFixedDailyReset (clamped (qw_Hour w) 23 0) (fixed_zone off) t) else None)"
proof -
  let ?h = "clamped (qw_Hour w) 23 0"
  have D: "zn_instant (fixed_zone off) (sql_today (fixed_zone off) t + ?h * Hour) = date_at (fixed_zone off) ?h t"
    by (simp add: sql_today_def date_at_def)
  have "zn_instant (fixed_zone off) (sql_today (fixed_zone off) t + ?h * Hour + Day) = AddDate (fixed_zone off) 1 (date_at (fixed_zone off) ?h t)"
    by (simp add: sql_today_def AddDate_def date_at_def fixed_zone_def)
  then show ?thesis
    using daily_seconds(1) [OF assms(1), of "qw_Hour w" t] clamped_inside [OF assms(2), of 0] D
    by (auto simp: nextDailyResetAtExpr_def nextFixedDailyReset_def Let_def not_less split: if_splits)
qed

lemma weekly_expression:
  assumes "Second dvd off" and "valid_window w"
  shows "nextWeeklyResetAtExpr (fixed_zone off) t w =
    (if fixed_mode w then Some (nextFixedWeeklyReset (clamped (qw_Day w) 6 1) (clamped (qw_Hour w) 23 0) (fixed_zone off) t) else None)"
proof -
  let ?h = "clamped (qw_Hour w) 23 0" and ?z = "fixed_zone off"
  have h: "0 \<le> ?h" "?h \<le> 23" using clamped_range [of 0 23 "qw_Hour w"] by simp_all
  have D: "zn_instant ?z (sql_today ?z t + ?h * Hour) = date_at ?z ?h t"
    by (simp add: sql_today_def date_at_def)
  have A: "zn_instant ?z (sql_today ?z t + ?h * Hour + k * Day) = AddDate ?z k (date_at ?z ?h t)" for k
    by (simp add: sql_today_def AddDate_def date_at_def fixed_zone_def)
  have W: "(zn_local ?z t div Day + 4) mod 7 = Weekday ?z (date_at ?z ?h t)"
    using day_bounds(3) [OF h, of t off] by (simp add: Weekday_def fixed_zone_def)
  have in7: "or_default (qw_Hour w) 0 = ?h" "or_default (qw_Day w) 1 = clamped (qw_Day w) 6 1"
    using assms(2) clamped_inside by (simp_all add: valid_window_def)
  show ?thesis
    using weekly_seconds(1) [OF assms(1), of "qw_Day w" "qw_Hour w" t]
    by (auto simp: nextWeeklyResetAtExpr_def nextFixedWeeklyReset_def Let_def not_less in7 W D A)
qed

section \<open>Histories\<close>

definition quota_in_step :: "zone_tables \<Rightarrow> gotime \<Rightarrow> quota_extra \<Rightarrow> bool" where
  "quota_in_step Z now q \<longleftrightarrow>
     plain_zone Z q \<and> \<not> outside (qw_Hour (qe_Daily q)) 23 \<and> valid_window (qe_Weekly q) \<and>
     window_synced (daily_next q (quota_location Z q)) now (qe_Daily q) \<and>
     window_synced (weekly_next q (quota_location Z q)) now (qe_Weekly q)"

text \<open>Parts of the configuration that a change of usage, starts and reset times leaves alone.\<close>

definition same_config :: "quota_window \<Rightarrow> quota_window \<Rightarrow> bool" where
  "same_config v w \<longleftrightarrow> qw_Limit v = qw_Limit w \<and> qw_Mode v = qw_Mode w \<and> qw_Day v = qw_Day w \<and> qw_Hour v = qw_Hour w"

lemma increment_same: "increment_window t amount ex nextExpr z w = Inr w' \<Longrightarrow> same_config w' w"
  by (auto simp: increment_window_def same_config_def split: if_splits)

lemma same_config_parts:
  assumes "same_config (qe_Daily q') (qe_Daily q)" and "same_config (qe_Weekly q') (qe_Weekly q)" and "qe_Timezone q' = qe_Timezone q"
  shows "plain_zone Z q' = plain_zone Z q" and "quota_location Z q' = quota_location Z q"
    and "outside (qw_Hour (qe_Daily q')) 23 = outside (qw_Hour (qe_Daily q)) 23" and "valid_window (qe_Weekly q') = valid_window (qe_Weekly q)"
    and "daily_next q' = daily_next q" and "weekly_next q' = weekly_next q"
  using assms
  by (simp_all add: plain_zone_def quota_location_def pg_zone_def same_config_def valid_window_def daily_next_def weekly_next_def fun_eq_iff)

lemma daily_verdict:
  assumes "\<not> outside (qw_Hour (qe_Daily q)) 23"
  shows "IsDailyQuotaPeriodExpired Z t q =
    service_expired (lastFixedDailyReset (clamped (qw_Hour (qe_Daily q)) 23 0) (quota_location Z q)) (24 * Hour) t (qe_Daily q)"
  unfolding IsDailyQuotaPeriodExpired_def service_expired_def isFixedDailyPeriodExpired_def clamped_inside [OF assms] by simp

lemma weekly_verdict:
  assumes "valid_window (qe_Weekly q)"
  shows "IsWeeklyQuotaPeriodExpired Z t q =
    service_expired (lastFixedWeeklyReset (clamped (qw_Day (qe_Weekly q)) 6 1) (clamped (qw_Hour (qe_Weekly q)) 23 0) (quota_location Z q))
      (7 * 24 * Hour) t (qe_Weekly q)"
  unfolding IsWeeklyQuotaPeriodExpired_def service_expired_def isFixedWeeklyPeriodExpired_def
    clamped_inside [OF assms [unfolded valid_window_def, THEN conjunct1]] clamped_inside [OF assms [unfolded valid_window_def, THEN conjunct2]]
  by simp

lemma statement_verdicts:
  "dailyExpiredExpr t q = statement_expired (24 * Hour) t (qe_Daily q)"
  "weeklyExpiredExpr t q = statement_expired (168 * Hour) t (qe_Weekly q)"
  by (simp_all add: dailyExpiredExpr_def weeklyExpiredExpr_def statement_expired_def Let_def)

lemma increment_in_step:
  assumes "quota_in_step Z now q" and "now \<le> t" and "0 \<le> t" and "increment_quota Z t amount q = Inr q'"
  shows "quota_in_step Z t q'"
proof -
  obtain off where off: "Second dvd off" "quota_location Z q = fixed_zone off" "pg_zone Z q = None \<or> pg_zone Z q = Some (fixed_zone off)"
    using assms(1) by (auto simp: quota_in_step_def plain_zone_def)
  obtain d w where d: "increment_window t amount (dailyExpiredExpr t q) nextDailyResetAtExpr (pg_zone Z q) (qe_Daily q) = Inr d"
    and w: "increment_window t amount (weeklyExpiredExpr t q) nextWeeklyResetAtExpr (pg_zone Z q) (qe_Weekly q) = Inr w"
    and q': "q' = q \<lparr> qe_Used := Some (total_used q + amount), qe_Daily := d, qe_Weekly := w \<rparr>"
    using assms(4) by (auto simp: increment_quota_def split: sum.splits)
  have parts: "\<not> outside (qw_Hour (qe_Daily q)) 23" "valid_window (qe_Weekly q)"
    "window_synced (daily_next q (fixed_zone off)) now (qe_Daily q)" "window_synced (weekly_next q (fixed_zone off)) now (qe_Weekly q)"
    using assms(1) off(2) by (simp_all add: quota_in_step_def)
  have zone: "z = fixed_zone off" if "pg_zone Z q = Some z" for z using off(3) that by auto
  have "window_synced (daily_next q (fixed_zone off)) t d"
    unfolding daily_next_def
    by (rule daily.increment_synced [OF parts(3) [unfolded daily_next_def] assms(2,3) d [unfolded statement_verdicts]])
      (use zone daily_expression [OF off(1) parts(1)] in blast)
  moreover have "window_synced (weekly_next q (fixed_zone off)) t w"
    unfolding weekly_next_def
    by (rule weekly.increment_synced [OF parts(4) [unfolded weekly_next_def] assms(2,3) w [unfolded statement_verdicts]])
      (use zone weekly_expression [OF off(1) parts(2)] in blast)
  moreover have "same_config (qe_Daily q') (qe_Daily q)" "same_config (qe_Weekly q') (qe_Weekly q)" "qe_Timezone q' = qe_Timezone q"
    using increment_same [OF d] increment_same [OF w] by (simp_all add: q')
  note same = same_config_parts [OF this]
  ultimately show ?thesis using assms(1) off(2) unfolding quota_in_step_def same by (simp add: q')
qed

text \<open>The starts a configuration brings along are not after a time.\<close>

definition starts_by :: "gotime \<Rightarrow> quota_extra \<Rightarrow> bool" where
  "starts_by t q \<longleftrightarrow> (\<forall>s \<in> set_option (qw_Start (qe_Daily q)) \<union> set_option (qw_Start (qe_Weekly q)). s \<le> t)"

lemma save_in_step:
  assumes "quota_in_step Z now stored" and "now \<le> now1" and "now1 \<le> now2" and "plain_zone Z edited"
    and "save_quota_config Z now1 now2 edited stored = Inr q'" and "starts_by now1 edited"
  shows "quota_in_step Z now2 q'"
proof -
  let ?d = "kept_usage (qe_Daily stored) (qe_Daily edited)" and ?w = "kept_usage (qe_Weekly stored) (qe_Weekly edited)"
  define q where "q = edited \<lparr> qe_Used := kept_key (qe_Used stored) (qe_Used edited), qe_Daily := ?d, qe_Weekly := ?w \<rparr>"
  have valid: "ValidateQuotaResetConfig Z q = None" and q': "q' = NormalizeFixedQuotaWindows Z now2 (ComputeQuotaResetAt Z now1 q)"
    using assms(5) by (simp_all add: save_quota_config_def Let_def q_def split: option.splits)
  have zone: "plain_zone Z q" using assms(4) by (simp add: plain_zone_def quota_location_def pg_zone_def q_def)
  then obtain off where off: "Second dvd off" "quota_location Z q = fixed_zone off" by (auto simp: plain_zone_def)
  let ?h = "clamped (qw_Hour (qe_Daily q)) 23 0" and ?u = "clamped (qw_Day (qe_Weekly q)) 6 1" and ?v = "clamped (qw_Hour (qe_Weekly q)) 23 0"
  define d1 where "d1 = qe_Daily q \<lparr> qw_ResetAt := if fixed_mode (qe_Daily q) then Some (nextFixedDailyReset ?h (fixed_zone off) now1) else None \<rparr>"
  define w1 where "w1 = qe_Weekly q \<lparr> qw_ResetAt := if fixed_mode (qe_Weekly q) then Some (nextFixedWeeklyReset ?u ?v (fixed_zone off) now1) else None \<rparr>"
  have loc: "quota_location Z (ComputeQuotaResetAt Z now1 q) = fixed_zone off"
    using off(2) by (simp add: quota_location_def ComputeQuotaResetAt_def Let_def)
  have q'': "q' = q \<lparr> qe_Daily := aligned (lastFixedDailyReset ?h (fixed_zone off) now2) d1,
      qe_Weekly := aligned (lastFixedWeeklyReset ?u ?v (fixed_zone off) now2) w1 \<rparr>"
    unfolding q' NormalizeFixedQuotaWindows_def loc Let_def
    by (simp add: ComputeQuotaResetAt_def off(2) daily_seconds(1) [OF off(1)] weekly_seconds(1) [OF off(1)] d1_def w1_def Let_def)
  have start: "s \<le> now1" if "qw_Start d1 = Some s \<or> qw_Start w1 = Some s" for s
    using that assms(1,2,6)
    by (auto simp: d1_def w1_def q_def kept_usage_def kept_key_def quota_in_step_def window_synced_def starts_by_def split: option.splits)
  have mode: "fixed_mode d1 = fixed_mode (qe_Daily q)" "fixed_mode w1 = fixed_mode (qe_Weekly q)"
    by (simp_all add: d1_def w1_def fixed_mode_def)
  have sync: "window_synced (daily_next q (fixed_zone off)) now2 (qe_Daily q')" "window_synced (weekly_next q (fixed_zone off)) now2 (qe_Weekly q')"
    unfolding daily_next_def weekly_next_def q''
    using daily.edit_synced [OF start assms(3), of d1] weekly.edit_synced [OF start assms(3), of w1] mode
      daily_seconds(2) [OF off(1)] weekly_seconds(2) [OF off(1)] by (simp_all add: d1_def w1_def)
  have "same_config (qe_Daily q') (qe_Daily q)" "same_config (qe_Weekly q') (qe_Weekly q)" "qe_Timezone q' = qe_Timezone q"
    by (simp_all add: q'' same_config_def aligned_def d1_def w1_def)
  note same = same_config_parts [OF this]
  have "\<not> outside (qw_Hour (qe_Daily q)) 23" "valid_window (qe_Weekly q)"
    using valid by (auto simp: ValidateQuotaResetConfig_def valid_window_def split: if_splits)
  then show ?thesis using zone sync off(2) unfolding quota_in_step_def same by simp
qed

lemma reset_in_step:
  assumes "quota_in_step Z now q"
  shows "quota_in_step Z t (reset_quota q)"
proof -
  have "same_config (qe_Daily (reset_quota q)) (qe_Daily q)" "same_config (qe_Weekly (reset_quota q)) (qe_Weekly q)"
    "qe_Timezone (reset_quota q) = qe_Timezone q" by (simp_all add: reset_quota_def same_config_def cleared_def)
  note same = same_config_parts [OF this]
  show ?thesis
    using assms window_synced_cleared unfolding quota_in_step_def same by (simp add: reset_quota_def)
qed

text \<open>The operations on one account; one that fails leaves the account as it was.\<close>

datatype quota_op =
    Edit_config quota_extra gotime gotime
  | Bill_request rat gotime
  | Reset_used gotime

fun quota_step :: "zone_tables \<Rightarrow> quota_op \<Rightarrow> quota_extra \<Rightarrow> quota_extra" where
  "quota_step Z (Edit_config edited now1 now2) q = (case save_quota_config Z now1 now2 edited q of Inl _ \<Rightarrow> q | Inr q' \<Rightarrow> q')"
| "quota_step Z (Bill_request amount t) q = (case increment_quota Z t amount q of Inl _ \<Rightarrow> q | Inr q' \<Rightarrow> q')"
| "quota_step Z (Reset_used t) q = reset_quota q"

fun op_times :: "quota_op \<Rightarrow> gotime \<times> gotime" where
  "op_times (Edit_config _ now1 now2) = (now1, now2)"
| "op_times (Bill_request _ t) = (t, t)"
| "op_times (Reset_used t) = (t, t)"

fun in_order :: "gotime \<Rightarrow> quota_op list \<Rightarrow> gotime \<Rightarrow> bool" where
  "in_order start [] until \<longleftrightarrow> start \<le> until"
| "in_order start (x # xs) until \<longleftrightarrow> start \<le> fst (op_times x) \<and> fst (op_times x) \<le> snd (op_times x) \<and> in_order (snd (op_times x)) xs until"

fun plain_edit :: "zone_tables \<Rightarrow> quota_op \<Rightarrow> bool" where
  "plain_edit Z (Edit_config edited now1 _) \<longleftrightarrow> plain_zone Z edited \<and> starts_by now1 edited"
| "plain_edit Z _ \<longleftrightarrow> True"

definition blank_window :: quota_window where
  "blank_window = \<lparr> qw_Limit = 0, qw_Used = None, qw_Start = None, qw_Mode = None, qw_ResetAt = None, qw_Day = None, qw_Hour = None \<rparr>"

definition blank_quota :: quota_extra where
  "blank_quota = \<lparr> qe_Limit = 0, qe_Used = None, qe_Daily = blank_window, qe_Weekly = blank_window, qe_Timezone = None \<rparr>"

lemma blank_in_step:
  assumes "zs_pg Z ''UTC'' = Some utc_zone"
  shows "quota_in_step Z t blank_quota"
  using assms
  by (auto simp: quota_in_step_def blank_quota_def blank_window_def plain_zone_def quota_location_def pg_zone_def or_default_def
      time_LoadLocation_def outside_def valid_window_def window_synced_def intro!: exI [of _ 0])

lemma step_in_step:
  assumes "quota_in_step Z start q" and "start \<le> fst (op_times x)" and "fst (op_times x) \<le> snd (op_times x)" and "0 \<le> start" and "plain_edit Z x"
  shows "quota_in_step Z (snd (op_times x)) (quota_step Z x q)"
proof -
  have later: "quota_in_step Z t q" if "start \<le> t" for t
    using assms(1) that window_synced_mono unfolding quota_in_step_def by blast
  show ?thesis
  proof (cases x)
    case (Edit_config edited now1 now2)
    then show ?thesis
      using save_in_step [OF assms(1), of now1 now2 edited] later assms(2,3,5)
      by (cases "save_quota_config Z now1 now2 edited q") simp_all
  next
    case (Bill_request amount t)
    then show ?thesis
      using increment_in_step [OF assms(1)] later assms(2,4) by (cases "increment_quota Z t amount q") simp_all
  next
    case (Reset_used t)
    then show ?thesis using reset_in_step [OF assms(1)] by simp
  qed
qed

lemma history_in_step:
  assumes "in_order start xs until" and "0 \<le> start" and "list_all (plain_edit Z) xs" and "quota_in_step Z start q"
  shows "quota_in_step Z until (fold (quota_step Z) xs q) \<and> start \<le> until"
  using assms
proof (induction xs arbitrary: start q)
  case Nil
  then show ?case using window_synced_mono by (fastforce simp: quota_in_step_def)
next
  case (Cons x xs)
  have "quota_in_step Z (snd (op_times x)) (quota_step Z x q)" using step_in_step [OF Cons.prems(4)] Cons.prems(1-3) by simp
  then show ?case using Cons.IH [of "snd (op_times x)" "quota_step Z x q"] Cons.prems(1-3) by simp
qed

text \<open>
  What an edit leaves of a stored usage: all of it, unless the window has fixed resets and its stored start is
  before the last of them.
\<close>

definition usage_survives :: "gotime \<Rightarrow> quota_window \<Rightarrow> quota_window \<Rightarrow> bool" where
  "usage_survives lastReset old new \<longleftrightarrow>
     (\<forall>v. qw_Used old = Some v \<longrightarrow> qw_Used new = Some v \<or>
        qw_Used new = Some 0 \<and> fixed_mode new \<and> (\<forall>s. qw_Start old = Some s \<longrightarrow> s < lastReset))"

definition daily_last :: "zone_tables \<Rightarrow> quota_extra \<Rightarrow> gotime \<Rightarrow> gotime" where
  "daily_last Z q = lastFixedDailyReset (clamped (qw_Hour (qe_Daily q)) 23 0) (quota_location Z q)"

definition weekly_last :: "zone_tables \<Rightarrow> quota_extra \<Rightarrow> gotime \<Rightarrow> gotime" where
  "weekly_last Z q = lastFixedWeeklyReset (clamped (qw_Day (qe_Weekly q)) 6 1) (clamped (qw_Hour (qe_Weekly q)) 23 0) (quota_location Z q)"

lemma aligned_survives: "usage_survives lastReset old (aligned lastReset (kept_usage old new \<lparr> qw_ResetAt := r \<rparr>))"
  by (auto simp: usage_survives_def aligned_def kept_usage_def kept_key_def fixed_mode_def)

lemma aligned_config: "same_config (aligned lastReset (kept_usage old new \<lparr> qw_ResetAt := r \<rparr>)) new"
  by (simp add: same_config_def aligned_def kept_usage_def)

lemma save_keeps_usage:
  assumes "save_quota_config Z now1 now2 edited stored = Inr q"
  shows "(\<forall>v. qe_Used stored = Some v \<longrightarrow> qe_Used q = Some v) \<and>
    usage_survives (daily_last Z q now2) (qe_Daily stored) (qe_Daily q) \<and>
    usage_survives (weekly_last Z q now2) (qe_Weekly stored) (qe_Weekly q)"
proof -
  have z: "quota_location Z (e \<lparr> qe_Daily := d, qe_Weekly := w \<rparr>) = quota_location Z e"
    "quota_location Z (e \<lparr> qe_Used := u \<rparr>) = quota_location Z e" for e d w u by (simp_all add: quota_location_def)
  from assms obtain r r' where q: "qe_Used q = kept_key (qe_Used stored) (qe_Used edited)"
    "qe_Daily q = aligned (daily_last Z edited now2) (kept_usage (qe_Daily stored) (qe_Daily edited) \<lparr> qw_ResetAt := r \<rparr>)"
    "qe_Weekly q = aligned (weekly_last Z edited now2) (kept_usage (qe_Weekly stored) (qe_Weekly edited) \<lparr> qw_ResetAt := r' \<rparr>)"
    "qe_Timezone q = qe_Timezone edited"
    by (auto simp: save_quota_config_def NormalizeFixedQuotaWindows_def ComputeQuotaResetAt_def Let_def z daily_last_def weekly_last_def
      kept_usage_def [of _ "qe_Daily edited"] kept_usage_def [of _ "qe_Weekly edited"] split: option.splits)
  have "daily_last Z q = daily_last Z edited" "weekly_last Z q = weekly_last Z edited"
    using aligned_config by (auto simp: daily_last_def weekly_last_def quota_location_def q same_config_def)
  then show ?thesis using aligned_survives by (simp add: q(1) q(2) q(3) kept_key_def)
qed

text \<open>
  Property C7 (equivalence). The scheduler and the billing statement judge the quota of an account alike. Take
  an account created blank and any history of edits, billed requests and resets, one after the other, under
  these conditions: the clocks do not run backwards and are past the first week of 1970, the time zones have a fixed offset of whole
  seconds that Go and the database agree on, and a start of a window that an edit brings along, which is
  stored when the account has none, is not after the clock of the edit. An edit may also bring along usages. At
  any later time the scheduler holds the account back exactly when, in one of the three dimensions that has a
  limit, the usage that the next increment will build on has reached the limit: no account is held back
  by usage of a window that the statement would drop, and none is chosen whose window the statement would
  continue beyond its limit. And an edit does not wash usage away: what the account has stored stays, except
  in a window with fixed resets whose start is before the last reset.
\<close>

theorem quota_verdict_exact:
  assumes "in_order start history t" and "7 * Day \<le> start" and "list_all (plain_edit Z) history" and "zs_pg Z ''UTC'' = Some utc_zone"
    and "q = fold (quota_step Z) history blank_quota" and "increment_quota Z t amount q = Inr q'"
  shows "(IsQuotaExceeded Z t q \<longleftrightarrow>
    0 < qe_Limit q \<and> qe_Limit q \<le> total_used q' - amount \<or>
    0 < qw_Limit (qe_Daily q) \<and> qw_Limit (qe_Daily q) \<le> window_used (qe_Daily q') - amount \<or>
    0 < qw_Limit (qe_Weekly q) \<and> qw_Limit (qe_Weekly q) \<le> window_used (qe_Weekly q') - amount) \<and>
    (\<forall>edited now1 now2 e. save_quota_config Z now1 now2 edited q = Inr e \<longrightarrow>
      (\<forall>v. qe_Used q = Some v \<longrightarrow> qe_Used e = Some v) \<and>
      usage_survives (daily_last Z e now2) (qe_Daily q) (qe_Daily e) \<and> usage_survives (weekly_last Z e now2) (qe_Weekly q) (qe_Weekly e))"
proof -
  have start: "0 \<le> start" using assms(2) by (simp add: Day_def Hour_def)
  have step: "quota_in_step Z t q" and t: "7 * Day \<le> t"
    using history_in_step [OF assms(1) start assms(3) blank_in_step [OF assms(4)]] assms(2,5) by simp_all
  have durations: "0 \<le> 24 * Hour" "24 * Hour \<le> t" "24 * Hour \<le> 7 * Day" "0 \<le> 7 * 24 * Hour" "7 * 24 * Hour \<le> t" "7 * 24 * Hour \<le> 7 * Day"
    using t by (simp_all add: Day_def Hour_def)
  obtain off where off: "quota_location Z q = fixed_zone off" using step by (auto simp: quota_in_step_def plain_zone_def)
  have parts: "\<not> outside (qw_Hour (qe_Daily q)) 23" "valid_window (qe_Weekly q)"
    "window_synced (daily_next q (fixed_zone off)) t (qe_Daily q)" "window_synced (weekly_next q (fixed_zone off)) t (qe_Weekly q)"
    using step off by (simp_all add: quota_in_step_def)
  obtain d w where d: "increment_window t amount (dailyExpiredExpr t q) nextDailyResetAtExpr (pg_zone Z q) (qe_Daily q) = Inr d"
    and w: "increment_window t amount (weeklyExpiredExpr t q) nextWeeklyResetAtExpr (pg_zone Z q) (qe_Weekly q) = Inr w"
    and q': "q' = q \<lparr> qe_Used := Some (total_used q + amount), qe_Daily := d, qe_Weekly := w \<rparr>"
    using assms(6) by (auto simp: increment_quota_def split: sum.splits)
  have "IsDailyQuotaPeriodExpired Z t q = dailyExpiredExpr t q \<or> window_used (qe_Daily q) = 0" if "0 < qw_Limit (qe_Daily q)"
    using daily.verdicts_agree [OF parts(3) [unfolded daily_next_def] that order_refl durations(1-3)]
    unfolding daily_verdict [OF parts(1)] statement_verdicts off .
  moreover have "IsWeeklyQuotaPeriodExpired Z t q = weeklyExpiredExpr t q \<or> window_used (qe_Weekly q) = 0" if "0 < qw_Limit (qe_Weekly q)"
    using weekly.verdicts_agree [OF parts(4) [unfolded weekly_next_def] that order_refl durations(4-6)]
    unfolding weekly_verdict [OF parts(2)] statement_verdicts off by simp
  ultimately have "IsQuotaExceeded Z t q \<longleftrightarrow>
    0 < qe_Limit q \<and> qe_Limit q \<le> total_used q' - amount \<or>
    0 < qw_Limit (qe_Daily q) \<and> qw_Limit (qe_Daily q) \<le> window_used (qe_Daily q') - amount \<or>
    0 < qw_Limit (qe_Weekly q) \<and> qw_Limit (qe_Weekly q) \<le> window_used (qe_Weekly q') - amount"
    using increment_used(1) [OF d] increment_used(1) [OF w] by (auto simp: IsQuotaExceeded_def q' total_used_def or_default_def split: if_splits)
  then show ?thesis using save_keeps_usage by blast
qed

definition example_zones :: zone_tables where
  "example_zones = \<lparr> zs_go = (\<lambda>n. if n = ''Asia/Shanghai'' then Some (fixed_zone (8 * Hour)) else None),
     zs_pg = (\<lambda>n. if n = ''Asia/Shanghai'' then Some (fixed_zone (8 * Hour)) else if n = ''UTC'' then Some utc_zone else None) \<rparr>"

text \<open>The edit of the example brings a usage and a start of the day along.\<close>

definition example_config :: quota_extra where
  "example_config = blank_quota \<lparr> qe_Daily := blank_window \<lparr> qw_Limit := 10, qw_Used := Some 2, qw_Start := Some (9 * Day + 23 * Hour),
       qw_Mode := Some ''fixed'', qw_Hour := Some 4 \<rparr>,
     qe_Weekly := blank_window \<lparr> qw_Limit := 50, qw_Mode := Some ''fixed'', qw_Day := Some 1 \<rparr>, qe_Timezone := Some ''Asia/Shanghai'' \<rparr>"

definition example_history :: "quota_op list" where
  "example_history = [Edit_config example_config (10 * Day) (10 * Day + 5), Bill_request 6 (10 * Day + Hour), Bill_request 5 (10 * Day + 2 * Hour)]"

lemma example_plain_edit: "list_all (plain_edit example_zones) example_history"
proof -
  have "plain_zone example_zones example_config"
    unfolding plain_zone_def
    by (intro exI [of _ "8 * Hour"])
      (simp add: quota_location_def pg_zone_def example_config_def example_zones_def or_default_def time_LoadLocation_def)
  moreover have "starts_by (10 * Day) example_config"
    by (simp add: starts_by_def example_config_def blank_quota_def blank_window_def Day_def Hour_def)
  ultimately show ?thesis by (simp add: example_history_def)
qed

theorem quota_verdict_exact_witness:
  "let q = fold (quota_step example_zones) example_history blank_quota
   in IsQuotaExceeded example_zones (10 * Day + 3 * Hour) q \<and> \<not> IsQuotaExceeded example_zones (10 * Day + 21 * Hour) q"
proof -
  let ?q = "fold (quota_step example_zones) example_history blank_quota"
  have pg: "zs_pg example_zones ''UTC'' = Some utc_zone" by (simp add: example_zones_def)
  have order: "in_order (7 * Day) example_history (10 * Day + 3 * Hour)" "in_order (7 * Day) example_history (10 * Day + 21 * Hour)"
    by code_simp+
  have limits: "qe_Limit ?q = 0" "qw_Limit (qe_Daily ?q) = 10" "qw_Limit (qe_Weekly ?q) = 50" by code_simp+
  have "case increment_quota example_zones (10 * Day + 3 * Hour) 1 ?q of Inl _ \<Rightarrow> False | Inr r \<Rightarrow> window_used (qe_Daily r) = 14" by code_simp
  then obtain r where r: "increment_quota example_zones (10 * Day + 3 * Hour) 1 ?q = Inr r" "window_used (qe_Daily r) = 14"
    by (auto split: sum.splits)
  have "case increment_quota example_zones (10 * Day + 21 * Hour) 1 ?q of
      Inl _ \<Rightarrow> False | Inr r \<Rightarrow> window_used (qe_Daily r) = 1 \<and> window_used (qe_Weekly r) = 1" by code_simp
  then obtain r' where r': "increment_quota example_zones (10 * Day + 21 * Hour) 1 ?q = Inr r'"
    "window_used (qe_Daily r') = 1" "window_used (qe_Weekly r') = 1" by (auto split: sum.splits)
  have "IsQuotaExceeded example_zones (10 * Day + 3 * Hour) ?q"
    using quota_verdict_exact [OF order(1) order_refl example_plain_edit pg refl r(1)] limits r(2) by simp
  moreover have "\<not> IsQuotaExceeded example_zones (10 * Day + 21 * Hour) ?q"
    using quota_verdict_exact [OF order(2) order_refl example_plain_edit pg refl r'(1)] limits r'(2,3) by simp
  ultimately show ?thesis by (simp add: Let_def)
qed

section \<open>A crossing nobody hears of\<close>

text \<open>
  \<open>IncrementQuotaUsed\<close> means to announce that any dimension reached its limit, so that the
  scheduler reads the account anew, but it looks at the total only: here the daily limit is reached, the
  stored account is to be held back, and no event is written.
\<close>

lemma daily_crossing_unannounced:
  "let q = fold (quota_step example_zones) (butlast example_history) blank_quota;
       (e, db) = account_IncrementQuotaUsed example_zones (10 * Day + 2 * Hour) True 1 5
         \<lparr> qd_accounts = [\<lparr> qa_ID = 1, qa_Deleted = False, qa_Extra = q \<rparr>], qd_outbox = [] \<rparr>
   in e = None \<and> \<not> IsQuotaExceeded example_zones (10 * Day + 2 * Hour) q \<and>
      list_all (\<lambda>a. IsQuotaExceeded example_zones (10 * Day + 2 * Hour) (qa_Extra a)) (qd_accounts db) \<and> qd_outbox db = []"
  by code_simp

end
