(* ===== verification/Usage_Billing.thy ===== *)
theory Usage_Billing
  imports Account_Quota Payment_Rules Idempotency
begin

text \<open>
  Billing of requests (\<open>service/usage_billing.go\<close>, \<open>repository/usage_billing_repo.go\<close>): one transaction
  claims the request in a table of billed requests and adds its costs to the subscription, the balance of the
  user, the quota and the rate windows of the API key and the quota of the upstream account. Batch image jobs
  use the same table to hold an amount of the balance, and to capture or release it later. Old claims move
  to an archive (\<open>repository/dashboard_aggregation_repo.go\<close>).

  A transaction is one step: its statements are additions to single rows, and the unique index on claims makes
  a second transaction for the same request wait for the first. Its fate says whether it worked, failed before
  its commit, or committed with the reply lost. Columns of type \<open>NUMERIC(20, 8)\<close> (subscriptions:
  \<open>NUMERIC(20, 10)\<close>) round what is stored half away from zero, as \<open>round_half_away\<close> does; their overflow and the
  length limits of texts are not modelled. A positive infinity aborts the statement it reaches.
\<close>

section \<open>Commands\<close>

record UsageBillingCommand =
  ub_RequestID :: string
  ub_APIKeyID :: int
  ub_RequestFingerprint :: string
  ub_RequestPayloadHash :: string
  ub_UserID :: int
  ub_AccountID :: int
  ub_SubscriptionID :: "int option"
  ub_AccountType :: string
  ub_Model :: string
  ub_ServiceTier :: string
  ub_ReasoningEffort :: string
  ub_BillingType :: int
  ub_InputTokens :: int
  ub_OutputTokens :: int
  ub_CacheCreationTokens :: int
  ub_CacheReadTokens :: int
  ub_ImageCount :: int
  ub_MediaType :: string
  ub_BalanceCost :: gofloat
  ub_SubscriptionCost :: gofloat
  ub_APIKeyQuotaCost :: gofloat
  ub_APIKeyRateLimitCost :: gofloat
  ub_AccountQuotaCost :: gofloat

record BatchImageBalanceHoldCommand =
  bh_RequestID :: string
  bh_APIKeyID :: int
  bh_RequestFingerprint :: string
  bh_RequestPayloadHash :: string
  bh_UserID :: int
  bh_BatchID :: string
  bh_HoldAmount :: rat
  bh_ActualAmount :: rat

text \<open>\<open>sha256.Sum256\<close>, the folding tables, the time zones, the zone of the database session and the decimal library.\<close>

record billing_env =
  be_sha256 :: "string \<Rightarrow> string"
  be_folds :: "string \<Rightarrow> string \<Rightarrow> bool"
  be_zones :: zone_tables
  be_session :: zone
  be_decimal :: decimal_lib

abbreviation "UsageBillingMonetaryScale \<equiv> 8 :: nat"
abbreviation "BillingTypeOperational \<equiv> 2 :: int"
abbreviation "StatusAPIKeyActive \<equiv> ''active''"
abbreviation "StatusAPIKeyQuotaExhausted \<equiv> ''quota_exhausted''"

fun QuantizeUsageBillingAmount :: "decimal_lib \<Rightarrow> gofloat \<Rightarrow> gofloat" where
  "QuantizeUsageBillingAmount D (Fin v) = (if v = 0 then Fin v else Fin (dl_Round D UsageBillingMonetaryScale v))"
| "QuantizeUsageBillingAmount D v = v"

definition quantizeMonetaryFields :: "decimal_lib \<Rightarrow> UsageBillingCommand \<Rightarrow> UsageBillingCommand" where
  "quantizeMonetaryFields D c =
     c \<lparr> ub_BalanceCost := QuantizeUsageBillingAmount D (ub_BalanceCost c),
         ub_SubscriptionCost := QuantizeUsageBillingAmount D (ub_SubscriptionCost c),
         ub_APIKeyQuotaCost := QuantizeUsageBillingAmount D (ub_APIKeyQuotaCost c),
         ub_APIKeyRateLimitCost := QuantizeUsageBillingAmount D (ub_APIKeyRateLimitCost c),
         ub_AccountQuotaCost := QuantizeUsageBillingAmount D (ub_AccountQuotaCost c) \<rparr>"

text \<open>The verb \<open>%0.10f\<close>: ten digits after the point, the last rounded to the nearest, half to even.\<close>

definition round_half_even :: "rat \<Rightarrow> int" where
  "round_half_even x =
     (let n = \<lfloor>x\<rfloor>; d = x - of_int n
      in if d < 1 / 2 then n else if 1 / 2 < d then n + 1 else if even n then n else n + 1)"

definition pad_digits :: "nat \<Rightarrow> string \<Rightarrow> string" where
  "pad_digits n s = replicate (n - length s) CHR ''0'' @ s"

fun fmt10 :: "gofloat \<Rightarrow> string" where
  "fmt10 (Fin q) =
     (let n = nat (round_half_even (\<bar>q\<bar> * 10 ^ 10))
      in (if q < 0 then ''-'' else []) @ format_nat (n div 10 ^ 10) @ ''.'' @ pad_digits 10 (format_nat (n mod 10 ^ 10)))"
| "fmt10 NaN = ''NaN''"
| "fmt10 PosInf = ''+Inf''"
| "fmt10 NegInf = ''-Inf''"

fun join_bar :: "string list \<Rightarrow> string" where
  "join_bar [] = []"
| "join_bar [s] = s"
| "join_bar (s # t # ts) = s @ ''|'' @ join_bar (t # ts)"

definition with_payload :: "string \<Rightarrow> string \<Rightarrow> string" where
  "with_payload raw hash = (if strings_TrimSpace hash \<noteq> [] then raw @ ''|'' @ strings_TrimSpace hash else raw)"

definition valueOrZero :: "int option \<Rightarrow> int" where
  "valueOrZero v = (case v of None \<Rightarrow> 0 | Some i \<Rightarrow> i)"

definition buildUsageBillingFingerprint :: "billing_env \<Rightarrow> UsageBillingCommand \<Rightarrow> string" where
  "buildUsageBillingFingerprint E c =
     hex_EncodeToString (be_sha256 E (with_payload (join_bar
       [strconv_FormatInt (ub_UserID c), strconv_FormatInt (ub_AccountID c), strconv_FormatInt (ub_APIKeyID c),
        strings_TrimSpace (ub_AccountType c), strings_TrimSpace (ub_Model c), strings_TrimSpace (ub_ServiceTier c),
        strings_TrimSpace (ub_ReasoningEffort c), strconv_FormatInt (ub_BillingType c), strconv_FormatInt (ub_InputTokens c),
        strconv_FormatInt (ub_OutputTokens c), strconv_FormatInt (ub_CacheCreationTokens c), strconv_FormatInt (ub_CacheReadTokens c),
        strconv_FormatInt (ub_ImageCount c), strings_TrimSpace (ub_MediaType c), strconv_FormatInt (valueOrZero (ub_SubscriptionID c)),
        fmt10 (ub_BalanceCost c), fmt10 (ub_SubscriptionCost c), fmt10 (ub_APIKeyQuotaCost c), fmt10 (ub_APIKeyRateLimitCost c),
        fmt10 (ub_AccountQuotaCost c)]) (ub_RequestPayloadHash c)))"

definition ub_Normalize :: "billing_env \<Rightarrow> UsageBillingCommand \<Rightarrow> UsageBillingCommand" where
  "ub_Normalize E c =
     (let c = c \<lparr> ub_RequestID := strings_TrimSpace (ub_RequestID c) \<rparr>;
          c = (if strings_TrimSpace (ub_RequestFingerprint c) = [] then c \<lparr> ub_RequestFingerprint := buildUsageBillingFingerprint E c \<rparr> else c)
      in quantizeMonetaryFields (be_decimal E) c)"

definition buildBatchImageBalanceHoldFingerprint :: "billing_env \<Rightarrow> BatchImageBalanceHoldCommand \<Rightarrow> string" where
  "buildBatchImageBalanceHoldFingerprint E c =
     hex_EncodeToString (be_sha256 E (with_payload (join_bar
       [strconv_FormatInt (bh_UserID c), strconv_FormatInt (bh_APIKeyID c), strings_TrimSpace (bh_BatchID c),
        fmt10 (Fin (bh_HoldAmount c)), fmt10 (Fin (bh_ActualAmount c))]) (bh_RequestPayloadHash c)))"

definition bh_Normalize :: "billing_env \<Rightarrow> BatchImageBalanceHoldCommand \<Rightarrow> BatchImageBalanceHoldCommand" where
  "bh_Normalize E c =
     (let c = c \<lparr> bh_RequestID := strings_TrimSpace (bh_RequestID c), bh_BatchID := strings_TrimSpace (bh_BatchID c) \<rparr>
      in if strings_TrimSpace (bh_RequestFingerprint c) = [] then c \<lparr> bh_RequestFingerprint := buildBatchImageBalanceHoldFingerprint E c \<rparr> else c)"

section \<open>Tables\<close>

record billing_claim =
  cm_RequestID :: string
  cm_APIKeyID :: int
  cm_Fingerprint :: string
  cm_CreatedAt :: gotime

record billing_user =
  bu_ID :: int
  bu_Deleted :: bool
  bu_Balance :: rat
  bu_Frozen :: rat

record billing_key =
  bk_ID :: int
  bk_Deleted :: bool
  bk_Quota :: rat
  bk_QuotaUsed :: rat
  bk_Status :: string
  bk_Usage5h :: rat
  bk_Usage1d :: rat
  bk_Usage7d :: rat
  bk_Window5h :: "gotime option"
  bk_Window1d :: "gotime option"
  bk_Window7d :: "gotime option"

text \<open>\<open>bs_GroupLive\<close>: the group of the subscription exists and is not deleted.\<close>

record billing_sub =
  bs_ID :: int
  bs_Deleted :: bool
  bs_GroupLive :: bool
  bs_Daily :: rat
  bs_Weekly :: rat
  bs_Monthly :: rat

record billing_db =
  bd_claims :: "billing_claim list"
  bd_archive :: "billing_claim list"
  bd_users :: "billing_user list"
  bd_keys :: "billing_key list"
  bd_subs :: "billing_sub list"
  bd_quota :: quota_db

datatype billing_error =
    ErrUsageBillingRequestIDRequired | ErrUsageBillingRequestConflict | ErrSubscriptionNotFound | BillingUserNotFound
  | ErrAPIKeyNotFound | BillingAccountNotFound | ErrBatchImageInsufficientBalance | ErrBatchImageSettlementCostExceedsHold
  | FrozenBalanceInsufficient | BillingFault

definition numeric8 :: "rat \<Rightarrow> rat" where
  "numeric8 q = round_half_away 8 q"

definition numeric10 :: "rat \<Rightarrow> rat" where
  "numeric10 q = round_half_away 10 q"

text \<open>An \<open>UPDATE ... WHERE\<close> on a table: the changed rows, or nothing when none matches.\<close>

definition update_where :: "('a \<Rightarrow> bool) \<Rightarrow> ('a \<Rightarrow> 'a) \<Rightarrow> 'a list \<Rightarrow> ('a list \<times> 'a) option" where
  "update_where P f t = (case find P t of None \<Rightarrow> None | Some r \<Rightarrow> Some (map (\<lambda>x. if P x then f x else x) t, f r))"

section \<open>Claims\<close>

definition find_claim :: "string \<Rightarrow> int \<Rightarrow> billing_claim list \<Rightarrow> billing_claim option" where
  "find_claim rid kid t = find (\<lambda>c. cm_RequestID c = rid \<and> cm_APIKeyID c = kid) t"

definition same_fingerprint :: "billing_claim \<Rightarrow> string \<Rightarrow> bool" where
  "same_fingerprint c fp \<longleftrightarrow> strings_TrimSpace (cm_Fingerprint c) = strings_TrimSpace fp"

definition claimUsageBillingRequest :: "gotime \<Rightarrow> string \<Rightarrow> int \<Rightarrow> string \<Rightarrow> billing_db \<Rightarrow> billing_error + bool \<times> billing_db" where
  "claimUsageBillingRequest now rid kid fp db =
     (case find_claim rid kid (bd_claims db) of
        Some c \<Rightarrow> if same_fingerprint c fp then Inr (False, db) else Inl ErrUsageBillingRequestConflict
      | None \<Rightarrow>
          let db1 = db \<lparr> bd_claims := bd_claims db @ [\<lparr> cm_RequestID = rid, cm_APIKeyID = kid, cm_Fingerprint = fp, cm_CreatedAt = now \<rparr>] \<rparr>
          in case find_claim rid kid (bd_archive db) of
               Some c \<Rightarrow> if same_fingerprint c fp then Inr (False, db1) else Inl ErrUsageBillingRequestConflict
             | None \<Rightarrow> Inr (True, db1))"

section \<open>Costs\<close>

datatype charge = No_charge | Charge rat | Unbounded

fun charge_of :: "gofloat \<Rightarrow> charge" where
  "charge_of (Fin q) = (if 0 < q then Charge q else No_charge)"
| "charge_of PosInf = Unbounded"
| "charge_of _ = No_charge"

definition incrementUsageBillingSubscription :: "int \<Rightarrow> rat \<Rightarrow> billing_db \<Rightarrow> billing_error + billing_db" where
  "incrementUsageBillingSubscription i cost db =
     (case update_where (\<lambda>s. bs_ID s = i \<and> \<not> bs_Deleted s \<and> bs_GroupLive s)
        (\<lambda>s. s \<lparr> bs_Daily := numeric10 (bs_Daily s + cost), bs_Weekly := numeric10 (bs_Weekly s + cost), bs_Monthly := numeric10 (bs_Monthly s + cost) \<rparr>)
        (bd_subs db) of
        None \<Rightarrow> Inl ErrSubscriptionNotFound
      | Some (t, _) \<Rightarrow> Inr (db \<lparr> bd_subs := t \<rparr>))"

definition change_user :: "(billing_user \<Rightarrow> bool) \<Rightarrow> int \<Rightarrow> (billing_user \<Rightarrow> billing_user) \<Rightarrow> billing_db \<Rightarrow> (billing_db \<times> billing_user) option" where
  "change_user P i f db =
     map_option (\<lambda>(t, u). (db \<lparr> bd_users := t \<rparr>, u)) (update_where (\<lambda>u. bu_ID u = i \<and> \<not> bu_Deleted u \<and> P u) f (bd_users db))"

definition deductUsageBillingBalance :: "int \<Rightarrow> rat \<Rightarrow> billing_db \<Rightarrow> billing_error + (rat \<times> bool) \<times> billing_db" where
  "deductUsageBillingBalance i amount db =
     (let deduct = (\<lambda>u. u \<lparr> bu_Balance := numeric8 (bu_Balance u - amount) \<rparr>)
      in case change_user (\<lambda>u. amount \<le> bu_Balance u) i deduct db of
           Some (db', u) \<Rightarrow> Inr ((bu_Balance u, True), db')
         | None \<Rightarrow>
             (case change_user (\<lambda>u. True) i deduct db of
                Some (db', u) \<Rightarrow> Inr ((bu_Balance u, False), db')
              | None \<Rightarrow> Inl BillingUserNotFound))"

definition add_key_quota :: "rat \<Rightarrow> billing_key \<Rightarrow> billing_key" where
  "add_key_quota amount k =
     k \<lparr> bk_QuotaUsed := numeric8 (bk_QuotaUsed k + amount),
         bk_Status := (if 0 < bk_Quota k \<and> bk_Status k = StatusAPIKeyActive \<and> bk_QuotaUsed k < bk_Quota k \<and> bk_Quota k \<le> bk_QuotaUsed k + amount
                       then StatusAPIKeyQuotaExhausted else bk_Status k) \<rparr>"

definition incrementUsageBillingAPIKeyQuota :: "int \<Rightarrow> rat \<Rightarrow> bool \<Rightarrow> billing_db \<Rightarrow> billing_error + bool \<times> billing_db" where
  "incrementUsageBillingAPIKeyQuota i amount allowDeleted db =
     (case update_where (\<lambda>k. bk_ID k = i \<and> (\<not> bk_Deleted k \<or> allowDeleted)) (add_key_quota amount) (bd_keys db) of
        None \<Rightarrow> Inl ErrAPIKeyNotFound
      | Some (t, k) \<Rightarrow> Inr (0 < bk_Quota k \<and> bk_Quota k \<le> bk_QuotaUsed k \<and> bk_QuotaUsed k - amount < bk_Quota k, db \<lparr> bd_keys := t \<rparr>))"

definition window_over :: "gotime \<Rightarrow> duration \<Rightarrow> gotime option \<Rightarrow> bool" where
  "window_over now dur s \<longleftrightarrow> (case s of None \<Rightarrow> False | Some t \<Rightarrow> t + dur \<le> now)"

definition rate_usage :: "gotime \<Rightarrow> duration \<Rightarrow> rat \<Rightarrow> gotime option \<Rightarrow> rat \<Rightarrow> rat" where
  "rate_usage now dur cost s used = numeric8 (if window_over now dur s then cost else used + cost)"

definition rate_start :: "gotime \<Rightarrow> duration \<Rightarrow> gotime \<Rightarrow> gotime option \<Rightarrow> gotime option" where
  "rate_start now dur fresh s = (if s = None \<or> window_over now dur s then Some fresh else s)"

definition add_key_rate :: "zone \<Rightarrow> gotime \<Rightarrow> rat \<Rightarrow> billing_key \<Rightarrow> billing_key" where
  "add_key_rate session now cost k =
     (let today = zn_instant session (zn_local session now div Day * Day)
      in k \<lparr> bk_Usage5h := rate_usage now (5 * Hour) cost (bk_Window5h k) (bk_Usage5h k),
             bk_Usage1d := rate_usage now (24 * Hour) cost (bk_Window1d k) (bk_Usage1d k),
             bk_Usage7d := rate_usage now (7 * Day) cost (bk_Window7d k) (bk_Usage7d k),
             bk_Window5h := rate_start now (5 * Hour) now (bk_Window5h k),
             bk_Window1d := rate_start now (24 * Hour) today (bk_Window1d k),
             bk_Window7d := rate_start now (7 * Day) today (bk_Window7d k) \<rparr>)"

definition incrementUsageBillingAPIKeyRateLimit ::
  "zone \<Rightarrow> gotime \<Rightarrow> int \<Rightarrow> rat \<Rightarrow> bool \<Rightarrow> billing_db \<Rightarrow> billing_error + billing_db" where
  "incrementUsageBillingAPIKeyRateLimit session now i cost allowDeleted db =
     (case update_where (\<lambda>k. bk_ID k = i \<and> (\<not> bk_Deleted k \<or> allowDeleted)) (add_key_rate session now cost) (bd_keys db) of
        None \<Rightarrow> Inl ErrAPIKeyNotFound
      | Some (t, _) \<Rightarrow> Inr (db \<lparr> bd_keys := t \<rparr>))"

definition incrementUsageBillingAccountQuota ::
  "zone_tables \<Rightarrow> gotime \<Rightarrow> int \<Rightarrow> rat \<Rightarrow> bool \<Rightarrow> billing_db \<Rightarrow> billing_error + quota_extra \<times> billing_db" where
  "incrementUsageBillingAccountQuota Z now i amount allowDeleted db =
     (case account_by_id i allowDeleted (qd_accounts (bd_quota db)) of
        None \<Rightarrow> Inl BillingAccountNotFound
      | Some a \<Rightarrow>
          (case increment_quota Z now amount (qa_Extra a) of
             Inl _ \<Rightarrow> Inl BillingFault
           | Inr q \<Rightarrow>
               let event = crossed (qe_Limit q) (total_used q) amount \<or> crossed (qw_Limit (qe_Daily q)) (window_used (qe_Daily q)) amount \<or>
                     crossed (qw_Limit (qe_Weekly q)) (window_used (qe_Weekly q)) amount
               in Inr (q, db \<lparr> bd_quota := (bd_quota db)
                    \<lparr> qd_accounts := set_extra i allowDeleted q (qd_accounts (bd_quota db)),
                      qd_outbox := (if event then qd_outbox (bd_quota db) @ [i] else qd_outbox (bd_quota db)) \<rparr> \<rparr>)))"

section \<open>The transaction of a request\<close>

record UsageBillingApplyResult =
  ar_Applied :: bool
  ar_APIKeyQuotaExhausted :: bool
  ar_NewBalance :: "rat option"
  ar_BalanceOverdrafted :: bool
  ar_QuotaState :: "quota_extra option"

definition not_applied :: UsageBillingApplyResult where
  "not_applied = \<lparr> ar_Applied = False, ar_APIKeyQuotaExhausted = False, ar_NewBalance = None, ar_BalanceOverdrafted = False, ar_QuotaState = None \<rparr>"

type_synonym 'a billing_step = "'a \<times> billing_db \<Rightarrow> billing_error + 'a \<times> billing_db"

definition and_then :: "billing_error + 'a \<Rightarrow> ('a \<Rightarrow> billing_error + 'b) \<Rightarrow> billing_error + 'b" where
  "and_then x f = (case x of Inl e \<Rightarrow> Inl e | Inr a \<Rightarrow> f a)"

definition on_charge :: "gofloat \<Rightarrow> (rat \<Rightarrow> 'a billing_step) \<Rightarrow> 'a billing_step" where
  "on_charge v f s = (case charge_of v of No_charge \<Rightarrow> Inr s | Charge q \<Rightarrow> f q s | Unbounded \<Rightarrow> Inl BillingFault)"

definition subscription_effect :: "UsageBillingCommand \<Rightarrow> UsageBillingApplyResult billing_step" where
  "subscription_effect c =
     (case ub_SubscriptionID c of
        None \<Rightarrow> Inr
      | Some i \<Rightarrow> on_charge (ub_SubscriptionCost c) (\<lambda>q (r, db). map_sum id (\<lambda>db. (r, db)) (incrementUsageBillingSubscription i q db)))"

definition balance_effect :: "UsageBillingCommand \<Rightarrow> UsageBillingApplyResult billing_step" where
  "balance_effect c =
     on_charge (ub_BalanceCost c) (\<lambda>q (r, db). map_sum id (\<lambda>((b, sufficient), db).
       (r \<lparr> ar_NewBalance := Some b, ar_BalanceOverdrafted := \<not> sufficient \<rparr>, db)) (deductUsageBillingBalance (ub_UserID c) q db))"

definition key_quota_effect :: "UsageBillingCommand \<Rightarrow> UsageBillingApplyResult billing_step" where
  "key_quota_effect c =
     on_charge (ub_APIKeyQuotaCost c) (\<lambda>q (r, db). map_sum id (\<lambda>(exhausted, db). (r \<lparr> ar_APIKeyQuotaExhausted := exhausted \<rparr>, db))
       (incrementUsageBillingAPIKeyQuota (ub_APIKeyID c) q (ub_BillingType c = BillingTypeOperational) db))"

definition key_rate_effect :: "billing_env \<Rightarrow> gotime \<Rightarrow> UsageBillingCommand \<Rightarrow> UsageBillingApplyResult billing_step" where
  "key_rate_effect E now c =
     on_charge (ub_APIKeyRateLimitCost c) (\<lambda>q (r, db). map_sum id (\<lambda>db. (r, db))
       (incrementUsageBillingAPIKeyRateLimit (be_session E) now (ub_APIKeyID c) q (ub_BillingType c = BillingTypeOperational) db))"

definition account_effect :: "billing_env \<Rightarrow> gotime \<Rightarrow> UsageBillingCommand \<Rightarrow> UsageBillingApplyResult billing_step" where
  "account_effect E now c =
     (if strings_EqualFold (be_folds E) (ub_AccountType c) ''apikey'' \<or> strings_EqualFold (be_folds E) (ub_AccountType c) ''bedrock''
      then on_charge (ub_AccountQuotaCost c) (\<lambda>q (r, db). map_sum id (\<lambda>(state, db). (r \<lparr> ar_QuotaState := Some state \<rparr>, db))
        (incrementUsageBillingAccountQuota (be_zones E) now (ub_AccountID c) q (ub_BillingType c = BillingTypeOperational) db))
      else Inr)"

definition applyUsageBillingEffects :: "billing_env \<Rightarrow> gotime \<Rightarrow> UsageBillingCommand \<Rightarrow> UsageBillingApplyResult billing_step" where
  "applyUsageBillingEffects E now c s =
     and_then (subscription_effect c s) (\<lambda>s.
     and_then (balance_effect c s) (\<lambda>s.
     and_then (key_quota_effect c s) (\<lambda>s.
     and_then (key_rate_effect E now c s) (\<lambda>s. account_effect E now c s))))"

text \<open>The end of a transaction: an error rolls back, and so does a claim that was not new.\<close>

definition transaction :: "fate \<Rightarrow> billing_db \<Rightarrow> billing_error + 'a \<times> billing_db \<Rightarrow> (billing_error + 'a) \<times> billing_db" where
  "transaction f db body =
     (case f of
        Lost_before \<Rightarrow> (Inl BillingFault, db)
      | Works \<Rightarrow> (case body of Inl e \<Rightarrow> (Inl e, db) | Inr (a, db') \<Rightarrow> (Inr a, db'))
      | Lost_after \<Rightarrow> (case body of Inl e \<Rightarrow> (Inl e, db) | Inr (a, db') \<Rightarrow> (Inl BillingFault, db')))"

definition apply_body :: "billing_env \<Rightarrow> gotime \<Rightarrow> UsageBillingCommand \<Rightarrow> billing_db \<Rightarrow> billing_error + UsageBillingApplyResult \<times> billing_db" where
  "apply_body E now c db =
     and_then (claimUsageBillingRequest now (ub_RequestID c) (ub_APIKeyID c) (ub_RequestFingerprint c) db) (\<lambda>(applied, db1).
       if \<not> applied then Inr (not_applied, db)
       else applyUsageBillingEffects E now c (not_applied \<lparr> ar_Applied := True \<rparr>, db1))"

definition Apply :: "billing_env \<Rightarrow> fate \<Rightarrow> gotime \<Rightarrow> UsageBillingCommand option \<Rightarrow> billing_db \<Rightarrow> (billing_error + UsageBillingApplyResult) \<times> billing_db" where
  "Apply E f now cmd db =
     (case cmd of
        None \<Rightarrow> (Inr not_applied, db)
      | Some c \<Rightarrow>
          let c = ub_Normalize E c
          in if ub_RequestID c = [] then (Inl ErrUsageBillingRequestIDRequired, db)
             else transaction f db (apply_body E now c db))"

end
