(* ===== verification/Balance_Holds.thy ===== *)
theory Balance_Holds
  imports Usage_Billing
begin

text \<open>
  Holds of batch image jobs: \<open>repository/usage_billing_repo.go\<close> for the transactions and
  \<open>service/batch_image_billing_hold.go\<close> for the commands the jobs issue; and the move of old claims to the
  archive (\<open>repository/dashboard_aggregation_repo.go\<close>).
\<close>

section \<open>The transactions\<close>

record BatchImageBalanceHoldResult =
  hr_Applied :: bool
  hr_NewBalance :: "rat option"
  hr_FrozenBalance :: "rat option"

definition no_hold :: BatchImageBalanceHoldResult where
  "no_hold = \<lparr> hr_Applied = False, hr_NewBalance = None, hr_FrozenBalance = None \<rparr>"

definition userExistsForBilling :: "int \<Rightarrow> billing_db \<Rightarrow> bool" where
  "userExistsForBilling i db = list_ex (\<lambda>u. bu_ID u = i \<and> \<not> bu_Deleted u) (bd_users db)"

definition hold_update ::
  "(billing_user \<Rightarrow> bool) \<Rightarrow> int \<Rightarrow> (billing_user \<Rightarrow> billing_user) \<Rightarrow> billing_error \<Rightarrow> billing_db \<Rightarrow>
     billing_error + BatchImageBalanceHoldResult \<times> billing_db" where
  "hold_update P i f missed db =
     (case change_user P i f db of
        Some (db', u) \<Rightarrow> Inr (no_hold \<lparr> hr_NewBalance := Some (bu_Balance u), hr_FrozenBalance := Some (bu_Frozen u) \<rparr>, db')
      | None \<Rightarrow> if \<not> userExistsForBilling i db then Inl BillingUserNotFound else Inl missed)"

definition reserveUsageBillingBatchImageBalance ::
  "BatchImageBalanceHoldCommand \<Rightarrow> billing_db \<Rightarrow> billing_error + BatchImageBalanceHoldResult \<times> billing_db" where
  "reserveUsageBillingBatchImageBalance c db =
     (let h = bh_HoldAmount c
      in if h \<le> 0 then Inr (no_hold, db)
         else hold_update (\<lambda>u. h \<le> bu_Balance u) (bh_UserID c)
           (\<lambda>u. u \<lparr> bu_Balance := numeric8 (bu_Balance u - h), bu_Frozen := numeric8 (bu_Frozen u + h) \<rparr>) ErrBatchImageInsufficientBalance db)"

definition captureUsageBillingBatchImageBalance ::
  "BatchImageBalanceHoldCommand \<Rightarrow> billing_db \<Rightarrow> billing_error + BatchImageBalanceHoldResult \<times> billing_db" where
  "captureUsageBillingBatchImageBalance c db =
     (let h = bh_HoldAmount c; a = bh_ActualAmount c
      in if h \<le> 0 \<and> a \<le> 0 then Inr (no_hold, db)
         else if 1 / 10 ^ 8 < a - h then Inl ErrBatchImageSettlementCostExceedsHold
         else hold_update (\<lambda>u. h \<le> bu_Frozen u) (bh_UserID c)
           (\<lambda>u. u \<lparr> bu_Balance := numeric8 (bu_Balance u + (if a < h then h - a else 0) - (if h < a then a - h else 0)),
                   bu_Frozen := numeric8 (bu_Frozen u - h) \<rparr>) FrozenBalanceInsufficient db)"

definition BatchImageHoldRequestID :: "string \<Rightarrow> string" where
  "BatchImageHoldRequestID batchID = ''batch_image_hold:'' @ strings_TrimSpace batchID"

definition BatchImageCaptureRequestID :: "string \<Rightarrow> string" where
  "BatchImageCaptureRequestID batchID = ''batch_image_capture:'' @ strings_TrimSpace batchID"

definition BatchImageReleaseRequestID :: "string \<Rightarrow> string" where
  "BatchImageReleaseRequestID batchID = ''batch_image_release:'' @ strings_TrimSpace batchID"

definition batchImageHoldClaimExists :: "string \<Rightarrow> int \<Rightarrow> billing_db \<Rightarrow> bool" where
  "batchImageHoldClaimExists rid kid db \<longleftrightarrow> find_claim rid kid (bd_claims db) \<noteq> None \<or> find_claim rid kid (bd_archive db) \<noteq> None"

definition releaseUsageBillingBatchImageBalance ::
  "BatchImageBalanceHoldCommand \<Rightarrow> billing_db \<Rightarrow> billing_error + BatchImageBalanceHoldResult \<times> billing_db" where
  "releaseUsageBillingBatchImageBalance c db =
     (let h = bh_HoldAmount c
      in if h \<le> 0 then Inr (no_hold, db)
         else if \<not> batchImageHoldClaimExists (BatchImageHoldRequestID (bh_BatchID c)) (bh_APIKeyID c) db then Inr (no_hold, db)
         else hold_update (\<lambda>u. h \<le> bu_Frozen u) (bh_UserID c)
           (\<lambda>u. u \<lparr> bu_Balance := numeric8 (bu_Balance u + h), bu_Frozen := numeric8 (bu_Frozen u - h) \<rparr>) FrozenBalanceInsufficient db)"

datatype hold_kind = Reserve | Capture | Release

fun hold_change :: "hold_kind \<Rightarrow> BatchImageBalanceHoldCommand \<Rightarrow> billing_db \<Rightarrow> billing_error + BatchImageBalanceHoldResult \<times> billing_db" where
  "hold_change Reserve = reserveUsageBillingBatchImageBalance"
| "hold_change Capture = captureUsageBillingBatchImageBalance"
| "hold_change Release = releaseUsageBillingBatchImageBalance"

definition hold_body ::
  "gotime \<Rightarrow> hold_kind \<Rightarrow> BatchImageBalanceHoldCommand \<Rightarrow> billing_db \<Rightarrow> billing_error + BatchImageBalanceHoldResult \<times> billing_db" where
  "hold_body now kind c db =
     and_then (claimUsageBillingRequest now (bh_RequestID c) (bh_APIKeyID c) (bh_RequestFingerprint c) db) (\<lambda>(applied, db1).
       if \<not> applied then Inr (no_hold, db)
       else map_sum id (\<lambda>(r, db). (r \<lparr> hr_Applied := True \<rparr>, db)) (hold_change kind c db1))"

definition applyBatchImageBalanceHold ::
  "billing_env \<Rightarrow> fate \<Rightarrow> gotime \<Rightarrow> hold_kind \<Rightarrow> BatchImageBalanceHoldCommand option \<Rightarrow> billing_db \<Rightarrow>
     (billing_error + BatchImageBalanceHoldResult) \<times> billing_db" where
  "applyBatchImageBalanceHold E f now kind cmd db =
     (case cmd of
        None \<Rightarrow> (Inr no_hold, db)
      | Some c \<Rightarrow>
          let c = bh_Normalize E c
          in if bh_RequestID c = [] then (Inl ErrUsageBillingRequestIDRequired, db)
             else transaction f db (hold_body now kind c db))"

section \<open>The commands of jobs\<close>

record BatchImageJob =
  bj_BatchID :: string
  bj_UserID :: int
  bj_APIKeyID :: "int option"
  bj_EstimatedCost :: rat
  bj_HoldAmount :: "rat option"

datatype hold_error =
    ErrBatchImageSettlementMissingAPIKeyID | InsufficientBalance | ErrBatchImageBillingHoldFailed billing_error
  | ErrBatchImageSettlementBillingFailed billing_error

definition buildBatchImageHoldCommand :: "BatchImageJob \<Rightarrow> string \<Rightarrow> rat \<Rightarrow> string \<Rightarrow> hold_error + BatchImageBalanceHoldCommand" where
  "buildBatchImageHoldCommand job requestID actualAmount payloadHash =
     (case bj_APIKeyID job of
        None \<Rightarrow> Inl ErrBatchImageSettlementMissingAPIKeyID
      | Some k \<Rightarrow>
          if k \<le> 0 then Inl ErrBatchImageSettlementMissingAPIKeyID
          else let holdAmount = (case bj_HoldAmount job of None \<Rightarrow> bj_EstimatedCost job | Some h \<Rightarrow> h)
               in Inr \<lparr> bh_RequestID = requestID, bh_APIKeyID = k, bh_RequestFingerprint = [], bh_RequestPayloadHash = strings_TrimSpace payloadHash,
                        bh_UserID = bj_UserID job, bh_BatchID = bj_BatchID job, bh_HoldAmount = max holdAmount 0, bh_ActualAmount = max actualAmount 0 \<rparr>)"

definition reserveBatchImageBalanceHold ::
  "billing_env \<Rightarrow> fate \<Rightarrow> gotime \<Rightarrow> BatchImageJob \<Rightarrow> string \<Rightarrow> billing_db \<Rightarrow> hold_error option \<times> billing_db" where
  "reserveBatchImageBalanceHold E f now job payloadHash db =
     (case buildBatchImageHoldCommand job (BatchImageHoldRequestID (bj_BatchID job)) 0 payloadHash of
        Inl e \<Rightarrow> (Some e, db)
      | Inr c \<Rightarrow>
          if bh_HoldAmount c \<le> 0 then (None, db)
          else (case applyBatchImageBalanceHold E f now Reserve (Some c) db of
                  (Inr _, db') \<Rightarrow> (None, db')
                | (Inl e, db') \<Rightarrow> (Some (if e = ErrBatchImageInsufficientBalance then InsufficientBalance else ErrBatchImageBillingHoldFailed e), db')))"

definition captureBatchImageBalanceHold ::
  "billing_env \<Rightarrow> fate \<Rightarrow> gotime \<Rightarrow> BatchImageJob \<Rightarrow> rat \<Rightarrow> string \<Rightarrow> billing_db \<Rightarrow> hold_error option \<times> billing_db" where
  "captureBatchImageBalanceHold E f now job actualAmount payloadHash db =
     (case buildBatchImageHoldCommand job (BatchImageCaptureRequestID (bj_BatchID job)) actualAmount payloadHash of
        Inl e \<Rightarrow> (Some e, db)
      | Inr c \<Rightarrow>
          (case applyBatchImageBalanceHold E f now Capture (Some c) db of
             (Inr _, db') \<Rightarrow> (None, db')
           | (Inl e, db') \<Rightarrow> (Some (ErrBatchImageSettlementBillingFailed e), db')))"

definition releaseBatchImageBalanceHold ::
  "billing_env \<Rightarrow> fate \<Rightarrow> gotime \<Rightarrow> BatchImageJob option \<Rightarrow> string \<Rightarrow> billing_db \<Rightarrow> hold_error option \<times> billing_db" where
  "releaseBatchImageBalanceHold E f now job payloadHash db =
     (case job of
        None \<Rightarrow> (None, db)
      | Some job \<Rightarrow>
          (case buildBatchImageHoldCommand job (BatchImageReleaseRequestID (bj_BatchID job)) 0 payloadHash of
             Inl e \<Rightarrow> (Some e, db)
           | Inr c \<Rightarrow>
               if bh_HoldAmount c \<le> 0 then (None, db)
               else (case applyBatchImageBalanceHold E f now Release (Some c) db of
                       (Inr _, db') \<Rightarrow> (None, db')
                     | (Inl e, db') \<Rightarrow> (if e = ErrUsageBillingRequestConflict then None else Some (ErrBatchImageBillingHoldFailed e), db'))))"

section \<open>The archive\<close>

text \<open>
  One batch: at most \<open>limit\<close> claims older than the cutoff, in the order of the table (the database may choose
  another), are inserted into the archive unless their key is there, and deleted.
\<close>

definition archive_claims :: "billing_claim list \<Rightarrow> billing_claim list \<Rightarrow> billing_claim list" where
  "archive_claims victims archive =
     archive @ filter (\<lambda>c. find_claim (cm_RequestID c) (cm_APIKeyID c) archive = None) victims"

definition cleanup_batch :: "gotime \<Rightarrow> nat \<Rightarrow> billing_db \<Rightarrow> nat \<times> billing_db" where
  "cleanup_batch cutoff limit db =
     (let victims = take limit (filter (\<lambda>c. cm_CreatedAt c < cutoff) (bd_claims db))
      in (length victims, db \<lparr> bd_claims := filter (\<lambda>c. c \<notin> set victims) (bd_claims db), bd_archive := archive_claims victims (bd_archive db) \<rparr>))"

definition usageBillingDedupCleanupBatchSize :: nat where
  "usageBillingDedupCleanupBatchSize = 10000"

function CleanupUsageBillingDedup :: "gotime \<Rightarrow> billing_db \<Rightarrow> billing_db" where
  "CleanupUsageBillingDedup cutoff db =
     (case cleanup_batch cutoff usageBillingDedupCleanupBatchSize db of
        (affected, db') \<Rightarrow> if affected < usageBillingDedupCleanupBatchSize then db' else CleanupUsageBillingDedup cutoff db')"
  by pat_completeness auto

lemma cleanup_batch_shrinks:
  assumes "cleanup_batch cutoff limit db = (n, db')" and "0 < n"
  shows "length (bd_claims db') < length (bd_claims db)"
proof -
  let ?v = "take limit (filter (\<lambda>c. cm_CreatedAt c < cutoff) (bd_claims db))"
  have "?v \<noteq> []" using assms by (auto simp: cleanup_batch_def Let_def)
  then obtain c where "c \<in> set ?v" by (cases ?v) auto
  moreover from this have "c \<in> set (bd_claims db)" by (meson filter_is_subset in_set_takeD subsetD)
  ultimately have "length (filter (\<lambda>c. c \<notin> set ?v) (bd_claims db)) < length (bd_claims db)"
    by (intro length_filter_less) simp_all
  then show ?thesis using assms(1) by (auto simp: cleanup_batch_def Let_def)
qed

termination CleanupUsageBillingDedup
proof (relation "measure (\<lambda>(_, db). length (bd_claims db))", goal_cases)
  case (2 cutoff db n db')
  then show ?case
    using cleanup_batch_shrinks [of cutoff usageBillingDedupCleanupBatchSize db n db'] by (simp add: usageBillingDedupCleanupBatchSize_def)
qed simp

declare CleanupUsageBillingDedup.simps [simp del]

end
