(* ===== verification/Billing_Ledger.thy ===== *)
theory Billing_Ledger
  imports Balance_Holds
begin

text \<open>
  The books of billing: over any history of requests, holds and archive runs, with any transactions lost
  before or after their commit, a request takes effect at most once and balances, frozen amounts and key
  quotas change by exactly the amounts of the requests that took effect.
\<close>

section \<open>Amounts of eight digits\<close>

definition on_grid :: "rat \<Rightarrow> bool" where
  "on_grid q \<longleftrightarrow> q * 10 ^ 8 \<in> \<int>"

lemma numeric8_on_grid: "on_grid (numeric8 q)"
  by (simp only: on_grid_def numeric8_def half_away_digits)

lemma numeric8_id: "on_grid q \<Longrightarrow> numeric8 q = q"
  by (simp only: on_grid_def numeric8_def half_away_exact)

lemma grid_add [simp]: "on_grid a \<Longrightarrow> on_grid b \<Longrightarrow> on_grid (a + b)"
  unfolding on_grid_def distrib_right by (rule Ints_add)

lemma grid_diff [simp]: "on_grid a \<Longrightarrow> on_grid b \<Longrightarrow> on_grid (a - b)"
  unfolding on_grid_def left_diff_distrib by (rule Ints_diff)

lemma grid_zero [simp]: "on_grid 0"
  by (simp add: on_grid_def)

text \<open>What normalizing a command is for: every cost it leaves is a number of eight digits.\<close>

lemma quantized_charge:
  assumes "decimal_library D" and "charge_of (QuantizeUsageBillingAmount D v) = Charge q"
  shows "on_grid q \<and> 0 < q"
  using assms(2) decimal_library.Round_digits [OF assms(1), of 8]
  by (cases v) (auto simp: on_grid_def simp del: power_numeral split: if_splits)

section \<open>Rows by number\<close>

lemma update_where_by_id:
  assumes "update_where P f t = Some (t', r')" and "distinct (map idf t)" and "\<And>x. P x \<Longrightarrow> idf x = i" and "\<And>x. idf (f x) = idf x"
  obtains r where "find (\<lambda>x. idf x = i) t = Some r" and "P r" and "r' = f r" and "map idf t' = map idf t"
    and "\<And>j. find (\<lambda>x. idf x = j) t' = (if j = i then Some (f r) else find (\<lambda>x. idf x = j) t)"
    and "set t' \<subseteq> insert (f r) (set t)"
proof -
  obtain r where r: "find P t = Some r" "r' = f r" "t' = map (\<lambda>x. if P x then f x else x) t"
    using assms(1) by (auto simp: update_where_def split: option.splits)
  have in_t: "r \<in> set t" "P r" using r(1) by (auto simp: find_Some_iff)
  have only: "x = r" if "x \<in> set t" "idf x = i" for x
    using that in_t assms(2,3) by (metis distinct_map inj_onD)
  have found: "find (\<lambda>x. idf x = i) t = Some r"
  proof -
    have "find (\<lambda>x. idf x = i) t \<noteq> None" using in_t assms(3) by (auto simp: find_None_iff)
    then obtain x where x: "find (\<lambda>x. idf x = i) t = Some x" by blast
    then have "x \<in> set t" "idf x = i" by (auto simp: find_Some_iff)
    then show ?thesis using only x by blast
  qed
  have ids: "map idf t' = map idf t" using assms(4) by (auto simp: r(3))
  have row: "x = (if P y then f y else y) \<Longrightarrow> y \<in> set t \<Longrightarrow> x = f r \<or> x \<in> set t" for x y using only assms(3) by auto
  have look: "find (\<lambda>x. idf x = j) t' = (if j = i then Some (f r) else find (\<lambda>x. idf x = j) t)" for j
  proof (cases "j = i")
    case True
    have "find (\<lambda>x. idf x = i) t' = map_option (\<lambda>x. if P x then f x else x) (find (\<lambda>x. idf x = i) t)"
      unfolding r(3) using assms(4) by (induction t) auto
    then show ?thesis using True found in_t by simp
  next
    case False
    then show ?thesis unfolding r(3) using assms(3,4) by (induction t) auto
  qed
  show thesis by (rule that [OF found in_t(2) r(2) ids look]) (auto simp: r(3) dest: only [OF _ assms(3)])
qed

section \<open>The books\<close>

definition balance_of :: "int \<Rightarrow> billing_db \<Rightarrow> rat" where
  "balance_of i db = (case find (\<lambda>u. bu_ID u = i) (bd_users db) of None \<Rightarrow> 0 | Some u \<Rightarrow> bu_Balance u)"

definition frozen_of :: "int \<Rightarrow> billing_db \<Rightarrow> rat" where
  "frozen_of i db = (case find (\<lambda>u. bu_ID u = i) (bd_users db) of None \<Rightarrow> 0 | Some u \<Rightarrow> bu_Frozen u)"

definition key_used :: "int \<Rightarrow> billing_db \<Rightarrow> rat" where
  "key_used i db = (case find (\<lambda>k. bk_ID k = i) (bd_keys db) of None \<Rightarrow> 0 | Some k \<Rightarrow> bk_QuotaUsed k)"

definition user_ok :: "billing_user \<Rightarrow> bool" where
  "user_ok u \<longleftrightarrow> on_grid (bu_Balance u) \<and> on_grid (bu_Frozen u) \<and> 0 \<le> bu_Frozen u"

definition books_ok :: "billing_db \<Rightarrow> bool" where
  "books_ok db \<longleftrightarrow>
     distinct (map bu_ID (bd_users db)) \<and> distinct (map bk_ID (bd_keys db)) \<and>
     list_all user_ok (bd_users db) \<and> list_all (\<lambda>k. on_grid (bk_QuotaUsed k)) (bd_keys db)"

text \<open>
  One step of the books: \<open>m\<close> is what is added to the balance and to the frozen amount of user \<open>u\<close>, and \<open>q\<close> what
  is added to the usage of key \<open>k\<close>.
\<close>

definition books :: "billing_db \<Rightarrow> billing_db \<Rightarrow> int \<Rightarrow> rat \<times> rat \<Rightarrow> int \<Rightarrow> rat \<Rightarrow> bool" where
  "books db db' u m k q \<longleftrightarrow>
     books_ok db' \<and> bd_claims db' = bd_claims db \<and> bd_archive db' = bd_archive db \<and>
     (\<forall>x. balance_of x db' = balance_of x db + (if x = u then fst m else 0)) \<and>
     (\<forall>x. frozen_of x db' = frozen_of x db + (if x = u then snd m else 0)) \<and>
     (\<forall>x. key_used x db' = key_used x db + (if x = k then q else 0))"

lemma books_refl: "books_ok db \<Longrightarrow> books db db u (0, 0) k 0"
  by (simp add: books_def)

lemma books_trans:
  "books db db1 u (d, z) k q \<Longrightarrow> books db1 db2 u (d', z') k q' \<Longrightarrow> books db db2 u (d + d', z + z') k (q + q')"
  by (simp add: books_def)

lemma change_user_books:
  assumes "change_user P i f db = Some (db', v)" and "books_ok db" and "\<And>u. bu_ID (f u) = bu_ID u"
    and "\<And>u. user_ok u \<Longrightarrow> P u \<Longrightarrow> user_ok (f u) \<and> bu_Balance (f u) = bu_Balance u + d \<and> bu_Frozen (f u) = bu_Frozen u + z"
  shows "books db db' i (d, z) k 0"
proof -
  obtain t where t: "update_where (\<lambda>u. bu_ID u = i \<and> \<not> bu_Deleted u \<and> P u) f (bd_users db) = Some (t, v)" and db': "db' = db \<lparr> bd_users := t \<rparr>"
    using assms(1) by (auto simp: change_user_def)
  have "distinct (map bu_ID (bd_users db))" using assms(2) by (simp add: books_ok_def)
  from update_where_by_id [OF t this, of i] obtain r where r: "find (\<lambda>x. bu_ID x = i) (bd_users db) = Some r" "P r"
    and ids: "map bu_ID t = map bu_ID (bd_users db)" and sub: "set t \<subseteq> insert (f r) (set (bd_users db))"
    and look: "\<And>j. find (\<lambda>x. bu_ID x = j) t = (if j = i then Some (f r) else find (\<lambda>x. bu_ID x = j) (bd_users db))"
    using assms(3) by (smt (verit))
  have "user_ok r" using r(1) assms(2) by (auto simp: books_ok_def list_all_iff find_Some_iff)
  then have f: "user_ok (f r)" "bu_Balance (f r) = bu_Balance r + d" "bu_Frozen (f r) = bu_Frozen r + z" using assms(4) r(2) by blast+
  have "books_ok db'" using assms(2) f(1) ids sub by (auto simp: books_ok_def db' list_all_iff)
  moreover have "balance_of x db' = balance_of x db + (if x = i then d else 0)"
    "frozen_of x db' = frozen_of x db + (if x = i then z else 0)" for x
    using f(2,3) r(1) look [of x] by (simp_all add: balance_of_def frozen_of_def db')
  ultimately show ?thesis by (simp add: books_def db' key_used_def)
qed

lemma change_key_books:
  assumes "update_where P f (bd_keys db) = Some (t, v)" and "books_ok db" and "\<And>x. P x \<Longrightarrow> bk_ID x = i" and "\<And>x. bk_ID (f x) = bk_ID x"
    and "\<And>x. on_grid (bk_QuotaUsed x) \<Longrightarrow> bk_QuotaUsed (f x) = bk_QuotaUsed x + q" and "on_grid q"
  shows "books db (db \<lparr> bd_keys := t \<rparr>) u (0, 0) i q"
proof -
  have "distinct (map bk_ID (bd_keys db))" using assms(2) by (simp add: books_ok_def)
  from update_where_by_id [OF assms(1) this assms(3,4)] obtain r where r: "find (\<lambda>x. bk_ID x = i) (bd_keys db) = Some r"
    and ids: "map bk_ID t = map bk_ID (bd_keys db)" and sub: "set t \<subseteq> insert (f r) (set (bd_keys db))"
    and look: "\<And>j. find (\<lambda>x. bk_ID x = j) t = (if j = i then Some (f r) else find (\<lambda>x. bk_ID x = j) (bd_keys db))" by metis
  have "on_grid (bk_QuotaUsed r)" using r assms(2) by (auto simp: books_ok_def list_all_iff find_Some_iff)
  then have f: "bk_QuotaUsed (f r) = bk_QuotaUsed r + q" "on_grid (bk_QuotaUsed (f r))" using assms(5,6) by simp_all
  have "books_ok (db \<lparr> bd_keys := t \<rparr>)" using assms(2) f(2) ids sub by (auto simp: books_ok_def list_all_iff)
  moreover have "key_used x (db \<lparr> bd_keys := t \<rparr>) = key_used x db + (if x = i then q else 0)" for x
    using f(1) r look [of x] by (simp add: key_used_def)
  ultimately show ?thesis by (simp add: books_def balance_of_def frozen_of_def)
qed

section \<open>Effects of a request\<close>

definition charged :: "gofloat \<Rightarrow> rat" where
  "charged v = (case charge_of v of Charge q \<Rightarrow> q | _ \<Rightarrow> 0)"

lemma on_charge_done:
  assumes "on_charge v f s = Inr s'"
  obtains "charged v = 0" and "s' = s" | q where "charge_of v = Charge q" and "charged v = q" and "f q s = Inr s'"
  using assms by (auto simp: on_charge_def charged_def split: charge.splits)

lemma subscription_books:
  assumes "subscription_effect c (r, db) = Inr (r', db')" and "books_ok db"
  shows "books db db' u (0, 0) k 0"
proof -
  have "db' = db \<or> (\<exists>t. db' = db \<lparr> bd_subs := t \<rparr>)"
    using assms(1)
    by (auto simp: subscription_effect_def on_charge_def incrementUsageBillingSubscription_def map_sum_def split: option.splits charge.splits sum.splits)
  then show ?thesis using assms(2) by (auto simp: books_def books_ok_def balance_of_def frozen_of_def key_used_def)
qed

lemma balance_books:
  assumes "balance_effect c (r, db) = Inr (r', db')" and "books_ok db" and "ub_BalanceCost c = QuantizeUsageBillingAmount D v"
    and "decimal_library D"
  shows "books db db' (ub_UserID c) (- charged (ub_BalanceCost c), 0) k 0"
  using assms(1) unfolding balance_effect_def
proof (cases rule: on_charge_done)
  case 1
  then show ?thesis using books_refl [OF assms(2)] by simp
next
  case (2 q)
  have q: "on_grid q" using quantized_charge [OF assms(4)] 2(1) assms(3) by metis
  let ?f = "\<lambda>u. u \<lparr> bu_Balance := numeric8 (bu_Balance u - q) \<rparr>"
  obtain P x where "change_user P (ub_UserID c) ?f db = Some (db', x)"
    using 2(3) by (auto simp: deductUsageBillingBalance_def map_sum_def Let_def split: option.splits sum.splits)
  then have "books db db' (ub_UserID c) (- q, 0) k 0"
    by (rule change_user_books [OF _ assms(2)]) (use q in \<open>auto simp: user_ok_def numeric8_id\<close>)
  then show ?thesis using 2(2) by simp
qed

lemma key_quota_books:
  assumes "key_quota_effect c (r, db) = Inr (r', db')" and "books_ok db" and "ub_APIKeyQuotaCost c = QuantizeUsageBillingAmount D v"
    and "decimal_library D"
  shows "books db db' u (0, 0) (ub_APIKeyID c) (charged (ub_APIKeyQuotaCost c))"
  using assms(1) unfolding key_quota_effect_def
proof (cases rule: on_charge_done)
  case 1
  then show ?thesis using books_refl [OF assms(2)] by simp
next
  case (2 q)
  have q: "on_grid q" using quantized_charge [OF assms(4)] 2(1) assms(3) by metis
  obtain t x where t: "update_where (\<lambda>k. bk_ID k = ub_APIKeyID c \<and> (\<not> bk_Deleted k \<or> ub_BillingType c = BillingTypeOperational)) (add_key_quota q) (bd_keys db) = Some (t, x)"
    and db': "db' = db \<lparr> bd_keys := t \<rparr>"
    using 2(3) by (auto simp: incrementUsageBillingAPIKeyQuota_def map_sum_def split: option.splits sum.splits)
  show ?thesis unfolding db' 2(2)
    by (rule change_key_books [OF t assms(2)]) (use q in \<open>auto simp: add_key_quota_def numeric8_id\<close>)
qed

lemma key_rate_books:
  assumes "key_rate_effect E now c (r, db) = Inr (r', db')" and "books_ok db"
  shows "books db db' u (0, 0) (ub_APIKeyID c) 0"
  using assms(1) unfolding key_rate_effect_def
proof (cases rule: on_charge_done)
  case (2 q)
  obtain t x where t: "update_where (\<lambda>k. bk_ID k = ub_APIKeyID c \<and> (\<not> bk_Deleted k \<or> ub_BillingType c = BillingTypeOperational))
      (add_key_rate (be_session E) now q) (bd_keys db) = Some (t, x)"
    and db': "db' = db \<lparr> bd_keys := t \<rparr>"
    using 2(3) by (auto simp: incrementUsageBillingAPIKeyRateLimit_def map_sum_def split: option.splits sum.splits)
  show ?thesis unfolding db' by (rule change_key_books [OF t assms(2)]) (auto simp: add_key_rate_def Let_def)
qed (use books_refl [OF assms(2)] in simp)

lemma account_books:
  assumes "account_effect E now c (r, db) = Inr (r', db')" and "books_ok db"
  shows "books db db' u (0, 0) k 0"
proof -
  have "db' = db \<or> (\<exists>t. db' = db \<lparr> bd_quota := t \<rparr>)"
    using assms(1)
    by (auto simp: account_effect_def on_charge_def incrementUsageBillingAccountQuota_def map_sum_def Let_def
        split: option.splits charge.splits sum.splits if_splits)
  then show ?thesis using assms(2) by (auto simp: books_def books_ok_def balance_of_def frozen_of_def key_used_def)
qed

lemma and_then_done: "and_then x f = Inr y \<longleftrightarrow> (\<exists>a. x = Inr a \<and> f a = Inr y)"
  by (auto simp: and_then_def split: sum.splits)

lemma effects_books:
  assumes "applyUsageBillingEffects E now (ub_Normalize E c) (r, db) = Inr (r', db')" and "books_ok db"
    and "decimal_library (be_decimal E)"
  defines "n \<equiv> ub_Normalize E c"
  shows "books db db' (ub_UserID n) (- charged (ub_BalanceCost n), 0) (ub_APIKeyID n) (charged (ub_APIKeyQuotaCost n))"
proof -
  obtain r1 db1 r2 db2 r3 db3 r4 db4 where
    1: "subscription_effect n (r, db) = Inr (r1, db1)" and 2: "balance_effect n (r1, db1) = Inr (r2, db2)" and
    3: "key_quota_effect n (r2, db2) = Inr (r3, db3)" and 4: "key_rate_effect E now n (r3, db3) = Inr (r4, db4)" and
    5: "account_effect E now n (r4, db4) = Inr (r', db')"
    using assms(1) unfolding applyUsageBillingEffects_def and_then_done n_def by (metis surj_pair)
  obtain v w where v: "ub_BalanceCost n = QuantizeUsageBillingAmount (be_decimal E) v"
      "ub_APIKeyQuotaCost n = QuantizeUsageBillingAmount (be_decimal E) w"
    by (auto simp: n_def ub_Normalize_def quantizeMonetaryFields_def Let_def)
  have a: "books db db1 (ub_UserID n) (0, 0) (ub_APIKeyID n) 0" by (rule subscription_books [OF 1 assms(2)])
  have b: "books db1 db2 (ub_UserID n) (- charged (ub_BalanceCost n), 0) (ub_APIKeyID n) 0"
    by (rule balance_books [OF 2 _ v(1) assms(3)]) (use a in \<open>simp add: books_def\<close>)
  have c: "books db2 db3 (ub_UserID n) (0, 0) (ub_APIKeyID n) (charged (ub_APIKeyQuotaCost n))"
    by (rule key_quota_books [OF 3 _ v(2) assms(3)]) (use b in \<open>simp add: books_def\<close>)
  have d: "books db3 db4 (ub_UserID n) (0, 0) (ub_APIKeyID n) 0"
    by (rule key_rate_books [OF 4]) (use c in \<open>simp add: books_def\<close>)
  have e: "books db4 db' (ub_UserID n) (0, 0) (ub_APIKeyID n) 0"
    by (rule account_books [OF 5]) (use d in \<open>simp add: books_def\<close>)
  show ?thesis using books_trans [OF books_trans [OF books_trans [OF books_trans [OF a b] c] d] e] by simp
qed

section \<open>Effects of a hold\<close>

text \<open>
  What a hold, a capture and a release have to move: the balance and the frozen amount change by these amounts. A
  release moves something only if the batch has a hold.
\<close>

fun moved :: "hold_kind \<Rightarrow> bool \<Rightarrow> BatchImageBalanceHoldCommand \<Rightarrow> rat \<times> rat" where
  "moved Reserve held c = (- bh_HoldAmount c, bh_HoldAmount c)"
| "moved Capture held c = (bh_HoldAmount c - bh_ActualAmount c, - bh_HoldAmount c)"
| "moved Release held c = (if held then (bh_HoldAmount c, - bh_HoldAmount c) else (0, 0))"

abbreviation hold_claimed :: "BatchImageBalanceHoldCommand \<Rightarrow> billing_db \<Rightarrow> bool" where
  "hold_claimed c \<equiv> batchImageHoldClaimExists (BatchImageHoldRequestID (bh_BatchID c)) (bh_APIKeyID c)"

definition exact_hold :: "BatchImageBalanceHoldCommand \<Rightarrow> bool" where
  "exact_hold c \<longleftrightarrow> on_grid (bh_HoldAmount c) \<and> on_grid (bh_ActualAmount c) \<and> 0 \<le> bh_HoldAmount c \<and> 0 \<le> bh_ActualAmount c"

lemma hold_update_books:
  assumes "hold_update P i f e db = Inr (r, db')" and "books_ok db" and "\<And>u. bu_ID (f u) = bu_ID u"
    and "\<And>u. user_ok u \<Longrightarrow> P u \<Longrightarrow> user_ok (f u) \<and> bu_Balance (f u) = bu_Balance u + d \<and> bu_Frozen (f u) = bu_Frozen u + z"
  shows "books db db' i (d, z) k 0"
proof -
  obtain v where "change_user P i f db = Some (db', v)"
    using assms(1) by (auto simp: hold_update_def split: option.splits if_splits)
  then show ?thesis by (rule change_user_books [OF _ assms(2-4)])
qed

lemma hold_books:
  assumes "hold_change kind c db = Inr (r, db')" and "books_ok db" and "exact_hold c"
  shows "books db db' (bh_UserID c) (moved kind (hold_claimed c db) c) k 0"
proof (cases kind)
  case Reserve
  let ?h = "bh_HoldAmount c"
  have h: "on_grid ?h" "0 \<le> ?h" using assms(3) by (simp_all add: exact_hold_def)
  show ?thesis
  proof (cases "?h \<le> 0")
    case True
    then show ?thesis using assms(1) Reserve h(2) books_refl [OF assms(2)] by (simp add: reserveUsageBillingBatchImageBalance_def)
  next
    case False
    then have "hold_update (\<lambda>u. ?h \<le> bu_Balance u) (bh_UserID c)
        (\<lambda>u. u \<lparr> bu_Balance := numeric8 (bu_Balance u - ?h), bu_Frozen := numeric8 (bu_Frozen u + ?h) \<rparr>) ErrBatchImageInsufficientBalance db = Inr (r, db')"
      using assms(1) Reserve by (simp add: reserveUsageBillingBatchImageBalance_def Let_def)
    then show ?thesis unfolding Reserve moved.simps
      by (rule hold_update_books [OF _ assms(2)]) (use h in \<open>auto simp: user_ok_def numeric8_id\<close>)
  qed
next
  case Capture
  let ?h = "bh_HoldAmount c" and ?a = "bh_ActualAmount c"
  have h: "on_grid ?h" "0 \<le> ?h" "on_grid ?a" "0 \<le> ?a" using assms(3) by (simp_all add: exact_hold_def)
  have sum: "(if ?a < ?h then ?h - ?a else 0) - (if ?h < ?a then ?a - ?h else 0) = ?h - ?a" by simp
  show ?thesis
  proof (cases "?h \<le> 0 \<and> ?a \<le> 0")
    case True
    then show ?thesis using assms(1) Capture h books_refl [OF assms(2)] by (simp add: captureUsageBillingBatchImageBalance_def)
  next
    case False
    then have "hold_update (\<lambda>u. ?h \<le> bu_Frozen u) (bh_UserID c)
        (\<lambda>u. u \<lparr> bu_Balance := numeric8 (bu_Balance u + (if ?a < ?h then ?h - ?a else 0) - (if ?h < ?a then ?a - ?h else 0)),
                bu_Frozen := numeric8 (bu_Frozen u - ?h) \<rparr>) FrozenBalanceInsufficient db = Inr (r, db')"
      using assms(1) Capture by (simp only: hold_change.simps captureUsageBillingBatchImageBalance_def Let_def if_False split: if_splits) blast+
    then show ?thesis unfolding Capture moved.simps
      by (rule hold_update_books [OF _ assms(2)]) (use h in \<open>auto simp: user_ok_def numeric8_id\<close>)
  qed
next
  case Release
  let ?h = "bh_HoldAmount c"
  have h: "on_grid ?h" "0 \<le> ?h" using assms(3) by (simp_all add: exact_hold_def)
  show ?thesis
  proof (cases "0 < ?h \<and> hold_claimed c db")
    case True
    then have "hold_update (\<lambda>u. ?h \<le> bu_Frozen u) (bh_UserID c)
        (\<lambda>u. u \<lparr> bu_Balance := numeric8 (bu_Balance u + ?h), bu_Frozen := numeric8 (bu_Frozen u - ?h) \<rparr>) FrozenBalanceInsufficient db = Inr (r, db')"
      using assms(1) Release by (simp add: releaseUsageBillingBatchImageBalance_def Let_def)
    then have "books db db' (bh_UserID c) (?h, - ?h) k 0"
      by (rule hold_update_books [OF _ assms(2)]) (use h in \<open>auto simp: user_ok_def numeric8_id\<close>)
    then show ?thesis using True Release by simp
  next
    case False
    then have "db' = db" using assms(1) Release by (auto simp: releaseUsageBillingBatchImageBalance_def Let_def split: if_splits)
    then show ?thesis using False Release h books_refl [OF assms(2)] by auto
  qed
qed

section \<open>Histories\<close>

datatype billing_event =
    Request UsageBillingCommand
  | Hold hold_kind BatchImageBalanceHoldCommand
  | Archive gotime nat

record ledger_entry =
  le_Key :: "string \<times> int"
  le_UserID :: int
  le_Balance :: rat \<comment> \<open>what is added to the balance of the user\<close>
  le_Frozen :: rat \<comment> \<open>what is added to the frozen amount of the user\<close>
  le_KeyUsage :: rat

text \<open>
  The entry of an event that took effect: its transaction reached the commit and its claim was new. The reply
  does not tell: it may be lost after the commit.
\<close>

definition request_entry :: "billing_env \<Rightarrow> fate \<Rightarrow> gotime \<Rightarrow> UsageBillingCommand \<Rightarrow> billing_db \<Rightarrow> ledger_entry option" where
  "request_entry E f now c db =
     (let n = ub_Normalize E c
      in if ub_RequestID n \<noteq> [] \<and> f \<noteq> Lost_before \<and> (case apply_body E now n db of Inl _ \<Rightarrow> False | Inr (r, _) \<Rightarrow> ar_Applied r)
         then Some \<lparr> le_Key = (ub_RequestID n, ub_APIKeyID n), le_UserID = ub_UserID n, le_Balance = - charged (ub_BalanceCost n),
                     le_Frozen = 0, le_KeyUsage = charged (ub_APIKeyQuotaCost n) \<rparr>
         else None)"

definition hold_entry :: "billing_env \<Rightarrow> fate \<Rightarrow> gotime \<Rightarrow> hold_kind \<Rightarrow> BatchImageBalanceHoldCommand \<Rightarrow> billing_db \<Rightarrow> ledger_entry option" where
  "hold_entry E f now kind c db =
     (let n = bh_Normalize E c
      in if bh_RequestID n \<noteq> [] \<and> f \<noteq> Lost_before \<and> (case hold_body now kind n db of Inl _ \<Rightarrow> False | Inr (r, _) \<Rightarrow> hr_Applied r)
         then let m = moved kind (bh_RequestID n = BatchImageHoldRequestID (bh_BatchID n) \<or> hold_claimed n db) n
              in Some \<lparr> le_Key = (bh_RequestID n, bh_APIKeyID n), le_UserID = bh_UserID n, le_Balance = fst m, le_Frozen = snd m, le_KeyUsage = 0 \<rparr>
         else None)"

fun billing_step :: "billing_env \<Rightarrow> fate \<times> gotime \<times> billing_event \<Rightarrow> billing_db \<Rightarrow> ledger_entry option \<times> billing_db" where
  "billing_step E (f, now, Request c) db = (request_entry E f now c db, snd (Apply E f now (Some c) db))"
| "billing_step E (f, now, Hold kind c) db = (hold_entry E f now kind c db, snd (applyBatchImageBalanceHold E f now kind (Some c) db))"
| "billing_step E (f, now, Archive cutoff limit) db = (None, if f = Lost_before then db else snd (cleanup_batch cutoff limit db))"

fun billing_run :: "billing_env \<Rightarrow> (fate \<times> gotime \<times> billing_event) list \<Rightarrow> billing_db \<Rightarrow> ledger_entry list \<times> billing_db" where
  "billing_run E [] db = ([], db)"
| "billing_run E (x # xs) db =
     (case billing_step E x db of (e, db1) \<Rightarrow>
        (case billing_run E xs db1 of (es, db2) \<Rightarrow> ((case e of None \<Rightarrow> es | Some e \<Rightarrow> e # es), db2)))"

fun exact_event :: "fate \<times> gotime \<times> billing_event \<Rightarrow> bool" where
  "exact_event (_, _, Hold _ c) \<longleftrightarrow> exact_hold c"
| "exact_event _ \<longleftrightarrow> True"

definition claim_keys :: "billing_db \<Rightarrow> (string \<times> int) set" where
  "claim_keys db = (\<lambda>c. (cm_RequestID c, cm_APIKeyID c)) ` (set (bd_claims db) \<union> set (bd_archive db))"

lemma find_claim_None: "find_claim rid kid t = None \<longleftrightarrow> (rid, kid) \<notin> (\<lambda>c. (cm_RequestID c, cm_APIKeyID c)) ` set t"
  by (auto simp: find_claim_def find_None_iff)

lemma claim_new:
  assumes "claimUsageBillingRequest now rid kid fp db = Inr (True, db1)"
  shows "(rid, kid) \<notin> claim_keys db" and "claim_keys db1 = insert (rid, kid) (claim_keys db)" and "books_ok db1 = books_ok db"
    and "balance_of x db1 = balance_of x db" and "frozen_of x db1 = frozen_of x db" and "key_used y db1 = key_used y db"
    and "batchImageHoldClaimExists h kid db1 \<longleftrightarrow> rid = h \<or> batchImageHoldClaimExists h kid db"
proof -
  have none: "find_claim rid kid (bd_claims db) = None" "find_claim rid kid (bd_archive db) = None"
    and db1: "db1 = db \<lparr> bd_claims := bd_claims db @ [\<lparr> cm_RequestID = rid, cm_APIKeyID = kid, cm_Fingerprint = fp, cm_CreatedAt = now \<rparr>] \<rparr>"
    using assms by (auto simp: claimUsageBillingRequest_def Let_def split: option.splits if_splits)
  show "(rid, kid) \<notin> claim_keys db" using none by (auto simp: claim_keys_def find_claim_None)
  show "claim_keys db1 = insert (rid, kid) (claim_keys db)" by (auto simp: claim_keys_def db1)
  show "batchImageHoldClaimExists h kid db1 \<longleftrightarrow> rid = h \<or> batchImageHoldClaimExists h kid db"
    by (auto simp: batchImageHoldClaimExists_def find_claim_None db1)
  show "books_ok db1 = books_ok db" "balance_of x db1 = balance_of x db" "frozen_of x db1 = frozen_of x db" "key_used y db1 = key_used y db"
    by (simp_all add: db1 books_ok_def balance_of_def frozen_of_def key_used_def)
qed

lemma effect_applied:
  assumes "applyUsageBillingEffects E now c (r, db) = Inr (r', db')"
  shows "ar_Applied r' = ar_Applied r"
proof -
  obtain r1 db1 r2 db2 r3 db3 r4 db4 where
    1: "subscription_effect c (r, db) = Inr (r1, db1)" and 2: "balance_effect c (r1, db1) = Inr (r2, db2)" and
    3: "key_quota_effect c (r2, db2) = Inr (r3, db3)" and 4: "key_rate_effect E now c (r3, db3) = Inr (r4, db4)" and
    5: "account_effect E now c (r4, db4) = Inr (r', db')"
    using assms unfolding applyUsageBillingEffects_def and_then_done by (metis surj_pair)
  note defs = on_charge_def map_sum_def
  have "ar_Applied r1 = ar_Applied r" using 1 by (auto simp: subscription_effect_def defs split: option.splits charge.splits sum.splits)
  moreover have "ar_Applied r2 = ar_Applied r1" using 2 by (auto simp: balance_effect_def defs split: charge.splits sum.splits)
  moreover have "ar_Applied r3 = ar_Applied r2" using 3 by (auto simp: key_quota_effect_def defs split: charge.splits sum.splits)
  moreover have "ar_Applied r4 = ar_Applied r3" using 4 by (auto simp: key_rate_effect_def defs split: charge.splits sum.splits)
  moreover have "ar_Applied r' = ar_Applied r4" using 5 by (auto simp: account_effect_def defs split: charge.splits sum.splits if_splits)
  ultimately show ?thesis by simp
qed

text \<open>What one event does to the books, by its entry.\<close>

definition booked :: "ledger_entry option \<Rightarrow> billing_db \<Rightarrow> billing_db \<Rightarrow> bool" where
  "booked e db db' \<longleftrightarrow>
     books_ok db' \<and>
     (case e of
        None \<Rightarrow> claim_keys db' = claim_keys db \<and> (\<forall>x. balance_of x db' = balance_of x db) \<and>
          (\<forall>x. frozen_of x db' = frozen_of x db) \<and> (\<forall>x. key_used x db' = key_used x db)
      | Some e \<Rightarrow> le_Key e \<notin> claim_keys db \<and> claim_keys db' = insert (le_Key e) (claim_keys db) \<and>
          (\<forall>x. balance_of x db' = balance_of x db + (if x = le_UserID e then le_Balance e else 0)) \<and>
          (\<forall>x. frozen_of x db' = frozen_of x db + (if x = le_UserID e then le_Frozen e else 0)) \<and>
          (\<forall>x. key_used x db' = key_used x db + (if x = snd (le_Key e) then le_KeyUsage e else 0)))"

lemma booked_same: "books_ok db \<Longrightarrow> booked None db db"
  by (simp add: booked_def)

lemma booked_claim:
  assumes "claimUsageBillingRequest now rid kid fp db = Inr (True, db1)" and "books db1 db' u m kid q"
  shows "booked (Some \<lparr> le_Key = (rid, kid), le_UserID = u, le_Balance = fst m, le_Frozen = snd m, le_KeyUsage = q \<rparr>) db db'"
proof -
  have "claim_keys db' = claim_keys db1" using assms(2) by (simp add: books_def claim_keys_def)
  then show ?thesis using claim_new [OF assms(1)] assms(2) by (simp add: booked_def books_def)
qed

lemma request_booked:
  assumes "books_ok db" and "decimal_library (be_decimal E)"
  shows "booked (request_entry E f now c db) db (snd (Apply E f now (Some c) db))"
proof -
  let ?n = "ub_Normalize E c" and ?body = "apply_body E now (ub_Normalize E c) db"
  show ?thesis
  proof (cases "request_entry E f now c db")
    case None
    have "snd (Apply E f now (Some c) db) = db"
    proof (cases ?body)
      case (Inr x)
      obtain r db' where x: "x = (r, db')" by (cases x)
      consider "ub_RequestID ?n = []" | "f = Lost_before" | "\<not> ar_Applied r" using None Inr x by (auto simp: request_entry_def Let_def split: if_splits)
      then show ?thesis
      proof cases
        case 3
        then have "db' = db" using Inr x effect_applied by (fastforce simp: apply_body_def and_then_done split: if_splits)
        then show ?thesis using Inr x by (auto simp: Apply_def Let_def transaction_def split: fate.splits)
      qed (auto simp: Apply_def Let_def transaction_def)
    qed (auto simp: Apply_def Let_def transaction_def split: fate.splits)
    then show ?thesis using None booked_same [OF assms(1)] by simp
  next
    case (Some e)
    then obtain r db' where body: "?body = Inr (r, db')" "ar_Applied r" "ub_RequestID ?n \<noteq> []" "f \<noteq> Lost_before"
      and e: "e = \<lparr> le_Key = (ub_RequestID ?n, ub_APIKeyID ?n), le_UserID = ub_UserID ?n, le_Balance = - charged (ub_BalanceCost ?n), le_Frozen = 0,
        le_KeyUsage = charged (ub_APIKeyQuotaCost ?n) \<rparr>"
      by (auto simp: request_entry_def Let_def split: if_splits sum.splits)
    obtain applied db1 where claim: "claimUsageBillingRequest now (ub_RequestID ?n) (ub_APIKeyID ?n) (ub_RequestFingerprint ?n) db = Inr (applied, db1)"
      and rest: "(if \<not> applied then Inr (not_applied, db) else applyUsageBillingEffects E now ?n (not_applied \<lparr> ar_Applied := True \<rparr>, db1)) = Inr (r, db')"
      using body(1) by (auto simp: apply_body_def and_then_done)
    have applied using rest body(2) by (cases applied) (auto simp: not_applied_def)
    then have "books db1 db' (ub_UserID ?n) (- charged (ub_BalanceCost ?n), 0) (ub_APIKeyID ?n) (charged (ub_APIKeyQuotaCost ?n))"
      using effects_books [of E now c] rest claim_new(3) claim assms by simp
    moreover have "snd (Apply E f now (Some c) db) = db'"
      using body by (auto simp: Apply_def Let_def transaction_def split: fate.splits)
    ultimately show ?thesis using booked_claim [OF claim [unfolded eqTrueI [OF \<open>applied\<close>]]] Some e by fastforce
  qed
qed

lemma hold_booked:
  assumes "books_ok db" and "exact_hold c"
  shows "booked (hold_entry E f now kind c db) db (snd (applyBatchImageBalanceHold E f now kind (Some c) db))"
proof -
  let ?n = "bh_Normalize E c" and ?body = "hold_body now kind (bh_Normalize E c) db"
  let ?m = "moved kind (bh_RequestID ?n = BatchImageHoldRequestID (bh_BatchID ?n) \<or> hold_claimed ?n db) ?n"
  have exact: "exact_hold ?n" using assms(2) by (simp add: exact_hold_def bh_Normalize_def Let_def)
  show ?thesis
  proof (cases "hold_entry E f now kind c db")
    case None
    have "snd (applyBatchImageBalanceHold E f now kind (Some c) db) = db"
    proof (cases ?body)
      case (Inr x)
      obtain r db' where x: "x = (r, db')" by (cases x)
      consider "bh_RequestID ?n = []" | "f = Lost_before" | "\<not> hr_Applied r" using None Inr x by (auto simp: hold_entry_def Let_def split: if_splits)
      then show ?thesis
      proof cases
        case 3
        then have "db' = db" using Inr x by (auto simp: hold_body_def and_then_done map_sum_def split: if_splits sum.splits)
        then show ?thesis using Inr x by (auto simp: applyBatchImageBalanceHold_def Let_def transaction_def split: fate.splits)
      qed (auto simp: applyBatchImageBalanceHold_def Let_def transaction_def)
    qed (auto simp: applyBatchImageBalanceHold_def Let_def transaction_def split: fate.splits)
    then show ?thesis using None booked_same [OF assms(1)] by simp
  next
    case (Some e)
    then obtain r db' where body: "?body = Inr (r, db')" "hr_Applied r" "bh_RequestID ?n \<noteq> []" "f \<noteq> Lost_before"
      and e: "e = \<lparr> le_Key = (bh_RequestID ?n, bh_APIKeyID ?n), le_UserID = bh_UserID ?n, le_Balance = fst ?m, le_Frozen = snd ?m, le_KeyUsage = 0 \<rparr>"
      by (auto simp: hold_entry_def Let_def split: if_splits sum.splits)
    obtain applied db1 where claim: "claimUsageBillingRequest now (bh_RequestID ?n) (bh_APIKeyID ?n) (bh_RequestFingerprint ?n) db = Inr (applied, db1)"
      and rest: "(if \<not> applied then Inr (no_hold, db)
        else map_sum id (\<lambda>(r, db). (r \<lparr> hr_Applied := True \<rparr>, db)) (hold_change kind ?n db1)) = Inr (r, db')"
      using body(1) by (auto simp: hold_body_def and_then_done)
    have applied using rest body(2) by (cases applied) (auto simp: no_hold_def)
    then obtain r0 where "hold_change kind ?n db1 = Inr (r0, db')" using rest by (auto simp: map_sum_def split: sum.splits)
    then have "books db1 db' (bh_UserID ?n) ?m (bh_APIKeyID ?n) 0"
      using hold_books [of kind ?n db1 r0 db'] exact claim_new(3,7) claim \<open>applied\<close> assms(1) by simp
    moreover have "snd (applyBatchImageBalanceHold E f now kind (Some c) db) = db'"
      using body by (auto simp: applyBatchImageBalanceHold_def Let_def transaction_def split: fate.splits)
    ultimately show ?thesis using booked_claim [OF claim [unfolded eqTrueI [OF \<open>applied\<close>]]] Some e by fastforce
  qed
qed

lemma archive_booked:
  assumes "books_ok db"
  shows "booked None db (snd (cleanup_batch cutoff limit db))"
proof -
  let ?k = "\<lambda>c. (cm_RequestID c, cm_APIKeyID c)" and ?v = "take limit (filter (\<lambda>c. cm_CreatedAt c < cutoff) (bd_claims db))"
  have v: "set ?v \<subseteq> set (bd_claims db)" using set_take_subset [of limit "filter (\<lambda>c. cm_CreatedAt c < cutoff) (bd_claims db)"] by auto
  have kept: "?k ` (set ?v \<union> set (bd_archive db)) = ?k ` set (archive_claims ?v (bd_archive db))"
    by (auto simp: archive_claims_def find_claim_None)
  have "claim_keys (snd (cleanup_batch cutoff limit db)) = ?k ` (set (bd_claims db) - set ?v) \<union> ?k ` set (archive_claims ?v (bd_archive db))"
    by (auto simp: claim_keys_def cleanup_batch_def Let_def)
  also have "\<dots> = claim_keys db" unfolding kept [symmetric] claim_keys_def using v by blast
  finally show ?thesis
    using assms by (simp add: booked_def cleanup_batch_def Let_def books_ok_def balance_of_def frozen_of_def key_used_def)
qed

lemma step_booked:
  assumes "books_ok db" and "decimal_library (be_decimal E)" and "exact_event x" and "billing_step E x db = (e, db')"
  shows "booked e db db'"
proof -
  obtain f now ev where x: "x = (f, now, ev)" by (cases x)
  show ?thesis
  proof (cases ev)
    case (Request c)
    then show ?thesis using request_booked [OF assms(1,2)] assms(4) x by auto
  next
    case (Hold kind c)
    then show ?thesis using hold_booked [OF assms(1)] assms(3,4) x by auto
  next
    case (Archive cutoff limit)
    then show ?thesis using archive_booked [OF assms(1)] booked_same [OF assms(1)] assms(4) x by (auto split: if_splits)
  qed
qed

lemma run_booked:
  assumes "books_ok db" and "decimal_library (be_decimal E)" and "list_all exact_event xs" and "billing_run E xs db = (es, db')"
  shows "books_ok db' \<and> distinct (map le_Key es) \<and> le_Key ` set es \<inter> claim_keys db = {} \<and> claim_keys db \<subseteq> claim_keys db' \<and>
    balance_of u db' = balance_of u db + sum_list (map le_Balance (filter (\<lambda>e. le_UserID e = u) es)) \<and>
    frozen_of u db' = frozen_of u db + sum_list (map le_Frozen (filter (\<lambda>e. le_UserID e = u) es)) \<and>
    key_used k db' = key_used k db + sum_list (map le_KeyUsage (filter (\<lambda>e. snd (le_Key e) = k) es))"
  using assms
proof (induction xs arbitrary: db es)
  case (Cons x xs)
  obtain e db1 where step: "billing_step E x db = (e, db1)" by (cases "billing_step E x db")
  obtain es1 where rest: "billing_run E xs db1 = (es1, db')" and es: "es = (case e of None \<Rightarrow> es1 | Some e \<Rightarrow> e # es1)"
    using Cons.prems(4) step by (auto split: prod.splits)
  have "booked e db db1" using step_booked [OF Cons.prems(1,2) _ step] Cons.prems(3) by simp
  moreover from this have "books_ok db1" by (simp add: booked_def)
  note IH = Cons.IH [OF this Cons.prems(2) _ rest]
  ultimately show ?case using IH Cons.prems(3) es by (cases e) (auto simp: booked_def)
qed simp

text \<open>
  Property C3 (safety). Requests are billed exactly once, to the last digit. Over any history of billed requests,
  holds, captures and releases of batch jobs and archive runs, in any order and with any transactions that fail
  or whose replies are lost after the commit: no request of an API key takes effect twice, also after its claim
  went to the archive. The balance of every user changes by exactly the sum of what the transactions that took effect
  have to add to it, and so does the frozen amount: a request takes its cost from the balance, a hold moves its
  amount from the balance to the frozen amount, a capture takes the hold from the frozen amount and gives back to the balance
  what the actual cost leaves of it, a release gives a hold back, or nothing when the batch has none. The
  quota usage of every key rises by exactly the costs of its requests, and no frozen amount becomes negative. The
  conditions: the amounts of holds and captures are not negative and have at most eight digits (the costs of requests
  may have any number; \<open>hold_creates_money\<close> shows what happens to longer holds), and the decimal library
  keeps its promises.
\<close>

theorem billed_once:
  assumes "books_ok db" and "decimal_library (be_decimal E)" and "list_all exact_event history"
    and "billing_run E history db = (entries, db')"
  shows "distinct (map le_Key entries) \<and> (\<forall>e \<in> set entries. le_Key e \<notin> claim_keys db) \<and>
    (\<forall>u. balance_of u db' = balance_of u db + sum_list (map le_Balance (filter (\<lambda>e. le_UserID e = u) entries))) \<and>
    (\<forall>u. frozen_of u db' = frozen_of u db + sum_list (map le_Frozen (filter (\<lambda>e. le_UserID e = u) entries))) \<and>
    (\<forall>k. key_used k db' = key_used k db + sum_list (map le_KeyUsage (filter (\<lambda>e. snd (le_Key e) = k) entries))) \<and>
    (\<forall>u \<in> set (bd_users db'). 0 \<le> bu_Frozen u)"
proof -
  note run = run_booked [OF assms]
  have "books_ok db'" using run by blast
  then have "\<forall>u \<in> set (bd_users db'). 0 \<le> bu_Frozen u" by (simp add: books_ok_def list_all_iff user_ok_def)
  then show ?thesis using run by blast
qed

definition example_bill :: UsageBillingCommand where
  "example_bill = \<lparr> ub_RequestID = '' r1'', ub_APIKeyID = 3, ub_RequestFingerprint = ''f'', ub_RequestPayloadHash = [], ub_UserID = 5, ub_AccountID = 1,
     ub_SubscriptionID = None, ub_AccountType = ''oauth'', ub_Model = [], ub_ServiceTier = [], ub_ReasoningEffort = [], ub_BillingType = 0,
     ub_InputTokens = 10, ub_OutputTokens = 5, ub_CacheCreationTokens = 0, ub_CacheReadTokens = 0, ub_ImageCount = 0, ub_MediaType = [],
     ub_BalanceCost = Fin (78125 / 10 ^ 9), ub_SubscriptionCost = Fin 0, ub_APIKeyQuotaCost = Fin (78125 / 10 ^ 9), ub_APIKeyRateLimitCost = Fin 0,
     ub_AccountQuotaCost = Fin 0 \<rparr>"

definition example_hold :: "rat \<Rightarrow> BatchImageBalanceHoldCommand" where
  "example_hold h = \<lparr> bh_RequestID = ''batch_image_hold:b'', bh_APIKeyID = 3, bh_RequestFingerprint = ''g'', bh_RequestPayloadHash = [], bh_UserID = 5,
     bh_BatchID = ''b'', bh_HoldAmount = h, bh_ActualAmount = 0 \<rparr>"

definition example_billing_env :: billing_env where
  "example_billing_env = \<lparr> be_sha256 = (\<lambda>s. s), be_folds = (\<lambda>_ _. False), be_zones = \<lparr> zs_go = (\<lambda>_. None), zs_pg = (\<lambda>_. None) \<rparr>, be_session = utc_zone,
     be_decimal = decimal_reference \<rparr>"

definition example_billing_db :: billing_db where
  "example_billing_db = \<lparr> bd_claims = [], bd_archive = [], bd_users = [\<lparr> bu_ID = 5, bu_Deleted = False, bu_Balance = 10000, bu_Frozen = 0 \<rparr>],
     bd_keys = [\<lparr> bk_ID = 3, bk_Deleted = False, bk_Quota = 0, bk_QuotaUsed = 0, bk_Status = StatusAPIKeyActive, bk_Usage5h = 0, bk_Usage1d = 0, bk_Usage7d = 0,
       bk_Window5h = None, bk_Window1d = None, bk_Window7d = None \<rparr>],
     bd_subs = [], bd_quota = \<lparr> qd_accounts = [], qd_outbox = [] \<rparr> \<rparr>"

definition example_billing :: "(fate \<times> gotime \<times> billing_event) list" where
  "example_billing = [(Lost_after, 1, Request example_bill), (Works, 2, Archive 2 10), (Works, 3, Request example_bill), (Works, 4, Hold Reserve (example_hold 1))]"

theorem billed_once_witness:
  "let (entries, db') = billing_run example_billing_env example_billing example_billing_db
   in length entries = 2 \<and> balance_of 5 db' = 9999 - 7813 / 10 ^ 8 \<and> frozen_of 5 db' = 1 \<and> key_used 3 db' = 7813 / 10 ^ 8"
proof -
  obtain es db' where run: "billing_run example_billing_env example_billing example_billing_db = (es, db')"
    by (cases "billing_run example_billing_env example_billing example_billing_db")
  have "map (\<lambda>e. (le_UserID e, snd (le_Key e), le_Balance e, le_Frozen e, le_KeyUsage e))
      (fst (billing_run example_billing_env example_billing example_billing_db)) =
      [(5, 3, - 7813 / 10 ^ 8, 0, 7813 / 10 ^ 8), (5, 3, - 1, 1, 0)]" by code_simp
  then obtain a b where es: "es = [a, b]" "le_UserID a = 5" "snd (le_Key a) = 3" "le_Balance a = - 7813 / 10 ^ 8" "le_Frozen a = 0"
    "le_KeyUsage a = 7813 / 10 ^ 8" "le_UserID b = 5" "snd (le_Key b) = 3" "le_Balance b = - 1" "le_Frozen b = 1" "le_KeyUsage b = 0"
    unfolding run by auto
  have grid: "on_grid 10000" "on_grid 1" by (simp_all add: on_grid_def)
  have ok: "books_ok example_billing_db" "decimal_library (be_decimal example_billing_env)" "list_all exact_event example_billing"
    using grid dref.decimal_library_axioms
    by (simp_all add: books_ok_def example_billing_db_def user_ok_def example_billing_def exact_hold_def example_hold_def example_billing_env_def)
  have "balance_of 5 example_billing_db = 10000" "frozen_of 5 example_billing_db = 0" "key_used 3 example_billing_db = 0"
    by (simp_all add: balance_of_def frozen_of_def key_used_def example_billing_db_def)
  then show ?thesis using billed_once [OF ok run] es by (simp add: run)
qed

section \<open>Holds are not rounded\<close>

text \<open>
  The commands of holds are not brought to eight digits, though the columns are: a hold with a digit more, which
  \<open>hold_amount NUMERIC(20, 10)\<close> can carry, is rounded once in the balance and once in the frozen amount, and the
  two together grow.
\<close>

lemma hold_creates_money:
  "let db' = snd (applyBatchImageBalanceHold example_billing_env Works 1 Reserve (Some (example_hold (5 / 10 ^ 9))) example_billing_db)
   in balance_of 5 example_billing_db + frozen_of 5 example_billing_db = 10000 \<and>
      balance_of 5 db' + frozen_of 5 db' = 10000 + 1 / 10 ^ 8"
  by code_simp

end
