(* ===== verification/Spec2Isabelle.thy ===== *)
theory Spec2Isabelle
  imports Failover Proxy_Circuit Model_Transient Scheduling_Order Concurrency_Maintenance Keyword_Scan Crypt_Stream_Proofs
    Image_Limiter Idempotency_Replay Shared_Table Composite_Route Model_Mapping Invalid_Auth_Race
    Subscription_Windows Payment_Findings Payment_Recovery Payment_Creation Quota_Verdict
    Billing_Ledger
begin

text \<open>
  \<^bold>\<open>A verification of the core of the API gateway.\<close>

  The program (\<open>src/backend\<close>, Go) is a gateway in front of model providers. It authenticates a
  client, checks the content of its request, chooses one of many upstream accounts, takes a slot of
  that account and of the user, forwards the request, and on an upstream error retries or switches
  to another account. State that processes share is in Redis (slots, leases, wait queues) and
  PostgreSQL (accounts, records); breakers, limiters and matchers are in memory. The development
  models the parts that decide: who runs, where, how often, and what is remembered about it.

  \<^bold>\<open>Theories and sources\<close> (paths under \<open>src/backend/internal\<close>):

  \<^item> \<open>Go_Prelude\<close>, \<open>Go_Order\<close>, \<open>Go_Any\<close>, \<open>Go_Base64\<close>: what the sources use of Go and its standard
    library: times and durations as integers of nanoseconds, maps as association lists, byte
    strings with \<open>TrimSpace\<close> and case mapping, stable sorting, shuffling and map iteration with
    their choices as arguments, \<open>any\<close> values, \<open>int64\<close> wrap-around, \<open>Atoi\<close>, Base64.
  \<^item> \<open>Failover\<close>: the loop that retries or switches accounts after an upstream error
    (\<open>handler/failover_loop.go\<close>, and its use in \<open>handler/gateway_handler.go\<close>). State: retry counts, excluded
    accounts, switches. Shown: the loop ends within a bound computed from its limits, its invariant, and what each
    error leads to. The one restart of the loop with a fallback group is not modelled.
  \<^item> \<open>Account\<close>: what an account allows (\<open>service/account.go\<close>): pool mode,
    error-code policies, temporary rules, requests per minute.
  \<^item> \<open>Breaker\<close>, \<open>Proxy_Circuit\<close>, \<open>Model_Transient\<close>: the two breakers in front of accounts,
    \<open>service/openai_proxy_stream_circuit.go\<close> and \<open>service/openai_account_model_transient.go\<close>. The
    locale of \<open>Breaker\<close> states what the scheduler relies on; both are interpretations of it.
  \<^item> \<open>Scheduling_Order\<close>: the order in which accounts are tried (\<open>service/gateway_scheduling_order.go\<close>,
    part of \<open>service/gateway_scheduling.go\<close>): layered selection, last-recently-used choice, fallback and routed
    order. Whether an account gives a slot depends on the attempt. Shown: each attempt of the layered selection is
    for the best account not yet tried, by priority, soonest end of the window (where that is preferred), load and last use.
  \<^item> \<open>Redis\<close>, \<open>Slot_Limiter\<close>, \<open>Concurrency_Cache\<close>, \<open>Concurrency_Limits\<close>, \<open>Concurrency_Maintenance\<close>:
    slots, leases and wait queues (\<open>repository/concurrency_cache.go\<close>, \<open>service/concurrency_service.go\<close>).
    Redis is a locale with its documented commands, interpreted on a concrete store; every Lua
    script is one atomic function. Shown: limits are never exceeded, the clean-up after a crash is
    exact, and a slot is granted exactly when one is free.
  \<^item> \<open>Aho_Corasick\<close>, \<open>Keyword_Matcher\<close>, \<open>Keyword_Trie\<close>, \<open>Keyword_Links\<close>, \<open>Keyword_Scan\<close>: the keyword
    matcher of content moderation (\<open>service/content_moderation_keyword_matcher.go\<close>), an
    Aho-Corasick automaton built in arrays, equivalent to searching every keyword.
  \<^item> \<open>Secret_Keyring\<close>, \<open>Crypt_Stream\<close>, \<open>Crypt_Stream_Proofs\<close>: encryption of secrets and of backup
    streams (\<open>security/secretcrypto\<close>). AES-GCM is a locale with the sizes and the law of an
    authenticated cipher; writers are a locale with the contract of \<open>io.Writer\<close>.
  \<^item> \<open>Image_Limiter\<close>: the in-process limiter of image generations
    (\<open>handler/image_concurrency_limiter.go\<close>). Requests are processes that interleave; the limiter
    refines a counting semaphore, no wakeup is lost and every request ends.
  \<^item> \<open>Idempotency_Store\<close>, \<open>Idempotency\<close>, \<open>Idempotency_Proofs\<close>, \<open>Idempotency_Replay\<close>: the idempotency
    records (\<open>repository/idempotency_repo.go\<close>) and the coordinator that uses them
    (\<open>service/idempotency.go\<close>). Each SQL statement is one atomic change that may fail before or
    after its effect; \<open>Execute\<close> is a process of such steps.
  \<^item> \<open>System_Lock\<close>: the lock of system operations on the same table
    (\<open>service/system_operation_lock_service.go\<close>). \<open>Acquire\<close> is a program of single statements; shown: in any
    interleaving of such calls the granted leases do not overlap. \<open>Shared_Table\<close>: what a step of a request does to
    the rows of other keys.
  \<^item> \<open>Composite_Route\<close>: which provider a public model name of a composite group stands for
    (\<open>service/composite_model_route.go\<close>, \<open>service/composite_route_resolver.go\<close>,
    \<open>service/composite_platform.go\<close>). Shown: the route chosen is the best that applies, and a
    decision stays with its request.
  \<^item> \<open>Model_Mapping\<close>: which models an account serves and under which names (\<open>service/account.go\<close>,
    \<open>service/openai_model_mapping.go\<close>, \<open>service/antigravity_gateway_service.go\<close>). Shown: the longest
    wildcard wins in every order of the map, the Antigravity lookup is exact, and the cache of the
    parsed mapping is transparent up to collisions of its hash.
  \<^item> \<open>Invalid_Auth\<close>, \<open>Invalid_Auth_Proofs\<close>, \<open>Invalid_Auth_Race\<close>: the limiter of clients that fail to
    authenticate (\<open>service/invalid_auth_abuse_limiter.go\<close>), one call at a time and in
    interleaved goroutines. Shown: a burst of failures is refused for the whole block, nobody is
    refused without one, the table stays within its capacity and every call returns.
  \<^item> \<open>Statement_Program\<close>: code that talks to a shared store as a tree of commands, runs of one such
    program and of many in turns; the locale \<open>interference\<close> derives invariants of all
    interleavings from triples over single commands. The next theories use it.
  \<^item> \<open>Subscription\<close>, \<open>Subscription_Windows\<close>: terms, usage windows and limits of subscriptions
    (\<open>service/subscription_service.go\<close>, \<open>service/user_subscription.go\<close>,
    \<open>repository/user_subscription_repo.go\<close>). Shown: an assignment gives exactly its days, a window
    starts where it should, and no interleaving of maintenance and recording loses usage.
  \<^item> \<open>User_Balance\<close>, \<open>Affiliate\<close>: the statements on balances (\<open>repository/user_repo.go\<close>) and the
    rebates of inviters (\<open>service/affiliate_service.go\<close>, \<open>repository/affiliate_repo.go\<close>). Shown: the
    books of every affiliate agree with the ledger and with the balances.
  \<^item> \<open>Decimal_Library\<close>: the package \<open>shopspring/decimal\<close>, which is not part of the repository. Its operations are
    a record, a parameter of everything that uses them; the locale \<open>decimal_library\<close> has the laws its documentation
    gives for rounding, truncation and division, and an interpretation on a concrete record shows that they can hold.
    Rounding to the digits of a database column is not the package's and is a definition.
  \<^item> \<open>Payment_Rules\<close>: amounts, currencies, provider snapshots and lookups of payment orders
    (\<open>payment/currency.go\<close>, \<open>service/payment_amounts.go\<close>, \<open>service/payment_order_provider_snapshot.go\<close>).
    \<open>Payment_Store\<close>: the tables and the commands of the payment service, with the transactions of
    redeeming, assigning, rebates and refunds. \<open>Payment_Fulfillment\<close>, \<open>Payment_Lifecycle\<close>,
    \<open>Payment_Refund\<close>: its programs (\<open>service/payment_fulfillment.go\<close>, \<open>service/redeem_service.go\<close>,
    \<open>service/payment_order_lifecycle.go\<close>, \<open>service/payment_refund.go\<close>).
  \<^item> \<open>Payment_Invariant\<close>, \<open>Payment_Commands\<close>, \<open>Payment_Triples\<close>, \<open>Payment_Granting\<close>,
    \<open>Payment_Safety\<close>, \<open>Payment_World\<close>: the invariant of the tables, that every command and every
    program keeps it, and what follows for all interleavings: a payment is credited at most once, a
    subscription assigned and a rebate given at most once, and nothing is granted without a payment.
    \<open>Payment_Recovery\<close>: a retry completes an interrupted order. \<open>Payment_Findings\<close>: runs that end
    where they should not.
  \<^item> \<open>Payment_Checks\<close>: minor units of a currency, refusal of wrong notifications and the bound of a gateway
    refund. \<open>Payment_Balancer\<close>: the choice of a provider instance (\<open>payment/load_balancer.go\<close>). Shown: the
    chosen instance is the best that has room, and the round robin visits all. \<open>Payment_Terms\<close>,
    \<open>Payment_Creation\<close>: the checks, amounts and snapshot of a new order and its transaction
    (\<open>payment/fee.go\<close>, \<open>service/payment_order.go\<close>). Shown: what interleaved creations build is what the
    theorems on payments start from, and a created order in a currency of at most two digits accepts its own
    payment. The columns keep two digits, so orders in currencies of three digits may not (\<open>three_digit_order_refused\<close>).
  \<^item> \<open>Account_Quota\<close>, \<open>Quota_Windows\<close>, \<open>Quota_Verdict\<close>: the spending quota of upstream accounts, the service's
    side (\<open>service/account.go\<close>) and the statements (\<open>repository/account_repo.go\<close>). The locale \<open>reset_schedule\<close>
    states what a schedule of resets needs; daily and weekly resets are its instances. Shown: both sides agree
    on every window, and an edit of the settings keeps the stored usage.
  \<^item> \<open>Usage_Billing\<close>, \<open>Balance_Holds\<close>, \<open>Billing_Ledger\<close>: the transaction that bills a request, the holds of batch
    jobs and the archive of claims (\<open>service/usage_billing.go\<close>, \<open>repository/usage_billing_repo.go\<close>,
    \<open>service/batch_image_billing_hold.go\<close>). Shown: every request is billed at most once, and balances and frozen
    amounts each agree with the claims, for amounts that the columns can keep.

  \<^bold>\<open>How the parts interact.\<close> A client that keeps failing to authenticate is refused at the
  door. A request of a composite group is routed to a provider first. The scheduler orders accounts
  that serve the model and that the breakers and the account rules let through, takes a slot from
  the concurrency cache, and hands the request to the failover loop, whose errors feed the
  breakers. An answered request is billed, which adds to the quota that decides whether the
  account is chosen again. A payment is fulfilled by redeeming a code, which raises a balance,
  or by assigning a subscription, and gives the inviter a rebate; the programs of payments, refunds
  and redemptions share the tables. The coordinator and the system lock share one table; the
  last theorem of this file shows that the requests of the first leave the row of the second
  alone.

  \<^bold>\<open>Bounds and choices.\<close> Loops are recursions with termination proofs; \<open>Execute\<close> runs eight steps,
  which \<open>Execute_returns\<close> shows to be enough for every request. Random choices, map order, clocks
  and the fates of statements are arguments, so the theorems hold for all of them. Counters are
  64-bit words; \<open>int64\<close> conversions wrap where the code can reach the wrap.

  \<^bold>\<open>Findings.\<close> Fourteen theorems state behaviour the code does not mean to have:
  \<open>random_fallback_loses_preference\<close>, \<open>live_lease_counts_expired_slots\<close>,
  \<open>oversized_response_never_replayed\<close>, \<open>expired_record_reclaimed_twice\<close>, \<open>takeover_never_renewed\<close>,
  \<open>pending_limit_race\<close>, \<open>daily_crossing_unannounced\<close>, \<open>hold_creates_money\<close>,
  \<open>three_digit_order_refused\<close>, and those of \<open>Payment_Findings\<close>: \<open>deduct_choice_lost\<close>, \<open>refund_deducts_twice\<close>,
  \<open>rollback_counts_as_recharge\<close>, \<open>refunding_is_final\<close> and \<open>refused_order_credited\<close>; each is
  described where it stands.

  \<^bold>\<open>Not modelled.\<close> The generated database client (\<open>ent\<close>), HTTP handlers and servers, the
  translation of provider formats (\<open>pkg/apicompat\<close>, \<open>pkg/antigravity\<close>), OAuth clients,
  dashboards, configuration loading and the web front end: they are generated, pure input and
  output, or large tables of field names. Of payment, the clients of the providers, the
  authorisation pages of WeChat, return links, mails and statistics; the currency on which the instances
  of a method agree is an input of the creation of orders. Of subscriptions, the in-memory cache and listings. Log lines are not modelled anywhere. Within the
  modelled parts, the text of error messages and JSON encoding are parameters or kept as values, and
  amounts are exact decimals where the code has binary floating point. Time zones in the quota
  theorems have a fixed offset from UTC. What the plan has left: the runtime blocks of accounts and the
  prices of requests.
\<close>

section \<open>The coordinator and the system lock\<close>

lemma act_run_targets:
  assumes "targets_ok reqs w" and "\<forall>opts \<in> set reqs. op_Scope opts \<noteq> systemOperationLockScope"
  shows "targets_ok reqs (idem_world_run E cfg reqs (map (\<lambda>(p, inp). Act p inp) steps) w) \<and>
    lock_row E (wd_table (idem_world_run E cfg reqs (map (\<lambda>(p, inp). Act p inp) steps) w)) = lock_row E (wd_table w)"
  using assms(1)
proof (induction steps arbitrary: w)
  case (Cons a steps)
  obtain p inp where a: "a = (p, inp)" by (cases a)
  have step: "targets_ok reqs (idem_world_step E cfg reqs (Act p inp) w)"
    "lock_row E (wd_table (idem_world_step E cfg reqs (Act p inp) w)) = lock_row E (wd_table w)"
    using act_targets [OF Cons.prems assms(2)] by simp_all
  then show ?case using Cons.IH [OF step(1)] a by (simp add: idem_world_run_def)
qed (simp add: idem_world_run_def)

text \<open>
  Property C38 (invariant). Idempotent requests cannot disturb the lock of system operations: from
  any well-formed table, any interleaving of requests whose scopes are not the scope of the lock
  leaves the row of the lock exactly as it was, whatever the clocks say and whichever statements
  fail. So an \<open>Acquire\<close> within the lease of a granted lock is still refused after all of them.
\<close>

theorem requests_leave_system_lock:
  assumes "table_ok t" and "Acquire_run E (Some s) f d op now t = (Inr lk, t1)"
    and "\<forall>opts \<in> set reqs. op_Scope opts \<noteq> systemOperationLockScope"
    and "w = idem_world_run E cfg reqs (map (\<lambda>(p, inp). Act p inp) steps)
      (idem_init reqs \<lparr> wd_table := t1 \<rparr>)"
    and "now' < now + ss_lease s"
  shows "lock_row E (wd_table w) = lock_row E t1 \<and>
    (\<exists>e. fst (Acquire_run E (Some s') f' d' op' now' (wd_table w)) = Inl e)"
proof -
  obtain r where t1: "table_ok t1" and r: "lock_row E t1 = Some r" "ir_Status r = StatusProcessing"
    "ir_LockedUntil r = Some (now + ss_lease s)" using Acquire_granted [OF assms(1,2)] by blast
  have "targets_ok reqs (idem_init reqs \<lparr> wd_table := t1 \<rparr>)"
    using t1 by (simp add: targets_ok_def idem_init_def target_ok_def)
  from act_run_targets [OF this assms(3), of E cfg steps]
  have w: "table_ok (wd_table w)" "lock_row E (wd_table w) = lock_row E t1"
    unfolding assms(4) by (simp_all add: targets_ok_def)
  then show ?thesis using Acquire_busy(1) [OF w(1) _ r(2,3) assms(5)] r(1) by simp
qed

theorem requests_leave_system_lock_witness:
  "let t1 = snd (Acquire_run example_env (Some example_service) (\<lambda>_. Works) 0 ''update'' 0 empty_table);
       w = idem_world_run example_env DefaultIdempotencyConfig [example_opts]
             (map (\<lambda>(p, inp). Act p inp) [(0, ok_input 5), (0, ok_input 5), (0, ok_input 5), (0, ok_input 5)])
             (idem_init [example_opts] \<lparr> wd_table := t1 \<rparr>)
   in wd_done w = [(''pay'', ''6b31'')] \<and>
      (\<exists>e. fst (Acquire_run example_env (Some example_service) (\<lambda>_. Works) 0 ''restart'' Second (wd_table w)) = Inl e)"
proof -
  let ?a = "Acquire_run example_env (Some example_service) (\<lambda>_. Works) 0 ''update'' 0 empty_table"
  let ?steps = "[(0, ok_input 5), (0, ok_input 5), (0, ok_input 5), (0, ok_input 5)]"
  let ?w = "idem_world_run example_env DefaultIdempotencyConfig [example_opts] (map (\<lambda>(p, inp). Act p inp) ?steps)
      (idem_init [example_opts] \<lparr> wd_table := snd ?a \<rparr>)"
  have g: "fst ?a = Inr \<lparr> sl_recordID = 1, sl_operationID = ''update'', sl_renewing = True \<rparr>" by code_simp
  then have eq: "?a = (Inr \<lparr> sl_recordID = 1, sl_operationID = ''update'', sl_renewing = True \<rparr>, snd ?a)"
    by (metis prod.collapse)
  have lease: "Second < 0 + ss_lease example_service" by code_simp
  have scope: "\<forall>opts \<in> set [example_opts]. op_Scope opts \<noteq> systemOperationLockScope" by code_simp
  have "wd_done ?w = [(''pay'', ''6b31'')]" by code_simp
  moreover have "\<exists>e. fst (Acquire_run example_env (Some example_service) (\<lambda>_. Works) 0 ''restart'' Second (wd_table ?w)) = Inl e"
    using requests_leave_system_lock [OF table_ok_empty eq scope refl lease] by blast
  ultimately show ?thesis by (simp add: Let_def)
qed

end
